(* ===== verification/Prelude.thy ===== *)
theory Prelude
  imports Main "HOL-Library.Multiset" "HOL-Library.Product_Lexorder"
    "HOL-Library.Char_ord" "HOL-Library.List_Lexorder"
begin

text \<open>
  The prelude of the development: the fact collections, first-index search, the
  model of Go's \<^verbatim>\<open>sort.SliceStable\<close> and the interface that a comparison
  function has to meet for the sort to have one well-defined result.
\<close>

named_theorems model_simps \<open>unfolding equations of the modelled operations\<close>
named_theorems inv_intros \<open>introduction rules that preserve a component's invariant\<close>

type_synonym ('e, 'a) result = "'e + 'a"

subsection \<open>First index\<close>

fun find_index :: "('a \<Rightarrow> bool) \<Rightarrow> 'a list \<Rightarrow> nat option" where
  "find_index P [] = None"
| "find_index P (x # xs) = (if P x then Some 0 else map_option Suc (find_index P xs))"

lemma find_index_None [simp]: "find_index P xs = None \<longleftrightarrow> (\<forall>x\<in>set xs. \<not> P x)"
  by (induction xs) auto

lemma find_index_SomeD:
  "find_index P xs = Some i \<Longrightarrow> i < length xs \<and> P (xs ! i) \<and> (\<forall>j<i. \<not> P (xs ! j))"
proof (induction xs arbitrary: i)
  case Nil
  then show ?case by simp
next
  case (Cons x xs)
  show ?case
  proof (cases "P x")
    case True
    with Cons.prems show ?thesis by simp
  next
    case False
    with Cons.prems obtain k where k: "find_index P xs = Some k" "i = Suc k"
      by auto
    from Cons.IH [OF k(1)] k(2) False show ?thesis
      by (auto simp: less_Suc_eq_0_disj)
  qed
qed

lemma find_index_less: "find_index P xs = Some i \<Longrightarrow> i < length xs"
  by (blast dest: find_index_SomeD)

lemma find_index_sat: "find_index P xs = Some i \<Longrightarrow> P (xs ! i)"
  by (blast dest: find_index_SomeD)

lemma find_index_ex: "x \<in> set xs \<Longrightarrow> P x \<Longrightarrow> \<exists>i. find_index P xs = Some i"
  by (metis find_index_None not_None_eq)

lemma map_nth_indices [simp]: "map ((!) xs) [0..<length xs] = xs"
  by (rule map_nth)

lemma mset_map_cong_mset: "mset xs = mset ys \<Longrightarrow> mset (map f xs) = mset (map f ys)"
  by simp

subsection \<open>The stable sort\<close>

text \<open>
  \<^verbatim>\<open>sort.SliceStable\<close> keeps the elements the comparison does not separate in
  their input order.  The model is the insertion sort the library runs on each
  block: an element moves left past its predecessors while \<open>lt\<close> says so.
  The accumulator holds the sorted prefix in reverse, so its head is the
  immediate predecessor.  The library merges longer inputs block by block; under
  the contract \<open>key_order\<close> below the stable result is unique, so the two agree.
\<close>

fun sift :: "('a \<Rightarrow> 'a \<Rightarrow> bool) \<Rightarrow> 'a \<Rightarrow> 'a list \<Rightarrow> 'a list" where
  "sift lt x [] = [x]"
| "sift lt x (y # ys) = (if lt x y then y # sift lt x ys else x # y # ys)"

definition go_stable_sort :: "('a \<Rightarrow> 'a \<Rightarrow> bool) \<Rightarrow> 'a list \<Rightarrow> 'a list" where
  "go_stable_sort lt xs = rev (foldl (\<lambda>acc x. sift lt x acc) [] xs)"

lemma mset_sift [simp]: "mset (sift lt x ys) = add_mset x (mset ys)"
  by (induction ys) auto

lemma set_sift [simp]: "set (sift lt x ys) = insert x (set ys)"
  by (metis mset_sift set_mset_add_mset_insert set_mset_mset)

lemma mset_sift_fold: "mset (foldl (\<lambda>acc x. sift lt x acc) acc xs) = mset acc + mset xs"
  by (induction xs arbitrary: acc) auto

lemma mset_go_stable_sort [simp]: "mset (go_stable_sort lt xs) = mset xs"
  by (simp add: go_stable_sort_def mset_sift_fold)

lemma set_go_stable_sort [simp]: "set (go_stable_sort lt xs) = set xs"
  by (metis mset_go_stable_sort set_mset_mset)

lemma length_go_stable_sort [simp]: "length (go_stable_sort lt xs) = length xs"
  by (metis mset_go_stable_sort size_mset)

lemma distinct_go_stable_sort [simp]: "distinct (go_stable_sort lt xs) = distinct xs"
  by (metis mset_go_stable_sort mset_eq_imp_distinct_iff)

lemma sift_cong:
  "(\<And>y. y \<in> set ys \<Longrightarrow> lt x y = lt' x y) \<Longrightarrow> sift lt x ys = sift lt' x ys"
  by (induction ys) auto

lemma sift_fold_cong:
  assumes "distinct (rev acc @ xs)" and "\<And>x y. x \<noteq> y \<Longrightarrow> lt x y = lt' x y"
  shows "foldl (\<lambda>acc x. sift lt x acc) acc xs = foldl (\<lambda>acc x. sift lt' x acc) acc xs"
  using assms(1)
proof (induction xs arbitrary: acc)
  case Nil
  then show ?case by simp
next
  case (Cons x xs)
  have eq: "sift lt x acc = sift lt' x acc"
    using Cons.prems by (intro sift_cong assms(2)) auto
  have "distinct (sift lt' x acc) = distinct (x # acc)"
    by (rule mset_eq_imp_distinct_iff) simp
  with Cons.prems have "distinct (rev (sift lt' x acc) @ xs)" by auto
  from Cons.IH [OF this] eq show ?case by simp
qed

text \<open>Sorting by a key into a linear order: the reference behaviour.\<close>

lemma sift_key_sorted:
  fixes key :: "'a \<Rightarrow> 'b::linorder"
  assumes "sorted (map key (rev ys))"
  shows "sorted (map key (rev (sift (\<lambda>a b. key a < key b) x ys)))"
  using assms
  by (induction ys) (auto simp: sorted_append)

lemma sift_key_filter:
  fixes key :: "'a \<Rightarrow> 'b::linorder"
  assumes "sorted (map key (rev ys))"
  shows "filter (\<lambda>a. key a = k) (rev (sift (\<lambda>a b. key a < key b) x ys))
       = filter (\<lambda>a. key a = k) (rev ys @ [x])"
  using assms
proof (induction ys)
  case Nil
  then show ?case by simp
next
  case (Cons y ys)
  then show ?case by (auto simp: sorted_append)
qed

lemma sift_fold_key:
  fixes key :: "'a \<Rightarrow> 'b::linorder"
  assumes "sorted (map key (rev acc))"
  defines "r \<equiv> \<lambda>acc xs. rev (foldl (\<lambda>acc x. sift (\<lambda>a b. key a < key b) x acc) acc xs)"
  shows "sorted (map key (r acc xs)) \<and>
    filter (\<lambda>a. key a = k) (r acc xs) = filter (\<lambda>a. key a = k) (rev acc @ xs)"
  using assms(1) unfolding r_def
proof (induction xs arbitrary: acc)
  case Nil
  then show ?case by simp
next
  case (Cons x xs)
  from Cons.IH [OF sift_key_sorted [OF Cons.prems, of x]] sift_key_filter [OF Cons.prems, of k x]
  show ?case by simp
qed

lemma go_stable_sort_key:
  fixes key :: "'a \<Rightarrow> 'b::linorder"
  shows "go_stable_sort (\<lambda>a b. key a < key b) xs = sort_key key xs"
proof (rule properties_for_sort_key [symmetric])
  show "mset (go_stable_sort (\<lambda>a b. key a < key b) xs) = mset xs" by simp
  show "sorted (map key (go_stable_sort (\<lambda>a b. key a < key b) xs))"
    using sift_fold_key [of key "[]" xs] by (simp add: go_stable_sort_def)
  show "filter (\<lambda>x. key k = key x) (go_stable_sort (\<lambda>a b. key a < key b) xs)
      = filter (\<lambda>x. key k = key x) xs" for k
    using sift_fold_key [of key "[]" xs "key k"] by (simp add: go_stable_sort_def eq_commute)
qed

subsection \<open>Sorting positions\<close>

text \<open>
  The program often sorts positions and breaks ties by the position itself, which
  is the stable sort of the elements.
\<close>

lemma map_insort_key: "map g (insort_key (\<lambda>x. f (g x)) x ys) = insort_key f (g x) (map g ys)"
  by (induction ys) auto

lemma map_sort_key: "map g (sort_key (\<lambda>x. f (g x)) xs) = sort_key f (map g xs)"
  by (induction xs) (auto simp: map_insort_key)

lemma sort_key_tiebreak:
  fixes xs :: "'a::linorder list" and h :: "'a \<Rightarrow> 'b::linorder"
  assumes "sorted xs" "distinct xs"
  shows "sort_key (\<lambda>i. (h i, i)) xs = sort_key h xs"
proof (rule properties_for_sort_key [symmetric])
  let ?ys = "sort_key (\<lambda>i. (h i, i)) xs"
  show "mset ?ys = mset xs" by simp
  have sorted: "sorted (map (\<lambda>i. (h i, i)) ?ys)" by simp
  then show "sorted (map h ?ys)"
    by (simp add: sorted_map less_eq_prod_def) (rule sorted_wrt_mono_rel, auto)
  fix k
  have "sorted (map (\<lambda>i. (h i, i)) (filter (\<lambda>x. h k = h x) ?ys))"
    using sorted by (rule sorted_filter)
  then have "sorted (filter (\<lambda>x. h k = h x) ?ys)"
    by (simp add: sorted_map) (rule sorted_wrt_mono_rel, auto simp: less_eq_prod_def)
  moreover have "sorted (filter (\<lambda>x. h k = h x) xs)"
    using sorted_filter [of "\<lambda>x. x" xs] assms(1) by simp
  ultimately show "filter (\<lambda>x. h k = h x) ?ys = filter (\<lambda>x. h k = h x) xs"
    using assms(2) by (intro sorted_distinct_set_unique) auto
qed

subsection \<open>The contract of a comparison function\<close>

text \<open>
  Every comparison the program hands to the sort ranks elements by a key in a
  linear order.  Some comparisons are only meaningful between two different
  elements (they break a tie in favour of one element without asking whether the
  other is the same one); those are covered for inputs without repetition.
\<close>

locale key_order =
  fixes lt :: "'a \<Rightarrow> 'a \<Rightarrow> bool" and key :: "'a \<Rightarrow> 'b::linorder"
  assumes less_key: "x \<noteq> y \<Longrightarrow> lt x y \<longleftrightarrow> key x < key y"
begin

lemma sort_distinct: "distinct xs \<Longrightarrow> go_stable_sort lt xs = sort_key key xs"
  using sift_fold_cong [of "[]" xs lt "\<lambda>a b. key a < key b"] less_key
  by (simp add: go_stable_sort_def flip: go_stable_sort_key)

lemma sorted_distinct: "distinct xs \<Longrightarrow> sorted (map key (go_stable_sort lt xs))"
  by (simp add: sort_distinct)

end

locale key_order_irrefl = key_order +
  assumes less_irrefl: "\<not> lt x x"
begin

lemma less_eq_key: "lt = (\<lambda>a b. key a < key b)"
  using less_key less_irrefl by (metis order_less_irrefl)

lemma sort_all: "go_stable_sort lt xs = sort_key key xs"
  by (subst less_eq_key) (rule go_stable_sort_key)

lemma sorted_all: "sorted (map key (go_stable_sort lt xs))"
  by (simp add: sort_all)

end

text \<open>
  \<^verbatim>\<open>sort.Strings\<close> orders strings bytewise; its result is the unique sorted
  permutation whichever algorithm runs, since equal strings are interchangeable.
\<close>

definition sort_strings :: "string list \<Rightarrow> string list" where
  "sort_strings xs = go_stable_sort (<) xs"

interpretation strings: key_order_irrefl "(<) :: string \<Rightarrow> string \<Rightarrow> bool" "\<lambda>s. s"
  by unfold_locales auto

lemma sorted_sort_strings [simp]: "sorted (sort_strings xs)"
  using strings.sorted_all [of xs] by (simp add: sort_strings_def)

lemma mset_sort_strings [simp]: "mset (sort_strings xs) = mset xs"
  by (simp add: sort_strings_def)

lemma set_sort_strings [simp]: "set (sort_strings xs) = set xs"
  by (simp add: sort_strings_def)

lemma distinct_sort_strings [simp]: "distinct (sort_strings xs) = distinct xs"
  by (simp add: sort_strings_def)

lemma sort_strings_eq_Nil [simp]: "sort_strings xs = [] \<longleftrightarrow> xs = []"
  by (metis set_sort_strings set_empty)

lemma sort_strings_Nil [simp]: "sort_strings [] = []"
  by simp

lemma sort_strings_sort: "sort_strings xs = sort xs"
  using strings.sort_all [of xs] by (simp add: sort_strings_def)

lemma sort_strings_sorted: "sorted xs \<Longrightarrow> sort_strings xs = xs"
  by (simp add: sort_strings_sort sorted_sort_id)

subsection \<open>Keeping the first occurrence\<close>

text \<open>
  The loop with a \<^verbatim>\<open>seen\<close> set that several components share: an element that
  was met before is skipped.
\<close>

fun dedup_seen :: "'a set \<Rightarrow> 'a list \<Rightarrow> 'a list" where
  "dedup_seen seen [] = []"
| "dedup_seen seen (x # xs) =
     (if x \<in> seen then dedup_seen seen xs else x # dedup_seen (insert x seen) xs)"

lemma set_dedup_seen [simp]: "set (dedup_seen seen xs) = set xs - seen"
  by (induction xs arbitrary: seen) auto

lemma distinct_dedup_seen [simp]: "distinct (dedup_seen seen xs)"
  by (induction xs arbitrary: seen) auto

lemma dedup_seen_id: "distinct xs \<Longrightarrow> set xs \<inter> seen = {} \<Longrightarrow> dedup_seen seen xs = xs"
  by (induction xs arbitrary: seen) auto

end
