(* ===== verification/Go_Lib.thy ===== *)
theory Go_Lib
  imports Prelude "HOL-Library.Word"
begin

text \<open>
  What the modelled code uses of Go's \<^verbatim>\<open>strings\<close>, \<^verbatim>\<open>strconv\<close> and map types.  A Go string is
  a byte string, so it is a list of characters here and every length counts bytes.

  \<^verbatim>\<open>strings.ToLower\<close> maps an all-ASCII string bytewise; a string with a byte outside ASCII goes
  through the Unicode case tables, which are generated data outside the repository.  They are the
  parameter \<open>u\<close>: what \<^verbatim>\<open>ToLower\<close> returns for such a string.
\<close>

subsection \<open>ASCII and case\<close>

definition ascii :: "char \<Rightarrow> bool" where
  "ascii c \<longleftrightarrow> (of_char c :: nat) < 128"

definition ascii_lower :: "char \<Rightarrow> char" where
  "ascii_lower c =
     (let n = (of_char c :: nat) in if 65 \<le> n \<and> n \<le> 90 then char_of (n + 32) else c)"

type_synonym case_table = "string \<Rightarrow> string"

definition to_lower :: "case_table \<Rightarrow> string \<Rightarrow> string" where
  "to_lower u s = (if list_all ascii s then map ascii_lower s else u s)"

lemma of_char_ascii_lower:
  "(of_char (ascii_lower c) :: nat) =
     (let n = (of_char c :: nat) in if 65 \<le> n \<and> n \<le> 90 then n + 32 else n)"
  by (simp add: ascii_lower_def Let_def of_char_of take_bit_eq_mod)

lemma ascii_lower_idem [simp]: "ascii_lower (ascii_lower c) = ascii_lower c"
  using of_char_ascii_lower [of c]
  by (auto simp: ascii_lower_def [of "ascii_lower c"] Let_def split: if_splits)

lemma ascii_ascii_lower [simp]: "ascii (ascii_lower c) = ascii c"
  by (simp add: ascii_def of_char_ascii_lower Let_def)

lemma to_lower_ascii [simp]: "list_all ascii s \<Longrightarrow> to_lower u s = map ascii_lower s"
  by (simp add: to_lower_def)

text \<open>Evaluation of the byte functions on literals.\<close>

lemmas go_eval = ascii_def ascii_lower_def char_of_def bit_Suc_0_iff Let_def

lemma to_lower_Nil [simp]: "to_lower u [] = []"
  by simp

lemma to_lower_ascii_idem: "list_all ascii s \<Longrightarrow> to_lower u (to_lower u s) = to_lower u s"
  by (simp add: list_all_iff)

subsection \<open>Prefixes, suffixes, substrings\<close>

definition has_prefix :: "string \<Rightarrow> string \<Rightarrow> bool" where
  "has_prefix p s \<longleftrightarrow> take (length p) s = p"

definition has_suffix :: "string \<Rightarrow> string \<Rightarrow> bool" where
  "has_suffix p s \<longleftrightarrow> length p \<le> length s \<and> drop (length s - length p) s = p"

fun contains :: "string \<Rightarrow> string \<Rightarrow> bool" where
  "contains p [] = (p = [])"
| "contains p (c # s) = (has_prefix p (c # s) \<or> contains p s)"

definition trim_prefix :: "string \<Rightarrow> string \<Rightarrow> string" where
  "trim_prefix p s = (if has_prefix p s then drop (length p) s else s)"

definition trim_suffix :: "string \<Rightarrow> string \<Rightarrow> string" where
  "trim_suffix p s = (if has_suffix p s then take (length s - length p) s else s)"

lemma has_prefix_Nil [simp]: "has_prefix [] s"
  by (simp add: has_prefix_def)

lemma has_prefix_append: "has_prefix p s \<longleftrightarrow> (\<exists>t. s = p @ t)"
  unfolding has_prefix_def by (metis append_eq_conv_conj append_take_drop_id)

lemma has_suffix_append: "has_suffix p s \<longleftrightarrow> (\<exists>t. s = t @ p)"
proof
  assume "has_suffix p s"
  then have "s = take (length s - length p) s @ p"
    unfolding has_suffix_def by (metis append_take_drop_id)
  then show "\<exists>t. s = t @ p" ..
next
  assume "\<exists>t. s = t @ p"
  then show "has_suffix p s" by (auto simp: has_suffix_def)
qed

lemma trim_suffix_append [simp]: "trim_suffix p (s @ p) = s"
  by (simp add: trim_suffix_def has_suffix_append)

lemma length_trim_suffix: "length (trim_suffix p s) \<le> length s"
  by (simp add: trim_suffix_def)

subsection \<open>White space\<close>

text \<open>
  The UTF-8 encodings of the runes for which \<^verbatim>\<open>unicode.IsSpace\<close> holds.  Each is the only
  encoding of its rune, so trimming whole runes is stripping these byte sequences.
\<close>

definition space_runes :: "string list" where
  "space_runes =
     [[CHR 0x09], [CHR 0x0A], [CHR 0x0B], [CHR 0x0C], [CHR 0x0D], [CHR 0x20],
      [CHR 0xC2, CHR 0x85], [CHR 0xC2, CHR 0xA0], [CHR 0xE1, CHR 0x9A, CHR 0x80],
      [CHR 0xE2, CHR 0x80, CHR 0x80], [CHR 0xE2, CHR 0x80, CHR 0x81], [CHR 0xE2, CHR 0x80, CHR 0x82],
      [CHR 0xE2, CHR 0x80, CHR 0x83], [CHR 0xE2, CHR 0x80, CHR 0x84], [CHR 0xE2, CHR 0x80, CHR 0x85],
      [CHR 0xE2, CHR 0x80, CHR 0x86], [CHR 0xE2, CHR 0x80, CHR 0x87], [CHR 0xE2, CHR 0x80, CHR 0x88],
      [CHR 0xE2, CHR 0x80, CHR 0x89], [CHR 0xE2, CHR 0x80, CHR 0x8A], [CHR 0xE2, CHR 0x80, CHR 0xA8],
      [CHR 0xE2, CHR 0x80, CHR 0xA9], [CHR 0xE2, CHR 0x80, CHR 0xAF], [CHR 0xE2, CHR 0x81, CHR 0x9F],
      [CHR 0xE3, CHR 0x80, CHR 0x80]]"

function strip_runes :: "string list \<Rightarrow> string \<Rightarrow> string" where
  "strip_runes rs s =
     (case find (\<lambda>p. p \<noteq> [] \<and> has_prefix p s) rs of
        None \<Rightarrow> s
      | Some p \<Rightarrow> strip_runes rs (drop (length p) s))"
  by pat_completeness auto
termination
  by (relation "measure (\<lambda>(rs, s). length s)")
    (auto simp: find_Some_iff has_prefix_append)

declare strip_runes.simps [simp del]

definition trim_left :: "string \<Rightarrow> string" where
  "trim_left s = strip_runes space_runes s"

definition trim_right :: "string \<Rightarrow> string" where
  "trim_right s = rev (strip_runes (map rev space_runes) (rev s))"

definition trim_space :: "string \<Rightarrow> string" where
  "trim_space s = trim_right (trim_left s)"

lemma strip_runes_stop:
  "strip_runes rs s = s \<longleftrightarrow> find (\<lambda>p. p \<noteq> [] \<and> has_prefix p s) rs = None"
proof -
  have shrink: "length (strip_runes rs s) \<le> length s" for s
  proof (induction rs s rule: strip_runes.induct)
    case (1 rs s)
    then show ?case
      by (subst strip_runes.simps) (auto split: option.split intro: order_trans diff_le_self)
  qed
  show ?thesis
  proof
    assume eq: "strip_runes rs s = s"
    show "find (\<lambda>p. p \<noteq> [] \<and> has_prefix p s) rs = None"
    proof (rule ccontr)
      assume "find (\<lambda>p. p \<noteq> [] \<and> has_prefix p s) rs \<noteq> None"
      then obtain p where p: "find (\<lambda>p. p \<noteq> [] \<and> has_prefix p s) rs = Some p" by blast
      then have "p \<noteq> []" "has_prefix p s" by (auto simp: find_Some_iff)
      then have "length (drop (length p) s) < length s" by (auto simp: has_prefix_append)
      moreover have "strip_runes rs s = strip_runes rs (drop (length p) s)"
        using p by (subst strip_runes.simps) simp
      ultimately show False using eq shrink [of "drop (length p) s"] by simp
    qed
  next
    assume "find (\<lambda>p. p \<noteq> [] \<and> has_prefix p s) rs = None"
    then show "strip_runes rs s = s" by (subst strip_runes.simps) simp
  qed
qed

lemma strip_runes_idem [simp]: "strip_runes rs (strip_runes rs s) = strip_runes rs s"
proof (induction rs s rule: strip_runes.induct)
  case (1 rs s)
  show ?case
  proof (cases "find (\<lambda>p. p \<noteq> [] \<and> has_prefix p s) rs")
    case None
    then show ?thesis by (simp add: strip_runes_stop [THEN iffD2])
  next
    case (Some p)
    with "1" [OF Some] show ?thesis by (simp add: strip_runes.simps [of rs s])
  qed
qed

definition trimmed :: "string \<Rightarrow> bool" where
  "trimmed s \<longleftrightarrow> (\<forall>p\<in>set space_runes. \<not> has_prefix p s \<and> \<not> has_suffix p s)"

lemma space_rune_kinds_all:
  "list_all (\<lambda>p. p \<noteq> [] \<and> (tl p = [] \<and> (of_char (hd p) :: nat) < 33 \<or> list_all (\<lambda>c. \<not> ascii c) p)) space_runes"
  by code_simp

lemma space_rune_kinds:
  assumes "p \<in> set space_runes"
  obtains (one) c where "p = [c]" "(of_char c :: nat) < 33" | (multi) c where "c \<in> set p" "\<not> ascii c"
proof -
  have "p \<noteq> []" and k: "tl p = [] \<and> (of_char (hd p) :: nat) < 33 \<or> list_all (\<lambda>c. \<not> ascii c) p"
    using space_rune_kinds_all assms by (simp_all add: list_all_iff)
  then obtain c cs where p: "p = c # cs" by (cases p) auto
  show thesis
  proof (cases "cs = [] \<and> (of_char c :: nat) < 33")
    case True
    then show thesis using one p by simp
  next
    case False
    then have "\<not> ascii c" using k p by auto
    then show thesis using multi [of c] p by simp
  qed
qed

lemma space_rune_not_Nil: "p \<in> set space_runes \<Longrightarrow> p \<noteq> []"
  by (erule space_rune_kinds) auto

lemma has_prefix_rev: "has_prefix (rev p) (rev s) \<longleftrightarrow> has_suffix p s"
  by (metis has_prefix_append has_suffix_append rev_append rev_rev_ident)

lemma no_rune_prefix: "find (\<lambda>p. p \<noteq> [] \<and> has_prefix p s) space_runes = None \<longleftrightarrow> (\<forall>p\<in>set space_runes. \<not> has_prefix p s)"
  using space_rune_not_Nil by (auto simp: find_None_iff)

lemma no_rune_suffix:
  "find (\<lambda>p. p \<noteq> [] \<and> has_prefix p (rev s)) (map rev space_runes) = None \<longleftrightarrow>
     (\<forall>p\<in>set space_runes. \<not> has_suffix p s)"
  using space_rune_not_Nil by (auto simp: find_None_iff has_prefix_rev)

lemma trim_space_trimmed: "trimmed s \<Longrightarrow> trim_space s = s"
  by (simp add: trimmed_def trim_space_def trim_left_def trim_right_def strip_runes_stop [THEN iffD2]
      no_rune_prefix no_rune_suffix)

lemma strip_runes_drop: "\<exists>n. strip_runes rs s = drop n s"
proof (induction rs s rule: strip_runes.induct)
  case (1 rs s)
  show ?case
  proof (cases "find (\<lambda>p. p \<noteq> [] \<and> has_prefix p s) rs")
    case None
    then show ?thesis by (intro exI [of _ 0]) (simp add: strip_runes.simps [of rs s])
  next
    case (Some p)
    with "1" [OF Some] show ?thesis by (auto simp: strip_runes.simps [of rs s])
  qed
qed

lemma trimmed_trim_space [simp]: "trimmed (trim_space s)"
proof -
  let ?t = "trim_left s"
  have pre: "\<forall>p\<in>set space_runes. \<not> has_prefix p ?t"
    using strip_runes_stop [of space_runes ?t] by (simp add: trim_left_def no_rune_prefix)
  obtain n where n: "strip_runes (map rev space_runes) (rev ?t) = drop n (rev ?t)"
    using strip_runes_drop by blast
  then have eq: "trim_space s = take (length ?t - n) ?t"
    by (simp add: trim_space_def trim_right_def rev_drop)
  have "\<forall>p\<in>set space_runes. \<not> has_suffix p (trim_space s)"
    using strip_runes_stop [of "map rev space_runes" "rev (trim_space s)"] no_rune_suffix [of "trim_space s"]
    by (simp add: trim_space_def trim_right_def)
  moreover have "\<not> has_prefix p (trim_space s)" if "p \<in> set space_runes" for p
    using pre that unfolding eq by (metis append_assoc append_take_drop_id has_prefix_append)
  ultimately show ?thesis by (simp add: trimmed_def)
qed

lemma trim_space_idem [simp]: "trim_space (trim_space s) = trim_space s"
  by (rule trim_space_trimmed) simp

lemma ascii_take_drop: "list_all ascii s \<Longrightarrow> list_all ascii (take n s) \<and> list_all ascii (drop n s)"
  by (metis append_take_drop_id list_all_append)

lemma trim_space_slice: "\<exists>m n. trim_space s = take n (drop m s)"
proof -
  obtain m where m: "trim_left s = drop m s" unfolding trim_left_def using strip_runes_drop by blast
  obtain n where n: "strip_runes (map rev space_runes) (rev (trim_left s)) = drop n (rev (trim_left s))"
    using strip_runes_drop by blast
  have "trim_space s = take (length (trim_left s) - n) (trim_left s)"
    unfolding trim_space_def trim_right_def n by (rule trans [OF arg_cong [OF drop_rev]]) simp
  then show ?thesis unfolding m by blast
qed

lemma ascii_trim_space: "list_all ascii s \<Longrightarrow> list_all ascii (trim_space s)"
  using trim_space_slice [of s] ascii_take_drop by metis

lemma ascii_lower_fixed:
  assumes "ascii_lower d = c" and "(of_char c :: nat) < 33"
  shows "d = c"
proof (cases "65 \<le> (of_char d :: nat) \<and> (of_char d :: nat) \<le> 90")
  case True
  then have "(of_char c :: nat) = of_char d + 32" using of_char_ascii_lower [of d] assms(1) by simp
  with True assms(2) show ?thesis by simp
next
  case False
  then have "ascii_lower d = d" unfolding ascii_lower_def Let_def by (rule if_not_P)
  with assms(1) show ?thesis by simp
qed

text \<open>A string of bytes above the space is trimmed.\<close>

lemma trimmed_visible:
  assumes "list_all (\<lambda>c. ascii c \<and> 33 \<le> (of_char c :: nat)) s"
  shows "trimmed s"
proof -
  have "s \<noteq> p @ t \<and> s \<noteq> t @ p" if "p \<in> set space_runes" for p t
    using that
  proof (cases rule: space_rune_kinds)
    case (one c)
    then show ?thesis using assms by auto
  next
    case (multi c)
    then have "c \<notin> set s" using assms by (auto simp: list_all_iff)
    with multi(1) show ?thesis by (metis Un_iff set_append)
  qed
  then show ?thesis by (auto simp: trimmed_def has_prefix_append has_suffix_append)
qed

lemma trimmed_lower:
  assumes "trimmed s" and "list_all ascii s"
  shows "trimmed (map ascii_lower s)"
proof -
  have asc: "c \<in> set (map ascii_lower s) \<Longrightarrow> ascii c" for c using assms(2) by (auto simp: list_all_iff)
  have no: "map ascii_lower s \<noteq> p @ t \<and> map ascii_lower s \<noteq> t @ p" if p: "p \<in> set space_runes" for p t
    using p
  proof (cases rule: space_rune_kinds)
    case (one c)
    have "s \<noteq> c # t" "s \<noteq> t @ [c]" for t
      using assms(1) p one(1) by (auto simp: trimmed_def has_prefix_append has_suffix_append)
    then show ?thesis
      using one ascii_lower_fixed by (auto simp: map_eq_append_conv map_eq_Cons_conv)
  next
    case (multi c)
    then have "c \<notin> set (map ascii_lower s)" using asc by blast
    with multi(1) show ?thesis by (metis Un_iff set_append)
  qed
  then show ?thesis by (auto simp: trimmed_def has_prefix_append has_suffix_append)
qed

subsection \<open>Splitting and joining\<close>

text \<open>\<^verbatim>\<open>strings.Split\<close> on a one-byte separator: always at least one part.\<close>

fun split_on :: "char \<Rightarrow> string \<Rightarrow> string list" where
  "split_on c [] = [[]]"
| "split_on c (x # xs) =
     (if x = c then [] # split_on c xs
      else case split_on c xs of [] \<Rightarrow> [[x]] | w # ws \<Rightarrow> (x # w) # ws)"

fun join :: "string \<Rightarrow> string list \<Rightarrow> string" where
  "join sep [] = []"
| "join sep [w] = w"
| "join sep (w # ws) = w @ sep @ join sep ws"

lemma split_on_not_Nil [simp]: "split_on c s \<noteq> []"
  by (induction s) (auto split: list.split)

lemma join_split_on [simp]: "join [c] (split_on c s) = s"
proof (induction s)
  case Nil
  then show ?case by simp
next
  case (Cons x s)
  then show ?case
    by (cases "split_on c s"; cases "tl (split_on c s)") auto
qed

lemma split_on_no_sep: "w \<in> set (split_on c s) \<Longrightarrow> c \<notin> set w"
proof (induction s arbitrary: w)
  case Nil
  then show ?case by simp
next
  case (Cons x s)
  then show ?case
    by (cases "split_on c s") (auto split: if_splits)
qed

lemma split_on_join:
  "ws \<noteq> [] \<Longrightarrow> \<forall>w\<in>set ws. c \<notin> set w \<Longrightarrow> split_on c (join [c] ws) = ws"
proof (induction ws rule: induct_list012)
  case 1
  then show ?case by simp
next
  case (2 w)
  have "c \<notin> set w \<Longrightarrow> split_on c w = [w]" by (induction w) auto
  with 2 show ?case by simp
next
  case (3 w v ws)
  have "c \<notin> set w \<Longrightarrow> split_on c (w @ c # s) = w # split_on c s" for s
    by (induction w) auto
  with 3 show ?case by simp
qed

text \<open>\<^verbatim>\<open>strings.IndexByte\<close> and \<^verbatim>\<open>strings.Index\<close>, with nothing for a negative result.\<close>

definition index_byte :: "char \<Rightarrow> string \<Rightarrow> nat option" where
  "index_byte c s = find_index (\<lambda>x. x = c) s"

fun index_str :: "string \<Rightarrow> string \<Rightarrow> nat option" where
  "index_str p [] = (if p = [] then Some 0 else None)"
| "index_str p (c # s) =
     (if has_prefix p (c # s) then Some 0 else map_option Suc (index_str p s))"

subsection \<open>Integers\<close>

definition is_digit :: "char \<Rightarrow> bool" where
  "is_digit c \<longleftrightarrow> 48 \<le> (of_char c :: nat) \<and> (of_char c :: nat) \<le> 57"

definition digit_val :: "char \<Rightarrow> nat" where
  "digit_val c = of_char c - 48"

definition dec_val :: "string \<Rightarrow> nat" where
  "dec_val s = foldl (\<lambda>acc c. 10 * acc + digit_val c) 0 s"

text \<open>
  \<^verbatim>\<open>strconv.ParseInt(s, 10, 64)\<close> and \<^verbatim>\<open>strconv.Atoi\<close>: an optional sign, at least one
  decimal digit, and a value in the range of \<^verbatim>\<open>int64\<close>; nothing on an error.
\<close>

definition parse_int :: "string \<Rightarrow> int option" where
  "parse_int s =
     (let neg = (s \<noteq> [] \<and> hd s = CHR ''-'');
          body = (if s \<noteq> [] \<and> (hd s = CHR ''-'' \<or> hd s = CHR ''+'') then tl s else s)
      in if body = [] \<or> \<not> list_all is_digit body then None
         else let v = (if neg then - int (dec_val body) else int (dec_val body))
              in if - (2 ^ 63) \<le> v \<and> v < 2 ^ 63 then Some v else None)"

abbreviation atoi :: "string \<Rightarrow> int option" where
  "atoi \<equiv> parse_int"

text \<open>\<^verbatim>\<open>%d\<close> of a natural number.\<close>

function nat_str :: "nat \<Rightarrow> string" where
  "nat_str n = (if n < 10 then [char_of (48 + n)] else nat_str (n div 10) @ [char_of (48 + n mod 10)])"
  by pat_completeness auto
termination by (relation "measure (\<lambda>n. n)") auto

declare nat_str.simps [simp del]

definition int_str :: "int \<Rightarrow> string" where
  "int_str i = (if i < 0 then CHR ''-'' # nat_str (nat (- i)) else nat_str (nat i))"

lemma digit_char [simp]:
  "n < 10 \<Longrightarrow> is_digit (char_of (48 + n))" "n < 10 \<Longrightarrow> digit_val (char_of (48 + n)) = n"
  by (simp_all add: is_digit_def digit_val_def of_char_of take_bit_eq_mod)

lemma nat_str_digits: "list_all is_digit (nat_str n) \<and> nat_str n \<noteq> []"
proof (induction n rule: nat_str.induct)
  case (1 n)
  then show ?case by (subst (1 2) nat_str.simps) (auto simp: nat_str.simps [of n])
qed

lemma dec_val_nat_str [simp]: "dec_val (nat_str n) = n"
proof (induction n rule: nat_str.induct)
  case (1 n)
  then show ?case by (subst nat_str.simps) (auto simp: dec_val_def)
qed

lemma nat_str_inj: "nat_str m = nat_str n \<longleftrightarrow> m = n"
  by (metis dec_val_nat_str)

lemma int_str_inj: "int_str i = int_str j \<longleftrightarrow> i = j"
proof -
  have "hd (nat_str n) \<noteq> CHR ''-''" for n
    using nat_str_digits [of n] by (cases "nat_str n") (auto simp: is_digit_def)
  then have "nat_str n \<noteq> CHR ''-'' # s" for n s by (metis list.sel(1))
  then show ?thesis
    by (auto simp: int_str_def nat_str_inj eq_commute [of "CHR ''-'' # _"] split: if_splits)
qed

subsection \<open>Bytes\<close>

definition byte_of :: "char \<Rightarrow> 8 word" where
  "byte_of c = word_of_nat (of_char c)"

definition char_of_byte :: "8 word \<Rightarrow> char" where
  "char_of_byte b = char_of (unat b)"

lemma char_of_byte_of [simp]: "char_of_byte (byte_of c) = c"
proof -
  have "(of_char c :: nat) < 256" by simp
  then show ?thesis by (simp add: char_of_byte_def byte_of_def unat_of_nat)
qed

lemma byte_of_char_of [simp]: "byte_of (char_of_byte b) = b"
proof -
  have "unat b < 256" using unsigned_less [where ?'a = nat and w = b] by simp
  then show ?thesis by (simp add: char_of_byte_def byte_of_def of_char_of take_bit_eq_mod)
qed

lemma map_char_of_byte_of [simp]: "map (char_of_byte \<circ> byte_of) s = s"
  by (simp add: map_idI)

subsection \<open>Host and port\<close>

text \<open>\<^verbatim>\<open>net.SplitHostPort\<close>: the host and the port, or nothing where it returns an error.\<close>

definition last_index :: "char \<Rightarrow> string \<Rightarrow> nat option" where
  "last_index c s = map_option (\<lambda>i. length s - 1 - i) (index_byte c (rev s))"

definition SplitHostPort :: "string \<Rightarrow> (string \<times> string) option" where
  "SplitHostPort hp =
     (case last_index (CHR '':'') hp of
        None \<Rightarrow> None
      | Some i \<Rightarrow>
          if hd hp = CHR ''[''
          then (case index_byte (CHR '']'') hp of
                  None \<Rightarrow> None
                | Some e \<Rightarrow>
                    if e + 1 \<noteq> i then None
                    else if CHR ''['' \<in> set (drop 1 hp) then None
                    else if CHR '']'' \<in> set (drop (e + 1) hp) then None
                    else Some (take (e - 1) (drop 1 hp), drop (i + 1) hp))
          else if CHR '':'' \<in> set (take i hp) then None
          else if CHR ''['' \<in> set hp \<or> CHR '']'' \<in> set hp then None
          else Some (take i hp, drop (i + 1) hp))"

end
