(* ===== verification/Node_Model.thy ===== *)
theory Node_Model
  imports Prelude
begin

text \<open>
  The shared data model (\<^verbatim>\<open>core/model/model.go\<close>): one normalized proxy server and
  the parts of its configuration.  Go strings are byte strings, so they are HOL
  strings; a pointer that may be nil is an option; Go's \<^verbatim>\<open>int\<close> and \<^verbatim>\<open>int64\<close> fields
  are only compared and printed, so they are integers.
\<close>

type_synonym protocol = string

definition VLESS :: protocol where "VLESS = ''vless''"
definition Hysteria2 :: protocol where "Hysteria2 = ''hysteria2''"
definition Shadowsocks :: protocol where "Shadowsocks = ''shadowsocks''"
definition Trojan :: protocol where "Trojan = ''trojan''"
definition VMess :: protocol where "VMess = ''vmess''"
definition AmneziaWG :: protocol where "AmneziaWG = ''amneziawg''"

lemmas protocol_defs = VLESS_def Hysteria2_def Shadowsocks_def Trojan_def VMess_def AmneziaWG_def

text \<open>REALITY handshake parameters.\<close>

record reality =
  PublicKey :: string
  ShortID :: string
  SpiderX :: string

record tls =
  Enabled :: bool
  ServerName :: string
  Insecure :: bool
  ALPN :: "string list"
  Fingerprint :: string
  Fragment :: bool
  Reality :: "reality option"

text \<open>The stream transport; an empty type is raw TCP.\<close>

record transport =
  TrType :: string
  TrPath :: string
  TrHost :: string
  TrServiceName :: string

record obfs =
  ObfsType :: string
  ObfsPassword :: string

text \<open>(Amnezia)WG key material; the knobs are all zero for plain WireGuard.\<close>

record wireguard =
  PrivateKey :: string
  PeerPublicKey :: string
  PreSharedKey :: string
  LocalAddress :: "string list"
  Jc :: int
  Jmin :: int
  Jmax :: int
  S1 :: int
  S2 :: int
  H1 :: int
  H2 :: int
  H3 :: int
  H4 :: int

record node =
  Protocol :: protocol
  Name :: string
  Server :: string
  Port :: int
  UUID :: string
  Password :: string
  Method :: string
  Flow :: string
  Security :: string
  AlterID :: int
  TLS :: "tls option"
  Transport :: "transport option"
  Obfs :: "obfs option"
  WireGuard :: "wireguard option"
  Extra :: "string \<rightharpoonup> string"

text \<open>The zero values a composite literal leaves in the fields it does not name.\<close>

definition zero_node :: node where
  "zero_node = \<lparr>Protocol = '''', Name = '''', Server = '''', Port = 0, UUID = '''', Password = '''',
     Method = '''', Flow = '''', Security = '''', AlterID = 0, TLS = None, Transport = None,
     Obfs = None, WireGuard = None, Extra = Map.empty\<rparr>"

definition zero_tls :: tls where
  "zero_tls = \<lparr>Enabled = False, ServerName = '''', Insecure = False, ALPN = [],
     Fingerprint = '''', Fragment = False, Reality = None\<rparr>"

definition zero_transport :: transport where
  "zero_transport = \<lparr>TrType = '''', TrPath = '''', TrHost = '''', TrServiceName = ''''\<rparr>"

definition zero_wireguard :: wireguard where
  "zero_wireguard = \<lparr>PrivateKey = '''', PeerPublicKey = '''', PreSharedKey = '''', LocalAddress = [],
     Jc = 0, Jmin = 0, Jmax = 0, S1 = 0, S2 = 0, H1 = 0, H2 = 0, H3 = 0, H4 = 0\<rparr>"

text \<open>A two-hop selection (\<^verbatim>\<open>model.Multihop\<close>) and its two queries.\<close>

record multihop =
  MhEnabled :: bool
  EntryID :: string
  ExitID :: string

definition mh_Valid :: "multihop \<Rightarrow> bool" where
  "mh_Valid m \<longleftrightarrow> MhEnabled m \<and> EntryID m \<noteq> '''' \<and> ExitID m \<noteq> '''' \<and> EntryID m \<noteq> ExitID m"

definition mh_IsZero :: "multihop \<Rightarrow> bool" where
  "mh_IsZero m \<longleftrightarrow> \<not> MhEnabled m \<and> EntryID m = '''' \<and> ExitID m = ''''"

lemma mh_Valid_not_IsZero: "mh_Valid m \<Longrightarrow> \<not> mh_IsZero m"
  by (simp add: mh_Valid_def mh_IsZero_def)

end
