(* ===== verification/Fallback.thy ===== *)
theory Fallback
  imports Node_Model
begin

text \<open>
  The anti-DPI fallback walk (\<^verbatim>\<open>core/fallback\<close>): the \<^verbatim>\<open>Machine\<close> that hands out
  candidate nodes in a deterministic order, its two orderings, the last-good
  memory behind the \<^verbatim>\<open>LastGood\<close> interface, the transport strategies and the
  failure classifier.

  A \<^verbatim>\<open>Machine\<close> holds an interface value, so every operation that consults it takes
  the store's \<^verbatim>\<open>Get\<close> and \<^verbatim>\<open>Set\<close> as arguments and the store itself is a field.
\<close>

section \<open>The last-good store\<close>

locale last_good_store =
  fixes get :: "'s \<Rightarrow> string \<Rightarrow> string option"
    and set_id :: "'s \<Rightarrow> string \<Rightarrow> string \<Rightarrow> 's"
  assumes get_set_same: "get (set_id s p n) p = Some n"
    and get_set_other: "q \<noteq> p \<Longrightarrow> get (set_id s p n) q = get s q"

text \<open>The in-memory store: a map from profile to node ID (the mutex makes each call atomic).\<close>

type_synonym mem_last_good = "string \<rightharpoonup> string"

definition NewMemLastGood :: mem_last_good where
  "NewMemLastGood = Map.empty"

definition mem_Get :: "mem_last_good \<Rightarrow> string \<Rightarrow> string option" where
  "mem_Get s profileID = s profileID"

definition mem_Set :: "mem_last_good \<Rightarrow> string \<Rightarrow> string \<Rightarrow> mem_last_good" where
  "mem_Set s profileID nodeID = s(profileID \<mapsto> nodeID)"

section \<open>The machine\<close>

record attempt =
  NodeID :: string
  Node :: node

record 's machine =
  profileID :: string
  lastGood :: "'s option"
  order :: "attempt list"
  cursor :: nat
  candidates :: "attempt list"
  pref :: "protocol list"
  byLatency :: bool
  latency :: "string \<rightharpoonup> int"

definition DefaultOrder :: "protocol list" where
  "DefaultOrder = [VLESS, Hysteria2, AmneziaWG]"

definition unreachableRTT :: int where
  "unreachableRTT = 2 ^ 62"

text \<open>The rank of a protocol in the preference list; unlisted ones come after all listed.\<close>

definition rank :: "protocol list \<Rightarrow> protocol \<Rightarrow> nat" where
  "rank pr p = (case find_index (\<lambda>pp. pp = p) pr of Some i \<Rightarrow> i | None \<Rightarrow> length pr)"

definition pref_less :: "attempt list \<Rightarrow> protocol list \<Rightarrow> nat \<Rightarrow> nat \<Rightarrow> bool" where
  "pref_less cand pr ia ib =
     (let ra = rank pr (Protocol (Node (cand ! ia))); rb = rank pr (Protocol (Node (cand ! ib)))
      in if ra \<noteq> rb then ra < rb else ia < ib)"

definition rebuildByPreference :: "nat option \<Rightarrow> 's machine \<Rightarrow> 's machine" where
  "rebuildByPreference lastIdx m =
     (let cand = candidates m;
          rest = filter (\<lambda>i. Some i \<noteq> lastIdx) [0..<length cand];
          rest' = go_stable_sort (pref_less cand (pref m)) rest
      in m\<lparr>order := order m @ (case lastIdx of Some i \<Rightarrow> [cand ! i] | None \<Rightarrow> [])
                      @ map (\<lambda>i. cand ! i) rest'\<rparr>)"

text \<open>The measured round trip of a candidate, or the sentinel when there is none.\<close>

definition rtt :: "attempt list \<Rightarrow> (string \<rightharpoonup> int) \<Rightarrow> nat \<Rightarrow> int" where
  "rtt cand lat i =
     (case lat (NodeID (cand ! i)) of Some ms \<Rightarrow> if ms > 0 then ms else unreachableRTT
      | None \<Rightarrow> unreachableRTT)"

definition latency_less ::
    "attempt list \<Rightarrow> (string \<rightharpoonup> int) \<Rightarrow> nat option \<Rightarrow> nat \<Rightarrow> nat \<Rightarrow> bool" where
  "latency_less cand lat lastIdx ia ib =
     (let ra = rtt cand lat ia; rb = rtt cand lat ib
      in if ra \<noteq> rb then ra < rb
         else if Some ia = lastIdx then True
         else if Some ib = lastIdx then False
         else ia < ib)"

definition rebuildByLatency :: "nat option \<Rightarrow> 's machine \<Rightarrow> 's machine" where
  "rebuildByLatency lastIdx m =
     (let cand = candidates m;
          idx = go_stable_sort (latency_less cand (latency m) lastIdx) [0..<length cand]
      in m\<lparr>order := order m @ map (\<lambda>i. cand ! i) idx\<rparr>)"

text \<open>The index of the last-good candidate, if one is recorded and still offered.\<close>

definition last_index :: "('s \<Rightarrow> string \<Rightarrow> string option) \<Rightarrow> 's machine \<Rightarrow> nat option" where
  "last_index get m =
     (case lastGood m of None \<Rightarrow> None
      | Some s \<Rightarrow> (case get s (profileID m) of None \<Rightarrow> None
                   | Some lastID \<Rightarrow> find_index (\<lambda>a. NodeID a = lastID) (candidates m)))"

definition rebuild :: "('s \<Rightarrow> string \<Rightarrow> string option) \<Rightarrow> 's machine \<Rightarrow> 's machine" where
  "rebuild get m0 =
     (let m = m0\<lparr>cursor := 0, order := []\<rparr>;
          lastIdx = last_index get m
      in if byLatency m then rebuildByLatency lastIdx m else rebuildByPreference lastIdx m)"

definition New :: "('s \<Rightarrow> string \<Rightarrow> string option) \<Rightarrow> string \<Rightarrow> attempt list \<Rightarrow> protocol list
    \<Rightarrow> 's option \<Rightarrow> 's machine" where
  "New get pid cand ord lg =
     (let ord' = (if ord = [] then DefaultOrder else ord)
      in rebuild get \<lparr>profileID = pid, lastGood = lg, order = [], cursor = 0, candidates = cand,
           pref = ord', byLatency = False, latency = Map.empty\<rparr>)"

definition NewByLatency :: "('s \<Rightarrow> string \<Rightarrow> string option) \<Rightarrow> string \<Rightarrow> attempt list
    \<Rightarrow> (string \<rightharpoonup> int) \<Rightarrow> 's option \<Rightarrow> 's machine" where
  "NewByLatency get pid cand lat lg =
     rebuild get \<lparr>profileID = pid, lastGood = lg, order = [], cursor = 0, candidates = cand,
       pref = [], byLatency = True, latency = lat\<rparr>"

definition Next :: "'s machine \<Rightarrow> attempt option" where
  "Next m = (if cursor m \<ge> length (order m) then None else Some (order m ! cursor m))"

definition Success :: "('s \<Rightarrow> string \<Rightarrow> string option) \<Rightarrow> ('s \<Rightarrow> string \<Rightarrow> string \<Rightarrow> 's)
    \<Rightarrow> 's machine \<Rightarrow> attempt \<Rightarrow> 's machine" where
  "Success get set_id m a =
     rebuild get (m\<lparr>lastGood := map_option (\<lambda>s. set_id s (profileID m) (NodeID a)) (lastGood m)\<rparr>)"

definition Failure :: "'s machine \<Rightarrow> attempt \<Rightarrow> 's machine" where
  "Failure m a = (if cursor m < length (order m) then m\<lparr>cursor := Suc (cursor m)\<rparr> else m)"

definition Reset :: "('s \<Rightarrow> string \<Rightarrow> string option) \<Rightarrow> 's machine \<Rightarrow> 's machine" where
  "Reset get m = rebuild get m"

definition Exhausted :: "'s machine \<Rightarrow> bool" where
  "Exhausted m \<longleftrightarrow> cursor m \<ge> length (order m)"

definition Order :: "'s machine \<Rightarrow> attempt list" where
  "Order m = order m"

section \<open>Transport strategies\<close>

record strategy =
  StName :: string
  StFingerprint :: string
  StServerName :: string
  StFragment :: bool

definition IsDefault :: "strategy \<Rightarrow> bool" where
  "IsDefault s \<longleftrightarrow> StFingerprint s = '''' \<and> StServerName s = '''' \<and> \<not> StFragment s"

text \<open>The TLS record is copied before it is changed; in HOL every update is a copy.\<close>

definition ApplyTo :: "strategy \<Rightarrow> node \<Rightarrow> node" where
  "ApplyTo s n =
     (if IsDefault s then n
      else case TLS n of None \<Rightarrow> n
      | Some t \<Rightarrow>
          let t1 = (if StFingerprint s \<noteq> '''' then t\<lparr>Fingerprint := StFingerprint s\<rparr> else t);
              t2 = (if StServerName s \<noteq> '''' then t1\<lparr>ServerName := StServerName s\<rparr> else t1);
              t3 = (if StFragment s then t2\<lparr>Fragment := True\<rparr> else t2)
          in n\<lparr>TLS := Some t3\<rparr>)"

definition altServerName :: string where
  "altServerName = ''yastatic.net''"

definition DefaultStrategies :: "strategy list" where
  "DefaultStrategies =
     [\<lparr>StName = ''default'', StFingerprint = '''', StServerName = '''', StFragment = False\<rparr>,
      \<lparr>StName = ''firefox-fp'', StFingerprint = ''firefox'', StServerName = '''', StFragment = False\<rparr>,
      \<lparr>StName = ''alt-sni'', StFingerprint = ''firefox'', StServerName = altServerName, StFragment = False\<rparr>,
      \<lparr>StName = ''tls-fragment'', StFingerprint = ''firefox'', StServerName = altServerName, StFragment = True\<rparr>]"

section \<open>The failure classifier\<close>

datatype failure_class = Unknown | Dead | Censored

definition class_String :: "failure_class \<Rightarrow> string" where
  "class_String c = (case c of Dead \<Rightarrow> ''dead'' | Censored \<Rightarrow> ''censored'' | Unknown \<Rightarrow> ''unknown'')"

datatype tcp_result = TCPIndeterminate | TCPConnected | TCPRefused | TCPTimedOut | TCPUnreachable

record failure_signal =
  TCP :: tcp_result
  HandshakeStalled :: bool

definition ClassifyFailure :: "failure_signal \<Rightarrow> failure_class" where
  "ClassifyFailure sig =
     (case TCP sig of
        TCPRefused \<Rightarrow> Dead
      | TCPUnreachable \<Rightarrow> Dead
      | TCPConnected \<Rightarrow> if HandshakeStalled sig then Censored else Unknown
      | TCPTimedOut \<Rightarrow> Unknown
      | TCPIndeterminate \<Rightarrow> Unknown)"

section \<open>The comparison functions meet the sort's contract\<close>

abbreviation cand_rank :: "attempt list \<Rightarrow> protocol list \<Rightarrow> nat \<Rightarrow> nat" where
  "cand_rank cand pr i \<equiv> rank pr (Protocol (Node (cand ! i)))"

interpretation by_pref: key_order_irrefl "pref_less cand pr" "\<lambda>i. (cand_rank cand pr i, i)"
  for cand pr
  by unfold_locales (auto simp: pref_less_def less_prod_def Let_def)

interpretation by_lat: key_order "latency_less cand lat lastIdx"
    "\<lambda>i. ((rtt cand lat i, Some i \<noteq> lastIdx), i)"
  for cand lat lastIdx
  by unfold_locales (auto simp: latency_less_def less_prod_def Let_def)

lemma last_index_less: "last_index get m = Some i \<Longrightarrow> i < length (candidates m)"
  by (auto simp: last_index_def split: option.splits dest: find_index_less)

lemma filter_neq_indices:
  "i < n \<Longrightarrow> filter (\<lambda>j. j \<noteq> i) [0..<n] = [0..<i] @ [Suc i..<n]"
proof -
  assume "i < n"
  then have "[0..<n] = [0..<i] @ i # [Suc i..<n]"
    by (metis less_imp_le_nat upt_add_eq_append upt_conv_Cons le0 le_add_diff_inverse)
  then show ?thesis by (simp add: filter_id_conv)
qed

lemma map_nth_remaining:
  assumes "i < length xs"
  shows "map (\<lambda>j. xs ! j) ([0..<i] @ [Suc i..<length xs]) = take i xs @ drop (Suc i) xs"
proof -
  have "map (\<lambda>j. xs ! j) [0..<i] = take i xs"
    using assms by (intro nth_equalityI) auto
  moreover have "map (\<lambda>j. xs ! j) [Suc i..<length xs] = drop (Suc i) xs"
    by (intro nth_equalityI) auto
  ultimately show ?thesis by simp
qed

text \<open>The two layouts, as a stable sort of the attempts themselves.\<close>

lemma sort_by_pref:
  assumes "sorted is" "distinct is"
  shows "map (\<lambda>i. cand ! i) (go_stable_sort (pref_less cand pr) is)
       = sort_key (\<lambda>a. rank pr (Protocol (Node a))) (map (\<lambda>i. cand ! i) is)"
  using sort_key_tiebreak [OF assms, of "cand_rank cand pr"]
    map_sort_key [of "(!) cand" "\<lambda>a. rank pr (Protocol (Node a))" "is"]
  by (simp add: by_pref.sort_all)

lemma sort_by_latency:
  "go_stable_sort (latency_less cand lat l) [0..<n] = sort_key (\<lambda>i. (rtt cand lat i, Some i \<noteq> l)) [0..<n]"
  using sort_key_tiebreak [of "[0..<n]" "\<lambda>i. (rtt cand lat i, Some i \<noteq> l)"]
  by (simp add: by_lat.sort_distinct)

lemma rebuild_frame [simp]:
  "candidates (rebuild get m) = candidates m" "pref (rebuild get m) = pref m"
  "byLatency (rebuild get m) = byLatency m" "latency (rebuild get m) = latency m"
  "lastGood (rebuild get m) = lastGood m" "profileID (rebuild get m) = profileID m"
  "cursor (rebuild get m) = 0"
  by (simp_all add: rebuild_def rebuildByLatency_def rebuildByPreference_def Let_def)

lemma last_index_reset [simp]: "last_index get (m\<lparr>cursor := c, order := xs\<rparr>) = last_index get m"
  by (simp add: last_index_def split: option.split)

lemma preference_layout_aux:
  assumes "\<not> byLatency m"
  shows "order (rebuild get m) =
    (let c = candidates m; by_rank = sort_key (\<lambda>a. rank (pref m) (Protocol (Node a)))
     in case last_index get m of
          None \<Rightarrow> by_rank c
        | Some i \<Rightarrow> c ! i # by_rank (take i c @ drop (Suc i) c))"
proof (cases "last_index get m")
  case None
  with assms show ?thesis
    by (simp add: rebuild_def rebuildByPreference_def Let_def sort_by_pref)
next
  case (Some i)
  from last_index_less [OF this] have i: "i < length (candidates m)" .
  have "filter (\<lambda>j. j \<noteq> i) [0..<length (candidates m)] = [0..<i] @ [Suc i..<length (candidates m)]"
    by (rule filter_neq_indices [OF i])
  moreover have "sorted ([0..<i] @ [Suc i..<length (candidates m)])"
    by (auto simp: sorted_append)
  ultimately show ?thesis
    using assms Some sort_by_pref [of "[0..<i] @ [Suc i..<length (candidates m)]" "candidates m" "pref m"]
      map_nth_remaining [OF i]
    by (simp add: rebuild_def rebuildByPreference_def Let_def)
qed

text \<open>With the preference layout the plan is: the last-good candidate first, when one is
  recorded for the profile and still offered, then every other candidate in the order of a stable
  sort by protocol rank (so input order within a protocol is kept and an unlisted protocol comes
  last).\<close>

theorem preference_layout:
  assumes "\<not> byLatency m"
  shows "order (rebuild get m) =
    (let c = candidates m; by_rank = sort_key (\<lambda>a. rank (pref m) (Protocol (Node a)))
     in case last_index get m of
          None \<Rightarrow> by_rank c
        | Some i \<Rightarrow> c ! i # by_rank (take i c @ drop (Suc i) c))"
  using assms by (rule preference_layout_aux)

lemma latency_layout_aux:
  assumes "byLatency m"
  shows "order (rebuild get m) =
    map ((!) (candidates m))
      (sort_key (\<lambda>i. (rtt (candidates m) (latency m) i, Some i \<noteq> last_index get m))
        [0..<length (candidates m)])"
  using assms by (simp add: rebuild_def rebuildByLatency_def Let_def sort_by_latency)

text \<open>With the latency layout the plan is the candidates sorted by measured round trip, the
  last-good one first among equal round trips and the rest in input order; a candidate without a
  positive measurement ranks as unreachable, behind every real measurement.\<close>

theorem latency_layout:
  assumes "byLatency m"
  shows "order (rebuild get m) =
    map ((!) (candidates m))
      (sort_key (\<lambda>i. (rtt (candidates m) (latency m) i, Some i \<noteq> last_index get m))
        [0..<length (candidates m)])"
  using assms by (rule latency_layout_aux)

lemma mset_remaining:
  "i < length xs \<Longrightarrow> add_mset (xs ! i) (mset (take i xs) + mset (drop (Suc i) xs)) = mset xs"
  by (metis id_take_nth_drop mset.simps(2) mset_append union_mset_add_mset_right)

lemma rebuild_permutation_aux: "mset (order (rebuild get m)) = mset (candidates m)"
proof (cases "byLatency m")
  case True
  show ?thesis
    unfolding latency_layout_aux [OF True] mset_map mset_sort
    unfolding mset_map [symmetric] map_nth_indices ..
next
  case False
  show ?thesis
  proof (cases "last_index get m")
    case None
    then show ?thesis using False by (simp add: preference_layout_aux Let_def)
  next
    case (Some i)
    with False last_index_less [OF Some] show ?thesis
      by (simp add: preference_layout_aux Let_def mset_remaining)
  qed
qed

text \<open>Either layout hands out every candidate exactly once: the plan is a permutation of the
  candidates, duplicates included.\<close>

lemma rebuild_permutation: "mset (order (rebuild get m)) = mset (candidates m)"
  by (rule rebuild_permutation_aux)

text \<open>A concrete machine for the witnesses: three candidates, the second one last-good.\<close>

definition ex_attempt :: "string \<Rightarrow> protocol \<Rightarrow> attempt" where
  "ex_attempt i p = \<lparr>NodeID = i, Node = zero_node\<lparr>Protocol := p\<rparr>\<rparr>"

definition ex_candidates :: "attempt list" where
  "ex_candidates = [ex_attempt ''t'' Trojan, ex_attempt ''h'' Hysteria2, ex_attempt ''v'' VLESS]"

definition ex_store :: mem_last_good where
  "ex_store = mem_Set NewMemLastGood ''p'' ''h''"

definition ex_pref_machine :: "mem_last_good machine" where
  "ex_pref_machine = New mem_Get ''p'' ex_candidates [] (Some ex_store)"

definition ex_lat_machine :: "mem_last_good machine" where
  "ex_lat_machine = NewByLatency mem_Get ''p'' ex_candidates
     [''t'' \<mapsto> 30, ''v'' \<mapsto> 30, ''h'' \<mapsto> 0] (Some (mem_Set NewMemLastGood ''p'' ''v''))"

lemmas ex_machine_defs = ex_pref_machine_def ex_lat_machine_def New_def NewByLatency_def
  ex_store_def ex_candidates_def ex_attempt_def mem_Set_def mem_Get_def NewMemLastGood_def
  last_index_def zero_node_def protocol_defs DefaultOrder_def rank_def rtt_def unreachableRTT_def

lemma preference_layout_witness:
  "\<not> byLatency ex_pref_machine \<and>
   map NodeID (order (rebuild mem_Get ex_pref_machine)) = [''h'', ''v'', ''t'']"
proof -
  have h: "\<not> byLatency ex_pref_machine" by (simp add: ex_machine_defs)
  have "last_index mem_Get ex_pref_machine = Some 1" by (simp add: ex_machine_defs)
  then show ?thesis
    using h preference_layout [OF h, of mem_Get] by (simp add: ex_machine_defs Let_def)
qed

lemma latency_layout_witness:
  "byLatency ex_lat_machine \<and>
   map NodeID (order (rebuild mem_Get ex_lat_machine)) = [''v'', ''t'', ''h'']"
proof -
  have h: "byLatency ex_lat_machine" by (simp add: ex_machine_defs)
  have "last_index mem_Get ex_lat_machine = Some 2" by (simp add: ex_machine_defs)
  then show ?thesis
    using h latency_layout [OF h, of mem_Get]
    by (simp add: ex_machine_defs upt_rec less_eq_prod_def)
qed

section \<open>The walk\<close>

lemma order_Failure [simp]: "order (Failure m a) = order m"
  by (simp add: Failure_def)

lemma cursor_Failure:
  "cursor (Failure m a) = (if cursor m < length (order m) then Suc (cursor m) else cursor m)"
  by (simp add: Failure_def)

lemma order_Failure_iter: "order (((\<lambda>m. Failure m a) ^^ k) m) = order m"
  by (induction k) auto

lemma cursor_Failure_iter_min:
  assumes "cursor m = 0"
  shows "cursor (((\<lambda>m. Failure m a) ^^ k) m) = min k (length (order m))"
proof (induction k)
  case 0
  then show ?case using assms by simp
next
  case (Suc k)
  then show ?case by (auto simp: cursor_Failure order_Failure_iter)
qed

lemma length_order_rebuild [simp]: "length (order (rebuild get m)) = length (candidates m)"
  by (metis rebuild_permutation_aux size_mset)

text \<open>The walk: after a rebuild, \<open>k\<close> reported failures leave the machine offering the
  candidate at position \<open>k\<close> of the plan, and it is exhausted exactly when as many failures were
  reported as there are candidates; further failures change nothing.\<close>

theorem walk_follows_plan:
  "Next (((\<lambda>m. Failure m a) ^^ k) (rebuild get m)) =
     (if k < length (candidates m) then Some (order (rebuild get m) ! k) else None) \<and>
   (Exhausted (((\<lambda>m. Failure m a) ^^ k) (rebuild get m)) \<longleftrightarrow> length (candidates m) \<le> k)"
  using cursor_Failure_iter_min [of "rebuild get m" k a]
  by (auto simp: Next_def Exhausted_def order_Failure_iter)

context last_good_store
begin

lemma last_index_Success:
  assumes "lastGood m = Some s" and "a \<in> set (candidates m)"
  obtains i where "last_index get (m\<lparr>lastGood := Some (set_id s (profileID m) (NodeID a))\<rparr>) = Some i"
    and "NodeID (candidates m ! i) = NodeID a" and "i < length (candidates m)"
proof -
  from assms(2) obtain i where i: "find_index (\<lambda>b. NodeID b = NodeID a) (candidates m) = Some i"
    using find_index_ex [of a "candidates m" "\<lambda>b. NodeID b = NodeID a"] by auto
  show ?thesis
  proof (rule that [of i])
    show "last_index get (m\<lparr>lastGood := Some (set_id s (profileID m) (NodeID a))\<rparr>) = Some i"
      using i by (simp add: last_index_def get_set_same)
  qed (use find_index_SomeD [OF i] in auto)
qed

lemma Success_leads:
  assumes "\<not> byLatency m" and "lastGood m = Some s" and "a \<in> set (candidates m)"
  shows "\<exists>b. Next (Success get set_id m a) = Some b \<and> NodeID b = NodeID a"
proof -
  let ?m = "m\<lparr>lastGood := Some (set_id s (profileID m) (NodeID a))\<rparr>"
  from last_index_Success [OF assms(2,3)] obtain i where
    i: "last_index get ?m = Some i" "NodeID (candidates m ! i) = NodeID a" "i < length (candidates m)"
    by blast
  have "order (rebuild get ?m) ! 0 = candidates m ! i"
    using i(1) assms(1) by (simp add: preference_layout_aux Let_def)
  with i(2,3) show ?thesis
    by (auto simp: Success_def assms(2) Next_def)
qed

end

interpretation mem: last_good_store mem_Get mem_Set
  by unfold_locales (auto simp: mem_Get_def mem_Set_def)

text \<open>A reported success makes the winning node lead the next walk: with the in-memory store
  and the preference layout, the first attempt offered after \<open>Success\<close> carries the node ID just
  recorded.\<close>

theorem success_leads_next_walk:
  assumes "\<not> byLatency m" and "lastGood m = Some s" and "a \<in> set (candidates m)"
  shows "\<exists>b. Next (Success mem_Get mem_Set m a) = Some b \<and> NodeID b = NodeID a"
  using assms by (rule mem.Success_leads)

lemma success_leads_next_walk_witness:
  "\<exists>b. Next (Success mem_Get mem_Set ex_pref_machine (ex_attempt ''v'' VLESS)) = Some b \<and>
       NodeID b = ''v''"
proof -
  have "\<not> byLatency ex_pref_machine" "lastGood ex_pref_machine = Some ex_store"
    "ex_attempt ''v'' VLESS \<in> set (candidates ex_pref_machine)"
    by (simp_all add: ex_pref_machine_def New_def ex_candidates_def)
  from success_leads_next_walk [OF this] show ?thesis by (simp add: ex_attempt_def)
qed

section \<open>Strategies and the classifier\<close>

text \<open>A strategy never changes which server is dialled or how it authenticates: \<open>ApplyTo\<close>
  keeps everything of the node but the fingerprint, the server name and the fragmentation flag of
  an existing TLS block, and those take the strategy's value exactly where it names one.\<close>

theorem ApplyTo_reshapes_only_handshake:
  "ApplyTo s n = n\<lparr>TLS := map_option (\<lambda>t. t\<lparr>
      Fingerprint := (if StFingerprint s = '''' then Fingerprint t else StFingerprint s),
      ServerName := (if StServerName s = '''' then ServerName t else StServerName s),
      Fragment := (Fragment t \<or> StFragment s)\<rparr>) (TLS n)\<rparr>"
  by (cases "TLS n") (auto simp: ApplyTo_def IsDefault_def Let_def)

lemma DefaultStrategies_first: "IsDefault (hd DefaultStrategies)"
  by (simp add: DefaultStrategies_def IsDefault_def)

lemma ClassifyFailure_Censored:
  "ClassifyFailure sig = Censored \<longleftrightarrow> TCP sig = TCPConnected \<and> HandshakeStalled sig"
  by (simp add: ClassifyFailure_def split: tcp_result.split)

lemma ClassifyFailure_Dead:
  "ClassifyFailure sig = Dead \<longleftrightarrow> TCP sig \<in> {TCPRefused, TCPUnreachable}"
  by (simp add: ClassifyFailure_def split: tcp_result.split)

end
