(* ===== verification/Nodecheck.thy ===== *)
theory Nodecheck
  imports Prelude
begin

text \<open>
  Ranking nodes by what works through them (\<^verbatim>\<open>core/nodecheck/nodecheck.go\<close>): the
  majority verdict of one node, its median latency, the ranking and the choice of
  the node auto-selection connects to.
\<close>

type_synonym stage = string

definition StageOK :: stage where "StageOK = ''ok''"
definition StageDial :: stage where "StageDial = ''dial''"
definition StageHandshake :: stage where "StageHandshake = ''handshake''"
definition StageProbe :: stage where "StageProbe = ''probe''"

record target_result =
  Target :: string
  Stage :: stage
  RTTMs :: int

record node_result =
  NodeID :: string
  Targets :: "target_result list"

definition OK :: "target_result \<Rightarrow> bool" where
  "OK t \<longleftrightarrow> Stage t = StageOK"

definition okCount :: "node_result \<Rightarrow> nat" where
  "okCount n = length (filter OK (Targets n))"

definition Usable :: "node_result \<Rightarrow> bool" where
  "Usable n = (if length (Targets n) = 0 then False else okCount n * 2 > length (Targets n))"

definition Unreachable :: int where
  "Unreachable = 2 ^ 62 - 1"

definition samples :: "node_result \<Rightarrow> int list" where
  "samples n = map RTTMs (filter (\<lambda>t. OK t \<and> RTTMs t > 0) (Targets n))"

definition Score :: "node_result \<Rightarrow> int" where
  "Score n =
     (let rtts = samples n
      in if rtts = [] then Unreachable
         else go_stable_sort (<) rtts ! ((length rtts - 1) div 2))"

text \<open>The position a node ID first occurs at; a map in the source, read with default 0.\<close>

definition first_pos :: "node_result list \<Rightarrow> string \<Rightarrow> nat" where
  "first_pos results i = (case find_index (\<lambda>r. NodeID r = i) results of Some k \<Rightarrow> k | None \<Rightarrow> 0)"

definition rank_less :: "node_result list \<Rightarrow> string \<Rightarrow> node_result \<Rightarrow> node_result \<Rightarrow> bool" where
  "rank_less results lastGood ra rb =
     (if Usable ra \<noteq> Usable rb then Usable ra
      else if okCount ra \<noteq> okCount rb then okCount ra > okCount rb
      else if Score ra \<noteq> Score rb then Score ra < Score rb
      else if lastGood \<noteq> '''' \<and> NodeID ra \<noteq> NodeID rb \<and> NodeID ra = lastGood then True
      else if lastGood \<noteq> '''' \<and> NodeID ra \<noteq> NodeID rb \<and> NodeID rb = lastGood then False
      else first_pos results (NodeID ra) < first_pos results (NodeID rb))"

definition Rank :: "node_result list \<Rightarrow> string \<Rightarrow> node_result list" where
  "Rank results lastGood = go_stable_sort (rank_less results lastGood) results"

definition Best :: "node_result list \<Rightarrow> string \<Rightarrow> node_result option" where
  "Best results lastGood =
     (let ranked = Rank results lastGood
      in if ranked = [] \<or> \<not> Usable (hd ranked) then None else Some (hd ranked))"

section \<open>The ranking key\<close>

text \<open>
  The documented order as one key, compared lexicographically: usable first, more successful
  targets first, lower median, the last-good node, input order.
\<close>

definition rank_key :: "node_result list \<Rightarrow> string \<Rightarrow> node_result \<Rightarrow> bool \<times> int \<times> int \<times> bool \<times> nat" where
  "rank_key results lastGood r =
     (\<not> Usable r, - int (okCount r), Score r, lastGood = '''' \<or> NodeID r \<noteq> lastGood,
      first_pos results (NodeID r))"

interpretation ranking: key_order_irrefl "rank_less results lastGood" "rank_key results lastGood"
  for results lastGood
  by unfold_locales (auto simp: rank_less_def rank_key_def less_prod_def)

lemma Rank_sort_key: "Rank results lastGood = sort_key (rank_key results lastGood) results"
  by (simp add: Rank_def ranking.sort_all)

lemma set_Rank [simp]: "set (Rank results lastGood) = set results"
  by (simp add: Rank_def)

lemma Rank_Nil [simp]: "Rank results lastGood = [] \<longleftrightarrow> results = []"
  by (metis set_Rank set_empty)

lemma Rank_hd_least:
  assumes "r \<in> set results"
  shows "rank_key results lastGood (hd (Rank results lastGood)) \<le> rank_key results lastGood r"
proof -
  have "sorted (map (rank_key results lastGood) (Rank results lastGood))"
    by (simp add: Rank_sort_key)
  moreover have "r \<in> set (Rank results lastGood)" using assms by simp
  ultimately show ?thesis by (cases "Rank results lastGood") auto
qed

lemma rank_key_Usable: "rank_key rs lg a \<le> rank_key rs lg b \<Longrightarrow> Usable b \<Longrightarrow> Usable a"
  by (auto simp: rank_key_def less_eq_prod_def)

text \<open>\<open>Rank\<close> is the stable sort of its input by the documented key, compared
  lexicographically: usable nodes before unusable ones, then more successful targets, then the
  lower median, then the last-good node, then input order. Nothing is dropped or duplicated.\<close>

theorem Rank_is_documented_order:
  "Rank results lastGood = sort_key (rank_key results lastGood) results"
  by (rule Rank_sort_key)

text \<open>\<open>Best\<close> returns a node only if a strict majority of its targets succeeded, that node is
  minimal in the documented order among all measured nodes, and \<open>Best\<close> returns nothing exactly
  when no measured node is usable.\<close>

theorem Best_usable_and_minimal:
  "case Best results lastGood of
     None \<Rightarrow> \<not> (\<exists>r\<in>set results. Usable r)
   | Some b \<Rightarrow> b \<in> set results \<and> Targets b \<noteq> [] \<and> 2 * length (filter OK (Targets b)) > length (Targets b)
       \<and> rank_key results lastGood b = Min (rank_key results lastGood ` set results)"
proof (cases "results = []")
  case True
  then show ?thesis by (simp add: Best_def Let_def)
next
  case False
  let ?b = "hd (Rank results lastGood)"
  from False have b: "?b \<in> set results"
    using hd_in_set [of "Rank results lastGood"] by simp
  have least: "\<And>r. r \<in> set results \<Longrightarrow> rank_key results lastGood ?b \<le> rank_key results lastGood r"
    by (rule Rank_hd_least)
  show ?thesis
  proof (cases "Usable ?b")
    case True
    then have "Best results lastGood = Some ?b" using False by (simp add: Best_def Let_def)
    moreover have "rank_key results lastGood ?b = Min (rank_key results lastGood ` set results)"
      by (rule Min_eqI [symmetric]) (auto simp: least b)
    ultimately show ?thesis
      using True b by (auto simp: Usable_def okCount_def split: if_splits)
  next
    case unusable: False
    then have "Best results lastGood = None" using False by (simp add: Best_def Let_def)
    moreover have "\<not> Usable r" if "r \<in> set results" for r
      using unusable rank_key_Usable [OF least [OF that]] by blast
    ultimately show ?thesis by auto
  qed
qed

section \<open>The median\<close>

interpretation ints: key_order_irrefl "(<) :: int \<Rightarrow> int \<Rightarrow> bool" "\<lambda>x. x"
  by unfold_locales auto

lemma sorted_count_less:
  fixes xs :: "'a::linorder list"
  assumes "sorted xs" "k < length xs"
  shows "length (filter (\<lambda>x. x < xs ! k) xs) \<le> k"
proof -
  have "filter (\<lambda>x. x < xs ! k) xs = filter (\<lambda>x. x < xs ! k) (take k xs) @ filter (\<lambda>x. x < xs ! k) (drop k xs)"
    by (metis append_take_drop_id filter_append)
  moreover have "filter (\<lambda>x. x < xs ! k) (drop k xs) = []"
    using assms by (auto simp: filter_empty_conv in_set_conv_nth sorted_iff_nth_mono not_less)
  ultimately show ?thesis
    using length_filter_le [of "\<lambda>x. x < xs ! k" "take k xs"] assms(2) by simp
qed

lemma sorted_count_greater:
  fixes xs :: "'a::linorder list"
  assumes "sorted xs" "k < length xs"
  shows "length (filter (\<lambda>x. x > xs ! k) xs) \<le> length xs - Suc k"
proof -
  have "filter (\<lambda>x. x > xs ! k) xs
      = filter (\<lambda>x. x > xs ! k) (take (Suc k) xs) @ filter (\<lambda>x. x > xs ! k) (drop (Suc k) xs)"
    by (metis append_take_drop_id filter_append)
  moreover have "filter (\<lambda>x. x > xs ! k) (take (Suc k) xs) = []"
    using assms by (auto simp: filter_empty_conv in_set_conv_nth sorted_iff_nth_mono not_less)
  ultimately show ?thesis
    using length_filter_le [of "\<lambda>x. x > xs ! k" "drop (Suc k) xs"] by simp
qed

lemma mset_filter_length: "mset xs = mset ys \<Longrightarrow> length (filter P xs) = length (filter P ys)"
  by (metis mset_filter size_mset)

text \<open>A node with a positive measurement scores a latency that was observed, and it is the
  lower median: fewer than half of the samples lie strictly below it and at most half strictly
  above it.\<close>

theorem Score_lower_median:
  assumes "samples n \<noteq> []"
  shows "Score n \<in> set (samples n) \<and>
    2 * length (filter (\<lambda>x. x < Score n) (samples n)) < length (samples n) \<and>
    2 * length (filter (\<lambda>x. x > Score n) (samples n)) \<le> length (samples n)"
proof -
  let ?xs = "samples n" and ?ys = "go_stable_sort (<) (samples n)"
  let ?k = "(length ?xs - 1) div 2"
  from assms have k: "?k < length ?ys" by (cases ?xs) auto
  have sorted: "sorted ?ys" using ints.sorted_all [of ?xs] by simp
  have score: "Score n = ?ys ! ?k" using assms by (simp add: Score_def Let_def)
  have "length (filter (\<lambda>x. x < Score n) ?xs) \<le> ?k"
    using sorted_count_less [OF sorted k] mset_filter_length [of ?ys ?xs] score by simp
  moreover have "length (filter (\<lambda>x. x > Score n) ?xs) \<le> length ?xs - Suc ?k"
    using sorted_count_greater [OF sorted k] mset_filter_length [of ?ys ?xs] score by simp
  moreover have "Score n \<in> set ?xs"
    using nth_mem [OF k] score by simp
  ultimately show ?thesis using k by auto
qed

definition ex_result :: node_result where
  "ex_result = \<lparr>NodeID = ''n'', Targets =
     [\<lparr>Target = ''a'', Stage = ''ok'', RTTMs = 90\<rparr>, \<lparr>Target = ''b'', Stage = ''probe'', RTTMs = 5\<rparr>,
      \<lparr>Target = ''c'', Stage = ''ok'', RTTMs = 20\<rparr>]\<rparr>"

lemma Score_lower_median_witness:
  "samples ex_result = [90, 20] \<and> Score ex_result = 20 \<and> Score ex_result \<in> {90, 20}"
proof -
  have s: "samples ex_result = [90, 20]"
    by (simp add: samples_def ex_result_def OK_def StageOK_def)
  then have "samples ex_result \<noteq> []" by simp
  from Score_lower_median [OF this] s show ?thesis
    by (auto simp: Score_def go_stable_sort_def)
qed

end
