(* ===== verification/Tunguard.thy ===== *)
theory Tunguard
  imports Go_Lib
begin

text \<open>
  The tun-conflict guard (\<^verbatim>\<open>core/tunguard/tunguard.go\<close>): which interfaces would fight our
  tun for a default route, per address family.  Metrics are Go \<^verbatim>\<open>int\<close>s that are only compared
  and printed.  The parameter \<open>u\<close> is the Unicode case table of \<open>Go_Lib\<close>.
\<close>

record iface =
  IfName :: string
  Description :: string
  IsTunnel :: bool
  HasDefault4 :: bool
  HasDefault6 :: bool
  Metric4 :: int
  Metric6 :: int

definition hasDefault :: "iface \<Rightarrow> bool" where
  "hasDefault i \<longleftrightarrow> HasDefault4 i \<or> HasDefault6 i"

definition familyDefault :: "iface \<Rightarrow> bool \<Rightarrow> bool \<times> int" where
  "familyDefault i v6 = (if v6 then (HasDefault6 i, Metric6 i) else (HasDefault4 i, Metric4 i))"

definition BestMetric :: "iface \<Rightarrow> int \<times> bool" where
  "BestMetric i =
     (if HasDefault4 i \<and> HasDefault6 i then
        (if Metric6 i < Metric4 i then (Metric6 i, True) else (Metric4 i, True))
      else if HasDefault4 i then (Metric4 i, True)
      else if HasDefault6 i then (Metric6 i, True)
      else (0, False))"

definition tunnelPatterns :: "string list" where
  "tunnelPatterns =
     [''tun'', ''utun'', ''tap'', ''wg'', ''wintun'', ''vpn'', ''ipsec'',
      ''sing'', ''nekoray'', ''hiddify'', ''clash'', ''xray'', ''amnezia'',
      ''tailscale'', ''nordlynx'', ''cloudflare'', ''warp'', ''mullvad'', ''zerotier'',
      ''netbird'', ''twingate'', ''wireguard'', ''openvpn'']"

definition matchesTunnelPattern :: "case_table \<Rightarrow> string \<Rightarrow> bool" where
  "matchesTunnelPattern u s = (let n = to_lower u s in list_ex (\<lambda>p. contains p n) tunnelPatterns)"

definition IsTunnelIface :: "case_table \<Rightarrow> iface \<Rightarrow> bool" where
  "IsTunnelIface u ifc \<longleftrightarrow>
     IsTunnel ifc \<or> matchesTunnelPattern u (IfName ifc) \<or> matchesTunnelPattern u (Description ifc)"

definition lowerOwn :: "case_table \<Rightarrow> string list \<Rightarrow> string list" where
  "lowerOwn u names = map (to_lower u) (filter (\<lambda>n. n \<noteq> '''') names)"

definition isOwn :: "case_table \<Rightarrow> string \<Rightarrow> string list \<Rightarrow> bool" where
  "isOwn u name own = (let n = to_lower u name in list_ex (\<lambda>p. has_prefix p n) own)"

text \<open>The loop keeps the best metric found so far; nothing means none was found.\<close>

fun uplink_loop :: "case_table \<Rightarrow> string list \<Rightarrow> bool \<Rightarrow> int option \<Rightarrow> iface list \<Rightarrow> int option" where
  "uplink_loop u own v6 best [] = best"
| "uplink_loop u own v6 best (ifc # ifcs) =
     (let (has, metric) = familyDefault ifc v6
      in if \<not> has \<or> IsTunnelIface u ifc \<or> isOwn u (IfName ifc) own then uplink_loop u own v6 best ifcs
         else case best of
                None \<Rightarrow> uplink_loop u own v6 (Some metric) ifcs
              | Some b \<Rightarrow> uplink_loop u own v6 (Some (if metric < b then metric else b)) ifcs)"

definition uplinkMetric :: "case_table \<Rightarrow> iface list \<Rightarrow> string list \<Rightarrow> bool \<Rightarrow> int option" where
  "uplinkMetric u ifaces own v6 = uplink_loop u own v6 None ifaces"

definition winsRoute :: "iface \<Rightarrow> bool \<Rightarrow> int option \<Rightarrow> bool" where
  "winsRoute ifc v6 uplink =
     (let (has, metric) = familyDefault ifc v6
      in if \<not> has then False else case uplink of None \<Rightarrow> True | Some m \<Rightarrow> metric \<le> m)"

definition Conflicts :: "case_table \<Rightarrow> iface list \<Rightarrow> string list \<Rightarrow> iface list" where
  "Conflicts u ifaces ownNames =
     (let own = lowerOwn u ownNames;
          uplink4 = uplinkMetric u ifaces own False;
          uplink6 = uplinkMetric u ifaces own True
      in filter (\<lambda>ifc. hasDefault ifc \<and> \<not> isOwn u (IfName ifc) own \<and> IsTunnelIface u ifc \<and>
                       (winsRoute ifc False uplink4 \<or> winsRoute ifc True uplink6)) ifaces)"

text \<open>\<^verbatim>\<open>ErrConflict\<close> carries the offenders; \<^verbatim>\<open>Error\<close> renders them.\<close>

datatype conflict_error = ErrConflict "iface list"

fun offenders :: "conflict_error \<Rightarrow> iface list" where
  "offenders (ErrConflict cs) = cs"

definition conflict_name :: "iface \<Rightarrow> string" where
  "conflict_name c =
     (case BestMetric c of (m, ok) \<Rightarrow>
        if ok \<and> m \<noteq> 0 then IfName c @ '' (metric '' @ int_str m @ '')'' else IfName c)"

definition conflict_message :: "conflict_error \<Rightarrow> string" where
  "conflict_message e =
     ''another VPN already owns the default route: '' @ join '', '' (map conflict_name (offenders e)) @
     ''. Two tunnels routing everything take the machine offline rather than sharing. Disconnect it first, or override this check if you know the routes do not overlap''"

definition Check :: "case_table \<Rightarrow> iface list \<Rightarrow> bool \<Rightarrow> string list \<Rightarrow> conflict_error option" where
  "Check u ifaces override ownNames =
     (if override then None
      else let c = Conflicts u ifaces ownNames in if length c > 0 then Some (ErrConflict c) else None)"

section \<open>The uplink is a minimum\<close>

definition physical_uplinks :: "case_table \<Rightarrow> iface list \<Rightarrow> string list \<Rightarrow> bool \<Rightarrow> iface list" where
  "physical_uplinks u ifaces own v6 =
     filter (\<lambda>i. fst (familyDefault i v6) \<and> \<not> IsTunnelIface u i \<and> \<not> isOwn u (IfName i) own) ifaces"

abbreviation fam_metric :: "bool \<Rightarrow> iface \<Rightarrow> int" where
  "fam_metric v6 i \<equiv> snd (familyDefault i v6)"

lemma uplink_loop_physical:
  "uplink_loop u own v6 best ifs =
    (case best of None \<Rightarrow> (if physical_uplinks u ifs own v6 = [] then None
          else Some (Min (fam_metric v6 ` set (physical_uplinks u ifs own v6))))
     | Some b \<Rightarrow> Some (Min (insert b (fam_metric v6 ` set (physical_uplinks u ifs own v6)))))"
proof (induction ifs arbitrary: best)
  case Nil
  then show ?case by (simp add: physical_uplinks_def split: option.split)
next
  case (Cons i ifs)
  show ?case
  proof (cases "fst (familyDefault i v6) \<and> \<not> IsTunnelIface u i \<and> \<not> isOwn u (IfName i) own")
    case False
    then have phys: "physical_uplinks u (i # ifs) own v6 = physical_uplinks u ifs own v6"
      by (auto simp: physical_uplinks_def)
    have step: "uplink_loop u own v6 best (i # ifs) = uplink_loop u own v6 best ifs"
      using False by (auto split: prod.split)
    show ?thesis unfolding step phys by (rule Cons.IH)
  next
    case True
    then have phys: "physical_uplinks u (i # ifs) own v6 = i # physical_uplinks u ifs own v6"
      by (auto simp: physical_uplinks_def)
    let ?m = "fam_metric v6 i"
    have step: "uplink_loop u own v6 best (i # ifs) =
        uplink_loop u own v6 (Some (case best of None \<Rightarrow> ?m | Some b \<Rightarrow> min ?m b)) ifs"
      using True by (auto split: prod.split option.split simp: min_def)
    show ?thesis
      unfolding step Cons.IH phys
      by (cases best; cases "physical_uplinks u ifs own v6 = []")
        (auto simp: min.assoc min.commute min.left_commute)
  qed
qed

lemma uplinkMetric_Min:
  "uplinkMetric u ifs own v6 =
    (if physical_uplinks u ifs own v6 = [] then None
     else Some (Min (fam_metric v6 ` set (physical_uplinks u ifs own v6))))"
  by (simp add: uplinkMetric_def uplink_loop_physical)

lemma winsRoute_uplink:
  "winsRoute ifc v6 (uplinkMetric u ifs own v6) \<longleftrightarrow>
     fst (familyDefault ifc v6) \<and>
     (\<forall>p\<in>set (physical_uplinks u ifs own v6). fam_metric v6 ifc \<le> fam_metric v6 p)"
  by (auto simp: winsRoute_def uplinkMetric_Min split: prod.split)

section \<open>What a conflict is\<close>

definition beats_uplinks :: "case_table \<Rightarrow> iface list \<Rightarrow> string list \<Rightarrow> iface \<Rightarrow> bool \<Rightarrow> bool" where
  "beats_uplinks u ifaces ownNames ifc v6 \<longleftrightarrow>
     fst (familyDefault ifc v6) \<and>
     (\<forall>p\<in>set (physical_uplinks u ifaces (lowerOwn u ownNames) v6). fam_metric v6 ifc \<le> fam_metric v6 p)"

lemma Conflicts_filter:
  "Conflicts u ifs own = filter (\<lambda>i. IsTunnelIface u i \<and> \<not> isOwn u (IfName i) (lowerOwn u own) \<and>
      (beats_uplinks u ifs own i False \<or> beats_uplinks u ifs own i True)) ifs"
  unfolding Conflicts_def Let_def winsRoute_uplink beats_uplinks_def
  by (rule filter_cong) (auto simp: hasDefault_def familyDefault_def)

text \<open>The guard reports, in input order, exactly the foreign tunnels that can win the route: a
  tunnel that is not ours is a conflict iff in some address family it captures the whole family
  and no physical uplink holding that family has a strictly better metric. Families are never
  compared with each other.\<close>

theorem Conflicts_per_family:
  "Conflicts u ifs own = filter (\<lambda>i. IsTunnelIface u i \<and> \<not> isOwn u (IfName i) (lowerOwn u own) \<and>
      (\<exists>v6. fst (familyDefault i v6) \<and>
        (\<forall>p\<in>set ifs. fst (familyDefault p v6) \<and> \<not> IsTunnelIface u p \<and>
            \<not> isOwn u (IfName p) (lowerOwn u own) \<longrightarrow>
          snd (familyDefault i v6) \<le> snd (familyDefault p v6)))) ifs"
  unfolding Conflicts_filter
proof (rule filter_cong)
  fix i
  show "(IsTunnelIface u i \<and> \<not> isOwn u (IfName i) (lowerOwn u own) \<and>
      (beats_uplinks u ifs own i False \<or> beats_uplinks u ifs own i True)) =
    (IsTunnelIface u i \<and> \<not> isOwn u (IfName i) (lowerOwn u own) \<and>
      (\<exists>v6. fst (familyDefault i v6) \<and>
        (\<forall>p\<in>set ifs. fst (familyDefault p v6) \<and> \<not> IsTunnelIface u p \<and>
            \<not> isOwn u (IfName p) (lowerOwn u own) \<longrightarrow>
          snd (familyDefault i v6) \<le> snd (familyDefault p v6))))"
    unfolding ex_bool_eq beats_uplinks_def physical_uplinks_def by auto
qed simp

definition ex_if :: "string \<Rightarrow> int \<Rightarrow> iface" where
  "ex_if n m = \<lparr>IfName = n, Description = '''', IsTunnel = False, HasDefault4 = True,
     HasDefault6 = False, Metric4 = m, Metric6 = 0\<rparr>"

lemma Conflicts_per_family_witness:
  "map IfName (Conflicts id [ex_if ''Ethernet'' 25, ex_if ''Radmin VPN'' 9257, ex_if ''tun7'' 5,
     ex_if ''Tenebra 2'' 0] [''tenebra'']) = [''tun7'']"
  unfolding Conflicts_per_family
  by (simp add: ex_if_def familyDefault_def IsTunnelIface_def matchesTunnelPattern_def Let_def
    tunnelPatterns_def has_prefix_def isOwn_def lowerOwn_def go_eval ex_bool_eq)

text \<open>Our own interfaces are invisible to the guard: removing every interface whose name
  starts, ignoring case, with one of the caller's own names changes no verdict, so the tunnel
  being replaced can neither be reported nor lower the bar foreign tunnels are measured against.\<close>

theorem Conflicts_ignore_own:
  "Conflicts u (filter (\<lambda>i. \<not> isOwn u (IfName i) (lowerOwn u own)) ifs) own = Conflicts u ifs own"
proof -
  have "physical_uplinks u (filter (\<lambda>i. \<not> isOwn u (IfName i) (lowerOwn u own)) ifs) (lowerOwn u own) v6
      = physical_uplinks u ifs (lowerOwn u own) v6" for v6
    unfolding physical_uplinks_def filter_filter by (rule filter_cong) auto
  then show ?thesis
    unfolding Conflicts_filter beats_uplinks_def filter_filter
    by (intro filter_cong) auto
qed

text \<open>Without the override the check succeeds exactly when no foreign tunnel can win a route,
  and a refusal names all of them and only them; the override alone lets a conflict through.\<close>

theorem Check_refuses_iff:
  "(Check u ifs override own = None \<longleftrightarrow> override \<or> Conflicts u ifs own = []) \<and>
   (\<forall>e. Check u ifs override own = Some e \<longrightarrow> offenders e = Conflicts u ifs own \<and>
      (\<forall>i\<in>set (offenders e). IsTunnelIface u i \<and> hasDefault i \<and> i \<in> set ifs))"
  by (auto simp: Check_def Let_def Conflicts_def)

lemma Check_refuses_iff_witness:
  "Check id [ex_if ''tun7'' 5] False [] = Some (ErrConflict [ex_if ''tun7'' 5]) \<and>
   Check id [ex_if ''tun7'' 5] True [] = None"
proof -
  have "Conflicts id [ex_if ''tun7'' 5] [] = [ex_if ''tun7'' 5]"
    by (simp add: Conflicts_filter beats_uplinks_def physical_uplinks_def ex_if_def familyDefault_def
      IsTunnelIface_def matchesTunnelPattern_def Let_def tunnelPatterns_def has_prefix_def isOwn_def
      lowerOwn_def go_eval)
  then show ?thesis
    using Check_refuses_iff [of id "[ex_if ''tun7'' 5]" True "[]"]
    by (simp add: Check_def Let_def)
qed

end
