(* ===== verification/Route_Cover.thy ===== *)
theory Route_Cover
  imports Prelude "HOL-Library.Word"
begin

unbundle bit_operations_syntax

text \<open>
  Default-route coverage (\<^verbatim>\<open>adapters/windows/routes_cover.go\<close>): whether the routes of one
  interface, taken together, capture a whole address family, and at which metric.  Addresses are
  byte lists, metrics and interface indices machine words; \<^verbatim>\<open>big.Int\<close> values are naturals.
\<close>

type_synonym bytes = "8 word list"

record cover_prefix =
  ones :: int
  addr :: bytes
  metric :: "32 word"

type_synonym route_cover = "cover_prefix list"

type_synonym cover_key = "32 word \<times> 16 word"

type_synonym cover_table = "cover_key \<rightharpoonup> route_cover"

text \<open>\<^verbatim>\<open>big.Int.SetBytes\<close>: big-endian.\<close>

definition be_nat :: "bytes \<Rightarrow> nat" where
  "be_nat bs = foldl (\<lambda>acc b. acc * 256 + unat b) 0 bs"

fun net_loop :: "bytes \<Rightarrow> int \<Rightarrow> bool" where
  "net_loop [] fixed = True"
| "net_loop (b # bs) fixed =
     (if fixed \<ge> 8 then net_loop bs (fixed - 8)
      else if fixed \<le> 0 then (if b \<noteq> 0 then False else net_loop bs (fixed - 8))
      else (if b AND drop_bit (nat fixed) 0xFF \<noteq> 0 then False else net_loop bs (fixed - 8)))"

definition isNetworkAddress :: "bytes \<Rightarrow> int \<Rightarrow> bool" where
  "isNetworkAddress a k = net_loop a k"

definition add :: "cover_table \<Rightarrow> 32 word \<Rightarrow> 16 word \<Rightarrow> bytes \<Rightarrow> int \<Rightarrow> 32 word \<Rightarrow> cover_table" where
  "add t index family dest k m =
     (if length dest = 0 \<or> k < 0 \<or> k > int (length dest) * 8 \<or> \<not> isNetworkAddress dest k then t
      else let key = (index, family);
               c = (case t key of None \<Rightarrow> [] | Some c \<Rightarrow> c)
           in t(key \<mapsto> c @ [\<lparr>ones = k, addr = dest, metric = m\<rparr>]))"

definition distinctMetricsAscending :: "cover_prefix list \<Rightarrow> 32 word list" where
  "distinctMetricsAscending prefixes = go_stable_sort (<) (dedup_seen {} (map metric prefixes))"

fun cover_walk :: "nat \<Rightarrow> nat \<Rightarrow> (nat \<times> nat) list \<Rightarrow> bool" where
  "cover_walk tot covered [] = (covered \<ge> tot)"
| "cover_walk tot covered (s # spans) =
     (if fst s > covered then False
      else let covered' = (if snd s > covered then snd s else covered)
           in if covered' \<ge> tot then True else cover_walk tot covered' spans)"

text \<open>
  Called with at least one prefix.  \<^verbatim>\<open>sort.Slice\<close> leaves the order of equal starts open;
  \<open>cover_walk_correct\<close> below holds for every sorted order.
\<close>

definition spans_within :: "nat \<Rightarrow> cover_prefix list \<Rightarrow> 32 word \<Rightarrow> (nat \<times> nat) list" where
  "spans_within bits prefixes maxMetric =
     map (\<lambda>p. (be_nat (addr p), be_nat (addr p) + 2 ^ nat (int bits - ones p)))
       (filter (\<lambda>p. \<not> metric p > maxMetric) prefixes)"

definition coversWithin :: "cover_prefix list \<Rightarrow> 32 word \<Rightarrow> bool" where
  "coversWithin prefixes maxMetric =
     (let bits = length (addr (prefixes ! 0)) * 8;
          tot = 2 ^ bits;
          spans = go_stable_sort (\<lambda>a b. fst a < fst b) (spans_within bits prefixes maxMetric)
      in cover_walk tot 0 spans)"

definition coverMetric :: "route_cover \<Rightarrow> 32 word option" where
  "coverMetric c =
     (if length c = 0 then None else find (\<lambda>m. coversWithin c m) (distinctMetricsAscending c))"

definition defaults :: "cover_table \<Rightarrow> (cover_key \<rightharpoonup> 32 word)" where
  "defaults t = (\<lambda>key. case t key of None \<Rightarrow> None | Some c \<Rightarrow> coverMetric c)"

section \<open>Network addresses\<close>

lemma be_nat_Nil [simp]: "be_nat [] = 0"
  by (simp add: be_nat_def)

lemma be_nat_snoc [simp]: "be_nat (bs @ [b]) = be_nat bs * 256 + unat b"
  by (simp add: be_nat_def)

lemma be_nat_Cons: "be_nat (b # bs) = unat b * 256 ^ length bs + be_nat bs"
proof (induction bs rule: rev_induct)
  case Nil
  then show ?case by (simp add: be_nat_def)
next
  case (snoc x xs)
  then show ?case
    using be_nat_snoc [of "b # xs" x] by (simp add: algebra_simps)
qed

lemma unat8_less: "unat (b :: 8 word) < 256"
  using unsigned_less [where ?'a = nat and w = b] by simp

lemma be_nat_less: "be_nat bs < 2 ^ (8 * length bs)"
proof (induction bs)
  case Nil
  then show ?case by simp
next
  case (Cons b bs)
  have "(256::nat) ^ length bs = 2 ^ (8 * length bs)" by (simp add: power_mult)
  then have "be_nat (b # bs) = unat b * 2 ^ (8 * length bs) + be_nat bs"
    by (simp add: be_nat_Cons)
  moreover have "Suc (unat b) * 2 ^ (8 * length bs) \<le> 256 * 2 ^ (8 * length bs)"
    using unat8_less [of b] by (intro mult_le_mono1) simp
  moreover have "(2::nat) ^ (8 * length (b # bs)) = 256 * 2 ^ (8 * length bs)"
    by (simp add: power_add)
  ultimately show ?case using Cons unfolding mult_Suc by linarith
qed

lemma be_nat_0: "be_nat bs = 0 \<longleftrightarrow> (\<forall>b\<in>set bs. b = 0)"
  by (induction bs) (auto simp: be_nat_Cons unat_eq_0)

lemma net_loop_nonpos: "k \<le> 0 \<Longrightarrow> net_loop bs k \<longleftrightarrow> be_nat bs = 0"
  by (induction bs arbitrary: k) (auto simp: be_nat_Cons unat_eq_0)

lemma low_bits_clear:
  fixes b :: "8 word"
  assumes "0 < k" "k < 8"
  shows "b AND drop_bit k 0xFF = 0 \<longleftrightarrow> unat b mod 2 ^ (8 - k) = 0"
proof -
  consider "k = 1" | "k = 2" | "k = 3" | "k = 4" | "k = 5" | "k = 6" | "k = 7"
    using assms by linarith
  then have "drop_bit k (0xFF :: 8 word) = mask (8 - k)"
    by cases (simp_all add: mask_eq_exp_minus_1)
  then have "b AND drop_bit k 0xFF = take_bit (8 - k) b"
    by (simp add: take_bit_eq_mask)
  moreover have "unat (take_bit (8 - k) b) = unat b mod 2 ^ (8 - k)"
    by (simp add: unsigned_take_bit_eq flip: take_bit_eq_mod)
  ultimately show ?thesis using unat_eq_0 [of "take_bit (8 - k) b"] by simp
qed

lemma dvd_split:
  assumes "k \<le> 8 * length bs"
  shows "2 ^ (8 * length bs - k) dvd be_nat bs \<longleftrightarrow> net_loop bs (int k)"
  using assms
proof (induction bs arbitrary: k)
  case Nil
  then show ?case by simp
next
  case (Cons b bs)
  let ?L = "8 * length bs"
  have pow: "(256::nat) ^ length bs = 2 ^ ?L" by (simp add: power_mult)
  consider (whole) "8 \<le> k" | (zero) "k = 0" | (part) "0 < k" "k < 8" by linarith
  then show ?case
  proof cases
    case whole
    with Cons.prems have le: "k - 8 \<le> ?L" by simp
    have "2 ^ (?L - (k - 8)) dvd be_nat (b # bs) \<longleftrightarrow> 2 ^ (?L - (k - 8)) dvd be_nat bs"
    proof -
      have "(2::nat) ^ (?L - (k - 8)) dvd unat b * 256 ^ length bs"
        unfolding pow by (intro dvd_mult le_imp_power_dvd) simp
      then show ?thesis by (simp add: be_nat_Cons dvd_add_right_iff)
    qed
    moreover have "8 * length (b # bs) - k = ?L - (k - 8)" using whole by simp
    ultimately show ?thesis
      using Cons.IH [OF le] whole by (simp add: of_nat_diff)
  next
    case zero
    have "be_nat (b # bs) < 2 ^ (8 * length (b # bs))" by (rule be_nat_less)
    then have "2 ^ (8 * length (b # bs)) dvd be_nat (b # bs) \<longleftrightarrow> be_nat (b # bs) = 0"
      by (metis dvd_0_right nat_dvd_not_less neq0_conv)
    then show ?thesis using zero net_loop_nonpos [of 0 "b # bs"] by simp
  next
    case part
    have exp: "8 * length (b # bs) - k = ?L + (8 - k)" using part by simp
    have "2 ^ (?L + (8 - k)) dvd unat b * 2 ^ ?L + be_nat bs \<longleftrightarrow>
        be_nat bs = 0 \<and> 2 ^ (8 - k) dvd unat b"
    proof
      assume d: "2 ^ (?L + (8 - k)) dvd unat b * 2 ^ ?L + be_nat bs"
      then have "2 ^ ?L dvd unat b * 2 ^ ?L + be_nat bs"
        by (metis dvd_mult_left power_add)
      then have "2 ^ ?L dvd be_nat bs" by (simp add: dvd_add_right_iff)
      then have z: "be_nat bs = 0"
        using be_nat_less [of bs] by (metis nat_dvd_not_less neq0_conv)
      with d show "be_nat bs = 0 \<and> 2 ^ (8 - k) dvd unat b"
        by (simp add: power_add mult.commute)
    next
      assume "be_nat bs = 0 \<and> 2 ^ (8 - k) dvd unat b"
      then show "2 ^ (?L + (8 - k)) dvd unat b * 2 ^ ?L + be_nat bs"
        by (simp add: power_add mult.commute)
    qed
    then have "2 ^ (8 * length (b # bs) - k) dvd be_nat (b # bs) \<longleftrightarrow>
        be_nat bs = 0 \<and> 2 ^ (8 - k) dvd unat b"
      unfolding exp be_nat_Cons pow .
    moreover have "net_loop (b # bs) (int k) \<longleftrightarrow> 2 ^ (8 - k) dvd unat b \<and> be_nat bs = 0"
      using part low_bits_clear [of k b] net_loop_nonpos [of "int k - 8" bs]
      by (simp add: dvd_eq_mod_eq_0)
    ultimately show ?thesis by blast
  qed
qed

lemma isNetworkAddress_iff_aligned_aux:
  assumes "0 \<le> k" and "k \<le> 8 * int (length dest)"
  shows "isNetworkAddress dest k \<longleftrightarrow> 2 ^ nat (8 * int (length dest) - k) dvd be_nat dest"
proof -
  from assms obtain n where n: "k = int n" "n \<le> 8 * length dest"
    by (metis nonneg_int_cases of_nat_le_iff of_nat_mult of_nat_numeral)
  then have "nat (8 * int (length dest) - k) = 8 * length dest - n" by simp
  with dvd_split [OF n(2)] n(1) show ?thesis by (simp add: isNetworkAddress_def)
qed

text \<open>A destination passes the network-address test for a prefix length exactly when, read as a
  big-endian number, it is a multiple of the size of such a prefix: all host bits are clear.\<close>

theorem isNetworkAddress_iff_aligned:
  assumes "0 \<le> k" and "k \<le> 8 * int (length dest)"
  shows "isNetworkAddress dest k \<longleftrightarrow> 2 ^ nat (8 * int (length dest) - k) dvd be_nat dest"
  using assms by (rule isNetworkAddress_iff_aligned_aux)

lemma isNetworkAddress_iff_aligned_witness:
  "isNetworkAddress [128, 0, 0, 0] 1 \<and> (2::nat) ^ 31 dvd be_nat [128, 0, 0, 0] \<and>
   \<not> isNetworkAddress [1, 2, 3, 4] 1"
proof -
  have "isNetworkAddress [128, 0, 0, 0] 1"
    by (simp add: isNetworkAddress_def)
  then show ?thesis
    using isNetworkAddress_iff_aligned [of 1 "[128, 0, 0, 0]"]
    by (simp add: isNetworkAddress_def be_nat_def)
qed

section \<open>The interval walk\<close>

text \<open>
  Over spans sorted by start, the walk decides whether every address from \<open>covered\<close> on lies in
  some span.
\<close>

lemma walk_step:
  fixes c c' :: nat
  assumes "c \<le> c'"
  shows "(\<forall>a. c' \<le> a \<and> a < t \<longrightarrow> P a) \<longleftrightarrow> (\<forall>a. c \<le> a \<and> a < t \<longrightarrow> a < c' \<or> P a)"
  using assms by (meson le_trans not_le)

lemma cover_walk_correct:
  assumes "sorted (map fst spans)" and "c < tot"
  shows "cover_walk tot c spans \<longleftrightarrow> (\<forall>a. c \<le> a \<and> a < tot \<longrightarrow> (\<exists>s\<in>set spans. fst s \<le> a \<and> a < snd s))"
  using assms
proof (induction spans arbitrary: c)
  case Nil
  then show ?case by auto
next
  case (Cons s spans)
  let ?c = "if snd s > c then snd s else c"
  show ?case
  proof (cases "fst s > c")
    case True
    then have "\<not> (\<exists>t\<in>set (s # spans). fst t \<le> c \<and> c < snd t)"
      using Cons.prems(1) by auto
    then show ?thesis using True Cons.prems(2) by auto
  next
    case False
    have covered: "(\<exists>t\<in>set (s # spans). fst t \<le> a \<and> a < snd t) \<longleftrightarrow>
        a < ?c \<or> (\<exists>t\<in>set spans. fst t \<le> a \<and> a < snd t)" if "c \<le> a" for a
      using that False by auto
    show ?thesis
    proof (cases "?c \<ge> tot")
      case True
      then have "cover_walk tot c (s # spans)" using False by (simp add: Let_def)
      moreover have "\<forall>a. c \<le> a \<and> a < tot \<longrightarrow> (\<exists>t\<in>set (s # spans). fst t \<le> a \<and> a < snd t)"
        using covered True by (meson less_le_trans)
      ultimately show ?thesis by blast
    next
      case notyet: False
      then have "cover_walk tot c (s # spans) \<longleftrightarrow> cover_walk tot ?c spans"
        using False by (simp add: Let_def)
      also have "\<dots> \<longleftrightarrow> (\<forall>a. ?c \<le> a \<and> a < tot \<longrightarrow> (\<exists>t\<in>set spans. fst t \<le> a \<and> a < snd t))"
        using Cons.prems(1) notyet by (intro Cons.IH) auto
      also have "\<dots> \<longleftrightarrow> (\<forall>a. c \<le> a \<and> a < tot \<longrightarrow> (a < ?c \<or> (\<exists>t\<in>set spans. fst t \<le> a \<and> a < snd t)))"
        by (rule walk_step) simp
      also have "\<dots> \<longleftrightarrow> (\<forall>a. c \<le> a \<and> a < tot \<longrightarrow> (\<exists>t\<in>set (s # spans). fst t \<le> a \<and> a < snd t))"
        using covered by blast
      finally show ?thesis .
    qed
  qed
qed

section \<open>Coverage\<close>

text \<open>The abstract reading of a route: the addresses whose leading bits it fixes.\<close>

definition matches :: "nat \<Rightarrow> cover_prefix \<Rightarrow> nat \<Rightarrow> bool" where
  "matches bits p a \<longleftrightarrow> drop_bit (nat (int bits - ones p)) a = drop_bit (nat (int bits - ones p)) (be_nat (addr p))"

text \<open>What \<open>add\<close> guarantees of a stored prefix, for a family whose addresses have \<open>n\<close> bytes.\<close>

definition wf_prefix :: "nat \<Rightarrow> cover_prefix \<Rightarrow> bool" where
  "wf_prefix n p \<longleftrightarrow> length (addr p) = n \<and> 0 \<le> ones p \<and> ones p \<le> 8 * int n \<and>
     isNetworkAddress (addr p) (ones p)"

interpretation by_start: key_order_irrefl "\<lambda>a b :: nat \<times> nat. fst a < fst b" fst
  by unfold_locales auto

lemma aligned_interval:
  fixes s a :: nat
  assumes "2 ^ k dvd s"
  shows "s \<le> a \<and> a < s + 2 ^ k \<longleftrightarrow> drop_bit k a = drop_bit k s"
proof -
  from assms obtain q where q: "s = 2 ^ k * q" ..
  have "s \<le> a \<and> a < s + 2 ^ k \<longleftrightarrow> a div 2 ^ k = q"
  proof
    assume "s \<le> a \<and> a < s + 2 ^ k"
    then show "a div 2 ^ k = q"
      unfolding q by (intro div_nat_eqI) (simp_all add: algebra_simps)
  next
    assume "a div 2 ^ k = q"
    then show "s \<le> a \<and> a < s + 2 ^ k"
      unfolding q by (metis dividend_less_times_div mult.commute times_div_less_eq_dividend
        zero_less_numeral zero_less_power add.commute)
  qed
  then show ?thesis by (simp add: drop_bit_eq_div q)
qed

lemma wf_prefix_span:
  assumes "wf_prefix n p"
  shows "be_nat (addr p) \<le> a \<and> a < be_nat (addr p) + 2 ^ nat (int (n * 8) - ones p) \<longleftrightarrow> matches (n * 8) p a"
proof -
  have "2 ^ nat (8 * int (length (addr p)) - ones p) dvd be_nat (addr p)"
    using assms isNetworkAddress_iff_aligned_aux [of "ones p" "addr p"] by (simp add: wf_prefix_def)
  then have "2 ^ nat (int (n * 8) - ones p) dvd be_nat (addr p)"
    using assms by (simp add: wf_prefix_def mult.commute)
  then show ?thesis unfolding matches_def by (rule aligned_interval)
qed

lemma coversWithin_matches:
  assumes "ps \<noteq> []" and "\<forall>p\<in>set ps. wf_prefix n p"
  shows "coversWithin ps M \<longleftrightarrow> (\<forall>a < 2 ^ (n * 8). \<exists>p\<in>set ps. metric p \<le> M \<and> matches (n * 8) p a)"
proof -
  let ?sp = "spans_within (n * 8) ps M"
  have len: "length (addr (ps ! 0)) = n"
    using assms by (simp add: wf_prefix_def)
  have "coversWithin ps M \<longleftrightarrow>
      (\<forall>a. 0 \<le> a \<and> a < 2 ^ (n * 8) \<longrightarrow> (\<exists>s\<in>set (go_stable_sort (\<lambda>a b. fst a < fst b) ?sp). fst s \<le> a \<and> a < snd s))"
    unfolding coversWithin_def Let_def len
    by (intro cover_walk_correct by_start.sorted_all) simp
  also have "\<dots> \<longleftrightarrow> (\<forall>a < 2 ^ (n * 8). \<exists>p\<in>set ps. metric p \<le> M \<and> matches (n * 8) p a)"
  proof -
    have "(\<exists>s\<in>set ?sp. fst s \<le> a \<and> a < snd s) \<longleftrightarrow> (\<exists>p\<in>set ps. metric p \<le> M \<and> matches (n * 8) p a)" for a
    proof -
      have "(\<exists>s\<in>set ?sp. fst s \<le> a \<and> a < snd s) \<longleftrightarrow>
          (\<exists>p\<in>set ps. metric p \<le> M \<and>
            (be_nat (addr p) \<le> a \<and> a < be_nat (addr p) + 2 ^ nat (int (n * 8) - ones p)))"
        by (auto simp: spans_within_def not_less)
      also have "\<dots> \<longleftrightarrow> (\<exists>p\<in>set ps. metric p \<le> M \<and> matches (n * 8) p a)"
        using assms(2) wf_prefix_span by (intro bex_cong conj_cong refl) blast
      finally show ?thesis .
    qed
    then show ?thesis by simp
  qed
  finally show ?thesis .
qed

text \<open>C37. The interval walk decides coverage exactly: for prefixes of one family that \<open>add\<close> accepted,
  \<open>coversWithin\<close> holds at a metric bound if and only if every address of the family is matched by
  some prefix of at most that metric.\<close>

theorem coversWithin_iff_all_matched:
  assumes "ps \<noteq> []" and "\<forall>p\<in>set ps. wf_prefix n p"
  shows "coversWithin ps M \<longleftrightarrow> (\<forall>a < 2 ^ (n * 8). \<exists>p\<in>set ps. metric p \<le> M \<and> matches (n * 8) p a)"
  using assms by (rule coversWithin_matches)

text \<open>The pair of \<open>/1\<close> routes that OpenVPN's \<open>redirect-gateway def1\<close> installs covers IPv4.\<close>

lemma coversWithin_iff_all_matched_witness:
  "\<exists>p\<in>set [\<lparr>ones = 1, addr = [0,0,0,0], metric = 5\<rparr>, \<lparr>ones = 1, addr = [128,0,0,0], metric = 7\<rparr>].
     metric p \<le> 7 \<and> matches 32 p 3000000000"
proof -
  let ?ps = "[\<lparr>ones = 1, addr = [0,0,0,0], metric = 5\<rparr>, \<lparr>ones = 1, addr = [128,0,0,0], metric = 7\<rparr>] :: cover_prefix list"
  have "coversWithin ?ps 7"
    by (simp add: coversWithin_def spans_within_def be_nat_def go_stable_sort_def)
  moreover have "\<forall>p\<in>set ?ps. wf_prefix 4 p"
    by (simp add: wf_prefix_def isNetworkAddress_def)
  ultimately have "\<forall>a < 2 ^ (4 * 8). \<exists>p\<in>set ?ps. metric p \<le> 7 \<and> matches (4 * 8) p a"
    using coversWithin_iff_all_matched [of ?ps 4 7] by blast
  from this [rule_format, of 3000000000] show ?thesis by simp
qed

interpretation metrics: key_order_irrefl "(<) :: 32 word \<Rightarrow> 32 word \<Rightarrow> bool" "\<lambda>m. m"
  by unfold_locales auto

lemma set_distinctMetricsAscending: "set (distinctMetricsAscending ps) = metric ` set ps"
  by (simp add: distinctMetricsAscending_def)

lemma sorted_distinctMetricsAscending: "sorted (distinctMetricsAscending ps)"
  using metrics.sorted_all [of "dedup_seen {} (map metric ps)"]
  by (simp add: distinctMetricsAscending_def)

lemma find_sorted_le:
  fixes xs :: "'a::linorder list"
  assumes "sorted xs"
  shows "(\<exists>m. find P xs = Some m \<and> m \<le> b) \<longleftrightarrow> (\<exists>m\<in>set xs. P m \<and> m \<le> b)"
  using assms by (induction xs) (auto intro: order_trans)

text \<open>Coverage at a bound is already reached at one of the stored metrics below it.\<close>

lemma coversWithin_at_stored_metric:
  assumes "ps \<noteq> []" and "\<forall>p\<in>set ps. wf_prefix n p" and "coversWithin ps M"
  shows "\<exists>m\<in>metric ` set ps. coversWithin ps m \<and> m \<le> M"
proof -
  let ?S = "{m \<in> metric ` set ps. m \<le> M}"
  have all: "\<forall>a < 2 ^ (n * 8). \<exists>p\<in>set ps. metric p \<le> M \<and> matches (n * 8) p a"
    using assms coversWithin_matches by blast
  then have ne: "?S \<noteq> {}" by fastforce
  have fin: "finite ?S" by simp
  then have "Max ?S \<in> ?S" using ne by (rule Max_in)
  moreover have "metric p \<le> Max ?S" if "p \<in> set ps" "metric p \<le> M" for p
    using fin that by (intro Max_ge) auto
  ultimately have "coversWithin ps (Max ?S)"
    using all coversWithin_matches [OF assms(1,2), of "Max ?S"] by meson
  then show ?thesis using \<open>Max ?S \<in> ?S\<close> by blast
qed

lemma coversWithin_mono:
  assumes "ps \<noteq> []" and "\<forall>p\<in>set ps. wf_prefix n p" and "coversWithin ps m" and "m \<le> M"
  shows "coversWithin ps M"
  using assms(3) unfolding coversWithin_matches [OF assms(1,2)]
  using assms(4) by (meson order_trans)

lemma coverMetric_le_iff:
  assumes "ps \<noteq> []" and "\<forall>p\<in>set ps. wf_prefix n p"
  shows "(\<exists>m. coverMetric ps = Some m \<and> m \<le> M) \<longleftrightarrow> coversWithin ps M"
proof -
  have "(\<exists>m. coverMetric ps = Some m \<and> m \<le> M) \<longleftrightarrow> (\<exists>m\<in>metric ` set ps. coversWithin ps m \<and> m \<le> M)"
    using assms(1) find_sorted_le [OF sorted_distinctMetricsAscending [of ps], of "coversWithin ps" M]
    by (simp add: coverMetric_def set_distinctMetricsAscending)
  then show ?thesis
    using coversWithin_at_stored_metric [OF assms] coversWithin_mono [OF assms] by blast
qed

section \<open>The whole table\<close>

text \<open>One row of the operating system's route table, as the adapter passes it to \<open>add\<close>.\<close>

record route_row =
  r_index :: "32 word"
  r_family :: "16 word"
  r_dest :: bytes
  r_ones :: int
  r_metric :: "32 word"

definition add_row :: "cover_table \<Rightarrow> route_row \<Rightarrow> cover_table" where
  "add_row t r = add t (r_index r) (r_family r) (r_dest r) (r_ones r) (r_metric r)"

definition row_prefix :: "route_row \<Rightarrow> cover_prefix" where
  "row_prefix r = \<lparr>ones = r_ones r, addr = r_dest r, metric = r_metric r\<rparr>"

definition row_kept :: "route_row \<Rightarrow> bool" where
  "row_kept r \<longleftrightarrow> r_dest r \<noteq> [] \<and> wf_prefix (length (r_dest r)) (row_prefix r)"

definition rows_of :: "cover_key \<Rightarrow> route_row list \<Rightarrow> route_row list" where
  "rows_of key rs = filter (\<lambda>r. row_kept r \<and> (r_index r, r_family r) = key) rs"

lemma add_row_lookup:
  "case_option [] id (add_row t r key) = case_option [] id (t key) @ map row_prefix (rows_of key [r])"
  by (auto simp: add_row_def add_def rows_of_def row_kept_def row_prefix_def wf_prefix_def Let_def
      split: option.split)

lemma fold_add_row_lookup:
  "case_option [] id (foldl add_row t rs key) = case_option [] id (t key) @ map row_prefix (rows_of key rs)"
proof (induction rs arbitrary: t)
  case Nil
  then show ?case by (simp add: rows_of_def)
next
  case (Cons r rs)
  then show ?case
    using add_row_lookup [of t r key] by (simp add: rows_of_def)
qed

lemma defaults_lookup:
  "defaults t key = coverMetric (case_option [] id (t key))"
  by (simp add: defaults_def coverMetric_def split: option.split)

text \<open>Walking a whole route table: for an interface and a family whose addresses have \<open>n\<close> bytes, the
  reported default metric is at most \<open>M\<close> exactly when the well-formed rows of that interface and
  family with metric at most \<open>M\<close> together match every address of the family. In particular no other
  interface's or family's rows count, and malformed rows never do.\<close>

theorem defaults_report_capture_metric:
  assumes "\<forall>r\<in>set rs. (r_index r, r_family r) = key \<longrightarrow> length (r_dest r) = n"
  shows "(\<exists>m. defaults (foldl add_row Map.empty rs) key = Some m \<and> m \<le> M) \<longleftrightarrow>
    (\<forall>a < 2 ^ (n * 8). \<exists>r\<in>set (rows_of key rs). r_metric r \<le> M \<and> matches (n * 8) (row_prefix r) a)"
proof (cases "rows_of key rs = []")
  case True
  then have "defaults (foldl add_row Map.empty rs) key = None"
    using fold_add_row_lookup [of Map.empty rs key]
    by (simp add: defaults_lookup coverMetric_def)
  moreover have "\<exists>a::nat. a < 2 ^ (n * 8)" by (rule exI [of _ 0]) simp
  ultimately show ?thesis using True by auto
next
  case False
  let ?ps = "map row_prefix (rows_of key rs)"
  have wf: "\<forall>p\<in>set ?ps. wf_prefix n p"
    using assms by (auto simp: rows_of_def row_kept_def)
  have "defaults (foldl add_row Map.empty rs) key = coverMetric ?ps"
    using fold_add_row_lookup [of Map.empty rs key] by (simp add: defaults_lookup)
  then show ?thesis
    using False coverMetric_le_iff [OF _ wf] coversWithin_matches [OF _ wf]
    by (simp add: row_prefix_def)
qed

text \<open>An exit node's pair of halves: captured at the worse of the two metrics.\<close>

lemma defaults_report_capture_metric_witness:
  "defaults (foldl add_row Map.empty
     [\<lparr>r_index = 3, r_family = 2, r_dest = [0,0,0,0], r_ones = 1, r_metric = 0\<rparr>,
      \<lparr>r_index = 3, r_family = 2, r_dest = [128,0,0,0], r_ones = 1, r_metric = 4\<rparr>]) (3, 2) = Some 4 \<and>
   (\<exists>r\<in>set (rows_of (3, 2)
     [\<lparr>r_index = 3, r_family = 2, r_dest = [0,0,0,0], r_ones = 1, r_metric = 0\<rparr>,
      \<lparr>r_index = 3, r_family = 2, r_dest = [128,0,0,0], r_ones = 1, r_metric = 4\<rparr>]).
      r_metric r \<le> 4 \<and> matches (4 * 8) (row_prefix r) 77)"
proof -
  let ?rs = "[\<lparr>r_index = 3, r_family = 2, r_dest = [0,0,0,0], r_ones = 1, r_metric = 0\<rparr>,
      \<lparr>r_index = 3, r_family = 2, r_dest = [128,0,0,0], r_ones = 1, r_metric = 4\<rparr>] :: route_row list"
  have some: "defaults (foldl add_row Map.empty ?rs) (3, 2) = Some 4"
    by (simp add: add_row_def add_def isNetworkAddress_def defaults_lookup coverMetric_def
        distinctMetricsAscending_def coversWithin_def spans_within_def be_nat_def go_stable_sort_def)
  moreover have "\<exists>r\<in>set (rows_of (3, 2) ?rs). r_metric r \<le> 4 \<and> matches (4 * 8) (row_prefix r) 77"
    using defaults_report_capture_metric [of ?rs "(3, 2)" 4 4] some by auto
  ultimately show ?thesis by blast
qed

end
