(* ===== verification/Dnswire.thy ===== *)
theory Dnswire
  imports Go_Lib
begin

unbundle bit_operations_syntax

text \<open>
  The DNS wire format (\<^verbatim>\<open>core/dnswire/dnswire.go\<close>): one question encoded, one response parsed.
  A message is a byte list, a name a Go string, an offset an \<open>int\<close> as in the code.  The name reader's
  loop is a recursive function, total by the measure below: every compression pointer is counted and
  every label moves forward.  A Go map is a HOL map; the map's values are Go slices.
\<close>

section \<open>Messages and names\<close>

type_synonym msg = "8 word list"

datatype dns_error =
    EmptyHost
  | InvalidLabel string
  | NameTooLong string
  | ShortResponse
  | NotAResponse
  | Rcode "16 word" string
  | TruncatedQuestion
  | TruncatedHeader
  | TruncatedData
  | NoRecord string string
  | OffsetOutOfRange
  | TruncatedLabel
  | TruncatedPointer
  | NonBackwardPointer
  | TooManyPointers
  | ReservedLabel

definition TypeA :: "16 word" where "TypeA = 1"
definition TypeCNAME :: "16 word" where "TypeCNAME = 5"
definition TypeAAAA :: "16 word" where "TypeAAAA = 28"
definition ClassIN :: "16 word" where "ClassIN = 1"

definition IPv4len :: int where "IPv4len = 4"
definition IPv6len :: int where "IPv6len = 16"

text \<open>\<^verbatim>\<open>binary.BigEndian\<close>.\<close>

definition AppendUint16 :: "msg \<Rightarrow> 16 word \<Rightarrow> msg" where
  "AppendUint16 b v = b @ [ucast (drop_bit 8 v), ucast v]"

definition Uint16 :: "msg \<Rightarrow> 16 word" where
  "Uint16 b = ucast (b ! 1) OR push_bit 8 (ucast (b ! 0))"

text \<open>The slice \<^verbatim>\<open>msg[i:j]\<close>, for bounds the code has checked.\<close>

definition slice :: "msg \<Rightarrow> int \<Rightarrow> int \<Rightarrow> msg" where
  "slice m i j = take (nat (j - i)) (drop (nat i) m)"

definition CanonicalHost :: "case_table \<Rightarrow> string \<Rightarrow> string" where
  "CanonicalHost u h = trim_suffix ''.'' (to_lower u h)"

definition TypeName :: "16 word \<Rightarrow> string" where
  "TypeName qtype =
     (if qtype = TypeA then ''A''
      else if qtype = TypeAAAA then ''AAAA''
      else ''type-'' @ nat_str (unat qtype))"

section \<open>Encoding\<close>

fun encode_labels :: "string \<Rightarrow> string list \<Rightarrow> msg \<Rightarrow> dns_error + msg" where
  "encode_labels host [] out = Inr out"
| "encode_labels host (label # labels) out =
     (if length label = 0 \<or> length label > 63 then Inl (InvalidLabel host)
      else encode_labels host labels (out @ [word_of_nat (length label)] @ map byte_of label))"

definition EncodeName :: "string \<Rightarrow> dns_error + msg" where
  "EncodeName host0 =
     (let host = trim_suffix ''.'' host0
      in if host = [] then Inl EmptyHost
         else case encode_labels host (split_on (CHR ''.'') host) [] of
           Inl e \<Rightarrow> Inl e
         | Inr labels \<Rightarrow>
             (let out = labels @ [0] in if length out > 255 then Inl (NameTooLong host) else Inr out))"

definition query_header :: msg where
  "query_header = [0, 0, 1, 0, 0, 1, 0, 0, 0, 0, 0, 0]"

definition EncodeQuery :: "string \<Rightarrow> 16 word \<Rightarrow> dns_error + msg" where
  "EncodeQuery host qtype =
     (case EncodeName host of
        Inl e \<Rightarrow> Inl e
      | Inr nm \<Rightarrow> Inr (AppendUint16 (AppendUint16 (query_header @ nm) qtype) ClassIN))"

section \<open>Reading a name\<close>

definition maxPointers :: nat where "maxPointers = 32"

function read_name :: "case_table \<Rightarrow> msg \<Rightarrow> int \<Rightarrow> string \<Rightarrow> int \<Rightarrow> nat \<Rightarrow> dns_error + string \<times> int" where
  "read_name u m off sb nxt pointers =
     (if off < 0 \<or> off \<ge> int (length m) then Inl OffsetOutOfRange
      else let b = m ! nat off
       in if b AND 0xC0 = 0 then
            (if b = 0 then Inr (CanonicalHost u sb, if nxt < 0 then off + 1 else nxt)
             else let len = uint b; off1 = off + 1
              in if off1 + len > int (length m) then Inl TruncatedLabel
                 else read_name u m (off1 + len)
                        (sb @ map char_of_byte (slice m off1 (off1 + len)) @ ''.'') nxt pointers)
          else if b AND 0xC0 = 0xC0 then
            (if off + 1 \<ge> int (length m) then Inl TruncatedPointer
             else let ptr = push_bit 8 (uint (b AND 0x3F)) OR uint (m ! nat (off + 1));
                      nxt' = (if nxt < 0 then off + 2 else nxt)
              in if ptr \<ge> off then Inl NonBackwardPointer
                 else if pointers + 1 > maxPointers then Inl TooManyPointers
                 else read_name u m ptr sb nxt' (pointers + 1))
          else Inl ReservedLabel)"
  by pat_completeness auto

termination
  by (relation "measures [\<lambda>(u, m, off, sb, nxt, p). maxPointers - p, \<lambda>(u, m, off, sb, nxt, p). nat (int (length m) - off)]")
    (auto simp: word_neq_0_conv word_less_def)

declare read_name.simps [simp del]

definition ReadName :: "case_table \<Rightarrow> msg \<Rightarrow> int \<Rightarrow> dns_error + string \<times> int" where
  "ReadName u m off = read_name u m off [] (- 1) 0"

section \<open>Parsing a response\<close>

fun skip_questions :: "case_table \<Rightarrow> msg \<Rightarrow> nat \<Rightarrow> int \<Rightarrow> dns_error + int" where
  "skip_questions u m 0 off = Inr off"
| "skip_questions u m (Suc k) off =
     (case ReadName u m off of
        Inl e \<Rightarrow> Inl e
      | Inr (_, next) \<Rightarrow>
          (let off' = next + 4
           in if off' > int (length m) then Inl TruncatedQuestion else skip_questions u m k off'))"

type_synonym ip = "8 word list"

type_synonym answers = "(string \<rightharpoonup> string) \<times> (string \<Rightarrow> ip list)"

fun read_answers :: "case_table \<Rightarrow> msg \<Rightarrow> nat \<Rightarrow> int \<Rightarrow> answers \<Rightarrow> dns_error + answers" where
  "read_answers u m 0 off acc = Inr acc"
| "read_answers u m (Suc k) off (cnames, ipsByName) =
     (case ReadName u m off of
        Inl e \<Rightarrow> Inl e
      | Inr (owner, next) \<Rightarrow>
          if next + 10 > int (length m) then Inl TruncatedHeader
          else let rtype = Uint16 (slice m next (next + 2));
                   rdlen = uint (Uint16 (slice m (next + 8) (next + 10)));
                   off' = next + 10
           in if off' + rdlen > int (length m) then Inl TruncatedData
              else if rtype = TypeA then
                (if rdlen = IPv4len
                 then read_answers u m k (off' + rdlen)
                        (cnames, ipsByName(owner := ipsByName owner @ [slice m off' (off' + rdlen)]))
                 else read_answers u m k (off' + rdlen) (cnames, ipsByName))
              else if rtype = TypeAAAA then
                (if rdlen = IPv6len
                 then read_answers u m k (off' + rdlen)
                        (cnames, ipsByName(owner := ipsByName owner @ [slice m off' (off' + rdlen)]))
                 else read_answers u m k (off' + rdlen) (cnames, ipsByName))
              else if rtype = TypeCNAME then
                (case ReadName u m off' of
                   Inl e \<Rightarrow> Inl e
                 | Inr (target, _) \<Rightarrow>
                     read_answers u m k (off' + rdlen) (cnames(owner \<mapsto> target), ipsByName))
              else read_answers u m k (off' + rdlen) (cnames, ipsByName))"

definition maxHops :: nat where "maxHops = 32"

text \<open>The loop of \<^verbatim>\<open>followChain\<close>, with \<open>hops\<close> iterations left and \<open>seen\<close> the names visited.\<close>

fun follow_chain :: "nat \<Rightarrow> string list \<Rightarrow> string \<Rightarrow> (string \<rightharpoonup> string) \<Rightarrow> (string \<Rightarrow> ip list) \<Rightarrow> ip list" where
  "follow_chain 0 seen cur cnames ipsByName = []"
| "follow_chain (Suc hops) seen cur cnames ipsByName =
     (if cur \<in> set seen then []
      else ipsByName cur @
        (case cnames cur of
           None \<Rightarrow> []
         | Some next \<Rightarrow> follow_chain hops (cur # seen) next cnames ipsByName))"

definition followChain :: "string \<Rightarrow> (string \<rightharpoonup> string) \<Rightarrow> (string \<Rightarrow> ip list) \<Rightarrow> ip list" where
  "followChain start cnames ipsByName = follow_chain maxHops [] start cnames ipsByName"

definition ParseResponse :: "case_table \<Rightarrow> msg \<Rightarrow> string \<Rightarrow> 16 word \<Rightarrow> dns_error + ip list" where
  "ParseResponse u m host qtype =
     (if length m < 12 then Inl ShortResponse
      else let flags = Uint16 (slice m 2 4)
       in if flags AND 0x8000 = 0 then Inl NotAResponse
          else let rcode = flags AND 0x000F
           in if rcode \<noteq> 0 then Inl (Rcode rcode host)
              else let qdcount = unat (Uint16 (slice m 4 6)); ancount = unat (Uint16 (slice m 6 8))
               in case skip_questions u m qdcount 12 of
                    Inl e \<Rightarrow> Inl e
                  | Inr off \<Rightarrow>
                      (case read_answers u m ancount off (Map.empty, \<lambda>_. []) of
                         Inl e \<Rightarrow> Inl e
                       | Inr (cnames, ipsByName) \<Rightarrow>
                           (let ips = followChain (CanonicalHost u host) cnames ipsByName
                            in if length ips = 0 then Inl (NoRecord (TypeName qtype) host) else Inr ips)))"

section \<open>The name reader's offsets\<close>

lemma read_name_bounds:
  assumes "read_name u m off sb nxt p = Inr (s, n)"
  shows "(if nxt < 0 then off < n \<and> n \<le> int (length m) else n = nxt) \<and> 0 \<le> off \<and> off < int (length m)"
  using assms
proof (induction u m off sb nxt p arbitrary: s n rule: read_name.induct)
  case (1 u m off sb nxt p)
  let ?b = "m ! nat off"
  have rng: "0 \<le> off" "off < int (length m)"
    using "1.prems" by (subst (asm) read_name.simps, simp split: if_splits)+
  consider (root) "?b = 0" | (label) "?b AND 0xC0 = 0" "?b \<noteq> 0" | (ptr) "?b AND 0xC0 = 0xC0" "?b \<noteq> 0"
    | (bad) "?b AND 0xC0 \<noteq> 0" "?b AND 0xC0 \<noteq> 0xC0" by fastforce
  then show ?case
  proof cases
    case root
    then show ?thesis using "1.prems" rng by (subst (asm) read_name.simps) (auto split: if_splits)
  next
    case label
    let ?off' = "off + 1 + uint ?b"
    have fits: "?off' \<le> int (length m)"
      and rec: "read_name u m ?off' (sb @ map char_of_byte (slice m (off + 1) ?off') @ ''.'') nxt p = Inr (s, n)"
      using "1.prems" label rng by (subst (asm) read_name.simps, simp add: Let_def split: if_splits)+
    have "off < ?off'" using uint_ge_0 [of ?b] by linarith
    moreover have "(if nxt < 0 then ?off' < n \<and> n \<le> int (length m) else n = nxt)"
      using "1.IH"(1) [of ?b "uint ?b" "off + 1"] rec label rng fits by simp
    ultimately show ?thesis using rng by (auto split: if_splits)
  next
    case ptr
    let ?ptr = "push_bit 8 (uint (?b AND 0x3F)) OR uint (m ! nat (off + 1))"
    have fits: "off + 1 < int (length m)" and bwd: "?ptr < off" and cnt: "\<not> p + 1 > maxPointers"
      and rec: "read_name u m ?ptr sb (if nxt < 0 then off + 2 else nxt) (p + 1) = Inr (s, n)"
      using "1.prems" ptr rng by (subst (asm) read_name.simps, simp add: Let_def split: if_splits)+
    have "n = (if nxt < 0 then off + 2 else nxt)"
      using "1.IH"(2) [of ?b ?ptr "if nxt < 0 then off + 2 else nxt"] rec rng fits bwd ptr cnt
      by (simp split: if_splits)
    then show ?thesis using rng fits by auto
  next
    case bad
    then show ?thesis using "1.prems" rng by (subst (asm) read_name.simps) (auto split: if_splits)
  qed
qed

lemma ReadName_bounds:
  "ReadName u m off = Inr (s, n) \<Longrightarrow> 0 \<le> off \<and> off < n \<and> n \<le> int (length m)"
  using read_name_bounds [of u m off "[]" "- 1" 0 s n] by (simp add: ReadName_def)

text \<open>The name reader never runs past the message and always makes progress: when it accepts a name,
  the offset it reports lies strictly after where it started and within the message, whatever
  compression pointers the sender put there. (That it returns at all is the totality of its
  definition.)\<close>

theorem ReadName_progress_in_bounds:
  assumes "ReadName u m off = Inr (s, n)"
  shows "0 \<le> off \<and> off < n \<and> n \<le> int (length m)"
  using assms by (rule ReadName_bounds)

lemma ReadName_progress_in_bounds_witness:
  "ReadName (\<lambda>s. s) [1, 97, 0, 0xC0, 0] 3 = Inr (''a'', 5) \<and> (3::int) < 5"
proof -
  have "ReadName (\<lambda>s. s) [1, 97, 0, 0xC0, 0] 3 = Inr (''a'', 5)"
    by (simp add: ReadName_def read_name.simps maxPointers_def slice_def char_of_byte_def
        CanonicalHost_def to_lower_def go_eval trim_suffix_def has_suffix_def)
  from this ReadName_progress_in_bounds [OF this] show ?thesis by simp
qed

section \<open>Encoding and reading a name\<close>

definition label_ok :: "string \<Rightarrow> bool" where
  "label_ok l \<longleftrightarrow> 0 < length l \<and> length l \<le> 63"

text \<open>The labels of a name on the wire.\<close>

definition wire_labels :: "string list \<Rightarrow> msg" where
  "wire_labels ls = concat (map (\<lambda>l. word_of_nat (length l) # map byte_of l) ls)"

lemma wire_labels_simps [simp]:
  "wire_labels [] = []"
  "wire_labels (l # ls) = word_of_nat (length l) # map byte_of l @ wire_labels ls"
  by (simp_all add: wire_labels_def)

lemma encode_labels_eq:
  "encode_labels host ls out =
     (if list_all label_ok ls then Inr (out @ wire_labels ls) else Inl (InvalidLabel host))"
  by (induction ls arbitrary: out) (auto simp: label_ok_def not_le)

lemma EncodeName_Inr:
  "EncodeName host = Inr out \<longleftrightarrow>
     trim_suffix ''.'' host \<noteq> [] \<and>
     list_all label_ok (split_on (CHR ''.'') (trim_suffix ''.'' host)) \<and>
     out = wire_labels (split_on (CHR ''.'') (trim_suffix ''.'' host)) @ [0] \<and> length out \<le> 255"
  by (auto simp: EncodeName_def Let_def encode_labels_eq not_le)

lemma label_length_byte:
  assumes "label_ok l"
  shows "uint (word_of_nat (length l) :: 8 word) = int (length l)"
    and "(word_of_nat (length l) :: 8 word) AND 0xC0 = 0"
    and "(word_of_nat (length l) :: 8 word) \<noteq> 0"
proof -
  have lt: "length l < 64" "0 < length l" using assms by (auto simp: label_ok_def)
  then have un: "unat (word_of_nat (length l) :: 8 word) = length l"
    by (simp add: unat_of_nat)
  then show "uint (word_of_nat (length l) :: 8 word) = int (length l)"
    by (metis uint_nat)
  show "(word_of_nat (length l) :: 8 word) \<noteq> 0" using un lt by auto
  have "take_bit 6 (word_of_nat (length l) :: 8 word) = word_of_nat (length l)"
    using lt un by (intro word_unat_eq_iff [THEN iffD2]) (simp add: unsigned_take_bit_eq take_bit_nat_eq_self)
  then have "(word_of_nat (length l) :: 8 word) AND 0xC0 = take_bit 6 (word_of_nat (length l)) AND 0xC0"
    by simp
  also have "\<dots> = word_of_nat (length l) AND (mask 6 AND 0xC0)"
    by (simp add: take_bit_eq_mask and.assoc)
  also have "(mask 6 AND 0xC0 :: 8 word) = 0" by (simp add: mask_eq_exp_minus_1)
  finally show "(word_of_nat (length l) :: 8 word) AND 0xC0 = 0" by simp
qed

lemma slice_middle: "slice (pre @ xs @ suf) (int (length pre)) (int (length pre) + int (length xs)) = xs"
  by (simp add: slice_def)

lemma read_name_step:
  assumes "label_ok l"
  shows "read_name u (pre @ (word_of_nat (length l) # map byte_of l) @ suf) (int (length pre)) sb nxt p =
    read_name u (pre @ (word_of_nat (length l) # map byte_of l) @ suf)
      (int (length pre) + 1 + int (length l)) (sb @ l @ ''.'') nxt p"
proof -
  have "slice (pre @ (word_of_nat (length l) # map byte_of l) @ suf) (int (length pre) + 1)
      (int (length pre) + 1 + int (length l)) = map byte_of l"
    using slice_middle [of "pre @ [word_of_nat (length l)]" "map byte_of l" suf] by (simp add: algebra_simps)
  then show ?thesis
    using label_length_byte [OF assms] by (subst read_name.simps) (simp add: nth_append Let_def)
qed

lemma read_name_wire:
  assumes "list_all label_ok ls"
  shows "read_name u (pre @ wire_labels ls @ 0 # suf) (int (length pre)) sb nxt p =
    Inr (CanonicalHost u (sb @ concat (map (\<lambda>l. l @ ''.'') ls)),
      if nxt < 0 then int (length pre) + int (length (wire_labels ls)) + 1 else nxt)"
  using assms
proof (induction ls arbitrary: pre sb)
  case Nil
  then show ?case by (subst read_name.simps) simp
next
  case (Cons l ls)
  let ?pre = "pre @ word_of_nat (length l) # map byte_of l"
  have "read_name u (pre @ wire_labels (l # ls) @ 0 # suf) (int (length pre)) sb nxt p =
      read_name u (?pre @ wire_labels ls @ 0 # suf) (int (length ?pre)) (sb @ l @ ''.'') nxt p"
    using Cons.prems read_name_step [of l u pre "wire_labels ls @ 0 # suf" sb nxt p]
    by (simp add: algebra_simps)
  also have "\<dots> = Inr (CanonicalHost u (sb @ concat (map (\<lambda>l. l @ ''.'') (l # ls))),
      if nxt < 0 then int (length pre) + int (length (wire_labels (l # ls))) + 1 else nxt)"
    using Cons.IH [of ?pre "sb @ l @ ''.''"] Cons.prems by simp
  finally show ?case .
qed

lemma concat_dots: "ls \<noteq> [] \<Longrightarrow> concat (map (\<lambda>l. l @ ''.'') ls) = join ''.'' ls @ ''.''"
  by (induction ls rule: induct_list012) auto

lemma read_encoded:
  assumes "EncodeName host = Inr out"
  shows "read_name u (pre @ out @ suf) (int (length pre)) [] nxt p =
    Inr (CanonicalHost u (trim_suffix ''.'' host @ ''.''),
      if nxt < 0 then int (length pre) + int (length out) else nxt)"
proof -
  let ?ls = "split_on (CHR ''.'') (trim_suffix ''.'' host)"
  from assms have ok: "list_all label_ok ?ls" and out: "out = wire_labels ?ls @ [0]"
    by (auto simp: EncodeName_Inr)
  have "concat (map (\<lambda>l. l @ ''.'') ?ls) = trim_suffix ''.'' host @ ''.''"
    by (simp add: concat_dots)
  then show ?thesis
    using read_name_wire [OF ok, of u pre suf "[]" nxt p] by (simp add: out algebra_simps)
qed

lemma CanonicalHost_dot:
  assumes "list_all ascii h"
  shows "CanonicalHost u (trim_suffix ''.'' h @ ''.'') = CanonicalHost u h"
proof -
  have dot: "ascii_lower (CHR ''.'') = CHR ''.''" "ascii (CHR ''.'')"
    by (simp_all add: go_eval)
  have inv: "ascii_lower c = CHR ''.'' \<Longrightarrow> c = CHR ''.''" for c
    using of_char_ascii_lower [of c] by (auto simp: Let_def ascii_lower_def split: if_splits)
  show ?thesis
  proof (cases "\<exists>t. h = t @ ''.''")
    case True
    then obtain t where "h = t @ ''.''" ..
    then show ?thesis using assms by simp
  next
    case False
    then have ts: "trim_suffix ''.'' h = h" by (simp add: trim_suffix_def has_suffix_append)
    have "\<not> (\<exists>t. map ascii_lower h = t @ ''.'')"
    proof
      assume "\<exists>t. map ascii_lower h = t @ ''.''"
      then obtain a c where "h = a @ [c]" "ascii_lower c = CHR ''.''"
        by (auto simp: map_eq_append_conv)
      with inv False show False by blast
    qed
    then have "trim_suffix ''.'' (map ascii_lower h) = map ascii_lower h"
      by (simp add: trim_suffix_def has_suffix_append)
    then show ?thesis using assms dot ts by (simp add: CanonicalHost_def)
  qed
qed

text \<open>Encoding and reading are inverse: whatever surrounds it in a message, the encoding of a host is
  read back as that host's canonical form (lower case, no trailing dot), ending exactly where the
  encoding ends.\<close>

theorem EncodeName_ReadName_roundtrip:
  assumes "EncodeName host = Inr out" and "list_all ascii host"
  shows "ReadName u (pre @ out @ suf) (int (length pre)) =
    Inr (CanonicalHost u host, int (length pre) + int (length out))"
  using assms by (simp add: ReadName_def read_encoded CanonicalHost_dot)

lemma EncodeName_ReadName_roundtrip_witness:
  "ReadName (\<lambda>s. s) ([7] @ [2, 65, 98, 1, 99, 0] @ [9]) 1 = Inr (CanonicalHost (\<lambda>s. s) ''Ab.c.'', 7)"
proof -
  have "EncodeName ''Ab.c.'' = Inr [2, 65, 98, 1, 99, 0]"
    by (simp add: EncodeName_def trim_suffix_def has_suffix_def byte_of_def)
  then show ?thesis
    using EncodeName_ReadName_roundtrip [of "''Ab.c.''" "[2, 65, 98, 1, 99, 0]" "\<lambda>s. s" "[7]" "[9]"]
    by (simp add: ascii_def)
qed

section \<open>Following the chain\<close>

text \<open>The names \<open>follow_chain\<close> visits.\<close>

fun chain_names :: "nat \<Rightarrow> string list \<Rightarrow> string \<Rightarrow> (string \<rightharpoonup> string) \<Rightarrow> string list" where
  "chain_names 0 seen cur cnames = []"
| "chain_names (Suc hops) seen cur cnames =
     (if cur \<in> set seen then []
      else cur # (case cnames cur of None \<Rightarrow> [] | Some next \<Rightarrow> chain_names hops (cur # seen) next cnames))"

lemma follow_chain_names:
  "follow_chain hops seen cur cnames ips = concat (map ips (chain_names hops seen cur cnames))"
  by (induction hops arbitrary: seen cur) (auto split: option.split)

lemma chain_names_fresh:
  "distinct (chain_names hops seen cur cnames) \<and> set (chain_names hops seen cur cnames) \<inter> set seen = {} \<and>
   length (chain_names hops seen cur cnames) \<le> hops"
proof (induction hops arbitrary: seen cur)
  case 0
  then show ?case by simp
next
  case (Suc hops)
  show ?case using Suc [of "cur # seen"] by (auto split: option.split)
qed

lemma chain_names_hd:
  "chain_names hops seen cur cnames = [] \<or> hd (chain_names hops seen cur cnames) = cur"
  by (cases hops) auto

lemma chain_names_linked:
  "successively (\<lambda>a b. cnames a = Some b) (chain_names hops seen cur cnames)"
proof (induction hops arbitrary: seen cur)
  case 0
  then show ?case by simp
next
  case (Suc hops)
  show ?case
    using Suc [of "cur # seen"] chain_names_hd [of hops "cur # seen" _ cnames]
    by (auto simp: successively_Cons split: option.split)
      (metis hd_conv_nth)
qed

lemma chain_names_stop:
  assumes "chain_names hops seen cur cnames \<noteq> []"
  defines "l \<equiv> last (chain_names hops seen cur cnames)"
  shows "length (chain_names hops seen cur cnames) = hops \<or> cnames l = None \<or>
    (\<exists>b \<in> set seen \<union> set (chain_names hops seen cur cnames). cnames l = Some b)"
  using assms(1) unfolding l_def
proof (induction hops arbitrary: seen cur)
  case 0
  then show ?case by simp
next
  case (Suc hops)
  then have fresh: "cur \<notin> set seen" by auto
  show ?case
  proof (cases "cnames cur")
    case None
    then show ?thesis using fresh by simp
  next
    case (Some nx)
    show ?thesis
    proof (cases "chain_names hops (cur # seen) nx cnames = []")
      case True
      then have "hops = 0 \<or> nx \<in> set (cur # seen)" by (cases hops) (auto split: if_splits)
      then show ?thesis using True Some fresh by auto
    next
      case False
      then show ?thesis using Suc.IH [OF False] Some fresh by auto
    qed
  qed
qed

text \<open>The CNAME walk returns exactly the addresses bound to the names of the chain from the start, in
  chain order: no name is visited twice (so a looping chain ends), at most 32 names are visited, each
  is the CNAME target of the one before, and the walk stops early only at a name without a CNAME or
  one whose target was already visited.\<close>

theorem followChain_walks_chain:
  "\<exists>names. followChain start cnames ips = concat (map ips names) \<and>
     names \<noteq> [] \<and> hd names = start \<and> distinct names \<and> length names \<le> 32 \<and>
     successively (\<lambda>a b. cnames a = Some b) names \<and>
     (length names = 32 \<or> cnames (last names) = None \<or> (\<exists>b\<in>set names. cnames (last names) = Some b))"
proof -
  let ?ns = "chain_names maxHops [] start cnames"
  have ne: "?ns \<noteq> []" by (simp add: maxHops_def numeral_eq_Suc)
  show ?thesis
    using ne chain_names_fresh [of maxHops "[]" start cnames] chain_names_linked [of cnames maxHops "[]" start]
      chain_names_hd [of maxHops "[]" start cnames] chain_names_stop [OF ne]
    by (intro exI [of _ ?ns]) (simp add: followChain_def follow_chain_names maxHops_def)
qed

section \<open>The records of a response\<close>

text \<open>A reference reading of the answer section: the list of its resource records.\<close>

record rr =
  rr_owner :: string
  rr_type :: "16 word"
  rr_data :: int
  rr_len :: int

inductive records :: "case_table \<Rightarrow> msg \<Rightarrow> nat \<Rightarrow> int \<Rightarrow> rr list \<Rightarrow> bool" for u m where
  records_0: "records u m 0 off []"
| records_Suc: "ReadName u m off = Inr (owner, next) \<Longrightarrow>
    l = uint (Uint16 (slice m (next + 8) (next + 10))) \<Longrightarrow>
    next + 10 + l \<le> int (length m) \<Longrightarrow>
    records u m k (next + 10 + l) rs \<Longrightarrow>
    records u m (Suc k) off
      (\<lparr>rr_owner = owner, rr_type = Uint16 (slice m next (next + 2)), rr_data = next + 10, rr_len = l\<rparr> # rs)"

definition is_address :: "rr \<Rightarrow> bool" where
  "is_address r \<longleftrightarrow> rr_type r = TypeA \<and> rr_len r = IPv4len \<or> rr_type r = TypeAAAA \<and> rr_len r = IPv6len"

definition rr_ip :: "msg \<Rightarrow> rr \<Rightarrow> ip" where
  "rr_ip m r = slice m (rr_data r) (rr_data r + rr_len r)"

definition addresses_of :: "msg \<Rightarrow> rr list \<Rightarrow> string \<Rightarrow> ip list" where
  "addresses_of m rs name = map (rr_ip m) (filter (\<lambda>r. rr_owner r = name \<and> is_address r) rs)"

definition cname_link :: "case_table \<Rightarrow> msg \<Rightarrow> rr list \<Rightarrow> string \<Rightarrow> string \<Rightarrow> bool" where
  "cname_link u m rs a b \<longleftrightarrow>
     (\<exists>r\<in>set rs. rr_owner r = a \<and> rr_type r = TypeCNAME \<and> (\<exists>x. ReadName u m (rr_data r) = Inr (b, x)))"

lemma addresses_of_Cons:
  "addresses_of m (r # rs) name =
     (if rr_owner r = name \<and> is_address r then rr_ip m r # addresses_of m rs name else addresses_of m rs name)"
  by (simp add: addresses_of_def)

lemma cname_link_Cons:
  "cname_link u m (r # rs) a b \<longleftrightarrow>
     (rr_owner r = a \<and> rr_type r = TypeCNAME \<and> (\<exists>x. ReadName u m (rr_data r) = Inr (b, x))) \<or>
     cname_link u m rs a b"
  by (auto simp: cname_link_def)

lemma rr_types_distinct [simp]:
  "TypeA \<noteq> TypeAAAA" "TypeA \<noteq> TypeCNAME" "TypeAAAA \<noteq> TypeCNAME"
  "TypeAAAA \<noteq> TypeA" "TypeCNAME \<noteq> TypeA" "TypeCNAME \<noteq> TypeAAAA"
  by (simp_all add: TypeA_def TypeAAAA_def TypeCNAME_def)

lemma read_answers_step:
  assumes "read_answers u m (Suc k) off (cn, ips) = Inr res"
  obtains owner nx l t cn1 ips1 where
    "ReadName u m off = Inr (owner, nx)"
    "l = uint (Uint16 (slice m (nx + 8) (nx + 10)))" "t = Uint16 (slice m nx (nx + 2))"
    "nx + 10 + l \<le> int (length m)"
    "read_answers u m k (nx + 10 + l) (cn1, ips1) = Inr res"
    "\<forall>n. ips1 n = ips n @
       addresses_of m [\<lparr>rr_owner = owner, rr_type = t, rr_data = nx + 10, rr_len = l\<rparr>] n"
    "\<forall>a b. cn1 a = Some b \<longrightarrow> cn a = Some b \<or>
       cname_link u m [\<lparr>rr_owner = owner, rr_type = t, rr_data = nx + 10, rr_len = l\<rparr>] a b"
proof -
  obtain owner nx where rn: "ReadName u m off = Inr (owner, nx)"
    using assms by (auto split: sum.splits)
  define l where "l = uint (Uint16 (slice m (nx + 8) (nx + 10)))"
  define t where "t = Uint16 (slice m nx (nx + 2))"
  let ?r = "\<lparr>rr_owner = owner, rr_type = t, rr_data = nx + 10, rr_len = l\<rparr>"
  have fits: "nx + 10 + l \<le> int (length m)"
    using assms rn by (auto simp: Let_def l_def split: if_splits)
  have le: "nx + 10 \<le> int (length m)" using fits uint_ge_0 unfolding l_def by (smt (verit))
  have body: "(if t = TypeA \<and> l = IPv4len \<or> t = TypeAAAA \<and> l = IPv6len
      then read_answers u m k (nx + 10 + l) (cn, ips(owner := ips owner @ [rr_ip m ?r]))
      else if t = TypeCNAME
      then (case ReadName u m (nx + 10) of Inl e \<Rightarrow> Inl e
        | Inr (target, _) \<Rightarrow> read_answers u m k (nx + 10 + l) (cn(owner \<mapsto> target), ips))
      else read_answers u m k (nx + 10 + l) (cn, ips)) = Inr res"
    using assms rn fits le
    by (cases "t = TypeA"; cases "t = TypeAAAA"; cases "t = TypeCNAME")
      (auto simp: Let_def l_def [symmetric] t_def [symmetric] rr_ip_def split: if_splits)
  consider (address) "is_address ?r" | (cname) "t = TypeCNAME"
    | (other) "\<not> is_address ?r" "t \<noteq> TypeCNAME" by blast
  then show ?thesis
  proof cases
    case address
    then have "read_answers u m k (nx + 10 + l) (cn, ips(owner := ips owner @ [rr_ip m ?r])) = Inr res"
      using body by (simp add: is_address_def)
    then show ?thesis
      using address by (intro that [OF rn l_def t_def fits]) (auto simp: addresses_of_def)
  next
    case cname
    then obtain target x where tg: "ReadName u m (nx + 10) = Inr (target, x)"
      using body by (auto split: if_splits sum.splits)
    then have "read_answers u m k (nx + 10 + l) (cn(owner \<mapsto> target), ips) = Inr res"
      using body cname by simp
    then show ?thesis
      using cname tg
      by (intro that [OF rn l_def t_def fits]) (auto simp: addresses_of_def is_address_def cname_link_def split: if_splits)
  next
    case other
    then have "read_answers u m k (nx + 10 + l) (cn, ips) = Inr res"
      using body by (auto simp: is_address_def)
    then show ?thesis
      using other by (intro that [OF rn l_def t_def fits]) (auto simp: addresses_of_def)
  qed
qed

lemma read_answers_records:
  assumes "read_answers u m k off (cn, ips) = Inr (cn', ips')"
  shows "\<exists>rs. records u m k off rs \<and> (\<forall>n. ips' n = ips n @ addresses_of m rs n) \<and>
    (\<forall>a b. cn' a = Some b \<longrightarrow> cn a = Some b \<or> cname_link u m rs a b)"
  using assms
proof (induction k arbitrary: off cn ips)
  case 0
  then show ?case by (intro exI [of _ "[]"]) (auto intro: records_0 simp: addresses_of_def)
next
  case (Suc k)
  from Suc.prems show ?case
  proof (rule read_answers_step)
    fix owner nx l t cn1 ips1
    let ?r = "\<lparr>rr_owner = owner, rr_type = t, rr_data = nx + 10, rr_len = l\<rparr>"
    assume rn: "ReadName u m off = Inr (owner, nx)" and l: "l = uint (Uint16 (slice m (nx + 8) (nx + 10)))"
      and t: "t = Uint16 (slice m nx (nx + 2))" and fits: "nx + 10 + l \<le> int (length m)"
      and rec: "read_answers u m k (nx + 10 + l) (cn1, ips1) = Inr (cn', ips')"
      and i1: "\<forall>n. ips1 n = ips n @ addresses_of m [?r] n"
      and c1: "\<forall>a b. cn1 a = Some b \<longrightarrow> cn a = Some b \<or> cname_link u m [?r] a b"
    from Suc.IH [OF rec] obtain rs where rs: "records u m k (nx + 10 + l) rs"
      and i2: "\<forall>n. ips' n = ips1 n @ addresses_of m rs n"
      and c2: "\<forall>a b. cn' a = Some b \<longrightarrow> cn1 a = Some b \<or> cname_link u m rs a b" by blast
    have "records u m (Suc k) off (?r # rs)"
      using records_Suc [OF rn l fits rs] by (simp add: t)
    moreover have "\<forall>n. ips' n = ips n @ addresses_of m (?r # rs) n"
      using i1 i2 by (simp add: addresses_of_def)
    moreover have "\<forall>a b. cn' a = Some b \<longrightarrow> cn a = Some b \<or> cname_link u m (?r # rs) a b"
      using c1 c2 cname_link_Cons [of u m ?r rs] cname_link_Cons [of u m ?r "[]"]
      by (metis cname_link_def empty_iff list.set(1))
    ultimately show ?thesis by blast
  qed
qed

lemma records_bounds:
  "records u m k off rs \<Longrightarrow> r \<in> set rs \<Longrightarrow> 0 \<le> rr_data r \<and> 0 \<le> rr_len r \<and> rr_data r + rr_len r \<le> int (length m)"
  by (induction rule: records.induct) (auto dest: ReadName_bounds)

lemma length_rr_ip:
  assumes "records u m k off rs" and "r \<in> set rs"
  shows "int (length (rr_ip m r)) = rr_len r"
  using records_bounds [OF assms] by (auto simp: rr_ip_def slice_def)

text \<open>C38. What a parsed response may contain. The message was a successful answer; and every address
  returned is the data of an A or AAAA record of that message (with the length its type requires)
  whose owner is reached from the canonical question name through CNAME records of the same message.
  An answer about an unrelated name contributes nothing.\<close>

theorem ParseResponse_sound:
  assumes "ParseResponse u m host qtype = Inr ips"
  shows "Uint16 (slice m 2 4) AND 0x8000 \<noteq> 0 \<and> Uint16 (slice m 2 4) AND 0xF = 0 \<and> ips \<noteq> [] \<and>
    (\<exists>off rs. records u m (unat (Uint16 (slice m 6 8))) off rs \<and>
      set ips \<subseteq> {rr_ip m r |r. r \<in> set rs \<and> is_address r \<and>
        (cname_link u m rs)\<^sup>*\<^sup>* (CanonicalHost u host) (rr_owner r)} \<and>
      length ` set ips \<subseteq> {4, 16})"
proof -
  obtain off cn addrs where flags: "Uint16 (slice m 2 4) AND 0x8000 \<noteq> 0" "Uint16 (slice m 2 4) AND 0xF = 0"
    and ra: "read_answers u m (unat (Uint16 (slice m 6 8))) off (Map.empty, \<lambda>_. []) = Inr (cn, addrs)"
    and ips: "ips = followChain (CanonicalHost u host) cn addrs" "ips \<noteq> []"
    using assms by (auto simp: ParseResponse_def Let_def split: if_splits sum.splits)
  obtain rs where rs: "records u m (unat (Uint16 (slice m 6 8))) off rs"
    and addrs: "\<And>n. addrs n = addresses_of m rs n"
    and cn: "\<And>a b. cn a = Some b \<Longrightarrow> cname_link u m rs a b"
    using read_answers_records [OF ra] by auto
  let ?ns = "chain_names maxHops [] (CanonicalHost u host) cn"
  have reach: "(cname_link u m rs)\<^sup>*\<^sup>* a n" if "n \<in> set ns" "successively (\<lambda>a b. cn a = Some b) (a # ns')"
    "ns = a # ns'" for a n ns ns'
    using that
  proof (induction ns' arbitrary: a ns)
    case Nil
    then show ?case by simp
  next
    case (Cons b ns'')
    have "(cname_link u m rs)\<^sup>*\<^sup>* b n" if "n \<in> set (b # ns'')"
      using Cons.IH [OF that] Cons.prems by simp
    moreover have "cname_link u m rs a b" using Cons.prems cn by simp
    ultimately show ?case using Cons.prems by (auto intro: converse_rtranclp_into_rtranclp)
  qed
  have "set ips \<subseteq> {rr_ip m r |r. r \<in> set rs \<and> is_address r \<and>
      (cname_link u m rs)\<^sup>*\<^sup>* (CanonicalHost u host) (rr_owner r)}"
  proof
    fix ip assume "ip \<in> set ips"
    then obtain n where n: "n \<in> set ?ns" "ip \<in> set (addresses_of m rs n)"
      by (auto simp: ips followChain_def follow_chain_names addrs)
    then obtain ns' where "?ns = CanonicalHost u host # ns'"
      using chain_names_hd [of maxHops "[]" "CanonicalHost u host" cn] by (cases ?ns) auto
    then have "(cname_link u m rs)\<^sup>*\<^sup>* (CanonicalHost u host) n"
      using reach [OF n(1), of "CanonicalHost u host" ns'] chain_names_linked [of cn maxHops "[]" "CanonicalHost u host"]
      by simp
    then show "ip \<in> {rr_ip m r |r. r \<in> set rs \<and> is_address r \<and>
        (cname_link u m rs)\<^sup>*\<^sup>* (CanonicalHost u host) (rr_owner r)}"
      using n(2) by (auto simp: addresses_of_def)
  qed
  moreover from this have "length ` set ips \<subseteq> {4, 16}"
    using length_rr_ip [OF rs]
    by (fastforce simp: is_address_def IPv4len_def IPv6len_def)
  ultimately show ?thesis using flags ips(2) rs by blast
qed

section \<open>An answer to our own question\<close>

text \<open>The reply of a resolver to \<open>EncodeQuery\<close>: the header of a successful response with one question and one
  answer, the question echoed, and one A record whose owner is a compression pointer to the question.\<close>

definition reply_header :: "8 word \<Rightarrow> 8 word \<Rightarrow> msg" where
  "reply_header i j = [i, j, 0x81, 0x80, 0, 1, 0, 1, 0, 0, 0, 0]"

definition a_record :: "msg \<Rightarrow> ip \<Rightarrow> msg" where
  "a_record ttl ip = [0xC0, 0x0C, 0, 1, 0, 1] @ ttl @ [0, 4] @ ip"

lemma slice_append: "slice (pre @ m) (int (length pre) + i) (int (length pre) + j) = slice m i j"
  if "0 \<le> i"
  using that by (simp add: slice_def nat_add_distrib algebra_simps)

lemma ReadName_pointer_to_question:
  assumes "EncodeName host = Inr nm" and "list_all ascii host"
  shows "ReadName u (reply_header i j @ nm @ q @ 0xC0 # 0x0C # rest) (12 + int (length nm) + int (length q)) =
    Inr (CanonicalHost u host, 12 + int (length nm) + int (length q) + 2)"
proof -
  let ?m = "reply_header i j @ nm @ q @ 0xC0 # 0x0C # rest"
  let ?off = "12 + int (length nm) + int (length q)"
  have "?m ! nat ?off = 0xC0" "?m ! nat (?off + 1) = 0x0C"
    by (simp_all add: reply_header_def nth_append nat_add_distrib)
  moreover have "read_name u ?m 12 [] (?off + 2) 1 = Inr (CanonicalHost u host, ?off + 2)"
    using read_encoded [OF assms(1), of u "reply_header i j" "q @ 0xC0 # 0x0C # rest" "?off + 2" 1]
      CanonicalHost_dot [OF assms(2), of u]
    by (simp add: reply_header_def)
  moreover have "\<not> int (length nm) + int (length q) \<le> 0" using assms(1) by (auto simp: EncodeName_Inr)
  ultimately show ?thesis
    unfolding ReadName_def
    by (subst read_name.simps) (simp add: maxPointers_def Let_def reply_header_def)
qed

lemma ParseResponse_answers_aux:
  assumes "EncodeQuery host TypeA = Inr q" and "list_all ascii host"
    and "length ip = 4" and "length ttl = 4"
  shows "ParseResponse u (reply_header i j @ drop 12 q @ a_record ttl ip) host TypeA = Inr [ip]"
proof -
  from assms(1) obtain nm where nm: "EncodeName host = Inr nm"
    and q: "drop 12 q = nm @ [0, 1, 0, 1]"
    by (auto simp: EncodeQuery_def AppendUint16_def query_header_def TypeA_def ClassIN_def split: sum.splits)
  let ?m = "reply_header i j @ nm @ [0, 1, 0, 1] @ 0xC0 # 0x0C # [0, 1, 0, 1] @ ttl @ [0, 4] @ ip"
  let ?pre = "reply_header i j @ nm @ [0, 1, 0, 1] @ [0xC0, 0x0C]"
  let ?off = "12 + int (length nm) + 4"
  have m: "reply_header i j @ drop 12 q @ a_record ttl ip = ?m"
    by (simp add: q a_record_def)
  have m': "?m = ?pre @ [0, 1, 0, 1] @ ttl @ [0, 4] @ ip" by simp
  have pre: "int (length ?pre) = ?off + 2" by (simp add: reply_header_def)
  have len: "int (length ?m) = ?off + 16" using assms(3,4) by (simp add: reply_header_def)
  have header: "Uint16 (slice ?m 2 4) = 0x8180" "Uint16 (slice ?m 4 6) = 1" "Uint16 (slice ?m 6 8) = 1"
    by (simp_all add: reply_header_def slice_def Uint16_def)
  have question: "ReadName u ?m 12 = Inr (CanonicalHost u host, 12 + int (length nm))"
    using read_encoded [OF nm, of u "reply_header i j" _ "- 1" 0] CanonicalHost_dot [OF assms(2), of u]
    by (simp add: ReadName_def reply_header_def)
  have answer: "ReadName u ?m ?off = Inr (CanonicalHost u host, ?off + 2)"
    using ReadName_pointer_to_question [OF nm assms(2), of u i j "[0, 1, 0, 1]"] by simp
  have ty: "Uint16 (slice ?m (?off + 2) (?off + 2 + 2)) = TypeA"
    unfolding m' pre [symmetric] using slice_append [of 0 ?pre _ 2]
    by (simp add: slice_def Uint16_def TypeA_def)
  have dl: "Uint16 (slice ?m (?off + 2 + 8) (?off + 2 + 10)) = 4"
    unfolding m' pre [symmetric] using slice_append [of 8 ?pre _ 10] assms(4)
    by (simp add: slice_def Uint16_def)
  have data: "slice ?m (?off + 2 + 10) (?off + 2 + 10 + 4) = ip"
  proof -
    have "?off + 2 + 10 + 4 = int (length ?pre) + 14" unfolding pre by simp
    then show ?thesis
      unfolding m' pre [symmetric] using slice_append [of 10 ?pre "[0, 1, 0, 1] @ ttl @ [0, 4] @ ip" 14] assms(3,4)
      by (simp add: slice_def)
  qed
  have skip: "skip_questions u ?m 1 12 = Inr ?off"
    using question len by simp
  have read: "read_answers u ?m 1 ?off (Map.empty, \<lambda>_. []) =
      Inr (Map.empty, (\<lambda>_. [])(CanonicalHost u host := [ip]))"
    using answer ty dl data len by (simp add: Let_def IPv4len_def)
  have chain: "followChain h Map.empty ((\<lambda>_. [])(h := [ip])) = [ip]" for h
    by (simp add: followChain_def maxHops_def numeral_eq_Suc)
  show ?thesis
    unfolding m ParseResponse_def
    using header skip read chain [of "CanonicalHost u host"] len by (simp add: Let_def)
qed

text \<open>Question and answer fit together: for any host the encoder accepts, the reply that echoes our
  A question and answers it with one address parses to exactly that address.\<close>

theorem ParseResponse_answers_our_query:
  assumes "EncodeQuery host TypeA = Inr q" and "list_all ascii host"
    and "length ip = 4" and "length ttl = 4"
  shows "ParseResponse u (reply_header i j @ drop 12 q @ a_record ttl ip) host TypeA = Inr [ip]"
  using assms by (rule ParseResponse_answers_aux)

lemma EncodeQuery_sample:
  "EncodeQuery ''a.bc'' TypeA = Inr (query_header @ [1, 97, 2, 98, 99, 0] @ [0, 1, 0, 1])"
  by (simp add: EncodeQuery_def EncodeName_def trim_suffix_def has_suffix_def byte_of_def AppendUint16_def
      TypeA_def ClassIN_def query_header_def)

lemma ParseResponse_answers_our_query_witness:
  "ParseResponse (\<lambda>s. s) (reply_header 0 0 @ drop 12 (query_header @ [1, 97, 2, 98, 99, 0] @ [0, 1, 0, 1]) @
     a_record [0, 0, 0, 60] [10, 0, 0, 1]) ''a.bc'' TypeA = Inr [[10, 0, 0, 1]]"
  using EncodeQuery_sample by (rule ParseResponse_answers_our_query) (simp_all add: ascii_def)

lemma ParseResponse_sound_witness:
  "\<exists>m. ParseResponse (\<lambda>s. s) m ''a.bc'' TypeA = Inr [[10, 0, 0, 1]] \<and> Uint16 (slice m 2 4) AND 0xF = 0"
proof -
  have "ParseResponse (\<lambda>s. s) (reply_header 0 0 @ drop 12 (query_header @ [1, 97, 2, 98, 99, 0] @ [0, 1, 0, 1]) @
      a_record [0, 0, 0, 60] [10, 0, 0, 1]) ''a.bc'' TypeA = Inr [[10, 0, 0, 1]]"
    using EncodeQuery_sample by (rule ParseResponse_answers_aux) (simp_all add: ascii_def)
  from this ParseResponse_sound [OF this] show ?thesis by blast
qed

end
