(* ===== verification/Protection.thy ===== *)
theory Protection
  imports Go_Lib "HOL-Library.Word"
begin

text \<open>
  The host guard's packet-filter policy (\<^verbatim>\<open>core/protection/policy.go\<close>): the filters of each of the
  four layers in decreasing priority, and the arbitration the filters stand for: within a layer the
  matching filter of the greatest weight decides.  Rule keys, weights and numbers are as in the code
  (\<^verbatim>\<open>uint64\<close> is \<open>64 word\<close>).
\<close>

section \<open>Rules\<close>

datatype layer = Connect4 | Connect6 | Accept4 | Accept6

fun layer_num :: "layer \<Rightarrow> nat" where
  "layer_num Connect4 = 0"
| "layer_num Connect6 = 1"
| "layer_num Accept4 = 2"
| "layer_num Accept6 = 3"

definition Layers :: "layer list" where
  "Layers = [Connect4, Connect6, Accept4, Accept6]"

definition Outbound :: "layer \<Rightarrow> bool" where
  "Outbound l \<longleftrightarrow> l = Connect4 \<or> l = Connect6"

definition IPv6 :: "layer \<Rightarrow> bool" where
  "IPv6 l \<longleftrightarrow> l = Connect6 \<or> l = Accept6"

datatype field = Loopback | Interface | Application | Protocol | LocalPort | RemotePort | RemoteAddress

definition Core :: string where "Core = ''core''"
definition Engine :: string where "Engine = ''engine''"
definition DHCP :: string where "DHCP = ''dhcp''"

record condition =
  Field :: field
  Number :: "64 word"
  Text :: string

record rule =
  Key :: string
  Layer :: layer
  Weight :: "64 word"
  Permit :: bool
  Conditions :: "condition list"

definition cond_num :: "field \<Rightarrow> 64 word \<Rightarrow> condition" where
  "cond_num f n = \<lparr>Field = f, Number = n, Text = []\<rparr>"

definition cond_text :: "field \<Rightarrow> string \<Rightarrow> condition" where
  "cond_text f s = \<lparr>Field = f, Number = 0, Text = s\<rparr>"

text \<open>The closure \<^verbatim>\<open>add\<close> of \<^verbatim>\<open>Policy\<close>: the rule it appends.\<close>

definition mk_rule :: "layer \<Rightarrow> string \<Rightarrow> 64 word \<Rightarrow> bool \<Rightarrow> condition list \<Rightarrow> rule" where
  "mk_rule l key w p cs =
     \<lparr>Key = nat_str (layer_num l) @ ''/'' @ key, Layer = l, Weight = w, Permit = p, Conditions = cs\<rparr>"

definition ndp_rules :: "layer \<Rightarrow> rule list" where
  "ndp_rules l =
     concat (map (\<lambda>typ. map (\<lambda>(i, prefix).
         mk_rule l (''ndp-'' @ nat_str typ @ ''-'' @ nat_str i) 50 True
           [cond_num Protocol 58, cond_num LocalPort (word_of_nat typ), cond_num RemotePort 0,
            cond_text RemoteAddress prefix])
       [(0, ''fe80::/10''), (1, ''ff02::/16'')]) [133, 134, 135, 136])"

definition layer_rules :: "64 word \<Rightarrow> layer \<Rightarrow> rule list" where
  "layer_rules tunLUID l =
     [mk_rule l ''loopback'' 100 True [cond_num Loopback 0]] @
     (if tunLUID \<noteq> 0 then [mk_rule l ''tun'' 90 True [cond_num Interface tunLUID]] else []) @
     (let portField = (if \<not> Outbound l then LocalPort else RemotePort)
      in map (\<lambda>proto. mk_rule l (''dns-'' @ nat_str proto) 80 False
             [cond_num Protocol (word_of_nat proto), cond_num portField 53]) [6, 17]) @
     map (\<lambda>app. mk_rule l app 70 True [cond_text Application app]) [Core, Engine] @
     (let (loc, rem) = (if IPv6 l then (546, 547) else (68, 67))
      in [mk_rule l ''dhcp'' 60 True
            [cond_text Application DHCP, cond_num Protocol 17, cond_num LocalPort loc, cond_num RemotePort rem]]) @
     (if IPv6 l then ndp_rules l else []) @
     [mk_rule l ''block'' 1 False []]"

definition Policy :: "64 word \<Rightarrow> rule list" where
  "Policy tunLUID = concat (map (layer_rules tunLUID) Layers)"

section \<open>What the filters decide\<close>

text \<open>
  A packet or flow as a layer sees it.  \<open>f_app\<close> tells whether it belongs to a trusted program
  identity (executable and account), \<open>f_via\<close> whether it uses an interface (for an inbound flow both as
  next hop and as local interface), \<open>f_in_prefix\<close> whether the remote address lies in a prefix.
\<close>

record flow =
  f_loopback :: bool
  f_via :: "64 word \<Rightarrow> bool"
  f_app :: "string \<Rightarrow> bool"
  f_proto :: "64 word"
  f_lport :: "64 word"
  f_rport :: "64 word"
  f_in_prefix :: "string \<Rightarrow> bool"

definition holds :: "flow \<Rightarrow> condition \<Rightarrow> bool" where
  "holds f c =
     (case Field c of
        Loopback \<Rightarrow> f_loopback f
      | Interface \<Rightarrow> f_via f (Number c)
      | Application \<Rightarrow> f_app f (Text c)
      | Protocol \<Rightarrow> f_proto f = Number c
      | LocalPort \<Rightarrow> f_lport f = Number c
      | RemotePort \<Rightarrow> f_rport f = Number c
      | RemoteAddress \<Rightarrow> f_in_prefix f (Text c))"

definition rule_matches :: "layer \<Rightarrow> flow \<Rightarrow> rule \<Rightarrow> bool" where
  "rule_matches l f r \<longleftrightarrow> Layer r = l \<and> list_all (holds f) (Conditions r)"

text \<open>
  The filter engine's arbitration within our sublayer: the matching rules of greatest weight decide.
\<close>

definition decisive :: "rule list \<Rightarrow> layer \<Rightarrow> flow \<Rightarrow> rule \<Rightarrow> bool" where
  "decisive rs l f r \<longleftrightarrow> r \<in> set rs \<and> rule_matches l f r \<and>
     (\<forall>r'\<in>set rs. rule_matches l f r' \<longrightarrow> Weight r' \<le> Weight r)"

definition permits :: "rule list \<Rightarrow> layer \<Rightarrow> flow \<Rightarrow> bool" where
  "permits rs l f \<longleftrightarrow> (\<exists>r\<in>set rs. decisive rs l f r) \<and> (\<forall>r\<in>set rs. decisive rs l f r \<longrightarrow> Permit r)"

definition blocks :: "rule list \<Rightarrow> layer \<Rightarrow> flow \<Rightarrow> bool" where
  "blocks rs l f \<longleftrightarrow> (\<exists>r\<in>set rs. decisive rs l f r) \<and> (\<forall>r\<in>set rs. decisive rs l f r \<longrightarrow> \<not> Permit r)"

text \<open>
  Lists in which, within a layer, weights never increase and rules of one weight agree on the
  decision.  In such a list the first match decides.
\<close>

definition outranks :: "rule \<Rightarrow> rule \<Rightarrow> bool" where
  "outranks r r' \<longleftrightarrow> Layer r' = Layer r \<longrightarrow> Weight r' \<le> Weight r \<and> (Weight r' = Weight r \<longrightarrow> Permit r' = Permit r)"

lemma first_match_decisive:
  assumes "sorted_wrt outranks rs" and "find (rule_matches l f) rs = Some r"
  shows "decisive rs l f r" and "decisive rs l f t \<Longrightarrow> Permit t = Permit r"
proof -
  from assms(2) obtain i where i: "i < length rs" "rule_matches l f (rs ! i)" "r = rs ! i"
    and first: "\<forall>j<i. \<not> rule_matches l f (rs ! j)"
    by (auto simp: find_Some_iff)
  have later: "Weight t \<le> Weight r \<and> (Weight t = Weight r \<longrightarrow> Permit t = Permit r)"
    if t: "t \<in> set rs" "rule_matches l f t" for t
  proof -
    from t obtain j where j: "j < length rs" "t = rs ! j" by (auto simp: in_set_conv_nth)
    with first t have "i \<le> j" by (metis not_le)
    moreover have "outranks r t" if "i < j"
      using sorted_wrt_nth_less [OF assms(1) that j(1)] i(3) j(2) by simp
    moreover have "Layer r = Layer t" using t i by (simp add: rule_matches_def)
    ultimately show ?thesis
      using i(3) j(2) by (cases "i = j") (simp_all add: outranks_def)
  qed
  have rin: "r \<in> set rs" and rm: "rule_matches l f r" using i by simp_all
  then show "decisive rs l f r"
    using later unfolding decisive_def by blast
  show "Permit t = Permit r" if dec: "decisive rs l f t"
  proof -
    have "t \<in> set rs" "rule_matches l f t" "Weight r \<le> Weight t"
      using dec rin rm unfolding decisive_def by blast+
    then show ?thesis using later [of t] by simp
  qed
qed

lemma first_match_permits:
  assumes "sorted_wrt outranks rs" and "find (rule_matches l f) rs = Some r"
  shows "permits rs l f \<longleftrightarrow> Permit r" and "blocks rs l f \<longleftrightarrow> \<not> Permit r"
  using first_match_decisive [OF assms] unfolding permits_def blocks_def decisive_def by blast+

lemma outranks_mk_rule:
  "outranks (mk_rule l k w p cs) (mk_rule l' k' w' p' cs') \<longleftrightarrow> (l' = l \<longrightarrow> w' \<le> w \<and> (w' = w \<longrightarrow> p' = p))"
  by (simp add: outranks_def mk_rule_def)

lemma layer_rules_Layer: "r \<in> set (layer_rules tun l) \<Longrightarrow> Layer r = l"
  by (auto simp: layer_rules_def ndp_rules_def mk_rule_def Let_def split: if_splits prod.splits)

lemma layer_rules_sorted: "sorted_wrt outranks (layer_rules tun l)"
proof -
  have ndp: "sorted_wrt outranks (ndp_rules l)" "\<forall>r\<in>set (ndp_rules l). Weight r = 50 \<and> Layer r = l \<and> Permit r"
    by (simp add: ndp_rules_def outranks_mk_rule, simp add: ndp_rules_def mk_rule_def)
  have cross: "outranks (mk_rule l k w p cs) r \<longleftrightarrow> 50 \<le> w \<and> (50 = w \<longrightarrow> p)" if "r \<in> set (ndp_rules l)" for k w p cs r
    using that ndp(2) by (auto simp: outranks_def mk_rule_def)
  have cross': "outranks r (mk_rule l ''block'' 1 False [])" if "r \<in> set (ndp_rules l)" for r
    using that ndp(2) by (auto simp: outranks_def mk_rule_def)
  show ?thesis
    unfolding layer_rules_def Let_def
    by (cases "IPv6 l"; cases "tun = 0")
      (simp_all add: outranks_mk_rule sorted_wrt_append ndp(1) cross cross')
qed

lemma sorted_wrt_concat_layers:
  assumes "distinct ls" and "\<And>l. sorted_wrt outranks (g l)" and "\<And>l r. r \<in> set (g l) \<Longrightarrow> Layer r = l"
  shows "sorted_wrt outranks (concat (map g ls))"
  using assms(1)
proof (induction ls)
  case Nil
  then show ?case by simp
next
  case (Cons l ls)
  then have "outranks r r'" if "r \<in> set (g l)" "r' \<in> set (concat (map g ls))" for r r'
    using that assms(3) by (fastforce simp: outranks_def)
  then show ?case using Cons assms(2) by (simp add: sorted_wrt_append)
qed

lemma Policy_sorted: "sorted_wrt outranks (Policy tun)"
  unfolding Policy_def
  by (rule sorted_wrt_concat_layers) (simp_all add: Layers_def layer_rules_sorted layer_rules_Layer)

section \<open>The policy's verdict\<close>

definition verdict :: "rule list \<Rightarrow> layer \<Rightarrow> flow \<Rightarrow> bool option" where
  "verdict rs l f = map_option Permit (find (rule_matches l f) rs)"

lemma verdict_Nil [simp]: "verdict [] l f = None"
  by (simp add: verdict_def)

lemma verdict_Cons [simp]:
  "verdict (mk_rule l k w p cs # rs) l f = (if list_all (holds f) cs then Some p else verdict rs l f)"
  by (simp add: verdict_def mk_rule_def rule_matches_def)

lemma verdict_append:
  "verdict (rs @ rs') l f = (case verdict rs l f of None \<Rightarrow> verdict rs' l f | Some b \<Rightarrow> Some b)"
  by (induction rs) (simp_all add: verdict_def split: option.split)

lemma verdict_other_layer: "\<forall>r\<in>set rs. Layer r \<noteq> l \<Longrightarrow> verdict rs l f = None"
  by (auto simp: verdict_def find_None_iff rule_matches_def)

lemma verdict_Policy: "verdict (Policy tun) l f = verdict (layer_rules tun l) l f"
proof -
  have other: "verdict (layer_rules tun l') k f = None" if "l' \<noteq> k" for l' k
    using that layer_rules_Layer by (intro verdict_other_layer) blast
  show ?thesis
    by (cases l) (simp_all add: Policy_def Layers_def verdict_append other split: option.split)
qed

lemma permits_verdict:
  assumes "sorted_wrt outranks rs" and "verdict rs l f = Some p"
  shows "permits rs l f \<longleftrightarrow> p" and "blocks rs l f \<longleftrightarrow> \<not> p"
  using assms first_match_permits [OF assms(1)] by (auto simp: verdict_def)

text \<open>The kinds of traffic the policy distinguishes.\<close>

definition dns_flow :: "layer \<Rightarrow> flow \<Rightarrow> bool" where
  "dns_flow l f \<longleftrightarrow> (f_proto f = 6 \<or> f_proto f = 17) \<and> (if Outbound l then f_rport f else f_lport f) = 53"

definition dhcp_flow :: "layer \<Rightarrow> flow \<Rightarrow> bool" where
  "dhcp_flow l f \<longleftrightarrow> f_app f DHCP \<and> f_proto f = 17 \<and>
     f_lport f = (if IPv6 l then 546 else 68) \<and> f_rport f = (if IPv6 l then 547 else 67)"

definition ndp_flow :: "layer \<Rightarrow> flow \<Rightarrow> bool" where
  "ndp_flow l f \<longleftrightarrow> IPv6 l \<and> f_proto f = 58 \<and> f_lport f \<in> {133, 134, 135, 136} \<and> f_rport f = 0 \<and>
     (f_in_prefix f ''fe80::/10'' \<or> f_in_prefix f ''ff02::/16'')"

definition guarded_access :: "64 word \<Rightarrow> layer \<Rightarrow> flow \<Rightarrow> bool" where
  "guarded_access tun l f \<longleftrightarrow>
     f_loopback f \<or> tun \<noteq> 0 \<and> f_via f tun \<or>
     \<not> dns_flow l f \<and> (f_app f Core \<or> f_app f Engine \<or> dhcp_flow l f \<or> ndp_flow l f)"

lemmas holds_simps = holds_def cond_num_def cond_text_def

lemma verdict_ndp:
  "IPv6 l \<Longrightarrow> verdict (ndp_rules l @ rs) l f = (if ndp_flow l f then Some True else verdict rs l f)"
  by (simp add: ndp_rules_def holds_simps ndp_flow_def) blast

lemma verdict_layer_rules: "verdict (layer_rules tun l) l f = Some (guarded_access tun l f)"
proof -
  have apps: "Core \<noteq> Engine" "Core \<noteq> DHCP" "Engine \<noteq> DHCP" by (simp_all add: Core_def Engine_def DHCP_def)
  show ?thesis
    unfolding layer_rules_def Let_def append_assoc
    by (cases "IPv6 l"; cases "Outbound l"; cases "tun = 0")
      (auto simp: verdict_ndp holds_simps guarded_access_def dns_flow_def dhcp_flow_def ndp_flow_def apps)
qed

lemma Policy_verdict:
  "permits (Policy tun) l f \<longleftrightarrow> guarded_access tun l f"
  "blocks (Policy tun) l f \<longleftrightarrow> \<not> guarded_access tun l f"
  using permits_verdict [OF Policy_sorted, of tun l f "guarded_access tun l f"]
  by (simp_all add: verdict_Policy verdict_layer_rules)

text \<open>C20. The policy means what it promises. For every layer and flow the filters permit exactly: loopback,
  traffic through the verified tunnel (when there is one), and, except for DNS to or from port 53,
  the trusted core and engine, the DHCP client's exchange and IPv6 neighbour discovery on link-local
  prefixes. Everything else they block; no flow is left undecided.\<close>

theorem Policy_decides:
  "(permits (Policy tun) l f \<longleftrightarrow> guarded_access tun l f) \<and>
   (blocks (Policy tun) l f \<longleftrightarrow> \<not> guarded_access tun l f)"
  by (simp add: Policy_verdict)

lemma nat_str_literals:
  "nat_str 0 = ''0''" "nat_str 1 = ''1''" "nat_str (Suc 0) = ''1''" "nat_str 2 = ''2''" "nat_str 3 = ''3''" "nat_str 6 = ''6''"
  "nat_str 17 = ''17''" "nat_str 133 = ''133''" "nat_str 134 = ''134''" "nat_str 135 = ''135''"
  "nat_str 136 = ''136''"
  by (simp_all add: nat_str.simps go_eval)

lemma layer_keys:
  "map Key (layer_rules tun l) =
     map (\<lambda>k. nat_str (layer_num l) @ ''/'' @ k)
       ([''loopback''] @ (if tun \<noteq> 0 then [''tun''] else []) @
        [''dns-6'', ''dns-17'', ''core'', ''engine'', ''dhcp''] @
        (if IPv6 l then [''ndp-133-0'', ''ndp-133-1'', ''ndp-134-0'', ''ndp-134-1'', ''ndp-135-0'',
           ''ndp-135-1'', ''ndp-136-0'', ''ndp-136-1''] else []) @ [''block''])"
  by (cases "IPv6 l"; cases "tun = 0")
    (simp_all add: layer_rules_def ndp_rules_def mk_rule_def nat_str_literals Core_def Engine_def)

lemma distinct_layer_keys: "distinct (map Key (layer_rules tun l))"
  unfolding layer_keys distinct_map by (simp add: inj_on_def)

lemma layer_rules_Key: "r \<in> set (layer_rules tun l) \<Longrightarrow> \<exists>k. Key r = nat_str (layer_num l) @ ''/'' @ k"
  by (auto simp: layer_rules_def ndp_rules_def mk_rule_def Let_def split: if_splits prod.splits)

lemma nat_str_layer: "nat_str (layer_num l) = [char_of (48 + layer_num l)]"
  by (cases l) (simp_all add: nat_str.simps)

lemma layer_keys_disjoint:
  assumes "r \<in> set (layer_rules tun l)" and "r' \<in> set (layer_rules tun l')" and "Key r = Key r'"
  shows "l = l'"
proof -
  from assms layer_rules_Key obtain k k' where
    "nat_str (layer_num l) @ ''/'' @ k = nat_str (layer_num l') @ ''/'' @ k'" by metis
  then have "(char_of (48 + layer_num l) :: char) = char_of (48 + layer_num l')"
    by (simp add: nat_str_layer)
  then show ?thesis by (cases l; cases l') (simp_all add: go_eval)
qed

lemma distinct_Policy_keys: "distinct (map Key (Policy tun))"
proof -
  have "distinct (map Key (concat (map (layer_rules tun) ls)))" if "distinct ls" for ls
    using that
  proof (induction ls)
    case Nil
    then show ?case by simp
  next
    case (Cons l ls)
    have "Key ` set (layer_rules tun l) \<inter> Key ` set (concat (map (layer_rules tun) ls)) = {}"
      using Cons.prems layer_keys_disjoint by fastforce
    then show ?case using Cons distinct_layer_keys [of tun l] by simp
  qed
  from this [of Layers] show ?thesis by (simp add: Policy_def Layers_def)
qed

end
