(* ===== verification/Wfp.thy ===== *)
theory Wfp
  imports Protection
begin

unbundle bit_operations_syntax

text \<open>
  The Windows backend of the guard (\<^verbatim>\<open>core/protection/wfp_windows.go\<close> and the constants of
  \<^verbatim>\<open>wfp_abi_windows.go\<close>) over a model of the filter engine's object store: the provider and the
  sublayer at our keys and all filters, ours and foreign.  Any native call may fail: \<open>fate\<close> gives the
  error of the \<open>n\<close>-th call of an operation, if it has one.  The engine behaves as documented: keys
  are unique, referenced objects cannot be deleted, and a transaction that is not committed leaves
  the store as it was.  Outside the model: the executable identities (an argument: what
  \<^verbatim>\<open>identities()\<close> returned), SHA-256 (\<open>sha\<close>, the filter key of a rule key), prefix parsing (\<open>v6\<close>),
  and the memory management of the native buffers.
\<close>

section \<open>Native objects\<close>

type_synonym guid = string

definition persistentFlag :: "32 word" where "persistentFlag = 1"
definition blockAction :: "32 word" where "blockAction = 0x1001"
definition permitAction :: "32 word" where "permitAction = 0x1002"
definition marker :: string where "marker = ''tenebra/persistent-host-guard/v1''"

definition providerKey :: guid where "providerKey = ''fcb43b44-9358-4cd7-a998-9e7f822d5248''"
definition sublayerKey :: guid where "sublayerKey = ''fcb43b45-9358-4cd7-a998-9e7f822d5248''"

definition layerKeys :: "guid list" where
  "layerKeys = [''c38d57d1-05a7-4c33-904f-7fbceee60e82'', ''4a72393b-319f-44bc-84c3-ba54dcb3b6b4'',
     ''e1cd9fe7-f4b5-4273-96c0-592e487b8650'', ''a3b42c97-9f04-4672-b87e-cee9c483257f'']"

definition layerKey :: "layer \<Rightarrow> guid" where
  "layerKey l = layerKeys ! layer_num l"

definition fieldFlags :: guid where "fieldFlags = ''632ce23b-5167-435c-86d7-e903684aa80c''"
definition fieldNextHop :: guid where "fieldNextHop = ''93ae8f5b-7f6f-4719-98c8-14e97429ef04''"
definition fieldLocalInterface :: guid where "fieldLocalInterface = ''4cd62a49-59c3-4969-b7f3-bda5d32890a4''"
definition fieldApp :: guid where "fieldApp = ''d78e1e87-8644-4ea5-9437-d809ecefc971''"
definition fieldUser :: guid where "fieldUser = ''af043a0a-b34d-4f86-979c-c90371af6e66''"
definition fieldProtocol :: guid where "fieldProtocol = ''3971ef2b-623e-4f9a-8cb1-6e79b806b9a7''"
definition fieldLocalPort :: guid where "fieldLocalPort = ''0c1ba1af-5765-453f-af22-a8f791ac775b''"
definition fieldRemotePort :: guid where "fieldRemotePort = ''c35a604d-d22b-4e1a-91b4-68f674ee674b''"
definition fieldRemoteAddress :: guid where "fieldRemoteAddress = ''b235ae9a-1d64-49b8-a44c-5ff3d9095045''"

datatype wvalue = WNum "64 word" | WBytes "8 word list" | WMask "8 word list" "8 word"

record wfp_condition =
  wc_field :: guid
  wc_match :: "32 word"
  wc_type :: "32 word"
  wc_value :: wvalue

record wfp_provider =
  wp_key :: guid
  wp_flags :: "32 word"
  wp_data :: string
  wp_service :: "string option"

record wfp_sublayer =
  ws_key :: guid
  ws_flags :: "32 word"
  ws_provider :: "guid option"
  ws_data :: string
  ws_weight :: "16 word"

record wfp_filter =
  wf_key :: guid
  wf_flags :: "32 word"
  wf_provider :: "guid option"
  wf_data :: string
  wf_layer :: guid
  wf_sublayer :: guid
  wf_weight_type :: "32 word"
  wf_weight :: "64 word"
  wf_action :: "32 word"
  wf_conds :: "wfp_condition list"

record kernel =
  k_provider :: "wfp_provider option"
  k_sublayer :: "wfp_sublayer option"
  k_filters :: "wfp_filter list"
  k_clock :: nat

type_synonym fate = "nat \<Rightarrow> string option"

type_synonym 'a op = "kernel \<Rightarrow> (string + 'a) \<times> kernel"

definition retE :: "'a \<Rightarrow> 'a op" where
  "retE x = (\<lambda>k. (Inr x, k))"

definition failE :: "string \<Rightarrow> 'a op" where
  "failE e = (\<lambda>k. (Inl e, k))"

definition bindE :: "'a op \<Rightarrow> ('a \<Rightarrow> 'b op) \<Rightarrow> 'b op" where
  "bindE m f = (\<lambda>k. case m k of (Inl e, k') \<Rightarrow> (Inl e, k') | (Inr x, k') \<Rightarrow> f x k')"

definition readE :: "kernel op" where
  "readE = (\<lambda>k. (Inr k, k))"

definition updateE :: "(kernel \<Rightarrow> kernel) \<Rightarrow> unit op" where
  "updateE g = (\<lambda>k. (Inr (), g k))"

text \<open>One native call: it fails with what \<open>fate\<close> says, or it is carried out.\<close>

definition native :: "fate \<Rightarrow> unit op" where
  "native fate = (\<lambda>k. ((case fate (k_clock k) of Some e \<Rightarrow> Inl e | None \<Rightarrow> Inr ()), k\<lparr>k_clock := Suc (k_clock k)\<rparr>))"

definition session :: "fate \<Rightarrow> 'a op \<Rightarrow> 'a op" where
  "session fate fn = bindE (native fate) (\<lambda>_. fn)"

text \<open>A transaction restores the objects, not the count of calls made.\<close>

definition restore :: "kernel \<Rightarrow> kernel \<Rightarrow> kernel" where
  "restore old k = old\<lparr>k_clock := k_clock k\<rparr>"

definition abort_tx :: "fate \<Rightarrow> kernel \<Rightarrow> string \<Rightarrow> 'a op" where
  "abort_tx fate old e = (\<lambda>k.
     case native fate k of
       (Inl a, k') \<Rightarrow> (Inl (e @ ''; abort: '' @ a), restore old k')
     | (Inr _, k') \<Rightarrow> (Inl e, restore old k'))"

definition transaction :: "fate \<Rightarrow> 'a op \<Rightarrow> 'a op" where
  "transaction fate fn = (\<lambda>k.
     case native fate k of
       (Inl e, k1) \<Rightarrow> (Inl e, k1)
     | (Inr _, k1) \<Rightarrow>
         (case fn k1 of
            (Inl e, k2) \<Rightarrow> abort_tx fate k1 e k2
          | (Inr x, k2) \<Rightarrow>
              (case native fate k2 of
                 (Inl e, k3) \<Rightarrow> abort_tx fate k1 e k3
               | (Inr _, k3) \<Rightarrow> (Inr x, k3))))"

section \<open>Ownership and enumeration\<close>

record ownership =
  o_provider :: bool
  o_sublayer :: bool
  o_enforcing :: bool

definition provider_enforcing :: "wfp_provider \<Rightarrow> bool" where
  "provider_enforcing p \<longleftrightarrow> wp_flags p AND persistentFlag \<noteq> 0 \<and> wp_flags p AND 0x10 = 0 \<and>
     (wp_service p = None \<or> wp_service p = Some [])"

definition owned_sublayer :: "fate \<Rightarrow> bool \<Rightarrow> bool \<Rightarrow> ownership op" where
  "owned_sublayer fate prov enf =
     bindE (native fate) (\<lambda>_. bindE readE (\<lambda>k.
       case k_sublayer k of
         None \<Rightarrow> retE \<lparr>o_provider = prov, o_sublayer = False, o_enforcing = enf\<rparr>
       | Some s \<Rightarrow>
           if ws_key s \<noteq> sublayerKey \<or> ws_provider s \<noteq> Some providerKey \<or> ws_data s \<noteq> marker
           then failE ''WFP sublayer ownership mismatch''
           else if \<not> prov then failE ''WFP sublayer has no owned provider''
           else retE \<lparr>o_provider = prov, o_sublayer = True,
                  o_enforcing = (enf \<and> ws_flags s AND persistentFlag \<noteq> 0 \<and> ws_weight s = 0xffff)\<rparr>))"

definition ownedState :: "fate \<Rightarrow> ownership op" where
  "ownedState fate =
     bindE (native fate) (\<lambda>_. bindE readE (\<lambda>k.
       case k_provider k of
         None \<Rightarrow> owned_sublayer fate False False
       | Some p \<Rightarrow>
           if wp_key p \<noteq> providerKey \<or> wp_data p \<noteq> marker
           then failE ''WFP provider ownership mismatch''
           else owned_sublayer fate True (provider_enforcing p)))"

record filter_info =
  fi_key :: guid
  fi_layer :: guid
  fi_flags :: "32 word"
  fi_action :: "32 word"
  fi_count :: "32 word"
  fi_weight :: "64 word"

definition info_of :: "wfp_filter \<Rightarrow> filter_info" where
  "info_of f =
     \<lparr>fi_key = wf_key f, fi_layer = wf_layer f, fi_flags = wf_flags f, fi_action = wf_action f,
      fi_count = word_of_nat (length (wf_conds f)),
      fi_weight = (if wf_weight_type f = 4 then wf_weight f else 0)\<rparr>"

definition foreign :: "guid \<Rightarrow> wfp_filter \<Rightarrow> bool" where
  "foreign layer f \<longleftrightarrow> wf_provider f \<noteq> Some providerKey \<or> wf_sublayer f \<noteq> sublayerKey \<or>
     wf_layer f \<noteq> layer \<or> wf_data f \<noteq> marker"

text \<open>The enumeration hands out what it was created over in batches of at most 64.\<close>

fun enum_loop :: "fate \<Rightarrow> guid \<Rightarrow> nat \<Rightarrow> wfp_filter list \<Rightarrow> filter_info list \<Rightarrow> filter_info list op" where
  "enum_loop fate layer 0 rest out = failE ''too many owned WFP filters; explicit recovery required''"
| "enum_loop fate layer (Suc batches) rest out =
     bindE (native fate) (\<lambda>_.
       if rest = [] then retE out
       else if list_ex (foreign layer) (take 64 rest) then failE ''refusing foreign filter in Tenebra provider''
       else enum_loop fate layer batches (drop 64 rest) (out @ map info_of (take 64 rest)))"

definition at_layer :: "kernel \<Rightarrow> guid \<Rightarrow> wfp_filter list" where
  "at_layer k layer = filter (\<lambda>f. wf_provider f = Some providerKey \<and> wf_layer f = layer) (k_filters k)"

definition filtersAtLayer :: "fate \<Rightarrow> guid \<Rightarrow> filter_info list op" where
  "filtersAtLayer fate layer =
     bindE (native fate) (\<lambda>_. bindE readE (\<lambda>k. enum_loop fate layer 9 (at_layer k layer) []))"

fun filters_loop :: "fate \<Rightarrow> guid list \<Rightarrow> filter_info list \<Rightarrow> filter_info list op" where
  "filters_loop fate [] out = retE out"
| "filters_loop fate (layer # ls) out =
     bindE (filtersAtLayer fate layer) (\<lambda>fs.
       if length out + length fs > 512 then failE ''too many owned WFP filters''
       else filters_loop fate ls (out @ fs))"

definition owned_filters :: "fate \<Rightarrow> filter_info list op" where
  "owned_filters fate = filters_loop fate layerKeys []"

section \<open>Inspecting\<close>

text \<open>
  The default block of a layer, as \<^verbatim>\<open>completeBlocks\<close> recognises it.  The Go loop records the keys seen in
  a set and compares its size with 4.
\<close>

definition is_default_block :: "(string \<Rightarrow> guid) \<Rightarrow> rule \<Rightarrow> filter_info \<Rightarrow> bool" where
  "is_default_block sha r f \<longleftrightarrow> fi_key f = sha (Key r) \<and> fi_layer f = layerKey (Layer r) \<and>
     fi_flags f AND 1 \<noteq> 0 \<and> fi_flags f AND 0x22 = 0 \<and> fi_action f = blockAction \<and> fi_count f = 0 \<and> fi_weight f = 1"

definition completeBlocks :: "(string \<Rightarrow> guid) \<Rightarrow> filter_info list \<Rightarrow> bool" where
  "completeBlocks sha fs =
     (let rs = filter (\<lambda>r. length (Conditions r) = 0) (Policy 0);
          seen = map (\<lambda>r. sha (Key r)) (filter (\<lambda>r. list_ex (is_default_block sha r) fs) rs)
      in length (remdups seen) = 4)"

definition wfp_Inspect :: "fate \<Rightarrow> (string \<Rightarrow> guid) \<Rightarrow> (bool \<times> bool) op" where
  "wfp_Inspect fate sha =
     session fate (bindE (ownedState fate) (\<lambda>owned.
       if \<not> o_provider owned then retE (o_provider owned \<or> o_sublayer owned, False)
       else bindE (owned_filters fate) (\<lambda>fs.
         retE (o_provider owned \<or> o_sublayer owned,
           o_sublayer owned \<and> o_enforcing owned \<and> completeBlocks sha fs))))"

section \<open>Replacing and removing\<close>

record app_identity =
  id_app :: "8 word list"
  id_sd :: "8 word list"

type_synonym identities = "string \<rightharpoonup> app_identity"

definition wcond :: "guid \<Rightarrow> 32 word \<Rightarrow> 32 word \<Rightarrow> wvalue \<Rightarrow> wfp_condition" where
  "wcond f m t v = \<lparr>wc_field = f, wc_match = m, wc_type = t, wc_value = v\<rparr>"

definition cond_of ::
  "identities \<Rightarrow> (string \<Rightarrow> (8 word list \<times> nat) option) \<Rightarrow> layer \<Rightarrow> condition \<Rightarrow> string + wfp_condition list" where
  "cond_of ids v6 l c =
     (case Field c of
        Loopback \<Rightarrow> Inr [wcond fieldFlags 6 3 (WNum 1)]
      | Interface \<Rightarrow>
          Inr ([wcond fieldNextHop 0 4 (WNum (Number c))] @
               (if \<not> Outbound l then [wcond fieldLocalInterface 0 4 (WNum (Number c))] else []))
      | Application \<Rightarrow>
          (case ids (Text c) of
             None \<Rightarrow> Inl ''missing trusted WFP app identity''
           | Some i \<Rightarrow>
               if id_app i = [] \<or> id_sd i = [] then Inl ''missing trusted WFP app identity''
               else Inr [wcond fieldApp 0 12 (WBytes (id_app i)), wcond fieldUser 0 14 (WBytes (id_sd i))])
      | Protocol \<Rightarrow> Inr [wcond fieldProtocol 0 1 (WNum (Number c))]
      | LocalPort \<Rightarrow> Inr [wcond fieldLocalPort 0 2 (WNum (Number c))]
      | RemotePort \<Rightarrow> Inr [wcond fieldRemotePort 0 2 (WNum (Number c))]
      | RemoteAddress \<Rightarrow>
          (case v6 (Text c) of
             None \<Rightarrow> Inl ''invalid NDP prefix''
           | Some (a, b) \<Rightarrow> Inr [wcond fieldRemoteAddress 0 257 (WMask a (word_of_nat b))]))"

fun conds_of ::
  "identities \<Rightarrow> (string \<Rightarrow> (8 word list \<times> nat) option) \<Rightarrow> layer \<Rightarrow> condition list \<Rightarrow> string + wfp_condition list" where
  "conds_of ids v6 l [] = Inr []"
| "conds_of ids v6 l (c # cs) =
     (case cond_of ids v6 l c of
        Inl e \<Rightarrow> Inl e
      | Inr x \<Rightarrow> (case conds_of ids v6 l cs of Inl e \<Rightarrow> Inl e | Inr xs \<Rightarrow> Inr (x @ xs)))"

definition mk_filter :: "(string \<Rightarrow> guid) \<Rightarrow> rule \<Rightarrow> wfp_condition list \<Rightarrow> wfp_filter" where
  "mk_filter sha r cs =
     \<lparr>wf_key = sha (Key r), wf_flags = 1, wf_provider = Some providerKey, wf_data = marker,
      wf_layer = layerKey (Layer r), wf_sublayer = sublayerKey, wf_weight_type = 4, wf_weight = Weight r,
      wf_action = (if Permit r then permitAction else blockAction), wf_conds = cs\<rparr>"

definition native_addFilter :: "fate \<Rightarrow> wfp_filter \<Rightarrow> unit op" where
  "native_addFilter fate f =
     bindE (native fate) (\<lambda>_. bindE readE (\<lambda>k.
       if wf_key f \<in> wf_key ` set (k_filters k) then failE ''FWP_E_ALREADY_EXISTS''
       else updateE (\<lambda>k. k\<lparr>k_filters := k_filters k @ [f]\<rparr>)))"

definition addFilter ::
  "fate \<Rightarrow> (string \<Rightarrow> guid) \<Rightarrow> identities \<Rightarrow> (string \<Rightarrow> (8 word list \<times> nat) option) \<Rightarrow> rule \<Rightarrow> unit op" where
  "addFilter fate sha ids v6 r =
     (case conds_of ids v6 (Layer r) (Conditions r) of
        Inl e \<Rightarrow> failE e
      | Inr cs \<Rightarrow> native_addFilter fate (mk_filter sha r cs))"

fun add_filters ::
  "fate \<Rightarrow> (string \<Rightarrow> guid) \<Rightarrow> identities \<Rightarrow> (string \<Rightarrow> (8 word list \<times> nat) option) \<Rightarrow> rule list \<Rightarrow> unit op" where
  "add_filters fate sha ids v6 [] = retE ()"
| "add_filters fate sha ids v6 (r # rs) =
     bindE (addFilter fate sha ids v6 r) (\<lambda>_. add_filters fate sha ids v6 rs)"

definition native_deleteFilter :: "fate \<Rightarrow> guid \<Rightarrow> unit op" where
  "native_deleteFilter fate key =
     bindE (native fate) (\<lambda>_. bindE readE (\<lambda>k.
       if key \<notin> wf_key ` set (k_filters k) then failE ''FWP_E_FILTER_NOT_FOUND''
       else updateE (\<lambda>k. k\<lparr>k_filters := filter (\<lambda>f. wf_key f \<noteq> key) (k_filters k)\<rparr>)))"

fun delete_filters :: "fate \<Rightarrow> filter_info list \<Rightarrow> unit op" where
  "delete_filters fate [] = retE ()"
| "delete_filters fate (f # fs) =
     bindE (native_deleteFilter fate (fi_key f)) (\<lambda>_. delete_filters fate fs)"

definition delete_sublayer :: "fate \<Rightarrow> unit op" where
  "delete_sublayer fate =
     bindE (native fate) (\<lambda>_. bindE readE (\<lambda>k.
       if \<exists>f\<in>set (k_filters k). wf_sublayer f = sublayerKey then failE ''FWP_E_IN_USE''
       else updateE (\<lambda>k. k\<lparr>k_sublayer := None\<rparr>)))"

definition delete_provider :: "fate \<Rightarrow> unit op" where
  "delete_provider fate =
     bindE (native fate) (\<lambda>_. bindE readE (\<lambda>k.
       if (\<exists>f\<in>set (k_filters k). wf_provider f = Some providerKey) \<or>
          (\<exists>s. k_sublayer k = Some s \<and> ws_provider s = Some providerKey) then failE ''FWP_E_IN_USE''
       else updateE (\<lambda>k. k\<lparr>k_provider := None\<rparr>)))"

definition removeOwned :: "fate \<Rightarrow> unit op" where
  "removeOwned fate =
     bindE (ownedState fate) (\<lambda>owned.
       if \<not> o_provider owned \<and> \<not> o_sublayer owned then retE ()
       else bindE (owned_filters fate) (\<lambda>old.
         bindE (delete_filters fate old) (\<lambda>_.
           bindE (if o_sublayer owned then delete_sublayer fate else retE ()) (\<lambda>_.
             if o_provider owned then delete_provider fate else retE ()))))"

definition our_provider :: wfp_provider where
  "our_provider = \<lparr>wp_key = providerKey, wp_flags = 1, wp_data = marker, wp_service = None\<rparr>"

definition our_sublayer :: wfp_sublayer where
  "our_sublayer =
     \<lparr>ws_key = sublayerKey, ws_flags = 1, ws_provider = Some providerKey, ws_data = marker, ws_weight = 0xffff\<rparr>"

definition add_provider :: "fate \<Rightarrow> unit op" where
  "add_provider fate =
     bindE (native fate) (\<lambda>_. bindE readE (\<lambda>k.
       if k_provider k \<noteq> None then failE ''FWP_E_ALREADY_EXISTS''
       else updateE (\<lambda>k. k\<lparr>k_provider := Some our_provider\<rparr>)))"

definition add_sublayer :: "fate \<Rightarrow> unit op" where
  "add_sublayer fate =
     bindE (native fate) (\<lambda>_. bindE readE (\<lambda>k.
       if k_sublayer k \<noteq> None then failE ''FWP_E_ALREADY_EXISTS''
       else updateE (\<lambda>k. k\<lparr>k_sublayer := Some our_sublayer\<rparr>)))"

text \<open>
  \<open>ids\<close> is the result of \<^verbatim>\<open>identities()\<close>.  The first native call stands for the security descriptor.
\<close>

definition wfp_Replace ::
  "fate \<Rightarrow> (string \<Rightarrow> guid) \<Rightarrow> (string \<Rightarrow> (8 word list \<times> nat) option) \<Rightarrow> string + identities \<Rightarrow> 64 word \<Rightarrow> unit op" where
  "wfp_Replace fate sha v6 ids luid =
     (case ids of
        Inl e \<Rightarrow> failE e
      | Inr i \<Rightarrow>
          bindE (native fate) (\<lambda>_. session fate (transaction fate
            (bindE (removeOwned fate) (\<lambda>_. bindE (add_provider fate) (\<lambda>_. bindE (add_sublayer fate) (\<lambda>_.
               add_filters fate sha i v6 (Policy luid))))))))"

definition wfp_Remove :: "fate \<Rightarrow> unit op" where
  "wfp_Remove fate = session fate (transaction fate (removeOwned fate))"

section \<open>Calls that fail leave the store alone\<close>

definition objs :: "kernel \<Rightarrow> wfp_provider option \<times> wfp_sublayer option \<times> wfp_filter list" where
  "objs k = (k_provider k, k_sublayer k, k_filters k)"

definition readonly :: "'a op \<Rightarrow> bool" where
  "readonly m \<longleftrightarrow> (\<forall>k. objs (snd (m k)) = objs k)"

named_theorems wfp_read

lemma readonly_retE [wfp_read]: "readonly (retE x)"
  by (simp add: readonly_def retE_def)

lemma readonly_failE [wfp_read]: "readonly (failE e)"
  by (simp add: readonly_def failE_def)

lemma readonly_readE [wfp_read]: "readonly readE"
  by (simp add: readonly_def readE_def)

lemma readonly_native [wfp_read]: "readonly (native fate)"
  by (simp add: readonly_def native_def objs_def)

lemma readonly_bindE [wfp_read]:
  "readonly m \<Longrightarrow> (\<And>x. readonly (f x)) \<Longrightarrow> readonly (bindE m f)"
  by (auto simp: readonly_def bindE_def split: prod.split sum.split) (metis snd_conv)+

lemma readonly_enum_loop [wfp_read]: "readonly (enum_loop fate layer n rest out)"
  by (induction n arbitrary: rest out) (auto intro!: wfp_read)

lemma readonly_filtersAtLayer [wfp_read]: "readonly (filtersAtLayer fate layer)"
  unfolding filtersAtLayer_def by (intro wfp_read)

lemma readonly_filters_loop [wfp_read]: "readonly (filters_loop fate ls out)"
  by (induction ls arbitrary: out) (auto intro!: wfp_read)

lemma readonly_owned_filters [wfp_read]: "readonly (owned_filters fate)"
  unfolding owned_filters_def by (intro wfp_read)

lemma readonly_owned_sublayer [wfp_read]: "readonly (owned_sublayer fate p e)"
  unfolding owned_sublayer_def by (auto intro!: wfp_read split: option.split)

lemma readonly_ownedState [wfp_read]: "readonly (ownedState fate)"
  unfolding ownedState_def by (auto intro!: wfp_read split: option.split)

lemma readonly_Inspect [wfp_read]: "readonly (wfp_Inspect fate sha)"
  unfolding wfp_Inspect_def session_def by (auto intro!: wfp_read)

lemma readonlyD: "readonly m \<Longrightarrow> m k = (r, k') \<Longrightarrow> objs k' = objs k"
  unfolding readonly_def by (metis snd_conv)

lemma bindE_Inr:
  "bindE m f k = (Inr y, k'') \<longleftrightarrow> (\<exists>x k'. m k = (Inr x, k') \<and> f x k' = (Inr y, k''))"
  by (auto simp: bindE_def split: prod.splits sum.splits)

lemma bindE_Inl:
  "bindE m f k = (Inl e, k'') \<longleftrightarrow> m k = (Inl e, k'') \<or> (\<exists>x k'. m k = (Inr x, k') \<and> f x k' = (Inl e, k''))"
  by (auto simp: bindE_def split: prod.splits sum.splits)

lemma op_simps [simp]:
  "retE x k = (Inr y, k') \<longleftrightarrow> y = x \<and> k' = k"
  "retE x k = (Inl e, k') \<longleftrightarrow> False"
  "failE e k = (Inr y, k') \<longleftrightarrow> False"
  "readE k = (Inr j, k') \<longleftrightarrow> j = k \<and> k' = k"
  "updateE g k = (Inr u, k') \<longleftrightarrow> k' = g k"
  by (auto simp: retE_def failE_def readE_def updateE_def)

lemma native_Inr: "native fate k = (Inr u, k') \<Longrightarrow> objs k' = objs k"
  by (rule readonlyD [OF readonly_native])

lemma transaction_Inl:
  assumes "transaction fate fn k = (Inl e, k')"
  shows "objs k' = objs k"
proof -
  have ab: "objs k3 = objs old" if "(abort_tx fate old e' k2 :: (string + 'a) \<times> kernel) = (r, k3)" for old e' k2 r k3
    using that by (auto simp: abort_tx_def restore_def objs_def split: prod.splits sum.splits)
  have nat: "objs k1 = objs k" if "native fate k = (r, k1)" for r k1
    using readonlyD [OF readonly_native that] .
  from assms show ?thesis
    unfolding transaction_def
    by (auto dest!: nat simp: ab split: prod.splits sum.splits)
qed

lemma transaction_Inr:
  assumes "transaction fate fn k = (Inr x, k')"
  shows "\<exists>k1 k2. objs k1 = objs k \<and> fn k1 = (Inr x, k2) \<and> objs k' = objs k2"
  using assms unfolding transaction_def abort_tx_def
  by (auto split: prod.splits sum.splits dest!: readonlyD [OF readonly_native])

lemma session_transaction_Inl:
  assumes "session fate (transaction fate m) k = (Inl e, k')"
  shows "objs k' = objs k"
proof -
  from assms have "native fate k = (Inl e, k') \<or>
      (\<exists>x k1. native fate k = (Inr x, k1) \<and> transaction fate m k1 = (Inl e, k'))"
    unfolding session_def bindE_Inl .
  then show ?thesis
    by (auto dest!: readonlyD [OF readonly_native] transaction_Inl)
qed

lemma Replace_fail_atomic:
  assumes "wfp_Replace fate sha v6 ids luid k = (Inl e, k')"
  shows "objs k' = objs k"
proof (cases ids)
  case (Inl a)
  then show ?thesis using assms by (simp add: wfp_Replace_def failE_def)
next
  case (Inr i)
  let ?tx = "bindE (removeOwned fate) (\<lambda>_. bindE (add_provider fate) (\<lambda>_.
        bindE (add_sublayer fate) (\<lambda>_. add_filters fate sha i v6 (Policy luid))))"
  have "native fate k = (Inl e, k') \<or> (\<exists>x k1. native fate k = (Inr x, k1) \<and>
      session fate (transaction fate ?tx) k1 = (Inl e, k'))"
    using assms Inr by (simp add: wfp_Replace_def bindE_Inl)
  then show ?thesis
    by (auto dest!: readonlyD [OF readonly_native] session_transaction_Inl)
qed

lemma Remove_fail_atomic:
  "wfp_Remove fate k = (Inl e, k') \<Longrightarrow> objs k' = objs k"
  unfolding wfp_Remove_def by (rule session_transaction_Inl)

section \<open>What enumeration and removal do\<close>

definition owned :: "wfp_filter \<Rightarrow> bool" where
  "owned f \<longleftrightarrow> wf_provider f = Some providerKey"

text \<open>The engine's referential integrity, as far as the guard's objects go.\<close>

definition wf_kernel :: "kernel \<Rightarrow> bool" where
  "wf_kernel k \<longleftrightarrow> distinct (map wf_key (k_filters k)) \<and> (k_provider k = None \<longrightarrow> filter owned (k_filters k) = [])"

lemma objs_simps:
  "objs k' = objs k \<Longrightarrow> k_filters k' = k_filters k" "objs k' = objs k \<Longrightarrow> k_provider k' = k_provider k"
  "objs k' = objs k \<Longrightarrow> k_sublayer k' = k_sublayer k"
  by (simp_all add: objs_def)

lemma wf_kernel_objs: "objs k' = objs k \<Longrightarrow> wf_kernel k' \<longleftrightarrow> wf_kernel k"
  by (simp add: wf_kernel_def objs_def)

lemma native_fields:
  "native fate k = (Inr u, k') \<Longrightarrow>
     k_filters k' = k_filters k \<and> k_provider k' = k_provider k \<and> k_sublayer k' = k_sublayer k"
  using native_Inr objs_simps by blast

lemma enum_loop_Inr:
  "enum_loop fate layer n rest out k = (Inr r, k') \<Longrightarrow> r = out @ map info_of rest"
proof (induction n arbitrary: rest out k)
  case 0
  then show ?case by simp
next
  case (Suc n)
  show ?case
  proof (cases "rest = []")
    case True
    then show ?thesis using Suc.prems by (auto simp: bindE_Inr)
  next
    case False
    then obtain k1 where "enum_loop fate layer n (drop 64 rest) (out @ map info_of (take 64 rest)) k1 = (Inr r, k')"
      using Suc.prems by (auto simp: bindE_Inr split: if_splits)
    from Suc.IH [OF this] show ?thesis by (simp flip: map_append)
  qed
qed

lemma filtersAtLayer_Inr:
  assumes "filtersAtLayer fate layer k = (Inr r, k')"
  shows "r = map info_of (at_layer k layer)"
proof -
  from assms obtain k1 where "native fate k = (Inr (), k1)"
    and "enum_loop fate layer 9 (at_layer k1 layer) [] k1 = (Inr r, k')"
    by (auto simp: filtersAtLayer_def bindE_Inr)
  then show ?thesis
    by (auto dest!: enum_loop_Inr native_fields simp: at_layer_def)
qed

lemma filters_loop_Inr:
  "filters_loop fate ls out k = (Inr r, k') \<Longrightarrow> r = out @ map info_of (concat (map (at_layer k) ls))"
proof (induction ls arbitrary: out k)
  case Nil
  then show ?case by simp
next
  case (Cons l ls)
  then obtain fs k1 where fs: "filtersAtLayer fate l k = (Inr fs, k1)"
    and rec: "filters_loop fate ls (out @ fs) k1 = (Inr r, k')"
    by (auto simp: bindE_Inr split: if_splits)
  have "at_layer k1 = at_layer k"
    using objs_simps(1) [OF readonlyD [OF readonly_filtersAtLayer fs]] by (simp add: at_layer_def fun_eq_iff)
  then show ?case using Cons.IH [OF rec] filtersAtLayer_Inr [OF fs] by simp
qed

lemma owned_filters_Inr:
  "owned_filters fate k = (Inr r, k') \<Longrightarrow> r = map info_of (concat (map (at_layer k) layerKeys))"
  unfolding owned_filters_def by (drule filters_loop_Inr) simp

lemma native_deleteFilter_Inr:
  assumes "native_deleteFilter fate key k = (Inr u, k')"
  shows "k_filters k' = filter (\<lambda>f. wf_key f \<noteq> key) (k_filters k) \<and>
    k_provider k' = k_provider k \<and> k_sublayer k' = k_sublayer k"
proof -
  from assms obtain k1 where "native fate k = (Inr (), k1)"
    and "k' = k1\<lparr>k_filters := filter (\<lambda>f. wf_key f \<noteq> key) (k_filters k1)\<rparr>"
    by (auto simp: native_deleteFilter_def bindE_Inr split: if_splits)
  then show ?thesis by (auto dest: native_fields)
qed

lemma delete_filters_Inr:
  assumes "delete_filters fate fs k = (Inr u, k')"
  shows "k_filters k' = filter (\<lambda>f. wf_key f \<notin> fi_key ` set fs) (k_filters k) \<and>
    k_provider k' = k_provider k \<and> k_sublayer k' = k_sublayer k"
  using assms
proof (induction fs arbitrary: k)
  case Nil
  then show ?case by simp
next
  case (Cons f fs)
  then obtain u1 k1 where d: "native_deleteFilter fate (fi_key f) k = (Inr u1, k1)"
    and rec: "delete_filters fate fs k1 = (Inr u, k')"
    by (auto simp: bindE_Inr)
  show ?case
    using Cons.IH [OF rec] native_deleteFilter_Inr [OF d] by (simp add: conj_commute)
qed

lemma owned_sublayer_Inr:
  assumes "owned_sublayer fate p e k = (Inr ow, k')"
  shows "o_provider ow = p \<and> (o_sublayer ow \<longleftrightarrow> k_sublayer k \<noteq> None) \<and> (o_sublayer ow \<longrightarrow> p) \<and>
    (o_sublayer ow \<and> o_enforcing ow \<longrightarrow> e \<and> (\<exists>s. k_sublayer k = Some s \<and> ws_flags s AND persistentFlag \<noteq> 0 \<and>
       ws_weight s = 0xffff))"
proof -
  from assms obtain k1 where n: "native fate k = (Inr (), k1)"
    and c: "(case k_sublayer k1 of
         None \<Rightarrow> retE \<lparr>o_provider = p, o_sublayer = False, o_enforcing = e\<rparr>
       | Some s \<Rightarrow>
           if ws_key s \<noteq> sublayerKey \<or> ws_provider s \<noteq> Some providerKey \<or> ws_data s \<noteq> marker
           then failE ''WFP sublayer ownership mismatch''
           else if \<not> p then failE ''WFP sublayer has no owned provider''
           else retE \<lparr>o_provider = p, o_sublayer = True,
                  o_enforcing = (e \<and> ws_flags s AND persistentFlag \<noteq> 0 \<and> ws_weight s = 0xffff)\<rparr>) k1 = (Inr ow, k')"
    by (auto simp: owned_sublayer_def bindE_Inr)
  then show ?thesis
    using native_fields [OF n] by (cases "k_sublayer k") (auto split: if_splits)
qed

lemma ownedState_Inr:
  assumes "ownedState fate k = (Inr ow, k')"
  shows "(o_provider ow \<longleftrightarrow> k_provider k \<noteq> None) \<and> (o_sublayer ow \<longleftrightarrow> k_sublayer k \<noteq> None) \<and>
    (o_sublayer ow \<longrightarrow> o_provider ow) \<and>
    (o_sublayer ow \<and> o_enforcing ow \<longrightarrow> (\<exists>p s. k_provider k = Some p \<and> provider_enforcing p \<and>
       k_sublayer k = Some s \<and> ws_flags s AND persistentFlag \<noteq> 0 \<and> ws_weight s = 0xffff))"
proof -
  from assms obtain k1 where n: "native fate k = (Inr (), k1)"
    and c: "(case k_provider k1 of None \<Rightarrow> owned_sublayer fate False False
       | Some p \<Rightarrow> if wp_key p \<noteq> providerKey \<or> wp_data p \<noteq> marker then failE ''WFP provider ownership mismatch''
           else owned_sublayer fate True (provider_enforcing p)) k1 = (Inr ow, k')"
    by (auto simp: ownedState_def bindE_Inr)
  note k1 = native_fields [OF n]
  show ?thesis
  proof (cases "k_provider k")
    case None
    then show ?thesis using c k1 owned_sublayer_Inr [of fate False False k1 ow k'] by auto
  next
    case (Some p)
    then have "owned_sublayer fate True (provider_enforcing p) k1 = (Inr ow, k')"
      using c k1 by (simp split: if_splits)
    from owned_sublayer_Inr [OF this] show ?thesis using Some k1 by simp
  qed
qed

lemma delete_sublayer_Inr:
  assumes "delete_sublayer fate k = (Inr u, k')"
  shows "k_sublayer k' = None \<and> k_provider k' = k_provider k \<and> k_filters k' = k_filters k"
  using assms unfolding delete_sublayer_def by (auto simp: bindE_Inr dest!: native_fields split: if_splits)

lemma delete_provider_Inr:
  assumes "delete_provider fate k = (Inr u, k')"
  shows "k_provider k' = None \<and> k_sublayer k' = k_sublayer k \<and> k_filters k' = k_filters k \<and>
    filter owned (k_filters k) = []"
  using assms unfolding delete_provider_def
  by (auto simp: bindE_Inr owned_def filter_empty_conv dest!: native_fields split: if_splits)

lemma filter_by_keys:
  assumes "distinct (map wf_key fs)" and "set gs \<subseteq> set fs"
  shows "filter (\<lambda>f. wf_key f \<notin> wf_key ` set gs) fs = filter (\<lambda>f. f \<notin> set gs) fs"
  using assms by (intro filter_cong refl) (auto simp: distinct_map inj_on_def)

text \<open>A successful removal deletes everything of ours and nothing else.\<close>

lemma removeOwned_Inr:
  assumes "removeOwned fate k = (Inr u, k')" and "wf_kernel k"
  shows "k_provider k' = None \<and> k_sublayer k' = None \<and> k_filters k' = filter (\<lambda>f. \<not> owned f) (k_filters k)"
proof -
  from assms(1) obtain ow k1 where ow: "ownedState fate k = (Inr ow, k1)"
    and rest: "(if \<not> o_provider ow \<and> \<not> o_sublayer ow then retE ()
       else bindE (owned_filters fate) (\<lambda>old. bindE (delete_filters fate old) (\<lambda>_.
           bindE (if o_sublayer ow then delete_sublayer fate else retE ()) (\<lambda>_.
             if o_provider ow then delete_provider fate else retE ())))) k1 = (Inr u, k')"
    by (auto simp: removeOwned_def bindE_Inr)
  note o1 = ownedState_Inr [OF ow] and k1 = objs_simps [OF readonlyD [OF readonly_ownedState ow]]
  show ?thesis
  proof (cases "o_provider ow")
    case False
    then have "k' = k1" using rest o1 by auto
    moreover have "filter owned (k_filters k) = []" using assms(2) o1 False by (auto simp: wf_kernel_def)
    ultimately show ?thesis using o1 k1 False by (auto simp: filter_empty_conv)
  next
    case True
    then obtain old k2 u3 k3 u4 k4 where old: "owned_filters fate k1 = (Inr old, k2)"
      and del: "delete_filters fate old k2 = (Inr u3, k3)"
      and sub: "(if o_sublayer ow then delete_sublayer fate else retE ()) k3 = (Inr u4, k4)"
      and prov: "delete_provider fate k4 = (Inr u, k')"
      using rest by (auto simp: bindE_Inr)
    note k2 = objs_simps [OF readonlyD [OF readonly_owned_filters old]]
    note k3 = delete_filters_Inr [OF del]
    have k4: "k_sublayer k4 = None" "k_provider k4 = k_provider k3" "k_filters k4 = k_filters k3"
      using sub o1 k1 k2 k3 by (auto split: if_splits dest: delete_sublayer_Inr)
    note k' = delete_provider_Inr [OF prov]
    let ?gs = "concat (map (at_layer k1) layerKeys)"
    have keys: "fi_key ` set old = wf_key ` set ?gs"
      by (simp add: owned_filters_Inr [OF old] image_image info_of_def)
    have sub: "set ?gs \<subseteq> {f \<in> set (k_filters k). owned f}"
      using k1 by (auto simp: at_layer_def owned_def)
    have "k_filters k' = filter (\<lambda>f. wf_key f \<notin> wf_key ` set ?gs) (k_filters k)"
      using k' k4 k3 k2 k1 keys by simp
    also have "\<dots> = filter (\<lambda>f. f \<notin> set ?gs) (k_filters k)"
      using assms(2) sub by (intro filter_by_keys) (auto simp: wf_kernel_def)
    finally have fs: "k_filters k' = filter (\<lambda>f. f \<notin> set ?gs) (k_filters k)" .
    moreover have "filter owned (k_filters k') = []" using k' by simp
    ultimately have "k_filters k' = filter (\<lambda>f. \<not> owned f) (k_filters k)"
      using sub by (auto simp: filter_empty_conv intro!: filter_cong)
    then show ?thesis using k' k4 by simp
  qed
qed

section \<open>What replacing installs\<close>

definition compiled ::
  "(string \<Rightarrow> guid) \<Rightarrow> identities \<Rightarrow> (string \<Rightarrow> (8 word list \<times> nat) option) \<Rightarrow> rule \<Rightarrow> wfp_filter" where
  "compiled sha ids v6 r =
     mk_filter sha r (case conds_of ids v6 (Layer r) (Conditions r) of Inl e \<Rightarrow> [] | Inr cs \<Rightarrow> cs)"

definition compiles :: "identities \<Rightarrow> (string \<Rightarrow> (8 word list \<times> nat) option) \<Rightarrow> rule \<Rightarrow> bool" where
  "compiles ids v6 r \<longleftrightarrow> (\<exists>cs. conds_of ids v6 (Layer r) (Conditions r) = Inr cs)"

lemma addFilter_Inr:
  assumes "addFilter fate sha ids v6 r k = (Inr u, k')"
  shows "compiles ids v6 r \<and> k_filters k' = k_filters k @ [compiled sha ids v6 r] \<and>
    wf_key (compiled sha ids v6 r) \<notin> wf_key ` set (k_filters k) \<and>
    k_provider k' = k_provider k \<and> k_sublayer k' = k_sublayer k"
proof (cases "conds_of ids v6 (Layer r) (Conditions r)")
  case (Inl e)
  then show ?thesis using assms by (simp add: addFilter_def)
next
  case (Inr cs)
  then have "native_addFilter fate (mk_filter sha r cs) k = (Inr u, k')"
    using assms by (simp add: addFilter_def)
  then obtain k1 where "native fate k = (Inr (), k1)"
    and "wf_key (mk_filter sha r cs) \<notin> wf_key ` set (k_filters k1)"
    and "k' = k1\<lparr>k_filters := k_filters k1 @ [mk_filter sha r cs]\<rparr>"
    unfolding native_addFilter_def bindE_Inr by (simp split: if_splits) blast
  then show ?thesis
    using Inr by (auto dest!: native_fields simp: compiles_def compiled_def)
qed

lemma add_filters_Inr:
  assumes "add_filters fate sha ids v6 rs k = (Inr u, k')" and "distinct (map wf_key (k_filters k))"
  shows "(\<forall>r\<in>set rs. compiles ids v6 r) \<and> k_filters k' = k_filters k @ map (compiled sha ids v6) rs \<and>
    distinct (map wf_key (k_filters k')) \<and> k_provider k' = k_provider k \<and> k_sublayer k' = k_sublayer k"
  using assms
proof (induction rs arbitrary: k)
  case Nil
  then show ?case by simp
next
  case (Cons r rs)
  then obtain u1 k1 where a: "addFilter fate sha ids v6 r k = (Inr u1, k1)"
    and rec: "add_filters fate sha ids v6 rs k1 = (Inr u, k')"
    by (auto simp: bindE_Inr)
  note k1 = addFilter_Inr [OF a]
  have "distinct (map wf_key (k_filters k1))" using k1 Cons.prems(2) by auto
  from Cons.IH [OF rec this] show ?case using k1 by (elim conjE, intro conjI) simp_all
qed

lemma add_provider_Inr:
  assumes "add_provider fate k = (Inr u, k')"
  shows "k_provider k' = Some our_provider \<and> k_sublayer k' = k_sublayer k \<and> k_filters k' = k_filters k"
  using assms unfolding add_provider_def by (auto simp: bindE_Inr dest!: native_fields split: if_splits)

lemma add_sublayer_Inr:
  assumes "add_sublayer fate k = (Inr u, k')"
  shows "k_sublayer k' = Some our_sublayer \<and> k_provider k' = k_provider k \<and> k_filters k' = k_filters k"
  using assms unfolding add_sublayer_def by (auto simp: bindE_Inr dest!: native_fields split: if_splits)

text \<open>The store holds exactly the policy for \<open>luid\<close> as ours.\<close>

definition installed ::
  "(string \<Rightarrow> guid) \<Rightarrow> identities \<Rightarrow> (string \<Rightarrow> (8 word list \<times> nat) option) \<Rightarrow> 64 word \<Rightarrow> kernel \<Rightarrow> bool" where
  "installed sha ids v6 luid k \<longleftrightarrow>
     k_provider k = Some our_provider \<and> k_sublayer k = Some our_sublayer \<and>
     filter owned (k_filters k) = map (compiled sha ids v6) (Policy luid) \<and>
     (\<forall>r\<in>set (Policy luid). compiles ids v6 r)"

lemma owned_compiled [simp]: "owned (compiled sha ids v6 r)"
  by (simp add: owned_def compiled_def mk_filter_def)

lemma Replace_Inr:
  assumes "wfp_Replace fate sha v6 ids luid k = (Inr u, k')" and "wf_kernel k"
  shows "\<exists>i. ids = Inr i \<and> installed sha i v6 luid k' \<and> wf_kernel k' \<and>
    filter (\<lambda>f. \<not> owned f) (k_filters k') = filter (\<lambda>f. \<not> owned f) (k_filters k)"
proof -
  obtain i where i: "ids = Inr i" using assms(1) by (cases ids) (simp_all add: wfp_Replace_def)
  let ?tx = "bindE (removeOwned fate) (\<lambda>_. bindE (add_provider fate) (\<lambda>_. bindE (add_sublayer fate) (\<lambda>_.
               add_filters fate sha i v6 (Policy luid))))"
  from assms(1) i obtain k1 k2 where n1: "native fate k = (Inr (), k1)" and n2: "native fate k1 = (Inr (), k2)"
    and tx: "transaction fate ?tx k2 = (Inr u, k')"
    by (auto simp: wfp_Replace_def session_def bindE_Inr)
  from transaction_Inr [OF tx] obtain k3 k4 where k3: "objs k3 = objs k2" and b: "?tx k3 = (Inr u, k4)"
    and k': "objs k' = objs k4" by blast
  have o3: "objs k3 = objs k" using k3 native_Inr [OF n1] native_Inr [OF n2] by simp
  from b obtain u5 k5 u6 k6 u7 k7 where r: "removeOwned fate k3 = (Inr u5, k5)"
    and p: "add_provider fate k5 = (Inr u6, k6)" and s: "add_sublayer fate k6 = (Inr u7, k7)"
    and f: "add_filters fate sha i v6 (Policy luid) k7 = (Inr u, k4)"
    by (auto simp: bindE_Inr)
  have wf3: "wf_kernel k3" using assms(2) wf_kernel_objs [OF o3] by simp
  note k5 = removeOwned_Inr [OF r wf3] and k6 = add_provider_Inr [OF p] and k7 = add_sublayer_Inr [OF s]
  have fs7: "k_filters k7 = filter (\<lambda>f. \<not> owned f) (k_filters k)"
    using k5 k6 k7 objs_simps(1) [OF o3] by simp
  then have "distinct (map wf_key (k_filters k7))"
    using assms(2) by (simp add: wf_kernel_def distinct_map_filter)
  note k4 = add_filters_Inr [OF f this]
  have fs: "k_filters k' = filter (\<lambda>f. \<not> owned f) (k_filters k) @ map (compiled sha i v6) (Policy luid)"
    using objs_simps(1) [OF k'] k4 fs7 by simp
  have "installed sha i v6 luid k'"
    using k4 k6 k7 objs_simps(2,3) [OF k']
    unfolding installed_def fs by (simp add: filter_map comp_def)
  moreover have "wf_kernel k'"
    using k4 k6 k7 objs_simps [OF k'] unfolding wf_kernel_def
    by (elim conjE, intro conjI impI) simp_all
  moreover have "filter (\<lambda>f. \<not> owned f) (k_filters k') = filter (\<lambda>f. \<not> owned f) (k_filters k)"
    using fs by (simp add: filter_map comp_def)
  ultimately show ?thesis using i by blast
qed

lemma Remove_Inr:
  assumes "wfp_Remove fate k = (Inr u, k')" and "wf_kernel k"
  shows "k_provider k' = None \<and> k_sublayer k' = None \<and>
    k_filters k' = filter (\<lambda>f. \<not> owned f) (k_filters k) \<and> wf_kernel k'"
proof -
  from assms(1) obtain k1 where n1: "native fate k = (Inr (), k1)"
    and tx: "transaction fate (removeOwned fate) k1 = (Inr u, k')"
    by (auto simp: wfp_Remove_def session_def bindE_Inr)
  from transaction_Inr [OF tx] obtain k2 k3 where k2: "objs k2 = objs k1"
    and r: "removeOwned fate k2 = (Inr u, k3)" and k': "objs k' = objs k3" by blast
  have o2: "objs k2 = objs k" using k2 native_Inr [OF n1] by simp
  then have "wf_kernel k2" using assms(2) wf_kernel_objs by blast
  from removeOwned_Inr [OF r this] show ?thesis
    using objs_simps [OF k'] objs_simps(1) [OF o2] assms(2)
    by (simp add: wf_kernel_def distinct_map_filter)
qed

section \<open>Inspecting what is installed\<close>

lemma Policy_blocks:
  "filter (\<lambda>r. length (Conditions r) = 0) (Policy tun) = map (\<lambda>l. mk_rule l ''block'' 1 False []) Layers"
  by (simp add: Policy_def Layers_def layer_rules_def ndp_rules_def mk_rule_def IPv6_def Outbound_def Let_def)

definition default_blocks :: "(string \<Rightarrow> guid) \<Rightarrow> kernel \<Rightarrow> bool" where
  "default_blocks sha k \<longleftrightarrow>
     (\<forall>l\<in>set Layers. \<exists>f\<in>set (k_filters k). owned f \<and> is_default_block sha (mk_rule l ''block'' 1 False []) (info_of f))"

lemma layerKey_in: "layerKey l \<in> set layerKeys"
  by (cases l) (simp_all add: layerKey_def layerKeys_def)

lemma layerKey_inj [simp]: "layerKey l = layerKey l' \<longleftrightarrow> l = l'"
  by (cases l; cases l') (simp_all add: layerKey_def layerKeys_def)

lemma completeBlocks_all:
  assumes "completeBlocks sha fs" and "l \<in> set Layers"
  shows "list_ex (is_default_block sha (mk_rule l ''block'' 1 False [])) fs"
proof -
  let ?P = "\<lambda>r. list_ex (is_default_block sha r) fs"
  let ?bs = "map (\<lambda>l. mk_rule l ''block'' 1 False []) Layers"
  have "4 \<le> length (filter ?P ?bs)"
    using assms(1) length_remdups_leq [of "map (\<lambda>r. sha (Key r)) (filter ?P ?bs)"]
    unfolding completeBlocks_def Policy_blocks Let_def by simp
  then have "filter ?P ?bs = ?bs"
    by (intro filter_True) (auto simp: Layers_def split: if_splits)
  then show ?thesis using assms(2) by (simp add: filter_id_conv)
qed

lemma at_layers_owned: "f \<in> set (concat (map (at_layer k) layerKeys)) \<Longrightarrow> f \<in> set (k_filters k) \<and> owned f"
  by (auto simp: at_layer_def owned_def)

lemma Inspect_sound:
  assumes "wfp_Inspect fate sha k = (Inr (p, c), k')"
  shows "objs k' = objs k \<and> (p \<longleftrightarrow> k_provider k \<noteq> None) \<and>
    (c \<longrightarrow> default_blocks sha k \<and>
      (\<exists>q s. k_provider k = Some q \<and> provider_enforcing q \<and> k_sublayer k = Some s \<and> ws_weight s = 0xffff))"
proof -
  from assms obtain k1 ow k2 where n: "native fate k = (Inr (), k1)" and ow: "ownedState fate k1 = (Inr ow, k2)"
    and rest: "(if \<not> o_provider ow then retE (o_provider ow \<or> o_sublayer ow, False)
       else bindE (owned_filters fate) (\<lambda>fs. retE (o_provider ow \<or> o_sublayer ow,
           o_sublayer ow \<and> o_enforcing ow \<and> completeBlocks sha fs))) k2 = (Inr (p, c), k')"
    by (auto simp: wfp_Inspect_def session_def bindE_Inr)
  have k2: "objs k2 = objs k" using native_Inr [OF n] readonlyD [OF readonly_ownedState ow] by simp
  have k1: "objs k1 = objs k" by (rule native_Inr [OF n])
  note o = ownedState_Inr [OF ow, unfolded objs_simps [OF k1]]
  have same: "objs k' = objs k" using readonlyD [OF readonly_Inspect assms] .
  show ?thesis
  proof (cases "o_provider ow")
    case False
    then show ?thesis using rest o same by auto
  next
    case True
    then obtain fs where fs: "owned_filters fate k2 = (Inr fs, k')" and "p"
      and c: "c \<longleftrightarrow> o_sublayer ow \<and> o_enforcing ow \<and> completeBlocks sha fs"
      using rest by (auto simp: bindE_Inr)
    have "default_blocks sha k" if c
      unfolding default_blocks_def
    proof
      fix l assume "l \<in> set Layers"
      then have "list_ex (is_default_block sha (mk_rule l ''block'' 1 False [])) fs"
        using completeBlocks_all c that by blast
      then obtain f where "f \<in> set (concat (map (at_layer k2) layerKeys))"
        and "is_default_block sha (mk_rule l ''block'' 1 False []) (info_of f)"
        by (auto simp: owned_filters_Inr [OF fs] list_ex_iff)
      then show "\<exists>f\<in>set (k_filters k). owned f \<and> is_default_block sha (mk_rule l ''block'' 1 False []) (info_of f)"
        using at_layers_owned objs_simps(1) [OF k2] by metis
    qed
    then show ?thesis using True same o c \<open>p\<close> by auto
  qed
qed

lemma block_in_Policy: "l \<in> set Layers \<Longrightarrow> mk_rule l ''block'' 1 False [] \<in> set (Policy tun)"
  by (simp add: Policy_def layer_rules_def Let_def) blast

lemma compiled_default_block:
  "is_default_block sha (mk_rule l ''block'' 1 False []) (info_of (compiled sha ids v6 (mk_rule l ''block'' 1 False [])))"
  by (simp add: is_default_block_def info_of_def compiled_def mk_filter_def mk_rule_def)

lemma compiled_key: "wf_key (compiled sha ids v6 r) = sha (Key r)"
  by (simp add: compiled_def mk_filter_def)

text \<open>After a replacement, an inspection that succeeds reports the policy present and complete.\<close>

lemma Inspect_installed:
  assumes "wfp_Inspect fate sha k = (Inr (p, c), k')" and inst: "installed sha ids v6 luid k" and "wf_kernel k"
  shows "p \<and> c"
proof -
  from assms(1) obtain k1 ow k2 where n: "native fate k = (Inr (), k1)" and ow: "ownedState fate k1 = (Inr ow, k2)"
    and rest: "(if \<not> o_provider ow then retE (o_provider ow \<or> o_sublayer ow, False)
       else bindE (owned_filters fate) (\<lambda>fs. retE (o_provider ow \<or> o_sublayer ow,
           o_sublayer ow \<and> o_enforcing ow \<and> completeBlocks sha fs))) k2 = (Inr (p, c), k')"
    by (auto simp: wfp_Inspect_def session_def bindE_Inr)
  have k1: "objs k1 = objs k" by (rule native_Inr [OF n])
  have k2: "objs k2 = objs k" using k1 readonlyD [OF readonly_ownedState ow] by simp
  have owned: "ow = \<lparr>o_provider = True, o_sublayer = True, o_enforcing = True\<rparr>"
  proof -
    have "provider_enforcing our_provider"
      by (simp add: provider_enforcing_def our_provider_def persistentFlag_def)
    then show ?thesis
      using ow inst objs_simps [OF k1] unfolding ownedState_def owned_sublayer_def
      by (auto simp: bindE_Inr installed_def our_provider_def our_sublayer_def persistentFlag_def
          dest!: native_fields)
  qed
  then obtain fs where fs: "owned_filters fate k2 = (Inr fs, k')" and p: p and c: "c \<longleftrightarrow> completeBlocks sha fs"
    using rest by (auto simp: bindE_Inr)
  have ownd: "filter owned (k_filters k) = map (compiled sha ids v6) (Policy luid)"
    using inst by (simp add: installed_def)
  have found: "list_ex (is_default_block sha (mk_rule l ''block'' 1 False [])) fs" if "l \<in> set Layers" for l
  proof -
    let ?f = "compiled sha ids v6 (mk_rule l ''block'' 1 False [])"
    have "?f \<in> set (map (compiled sha ids v6) (Policy luid))"
      using block_in_Policy [OF that, of luid] by simp
    then have "?f \<in> set (filter owned (k_filters k))" by (simp only: ownd)
    then have "?f \<in> set (at_layer k2 (layerKey l))"
      using objs_simps(1) [OF k2]
      by (auto simp: at_layer_def owned_def compiled_def mk_filter_def mk_rule_def)
    then have "info_of ?f \<in> set fs"
      using layerKey_in [of l] by (auto simp: owned_filters_Inr [OF fs])
    then show ?thesis using compiled_default_block list_ex_iff by blast
  qed
  let ?bs = "map (\<lambda>l. mk_rule l ''block'' 1 False []) Layers"
  have "distinct (map wf_key (filter owned (k_filters k)))"
    using \<open>wf_kernel k\<close> by (simp add: wf_kernel_def distinct_map_filter)
  then have "distinct (map (\<lambda>r. sha (Key r)) (Policy luid))"
    unfolding ownd by (simp add: comp_def compiled_key)
  from distinct_map_filter [OF this, of "\<lambda>r. length (Conditions r) = 0"]
  have "distinct (map (\<lambda>r. sha (Key r)) ?bs)"
    unfolding Policy_blocks .
  moreover have "filter (\<lambda>r. list_ex (is_default_block sha r) fs) ?bs = ?bs"
    using found by (intro filter_True) auto
  ultimately have "completeBlocks sha fs"
    unfolding completeBlocks_def Policy_blocks Let_def
    by (simp only: distinct_remdups_id) (simp add: Layers_def)
  then show ?thesis using p c by blast
qed

section \<open>What the installed filters decide\<close>

text \<open>
  A flow as the filter engine classifies it.  Conditions on one field are alternatives, conditions on
  different fields must all hold; among our provider's matching filters of a layer the greatest
  weight decides.
\<close>

record wflow =
  w_flags :: "64 word"
  w_nexthop :: "64 word"
  w_local :: "64 word"
  w_app :: "8 word list"
  w_user :: "8 word list \<Rightarrow> bool"
  w_proto :: "64 word"
  w_lport :: "64 word"
  w_rport :: "64 word"
  w_addr_in :: "8 word list \<Rightarrow> 8 word \<Rightarrow> bool"

fun num_is :: "wvalue \<Rightarrow> 64 word \<Rightarrow> bool" where
  "num_is (WNum n) v = (v = n)"
| "num_is (WBytes b) v = False"
| "num_is (WMask a b) v = False"

fun bytes_ok :: "wvalue \<Rightarrow> (8 word list \<Rightarrow> bool) \<Rightarrow> bool" where
  "bytes_ok (WBytes b) P = P b"
| "bytes_ok (WNum n) P = False"
| "bytes_ok (WMask a b) P = False"

definition wcond_holds :: "wflow \<Rightarrow> wfp_condition \<Rightarrow> bool" where
  "wcond_holds w c =
     (let f = wc_field c; v = wc_value c
      in if f = fieldFlags then (case v of WNum n \<Rightarrow> w_flags w AND n = n | WBytes b \<Rightarrow> False | WMask a b \<Rightarrow> False)
         else if f = fieldNextHop then num_is v (w_nexthop w)
         else if f = fieldLocalInterface then num_is v (w_local w)
         else if f = fieldApp then bytes_ok v (\<lambda>b. w_app w = b)
         else if f = fieldUser then bytes_ok v (w_user w)
         else if f = fieldProtocol then num_is v (w_proto w)
         else if f = fieldLocalPort then num_is v (w_lport w)
         else if f = fieldRemotePort then num_is v (w_rport w)
         else if f = fieldRemoteAddress then (case v of WMask a b \<Rightarrow> w_addr_in w a b | WNum n \<Rightarrow> False | WBytes b \<Rightarrow> False)
         else False)"

definition filter_matches :: "wflow \<Rightarrow> wfp_filter \<Rightarrow> bool" where
  "filter_matches w f \<longleftrightarrow>
     (\<forall>c\<in>set (wf_conds f). \<exists>c'\<in>set (wf_conds f). wc_field c' = wc_field c \<and> wcond_holds w c')"

definition filter_decides :: "kernel \<Rightarrow> layer \<Rightarrow> wflow \<Rightarrow> wfp_filter \<Rightarrow> bool" where
  "filter_decides k l w f \<longleftrightarrow>
     (let fs = filter (\<lambda>f. wf_layer f = layerKey l \<and> filter_matches w f) (filter owned (k_filters k))
      in f \<in> set fs \<and> (\<forall>f'\<in>set fs. wf_weight f' \<le> wf_weight f))"

definition kernel_permits :: "kernel \<Rightarrow> layer \<Rightarrow> wflow \<Rightarrow> bool" where
  "kernel_permits k l w \<longleftrightarrow> (\<exists>f\<in>set (k_filters k). filter_decides k l w f) \<and>
     (\<forall>f\<in>set (k_filters k). filter_decides k l w f \<longrightarrow> wf_action f = permitAction)"

definition kernel_blocks :: "kernel \<Rightarrow> layer \<Rightarrow> wflow \<Rightarrow> bool" where
  "kernel_blocks k l w \<longleftrightarrow> (\<exists>f\<in>set (k_filters k). filter_decides k l w f) \<and>
     (\<forall>f\<in>set (k_filters k). filter_decides k l w f \<longrightarrow> wf_action f = blockAction)"

text \<open>The flow in the policy's terms.\<close>

definition flow_of :: "identities \<Rightarrow> (string \<Rightarrow> (8 word list \<times> nat) option) \<Rightarrow> layer \<Rightarrow> wflow \<Rightarrow> flow" where
  "flow_of ids v6 l w =
     \<lparr>f_loopback = (w_flags w AND 1 = 1),
      f_via = (\<lambda>n. w_nexthop w = n \<and> (\<not> Outbound l \<longrightarrow> w_local w = n)),
      f_app = (\<lambda>name. case ids name of None \<Rightarrow> False | Some i \<Rightarrow> w_app w = id_app i \<and> w_user w (id_sd i)),
      f_proto = w_proto w, f_lport = w_lport w, f_rport = w_rport w,
      f_in_prefix = (\<lambda>p. case v6 p of None \<Rightarrow> False | Some (a, b) \<Rightarrow> w_addr_in w a (word_of_nat b))\<rparr>"

lemmas field_defs = fieldFlags_def fieldNextHop_def fieldLocalInterface_def fieldApp_def fieldUser_def
  fieldProtocol_def fieldLocalPort_def fieldRemotePort_def fieldRemoteAddress_def

fun native_fields_of :: "layer \<Rightarrow> field \<Rightarrow> guid list" where
  "native_fields_of l Loopback = [fieldFlags]"
| "native_fields_of l Interface = fieldNextHop # (if \<not> Outbound l then [fieldLocalInterface] else [])"
| "native_fields_of l Application = [fieldApp, fieldUser]"
| "native_fields_of l Protocol = [fieldProtocol]"
| "native_fields_of l LocalPort = [fieldLocalPort]"
| "native_fields_of l RemotePort = [fieldRemotePort]"
| "native_fields_of l RemoteAddress = [fieldRemoteAddress]"

lemma fields_distinct [simp]:
  "distinct [fieldFlags, fieldNextHop, fieldLocalInterface, fieldApp, fieldUser, fieldProtocol, fieldLocalPort,
     fieldRemotePort, fieldRemoteAddress]"
  by (simp add: field_defs)

lemma native_fields_disjoint:
  "f \<noteq> f' \<Longrightarrow> set (native_fields_of l f) \<inter> set (native_fields_of l f') = {}"
  using fields_distinct by (cases f; cases f') auto

lemma native_fields_distinct: "distinct fs \<Longrightarrow> distinct (concat (map (native_fields_of l) fs))"
proof (induction fs)
  case Nil
  then show ?case by simp
next
  case (Cons f fs)
  have "distinct (native_fields_of l f)"
    using fields_distinct by (cases f) auto
  moreover have "set (native_fields_of l f) \<inter> (\<Union>g\<in>set fs. set (native_fields_of l g)) = {}"
    using Cons.prems native_fields_disjoint [of f _ l] by fastforce
  ultimately show ?case using Cons by simp
qed

lemma cond_of_Inr:
  assumes "cond_of ids v6 l c = Inr cs"
  shows "map wc_field cs = native_fields_of l (Field c)"
    and "list_all (wcond_holds w) cs \<longleftrightarrow> holds (flow_of ids v6 l w) c"
proof -
  show "map wc_field cs = native_fields_of l (Field c)"
    using assms by (cases "Field c") (auto simp: cond_of_def wcond_def split: option.splits if_splits prod.splits)
  show "list_all (wcond_holds w) cs \<longleftrightarrow> holds (flow_of ids v6 l w) c"
    using assms
    by (cases "Field c")
      (auto simp: cond_of_def wcond_def wcond_holds_def holds_def flow_of_def Let_def field_defs
        split: option.splits if_splits prod.splits)
qed

lemma conds_of_Inr:
  assumes "conds_of ids v6 l cs = Inr xs"
  shows "map wc_field xs = concat (map (native_fields_of l) (map Field cs)) \<and>
    (list_all (wcond_holds w) xs \<longleftrightarrow> list_all (holds (flow_of ids v6 l w)) cs)"
  using assms
proof (induction cs arbitrary: xs)
  case Nil
  then show ?case by simp
next
  case (Cons c cs)
  then obtain x ys where x: "cond_of ids v6 l c = Inr x" and ys: "conds_of ids v6 l cs = Inr ys" and xs: "xs = x @ ys"
    by (auto split: sum.splits)
  show ?case using Cons.IH [OF ys] cond_of_Inr [OF x] by (simp add: xs)
qed

lemma distinct_fields_match:
  assumes "distinct (map wc_field (wf_conds f))"
  shows "filter_matches w f \<longleftrightarrow> list_all (wcond_holds w) (wf_conds f)"
  using assms unfolding filter_matches_def list_all_iff distinct_map inj_on_def by metis

lemma layer_rules_distinct_fields: "list_all (\<lambda>r. distinct (map Field (Conditions r))) (layer_rules tun l)"
  by (cases "IPv6 l"; cases "Outbound l"; cases "tun = 0")
    (simp_all add: layer_rules_def ndp_rules_def mk_rule_def cond_num_def cond_text_def)

lemma Policy_distinct_fields: "r \<in> set (Policy tun) \<Longrightarrow> distinct (map Field (Conditions r))"
  using layer_rules_distinct_fields [of tun] by (auto simp: Policy_def list_all_iff)

lemma compiled_matches:
  assumes "r \<in> set (Policy tun)" and "compiles ids v6 r"
  shows "wf_layer (compiled sha ids v6 r) = layerKey l \<and> filter_matches w (compiled sha ids v6 r) \<longleftrightarrow>
    rule_matches l (flow_of ids v6 l w) r"
proof -
  from assms(2) obtain cs where cs: "conds_of ids v6 (Layer r) (Conditions r) = Inr cs"
    by (auto simp: compiles_def)
  have f: "compiled sha ids v6 r = mk_filter sha r cs" by (simp add: compiled_def cs)
  have "distinct (map wc_field cs)"
    using conds_of_Inr [OF cs] native_fields_distinct [OF Policy_distinct_fields [OF assms(1)]] by simp
  then have "filter_matches w (mk_filter sha r cs) \<longleftrightarrow> list_all (holds (flow_of ids v6 (Layer r) w)) (Conditions r)"
    using conds_of_Inr [OF cs, of w] distinct_fields_match [of "mk_filter sha r cs" w] by (simp add: mk_filter_def)
  then show ?thesis by (auto simp: f rule_matches_def mk_filter_def)
qed

lemma kernel_decision:
  assumes "installed sha ids v6 luid k"
  shows "kernel_permits k l w \<longleftrightarrow> permits (Policy luid) l (flow_of ids v6 l w)"
    and "kernel_blocks k l w \<longleftrightarrow> blocks (Policy luid) l (flow_of ids v6 l w)"
proof -
  let ?c = "compiled sha ids v6" and ?f = "flow_of ids v6 l w"
  have own: "filter owned (k_filters k) = map ?c (Policy luid)"
    and ok: "\<And>r. r \<in> set (Policy luid) \<Longrightarrow> compiles ids v6 r"
    using assms by (auto simp: installed_def)
  have weight: "wf_weight (?c r) = Weight r" and act: "wf_action (?c r) = (if Permit r then permitAction else blockAction)" for r
    by (simp_all add: compiled_def mk_filter_def)
  have cm: "rule_matches l ?f r \<longleftrightarrow> wf_layer (?c r) = layerKey l \<and> filter_matches w (?c r)"
    if "r \<in> set (Policy luid)" for r
    using compiled_matches [OF that ok [OF that]] by blast
  have dec: "filter_decides k l w f \<longleftrightarrow> (\<exists>r. decisive (Policy luid) l ?f r \<and> f = ?c r)" for f
  proof -
    have "set (filter (\<lambda>f. wf_layer f = layerKey l \<and> filter_matches w f) (filter owned (k_filters k))) =
        ?c ` {r \<in> set (Policy luid). rule_matches l ?f r}"
      unfolding own using cm by (auto simp: image_iff)
    then show ?thesis
      unfolding filter_decides_def Let_def decisive_def by (auto simp: weight)
  qed
  have inst: "?c r \<in> set (k_filters k)" if "r \<in> set (Policy luid)" for r
  proof -
    have "?c r \<in> set (filter owned (k_filters k))" unfolding own using that by simp
    then show ?thesis by simp
  qed
  have ex: "(\<exists>f\<in>set (k_filters k). filter_decides k l w f) \<longleftrightarrow> (\<exists>r\<in>set (Policy luid). decisive (Policy luid) l ?f r)"
    unfolding dec using inst by (auto simp: decisive_def)
  have all: "(\<forall>f\<in>set (k_filters k). filter_decides k l w f \<longrightarrow> P (wf_action f)) \<longleftrightarrow>
      (\<forall>r\<in>set (Policy luid). decisive (Policy luid) l ?f r \<longrightarrow> P (if Permit r then permitAction else blockAction))" for P
    unfolding dec using inst act by (auto simp: decisive_def)
  have ne: "permitAction \<noteq> blockAction" by (simp add: permitAction_def blockAction_def)
  show "kernel_permits k l w \<longleftrightarrow> permits (Policy luid) l ?f"
    unfolding kernel_permits_def permits_def ex all [of "\<lambda>a. a = permitAction"] using ne by auto
  show "kernel_blocks k l w \<longleftrightarrow> blocks (Policy luid) l ?f"
    unfolding kernel_blocks_def blocks_def ex all [of "\<lambda>a. a = blockAction"] using ne by auto
qed

text \<open>C2. A replacement that succeeds enforces the policy. From then on the filter engine permits a flow
  at a layer exactly when the guard's policy for that tunnel grants it access, and blocks every other
  flow; filters of other programs are left as they were.\<close>

theorem Replace_enforces:
  assumes "wfp_Replace fate sha v6 ids luid k = (Inr u, k')" and "wf_kernel k"
  shows "\<exists>i. ids = Inr i \<and>
    (\<forall>l w. (kernel_permits k' l w \<longleftrightarrow> guarded_access luid l (flow_of i v6 l w)) \<and>
           (kernel_blocks k' l w \<longleftrightarrow> \<not> guarded_access luid l (flow_of i v6 l w))) \<and>
    filter (\<lambda>f. \<not> owned f) (k_filters k') = filter (\<lambda>f. \<not> owned f) (k_filters k)"
  using Replace_Inr [OF assms] kernel_decision Policy_verdict by metis

text \<open>A failed operation changes nothing: whichever native call of \<open>Replace\<close> or \<open>Remove\<close> fails, the
  provider, the sublayer and all filters are as before. In particular a failed update never opens the
  machine.\<close>

theorem failed_update_changes_nothing:
  assumes "wfp_Replace fate sha v6 ids luid k = (Inl e, k') \<or> wfp_Remove fate k = (Inl e, k')"
  shows "objs k' = objs k"
  using assms Replace_fail_atomic Remove_fail_atomic by blast

text \<open>Inspection tells the truth: it changes nothing, \<open>complete\<close> implies that each of the four layers
  holds our unconditional persistent block filter under an enforcing provider, and the state a
  replacement leaves is always reported present and complete.\<close>

theorem Inspect_truthful:
  assumes "wfp_Inspect fate sha k = (Inr (p, c), k')" and "wf_kernel k"
  shows "objs k' = objs k \<and> (p \<longleftrightarrow> k_provider k \<noteq> None) \<and>
    (if c then default_blocks sha k \<and> (\<exists>q. k_provider k = Some q \<and> provider_enforcing q)
     else \<not> (\<exists>i v6 luid. installed sha i v6 luid k))"
  using Inspect_sound [OF assms(1)] Inspect_installed [OF assms(1) _ assms(2)] by (cases c) auto

section \<open>A first installation succeeds\<close>

definition no_failure :: fate where
  "no_failure = (\<lambda>n. None)"

definition empty_kernel :: kernel where
  "empty_kernel = \<lparr>k_provider = None, k_sublayer = None, k_filters = [], k_clock = 0\<rparr>"

lemma native_ok [simp]: "native no_failure k = (Inr (), k\<lparr>k_clock := Suc (k_clock k)\<rparr>)"
  by (simp add: native_def no_failure_def)

lemma bindE_run [simp]:
  "m k = (Inr x, k') \<Longrightarrow> bindE m f k = f x k'"
  by (simp add: bindE_def)

lemma readE_run [simp]: "readE k = (Inr k, k)"
  by (simp add: readE_def)

lemma updateE_run [simp]: "updateE g k = (Inr (), g k)"
  by (simp add: updateE_def)

lemma retE_run [simp]: "retE x k = (Inr x, k)"
  by (simp add: retE_def)

lemma add_filters_succeed:
  assumes "\<forall>r\<in>set rs. compiles ids v6 r" and "distinct (map (\<lambda>r. sha (Key r)) rs)"
    and "wf_key ` set (k_filters k) \<inter> (\<lambda>r. sha (Key r)) ` set rs = {}"
  shows "\<exists>k'. add_filters no_failure sha ids v6 rs k = (Inr (), k')"
  using assms
proof (induction rs arbitrary: k)
  case Nil
  then show ?case by simp
next
  case (Cons r rs)
  then obtain cs where cs: "conds_of ids v6 (Layer r) (Conditions r) = Inr cs" by (auto simp: compiles_def)
  let ?k = "k\<lparr>k_clock := Suc (k_clock k), k_filters := k_filters k @ [mk_filter sha r cs]\<rparr>"
  have "addFilter no_failure sha ids v6 r k = (Inr (), ?k)"
    using Cons.prems(3) by (auto simp: addFilter_def cs native_addFilter_def mk_filter_def image_iff)
  moreover have "\<exists>k'. add_filters no_failure sha ids v6 rs ?k = (Inr (), k')"
    using Cons.prems by (intro Cons.IH) (auto simp: mk_filter_def)
  ultimately show ?case by auto
qed

definition ids_ok :: "identities \<Rightarrow> bool" where
  "ids_ok ids \<longleftrightarrow> (\<forall>n\<in>{Core, Engine, DHCP}. \<exists>i. ids n = Some i \<and> id_app i \<noteq> [] \<and> id_sd i \<noteq> [])"

lemma layer_rules_compile:
  assumes "ids_ok ids" and "v6 ''fe80::/10'' \<noteq> None" and "v6 ''ff02::/16'' \<noteq> None"
  shows "list_all (compiles ids v6) (layer_rules tun l)"
proof -
  obtain a b c where "ids Core = Some a" "id_app a \<noteq> []" "id_sd a \<noteq> []"
    "ids Engine = Some b" "id_app b \<noteq> []" "id_sd b \<noteq> []" "ids DHCP = Some c" "id_app c \<noteq> []" "id_sd c \<noteq> []"
    using assms(1) by (auto simp: ids_ok_def)
  then show ?thesis
    using assms(2,3)
    by (cases "IPv6 l"; cases "Outbound l"; cases "tun = 0")
      (auto simp: layer_rules_def ndp_rules_def mk_rule_def cond_num_def cond_text_def compiles_def cond_of_def
        split: option.split)
qed

lemma transaction_run:
  "fn (k\<lparr>k_clock := Suc (k_clock k)\<rparr>) = (Inr x, k2) \<Longrightarrow>
     transaction no_failure fn k = (Inr x, k2\<lparr>k_clock := Suc (k_clock k2)\<rparr>)"
  by (simp add: transaction_def)

lemma Replace_succeeds:
  assumes "ids_ok ids" and "v6 ''fe80::/10'' \<noteq> None" and "v6 ''ff02::/16'' \<noteq> None" and "inj sha"
  shows "\<exists>k'. wfp_Replace no_failure sha v6 (Inr ids) luid empty_kernel = (Inr (), k')"
proof -
  let ?e = "\<lambda>n. \<lparr>k_provider = None, k_sublayer = None, k_filters = [], k_clock = n\<rparr>"
  let ?k = "\<lparr>k_provider = Some our_provider, k_sublayer = Some our_sublayer, k_filters = [], k_clock = 7\<rparr>"
  let ?tx = "bindE (removeOwned no_failure) (\<lambda>_. bindE (add_provider no_failure) (\<lambda>_.
      bindE (add_sublayer no_failure) (\<lambda>_. add_filters no_failure sha ids v6 (Policy luid))))"
  have "distinct (map sha (map Key (Policy luid)))"
    using distinct_Policy_keys assms(4) by (simp add: distinct_map inj_on_def inj_def del: map_map)
  then have "\<exists>k'. add_filters no_failure sha ids v6 (Policy luid) ?k = (Inr (), k')"
    using layer_rules_compile [OF assms(1-3), of luid]
    by (intro add_filters_succeed) (auto simp: Policy_def list_all_iff comp_def)
  then obtain k' where k': "add_filters no_failure sha ids v6 (Policy luid) ?k = (Inr (), k')" ..
  have "removeOwned no_failure (?e 3) = (Inr (), ?e 5)"
    by (simp add: removeOwned_def ownedState_def owned_sublayer_def)
  moreover have "add_provider no_failure (?e 5) = (Inr (), (?e 6)\<lparr>k_provider := Some our_provider\<rparr>)"
    by (simp add: add_provider_def)
  moreover have "add_sublayer no_failure ((?e 6)\<lparr>k_provider := Some our_provider\<rparr>) = (Inr (), ?k)"
    by (simp add: add_sublayer_def)
  ultimately have "?tx (?e 3) = (Inr (), k')"
    using k' by (simp add: bindE_def)
  then have "transaction no_failure ?tx (?e 2) = (Inr (), k'\<lparr>k_clock := Suc (k_clock k')\<rparr>)"
    by (intro transaction_run) (simp add: numeral_eq_Suc)
  then have "wfp_Replace no_failure sha v6 (Inr ids) luid (?e 0) = (Inr (), k'\<lparr>k_clock := Suc (k_clock k')\<rparr>)"
    by (simp add: wfp_Replace_def session_def bindE_def numeral_2_eq_2)
  then show ?thesis by (auto simp: empty_kernel_def)
qed

definition ex_ids :: identities where
  "ex_ids = (\<lambda>n. if n \<in> {Core, Engine, DHCP} then Some \<lparr>id_app = map (word_of_nat \<circ> of_char) n, id_sd = [1]\<rparr> else None)"

definition ex_v6 :: "string \<Rightarrow> (8 word list \<times> nat) option" where
  "ex_v6 = (\<lambda>p. Some ([0xfe, 0x80], 10))"

definition ex_flow :: "64 word \<Rightarrow> 64 word \<Rightarrow> wflow" where
  "ex_flow nexthop port =
     \<lparr>w_flags = 0, w_nexthop = nexthop, w_local = nexthop, w_app = [], w_user = (\<lambda>_. False), w_proto = 6,
      w_lport = 5000, w_rport = port, w_addr_in = (\<lambda>a b. False)\<rparr>"

lemma Replace_enforces_witness:
  "\<exists>k'. wfp_Replace no_failure (\<lambda>s. s) ex_v6 (Inr ex_ids) 7 empty_kernel = (Inr (), k') \<and>
     kernel_permits k' Connect4 (ex_flow 7 443) \<and> kernel_blocks k' Connect4 (ex_flow 3 443)"
proof -
  have "ids_ok ex_ids" "inj (\<lambda>s :: string. s)"
    by (auto simp: ids_ok_def ex_ids_def Core_def Engine_def DHCP_def)
  then obtain k' where k': "wfp_Replace no_failure (\<lambda>s. s) ex_v6 (Inr ex_ids) 7 empty_kernel = (Inr (), k')"
    using Replace_succeeds [of ex_ids ex_v6 "\<lambda>s. s" 7] by (auto simp: ex_v6_def)
  have "wf_kernel empty_kernel" by (simp add: wf_kernel_def empty_kernel_def)
  from Replace_enforces [OF k' this]
  have "kernel_permits k' Connect4 (ex_flow 7 443)" "kernel_blocks k' Connect4 (ex_flow 3 443)"
    by (auto simp: guarded_access_def dns_flow_def dhcp_flow_def ndp_flow_def flow_of_def ex_flow_def IPv6_def
        ex_ids_def Core_def Engine_def DHCP_def)
  then show ?thesis using k' by blast
qed

lemma failed_update_changes_nothing_witness:
  "\<exists>k'. wfp_Remove (\<lambda>n. if n = 2 then Some ''denied'' else None) (empty_kernel\<lparr>k_provider := Some our_provider\<rparr>) =
       (Inl ''denied'', k') \<and> k_provider k' = Some our_provider"
proof -
  let ?k = "empty_kernel\<lparr>k_provider := Some our_provider\<rparr>"
  have "\<exists>k'. wfp_Remove (\<lambda>n. if n = 2 then Some ''denied'' else None) ?k = (Inl ''denied'', k')"
    by (simp add: wfp_Remove_def session_def transaction_def abort_tx_def removeOwned_def ownedState_def bindE_def
        native_def empty_kernel_def)
  then obtain k' where k': "wfp_Remove (\<lambda>n. if n = 2 then Some ''denied'' else None) ?k = (Inl ''denied'', k')" ..
  from failed_update_changes_nothing [OF disjI2, OF k'] have "objs k' = objs ?k" .
  then show ?thesis using k' by (auto simp: objs_def)
qed

lemma Inspect_truthful_witness:
  "\<exists>k'. wfp_Inspect no_failure (\<lambda>s. s) empty_kernel = (Inr (False, False), k') \<and>
     \<not> installed (\<lambda>s. s) ex_ids ex_v6 7 empty_kernel"
proof -
  have "\<exists>k'. wfp_Inspect no_failure (\<lambda>s. s) empty_kernel = (Inr (False, False), k')"
    by (simp add: wfp_Inspect_def session_def ownedState_def owned_sublayer_def empty_kernel_def)
  then obtain k' where k': "wfp_Inspect no_failure (\<lambda>s. s) empty_kernel = (Inr (False, False), k')" ..
  have "wf_kernel empty_kernel" by (simp add: wf_kernel_def empty_kernel_def)
  from Inspect_truthful [OF k' this] show ?thesis using k' by auto
qed

end
