(* ===== verification/Tunnel_Identity.thy ===== *)
theory Tunnel_Identity
  imports "HOL-Library.Word"
begin

text \<open>
  Resolving the configured TUN to an interface identity
  (\<^verbatim>\<open>ResolveTunnel\<close>, \<^verbatim>\<open>core/protection/wfp_identity_windows.go\<close>).  The adapter list of the operating
  system is an argument: what each of the successive enumeration calls returns.  Addresses are
  compared as the code does, after \<^verbatim>\<open>Unmap\<close>; \<open>parse\<close> is \<^verbatim>\<open>netip.ParsePrefix\<close> followed by that.
\<close>

record 'a adapter =
  a_name :: string
  a_luid :: "64 word"
  a_iftype :: "32 word"
  a_up :: bool
  a_addrs :: "'a list"

datatype 'a adapters_result = Overflow "32 word" | Adapters_Error string | Adapters "'a adapter list"

definition not_unique :: string where
  "not_unique = ''configured TUN is not a unique active virtual interface''"

definition wrong_address :: string where
  "wrong_address = ''configured TUN does not own its expected address''"

fun adapter_loop :: "string \<Rightarrow> 'a \<Rightarrow> 64 word \<Rightarrow> 'a adapter list \<Rightarrow> string + 64 word" where
  "adapter_loop name want found [] = Inr found"
| "adapter_loop name want found (a # as) =
     (if a_name a \<noteq> name then adapter_loop name want found as
      else if found \<noteq> 0 \<or> a_luid a = 0 \<or> (a_iftype a \<noteq> 53 \<and> a_iftype a \<noteq> 131) \<or> \<not> a_up a then Inl not_unique
      else if want \<notin> set (a_addrs a) then Inl wrong_address
      else adapter_loop name want (a_luid a) as)"

text \<open>\<open>enum i sz\<close> is the \<open>i\<close>-th enumeration call, made with a buffer of \<open>sz\<close> bytes.\<close>

fun attempts :: "nat \<Rightarrow> nat \<Rightarrow> (nat \<Rightarrow> 32 word \<Rightarrow> 'a adapters_result) \<Rightarrow> string \<Rightarrow> 'a \<Rightarrow> 32 word \<Rightarrow> string + 64 word" where
  "attempts 0 i enum name want sz = Inl ''adapter list kept changing''"
| "attempts (Suc n) i enum name want sz =
     (if sz = 0 \<or> sz > 4194304 then Inl ''adapter enumeration exceeded bound''
      else case enum i sz of
             Overflow sz' \<Rightarrow> attempts n (Suc i) enum name want sz'
           | Adapters_Error e \<Rightarrow> Inl e
           | Adapters as \<Rightarrow>
               (case adapter_loop name want 0 as of
                  Inl e \<Rightarrow> Inl e
                | Inr found \<Rightarrow> if found \<noteq> 0 then Inr found else Inl ''configured TUN was not found''))"

definition ResolveTunnel ::
  "(string \<Rightarrow> 'a option) \<Rightarrow> (nat \<Rightarrow> 32 word \<Rightarrow> 'a adapters_result) \<Rightarrow> string \<Rightarrow> string \<Rightarrow> string + 64 word" where
  "ResolveTunnel parse enum name address =
     (case parse address of
        None \<Rightarrow> Inl ''TUN identity requires its configured name and address''
      | Some want \<Rightarrow>
          if name = [] then Inl ''TUN identity requires its configured name and address''
          else attempts 4 0 enum name want 16384)"

definition is_tunnel_adapter :: "string \<Rightarrow> 'a \<Rightarrow> 'a adapter \<Rightarrow> bool" where
  "is_tunnel_adapter name want a \<longleftrightarrow> a_name a = name \<and> a_luid a \<noteq> 0 \<and> (a_iftype a = 53 \<or> a_iftype a = 131) \<and>
     a_up a \<and> want \<in> set (a_addrs a)"

lemma adapter_loop_found:
  assumes "adapter_loop name want found as = Inr l" and "found \<noteq> 0"
  shows "l = found \<and> filter (\<lambda>a. a_name a = name) as = []"
  using assms by (induction as) (auto split: if_splits)

lemma adapter_loop_Inr:
  assumes "adapter_loop name want 0 as = Inr l" and "l \<noteq> 0"
  shows "\<exists>a. filter (\<lambda>a. a_name a = name) as = [a] \<and> is_tunnel_adapter name want a \<and> l = a_luid a"
  using assms
proof (induction as)
  case Nil
  then show ?case by simp
next
  case (Cons a as)
  then show ?case
    by (auto simp: is_tunnel_adapter_def split: if_splits dest: adapter_loop_found)
qed

lemma attempts_Inr:
  "attempts n i enum name want sz = Inr l \<Longrightarrow>
     \<exists>j s as a. j < i + n \<and> enum j s = Adapters as \<and> filter (\<lambda>a. a_name a = name) as = [a] \<and>
       is_tunnel_adapter name want a \<and> l = a_luid a"
proof (induction n arbitrary: i sz)
  case 0
  then show ?case by simp
next
  case (Suc n)
  show ?case
  proof (cases "enum i sz")
    case (Overflow s)
    then have "attempts n (Suc i) enum name want s = Inr l" using Suc.prems by (simp split: if_splits)
    from Suc.IH [OF this] show ?thesis by auto
  next
    case (Adapters_Error e)
    then show ?thesis using Suc.prems by (simp split: if_splits)
  next
    case (Adapters as)
    then have "adapter_loop name want 0 as = Inr l" "l \<noteq> 0"
      using Suc.prems by (auto split: if_splits sum.splits)
    from adapter_loop_Inr [OF this] obtain a where "filter (\<lambda>a. a_name a = name) as = [a]"
      "is_tunnel_adapter name want a" "l = a_luid a" by blast
    with Adapters show ?thesis by (intro exI [of _ i] exI [of _ sz] exI [of _ as] exI [of _ a]) simp
  qed
qed

text \<open>The identity permitted for the tunnel is never a guess: a resolved LUID belongs to the only
  adapter of the configured name in one enumeration, which is up, of a tunnel interface type and
  owns the configured address, and it is not zero.\<close>

theorem ResolveTunnel_unique_adapter:
  assumes "ResolveTunnel parse enum name address = Inr l"
  shows "\<exists>want j s as a. parse address = Some want \<and> j < 4 \<and> enum j s = Adapters as \<and>
    filter (\<lambda>a. a_name a = name) as = [a] \<and> is_tunnel_adapter name want a \<and> l = a_luid a \<and> l \<noteq> 0"
  using assms attempts_Inr [of 4 0 enum name _ 16384 l]
  by (fastforce simp: ResolveTunnel_def is_tunnel_adapter_def split: option.splits if_splits)

lemma ResolveTunnel_unique_adapter_witness:
  "ResolveTunnel (\<lambda>s. Some s) (\<lambda>i s. if i = 0 then Overflow 32768 else
       Adapters [\<lparr>a_name = ''eth'', a_luid = 4, a_iftype = 6, a_up = True, a_addrs = []\<rparr>,
         \<lparr>a_name = ''tun'', a_luid = 9, a_iftype = 53, a_up = True, a_addrs = [''10.0.0.1'']\<rparr>]) ''tun'' ''10.0.0.1'' = Inr 9
   \<and> (9 :: 64 word) \<noteq> 0"
proof -
  have r: "ResolveTunnel (\<lambda>s. Some s) (\<lambda>i s. if i = 0 then Overflow 32768 else
       Adapters [\<lparr>a_name = ''eth'', a_luid = 4, a_iftype = 6, a_up = True, a_addrs = []\<rparr>,
         \<lparr>a_name = ''tun'', a_luid = 9, a_iftype = 53, a_up = True, a_addrs = [''10.0.0.1'']\<rparr>]) ''tun'' ''10.0.0.1'' = Inr 9"
  proof -
    have four: "(4 :: nat) = Suc (Suc (Suc (Suc 0)))" by simp
    show ?thesis unfolding ResolveTunnel_def four by simp
  qed
  from ResolveTunnel_unique_adapter [OF r] r show ?thesis by blast
qed

end
