(* ===== verification/Guard.thy ===== *)
theory Guard
  imports Wfp Tunnel_Identity
begin

text \<open>
  The persistent host guard (\<^verbatim>\<open>core/protection/guard.go\<close>): its operations as functions of the guard and
  its backend, and, because commands, the acceptance of an engine and its loss run concurrently, the
  same operations as a step relation in which every section under \<^verbatim>\<open>Guard.mu\<close> and every backend call is
  one step.  The operation lock \<^verbatim>\<open>Guard.op\<close> is the program counter being other than \<open>Idle\<close>;
  \<open>Accepted\<close> and \<open>Interrupted\<close> do not take it.  \<^verbatim>\<open>Reject\<close> does not take it either, but the daemon calls it
  only under its own \<^verbatim>\<open>protectionOp\<close> lock, like every other operation, so it starts from \<open>Idle\<close>.  The
  notification callback only reads and is left out.
\<close>

section \<open>State and operations\<close>

record state =
  Status :: string
  Enforced :: bool
  Persistent :: bool
  Error :: string

record verified_tunnel =
  vt_name :: string
  vt_address :: string
  vt_luid :: "64 word"

record guard =
  g_state :: state
  g_tunnel :: "verified_tunnel option"
  g_legacyEngineOnly :: bool

record 'b backend =
  b_Inspect :: "'b \<Rightarrow> (string + bool \<times> bool) \<times> 'b"
  b_Replace :: "64 word \<Rightarrow> 'b \<Rightarrow> (string + unit) \<times> 'b"
  b_ResolveTunnel :: "string \<Rightarrow> string \<Rightarrow> 'b \<Rightarrow> (string + 64 word) \<times> 'b"
  b_Remove :: "'b \<Rightarrow> (string + unit) \<times> 'b"

definition off_state :: state where
  "off_state = \<lparr>Status = ''off'', Enforced = False, Persistent = False, Error = []\<rparr>"

definition blocked_state :: "bool \<Rightarrow> state" where
  "blocked_state complete = \<lparr>Status = ''blocked'', Enforced = complete, Persistent = complete, Error = []\<rparr>"

definition New :: "'b backend option \<Rightarrow> guard" where
  "New be =
     \<lparr>g_state = (if be = None then off_state\<lparr>Status := ''unavailable''\<rparr> else off_state),
      g_tunnel = None, g_legacyEngineOnly = False\<rparr>"

definition legacy_message :: string where
  "legacy_message = ''Persistent host protection is unavailable on this platform; legacy engine routing only, while the engine is running.''"

definition NewLegacyEngineOnly :: guard where
  "NewLegacyEngineOnly =
     (let g = New (None :: unit backend option)
      in g\<lparr>g_legacyEngineOnly := True, g_state := (g_state g)\<lparr>Error := legacy_message\<rparr>\<rparr>)"

definition set_state :: "state \<Rightarrow> guard \<Rightarrow> guard" where
  "set_state s g = g\<lparr>g_state := s\<rparr>"

definition confirm :: "state \<Rightarrow> verified_tunnel option \<Rightarrow> guard \<Rightarrow> guard" where
  "confirm s t g = g\<lparr>g_state := s, g_tunnel := t\<rparr>"

definition pending :: "guard \<Rightarrow> guard" where
  "pending g = set_state ((g_state g)\<lparr>Status := ''applying'', Error := []\<rparr>) g"

definition guard_fail :: "string \<Rightarrow> guard \<Rightarrow> guard" where
  "guard_fail e g = set_state ((g_state g)\<lparr>Status := ''error'', Error := e\<rparr>) g"

definition Reject :: "string \<Rightarrow> guard \<Rightarrow> string \<times> guard" where
  "Reject e g = (e, guard_fail e g)"

definition unavailable_message :: string where
  "unavailable_message = ''persistent host protection is unavailable on this platform''"

definition prepare :: "'b backend option \<Rightarrow> guard \<times> 'b \<Rightarrow> (string + unit) \<times> guard \<times> 'b" where
  "prepare be gb =
     (case gb of (g, b) \<Rightarrow>
       (case be of
          None \<Rightarrow> (Inl unavailable_message, g, b)
        | Some be \<Rightarrow>
            (let g = pending g
             in case b_Replace be 0 b of
                  (Inl e, b) \<Rightarrow> (Inl e, guard_fail e g, b)
                | (Inr _, b) \<Rightarrow> (Inr (), confirm (blocked_state True) None g, b))))"

definition Prepare :: "'b backend option \<Rightarrow> guard \<times> 'b \<Rightarrow> (string + unit) \<times> guard \<times> 'b" where
  "Prepare be gb = prepare be gb"

definition Recover :: "'b backend option \<Rightarrow> guard \<times> 'b \<Rightarrow> (string + unit) \<times> guard \<times> 'b" where
  "Recover be gb =
     (case gb of (g, b) \<Rightarrow>
       (case be of
          None \<Rightarrow> (Inl unavailable_message, g, b)
        | Some bk \<Rightarrow>
            (case b_Inspect bk b of
               (Inl e, b) \<Rightarrow> (Inl e, guard_fail e g, b)
             | (Inr (present, complete), b) \<Rightarrow>
                 if \<not> present then (Inr (), confirm off_state None g, b)
                 else prepare be (set_state (blocked_state complete) g, b))))"

definition no_identity :: string where
  "no_identity = ''TUN has no verified interface identity''"

text \<open>The part of \<^verbatim>\<open>VerifyTunnel\<close> before the policy is touched: the LUID to permit, or the error.\<close>

definition resolve_luid :: "'b backend \<Rightarrow> string \<Rightarrow> string \<Rightarrow> bool \<Rightarrow> 'b \<Rightarrow> (string + 64 word) \<times> 'b" where
  "resolve_luid be name address systemProxy b =
     (if systemProxy then (Inr 0, b)
      else case b_ResolveTunnel be name address b of
             (Inl e, b) \<Rightarrow> (Inl e, b)
           | (Inr luid, b) \<Rightarrow> (if luid = 0 then (Inl no_identity, b) else (Inr luid, b)))"

definition VerifyTunnel ::
  "'b backend option \<Rightarrow> string \<Rightarrow> string \<Rightarrow> bool \<Rightarrow> guard \<times> 'b \<Rightarrow> (string + unit) \<times> guard \<times> 'b" where
  "VerifyTunnel be name address systemProxy gb =
     (case gb of (g, b) \<Rightarrow>
       (case be of
          None \<Rightarrow> (Inl unavailable_message, g, b)
        | Some be \<Rightarrow>
            (case resolve_luid be name address systemProxy b of
               (Inl e, b) \<Rightarrow> (Inl e, guard_fail e g, b)
             | (Inr luid, b) \<Rightarrow>
                 (let g = pending g
                  in case b_Replace be luid b of
                       (Inl e, b) \<Rightarrow> (Inl e, guard_fail e g, b)
                     | (Inr _, b) \<Rightarrow>
                         (Inr (), confirm (blocked_state True)
                            (Some \<lparr>vt_name = name, vt_address = address, vt_luid = luid\<rparr>) g, b)))))"

text \<open>
  \<^verbatim>\<open>TunnelPresent\<close> when no operation replaces the tunnel meanwhile (if one does, the code reports the
  tunnel as present and leaves it to the next tick).
\<close>

definition TunnelPresent :: "'b backend \<Rightarrow> guard \<Rightarrow> 'b \<Rightarrow> (bool \<times> bool) \<times> 'b" where
  "TunnelPresent be g b =
     (case g_tunnel g of
        None \<Rightarrow> ((False, False), b)
      | Some t \<Rightarrow>
          if vt_luid t = 0 then ((False, False), b)
          else (case b_ResolveTunnel be (vt_name t) (vt_address t) b of
                  (Inl e, b) \<Rightarrow> ((True, False), b)
                | (Inr luid, b) \<Rightarrow> ((True, luid = vt_luid t), b)))"

definition Accepted :: "guard \<Rightarrow> guard" where
  "Accepted g =
     (if Status (g_state g) = ''blocked'' \<and> Enforced (g_state g) \<and> g_tunnel g \<noteq> None
      then g\<lparr>g_state := (g_state g)\<lparr>Status := ''active''\<rparr>\<rparr> else g)"

definition Interrupted :: "guard \<Rightarrow> guard" where
  "Interrupted g =
     (if Status (g_state g) = ''active'' then g\<lparr>g_state := (g_state g)\<lparr>Status := ''blocked''\<rparr>\<rparr> else g)"

definition Release :: "'b backend option \<Rightarrow> guard \<times> 'b \<Rightarrow> (string + unit) \<times> guard \<times> 'b" where
  "Release be gb =
     (case gb of (g, b) \<Rightarrow>
       (case be of
          None \<Rightarrow> (Inr (), g, b)
        | Some be \<Rightarrow>
            (let g = pending g
             in case b_Remove be b of
                  (Inl e, b) \<Rightarrow> (Inl e, guard_fail e g, b)
                | (Inr _, b) \<Rightarrow> (Inr (), confirm off_state None g, b))))"

section \<open>Interleaving\<close>

datatype target = TReplace "64 word" "verified_tunnel option" | TRemove

text \<open>Where the holder of the operation lock stands between two of its atomic sections.\<close>

datatype pc =
    Idle
  | AfterInspect bool bool
  | ToPending target
  | PendingSet state target
  | Calling target
  | ToFail string
  | FailSet state
  | ToConfirm state "verified_tunnel option"

type_synonym 'b conf = "guard \<times> 'b \<times> pc"

inductive gstep :: "'b backend set \<Rightarrow> 'b conf \<Rightarrow> 'b conf \<Rightarrow> bool" for BE where
  start_prepare: "gstep BE (g, b, Idle) (g, b, ToPending (TReplace 0 None))"
| start_release: "gstep BE (g, b, Idle) (g, b, ToPending TRemove)"
| start_reject: "gstep BE (g, b, Idle) (g, b, ToFail e)"
| recover_error: "be \<in> BE \<Longrightarrow> b_Inspect be b = (Inl e, b') \<Longrightarrow> gstep BE (g, b, Idle) (g, b', ToFail e)"
| recover_inspect: "be \<in> BE \<Longrightarrow> b_Inspect be b = (Inr (p, c), b') \<Longrightarrow> gstep BE (g, b, Idle) (g, b', AfterInspect p c)"
| recover_absent: "gstep BE (g, b, AfterInspect False c) (g, b, ToConfirm off_state None)"
| recover_present:
    "gstep BE (g, b, AfterInspect True c) (set_state (blocked_state c) g, b, ToPending (TReplace 0 None))"
| verify_error: "be \<in> BE \<Longrightarrow> resolve_luid be name address sp b = (Inl e, b') \<Longrightarrow> gstep BE (g, b, Idle) (g, b', ToFail e)"
| verify_ok: "be \<in> BE \<Longrightarrow> resolve_luid be name address sp b = (Inr luid, b') \<Longrightarrow>
    gstep BE (g, b, Idle)
      (g, b', ToPending (TReplace luid (Some \<lparr>vt_name = name, vt_address = address, vt_luid = luid\<rparr>)))"
| pending_read: "gstep BE (g, b, ToPending t) (g, b, PendingSet (g_state g) t)"
| pending_write: "gstep BE (g, b, PendingSet s t) (set_state (s\<lparr>Status := ''applying'', Error := []\<rparr>) g, b, Calling t)"
| replace_error: "be \<in> BE \<Longrightarrow> b_Replace be luid b = (Inl e, b') \<Longrightarrow> gstep BE (g, b, Calling (TReplace luid t)) (g, b', ToFail e)"
| replace_ok: "be \<in> BE \<Longrightarrow> b_Replace be luid b = (Inr u, b') \<Longrightarrow>
    gstep BE (g, b, Calling (TReplace luid t)) (g, b', ToConfirm (blocked_state True) t)"
| remove_error: "be \<in> BE \<Longrightarrow> b_Remove be b = (Inl e, b') \<Longrightarrow> gstep BE (g, b, Calling TRemove) (g, b', ToFail e)"
| remove_ok: "be \<in> BE \<Longrightarrow> b_Remove be b = (Inr u, b') \<Longrightarrow>
    gstep BE (g, b, Calling TRemove) (g, b', ToConfirm off_state None)"
| fail_read: "gstep BE (g, b, ToFail e) (g, b, FailSet ((g_state g)\<lparr>Status := ''error'', Error := e\<rparr>))"
| fail_write: "gstep BE (g, b, FailSet s) (set_state s g, b, Idle)"
| confirm_write: "gstep BE (g, b, ToConfirm s t) (confirm s t g, b, Idle)"
| accepted: "gstep BE (g, b, pc) (Accepted g, b, pc)"
| interrupted: "gstep BE (g, b, pc) (Interrupted g, b, pc)"

inductive_cases gstepE: "gstep BE (g, b, pc) c'"

fun target_ok :: "target \<Rightarrow> bool" where
  "target_ok (TReplace l t) = (\<forall>v. t = Some v \<longrightarrow> vt_luid v = l)"
| "target_ok TRemove = True"

section \<open>The backend's contract\<close>

text \<open>
  What the guard relies on.  \<open>enforces b l\<close>: the complete policy for tunnel \<open>l\<close> is in force;
  \<open>blocked b\<close>: the default block of all four layers is.  \<open>BE\<close> is the set of behaviours a backend can
  show in one operation (which native call fails, what the adapters look like).
\<close>

locale guard_backend =
  fixes BE :: "'b backend set"
    and sane :: "'b \<Rightarrow> bool"
    and enforces :: "'b \<Rightarrow> 64 word \<Rightarrow> bool"
    and blocked :: "'b \<Rightarrow> bool"
  assumes enforces_blocked: "sane b \<Longrightarrow> enforces b l \<Longrightarrow> blocked b"
    and replace_ok: "be \<in> BE \<Longrightarrow> sane b \<Longrightarrow> b_Replace be l b = (Inr u, b') \<Longrightarrow> sane b' \<and> enforces b' l"
    and replace_error: "be \<in> BE \<Longrightarrow> sane b \<Longrightarrow> b_Replace be l b = (Inl e, b') \<Longrightarrow>
      sane b' \<and> enforces b' = enforces b \<and> blocked b' = blocked b"
    and remove_ok: "be \<in> BE \<Longrightarrow> sane b \<Longrightarrow> b_Remove be b = (Inr u, b') \<Longrightarrow> sane b'"
    and remove_error: "be \<in> BE \<Longrightarrow> sane b \<Longrightarrow> b_Remove be b = (Inl e, b') \<Longrightarrow>
      sane b' \<and> enforces b' = enforces b \<and> blocked b' = blocked b"
    and inspect: "be \<in> BE \<Longrightarrow> sane b \<Longrightarrow> b_Inspect be b = (r, b') \<Longrightarrow>
      sane b' \<and> enforces b' = enforces b \<and> blocked b' = blocked b \<and> (\<forall>p. r = Inr (p, True) \<longrightarrow> blocked b)"
    and resolve: "be \<in> BE \<Longrightarrow> sane b \<Longrightarrow> b_ResolveTunnel be name address b = (r', b') \<Longrightarrow>
      sane b' \<and> enforces b' = enforces b \<and> blocked b' = blocked b"
begin

definition claims_hold :: "state \<Rightarrow> 'b \<Rightarrow> bool" where
  "claims_hold s b \<longleftrightarrow> (Enforced s \<longrightarrow> blocked b)"

definition tunnel_holds :: "verified_tunnel option \<Rightarrow> 'b \<Rightarrow> bool" where
  "tunnel_holds t b \<longleftrightarrow> (\<forall>v. t = Some v \<longrightarrow> enforces b (vt_luid v))"

definition settled :: "guard \<Rightarrow> 'b \<Rightarrow> bool" where
  "settled g b \<longleftrightarrow> claims_hold (g_state g) b \<and> tunnel_holds (g_tunnel g) b"

fun pc_inv :: "guard \<Rightarrow> 'b \<Rightarrow> pc \<Rightarrow> bool" where
  "pc_inv g b Idle = settled g b"
| "pc_inv g b (AfterInspect p c) = (settled g b \<and> (c \<longrightarrow> blocked b))"
| "pc_inv g b (ToPending t) = (settled g b \<and> target_ok t)"
| "pc_inv g b (PendingSet s t) = (settled g b \<and> claims_hold s b \<and> target_ok t)"
| "pc_inv g b (Calling t) = (settled g b \<and> Status (g_state g) = ''applying'' \<and> target_ok t)"
| "pc_inv g b (ToFail e) = settled g b"
| "pc_inv g b (FailSet s) = (settled g b \<and> claims_hold s b \<and> Status s = ''error'')"
| "pc_inv g b (ToConfirm s t) =
     (claims_hold s b \<and> tunnel_holds t b \<and> Status s \<noteq> ''active'' \<and> (settled g b \<or> Status (g_state g) = ''applying''))"

definition active_inv :: "guard \<Rightarrow> bool" where
  "active_inv g \<longleftrightarrow> (Status (g_state g) = ''active'' \<longrightarrow> Enforced (g_state g) \<and> g_tunnel g \<noteq> None)"

definition ginv :: "'b conf \<Rightarrow> bool" where
  "ginv c \<longleftrightarrow> (case c of (g, b, pc) \<Rightarrow> sane b \<and> pc_inv g b pc \<and> active_inv g)"

lemmas guard_simps = set_state_def confirm_def settled_def claims_hold_def tunnel_holds_def active_inv_def
  blocked_state_def off_state_def

lemma resolve_luid_frame:
  "be \<in> BE \<Longrightarrow> sane b \<Longrightarrow> resolve_luid be name address sp b = (r, b') \<Longrightarrow>
     sane b' \<and> enforces b' = enforces b \<and> blocked b' = blocked b"
  by (auto simp: resolve_luid_def dest: resolve split: if_splits prod.splits sum.splits)

lemma accepted_inv: "pc_inv g b pc \<Longrightarrow> pc_inv (Accepted g) b pc"
  by (cases pc) (auto simp: Accepted_def guard_simps)

lemma interrupted_inv: "pc_inv g b pc \<Longrightarrow> pc_inv (Interrupted g) b pc"
  by (cases pc) (auto simp: Interrupted_def guard_simps)

lemma settled_frame:
  "enforces b' = enforces b \<Longrightarrow> blocked b' = blocked b \<Longrightarrow> settled g b' = settled g b"
  by (simp add: guard_simps)

lemma ginv_step:
  assumes "gstep BE c c'" and "ginv c"
  shows "ginv c'"
  using assms
proof (induction rule: gstep.induct)
  case (recover_error be b e b' g)
  then show ?case using inspect [of be b "Inl e" b'] settled_frame [of b' b g] by (simp add: ginv_def)
next
  case (recover_inspect be b p c b' g)
  then show ?case using inspect [of be b "Inr (p, c)" b'] settled_frame [of b' b g] by (simp add: ginv_def)
next
  case (verify_error be name address sp b e b' g)
  then show ?case using resolve_luid_frame [of be b name address sp "Inl e" b'] settled_frame [of b' b g]
    by (simp add: ginv_def)
next
  case (verify_ok be name address sp b luid b' g)
  then show ?case using resolve_luid_frame [of be b name address sp "Inr luid" b'] settled_frame [of b' b g]
    by (simp add: ginv_def)
next
  case (replace_error be luid b e b' g t)
  then show ?case using guard_backend.replace_error [OF guard_backend_axioms, of be b luid e b'] settled_frame [of b' b g]
    by (simp add: ginv_def)
next
  case (replace_ok be luid b u b' g t)
  then have "sane b' \<and> enforces b' luid" using guard_backend.replace_ok [OF guard_backend_axioms] by (auto simp: ginv_def)
  then show ?case using replace_ok enforces_blocked by (auto simp: ginv_def guard_simps)
next
  case (remove_error be b e b' g)
  then show ?case using guard_backend.remove_error [OF guard_backend_axioms, of be b e b'] settled_frame [of b' b g]
    by (simp add: ginv_def)
next
  case (remove_ok be b u b' g)
  then show ?case using guard_backend.remove_ok [OF guard_backend_axioms, of be b u b'] by (simp add: ginv_def guard_simps)
next
  case (accepted g b pc)
  then show ?case using accepted_inv by (auto simp: ginv_def active_inv_def Accepted_def)
next
  case (interrupted g b pc)
  then show ?case using interrupted_inv by (auto simp: ginv_def active_inv_def Interrupted_def)
qed (auto simp: ginv_def guard_simps)

lemma ginv_reachable:
  assumes "(gstep BE)\<^sup>*\<^sup>* c c'" and "ginv c"
  shows "ginv c'"
  using assms by (induction rule: rtranclp_induct) (auto intro: ginv_step)

lemma ginv_New: "sane b \<Longrightarrow> ginv (New be, b, Idle)"
  by (auto simp: ginv_def guard_simps New_def)

end

section \<open>The operations are runs of steps\<close>

lemma step_run: "gstep BE a b \<Longrightarrow> (gstep BE)\<^sup>*\<^sup>* a b"
  by (rule r_into_rtranclp)

lemma step_then_run: "gstep BE a b \<Longrightarrow> (gstep BE)\<^sup>*\<^sup>* b c \<Longrightarrow> (gstep BE)\<^sup>*\<^sup>* a c"
  by (rule converse_rtranclp_into_rtranclp)

lemma run_then_step: "(gstep BE)\<^sup>*\<^sup>* a b \<Longrightarrow> gstep BE b c \<Longrightarrow> (gstep BE)\<^sup>*\<^sup>* a c"
  by (rule rtranclp.rtrancl_into_rtrancl)

lemma run_pending: "(gstep BE)\<^sup>*\<^sup>* (g, b, ToPending t) (pending g, b, Calling t)"
  unfolding pending_def by (rule step_then_run [OF pending_read step_run [OF pending_write]])

lemma run_fail: "(gstep BE)\<^sup>*\<^sup>* (g, b, ToFail e) (guard_fail e g, b, Idle)"
  unfolding guard_fail_def by (rule step_then_run [OF fail_read step_run [OF fail_write]])

lemma run_replace:
  assumes "be \<in> BE"
  shows "(gstep BE)\<^sup>*\<^sup>* (g, b, ToPending (TReplace l t))
    (case b_Replace be l b of
       (Inl e, b') \<Rightarrow> (guard_fail e (pending g), b', Idle)
     | (Inr _, b') \<Rightarrow> (confirm (blocked_state True) t (pending g), b', Idle))"
proof (cases "b_Replace be l b")
  case (Pair r b')
  show ?thesis
  proof (cases r)
    case (Inl e)
    with Pair have "gstep BE (pending g, b, Calling (TReplace l t)) (pending g, b', ToFail e)"
      using replace_error [OF assms] by blast
    then have "(gstep BE)\<^sup>*\<^sup>* (g, b, ToPending (TReplace l t)) (guard_fail e (pending g), b', Idle)"
      by (rule rtranclp_trans [OF run_pending step_then_run [OF _ run_fail]])
    then show ?thesis using Pair Inl by simp
  next
    case (Inr u)
    with Pair have "gstep BE (pending g, b, Calling (TReplace l t)) (pending g, b', ToConfirm (blocked_state True) t)"
      using replace_ok [OF assms] by blast
    then have "(gstep BE)\<^sup>*\<^sup>* (g, b, ToPending (TReplace l t)) (confirm (blocked_state True) t (pending g), b', Idle)"
      by (rule rtranclp_trans [OF run_pending step_then_run [OF _ step_run [OF confirm_write]]])
    then show ?thesis using Pair Inr by simp
  qed
qed

lemma prepare_run:
  assumes "be \<in> BE" and "prepare (Some be) (g, b) = (r, g', b')"
  shows "(gstep BE)\<^sup>*\<^sup>* (g, b, ToPending (TReplace 0 None)) (g', b', Idle)"
  using run_replace [OF assms(1), of g b 0 None] assms(2)
  by (auto simp: prepare_def Let_def split: prod.splits sum.splits)

lemma Prepare_run:
  assumes "be \<in> BE" and "Prepare (Some be) (g, b) = (r, g', b')"
  shows "(gstep BE)\<^sup>*\<^sup>* (g, b, Idle) (g', b', Idle)"
  using step_then_run [OF start_prepare prepare_run] assms by (simp add: Prepare_def)

lemma Recover_run:
  assumes "be \<in> BE" and rec: "Recover (Some be) (g, b) = (r, g', b')"
  shows "(gstep BE)\<^sup>*\<^sup>* (g, b, Idle) (g', b', Idle)"
proof (cases "b_Inspect be b")
  case (Pair i b1)
  show ?thesis
  proof (cases i)
    case (Inl e)
    then have "gstep BE (g, b, Idle) (g, b1, ToFail e)" using Pair recover_error [OF assms(1)] by blast
    then have "(gstep BE)\<^sup>*\<^sup>* (g, b, Idle) (guard_fail e g, b1, Idle)" by (rule step_then_run [OF _ run_fail])
    then show ?thesis using rec Pair Inl by (auto simp: Recover_def)
  next
    case (Inr pc)
    obtain p c where pc: "pc = (p, c)" by fastforce
    have st: "gstep BE (g, b, Idle) (g, b1, AfterInspect p c)"
      using Pair Inr pc recover_inspect [OF assms(1)] by blast
    show ?thesis
    proof (cases p)
      case False
      have "(gstep BE)\<^sup>*\<^sup>* (g, b1, AfterInspect False c) (confirm off_state None g, b1, Idle)"
        by (rule step_then_run [OF recover_absent step_run [OF confirm_write]])
      then show ?thesis using step_then_run [OF st] rec Pair Inr pc False by (auto simp: Recover_def)
    next
      case True
      then have "prepare (Some be) (set_state (blocked_state c) g, b1) = (r, g', b')"
        using rec Pair Inr pc by (simp add: Recover_def)
      from step_then_run [OF recover_present prepare_run [OF assms(1) this]] show ?thesis
        using step_then_run [OF st] True by simp
    qed
  qed
qed

lemma VerifyTunnel_run:
  assumes "be \<in> BE" and ver: "VerifyTunnel (Some be) name address sp (g, b) = (r, g', b')"
  shows "(gstep BE)\<^sup>*\<^sup>* (g, b, Idle) (g', b', Idle)"
proof (cases "resolve_luid be name address sp b")
  case (Pair i b1)
  show ?thesis
  proof (cases i)
    case (Inl e)
    then have "gstep BE (g, b, Idle) (g, b1, ToFail e)" using Pair verify_error [OF assms(1)] by blast
    then have "(gstep BE)\<^sup>*\<^sup>* (g, b, Idle) (guard_fail e g, b1, Idle)" by (rule step_then_run [OF _ run_fail])
    then show ?thesis using ver Pair Inl by (auto simp: VerifyTunnel_def)
  next
    case (Inr luid)
    let ?t = "Some \<lparr>vt_name = name, vt_address = address, vt_luid = luid\<rparr>"
    have "gstep BE (g, b, Idle) (g, b1, ToPending (TReplace luid ?t))"
      using Pair Inr verify_ok [OF assms(1)] by blast
    from step_then_run [OF this run_replace [OF assms(1)]] show ?thesis
      using ver Pair Inr by (auto simp: VerifyTunnel_def Let_def split: prod.splits sum.splits)
  qed
qed

lemma Release_run:
  assumes "be \<in> BE" and rel: "Release (Some be) (g, b) = (r, g', b')"
  shows "(gstep BE)\<^sup>*\<^sup>* (g, b, Idle) (g', b', Idle)"
proof (cases "b_Remove be b")
  case (Pair i b1)
  have st: "(gstep BE)\<^sup>*\<^sup>* (g, b, Idle) (pending g, b, Calling TRemove)"
    by (rule step_then_run [OF start_release run_pending])
  show ?thesis
  proof (cases i)
    case (Inl e)
    then have "gstep BE (pending g, b, Calling TRemove) (pending g, b1, ToFail e)"
      using Pair remove_error [OF assms(1)] by blast
    then have "(gstep BE)\<^sup>*\<^sup>* (g, b, Idle) (guard_fail e (pending g), b1, Idle)"
      by (rule rtranclp_trans [OF st step_then_run [OF _ run_fail]])
    then show ?thesis using rel Pair Inl by (auto simp: Release_def Let_def)
  next
    case (Inr u)
    then have "gstep BE (pending g, b, Calling TRemove) (pending g, b1, ToConfirm off_state None)"
      using Pair remove_ok [OF assms(1)] by blast
    then have "(gstep BE)\<^sup>*\<^sup>* (g, b, Idle) (confirm off_state None (pending g), b1, Idle)"
      by (rule rtranclp_trans [OF st step_then_run [OF _ step_run [OF confirm_write]]])
    then show ?thesis using rel Pair Inr by (auto simp: Release_def Let_def)
  qed
qed

text \<open>A sequence of commands, each with the backend's behaviour during it.\<close>

datatype 'b command =
    CRecover "'b backend"
  | CPrepare "'b backend"
  | CVerify "'b backend" string string bool
  | CRelease "'b backend"
  | CReject string
  | CAccepted
  | CInterrupted

fun behaviour :: "'b command \<Rightarrow> 'b backend option" where
  "behaviour (CRecover be) = Some be"
| "behaviour (CPrepare be) = Some be"
| "behaviour (CVerify be n a s) = Some be"
| "behaviour (CRelease be) = Some be"
| "behaviour (CReject e) = None"
| "behaviour CAccepted = None"
| "behaviour CInterrupted = None"

fun execute :: "'b command \<Rightarrow> guard \<times> 'b \<Rightarrow> guard \<times> 'b" where
  "execute (CRecover be) gb = snd (Recover (Some be) gb)"
| "execute (CPrepare be) gb = snd (Prepare (Some be) gb)"
| "execute (CVerify be n a s) gb = snd (VerifyTunnel (Some be) n a s gb)"
| "execute (CRelease be) gb = snd (Release (Some be) gb)"
| "execute (CReject e) gb = (snd (Reject e (fst gb)), snd gb)"
| "execute CAccepted gb = (Accepted (fst gb), snd gb)"
| "execute CInterrupted gb = (Interrupted (fst gb), snd gb)"

lemma execute_run:
  assumes "\<forall>be. behaviour c = Some be \<longrightarrow> be \<in> BE" and "execute c (g, b) = (g', b')"
  shows "(gstep BE)\<^sup>*\<^sup>* (g, b, Idle) (g', b', Idle)"
proof (cases c)
  case (CReject e)
  then have "(gstep BE)\<^sup>*\<^sup>* (g, b, ToFail e) (g', b', Idle)"
    using run_fail [of BE g b e] assms(2) by (simp add: Reject_def)
  with start_reject show ?thesis by (rule step_then_run)
next
  case (CRecover be)
  then show ?thesis
    using assms Recover_run [of be BE g b "fst (Recover (Some be) (g, b))" g' b'] by (simp add: prod_eq_iff)
next
  case (CPrepare be)
  then show ?thesis
    using assms Prepare_run [of be BE g b "fst (Prepare (Some be) (g, b))" g' b'] by (simp add: prod_eq_iff)
next
  case (CVerify be n a sp)
  then show ?thesis
    using assms VerifyTunnel_run [of be BE n a sp g b "fst (VerifyTunnel (Some be) n a sp (g, b))" g' b']
    by (simp add: prod_eq_iff)
next
  case (CRelease be)
  then show ?thesis
    using assms Release_run [of be BE g b "fst (Release (Some be) (g, b))" g' b'] by (simp add: prod_eq_iff)
next
  case CAccepted
  then show ?thesis using assms(2) step_run [OF accepted, of BE g b Idle] by simp
next
  case CInterrupted
  then show ?thesis using assms(2) step_run [OF interrupted, of BE g b Idle] by simp
qed

section \<open>The Windows filter engine as the backend\<close>

text \<open>
  One behaviour of the Windows backend: which native calls fail, what the executable identities and
  the interface identity resolve to.
\<close>

definition wfp_backend ::
  "(string \<Rightarrow> guid) \<Rightarrow> (string \<Rightarrow> (8 word list \<times> nat) option) \<Rightarrow>
   fate \<times> (string + identities) \<times> (string \<Rightarrow> string \<Rightarrow> string + 64 word) \<Rightarrow> kernel backend" where
  "wfp_backend sha v6 env =
     (case env of (fate, ids, resolve) \<Rightarrow>
       \<lparr>b_Inspect = wfp_Inspect fate sha,
        b_Replace = wfp_Replace fate sha v6 ids,
        b_ResolveTunnel = (\<lambda>name address k. (resolve name address, k)),
        b_Remove = wfp_Remove fate\<rparr>)"

definition wfp_backends ::
  "(string \<Rightarrow> guid) \<Rightarrow> (string \<Rightarrow> (8 word list \<times> nat) option) \<Rightarrow> kernel backend set" where
  "wfp_backends sha v6 = range (wfp_backend sha v6)"

definition wfp_enforces ::
  "(string \<Rightarrow> guid) \<Rightarrow> (string \<Rightarrow> (8 word list \<times> nat) option) \<Rightarrow> kernel \<Rightarrow> 64 word \<Rightarrow> bool" where
  "wfp_enforces sha v6 k luid \<longleftrightarrow> (\<exists>i. installed sha i v6 luid k)"

lemma installed_objs: "objs k' = objs k \<Longrightarrow> installed sha i v6 luid k' = installed sha i v6 luid k"
  by (simp add: installed_def objs_def)

lemma wfp_enforces_objs:
  assumes "objs k' = objs k"
  shows "wfp_enforces sha v6 k' = wfp_enforces sha v6 k"
  by (rule ext) (simp add: wfp_enforces_def installed_objs [OF assms])

lemma default_blocks_objs: "objs k' = objs k \<Longrightarrow> default_blocks sha k' = default_blocks sha k"
  by (simp add: default_blocks_def objs_def)

lemma installed_default_blocks:
  assumes "installed sha ids v6 luid k"
  shows "default_blocks sha k"
  unfolding default_blocks_def
proof
  fix l assume l: "l \<in> set Layers"
  let ?r = "mk_rule l ''block'' 1 False []"
  have "compiled sha ids v6 ?r \<in> set (map (compiled sha ids v6) (Policy luid))"
    using block_in_Policy [OF l, of luid] by simp
  then have "compiled sha ids v6 ?r \<in> set (filter owned (k_filters k))"
    using assms by (simp only: installed_def)
  then show "\<exists>f\<in>set (k_filters k). owned f \<and> is_default_block sha ?r (info_of f)"
    using compiled_default_block by (intro bexI [of _ "compiled sha ids v6 ?r"]) auto
qed

lemma wfp_frame:
  assumes "objs k' = objs k" and "wf_kernel k"
  shows "wf_kernel k' \<and> wfp_enforces sha v6 k' = wfp_enforces sha v6 k \<and> default_blocks sha k' = default_blocks sha k"
  using assms wf_kernel_objs [OF assms(1)] wfp_enforces_objs [OF assms(1)] default_blocks_objs [OF assms(1)] by simp

interpretation wfp: guard_backend "wfp_backends sha v6" wf_kernel "wfp_enforces sha v6" "default_blocks sha"
  for sha v6
proof
  fix be :: "kernel backend" and b b' l u e r r' name address
  show "wfp_enforces sha v6 b l \<Longrightarrow> default_blocks sha b"
    using installed_default_blocks by (auto simp: wfp_enforces_def)
  assume "be \<in> wfp_backends sha v6"
  then obtain fate ids res where be: "be = wfp_backend sha v6 (fate, ids, res)"
    by (auto simp: wfp_backends_def)
  assume wf: "wf_kernel b"
  show "wf_kernel b' \<and> wfp_enforces sha v6 b' l" if "b_Replace be l b = (Inr u, b')"
    using Replace_Inr [of fate sha v6 ids l b u b'] wf that by (auto simp: be wfp_backend_def wfp_enforces_def)
  show "wf_kernel b' \<and> wfp_enforces sha v6 b' = wfp_enforces sha v6 b \<and> default_blocks sha b' = default_blocks sha b"
    if "b_Replace be l b = (Inl e, b')"
    using wfp_frame [OF Replace_fail_atomic wf] that by (simp add: be wfp_backend_def)
  show "wf_kernel b'" if "b_Remove be b = (Inr u, b')"
    using Remove_Inr [of fate b u b'] wf that by (auto simp: be wfp_backend_def)
  show "wf_kernel b' \<and> wfp_enforces sha v6 b' = wfp_enforces sha v6 b \<and> default_blocks sha b' = default_blocks sha b"
    if "b_Remove be b = (Inl e, b')"
    using wfp_frame [OF Remove_fail_atomic wf] that by (simp add: be wfp_backend_def)
  show "wf_kernel b' \<and> wfp_enforces sha v6 b' = wfp_enforces sha v6 b \<and> default_blocks sha b' = default_blocks sha b \<and>
      (\<forall>p. r = Inr (p, True) \<longrightarrow> default_blocks sha b)" if "b_Inspect be b = (r, b')"
  proof -
    have run: "wfp_Inspect fate sha b = (r, b')" using that by (simp add: be wfp_backend_def)
    then have "default_blocks sha b" if "r = Inr (p, True)" for p
      using Inspect_sound [of fate sha b p True b'] that by simp
    then show ?thesis using wfp_frame [OF readonlyD [OF readonly_Inspect run] wf] by blast
  qed
  show "wf_kernel b' \<and> wfp_enforces sha v6 b' = wfp_enforces sha v6 b \<and> default_blocks sha b' = default_blocks sha b"
    if "b_ResolveTunnel be name address b = (r', b')"
    using wf that by (auto simp: be wfp_backend_def)
qed

section \<open>What the guard may claim\<close>

lemma active_settled:
  assumes "wfp.ginv sha v6 (g, k, pc)" and "Status (g_state g) = ''active''"
  shows "\<exists>t. g_tunnel g = Some t \<and> Enforced (g_state g) \<and> wfp_enforces sha v6 k (vt_luid t) \<and> default_blocks sha k"
proof -
  have "wfp.settled sha v6 g k"
    using assms by (cases pc) (auto simp: wfp.ginv_def)
  moreover obtain t where "g_tunnel g = Some t" "Enforced (g_state g)"
    using assms by (auto simp: wfp.ginv_def wfp.active_inv_def)
  ultimately show ?thesis by (auto simp: wfp.settled_def wfp.claims_hold_def wfp.tunnel_holds_def)
qed

lemma active_run_enforced:
  assumes "wf_kernel k0" and "(gstep (wfp_backends sha v6))\<^sup>*\<^sup>* (New be, k0, Idle) (g, k, pc)"
    and "Status (g_state g) = ''active''"
  shows "\<exists>t i. g_tunnel g = Some t \<and> Enforced (g_state g) \<and>
    (\<forall>l w. (kernel_permits k l w \<longleftrightarrow> guarded_access (vt_luid t) l (flow_of i v6 l w)) \<and>
           (kernel_blocks k l w \<longleftrightarrow> \<not> guarded_access (vt_luid t) l (flow_of i v6 l w)))"
proof -
  from active_settled [OF wfp.ginv_reachable [OF assms(2) wfp.ginv_New [OF assms(1)]] assms(3)]
  obtain t i where "g_tunnel g = Some t" "Enforced (g_state g)" "installed sha i v6 (vt_luid t) k"
    by (auto simp: wfp_enforces_def)
  then show ?thesis using kernel_decision Policy_verdict by metis
qed

text \<open>C1. The guard is active only when it protects. In every interleaving of commands, acceptances and
  interruptions, whatever native calls fail on the way: while the guard reports \<open>active\<close>, a verified
  tunnel is recorded and the filter engine permits exactly what the policy for that tunnel grants and
  blocks everything else.\<close>

theorem active_means_enforced:
  assumes "wf_kernel k0" and "(gstep (wfp_backends sha v6))\<^sup>*\<^sup>* (New be, k0, Idle) (g, k, pc)"
    and "Status (g_state g) = ''active''"
  shows "\<exists>t i. g_tunnel g = Some t \<and> Enforced (g_state g) \<and>
    (\<forall>l w. (kernel_permits k l w \<longleftrightarrow> guarded_access (vt_luid t) l (flow_of i v6 l w)) \<and>
           (kernel_blocks k l w \<longleftrightarrow> \<not> guarded_access (vt_luid t) l (flow_of i v6 l w)))"
  using assms by (rule active_run_enforced)

lemma commands_run:
  assumes "list_all (\<lambda>c. \<forall>be. behaviour c = Some be \<longrightarrow> be \<in> BE) cs"
  shows "(gstep BE)\<^sup>*\<^sup>* (fst gb, snd gb, Idle) (fst (fold execute cs gb), snd (fold execute cs gb), Idle)"
  using assms
proof (induction cs arbitrary: gb)
  case Nil
  then show ?case by simp
next
  case (Cons c cs)
  have "(gstep BE)\<^sup>*\<^sup>* (fst gb, snd gb, Idle) (fst (execute c gb), snd (execute c gb), Idle)"
    using execute_run [of c BE "fst gb" "snd gb"] Cons.prems by simp
  then show ?case using Cons.IH [of "execute c gb"] Cons.prems by (auto intro: rtranclp_trans)
qed

text \<open>The guard never overstates its protection. After any sequence of commands, each completing or
  failing at any native call, a reported \<open>Enforced\<close> means the default block of all four layers is
  installed, and \<open>active\<close> means moreover that the policy of the recorded tunnel is in force.\<close>

theorem commands_never_overclaim:
  assumes "wf_kernel k0" and "list_all (\<lambda>c. \<forall>be. behaviour c = Some be \<longrightarrow> be \<in> wfp_backends sha v6) cs"
    and "fold execute cs (New be, k0) = (g, k)"
  shows "(Enforced (g_state g) \<longrightarrow> default_blocks sha k) \<and>
    (Status (g_state g) = ''active'' \<longrightarrow> (\<exists>t. g_tunnel g = Some t \<and> wfp_enforces sha v6 k (vt_luid t)))"
proof -
  have "(gstep (wfp_backends sha v6))\<^sup>*\<^sup>* (New be, k0, Idle) (g, k, Idle)"
    using commands_run [OF assms(2), of "(New be, k0)"] assms(3) by simp
  from wfp.ginv_reachable [OF this wfp.ginv_New [OF assms(1)]] have "wfp.ginv sha v6 (g, k, Idle)" .
  then show ?thesis
    by (auto simp: wfp.ginv_def wfp.settled_def wfp.claims_hold_def wfp.tunnel_holds_def wfp.active_inv_def)
qed

text \<open>C21. A failed command keeps the last confirmed protection: when verifying a tunnel, preparing or
  releasing fails, the filters, the recorded tunnel and the enforcement flags are what they were, and
  the error is reported.\<close>

theorem failure_keeps_protection:
  assumes "be = wfp_backend sha v6 env"
    and "VerifyTunnel (Some be) name address sp (g, k) = (Inl e, g', k') \<or>
         Prepare (Some be) (g, k) = (Inl e, g', k') \<or> Release (Some be) (g, k) = (Inl e, g', k')"
  shows "objs k' = objs k \<and> g_tunnel g' = g_tunnel g \<and> Enforced (g_state g') = Enforced (g_state g) \<and>
    Persistent (g_state g') = Persistent (g_state g) \<and> Status (g_state g') = ''error'' \<and> Error (g_state g') = e"
proof -
  obtain fate ids res where be: "be = wfp_backend sha v6 (fate, ids, res)" using assms(1) by (cases env) auto
  have rl: "resolve_luid be name address sp k = (r, k1) \<Longrightarrow> k1 = k" for r k1
    by (auto simp: resolve_luid_def be wfp_backend_def split: if_splits sum.splits)
  from assms(2) show ?thesis
    using rl Replace_fail_atomic Remove_fail_atomic
    by (auto simp: VerifyTunnel_def Prepare_def prepare_def Release_def Let_def be wfp_backend_def
        guard_fail_def pending_def set_state_def split: prod.splits sum.splits)
qed

definition ex_backend :: "kernel backend" where
  "ex_backend = wfp_backend (\<lambda>s. s) ex_v6 (no_failure, Inr ex_ids, \<lambda>n a. Inr 7)"

definition ex_commands :: "kernel command list" where
  "ex_commands = [CVerify ex_backend ''tun'' ''10.0.0.1/30'' False, CAccepted]"

lemma ex_behaviour:
  "list_all (\<lambda>c. \<forall>be. behaviour c = Some be \<longrightarrow> be \<in> wfp_backends (\<lambda>s. s) ex_v6) ex_commands"
  by (simp add: ex_commands_def ex_backend_def wfp_backends_def)

lemma ex_active:
  "\<exists>k. fold execute ex_commands (New be, empty_kernel) =
    (\<lparr>g_state = \<lparr>Status = ''active'', Enforced = True, Persistent = True, Error = []\<rparr>,
      g_tunnel = Some \<lparr>vt_name = ''tun'', vt_address = ''10.0.0.1/30'', vt_luid = 7\<rparr>,
      g_legacyEngineOnly = False\<rparr>, k)"
proof -
  have "ids_ok ex_ids" "inj (\<lambda>s :: string. s)"
    by (auto simp: ids_ok_def ex_ids_def Core_def Engine_def DHCP_def)
  then obtain k where "wfp_Replace no_failure (\<lambda>s. s) ex_v6 (Inr ex_ids) 7 empty_kernel = (Inr (), k)"
    using Replace_succeeds [of ex_ids ex_v6 "\<lambda>s. s" 7] by (auto simp: ex_v6_def)
  then show ?thesis
    by (simp add: ex_commands_def VerifyTunnel_def resolve_luid_def ex_backend_def wfp_backend_def New_def
        pending_def set_state_def confirm_def blocked_state_def Accepted_def)
qed

lemma wf_empty_kernel: "wf_kernel empty_kernel"
  by (simp add: wf_kernel_def empty_kernel_def)

lemma active_means_enforced_witness:
  "\<exists>g k. (gstep (wfp_backends (\<lambda>s. s) ex_v6))\<^sup>*\<^sup>* (New (Some ex_backend), empty_kernel, Idle) (g, k, Idle) \<and>
     Status (g_state g) = ''active'' \<and> Enforced (g_state g)"
proof -
  obtain g k where f: "fold execute ex_commands (New (Some ex_backend), empty_kernel) = (g, k)"
    and a: "Status (g_state g) = ''active''"
    using ex_active by fastforce
  have run: "(gstep (wfp_backends (\<lambda>s. s) ex_v6))\<^sup>*\<^sup>* (New (Some ex_backend), empty_kernel, Idle) (g, k, Idle)"
    using commands_run [OF ex_behaviour, of "(New (Some ex_backend), empty_kernel)"] f by simp
  from active_means_enforced [OF wf_empty_kernel run a] show ?thesis using run a by blast
qed

lemma commands_never_overclaim_witness:
  "\<exists>g k. fold execute ex_commands (New (Some ex_backend), empty_kernel) = (g, k) \<and>
     Status (g_state g) = ''active'' \<and> default_blocks (\<lambda>s. s) k \<and> g_tunnel g \<noteq> None"
proof -
  obtain g k where f: "fold execute ex_commands (New (Some ex_backend), empty_kernel) = (g, k)"
    and a: "Status (g_state g) = ''active'' \<and> Enforced (g_state g)"
    using ex_active by fastforce
  from commands_never_overclaim [OF wf_empty_kernel ex_behaviour f] a
  have "default_blocks (\<lambda>s. s) k" "g_tunnel g \<noteq> None" by auto
  then show ?thesis using f a by (intro exI [of _ g] exI [of _ k]) simp
qed

lemma failure_keeps_protection_witness:
  "\<exists>g' k'. Prepare (Some (wfp_backend (\<lambda>s. s) ex_v6 (no_failure, Inl ''untrusted'', \<lambda>n a. Inr 7)))
       (New (Some ex_backend), empty_kernel) = (Inl ''untrusted'', g', k') \<and> Status (g_state g') = ''error''"
proof -
  let ?be = "wfp_backend (\<lambda>s. s) ex_v6 (no_failure, Inl ''untrusted'', \<lambda>n a. Inr 7)"
  obtain r g' k' where p: "Prepare (Some ?be) (New (Some ex_backend), empty_kernel) = (r, g', k')"
    by (metis prod_cases3)
  have "r = Inl ''untrusted''"
    using p by (simp add: Prepare_def prepare_def Let_def wfp_backend_def wfp_Replace_def failE_def)
  with p failure_keeps_protection [OF refl, of "\<lambda>s. s" ex_v6 "(no_failure, Inl ''untrusted'', \<lambda>n a. Inr 7)"
      "[]" "[]" False "New (Some ex_backend)" empty_kernel "''untrusted''" g' k'] show ?thesis by blast
qed

end
