(* ===== verification/Profile_Store.thy ===== *)
theory Profile_Store
  imports Go_Lib Node_Model
begin

unbundle bit_operations_syntax

text \<open>
  Profiles and their persistence (\<^verbatim>\<open>core/profile/profile.go\<close> and \<^verbatim>\<open>store.go\<close>): the stable identity of a
  server and the store that keeps every profile in one JSON file.  JSON is a parameter: \<open>enc\<close> is
  \<^verbatim>\<open>json.MarshalIndent\<close> and \<open>dec\<close> is \<^verbatim>\<open>json.Unmarshal\<close> of a profile list; so are SHA-256 (\<open>sha\<close>) and the
  random profile identifier.  Times are integers.  The file system is the content of the profile
  file and of the temporary file beside it; \<open>fault\<close> says at which system call a save fails, if it does.
\<close>

section \<open>Server identity\<close>

record server =
  SrvID :: string
  SrvNode :: node

record profile =
  ID :: string
  PName :: string
  Source :: string
  URL :: string
  Servers :: "server list"
  UpdatedAt :: int
  ExpiresAt :: "int option"
  TrafficUsed :: int
  TrafficTotal :: int
  Managed :: bool
  Tier :: string

definition SourceSubscription :: string where "SourceSubscription = ''subscription''"
definition SourceManual :: string where "SourceManual = ''manual''"

text \<open>\<^verbatim>\<open>writeField\<close>: eight bytes of length, least significant first, and the field's bytes.\<close>

fun length_prefix :: "nat \<Rightarrow> nat \<Rightarrow> 8 word list" where
  "length_prefix 0 n = []"
| "length_prefix (Suc i) n = word_of_nat n # length_prefix i (n div 2 ^ 8)"

definition writeField :: "8 word list \<Rightarrow> string \<Rightarrow> 8 word list" where
  "writeField h s = h @ length_prefix 8 (length s) @ map byte_of s"

definition server_fields :: "node \<Rightarrow> string list" where
  "server_fields n =
     [Protocol n, Server n, int_str (Port n), UUID n, Password n, Method n] @
     (case WireGuard n of Some w \<Rightarrow> [PrivateKey w, PeerPublicKey w] | None \<Rightarrow> [[], []]) @
     (case TLS n of
        Some t \<Rightarrow> (case Reality t of Some r \<Rightarrow> [PublicKey r, ShortID r] | None \<Rightarrow> [[], []])
      | None \<Rightarrow> [[], []]) @
     (case Transport n of Some t \<Rightarrow> [TrType t, TrPath t, TrServiceName t] | None \<Rightarrow> [[], [], []])"

definition hashed_bytes :: "node \<Rightarrow> 8 word list" where
  "hashed_bytes n = foldl writeField [] (server_fields n)"

definition hex_digit :: "nat \<Rightarrow> char" where
  "hex_digit d = ''0123456789abcdef'' ! d"

definition hex :: "8 word list \<Rightarrow> string" where
  "hex bs = concat (map (\<lambda>b. [hex_digit (unat b div 16), hex_digit (unat b mod 16)]) bs)"

definition serverID :: "(8 word list \<Rightarrow> 8 word list) \<Rightarrow> node \<Rightarrow> string" where
  "serverID sha n = hex (take 8 (sha (hashed_bytes n)))"

text \<open>A nil slice and an empty one differ only in the JSON they produce; both are the empty list here.\<close>

definition assignServerIDs :: "(8 word list \<Rightarrow> 8 word list) \<Rightarrow> node list \<Rightarrow> server list" where
  "assignServerIDs sha nodes = map (\<lambda>n. \<lparr>SrvID = serverID sha n, SrvNode = n\<rparr>) nodes"

text \<open>\<open>random\<close> is what the random source yields for the profile's identifier.\<close>

definition newProfileID :: "string + 8 word list \<Rightarrow> string + string" where
  "newProfileID random =
     (case random of Inl e \<Rightarrow> Inl (''generate profile ident: '' @ e) | Inr b \<Rightarrow> Inr (hex b))"

definition NewProfile ::
  "(8 word list \<Rightarrow> 8 word list) \<Rightarrow> string + 8 word list \<Rightarrow> int \<Rightarrow> string \<Rightarrow> string \<Rightarrow> string \<Rightarrow> node list \<Rightarrow> string + profile" where
  "NewProfile sha random now name source url nodes =
     (case newProfileID random of
        Inl e \<Rightarrow> Inl e
      | Inr ident \<Rightarrow>
          Inr \<lparr>ID = ident, PName = name, Source = source, URL = url, Servers = assignServerIDs sha nodes,
            UpdatedAt = now, ExpiresAt = None, TrafficUsed = 0, TrafficTotal = 0, Managed = False, Tier = []\<rparr>)"

section \<open>The store\<close>

datatype store_error =
    EmptyDir
  | EmptyId
  | ErrNotFound string
  | ErrExists string
  | EncodeError string
  | SaveError nat
  | ParseError string
  | ReadError string

record fs =
  target :: "8 word list option"
  temp :: "8 word list option"

record store =
  profiles :: "profile list"
  disk :: fs

text \<open>The system calls of \<^verbatim>\<open>save\<close> after encoding, in order.\<close>

datatype save_call = CreateTemp | WriteTemp | SyncTemp | CloseTemp | RenameTemp

fun do_call :: "8 word list \<Rightarrow> save_call \<Rightarrow> fs \<Rightarrow> fs" where
  "do_call data CreateTemp d = d\<lparr>temp := Some []\<rparr>"
| "do_call data WriteTemp d = d\<lparr>temp := Some data\<rparr>"
| "do_call data SyncTemp d = d"
| "do_call data CloseTemp d = d"
| "do_call data RenameTemp d = d\<lparr>target := temp d, temp := None\<rparr>"

definition save_calls :: "save_call list" where
  "save_calls = [CreateTemp, WriteTemp, SyncTemp, CloseTemp, RenameTemp]"

text \<open>
  The file system after \<open>n\<close> of the calls: what a crash at that point leaves behind, up to how much of
  the temporary file was written.
\<close>

definition after_calls :: "8 word list \<Rightarrow> nat \<Rightarrow> fs \<Rightarrow> fs" where
  "after_calls data n d = fold (do_call data) (take n save_calls) d"

definition save :: "(profile list \<Rightarrow> string + 8 word list) \<Rightarrow> nat option \<Rightarrow> store \<Rightarrow> (store_error + unit) \<times> store" where
  "save enc fault s =
     (case enc (profiles s) of
        Inl e \<Rightarrow> (Inl (EncodeError e), s)
      | Inr data \<Rightarrow>
          (case fault of
             None \<Rightarrow> (Inr (), s\<lparr>disk := (after_calls data (length save_calls) (disk s))\<lparr>temp := None\<rparr>\<rparr>)
           | Some n \<Rightarrow>
               if n < length save_calls
               then (Inl (SaveError n), s\<lparr>disk := (after_calls data n (disk s))\<lparr>temp := None\<rparr>\<rparr>)
               else (Inr (), s\<lparr>disk := (after_calls data (length save_calls) (disk s))\<lparr>temp := None\<rparr>\<rparr>)))"

definition store_load :: "(8 word list \<Rightarrow> string + profile list) \<Rightarrow> string option \<Rightarrow> fs \<Rightarrow> store_error + profile list" where
  "store_load dec readerr d =
     (case target d of
        None \<Rightarrow> Inr []
      | Some data \<Rightarrow>
          (case readerr of
             Some e \<Rightarrow> Inl (ReadError e)
           | None \<Rightarrow>
               if length data = 0 then Inr []
               else (case dec data of Inl e \<Rightarrow> Inl (ParseError e) | Inr ps \<Rightarrow> Inr ps)))"

definition Open :: "(8 word list \<Rightarrow> string + profile list) \<Rightarrow> string option \<Rightarrow> string \<Rightarrow> fs \<Rightarrow> store_error + store" where
  "Open dec readerr dir d =
     (if dir = [] then Inl EmptyDir
      else case store_load dec readerr d of
             Inl e \<Rightarrow> Inl e
           | Inr ps \<Rightarrow> Inr \<lparr>profiles = ps, disk = d\<rparr>)"

definition List :: "store \<Rightarrow> profile list" where
  "List s = profiles s"

definition indexOf :: "store \<Rightarrow> string \<Rightarrow> nat option" where
  "indexOf s ident = find_index (\<lambda>p. ID p = ident) (profiles s)"

definition Get :: "store \<Rightarrow> string \<Rightarrow> profile option" where
  "Get s ident = (case indexOf s ident of None \<Rightarrow> None | Some i \<Rightarrow> Some (profiles s ! i))"

definition Add :: "(profile list \<Rightarrow> string + 8 word list) \<Rightarrow> nat option \<Rightarrow> profile \<Rightarrow> store \<Rightarrow> (store_error + unit) \<times> store" where
  "Add enc fault p s =
     (if ID p = [] then (Inl EmptyId, s)
      else if indexOf s (ID p) \<noteq> None then (Inl (ErrExists (ID p)), s)
      else case save enc fault (s\<lparr>profiles := profiles s @ [p]\<rparr>) of
             (Inl e, s') \<Rightarrow> (Inl e, s'\<lparr>profiles := take (length (profiles s') - 1) (profiles s')\<rparr>)
           | (Inr u, s') \<Rightarrow> (Inr u, s'))"

definition Update :: "(profile list \<Rightarrow> string + 8 word list) \<Rightarrow> nat option \<Rightarrow> profile \<Rightarrow> store \<Rightarrow> (store_error + unit) \<times> store" where
  "Update enc fault p s =
     (if ID p = [] then (Inl EmptyId, s)
      else case indexOf s (ID p) of
             None \<Rightarrow> (Inl (ErrNotFound (ID p)), s)
           | Some i \<Rightarrow>
               (let prev = profiles s ! i
                in case save enc fault (s\<lparr>profiles := (profiles s)[i := p]\<rparr>) of
                     (Inl e, s') \<Rightarrow> (Inl e, s'\<lparr>profiles := (profiles s')[i := prev]\<rparr>)
                   | (Inr u, s') \<Rightarrow> (Inr u, s')))"

definition zero_profile :: profile where
  "zero_profile = \<lparr>ID = [], PName = [], Source = [], URL = [], Servers = [], UpdatedAt = 0, ExpiresAt = None,
     TrafficUsed = 0, TrafficTotal = 0, Managed = False, Tier = []\<rparr>"

text \<open>\<^verbatim>\<open>copy(xs[i+1:], xs[i:])\<close>: the elements from \<open>i\<close> on, moved up by one as far as there is room.\<close>

definition copy_up :: "nat \<Rightarrow> 'a list \<Rightarrow> 'a list" where
  "copy_up i xs = take (Suc i) xs @ take (length xs - Suc i) (drop i xs)"

definition Remove :: "(profile list \<Rightarrow> string + 8 word list) \<Rightarrow> nat option \<Rightarrow> string \<Rightarrow> store \<Rightarrow> (store_error + unit) \<times> store" where
  "Remove enc fault ident s =
     (case indexOf s ident of
        None \<Rightarrow> (Inl (ErrNotFound ident), s)
      | Some i \<Rightarrow>
          (let removed = profiles s ! i
           in case save enc fault (s\<lparr>profiles := take i (profiles s) @ drop (Suc i) (profiles s)\<rparr>) of
                (Inl e, s') \<Rightarrow>
                  (Inl e, s'\<lparr>profiles := (copy_up i (profiles s' @ [zero_profile]))[i := removed]\<rparr>)
              | (Inr u, s') \<Rightarrow> (Inr u, s')))"

section \<open>Saving\<close>

lemma after_calls_target:
  "target (after_calls data n d) = (if length save_calls \<le> n then Some data else target d)"
proof (cases "length save_calls \<le> n")
  case True
  then show ?thesis by (simp add: after_calls_def save_calls_def)
next
  case False
  then have "n = 0 \<or> n = 1 \<or> n = 2 \<or> n = 3 \<or> n = 4" by (auto simp: save_calls_def)
  then show ?thesis by (auto simp: after_calls_def save_calls_def)
qed

lemma save_Inl:
  assumes "save enc fault s = (Inl e, s')"
  shows "profiles s' = profiles s \<and> target (disk s') = target (disk s)"
  using assms by (auto simp: save_def after_calls_target split: sum.splits option.splits if_splits)

lemma save_Inr:
  assumes "save enc fault s = (Inr u, s')"
  shows "profiles s' = profiles s \<and> (\<exists>data. enc (profiles s) = Inr data \<and> target (disk s') = Some data)"
  using assms by (auto simp: save_def after_calls_target split: sum.splits option.splits if_splits)

lemma indexOf_Some:
  "indexOf s ident = Some i \<Longrightarrow> i < length (profiles s) \<and> ID (profiles s ! i) = ident"
  unfolding indexOf_def by (auto dest: find_index_less find_index_sat)

lemma indexOf_None: "indexOf s ident = None \<longleftrightarrow> ident \<notin> ID ` set (profiles s)"
  by (auto simp: indexOf_def)

lemma restore_removed:
  assumes "i < length xs"
  shows "(copy_up i (take i xs @ drop (Suc i) xs @ [z]))[i := xs ! i] = xs"
proof -
  have "copy_up i (take i xs @ drop (Suc i) xs @ [z]) =
      take (Suc i) (take i xs @ drop (Suc i) xs @ [z]) @ drop (Suc i) xs"
    using assms by (simp add: copy_up_def min_def Suc_diff_Suc)
  moreover have "take (Suc i) (take i xs @ drop (Suc i) xs @ [z]) = take i xs @ [hd (drop (Suc i) xs @ [z])]"
    using assms by (cases "drop (Suc i) xs") (simp_all add: min_def Suc_diff_le)
  ultimately have "copy_up i (take i xs @ drop (Suc i) xs @ [z]) =
      take i xs @ hd (drop (Suc i) xs @ [z]) # drop (Suc i) xs" by simp
  then show ?thesis
    using assms by (simp add: list_update_append min_def id_take_nth_drop [symmetric])
qed

section \<open>Operations\<close>

datatype store_op = OpAdd profile | OpUpdate profile | OpRemove string

fun run_op :: "(profile list \<Rightarrow> string + 8 word list) \<Rightarrow> nat option \<Rightarrow> store_op \<Rightarrow> store \<Rightarrow> (store_error + unit) \<times> store" where
  "run_op enc fault (OpAdd p) s = Add enc fault p s"
| "run_op enc fault (OpUpdate p) s = Update enc fault p s"
| "run_op enc fault (OpRemove ident) s = Remove enc fault ident s"

text \<open>The store as a map from identifiers to profiles, and what each operation does to such a map.\<close>

definition view :: "store \<Rightarrow> string \<rightharpoonup> profile" where
  "view s = map_of (map (\<lambda>p. (ID p, p)) (profiles s))"

definition distinct_ids :: "store \<Rightarrow> bool" where
  "distinct_ids s \<longleftrightarrow> distinct (map ID (profiles s))"

fun abs_op :: "store_op \<Rightarrow> (string \<rightharpoonup> profile) \<Rightarrow> store_error + (string \<rightharpoonup> profile)" where
  "abs_op (OpAdd p) m =
     (if ID p = [] then Inl EmptyId
      else if m (ID p) \<noteq> None then Inl (ErrExists (ID p)) else Inr (m(ID p \<mapsto> p)))"
| "abs_op (OpUpdate p) m =
     (if ID p = [] then Inl EmptyId
      else if m (ID p) = None then Inl (ErrNotFound (ID p)) else Inr (m(ID p \<mapsto> p)))"
| "abs_op (OpRemove ident) m =
     (if m ident = None then Inl (ErrNotFound ident) else Inr (m(ident := None)))"

definition save_failed :: "store_error \<Rightarrow> bool" where
  "save_failed e \<longleftrightarrow> (\<exists>n. e = SaveError n) \<or> (\<exists>m. e = EncodeError m)"

lemma by_ID_None: "map_of (map (\<lambda>p. (ID p, p)) ps) k = None \<longleftrightarrow> k \<notin> ID ` set ps"
  by (induction ps) auto

lemma view_None: "view s ident = None \<longleftrightarrow> indexOf s ident = None"
  by (simp add: view_def indexOf_None by_ID_None)

lemma save_error_kind: "save enc fault s = (Inl e, s') \<Longrightarrow> save_failed e"
  by (auto simp: save_def save_failed_def split: sum.splits option.splits if_splits)

lemma run_op_fail:
  assumes "run_op enc fault op s = (Inl e, s')"
  shows "profiles s' = profiles s \<and> target (disk s') = target (disk s) \<and>
    (save_failed e \<or> abs_op op (view s) = Inl e)"
proof (cases op)
  case (OpAdd p)
  show ?thesis
  proof (cases "ID p = [] \<or> indexOf s (ID p) \<noteq> None")
    case True
    then show ?thesis using assms OpAdd view_None [of s "ID p"] by (auto simp: Add_def split: if_splits)
  next
    case False
    then obtain s1 where "save enc fault (s\<lparr>profiles := profiles s @ [p]\<rparr>) = (Inl e, s1)"
      and "s' = s1\<lparr>profiles := take (length (profiles s1) - 1) (profiles s1)\<rparr>"
      using assms OpAdd by (auto simp: Add_def split: prod.splits sum.splits)
    then show ?thesis using save_Inl save_error_kind by fastforce
  qed
next
  case (OpUpdate p)
  show ?thesis
  proof (cases "ID p = [] \<or> indexOf s (ID p) = None")
    case True
    then show ?thesis using assms OpUpdate view_None [of s "ID p"] by (auto simp: Update_def split: if_splits)
  next
    case False
    then obtain i s1 where i: "indexOf s (ID p) = Some i"
      and sv: "save enc fault (s\<lparr>profiles := (profiles s)[i := p]\<rparr>) = (Inl e, s1)"
      and "s' = s1\<lparr>profiles := (profiles s1)[i := profiles s ! i]\<rparr>"
      using assms OpUpdate by (auto simp: Update_def Let_def split: prod.splits sum.splits)
    then show ?thesis using save_Inl [OF sv] save_error_kind [OF sv] by simp
  qed
next
  case (OpRemove ident)
  show ?thesis
  proof (cases "indexOf s ident")
    case None
    then show ?thesis using assms OpRemove view_None [of s ident] by (auto simp: Remove_def)
  next
    case (Some i)
    then obtain s1 where
      sv: "save enc fault (s\<lparr>profiles := take i (profiles s) @ drop (Suc i) (profiles s)\<rparr>) = (Inl e, s1)"
      and "s' = s1\<lparr>profiles := (copy_up i (profiles s1 @ [zero_profile]))[i := profiles s ! i]\<rparr>"
      using assms OpRemove by (auto simp: Remove_def Let_def split: prod.splits sum.splits)
    then show ?thesis
      using save_Inl [OF sv] save_error_kind [OF sv] indexOf_Some [OF Some]
        restore_removed [of i "profiles s" zero_profile] by simp
  qed
qed

lemma map_of_update_at:
  assumes "distinct (map ID ps)" and "i < length ps" and "ID (ps ! i) = ID p"
  shows "map_of (map (\<lambda>p. (ID p, p)) (ps[i := p])) = (map_of (map (\<lambda>p. (ID p, p)) ps))(ID p \<mapsto> p)"
  using assms
proof (induction ps arbitrary: i)
  case Nil
  then show ?case by simp
next
  case (Cons q ps)
  show ?case
  proof (cases i)
    case 0
    then show ?thesis using Cons.prems by auto
  next
    case (Suc j)
    then have "ID q \<noteq> ID p" using Cons.prems by (metis distinct.simps(2) in_set_conv_nth length_map list.simps(9) nth_Cons_Suc nth_map Suc_less_eq length_Cons)
    then show ?thesis using Suc Cons by (auto simp: fun_eq_iff)
  qed
qed

lemma map_of_drop_at:
  assumes "distinct (map ID ps)" and "i < length ps"
  shows "map_of (map (\<lambda>p. (ID p, p)) (take i ps @ drop (Suc i) ps)) =
    (map_of (map (\<lambda>p. (ID p, p)) ps))(ID (ps ! i) := None)"
  using assms
proof (induction ps arbitrary: i)
  case Nil
  then show ?case by simp
next
  case (Cons q ps)
  show ?case
  proof (cases i)
    case 0
    have "map_of (map (\<lambda>p. (ID p, p)) ps) (ID q) = None"
      using Cons.prems(1) by (auto simp: by_ID_None)
    then show ?thesis using 0 by (auto simp: fun_eq_iff)
  next
    case (Suc j)
    then have "ID q \<noteq> ID (ps ! j)" using Cons.prems by (metis distinct.simps(2) in_set_conv_nth length_map list.simps(9) nth_map Suc_less_eq length_Cons)
    then show ?thesis using Suc Cons by (auto simp: fun_eq_iff)
  qed
qed

lemma run_op_ok:
  assumes "run_op enc fault op s = (Inr u, s')" and "distinct_ids s"
  shows "abs_op op (view s) = Inr (view s') \<and> distinct_ids s' \<and>
    (\<exists>data. enc (profiles s') = Inr data \<and> target (disk s') = Some data)"
proof (cases op)
  case (OpAdd p)
  then have c: "ID p \<noteq> []" "indexOf s (ID p) = None"
    and sv: "save enc fault (s\<lparr>profiles := profiles s @ [p]\<rparr>) = (Inr u, s')"
    using assms(1) by (auto simp: Add_def split: if_splits prod.splits sum.splits)
  have fresh: "ID p \<notin> ID ` set (profiles s)" using c(2) indexOf_None by blast
  then have "map_of (map (\<lambda>p. (ID p, p)) (profiles s @ [p])) = (view s)(ID p \<mapsto> p)"
    using by_ID_None [of "profiles s" "ID p"]
    by (auto simp: view_def map_add_def fun_eq_iff split: option.splits)
  then show ?thesis
    using save_Inr [OF sv] c fresh assms(2) OpAdd view_None [of s "ID p"]
    by (auto simp: view_def distinct_ids_def)
next
  case (OpUpdate p)
  then obtain i where c: "ID p \<noteq> []" and i: "indexOf s (ID p) = Some i"
    and sv: "save enc fault (s\<lparr>profiles := (profiles s)[i := p]\<rparr>) = (Inr u, s')"
    using assms(1) by (auto simp: Update_def Let_def split: if_splits prod.splits sum.splits option.splits)
  note ii = indexOf_Some [OF i]
  have "map ID ((profiles s)[i := p]) = map ID (profiles s)"
    using ii by (metis list_update_id map_update)
  then show ?thesis
    using save_Inr [OF sv] c assms(2) OpUpdate view_None [of s "ID p"] i ii
      map_of_update_at [of "profiles s" i p]
    by (auto simp: view_def distinct_ids_def)
next
  case (OpRemove ident)
  then obtain i where i: "indexOf s ident = Some i"
    and sv: "save enc fault (s\<lparr>profiles := take i (profiles s) @ drop (Suc i) (profiles s)\<rparr>) = (Inr u, s')"
    using assms(1) by (auto simp: Remove_def Let_def split: prod.splits sum.splits option.splits)
  note ii = indexOf_Some [OF i]
  have "distinct (map ID (take i (profiles s) @ drop (Suc i) (profiles s)))"
    using assms(2) set_take_disj_set_drop_if_distinct [of "map ID (profiles s)" i "Suc i"]
      distinct_take [of "map ID (profiles s)" i] distinct_drop [of "map ID (profiles s)" "Suc i"]
    by (simp add: distinct_ids_def take_map drop_map)
  then show ?thesis
    using save_Inr [OF sv] assms(2) OpRemove view_None [of s ident] i ii map_of_drop_at [of "profiles s" i]
    by (auto simp: view_def distinct_ids_def)
qed

text \<open>C23. The store is a map from identifiers to profiles. An operation that succeeds does to that map what
  adding, replacing or removing means and keeps identifiers distinct; one that fails, for a missing
  or duplicate identifier or at any step of the save, leaves the profiles in memory (their order
  included) and the profile file exactly as they were.\<close>

theorem store_refines_map:
  assumes "run_op enc fault op s = (r, s')" and "distinct_ids s"
  shows "case r of
      Inr _ \<Rightarrow> abs_op op (view s) = Inr (view s') \<and> distinct_ids s'
    | Inl e \<Rightarrow> profiles s' = profiles s \<and> target (disk s') = target (disk s) \<and>
        (save_failed e \<or> abs_op op (view s) = Inl e)"
proof (cases r)
  case (Inl e)
  then show ?thesis using run_op_fail [of enc fault op s e s'] assms(1) by simp
next
  case (Inr u)
  then show ?thesis using run_op_ok [of enc fault op s u s'] assms by simp
qed

text \<open>Reading the store is looking up that map.\<close>

lemma Get_view: "Get s ident = view s ident"
proof -
  have "Get \<lparr>profiles = ps, disk = d\<rparr> ident = map_of (map (\<lambda>p. (ID p, p)) ps) ident" for ps d
    by (induction ps) (auto simp: Get_def indexOf_def simp del: find_index_None split: option.splits)
  from this [of "profiles s" "disk s"] show ?thesis by (cases s) (simp add: view_def)
qed

text \<open>
  The codec reproduces a list of profiles: what it encodes to is not empty and decodes to that list again.  JSON does
  that for text in valid UTF-8; other bytes come back as replacement characters, so the law is only asked for the lists
  at hand.
\<close>

definition json_faithful ::
    "(profile list \<Rightarrow> string + 8 word list) \<Rightarrow> (8 word list \<Rightarrow> string + profile list) \<Rightarrow> profile list \<Rightarrow> bool" where
  "json_faithful enc dec ps \<longleftrightarrow> (\<forall>data. enc ps = Inr data \<longrightarrow> data \<noteq> [] \<and> dec data = Inr ps)"

definition in_sync :: "(8 word list \<Rightarrow> string + profile list) \<Rightarrow> store \<Rightarrow> bool" where
  "in_sync dec s \<longleftrightarrow> store_load dec None (disk s) = Inr (profiles s)"

lemma store_load_data: "json_faithful enc dec ps \<Longrightarrow> enc ps = Inr data \<Longrightarrow> target d = Some data \<Longrightarrow> store_load dec None d = Inr ps"
  by (auto simp: json_faithful_def store_load_def)

lemma run_op_in_sync:
  assumes "json_faithful enc dec (profiles (snd (run_op enc fault op s)))" and "in_sync dec s" and "distinct_ids s"
  shows "in_sync dec (snd (run_op enc fault op s)) \<and> distinct_ids (snd (run_op enc fault op s))"
proof (cases "run_op enc fault op s")
  case (Pair r s')
  show ?thesis
  proof (cases r)
    case (Inl e)
    then show ?thesis
      using run_op_fail [of enc fault op s e s'] Pair assms(2,3)
      by (simp add: in_sync_def store_load_def distinct_ids_def)
  next
    case (Inr u)
    then show ?thesis
      using run_op_ok [of enc fault op s u s'] Pair assms store_load_data [OF assms(1)]
      by (auto simp: in_sync_def)
  qed
qed

text \<open>C22. Memory and disk never diverge.  Open a store whose identifiers are distinct and run any operations, each saving
  successfully or failing at any system call: opening the directory again yields exactly the profiles in memory, provided the codec reproduces every
  list of profiles that was held on the way (\<open>json_faithful\<close>).\<close>

theorem reopen_gives_memory:
  assumes "Open dec None dir d = Inr s0" and "distinct_ids s0"
    and "states = (\<lambda>n. fold (\<lambda>(fault, op) s. snd (run_op enc fault op s)) (take n ops) s0)"
    and "\<forall>n\<le>length ops. json_faithful enc dec (profiles (states n))"
  shows "\<exists>s'. Open dec None dir (disk (states (length ops))) = Inr s' \<and> profiles s' = profiles (states (length ops))"
proof -
  have dir: "dir \<noteq> []" and s0: "in_sync dec s0"
    using assms(1) by (auto simp: Open_def in_sync_def split: if_splits sum.splits)
  have "in_sync dec (states n) \<and> distinct_ids (states n)" if "n \<le> length ops" for n
    using that
  proof (induction n)
    case 0
    then show ?case using s0 assms(2) by (simp add: assms(3))
  next
    case (Suc n)
    obtain fault op where "ops ! n = (fault, op)" by (cases "ops ! n")
    with Suc.prems have "states (Suc n) = snd (run_op enc fault op (states n))"
      by (simp add: assms(3) take_Suc_conv_app_nth)
    with run_op_in_sync [of enc dec fault op "states n"] assms(4) Suc show ?case by auto
  qed
  then have "in_sync dec (states (length ops))" by blast
  then show ?thesis using dir by (simp add: in_sync_def Open_def)
qed

text \<open>A crash in the middle of a save loses nothing: after any number of its system calls, the profile
  file reads back as the old list or as the new one, never as anything else.\<close>

theorem crash_leaves_old_or_new:
  assumes "json_faithful enc dec new" and "in_sync dec s" and "enc new = Inr data"
  shows "store_load dec None (after_calls data n (disk s)) =
    Inr (if length save_calls \<le> n then new else profiles s)"
  using assms store_load_data [OF assms(1,3), of "after_calls data n (disk s)"]
  by (simp add: in_sync_def store_load_def after_calls_target)

section \<open>The identity is faithful\<close>

lemma length_length_prefix [simp]: "length (length_prefix i n) = i"
  by (induction i arbitrary: n) auto

lemma length_prefix_inj:
  "length_prefix i m = length_prefix i n \<Longrightarrow> m mod 2 ^ (8 * i) = n mod 2 ^ (8 * i)"
proof (induction i arbitrary: m n)
  case 0
  then show ?case by simp
next
  case (Suc i)
  then have lo: "(word_of_nat m :: 8 word) = word_of_nat n"
    and rest: "length_prefix i (m div 2 ^ 8) = length_prefix i (n div 2 ^ 8)"
    by (simp_all only: length_prefix.simps list.inject)
  from Suc.IH [OF rest] have hi: "(m div 2 ^ 8) mod 2 ^ (8 * i) = (n div 2 ^ 8) mod 2 ^ (8 * i)" .
  have low: "m mod 2 ^ 8 = n mod 2 ^ 8"
  proof -
    from lo have "take_bit 8 m = take_bit 8 n" by (simp only: word_of_nat_eq_iff len_of_numeral_defs) simp
    then show ?thesis by (simp only: take_bit_eq_mod)
  qed
  have split: "k mod 2 ^ (8 * Suc i) = 2 ^ 8 * ((k div 2 ^ 8) mod 2 ^ (8 * i)) + k mod 2 ^ 8" for k :: nat
    unfolding mult_Suc_right power_add by (rule mod_mult2_eq)
  show ?case unfolding split hi low ..
qed

lemma writeField_append: "foldl writeField h fs = h @ concat (map (\<lambda>s. length_prefix 8 (length s) @ map byte_of s) fs)"
  by (induction fs arbitrary: h) (simp_all add: writeField_def)

lemma byte_of_inj: "map byte_of s = map byte_of t \<Longrightarrow> s = t"
  by (metis map_char_of_byte_of map_map)

lemma fields_inj:
  assumes "concat (map (\<lambda>s. length_prefix 8 (length s) @ map byte_of s) fs) =
      concat (map (\<lambda>s. length_prefix 8 (length s) @ map byte_of s) gs)"
    and "length fs = length gs" and "\<forall>s\<in>set fs \<union> set gs. length s < 2 ^ 64"
  shows "fs = gs"
  using assms
proof (induction fs arbitrary: gs)
  case Nil
  then show ?case by simp
next
  case (Cons f fs)
  then obtain g gs' where gs: "gs = g # gs'" by (cases gs) auto
  have eq: "length_prefix 8 (length f) @ map byte_of f @ concat (map (\<lambda>s. length_prefix 8 (length s) @ map byte_of s) fs) =
      length_prefix 8 (length g) @ map byte_of g @ concat (map (\<lambda>s. length_prefix 8 (length s) @ map byte_of s) gs')"
    using Cons.prems(1) gs by simp
  then have pre: "length_prefix 8 (length f) = length_prefix 8 (length g) \<and>
      map byte_of f @ concat (map (\<lambda>s. length_prefix 8 (length s) @ map byte_of s) fs) =
      map byte_of g @ concat (map (\<lambda>s. length_prefix 8 (length s) @ map byte_of s) gs')"
    by (subst (asm) append_eq_append_conv) simp_all
  then have "length f = length g"
    using length_prefix_inj [of 8 "length f" "length g"] Cons.prems(3) gs by simp
  with pre have "map byte_of f = map byte_of g \<and>
      concat (map (\<lambda>s. length_prefix 8 (length s) @ map byte_of s) fs) =
      concat (map (\<lambda>s. length_prefix 8 (length s) @ map byte_of s) gs')"
    by (subst (asm) append_eq_append_conv) auto
  then show ?case using Cons.IH [of gs'] Cons.prems(2,3) gs byte_of_inj by auto
qed

lemma length_server_fields: "length (server_fields n) = 13"
  by (simp add: server_fields_def split: option.split)

text \<open>The server identifier hashes exactly the identifying fields: two nodes feed the hash the same
  bytes if and only if they agree on protocol, endpoint, credentials and the key, REALITY and
  transport discriminators. Nothing else (a name, a flow, a fingerprint) changes it, and no two
  field lists run together.\<close>

theorem hashed_bytes_identify_fields:
  assumes "list_all (\<lambda>s. length s < 2 ^ 64) (server_fields n @ server_fields m)"
  shows "hashed_bytes n = hashed_bytes m \<longleftrightarrow> server_fields n = server_fields m"
  using fields_inj [of "server_fields n" "server_fields m"] assms
  by (auto simp: hashed_bytes_def writeField_append length_server_fields list_all_iff)

section \<open>Samples\<close>

definition ex_profile :: profile where
  "ex_profile = zero_profile\<lparr>ID := ''p1'', PName := ''home''\<rparr>"

text \<open>A codec for two lists only; it reproduces both.\<close>

definition ex_enc :: "profile list \<Rightarrow> string + 8 word list" where
  "ex_enc ps = (if ps = [] then Inr [0] else if ps = [ex_profile] then Inr [1] else Inl ''unsupported'')"

definition ex_dec :: "8 word list \<Rightarrow> string + profile list" where
  "ex_dec data = (if data = [0] then Inr [] else if data = [1] then Inr [ex_profile] else Inl ''syntax'')"

lemma ex_json_faithful: "json_faithful ex_enc ex_dec ps"
  by (auto simp: json_faithful_def ex_enc_def ex_dec_def split: if_splits)

definition ex_store :: store where
  "ex_store = \<lparr>profiles = [], disk = \<lparr>target = None, temp = None\<rparr>\<rparr>"

lemma ex_open: "Open ex_dec None ''/var'' \<lparr>target = None, temp = None\<rparr> = Inr ex_store"
  by (simp add: Open_def store_load_def ex_store_def)

lemma ex_distinct: "distinct_ids ex_store"
  by (simp add: distinct_ids_def ex_store_def)

lemma store_refines_map_witness:
  "\<exists>s'. run_op ex_enc None (OpAdd ex_profile) ex_store = (Inr (), s') \<and> view s' ''p1'' = Some ex_profile \<and>
     (\<exists>s''. run_op ex_enc (Some 3) (OpRemove ''p1'') s' = (Inl (SaveError 3), s'') \<and> profiles s'' = profiles s')"
proof -
  obtain s' where a: "run_op ex_enc None (OpAdd ex_profile) ex_store = (Inr (), s')"
    by (simp add: Add_def ex_store_def indexOf_def save_def ex_enc_def ex_profile_def zero_profile_def)
  from store_refines_map [OF a ex_distinct]
  have "view s' = (view ex_store)(ID ex_profile \<mapsto> ex_profile)" and d: "distinct_ids s'"
    by (simp_all split: if_splits)
  then have v: "view s' ''p1'' = Some ex_profile" by (simp add: ex_profile_def)
  have ps: "profiles s' = [ex_profile]"
    using a by (auto simp: Add_def ex_store_def indexOf_def save_def ex_enc_def ex_profile_def zero_profile_def)
  obtain s'' where r: "run_op ex_enc (Some 3) (OpRemove ''p1'') s' = (Inl (SaveError 3), s'')"
    using ps by (simp add: Remove_def indexOf_def save_def ex_enc_def ex_profile_def zero_profile_def save_calls_def)
  from store_refines_map [OF r d] have "profiles s'' = profiles s'" by simp
  then show ?thesis using a v r by blast
qed

lemma reopen_gives_memory_witness:
  "\<exists>s s'. s = fold (\<lambda>(fault, op) s. snd (run_op ex_enc fault op s))
       [(None, OpAdd ex_profile), (Some 4, OpRemove ''p1'')] ex_store \<and>
     Open ex_dec None ''/var'' (disk s) = Inr s' \<and> profiles s' = profiles s"
  using reopen_gives_memory [OF ex_open ex_distinct refl,
      where enc = ex_enc and ops = "[(None, OpAdd ex_profile), (Some 4, OpRemove ''p1'')]"] ex_json_faithful
  by simp

lemma crash_leaves_old_or_new_witness:
  "store_load ex_dec None (after_calls [1] 4 (disk ex_store)) = Inr [] \<and>
   store_load ex_dec None (after_calls [1] 5 (disk ex_store)) = Inr [ex_profile]"
proof -
  have "in_sync ex_dec ex_store" by (simp add: in_sync_def ex_store_def store_load_def)
  moreover have "ex_enc [ex_profile] = Inr [1]" by (simp add: ex_enc_def)
  ultimately show ?thesis
    using crash_leaves_old_or_new [OF ex_json_faithful, of ex_store "[ex_profile]" "[1]"]
    by (simp add: save_calls_def ex_store_def)
qed

lemma hashed_bytes_identify_fields_witness:
  "hashed_bytes (zero_node\<lparr>UUID := ''ab'', Password := ''c''\<rparr>) \<noteq> hashed_bytes (zero_node\<lparr>UUID := ''a'', Password := ''bc''\<rparr>) \<and>
   hashed_bytes (zero_node\<lparr>Name := ''x''\<rparr>) = hashed_bytes (zero_node\<lparr>Name := ''y''\<rparr>)"
  using hashed_bytes_identify_fields [of "zero_node\<lparr>UUID := ''ab'', Password := ''c''\<rparr>" "zero_node\<lparr>UUID := ''a'', Password := ''bc''\<rparr>"]
    hashed_bytes_identify_fields [of "zero_node\<lparr>Name := ''x''\<rparr>" "zero_node\<lparr>Name := ''y''\<rparr>"]
  by (simp add: server_fields_def zero_node_def int_str_def nat_str.simps [of 0])

end
