(* ===== verification/Routing_Lists.thy ===== *)
theory Routing_Lists
  imports Go_Lib
begin

text \<open>
  The lists behind the routing rules: normalisation of application names and domain suffixes, the
  suffix check at the command boundary, the bundled presets and the coverage test of the DPI bypass
  (\<^verbatim>\<open>core/routing/routing.go\<close>, \<^verbatim>\<open>rules.go\<close>, \<^verbatim>\<open>presets.go\<close>).  A nil slice and an empty one are not
  distinguished by the code that uses these lists, so both are the empty list.
\<close>

section \<open>Normalisation\<close>

text \<open>
  The loop shared by \<^verbatim>\<open>normalizeApps\<close> and \<^verbatim>\<open>normalizeSuffixes\<close>: lower-case, trim, drop empties and
  duplicates, keep first occurrences.
\<close>

fun normalize_loop :: "case_table \<Rightarrow> string set \<Rightarrow> string list \<Rightarrow> string list" where
  "normalize_loop u seen [] = []"
| "normalize_loop u seen (a # as) =
     (let b = to_lower u (trim_space a)
      in if b = [] then normalize_loop u seen as
         else if b \<in> seen then normalize_loop u seen as
         else b # normalize_loop u (insert b seen) as)"

definition normalizeApps :: "case_table \<Rightarrow> string list \<Rightarrow> string list" where
  "normalizeApps u apps =
     (if length apps = 0 then []
      else let out = normalize_loop u {} apps in if length out = 0 then [] else sort_strings out)"

definition normalizeSuffixes :: "case_table \<Rightarrow> string list \<Rightarrow> string list" where
  "normalizeSuffixes u suffixes =
     (if length suffixes = 0 then []
      else let out = normalize_loop u {} suffixes in if length out = 0 then [] else sort_strings out)"

definition suffix_char :: "char \<Rightarrow> bool" where
  "suffix_char c \<longleftrightarrow> (let n = (of_char c :: nat) in 97 \<le> n \<and> n \<le> 122 \<or> 48 \<le> n \<and> n \<le> 57 \<or> c = CHR ''.'' \<or> c = CHR ''-'')"

definition suffix_letter :: "char \<Rightarrow> bool" where
  "suffix_letter c \<longleftrightarrow> 97 \<le> (of_char c :: nat) \<and> (of_char c :: nat) \<le> 122"

definition ValidDomainSuffix :: "case_table \<Rightarrow> string \<Rightarrow> bool" where
  "ValidDomainSuffix u s0 =
     (let s = to_lower u (trim_space s0)
      in if s = [] then False
         else if hd s = CHR ''.'' \<or> hd s = CHR ''-'' \<or> last s = CHR ''.'' \<or> last s = CHR ''-'' then False
         else list_all suffix_char s \<and> list_ex suffix_letter s)"

section \<open>Presets\<close>

definition gameProcesses :: "string list" where
  "gameProcesses =
     [''steam.exe'', ''steamservice.exe'', ''steamerrorreporter.exe'', ''dota2.exe'', ''cs2.exe'',
      ''csgo.exe'', ''hl2.exe'', ''gmod.exe'', ''tf_win64.exe'', ''rustclient.exe'',
      ''minecraftlauncher.exe'', ''minecraft.windows.exe'', ''riotclientservices.exe'',
      ''leagueoflegends.exe'', ''valorant.exe'', ''valorant-win64-shipping.exe'',
      ''epicgameslauncher.exe'', ''battle.net.exe'', ''eadesktop.exe'', ''ealauncher.exe'', ''upc.exe'',
      ''ubisoftconnect.exe'', ''galaxyclient.exe'', ''rockstarservice.exe'', ''socialclubhelper.exe'']"

definition blockedServiceSuffixes :: "string list" where
  "blockedServiceSuffixes =
     [''youtube.com'', ''youtu.be'', ''googlevideo.com'', ''ytimg.com'', ''yt3.ggpht.com'',
      ''youtubei.googleapis.com'', ''music.youtube.com'', ''ggpht.com'', ''googleusercontent.com'',
      ''gvt1.com'', ''gvt2.com'', ''discord.com'', ''discordapp.com'', ''discordapp.net'',
      ''discord.gg'', ''discord.media'', ''discordcdn.com'', ''discordstatus.com'', ''telegram.org'',
      ''t.me'', ''telegra.ph'', ''telesco.pe'', ''cdn-telegram.org'', ''instagram.com'',
      ''cdninstagram.com'', ''facebook.com'', ''fbcdn.net'', ''whatsapp.com'', ''twitter.com'',
      ''x.com'', ''twimg.com'', ''anthropic.com'', ''claude.ai'', ''claudeusercontent.com'',
      ''openai.com'', ''chatgpt.com'', ''oaistatic.com'', ''soundcloud.com'', ''spotify.com'',
      ''scdn.co'', ''linkedin.com'', ''licdn.com'', ''medium.com'', ''patreon.com'', ''signal.org'']"

definition defaultZapretCovered :: "string list" where
  "defaultZapretCovered =
     [''youtube.com'', ''youtu.be'', ''googlevideo.com'', ''ytimg.com'', ''ggpht.com'',
      ''youtubei.googleapis.com'', ''discord.com'', ''discordapp.com'', ''discordapp.net'',
      ''discord.gg'', ''discord.media'', ''discordcdn.com'', ''discordstatus.com'']"

definition presetRuBankingSuffixes :: "string list" where
  "presetRuBankingSuffixes =
     [''sberbank.ru'', ''sberbank.com'', ''vtb.ru'', ''tbank.ru'', ''tinkoff.ru'', ''alfabank.ru'',
      ''gazprombank.ru'', ''gpb.ru'', ''raiffeisen.ru'', ''psbank.ru'', ''sovcombank.ru'', ''rshb.ru'',
      ''mkb.ru'', ''rosbank.ru'', ''nspk.ru'', ''mironline.ru'', ''cbr.ru'']"

definition presetRuGovSuffixes :: "string list" where
  "presetRuGovSuffixes =
     [''gosuslugi.ru'', ''gov.ru'', ''mos.ru'', ''nalog.ru'', ''kremlin.ru'', ''government.ru'',
      ''mvd.ru'', ''rosreestr.ru'', ''edu.ru'']"

definition coveredByZapret :: "string list \<Rightarrow> string \<Rightarrow> bool" where
  "coveredByZapret covered domain \<longleftrightarrow> list_ex (\<lambda>c. domain = c \<or> has_suffix (CHR ''.'' # c) domain) covered"

definition GameProcesses :: "string list" where
  "GameProcesses = sort_strings gameProcesses"

definition BlockedServiceSuffixes :: "string list" where
  "BlockedServiceSuffixes = sort_strings blockedServiceSuffixes"

section \<open>What normalisation yields\<close>

definition canon :: "case_table \<Rightarrow> string \<Rightarrow> string" where
  "canon u s = to_lower u (trim_space s)"

lemma normalize_loop_set: "set (normalize_loop u seen as) = canon u ` set as - {[]} - seen"
  by (induction u seen as rule: normalize_loop.induct) (auto simp: canon_def Let_def)

lemma normalize_loop_distinct: "distinct (normalize_loop u seen as)"
  by (induction u seen as rule: normalize_loop.induct) (auto simp: Let_def normalize_loop_set)

lemma normalizeSuffixes_eq: "normalizeSuffixes u xs = sort_strings (normalize_loop u {} xs)"
  by (auto simp: normalizeSuffixes_def Let_def)

lemma normalizeApps_eq: "normalizeApps u xs = normalizeSuffixes u xs"
  by (simp add: normalizeApps_def normalizeSuffixes_def)

lemma set_normalizeSuffixes [simp]: "set (normalizeSuffixes u xs) = canon u ` set xs - {[]}"
  by (simp add: normalizeSuffixes_eq normalize_loop_set)

lemma distinct_normalizeSuffixes [simp]: "distinct (normalizeSuffixes u xs)"
  by (simp add: normalizeSuffixes_eq normalize_loop_distinct)

lemma sorted_normalizeSuffixes [simp]: "sorted (normalizeSuffixes u xs)"
  by (simp add: normalizeSuffixes_eq)

lemma normalize_loop_canonical:
  assumes "\<forall>s\<in>set xs. canon u s = s \<and> s \<noteq> []" and "distinct xs" and "set xs \<inter> seen = {}"
  shows "normalize_loop u seen xs = xs"
  using assms by (induction xs arbitrary: seen) (auto simp: canon_def Let_def)

text \<open>Lists of canonical entries are determined by their sets.\<close>

lemma normalizeSuffixes_canonical:
  assumes "\<forall>s\<in>set xs. canon u s = s \<and> s \<noteq> []" and "distinct xs" and "sorted xs"
  shows "normalizeSuffixes u xs = xs"
  using assms normalize_loop_canonical [of xs u "{}"] by (simp add: normalizeSuffixes_eq sort_strings_sorted)

lemma canon_idem:
  assumes "list_all ascii s"
  shows "canon u (canon u s) = canon u s"
proof -
  have a: "list_all ascii (trim_space s)" by (rule ascii_trim_space [OF assms])
  then have "trimmed (map ascii_lower (trim_space s))" by (intro trimmed_lower) simp
  then show ?thesis using a by (simp add: canon_def trim_space_trimmed list_all_iff)
qed

lemma normalizeSuffixes_idem:
  assumes "list_all (list_all ascii) xs"
  shows "normalizeSuffixes u (normalizeSuffixes u xs) = normalizeSuffixes u xs"
  using assms canon_idem [of _ u] by (intro normalizeSuffixes_canonical) (auto simp: list_all_iff)

text \<open>Normalising suffixes or application names yields the canonical (trimmed, lower-case), non-empty
  entries of the input, each once and in order, and the two operations agree: the emitted rules are a
  function of the set of entries only.\<close>

theorem normalize_canonical_sorted_set:
  "set (normalizeSuffixes u xs) = canon u ` set xs - {[]} \<and> distinct (normalizeSuffixes u xs) \<and>
   sorted (normalizeSuffixes u xs) \<and> normalizeApps u xs = normalizeSuffixes u xs"
  by (simp add: normalizeApps_eq)

end
