(* ===== verification/Config_Value.thy ===== *)
theory Config_Value
  imports Go_Lib
begin

text \<open>
  The dynamically typed values the configuration generators assemble (\<^verbatim>\<open>map[string]any\<close> and slices).  An
  object is an association list in which a key is set once; Go's map order does not matter to the
  code and the generators' lookups go through \<open>oget\<close>.
\<close>

datatype goval =
    VStr string
  | VInt int
  | VBool bool
  | VStrs "string list"
  | VInts "int list"
  | VObj "(string \<times> goval) list"
  | VObjs "(string \<times> goval) list list"

type_synonym obj = "(string \<times> goval) list"

definition oget :: "obj \<Rightarrow> string \<Rightarrow> goval option" where
  "oget ob k = map_of ob k"

definition oset :: "string \<Rightarrow> goval \<Rightarrow> obj \<Rightarrow> obj" where
  "oset k v ob = filter (\<lambda>kv. fst kv \<noteq> k) ob @ [(k, v)]"

definition odel :: "string \<Rightarrow> obj \<Rightarrow> obj" where
  "odel k ob = filter (\<lambda>kv. fst kv \<noteq> k) ob"

definition keys :: "obj \<Rightarrow> string set" where
  "keys ob = fst ` set ob"

text \<open>A type assertion \<^verbatim>\<open>ob[k].(string)\<close> that yields the zero value when it fails.\<close>

definition ostr :: "obj \<Rightarrow> string \<Rightarrow> string" where
  "ostr ob k = (case oget ob k of Some (VStr s) \<Rightarrow> s | _ \<Rightarrow> [])"

definition ostrs :: "obj \<Rightarrow> string \<Rightarrow> string list" where
  "ostrs ob k = (case oget ob k of Some (VStrs s) \<Rightarrow> s | _ \<Rightarrow> [])"

lemma oget_Nil [simp]: "oget [] k = None"
  by (simp add: oget_def)

lemma oget_Cons [simp]: "oget ((k', v) # ob) k = (if k' = k then Some v else oget ob k)"
  by (simp add: oget_def)

lemma oget_append: "oget (a @ b) k = (case oget a k of None \<Rightarrow> oget b k | Some v \<Rightarrow> Some v)"
  by (simp add: oget_def map_add_def split: option.split)

lemma oget_filter: "oget (filter (\<lambda>kv. fst kv \<noteq> k') ob) k = (if k = k' then None else oget ob k)"
  by (induction ob) auto

lemma oget_oset: "oget (oset k v ob) k' = (if k' = k then Some v else oget ob k')"
  by (simp add: oset_def oget_append oget_filter split: option.split)

lemma oget_odel: "oget (odel k ob) k' = (if k' = k then None else oget ob k')"
  by (simp add: odel_def oget_filter)

lemma ostr_oset: "ostr (oset k v ob) k' = (if k' = k then (case v of VStr s \<Rightarrow> s | _ \<Rightarrow> []) else ostr ob k')"
  by (simp add: ostr_def oget_oset split: goval.split)

lemma ostr_Cons [simp]:
  "ostr ((k', v) # ob) k = (if k' = k then (case v of VStr s \<Rightarrow> s | _ \<Rightarrow> []) else ostr ob k)"
  by (simp add: ostr_def split: goval.split)

lemma ostr_Nil [simp]: "ostr [] k = []"
  by (simp add: ostr_def)

lemma ostrs_Cons [simp]:
  "ostrs ((k', v) # ob) k = (if k' = k then (case v of VStrs s \<Rightarrow> s | _ \<Rightarrow> []) else ostrs ob k)"
  by (simp add: ostrs_def split: goval.split)

lemma ostrs_Nil [simp]: "ostrs [] k = []"
  by (simp add: ostrs_def)

end
