(* ===== verification/Dns_Server.thy ===== *)
theory Dns_Server
  imports Config_Value
begin

text \<open>
  Resolver addresses (\<^verbatim>\<open>core/routing/dns.go\<close>): turning one into a typed server object and checking one
  at the command boundary, with Go's \<^verbatim>\<open>net.ParseIP\<close> and \<^verbatim>\<open>strings.Index\<close> behind them.
\<close>

section \<open>IP literals\<close>

text \<open>One decimal field of an IPv4 literal: no leading zero, at most 255.\<close>

definition v4_field :: "string \<Rightarrow> nat option" where
  "v4_field s =
     (if s = [] \<or> \<not> list_all is_digit s then None
      else if hd s = CHR ''0'' \<and> length s > 1 then None
      else if dec_val s > 255 then None
      else Some (dec_val s))"

fun all_some :: "'a option list \<Rightarrow> 'a list option" where
  "all_some [] = Some []"
| "all_some (None # xs) = None"
| "all_some (Some x # xs) = map_option ((#) x) (all_some xs)"

definition parse_v4 :: "string \<Rightarrow> nat list option" where
  "parse_v4 s =
     (let fs = split_on (CHR ''.'') s
      in if length fs = 4 then all_some (map v4_field fs) else None)"

definition hex_val :: "char \<Rightarrow> nat option" where
  "hex_val c =
     (let n = (of_char c :: nat)
      in if 48 \<le> n \<and> n \<le> 57 then Some (n - 48)
         else if 97 \<le> n \<and> n \<le> 102 then Some (n - 87)
         else if 65 \<le> n \<and> n \<le> 70 then Some (n - 55)
         else None)"

definition v6_done :: "nat list \<Rightarrow> nat option \<Rightarrow> nat list option" where
  "v6_done bs el =
     (if length bs < 16 then
        (case el of None \<Rightarrow> None
         | Some e \<Rightarrow> Some (take e bs @ replicate (16 - length bs) 0 @ drop e bs))
      else if el \<noteq> None then None else Some bs)"

text \<open>The group loop of an IPv6 literal: \<open>bs\<close> are the bytes so far, \<open>el\<close> where \<^verbatim>\<open>::\<close> stood.\<close>

function v6_loop :: "nat list \<Rightarrow> nat option \<Rightarrow> string \<Rightarrow> nat list option" where
  "v6_loop bs el s =
     (if length bs \<ge> 16 then (if s = [] then (if el = None then Some bs else None) else None)
      else
        let ds = takeWhile (\<lambda>c. hex_val c \<noteq> None) s; r = drop (length ds) s;
            acc = foldl (\<lambda>a c. 16 * a + the (hex_val c)) 0 ds
        in if length ds > 4 \<or> ds = [] then None
           else if r \<noteq> [] \<and> hd r = CHR ''.'' then
             (if el = None \<and> length bs \<noteq> 12 then None
              else if length bs + 4 > 16 then None
              else case parse_v4 s of
                     None \<Rightarrow> None
                   | Some q \<Rightarrow> v6_done (bs @ q) el)
           else if r = [] then v6_done (bs @ [acc div 256, acc mod 256]) el
           else if hd r \<noteq> CHR '':'' \<or> tl r = [] then None
           else if hd (tl r) = CHR '':'' then
             (if el \<noteq> None then None
              else if tl (tl r) = [] then v6_done (bs @ [acc div 256, acc mod 256]) (Some (length bs + 2))
              else v6_loop (bs @ [acc div 256, acc mod 256]) (Some (length bs + 2)) (tl (tl r)))
           else v6_loop (bs @ [acc div 256, acc mod 256]) el (tl r))"
  by pat_completeness auto
termination by (relation "measure (\<lambda>(bs, el, s). 16 - length bs)") auto

declare v6_loop.simps [simp del]

definition parse_v6 :: "string \<Rightarrow> nat list option" where
  "parse_v6 s =
     (if has_prefix ''::'' s
      then (if drop 2 s = [] then Some (replicate 16 0) else v6_loop [] (Some 0) (drop 2 s))
      else v6_loop [] None s)"

text \<open>\<^verbatim>\<open>net.ParseIP\<close>: the first of dot, colon and percent decides the family; zones are refused.\<close>

definition ParseIP :: "string \<Rightarrow> nat list option" where
  "ParseIP s =
     (case find (\<lambda>c. c = CHR ''.'' \<or> c = CHR '':'' \<or> c = CHR ''%'') s of
        None \<Rightarrow> None
      | Some c \<Rightarrow>
          if c = CHR ''.'' then parse_v4 s
          else if c = CHR '':'' then (if CHR ''%'' \<in> set s then None else parse_v6 s)
          else None)"

section \<open>The typed server object\<close>

definition dns_schemes :: "string list" where
  "dns_schemes = [''https'', ''h3'', ''tls'', ''quic'', ''tcp'', ''udp'']"

text \<open>The split at \<^verbatim>\<open>://\<close> and at the first slash, which the emitter and the validator share.\<close>

definition scheme_rest :: "string \<Rightarrow> string \<times> string" where
  "scheme_rest addr =
     (case index_str ''://'' addr of
        Some i \<Rightarrow> (take i addr, drop (i + 3) addr)
      | None \<Rightarrow> (''udp'', addr))"

definition host_path :: "string \<Rightarrow> string \<times> string" where
  "host_path rest =
     (case index_byte (CHR ''/'') rest of
        Some i \<Rightarrow> (take i rest, drop i rest)
      | None \<Rightarrow> (rest, []))"

definition dnsServer :: "string \<Rightarrow> string \<Rightarrow> string \<Rightarrow> obj" where
  "dnsServer tag addr detour =
     (let (scheme0, rest) = scheme_rest addr;
          (host, path) = host_path rest;
          (server, port) =
            (case SplitHostPort host of
               Some (h, p) \<Rightarrow> (case atoi p of Some n \<Rightarrow> (h, n) | None \<Rightarrow> (host, 0))
             | None \<Rightarrow> (host, 0));
          scheme = (if scheme0 \<in> set dns_schemes then scheme0 else ''udp'');
          s = [(''type'', VStr scheme), (''tag'', VStr tag), (''server'', VStr server)]
      in s @ (if detour \<noteq> [] \<and> detour \<noteq> ''direct'' then [(''detour'', VStr detour)] else [])
           @ (if port > 0 then [(''server_port'', VInt port)] else [])
           @ (if path \<noteq> [] \<and> (scheme = ''https'' \<or> scheme = ''h3'') then [(''path'', VStr path)] else []))"

definition label_char :: "char \<Rightarrow> bool" where
  "label_char c \<longleftrightarrow>
     (let n = (of_char c :: nat)
      in 97 \<le> n \<and> n \<le> 122 \<or> 65 \<le> n \<and> n \<le> 90 \<or> 48 \<le> n \<and> n \<le> 57 \<or>
         c = CHR ''-'' \<or> c = CHR ''_'')"

definition valid_label :: "string \<Rightarrow> bool" where
  "valid_label l \<longleftrightarrow>
     l \<noteq> [] \<and> length l \<le> 63 \<and> hd l \<noteq> CHR ''-'' \<and> last l \<noteq> CHR ''-'' \<and> list_all label_char l"

definition strip_brackets :: "string \<Rightarrow> string" where
  "strip_brackets h =
     (if has_prefix ''['' h \<and> has_suffix '']'' h then take (length h - 2) (drop 1 h) else h)"

definition validDNSHost :: "string \<Rightarrow> bool" where
  "validDNSHost h0 =
     (let h = strip_brackets h0
      in if h = [] then False
         else if ParseIP h \<noteq> None then True
         else if length h > 253 then False
         else list_all valid_label (split_on (CHR ''.'') h))"

definition ValidDNSServer :: "string \<Rightarrow> bool" where
  "ValidDNSServer addr =
     (if addr = [] then True
      else
        let (scheme, rest) = scheme_rest addr
        in if scheme \<notin> set dns_schemes then False
           else if CHR ''/'' \<in> set rest \<and> scheme \<noteq> ''https'' \<and> scheme \<noteq> ''h3'' then False
           else
             let host = fst (host_path rest)
             in case SplitHostPort host of
                  Some (h, p) \<Rightarrow>
                    (case atoi p of
                       None \<Rightarrow> False
                     | Some n \<Rightarrow> if n < 1 \<or> n > 65535 then False else validDNSHost h)
                | None \<Rightarrow> validDNSHost host)"

section \<open>Accepted addresses are emitted as written\<close>

text \<open>A resolver address the command boundary accepts becomes a server object whose type is the scheme
  the user wrote (plain UDP without one), whose host passes the host check, whose port is absent or in
  range, and whose path, if any, is everything from the first slash and only on a DoH type: nothing of an
  accepted address is silently replaced.\<close>

theorem accepted_dns_server_emitted:
  assumes "ValidDNSServer addr" and "addr \<noteq> []"
  shows "ostr (dnsServer tag addr detour) ''type'' = fst (scheme_rest addr) \<and>
    fst (scheme_rest addr) \<in> set dns_schemes \<and>
    validDNSHost (ostr (dnsServer tag addr detour) ''server'') \<and>
    (case oget (dnsServer tag addr detour) ''server_port'' of
       None \<Rightarrow> SplitHostPort (fst (host_path (snd (scheme_rest addr)))) = None
     | Some v \<Rightarrow> \<exists>n. v = VInt n \<and> 1 \<le> n \<and> n \<le> 65535) \<and>
    ostr (dnsServer tag addr detour) ''path'' = snd (host_path (snd (scheme_rest addr)))"
proof -
  obtain sch rest where sr: "scheme_rest addr = (sch, rest)" by fastforce
  obtain host path where hp: "host_path rest = (host, path)" by fastforce
  have sch: "sch \<in> set dns_schemes" and sl: "CHR ''/'' \<in> set rest \<longrightarrow> sch = ''https'' \<or> sch = ''h3''"
    using assms by (auto simp: ValidDNSServer_def sr split: if_splits)
  have path: "path \<noteq> [] \<longrightarrow> sch = ''https'' \<or> sch = ''h3''"
  proof (cases "find_index (\<lambda>x. x = CHR ''/'') rest")
    case None
    then show ?thesis using hp [unfolded host_path_def index_byte_def None] by simp
  next
    case (Some i)
    from find_index_SomeD [OF this] have "CHR ''/'' \<in> set rest" by (metis nth_mem)
    then show ?thesis using sl by simp
  qed
  show ?thesis
  proof (cases "SplitHostPort host")
    case None
    then have "validDNSHost host" using assms by (simp add: ValidDNSServer_def sr hp split: if_splits)
    with None path sch show ?thesis
      by (auto simp: dnsServer_def sr hp oget_append ostr_def)
  next
    case (Some q)
    obtain h p where q: "q = (h, p)" by fastforce
    show ?thesis
    proof (cases "atoi p")
      case None
      then show ?thesis using assms Some q by (simp add: ValidDNSServer_def sr hp split: if_splits)
    next
      case n: (Some n)
      then have "1 \<le> n" "n \<le> 65535" "validDNSHost h"
        using assms Some q by (simp_all add: ValidDNSServer_def sr hp split: if_splits)
      with n Some q path sch show ?thesis
        by (auto simp: dnsServer_def sr hp oget_append ostr_def)
    qed
  qed
qed

lemma accepted_dns_server_emitted_witness:
  "ostr (dnsServer ''dns-remote'' ''https://dns.example:8443/dns-query'' ''proxy'') ''type'' = ''https'' \<and>
   ostr (dnsServer ''dns-remote'' ''https://dns.example:8443/dns-query'' ''proxy'') ''path'' = ''/dns-query'' \<and>
   oget (dnsServer ''dns-remote'' ''https://dns.example:8443/dns-query'' ''proxy'') ''server_port'' = Some (VInt 8443)"
proof -
  let ?a = "''https://dns.example:8443/dns-query''"
  have v: "ValidDNSServer ?a" by code_simp
  have e: "fst (scheme_rest ?a) = ''https''" "snd (host_path (snd (scheme_rest ?a))) = ''/dns-query''"
    by code_simp+
  have p: "oget (dnsServer ''dns-remote'' ?a ''proxy'') ''server_port'' = Some (VInt 8443)" by code_simp
  show ?thesis
    using accepted_dns_server_emitted [OF v, of "''dns-remote''" "''proxy''"] e p by simp
qed

end
