(* ===== verification/Routing.thy ===== *)
theory Routing
  imports Routing_Lists Dns_Server
begin

text \<open>
  Routing intent to rules (\<^verbatim>\<open>core/routing\<close>): the options, their normalisation and validation, which
  rule-set files are usable, the gates of the direct pins, and the ordered route and DNS rules.

  Two things come from outside the package and are arguments: \<open>u\<close>, the Unicode case tables, and \<open>fe\<close>,
  the file system at the moment the configuration is assembled (\<^verbatim>\<open>os.Stat\<close> and \<^verbatim>\<open>filepath.Join\<close>).
\<close>

section \<open>Options\<close>

definition ModeSmart :: string where "ModeSmart = ''smart''"
definition ModeGlobal :: string where "ModeGlobal = ''global''"
definition ModeDirect :: string where "ModeDirect = ''direct''"
definition SplitOff :: string where "SplitOff = ''off''"
definition SplitExclude :: string where "SplitExclude = ''exclude''"
definition SplitInclude :: string where "SplitInclude = ''include''"
definition tagProxy :: string where "tagProxy = ''proxy''"
definition tagDirect :: string where "tagDirect = ''direct''"
definition dnsRemoteTag :: string where "dnsRemoteTag = ''dns-remote''"
definition dnsDirectTag :: string where "dnsDirectTag = ''dns-direct''"
definition ruleSetGeoIPRU :: string where "ruleSetGeoIPRU = ''geoip-ru''"
definition ruleSetGeositeRU :: string where "ruleSetGeositeRU = ''geosite-ru''"
definition ruleSetGeositeAds :: string where "ruleSetGeositeAds = ''geosite-ads''"
definition fileGeoIPRU :: string where "fileGeoIPRU = ''geoip-ru.srs''"
definition fileGeositeRU :: string where "fileGeositeRU = ''geosite-ru.srs''"
definition fileGeositeAds :: string where "fileGeositeAds = ''geosite-ads.srs''"
definition DefaultDNSRemote :: string where "DefaultDNSRemote = ''tls://1.1.1.1''"
definition DefaultDNSDirect :: string where "DefaultDNSDirect = ''https://77.88.8.8/dns-query''"
definition voicePortRange :: string where "voicePortRange = ''50000:65535''"

lemmas routing_consts =
  ModeSmart_def ModeGlobal_def ModeDirect_def SplitOff_def SplitExclude_def SplitInclude_def
  tagProxy_def tagDirect_def dnsRemoteTag_def dnsDirectTag_def ruleSetGeoIPRU_def ruleSetGeositeRU_def
  ruleSetGeositeAds_def fileGeoIPRU_def fileGeositeRU_def fileGeositeAds_def

record options =
  Mode :: string
  BypassLAN :: bool
  IPv4Only :: bool
  KillSwitch :: bool
  TLSFragment :: bool
  DNSRemote :: string
  DNSDirect :: string
  AdBlock :: bool
  ZapretActive :: bool
  ZapretCovered :: "string list"
  UnblockServices :: bool
  GamesDirect :: bool
  VoiceDirect :: bool
  SplitMode :: string
  SplitApps :: "string list"
  RulesDirect :: "string list"
  RulesProxy :: "string list"
  PresetRuBanking :: bool
  PresetRuGov :: bool
  Multihop :: bool
  MultihopEntry :: string
  MultihopExit :: string
  RuleSetDir :: string

text \<open>\<open>stat_dir p\<close> is whether \<open>p\<close> is a directory, or nothing where \<^verbatim>\<open>os.Stat\<close> fails.\<close>

record file_env =
  stat_dir :: "string \<Rightarrow> bool option"
  path_join :: "string \<Rightarrow> string \<Rightarrow> string"

definition Normalize :: "case_table \<Rightarrow> options \<Rightarrow> options" where
  "Normalize u o0 =
     o0\<lparr>Mode := (if Mode o0 = ModeSmart \<or> Mode o0 = ModeGlobal \<or> Mode o0 = ModeDirect then Mode o0
                 else ModeSmart),
        DNSRemote := (if DNSRemote o0 = [] then DefaultDNSRemote else DNSRemote o0),
        DNSDirect := (if DNSDirect o0 = [] then DefaultDNSDirect else DNSDirect o0),
        SplitMode := (if SplitMode o0 = SplitExclude \<or> SplitMode o0 = SplitInclude then SplitMode o0
                      else SplitOff),
        SplitApps := normalizeApps u (SplitApps o0),
        RulesDirect := normalizeSuffixes u (RulesDirect o0),
        RulesProxy := normalizeSuffixes u (RulesProxy o0),
        ZapretCovered := normalizeSuffixes u (ZapretCovered o0)\<rparr>"

datatype options_error =
    Unknown_mode string
  | Empty_remote_DNS
  | Empty_direct_DNS
  | Unknown_split_mode string
  | Invalid_direct_suffix string
  | Invalid_proxy_suffix string

definition Validate :: "case_table \<Rightarrow> options \<Rightarrow> options_error option" where
  "Validate u o0 =
     (if \<not> (Mode o0 = ModeSmart \<or> Mode o0 = ModeGlobal \<or> Mode o0 = ModeDirect) then Some (Unknown_mode (Mode o0))
      else if DNSRemote o0 = [] then Some Empty_remote_DNS
      else if DNSDirect o0 = [] then Some Empty_direct_DNS
      else if \<not> (SplitMode o0 = [] \<or> SplitMode o0 = SplitOff \<or> SplitMode o0 = SplitExclude \<or>
                SplitMode o0 = SplitInclude) then Some (Unknown_split_mode (SplitMode o0))
      else case find (\<lambda>s. \<not> ValidDomainSuffix u s) (RulesDirect o0) of
             Some s \<Rightarrow> Some (Invalid_direct_suffix s)
           | None \<Rightarrow> map_option Invalid_proxy_suffix (find (\<lambda>s. \<not> ValidDomainSuffix u s) (RulesProxy o0)))"

section \<open>Rule-set files\<close>

definition ruleSetFilePresent :: "file_env \<Rightarrow> options \<Rightarrow> string \<Rightarrow> bool" where
  "ruleSetFilePresent fe o0 fname =
     (if RuleSetDir o0 = [] then False
      else stat_dir fe (path_join fe (RuleSetDir o0) fname) = Some False)"

definition geoRuleSetsReady :: "file_env \<Rightarrow> options \<Rightarrow> bool" where
  "geoRuleSetsReady fe o0 \<longleftrightarrow> ruleSetFilePresent fe o0 fileGeoIPRU \<and> ruleSetFilePresent fe o0 fileGeositeRU"

definition smartGeoActive :: "file_env \<Rightarrow> options \<Rightarrow> bool" where
  "smartGeoActive fe o0 \<longleftrightarrow> Mode o0 = ModeSmart \<and> geoRuleSetsReady fe o0"

definition SmartGeoDegraded :: "file_env \<Rightarrow> options \<Rightarrow> bool" where
  "SmartGeoDegraded fe o0 \<longleftrightarrow> Mode o0 = ModeSmart \<and> \<not> geoRuleSetsReady fe o0"

definition MissingRuleSets :: "file_env \<Rightarrow> options \<Rightarrow> string list" where
  "MissingRuleSets fe o0 =
     (let want = (if Mode o0 = ModeSmart then [fileGeoIPRU, fileGeositeRU] else []) @
                 (if AdBlock o0 then [fileGeositeAds] else [])
      in map (\<lambda>f. if RuleSetDir o0 = [] then f else path_join fe (RuleSetDir o0) f)
           (filter (\<lambda>f. \<not> ruleSetFilePresent fe o0 f) want))"

definition adBlockActive :: "file_env \<Rightarrow> options \<Rightarrow> bool" where
  "adBlockActive fe o0 \<longleftrightarrow> AdBlock o0 \<and> ruleSetFilePresent fe o0 fileGeositeAds"

section \<open>Gates\<close>

definition directPinAllowed :: "options \<Rightarrow> bool" where
  "directPinAllowed o0 \<longleftrightarrow> Mode o0 \<noteq> ModeDirect \<and> \<not> KillSwitch o0"

definition strategy :: "options \<Rightarrow> string" where
  "strategy o0 = (if IPv4Only o0 then ''ipv4_only'' else [])"

definition rulesActive :: "options \<Rightarrow> bool" where
  "rulesActive o0 \<longleftrightarrow> Mode o0 \<noteq> ModeDirect"

definition unblockActive :: "options \<Rightarrow> bool" where
  "unblockActive o0 \<longleftrightarrow> UnblockServices o0 \<and> Mode o0 \<noteq> ModeDirect"

definition gamesDirectActive :: "options \<Rightarrow> bool" where
  "gamesDirectActive o0 \<longleftrightarrow> GamesDirect o0 \<and> directPinAllowed o0"

definition voiceDirectActive :: "options \<Rightarrow> bool" where
  "voiceDirectActive o0 \<longleftrightarrow> VoiceDirect o0 \<and> directPinAllowed o0"

definition lanBypassActive :: "options \<Rightarrow> bool" where
  "lanBypassActive o0 \<longleftrightarrow> BypassLAN o0 \<and> directPinAllowed o0"

section \<open>Which names and applications go where\<close>

definition directRuleSuffixes :: "case_table \<Rightarrow> options \<Rightarrow> string list" where
  "directRuleSuffixes u o0 =
     (if \<not> directPinAllowed o0 then []
      else normalizeSuffixes u
             (RulesDirect o0 @ (if PresetRuBanking o0 then presetRuBankingSuffixes else []) @
              (if PresetRuGov o0 then presetRuGovSuffixes else [])))"

definition proxyRuleSuffixes :: "case_table \<Rightarrow> options \<Rightarrow> string list" where
  "proxyRuleSuffixes u o0 = (if \<not> rulesActive o0 then [] else normalizeSuffixes u (RulesProxy o0))"

definition coverage :: "options \<Rightarrow> string list" where
  "coverage o0 = (if length (ZapretCovered o0) > 0 then ZapretCovered o0 else defaultZapretCovered)"

definition zapretDirectSuffixes :: "case_table \<Rightarrow> options \<Rightarrow> string list" where
  "zapretDirectSuffixes u o0 =
     (if \<not> ZapretActive o0 \<or> \<not> directPinAllowed o0 then []
      else normalizeSuffixes u (filter (coveredByZapret (coverage o0)) blockedServiceSuffixes))"

definition proxySuffixesWithPresets :: "case_table \<Rightarrow> options \<Rightarrow> string list" where
  "proxySuffixesWithPresets u o0 =
     (let base = proxyRuleSuffixes u o0
      in if \<not> unblockActive o0 then base
         else
           let direct = zapretDirectSuffixes u o0
           in normalizeSuffixes u
                (base @ (if length direct > 0
                         then filter (\<lambda>s. \<not> coveredByZapret direct s) blockedServiceSuffixes
                         else blockedServiceSuffixes)))"

definition splitAppsWithPresets :: "case_table \<Rightarrow> options \<Rightarrow> string list" where
  "splitAppsWithPresets u o0 =
     (if \<not> gamesDirectActive o0 then SplitApps o0
      else normalizeApps u (SplitApps o0 @ gameProcesses))"

definition directSplitApps :: "case_table \<Rightarrow> options \<Rightarrow> string list" where
  "directSplitApps u o0 =
     (if SplitMode o0 = SplitInclude then []
      else if SplitMode o0 = SplitExclude then splitAppsWithPresets u o0
      else if \<not> gamesDirectActive o0 then []
      else normalizeApps u gameProcesses)"

section \<open>The route rules\<close>

definition local_set :: "file_env \<Rightarrow> options \<Rightarrow> string \<Rightarrow> string \<Rightarrow> obj" where
  "local_set fe o0 tag file =
     [(''type'', VStr ''local''), (''tag'', VStr tag), (''format'', VStr ''binary''),
      (''path'', VStr (path_join fe (RuleSetDir o0) file))]"

definition RouteRuleSets :: "file_env \<Rightarrow> options \<Rightarrow> obj list" where
  "RouteRuleSets fe o0 =
     (if smartGeoActive fe o0
      then [local_set fe o0 ruleSetGeoIPRU fileGeoIPRU, local_set fe o0 ruleSetGeositeRU fileGeositeRU]
      else []) @
     (if adBlockActive fe o0 then [local_set fe o0 ruleSetGeositeAds fileGeositeAds] else [])"

definition route :: "obj \<Rightarrow> string \<Rightarrow> obj" where
  "route m outbound = oset ''outbound'' (VStr outbound) (oset ''action'' (VStr ''route'') m)"

definition includeOnly :: "options \<Rightarrow> bool" where
  "includeOnly o0 \<longleftrightarrow> SplitMode o0 = SplitInclude \<and> length (SplitApps o0) > 0"

definition RouteRules :: "case_table \<Rightarrow> file_env \<Rightarrow> options \<Rightarrow> obj list" where
  "RouteRules u fe o0 =
     [[(''action'', VStr ''sniff'')],
      [(''protocol'', VStr ''dns''), (''action'', VStr ''hijack-dns'')]] @
     (if SplitMode o0 = SplitInclude
      then (if length (SplitApps o0) > 0 then [route [(''process_name'', VStrs (SplitApps o0))] tagProxy] else [])
      else let apps = directSplitApps u o0
           in if length apps > 0 then [route [(''process_name'', VStrs apps)] tagDirect] else []) @
     (if voiceDirectActive o0
      then [route [(''network'', VStr ''udp''), (''port_range'', VStrs [voicePortRange])] tagDirect] else []) @
     (let direct = directRuleSuffixes u o0
      in if length direct > 0 then [route [(''domain_suffix'', VStrs direct)] tagDirect] else []) @
     (let bypass = zapretDirectSuffixes u o0
      in if length bypass > 0 then [route [(''domain_suffix'', VStrs bypass)] tagDirect] else []) @
     (let prox = proxySuffixesWithPresets u o0
      in if length prox > 0 then [route [(''domain_suffix'', VStrs prox)] tagProxy] else []) @
     (if \<not> includeOnly o0 \<and> smartGeoActive fe o0
      then [route [(''rule_set'', VStrs [ruleSetGeoIPRU, ruleSetGeositeRU])] tagDirect] else []) @
     (if lanBypassActive o0 then [route [(''ip_is_private'', VBool True)] tagDirect] else [])"

definition DefaultDomainResolver :: "options \<Rightarrow> obj" where
  "DefaultDomainResolver o0 = [(''server'', VStr dnsDirectTag)]"

definition FinalOutbound :: "options \<Rightarrow> string" where
  "FinalOutbound o0 =
     (if SplitMode o0 = SplitInclude \<and> length (SplitApps o0) > 0 then tagDirect
      else if Mode o0 = ModeDirect then tagDirect
      else tagProxy)"

section \<open>The DNS block\<close>

definition dnsRejectRule :: "string \<Rightarrow> obj" where
  "dnsRejectRule ruleSet =
     [(''rule_set'', VStrs [ruleSet]), (''action'', VStr ''reject''), (''method'', VStr ''default''),
      (''no_drop'', VBool True)]"

definition dns_route :: "string \<Rightarrow> goval \<Rightarrow> string \<Rightarrow> obj" where
  "dns_route k v server = [(k, v), (''action'', VStr ''route''), (''server'', VStr server)]"

definition dnsRules :: "case_table \<Rightarrow> file_env \<Rightarrow> options \<Rightarrow> obj list" where
  "dnsRules u fe o0 =
     (if adBlockActive fe o0 then [dnsRejectRule ruleSetGeositeAds] else []) @
     (if SplitMode o0 = SplitInclude \<and> length (SplitApps o0) > 0
      then [dns_route ''process_name'' (VStrs (SplitApps o0)) dnsRemoteTag] else []) @
     (let apps = directSplitApps u o0
      in if length apps > 0 then [dns_route ''process_name'' (VStrs apps) dnsDirectTag] else []) @
     (let direct = directRuleSuffixes u o0
      in if length direct > 0 then [dns_route ''domain_suffix'' (VStrs direct) dnsDirectTag] else []) @
     (let bypass = zapretDirectSuffixes u o0
      in if length bypass > 0 then [dns_route ''domain_suffix'' (VStrs bypass) dnsDirectTag] else []) @
     (let prox = proxySuffixesWithPresets u o0
      in if length prox > 0 then [dns_route ''domain_suffix'' (VStrs prox) dnsRemoteTag] else []) @
     (if smartGeoActive fe o0
      then [dns_route ''rule_set'' (VStrs [ruleSetGeositeRU]) dnsDirectTag] else [])"

definition dnsFinal :: "options \<Rightarrow> string" where
  "dnsFinal o0 = (if Mode o0 = ModeDirect then dnsDirectTag else dnsRemoteTag)"

definition DNS :: "case_table \<Rightarrow> file_env \<Rightarrow> options \<Rightarrow> obj" where
  "DNS u fe o0 =
     [(''servers'', VObjs [dnsServer dnsRemoteTag (DNSRemote o0) tagProxy,
                           dnsServer dnsDirectTag (DNSDirect o0) tagDirect]),
      (''rules'', VObjs (dnsRules u fe o0)), (''final'', VStr (dnsFinal o0))] @
     (if strategy o0 \<noteq> [] then [(''strategy'', VStr (strategy o0))] else [])"

end
