(* ===== verification/Routing_Props.thy ===== *)
theory Routing_Props
  imports Routing
begin

text \<open>
  What the generated rules guarantee.  A rule list is read the way the code's comments describe it: the
  first rule whose match fields hold and whose action is \<^verbatim>\<open>route\<close> decides, the final outbound or server
  otherwise.  Whether match fields hold for a connection is sing-box's business and stays a parameter.
\<close>

section \<open>Reading a rule list\<close>

definition match_fields :: "obj \<Rightarrow> obj" where
  "match_fields r = filter (\<lambda>kv. fst kv \<noteq> ''action'' \<and> fst kv \<noteq> ''outbound'' \<and> fst kv \<noteq> ''server'') r"

definition decide :: "(obj \<Rightarrow> bool) \<Rightarrow> string \<Rightarrow> string \<Rightarrow> obj list \<Rightarrow> string" where
  "decide hit target final rs =
     (case find (\<lambda>r. ostr r ''action'' = ''route'' \<and> hit (match_fields r)) rs of
        None \<Rightarrow> final
      | Some r \<Rightarrow> ostr r target)"

lemma decide_Nil [simp]: "decide hit t f [] = f"
  by (simp add: decide_def)

lemma decide_Cons:
  "decide hit t f (r # rs) =
     (if ostr r ''action'' = ''route'' \<and> hit (match_fields r) then ostr r t else decide hit t f rs)"
  by (simp add: decide_def)

lemma decide_append: "decide hit t f (xs @ ys) = decide hit t (decide hit t f ys) xs"
  by (induction xs) (simp_all add: decide_Cons)

lemma decide_hit:
  "list_all (\<lambda>r. ostr r ''action'' \<noteq> ''route'' \<or> \<not> hit (match_fields r)) xs \<Longrightarrow>
     ostr r ''action'' = ''route'' \<Longrightarrow> hit (match_fields r) \<Longrightarrow> decide hit t f (xs @ r # ys) = ostr r t"
  by (induction xs) (auto simp: decide_Cons)

lemma decide_opt:
  "decide hit t f ((if c then [r] else []) @ rs) =
     (if c \<and> ostr r ''action'' = ''route'' \<and> hit (match_fields r) then ostr r t else decide hit t f rs)"
  "decide hit t f (if c then [r] else []) =
     (if c \<and> ostr r ''action'' = ''route'' \<and> hit (match_fields r) then ostr r t else f)"
  by (simp_all add: decide_Cons)

lemma route_fields [simp]:
  "ostr (route [(k, v)] tag) ''action'' = ''route''"
  "ostr (route [(k, v)] tag) ''outbound'' = tag"
  "k \<notin> {''action'', ''outbound'', ''server''} \<Longrightarrow> match_fields (route [(k, v)] tag) = [(k, v)]"
  "ostrs (route [(k, v)] tag) ''rule_set'' = (if k = ''rule_set'' then ostrs [(k, v)] k else [])"
  by (auto simp: route_def oset_def match_fields_def ostr_def ostrs_def oget_append)

lemma voice_fields [simp]:
  "ostr (route [(''network'', v), (''port_range'', w)] tag) ''action'' = ''route''"
  "ostr (route [(''network'', v), (''port_range'', w)] tag) ''outbound'' = tag"
  "ostrs (route [(''network'', v), (''port_range'', w)] tag) ''rule_set'' = []"
  "match_fields (route [(''network'', v), (''port_range'', w)] tag) = [(''network'', v), (''port_range'', w)]"
  by (auto simp: route_def oset_def match_fields_def)

lemma dns_route_fields [simp]:
  "k \<noteq> ''action'' \<Longrightarrow> ostr (dns_route k v tag) ''action'' = ''route''"
  "k \<noteq> ''server'' \<Longrightarrow> ostr (dns_route k v tag) ''server'' = tag"
  "k \<notin> {''action'', ''outbound'', ''server''} \<Longrightarrow> match_fields (dns_route k v tag) = [(k, v)]"
  "ostrs (dns_route k v tag) ''rule_set'' = (if k = ''rule_set'' then ostrs [(k, v)] k else [])"
  by (auto simp: dns_route_def match_fields_def)

section \<open>Presets are canonical\<close>

definition clean :: "string \<Rightarrow> bool" where
  "clean s \<longleftrightarrow> s \<noteq> [] \<and> list_all ascii s \<and> map ascii_lower s = s \<and> trimmed s \<and> list_all suffix_char s"

lemma suffix_char_code: "suffix_char c \<Longrightarrow> (of_char c :: nat) \<in> {45, 46} \<union> {48..57} \<union> {97..122}"
  by (auto simp: suffix_char_def Let_def)

lemma suffix_char_lower: "suffix_char c \<Longrightarrow> ascii c \<and> 33 \<le> (of_char c :: nat) \<and> ascii_lower c = c"
  using suffix_char_code [of c] by (auto simp: ascii_def ascii_lower_def)

lemma clean_suffix: "s \<noteq> [] \<Longrightarrow> list_all suffix_char s \<Longrightarrow> clean s"
  using suffix_char_lower unfolding clean_def
  by (intro conjI trimmed_visible map_idI) (auto simp: list_all_iff)

lemma presets_chars:
  "list_all (\<lambda>s. s \<noteq> [] \<and> list_all suffix_char s) blockedServiceSuffixes"
  "list_all (\<lambda>s. s \<noteq> [] \<and> list_all suffix_char s) presetRuBankingSuffixes"
  "list_all (\<lambda>s. s \<noteq> [] \<and> list_all suffix_char s) presetRuGovSuffixes"
  by code_simp+

lemma presets_clean:
  "list_all clean blockedServiceSuffixes" "list_all clean presetRuBankingSuffixes"
  "list_all clean presetRuGovSuffixes"
  using presets_chars by (auto simp: list_all_iff intro!: clean_suffix)

lemma clean_canon: "clean s \<Longrightarrow> canon u s = s"
  by (simp add: clean_def canon_def trim_space_trimmed)

lemma blocked_distinct: "distinct blockedServiceSuffixes"
  by code_simp

lemma blocked_clean: "s \<in> set blockedServiceSuffixes \<Longrightarrow> clean s"
  using presets_clean(1) by (simp add: list_all_iff)

lemma set_normalize_blocked:
  "set (normalizeSuffixes u (xs @ filter P blockedServiceSuffixes)) =
     (canon u ` set xs - {[]}) \<union> {s \<in> set blockedServiceSuffixes. P s}"
proof -
  have "canon u ` {s \<in> set blockedServiceSuffixes. P s} = {s \<in> set blockedServiceSuffixes. P s}"
    using clean_canon [OF blocked_clean] by (auto simp: image_iff)
  moreover have "[] \<notin> set blockedServiceSuffixes" using blocked_clean by (auto simp: clean_def)
  ultimately show ?thesis by (auto simp: image_Un)
qed

lemma set_zapretDirect:
  "set (zapretDirectSuffixes u o0) =
     (if ZapretActive o0 \<and> directPinAllowed o0
      then {s \<in> set blockedServiceSuffixes. coveredByZapret (coverage o0) s} else {})"
  using set_normalize_blocked [of u "[]"] by (simp add: zapretDirectSuffixes_def)

lemma covered_iff: "coveredByZapret cs d \<longleftrightarrow> (\<exists>c\<in>set cs. d = c \<or> (\<exists>t. d = t @ CHR ''.'' # c))"
  by (simp add: coveredByZapret_def list_ex_iff has_suffix_append)

lemma covered_trans:
  "coveredByZapret ds s \<Longrightarrow> (\<And>d. d \<in> set ds \<Longrightarrow> coveredByZapret cs d) \<Longrightarrow> coveredByZapret cs s"
  unfolding covered_iff by (metis append.assoc append_Cons)

lemma covered_direct:
  assumes "s \<in> set blockedServiceSuffixes"
  shows "coveredByZapret (zapretDirectSuffixes u o0) s \<longleftrightarrow> s \<in> set (zapretDirectSuffixes u o0)"
proof
  show "s \<in> set (zapretDirectSuffixes u o0) \<Longrightarrow> coveredByZapret (zapretDirectSuffixes u o0) s"
    by (auto simp: covered_iff)
  assume cov: "coveredByZapret (zapretDirectSuffixes u o0) s"
  then have "ZapretActive o0 \<and> directPinAllowed o0"
    using set_zapretDirect [of u o0] by (fastforce simp: covered_iff split: if_splits)
  moreover from this have "coveredByZapret (coverage o0) s"
    using cov by (elim covered_trans) (simp add: set_zapretDirect)
  ultimately show "s \<in> set (zapretDirectSuffixes u o0)" using assms by (simp add: set_zapretDirect)
qed

lemma set_proxySuffixes:
  "set (proxySuffixesWithPresets u o0) =
     (if unblockActive o0
      then (canon u ` set (proxyRuleSuffixes u o0) - {[]}) \<union>
           (set blockedServiceSuffixes - set (zapretDirectSuffixes u o0))
      else set (proxyRuleSuffixes u o0))"
proof -
  have eq: "filter (\<lambda>s. \<not> coveredByZapret (zapretDirectSuffixes u o0) s) blockedServiceSuffixes =
      filter (\<lambda>s. s \<notin> set (zapretDirectSuffixes u o0)) blockedServiceSuffixes"
    by (rule filter_cong) (simp_all add: covered_direct)
  show ?thesis
  proof (cases "zapretDirectSuffixes u o0 = []")
    case True
    then show ?thesis
      using set_normalize_blocked [of u "proxyRuleSuffixes u o0" "\<lambda>_. True"]
      by (simp add: proxySuffixesWithPresets_def Let_def)
  next
    case False
    then show ?thesis
      using set_normalize_blocked [of u "proxyRuleSuffixes u o0" "\<lambda>s. s \<notin> set (zapretDirectSuffixes u o0)"]
      by (auto simp: proxySuffixesWithPresets_def Let_def eq)
  qed
qed

text \<open>With the blocked-services preset on (outside direct mode) and no user rule naming the service, the
  running DPI bypass and the tunnel split the preset exactly: a service is pinned direct precisely when
  the bypass runs, direct pins are allowed and its coverage names the service or a parent of it, and it
  is pinned to the proxy otherwise; never both and never neither.\<close>

theorem preset_split_exact:
  assumes "unblockActive o0" and "s \<in> set blockedServiceSuffixes"
    and "s \<notin> canon u ` set (proxyRuleSuffixes u o0)"
  shows "(s \<in> set (zapretDirectSuffixes u o0) \<longleftrightarrow>
      ZapretActive o0 \<and> directPinAllowed o0 \<and> coveredByZapret (coverage o0) s) \<and>
    (s \<in> set (proxySuffixesWithPresets u o0) \<longleftrightarrow> s \<notin> set (zapretDirectSuffixes u o0))"
proof
  show "s \<in> set (zapretDirectSuffixes u o0) \<longleftrightarrow>
      ZapretActive o0 \<and> directPinAllowed o0 \<and> coveredByZapret (coverage o0) s"
    using assms(2) by (auto simp: set_zapretDirect)
  show "s \<in> set (proxySuffixesWithPresets u o0) \<longleftrightarrow> s \<notin> set (zapretDirectSuffixes u o0)"
    using assms by (auto simp: set_proxySuffixes)
qed


section \<open>Rules and their rule sets\<close>

lemma route_rules_cases:
  assumes "r \<in> set (RouteRules u fe o0)"
  obtains
    (sniff) "r = [(''action'', VStr ''sniff'')]"
  | (hijack) "r = [(''protocol'', VStr ''dns''), (''action'', VStr ''hijack-dns'')]"
  | (included) "includeOnly o0" "r = route [(''process_name'', VStrs (SplitApps o0))] tagProxy"
  | (excluded) "SplitMode o0 \<noteq> SplitInclude" "directSplitApps u o0 \<noteq> []"
      "r = route [(''process_name'', VStrs (directSplitApps u o0))] tagDirect"
  | (voice) "voiceDirectActive o0"
      "r = route [(''network'', VStr ''udp''), (''port_range'', VStrs [voicePortRange])] tagDirect"
  | (direct) "directRuleSuffixes u o0 \<noteq> []"
      "r = route [(''domain_suffix'', VStrs (directRuleSuffixes u o0))] tagDirect"
  | (bypass) "zapretDirectSuffixes u o0 \<noteq> []"
      "r = route [(''domain_suffix'', VStrs (zapretDirectSuffixes u o0))] tagDirect"
  | (prox) "proxySuffixesWithPresets u o0 \<noteq> []"
      "r = route [(''domain_suffix'', VStrs (proxySuffixesWithPresets u o0))] tagProxy"
  | (geo) "\<not> includeOnly o0" "smartGeoActive fe o0"
      "r = route [(''rule_set'', VStrs [ruleSetGeoIPRU, ruleSetGeositeRU])] tagDirect"
  | (lan) "lanBypassActive o0" "r = route [(''ip_is_private'', VBool True)] tagDirect"
proof -
  have if_mem: "x \<in> set (if c then [y] else []) \<longleftrightarrow> c \<and> x = y" for c and x y :: obj by auto
  show thesis
    using assms that
    unfolding RouteRules_def Let_def set_append Un_iff if_mem if_distrib [of "\<lambda>l. r \<in> set l"] includeOnly_def
    by (auto split: if_splits)
qed

lemma dns_rules_cases:
  assumes "r \<in> set (dnsRules u fe o0)"
  obtains
    (ads) "adBlockActive fe o0" "r = dnsRejectRule ruleSetGeositeAds"
  | (included) "includeOnly o0" "r = dns_route ''process_name'' (VStrs (SplitApps o0)) dnsRemoteTag"
  | (excluded) "directSplitApps u o0 \<noteq> []"
      "r = dns_route ''process_name'' (VStrs (directSplitApps u o0)) dnsDirectTag"
  | (direct) "directRuleSuffixes u o0 \<noteq> []"
      "r = dns_route ''domain_suffix'' (VStrs (directRuleSuffixes u o0)) dnsDirectTag"
  | (bypass) "zapretDirectSuffixes u o0 \<noteq> []"
      "r = dns_route ''domain_suffix'' (VStrs (zapretDirectSuffixes u o0)) dnsDirectTag"
  | (prox) "proxySuffixesWithPresets u o0 \<noteq> []"
      "r = dns_route ''domain_suffix'' (VStrs (proxySuffixesWithPresets u o0)) dnsRemoteTag"
  | (geo) "smartGeoActive fe o0" "r = dns_route ''rule_set'' (VStrs [ruleSetGeositeRU]) dnsDirectTag"
proof -
  have if_mem: "x \<in> set (if c then [y] else []) \<longleftrightarrow> c \<and> x = y" for c and x y :: obj by auto
  show thesis
    using assms that unfolding dnsRules_def Let_def set_append Un_iff if_mem includeOnly_def by auto
qed

definition referenced_sets :: "obj list \<Rightarrow> string set" where
  "referenced_sets rs = (\<Union>r\<in>set rs. set (ostrs r ''rule_set''))"

definition defined_sets :: "obj list \<Rightarrow> string set" where
  "defined_sets rs = (\<lambda>r. ostr r ''tag'') ` set rs"

lemma defined_RouteRuleSets:
  "defined_sets (RouteRuleSets fe o0) =
     (if smartGeoActive fe o0 then {ruleSetGeoIPRU, ruleSetGeositeRU} else {}) \<union>
     (if adBlockActive fe o0 then {ruleSetGeositeAds} else {})"
  by (cases "smartGeoActive fe o0"; cases "adBlockActive fe o0")
    (auto simp: defined_sets_def RouteRuleSets_def local_set_def)

text \<open>Every rule-set tag a route or DNS rule names is defined in the route block of the same options, the
  definitions have distinct tags, and each names a path that is a regular file at that moment: sing-box
  never meets a rule set it cannot open, whatever the state of the resources directory.\<close>

theorem rule_sets_defined_and_present:
  "referenced_sets (RouteRules u fe o0) \<union> referenced_sets (dnsRules u fe o0) \<subseteq>
     defined_sets (RouteRuleSets fe o0) \<and>
   distinct (map (\<lambda>r. ostr r ''tag'') (RouteRuleSets fe o0)) \<and>
   list_all (\<lambda>r. stat_dir fe (ostr r ''path'') = Some False) (RouteRuleSets fe o0)"
proof (intro conjI)
  have "set (ostrs r ''rule_set'') \<subseteq> defined_sets (RouteRuleSets fe o0)" if "r \<in> set (RouteRules u fe o0)" for r
    using that by (cases rule: route_rules_cases) (simp_all add: defined_RouteRuleSets)
  moreover have "set (ostrs r ''rule_set'') \<subseteq> defined_sets (RouteRuleSets fe o0)"
    if "r \<in> set (dnsRules u fe o0)" for r
    using that by (cases rule: dns_rules_cases) (simp_all add: defined_RouteRuleSets dnsRejectRule_def)
  ultimately show "referenced_sets (RouteRules u fe o0) \<union> referenced_sets (dnsRules u fe o0) \<subseteq>
      defined_sets (RouteRuleSets fe o0)"
    by (auto simp: referenced_sets_def)
  show "distinct (map (\<lambda>r. ostr r ''tag'') (RouteRuleSets fe o0))"
    by (cases "smartGeoActive fe o0"; cases "adBlockActive fe o0")
      (simp_all add: RouteRuleSets_def local_set_def routing_consts)
  show "list_all (\<lambda>r. stat_dir fe (ostr r ''path'') = Some False) (RouteRuleSets fe o0)"
    by (auto simp: RouteRuleSets_def local_set_def smartGeoActive_def geoRuleSetsReady_def adBlockActive_def
        ruleSetFilePresent_def split: if_splits)
qed

text \<open>The diagnostics agree with the emitted rules: the missing-file list is empty exactly when neither
  degradation happens (smart mode without its geodata, ad blocking asked for but without its list), and
  smart mode that is not degraded emits its geo rules.\<close>

theorem missing_rule_sets_diagnose:
  "(MissingRuleSets fe o0 = [] \<longleftrightarrow>
      \<not> SmartGeoDegraded fe o0 \<and> (AdBlock o0 = adBlockActive fe o0)) \<and>
   (Mode o0 = ModeSmart \<and> \<not> SmartGeoDegraded fe o0 \<longleftrightarrow> smartGeoActive fe o0)"
  by (auto simp: MissingRuleSets_def SmartGeoDegraded_def smartGeoActive_def geoRuleSetsReady_def
      adBlockActive_def filter_empty_conv)

section \<open>Nothing leaks under the kill switch\<close>

lemma pins_off:
  "\<not> directPinAllowed o0 \<Longrightarrow> \<not> voiceDirectActive o0 \<and> \<not> gamesDirectActive o0 \<and> \<not> lanBypassActive o0 \<and>
     directRuleSuffixes u o0 = [] \<and> zapretDirectSuffixes u o0 = []"
  by (simp add: voiceDirectActive_def gamesDirectActive_def lanBypassActive_def directRuleSuffixes_def
      zapretDirectSuffixes_def)

lemma pins_off_apps:
  "\<not> directPinAllowed o0 \<Longrightarrow> directSplitApps u o0 = (if SplitMode o0 = SplitExclude then SplitApps o0 else [])"
  using pins_off by (auto simp: directSplitApps_def splitAppsWithPresets_def routing_consts)

definition direct_rules :: "string \<Rightarrow> string \<Rightarrow> obj list \<Rightarrow> obj list" where
  "direct_rules k tag rs = filter (\<lambda>r. ostr r k = tag) rs"

definition chosen_direct :: "options \<Rightarrow> obj \<Rightarrow> bool" where
  "chosen_direct o0 r \<longleftrightarrow>
     SplitMode o0 = SplitExclude \<and> match_fields r = [(''process_name'', VStrs (SplitApps o0))]"

definition geo_direct :: "options \<Rightarrow> obj \<Rightarrow> bool" where
  "geo_direct o0 r \<longleftrightarrow> Mode o0 = ModeSmart \<and> ruleSetGeositeRU \<in> set (ostrs r ''rule_set'')"

text \<open>C24. With the kill switch armed, the only rules that send traffic or a lookup outside the tunnel are the
  application list the user typed in exclude mode and the geo split of smart mode: no preset, no voice
  rule, no user domain rule, no LAN rule, and nothing the DPI bypass covers.  Outside direct mode and
  include mode, everything unmatched stays in the tunnel, for traffic and lookups alike.\<close>

theorem kill_switch_only_chosen_direct:
  assumes "KillSwitch o0"
  shows "list_all (\<lambda>r. chosen_direct o0 r \<or> geo_direct o0 r) (direct_rules ''outbound'' tagDirect (RouteRules u fe o0)) \<and>
    list_all (\<lambda>r. chosen_direct o0 r \<or> geo_direct o0 r) (direct_rules ''server'' dnsDirectTag (dnsRules u fe o0)) \<and>
    (Mode o0 \<noteq> ModeDirect \<longrightarrow> dnsFinal o0 = dnsRemoteTag \<and> (\<not> includeOnly o0 \<longrightarrow> FinalOutbound o0 = tagProxy))"
proof -
  have np: "\<not> directPinAllowed o0" using assms by (simp add: directPinAllowed_def)
  note off = pins_off [OF np, of u] pins_off_apps [OF np, of u]
  have "chosen_direct o0 r \<or> geo_direct o0 r" if "r \<in> set (RouteRules u fe o0)" "ostr r ''outbound'' = tagDirect" for r
    using that
    by (cases rule: route_rules_cases)
      (use off in \<open>auto simp: chosen_direct_def geo_direct_def smartGeoActive_def tagProxy_def tagDirect_def split: if_splits\<close>)
  moreover have "chosen_direct o0 r \<or> geo_direct o0 r"
    if "r \<in> set (dnsRules u fe o0)" "ostr r ''server'' = dnsDirectTag" for r
    using that
    by (cases rule: dns_rules_cases)
      (use off in \<open>auto simp: chosen_direct_def geo_direct_def smartGeoActive_def dnsRemoteTag_def dnsDirectTag_def
          dnsRejectRule_def split: if_splits\<close>)
  ultimately show ?thesis
    by (auto simp: list_all_iff direct_rules_def dnsFinal_def FinalOutbound_def includeOnly_def)
qed


section \<open>Lookups follow the traffic\<close>

text \<open>
  Outside include mode both lists walk the same classes in the same order.  The classes only the route
  layer has (voice ports, private addresses) are not about names, and the geo rule matches addresses
  as well as names there.
\<close>

lemma decide_route:
  assumes "\<not> hit [(''network'', VStr ''udp''), (''port_range'', VStrs [voicePortRange])]"
    and "\<not> hit [(''ip_is_private'', VBool True)]"
    and "SplitMode o0 \<noteq> SplitInclude"
  shows "decide hit ''outbound'' (FinalOutbound o0) (RouteRules u fe o0) =
     (if directSplitApps u o0 \<noteq> [] \<and> hit [(''process_name'', VStrs (directSplitApps u o0))] then tagDirect
      else if directRuleSuffixes u o0 \<noteq> [] \<and> hit [(''domain_suffix'', VStrs (directRuleSuffixes u o0))] then tagDirect
      else if zapretDirectSuffixes u o0 \<noteq> [] \<and> hit [(''domain_suffix'', VStrs (zapretDirectSuffixes u o0))] then tagDirect
      else if proxySuffixesWithPresets u o0 \<noteq> [] \<and> hit [(''domain_suffix'', VStrs (proxySuffixesWithPresets u o0))] then tagProxy
      else if smartGeoActive fe o0 \<and> hit [(''rule_set'', VStrs [ruleSetGeoIPRU, ruleSetGeositeRU])] then tagDirect
      else if Mode o0 = ModeDirect then tagDirect else tagProxy)"
proof -
  have fin: "FinalOutbound o0 = (if Mode o0 = ModeDirect then tagDirect else tagProxy)"
    using assms(3) by (simp add: FinalOutbound_def)
  have noinc: "includeOnly o0 \<longleftrightarrow> False" using assms(3) by (simp add: includeOnly_def)
  show ?thesis
    unfolding RouteRules_def Let_def noinc if_not_P [OF assms(3)] append_Cons append_Nil decide_Cons
      decide_opt length_greater_0_conv fin
    using assms by (simp only: route_fields voice_fields ostr_Cons) simp
qed

lemma decide_dns:
  assumes "adBlockActive fe o0 \<longrightarrow> \<not> hit (match_fields (dnsRejectRule ruleSetGeositeAds))"
    and "SplitMode o0 \<noteq> SplitInclude"
  shows "decide hit ''server'' (dnsFinal o0) (dnsRules u fe o0) =
     (if directSplitApps u o0 \<noteq> [] \<and> hit [(''process_name'', VStrs (directSplitApps u o0))] then dnsDirectTag
      else if directRuleSuffixes u o0 \<noteq> [] \<and> hit [(''domain_suffix'', VStrs (directRuleSuffixes u o0))] then dnsDirectTag
      else if zapretDirectSuffixes u o0 \<noteq> [] \<and> hit [(''domain_suffix'', VStrs (zapretDirectSuffixes u o0))] then dnsDirectTag
      else if proxySuffixesWithPresets u o0 \<noteq> [] \<and> hit [(''domain_suffix'', VStrs (proxySuffixesWithPresets u o0))] then dnsRemoteTag
      else if smartGeoActive fe o0 \<and> hit [(''rule_set'', VStrs [ruleSetGeositeRU])] then dnsDirectTag
      else if Mode o0 = ModeDirect then dnsDirectTag else dnsRemoteTag)"
  unfolding dnsRules_def Let_def decide_opt length_greater_0_conv dnsFinal_def
  using assms by (simp add: dnsRejectRule_def)

text \<open>C25. A lookup leaves from where its connection does.  Outside include mode, for any connection that is
  not voice UDP, not to a private address, not sinkholed by the ad list and whose geo match is by name,
  the route rules send it direct exactly when the DNS rules send its lookup to the direct resolver.\<close>

theorem dns_mirrors_route:
  assumes "SplitMode o0 \<noteq> SplitInclude"
    and "\<not> hit [(''network'', VStr ''udp''), (''port_range'', VStrs [voicePortRange])]"
    and "\<not> hit [(''ip_is_private'', VBool True)]"
    and "hit [(''rule_set'', VStrs [ruleSetGeoIPRU, ruleSetGeositeRU])] = hit [(''rule_set'', VStrs [ruleSetGeositeRU])]"
    and "adBlockActive fe o0 \<longrightarrow> \<not> hit (match_fields (dnsRejectRule ruleSetGeositeAds))"
  shows "decide hit ''outbound'' (FinalOutbound o0) (RouteRules u fe o0) = tagDirect \<longleftrightarrow>
      decide hit ''server'' (dnsFinal o0) (dnsRules u fe o0) = dnsDirectTag"
proof -
  have ne: "tagProxy \<noteq> tagDirect" "dnsRemoteTag \<noteq> dnsDirectTag" by (simp_all add: routing_consts)
  show ?thesis
    unfolding decide_route [where hit = hit, OF assms(2,3,1)] decide_dns [where hit = hit, OF assms(5,1)] assms(4) by (simp add: ne)
qed

text \<open>In include mode exactly the listed applications are tunnelled by application: a connection of a
  listed application goes to the proxy and its lookups to the remote resolver in every base mode, direct
  mode included, and a connection no rule claims goes direct.\<close>

theorem include_mode_tunnels_listed:
  assumes "includeOnly o0"
  shows "(hit [(''process_name'', VStrs (SplitApps o0))] \<longrightarrow>
      decide hit ''outbound'' (FinalOutbound o0) (RouteRules u fe o0) = tagProxy \<and>
      (\<not> hit (match_fields (dnsRejectRule ruleSetGeositeAds)) \<longrightarrow>
        decide hit ''server'' (dnsFinal o0) (dnsRules u fe o0) = dnsRemoteTag)) \<and>
    (list_all (\<lambda>r. \<not> hit (match_fields r)) (RouteRules u fe o0) \<longrightarrow>
      decide hit ''outbound'' (FinalOutbound o0) (RouteRules u fe o0) = tagDirect)"
proof (intro conjI impI)
  have inc: "SplitMode o0 = SplitInclude" "length (SplitApps o0) > 0" "SplitApps o0 \<noteq> []"
    using assms by (auto simp: includeOnly_def)
  assume hit: "hit [(''process_name'', VStrs (SplitApps o0))]"
  obtain ys where "RouteRules u fe o0 = [[(''action'', VStr ''sniff'')],
      [(''protocol'', VStr ''dns''), (''action'', VStr ''hijack-dns'')]] @
      route [(''process_name'', VStrs (SplitApps o0))] tagProxy # ys"
    using inc by (simp add: RouteRules_def)
  then show "decide hit ''outbound'' (FinalOutbound o0) (RouteRules u fe o0) = tagProxy"
    using hit by (simp add: decide_hit del: append_Cons)
  assume noads: "\<not> hit (match_fields (dnsRejectRule ruleSetGeositeAds))"
  define ads where "ads = (if adBlockActive fe o0 then [dnsRejectRule ruleSetGeositeAds] else [])"
  obtain ys where "dnsRules u fe o0 = ads @ dns_route ''process_name'' (VStrs (SplitApps o0)) dnsRemoteTag # ys"
    using inc by (simp add: dnsRules_def ads_def)
  moreover have "list_all (\<lambda>r. ostr r ''action'' \<noteq> ''route'' \<or> \<not> hit (match_fields r)) ads"
    using noads by (simp add: ads_def)
  ultimately show "decide hit ''server'' (dnsFinal o0) (dnsRules u fe o0) = dnsRemoteTag"
    using hit by (simp add: decide_hit)
next
  assume no: "list_all (\<lambda>r. \<not> hit (match_fields r)) (RouteRules u fe o0)"
  then have "find (\<lambda>r. ostr r ''action'' = ''route'' \<and> hit (match_fields r)) (RouteRules u fe o0) = None"
    by (simp add: find_None_iff list_all_iff)
  then show "decide hit ''outbound'' (FinalOutbound o0) (RouteRules u fe o0) = tagDirect"
    using assms by (simp add: decide_def FinalOutbound_def includeOnly_def)
qed

text \<open>Direct mode tunnels nothing but an include list: unless applications are listed in include mode,
  no route rule names the proxy, no DNS rule names the remote resolver, and both finals are direct.\<close>

theorem direct_mode_tunnels_nothing:
  assumes "Mode o0 = ModeDirect" and "\<not> includeOnly o0"
  shows "direct_rules ''outbound'' tagProxy (RouteRules u fe o0) = [] \<and>
    direct_rules ''server'' dnsRemoteTag (dnsRules u fe o0) = [] \<and>
    FinalOutbound o0 = tagDirect \<and> dnsFinal o0 = dnsDirectTag"
proof -
  have np: "\<not> directPinAllowed o0" using assms(1) by (simp add: directPinAllowed_def)
  have none: "proxySuffixesWithPresets u o0 = []"
    using assms(1) by (simp add: proxySuffixesWithPresets_def proxyRuleSuffixes_def rulesActive_def unblockActive_def)
  have "ostr r ''outbound'' \<noteq> tagProxy" if "r \<in> set (RouteRules u fe o0)" for r
    using that
    by (cases rule: route_rules_cases) (use none assms(2) in \<open>auto simp: tagProxy_def tagDirect_def\<close>)
  moreover have "ostr r ''server'' \<noteq> dnsRemoteTag" if "r \<in> set (dnsRules u fe o0)" for r
    using that
    by (cases rule: dns_rules_cases)
      (use none assms(2) in \<open>auto simp: dnsRemoteTag_def dnsDirectTag_def dnsRejectRule_def\<close>)
  ultimately show ?thesis
    using assms by (auto simp: direct_rules_def filter_empty_conv FinalOutbound_def dnsFinal_def)
qed

section \<open>What reaches the configuration is well formed\<close>

lemma valid_canon: "ValidDomainSuffix u s \<Longrightarrow> canon u s \<noteq> [] \<and> list_all suffix_char (canon u s)"
  by (simp add: ValidDomainSuffix_def Let_def canon_def split: if_splits)

lemma list_all_normalizeSuffixes:
  assumes "\<And>s. s \<in> set xs \<Longrightarrow> ValidDomainSuffix u s \<or> clean s"
  shows "list_all clean (normalizeSuffixes u xs)"
  using assms valid_canon clean_suffix clean_canon by (fastforce simp: list_all_iff)

lemma presets_clean_mem:
  "s \<in> set presetRuBankingSuffixes \<Longrightarrow> clean s" "s \<in> set presetRuGovSuffixes \<Longrightarrow> clean s"
  using presets_clean by (simp_all add: list_all_iff)

lemma valid_rules:
  assumes "Validate u o0 = None"
  shows "s \<in> set (RulesDirect o0) \<Longrightarrow> ValidDomainSuffix u s" "s \<in> set (RulesProxy o0) \<Longrightarrow> ValidDomainSuffix u s"
proof -
  have d: "find (\<lambda>s. \<not> ValidDomainSuffix u s) (RulesDirect o0) = None"
    using assms by (simp add: Validate_def split: if_splits option.splits)
  moreover have "find (\<lambda>s. \<not> ValidDomainSuffix u s) (RulesProxy o0) = None"
    using assms d by (simp add: Validate_def split: if_splits)
  ultimately show "s \<in> set (RulesDirect o0) \<Longrightarrow> ValidDomainSuffix u s"
    "s \<in> set (RulesProxy o0) \<Longrightarrow> ValidDomainSuffix u s"
    by (auto simp: find_None_iff)
qed

text \<open>Options that validate emit only bare domains: every suffix of the direct, bypass and proxy rules is
  non-empty, trimmed, lower-case ASCII made of letters, digits, dots and hyphens, whatever the user's
  casing, spacing or non-ASCII input was.\<close>

theorem valid_options_emit_clean_suffixes:
  assumes "Validate u o0 = None"
  shows "list_all clean (directRuleSuffixes u o0 @ zapretDirectSuffixes u o0 @ proxySuffixesWithPresets u o0)"
proof -
  have direct: "list_all clean (directRuleSuffixes u o0)"
    using valid_rules(1) [OF assms] presets_clean_mem
    by (auto simp: directRuleSuffixes_def intro!: list_all_normalizeSuffixes split: if_splits)
  have bypass: "list_all clean (zapretDirectSuffixes u o0)"
    using blocked_clean by (auto simp: list_all_iff set_zapretDirect split: if_splits)
  have base: "clean s" if "s \<in> set (proxyRuleSuffixes u o0)" for s
    using that valid_rules(2) [OF assms] list_all_normalizeSuffixes [of "RulesProxy o0" u]
    by (auto simp: proxyRuleSuffixes_def list_all_iff split: if_splits)
  then have "list_all clean (proxySuffixesWithPresets u o0)"
    using blocked_clean clean_canon by (fastforce simp: list_all_iff set_proxySuffixes split: if_splits)
  with direct bypass show ?thesis by simp
qed

text \<open>Normalised options fail validation only for a malformed rule suffix, and normalising again changes
  nothing for ASCII lists: the persisted options are a fixed point.\<close>

theorem normalize_valid_and_stable:
  "(Validate u (Normalize u o0) = None \<longleftrightarrow>
      list_all (ValidDomainSuffix u) (RulesDirect (Normalize u o0) @ RulesProxy (Normalize u o0))) \<and>
   (list_all (list_all ascii) (SplitApps o0 @ RulesDirect o0 @ RulesProxy o0 @ ZapretCovered o0) \<longrightarrow>
      Normalize u (Normalize u o0) = Normalize u o0)"
proof
  let ?n = "Normalize u o0"
  have "Mode ?n = ModeSmart \<or> Mode ?n = ModeGlobal \<or> Mode ?n = ModeDirect" "DNSRemote ?n \<noteq> []" "DNSDirect ?n \<noteq> []"
    "SplitMode ?n = SplitOff \<or> SplitMode ?n = SplitExclude \<or> SplitMode ?n = SplitInclude"
    by (auto simp: Normalize_def DefaultDNSRemote_def DefaultDNSDirect_def)
  then have "Validate u ?n = (case find (\<lambda>s. \<not> ValidDomainSuffix u s) (RulesDirect ?n) of
             Some s \<Rightarrow> Some (Invalid_direct_suffix s)
           | None \<Rightarrow> map_option Invalid_proxy_suffix (find (\<lambda>s. \<not> ValidDomainSuffix u s) (RulesProxy ?n)))"
    by (simp add: Validate_def)
  then show "Validate u ?n = None \<longleftrightarrow> list_all (ValidDomainSuffix u) (RulesDirect ?n @ RulesProxy ?n)"
    by (cases "find (\<lambda>s. \<not> ValidDomainSuffix u s) (RulesDirect ?n)")
      (auto simp: list_all_iff find_None_iff find_Some_iff)
  show "list_all (list_all ascii) (SplitApps o0 @ RulesDirect o0 @ RulesProxy o0 @ ZapretCovered o0) \<longrightarrow>
      Normalize u ?n = ?n"
    using normalizeSuffixes_idem by (auto simp: Normalize_def normalizeApps_eq routing_consts
        DefaultDNSRemote_def DefaultDNSDirect_def)
qed


section \<open>Concrete instances\<close>

definition zero_options :: options where
  "zero_options = \<lparr>Mode = [], BypassLAN = False, IPv4Only = False, KillSwitch = False, TLSFragment = False,
     DNSRemote = [], DNSDirect = [], AdBlock = False, ZapretActive = False, ZapretCovered = [],
     UnblockServices = False, GamesDirect = False, VoiceDirect = False, SplitMode = [], SplitApps = [],
     RulesDirect = [], RulesProxy = [], PresetRuBanking = False, PresetRuGov = False, Multihop = False,
     MultihopEntry = [], MultihopExit = [], RuleSetDir = []\<rparr>"

definition ready_fs :: file_env where
  "ready_fs = \<lparr>stat_dir = \<lambda>p. Some False, path_join = \<lambda>d f. d @ CHR ''/'' # f\<rparr>"

lemma preset_split_exact_witness:
  "''youtube.com'' \<in> set (zapretDirectSuffixes (\<lambda>s. s)
     (zero_options\<lparr>Mode := ''global'', UnblockServices := True, ZapretActive := True\<rparr>)) \<and>
   ''youtube.com'' \<notin> set (proxySuffixesWithPresets (\<lambda>s. s)
     (zero_options\<lparr>Mode := ''global'', UnblockServices := True, ZapretActive := True\<rparr>))"
proof -
  let ?o = "zero_options\<lparr>Mode := ''global'', UnblockServices := True, ZapretActive := True\<rparr>"
  have "unblockActive ?o" "''youtube.com'' \<in> set blockedServiceSuffixes"
    "''youtube.com'' \<notin> canon (\<lambda>s. s) ` set (proxyRuleSuffixes (\<lambda>s. s) ?o)"
    "ZapretActive ?o" "directPinAllowed ?o" "coveredByZapret (coverage ?o) ''youtube.com''"
    by (simp_all add: unblockActive_def directPinAllowed_def zero_options_def routing_consts
        blockedServiceSuffixes_def proxyRuleSuffixes_def normalizeSuffixes_eq coverage_def coveredByZapret_def
        defaultZapretCovered_def)
  then show ?thesis using preset_split_exact [of ?o "''youtube.com''" "\<lambda>s. s"] by simp
qed

lemma kill_switch_only_chosen_direct_witness:
  "dnsFinal (zero_options\<lparr>Mode := ''smart'', KillSwitch := True, BypassLAN := True\<rparr>) = dnsRemoteTag"
  using kill_switch_only_chosen_direct
    [of "zero_options\<lparr>Mode := ''smart'', KillSwitch := True, BypassLAN := True\<rparr>" "\<lambda>s. s" ready_fs]
  by (simp add: routing_consts)

lemma dns_mirrors_route_witness:
  "decide (\<lambda>m. m = [(''domain_suffix'', VStrs [''bank.ru''])]) ''server''
     (dnsFinal (zero_options\<lparr>Mode := ''global'', RulesDirect := [''bank.ru'']\<rparr>))
     (dnsRules (\<lambda>s. s) ready_fs (zero_options\<lparr>Mode := ''global'', RulesDirect := [''bank.ru'']\<rparr>)) = dnsDirectTag"
proof -
  let ?o = "zero_options\<lparr>Mode := ''global'', RulesDirect := [''bank.ru'']\<rparr>"
  let ?h = "\<lambda>m. m = [(''domain_suffix'', VStrs [''bank.ru''])]"
  have "clean ''bank.ru''" by (rule clean_suffix) (simp_all add: suffix_char_def)
  from clean_canon [OF this] have d: "directRuleSuffixes (\<lambda>s. s) ?o = [''bank.ru'']"
    by (simp add: directRuleSuffixes_def directPinAllowed_def zero_options_def routing_consts
        normalizeSuffixes_eq canon_def Let_def sort_strings_sorted)
  have r: "decide ?h ''outbound'' (FinalOutbound ?o) (RouteRules (\<lambda>s. s) ready_fs ?o) = tagDirect"
    by (subst decide_route) (simp_all add: d, simp_all add: zero_options_def routing_consts directSplitApps_def gamesDirectActive_def)
  show ?thesis
    using dns_mirrors_route [where hit = ?h, of ?o ready_fs "\<lambda>s. s"] r
    by (simp add: zero_options_def routing_consts adBlockActive_def)
qed

lemma include_mode_tunnels_listed_witness:
  "decide (\<lambda>m. m = [(''process_name'', VStrs [''a.exe''])]) ''server''
     (dnsFinal (zero_options\<lparr>Mode := ''direct'', SplitMode := ''include'', SplitApps := [''a.exe'']\<rparr>))
     (dnsRules (\<lambda>s. s) ready_fs (zero_options\<lparr>Mode := ''direct'', SplitMode := ''include'', SplitApps := [''a.exe'']\<rparr>))
     = dnsRemoteTag"
  using include_mode_tunnels_listed
    [where hit = "\<lambda>m. m = [(''process_name'', VStrs [''a.exe''])]"
       and ?o0.0 = "zero_options\<lparr>Mode := ''direct'', SplitMode := ''include'', SplitApps := [''a.exe'']\<rparr>"
       and u = "\<lambda>s. s" and fe = ready_fs]
  by (simp add: includeOnly_def SplitInclude_def dnsRejectRule_def match_fields_def)

lemma direct_mode_tunnels_nothing_witness:
  "FinalOutbound (zero_options\<lparr>Mode := ''direct'', RulesProxy := [''x.com'']\<rparr>) = tagDirect"
  using direct_mode_tunnels_nothing [of "zero_options\<lparr>Mode := ''direct'', RulesProxy := [''x.com'']\<rparr>" "\<lambda>s. s" ready_fs]
  by (simp add: includeOnly_def zero_options_def routing_consts)

lemma valid_options_emit_clean_suffixes_witness:
  "list_all clean (directRuleSuffixes (\<lambda>s. s)
     (zero_options\<lparr>Mode := ''smart'', DNSRemote := ''1.1.1.1'', DNSDirect := ''77.88.8.8'', RulesDirect := [''bank.ru'']\<rparr>))"
proof -
  let ?o = "zero_options\<lparr>Mode := ''smart'', DNSRemote := ''1.1.1.1'', DNSDirect := ''77.88.8.8'', RulesDirect := [''bank.ru'']\<rparr>"
  have "clean ''bank.ru''" by (rule clean_suffix) (simp_all add: suffix_char_def)
  from clean_canon [OF this, of "\<lambda>s. s"] have "ValidDomainSuffix (\<lambda>s. s) ''bank.ru''"
    by (simp add: ValidDomainSuffix_def canon_def suffix_char_def suffix_letter_def)
  then have "Validate (\<lambda>s. s) ?o = None" by (simp add: Validate_def zero_options_def routing_consts)
  from valid_options_emit_clean_suffixes [OF this] show ?thesis by simp
qed

lemma normalize_valid_and_stable_witness:
  "Normalize (\<lambda>s. s) (Normalize (\<lambda>s. s) (zero_options\<lparr>SplitApps := [''B.exe'']\<rparr>)) =
     Normalize (\<lambda>s. s) (zero_options\<lparr>SplitApps := [''B.exe'']\<rparr>)"
  using normalize_valid_and_stable [of "\<lambda>s. s" "zero_options\<lparr>SplitApps := [''B.exe'']\<rparr>"]
  by (simp add: zero_options_def go_eval)

end
