(* ===== verification/Singbox_Outbound.thy ===== *)
theory Singbox_Outbound
  imports Config_Value Node_Model
begin

text \<open>
  One node to its sing-box object (\<^verbatim>\<open>core/singbox/outbound.go\<close>, \<^verbatim>\<open>wireguard.go\<close>) and the semantic check that
  precedes it (\<^verbatim>\<open>validateNode\<close> in \<^verbatim>\<open>builder.go\<close>).
\<close>

section \<open>Tags\<close>

text \<open>
  Ranging over a Go string decodes UTF-8: the length of the sequence at the front, or nothing for a
  byte that starts no valid sequence (Go then yields U+FFFD and advances one byte).
\<close>

definition in_range :: "nat \<Rightarrow> nat \<Rightarrow> char \<Rightarrow> bool" where
  "in_range a b c \<longleftrightarrow> a \<le> (of_char c :: nat) \<and> (of_char c :: nat) \<le> b"

abbreviation cont :: "char \<Rightarrow> bool" where
  "cont \<equiv> in_range 0x80 0xBF"

definition second_ok :: "char \<Rightarrow> char \<Rightarrow> bool" where
  "second_ok a b \<longleftrightarrow>
     (let n = (of_char a :: nat)
      in if n = 0xE0 then in_range 0xA0 0xBF b
         else if n = 0xED then in_range 0x80 0x9F b
         else if n = 0xF0 then in_range 0x90 0xBF b
         else if n = 0xF4 then in_range 0x80 0x8F b
         else cont b)"

fun utf8_len :: "string \<Rightarrow> nat option" where
  "utf8_len [] = None"
| "utf8_len (a # s) =
     (if in_range 0 0x7F a then Some 1
      else if in_range 0xC2 0xDF a then
        (case s of b # _ \<Rightarrow> if cont b then Some 2 else None | _ \<Rightarrow> None)
      else if in_range 0xE0 0xEF a then
        (case s of b # c # _ \<Rightarrow> if second_ok a b \<and> cont c then Some 3 else None | _ \<Rightarrow> None)
      else if in_range 0xF0 0xF4 a then
        (case s of b # c # d # _ \<Rightarrow> if second_ok a b \<and> cont c \<and> cont d then Some 4 else None | _ \<Rightarrow> None)
      else None)"

definition tag_rune :: "string \<Rightarrow> string" where
  "tag_rune r =
     (case r of
        [c] \<Rightarrow> (let n = (of_char c :: nat)
               in if n < 0x20 \<or> n = 0x7F then ''-''
                  else if c = CHR 0x22 \<or> c = CHR 0x5C then ''-''
                  else r)
      | _ \<Rightarrow> r)"

definition rune_error :: string where
  "rune_error = [CHR 0xEF, CHR 0xBF, CHR 0xBD]"

function tag_runes :: "string \<Rightarrow> string" where
  "tag_runes s =
     (if s = [] then []
      else case utf8_len s of
             None \<Rightarrow> rune_error @ tag_runes (drop 1 s)
           | Some n \<Rightarrow> tag_rune (take n s) @ tag_runes (drop n s))"
  by pat_completeness auto

lemma utf8_len_pos: "utf8_len s = Some n \<Longrightarrow> 0 < n"
  by (cases s) (auto split: if_splits list.splits)

termination tag_runes
  by (relation "measure length") (use utf8_len_pos in \<open>auto simp: neq_Nil_conv\<close>)

declare tag_runes.simps [simp del]

definition sanitizeTag :: "string \<Rightarrow> string" where
  "sanitizeTag name =
     (let nm = trim_space name
      in if nm = [] then ''node''
         else let out = trim_space (tag_runes nm) in if out = [] then ''node'' else out)"

section \<open>Sub-objects\<close>

definition fragmentFallbackDelay :: string where
  "fragmentFallbackDelay = ''500ms''"

definition if_field :: "bool \<Rightarrow> string \<Rightarrow> goval \<Rightarrow> obj" where
  "if_field c k v = (if c then [(k, v)] else [])"

definition tlsObject :: "tls option \<Rightarrow> obj option" where
  "tlsObject t0 =
     (case t0 of
        None \<Rightarrow> None
      | Some t \<Rightarrow>
          if \<not> Enabled t then None
          else
            let reality = (case Reality t of Some r \<Rightarrow> PublicKey r \<noteq> [] | None \<Rightarrow> False);
                fingerprint = (if Fingerprint t = [] \<and> reality then ''chrome'' else Fingerprint t)
            in Some ([(''enabled'', VBool True)] @
                 if_field (ServerName t \<noteq> []) ''server_name'' (VStr (ServerName t)) @
                 if_field (Insecure t) ''insecure'' (VBool True) @
                 if_field (length (ALPN t) > 0) ''alpn'' (VStrs (ALPN t)) @
                 if_field (fingerprint \<noteq> []) ''utls''
                   (VObj [(''enabled'', VBool True), (''fingerprint'', VStr fingerprint)]) @
                 (case Reality t of
                    Some r \<Rightarrow>
                      if_field reality ''reality''
                        (VObj ([(''enabled'', VBool True), (''public_key'', VStr (PublicKey r))] @
                               if_field (ShortID r \<noteq> []) ''short_id'' (VStr (ShortID r))))
                  | None \<Rightarrow> []) @
                 (if Fragment t
                  then [(''fragment'', VBool True),
                        (''fragment_fallback_delay'', VStr fragmentFallbackDelay)]
                  else [])))"

definition transportObject :: "transport option \<Rightarrow> obj option" where
  "transportObject t0 =
     (case t0 of
        None \<Rightarrow> None
      | Some t \<Rightarrow>
          if TrType t = [] then None
          else if TrType t = ''ws'' then
            Some ([(''type'', VStr ''ws'')] @
              if_field (TrPath t \<noteq> []) ''path'' (VStr (TrPath t)) @
              if_field (TrHost t \<noteq> []) ''headers'' (VObj [(''Host'', VStr (TrHost t))]))
          else if TrType t = ''grpc'' then
            Some ([(''type'', VStr ''grpc'')] @
              if_field (TrServiceName t \<noteq> []) ''service_name'' (VStr (TrServiceName t)))
          else if TrType t = ''quic'' then Some [(''type'', VStr ''quic'')]
          else if TrType t = ''http'' \<or> TrType t = ''httpupgrade'' then
            Some ([(''type'', VStr (TrType t))] @
              if_field (TrPath t \<noteq> []) ''path'' (VStr (TrPath t)) @
              if_field (TrHost t \<noteq> []) ''host''
                (if TrType t = ''http'' then VStrs [TrHost t] else VStr (TrHost t)))
          else
            Some ([(''type'', VStr (TrType t))] @
              if_field (TrPath t \<noteq> []) ''path'' (VStr (TrPath t))))"

definition opt_field :: "string \<Rightarrow> obj option \<Rightarrow> obj" where
  "opt_field k v = (case v of Some ob \<Rightarrow> [(k, VObj ob)] | None \<Rightarrow> [])"

definition forced_tls :: "node \<Rightarrow> obj" where
  "forced_tls n =
     (case tlsObject (TLS n) of
        Some t \<Rightarrow> t
      | None \<Rightarrow> [(''enabled'', VBool True), (''server_name'', VStr (Server n))])"

section \<open>Outbounds\<close>

definition out_base :: "string \<Rightarrow> node \<Rightarrow> string \<Rightarrow> obj" where
  "out_base ty n tag =
     [(''type'', VStr ty), (''tag'', VStr tag), (''server'', VStr (Server n)),
      (''server_port'', VInt (Port n))]"

definition vlessOutbound :: "node \<Rightarrow> string \<Rightarrow> obj" where
  "vlessOutbound n tag =
     out_base ''vless'' n tag @ [(''uuid'', VStr (UUID n))] @
     if_field (Flow n \<noteq> []) ''flow'' (VStr (Flow n)) @
     opt_field ''tls'' (tlsObject (TLS n)) @
     opt_field ''transport'' (transportObject (Transport n))"

definition hysteria2Outbound :: "node \<Rightarrow> string \<Rightarrow> obj" where
  "hysteria2Outbound n tag =
     out_base ''hysteria2'' n tag @ [(''password'', VStr (node.Password n))] @
     (case Obfs n of
        Some ob \<Rightarrow> if_field (ObfsType ob \<noteq> []) ''obfs''
          (VObj [(''type'', VStr (ObfsType ob)), (''password'', VStr (ObfsPassword ob))])
      | None \<Rightarrow> []) @
     [(''tls'', VObj (forced_tls n))]"

definition shadowsocksOutbound :: "node \<Rightarrow> string \<Rightarrow> obj" where
  "shadowsocksOutbound n tag =
     out_base ''shadowsocks'' n tag @ [(''method'', VStr (Method n)), (''password'', VStr (node.Password n))]"

definition trojanOutbound :: "node \<Rightarrow> string \<Rightarrow> obj" where
  "trojanOutbound n tag =
     out_base ''trojan'' n tag @ [(''password'', VStr (node.Password n))] @
     [(''tls'', VObj (forced_tls n))] @
     opt_field ''transport'' (transportObject (Transport n))"

definition vmessOutbound :: "node \<Rightarrow> string \<Rightarrow> obj" where
  "vmessOutbound n tag =
     out_base ''vmess'' n tag @ [(''uuid'', VStr (UUID n)), (''alter_id'', VInt (AlterID n))] @
     [(''security'', VStr (if Security n \<noteq> [] then Security n else ''auto''))] @
     opt_field ''tls'' (tlsObject (TLS n)) @
     opt_field ''transport'' (transportObject (Transport n))"

datatype outbound_error =
    Empty_protocol string
  | Unsupported_protocol string protocol

text \<open>The object, or nothing for a node that is built as an endpoint.\<close>

definition outbound :: "node \<Rightarrow> string \<Rightarrow> (outbound_error, obj option) result" where
  "outbound n tag =
     (if Protocol n = VLESS then Inr (Some (vlessOutbound n tag))
      else if Protocol n = Hysteria2 then Inr (Some (hysteria2Outbound n tag))
      else if Protocol n = Shadowsocks then Inr (Some (shadowsocksOutbound n tag))
      else if Protocol n = Trojan then Inr (Some (trojanOutbound n tag))
      else if Protocol n = VMess then Inr (Some (vmessOutbound n tag))
      else if Protocol n = AmneziaWG then Inr None
      else if Protocol n = [] then Inl (Empty_protocol (Name n))
      else Inl (Unsupported_protocol (Name n) (Protocol n)))"

section \<open>WireGuard endpoints\<close>

datatype endpoint_error = No_wireguard string | No_private_key string | No_peer_key string

definition localAddresses :: "string list \<Rightarrow> string list" where
  "localAddresses addrs = (if length addrs = 0 then [''172.16.0.2/32''] else addrs)"

definition wireguardEndpoint :: "node \<Rightarrow> string \<Rightarrow> (endpoint_error, obj) result" where
  "wireguardEndpoint n tag =
     (case WireGuard n of
        None \<Rightarrow> Inl (No_wireguard (Name n))
      | Some wg \<Rightarrow>
          if PrivateKey wg = [] then Inl (No_private_key (Name n))
          else if PeerPublicKey wg = [] then Inl (No_peer_key (Name n))
          else
            let peer = [(''address'', VStr (Server n)), (''port'', VInt (Port n)),
                        (''public_key'', VStr (PeerPublicKey wg)),
                        (''allowed_ips'', VStrs [''0.0.0.0/0'', ''::/0''])] @
                       if_field (PreSharedKey wg \<noteq> []) ''pre_shared_key'' (VStr (PreSharedKey wg))
            in Inr [(''type'', VStr ''wireguard''), (''tag'', VStr tag),
                    (''address'', VStrs (localAddresses (LocalAddress wg))),
                    (''private_key'', VStr (PrivateKey wg)), (''peers'', VObjs [peer])])"

section \<open>The semantic check\<close>

datatype node_error =
    Port_out_of_range
  | Reality_without_key
  | Quic_requires_tls
  | Transport_not_supported string
  | Shadowsocks_incomplete
  | Shadowsocks_plugin string
  | Trojan_no_password
  | Hysteria2_no_password
  | No_uuid
  | Amneziawg_incomplete

definition extra_get :: "node \<Rightarrow> string \<Rightarrow> string" where
  "extra_get n k = (case Extra n k of Some v \<Rightarrow> v | None \<Rightarrow> [])"

definition transport_error :: "node \<Rightarrow> node_error option" where
  "transport_error n =
     (case Transport n of
        None \<Rightarrow> None
      | Some t \<Rightarrow>
          if TrType t \<in> {[], ''ws'', ''grpc'', ''http'', ''httpupgrade''} then None
          else if TrType t = ''quic'' then
            (if (Protocol n = VLESS \<or> Protocol n = VMess) \<and>
                (case TLS n of None \<Rightarrow> True | Some tt \<Rightarrow> \<not> Enabled tt)
             then Some Quic_requires_tls else None)
          else Some (Transport_not_supported (TrType t)))"

definition protocol_error :: "node \<Rightarrow> node_error option" where
  "protocol_error n =
     (if Protocol n = Shadowsocks then
        (if Method n = [] \<or> node.Password n = [] then Some Shadowsocks_incomplete
         else if extra_get n ''plugin'' \<noteq> [] then Some (Shadowsocks_plugin (extra_get n ''plugin''))
         else None)
      else if Protocol n = Trojan then (if node.Password n = [] then Some Trojan_no_password else None)
      else if Protocol n = Hysteria2 then (if node.Password n = [] then Some Hysteria2_no_password else None)
      else if Protocol n = VLESS \<or> Protocol n = VMess then (if UUID n = [] then Some No_uuid else None)
      else if Protocol n = AmneziaWG then
        (case WireGuard n of
           None \<Rightarrow> Some Amneziawg_incomplete
         | Some wg \<Rightarrow> if PrivateKey wg = [] \<or> PeerPublicKey wg = [] then Some Amneziawg_incomplete else None)
      else None)"

definition validateNode :: "node \<Rightarrow> node_error option" where
  "validateNode n =
     (if Port n < 1 \<or> Port n > 65535 then Some Port_out_of_range
      else if (case TLS n of Some t \<Rightarrow> (case Reality t of Some r \<Rightarrow> PublicKey r = [] | None \<Rightarrow> False) | None \<Rightarrow> False)
      then Some Reality_without_key
      else case transport_error n of
             Some e \<Rightarrow> Some e
           | None \<Rightarrow> protocol_error n)"

definition ValidateNode :: "node \<Rightarrow> bool" where
  "ValidateNode n \<longleftrightarrow> validateNode n = None"

end
