(* ===== verification/Singbox.thy ===== *)
theory Singbox
  imports Routing Singbox_Outbound
begin

text \<open>
  The sing-box configuration builder (\<^verbatim>\<open>core/singbox/builder.go\<close>, \<^verbatim>\<open>multihop.go\<close>, \<^verbatim>\<open>probe.go\<close>): tag
  assignment, the selector and the shared outbounds, the two-hop chain, the inbounds, and the probe
  configuration.

  What a build reads from outside the package is \<open>build_env\<close>: the file system, the Unicode case
  tables, the interface name of the platform (a build-tag constant), and the random secret.
\<close>

definition tunTag :: string where "tunTag = ''tun-in''"
definition tunAddr :: string where "tunAddr = ''172.19.0.1/30''"
definition tunAddr6 :: string where "tunAddr6 = ''fdfe:dcba:9876::1/126''"
definition proxyTag :: string where "proxyTag = ''proxy''"
definition directTag :: string where "directTag = ''direct''"
definition blockTag :: string where "blockTag = ''block''"
definition mixedTag :: string where "mixedTag = ''mixed-in''"
definition mixedListen :: string where "mixedListen = ''127.0.0.1''"
definition DefaultMixedPort :: int where "DefaultMixedPort = 2080"
definition defaultMTU :: int where "defaultMTU = 9000"
definition defaultClashAPIPort :: int where "defaultClashAPIPort = 9090"
definition ModeTun :: string where "ModeTun = ''tun''"
definition ModeSystemProxy :: string where "ModeSystemProxy = ''system-proxy''"
definition StackSystem :: string where "StackSystem = ''system''"
definition StackGvisor :: string where "StackGvisor = ''gvisor''"
definition StackMixed :: string where "StackMixed = ''mixed''"
definition platformTUNName_darwin :: string where "platformTUNName_darwin = []"
definition platformTUNName_other :: string where "platformTUNName_other = ''tenebra''"

lemmas tag_defs = proxyTag_def directTag_def blockTag_def

record tun_options =
  TunMode :: string
  MixedPort :: int
  InterfaceName :: string
  MTU :: int
  TunStack :: string
  ExternalTun :: bool
  ClashAPIPort :: int
  TunAddress :: string
  TunAddress6 :: string
  CacheDir :: string

record build_env =
  be_files :: file_env
  be_case :: case_table
  be_tunname :: string
  be_secret :: string

definition ValidMode :: "string \<Rightarrow> bool" where
  "ValidMode s \<longleftrightarrow> s = ModeTun \<or> s = ModeSystemProxy"

definition ValidStack :: "string \<Rightarrow> bool" where
  "ValidStack s \<longleftrightarrow> s = StackSystem \<or> s = StackGvisor \<or> s = StackMixed"

definition IsSystemProxy :: "tun_options \<Rightarrow> bool" where
  "IsSystemProxy t \<longleftrightarrow> TunMode t = ModeSystemProxy"

definition MixedHostPort :: "tun_options \<Rightarrow> string" where
  "MixedHostPort t =
     mixedListen @ '':'' @ int_str (if MixedPort t = 0 then DefaultMixedPort else MixedPort t)"

definition tun_normalize :: "string \<Rightarrow> tun_options \<Rightarrow> tun_options" where
  "tun_normalize tunname t =
     t\<lparr>TunMode := (if TunMode t = [] then ModeTun else TunMode t),
       MixedPort := (if MixedPort t = 0 then DefaultMixedPort else MixedPort t),
       InterfaceName := (if InterfaceName t = [] then tunname else InterfaceName t),
       MTU := (if MTU t = 0 then defaultMTU else MTU t),
       TunStack := (if TunStack t = [] then StackSystem else TunStack t),
       ClashAPIPort := (if ClashAPIPort t = 0 then defaultClashAPIPort else ClashAPIPort t)\<rparr>"

section \<open>Nodes to outbounds\<close>

definition forceFragment :: "node list \<Rightarrow> node list" where
  "forceFragment nodes =
     map (\<lambda>n. case TLS n of None \<Rightarrow> n | Some t \<Rightarrow> n\<lparr>TLS := Some (t\<lparr>Fragment := True\<rparr>)\<rparr>) nodes"

record node_tag =
  Index :: nat
  Tag :: string

text \<open>The \<^verbatim>\<open>seen\<close> map: an absent key reads as zero.\<close>

type_synonym seen_map = "(string \<times> nat) list"

definition seen_get :: "seen_map \<Rightarrow> string \<Rightarrow> nat" where
  "seen_get sm k = (case map_of sm k of Some v \<Rightarrow> v | None \<Rightarrow> 0)"

definition seen_set :: "string \<Rightarrow> nat \<Rightarrow> seen_map \<Rightarrow> seen_map" where
  "seen_set k v sm = (k, v) # filter (\<lambda>kv. fst kv \<noteq> k) sm"

definition seen_delete :: "string \<Rightarrow> seen_map \<Rightarrow> seen_map" where
  "seen_delete k sm = filter (\<lambda>kv. fst kv \<noteq> k) sm"

definition cand :: "string \<Rightarrow> nat \<Rightarrow> string" where
  "cand base k = base @ ''-'' @ nat_str k"

text \<open>
  The collision loop: the counter of the base grows until the suffixed name is free.  The counter
  entry itself is never a suffixed name of the same base, so only its final value matters.
\<close>

lemma cand_inj: "cand base j = cand base k \<longleftrightarrow> j = k"
  by (simp add: cand_def nat_str_inj)

function uniq_count :: "seen_map \<Rightarrow> string \<Rightarrow> nat \<Rightarrow> nat" where
  "uniq_count sm base k =
     (if seen_get sm (cand base k) = 0 then k else uniq_count sm base (Suc k))"
  by pat_completeness auto

lemma seen_get_mem: "seen_get sm k \<noteq> 0 \<Longrightarrow> k \<in> fst ` set sm"
  by (simp add: seen_get_def split: option.splits) (metis fst_conv image_eqI map_of_SomeD)

lemma finite_taken: "finite {j. k \<le> j \<and> cand base j \<in> fst ` set sm}"
proof -
  have "cand base ` {j. k \<le> j \<and> cand base j \<in> fst ` set sm} \<subseteq> fst ` set sm" by auto
  then have "finite (cand base ` {j. k \<le> j \<and> cand base j \<in> fst ` set sm})" by (rule finite_subset) simp
  then show ?thesis by (rule finite_imageD) (simp add: inj_on_def cand_inj)
qed

termination uniq_count
proof (relation "measure (\<lambda>(sm, base, k). card {j. k \<le> j \<and> cand base j \<in> fst ` set sm})", goal_cases)
  case 1
  show ?case by simp
next
  case (2 sm base k)
  then have "cand base k \<in> fst ` set sm" by (rule seen_get_mem)
  then have k: "k \<in> {j. k \<le> j \<and> cand base j \<in> fst ` set sm}" by simp
  have "{j. Suc k \<le> j \<and> cand base j \<in> fst ` set sm} = {j. k \<le> j \<and> cand base j \<in> fst ` set sm} - {k}"
    by auto
  with k show ?case
    using card_Diff1_less [OF finite_taken [of k base sm] k] by simp
qed

declare uniq_count.simps [simp del]

definition uniq :: "seen_map \<Rightarrow> string \<Rightarrow> string \<times> seen_map" where
  "uniq sm name =
     (let base = sanitizeTag name
      in if seen_get sm base = 0 then (base, seen_set base 1 sm)
         else
           let k = uniq_count sm base (Suc (seen_get sm base))
           in (cand base k, seen_set (cand base k) 1 (seen_set base k sm)))"

record built =
  b_outs :: "obj list"
  b_endpoints :: "obj list"
  b_sel :: "node_tag list"

fun build_loop :: "nat \<Rightarrow> seen_map \<Rightarrow> node list \<Rightarrow> built" where
  "build_loop i sm [] = \<lparr>b_outs = [], b_endpoints = [], b_sel = []\<rparr>"
| "build_loop i sm (n # ns) =
     (if Protocol n = [] then build_loop (Suc i) sm ns
      else
        let (tag, sm') = uniq sm (Name n)
        in if validateNode n \<noteq> None then build_loop (Suc i) (seen_delete tag sm') ns
           else if Protocol n = AmneziaWG then
             (case wireguardEndpoint n tag of
                Inl _ \<Rightarrow> build_loop (Suc i) (seen_delete tag sm') ns
              | Inr ep \<Rightarrow>
                  (let b = build_loop (Suc i) sm' ns
                   in b\<lparr>b_endpoints := ep # b_endpoints b,
                        b_sel := \<lparr>Index = i, Tag = tag\<rparr> # b_sel b\<rparr>))
           else
             (case outbound n tag of
                Inl _ \<Rightarrow> build_loop (Suc i) (seen_delete tag sm') ns
              | Inr None \<Rightarrow> build_loop (Suc i) sm' ns
              | Inr (Some ob) \<Rightarrow>
                  (let b = build_loop (Suc i) sm' ns
                   in b\<lparr>b_outs := ob # b_outs b, b_sel := \<lparr>Index = i, Tag = tag\<rparr> # b_sel b\<rparr>)))"

definition buildNodes :: "node list \<Rightarrow> built" where
  "buildNodes nodes = build_loop 0 [] nodes"

definition SelectorTags :: "node list \<Rightarrow> node_tag list" where
  "SelectorTags nodes = b_sel (buildNodes nodes)"

definition outboundByTag :: "obj list \<Rightarrow> string \<Rightarrow> obj option" where
  "outboundByTag outs tag = find (\<lambda>ob. ostr ob ''tag'' = tag) outs"

section \<open>Two hops\<close>

datatype multihop_error = Mh_required | Mh_same | Mh_entry_missing | Mh_exit_missing

definition validateMultihopOutbounds :: "obj list \<Rightarrow> string \<Rightarrow> string \<Rightarrow> multihop_error option" where
  "validateMultihopOutbounds outs entryTag exitTag =
     (if entryTag = [] \<or> exitTag = [] then Some Mh_required
      else if entryTag = exitTag then Some Mh_same
      else if outboundByTag outs entryTag = None then Some Mh_entry_missing
      else if outboundByTag outs exitTag = None then Some Mh_exit_missing
      else None)"

definition ValidateMultihop :: "node list \<Rightarrow> string \<Rightarrow> string \<Rightarrow> multihop_error option" where
  "ValidateMultihop nodes entryTag exitTag =
     validateMultihopOutbounds (b_outs (buildNodes nodes)) entryTag exitTag"

text \<open>
  The exit object is the map inside the outbound slice, so writing its detour changes the first
  outbound with that tag.
\<close>

fun set_detour :: "string \<Rightarrow> string \<Rightarrow> obj list \<Rightarrow> obj list" where
  "set_detour exitTag entryTag [] = []"
| "set_detour exitTag entryTag (ob # obs) =
     (if ostr ob ''tag'' = exitTag then oset ''detour'' (VStr entryTag) ob # obs
      else ob # set_detour exitTag entryTag obs)"

section \<open>Inbounds and blocks\<close>

definition tunAddressesFor :: "tun_options \<Rightarrow> string list" where
  "tunAddressesFor t =
     (let v4 = trim_space (TunAddress t); v6 = trim_space (TunAddress6 t)
      in [if v4 = [] then tunAddr else v4, if v6 = [] then tunAddr6 else v6])"

definition mixedInbound :: "int \<Rightarrow> obj" where
  "mixedInbound port =
     [(''type'', VStr ''mixed''), (''tag'', VStr mixedTag), (''listen'', VStr mixedListen),
      (''listen_port'', VInt port)]"

definition tunInbound :: "tun_options \<Rightarrow> bool \<Rightarrow> obj" where
  "tunInbound t strictRoute =
     [(''type'', VStr ''tun''), (''tag'', VStr tunTag), (''address'', VStrs (tunAddressesFor t)),
      (''mtu'', VInt (MTU t)), (''stack'', VStr (TunStack t))] @
     (if \<not> ExternalTun t
      then [(''auto_route'', VBool True), (''strict_route'', VBool strictRoute)] else []) @
     if_field (InterfaceName t \<noteq> []) ''interface_name'' (VStr (InterfaceName t))"

definition inbound :: "tun_options \<Rightarrow> bool \<Rightarrow> obj" where
  "inbound t strictRoute =
     (if TunMode t = ModeSystemProxy then mixedInbound (MixedPort t) else tunInbound t strictRoute)"

definition cacheFileBlock :: "file_env \<Rightarrow> string \<Rightarrow> obj" where
  "cacheFileBlock fe dir =
     [(''enabled'', VBool True)] @ if_field (dir \<noteq> []) ''path'' (VStr (path_join fe dir ''cache.db''))"

definition routeBlock :: "case_table \<Rightarrow> file_env \<Rightarrow> options \<Rightarrow> obj" where
  "routeBlock u fe ro =
     [(''rules'', VObjs (RouteRules u fe ro)), (''final'', VStr (FinalOutbound ro)),
      (''auto_detect_interface'', VBool True),
      (''default_domain_resolver'', VObj (DefaultDomainResolver ro))] @
     (let rs = RouteRuleSets fe ro in if_field (length rs > 0) ''rule_set'' (VObjs rs))"

section \<open>Build\<close>

datatype build_error =
    Bad_options options_error
  | No_usable_nodes
  | Bad_multihop multihop_error

definition selector_obj :: "string list \<Rightarrow> string \<Rightarrow> obj" where
  "selector_obj members def =
     [(''type'', VStr ''selector''), (''tag'', VStr proxyTag), (''outbounds'', VStrs members),
      (''default'', VStr def), (''interrupt_exist_connections'', VBool False)]"

definition config :: "build_env \<Rightarrow> options \<Rightarrow> tun_options \<Rightarrow> obj list \<Rightarrow> obj list \<Rightarrow> obj" where
  "config be ro tun outbounds endpoints =
     [(''log'', VObj [(''level'', VStr ''warn''), (''timestamp'', VBool True)]),
      (''dns'', VObj (DNS (be_case be) (be_files be) ro)),
      (''inbounds'', VObjs [inbound tun (KillSwitch ro)]),
      (''outbounds'', VObjs outbounds),
      (''route'', VObj (routeBlock (be_case be) (be_files be) ro)),
      (''experimental'', VObj
         [(''clash_api'', VObj
             [(''external_controller'', VStr (''127.0.0.1:'' @ int_str (ClashAPIPort tun))),
              (''secret'', VStr (be_secret be))]),
          (''cache_file'', VObj (cacheFileBlock (be_files be) (CacheDir tun)))])] @
     if_field (length endpoints > 0) ''endpoints'' (VObjs endpoints)"

definition Build :: "build_env \<Rightarrow> node list \<Rightarrow> string \<Rightarrow> options \<Rightarrow> tun_options \<Rightarrow> (build_error, obj) result" where
  "Build be nodes0 selectedTag ro0 tun0 =
     (let ro = Normalize (be_case be) ro0
      in case Validate (be_case be) ro of
           Some e \<Rightarrow> Inl (Bad_options e)
         | None \<Rightarrow>
             let tun = tun_normalize (be_tunname be) tun0;
                 nodes = (if TLSFragment ro then forceFragment nodes0 else nodes0);
                 b = buildNodes nodes
             in if length (b_sel b) = 0 then Inl No_usable_nodes
                else
                  let tags = map Tag (b_sel b);
                      def = (if selectedTag = [] \<or> selectedTag \<notin> set tags then tags ! 0 else selectedTag);
                      mh = (if Multihop ro
                            then validateMultihopOutbounds (b_outs b) (MultihopEntry ro) (MultihopExit ro)
                            else None)
                  in case mh of
                       Some e \<Rightarrow> Inl (Bad_multihop e)
                     | None \<Rightarrow>
                         let outs = (if Multihop ro
                                     then set_detour (MultihopExit ro) (MultihopEntry ro) (b_outs b)
                                     else b_outs b);
                             selOutbounds = (if Multihop ro then [MultihopExit ro] else tags);
                             def' = (if Multihop ro then MultihopExit ro else def);
                             outbounds = [selector_obj selOutbounds def'] @ outs @
                               [[(''type'', VStr ''direct''), (''tag'', VStr directTag)],
                                [(''type'', VStr ''block''), (''tag'', VStr blockTag)]]
                         in Inr (config be ro tun outbounds (b_endpoints b)))"

section \<open>Reading a built configuration\<close>

definition oobjs :: "obj \<Rightarrow> string \<Rightarrow> obj list" where
  "oobjs ob k = (case oget ob k of Some (VObjs l) \<Rightarrow> l | _ \<Rightarrow> [])"

definition oobj :: "obj \<Rightarrow> string \<Rightarrow> obj" where
  "oobj ob k = (case oget ob k of Some (VObj l) \<Rightarrow> l | _ \<Rightarrow> [])"

definition proxySelector :: "obj \<Rightarrow> obj option" where
  "proxySelector cfg = find (\<lambda>ob. ostr ob ''type'' = ''selector'' \<and> ostr ob ''tag'' = proxyTag) (oobjs cfg ''outbounds'')"

definition SelectorDefault :: "obj \<Rightarrow> string option" where
  "SelectorDefault cfg =
     (case proxySelector cfg of
        None \<Rightarrow> None
      | Some sel \<Rightarrow> (let tag = ostr sel ''default'' in if tag \<noteq> [] then Some tag else None))"

definition SelectorMembers :: "obj \<Rightarrow> string list" where
  "SelectorMembers cfg = (case proxySelector cfg of None \<Rightarrow> [] | Some sel \<Rightarrow> ostrs sel ''outbounds'')"

section \<open>The probe configuration\<close>

record probe_binding =
  PbTag :: string
  PbName :: string
  PbPort :: int
  PbUsername :: string
  PbPassword :: string
  PbIndex :: nat

definition probeInboundTag :: "nat \<Rightarrow> string" where
  "probeInboundTag i = ''probe-in-'' @ nat_str i"

definition hex_digit :: "nat \<Rightarrow> char" where
  "hex_digit n = (if n < 10 then char_of (48 + n) else char_of (87 + n))"

definition hex_bytes :: "8 word list \<Rightarrow> string" where
  "hex_bytes bs = concat (map (\<lambda>b. [hex_digit (unat b div 16), hex_digit (unat b mod 16)]) bs)"

datatype probe_error =
    Bad_base_port int
  | No_usable_probe_nodes
  | Too_many_ports nat int
  | No_randomness

text \<open>\<open>rnd\<close> is what \<^verbatim>\<open>rand.Read\<close> fills the sixteen bytes with, or nothing where it fails.\<close>

unbundle bit_operations_syntax

definition randomProbeCredential :: "8 word list option \<Rightarrow> (probe_error, string) result" where
  "randomProbeCredential rnd =
     (case rnd of
        None \<Rightarrow> Inl No_randomness
      | Some b0 \<Rightarrow>
          let b1 = b0[6 := ((b0 ! 6) AND 0x0F) OR 0x40];
              b = b1[8 := ((b1 ! 8) AND 0x3F) OR 0x80]
          in Inr (hex_bytes (take 4 b) @ ''-'' @ hex_bytes (take 2 (drop 4 b)) @ ''-'' @
                  hex_bytes (take 2 (drop 6 b)) @ ''-'' @ hex_bytes (take 2 (drop 8 b)) @ ''-'' @
                  hex_bytes (take 6 (drop 10 b))))"

definition probe_inbound :: "int \<Rightarrow> string \<Rightarrow> string \<Rightarrow> nat \<Rightarrow> obj" where
  "probe_inbound basePort username password i =
     [(''type'', VStr ''mixed''), (''tag'', VStr (probeInboundTag i)), (''listen'', VStr mixedListen),
      (''listen_port'', VInt (basePort + int i)),
      (''users'', VObjs [[(''username'', VStr username), (''password'', VStr password)]])]"

definition probe_rule :: "nat \<Rightarrow> string \<Rightarrow> obj" where
  "probe_rule i tag =
     [(''inbound'', VStrs [probeInboundTag i]), (''action'', VStr ''route''), (''outbound'', VStr tag)]"

definition probe_binding_of :: "node list \<Rightarrow> int \<Rightarrow> string \<Rightarrow> string \<Rightarrow> nat \<Rightarrow> node_tag \<Rightarrow> probe_binding" where
  "probe_binding_of nodes basePort username password i nt =
     \<lparr>PbTag = Tag nt, PbName = (if Index nt < length nodes then Name (nodes ! Index nt) else []),
      PbPort = basePort + int i, PbUsername = username, PbPassword = password, PbIndex = Index nt\<rparr>"

definition BuildProbe ::
  "8 word list option \<Rightarrow> 8 word list option \<Rightarrow> node list \<Rightarrow> int \<Rightarrow> (probe_error, obj \<times> probe_binding list) result" where
  "BuildProbe rnd1 rnd2 nodes basePort =
     (if basePort < 1 \<or> basePort > 65535 then Inl (Bad_base_port basePort)
      else
        let b = buildNodes nodes; sel = b_sel b
        in if length sel = 0 then Inl No_usable_probe_nodes
           else if basePort + int (length sel) - 1 > 65535 then Inl (Too_many_ports (length sel) basePort)
           else
             case randomProbeCredential rnd1 of
               Inl e \<Rightarrow> Inl e
             | Inr username \<Rightarrow>
                 (case randomProbeCredential rnd2 of
                    Inl e \<Rightarrow> Inl e
                  | Inr password \<Rightarrow>
                      let ix = [0..<length sel];
                          inbounds = map (probe_inbound basePort username password) ix;
                          rules = map (\<lambda>i. probe_rule i (Tag (sel ! i))) ix;
                          bindings = map (\<lambda>i. probe_binding_of nodes basePort username password i (sel ! i)) ix;
                          outbounds = b_outs b @ [[(''type'', VStr ''block''), (''tag'', VStr blockTag)]]
                      in Inr ([(''log'', VObj [(''level'', VStr ''warn''), (''timestamp'', VBool True)]),
                               (''inbounds'', VObjs inbounds), (''outbounds'', VObjs outbounds),
                               (''route'', VObj [(''rules'', VObjs ([[(''action'', VStr ''sniff'')]] @ rules)),
                                                 (''final'', VStr blockTag)])] @
                              if_field (length (b_endpoints b) > 0) ''endpoints'' (VObjs (b_endpoints b)),
                              bindings)))"

end
