(* ===== verification/Singbox_Props.thy ===== *)
theory Singbox_Props
  imports Singbox Routing_Props
begin

text \<open>
  What a built configuration guarantees: unique tags over exactly the usable nodes, references that
  resolve, the two-hop chain, the kill switch on the tun inbound, and the probe configuration.
\<close>

section \<open>Tag assignment\<close>

lemma seen_get_set: "seen_get (seen_set k v sm) t = (if t = k then v else seen_get sm t)"
proof -
  have "map_of (filter (\<lambda>kv. fst kv \<noteq> k) sm) t = (if t = k then None else map_of sm t)"
    by (induction sm) auto
  then show ?thesis by (simp add: seen_set_def seen_get_def)
qed

lemma seen_get_delete: "seen_get (seen_delete k sm) t = (if t = k then 0 else seen_get sm t)"
proof -
  have "map_of (filter (\<lambda>kv. fst kv \<noteq> k) sm) t = (if t = k then None else map_of sm t)"
    by (induction sm) auto
  then show ?thesis by (simp add: seen_delete_def seen_get_def)
qed

lemma uniq_count_free: "seen_get sm (cand base (uniq_count sm base k)) = 0 \<and> k \<le> uniq_count sm base k"
proof (induction sm base k rule: uniq_count.induct)
  case (1 sm base k)
  then show ?case
    by (cases "seen_get sm (cand base k) = 0") (auto simp: uniq_count.simps [of sm base k])
qed

lemma cand_neq_base [simp]: "cand base k \<noteq> base"
  by (simp add: cand_def)

lemma sanitizeTag_not_Nil [simp]: "sanitizeTag name \<noteq> []"
  by (simp add: sanitizeTag_def Let_def)

lemma uniq_props:
  assumes "uniq sm name = (tag, sm')"
  shows "seen_get sm tag = 0" "seen_get sm' tag \<noteq> 0" "tag \<noteq> []"
    "seen_get sm t \<noteq> 0 \<Longrightarrow> seen_get sm' t \<noteq> 0 \<and> seen_get (seen_delete tag sm') t \<noteq> 0"
  using assms uniq_count_free [of sm "sanitizeTag name" "Suc (seen_get sm (sanitizeTag name))"]
  by (auto simp: uniq_def Let_def seen_get_set seen_get_delete cand_def split: if_splits)

section \<open>The node walk\<close>

definition usable :: "node \<Rightarrow> bool" where
  "usable n \<longleftrightarrow>
     Protocol n \<in> {VLESS, Hysteria2, Shadowsocks, Trojan, VMess, AmneziaWG} \<and> ValidateNode n"

definition rendered :: "node \<Rightarrow> string \<Rightarrow> obj \<Rightarrow> bool" where
  "rendered n tag ob \<longleftrightarrow>
     (if Protocol n = AmneziaWG then wireguardEndpoint n tag = Inr ob else outbound n tag = Inr (Some ob))"

lemma outbound_tag: "outbound n tag = Inr (Some ob) \<Longrightarrow> ostr ob ''tag'' = tag"
  by (auto simp: outbound_def vlessOutbound_def hysteria2Outbound_def shadowsocksOutbound_def
      trojanOutbound_def vmessOutbound_def out_base_def split: if_splits)

lemma endpoint_tag: "wireguardEndpoint n tag = Inr ob \<Longrightarrow> ostr ob ''tag'' = tag"
  by (auto simp: wireguardEndpoint_def Let_def split: option.splits if_splits)

lemma rendered_tag: "rendered n tag ob \<Longrightarrow> ostr ob ''tag'' = tag"
  using outbound_tag endpoint_tag by (auto simp: rendered_def split: if_splits)

lemma endpoint_ok: "Protocol n = AmneziaWG \<Longrightarrow> validateNode n = None \<Longrightarrow> \<exists>ob. wireguardEndpoint n tag = Inr ob"
  by (auto simp: validateNode_def protocol_error_def wireguardEndpoint_def Let_def protocol_defs
      split: if_splits option.splits)

lemma outbound_ok:
  "Protocol n \<noteq> AmneziaWG \<Longrightarrow>
     (case outbound n tag of Inl _ \<Rightarrow> \<not> usable n | Inr None \<Rightarrow> False
      | Inr (Some _) \<Rightarrow> Protocol n \<in> {VLESS, Hysteria2, Shadowsocks, Trojan, VMess, AmneziaWG})"
  by (auto simp add: outbound_def usable_def)

text \<open>One step of the walk: a usable node is emitted under a fresh tag, any other leaves no trace.\<close>

lemma build_step:
  obtains (skip) sm' where "\<not> usable n" "build_loop i sm (n # ns) = build_loop (Suc i) sm' ns"
      "\<And>t. seen_get sm t \<noteq> 0 \<Longrightarrow> seen_get sm' t \<noteq> 0"
  | (outb) tag sm' ob where "usable n" "Protocol n \<noteq> AmneziaWG" "rendered n tag ob"
      "build_loop i sm (n # ns) = (build_loop (Suc i) sm' ns)
         \<lparr>b_outs := ob # b_outs (build_loop (Suc i) sm' ns),
          b_sel := \<lparr>Index = i, Tag = tag\<rparr> # b_sel (build_loop (Suc i) sm' ns)\<rparr>"
      "seen_get sm tag = 0" "seen_get sm' tag \<noteq> 0" "tag \<noteq> []"
      "\<And>t. seen_get sm t \<noteq> 0 \<Longrightarrow> seen_get sm' t \<noteq> 0"
  | (endp) tag sm' ob where "usable n" "Protocol n = AmneziaWG" "rendered n tag ob"
      "build_loop i sm (n # ns) = (build_loop (Suc i) sm' ns)
         \<lparr>b_endpoints := ob # b_endpoints (build_loop (Suc i) sm' ns),
          b_sel := \<lparr>Index = i, Tag = tag\<rparr> # b_sel (build_loop (Suc i) sm' ns)\<rparr>"
      "seen_get sm tag = 0" "seen_get sm' tag \<noteq> 0" "tag \<noteq> []"
      "\<And>t. seen_get sm t \<noteq> 0 \<Longrightarrow> seen_get sm' t \<noteq> 0"
proof (cases "Protocol n = []")
  case True
  then have "\<not> usable n" by (simp add: usable_def protocol_defs)
  with True skip [of sm] show thesis by simp
next
  case False
  obtain tag sm' where u: "uniq sm (Name n) = (tag, sm')" by fastforce
  note up = uniq_props [OF u]
  show thesis
  proof (cases "validateNode n")
    case (Some e)
    then have "\<not> usable n" by (simp add: usable_def ValidateNode_def)
    with Some False u up(4) skip [of "seen_delete tag sm'"] show thesis by simp
  next
    case None
    show thesis
    proof (cases "Protocol n = AmneziaWG")
      case True
      with None obtain ob where ob: "wireguardEndpoint n tag = Inr ob" using endpoint_ok by blast
      with True None False u up endp [of tag ob sm'] show thesis
        by (simp add: usable_def ValidateNode_def rendered_def Let_def)
    next
      case awg: False
      show thesis
      proof (cases "outbound n tag")
        case (Inl e)
        with outbound_ok [OF awg, of tag] have "\<not> usable n" by simp
        with Inl awg None False u up(4) skip [of "seen_delete tag sm'"] show thesis by simp
      next
        case (Inr r)
        with outbound_ok [OF awg, of tag] obtain ob where ob: "r = Some ob" and
          pr: "Protocol n \<in> {VLESS, Hysteria2, Shadowsocks, Trojan, VMess, AmneziaWG}"
          by (auto split: option.splits)
        with Inr awg None False u up outb [of tag ob sm'] show thesis
          by (simp add: usable_def ValidateNode_def rendered_def Let_def)
      qed
    qed
  qed
qed

lemma build_loop_tags:
  "distinct (map Tag (b_sel (build_loop i sm ns))) \<and>
   (\<forall>t\<in>Tag ` set (b_sel (build_loop i sm ns)). seen_get sm t = 0 \<and> t \<noteq> [])"
proof (induction ns arbitrary: i sm)
  case Nil
  then show ?case by simp
next
  case (Cons n ns)
  show ?case
  proof (cases rule: build_step [of n i sm ns])
    case (skip sm')
    with Cons.IH [of "Suc i" sm'] show ?thesis by (metis not_gr_zero)
  next
    case (outb tag sm' ob)
    with Cons.IH [of "Suc i" sm'] show ?thesis by (fastforce simp: image_iff)
  next
    case (endp tag sm' ob)
    with Cons.IH [of "Suc i" sm'] show ?thesis by (fastforce simp: image_iff)
  qed
qed

lemma build_loop_indices:
  "map Index (b_sel (build_loop i sm ns)) = map fst (filter (\<lambda>p. usable (snd p)) (enumerate i ns))"
proof (induction ns arbitrary: i sm)
  case Nil
  then show ?case by simp
next
  case (Cons n ns)
  show ?case by (cases rule: build_step [of n i sm ns]) (use Cons.IH in auto)
qed

lemma build_loop_mset:
  "mset (map Tag (b_sel (build_loop i sm ns))) =
     mset (map (\<lambda>ob. ostr ob ''tag'') (b_outs (build_loop i sm ns) @ b_endpoints (build_loop i sm ns)))"
proof (induction ns arbitrary: i sm)
  case Nil
  then show ?case by simp
next
  case (Cons n ns)
  show ?case by (cases rule: build_step [of n i sm ns]) (use Cons.IH rendered_tag in auto)
qed

lemma build_loop_rendered:
  "nt \<in> set (b_sel (build_loop i sm ns)) \<Longrightarrow>
     i \<le> Index nt \<and> Index nt < i + length ns \<and>
     (\<exists>ob\<in>set (b_outs (build_loop i sm ns) @ b_endpoints (build_loop i sm ns)).
        rendered (ns ! (Index nt - i)) (Tag nt) ob)"
proof (induction ns arbitrary: i sm)
  case Nil
  then show ?case by simp
next
  case (Cons n ns)
  show ?case
  proof (cases rule: build_step [of n i sm ns])
    case (skip sm')
    with Cons.prems Cons.IH [of "Suc i" sm'] show ?thesis by (fastforce simp: nth_Cons')
  next
    case (outb tag sm' ob)
    with Cons.prems Cons.IH [of "Suc i" sm'] show ?thesis by (fastforce simp: nth_Cons')
  next
    case (endp tag sm' ob)
    with Cons.prems Cons.IH [of "Suc i" sm'] show ?thesis by (fastforce simp: nth_Cons')
  qed
qed

lemmas build_tags = build_loop_tags [of 0 "[]", folded buildNodes_def]
  and build_indices = build_loop_indices [of 0 "[]", folded buildNodes_def]
  and build_mset = build_loop_mset [of 0 "[]", folded buildNodes_def]

lemma build_rendered:
  assumes "nt \<in> set (b_sel (buildNodes ns))"
  shows "\<exists>ob\<in>set (b_outs (buildNodes ns) @ b_endpoints (buildNodes ns)). rendered (ns ! Index nt) (Tag nt) ob"
  using build_loop_rendered [of nt 0 "[]" ns] assms by (simp add: buildNodes_def)

text \<open>The builder emits exactly the usable nodes, in input order, each under a tag of its own: the
  selectable indices are the positions of the nodes whose protocol is known and whose fields pass the
  semantic check, the tags are distinct and non-empty, and they are precisely the tags of the emitted
  outbounds and endpoints.  One unusable node never affects another.\<close>

theorem buildNodes_emits_usable_uniquely:
  "map Index (b_sel (buildNodes ns)) = filter (\<lambda>i. usable (ns ! i)) [0..<length ns] \<and>
   distinct (map Tag (b_sel (buildNodes ns))) \<and>
   list_all (\<lambda>nt. Tag nt \<noteq> []) (b_sel (buildNodes ns)) \<and>
   mset (map Tag (b_sel (buildNodes ns))) =
     mset (map (\<lambda>ob. ostr ob ''tag'') (b_outs (buildNodes ns) @ b_endpoints (buildNodes ns)))"
proof -
  have "map fst (filter (\<lambda>p. usable (snd p)) (enumerate 0 ns)) = filter (\<lambda>i. usable (ns ! i)) [0..<length ns]"
  proof -
    have "enumerate 0 ns = map (\<lambda>i. (i, ns ! i)) [0..<length ns]"
      by (rule nth_equalityI) (simp_all add: nth_enumerate_eq)
    then show ?thesis by (simp add: filter_map o_def)
  qed
  then show ?thesis using build_indices [of ns] build_tags [of ns] build_mset [of ns]
    by (auto simp: list_all_iff)
qed


section \<open>The built configuration\<close>

definition shared_outs :: "obj list" where
  "shared_outs = [[(''type'', VStr ''direct''), (''tag'', VStr directTag)],
                  [(''type'', VStr ''block''), (''tag'', VStr blockTag)]]"

definition build_nodes_of :: "build_env \<Rightarrow> node list \<Rightarrow> options \<Rightarrow> built" where
  "build_nodes_of be ns ro0 = buildNodes (if TLSFragment ro0 then forceFragment ns else ns)"

definition default_of :: "string \<Rightarrow> string list \<Rightarrow> string" where
  "default_of selectedTag tags = (if selectedTag = [] \<or> selectedTag \<notin> set tags then tags ! 0 else selectedTag)"

lemma Normalize_kept [simp]:
  "TLSFragment (Normalize u ro) = TLSFragment ro" "Multihop (Normalize u ro) = Multihop ro"
  "MultihopEntry (Normalize u ro) = MultihopEntry ro" "MultihopExit (Normalize u ro) = MultihopExit ro"
  "KillSwitch (Normalize u ro) = KillSwitch ro"
  by (simp_all add: Normalize_def)

lemma Build_cases:
  assumes "Build be ns st ro0 tun0 = Inr cfg"
  obtains (single) "\<not> Multihop ro0" "b_sel (build_nodes_of be ns ro0) \<noteq> []"
      "cfg = config be (Normalize (be_case be) ro0) (tun_normalize (be_tunname be) tun0)
         (selector_obj (map Tag (b_sel (build_nodes_of be ns ro0)))
            (default_of st (map Tag (b_sel (build_nodes_of be ns ro0)))) #
          b_outs (build_nodes_of be ns ro0) @ shared_outs) (b_endpoints (build_nodes_of be ns ro0))"
  | (double) "Multihop ro0" "b_sel (build_nodes_of be ns ro0) \<noteq> []"
      "validateMultihopOutbounds (b_outs (build_nodes_of be ns ro0)) (MultihopEntry ro0) (MultihopExit ro0) = None"
      "cfg = config be (Normalize (be_case be) ro0) (tun_normalize (be_tunname be) tun0)
         (selector_obj [MultihopExit ro0] (MultihopExit ro0) #
          set_detour (MultihopExit ro0) (MultihopEntry ro0) (b_outs (build_nodes_of be ns ro0)) @ shared_outs)
         (b_endpoints (build_nodes_of be ns ro0))"
proof (cases "Multihop ro0")
  case True
  with assms double show thesis
    by (simp add: Build_def Let_def build_nodes_of_def shared_outs_def split: option.splits if_splits)
next
  case False
  with assms single show thesis
    by (simp add: Build_def Let_def build_nodes_of_def shared_outs_def default_of_def
        split: option.splits if_splits)
qed

lemma config_blocks [simp]:
  "oobjs (config be ro tun outs eps) ''outbounds'' = outs"
  "oobjs (config be ro tun outs eps) ''inbounds'' = [inbound tun (KillSwitch ro)]"
  "oobjs (config be ro tun outs eps) ''endpoints'' = eps"
  "oobj (config be ro tun outs eps) ''route'' = routeBlock (be_case be) (be_files be) ro"
  "oobj (config be ro tun outs eps) ''dns'' = DNS (be_case be) (be_files be) ro"
  by (simp_all add: config_def oobjs_def oobj_def if_field_def)

lemma routeBlock_fields [simp]:
  "oobjs (routeBlock u fe ro) ''rules'' = RouteRules u fe ro"
  "ostr (routeBlock u fe ro) ''final'' = FinalOutbound ro"
  by (simp_all add: routeBlock_def oobjs_def Let_def)

lemma selector_head [simp]:
  "proxySelector (config be ro tun (selector_obj members def # outs) eps) = Some (selector_obj members def)"
  by (simp add: proxySelector_def selector_obj_def)

lemma selector_fields [simp]:
  "ostrs (selector_obj members def) ''outbounds'' = members" "ostr (selector_obj members def) ''default'' = def"
  "ostr (selector_obj members def) ''tag'' = proxyTag"
  by (simp_all add: selector_obj_def)

definition tags_of :: "obj \<Rightarrow> string list" where
  "tags_of cfg = map (\<lambda>ob. ostr ob ''tag'') (oobjs cfg ''outbounds'' @ oobjs cfg ''endpoints'')"

lemma shared_tags [simp]: "map (\<lambda>ob. ostr ob ''tag'') shared_outs = [directTag, blockTag]"
  by (simp add: shared_outs_def)

lemma set_detour_tags [simp]:
  "map (\<lambda>ob. ostr ob ''tag'') (set_detour x e obs) = map (\<lambda>ob. ostr ob ''tag'') obs"
  by (induction obs) (auto simp: ostr_oset)

lemma build_of_mset:
  "mset (map Tag (b_sel (build_nodes_of be ns ro))) =
     mset (map (\<lambda>ob. ostr ob ''tag'') (b_outs (build_nodes_of be ns ro) @ b_endpoints (build_nodes_of be ns ro)))"
  unfolding build_nodes_of_def by (rule build_mset)

lemma build_of_tags:
  "distinct (map Tag (b_sel (build_nodes_of be ns ro)))"
  "t \<in> Tag ` set (b_sel (build_nodes_of be ns ro)) \<Longrightarrow> t \<noteq> []"
  unfolding build_nodes_of_def using build_tags by blast+

lemma build_of_outs:
  "ob \<in> set (b_outs (build_nodes_of be ns ro)) \<Longrightarrow> ostr ob ''tag'' \<in> Tag ` set (b_sel (build_nodes_of be ns ro))"
  using arg_cong [OF build_of_mset [of be ns ro], of set_mset] by auto

lemma Build_tags:
  assumes "Build be ns st ro0 tun0 = Inr cfg"
  shows "mset (tags_of cfg) = mset ([proxyTag, directTag, blockTag] @ map Tag (b_sel (build_nodes_of be ns ro0)))"
  using assms
  by (cases rule: Build_cases) (simp_all add: tags_of_def build_of_mset [simplified])

lemma validateMultihop_None:
  "validateMultihopOutbounds outs e x = None \<longleftrightarrow>
     e \<noteq> [] \<and> x \<noteq> [] \<and> e \<noteq> x \<and> (\<exists>ob\<in>set outs. ostr ob ''tag'' = e) \<and> (\<exists>ob\<in>set outs. ostr ob ''tag'' = x)"
  by (auto simp: validateMultihopOutbounds_def outboundByTag_def find_None_iff)

text \<open>A built configuration has no tag twice exactly when no node got one of the shared tags: the
  walk's uniqueness is relative to the nodes only.\<close>

theorem Build_tags_distinct_iff:
  assumes "Build be ns st ro tun = Inr cfg"
  shows "distinct (tags_of cfg) \<longleftrightarrow>
    set (map Tag (b_sel (build_nodes_of be ns ro))) \<inter> {proxyTag, directTag, blockTag} = {}"
proof -
  have "distinct (tags_of cfg) \<longleftrightarrow>
      distinct ([proxyTag, directTag, blockTag] @ map Tag (b_sel (build_nodes_of be ns ro)))"
    by (rule mset_eq_imp_distinct_iff [OF Build_tags [OF assms]])
  then show ?thesis
    using build_of_tags(1) [of be ns ro] by (auto simp: tag_defs)
qed

text \<open>C26. Every reference of a built configuration resolves: the selector's default is one of its members,
  each member, each outbound a route rule names, and the final outbound is the tag of an emitted
  outbound or endpoint, and the selector is found where the control layer looks for it.\<close>

theorem Build_references_resolve:
  assumes "Build be ns st ro tun = Inr cfg"
  shows "(\<exists>d. SelectorDefault cfg = Some d \<and> d \<in> set (SelectorMembers cfg)) \<and>
    set (SelectorMembers cfg) \<subseteq> set (tags_of cfg) \<and>
    {ostr r ''outbound'' |r. r \<in> set (oobjs (oobj cfg ''route'') ''rules'') \<and> ostr r ''action'' = ''route''} \<subseteq> set (tags_of cfg) \<and>
    ostr (oobj cfg ''route'') ''final'' \<in> set (tags_of cfg)"
proof -
  let ?b = "build_nodes_of be ns ro"
  have tags: "set (tags_of cfg) = {proxyTag, directTag, blockTag} \<union> Tag ` set (b_sel ?b)"
    using Build_tags [OF assms] by (metis list.set(1,2) list.set_map set_append set_mset_mset insert_is_Un sup_assoc)
  have names: "{tagProxy, tagDirect} \<subseteq> set (tags_of cfg)"
    by (simp add: tags routing_consts tag_defs)
  have rule: "ostr r ''outbound'' \<in> {tagProxy, tagDirect}"
    if "r \<in> set (RouteRules u fe ro')" "ostr r ''action'' = ''route''" for r u fe ro'
    using that by (cases rule: route_rules_cases) simp_all
  have blk: "oobjs (oobj cfg ''route'') ''rules'' = RouteRules (be_case be) (be_files be) (Normalize (be_case be) ro)"
      "ostr (oobj cfg ''route'') ''final'' = FinalOutbound (Normalize (be_case be) ro)"
    using assms by (cases rule: Build_cases; simp)+
  have fin: "FinalOutbound ro' \<in> {tagProxy, tagDirect}" for ro' by (simp add: FinalOutbound_def)
  have mem: "\<exists>d ms. SelectorDefault cfg = Some d \<and> SelectorMembers cfg = ms \<and> d \<in> set ms \<and>
      set ms \<subseteq> Tag ` set (b_sel ?b)"
    using assms
  proof (cases rule: Build_cases)
    case single
    define ts where "ts = map Tag (b_sel ?b)"
    have d: "default_of st ts \<in> set ts" using single(2) by (auto simp: default_of_def ts_def)
    then have "default_of st ts \<noteq> []" using build_of_tags(2) [of _ be ns ro] by (simp add: ts_def)
    with d show ?thesis
      unfolding single(3) ts_def [symmetric] by (simp add: SelectorDefault_def SelectorMembers_def) (simp add: ts_def)
  next
    case double
    then obtain ob where ob: "ob \<in> set (b_outs ?b)" "ostr ob ''tag'' = MultihopExit ro" and ne: "MultihopExit ro \<noteq> []"
      unfolding validateMultihop_None by blast
    from build_of_outs [OF ob(1)] ob(2) have "MultihopExit ro \<in> Tag ` set (b_sel ?b)" by simp
    with ne show ?thesis
      unfolding double(4) by (simp add: SelectorDefault_def SelectorMembers_def)
  qed
  show ?thesis
  proof (intro conjI)
    show "\<exists>d. SelectorDefault cfg = Some d \<and> d \<in> set (SelectorMembers cfg)" using mem by blast
    show "set (SelectorMembers cfg) \<subseteq> set (tags_of cfg)" using mem tags by blast
    show "{ostr r ''outbound'' |r. r \<in> set (oobjs (oobj cfg ''route'') ''rules'') \<and> ostr r ''action'' = ''route''}
        \<subseteq> set (tags_of cfg)"
      unfolding blk using rule names by blast
    show "ostr (oobj cfg ''route'') ''final'' \<in> set (tags_of cfg)"
      unfolding blk using fin names by blast
  qed
qed

text \<open>What the builder does with the two-hop chain it is given.  A chain it cannot build fails the build, where the
  comments speak of a single hop; when the build succeeds, the entry and the exit are two different regular outbounds, the exit dials through the entry, and the
  selector offers the exit alone.\<close>

theorem Build_multihop_chains:
  assumes "Build be ns st ro tun = Inr cfg" and "Multihop ro"
  shows "MultihopEntry ro \<noteq> MultihopExit ro \<and>
    SelectorMembers cfg = [MultihopExit ro] \<and> SelectorDefault cfg = Some (MultihopExit ro) \<and>
    (\<exists>ob\<in>set (oobjs cfg ''outbounds''). ostr ob ''tag'' = MultihopExit ro \<and> ostr ob ''detour'' = MultihopEntry ro) \<and>
    (\<exists>ob\<in>set (b_outs (build_nodes_of be ns ro)). ostr ob ''tag'' = MultihopEntry ro)"
proof -
  have det: "(\<exists>ob\<in>set obs. ostr ob ''tag'' = x) \<Longrightarrow>
      \<exists>ob\<in>set (set_detour x e obs). ostr ob ''tag'' = x \<and> ostr ob ''detour'' = e" for obs x e
    by (induction obs) (auto simp: ostr_oset)
  from assms(1) show ?thesis
  proof (cases rule: Build_cases)
    case single
    with assms(2) show ?thesis by simp
  next
    case double
    note v = double(3) [unfolded validateMultihop_None]
    from double(4) v det [of "b_outs (build_nodes_of be ns ro)" "MultihopExit ro" "MultihopEntry ro"]
    show ?thesis by (auto simp: SelectorDefault_def SelectorMembers_def)
  qed
qed

text \<open>With the kill switch armed on a desktop tun, the configuration's only inbound claims the routes and
  drops what escapes them: automatic and strict routing are both on and the interface carries an address
  of each family; in system-proxy mode the only inbound listens on the loopback address.\<close>

theorem Build_inbound_guards:
  assumes "Build be ns st ro tun = Inr cfg"
  shows "\<exists>ib. oobjs cfg ''inbounds'' = [ib] \<and>
    (if IsSystemProxy tun then ostr ib ''type'' = ''mixed'' \<and> ostr ib ''listen'' = ''127.0.0.1''
     else ostr ib ''type'' = ''tun'' \<and> length (ostrs ib ''address'') = 2 \<and>
       (if ExternalTun tun then oget ib ''auto_route'' = None
        else oget ib ''auto_route'' = Some (VBool True) \<and> oget ib ''strict_route'' = Some (VBool (KillSwitch ro))))"
proof -
  have mode: "TunMode (tun_normalize nm tun) = ModeSystemProxy \<longleftrightarrow> IsSystemProxy tun"
      "ExternalTun (tun_normalize nm tun) = ExternalTun tun" for nm
    by (auto simp: tun_normalize_def IsSystemProxy_def ModeSystemProxy_def ModeTun_def)
  have "oobjs cfg ''inbounds'' = [inbound (tun_normalize (be_tunname be) tun) (KillSwitch ro)]"
    using assms by (cases rule: Build_cases) simp_all
  then show ?thesis
    by (simp add: inbound_def mode mixedInbound_def tunInbound_def mixedListen_def tunAddressesFor_def Let_def
        oget_append if_field_def)
qed


section \<open>Reshaping a handshake changes no tag\<close>

text \<open>
  Two nodes of the same shape differ only in the handshake fields of an enabled or disabled TLS
  record: the check, the kind of object and the tag do not see those.
\<close>

definition same_shape :: "node \<Rightarrow> node \<Rightarrow> bool" where
  "same_shape n n' \<longleftrightarrow>
     (\<exists>t'. n' = n\<lparr>TLS := t'\<rparr> \<and>
       map_option (\<lambda>t. (Enabled t, Reality t)) t' = map_option (\<lambda>t. (Enabled t, Reality t)) (TLS n))"

lemma same_shape_refl [simp]: "same_shape n n"
  unfolding same_shape_def by (rule exI [of _ "TLS n"]) simp

lemma shape_fields:
  assumes "same_shape n n'"
  shows "Protocol n' = Protocol n" "Name n' = Name n" "wireguardEndpoint n' tag = wireguardEndpoint n tag"
    "validateNode n' = validateNode n"
proof -
  from assms obtain t' where n': "n' = n\<lparr>TLS := t'\<rparr>" and
    t': "map_option (\<lambda>t. (Enabled t, Reality t)) t' = map_option (\<lambda>t. (Enabled t, Reality t)) (TLS n)"
    by (auto simp: same_shape_def)
  show "Protocol n' = Protocol n" "Name n' = Name n" by (simp_all add: n')
  show "wireguardEndpoint n' tag = wireguardEndpoint n tag"
    by (cases "WireGuard n") (simp_all add: n' wireguardEndpoint_def Let_def)
  have "transport_error n' = transport_error n"
    using t' by (cases "TLS n"; cases t') (auto simp: n' transport_error_def split: option.split)
  moreover have "protocol_error n' = protocol_error n" by (simp add: n' protocol_error_def extra_get_def)
  ultimately show "validateNode n' = validateNode n"
    using t' by (cases "TLS n"; cases t') (auto simp: n' validateNode_def split: option.split)
qed

lemma outbound_shape:
  assumes "same_shape n n'"
  shows "case outbound n tag of Inl e \<Rightarrow> outbound n' tag = Inl e | Inr None \<Rightarrow> outbound n' tag = Inr None
   | Inr (Some a) \<Rightarrow> \<exists>b. outbound n' tag = Inr (Some b)"
  using shape_fields [OF assms] by (simp add: outbound_def)

lemma build_loop_shape:
  "list_all2 same_shape ns ns' \<Longrightarrow> b_sel (build_loop i sm ns') = b_sel (build_loop i sm ns)"
proof (induction ns ns' arbitrary: i sm rule: list_all2_induct)
  case Nil
  then show ?case by simp
next
  case (Cons n ns n' ns')
  note eq = shape_fields [OF Cons.hyps(1)]
  obtain tag sm' where u: "uniq sm (Name n) = (tag, sm')" by fastforce
  show ?case
  proof (cases "outbound n tag")
    case (Inl e)
    with outbound_shape [OF Cons.hyps(1), of tag] have "outbound n' tag = Inl e" by simp
    with Inl show ?thesis by (simp add: u eq Cons.IH Let_def split: sum.split)
  next
    case (Inr r)
    with outbound_shape [OF Cons.hyps(1), of tag] show ?thesis
      by (cases r) (auto simp add: u eq Cons.IH Let_def split: sum.split)
  qed
qed

lemma SelectorTags_shape: "list_all2 same_shape ns ns' \<Longrightarrow> SelectorTags ns' = SelectorTags ns"
  using build_loop_shape by (simp add: SelectorTags_def buildNodes_def)

lemma forceFragment_shape: "list_all2 same_shape ns (forceFragment ns)"
proof -
  have "same_shape n (case TLS n of None \<Rightarrow> n | Some t \<Rightarrow> n\<lparr>TLS := Some (t\<lparr>Fragment := True\<rparr>)\<rparr>)" for n
    by (cases "TLS n") (auto simp: same_shape_def)
  then show ?thesis by (simp add: forceFragment_def list_all2_map2 list_all2_same)
qed

text \<open>The exported tag list is the selector of the configuration: without a two-hop chain, the members of
  the built selector are the tags \<^verbatim>\<open>SelectorTags\<close> reports for the same nodes, in order, whether or not
  fragmentation is forced, and the default is the requested tag whenever it is one of them.\<close>

theorem SelectorTags_are_members:
  assumes "Build be ns st ro tun = Inr cfg" and "\<not> Multihop ro"
  shows "SelectorMembers cfg = map Tag (SelectorTags ns) \<and>
    (st \<in> set (map Tag (SelectorTags ns)) \<longrightarrow> SelectorDefault cfg = Some st)"
proof -
  have sel: "b_sel (build_nodes_of be ns ro) = SelectorTags ns"
    using SelectorTags_shape [OF forceFragment_shape, of ns]
    by (simp add: build_nodes_of_def SelectorTags_def)
  from assms(1) show ?thesis
  proof (cases rule: Build_cases)
    case single
    show ?thesis
      using single(3) build_of_tags(2) [of st be ns ro]
      by (auto simp: SelectorMembers_def SelectorDefault_def default_of_def sel)
  next
    case double
    with assms(2) show ?thesis by simp
  qed
qed

section \<open>The probe configuration\<close>

lemma nat_str_eq [simp]: "nat_str i = nat_str j \<longleftrightarrow> i = j"
  by (rule nat_str_inj)

lemma probeInboundTag_inj [simp]: "probeInboundTag i = probeInboundTag j \<longleftrightarrow> i = j"
  by (simp add: probeInboundTag_def)

lemma probe_rule_fields [simp]:
  "ostr (probe_rule i t) ''action'' = ''route''" "ostr (probe_rule i t) ''outbound'' = t"
  "match_fields (probe_rule i t) = [(''inbound'', VStrs [probeInboundTag i])]"
  by (simp_all add: probe_rule_def match_fields_def)

definition probe_hit :: "string \<Rightarrow> obj \<Rightarrow> bool" where
  "probe_hit tag r \<longleftrightarrow> r = [(''inbound'', VStrs [tag])]"

lemma decide_probe_rules:
  "decide (probe_hit (probeInboundTag j)) t f (map (\<lambda>i. probe_rule i (g i)) [k..<n]) =
     (if k \<le> j \<and> j < n then ostr (probe_rule j (g j)) t else f)"
proof (induction "n - k" arbitrary: k)
  case 0
  then show ?case by auto
next
  case (Suc m)
  then have kn: "[k..<n] = k # [Suc k..<n]" by (simp add: upt_conv_Cons)
  have "decide (probe_hit (probeInboundTag j)) t f (map (\<lambda>i. probe_rule i (g i)) [Suc k..<n]) =
      (if Suc k \<le> j \<and> j < n then ostr (probe_rule j (g j)) t else f)"
    using Suc.hyps(2) by (intro Suc.hyps(1)) simp
  then show ?case
    using Suc.hyps(2) by (auto simp: kn decide_Cons probe_hit_def)
qed

text \<open>A probe measures the node it names and nothing else: the bindings cover the usable nodes in order on
  distinct consecutive ports within range, the listener of each binding is on the loopback address and
  its requests are routed to that binding's node, a request from any other listener is blocked, and no
  inbound opens a tun.\<close>

theorem BuildProbe_pins_each_node:
  assumes "BuildProbe rnd1 rnd2 ns base = Inr (cfg, bs)"
  shows "map PbTag bs = map Tag (SelectorTags ns) \<and> map PbIndex bs = map Index (SelectorTags ns) \<and>
    map PbPort bs = map (\<lambda>i. base + int i) [0..<length bs] \<and> 1 \<le> base \<and> base + int (length bs) - 1 \<le> 65535 \<and>
    map (\<lambda>ib. ostr ib ''tag'') (oobjs cfg ''inbounds'') = map probeInboundTag [0..<length bs] \<and>
    list_all (\<lambda>ib. ostr ib ''type'' = ''mixed'' \<and> ostr ib ''listen'' = ''127.0.0.1'') (oobjs cfg ''inbounds'') \<and>
    decide (probe_hit (probeInboundTag j)) ''outbound'' (ostr (oobj cfg ''route'') ''final'')
        (oobjs (oobj cfg ''route'') ''rules'') = (if j < length bs then PbTag (bs ! j) else blockTag)"
proof -
  let ?sel = "SelectorTags ns"
  have ok: "1 \<le> base" "?sel \<noteq> []" "base + int (length ?sel) - 1 \<le> 65535"
    using assms by (auto simp: BuildProbe_def Let_def SelectorTags_def split: if_splits)
  obtain u where u: "randomProbeCredential rnd1 = Inr u"
    using assms by (cases "randomProbeCredential rnd1") (auto simp: BuildProbe_def Let_def split: if_splits)
  obtain p where p: "randomProbeCredential rnd2 = Inr p"
    using assms u by (cases "randomProbeCredential rnd2") (auto simp: BuildProbe_def Let_def split: if_splits)
  have bs: "bs = map (\<lambda>i. probe_binding_of ns base u p i (?sel ! i)) [0..<length ?sel]"
    and cfg: "oobjs cfg ''inbounds'' = map (probe_inbound base u p) [0..<length ?sel]"
      "ostr (oobj cfg ''route'') ''final'' = blockTag"
      "oobjs (oobj cfg ''route'') ''rules'' =
         [(''action'', VStr ''sniff'')] # map (\<lambda>i. probe_rule i (Tag (?sel ! i))) [0..<length ?sel]"
    using assms
    by (auto simp: BuildProbe_def Let_def SelectorTags_def u p oobjs_def oobj_def split: if_splits)
  have tags: "map PbTag bs = map Tag ?sel" "map PbIndex bs = map Index ?sel"
    "map PbPort bs = map (\<lambda>i. base + int i) [0..<length bs]" and len: "length bs = length ?sel"
    unfolding bs by (auto intro: nth_equalityI simp: probe_binding_of_def)
  have "j < length bs \<Longrightarrow> PbTag (bs ! j) = Tag (?sel ! j)"
    by (simp add: bs probe_binding_of_def)
  then have "decide (probe_hit (probeInboundTag j)) ''outbound'' (ostr (oobj cfg ''route'') ''final'')
        (oobjs (oobj cfg ''route'') ''rules'') = (if j < length bs then PbTag (bs ! j) else blockTag)"
    unfolding cfg by (simp add: decide_Cons decide_probe_rules len)
  with tags len ok cfg(1) show ?thesis
    by (auto simp: list_all_iff probe_inbound_def mixedListen_def)
qed


section \<open>Concrete instances\<close>

definition sample_node :: "string \<Rightarrow> node" where
  "sample_node nm = zero_node\<lparr>Protocol := Shadowsocks, Name := nm, Server := ''192.0.2.1'', Port := 443,
     Method := ''aes-256-gcm'', node.Password := ''pw''\<rparr>"

definition sample_env :: build_env where
  "sample_env = \<lparr>be_files = ready_fs, be_case = \<lambda>s. s, be_tunname = platformTUNName_other, be_secret = ''s''\<rparr>"

definition sample_tun :: tun_options where
  "sample_tun = \<lparr>TunMode = [], MixedPort = 0, InterfaceName = [], MTU = 0, TunStack = [], ExternalTun = False,
     ClashAPIPort = 0, TunAddress = [], TunAddress6 = [], CacheDir = []\<rparr>"

definition built_ok :: "(build_error, obj) result \<Rightarrow> bool" where
  "built_ok r \<longleftrightarrow> (case r of Inr _ \<Rightarrow> True | Inl _ \<Rightarrow> False)"

lemma sanitize_plain: "s \<noteq> [] \<Longrightarrow> list_all (\<lambda>c. ascii c \<and> 33 \<le> (of_char c :: nat)) s \<Longrightarrow> tag_runes s = s \<Longrightarrow> sanitizeTag s = s"
  by (simp add: sanitizeTag_def trim_space_trimmed trimmed_visible)

lemma sample_sanitize:
  "sanitizeTag ''a'' = ''a''" "sanitizeTag ''b'' = ''b''" "sanitizeTag ''proxy'' = ''proxy''"
  by (rule sanitize_plain, simp, simp add: ascii_def, code_simp)+

lemma sample_usable:
  "validateNode (sample_node nm) = None" "Protocol (sample_node nm) = Shadowsocks" "Name (sample_node nm) = nm"
  by (simp_all add: sample_node_def zero_node_def validateNode_def transport_error_def protocol_error_def
      extra_get_def protocol_defs)

lemma sample_outbound: "outbound (sample_node nm) tag = Inr (Some (shadowsocksOutbound (sample_node nm) tag))"
  by (simp add: outbound_def sample_usable protocol_defs)

lemma sample_build:
  "buildNodes [sample_node ''a'', sample_node ''b''] =
     \<lparr>b_outs = [shadowsocksOutbound (sample_node ''a'') ''a'', shadowsocksOutbound (sample_node ''b'') ''b''],
      b_endpoints = [], b_sel = [\<lparr>Index = 0, Tag = ''a''\<rparr>, \<lparr>Index = 1, Tag = ''b''\<rparr>]\<rparr>"
  "buildNodes [sample_node ''proxy''] =
     \<lparr>b_outs = [shadowsocksOutbound (sample_node ''proxy'') ''proxy''], b_endpoints = [],
      b_sel = [\<lparr>Index = 0, Tag = ''proxy''\<rparr>]\<rparr>"
  by (simp_all add: buildNodes_def sample_usable sample_outbound uniq_def sample_sanitize seen_get_def
      seen_set_def protocol_defs Let_def)

lemma sample_validate: "RulesDirect ro = [] \<Longrightarrow> RulesProxy ro = [] \<Longrightarrow>
  Validate u (Normalize u ro) = None"
  using normalize_valid_and_stable [of u ro] by (simp add: Normalize_def normalizeSuffixes_def)

lemma sample_Build:
  "built_ok (Build sample_env [sample_node ''a'', sample_node ''b''] [] zero_options sample_tun)"
  "built_ok (Build sample_env [sample_node ''a'', sample_node ''b''] []
     (zero_options\<lparr>Multihop := True, MultihopEntry := ''a'', MultihopExit := ''b''\<rparr>) sample_tun)"
  "built_ok (Build sample_env [sample_node ''proxy''] [] zero_options sample_tun)"
  by (simp_all add: built_ok_def Build_def sample_validate zero_options_def sample_build Let_def
      validateMultihopOutbounds_def outboundByTag_def shadowsocksOutbound_def out_base_def)

lemma built_okE: "built_ok r \<Longrightarrow> \<exists>cfg. r = Inr cfg"
  by (auto simp: built_ok_def split: sum.splits)

lemma sample_tags:
  "b_sel (build_nodes_of be [sample_node ''a'', sample_node ''b''] zero_options) =
     [\<lparr>Index = 0, Tag = ''a''\<rparr>, \<lparr>Index = 1, Tag = ''b''\<rparr>]"
  "b_sel (build_nodes_of be [sample_node ''proxy''] zero_options) = [\<lparr>Index = 0, Tag = ''proxy''\<rparr>]"
  by (simp_all add: build_nodes_of_def zero_options_def sample_build)

lemma Build_tags_distinct_iff_witness:
  "(\<exists>cfg. Build sample_env [sample_node ''a'', sample_node ''b''] [] zero_options sample_tun = Inr cfg \<and>
     distinct (tags_of cfg)) \<and>
   (\<exists>cfg. Build sample_env [sample_node ''proxy''] [] zero_options sample_tun = Inr cfg \<and> \<not> distinct (tags_of cfg))"
proof
  obtain cfg where c: "Build sample_env [sample_node ''a'', sample_node ''b''] [] zero_options sample_tun = Inr cfg"
    using built_okE [OF sample_Build(1)] by blast
  show "\<exists>cfg. Build sample_env [sample_node ''a'', sample_node ''b''] [] zero_options sample_tun = Inr cfg \<and>
     distinct (tags_of cfg)"
    using c Build_tags_distinct_iff [OF c] by (auto simp: sample_tags tag_defs)
  obtain cfg where c: "Build sample_env [sample_node ''proxy''] [] zero_options sample_tun = Inr cfg"
    using built_okE [OF sample_Build(3)] by blast
  show "\<exists>cfg. Build sample_env [sample_node ''proxy''] [] zero_options sample_tun = Inr cfg \<and> \<not> distinct (tags_of cfg)"
    using c Build_tags_distinct_iff [OF c] by (auto simp: sample_tags tag_defs)
qed

lemma Build_references_resolve_witness:
  "\<exists>cfg d. Build sample_env [sample_node ''a'', sample_node ''b''] [] zero_options sample_tun = Inr cfg \<and>
     SelectorDefault cfg = Some d \<and> d \<in> set (SelectorMembers cfg)"
proof -
  obtain cfg where c: "Build sample_env [sample_node ''a'', sample_node ''b''] [] zero_options sample_tun = Inr cfg"
    using built_okE [OF sample_Build(1)] by blast
  show ?thesis using c Build_references_resolve [OF c] by blast
qed

lemma Build_multihop_chains_witness:
  "\<exists>cfg. Build sample_env [sample_node ''a'', sample_node ''b''] []
     (zero_options\<lparr>Multihop := True, MultihopEntry := ''a'', MultihopExit := ''b''\<rparr>) sample_tun = Inr cfg \<and>
     SelectorMembers cfg = [''b'']"
proof -
  obtain cfg where c: "Build sample_env [sample_node ''a'', sample_node ''b''] []
     (zero_options\<lparr>Multihop := True, MultihopEntry := ''a'', MultihopExit := ''b''\<rparr>) sample_tun = Inr cfg"
    using built_okE [OF sample_Build(2)] by blast
  show ?thesis using c Build_multihop_chains [OF c] by simp
qed

lemma Build_inbound_guards_witness:
  "\<exists>cfg ib. Build sample_env [sample_node ''a'', sample_node ''b''] [] zero_options sample_tun = Inr cfg \<and>
     oobjs cfg ''inbounds'' = [ib] \<and> oget ib ''auto_route'' = Some (VBool True)"
proof -
  obtain cfg where c: "Build sample_env [sample_node ''a'', sample_node ''b''] [] zero_options sample_tun = Inr cfg"
    using built_okE [OF sample_Build(1)] by blast
  show ?thesis
    using c Build_inbound_guards [OF c]
    by (simp add: IsSystemProxy_def sample_tun_def ModeSystemProxy_def) blast
qed

lemma SelectorTags_are_members_witness:
  "\<exists>cfg. Build sample_env [sample_node ''a'', sample_node ''b''] [] zero_options sample_tun = Inr cfg \<and>
     SelectorMembers cfg = [''a'', ''b'']"
proof -
  obtain cfg where c: "Build sample_env [sample_node ''a'', sample_node ''b''] [] zero_options sample_tun = Inr cfg"
    using built_okE [OF sample_Build(1)] by blast
  have "\<not> Multihop zero_options" by (simp add: zero_options_def)
  with c SelectorTags_are_members [OF c] show ?thesis by (simp add: SelectorTags_def sample_build)
qed

lemma BuildProbe_pins_each_node_witness:
  "\<exists>cfg bs. BuildProbe (Some (replicate 16 7)) (Some (replicate 16 9)) [sample_node ''a'', sample_node ''b''] 20000 =
     Inr (cfg, bs) \<and> map PbTag bs = [''a'', ''b'']"
proof -
  have "\<exists>cfg bs. BuildProbe (Some (replicate 16 7)) (Some (replicate 16 9)) [sample_node ''a'', sample_node ''b''] 20000 =
     Inr (cfg, bs)"
    by (simp add: BuildProbe_def sample_build Let_def randomProbeCredential_def)
  then obtain cfg bs where c: "BuildProbe (Some (replicate 16 7)) (Some (replicate 16 9))
      [sample_node ''a'', sample_node ''b''] 20000 = Inr (cfg, bs)" by blast
  show ?thesis using c BuildProbe_pins_each_node [OF c] by (simp add: SelectorTags_def sample_build)
qed

end
