(* ===== verification/Control_Nodes.thy ===== *)
theory Control_Nodes
  imports Singbox_Props Fallback Profile_Store
begin

text \<open>
  How the daemon gets from a stored profile to the nodes, tags and candidates of one connect
  (\<^verbatim>\<open>core/control/daemon.go\<close>): the tag map that has to agree with the configuration builder, the candidate
  list, the transport strategy folded into one node, the two-hop selection, and the redacted view of a
  profile that leaves the daemon.

  Clashing names of the imported packages are qualified by their theory.
\<close>

section \<open>Nodes, candidates and tags\<close>

definition profileNodes :: "profile \<Rightarrow> node list" where
  "profileNodes p = map SrvNode (Servers p)"

definition serverIDs :: "profile \<Rightarrow> string list" where
  "serverIDs p = map SrvID (Servers p)"

definition knownProtocol :: "protocol \<Rightarrow> bool" where
  "knownProtocol p \<longleftrightarrow>
     p = VLESS \<or> p = Hysteria2 \<or> p = Shadowsocks \<or> p = Trojan \<or> p = VMess \<or> p = AmneziaWG"

definition renderable :: "server \<Rightarrow> bool" where
  "renderable s \<longleftrightarrow>
     Protocol (SrvNode s) \<noteq> [] \<and> knownProtocol (Protocol (SrvNode s)) \<and> ValidateNode (SrvNode s)"

datatype connect_error =
    Unsupported_node string protocol
  | Node_not_found
  | No_usable_servers
  | No_alternative_exit
  | No_alternative_node
  | Hops_not_distinct
  | Hop_not_in_profile
  | Chain_refused multihop_error

definition buildCandidates :: "profile \<Rightarrow> string \<Rightarrow> (connect_error, attempt list) result" where
  "buildCandidates p explicit =
     (if explicit \<noteq> [] then
        (case find (\<lambda>s. SrvID s = explicit) (Servers p) of
           Some s \<Rightarrow>
             if \<not> renderable s then Inl (Unsupported_node explicit (Protocol (SrvNode s)))
             else Inr [\<lparr>NodeID = SrvID s, Node = SrvNode s\<rparr>]
         | None \<Rightarrow> Inl Node_not_found)
      else
        let cands = map (\<lambda>s. \<lparr>NodeID = SrvID s, Node = SrvNode s\<rparr>) (filter renderable (Servers p))
        in if length cands = 0 then Inl No_usable_servers else Inr cands)"

definition dropCandidate :: "attempt list \<Rightarrow> string \<Rightarrow> attempt list" where
  "dropCandidate cands nodeID = filter (\<lambda>a. NodeID a \<noteq> nodeID) cands"

text \<open>
  The daemon's copy of the tag walk, with its own \<^verbatim>\<open>seen\<close> map; its \<^verbatim>\<open>sanitizeTag\<close> is the builder's text
  again.  A later server with the same identifier overwrites the entry.
\<close>

fun tags_loop :: "seen_map \<Rightarrow> (string \<rightharpoonup> string) \<Rightarrow> server list \<Rightarrow> (string \<rightharpoonup> string)" where
  "tags_loop sm tags [] = tags"
| "tags_loop sm tags (s # ss) =
     (if Protocol (SrvNode s) = [] then tags_loop sm tags ss
      else
        let (tag, sm') = uniq sm (Name (SrvNode s))
        in if \<not> ValidateNode (SrvNode s) then tags_loop (seen_delete tag sm') tags ss
           else if \<not> knownProtocol (Protocol (SrvNode s)) then tags_loop (seen_delete tag sm') tags ss
           else tags_loop sm' (tags(SrvID s \<mapsto> tag)) ss)"

definition serverTags :: "profile \<Rightarrow> (string \<rightharpoonup> string)" where
  "serverTags p = tags_loop [] Map.empty (Servers p)"

text \<open>Reading a Go map: the zero value for an absent key.\<close>

definition tag_at :: "(string \<rightharpoonup> string) \<Rightarrow> string \<Rightarrow> string" where
  "tag_at tags k = (case tags k of Some t \<Rightarrow> t | None \<Rightarrow> [])"

definition applyStrategyToNodes :: "node list \<Rightarrow> string list \<Rightarrow> string \<Rightarrow> strategy \<Rightarrow> node list" where
  "applyStrategyToNodes nodes nodeIDs targetID strat =
     (if IsDefault strat then nodes
      else map (\<lambda>i. if i < length nodeIDs \<and> nodeIDs ! i = targetID then ApplyTo strat (nodes ! i) else nodes ! i)
             [0..<length nodes])"

section \<open>The two-hop selection\<close>

definition hasServer :: "profile \<Rightarrow> string \<Rightarrow> bool" where
  "hasServer p ident \<longleftrightarrow> list_ex (\<lambda>s. SrvID s = ident) (Servers p)"

definition validateMultihopProfile :: "profile \<Rightarrow> multihop \<Rightarrow> connect_error option" where
  "validateMultihopProfile p mh =
     (if \<not> MhEnabled mh then None
      else if \<not> mh_Valid mh then Some Hops_not_distinct
      else if \<not> hasServer p (EntryID mh) \<or> \<not> hasServer p (ExitID mh) then Some Hop_not_in_profile
      else
        let tags = serverTags p
        in map_option Chain_refused
             (ValidateMultihop (profileNodes p) (tag_at tags (EntryID mh)) (tag_at tags (ExitID mh))))"

definition resolveMultihop :: "options \<Rightarrow> multihop \<Rightarrow> (string \<rightharpoonup> string) \<Rightarrow> options" where
  "resolveMultihop ro mh tags =
     ro\<lparr>Multihop := MhEnabled mh, MultihopEntry := tag_at tags (EntryID mh),
        MultihopExit := tag_at tags (ExitID mh)\<rparr>"

definition multihopResolved :: "options \<Rightarrow> options \<Rightarrow> bool" where
  "multihopResolved a b \<longleftrightarrow>
     Multihop a = Multihop b \<and> MultihopEntry a = MultihopEntry b \<and> MultihopExit a = MultihopExit b"

section \<open>The configuration of one attempt\<close>

record selector_shape =
  SsDefault :: string
  SsMembers :: "string list"

definition shape_has :: "selector_shape \<Rightarrow> string \<Rightarrow> bool" where
  "shape_has s tag \<longleftrightarrow> tag \<in> set (SsMembers s)"

text \<open>\<open>enc\<close> is \<^verbatim>\<open>json.Marshal\<close>, which does not fail on the maps, strings and numbers of a configuration.\<close>

definition buildConfigJSON ::
  "build_env \<Rightarrow> (obj \<Rightarrow> string) \<Rightarrow> node list \<Rightarrow> string \<Rightarrow> options \<Rightarrow> tun_options \<Rightarrow>
   (build_error, string \<times> selector_shape) result" where
  "buildConfigJSON be enc nodes selTag ro tun =
     (case Build be nodes selTag ro tun of
        Inl e \<Rightarrow> Inl e
      | Inr cfg \<Rightarrow>
          Inr (enc cfg, \<lparr>SsDefault = (case SelectorDefault cfg of Some d \<Rightarrow> d | None \<Rightarrow> []),
                         SsMembers = SelectorMembers cfg\<rparr>))"

definition protoLabel :: "node \<Rightarrow> string" where
  "protoLabel n = (if Protocol n \<noteq> [] then Protocol n else ''node'')"

section \<open>What leaves the daemon\<close>

record redacted_node =
  RnID :: string
  RnProtocol :: protocol
  RnName :: string
  RnServer :: string
  RnPort :: int
  RnInsecure :: bool

record redacted_profile =
  RpID :: string
  RpName :: string
  RpSource :: string
  RpNodes :: "redacted_node list"
  RpUpdatedAt :: int
  RpExpiresAt :: "int option"
  RpTrafficUsed :: int
  RpTrafficTotal :: int
  RpManaged :: bool
  RpTier :: string

definition redact_server :: "server \<Rightarrow> redacted_node" where
  "redact_server s =
     \<lparr>RnID = SrvID s, RnProtocol = Protocol (SrvNode s), RnName = Name (SrvNode s),
      RnServer = Server (SrvNode s), RnPort = Port (SrvNode s),
      RnInsecure = (case TLS (SrvNode s) of Some t \<Rightarrow> Insecure t | None \<Rightarrow> False)\<rparr>"

definition redactProfile :: "profile \<Rightarrow> redacted_profile" where
  "redactProfile p =
     \<lparr>RpID = ID p, RpName = PName p, RpSource = Source p, RpNodes = map redact_server (Servers p),
      RpUpdatedAt = UpdatedAt p, RpExpiresAt = ExpiresAt p, RpTrafficUsed = TrafficUsed p,
      RpTrafficTotal = TrafficTotal p, RpManaged = Managed p, RpTier = Tier p\<rparr>"

definition redactProfiles :: "profile list \<Rightarrow> redacted_profile list" where
  "redactProfiles ps = map redactProfile ps"

definition profileChanged :: "profile \<Rightarrow> profile \<Rightarrow> bool" where
  "profileChanged before after =
     (if TrafficUsed before \<noteq> TrafficUsed after \<or> TrafficTotal before \<noteq> TrafficTotal after then True
      else if Managed before \<noteq> Managed after \<or> Tier before \<noteq> Tier after then True
      else if (ExpiresAt before = None) \<noteq> (ExpiresAt after = None) then True
      else if ExpiresAt before \<noteq> None \<and> ExpiresAt before \<noteq> ExpiresAt after then True
      else if length (Servers before) \<noteq> length (Servers after) then True
      else list_ex (\<lambda>i. SrvID (Servers before ! i) \<noteq> SrvID (Servers after ! i)) [0..<length (Servers before)])"

section \<open>The tag map agrees with the builder\<close>

lemma knownProtocol_usable:
  "usable n \<longleftrightarrow> knownProtocol (Protocol n) \<and> ValidateNode n"
  by (auto simp: usable_def knownProtocol_def)

lemma known_not_empty: "knownProtocol p \<Longrightarrow> p \<noteq> []"
  by (auto simp: knownProtocol_def protocol_defs)

lemma known_outbound:
  "knownProtocol (Protocol n) \<Longrightarrow> Protocol n \<noteq> AmneziaWG \<Longrightarrow> \<exists>ob. outbound n tag = Inr (Some ob)"
  unfolding outbound_def knownProtocol_def by (elim disjE; simp)

lemma unknown_outbound:
  "\<not> knownProtocol (Protocol n) \<Longrightarrow> Protocol n \<noteq> AmneziaWG \<and> (\<exists>e. outbound n tag = Inl e)"
  unfolding outbound_def knownProtocol_def by simp

lemma if_as_upd: "(\<lambda>a. if a = k then Some v else m a) = m(k \<mapsto> v)"
  by (simp add: fun_eq_iff)

lemma tags_loop_mirror:
  "tags_loop sm tags ss =
     tags ++ map_of (rev (map (\<lambda>nt. (SrvID (ss ! (Index nt - i)), Tag nt)) (b_sel (build_loop i sm (map SrvNode ss)))))"
proof (induction ss arbitrary: sm tags i)
  case Nil
  then show ?case by simp
next
  case (Cons s ss)
  let ?n = "SrvNode s"
  obtain tag sm' where u: "uniq sm (Name ?n) = (tag, sm')" by fastforce
  have shift: "map (\<lambda>nt. (SrvID ((s # ss) ! (Index nt - i)), Tag nt)) (b_sel (build_loop (Suc i) sm'' (map SrvNode ss)))
      = map (\<lambda>nt. (SrvID (ss ! (Index nt - Suc i)), Tag nt)) (b_sel (build_loop (Suc i) sm'' (map SrvNode ss)))" for sm''
  proof (rule map_cong [OF refl])
    fix nt assume "nt \<in> set (b_sel (build_loop (Suc i) sm'' (map SrvNode ss)))"
    then have "Suc i \<le> Index nt" using build_loop_rendered by blast
    then have "Index nt - i = Suc (Index nt - Suc i)" by arith
    then show "(SrvID ((s # ss) ! (Index nt - i)), Tag nt) = (SrvID (ss ! (Index nt - Suc i)), Tag nt)" by simp
  qed
  show ?case
  proof (cases "Protocol ?n = [] \<or> \<not> ValidateNode ?n")
    case True
    then show ?thesis by (auto simp: u shift Cons.IH [of _ _ "Suc i"] ValidateNode_def)
  next
    case ok: False
    show ?thesis
    proof (cases "knownProtocol (Protocol ?n)")
      case True
      show ?thesis
      proof (cases "Protocol ?n = AmneziaWG")
        case awg: True
        with ok obtain ep where "wireguardEndpoint ?n tag = Inr ep"
          using endpoint_ok by (auto simp: ValidateNode_def)
        with True ok awg show ?thesis
          by (simp add: u shift Cons.IH [of _ _ "Suc i"] ValidateNode_def Let_def if_as_upd)
      next
        case awg: False
        then obtain ob where "outbound ?n tag = Inr (Some ob)"
          using True known_outbound by blast
        with True ok awg show ?thesis
          by (simp add: u shift Cons.IH [of _ _ "Suc i"] ValidateNode_def Let_def if_as_upd)
      qed
    next
      case False
      then obtain e where "Protocol ?n \<noteq> AmneziaWG" "outbound ?n tag = Inl e"
        using unknown_outbound by blast
      with False ok show ?thesis
        by (auto simp: u shift Cons.IH [of _ _ "Suc i"] ValidateNode_def)
    qed
  qed
qed

text \<open>The daemon's own tag walk agrees with the builder for every profile: the map it connects by is
  exactly the builder's selector membership, keyed by the identifier of the server each tag was minted
  for (the last one, where identifiers repeat).  No later change of the suffix counters can drift.\<close>

theorem serverTags_mirror_builder:
  "serverTags p =
     map_of (rev (map (\<lambda>nt. (SrvID (Servers p ! Index nt), Tag nt)) (SelectorTags (profileNodes p))))"
  using tags_loop_mirror [of "[]" Map.empty "Servers p" 0]
  by (simp add: serverTags_def SelectorTags_def buildNodes_def profileNodes_def)


section \<open>A connect dials the chosen server\<close>

lemma ApplyTo_shape: "same_shape n (ApplyTo s n)"
proof (cases "IsDefault s")
  case True
  then show ?thesis by (simp add: ApplyTo_def)
next
  case False
  then show ?thesis by (cases "TLS n") (auto simp: same_shape_def ApplyTo_def Let_def)
qed

lemma strategy_nth:
  "length (applyStrategyToNodes ns ids tgt s) = length ns"
  "i < length ns \<Longrightarrow> applyStrategyToNodes ns ids tgt s ! i =
     (if i < length ids \<and> ids ! i = tgt then ApplyTo s (ns ! i) else ns ! i)"
  by (simp_all add: applyStrategyToNodes_def ApplyTo_def)

lemma strategy_shape: "list_all2 same_shape ns (applyStrategyToNodes ns ids tgt s)"
  by (rule list_all2_all_nthI) (simp_all add: strategy_nth ApplyTo_shape)

definition fragmented :: "options \<Rightarrow> node \<Rightarrow> node" where
  "fragmented ro n = (if TLSFragment ro then hd (forceFragment [n]) else n)"

lemma built_nodes_nth:
  "i < length ns \<Longrightarrow> (if TLSFragment ro then forceFragment ns else ns) ! i = fragmented ro (ns ! i)"
  by (simp add: fragmented_def forceFragment_def)

lemma built_tags_shape:
  "list_all2 same_shape ns ns' \<Longrightarrow> b_sel (build_nodes_of be ns' ro) = SelectorTags ns"
  using SelectorTags_shape [of ns ns'] SelectorTags_shape [OF forceFragment_shape, of ns']
  by (simp add: build_nodes_of_def SelectorTags_def)

lemma selector_index:
  "i < length ns \<Longrightarrow> usable (ns ! i) \<longleftrightarrow> i \<in> Index ` set (SelectorTags ns)"
  "nt \<in> set (SelectorTags ns) \<Longrightarrow> Index nt < length ns"
  "nt \<in> set (SelectorTags ns) \<Longrightarrow> Tag nt \<noteq> []"
proof -
  have "map Index (SelectorTags ns) = map fst (filter (\<lambda>p. usable (snd p)) (enumerate 0 ns))"
    unfolding SelectorTags_def using build_indices .
  then have "Index ` set (SelectorTags ns) = fst ` set (filter (\<lambda>p. usable (snd p)) (enumerate 0 ns))"
    by (metis list.set_map)
  then have eq: "Index ` set (SelectorTags ns) = {i. i < length ns \<and> usable (ns ! i)}"
    by (force simp: in_set_enumerate_eq image_iff)
  show "i < length ns \<Longrightarrow> usable (ns ! i) \<longleftrightarrow> i \<in> Index ` set (SelectorTags ns)" using eq by simp
  show "nt \<in> set (SelectorTags ns) \<Longrightarrow> Index nt < length ns" using eq by blast
  show "nt \<in> set (SelectorTags ns) \<Longrightarrow> Tag nt \<noteq> []"
    using build_tags unfolding SelectorTags_def by blast
qed

lemma serverTags_lookup:
  "serverTags p k =
     map_of (rev (map (\<lambda>nt. (SrvID (Servers p ! Index nt), Tag nt)) (SelectorTags (profileNodes p)))) k"
  using tags_loop_mirror [of "[]" Map.empty "Servers p" 0]
  by (simp add: serverTags_def SelectorTags_def buildNodes_def profileNodes_def)

lemma serverTags_renderable:
  assumes "i < length (Servers p)" and "renderable (Servers p ! i)"
  obtains nt where "nt \<in> set (SelectorTags (profileNodes p))"
    "SrvID (Servers p ! Index nt) = SrvID (Servers p ! i)"
    "serverTags p (SrvID (Servers p ! i)) = Some (Tag nt)"
proof -
  let ?kvs = "map (\<lambda>nt. (SrvID (Servers p ! Index nt), Tag nt)) (SelectorTags (profileNodes p))"
  have "usable (profileNodes p ! i)"
    using assms by (auto simp: profileNodes_def renderable_def knownProtocol_usable)
  then have "i \<in> Index ` set (SelectorTags (profileNodes p))"
    using selector_index(1) [of i "profileNodes p"] assms(1) by (simp add: profileNodes_def)
  then have "SrvID (Servers p ! i) \<in> fst ` set ?kvs" by force
  then obtain t where "serverTags p (SrvID (Servers p ! i)) = Some t"
    unfolding serverTags_lookup by (metis map_of_eq_None_iff not_Some_eq set_rev)
  moreover from this have "(SrvID (Servers p ! i), t) \<in> set ?kvs"
    unfolding serverTags_lookup by (metis map_of_SomeD set_rev)
  ultimately show thesis using that by auto
qed

lemma find_SomeD: "find P xs = Some x \<Longrightarrow> x \<in> set xs \<and> P x"
  by (auto simp: find_Some_iff)

lemma candidates_servers:
  assumes "buildCandidates p e = Inr cs" and "c \<in> set cs"
  obtains s where "s \<in> set (Servers p)" "renderable s" "NodeID c = SrvID s" "Node c = SrvNode s"
  using assms by (auto simp: buildCandidates_def Let_def dest!: find_SomeD split: if_splits option.splits)

text \<open>A connect attempt dials the server it was asked for: with distinct server identifiers and no
  two-hop chain, the configuration built for a candidate of the profile, under any transport strategy,
  starts its selector on the tag the daemon looks up for that candidate, and that tag belongs to an emitted
  object rendered from exactly that candidate's node, reshaped by the strategy of the attempt (and
  fragmented when that is forced).\<close>

theorem connect_dials_candidate:
  assumes "distinct (serverIDs p)" and "buildCandidates p e = Inr cs" and "c \<in> set cs" and "\<not> Multihop ro"
    and "Build be (applyStrategyToNodes (profileNodes p) (serverIDs p) (NodeID c) strat)
      (tag_at (serverTags p) (NodeID c)) ro tun = Inr cfg"
  shows "SelectorDefault cfg = Some (tag_at (serverTags p) (NodeID c)) \<and>
    (\<exists>ob\<in>set (oobjs cfg ''outbounds'' @ oobjs cfg ''endpoints'').
       rendered (fragmented ro (ApplyTo strat (Node c))) (tag_at (serverTags p) (NodeID c)) ob)"
proof -
  obtain s where s: "s \<in> set (Servers p)" "renderable s" and c: "NodeID c = SrvID s" "Node c = SrvNode s"
    by (rule candidates_servers [OF assms(2,3)])
  let ?ns = "applyStrategyToNodes (profileNodes p) (serverIDs p) (SrvID s) strat"
  obtain i where i: "i < length (Servers p)" "Servers p ! i = s"
    using s(1) by (metis in_set_conv_nth)
  obtain nt where nt: "nt \<in> set (SelectorTags (profileNodes p))" "SrvID (Servers p ! Index nt) = SrvID s"
      "serverTags p (SrvID s) = Some (Tag nt)"
    using serverTags_renderable [of i p] i s(2) by metis
  have len: "Index nt < length (Servers p)" using selector_index(2) [OF nt(1)] by (simp add: profileNodes_def)
  have at: "Index nt = i"
    using assms(1) nt(2) len i nth_eq_iff_index_eq [of "serverIDs p" "Index nt" i] by (simp add: serverIDs_def)
  have sel: "b_sel (build_nodes_of be ?ns ro) = SelectorTags (profileNodes p)"
    by (rule built_tags_shape [OF strategy_shape])
  have "?ns ! Index nt = ApplyTo strat (SrvNode s)"
    using i by (simp add: at strategy_nth profileNodes_def serverIDs_def)
  then have node: "(if TLSFragment ro then forceFragment ?ns else ?ns) ! Index nt =
      fragmented ro (ApplyTo strat (SrvNode s))"
    using len by (simp only: built_nodes_nth strategy_nth profileNodes_def length_map)
  have "\<exists>ob\<in>set (b_outs (build_nodes_of be ?ns ro) @ b_endpoints (build_nodes_of be ?ns ro)).
      rendered (fragmented ro (ApplyTo strat (SrvNode s))) (Tag nt) ob"
    using build_rendered [of nt "if TLSFragment ro then forceFragment ?ns else ?ns"] nt(1) sel
    unfolding node build_nodes_of_def by simp
  moreover from assms(5,4) [unfolded c] have "oobjs cfg ''outbounds'' = selector_obj (map Tag (SelectorTags (profileNodes p)))
       (default_of (Tag nt) (map Tag (SelectorTags (profileNodes p)))) # b_outs (build_nodes_of be ?ns ro) @ shared_outs"
      "oobjs cfg ''endpoints'' = b_endpoints (build_nodes_of be ?ns ro)"
      "SelectorDefault cfg = Some (Tag nt)"
    using nt selector_index(3) [OF nt(1)]
    by (cases rule: Build_cases; simp add: sel tag_at_def SelectorDefault_def default_of_def)+
  ultimately show ?thesis by (auto simp: c nt(3) tag_at_def)
qed

section \<open>A chain the daemon accepts is one the builder builds\<close>

lemma build_loop_out_tags:
  "list_all2 same_shape ns ns' \<Longrightarrow>
     map (\<lambda>ob. ostr ob ''tag'') (b_outs (build_loop i sm ns')) = map (\<lambda>ob. ostr ob ''tag'') (b_outs (build_loop i sm ns))"
proof (induction ns ns' arbitrary: i sm rule: list_all2_induct)
  case Nil
  then show ?case by simp
next
  case (Cons n ns n' ns')
  note eq = shape_fields [OF Cons.hyps(1)]
  obtain tag sm' where u: "uniq sm (Name n) = (tag, sm')" by fastforce
  show ?case
  proof (cases "outbound n tag")
    case (Inl e)
    with outbound_shape [OF Cons.hyps(1), of tag] have "outbound n' tag = Inl e" by simp
    with Inl show ?thesis by (simp add: u eq Cons.IH Let_def split: sum.split)
  next
    case (Inr r)
    with outbound_shape [OF Cons.hyps(1), of tag] show ?thesis
      by (cases r) (auto simp add: u eq Cons.IH Let_def outbound_tag split: sum.split)
  qed
qed

lemma validateMultihop_tags:
  "map (\<lambda>ob. ostr ob ''tag'') outs = map (\<lambda>ob. ostr ob ''tag'') outs' \<Longrightarrow>
     validateMultihopOutbounds outs e x = None \<longleftrightarrow> validateMultihopOutbounds outs' e x = None"
  unfolding validateMultihop_None by (metis (no_types, lifting) imageE image_eqI list.set_map)

lemma built_out_tags:
  assumes "list_all2 same_shape ns ns'"
  shows "map (\<lambda>ob. ostr ob ''tag'') (b_outs (build_nodes_of be ns' ro)) =
    map (\<lambda>ob. ostr ob ''tag'') (b_outs (buildNodes ns))"
  using build_loop_out_tags [OF assms, of 0 "[]"] build_loop_out_tags [OF forceFragment_shape, of 0 "[]" ns']
  by (simp add: build_nodes_of_def buildNodes_def)

text \<open>A two-hop selection the daemon accepts is one the builder builds: if the check of the selection
  against the profile passes and the options validate, the configuration of every attempt under every
  strategy is built, offers the exit alone, and the exit's tag is the one of the configured exit server.\<close>

theorem accepted_chain_builds:
  assumes "validateMultihopProfile p mh = None" and "MhEnabled mh"
    and "ro = resolveMultihop ro0 mh (serverTags p)"
    and "Validate (be_case be) (Normalize (be_case be) ro) = None"
  shows "\<exists>cfg. Build be (applyStrategyToNodes (profileNodes p) (serverIDs p) cid strat) sel ro tun = Inr cfg \<and>
    SelectorMembers cfg = [tag_at (serverTags p) (ExitID mh)] \<and>
    SelectorDefault cfg = Some (tag_at (serverTags p) (ExitID mh)) \<and> EntryID mh \<noteq> ExitID mh"
proof -
  let ?ns = "applyStrategyToNodes (profileNodes p) (serverIDs p) cid strat"
  let ?e = "tag_at (serverTags p) (EntryID mh)" and ?x = "tag_at (serverTags p) (ExitID mh)"
  have ro: "Multihop ro" "MultihopEntry ro = ?e" "MultihopExit ro = ?x"
    using assms(2,3) by (simp_all add: resolveMultihop_def)
  have ok: "validateMultihopOutbounds (b_outs (buildNodes (profileNodes p))) ?e ?x = None"
    and ids: "EntryID mh \<noteq> ExitID mh"
    using assms(1,2) by (auto simp: validateMultihopProfile_def ValidateMultihop_def mh_Valid_def Let_def split: if_splits)
  have ok': "validateMultihopOutbounds (b_outs (build_nodes_of be ?ns ro)) ?e ?x = None"
    using ok validateMultihop_tags [OF built_out_tags [OF strategy_shape]] by blast
  then obtain ob where "ob \<in> set (b_outs (build_nodes_of be ?ns ro))"
    unfolding validateMultihop_None by blast
  from build_of_outs [OF this] have ne: "b_sel (build_nodes_of be ?ns ro) \<noteq> []" by auto
  obtain cfg where cfg: "Build be ?ns sel ro tun = Inr cfg"
    using ok' ne assms(4) ro by (simp add: Build_def Let_def build_nodes_of_def)
  from cfg ro(1) have "SelectorMembers cfg = [?x] \<and> SelectorDefault cfg = Some ?x"
    using ok' by (cases rule: Build_cases) (auto simp: ro SelectorMembers_def SelectorDefault_def validateMultihop_None)
  with cfg ids show ?thesis by blast
qed


section \<open>Concrete instances\<close>

definition sample_profile :: profile where
  "sample_profile = zero_profile\<lparr>ID := ''p1'', Servers :=
     [\<lparr>SrvID = ''s1'', SrvNode = sample_node ''a''\<rparr>, \<lparr>SrvID = ''s2'', SrvNode = sample_node ''b''\<rparr>]\<rparr>"

lemma sample_profile_fields:
  "Servers sample_profile = [\<lparr>SrvID = ''s1'', SrvNode = sample_node ''a''\<rparr>, \<lparr>SrvID = ''s2'', SrvNode = sample_node ''b''\<rparr>]"
  "profileNodes sample_profile = [sample_node ''a'', sample_node ''b'']"
  "serverIDs sample_profile = [''s1'', ''s2'']"
  by (simp_all add: sample_profile_def profileNodes_def serverIDs_def)

lemma sample_serverTags: "serverTags sample_profile = [''s1'' \<mapsto> ''a'', ''s2'' \<mapsto> ''b'']"
  by (simp add: serverTags_def sample_profile_fields sample_usable ValidateNode_def uniq_def sample_sanitize
      seen_get_def seen_set_def knownProtocol_def Let_def protocol_defs)

lemma sample_candidates:
  "buildCandidates sample_profile ''s2'' = Inr [\<lparr>NodeID = ''s2'', Node = sample_node ''b''\<rparr>]"
  by (simp add: buildCandidates_def sample_profile_fields renderable_def sample_usable ValidateNode_def
      knownProtocol_def protocol_defs)

definition sample_strategy :: strategy where
  "sample_strategy = \<lparr>StName = ''plain'', StFingerprint = '''', StServerName = '''', StFragment = False\<rparr>"

lemma connect_dials_candidate_witness:
  "\<exists>cfg. Build sample_env (applyStrategyToNodes (profileNodes sample_profile) (serverIDs sample_profile) ''s2''
       sample_strategy) ''b'' zero_options sample_tun = Inr cfg \<and> SelectorDefault cfg = Some ''b''"
proof -
  have ns: "applyStrategyToNodes (profileNodes sample_profile) (serverIDs sample_profile) ''s2'' sample_strategy =
      [sample_node ''a'', sample_node ''b'']"
    by (simp add: applyStrategyToNodes_def IsDefault_def sample_strategy_def sample_profile_fields)
  have "built_ok (Build sample_env [sample_node ''a'', sample_node ''b''] ''b'' zero_options sample_tun)"
    by (simp add: built_ok_def Build_def sample_validate zero_options_def sample_build Let_def)
  then obtain cfg where c: "Build sample_env [sample_node ''a'', sample_node ''b''] ''b'' zero_options sample_tun = Inr cfg"
    using built_okE by blast
  have "distinct (serverIDs sample_profile)" "\<not> Multihop zero_options"
    by (simp_all add: sample_profile_fields zero_options_def)
  then show ?thesis
    using c connect_dials_candidate [of sample_profile "''s2''" _ "\<lparr>NodeID = ''s2'', Node = sample_node ''b''\<rparr>"
        zero_options sample_env sample_strategy sample_tun cfg, OF _ sample_candidates]
    by (simp add: ns sample_serverTags tag_at_def)
qed

lemma accepted_chain_builds_witness:
  "\<exists>cfg. Build sample_env (applyStrategyToNodes (profileNodes sample_profile) (serverIDs sample_profile) ''s2''
       sample_strategy) [] (resolveMultihop zero_options \<lparr>MhEnabled = True, EntryID = ''s1'', ExitID = ''s2''\<rparr>
         (serverTags sample_profile)) sample_tun = Inr cfg \<and> SelectorMembers cfg = [''b'']"
proof -
  let ?mh = "\<lparr>MhEnabled = True, EntryID = ''s1'', ExitID = ''s2''\<rparr>"
  have v: "validateMultihopProfile sample_profile ?mh = None"
    by (simp add: validateMultihopProfile_def mh_Valid_def hasServer_def sample_profile_fields sample_serverTags
        tag_at_def Let_def ValidateMultihop_def sample_build validateMultihopOutbounds_def outboundByTag_def
        shadowsocksOutbound_def out_base_def)
  have "Validate (be_case sample_env) (Normalize (be_case sample_env)
      (resolveMultihop zero_options ?mh (serverTags sample_profile))) = None"
    by (simp add: sample_validate resolveMultihop_def zero_options_def)
  from accepted_chain_builds [OF v _ refl this, of "''s2''" sample_strategy "[]" sample_tun]
  show ?thesis by (auto simp: sample_serverTags tag_at_def)
qed

end
