(* ===== verification/Connect_Walk.thy ===== *)
theory Connect_Walk
  imports Control_Nodes
begin

text \<open>
  One connect's walk over the candidates (\<^verbatim>\<open>core/control/connect.go\<close>, \<^verbatim>\<open>core/control/classify.go\<close>): per
  candidate the cascade of transport strategies, the probe loop that decides whether traffic flows, the
  promotion of a candidate that came up, and the snapshots of the walk.

  What the code asks of its surroundings (the process runner, the generation counter, the dialer, the host
  guard, the system proxy, the timers) is a record of functions on a world \<open>'w\<close>; every question returns an
  answer and the next world, so another goroutine may act between any two of them.  What the code does to
  its surroundings is the list of events.  Log lines are left out.
\<close>

section \<open>Why an attempt failed\<close>

text \<open>What \<^verbatim>\<open>errors.Is\<close> and \<^verbatim>\<open>errors.As\<close> find in the error of a dial.\<close>

record dial_error =
  Refused :: bool
  HostUnreach :: bool
  NetUnreach :: bool
  DNSError :: bool
  DeadlineExceeded :: bool
  NetTimeout :: bool

definition classifyDialError :: "dial_error \<Rightarrow> bool \<Rightarrow> tcp_result" where
  "classifyDialError err ctxErr =
     (if Refused err then TCPRefused
      else if HostUnreach err \<or> NetUnreach err then TCPUnreachable
      else if DNSError err then TCPUnreachable
      else if DeadlineExceeded err \<or> ctxErr then TCPTimedOut
      else if NetTimeout err then TCPTimedOut
      else TCPIndeterminate)"

section \<open>The surroundings of a walk\<close>

datatype start_answer = Started | Start_failed (is_local: bool) (start_error: string)

text \<open>
  A timed wait is cut short by the other channel of the select, or its timer fires; when the timer and the
  budget fall on the same instant the select may take either.
\<close>

datatype wait_answer = Cut_short | Timer_fired (tie_goes_on: bool)

record 'w surroundings =
  q_ctx_err :: "'w \<Rightarrow> bool \<times> 'w"
  q_current :: "'w \<Rightarrow> bool \<times> 'w"
  q_start :: "string \<Rightarrow> 'w \<Rightarrow> start_answer \<times> 'w"
  q_exited :: "'w \<Rightarrow> bool \<times> 'w"
  q_select :: "string \<Rightarrow> 'w \<Rightarrow> (bool \<times> nat) \<times> 'w"
  q_probe :: "'w \<Rightarrow> (bool \<times> nat) \<times> 'w"
  q_wait :: "nat \<Rightarrow> 'w \<Rightarrow> wait_answer \<times> 'w"
  q_dial :: "node \<Rightarrow> 'w \<Rightarrow> (dial_error option \<times> bool) \<times> 'w"
  q_activate :: "options \<Rightarrow> tun_options \<Rightarrow> 'w \<Rightarrow> string option \<times> 'w"
  q_arm :: "string \<Rightarrow> 'w \<Rightarrow> string option \<times> 'w"
  q_routing :: "'w \<Rightarrow> string \<times> 'w"

text \<open>Durations in milliseconds.\<close>

record probe_times =
  ProbeWarmup :: nat
  ProbeRetry :: nat
  ProbeTimeout :: nat
  ProbeBudget :: nat

definition default_times :: probe_times where
  "default_times = \<lparr>ProbeWarmup = 700, ProbeRetry = 500, ProbeTimeout = 6000, ProbeBudget = 8000\<rparr>"

datatype attempt_status = Waiting | Trying | Blocked | OK

datatype walk_outcome = Pending | Connected_outcome | Exhausted_outcome

record attempt_item =
  Seq :: nat
  ItProtocol :: protocol
  ItNode :: string
  Status :: attempt_status
  LastGood :: bool
  ItStrategy :: string
  Reason :: string

datatype walk_event =
    Ev_started string strategy string
  | Ev_stopped
  | Ev_selected string bool
  | Ev_probed bool nat
  | Ev_attempts "attempt_item list" walk_outcome
  | Ev_activated
  | Ev_armed string
  | Ev_interrupted
  | Ev_accepted
  | Ev_success string
  | Ev_live string selector_shape
  | Ev_last_good string string
  | Ev_remember string string
  | Ev_connecting string string
  | Ev_connected string string string
  | Ev_failed string string string
  | Ev_lifecycle string string
  | Ev_reconcile string

record 'w walk =
  World :: 'w
  Clock :: nat
  Events :: "walk_event list"
  Items :: "attempt_item list"
  ByNode :: "string \<rightharpoonup> nat"

record fallback_loop =
  FlProfile :: string
  FlNodes :: "node list"
  FlNodeIDs :: "string list"
  FlTags :: "string \<rightharpoonup> string"
  FlRouting :: options
  FlTun :: tun_options
  FlRemember :: bool
  FlRequested :: string

definition ask :: "('w \<Rightarrow> 'a \<times> 'w) \<Rightarrow> 'w walk \<Rightarrow> 'a \<times> 'w walk" where
  "ask q wk = (let (a, w) = q (World wk) in (a, wk\<lparr>World := w\<rparr>))"

definition emit :: "walk_event \<Rightarrow> 'w walk \<Rightarrow> 'w walk" where
  "emit ev wk = wk\<lparr>Events := Events wk @ [ev]\<rparr>"

definition elapse :: "nat \<Rightarrow> 'w walk \<Rightarrow> 'w walk" where
  "elapse t wk = wk\<lparr>Clock := Clock wk + t\<rparr>"

definition superseded :: "'w surroundings \<Rightarrow> 'w walk \<Rightarrow> bool \<times> 'w walk" where
  "superseded env wk =
     (let (err, wk) = ask (q_ctx_err env) wk
      in if err then (True, wk)
         else let (cur, wk) = ask (q_current env) wk in (\<not> cur, wk))"

section \<open>The direct dial\<close>

definition tcpProbe :: "'w surroundings \<Rightarrow> node \<Rightarrow> 'w walk \<Rightarrow> tcp_result \<times> 'w walk" where
  "tcpProbe env n wk =
     (if Server n = [] \<or> Port n = 0 then (TCPIndeterminate, wk)
      else let ((err, ctxErr), wk) = ask (q_dial env n) wk
           in (case err of None \<Rightarrow> TCPConnected | Some e \<Rightarrow> classifyDialError e ctxErr, wk))"

definition classifyAttemptFailure :: "'w surroundings \<Rightarrow> node \<Rightarrow> bool \<Rightarrow> 'w walk \<Rightarrow> failure_class \<times> 'w walk" where
  "classifyAttemptFailure env n stalled wk =
     (let (tcp, wk) = tcpProbe env n wk
      in (ClassifyFailure \<lparr>TCP = tcp, HandshakeStalled = stalled\<rparr>, wk))"

section \<open>The probe loop\<close>

text \<open>A wait under the budget: whether the loop goes on.\<close>

definition budget_wait :: "'w surroundings \<Rightarrow> nat \<Rightarrow> nat \<Rightarrow> 'w walk \<Rightarrow> bool \<times> 'w walk" where
  "budget_wait env dur deadline wk =
     (let (a, wk) = ask (q_wait env dur) wk
      in case a of
           Cut_short \<Rightarrow> (False, wk)
         | Timer_fired tie \<Rightarrow>
             if Clock wk + dur < deadline \<or> Clock wk + dur = deadline \<and> tie then (True, elapse dur wk)
             else (False, wk))"

definition probeStallThreshold :: "probe_times \<Rightarrow> nat" where
  "probeStallThreshold pt = ProbeTimeout pt * 3 div 4"

definition pin_selector :: "'w surroundings \<Rightarrow> string \<Rightarrow> 'w walk \<Rightarrow> bool \<times> 'w walk" where
  "pin_selector env wantTag wk =
     (let ((ok, e), wk) = ask (q_select env wantTag) wk
      in (ok, emit (Ev_selected wantTag ok) (elapse e wk)))"

partial_function (option) probe_loop ::
  "'w surroundings \<Rightarrow> probe_times \<Rightarrow> nat \<Rightarrow> string \<Rightarrow> bool \<Rightarrow> bool \<Rightarrow> 'w walk \<Rightarrow> ((bool \<times> bool) \<times> 'w walk) option"
where
  "probe_loop env pt deadline wantTag pinned stalled wk =
     (let (cur, wk) = ask (q_current env) wk
      in if \<not> cur then Some ((False, stalled), wk)
         else let (exited, wk) = ask (q_exited env) wk
              in if exited then Some ((False, stalled), wk)
         else let (pinned', wk) = (if pinned then (True, wk) else pin_selector env wantTag wk)
              in if \<not> pinned' then
                   let (go, wk) = budget_wait env (ProbeRetry pt) deadline wk
                   in if go then probe_loop env pt deadline wantTag False stalled wk
                      else Some ((False, False), wk)
         else let ((ok, e), wk) = ask (q_probe env) wk;
                  wk = emit (Ev_probed ok e) (elapse e wk)
              in if ok then
                   let (cur, wk) = ask (q_current env) wk in Some ((cur, False), wk)
                 else
                   let stalled' = (probeStallThreshold pt \<le> e);
                       (go, wk) = budget_wait env (ProbeRetry pt) deadline wk
                   in if go then probe_loop env pt deadline wantTag True stalled' wk
                      else Some ((False, stalled'), wk))"

definition probeUntilUp ::
  "'w surroundings \<Rightarrow> probe_times \<Rightarrow> string \<Rightarrow> 'w walk \<Rightarrow> ((bool \<times> bool) \<times> 'w walk) option" where
  "probeUntilUp env pt wantTag wk =
     (let deadline = Clock wk + ProbeBudget pt;
          (go, wk) = budget_wait env (ProbeWarmup pt) deadline wk
      in if \<not> go then Some ((False, False), wk)
         else probe_loop env pt deadline wantTag (wantTag = []) False wk)"

section \<open>The snapshots of the walk\<close>

text \<open>A later candidate with the same identifier takes the entry of the index.\<close>

definition newAttemptTracker ::
  "('s \<Rightarrow> string \<Rightarrow> string option) \<Rightarrow> 's option \<Rightarrow> string \<Rightarrow> 's machine \<Rightarrow> 'w walk \<Rightarrow> 'w walk" where
  "newAttemptTracker get lg pid m wk =
     (let ord = Order m;
          lastGoodID = (case lg of None \<Rightarrow> [] | Some s \<Rightarrow> (case get s pid of Some i \<Rightarrow> i | None \<Rightarrow> []))
      in wk\<lparr>Items := map (\<lambda>i. \<lparr>Seq = i + 1, ItProtocol = Protocol (Node (ord ! i)), ItNode = NodeID (ord ! i),
                          Status = Waiting, LastGood = (NodeID (ord ! i) = lastGoodID),
                          ItStrategy = [], Reason = []\<rparr>) [0..<length ord],
             ByNode := map_of (rev (map (\<lambda>i. (NodeID (ord ! i), i)) [0..<length ord]))\<rparr>)"

text \<open>A superseded walk neither stores nor emits its snapshot.\<close>

definition publish :: "'w surroundings \<Rightarrow> walk_outcome \<Rightarrow> 'w walk \<Rightarrow> 'w walk" where
  "publish env outcome wk =
     (let (cur, wk) = ask (q_current env) wk
      in if \<not> cur then wk else emit (Ev_attempts (Items wk) outcome) wk)"

definition set_item :: "attempt \<Rightarrow> (attempt_item \<Rightarrow> attempt_item) \<Rightarrow> 'w walk \<Rightarrow> 'w walk" where
  "set_item a f wk =
     (case ByNode wk (NodeID a) of
        None \<Rightarrow> wk
      | Some i \<Rightarrow> wk\<lparr>Items := (Items wk)[i := f (Items wk ! i)]\<rparr>)"

definition begin_walk :: "'w surroundings \<Rightarrow> 'w walk \<Rightarrow> 'w walk" where
  "begin_walk env wk = publish env Pending wk"

definition trying :: "'w surroundings \<Rightarrow> attempt \<Rightarrow> 'w walk \<Rightarrow> 'w walk" where
  "trying env a wk = publish env Pending (set_item a (\<lambda>it. it\<lparr>Status := Trying\<rparr>) wk)"

definition escalating :: "'w surroundings \<Rightarrow> attempt \<Rightarrow> strategy \<Rightarrow> 'w walk \<Rightarrow> 'w walk" where
  "escalating env a strat wk =
     publish env Pending
       (set_item a (\<lambda>it. it\<lparr>Status := Trying, ItStrategy := StName strat, Reason := class_String Censored\<rparr>) wk)"

definition blockedWithReason :: "'w surroundings \<Rightarrow> attempt \<Rightarrow> string \<Rightarrow> 'w walk \<Rightarrow> 'w walk" where
  "blockedWithReason env a reason wk =
     publish env Pending
       (set_item a (\<lambda>it. if reason \<noteq> [] then it\<lparr>Status := Blocked, Reason := reason\<rparr> else it\<lparr>Status := Blocked\<rparr>) wk)"

definition succeeded :: "'w surroundings \<Rightarrow> attempt \<Rightarrow> strategy \<Rightarrow> 'w walk \<Rightarrow> 'w walk" where
  "succeeded env a strat wk =
     publish env Connected_outcome
       (set_item a (\<lambda>it. if \<not> IsDefault strat
                      then it\<lparr>Status := OK, Reason := [], ItStrategy := StName strat\<rparr>
                      else it\<lparr>Status := OK, Reason := []\<rparr>) wk)"

definition exhausted :: "'w surroundings \<Rightarrow> 'w walk \<Rightarrow> 'w walk" where
  "exhausted env wk = publish env Exhausted_outcome wk"

section \<open>A candidate that came up\<close>

datatype promote_error = Cancelled | Host_protection string | Proxy_setup string

definition set_failed :: "'w surroundings \<Rightarrow> fallback_loop \<Rightarrow> string \<Rightarrow> 'w walk \<Rightarrow> 'w walk" where
  "set_failed env lp msg wk =
     (let (r, wk) = ask (q_routing env) wk in emit (Ev_failed (FlProfile lp) msg r) wk)"

definition arm_for_mode :: "'w surroundings \<Rightarrow> tun_options \<Rightarrow> 'w walk \<Rightarrow> string option \<times> 'w walk" where
  "arm_for_mode env tun wk =
     (if IsSystemProxy tun then
        let (err, wk) = ask (q_arm env (MixedHostPort tun)) wk
        in (err, if err = None then emit (Ev_armed (MixedHostPort tun)) wk else wk)
      else (None, wk))"

definition publish_connected ::
  "'w surroundings \<Rightarrow> fallback_loop \<Rightarrow> bool \<Rightarrow> attempt \<Rightarrow> strategy \<Rightarrow> selector_shape \<Rightarrow> 'w walk \<Rightarrow> 'w walk" where
  "publish_connected env lp keepsLastGood a strat sel wk =
     (let wk = emit (Ev_success (NodeID a)) wk;
          wk = emit (Ev_live (FlProfile lp) sel) wk;
          wk = (if keepsLastGood then emit (Ev_last_good (FlProfile lp) (NodeID a)) wk else wk);
          wk = (if FlRemember lp then emit (Ev_remember (FlProfile lp) (FlRequested lp)) wk else wk);
          wk = succeeded env a strat wk;
          wk = emit Ev_accepted wk;
          (r, wk) = ask (q_routing env) wk;
          wk = emit (Ev_connected (FlProfile lp) (NodeID a) r) wk;
          wk = emit (Ev_lifecycle (FlProfile lp) (NodeID a)) wk
      in emit (Ev_reconcile (NodeID a)) wk)"

definition recordSuccess ::
  "'w surroundings \<Rightarrow> fallback_loop \<Rightarrow> bool \<Rightarrow> attempt \<Rightarrow> strategy \<Rightarrow> selector_shape \<Rightarrow> 'w walk \<Rightarrow>
   promote_error option \<times> 'w walk"
where
  "recordSuccess env lp keepsLastGood a strat sel wk =
     (let (sup, wk) = superseded env wk
      in if sup then (Some Cancelled, wk)
         else let (err, wk) = ask (q_activate env (FlRouting lp) (FlTun lp)) wk
         in case err of
              Some e \<Rightarrow> (Some (Host_protection e), wk)
            | None \<Rightarrow>
                let (err, wk) = arm_for_mode env (FlTun lp) (emit Ev_activated wk)
                in case err of
                     Some e \<Rightarrow> (Some (Proxy_setup e), wk)
                   | None \<Rightarrow>
                       let (sup, wk) = superseded env wk
                       in if sup then (Some Cancelled, wk)
                          else (None, publish_connected env lp keepsLastGood a strat sel wk))"

definition promote_message :: "promote_error \<Rightarrow> string" where
  "promote_message e =
     (case e of
        Cancelled \<Rightarrow> ''context canceled''
      | Host_protection m \<Rightarrow> ''host protection: '' @ m
      | Proxy_setup m \<Rightarrow> ''system proxy setup failed: '' @ m)"

section \<open>The cascade of one candidate\<close>

datatype node_outcome =
    Node_connected
  | Node_superseded
  | Node_failed string
  | Node_local_failure

definition stop_runner :: "'w walk \<Rightarrow> 'w walk" where
  "stop_runner wk = emit Ev_stopped wk"

definition give_up :: "bool \<Rightarrow> node_outcome" where
  "give_up censored = Node_failed (if censored then class_String Censored else [])"

text \<open>
  What does not change during the walk: the surroundings, the timing, the rendering environment, the JSON
  encoder, the loop's inputs and whether the daemon has a last-good store.
\<close>

record 'w walk_setup =
  Env :: "'w surroundings"
  Times :: probe_times
  Render :: build_env
  Encode :: "obj \<Rightarrow> string"
  Loop :: fallback_loop
  KeepsLastGood :: bool

definition attempt_config ::
  "'w walk_setup \<Rightarrow> attempt \<Rightarrow> strategy \<Rightarrow> (build_error, string \<times> selector_shape) result" where
  "attempt_config su a strat =
     buildConfigJSON (Render su) (Encode su)
       (applyStrategyToNodes (FlNodes (Loop su)) (FlNodeIDs (Loop su)) (NodeID a) strat)
       (tag_at (FlTags (Loop su)) (NodeID a)) (FlRouting (Loop su)) (FlTun (Loop su))"

definition refused_start :: "'w walk_setup \<Rightarrow> attempt \<Rightarrow> bool \<Rightarrow> string \<Rightarrow> 'w walk \<Rightarrow> node_outcome \<times> 'w walk" where
  "refused_start su a loc err wk =
     (let (cur, wk) = ask (q_current (Env su)) wk
      in if \<not> cur then (Node_superseded, stop_runner wk)
         else if loc then
           let wk = stop_runner wk;
               wk = blockedWithReason (Env su) a ''local setup failed'' wk
           in (Node_local_failure, set_failed (Env su) (Loop su) (''local tunnel setup failed: '' @ err) wk)
         else (Node_failed [], wk))"

definition came_up :: "'w walk_setup \<Rightarrow> attempt \<Rightarrow> strategy \<Rightarrow> selector_shape \<Rightarrow> 'w walk \<Rightarrow> node_outcome \<times> 'w walk" where
  "came_up su a strat sel wk =
     (let (res, wk) = recordSuccess (Env su) (Loop su) (KeepsLastGood su) a strat sel wk
      in case res of
           None \<Rightarrow> (Node_connected, wk)
         | Some e \<Rightarrow>
             let wk = stop_runner wk;
                 wk = emit Ev_interrupted wk;
                 (cur, wk) = ask (q_current (Env su)) wk
             in if cur then
                  let wk = blockedWithReason (Env su) a ''local setup failed'' wk
                  in (Node_local_failure, set_failed (Env su) (Loop su) (promote_message e) wk)
                else (Node_local_failure, wk))"

text \<open>
  A probe that failed on the current generation: the process is stopped, and the next strategy is tried on
  the same node (no outcome yet) only if there is one and the failure looks like interference.
\<close>

definition failed_probe ::
  "'w walk_setup \<Rightarrow> attempt \<Rightarrow> bool \<Rightarrow> strategy list \<Rightarrow> bool \<Rightarrow> 'w walk \<Rightarrow> node_outcome option \<times> 'w walk" where
  "failed_probe su a censored rest stalled wk =
     (let (cur, wk) = ask (q_current (Env su)) wk
      in if \<not> cur then (Some Node_superseded, stop_runner wk)
         else
           let wk = stop_runner wk
           in if rest = [] then (Some (give_up censored), wk)
              else
                let (cls, wk) = classifyAttemptFailure (Env su) (Node a) stalled wk
                in if cls = Censored then (None, escalating (Env su) a (hd rest) wk)
                   else (Some (give_up censored), wk))"

fun cascade :: "'w walk_setup \<Rightarrow> attempt \<Rightarrow> bool \<Rightarrow> strategy list \<Rightarrow> 'w walk \<Rightarrow> (node_outcome \<times> 'w walk) option" where
  "cascade su a censored [] wk = Some (give_up censored, wk)"
| "cascade su a censored (strat # rest) wk =
     (let (sup, wk) = superseded (Env su) wk
      in if sup then Some (Node_superseded, stop_runner wk)
         else case attempt_config su a strat of
           Inl _ \<Rightarrow> Some (Node_failed [], wk)
         | Inr (cfg, sel) \<Rightarrow>
             let (st, wk) = ask (q_start (Env su) cfg) wk
             in case st of
                  Start_failed loc err \<Rightarrow> Some (refused_start su a loc err wk)
                | Started \<Rightarrow>
                    (case probeUntilUp (Env su) (Times su) (SsDefault sel) (emit (Ev_started (NodeID a) strat cfg) wk) of
                       None \<Rightarrow> None
                     | Some ((True, _), wk) \<Rightarrow> Some (came_up su a strat sel wk)
                     | Some ((False, stalled), wk) \<Rightarrow>
                         (case failed_probe su a censored rest stalled wk of
                            (Some out, wk) \<Rightarrow> Some (out, wk)
                          | (None, wk) \<Rightarrow> cascade su a True rest wk)))"

definition attemptNode :: "'w walk_setup \<Rightarrow> attempt \<Rightarrow> 'w walk \<Rightarrow> (node_outcome \<times> 'w walk) option" where
  "attemptNode su a wk = cascade su a False DefaultStrategies wk"

section \<open>The walk\<close>

datatype walk_end = Walk_connected string | Walk_superseded | Walk_local_failure | Walk_exhausted

function walk_loop :: "'w walk_setup \<Rightarrow> 's machine \<Rightarrow> 'w walk \<Rightarrow> (walk_end \<times> 'w walk) option" where
  "walk_loop su m wk =
     (let (sup, wk) = superseded (Env su) wk
      in if sup then Some (Walk_superseded, stop_runner wk)
         else case Next m of
           None \<Rightarrow>
             (let (cur, wk) = ask (q_current (Env su)) wk
              in if cur
                 then Some (Walk_exhausted, set_failed (Env su) (Loop su) ''all protocols failed'' (exhausted (Env su) wk))
                 else Some (Walk_exhausted, wk))
         | Some a \<Rightarrow>
             (case attemptNode su a (trying (Env su) a wk) of
                None \<Rightarrow> None
              | Some (Node_connected, wk) \<Rightarrow> Some (Walk_connected (NodeID a), wk)
              | Some (Node_superseded, wk) \<Rightarrow> Some (Walk_superseded, wk)
              | Some (Node_local_failure, wk) \<Rightarrow> Some (Walk_local_failure, wk)
              | Some (Node_failed reason, wk) \<Rightarrow>
                  walk_loop su (Failure m a) (blockedWithReason (Env su) a reason wk)))"
  by pat_completeness auto
termination
  by (relation "measure (\<lambda>(su, m, wk). length (order m) - cursor m)")
    (auto simp: Next_def Failure_def split: if_splits)

declare walk_loop.simps [simp del]

definition runFallback ::
  "('s \<Rightarrow> string \<Rightarrow> string option) \<Rightarrow> 's option \<Rightarrow> 'w walk_setup \<Rightarrow> 's machine \<Rightarrow> 'w walk \<Rightarrow> (walk_end \<times> 'w walk) option" where
  "runFallback get lg su m wk =
     walk_loop su m (begin_walk (Env su) (newAttemptTracker get lg (FlProfile (Loop su)) m wk))"

end
