(* ===== verification/Connect_Walk_Props.thy ===== *)
theory Connect_Walk_Props
  imports Connect_Walk
begin

text \<open>
  What a connect's walk guarantees: it ends, within a bounded number of process starts; it reports a
  connection only for a process that was started, pinned, probed, guarded and (in system-proxy mode) armed;
  it leaves no process behind otherwise; it tries the candidates in the planned order, each under the
  strategies its failures call for; and its snapshots say what happened.
\<close>

section \<open>Frames\<close>

text \<open>What a part of the walk may append to the events.\<close>

definition ext :: "(walk_event \<Rightarrow> bool) \<Rightarrow> 'w walk \<Rightarrow> 'w walk \<Rightarrow> bool" where
  "ext P wk wk' \<longleftrightarrow> (\<exists>es. Events wk' = Events wk @ es \<and> list_all P es) \<and> ByNode wk' = ByNode wk"

definition silent :: "'w walk \<Rightarrow> 'w walk \<Rightarrow> bool" where
  "silent wk wk' \<longleftrightarrow> Events wk' = Events wk \<and> ByNode wk' = ByNode wk \<and> Items wk' = Items wk"

fun probe_event :: "walk_event \<Rightarrow> bool" where
  "probe_event (Ev_selected t ok) = True"
| "probe_event (Ev_probed ok e) = True"
| "probe_event _ = False"

fun runner_event :: "walk_event \<Rightarrow> bool" where
  "runner_event (Ev_started a s c) = True"
| "runner_event Ev_stopped = True"
| "runner_event _ = False"

lemma silentD: "silent wk wk' \<Longrightarrow> Events wk' = Events wk" "silent wk wk' \<Longrightarrow> ByNode wk' = ByNode wk"
  "silent wk wk' \<Longrightarrow> Items wk' = Items wk"
  by (simp_all add: silent_def)

lemma silent_refl [simp]: "silent wk wk" and silent_trans: "silent wk wk' \<Longrightarrow> silent wk' wk'' \<Longrightarrow> silent wk wk''"
  and silent_elapse [simp]: "silent wk (elapse t wk)"
  by (simp_all add: silent_def elapse_def)

lemma ask_silent: "ask q wk = (a, wk') \<Longrightarrow> silent wk wk'"
  by (auto simp: ask_def silent_def split: prod.splits)

lemma ask_clock: "ask q wk = (a, wk') \<Longrightarrow> Clock wk' = Clock wk"
  by (auto simp: ask_def split: prod.splits)

lemma superseded_silent: "superseded env wk = (b, wk') \<Longrightarrow> silent wk wk'"
  by (auto simp: superseded_def split: prod.splits if_splits dest!: ask_silent intro: silent_trans)

lemma budget_wait_silent: "budget_wait env dur dl wk = (b, wk') \<Longrightarrow> silent wk wk'"
  by (auto simp: budget_wait_def elapse_def split: prod.splits if_splits wait_answer.splits dest!: ask_silent)
    (simp_all add: silent_def)

lemma classify_silent: "classifyAttemptFailure env n st wk = (c, wk') \<Longrightarrow> silent wk wk'"
  by (auto simp: classifyAttemptFailure_def tcpProbe_def split: prod.splits if_splits dest!: ask_silent)

lemma emit_fields [simp]:
  "Events (emit e wk) = Events wk @ [e]" "Items (emit e wk) = Items wk" "ByNode (emit e wk) = ByNode wk"
  "Clock (emit e wk) = Clock wk" "World (emit e wk) = World wk"
  by (simp_all add: emit_def)

lemma elapse_fields [simp]:
  "Events (elapse t wk) = Events wk" "Items (elapse t wk) = Items wk" "ByNode (elapse t wk) = ByNode wk"
  "Clock (elapse t wk) = Clock wk + t"
  by (simp_all add: elapse_def)

section \<open>The probe loop ends\<close>

lemma budget_wait_clock:
  "budget_wait env dur dl wk = (True, wk') \<Longrightarrow> Clock wk' = Clock wk + dur \<and> Clock wk' \<le> dl"
  by (auto simp: budget_wait_def split: prod.splits if_splits wait_answer.splits dest!: ask_clock)

lemma pin_clock: "pin_selector env t wk = (ok, wk') \<Longrightarrow> Clock wk \<le> Clock wk'"
  by (auto simp: pin_selector_def split: prod.splits dest!: ask_clock)

lemma pin_events: "pin_selector env t wk = (ok, wk') \<Longrightarrow>
    Events wk' = Events wk @ [Ev_selected t ok] \<and> ByNode wk' = ByNode wk \<and> Items wk' = Items wk"
  by (auto simp: pin_selector_def silent_def split: prod.splits dest!: ask_silent)

text \<open>One round of the loop: it gives up, finds the path up, or goes round again, later.\<close>

lemma probe_round:
  obtains (down) b wk' es where
      "probe_loop env pt dl tag pinned st wk = Some ((False, b), wk')" "Events wk' = Events wk @ es"
      "list_all probe_event es" "ByNode wk' = ByNode wk" "Items wk' = Items wk"
  | (up) wk' es e where
      "probe_loop env pt dl tag pinned st wk = Some ((True, False), wk')" "Events wk' = Events wk @ es @ [Ev_probed True e]"
      "list_all probe_event es" "\<not> pinned \<longrightarrow> es = [Ev_selected tag True]" "ByNode wk' = ByNode wk" "Items wk' = Items wk"
  | (again) pinned' st' wk' es where
      "probe_loop env pt dl tag pinned st wk = probe_loop env pt dl tag pinned' st' wk'"
      "Events wk' = Events wk @ es" "list_all probe_event es" "pinned' \<and> \<not> pinned \<longrightarrow> Ev_selected tag True \<in> set es"
      "Clock wk + ProbeRetry pt \<le> Clock wk'" "Clock wk' \<le> dl" "ByNode wk' = ByNode wk" "Items wk' = Items wk"
proof -
  note q = ask_silent [THEN silentD(1)] ask_silent [THEN silentD(2)] ask_silent [THEN silentD(3)] ask_clock
  obtain cur wk1 where 1: "ask (q_current env) wk = (cur, wk1)" by fastforce
  note k1 = q [OF 1]
  show thesis
  proof (cases cur)
    case False
    show thesis by (rule down [of st wk1 "[]"]) (use 1 k1 False in \<open>simp_all add: probe_loop.simps\<close>)
  next
    case cur: True
    obtain ex wk2 where 2: "ask (q_exited env) wk1 = (ex, wk2)" by fastforce
    note k2 = q [OF 2]
    show thesis
    proof (cases ex)
      case True
      show thesis
        by (rule down [of st wk2 "[]"]) (use 1 k1 2 k2 cur True in \<open>simp_all add: probe_loop.simps\<close>)
    next
      case ex: False
      obtain p wk3 where 3: "(if pinned then (True, wk2) else pin_selector env tag wk2) = (p, wk3)" by fastforce
      have pe: "Events wk3 = Events wk2 @ (if pinned then [] else [Ev_selected tag p])" "ByNode wk3 = ByNode wk2"
          "Items wk3 = Items wk2" "Clock wk2 \<le> Clock wk3"
        using 3 pin_events [of env tag wk2 p wk3] pin_clock [of env tag wk2 p wk3] by (auto split: if_splits)
      have pn: "pinned \<Longrightarrow> p" using 3 by (auto split: if_splits)
      show thesis
      proof (cases p)
        case False
        obtain go wk4 where 4: "budget_wait env (ProbeRetry pt) dl wk3 = (go, wk4)" by fastforce
        note k4 = budget_wait_silent [OF 4, THEN silentD(1)] budget_wait_silent [OF 4, THEN silentD(2)]
          budget_wait_silent [OF 4, THEN silentD(3)]
        have eq: "probe_loop env pt dl tag pinned st wk =
            (if go then probe_loop env pt dl tag False st wk4 else Some ((False, False), wk4))"
          by (subst probe_loop.simps) (simp only: 1 2 3 4 cur ex False Let_def split not_True_eq_False not_False_eq_True if_True if_False)
        show thesis
        proof (cases go)
          case True
          show thesis
            by (rule again [of False st wk4 "if pinned then [] else [Ev_selected tag p]"])
              (use eq True pe k4 k1 k2 budget_wait_clock [of env "ProbeRetry pt" dl wk3 wk4] 4 in auto)
        next
          case False
          show thesis
            by (rule down [of False wk4 "if pinned then [] else [Ev_selected tag p]"]) (use eq False pe k4 k1 k2 in auto)
        qed
      next
        case p: True
        obtain ok e wk4 where 4: "ask (q_probe env) wk3 = ((ok, e), wk4)" by (metis prod.exhaust_sel)
        note k4 = q [OF 4]
        define wk5 where "wk5 = emit (Ev_probed ok e) (elapse e wk4)"
        obtain cur' wk6 where 6: "ask (q_current env) wk5 = (cur', wk6)" by fastforce
        note k6 = q [OF 6]
        obtain go wk7 where 7: "budget_wait env (ProbeRetry pt) dl wk5 = (go, wk7)" by fastforce
        note k7 = budget_wait_silent [OF 7, THEN silentD(1)] budget_wait_silent [OF 7, THEN silentD(2)]
          budget_wait_silent [OF 7, THEN silentD(3)]
        have eq: "probe_loop env pt dl tag pinned st wk =
            (if ok then Some ((cur', False), wk6)
             else if go then probe_loop env pt dl tag True (probeStallThreshold pt \<le> e) wk7
             else Some ((False, probeStallThreshold pt \<le> e), wk7))"
          by (subst probe_loop.simps)
            (simp only: 1 2 3 4 cur ex p Let_def split not_True_eq_False not_False_eq_True if_True if_False
              wk5_def [symmetric] 6 7)
        let ?es = "(if pinned then [] else [Ev_selected tag True])"
        have ev: "Events wk5 = Events wk @ ?es @ [Ev_probed ok e]" "ByNode wk5 = ByNode wk" "Items wk5 = Items wk"
            "Clock wk \<le> Clock wk5"
          using k1 k2 k4 pe p by (auto simp: wk5_def)
        show thesis
        proof (cases "ok \<and> cur'")
          case True
          show thesis by (rule up [of wk6 ?es e]) (use eq True ev k6 in auto)
        next
          case nup: False
          show thesis
          proof (cases "\<not> ok \<and> go")
            case True
            show thesis
              by (rule again [of True "probeStallThreshold pt \<le> e" wk7 "?es @ [Ev_probed ok e]"])
                (use eq True ev k7 budget_wait_clock [of env "ProbeRetry pt" dl wk5 wk7] 7 in auto)
          next
            case False
            show thesis
            proof (cases ok)
              case True
              show thesis
                by (rule down [of False wk6 "?es @ [Ev_probed ok e]"]) (use eq True nup ev k6 in auto)
            next
              case notok: False
              show thesis
                by (rule down [of "probeStallThreshold pt \<le> e" wk7 "?es @ [Ev_probed ok e]"])
                  (use eq notok False ev k7 in auto)
            qed
          qed
        qed
      qed
    qed
  qed
qed

lemma probe_loop_returns:
  assumes "0 < ProbeRetry pt"
  shows "probe_loop env pt dl tag pinned st wk \<noteq> None"
proof (induction "Suc dl - Clock wk" arbitrary: pinned st wk rule: less_induct)
  case less
  show ?case
  proof (cases rule: probe_round [of env pt dl tag pinned st wk])
    case (again pinned' st' wk')
    with assms have "Suc dl - Clock wk' < Suc dl - Clock wk" by arith
    from less [OF this] again(1) show ?thesis by simp
  qed simp_all
qed

lemma probeUntilUp_returns:
  assumes "0 < ProbeRetry pt"
  shows "\<exists>r. probeUntilUp env pt tag wk = Some r"
proof -
  obtain go wk1 where w: "budget_wait env (ProbeWarmup pt) (Clock wk + ProbeBudget pt) wk = (go, wk1)" by fastforce
  show ?thesis
    using probe_loop_returns [OF assms, of env "Clock wk + ProbeBudget pt" tag "tag = []" False wk1]
    by (simp only: probeUntilUp_def Let_def w split not_None_eq if_split) (cases go; auto)
qed

section \<open>One strategy\<close>

lemma cascade_round:
  obtains (over) wk' where "cascade su a cens (strat # rest) wk = Some (Node_superseded, wk')"
      "Events wk' = Events wk @ [Ev_stopped]" "Items wk' = Items wk" "ByNode wk' = ByNode wk"
  | (unbuilt) e wk' where "cascade su a cens (strat # rest) wk = Some (Node_failed [], wk')"
      "attempt_config su a strat = Inl e" "silent wk wk'"
  | (refused) loc err wk' where
      "cascade su a cens (strat # rest) wk = Some (refused_start su a loc err wk')" "silent wk wk'"
  | (started) cfg sel wk1 r where "attempt_config su a strat = Inr (cfg, sel)" "silent wk wk1"
      "probeUntilUp (Env su) (Times su) (SsDefault sel) (emit (Ev_started (NodeID a) strat cfg) wk1) = r"
      "cascade su a cens (strat # rest) wk =
        (case r of
           None \<Rightarrow> None
         | Some ((True, _), wk) \<Rightarrow> Some (came_up su a strat sel wk)
         | Some ((False, stalled), wk) \<Rightarrow>
             (case failed_probe su a cens rest stalled wk of
                (Some out, wk) \<Rightarrow> Some (out, wk)
              | (None, wk) \<Rightarrow> cascade su a True rest wk))"
proof -
  obtain sup wk1 where s: "superseded (Env su) wk = (sup, wk1)" by fastforce
  note si = superseded_silent [OF s]
  show thesis
  proof (cases sup)
    case True
    show thesis
      by (rule over [of "stop_runner wk1"]) (use s si True in \<open>simp_all add: stop_runner_def silent_def\<close>)
  next
    case nsup: False
    show thesis
    proof (cases "attempt_config su a strat")
      case (Inl e)
      show thesis by (rule unbuilt [OF _ Inl si]) (use s nsup Inl in simp)
    next
      case (Inr cs)
      obtain cfg sel where cs: "attempt_config su a strat = Inr (cfg, sel)" using Inr by (cases cs) simp
      obtain st wk2 where st: "ask (q_start (Env su) cfg) wk1 = (st, wk2)" by fastforce
      note si2 = silent_trans [OF si ask_silent [OF st]]
      show thesis
      proof (cases st)
        case Started
        show thesis
          by (rule started [OF cs si2 refl]) (use s nsup cs st Started in \<open>simp cong: option.case_cong\<close>)
      next
        case (Start_failed loc err)
        show thesis by (rule refused [OF _ si2]) (use s nsup cs st Start_failed in simp)
      qed
    qed
  qed
qed

lemma cascade_returns:
  "0 < ProbeRetry (Times su) \<Longrightarrow> \<exists>r. cascade su a cens strats wk = Some r"
proof (induction strats arbitrary: cens wk)
  case Nil
  then show ?case by simp
next
  case (Cons strat rest)
  show ?case
  proof (cases rule: cascade_round [of su a cens strat rest wk])
    case (started cfg sel wk1 r)
    with probeUntilUp_returns [OF Cons.prems] obtain up stalled wk2 where "r = Some ((up, stalled), wk2)" by fastforce
    with started(4) Cons.IH [OF Cons.prems] show ?thesis
      by (cases up; cases "failed_probe su a cens rest stalled wk2") (auto split: option.split)
  qed simp_all
qed

lemma attemptNode_returns: "0 < ProbeRetry (Times su) \<Longrightarrow> \<exists>r. attemptNode su a wk = Some r"
  unfolding attemptNode_def by (rule cascade_returns)

lemma walk_round:
  obtains (over) wk' where "walk_loop su m wk = Some (Walk_superseded, wk')" "Events wk' = Events wk @ [Ev_stopped]"
      "Items wk' = Items wk" "ByNode wk' = ByNode wk"
  | (exhausted) wk1 where "Next m = None" "silent wk wk1"
      "walk_loop su m wk = Some (Walk_exhausted,
         let (cur, wk) = ask (q_current (Env su)) wk1
         in if cur then set_failed (Env su) (Loop su) ''all protocols failed'' (exhausted (Env su) wk) else wk)"
  | (attempt) a wk1 r where "Next m = Some a" "silent wk wk1" "attemptNode su a (trying (Env su) a wk1) = r"
      "walk_loop su m wk =
        (case r of
           None \<Rightarrow> None
         | Some (Node_connected, wk) \<Rightarrow> Some (Walk_connected (NodeID a), wk)
         | Some (Node_superseded, wk) \<Rightarrow> Some (Walk_superseded, wk)
         | Some (Node_local_failure, wk) \<Rightarrow> Some (Walk_local_failure, wk)
         | Some (Node_failed reason, wk) \<Rightarrow>
             walk_loop su (Failure m a) (blockedWithReason (Env su) a reason wk))"
proof -
  obtain sup wk1 where s: "superseded (Env su) wk = (sup, wk1)" by fastforce
  note si = superseded_silent [OF s]
  show thesis
  proof (cases sup)
    case True
    show thesis
      by (rule over [of "stop_runner wk1"])
        (use s si True in \<open>simp_all add: walk_loop.simps stop_runner_def silent_def\<close>)
  next
    case nsup: False
    show thesis
    proof (cases "Next m")
      case None
      show thesis
        by (rule exhausted [OF None si]) (subst walk_loop.simps, simp add: s nsup None split: prod.split)
    next
      case (Some a)
      show thesis
        by (rule attempt [OF Some si refl]) (subst walk_loop.simps, simp add: s nsup Some)
    qed
  qed
qed

lemma walk_returns:
  assumes "0 < ProbeRetry (Times su)"
  shows "\<exists>r. walk_loop su m wk = Some r"
proof (induction "length (order m) - cursor m" arbitrary: m wk rule: less_induct)
  case less
  show ?case
  proof (cases rule: walk_round [of su m wk])
    case (attempt a wk1 r)
    obtain out wk2 where r: "r = Some (out, wk2)"
      using attemptNode_returns [OF assms] attempt(3) by fastforce
    have "length (order (Failure m a)) - cursor (Failure m a) < length (order m) - cursor m"
      using attempt(1) by (auto simp: Next_def Failure_def split: if_splits)
    from less [OF this] attempt(4) r show ?thesis by (cases out) auto
  qed simp_all
qed

text \<open>C29. A connect always comes to an end: for every behaviour of the runner, the network, the timers and the
  other goroutines, the walk over the candidates returns, as long as the probe retry interval is positive
  (the daemon's default is half a second).\<close>

theorem connect_walk_terminates:
  assumes "0 < ProbeRetry (Times su)"
  shows "\<exists>outcome wk'. runFallback get lg su m wk = Some (outcome, wk')"
  using walk_returns [OF assms] by (simp add: runFallback_def)

section \<open>What the parts of a walk leave behind\<close>

fun announces :: "walk_event \<Rightarrow> bool" where
  "announces (Ev_connected p n r) = True"
| "announces (Ev_failed p msg r) = True"
| "announces _ = False"

fun run_event :: "bool \<Rightarrow> walk_event \<Rightarrow> bool" where
  "run_event b (Ev_started a s c) = True"
| "run_event b Ev_stopped = False"
| "run_event b _ = b"

text \<open>Whether a process is left running after some events.\<close>

definition running :: "bool \<Rightarrow> walk_event list \<Rightarrow> bool" where
  "running b es = foldl run_event b es"

definition quiet :: "walk_event list \<Rightarrow> bool" where
  "quiet es \<longleftrightarrow> list_all (\<lambda>e. \<not> announces e \<and> \<not> runner_event e) es"

text \<open>No final state is announced and no process is left running.\<close>

definition dormant :: "walk_event list \<Rightarrow> bool" where
  "dormant es \<longleftrightarrow> list_all (\<lambda>e. \<not> announces e) es \<and> \<not> running False es"

lemma running_simps [simp]:
  "running b [] = b" "running b (e # es) = running (run_event b e) es"
  "running b (es @ es') = running (running b es) es'"
  by (simp_all add: running_def)

lemma quiet_simps [simp]:
  "quiet []" "quiet (e # es) \<longleftrightarrow> \<not> announces e \<and> \<not> runner_event e \<and> quiet es" "quiet (es @ es') \<longleftrightarrow> quiet es \<and> quiet es'"
  by (auto simp: quiet_def)

lemma run_event_quiet: "\<not> runner_event e \<Longrightarrow> run_event b e = b"
  by (cases e) simp_all

lemma quiet_running: "quiet es \<Longrightarrow> running b es = b"
  by (induction es arbitrary: b) (simp_all add: run_event_quiet)

lemma quiet_no_announce: "quiet es \<Longrightarrow> list_all (\<lambda>e. \<not> announces e) es"
  by (induction es) simp_all

lemma quiet_dormant: "quiet es \<Longrightarrow> dormant es"
  by (simp add: dormant_def quiet_running quiet_no_announce)

lemma dormant_append: "dormant es \<Longrightarrow> dormant es' \<Longrightarrow> dormant (es @ es')"
  by (simp add: dormant_def)

lemma dormant_Nil [simp]: "dormant []" and dormant_stopped [simp]: "dormant [Ev_stopped]"
  by (simp_all add: dormant_def)

text \<open>The process starts among some events, as candidate and strategy.\<close>

fun start_of :: "walk_event \<Rightarrow> (string \<times> strategy) list" where
  "start_of (Ev_started n s c) = [(n, s)]"
| "start_of _ = []"

definition starts :: "walk_event list \<Rightarrow> (string \<times> strategy) list" where
  "starts es = concat (map start_of es)"

lemma starts_simps [simp]:
  "starts [] = []" "starts (e # es) = start_of e @ starts es" "starts (es @ es') = starts es @ starts es'"
  by (simp_all add: starts_def)

lemma start_of_quiet: "\<not> runner_event e \<Longrightarrow> start_of e = []"
  by (cases e) simp_all

lemma quiet_starts: "quiet es \<Longrightarrow> starts es = []"
  by (induction es) (simp_all add: start_of_quiet)

lemma probe_events_quiet: "list_all probe_event es \<Longrightarrow> quiet es"
proof (induction es)
  case (Cons e es)
  then show ?case by (cases e) simp_all
qed simp

lemma dormant_run:
  assumes "quiet es" "quiet es'"
  shows "dormant (Ev_started a s c # es @ Ev_stopped # es')"
  using assms by (simp add: dormant_def quiet_running quiet_no_announce)

lemma publish_emits:
  obtains es where "Events (publish env oc wk) = Events wk @ es" "es = [] \<or> es = [Ev_attempts (Items wk) oc]"
    "Items (publish env oc wk) = Items wk" "ByNode (publish env oc wk) = ByNode wk"
proof -
  obtain cur wk1 where "ask (q_current env) wk = (cur, wk1)" by fastforce
  with that [of "if cur then [Ev_attempts (Items wk) oc] else []"] ask_silent [of "q_current env" wk cur wk1]
  show thesis by (auto simp: publish_def silent_def split: if_splits)
qed

lemma publish_fields [simp]:
  "Items (publish env oc wk) = Items wk" "ByNode (publish env oc wk) = ByNode wk"
  by (rule publish_emits; simp; fail)+

lemma publish_quiet: "\<exists>es. Events (publish env oc wk) = Events wk @ es \<and> quiet es"
proof (rule publish_emits [of env oc wk])
  fix es assume "Events (publish env oc wk) = Events wk @ es" "es = [] \<or> es = [Ev_attempts (Items wk) oc]"
  then show ?thesis by (intro exI [of _ es]) auto
qed

lemma set_item_fields [simp]:
  "Events (set_item a f wk) = Events wk" "ByNode (set_item a f wk) = ByNode wk"
  "Clock (set_item a f wk) = Clock wk"
  by (simp_all add: set_item_def split: option.split)

lemma tracker_quiet:
  "\<exists>es. Events (trying env a wk) = Events wk @ es \<and> quiet es"
  "\<exists>es. Events (escalating env a strat wk) = Events wk @ es \<and> quiet es"
  "\<exists>es. Events (blockedWithReason env a reason wk) = Events wk @ es \<and> quiet es"
  "\<exists>es. Events (begin_walk env wk) = Events wk @ es \<and> quiet es"
  "\<exists>es. Events (exhausted env wk) = Events wk @ es \<and> quiet es"
  unfolding trying_def escalating_def blockedWithReason_def begin_walk_def exhausted_def
  using publish_quiet [of env] by (metis set_item_fields(1))+

lemma tracker_ByNode [simp]:
  "ByNode (trying env a wk) = ByNode wk" "ByNode (escalating env a strat wk) = ByNode wk"
  "ByNode (blockedWithReason env a reason wk) = ByNode wk" "ByNode (begin_walk env wk) = ByNode wk"
  "ByNode (exhausted env wk) = ByNode wk"
  by (simp_all add: trying_def escalating_def blockedWithReason_def begin_walk_def exhausted_def)

lemma tracker_Items:
  "Items (trying env a wk) = Items (set_item a (\<lambda>it. it\<lparr>Status := Trying\<rparr>) wk)"
  "Items (escalating env a strat wk) =
     Items (set_item a (\<lambda>it. it\<lparr>Status := Trying, ItStrategy := StName strat, Reason := class_String Censored\<rparr>) wk)"
  "Items (blockedWithReason env a reason wk) =
     Items (set_item a (\<lambda>it. if reason \<noteq> [] then it\<lparr>Status := Blocked, Reason := reason\<rparr> else it\<lparr>Status := Blocked\<rparr>) wk)"
  "Items (begin_walk env wk) = Items wk" "Items (exhausted env wk) = Items wk"
  by (simp_all add: trying_def escalating_def blockedWithReason_def begin_walk_def exhausted_def)

lemma set_failed_emits:
  "\<exists>r. Events (set_failed env lp msg wk) = Events wk @ [Ev_failed (FlProfile lp) msg r]"
  "ByNode (set_failed env lp msg wk) = ByNode wk" "Items (set_failed env lp msg wk) = Items wk"
proof -
  obtain r wk1 where q: "ask (q_routing env) wk = (r, wk1)" by fastforce
  show "\<exists>r. Events (set_failed env lp msg wk) = Events wk @ [Ev_failed (FlProfile lp) msg r]"
    "ByNode (set_failed env lp msg wk) = ByNode wk" "Items (set_failed env lp msg wk) = Items wk"
    using ask_silent [OF q] by (auto simp: set_failed_def q silent_def)
qed

section \<open>A promotion\<close>

text \<open>
  The events of a candidate that came up: its process is started with its configuration, the selector is
  pinned to the configuration's default, a probe returns, the host guard is activated, the system proxy is
  armed when that is the mode, and only then is the connection recorded and announced.
\<close>

definition connected_trail :: "'w walk_setup \<Rightarrow> string \<Rightarrow> selector_shape \<Rightarrow> walk_event list \<Rightarrow> bool" where
  "connected_trail su nid sel es \<longleftrightarrow>
     (\<exists>snap route. (snap = [] \<or> (\<exists>items. snap = [Ev_attempts items Connected_outcome])) \<and>
        es = [Ev_success nid, Ev_live (FlProfile (Loop su)) sel] @
          (if KeepsLastGood su then [Ev_last_good (FlProfile (Loop su)) nid] else []) @
          (if FlRemember (Loop su) then [Ev_remember (FlProfile (Loop su)) (FlRequested (Loop su))] else []) @
          snap @ [Ev_accepted, Ev_connected (FlProfile (Loop su)) nid route, Ev_lifecycle (FlProfile (Loop su)) nid,
                  Ev_reconcile nid])"

definition promoted :: "'w walk_setup \<Rightarrow> string \<Rightarrow> selector_shape \<Rightarrow> walk_event list \<Rightarrow> bool" where
  "promoted su nid sel es \<longleftrightarrow>
     (\<exists>es'. connected_trail su nid sel es' \<and>
        es = [Ev_activated] @
          (if IsSystemProxy (FlTun (Loop su)) then [Ev_armed (MixedHostPort (FlTun (Loop su)))] else []) @ es')"

lemma promoted_starts: "promoted su nid sel es \<Longrightarrow> starts es = []"
  by (auto simp: promoted_def connected_trail_def)

lemma publish_snap:
  "\<exists>snap. Events (publish env oc wk) = Events wk @ snap \<and> (snap = [] \<or> (\<exists>items. snap = [Ev_attempts items oc]))"
proof (rule publish_emits [of env oc wk])
  fix es assume "Events (publish env oc wk) = Events wk @ es" "es = [] \<or> es = [Ev_attempts (Items wk) oc]"
  then show ?thesis by (intro exI [of _ es]) auto
qed

lemma arm_events:
  "arm_for_mode env tun wk = (None, wk') \<Longrightarrow>
     Events wk' = Events wk @ (if IsSystemProxy tun then [Ev_armed (MixedHostPort tun)] else [])"
  "arm_for_mode env tun wk = (r, wk') \<Longrightarrow> ByNode wk' = ByNode wk \<and> Items wk' = Items wk"
  "arm_for_mode env tun wk = (r, wk') \<Longrightarrow> \<exists>es. Events wk' = Events wk @ es \<and> quiet es"
  by (auto simp: arm_for_mode_def silent_def split: if_splits prod.splits dest!: ask_silent)

definition ok_item :: "strategy \<Rightarrow> attempt_item \<Rightarrow> attempt_item" where
  "ok_item strat it = (if \<not> IsDefault strat then it\<lparr>Status := OK, Reason := [], ItStrategy := StName strat\<rparr>
                       else it\<lparr>Status := OK, Reason := []\<rparr>)"

lemma succeeded_snap:
  "\<exists>snap. Events (succeeded env a strat wk) = Events wk @ snap \<and>
     (snap = [] \<or> (\<exists>items. snap = [Ev_attempts items Connected_outcome]))"
proof -
  let ?wk = "set_item a (\<lambda>it. if \<not> IsDefault strat then it\<lparr>Status := OK, Reason := [], ItStrategy := StName strat\<rparr>
    else it\<lparr>Status := OK, Reason := []\<rparr>) wk"
  have "Events ?wk = Events wk" by simp
  with publish_snap [of env Connected_outcome ?wk] show ?thesis unfolding succeeded_def by (simp only:)
qed

lemma publish_connected_events:
  "(\<exists>es. Events (publish_connected (Env su) (Loop su) (KeepsLastGood su) a strat sel wk) = Events wk @ es \<and>
     connected_trail su (NodeID a) sel es) \<and>
   ByNode (publish_connected (Env su) (Loop su) (KeepsLastGood su) a strat sel wk) = ByNode wk \<and>
   Items (publish_connected (Env su) (Loop su) (KeepsLastGood su) a strat sel wk) = Items (set_item a (ok_item strat) wk)"
proof -
  let ?env = "Env su" and ?lp = "Loop su"
  define wk5 where "wk5 = (let wk = emit (Ev_live (FlProfile ?lp) sel) (emit (Ev_success (NodeID a)) wk);
      wk = (if KeepsLastGood su then emit (Ev_last_good (FlProfile ?lp) (NodeID a)) wk else wk)
      in (if FlRemember ?lp then emit (Ev_remember (FlProfile ?lp) (FlRequested ?lp)) wk else wk))"
  obtain snap where 5: "Events (succeeded ?env a strat wk5) = Events wk5 @ snap"
      "snap = [] \<or> (\<exists>items. snap = [Ev_attempts items Connected_outcome])"
    using succeeded_snap by blast
  obtain route wk6 where 6: "ask (q_routing ?env) (emit Ev_accepted (succeeded ?env a strat wk5)) = (route, wk6)" by fastforce
  have eq: "publish_connected ?env ?lp (KeepsLastGood su) a strat sel wk =
      emit (Ev_reconcile (NodeID a)) (emit (Ev_lifecycle (FlProfile ?lp) (NodeID a))
      (emit (Ev_connected (FlProfile ?lp) (NodeID a) route) wk6))"
    by (simp only: publish_connected_def Let_def wk5_def [unfolded Let_def, symmetric] 6 split)
  have e5: "Events wk5 = Events wk @ [Ev_success (NodeID a), Ev_live (FlProfile ?lp) sel] @
      (if KeepsLastGood su then [Ev_last_good (FlProfile ?lp) (NodeID a)] else []) @
      (if FlRemember ?lp then [Ev_remember (FlProfile ?lp) (FlRequested ?lp)] else [])"
      "ByNode wk5 = ByNode wk" "Items wk5 = Items wk"
    by (simp_all add: wk5_def Let_def)
  have s: "Items (succeeded ?env a strat wk5) = Items (set_item a (ok_item strat) wk)"
    "ByNode (succeeded ?env a strat wk5) = ByNode wk"
    using e5 by (simp_all add: succeeded_def set_item_def ok_item_def [abs_def] split: option.split)
  have ev: "Events (publish_connected ?env ?lp (KeepsLastGood su) a strat sel wk) = Events wk @
      [Ev_success (NodeID a), Ev_live (FlProfile ?lp) sel] @
      (if KeepsLastGood su then [Ev_last_good (FlProfile ?lp) (NodeID a)] else []) @
      (if FlRemember ?lp then [Ev_remember (FlProfile ?lp) (FlRequested ?lp)] else []) @
      snap @ [Ev_accepted, Ev_connected (FlProfile ?lp) (NodeID a) route, Ev_lifecycle (FlProfile ?lp) (NodeID a),
        Ev_reconcile (NodeID a)]"
    unfolding eq using ask_silent [OF 6] by (simp add: silent_def 5(1) e5)
  show ?thesis
  proof (intro conjI)
    show "\<exists>es. Events (publish_connected ?env ?lp (KeepsLastGood su) a strat sel wk) = Events wk @ es \<and>
      connected_trail su (NodeID a) sel es"
      by (rule exI, rule conjI, rule ev) (unfold connected_trail_def, rule exI, rule exI, rule conjI, rule 5(2), rule refl)
    show "ByNode (publish_connected ?env ?lp (KeepsLastGood su) a strat sel wk) = ByNode wk"
      "Items (publish_connected ?env ?lp (KeepsLastGood su) a strat sel wk) = Items (set_item a (ok_item strat) wk)"
      unfolding eq using ask_silent [OF 6] s by (simp_all add: silent_def)
  qed
qed

lemma recordSuccess_cases:
  assumes "recordSuccess (Env su) (Loop su) (KeepsLastGood su) a strat sel wk = (res, wk')"
  shows "case res of
      None \<Rightarrow> (\<exists>es. Events wk' = Events wk @ es \<and> promoted su (NodeID a) sel es) \<and> ByNode wk' = ByNode wk \<and>
        Items wk' = Items (set_item a (ok_item strat) wk)
    | Some e \<Rightarrow> (\<exists>es. Events wk' = Events wk @ es \<and> quiet es) \<and> ByNode wk' = ByNode wk \<and> Items wk' = Items wk"
proof -
  let ?env = "Env su" and ?lp = "Loop su"
  obtain sup wk1 where 1: "superseded ?env wk = (sup, wk1)" by fastforce
  obtain err wk2 where 2: "ask (q_activate ?env (FlRouting ?lp) (FlTun ?lp)) wk1 = (err, wk2)" by fastforce
  obtain err2 wk3 where 3: "arm_for_mode ?env (FlTun ?lp) (emit Ev_activated wk2) = (err2, wk3)" by fastforce
  obtain sup2 wk4 where 4: "superseded ?env wk3 = (sup2, wk4)" by fastforce
  note s = superseded_silent [OF 1] ask_silent [OF 2] superseded_silent [OF 4]
  show ?thesis
  proof (cases res)
    case None
    have ok: "\<not> sup" "err = None" "err2 = None" "\<not> sup2"
      using assms None by (auto simp: recordSuccess_def 1 2 3 4 split: if_splits option.splits)
    have wk': "wk' = publish_connected ?env ?lp (KeepsLastGood su) a strat sel wk4"
      using assms ok by (simp add: recordSuccess_def 1 2 3 4)
    have e4: "Events wk4 = Events wk @ [Ev_activated] @
        (if IsSystemProxy (FlTun ?lp) then [Ev_armed (MixedHostPort (FlTun ?lp))] else [])"
        "ByNode wk4 = ByNode wk" "Items wk4 = Items wk"
      using arm_events(1) [OF 3 [unfolded ok]] arm_events(2) [OF 3] s by (simp_all add: silent_def)
    obtain es where es: "Events wk' = Events wk4 @ es" "connected_trail su (NodeID a) sel es"
      "ByNode wk' = ByNode wk4" "Items wk' = Items (set_item a (ok_item strat) wk4)"
      using publish_connected_events [of su a strat sel wk4] unfolding wk' by blast
    have items: "Items (set_item a (ok_item strat) wk4) = Items (set_item a (ok_item strat) wk)"
      using e4 by (simp add: set_item_def split: option.split)
    have "Events wk' = Events wk @ ([Ev_activated] @
        (if IsSystemProxy (FlTun ?lp) then [Ev_armed (MixedHostPort (FlTun ?lp))] else []) @ es)"
      by (simp only: es(1) e4(1) append.assoc)
    moreover have "promoted su (NodeID a) sel ([Ev_activated] @
        (if IsSystemProxy (FlTun ?lp) then [Ev_armed (MixedHostPort (FlTun ?lp))] else []) @ es)"
      unfolding promoted_def using es(2) by (intro exI conjI) (assumption, rule refl)
    ultimately show ?thesis
      unfolding None option.case using es(3,4) e4(2,3) items by (intro conjI exI) (assumption, assumption, simp_all)
  next
    case (Some e)
    have q3: "\<exists>es. Events wk3 = Events wk @ es \<and> quiet es" "ByNode wk3 = ByNode wk" "Items wk3 = Items wk"
      using arm_events(2,3) [OF 3] s by (auto simp: silent_def)
    consider "wk' = wk1" | "wk' = wk2" | "wk' = wk3" | "wk' = wk4"
      using assms Some by (auto simp: recordSuccess_def 1 2 3 4 split: if_splits option.splits)
    then show ?thesis
      using s q3 Some by cases (auto simp: silent_def)
  qed
qed

section \<open>One candidate\<close>

definition brought_up :: "'w walk_setup \<Rightarrow> attempt \<Rightarrow> walk_event list \<Rightarrow> bool" where
  "brought_up su a es \<longleftrightarrow>
     (\<exists>strat cfg sel probes e es'. attempt_config su a strat = Inr (cfg, sel) \<and> list_all probe_event probes \<and>
        (SsDefault sel \<noteq> [] \<longrightarrow> Ev_selected (SsDefault sel) True \<in> set probes) \<and> promoted su (NodeID a) sel es' \<and>
        es = [Ev_started (NodeID a) strat cfg] @ probes @ [Ev_probed True e] @ es')"

definition touched :: "attempt \<Rightarrow> bool \<Rightarrow> 'w walk \<Rightarrow> 'w walk \<Rightarrow> bool" where
  "touched a up wk wk' \<longleftrightarrow> ByNode wk' = ByNode wk \<and>
     (\<exists>f. Items wk' = Items (set_item a f wk) \<and> (\<forall>it. ItNode (f it) = ItNode it) \<and> (up \<longrightarrow> (\<forall>it. Status (f it) = OK)))"

definition final :: "'w walk_setup \<Rightarrow> walk_event list \<Rightarrow> bool" where
  "final su es \<longleftrightarrow> es = [] \<or> (\<exists>msg r. es = [Ev_failed (FlProfile (Loop su)) msg r])"

definition leaves :: "'w walk_setup \<Rightarrow> attempt \<Rightarrow> node_outcome \<Rightarrow> walk_event list \<Rightarrow> bool" where
  "leaves su a out es \<longleftrightarrow>
     (\<exists>pre post. es = pre @ post \<and> dormant pre \<and>
        (case out of Node_connected \<Rightarrow> brought_up su a post | Node_local_failure \<Rightarrow> final su post | _ \<Rightarrow> post = []))"

lemma final_starts: "final su es \<Longrightarrow> starts es = []"
  by (auto simp: final_def)

lemma set_item_Items:
  "Items (set_item a f wk) =
     (case ByNode wk (NodeID a) of None \<Rightarrow> Items wk | Some i \<Rightarrow> (Items wk)[i := f (Items wk ! i)])"
  by (simp add: set_item_def split: option.split)

lemma touched_silent: "silent wk wk' \<Longrightarrow> touched a False wk wk'"
  unfolding touched_def by (rule conjI, simp add: silent_def, rule exI [of _ id]) (simp add: silent_def set_item_Items split: option.split)

lemma touched_trans:
  assumes "touched a b wk wk1" "touched a b' wk1 wk2"
  shows "touched a b' wk wk2"
proof -
  from assms obtain f g where
    fg: "Items wk1 = Items (set_item a f wk)" "Items wk2 = Items (set_item a g wk1)" "b' \<longrightarrow> (\<forall>it. Status (g it) = OK)"
      "\<forall>it. ItNode (f it) = ItNode it" "\<forall>it. ItNode (g it) = ItNode it"
    and bn: "ByNode wk1 = ByNode wk" "ByNode wk2 = ByNode wk"
    by (auto simp: touched_def)
  have "Items (set_item a g wk1) = Items (set_item a (g \<circ> f) wk)"
  proof (cases "ByNode wk (NodeID a)")
    case (Some i)
    then show ?thesis using fg bn by (cases "i < length (Items wk)") (simp_all add: set_item_Items list_update_beyond)
  qed (use fg bn in \<open>simp add: set_item_Items\<close>)
  then show ?thesis using fg bn unfolding touched_def by (intro conjI exI [of _ "g \<circ> f"]) simp_all
qed

lemma touchedI: "Items wk' = Items (set_item a f wk) \<Longrightarrow> ByNode wk' = ByNode wk \<Longrightarrow>
    (\<And>it. ItNode (f it) = ItNode it) \<Longrightarrow> touched a False wk wk'"
  by (auto simp: touched_def)

lemma tracker_touched:
  "touched a False wk (trying env a wk)" "touched a False wk (escalating env a strat wk)"
  "touched a False wk (blockedWithReason env a reason wk)"
  by (rule touchedI [OF tracker_Items(1)], simp, simp) (rule touchedI [OF tracker_Items(2)], simp, simp,
    rule touchedI [OF tracker_Items(3)], simp, simp)

lemma touched_same: "Items wk' = Items wk \<Longrightarrow> ByNode wk' = ByNode wk \<Longrightarrow> touched a False wk wk'"
  by (rule touchedI [of _ _ id]) (auto simp: set_item_Items split: option.split)

lemma ok_item_Status [simp]: "Status (ok_item strat it) = OK"
  by (simp add: ok_item_def)

lemma leaves_prefix: "dormant pre \<Longrightarrow> leaves su a out es \<Longrightarrow> leaves su a out (pre @ es)"
  unfolding leaves_def by (metis append.assoc dormant_append)

lemma leaves_dormant: "dormant es \<Longrightarrow> out \<in> {Node_superseded, Node_failed r} \<Longrightarrow> leaves su a out es"
  unfolding leaves_def by (intro exI [of _ es] exI [of _ "[]"]) auto

lemma refused_start_leaves:
  assumes "refused_start su a loc err wk = (out, wk')"
  shows "\<exists>es. Events wk' = Events wk @ es \<and> leaves su a out es \<and> touched a (out = Node_connected) wk wk' \<and> starts es = []"
proof -
  obtain cur wk1 where 1: "ask (q_current (Env su)) wk = (cur, wk1)" by fastforce
  note s = ask_silent [OF 1]
  let ?wk2 = "blockedWithReason (Env su) a ''local setup failed'' (stop_runner wk1)"
  obtain b where b: "Events ?wk2 = Events (stop_runner wk1) @ b" "quiet b" using tracker_quiet(3) by blast
  obtain r where r: "Events (set_failed (Env su) (Loop su) (''local tunnel setup failed: '' @ err) ?wk2) =
      Events ?wk2 @ [Ev_failed (FlProfile (Loop su)) (''local tunnel setup failed: '' @ err) r]"
    using set_failed_emits(1) by blast
  have st: "touched a False wk (stop_runner wk1)" using s by (intro touched_same) (simp_all add: silent_def stop_runner_def)
  consider (over) "\<not> cur" "out = Node_superseded" "wk' = stop_runner wk1"
    | (loc) "out = Node_local_failure"
        "wk' = set_failed (Env su) (Loop su) (''local tunnel setup failed: '' @ err) ?wk2"
    | (failed) "out = Node_failed []" "wk' = wk1"
    using assms by (auto simp: refused_start_def 1 Let_def split: if_splits)
  then show ?thesis
  proof cases
    case over
    then show ?thesis
      using s st by (intro exI [of _ "[Ev_stopped]"]) (simp add: stop_runner_def silent_def leaves_dormant)
  next
    case loc
    have "dormant ([Ev_stopped] @ b)" by (rule dormant_append) (simp_all add: quiet_dormant b)
    moreover have "touched a False wk wk'"
      unfolding loc by (rule touched_trans [OF st], rule touched_trans [OF tracker_touched(3)], rule touched_same)
        (rule set_failed_emits)+
    ultimately show ?thesis
      using b r s unfolding loc leaves_def final_def
      by (intro exI [of _ "([Ev_stopped] @ b) @ [Ev_failed (FlProfile (Loop su)) (''local tunnel setup failed: '' @ err) r]"] conjI
          exI [of _ "[Ev_stopped] @ b"] exI [of _ "[Ev_failed (FlProfile (Loop su)) (''local tunnel setup failed: '' @ err) r]"])
        (auto simp: stop_runner_def silent_def quiet_starts)
  next
    case failed
    then show ?thesis
      using s by (intro exI [of _ "[]"]) (simp add: silent_def leaves_dormant touched_same)
  qed
qed


lemma came_up_events:
  assumes "came_up su a strat sel wk = (out, wk')"
  shows "\<exists>es. Events wk' = Events wk @ es \<and> touched a (out = Node_connected) wk wk' \<and>
    (out = Node_connected \<and> promoted su (NodeID a) sel es \<or>
     out = Node_local_failure \<and>
       (\<exists>q q' fin. es = q @ Ev_stopped # q' @ fin \<and> quiet q \<and> quiet q' \<and> final su fin))"
proof -
  obtain res wk1 where 1: "recordSuccess (Env su) (Loop su) (KeepsLastGood su) a strat sel wk = (res, wk1)" by fastforce
  note rs = recordSuccess_cases [OF 1]
  show ?thesis
  proof (cases res)
    case None
    then have "out = Node_connected" "wk' = wk1" using assms by (simp_all add: came_up_def 1)
    moreover have "touched a True wk wk1"
      using rs None unfolding touched_def by (auto intro!: exI [of _ "ok_item strat"] simp: ok_item_def)
    ultimately show ?thesis using rs None by auto
  next
    case (Some e)
    let ?wk2 = "emit Ev_interrupted (stop_runner wk1)"
    obtain cur wk3 where 3: "ask (q_current (Env su)) ?wk2 = (cur, wk3)" by fastforce
    note s = ask_silent [OF 3]
    let ?wk4 = "blockedWithReason (Env su) a ''local setup failed'' wk3"
    obtain b where b: "Events ?wk4 = Events wk3 @ b" "quiet b" using tracker_quiet(3) by blast
    obtain r where r: "Events (set_failed (Env su) (Loop su) (promote_message e) ?wk4) =
        Events ?wk4 @ [Ev_failed (FlProfile (Loop su)) (promote_message e) r]" using set_failed_emits(1) by blast
    obtain q where q: "Events wk1 = Events wk @ q" "quiet q" "touched a False wk wk1"
      using rs Some touched_same by auto
    have t3: "touched a False wk wk3"
      by (rule touched_trans [OF q(3)], rule touched_same) (use s in \<open>simp_all add: silent_def stop_runner_def\<close>)
    have out: "out = Node_local_failure"
      and wk': "wk' = (if cur then set_failed (Env su) (Loop su) (promote_message e) ?wk4 else wk3)"
      using assms by (auto simp: came_up_def 1 Some 3 Let_def split: if_splits)
    show ?thesis
    proof (cases cur)
      case True
      have "touched a False wk wk'" unfolding wk' using True
        by (simp only: if_True) (rule touched_trans [OF t3], rule touched_trans [OF tracker_touched(3)], rule touched_same, (rule set_failed_emits)+)
      moreover have "Events wk' = Events wk @ (q @ Ev_stopped # (Ev_interrupted # b) @ [Ev_failed (FlProfile (Loop su)) (promote_message e) r])"
        using b r s q True by (simp add: wk' silent_def stop_runner_def)
      moreover have "quiet (Ev_interrupted # b)" "final su [Ev_failed (FlProfile (Loop su)) (promote_message e) r]"
        using b by (simp_all add: final_def)
      ultimately show ?thesis
        using out q(2) by (intro exI [of _ "q @ Ev_stopped # (Ev_interrupted # b) @
          [Ev_failed (FlProfile (Loop su)) (promote_message e) r]"]) (simp only: simp_thms node_outcome.distinct, blast)
    next
      case False
      have "Events wk' = Events wk @ (q @ Ev_stopped # [Ev_interrupted] @ [])"
        using s q False by (simp add: wk' silent_def stop_runner_def)
      moreover have "quiet [Ev_interrupted]" "final su []" by (simp_all add: final_def)
      moreover have "touched a False wk wk'" using t3 False by (simp add: wk')
      ultimately show ?thesis
        using out q(2) by (intro exI [of _ "q @ Ev_stopped # [Ev_interrupted] @ []"])
          (simp only: simp_thms node_outcome.distinct, blast)
    qed
  qed
qed

lemma failed_probe_events:
  assumes "failed_probe su a cens rest stalled wk = (out, wk')"
  shows "\<exists>q. Events wk' = Events wk @ Ev_stopped # q \<and> quiet q \<and> touched a False wk wk' \<and>
    (out = Some Node_superseded \<or> out = Some (give_up cens) \<or> out = None \<and> rest \<noteq> [])"
proof -
  obtain cur wk1 where 1: "ask (q_current (Env su)) wk = (cur, wk1)" by fastforce
  obtain cls wk2 where 2: "classifyAttemptFailure (Env su) (Node a) stalled (stop_runner wk1) = (cls, wk2)" by fastforce
  note s = ask_silent [OF 1] classify_silent [OF 2]
  obtain b where b: "Events (escalating (Env su) a (hd rest) wk2) = Events wk2 @ b" "quiet b" using tracker_quiet(2) by blast
  have t1: "touched a False wk (stop_runner wk1)" using s by (intro touched_same) (simp_all add: silent_def stop_runner_def)
  have t2: "touched a False wk wk2" by (rule touched_trans [OF t1 touched_silent [OF s(2)]])
  have t3: "touched a False wk (escalating (Env su) a (hd rest) wk2)" by (rule touched_trans [OF t2 tracker_touched(2)])
  have e: "Events (stop_runner wk1) = Events wk @ [Ev_stopped]" "Events wk2 = Events wk @ [Ev_stopped]"
    using s by (simp_all add: silent_def stop_runner_def)
  consider "out = Some Node_superseded" "wk' = stop_runner wk1" | "out = Some (give_up cens)" "wk' = stop_runner wk1"
    | "out = Some (give_up cens)" "wk' = wk2" | "out = None" "rest \<noteq> []" "wk' = escalating (Env su) a (hd rest) wk2"
    using assms by (auto simp: failed_probe_def 1 2 Let_def split: if_splits)
  then show ?thesis
    by cases (use e t1 t2 t3 b in auto)
qed

lemma probe_loop_events:
  assumes "0 < ProbeRetry pt"
  shows "probe_loop env pt dl tag pinned st wk = Some ((up, stalled), wk') \<Longrightarrow>
     \<exists>es. Events wk' = Events wk @ es \<and> list_all probe_event es \<and> ByNode wk' = ByNode wk \<and> Items wk' = Items wk \<and>
       (up \<longrightarrow> (\<exists>es' e. es = es' @ [Ev_probed True e] \<and> (\<not> pinned \<longrightarrow> Ev_selected tag True \<in> set es')))"
proof (induction "Suc dl - Clock wk" arbitrary: pinned st wk rule: less_induct)
  case less
  show ?case
  proof (cases rule: probe_round [of env pt dl tag pinned st wk])
    case (down b wk1 es)
    then show ?thesis using less.prems by auto
  next
    case (up wk1 es e)
    then have "Events wk' = Events wk @ (es @ [Ev_probed True e])" "ByNode wk' = ByNode wk" "Items wk' = Items wk"
      using less.prems by simp_all
    moreover have "list_all probe_event (es @ [Ev_probed True e])" using up by simp
    moreover have "\<not> pinned \<longrightarrow> Ev_selected tag True \<in> set es" using up by auto
    ultimately show ?thesis by blast
  next
    case (again pinned' st' wk1 es)
    have "Suc dl - Clock wk1 < Suc dl - Clock wk" using again assms by arith
    from less.hyps [OF this, of pinned' st'] less.prems [unfolded again(1)] obtain es2 where
      es2: "Events wk' = Events wk1 @ es2" "list_all probe_event es2" "ByNode wk' = ByNode wk1" "Items wk' = Items wk1"
        "up \<longrightarrow> (\<exists>es' e. es2 = es' @ [Ev_probed True e] \<and> (\<not> pinned' \<longrightarrow> Ev_selected tag True \<in> set es'))" by blast
    have "Events wk' = Events wk @ (es @ es2)" "list_all probe_event (es @ es2)" "ByNode wk' = ByNode wk" "Items wk' = Items wk"
      using es2 again by simp_all
    moreover have "up \<longrightarrow> (\<exists>es' e. es @ es2 = es' @ [Ev_probed True e] \<and> (\<not> pinned \<longrightarrow> Ev_selected tag True \<in> set es'))"
    proof
      assume up
      with es2(5) obtain es' e where "es2 = es' @ [Ev_probed True e]" "\<not> pinned' \<longrightarrow> Ev_selected tag True \<in> set es'" by blast
      with again(4) show "\<exists>es' e. es @ es2 = es' @ [Ev_probed True e] \<and> (\<not> pinned \<longrightarrow> Ev_selected tag True \<in> set es')"
        by (intro exI [of _ "es @ es'"] exI [of _ e]) auto
    qed
    ultimately show ?thesis by blast
  qed
qed

lemma probeUntilUp_events:
  assumes "0 < ProbeRetry pt" and "probeUntilUp env pt tag wk = Some ((up, stalled), wk')"
  shows "\<exists>es. Events wk' = Events wk @ es \<and> list_all probe_event es \<and> ByNode wk' = ByNode wk \<and> Items wk' = Items wk \<and>
       (up \<longrightarrow> (\<exists>es' e. es = es' @ [Ev_probed True e] \<and> (tag \<noteq> [] \<longrightarrow> Ev_selected tag True \<in> set es')))"
proof -
  obtain go wk1 where w: "budget_wait env (ProbeWarmup pt) (Clock wk + ProbeBudget pt) wk = (go, wk1)" by fastforce
  note s = budget_wait_silent [OF w]
  show ?thesis
  proof (cases go)
    case True
    then have "probe_loop env pt (Clock wk + ProbeBudget pt) tag (tag = []) False wk1 = Some ((up, stalled), wk')"
      using assms(2) by (simp add: probeUntilUp_def w)
    from probe_loop_events [OF assms(1) this] show ?thesis using s by (simp add: silent_def)
  next
    case False
    then show ?thesis using assms(2) s by (auto simp: probeUntilUp_def w silent_def)
  qed
qed

lemma cascade_leaves:
  assumes "0 < ProbeRetry (Times su)"
  shows "cascade su a cens strats wk = Some (out, wk') \<Longrightarrow>
    \<exists>es k. Events wk' = Events wk @ es \<and> leaves su a out es \<and> touched a (out = Node_connected) wk wk' \<and>
      starts es = map (Pair (NodeID a)) (take k strats)"
proof (induction strats arbitrary: cens wk)
  case Nil
  then show ?case
    by (intro exI [of _ "[]"]) (auto simp: give_up_def leaves_def touched_same)
next
  case (Cons strat rest)
  show ?case
  proof (cases rule: cascade_round [of su a cens strat rest wk])
    case (over wk1)
    then show ?thesis using Cons.prems
      by (intro exI [of _ "[Ev_stopped]"] exI [of _ 0]) (auto simp: leaves_dormant touched_same)
  next
    case (unbuilt e wk1)
    then show ?thesis using Cons.prems
      by (intro exI [of _ "[]"] exI [of _ 0]) (auto simp: leaves_dormant silent_def touched_same)
  next
    case (refused loc err wk1)
    then have "refused_start su a loc err wk1 = (out, wk')" using Cons.prems by simp
    from refused_start_leaves [OF this] obtain es where "Events wk' = Events wk1 @ es" "leaves su a out es"
      "touched a (out = Node_connected) wk1 wk'" "starts es = []" by blast
    with refused(2) touched_trans [OF touched_silent [OF refused(2)]] show ?thesis
      by (intro exI [of _ es] exI [of _ 0]) (simp add: silent_def)
  next
    case (started cfg sel wk1 r)
    let ?start = "Ev_started (NodeID a) strat cfg"
    obtain up stalled wk2 where r: "r = Some ((up, stalled), wk2)"
      using Cons.prems started(4) by (cases r) auto
    obtain ps where ps: "Events wk2 = Events wk1 @ ?start # ps" "list_all probe_event ps" "ByNode wk2 = ByNode wk1"
        "Items wk2 = Items wk1"
        "up \<longrightarrow> (\<exists>es' e. ps = es' @ [Ev_probed True e] \<and> (SsDefault sel \<noteq> [] \<longrightarrow> Ev_selected (SsDefault sel) True \<in> set es'))"
      using probeUntilUp_events [OF assms started(3) [unfolded r]] by auto
    note psq = probe_events_quiet [OF ps(2)]
    have t2: "touched a False wk wk2" using started(2) ps by (intro touched_same) (simp_all add: silent_def)
    have ev2: "Events wk2 = Events wk @ ?start # ps" using ps(1) started(2) by (simp add: silent_def)
    show ?thesis
    proof (cases up)
      case True
      then have "came_up su a strat sel wk2 = (out, wk')" using Cons.prems started(4) r by simp
      from came_up_events [OF this] obtain es where es: "Events wk' = Events wk2 @ es" "touched a (out = Node_connected) wk2 wk'"
        and cases: "out = Node_connected \<and> promoted su (NodeID a) sel es \<or> out = Node_local_failure \<and>
          (\<exists>q q' fin. es = q @ Ev_stopped # q' @ fin \<and> quiet q \<and> quiet q' \<and> final su fin)" by blast
      have "leaves su a out (?start # ps @ es) \<and> starts es = []"
        using cases
      proof (elim disjE conjE exE)
        assume p: "out = Node_connected" "promoted su (NodeID a) sel es"
        from ps(5) True obtain es' e where "ps = es' @ [Ev_probed True e]"
          "SsDefault sel \<noteq> [] \<longrightarrow> Ev_selected (SsDefault sel) True \<in> set es'" by blast
        with ps(2) p started(1) have "brought_up su a (?start # ps @ es)"
          unfolding brought_up_def
          by (intro exI [of _ strat] exI [of _ cfg] exI [of _ sel] exI [of _ es'] exI [of _ e] exI [of _ es]) simp
        then show ?thesis using p promoted_starts [OF p(2)] unfolding leaves_def
          by (intro conjI exI [of _ "[]"] exI [of _ "?start # ps @ es"]) simp_all
      next
        fix q q' fin assume f: "out = Node_local_failure" "es = q @ Ev_stopped # q' @ fin" "quiet q" "quiet q'" "final su fin"
        have "dormant (?start # (ps @ q) @ Ev_stopped # q')"
          by (rule dormant_run) (use f psq in simp_all)
        then show ?thesis using f unfolding leaves_def
          by (intro conjI exI [of _ "?start # (ps @ q) @ Ev_stopped # q'"] exI [of _ fin])
            (simp_all add: quiet_starts final_starts)
      qed
      then show ?thesis using es ev2 touched_trans [OF t2 es(2)]
        by (intro exI [of _ "?start # ps @ es"] exI [of _ 1]) (simp add: quiet_starts psq)
    next
      case False
      obtain o2 wk3 where 3: "failed_probe su a cens rest stalled wk2 = (o2, wk3)" by fastforce
      from failed_probe_events [OF 3] obtain q where q: "Events wk3 = Events wk2 @ Ev_stopped # q" "quiet q"
          "touched a False wk2 wk3"
        and o2: "o2 = Some Node_superseded \<or> o2 = Some (give_up cens) \<or> o2 = None \<and> rest \<noteq> []" by blast
      have dor: "dormant (?start # ps @ Ev_stopped # q)" by (rule dormant_run [OF psq q(2)])
      have t3: "touched a False wk wk3" by (rule touched_trans [OF t2 q(3)])
      have ev3: "Events wk3 = Events wk @ ?start # ps @ Ev_stopped # q" using ev2 q(1) by simp
      have st3: "starts (?start # ps @ Ev_stopped # q) = [(NodeID a, strat)]" using psq q(2) by (simp add: quiet_starts)
      show ?thesis
      proof (cases o2)
        case None
        then have "cascade su a True rest wk3 = Some (out, wk')" using Cons.prems started(4) r False 3 by simp
        from Cons.IH [OF this] obtain es k where es: "Events wk' = Events wk3 @ es" "leaves su a out es"
          "touched a (out = Node_connected) wk3 wk'" "starts es = map (Pair (NodeID a)) (take k rest)" by blast
        have "starts ((?start # ps @ Ev_stopped # q) @ es) = map (Pair (NodeID a)) (take (Suc k) (strat # rest))"
          unfolding starts_simps(3) st3 es(4) by simp
        then show ?thesis
          using leaves_prefix [OF dor es(2)] touched_trans [OF t3 es(3)] es(1) ev3
          by (intro exI [of _ "(?start # ps @ Ev_stopped # q) @ es"] exI [of _ "Suc k"]) simp
      next
        case (Some out')
        then have out: "out = out'" "wk' = wk3" using Cons.prems started(4) r False 3 by simp_all
        then obtain why where "out \<in> {Node_superseded, Node_failed why}"
          using o2 Some by (auto simp: give_up_def)
        then show ?thesis
          using leaves_dormant [OF dor, of out why su a] ev3 t3 out st3
          by (intro exI [of _ "?start # ps @ Ev_stopped # q"] exI [of _ 1]) auto
      qed
    qed
  qed
qed

section \<open>The whole walk\<close>

lemma Next_Some: "Next m = Some a \<Longrightarrow> cursor m < length (order m)" "Next m = Some a \<Longrightarrow> a = order m ! cursor m"
  "Next m = Some a \<Longrightarrow> cursor (Failure m a) = Suc (cursor m)"
  by (auto simp: Next_def Failure_def split: if_splits)

definition walk_leaves :: "'w walk_setup \<Rightarrow> attempt list \<Rightarrow> walk_end \<Rightarrow> walk_event list \<Rightarrow> bool" where
  "walk_leaves su as r es \<longleftrightarrow>
     (\<exists>pre post. es = pre @ post \<and> dormant pre \<and>
        (case r of
           Walk_connected n \<Rightarrow> \<exists>a\<in>set as. NodeID a = n \<and> brought_up su a post
         | Walk_superseded \<Rightarrow> post = []
         | Walk_local_failure \<Rightarrow> final su post
         | Walk_exhausted \<Rightarrow> final su post))"

lemma walk_leaves_prefix:
  assumes "dormant pre" "walk_leaves su as r es"
  shows "walk_leaves su as r (pre @ es)"
proof -
  from assms(2) obtain pre' post where "es = pre' @ post" "dormant pre'"
    "case r of Walk_connected n \<Rightarrow> \<exists>a\<in>set as. NodeID a = n \<and> brought_up su a post | Walk_superseded \<Rightarrow> post = []
       | Walk_local_failure \<Rightarrow> final su post | Walk_exhausted \<Rightarrow> final su post"
    unfolding walk_leaves_def by blast
  with assms(1) show ?thesis
    unfolding walk_leaves_def by (intro exI [of _ "pre @ pre'"] exI [of _ post]) (simp add: dormant_append)
qed

text \<open>The starts of a walk that gives the candidate at position \<open>i\<close> the first \<open>ks ! i\<close> strategies.\<close>

definition planned_starts :: "attempt list \<Rightarrow> nat list \<Rightarrow> (string \<times> strategy) list" where
  "planned_starts as ks = concat (map (\<lambda>(a, k). map (Pair (NodeID a)) (take k DefaultStrategies)) (zip as ks))"

lemma planned_starts_simps [simp]:
  "planned_starts as [] = []"
  "planned_starts (a # as) (k # ks) = map (Pair (NodeID a)) (take k DefaultStrategies) @ planned_starts as ks"
  by (simp_all add: planned_starts_def)

lemma length_planned_starts: "length (planned_starts as ks) \<le> length DefaultStrategies * length as"
proof (induction as arbitrary: ks)
  case Nil
  then show ?case by (simp add: planned_starts_def)
next
  case (Cons a as)
  then show ?case using Cons [of "List.tl ks"] by (cases ks) (auto simp: min_def intro: order_trans add_mono)
qed

lemma walk_loop_leaves:
  assumes "0 < ProbeRetry (Times su)"
  shows "walk_loop su m wk = Some (r, wk') \<Longrightarrow>
    \<exists>es ks. Events wk' = Events wk @ es \<and> walk_leaves su (drop (cursor m) (order m)) r es \<and>
      starts es = planned_starts (drop (cursor m) (order m)) ks"
proof (induction "length (order m) - cursor m" arbitrary: m wk rule: less_induct)
  case less
  show ?case
  proof (cases rule: walk_round [of su m wk])
    case (over wk1)
    then show ?thesis using less.prems
      by (intro exI [of _ "[Ev_stopped] @ []"] exI [of _ "[]"]) (auto simp: walk_leaves_def intro!: exI [of _ "[Ev_stopped]"])
  next
    case (exhausted wk1)
    obtain cur wk2 where 2: "ask (q_current (Env su)) wk1 = (cur, wk2)" by fastforce
    obtain b where b: "Events (Connect_Walk.exhausted (Env su) wk2) = Events wk2 @ b" "quiet b" using tracker_quiet(5) by blast
    obtain rt where rt: "Events (set_failed (Env su) (Loop su) ''all protocols failed'' (Connect_Walk.exhausted (Env su) wk2)) =
        Events (Connect_Walk.exhausted (Env su) wk2) @ [Ev_failed (FlProfile (Loop su)) ''all protocols failed'' rt]"
      using set_failed_emits(1) by blast
    let ?post = "if cur then [Ev_failed (FlProfile (Loop su)) ''all protocols failed'' rt] else []"
    let ?pre = "if cur then b else []"
    have "r = Walk_exhausted" "wk' = (if cur then set_failed (Env su) (Loop su) ''all protocols failed''
        (Connect_Walk.exhausted (Env su) wk2) else wk2)"
      using less.prems exhausted(3) by (simp_all add: 2)
    then have "Events wk' = Events wk @ (?pre @ ?post)" "r = Walk_exhausted"
      using b(1) rt exhausted(2) ask_silent [OF 2] by (simp_all add: silent_def)
    moreover have "final su ?post" "dormant ?pre" using b by (auto simp: final_def quiet_dormant)
    moreover have "starts (?pre @ ?post) = planned_starts (drop (cursor m) (order m)) []"
      using b(2) by (simp add: quiet_starts)
    ultimately show ?thesis
      unfolding walk_leaves_def
      by (intro exI [of _ "?pre @ ?post"] exI [of _ "[]"] conjI exI [of _ ?pre] exI [of _ ?post]) simp_all
  next
    case (attempt a wk1 res)
    note nx = Next_Some(1,3) [OF attempt(1)]
    have split: "drop (cursor m) (order m) = a # drop (Suc (cursor m)) (order m)"
      using Next_Some(1,2) [OF attempt(1)] by (simp add: Cons_nth_drop_Suc)
    obtain out wk2 where res: "res = Some (out, wk2)" using less.prems attempt(4) by (cases res) auto
    obtain t where t: "Events (trying (Env su) a wk1) = Events wk @ t" "quiet t"
      using tracker_quiet(1) [of "Env su" a wk1] attempt(2) by (auto simp: silent_def)
    from cascade_leaves [OF assms attempt(3) [unfolded attemptNode_def res]]
    obtain es k where es: "Events wk2 = Events wk @ t @ es" "leaves su a out es"
      "starts es = map (Pair (NodeID a)) (take k DefaultStrategies)" using t by auto
    then have le: "leaves su a out (t @ es)" by (simp add: leaves_prefix quiet_dormant t)
    have st: "starts (t @ es) = map (Pair (NodeID a)) (take k DefaultStrategies)" using t es by (simp add: quiet_starts)
    have st0: "starts (t @ es) = planned_starts (drop (cursor m) (order m)) [k]" unfolding st split by simp
    show ?thesis
    proof (cases out)
      case (Node_failed reason)
      let ?wk3 = "blockedWithReason (Env su) a reason wk2"
      obtain b where b: "Events ?wk3 = Events wk2 @ b" "quiet b" using tracker_quiet(3) by blast
      have "length (order (Failure m a)) - cursor (Failure m a) < length (order m) - cursor m" using nx by simp
      from less.hyps [OF this, of ?wk3] less.prems attempt(4) res Node_failed
      obtain es2 ks where es2: "Events wk' = Events ?wk3 @ es2"
        "walk_leaves su (drop (Suc (cursor m)) (order m)) r es2"
        "starts es2 = planned_starts (drop (Suc (cursor m)) (order m)) ks" using nx by auto
      have st3: "starts (((t @ es) @ b) @ es2) = planned_starts (drop (cursor m) (order m)) (k # ks)"
        unfolding split using st es2(3) b(2) by (simp add: quiet_starts)
      have d: "dormant ((t @ es) @ b)"
        using le Node_failed b(2) by (intro dormant_append [of "t @ es"]) (auto simp: leaves_def quiet_dormant)
      have "walk_leaves su (drop (cursor m) (order m)) r es2"
        using es2(2) unfolding split walk_leaves_def by (cases r) auto
      then have "walk_leaves su (drop (cursor m) (order m)) r (((t @ es) @ b) @ es2)"
        by (rule walk_leaves_prefix [OF d])
      moreover have "Events wk' = Events wk @ ((t @ es) @ b) @ es2" using es2(1) b(1) es(1) by simp
      ultimately show ?thesis using st3 by blast
    next
      case Node_connected
      then have "r = Walk_connected (NodeID a)" "wk' = wk2" using less.prems attempt(4) res by simp_all
      then show ?thesis using le st0 es(1) Node_connected unfolding leaves_def walk_leaves_def split
        by (intro exI [of _ "t @ es"] exI [of _ "[k]"]) auto
    next
      case Node_superseded
      then have "r = Walk_superseded" "wk' = wk2" using less.prems attempt(4) res by simp_all
      then show ?thesis using le st0 es(1) Node_superseded unfolding leaves_def walk_leaves_def
        by (intro exI [of _ "t @ es"] exI [of _ "[k]"]) auto
    next
      case Node_local_failure
      then have "r = Walk_local_failure" "wk' = wk2" using less.prems attempt(4) res by simp_all
      then show ?thesis using le st0 es(1) Node_local_failure unfolding leaves_def walk_leaves_def
        by (intro exI [of _ "t @ es"] exI [of _ "[k]"]) auto
    qed
  qed
qed

text \<open>C28. What a connect leaves behind.  Up to its last candidate a walk announces no final state and ends
  with no process running.  It ends connected only on a planned candidate whose own configuration was
  started, whose selector was pinned to that configuration's default, whose probe came back, after which the
  host guard was activated and, in system-proxy mode, the proxy armed; only then is the connection recorded
  and announced, once.  A superseded walk announces nothing; a refused or exhausted one at most an error.\<close>

theorem connect_walk_outcome:
  assumes "0 < ProbeRetry (Times su)" and "runFallback get lg su m wk = Some (r, wk')"
  shows "\<exists>es. Events wk' = Events wk @ es \<and> walk_leaves su (drop (cursor m) (order m)) r es"
proof -
  let ?wk1 = "newAttemptTracker get lg (FlProfile (Loop su)) m wk"
  have e1: "Events ?wk1 = Events wk" by (simp add: newAttemptTracker_def Let_def)
  obtain b where b: "Events (begin_walk (Env su) ?wk1) = Events wk @ b" "quiet b"
    using tracker_quiet(4) [of "Env su" ?wk1] e1 by auto
  from walk_loop_leaves [OF assms(1) assms(2) [unfolded runFallback_def]] obtain es where
    es: "Events wk' = Events wk @ b @ es" "walk_leaves su (drop (cursor m) (order m)) r es" using b by auto
  from walk_leaves_prefix [OF quiet_dormant [OF b(2)] es(2)] es(1) show ?thesis
    by (intro exI [of _ "b @ es"]) simp
qed

text \<open>The process starts of a connect follow the plan: candidate after candidate in the planned order, each
  under a prefix of the strategy list, natural parameters first; so there are at most four starts per
  candidate, and no candidate is started again after a later one.\<close>

theorem connect_walk_starts:
  assumes "0 < ProbeRetry (Times su)" and "runFallback get lg su m wk = Some (r, wk')"
  shows "\<exists>es ks. Events wk' = Events wk @ es \<and> starts es = planned_starts (drop (cursor m) (order m)) ks \<and>
    length (starts es) \<le> 4 * (length (order m) - cursor m)"
proof -
  let ?wk1 = "newAttemptTracker get lg (FlProfile (Loop su)) m wk"
  have e1: "Events ?wk1 = Events wk" by (simp add: newAttemptTracker_def Let_def)
  obtain b where b: "Events (begin_walk (Env su) ?wk1) = Events wk @ b" "quiet b"
    using tracker_quiet(4) [of "Env su" ?wk1] e1 by auto
  from walk_loop_leaves [OF assms(1) assms(2) [unfolded runFallback_def]] obtain es ks where
    es: "Events wk' = Events wk @ (b @ es)" "starts es = planned_starts (drop (cursor m) (order m)) ks" using b by auto
  have "starts (b @ es) = planned_starts (drop (cursor m) (order m)) ks" using es(2) b(2) by (simp add: quiet_starts)
  moreover have "length DefaultStrategies = 4" by (simp add: DefaultStrategies_def)
  ultimately show ?thesis
    using es(1) length_planned_starts [of "drop (cursor m) (order m)" ks] by (intro exI [of _ "b @ es"] exI [of _ ks]) simp
qed

section \<open>The snapshots\<close>

definition tracks :: "'s machine \<Rightarrow> 'w walk \<Rightarrow> bool" where
  "tracks m wk \<longleftrightarrow> length (Items wk) = length (order m) \<and>
     (\<forall>i<length (order m). ByNode wk (NodeID (order m ! i)) = Some i)"

definition progress :: "nat \<Rightarrow> attempt_status list \<Rightarrow> nat \<Rightarrow> attempt_status list" where
  "progress c mid n = replicate c Blocked @ mid @ replicate (n - c - length mid) Waiting"

lemma progress_update: "c < n \<Longrightarrow> (progress c [] n)[c := s] = progress c [s] n" "(progress c [s'] n)[c := s] = progress c [s] n"
proof -
  show "(progress c [s'] n)[c := s] = progress c [s] n" by (simp add: progress_def list_update_append)
  assume "c < n"
  then have "replicate (n - c) Waiting = Waiting # replicate (n - Suc c) Waiting"
    by (metis Suc_diff_Suc replicate_Suc)
  then show "(progress c [] n)[c := s] = progress c [s] n" by (simp add: progress_def list_update_append)
qed

lemma progress_blocked: "progress c [Blocked] n = progress (Suc c) [] n"
  by (simp add: progress_def replicate_append_same [symmetric])

lemma touched_status:
  assumes "touched a up wk wk'" and "ByNode wk (NodeID a) = Some i"
  shows "\<exists>s. map Status (Items wk') = (map Status (Items wk))[i := s] \<and> (up \<longrightarrow> s = OK)"
    and "map ItNode (Items wk') = map ItNode (Items wk)" and "ByNode wk' = ByNode wk"
    and "length (Items wk') = length (Items wk)"
proof -
  from assms obtain f where f: "Items wk' = (Items wk)[i := f (Items wk ! i)]" "\<forall>it. ItNode (f it) = ItNode it"
      "up \<longrightarrow> (\<forall>it. Status (f it) = OK)" and bn: "ByNode wk' = ByNode wk"
    by (auto simp: touched_def set_item_Items)
  show "\<exists>s. map Status (Items wk') = (map Status (Items wk))[i := s] \<and> (up \<longrightarrow> s = OK)"
    using f by (auto simp: map_update)
  show "map ItNode (Items wk') = map ItNode (Items wk)"
    using f(1,2) by (simp add: map_update) (metis list_update_beyond list_update_id length_map not_less nth_map)
  show "ByNode wk' = ByNode wk" "length (Items wk') = length (Items wk)" using bn f by simp_all
qed

lemma walk_loop_items:
  assumes "0 < ProbeRetry (Times su)"
  shows "walk_loop su m wk = Some (r, wk') \<Longrightarrow> tracks m wk \<Longrightarrow> cursor m \<le> length (order m) \<Longrightarrow>
    map Status (Items wk) = progress (cursor m) [] (length (order m)) \<Longrightarrow>
    map ItNode (Items wk') = map ItNode (Items wk) \<and>
    (case r of
       Walk_connected n \<Rightarrow> \<exists>k<length (order m). NodeID (order m ! k) = n \<and>
         map Status (Items wk') = progress k [OK] (length (order m))
     | Walk_exhausted \<Rightarrow> map Status (Items wk') = replicate (length (order m)) Blocked
     | _ \<Rightarrow> True)"
proof (induction "length (order m) - cursor m" arbitrary: m wk rule: less_induct)
  case less
  show ?case
  proof (cases rule: walk_round [of su m wk])
    case (over wk1)
    then show ?thesis using less.prems by auto
  next
    case (exhausted wk1)
    obtain cur wk2 where 2: "ask (q_current (Env su)) wk1 = (cur, wk2)" by fastforce
    have "Items wk' = Items wk"
      using less.prems(1) exhausted(2,3) ask_silent [OF 2]
      by (auto simp: 2 silent_def tracker_Items set_failed_emits split: if_splits)
    moreover have "cursor m = length (order m)"
      using exhausted(1) less.prems(3) by (simp add: Next_def split: if_splits)
    ultimately show ?thesis using less.prems(1,4) exhausted(3) by (simp add: progress_def)
  next
    case (attempt a wk1 res)
    note nx = Next_Some [OF attempt(1)]
    obtain out wk2 where res: "res = Some (out, wk2)" using less.prems attempt(4) by (cases res) auto
    have at: "ByNode wk (NodeID a) = Some (cursor m)" using less.prems(2) nx(1,2) by (simp add: tracks_def)
    obtain es k where es: "touched a (out = Node_connected) (trying (Env su) a wk1) wk2"
      using cascade_leaves [OF assms attempt(3) [unfolded attemptNode_def res]] by blast
    have t: "touched a (out = Node_connected) wk wk2"
      by (rule touched_trans [OF touched_trans [OF touched_silent [OF attempt(2)] tracker_touched(1)] es])
    obtain s where s: "map Status (Items wk2) = progress (cursor m) [s] (length (order m))" "out = Node_connected \<longrightarrow> s = OK"
      using touched_status(1) [OF t at] progress_update(1) [OF nx(1)] less.prems(4) by auto
    note same = touched_status(2-4) [OF t at]
    show ?thesis
    proof (cases out)
      case (Node_failed reason)
      let ?wk3 = "blockedWithReason (Env su) a reason wk2"
      have fewer: "length (order (Failure m a)) - cursor (Failure m a) < length (order m) - cursor m" using nx(1,3) by simp
      have "Items ?wk3 = (Items wk2)[cursor m := (if reason \<noteq> [] then (Items wk2 ! cursor m)\<lparr>Status := Blocked, Reason := reason\<rparr>
          else (Items wk2 ! cursor m)\<lparr>Status := Blocked\<rparr>)]"
        using at same(2) by (simp add: tracker_Items set_item_Items)
      then have "map Status (Items ?wk3) = (map Status (Items wk2))[cursor m := Blocked]" by (simp add: map_update)
      then have st: "map Status (Items ?wk3) = progress (Suc (cursor m)) [] (length (order m))"
        by (simp add: s progress_update(2) progress_blocked)
      have t3: "touched a False wk2 ?wk3" by (rule tracker_touched)
      have at2: "ByNode wk2 (NodeID a) = Some (cursor m)" using at same(2) by simp
      note same3 = touched_status(2-4) [OF t3 at2]
      have tr: "tracks (Failure m a) ?wk3"
        using less.prems(2) same same3 by (simp add: tracks_def)
      have "walk_loop su (Failure m a) ?wk3 = Some (r, wk')" using less.prems(1) attempt(4) res Node_failed by simp
      from less.hyps [OF fewer this tr, unfolded order_Failure nx(3)] show ?thesis
        using nx(1) st same same3 by simp
    next
      case Node_connected
      then have "r = Walk_connected (NodeID a)" "wk' = wk2" using less.prems attempt(4) res by simp_all
      then show ?thesis using s same nx(1,2) Node_connected by auto
    next
      case Node_superseded
      then have "r = Walk_superseded" "wk' = wk2" using less.prems attempt(4) res by simp_all
      then show ?thesis using same by simp
    next
      case Node_local_failure
      then have "r = Walk_local_failure" "wk' = wk2" using less.prems attempt(4) res by simp_all
      then show ?thesis using same by simp
    qed
  qed
qed

text \<open>The walk the user is shown is the walk that happened: for a fresh machine over distinct candidates,
  the items stay the candidates in their planned order; when the connect succeeds, exactly the candidates
  before the connected one are marked blocked, that one is marked ok and the later ones still wait; when
  the walk is exhausted every candidate is marked blocked.\<close>

theorem connect_snapshot_truthful:
  assumes "0 < ProbeRetry (Times su)" and "runFallback get lg su m wk = Some (r, wk')"
    and "cursor m = 0" and "distinct (map NodeID (order m))"
  shows "map ItNode (Items wk') = map NodeID (order m) \<and>
    (case r of
       Walk_connected n \<Rightarrow> \<exists>k<length (order m). NodeID (order m ! k) = n \<and>
         map Status (Items wk') = replicate k Blocked @ [OK] @ replicate (length (order m) - Suc k) Waiting
     | Walk_exhausted \<Rightarrow> map Status (Items wk') = replicate (length (order m)) Blocked
     | _ \<Rightarrow> True)"
proof -
  let ?wk1 = "newAttemptTracker get lg (FlProfile (Loop su)) m wk"
  have ids: "map (\<lambda>i. NodeID (order m ! i)) [0..<length (order m)] = map NodeID (order m)"
    by (rule nth_equalityI) simp_all
  have bn: "ByNode ?wk1 (NodeID (order m ! i)) = Some i" if "i < length (order m)" for i
  proof -
    have "distinct (map fst (rev (map (\<lambda>i. (NodeID (order m ! i), i)) [0..<length (order m)])))"
      using assms(4) ids by (simp add: rev_map [symmetric] o_def)
    moreover have "(NodeID (order m ! i), i) \<in> set (rev (map (\<lambda>i. (NodeID (order m ! i), i)) [0..<length (order m)]))"
      using that by auto
    ultimately show ?thesis by (simp add: newAttemptTracker_def Let_def Order_def map_of_is_SomeI)
  qed
  have it: "map Status (Items ?wk1) = progress 0 [] (length (order m))" "map ItNode (Items ?wk1) = map NodeID (order m)"
      "length (Items ?wk1) = length (order m)"
    by (simp_all add: newAttemptTracker_def Let_def Order_def progress_def o_def map_replicate_const ids)
  let ?wk2 = "begin_walk (Env su) ?wk1"
  have "tracks m ?wk2" using bn it(3) by (simp add: tracks_def tracker_Items)
  from walk_loop_items [OF assms(1) assms(2) [unfolded runFallback_def] this] show ?thesis
    using it assms(3) by (simp add: tracker_Items progress_def split: walk_end.splits)
qed


section \<open>Concrete instances\<close>

text \<open>A world in which everything works, and one in which no process starts.\<close>

definition ex_env :: "start_answer \<Rightarrow> unit surroundings" where
  "ex_env st = \<lparr>q_ctx_err = \<lambda>w. (False, w), q_current = \<lambda>w. (True, w), q_start = \<lambda>c w. (st, w),
     q_exited = \<lambda>w. (False, w), q_select = \<lambda>t w. ((True, 10), w), q_probe = \<lambda>w. ((True, 20), w),
     q_wait = \<lambda>d w. (Timer_fired True, w), q_dial = \<lambda>n w. ((None, False), w), q_activate = \<lambda>ro t w. (None, w),
     q_arm = \<lambda>h w. (None, w), q_routing = \<lambda>w. (''smart'', w)\<rparr>"

definition ex_loop :: fallback_loop where
  "ex_loop = \<lparr>FlProfile = ''p1'', FlNodes = profileNodes sample_profile, FlNodeIDs = serverIDs sample_profile,
     FlTags = serverTags sample_profile, FlRouting = zero_options, FlTun = sample_tun, FlRemember = True, FlRequested = []\<rparr>"

definition ex_setup :: "start_answer \<Rightarrow> unit walk_setup" where
  "ex_setup st = \<lparr>Env = ex_env st, Times = default_times, Render = sample_env, Encode = \<lambda>_. ''{}'', Loop = ex_loop,
     KeepsLastGood = True\<rparr>"

definition ex_first :: attempt where "ex_first = \<lparr>NodeID = ''s1'', Node = sample_node ''a''\<rparr>"
definition ex_second :: attempt where "ex_second = \<lparr>NodeID = ''s2'', Node = sample_node ''b''\<rparr>"

definition ex_walk_machine :: "mem_last_good machine" where
  "ex_walk_machine = \<lparr>profileID = ''p1'', lastGood = None, order = [ex_first, ex_second], cursor = 0,
     candidates = [ex_first, ex_second], pref = DefaultOrder, byLatency = False, latency = Map.empty\<rparr>"

definition ex_walk :: "unit walk" where
  "ex_walk = \<lparr>World = (), Clock = 0, Events = [], Items = [], ByNode = Map.empty\<rparr>"

lemma ex_walk_order: "order ex_walk_machine = [ex_first, ex_second]" "cursor ex_walk_machine = 0"
  by (simp_all add: ex_walk_machine_def)

lemma ex_config:
  "attempt_config (ex_setup st) ex_first \<lparr>StName = n, StFingerprint = '''', StServerName = '''', StFragment = False\<rparr> =
     Inr (''{}'', \<lparr>SsDefault = ''a'', SsMembers = [''a'', ''b'']\<rparr>)"
  by (simp add: attempt_config_def ex_setup_def ex_loop_def ex_first_def buildConfigJSON_def sample_serverTags tag_at_def
      applyStrategyToNodes_def IsDefault_def sample_profile_fields Build_def sample_validate zero_options_def sample_build
      Let_def SelectorDefault_def SelectorMembers_def)

lemma ex_times: "0 < ProbeRetry (Times (ex_setup st))"
  by (simp add: ex_setup_def default_times_def)

lemma unit_walk [simp]: "(wk :: unit walk)\<lparr>World := w\<rparr> = wk"
  by (cases wk) simp

lemma ex_asks [simp]:
  "ask (q_ctx_err (ex_env st)) wk = (False, wk)" "ask (q_current (ex_env st)) wk = (True, wk)"
  "ask (q_start (ex_env st) c) wk = (st, wk)" "ask (q_exited (ex_env st)) wk = (False, wk)"
  "ask (q_select (ex_env st) t) wk = ((True, 10), wk)" "ask (q_probe (ex_env st)) wk = ((True, 20), wk)"
  "ask (q_wait (ex_env st) d) wk = (Timer_fired True, wk)" "ask (q_activate (ex_env st) ro tun) wk = (None, wk)"
  "superseded (ex_env st) wk = (False, wk)"
  by (simp_all add: ask_def ex_env_def superseded_def)

lemma ex_setup_fields [simp]:
  "Env (ex_setup st) = ex_env st" "Times (ex_setup st) = default_times" "FlTun (Loop (ex_setup st)) = sample_tun"
  by (simp_all add: ex_setup_def ex_loop_def)

lemma ex_probe:
  "\<exists>wk'. probeUntilUp (ex_env st) default_times tag wk = Some ((True, False), wk')"
  by (cases "tag = []") (simp_all add: probeUntilUp_def budget_wait_def default_times_def probe_loop.simps [of _ _ _ _ _ False]
      pin_selector_def)

lemma ex_came_up: "\<exists>wk'. came_up (ex_setup st) a strat sel wk = (Node_connected, wk')"
  by (simp add: came_up_def recordSuccess_def arm_for_mode_def IsSystemProxy_def sample_tun_def ModeSystemProxy_def)

lemma ex_connects:
  "\<exists>wk'. runFallback mem_Get None (ex_setup Started) ex_walk_machine ex_walk = Some (Walk_connected ''s1'', wk')"
proof -
  have "\<exists>wk'. attemptNode (ex_setup Started) ex_first wk = Some (Node_connected, wk')" for wk
  proof -
    obtain wk2 where p: "probeUntilUp (ex_env Started) default_times ''a''
        (emit (Ev_started (NodeID ex_first) (hd DefaultStrategies) ''{}'') wk) = Some ((True, False), wk2)"
      using ex_probe by blast
    obtain wk3 where "came_up (ex_setup Started) ex_first (hd DefaultStrategies) \<lparr>SsDefault = ''a'', SsMembers = [''a'', ''b'']\<rparr> wk2 =
        (Node_connected, wk3)" using ex_came_up by blast
    then show ?thesis using p by (simp add: attemptNode_def DefaultStrategies_def ex_config)
  qed
  then obtain wk' where "attemptNode (ex_setup Started) ex_first (trying (ex_env Started) ex_first
      (begin_walk (ex_env Started) (newAttemptTracker mem_Get None (FlProfile (Loop (ex_setup Started)))
        ex_walk_machine ex_walk))) = Some (Node_connected, wk')" by blast
  moreover have "Next ex_walk_machine = Some ex_first" by (simp add: Next_def ex_walk_order)
  moreover have "NodeID ex_first = ''s1''" by (simp add: ex_first_def)
  ultimately show ?thesis unfolding runFallback_def by (subst walk_loop.simps) simp
qed

lemma connect_walk_terminates_witness:
  "\<exists>outcome wk'. runFallback mem_Get None (ex_setup (Start_failed False ''no such file'')) ex_walk_machine ex_walk =
     Some (outcome, wk')"
  by (rule connect_walk_terminates) (rule ex_times)

lemma connect_walk_outcome_witness:
  "\<exists>wk' es. runFallback mem_Get None (ex_setup Started) ex_walk_machine ex_walk = Some (Walk_connected ''s1'', wk') \<and>
     Events wk' = es \<and> walk_leaves (ex_setup Started) [ex_first, ex_second] (Walk_connected ''s1'') es"
proof -
  obtain wk' where r: "runFallback mem_Get None (ex_setup Started) ex_walk_machine ex_walk = Some (Walk_connected ''s1'', wk')"
    using ex_connects by blast
  from connect_walk_outcome [OF ex_times r] r show ?thesis by (auto simp: ex_walk_order ex_walk_def)
qed

lemma connect_walk_starts_witness:
  "\<exists>r wk'. runFallback mem_Get None (ex_setup Started) ex_walk_machine ex_walk = Some (r, wk') \<and>
     length (starts (Events wk')) \<le> 8"
proof -
  obtain wk' where r: "runFallback mem_Get None (ex_setup Started) ex_walk_machine ex_walk = Some (Walk_connected ''s1'', wk')"
    using ex_connects by blast
  from connect_walk_starts [OF ex_times r] r show ?thesis by (auto simp: ex_walk_order ex_walk_def)
qed

lemma connect_snapshot_truthful_witness:
  "\<exists>wk'. runFallback mem_Get None (ex_setup Started) ex_walk_machine ex_walk = Some (Walk_connected ''s1'', wk') \<and>
     map ItNode (Items wk') = [''s1'', ''s2''] \<and> map Status (Items wk') = [OK, Waiting]"
proof -
  obtain wk' where r: "runFallback mem_Get None (ex_setup Started) ex_walk_machine ex_walk = Some (Walk_connected ''s1'', wk')"
    using ex_connects by blast
  have "distinct (map NodeID (order ex_walk_machine))" by (simp add: ex_walk_order ex_first_def ex_second_def)
  from connect_snapshot_truthful [OF ex_times r ex_walk_order(2) this] r show ?thesis
    by (auto simp: ex_walk_order ex_first_def ex_second_def less_Suc_eq)
qed

end
