(* ===== verification/Hotswitch.thy ===== *)
theory Hotswitch
  imports Connect_Walk Nodecheck
begin

text \<open>
  Moving a live tunnel to another exit (\<^verbatim>\<open>core/control/hotswitch.go\<close>, \<^verbatim>\<open>core/control/health.go\<close>): what the
  running process can be steered to, a switch that is confirmed or undone, the hysteresis of the automatic
  recovery, the choice of the exits to measure, and the watchdog that counts failed probes.

  The slice of the daemon's state these operations read and write is a record; times are milliseconds.  The
  process runner's answers and the clock are arguments.  Log lines are left out.
\<close>

section \<open>State\<close>

datatype phase = Idle | Connecting | HealthReconnecting | Connected | ErrorPhase

record live_config =
  LcGen :: nat
  LcProfile :: string
  LcTagOf :: "string \<rightharpoonup> string"
  LcSel :: selector_shape

record recovery =
  Generation :: nat
  Phase :: phase
  StProfile :: string
  StNode :: string
  AutoFailover :: bool
  ChainEnabled :: bool
  Live :: "live_config option"
  DegradedAt :: "string \<rightharpoonup> int"
  AutoSwitches :: "int list"
  LastGoodOf :: "(string \<rightharpoonup> string) option"
  LastConn :: "string \<times> string"
  Attempts :: "(attempt_item list \<times> walk_outcome) option"

record switch_policy =
  Cooldown :: int
  Window :: int
  MaxSwitches :: nat
  RetryAfter :: int
  ScanLimit :: nat

definition default_policy :: switch_policy where
  "default_policy = \<lparr>Cooldown = 180000, Window = 900000, MaxSwitches = 3, RetryAfter = 600000, ScanLimit = 6\<rparr>"

definition setLiveConfig :: "nat \<Rightarrow> string \<Rightarrow> (string \<rightharpoonup> string) \<Rightarrow> selector_shape \<Rightarrow> recovery \<Rightarrow> recovery" where
  "setLiveConfig gen pid tags sel st =
     (if Generation st \<noteq> gen then st
      else st\<lparr>Live := Some \<lparr>LcGen = gen, LcProfile = pid, LcTagOf = tags, LcSel = sel\<rparr>\<rparr>)"

definition liveNode :: "string \<Rightarrow> recovery \<Rightarrow> string" where
  "liveNode fallbackID st = (if StNode st \<noteq> [] then StNode st else fallbackID)"

section \<open>A live switch\<close>

definition liveSwitchTarget :: "string \<Rightarrow> string \<Rightarrow> recovery \<Rightarrow> (string \<times> string \<times> string) option" where
  "liveSwitchTarget pid nid st =
     (case Live st of
        None \<Rightarrow> None
      | Some lv \<Rightarrow>
          if Phase st \<noteq> Connected then None
          else if LcGen lv \<noteq> Generation st \<or> LcProfile lv \<noteq> pid \<or> StProfile st \<noteq> pid then None
          else if nid = [] \<or> nid = StNode st then None
          else
            let tag = tag_at (LcTagOf lv) nid
            in if tag = [] \<or> \<not> shape_has (LcSel lv) tag then None
               else Some (tag, tag_at (LcTagOf lv) (StNode st), StNode st))"

text \<open>
  The confirmation loop: the \<open>i\<close>-th round's probe (whether it came back, and after how long) and how the
  wait after it ended.
\<close>

partial_function (option) confirm_loop ::
  "(nat \<Rightarrow> (bool \<times> nat) \<times> wait_answer) \<Rightarrow> nat \<Rightarrow> nat \<Rightarrow> nat \<Rightarrow> nat \<Rightarrow> bool option" where
  "confirm_loop rounds retry deadline t i =
     (let ((ok, e), w) = rounds i
      in if ok then Some True
         else case w of
           Cut_short \<Rightarrow> Some False
         | Timer_fired tie \<Rightarrow>
             if t + e + retry < deadline \<or> t + e + retry = deadline \<and> tie
             then confirm_loop rounds retry deadline (t + e + retry) (Suc i)
             else Some False)"

definition confirmSwitch :: "(nat \<Rightarrow> (bool \<times> nat) \<times> wait_answer) \<Rightarrow> nat \<Rightarrow> nat \<Rightarrow> bool option" where
  "confirmSwitch rounds retry budget = confirm_loop rounds retry budget 0 0"

text \<open>
  What the selector does with a request: whether the call reported success, and whether the selector took
  the tag (a call that timed out may have).
\<close>

record select_answer =
  Reported :: bool
  Took :: bool

definition steer :: "select_answer \<Rightarrow> string \<Rightarrow> string \<Rightarrow> string" where
  "steer a tag cur = (if Took a then tag else cur)"

definition node_protocol :: "profile option \<Rightarrow> string \<Rightarrow> protocol" where
  "node_protocol p nid =
     (case p of
        None \<Rightarrow> []
      | Some p \<Rightarrow> (case find (\<lambda>s. SrvID s = nid) (Servers p) of Some s \<Rightarrow> Protocol (SrvNode s) | None \<Rightarrow> []))"

definition emitSwitchAttempt :: "nat \<Rightarrow> profile option \<Rightarrow> string \<Rightarrow> recovery \<Rightarrow> recovery" where
  "emitSwitchAttempt gen p nid st =
     (if Generation st \<noteq> gen then st
      else st\<lparr>Attempts := Some ([\<lparr>Seq = 1, ItProtocol = node_protocol p nid, ItNode = nid, Status = Connect_Walk.OK,
               LastGood = True, ItStrategy = [], Reason = []\<rparr>], Connected_outcome)\<rparr>)"

definition rememberLastConn :: "string \<Rightarrow> string \<Rightarrow> recovery \<Rightarrow> recovery" where
  "rememberLastConn pid nid st = st\<lparr>LastConn := (pid, nid)\<rparr>"

definition commitSwitch :: "profile option \<Rightarrow> string \<Rightarrow> string \<Rightarrow> bool \<Rightarrow> recovery \<Rightarrow> recovery" where
  "commitSwitch p pid nid remember st =
     (let st = st\<lparr>LastGoodOf := map_option (\<lambda>lg. lg(pid \<mapsto> nid)) (LastGoodOf st)\<rparr>;
          st = (if remember then rememberLastConn pid nid st else st);
          st = emitSwitchAttempt (Generation st) p nid st
      in st\<lparr>Phase := Connected, StProfile := pid, StNode := nid\<rparr>)"

text \<open>
  \<open>cur\<close> is the tag the selector is on; the result is the verdict (none if the confirmation does not end),
  the state and the tag the selector ends on.
\<close>

definition switchNode ::
  "select_answer \<Rightarrow> select_answer \<Rightarrow> bool option \<Rightarrow> profile option \<Rightarrow> string \<Rightarrow> string \<Rightarrow> bool \<Rightarrow> string \<Rightarrow> recovery \<Rightarrow>
   (bool \<times> recovery \<times> string) option"
where
  "switchNode first back confirmed p pid nid remember cur st =
     (case liveSwitchTarget pid nid st of
        None \<Rightarrow> Some (False, st, cur)
      | Some (tag, prevTag, prevNode) \<Rightarrow>
          let cur1 = steer first tag cur
          in if \<not> Reported first then Some (False, st, cur1)
             else case confirmed of
               None \<Rightarrow> None
             | Some False \<Rightarrow> Some (False, st, if prevTag \<noteq> [] then steer back prevTag cur1 else cur1)
             | Some True \<Rightarrow> Some (True, commitSwitch p pid nid remember st, cur1))"

section \<open>Hysteresis\<close>

definition allowAutoRecovery :: "switch_policy \<Rightarrow> int \<Rightarrow> nat \<Rightarrow> string \<Rightarrow> string \<Rightarrow> recovery \<Rightarrow> bool \<times> recovery" where
  "allowAutoRecovery pol now gen pid degraded st0 =
     (let st1 = (if degraded \<noteq> [] then st0\<lparr>DegradedAt := (DegradedAt st0)(degraded \<mapsto> now)\<rparr> else st0);
          current = (Generation st1 = gen \<and> StProfile st1 = pid \<and> Phase st1 = Connected \<and> AutoFailover st1);
          recent = filter (\<lambda>t. now - t < Window pol) (AutoSwitches st1);
          st = st1\<lparr>AutoSwitches := recent\<rparr>;
          spent = length recent;
          sinceLast = (if 0 < spent then now - recent ! (spent - 1) else 0)
      in if \<not> current then (False, st)
         else if 0 < spent \<and> sinceLast < Cooldown pol then (False, st)
         else if MaxSwitches pol \<le> spent then (False, st)
         else (True, st))"

definition recordAutoSwitch :: "int \<Rightarrow> recovery \<Rightarrow> recovery" where
  "recordAutoSwitch now st = st\<lparr>AutoSwitches := AutoSwitches st @ [now]\<rparr>"

definition allowAutoSwitch :: "switch_policy \<Rightarrow> int \<Rightarrow> nat \<Rightarrow> string \<Rightarrow> string \<Rightarrow> recovery \<Rightarrow> bool \<times> recovery" where
  "allowAutoSwitch pol now gen pid degraded st =
     (let (ok, st) = allowAutoRecovery pol now gen pid degraded st
      in if \<not> ok then (False, st)
         else (case Live st of None \<Rightarrow> False | Some lv \<Rightarrow> LcGen lv = gen \<and> LcProfile lv = pid, st))"

section \<open>The exits worth measuring\<close>

definition scan_tag :: "live_config \<Rightarrow> string \<Rightarrow> string option" where
  "scan_tag lv nid =
     (let tag = tag_at (LcTagOf lv) nid in if tag = [] \<or> \<not> shape_has (LcSel lv) tag then None else Some tag)"

definition scanCandidates ::
  "switch_policy \<Rightarrow> (string \<rightharpoonup> int) \<Rightarrow> (string \<rightharpoonup> string) option \<Rightarrow> live_config \<Rightarrow> profile \<Rightarrow> string \<Rightarrow> int \<Rightarrow>
   (string \<times> string) list"
where
  "scanCandidates pol degradedAt lastGoodOf lv p degraded cutoff =
     (let lastGood = (case lastGoodOf of None \<Rightarrow> [] | Some lg \<Rightarrow> (case lg (ID p) of Some i \<Rightarrow> i | None \<Rightarrow> []));
          out = concat (map (\<lambda>s.
                  if SrvID s = degraded then []
                  else if (case degradedAt (SrvID s) of Some at \<Rightarrow> at > cutoff | None \<Rightarrow> False) then []
                  else case scan_tag lv (SrvID s) of None \<Rightarrow> [] | Some tag \<Rightarrow> [(SrvID s, tag)]) (Servers p));
          out = (if lastGood \<noteq> [] \<and> lastGood \<noteq> degraded then go_stable_sort (\<lambda>a b. fst a = lastGood) out else out)
      in if 0 < ScanLimit pol \<and> ScanLimit pol < length out then take (ScanLimit pol) out else out)"

text \<open>
  One candidate against the targets: \<open>via\<close> is the delay of a request through the outbound, or nothing for an
  error; \<open>reach\<close> is how many targets were reached before the context was cancelled.
\<close>

definition measure_candidate :: "(string \<Rightarrow> string \<Rightarrow> int option) \<Rightarrow> nat \<Rightarrow> string list \<Rightarrow> string \<times> string \<Rightarrow> node_result" where
  "measure_candidate via reach targets c =
     \<lparr>node_result.NodeID = fst c,
      Targets = map (\<lambda>t. case via (snd c) t of
                    None \<Rightarrow> \<lparr>Target = t, Stage = StageProbe, RTTMs = 0\<rparr>
                  | Some d \<Rightarrow> \<lparr>Target = t, Stage = StageOK, RTTMs = (if d \<le> 0 then 1 else d)\<rparr>) (take reach targets)\<rparr>"

definition measureCandidates ::
  "(string \<Rightarrow> string \<Rightarrow> int option) \<Rightarrow> (string \<Rightarrow> nat) \<Rightarrow> (string \<times> string) list \<Rightarrow> string list \<Rightarrow> node_result list" where
  "measureCandidates via reach cands targets = map (\<lambda>c. measure_candidate via (reach (fst c)) targets c) cands"

definition scanForExit ::
  "switch_policy \<Rightarrow> int \<Rightarrow> (string \<Rightarrow> string \<Rightarrow> int option) \<Rightarrow> (string \<Rightarrow> nat) \<Rightarrow> string list \<Rightarrow> profile option \<Rightarrow>
   string \<Rightarrow> string \<Rightarrow> recovery \<Rightarrow> string option"
where
  "scanForExit pol now via reach targets p pid degraded st =
     (case Live st of
        None \<Rightarrow> None
      | Some lv \<Rightarrow>
          if LcProfile lv \<noteq> pid \<or> length targets = 0 then None
          else case p of
            None \<Rightarrow> None
          | Some pr \<Rightarrow>
              let cands = scanCandidates pol (DegradedAt st) (LastGoodOf st) lv pr degraded (now - RetryAfter pol)
              in if length cands = 0 then None
                 else
                   let results = measureCandidates via reach cands targets;
                       lastGood = (case LastGoodOf st of
                                     None \<Rightarrow> []
                                   | Some lg \<Rightarrow> (case lg pid of Some i \<Rightarrow> if i \<noteq> degraded then i else [] | None \<Rightarrow> []))
                   in map_option node_result.NodeID (Best results lastGood))"

section \<open>The automatic switch\<close>

datatype autoSwitchResult = Reconnect | Succeeded | Suppressed

text \<open>
  \<open>locked\<close>: whether \<^verbatim>\<open>TryLock\<close> got the connection lock; the state may have been changed by others between the
  scan and the lock, so the state under the lock is an argument.
\<close>

definition autoSwitchAway_locked ::
  "switch_policy \<Rightarrow> int \<Rightarrow> int \<Rightarrow> select_answer \<Rightarrow> select_answer \<Rightarrow> bool option \<Rightarrow> profile option \<Rightarrow> nat \<Rightarrow> string \<Rightarrow>
   string \<Rightarrow> string \<Rightarrow> string \<Rightarrow> recovery \<Rightarrow> (autoSwitchResult \<times> recovery \<times> string) option"
where
  "autoSwitchAway_locked pol now now' first back confirmed p gen pid degraded dest cur st =
     (let (ok, st) = allowAutoRecovery pol now gen pid degraded st
      in if \<not> ok \<or> liveNode [] st \<noteq> degraded then Some (Suppressed, st, cur)
         else case switchNode first back confirmed p pid dest False cur st of
           None \<Rightarrow> None
         | Some (False, st, cur) \<Rightarrow> Some (Reconnect, st, cur)
         | Some (True, st, cur) \<Rightarrow> Some (Succeeded, recordAutoSwitch now' st, cur))"

datatype failoverResult = FailoverStarted | NoAlternative | Aborted

definition healthFailover ::
  "switch_policy \<Rightarrow> int \<Rightarrow> profile option \<Rightarrow> nat \<Rightarrow> string \<Rightarrow> string \<Rightarrow> recovery \<Rightarrow> failoverResult \<times> recovery" where
  "healthFailover pol now p gen pid nid st =
     (let (ok, st) = allowAutoRecovery pol now gen pid nid st
      in if \<not> ok then (Aborted, st)
         else if ChainEnabled st then (NoAlternative, st)
         else case p of
           None \<Rightarrow> (Aborted, st)
         | Some pr \<Rightarrow>
             (case buildCandidates pr [] of
                Inl _ \<Rightarrow> (Aborted, st)
              | Inr cands \<Rightarrow>
                  if length (dropCandidate cands nid) = 0 then (NoAlternative, st) else (FailoverStarted, st)))"

text \<open>
  The queued reconnect, run under the connection lock: whether it starts a connect (of the latest profile,
  avoiding the exit it leaves).
\<close>

definition failover_reconnect ::
  "switch_policy \<Rightarrow> int \<Rightarrow> int \<Rightarrow> profile option \<Rightarrow> nat \<Rightarrow> string \<Rightarrow> string \<Rightarrow> recovery \<Rightarrow> bool \<times> recovery" where
  "failover_reconnect pol now now' latest gen pid nid st =
     (let (ok, st) = allowAutoRecovery pol now gen pid nid st
      in if \<not> ok \<or> liveNode [] st \<noteq> nid then (False, st)
         else case latest of
           None \<Rightarrow> (False, st)
         | Some _ \<Rightarrow>
             (True, (recordAutoSwitch now' st)\<lparr>Phase := HealthReconnecting, StProfile := pid, StNode := nid\<rparr>))"

section \<open>The watchdog\<close>

record watch =
  Fails :: nat
  WarnedNoAlt :: bool

datatype watch_tick = Disabled | Probe_ok | Probe_failed autoSwitchResult failoverResult

datatype watch_action = Parked | Healthy | Counted nat | Acted

definition effective_threshold :: "int \<Rightarrow> nat" where
  "effective_threshold n = (if n < 1 then 1 else nat n)"

text \<open>
  One tick on the current generation.  The two recovery results are only looked at when the threshold is
  reached; a superseded generation ends the list of ticks.
\<close>

fun watch_step :: "nat \<Rightarrow> watch \<Rightarrow> watch_tick \<Rightarrow> watch \<times> watch_action" where
  "watch_step threshold w Disabled = (\<lparr>Fails = 0, WarnedNoAlt = False\<rparr>, Parked)"
| "watch_step threshold w Probe_ok = (\<lparr>Fails = 0, WarnedNoAlt = False\<rparr>, Healthy)"
| "watch_step threshold w (Probe_failed sw fo) =
     (let fails = Suc (Fails w)
      in if fails < threshold then (w\<lparr>Fails := fails\<rparr>, Counted fails)
         else if sw = Succeeded \<or> sw = Suppressed then (\<lparr>Fails = 0, WarnedNoAlt = False\<rparr>, Acted)
         else case fo of
           FailoverStarted \<Rightarrow> (\<lparr>Fails = 0, WarnedNoAlt = False\<rparr>, Acted)
         | NoAlternative \<Rightarrow> (\<lparr>Fails = 0, WarnedNoAlt = True\<rparr>, Acted)
         | Aborted \<Rightarrow> (w\<lparr>Fails := 0\<rparr>, Acted))"

fun healthWatch :: "nat \<Rightarrow> watch \<Rightarrow> watch_tick list \<Rightarrow> watch_action list" where
  "healthWatch threshold w [] = []"
| "healthWatch threshold w (t # ts) = (let (w', a) = watch_step threshold w t in a # healthWatch threshold w' ts)"

end
