(* ===== verification/Hotswitch_Props.thy ===== *)
theory Hotswitch_Props
  imports Hotswitch
begin

text \<open>
  What the automatic recovery and a live switch guarantee: a bounded rate of exit changes over any history,
  exits measured and chosen only where they can work, a switch that is believed only after traffic flowed,
  and a watchdog that acts exactly on an uninterrupted run of failures.
\<close>

section \<open>The rate of automatic exit changes\<close>

text \<open>
  The clock, the state and the times at which the daemon moved the exit on its own: a live switch that
  \<^verbatim>\<open>autoSwitchAway\<close> reports as done, or a reconnect that the queued half of \<^verbatim>\<open>healthFailover\<close> starts.  Both run
  under the connection lock and are steps of their own, from the check to the end, while the clock moves on.  The
  watchdog's checks before them hold no such lock and may have read the clock earlier; everything else, user commands
  included, may change the rest of the state.
\<close>

inductive recovery_step ::
  "switch_policy \<Rightarrow> int \<times> recovery \<times> int list \<Rightarrow> int \<times> recovery \<times> int list \<Rightarrow> bool" for pol where
  other: "now \<le> now' \<Longrightarrow> AutoSwitches st' = AutoSwitches st \<Longrightarrow> recovery_step pol (now, st, h) (now', st', h)"
| check: "allowAutoRecovery pol now0 gen pid degraded st = (ok, st') \<Longrightarrow> now0 \<le> now \<Longrightarrow>
    recovery_step pol (now, st, h) (now, st', h)"
| steerable: "allowAutoSwitch pol now0 gen pid degraded st = (ok, st') \<Longrightarrow> now0 \<le> now \<Longrightarrow>
    recovery_step pol (now, st, h) (now, st', h)"
| away: "autoSwitchAway_locked pol now now' first back confirmed p gen pid degraded dest cur st = Some (res, st', cur') \<Longrightarrow>
    now \<le> now' \<Longrightarrow>
    recovery_step pol (now, st, h) (now', st', if res = Succeeded then h @ [now'] else h)"
| failover: "healthFailover pol now0 p gen pid nid st = (res, st') \<Longrightarrow> now0 \<le> now \<Longrightarrow>
    recovery_step pol (now, st, h) (now, st', h)"
| reconnect: "failover_reconnect pol now now' latest gen pid nid st = (started, st') \<Longrightarrow> now \<le> now' \<Longrightarrow>
    recovery_step pol (now, st, h) (now', st', if started then h @ [now'] else h)"

definition window_of :: "switch_policy \<Rightarrow> int \<Rightarrow> int list \<Rightarrow> int list" where
  "window_of pol now h = filter (\<lambda>t. now - t < Window pol) h"

definition rate_ok :: "switch_policy \<Rightarrow> int list \<Rightarrow> bool" where
  "rate_ok pol h \<longleftrightarrow> sorted h \<and>
     (\<forall>i. Suc i < length h \<longrightarrow> h ! i + Cooldown pol \<le> h ! Suc i) \<and>
     (\<forall>now. length (filter (\<lambda>t. t \<le> now) (window_of pol now h)) \<le> MaxSwitches pol)"

text \<open>The state keeps every stamp that is still in the window, and possibly older ones.\<close>

definition keeps :: "switch_policy \<Rightarrow> int \<times> recovery \<times> int list \<Rightarrow> bool" where
  "keeps pol c \<longleftrightarrow> (case c of (now, st, h) \<Rightarrow>
     rate_ok pol h \<and> list_all (\<lambda>t. t \<le> now) h \<and>
     (\<exists>cut. cut \<le> now - Window pol \<and> AutoSwitches st = filter (\<lambda>t. cut < t) h))"

lemma filter_both: "(c::int) \<le> d \<Longrightarrow> filter (\<lambda>t. d < t) (filter (\<lambda>t. c < t) h) = filter (\<lambda>t. d < t) h"
  by (auto intro!: filter_cong)

lemma window_filter: "filter (\<lambda>t. now - t < w) xs = filter (\<lambda>t. (now :: int) - w < t) xs"
  by (rule filter_cong) auto

lemma allow_fields:
  assumes "allowAutoRecovery pol now gen pid degraded st = (ok, st')"
  shows "AutoSwitches st' = filter (\<lambda>t. now - t < Window pol) (AutoSwitches st)"
    and "ok \<Longrightarrow> length (AutoSwitches st') < MaxSwitches pol"
    and "ok \<Longrightarrow> AutoSwitches st' \<noteq> [] \<Longrightarrow> Cooldown pol \<le> now - last (AutoSwitches st')"
    and "ok \<Longrightarrow> Generation st = gen \<and> StProfile st = pid \<and> Phase st = Connected \<and> AutoFailover st"
  using assms by (auto simp: allowAutoRecovery_def Let_def last_conv_nth split: if_splits)

lemma last_filter_sorted: "sorted xs \<Longrightarrow> filter (\<lambda>t. (c::int) < t) xs \<noteq> [] \<Longrightarrow> last (filter (\<lambda>t. c < t) xs) = last xs"
proof (induction xs rule: rev_induct)
  case (snoc y xs)
  show ?case
  proof (cases "c < y")
    case False
    with snoc.prems(2) obtain e where "e \<in> set xs" "c < e" by (auto simp: filter_empty_conv split: if_splits)
    with snoc.prems(1) False have False by (auto simp: sorted_append)
    then show ?thesis ..
  qed simp
qed simp

lemma rate_append:
  assumes ok: "rate_ok pol h" and le: "list_all (\<lambda>t. t \<le> now) h" and now: "now \<le> now'"
    and few: "length (window_of pol now h) < MaxSwitches pol"
    and gap: "h \<noteq> [] \<Longrightarrow> Cooldown pol \<le> now - last h"
  shows "rate_ok pol (h @ [now'])"
proof -
  have s: "sorted (h @ [now'])" using ok le now by (force simp: rate_ok_def sorted_append list_all_iff)
  have g: "(h @ [now']) ! i + Cooldown pol \<le> (h @ [now']) ! Suc i" if "Suc i < length (h @ [now'])" for i
  proof (cases "Suc i < length h")
    case True
    then show ?thesis using ok by (simp add: rate_ok_def nth_append)
  next
    case False
    with that have "i = length h - 1" "h \<noteq> []" by auto
    then show ?thesis using gap now by (simp add: nth_append last_conv_nth)
  qed
  have w: "length (filter (\<lambda>t. t \<le> T) (window_of pol T (h @ [now']))) \<le> MaxSwitches pol" for T
  proof (cases "now' \<le> T")
    case False
    then have "filter (\<lambda>t. t \<le> T) (window_of pol T (h @ [now'])) = filter (\<lambda>t. t \<le> T) (window_of pol T h)"
      by (simp add: window_of_def)
    then show ?thesis using ok by (simp add: rate_ok_def)
  next
    case True
    have "length (filter (\<lambda>t. T - t < Window pol) h) \<le> length (filter (\<lambda>t. now - t < Window pol) h)"
      using True now by (induction h) auto
    then have "length (window_of pol T (h @ [now'])) \<le> Suc (length (window_of pol now h))"
      by (simp add: window_of_def)
    with few have "length (window_of pol T (h @ [now'])) \<le> MaxSwitches pol" by simp
    then show ?thesis by (rule order.trans [OF length_filter_le])
  qed
  show ?thesis unfolding rate_ok_def using s g w by blast
qed

lemma switchNode_stamps:
  "switchNode first back confirmed p pid dest remember cur st = Some (ok, st', cur') \<Longrightarrow> AutoSwitches st' = AutoSwitches st"
  by (auto simp: switchNode_def commitSwitch_def emitSwitchAttempt_def rememberLastConn_def Let_def
      split: option.splits bool.splits if_splits prod.splits)

text \<open>Every caller either only checks, or moves the exit with a check behind it and a stamp after it.\<close>

lemma allowAutoSwitch_checks:
  "allowAutoSwitch pol now gen pid degraded st = (ok, st') \<Longrightarrow> \<exists>ok'. allowAutoRecovery pol now gen pid degraded st = (ok', st')"
  by (auto simp: allowAutoSwitch_def split: prod.splits if_splits)

lemma healthFailover_checks:
  "healthFailover pol now p gen pid nid st = (res, st') \<Longrightarrow> \<exists>ok. allowAutoRecovery pol now gen pid nid st = (ok, st')"
  by (auto simp: healthFailover_def Let_def split: prod.splits if_splits option.splits sum.splits)

lemma away_moves:
  assumes "autoSwitchAway_locked pol now now' first back confirmed p gen pid degraded dest cur st = Some (res, st', cur')"
  shows "\<exists>ok st1. allowAutoRecovery pol now gen pid degraded st = (ok, st1) \<and>
     (if res = Succeeded then ok \<and> AutoSwitches st' = AutoSwitches st1 @ [now'] else AutoSwitches st' = AutoSwitches st1)"
  using assms switchNode_stamps
  by (fastforce simp: autoSwitchAway_locked_def recordAutoSwitch_def split: prod.splits if_splits option.splits bool.splits)

lemma reconnect_moves:
  assumes "failover_reconnect pol now now' latest gen pid nid st = (started, st')"
  shows "\<exists>ok st1. allowAutoRecovery pol now gen pid nid st = (ok, st1) \<and>
     (if started then ok \<and> AutoSwitches st' = AutoSwitches st1 @ [now'] else AutoSwitches st' = AutoSwitches st1)"
  using assms
  by (auto simp: failover_reconnect_def recordAutoSwitch_def split: prod.splits if_splits option.splits)

lemma keeps_check:
  assumes "keeps pol (now, st, h)" and "allowAutoRecovery pol now0 gen pid degraded st = (ok, st1)" and "now0 \<le> now"
    and "now \<le> now'" and "AutoSwitches st' = AutoSwitches st1"
  shows "keeps pol (now', st', h)"
proof -
  from assms(1) obtain cut where cut: "cut \<le> now - Window pol" "AutoSwitches st = filter (\<lambda>t. cut < t) h"
    and inv: "rate_ok pol h" "list_all (\<lambda>t. t \<le> now) h" by (auto simp: keeps_def)
  have "AutoSwitches st' = filter (\<lambda>t. max cut (now0 - Window pol) < t) h"
    using allow_fields(1) [OF assms(2)] assms(5) cut(2) by (auto simp: window_filter intro!: filter_cong)
  moreover have "max cut (now0 - Window pol) \<le> now' - Window pol" using cut(1) assms(3,4) by simp
  moreover have "list_all (\<lambda>t. t \<le> now') h" using inv(2) assms(4) by (force simp: list_all_iff)
  ultimately show ?thesis using inv(1) unfolding keeps_def by blast
qed

lemma keeps_move:
  assumes "Cooldown pol \<le> Window pol" and "0 < Window pol" and "keeps pol (now, st, h)"
    and "allowAutoRecovery pol now gen pid degraded st = (True, st1)" and "now \<le> now'"
    and "AutoSwitches st' = AutoSwitches st1 @ [now']"
  shows "keeps pol (now', st', h @ [now'])"
proof -
  from assms(3) obtain cut where cut: "cut \<le> now - Window pol" "AutoSwitches st = filter (\<lambda>t. cut < t) h"
    and inv: "rate_ok pol h" "list_all (\<lambda>t. t \<le> now) h" by (auto simp: keeps_def)
  note al = allow_fields [OF assms(4)]
  have s1: "AutoSwitches st1 = window_of pol now h"
    using al(1) cut filter_both [OF cut(1), of h] by (simp add: window_filter window_of_def)
  have gap: "Cooldown pol \<le> now - last h" if "h \<noteq> []"
  proof (cases "window_of pol now h = []")
    case True
    then have "now - last h \<ge> Window pol" using that
      by (metis (mono_tags, lifting) filter_empty_conv last_in_set not_less window_of_def)
    then show ?thesis using assms(1) by simp
  next
    case False
    then show ?thesis using al(3) s1 last_filter_sorted [of h "now - Window pol"] inv(1)
      by (simp add: window_of_def window_filter rate_ok_def)
  qed
  have "rate_ok pol (h @ [now'])"
    by (rule rate_append [OF inv assms(5) _ gap]) (use al(2) s1 in simp_all)
  moreover have "list_all (\<lambda>t. t \<le> now') (h @ [now'])" using inv(2) assms(5) by (force simp: list_all_iff)
  moreover have "AutoSwitches st' = filter (\<lambda>t. now - Window pol < t) (h @ [now'])"
    using assms(2,5,6) s1 by (simp add: window_of_def window_filter)
  moreover have "now - Window pol \<le> now' - Window pol" using assms(5) by simp
  ultimately show ?thesis unfolding keeps_def by blast
qed

lemma keeps_step:
  assumes "Cooldown pol \<le> Window pol" and "0 < Window pol" and "recovery_step pol c c'" and "keeps pol c"
  shows "keeps pol c'"
  using assms(3)
proof (cases rule: recovery_step.cases)
  case (other now now' st' st h)
  from assms(4) other obtain cut where "cut \<le> now - Window pol" "AutoSwitches st = filter (\<lambda>t. cut < t) h"
    by (auto simp: keeps_def)
  then show ?thesis using assms(4) other by (force simp: keeps_def list_all_iff intro: exI [of _ cut])
next
  case (check now0 gen pid degraded st ok st' now h)
  then show ?thesis using keeps_check [of pol now st h now0] assms(4) by auto
next
  case (steerable now0 gen pid degraded st ok st' now h)
  then show ?thesis using keeps_check [of pol now st h now0] assms(4) by (auto dest!: allowAutoSwitch_checks)
next
  case (away now now' fst_answer bk_answer confirmed p gen pid degraded dest cur st res st' cur' h)
  then show ?thesis
    using away_moves [OF away(3)] keeps_check [of pol now st h now] keeps_move [OF assms(1,2), of now st h] assms(4)
    by (fastforce split: if_splits)
next
  case (failover now0 p gen pid nid st res st' now h)
  then show ?thesis using keeps_check [of pol now st h now0] assms(4) by (auto dest!: healthFailover_checks)
next
  case (reconnect now now' latest gen pid nid st started st' h)
  then show ?thesis
    using reconnect_moves [OF reconnect(3)] keeps_check [of pol now st h now] keeps_move [OF assms(1,2), of now st h] assms(4)
    by (fastforce split: if_splits)
qed

definition fresh_recovery :: "int \<times> recovery \<times> int list \<Rightarrow> bool" where
  "fresh_recovery c \<longleftrightarrow> (case c of (now, st, h) \<Rightarrow> AutoSwitches st = [] \<and> h = [])"

lemma keeps_fresh: "fresh_recovery c \<Longrightarrow> keeps pol c"
  by (auto simp: fresh_recovery_def keeps_def rate_ok_def window_of_def)

text \<open>C30. Whatever the network does, the daemon cannot churn exits: over any history of live switches by
  \<^verbatim>\<open>autoSwitchAway\<close>, reconnects by \<^verbatim>\<open>healthFailover\<close>, the watchdog's checks and everything else since the daemon's
  start, two automatic changes of the exit are at least the cooldown apart, and no window of the configured length
  holds more than the configured number of them (for a cooldown that is not longer than the window).\<close>

theorem automatic_recovery_rate_bounded:
  assumes "Cooldown pol \<le> Window pol" and "0 < Window pol"
    and "(recovery_step pol)\<^sup>*\<^sup>* c (now, st, h)" and "fresh_recovery c"
  shows "rate_ok pol h"
proof -
  have "keeps pol (now, st, h)"
    using assms(3) by (induction rule: rtranclp_induct) (use assms keeps_fresh keeps_step in blast)+
  then show ?thesis by (simp add: keeps_def)
qed

section \<open>A switch is believed only after traffic flowed\<close>

lemma confirm_loop_returns:
  assumes "0 < retry"
  shows "\<exists>b. confirm_loop rounds retry deadline t i = Some b"
proof (induction "Suc deadline - t" arbitrary: t i rule: less_induct)
  case less
  obtain ok e w where r: "rounds i = ((ok, e), w)" by (metis prod.exhaust_sel)
  show ?case
  proof (cases "\<not> ok \<and> (\<exists>tie. w = Timer_fired tie \<and> (t + e + retry < deadline \<or> t + e + retry = deadline \<and> tie))")
    case True
    then have "Suc deadline - (t + e + retry) < Suc deadline - t" using assms by auto
    from less [OF this, of "Suc i"] True show ?thesis by (subst confirm_loop.simps) (auto simp: r)
  next
    case False
    then show ?thesis by (subst confirm_loop.simps) (auto simp: r split: wait_answer.split)
  qed
qed

lemma confirm_loop_True:
  assumes "0 < retry"
  shows "confirm_loop rounds retry deadline t i = Some True \<Longrightarrow> \<exists>j. fst (fst (rounds j))"
proof (induction "Suc deadline - t" arbitrary: t i rule: less_induct)
  case less
  obtain ok e w where r: "rounds i = ((ok, e), w)" by (metis prod.exhaust_sel)
  show ?case
  proof (cases ok)
    case True
    then show ?thesis by (intro exI [of _ i]) (simp add: r)
  next
    case False
    with less.prems obtain tie where tie: "w = Timer_fired tie"
        "t + e + retry < deadline \<or> t + e + retry = deadline \<and> tie"
        "confirm_loop rounds retry deadline (t + e + retry) (Suc i) = Some True"
      by (subst (asm) confirm_loop.simps) (auto simp: r split: wait_answer.splits if_splits)
    then have "Suc deadline - (t + e + retry) < Suc deadline - t" using assms by auto
    from less.hyps [OF this tie(3)] show ?thesis .
  qed
qed

text \<open>A live switch is reported only after a probe came back through the new exit: then the state names
  the requested node of the running profile, connected, on the same generation and the same process, and the
  selector is on that node's tag (if it took the request it acknowledged).  A switch that is refused or does
  not hold leaves the daemon's state as it was, and the selector, once steered, is put back on the tag of the
  exit that was working.\<close>

theorem switch_confirmed_or_undone:
  assumes "0 < retry" and "switchNode first back (confirmSwitch rounds retry budget) p pid nid remember cur st = Some (r, st', cur')"
  shows "if r then
      (\<exists>tag prev j. liveSwitchTarget pid nid st = Some (tag, prev) \<and> fst (fst (rounds j)) \<and> Reported first \<and>
         cur' = steer first tag cur) \<and>
      Phase st' = Connected \<and> StProfile st' = pid \<and> StNode st' = nid \<and> Generation st' = Generation st \<and>
      Live st' = Live st \<and> AutoSwitches st' = AutoSwitches st
    else st' = st \<and>
      (\<forall>tag prevTag prevNode. liveSwitchTarget pid nid st = Some (tag, prevTag, prevNode) \<and> Reported first \<and>
         prevTag \<noteq> [] \<and> Took back \<longrightarrow> cur' = prevTag)"
proof (cases "liveSwitchTarget pid nid st")
  case None
  then show ?thesis using assms(2) by (simp add: switchNode_def)
next
  case (Some t)
  obtain tag prevTag prevNode where t: "t = (tag, prevTag, prevNode)" by (cases t)
  show ?thesis
  proof (cases "Reported first \<and> confirmSwitch rounds retry budget = Some True")
    case True
    then obtain j where "fst (fst (rounds j))"
      using confirm_loop_True [OF assms(1), of rounds budget 0 0] by (auto simp: confirmSwitch_def)
    then show ?thesis using assms(2) True Some t
      by (auto simp: switchNode_def commitSwitch_def rememberLastConn_def emitSwitchAttempt_def Let_def)
  next
    case False
    then show ?thesis using assms(2) Some t
      by (auto simp: switchNode_def Let_def steer_def split: if_splits option.splits bool.splits)
  qed
qed

section \<open>The exit that is chosen\<close>

lemma scanCandidates_set:
  assumes "(nid, tag) \<in> set (scanCandidates pol dg lgo lv p degraded cutoff)"
  shows "nid \<noteq> degraded \<and> (\<exists>s\<in>set (Servers p). SrvID s = nid) \<and> \<not> (\<exists>at. dg nid = Some at \<and> cutoff < at) \<and>
    scan_tag lv nid = Some tag"
proof -
  have "(nid, tag) \<in> set (concat (map (\<lambda>s. if SrvID s = degraded then []
      else if (case dg (SrvID s) of Some at \<Rightarrow> at > cutoff | None \<Rightarrow> False) then []
      else case scan_tag lv (SrvID s) of None \<Rightarrow> [] | Some tag \<Rightarrow> [(SrvID s, tag)]) (Servers p)))"
    using assms by (auto simp: scanCandidates_def Let_def split: if_splits dest: in_set_takeD)
  then show ?thesis by (auto split: if_splits option.splits)
qed

lemma length_scanCandidates:
  "0 < ScanLimit pol \<Longrightarrow> length (scanCandidates pol dg lgo lv p degraded cutoff) \<le> ScanLimit pol"
  by (simp add: scanCandidates_def Let_def)

text \<open>The exit a degradation scan picks can take over: it is a server of the profile other than the
  degraded one, an outbound of the running process behind the selector, not an exit that itself ran out of
  health probes within the retry interval, and a strict majority of the targets it was measured against
  answered through its own tag.\<close>

theorem scan_picks_working_exit:
  assumes "scanForExit pol now via reach targets (Some pr) pid degraded st = Some nid"
  shows "\<exists>lv tag. Live st = Some lv \<and> LcProfile lv = pid \<and> scan_tag lv nid = Some tag \<and> nid \<noteq> degraded \<and>
    (\<exists>s\<in>set (Servers pr). SrvID s = nid) \<and>
    \<not> (\<exists>at. DegradedAt st nid = Some at \<and> now - RetryAfter pol < at) \<and>
    (let measured = take (reach nid) targets
     in length measured < 2 * length (filter (\<lambda>t. via tag t \<noteq> None) measured))"
proof -
  obtain lv where lv: "Live st = Some lv" "LcProfile lv = pid"
    using assms by (auto simp: scanForExit_def split: option.splits if_splits)
  define cands where "cands = scanCandidates pol (DegradedAt st) (LastGoodOf st) lv pr degraded (now - RetryAfter pol)"
  obtain lg b where b: "Best (measureCandidates via reach cands targets) lg = Some b" "nid = node_result.NodeID b"
    using assms lv by (auto simp: scanForExit_def Let_def cands_def split: if_splits)
  from Best_usable_and_minimal [of "measureCandidates via reach cands targets" lg] b(1)
  have b2: "b \<in> set (measureCandidates via reach cands targets)"
    "length (Targets b) < 2 * length (filter Nodecheck.OK (Targets b))" by auto
  from b2(1) obtain c0 where c0: "c0 \<in> set cands" "b = measure_candidate via (reach (fst c0)) targets c0"
    unfolding measureCandidates_def set_map by blast
  have "nid = fst c0" by (simp add: b(2) c0(2) measure_candidate_def)
  then obtain tag where "c0 = (nid, tag)" by (cases c0) simp
  with c0 have c: "(nid, tag) \<in> set cands" and bm: "b = measure_candidate via (reach nid) targets (nid, tag)"
    by simp_all
  let ?f = "\<lambda>t. case via tag t of None \<Rightarrow> \<lparr>Target = t, Stage = StageProbe, RTTMs = 0\<rparr>
    | Some d \<Rightarrow> \<lparr>Target = t, Stage = StageOK, RTTMs = (if d \<le> 0 then 1 else d)\<rparr>"
  have tg: "Targets b = map ?f (take (reach nid) targets)" by (simp add: bm measure_candidate_def)
  have "Nodecheck.OK (?f t) \<longleftrightarrow> via tag t \<noteq> None" for t
    by (cases "via tag t") (simp_all add: Nodecheck.OK_def StageOK_def StageProbe_def)
  then have "filter Nodecheck.OK (Targets b) = map ?f (filter (\<lambda>t. via tag t \<noteq> None) (take (reach nid) targets))"
    by (simp only: tg filter_map o_def)
  then have "length (filter Nodecheck.OK (Targets b)) = length (filter (\<lambda>t. via tag t \<noteq> None) (take (reach nid) targets))"
    "length (Targets b) = length (take (reach nid) targets)"
    by (simp_all only: length_map tg)
  with b2(2) have "length (take (reach nid) targets) < 2 * length (filter (\<lambda>t. via tag t \<noteq> None) (take (reach nid) targets))"
    by (simp only:)
  with scanCandidates_set [OF c [unfolded cands_def]] lv show ?thesis
    unfolding Let_def by (intro exI [of _ lv] exI [of _ tag]) blast
qed

section \<open>The watchdog\<close>

definition failed_tick :: "watch_tick \<Rightarrow> bool" where
  "failed_tick t \<longleftrightarrow> (\<exists>sw fo. t = Probe_failed sw fo)"

definition run_length :: "watch_tick list \<Rightarrow> nat" where
  "run_length ts = length (takeWhile failed_tick (rev ts))"

definition watch_after :: "nat \<Rightarrow> watch \<Rightarrow> watch_tick list \<Rightarrow> watch" where
  "watch_after th w ts = foldl (\<lambda>w t. fst (watch_step th w t)) w ts"

lemma healthWatch_nth:
  "k < length ts \<Longrightarrow> healthWatch th w ts ! k = snd (watch_step th (watch_after th w (take k ts)) (ts ! k))"
  by (induction ts arbitrary: w k) (auto simp: watch_after_def nth_Cons' take_Cons' split: prod.split)

lemma run_length_snoc [simp]:
  "run_length (ts @ [t]) = (if failed_tick t then Suc (run_length ts) else 0)" "run_length [] = 0"
  by (simp_all add: run_length_def)

lemma watch_after_snoc [simp]:
  "watch_after th w [] = w" "watch_after th w (ts @ [t]) = fst (watch_step th (watch_after th w ts) t)"
  by (simp_all add: watch_after_def)

lemma watch_fails:
  assumes "0 < th" and "Fails w = 0"
  shows "Fails (watch_after th w ts) = run_length ts mod th"
proof (induction ts rule: rev_induct)
  case Nil
  then show ?case using assms by (simp add: watch_after_def)
next
  case (snoc t ts)
  have "Suc (run_length ts mod th) < th \<or> Suc (run_length ts mod th) = th"
    using mod_less_divisor [OF assms(1), of "run_length ts"] by linarith
  then show ?case
    using snoc assms by (cases t) (auto simp: failed_tick_def mod_Suc Let_def split: failoverResult.split)
qed

text \<open>The watchdog moves the exit exactly on an uninterrupted run of failures: it acts at a tick if and
  only if the probes that failed in a row up to and including that tick, with the toggle on all along, are a
  positive multiple of the threshold.  A success or a switched-off toggle starts the count again.\<close>

theorem watchdog_acts_on_failure_runs:
  assumes "k < length ts" and "Fails w = 0"
  shows "healthWatch (effective_threshold n) w ts ! k = Acted \<longleftrightarrow>
    0 < run_length (take (Suc k) ts) \<and> effective_threshold n dvd run_length (take (Suc k) ts)"
proof -
  let ?th = "effective_threshold n"
  have th: "0 < ?th" by (simp add: effective_threshold_def)
  have run: "run_length (take (Suc k) ts) = (if failed_tick (ts ! k) then Suc (run_length (take k ts)) else 0)"
    using assms(1) by (simp add: take_Suc_conv_app_nth)
  have f: "Fails (watch_after ?th w (take k ts)) = run_length (take k ts) mod ?th" by (rule watch_fails [OF th assms(2)])
  have "run_length (take k ts) mod ?th < ?th" using th by simp
  then have "?th dvd Suc (run_length (take k ts)) \<longleftrightarrow> \<not> Suc (run_length (take k ts) mod ?th) < ?th"
    by (metis Suc_lessI less_irrefl mod_Suc mod_0_imp_dvd dvd_imp_mod_0 nat.distinct(1))
  then show ?thesis
    unfolding healthWatch_nth [OF assms(1)] run using f
    by (cases "ts ! k") (auto simp: failed_tick_def Let_def split: failoverResult.split)
qed

section \<open>Concrete instances\<close>

definition ex_live :: live_config where
  "ex_live = \<lparr>LcGen = 1, LcProfile = ''p1'', LcTagOf = [''s1'' \<mapsto> ''a'', ''s2'' \<mapsto> ''b''],
     LcSel = \<lparr>SsDefault = ''a'', SsMembers = [''a'', ''b'']\<rparr>\<rparr>"

definition ex_recovery :: recovery where
  "ex_recovery = \<lparr>Generation = 1, Phase = Connected, StProfile = ''p1'', StNode = ''s1'', AutoFailover = True,
     ChainEnabled = False, Live = Some ex_live, DegradedAt = Map.empty, AutoSwitches = [], LastGoodOf = Some Map.empty,
     LastConn = ([], []), Attempts = None\<rparr>"

lemma ex_recovery_profile: "\<exists>st. failover_reconnect default_policy 1000 2000 (Some sample_profile) 1 ''p1'' ''s1'' ex_recovery = (True, st)"
  by (simp add: failover_reconnect_def allowAutoRecovery_def ex_recovery_def default_policy_def liveNode_def)

lemma automatic_recovery_rate_bounded_witness:
  "\<exists>st. (recovery_step default_policy)\<^sup>*\<^sup>* (1000, ex_recovery, []) (2000, st, [2000]) \<and> rate_ok default_policy [2000]"
proof -
  from ex_recovery_profile obtain st where
    "failover_reconnect default_policy 1000 2000 (Some sample_profile) 1 ''p1'' ''s1'' ex_recovery = (True, st)" ..
  from recovery_step.reconnect [OF this, of "[]"]
  have s: "recovery_step default_policy (1000, ex_recovery, []) (2000, st, [2000])" by simp
  have "Cooldown default_policy \<le> Window default_policy" "0 < Window default_policy"
    "fresh_recovery (1000, ex_recovery, [])" by (simp_all add: default_policy_def fresh_recovery_def ex_recovery_def)
  from automatic_recovery_rate_bounded [OF this(1,2) r_into_rtranclp [of "recovery_step default_policy", OF s] this(3)] s
  show ?thesis by blast
qed

lemma switch_confirmed_or_undone_witness:
  "\<exists>st'. switchNode \<lparr>Reported = True, Took = True\<rparr> \<lparr>Reported = True, Took = True\<rparr>
      (confirmSwitch (\<lambda>i. ((True, 5), Cut_short)) 500 6000) (Some sample_profile) ''p1'' ''s2'' True ''a'' ex_recovery =
      Some (True, st', ''b'') \<and> StNode st' = ''s2''"
proof -
  have c: "confirmSwitch (\<lambda>i. ((True, 5), Cut_short)) 500 6000 = Some True"
    by (simp add: confirmSwitch_def confirm_loop.simps)
  obtain st' where s: "switchNode \<lparr>Reported = True, Took = True\<rparr> \<lparr>Reported = True, Took = True\<rparr>
      (confirmSwitch (\<lambda>i. ((True, 5), Cut_short)) 500 6000) (Some sample_profile) ''p1'' ''s2'' True ''a'' ex_recovery =
      Some (True, st', ''b'')"
    by (simp add: c switchNode_def liveSwitchTarget_def ex_recovery_def ex_live_def tag_at_def shape_has_def steer_def Let_def)
  from switch_confirmed_or_undone [OF _ s] s show ?thesis by auto
qed

lemma scan_picks_working_exit_witness:
  "\<exists>nid. scanForExit default_policy 5000 (\<lambda>tag t. Some 40) (\<lambda>n. 3) [''x'', ''y'', ''z''] (Some sample_profile) ''p1'' ''s1'' ex_recovery
      = Some nid \<and> nid \<noteq> ''s1''"
proof -
  have cands: "scanCandidates default_policy Map.empty (Some Map.empty) ex_live sample_profile ''s1'' (5000 - 600000) = [(''s2'', ''b'')]"
    by (simp add: scanCandidates_def sample_profile_fields scan_tag_def ex_live_def tag_at_def shape_has_def Let_def default_policy_def)
  define rs where "rs = measureCandidates (\<lambda>tag t. Some 40) (\<lambda>n. 3) [(''s2'', ''b'')] [''x'', ''y'', ''z'']"
  have "\<exists>r\<in>set rs. Usable r"
    by (simp add: rs_def measureCandidates_def measure_candidate_def Usable_def okCount_def Nodecheck.OK_def)
  with Best_usable_and_minimal [of rs "[]"] obtain b where "Best rs [] = Some b" by (cases "Best rs []") auto
  then have s: "scanForExit default_policy 5000 (\<lambda>tag t. Some 40) (\<lambda>n. 3) [''x'', ''y'', ''z''] (Some sample_profile) ''p1'' ''s1'' ex_recovery
      = Some (node_result.NodeID b)"
    using cands by (simp add: scanForExit_def ex_recovery_def Let_def rs_def default_policy_def) (simp add: ex_live_def)
  from scan_picks_working_exit [OF s] s show ?thesis by blast
qed

lemma watchdog_acts_on_failure_runs_witness:
  "healthWatch (effective_threshold 3) \<lparr>Fails = 0, WarnedNoAlt = False\<rparr>
     [Probe_ok, Probe_failed Reconnect Aborted, Probe_failed Reconnect Aborted, Probe_failed Succeeded Aborted] ! 3 = Acted"
proof -
  have "run_length (take (Suc 3) [Probe_ok, Probe_failed Reconnect Aborted, Probe_failed Reconnect Aborted, Probe_failed Succeeded Aborted]) = 3"
    by (simp add: run_length_def failed_tick_def eval_nat_numeral)
  then show ?thesis
    using watchdog_acts_on_failure_runs [of 3 "[Probe_ok, Probe_failed Reconnect Aborted, Probe_failed Reconnect Aborted,
        Probe_failed Succeeded Aborted]" "\<lparr>Fails = 0, WarnedNoAlt = False\<rparr>" 3]
    by (simp add: effective_threshold_def)
qed

end
