(* ===== verification/User_Proxy.thy ===== *)
theory User_Proxy
  imports Dns_Server
begin

text \<open>
  The operating system's proxy pointer of the interactive user: the lease that makes it undoable
  (\<^verbatim>\<open>core/control/user_proxy_lease.go\<close>), the session that owns it (\<^verbatim>\<open>core/control/session_proxy.go\<close>), the
  daemon's guard around it (\<^verbatim>\<open>core/control/proxy.go\<close>) and the lock file's policy
  (\<^verbatim>\<open>core/control/proxy_lock_policy.go\<close>).

  A user's world is the settings in force and the recorded lease.  Each call of the platform interface
  takes the next entry of a fault plan: it works, or it fails having written any subset of what it was to
  write, or it claims to have worked having written any subset.  An empty plan means no fault.
\<close>

unbundle bit_operations_syntax

section \<open>The lease\<close>

record proxy_settings =
  Flags :: int
  PxServer :: string
  Bypass :: string
  PAC :: string

record proxy_lease =
  Version :: int
  Before :: proxy_settings
  Applied :: proxy_settings
  Confirmed :: bool

datatype fault = Fine | Broken "bool list" | Silent "bool list"

record user_world =
  Settings :: proxy_settings
  Lease :: "proxy_lease option"
  Plan :: "fault list"

datatype proxy_error =
    Bad_target
  | Load_failed
  | Read_failed
  | Save_failed
  | Write_failed
  | Delete_failed
  | Not_in_effect
  | Invalid_record
  | Ambiguous
  | Joined proxy_error proxy_error
  | No_user
  | Session_gone

definition IsLoopback :: "nat list \<Rightarrow> bool" where
  "IsLoopback ip =
     (if length ip = 4 then ip ! 0 = 127
      else if take 12 ip = replicate 10 0 @ [255, 255] then ip ! 12 = 127
      else ip = replicate 15 0 @ [1])"

definition validUserProxyTarget :: "string \<Rightarrow> bool" where
  "validUserProxyTarget t =
     (case SplitHostPort t of
        None \<Rightarrow> False
      | Some (host, port) \<Rightarrow>
          (case (ParseIP host, atoi port) of
             (Some ip, Some p) \<Rightarrow> IsLoopback ip \<and> p > 0 \<and> p \<le> 65535
           | _ \<Rightarrow> False))"

definition draw_fault :: "user_world \<Rightarrow> fault \<times> user_world" where
  "draw_fault w = (case Plan w of [] \<Rightarrow> (Fine, w) | f # fs \<Rightarrow> (f, w\<lparr>Plan := fs\<rparr>))"

definition pick :: "bool list \<Rightarrow> nat \<Rightarrow> 'a \<Rightarrow> 'a \<Rightarrow> 'a" where
  "pick m i new old = (if i < length m \<and> m ! i then new else old)"

definition mix :: "bool list \<Rightarrow> proxy_settings \<Rightarrow> proxy_settings \<Rightarrow> proxy_settings" where
  "mix m new old = \<lparr>Flags = pick m 0 (Flags new) (Flags old), PxServer = pick m 1 (PxServer new) (PxServer old),
     Bypass = pick m 2 (Bypass new) (Bypass old), PAC = pick m 3 (PAC new) (PAC old)\<rparr>"

definition px_read :: "user_world \<Rightarrow> (proxy_error, proxy_settings) result \<times> user_world" where
  "px_read w = (let (f, w) = draw_fault w in (case f of Broken _ \<Rightarrow> Inl Read_failed | _ \<Rightarrow> Inr (Settings w), w))"

definition px_write :: "proxy_settings \<Rightarrow> user_world \<Rightarrow> proxy_error option \<times> user_world" where
  "px_write s w =
     (let (f, w) = draw_fault w
      in case f of
           Fine \<Rightarrow> (None, w\<lparr>Settings := s\<rparr>)
         | Broken m \<Rightarrow> (Some Write_failed, w\<lparr>Settings := mix m s (Settings w)\<rparr>)
         | Silent m \<Rightarrow> (None, w\<lparr>Settings := mix m s (Settings w)\<rparr>))"

definition px_load :: "user_world \<Rightarrow> (proxy_error, proxy_lease option) result \<times> user_world" where
  "px_load w = (let (f, w) = draw_fault w in (case f of Broken _ \<Rightarrow> Inl Load_failed | _ \<Rightarrow> Inr (Lease w), w))"

text \<open>A journal write is durable when it reports success; a failed one may have reached the registry.\<close>

definition px_save :: "proxy_lease \<Rightarrow> user_world \<Rightarrow> proxy_error option \<times> user_world" where
  "px_save l w =
     (let (f, w) = draw_fault w
      in case f of
           Broken m \<Rightarrow> (Some Save_failed, w\<lparr>Lease := pick m 0 (Some l) (Lease w)\<rparr>)
         | _ \<Rightarrow> (None, w\<lparr>Lease := Some l\<rparr>))"

definition px_delete :: "user_world \<Rightarrow> proxy_error option \<times> user_world" where
  "px_delete w =
     (let (f, w) = draw_fault w
      in case f of
           Broken m \<Rightarrow> (Some Delete_failed, w\<lparr>Lease := pick m 0 None (Lease w)\<rparr>)
         | _ \<Rightarrow> (None, w\<lparr>Lease := None\<rparr>))"

text \<open>The settings to restore: only fields that still hold what was applied go back.\<close>

definition undo :: "proxy_lease \<Rightarrow> proxy_settings \<Rightarrow> proxy_settings" where
  "undo l cur =
     \<lparr>Flags = (if Flags cur = Flags (Applied l) then Flags (Before l) else Flags cur),
      PxServer = (if PxServer cur = PxServer (Applied l) then PxServer (Before l) else PxServer cur),
      Bypass = (if Bypass cur = Bypass (Applied l) then Bypass (Before l) else Bypass cur),
      PAC = (if PAC cur = PAC (Applied l) then PAC (Before l) else PAC cur)\<rparr>"

definition restoreUserProxy :: "user_world \<Rightarrow> proxy_error option \<times> user_world" where
  "restoreUserProxy w =
     (case px_load w of
        (Inl e, w) \<Rightarrow> (Some e, w)
      | (Inr None, w) \<Rightarrow> (None, w)
      | (Inr (Some l), w) \<Rightarrow>
          if Version l \<noteq> 1 \<or> \<not> validUserProxyTarget (PxServer (Applied l)) then (Some Invalid_record, w)
          else
            (case px_read w of
               (Inl e, w) \<Rightarrow> (Some e, w)
             | (Inr cur, w) \<Rightarrow>
                 if PxServer cur \<noteq> PxServer (Applied l) then
                   if Confirmed l \<or> cur = Before l \<or> PxServer cur \<noteq> PxServer (Before l) then px_delete w
                   else (Some Ambiguous, w)
                 else
                   let want = undo l cur
                   in if want = cur then px_delete w
                      else
                        (case px_write want w of
                           (Some e, w) \<Rightarrow> (Some e, w)
                         | (None, w) \<Rightarrow>
                             (case px_read w of
                                (Inl e, w) \<Rightarrow> (Some e, w)
                              | (Inr got, w) \<Rightarrow> if got \<noteq> want then (Some Not_in_effect, w) else px_delete w))))"

definition join_error :: "proxy_error \<Rightarrow> proxy_error option \<Rightarrow> proxy_error" where
  "join_error e r = (case r of None \<Rightarrow> e | Some e' \<Rightarrow> Joined e e')"

definition rollback :: "proxy_error \<Rightarrow> user_world \<Rightarrow> proxy_error option \<times> user_world" where
  "rollback e w = (let (r, w) = restoreUserProxy w in (Some (join_error e r), w))"

definition wanted :: "string \<Rightarrow> proxy_settings" where
  "wanted t = \<lparr>Flags = 3, PxServer = t, Bypass = ''localhost;127.0.0.1;[::1]'', PAC = []\<rparr>"

definition apply_fresh :: "string \<Rightarrow> user_world \<Rightarrow> proxy_error option \<times> user_world" where
  "apply_fresh t w =
     (case px_read w of
        (Inl e, w) \<Rightarrow> (Some e, w)
      | (Inr before, w) \<Rightarrow>
          let want = wanted t;
              l = \<lparr>Version = 1, Before = before, Applied = want, Confirmed = False\<rparr>
          in case px_save l w of
               (Some e, w) \<Rightarrow> (Some e, w)
             | (None, w) \<Rightarrow>
                 (case px_write want w of
                    (Some e, w) \<Rightarrow> rollback e w
                  | (None, w) \<Rightarrow>
                      (case px_read w of
                         (Inl e, w) \<Rightarrow> rollback e w
                       | (Inr got, w) \<Rightarrow>
                           if got \<noteq> want then rollback Not_in_effect w
                           else
                             (case px_save (l\<lparr>Confirmed := True\<rparr>) w of
                                (Some e, w) \<Rightarrow> rollback e w
                              | (None, w) \<Rightarrow> (None, w)))))"

definition applyUserProxy :: "string \<Rightarrow> user_world \<Rightarrow> proxy_error option \<times> user_world" where
  "applyUserProxy t w =
     (if \<not> validUserProxyTarget t then (Some Bad_target, w)
      else
        (case px_load w of
           (Inl e, w) \<Rightarrow> (Some e, w)
         | (Inr None, w) \<Rightarrow> apply_fresh t w
         | (Inr (Some l), w) \<Rightarrow>
             (case px_read w of
                (Inl e, w) \<Rightarrow> (Some e, w)
              | (Inr cur, w) \<Rightarrow>
                  if Version l = 1 \<and> PxServer (Applied l) = t \<and> cur = Applied l then
                    if \<not> Confirmed l then px_save (l\<lparr>Confirmed := True\<rparr>) w else (None, w)
                  else
                    (case restoreUserProxy w of
                       (Some e, w) \<Rightarrow> (Some e, w)
                     | (None, w) \<Rightarrow> apply_fresh t w))))"

section \<open>The session that owns the lease\<close>

record proxy_user =
  SID :: string
  Session :: "32 word"

text \<open>
  The machine: each account's world, the account of the console session (if any) and which account a
  session belongs to.  A call on behalf of a user whose session is gone, or was reused by another account,
  is refused.
\<close>

record machine_users =
  World_of :: "string \<Rightarrow> user_world"
  Console :: "proxy_user option"
  SessionOf :: "32 word \<Rightarrow> string option"

record proxy_session =
  Owner :: "proxy_user option"
  Users :: machine_users

datatype proxy_action = Apply string | Restore

definition ps_Run :: "proxy_user \<Rightarrow> proxy_action \<Rightarrow> machine_users \<Rightarrow> proxy_error option \<times> machine_users" where
  "ps_Run u a mu =
     (if SessionOf mu (Session u) \<noteq> Some (SID u) then (Some Session_gone, mu)
      else
        let (r, w) = (case a of Apply t \<Rightarrow> applyUserProxy t (World_of mu (SID u))
                              | Restore \<Rightarrow> restoreUserProxy (World_of mu (SID u)))
        in (r, mu\<lparr>World_of := (World_of mu)(SID u := w)\<rparr>))"

definition ps_Enable :: "string \<Rightarrow> proxy_session \<Rightarrow> proxy_error option \<times> proxy_session" where
  "ps_Enable t p =
     (let run = (\<lambda>u p. let (r, mu) = ps_Run u (Apply t) (Users p) in (r, p\<lparr>Users := mu\<rparr>))
      in case Owner p of
           Some u \<Rightarrow> run u p
         | None \<Rightarrow>
             (case Console (Users p) of
                None \<Rightarrow> (Some No_user, p)
              | Some u \<Rightarrow> run u (p\<lparr>Owner := Some u\<rparr>)))"

definition ps_Disable :: "proxy_session \<Rightarrow> proxy_error option \<times> proxy_session" where
  "ps_Disable p =
     (case Owner p of
        None \<Rightarrow> (None, p)
      | Some u \<Rightarrow>
          (case ps_Run u Restore (Users p) of
             (None, mu) \<Rightarrow> (None, p\<lparr>Owner := None, Users := mu\<rparr>)
           | (Some e, mu) \<Rightarrow>
               (case Console mu of
                  None \<Rightarrow> (Some (Joined e No_user), p\<lparr>Users := mu\<rparr>)
                | Some cu \<Rightarrow>
                    if SID cu = [] \<or> SID cu \<noteq> SID u \<or> Session cu = Session u then (Some e, p\<lparr>Users := mu\<rparr>)
                    else
                      (case ps_Run cu Restore mu of
                         (None, mu) \<Rightarrow> (None, p\<lparr>Owner := None, Users := mu\<rparr>)
                       | (Some e', mu) \<Rightarrow> (Some (Joined e e'), p\<lparr>Owner := Some cu, Users := mu\<rparr>)))))"

definition ps_Reconcile :: "proxy_error option \<Rightarrow> proxy_session \<Rightarrow> (bool \<times> proxy_error option) \<times> proxy_session" where
  "ps_Reconcile leaseErr p =
     (if Owner p \<noteq> None then (let (r, p) = ps_Disable p in ((True, r), p))
      else
        (case Console (Users p) of
           None \<Rightarrow> ((False, Some No_user), p)
         | Some u \<Rightarrow>
             if leaseErr \<noteq> None then ((False, leaseErr), p)
             else if Lease (World_of (Users p) (SID u)) = None then ((False, None), p)
             else (let (r, p) = ps_Disable (p\<lparr>Owner := Some u\<rparr>) in ((True, r), p))))"

section \<open>The daemon's guard\<close>

record proxy_guard =
  PxArmed :: bool
  PxApplied :: bool
  PxTarget :: string
  PxSession :: proxy_session

definition disarmSystemProxy :: "proxy_guard \<Rightarrow> proxy_error option \<times> proxy_guard" where
  "disarmSystemProxy g =
     (let armed = PxArmed g; g = g\<lparr>PxApplied := False\<rparr>
      in if \<not> armed then (None, g)
         else
           (case ps_Disable (PxSession g) of
              (Some e, p) \<Rightarrow> (Some e, g\<lparr>PxSession := p\<rparr>)
            | (None, p) \<Rightarrow> (None, g\<lparr>PxSession := p, PxArmed := False, PxTarget := []\<rparr>)))"

definition armSystemProxy :: "string \<Rightarrow> proxy_guard \<Rightarrow> proxy_error option \<times> proxy_guard" where
  "armSystemProxy t g =
     (if PxApplied g \<and> PxTarget g = t then (None, g)
      else
        let (e, g) = (if PxArmed g then disarmSystemProxy g else (None, g))
        in case e of
             Some e \<Rightarrow> (Some e, g)
           | None \<Rightarrow>
               (case ps_Enable t (PxSession (g\<lparr>PxArmed := True\<rparr>)) of
                  (Some e, p) \<Rightarrow>
                    let (r, g) = disarmSystemProxy (g\<lparr>PxArmed := True, PxSession := p\<rparr>)
                    in (Some (join_error e r), g)
                | (None, p) \<Rightarrow> (None, g\<lparr>PxArmed := True, PxSession := p, PxApplied := True, PxTarget := t\<rparr>)))"

definition ReconcileSystemProxyAtStartup :: "proxy_error option \<Rightarrow> proxy_guard \<Rightarrow> (bool \<times> proxy_error option) \<times> proxy_guard" where
  "ReconcileSystemProxyAtStartup leaseErr g =
     (let ((found, err), p) = ps_Reconcile leaseErr (PxSession g);
          g = g\<lparr>PxSession := p\<rparr>
      in ((found \<and> err = None, err),
          if found then g\<lparr>PxArmed := (err \<noteq> None), PxApplied := False, PxTarget := []\<rparr> else g))"

definition normalizeHostPort :: "case_table \<Rightarrow> string \<Rightarrow> string" where
  "normalizeHostPort u s =
     (case SplitHostPort (trim_space s) of None \<Rightarrow> [] | Some (h, p) \<Rightarrow> to_lower u h @ '':'' @ p)"

definition sameProxyTarget :: "case_table \<Rightarrow> string \<Rightarrow> string \<Rightarrow> bool" where
  "sameProxyTarget u got want =
     (let g = normalizeHostPort u got in g \<noteq> [] \<and> g = normalizeHostPort u want)"

section \<open>The lock file's policy\<close>

definition ascii_letter :: "char \<Rightarrow> bool" where
  "ascii_letter c \<longleftrightarrow> c \<in> set ''ABCDEFGHIJKLMNOPQRSTUVWXYZabcdefghijklmnopqrstuvwxyz''"

definition backslash :: char where "backslash = CHR 0x5C"

definition trim_right_set :: "string \<Rightarrow> string \<Rightarrow> string" where
  "trim_right_set cs s = rev (dropWhile (\<lambda>c. c \<in> set cs) (rev s))"

definition device_names :: "string list" where
  "device_names = [''CON'', ''PRN'', ''AUX'', ''NUL'', ''CONIN$'', ''CONOUT$'']"

definition device_part :: "case_table \<Rightarrow> string \<Rightarrow> bool" where
  "device_part upper part =
     (let device = upper (takeWhile (\<lambda>c. c \<noteq> CHR ''.'') part)
      in device \<in> set device_names \<or>
         length device = 4 \<and> (has_prefix ''COM'' device \<or> has_prefix ''LPT'' device) \<and>
           device ! 3 \<in> set ''123456789'')"

datatype lock_path_error = Not_local | Ambiguous_path | Device_name

fun check_parts :: "case_table \<Rightarrow> string list \<Rightarrow> lock_path_error option" where
  "check_parts upper [] = None"
| "check_parts upper (part # parts) =
     (if part = [] \<or> part = ''.'' \<or> part = ''..'' \<or> trim_right_set ''. '' part \<noteq> part \<or>
         list_ex (\<lambda>c. c \<in> {CHR '':'', CHR ''/'', CHR 0x00}) part then Some Ambiguous_path
      else if device_part upper part then Some Device_name
      else check_parts upper parts)"

text \<open>\<open>upper\<close> is \<^verbatim>\<open>strings.ToUpper\<close>.\<close>

definition proxyLockNTPath :: "case_table \<Rightarrow> string \<Rightarrow> (lock_path_error, string) result" where
  "proxyLockNTPath upper path =
     (if length path < 4 \<or> \<not> ascii_letter (path ! 0) \<or> path ! 1 \<noteq> CHR '':'' \<or> path ! 2 \<noteq> backslash
      then Inl Not_local
      else case check_parts upper (split_on backslash (drop 3 path)) of
             Some e \<Rightarrow> Inl e
           | None \<Rightarrow> Inr ([backslash, CHR ''?'', CHR ''?'', backslash] @ path))"

record lock_grant =
  GrantSID :: string
  Mask :: "32 word"

record lock_node =
  Directory :: bool
  Reparse :: bool
  MultipleLinks :: bool
  NodeOwner :: string
  DACLPresent :: bool
  Protected :: bool
  Grants :: "lock_grant list"

definition trustedProxyLockSID :: "string \<Rightarrow> string \<Rightarrow> bool" where
  "trustedProxyLockSID sid user \<longleftrightarrow> sid \<noteq> [] \<and> (sid = user \<or> sid = ''S-1-5-18'' \<or> sid = ''S-1-5-32-544'')"

definition mutation :: "32 word" where
  "mutation = 0x2 OR 0x4 OR 0x10 OR 0x40 OR 0x100 OR 0x10000 OR 0x40000 OR 0x80000 OR 0x40000000 OR 0x10000000 OR 0x02000000"

datatype lock_node_error = Unexpected_type | Unsafe_owner | Foreign_access string

definition validateProxyLockNode :: "lock_node \<Rightarrow> string \<Rightarrow> bool \<Rightarrow> bool \<Rightarrow> lock_node_error option" where
  "validateProxyLockNode n user directory private =
     (if user = [] \<or> Directory n \<noteq> directory \<or> Reparse n \<or> (\<not> directory \<and> MultipleLinks n) then Some Unexpected_type
      else if \<not> trustedProxyLockSID (NodeOwner n) user \<or> \<not> DACLPresent n \<or> (private \<and> \<not> Protected n) then Some Unsafe_owner
      else map_option (\<lambda>g. Foreign_access (GrantSID g))
             (find (\<lambda>g. \<not> trustedProxyLockSID (GrantSID g) user \<and>
                        (private \<and> Mask g \<noteq> 0 \<or> Mask g AND mutation \<noteq> 0)) (Grants n)))"

end
