(* ===== verification/User_Proxy_Props.thy ===== *)
theory User_Proxy_Props
  imports User_Proxy
begin

text \<open>
  What the proxy lease guarantees, whatever call fails: no setting of the user is changed without a recorded
  way back, undoing never overwrites what somebody changed since, apply followed by restore is the
  identity on what was not edited, and one account's lease never reaches another account's settings.
\<close>

section \<open>Single calls\<close>

lemma draw_fault_keeps: "draw_fault w = (f, w') \<Longrightarrow> Settings w' = Settings w \<and> Lease w' = Lease w"
  by (auto simp: draw_fault_def split: list.splits)

lemma draw_fault_none: "Plan w = [] \<Longrightarrow> draw_fault w = (Fine, w)"
  by (simp add: draw_fault_def)

lemma px_readE:
  "px_read w = (r, w') \<Longrightarrow> Settings w' = Settings w \<and> Lease w' = Lease w \<and> (r = Inl Read_failed \<or> r = Inr (Settings w))"
  by (auto simp: px_read_def dest: draw_fault_keeps split: prod.splits fault.splits)

lemma px_loadE:
  "px_load w = (r, w') \<Longrightarrow> Settings w' = Settings w \<and> Lease w' = Lease w \<and> (r = Inl Load_failed \<or> r = Inr (Lease w))"
  by (auto simp: px_load_def dest: draw_fault_keeps split: prod.splits fault.splits)

lemma pick_cases: "pick m i a b = a \<or> pick m i a b = b"
  by (simp add: pick_def)

text \<open>Some mixture of the two settings, field by field.\<close>

definition between :: "proxy_settings \<Rightarrow> proxy_settings \<Rightarrow> proxy_settings \<Rightarrow> bool" where
  "between a b s \<longleftrightarrow> (Flags s = Flags a \<or> Flags s = Flags b) \<and> (PxServer s = PxServer a \<or> PxServer s = PxServer b) \<and>
     (Bypass s = Bypass a \<or> Bypass s = Bypass b) \<and> (PAC s = PAC a \<or> PAC s = PAC b)"

lemma between_mix: "between a b (mix m a b)"
  by (simp add: between_def mix_def pick_cases)

lemma between_refl [simp]: "between a b a" "between a b b"
  by (simp_all add: between_def)

lemma px_writeE:
  "px_write s w = (r, w') \<Longrightarrow> Lease w' = Lease w \<and> between s (Settings w) (Settings w')"
  by (auto simp: px_write_def between_mix dest: draw_fault_keeps split: prod.splits fault.splits)

lemma px_saveE:
  "px_save l w = (r, w') \<Longrightarrow> Settings w' = Settings w \<and> (Lease w' = Some l \<or> r \<noteq> None \<and> Lease w' = Lease w)"
  by (auto simp: px_save_def pick_def dest: draw_fault_keeps split: prod.splits fault.splits)

lemma px_deleteE:
  assumes "px_delete w = (r, w')"
  shows "Settings w' = Settings w \<and> (Lease w' = None \<or> r \<noteq> None \<and> Lease w' = Lease w)"
proof -
  obtain f w1 where f: "draw_fault w = (f, w1)" by fastforce
  show ?thesis
  proof (cases f)
    case (Broken m)
    then show ?thesis
      using assms draw_fault_keeps [OF f] pick_cases [of m 0 None "Lease w1"] by (auto simp: px_delete_def f)
  qed (use assms draw_fault_keeps [OF f] in \<open>auto simp: px_delete_def f\<close>)
qed

lemma settings_eqI:
  "Flags a = Flags b \<Longrightarrow> PxServer a = PxServer b \<Longrightarrow> Bypass a = Bypass b \<Longrightarrow> PAC a = PAC b \<Longrightarrow> (a :: proxy_settings) = b"
  by simp

section \<open>Restoring\<close>

text \<open>Where a restore may leave the settings, and when it may drop the lease.\<close>

definition restored_to :: "proxy_lease \<Rightarrow> proxy_settings \<Rightarrow> proxy_settings" where
  "restored_to l cur = (if PxServer cur = PxServer (Applied l) then undo l cur else cur)"

lemma restore_cases:
  assumes "restoreUserProxy w = (r, w')"
  shows "case Lease w of
      None \<Rightarrow> Settings w' = Settings w \<and> Lease w' = None
    | Some l \<Rightarrow>
        between (restored_to l (Settings w)) (Settings w) (Settings w') \<and>
        (Lease w' = Some l \<and> r \<noteq> None \<or>
         Lease w' = None \<and> Settings w' = restored_to l (Settings w) \<and>
           (PxServer (Settings w) = PxServer (Applied l) \<or> Confirmed l \<or> Settings w = Before l \<or>
            PxServer (Settings w) \<noteq> PxServer (Before l)))"
proof -
  obtain r1 w1 where 1: "px_load w = (r1, w1)" by fastforce
  note e1 = px_loadE [OF 1]
  show ?thesis
  proof (cases "r1 = Inr None \<or> r1 = Inl Load_failed \<or> Lease w = None")
    case True
    then show ?thesis using assms 1 e1 by (auto simp: restoreUserProxy_def split: option.splits)
  next
    case False
    then obtain l where l: "Lease w = Some l" "r1 = Inr (Some l)" using e1 by (cases "Lease w") auto
    obtain r2 w2 where 2: "px_read w1 = (r2, w2)" by fastforce
    note e2 = px_readE [OF 2]
    let ?cur = "Settings w" and ?want = "undo l (Settings w)"
    obtain rd wd where d: "px_delete w2 = (rd, wd)" by fastforce
    note ed = px_deleteE [OF d]
    obtain r3 w3 where 3: "px_write ?want w2 = (r3, w3)" by fastforce
    note e3 = px_writeE [OF 3]
    obtain r4 w4 where 4: "px_read w3 = (r4, w4)" by fastforce
    note e4 = px_readE [OF 4]
    obtain rd2 wd2 where d2: "px_delete w4 = (rd2, wd2)" by fastforce
    note ed2 = px_deleteE [OF d2]
    show ?thesis
    proof (cases "Version l \<noteq> 1 \<or> \<not> validUserProxyTarget (PxServer (Applied l)) \<or> r2 = Inl Read_failed")
      case True
      then have "w' = w1 \<and> r \<noteq> None \<or> w' = w2 \<and> r \<noteq> None"
        using assms 1 2 l by (auto simp: restoreUserProxy_def split: if_splits)
      then show ?thesis using l e1 e2 by auto
    next
      case ok: False
      then have r2: "r2 = Inr ?cur" using e1 e2 by auto
      show ?thesis
      proof (cases "PxServer ?cur = PxServer (Applied l)")
        case other: False
        then have "(r, w') = (if Confirmed l \<or> ?cur = Before l \<or> PxServer ?cur \<noteq> PxServer (Before l) then px_delete w2
            else (Some Ambiguous, w2))"
          using assms 1 2 l ok r2 by (simp add: restoreUserProxy_def)
        then show ?thesis using l other e1 e2 ed d by (auto simp: restored_to_def split: if_splits)
      next
        case same: True
        then have rw: "(r, w') = (if ?want = ?cur then px_delete w2
            else case (r3, w3) of (Some e, w) \<Rightarrow> (Some e, w)
              | (None, w) \<Rightarrow> (case (r4, w4) of (Inl e, w) \<Rightarrow> (Some e, w)
                  | (Inr got, w) \<Rightarrow> if got \<noteq> ?want then (Some Not_in_effect, w) else px_delete w4))"
          using assms 1 2 3 4 l ok r2 by (auto simp: restoreUserProxy_def Let_def split: option.splits sum.splits)
        show ?thesis
        proof (cases "?want = ?cur")
          case True
          then show ?thesis using rw l same e1 e2 ed d by (auto simp: restored_to_def)
        next
          case w: False
          consider "w' = w3" "r \<noteq> None" | "w' = w4" "r \<noteq> None" | "(r, w') = px_delete w4" "Settings w4 = ?want"
            using rw w e3 e4 by (auto split: option.splits sum.splits if_splits)
          then show ?thesis
            using l same e1 e2 e3 e4 ed2 d2 by cases (auto simp: restored_to_def)
        qed
      qed
    qed
  qed
qed

text \<open>C31. Undoing the proxy never overwrites what somebody changed since: whatever calls fail on the way, a
  restore moves a setting only if it still holds the value that was applied, and then only back to the value
  recorded before; if another server is set meanwhile nothing is touched; and the lease is given up only
  once the settings are where they belong.\<close>

theorem restore_keeps_later_edits:
  assumes "restoreUserProxy w = (r, w')" and "Lease w = Some l"
  shows "(\<forall>field\<in>{PxServer, Bypass, PAC}. field (Settings w') \<noteq> field (Settings w) \<longrightarrow>
       field (Settings w) = field (Applied l) \<and> field (Settings w') = field (Before l)) \<and>
    (Flags (Settings w') \<noteq> Flags (Settings w) \<longrightarrow>
       Flags (Settings w) = Flags (Applied l) \<and> Flags (Settings w') = Flags (Before l)) \<and>
    (PxServer (Settings w) \<noteq> PxServer (Applied l) \<longrightarrow> Settings w' = Settings w) \<and>
    (Lease w' \<noteq> Some l \<longrightarrow> Lease w' = None \<and> Settings w' = restored_to l (Settings w)) \<and>
    (r = None \<longrightarrow> Lease w' = None)"
proof -
  from restore_cases [OF assms(1)] assms(2) have b: "between (restored_to l (Settings w)) (Settings w) (Settings w')"
    and le: "Lease w' = Some l \<and> r \<noteq> None \<or> Lease w' = None \<and> Settings w' = restored_to l (Settings w)" by auto
  have eq: "PxServer (Settings w) \<noteq> PxServer (Applied l) \<Longrightarrow> Settings w' = Settings w"
    using b by (intro settings_eqI) (auto simp: between_def restored_to_def)
  show ?thesis
    using b le eq by (auto simp: between_def restored_to_def undo_def split: if_splits)
qed

section \<open>Applying\<close>

text \<open>Every change of the settings \<open>s0\<close> is undoable: either there is none, or the lease records \<open>s0\<close>.\<close>

definition recorded :: "proxy_settings \<Rightarrow> user_world \<Rightarrow> bool" where
  "recorded s0 w \<longleftrightarrow> Settings w = s0 \<or> (\<exists>l. Lease w = Some l \<and> Before l = s0)"

lemma rollback_recorded:
  assumes "rollback e w = (r, w')" and "Lease w = Some l" and "Before l = s0"
    and "between (Applied l) s0 (Settings w)" and "Confirmed l \<Longrightarrow> Settings w = Applied l"
  shows "recorded s0 w' \<and> r \<noteq> None"
proof -
  obtain r1 where r: "restoreUserProxy w = (r1, w')" "r \<noteq> None"
    using assms(1) by (auto simp: rollback_def split: prod.splits)
  from restore_cases [OF r(1)] assms(2) consider "Lease w' = Some l"
    | "Settings w' = restored_to l (Settings w)" "PxServer (Settings w) = PxServer (Applied l) \<or> Confirmed l \<or>
        Settings w = Before l \<or> PxServer (Settings w) \<noteq> PxServer (Before l)" by auto
  then show ?thesis
  proof cases
    case 1
    then show ?thesis using assms(3) r(2) by (auto simp: recorded_def)
  next
    case 2
    have "PxServer (Settings w) = PxServer (Applied l) \<Longrightarrow> undo l (Settings w) = s0"
      using assms(3,4) by (intro settings_eqI) (auto simp: undo_def between_def)
    moreover have "PxServer (Settings w) = PxServer (Applied l) \<or> Settings w = s0"
      using 2(2) assms(3,4,5) by (cases "Confirmed l") (auto simp: between_def)
    ultimately show ?thesis using 2(1) r(2) by (auto simp: recorded_def restored_to_def)
  qed
qed

lemma apply_fresh_cases:
  assumes "apply_fresh t w = (r, w')"
  shows "recorded (Settings w) w' \<or> Settings w' = Settings w"
    and "r = None \<Longrightarrow> Settings w' = wanted t \<and>
      Lease w' = Some \<lparr>Version = 1, Before = Settings w, Applied = wanted t, Confirmed = True\<rparr>"
proof -
  obtain r1 w1 where 1: "px_read w = (r1, w1)" by fastforce
  note e1 = px_readE [OF 1]
  let ?l = "\<lparr>Version = 1, Before = Settings w, Applied = wanted t, Confirmed = False\<rparr>"
  obtain r2 w2 where 2: "px_save ?l w1 = (r2, w2)" by fastforce
  note e2 = px_saveE [OF 2]
  obtain r3 w3 where 3: "px_write (wanted t) w2 = (r3, w3)" by fastforce
  note e3 = px_writeE [OF 3]
  obtain r4 w4 where 4: "px_read w3 = (r4, w4)" by fastforce
  note e4 = px_readE [OF 4]
  obtain r5 w5 where 5: "px_save (?l\<lparr>Confirmed := True\<rparr>) w4 = (r5, w5)" by fastforce
  note e5 = px_saveE [OF 5]
  have key: "(recorded (Settings w) w' \<or> Settings w' = Settings w) \<and>
    (r = None \<longrightarrow> Settings w' = wanted t \<and> Lease w' = Some (?l\<lparr>Confirmed := True\<rparr>))"
  proof (cases "r1 = Inl Read_failed")
    case True
    then show ?thesis using assms 1 e1 by (auto simp: apply_fresh_def)
  next
    case False
    then have r1: "r1 = Inr (Settings w)" using e1 by auto
    show ?thesis
    proof (cases r2)
      case (Some e)
      then show ?thesis using assms 1 2 r1 e1 e2 by (auto simp: apply_fresh_def Let_def)
    next
      case None
      then have l2: "Lease w2 = Some ?l" "Settings w2 = Settings w" using e1 e2 by auto
      have l3: "Lease w3 = Some ?l" "between (wanted t) (Settings w) (Settings w3)" using e3 l2 by auto
      show ?thesis
      proof (cases r3)
        case (Some e)
        then have "rollback e w3 = (r, w')" using assms 1 2 3 r1 None by (simp add: apply_fresh_def Let_def)
        from rollback_recorded [OF this l3(1)] l3(2) show ?thesis by auto
      next
        case r3: None
        have l4: "Lease w4 = Some ?l" "Settings w4 = Settings w3" using e4 l3 by auto
        show ?thesis
        proof (cases "r4 = Inr (wanted t)")
          case False
          then obtain e where "rollback e w4 = (r, w')"
            using assms 1 2 3 4 r1 None r3 e4 by (auto simp: apply_fresh_def Let_def split: if_splits)
          from rollback_recorded [OF this l4(1)] l3(2) l4(2) show ?thesis by auto
        next
          case True
          then have s4: "Settings w4 = wanted t" using e4 by auto
          show ?thesis
          proof (cases r5)
            case r5: None
            then show ?thesis using assms 1 2 3 4 5 r1 None r3 True e5 s4 l4
              by (auto simp: apply_fresh_def Let_def recorded_def)
          next
            case (Some e)
            then have rb: "rollback e w5 = (r, w')"
              using assms 1 2 3 4 5 r1 None r3 True by (simp add: apply_fresh_def Let_def)
            from e5 l4 obtain l where l: "Lease w5 = Some l" "Before l = Settings w" "Applied l = wanted t" by auto
            from rollback_recorded [OF rb l(1,2)] l(3) e5 s4 show ?thesis by auto
          qed
        qed
      qed
    qed
  qed
  then show "recorded (Settings w) w' \<or> Settings w' = Settings w"
    "r = None \<Longrightarrow> Settings w' = wanted t \<and>
      Lease w' = Some \<lparr>Version = 1, Before = Settings w, Applied = wanted t, Confirmed = True\<rparr>" by simp_all
qed

text \<open>Pointing the user's proxy at the tunnel is all or nothing, or on record: with no lease open, whatever
  calls fail and whatever a failed write left behind, success means that exactly the wanted settings are in
  force under a confirmed lease that remembers the original ones; and otherwise the original settings are
  either untouched, or recorded in the lease a later restore works from.\<close>

theorem apply_all_or_recorded:
  assumes "applyUserProxy t w = (r, w')" and "Lease w = None"
  shows "recorded (Settings w) w' \<and>
    (r = None \<longrightarrow> Settings w' = wanted t \<and>
       Lease w' = Some \<lparr>Version = 1, Before = Settings w, Applied = wanted t, Confirmed = True\<rparr>)"
proof (cases "validUserProxyTarget t")
  case False
  then show ?thesis using assms by (auto simp: applyUserProxy_def recorded_def)
next
  case True
  obtain r1 w1 where 1: "px_load w = (r1, w1)" by fastforce
  note e1 = px_loadE [OF 1]
  show ?thesis
  proof (cases "r1 = Inl Load_failed")
    case bad: True
    then show ?thesis using assms True 1 e1 by (auto simp: applyUserProxy_def recorded_def)
  next
    case False
    then have "apply_fresh t w1 = (r, w')" using assms True 1 e1 by (auto simp: applyUserProxy_def)
    from apply_fresh_cases [OF this] e1 show ?thesis by (auto simp: recorded_def)
  qed
qed

section \<open>Apply, edit, restore\<close>

lemma no_fault_calls:
  assumes "Plan w = []"
  shows "px_load w = (Inr (Lease w), w)" "px_read w = (Inr (Settings w), w)"
    "px_write s w = (None, w\<lparr>Settings := s\<rparr>)" "px_save l w = (None, w\<lparr>Lease := Some l\<rparr>)"
    "px_delete w = (None, w\<lparr>Lease := None\<rparr>)"
  using assms by (simp_all add: px_load_def px_read_def px_write_def px_save_def px_delete_def draw_fault_none)

lemma restore_no_fault:
  assumes "Plan w = []" "Lease w = Some l" "Version l = 1" "Confirmed l" "validUserProxyTarget (PxServer (Applied l))"
  shows "restoreUserProxy w = (None, w\<lparr>Settings := restored_to l (Settings w), Lease := None\<rparr>)"
  using assms by (cases w) (simp add: restoreUserProxy_def no_fault_calls Let_def restored_to_def)

text \<open>Apply, let the user or another tool edit anything, restore: without faults the result is the three-way
  merge.  If the server was repointed, the edited settings stay as they are; otherwise every setting that
  still holds what was applied is back at its original value and every edited one is kept.  Without edits
  the user gets exactly the original settings back.\<close>

theorem apply_edit_restore_merges:
  assumes "Plan w = []" and "Lease w = None" and "validUserProxyTarget t"
  shows "\<exists>w1. applyUserProxy t w = (None, w1) \<and> Settings w1 = wanted t \<and>
    (\<forall>edited. restoreUserProxy (w1\<lparr>Settings := edited\<rparr>) = (None, w\<lparr>Settings :=
       (if PxServer edited \<noteq> t then edited
        else \<lparr>Flags = (if Flags edited = 3 then Flags (Settings w) else Flags edited), PxServer = PxServer (Settings w),
               Bypass = (if Bypass edited = Bypass (wanted t) then Bypass (Settings w) else Bypass edited),
               PAC = (if PAC edited = [] then PAC (Settings w) else PAC edited)\<rparr>)\<rparr>)) \<and>
    restoreUserProxy w1 = (None, w)"
proof -
  let ?l = "\<lparr>Version = 1, Before = Settings w, Applied = wanted t, Confirmed = True\<rparr>"
  let ?w1 = "w\<lparr>Settings := wanted t, Lease := Some ?l\<rparr>"
  have a: "applyUserProxy t w = (None, ?w1)"
    using assms by (simp add: applyUserProxy_def apply_fresh_def no_fault_calls Let_def)
  have r: "restoreUserProxy (?w1\<lparr>Settings := edited\<rparr>) = (None, w\<lparr>Settings := restored_to ?l edited\<rparr>)" for edited
    using assms by (auto simp: restoreUserProxy_def no_fault_calls Let_def restored_to_def wanted_def)
  have m: "restored_to ?l edited = (if PxServer edited \<noteq> t then edited
      else \<lparr>Flags = (if Flags edited = 3 then Flags (Settings w) else Flags edited), PxServer = PxServer (Settings w),
             Bypass = (if Bypass edited = Bypass (wanted t) then Bypass (Settings w) else Bypass edited),
             PAC = (if PAC edited = [] then PAC (Settings w) else PAC edited)\<rparr>)" for edited
    by (simp add: restored_to_def undo_def wanted_def)
  have id: "restored_to ?l (wanted t) = Settings w" by (simp add: restored_to_def undo_def)
  have "restoreUserProxy ?w1 = (None, w)"
    using r [of "wanted t"] unfolding id using assms(2) by (cases w) simp
  then show ?thesis
    using a r by (intro exI [of _ ?w1]) (simp add: m)
qed

section \<open>One account's lease\<close>

lemma restore_done: "restoreUserProxy w = (None, w') \<Longrightarrow> Lease w' = None"
  using restore_cases [of w None w'] by (cases "Lease w") auto

lemma run_only_owner:
  "ps_Run u a mu = (r, mu') \<Longrightarrow> x \<noteq> SID u \<Longrightarrow> World_of mu' x = World_of mu x"
  "ps_Run u Restore mu = (None, mu') \<Longrightarrow> Lease (World_of mu' (SID u)) = None"
  "ps_Run u a mu = (r, mu') \<Longrightarrow> Console mu' = Console mu \<and> SessionOf mu' = SessionOf mu"
  by (auto simp: ps_Run_def restore_done split: if_splits prod.splits)

lemma disable_owner:
  assumes "ps_Disable p = (r, p')" and "Owner p = Some u"
  shows "(\<forall>x. x \<noteq> SID u \<longrightarrow> World_of (Users p') x = World_of (Users p) x) \<and>
    (case r of
       None \<Rightarrow> Owner p' = None \<and> Lease (World_of (Users p') (SID u)) = None
     | Some e \<Rightarrow> map_option SID (Owner p') = Some (SID u))"
proof -
  obtain r1 mu1 where 1: "ps_Run u Restore (Users p) = (r1, mu1)" by fastforce
  note o1 = run_only_owner(1) [OF 1]
  show ?thesis
  proof (cases r1)
    case None
    then show ?thesis using assms 1 o1 run_only_owner(2) [of u "Users p" mu1] by (auto simp: ps_Disable_def)
  next
    case (Some e)
    show ?thesis
    proof (cases "\<exists>cu. Console mu1 = Some cu \<and> SID cu \<noteq> [] \<and> SID cu = SID u \<and> Session cu \<noteq> Session u")
      case False
      then have "Owner p' = Some u" "Users p' = mu1" "r \<noteq> None"
        using assms 1 Some by (auto simp: ps_Disable_def split: option.splits if_splits)
      then show ?thesis using o1 by auto
    next
      case True
      then obtain cu where cu: "Console mu1 = Some cu" "SID cu \<noteq> []" "SID cu = SID u" "Session cu \<noteq> Session u" by blast
      obtain r2 mu2 where 2: "ps_Run cu Restore mu1 = (r2, mu2)" by fastforce
      note o2 = run_only_owner(1) [OF 2]
      have "r = (case r2 of None \<Rightarrow> None | Some e' \<Rightarrow> Some (Joined e e'))" "Users p' = mu2"
        "Owner p' = (case r2 of None \<Rightarrow> None | Some _ \<Rightarrow> Some cu)"
        using assms 1 2 Some cu by (auto simp: ps_Disable_def split: option.splits)
      then show ?thesis
        using o1 o2 run_only_owner(2) [of cu mu1 mu2] 2 cu(3) by (cases r2) auto
    qed
  qed
qed

text \<open>Clearing the system proxy acts for its owner alone: no other account's settings or lease are touched,
  even when the owner's session is gone and its account is logged on in another one.  A cleanup that
  succeeds leaves the guard unarmed, nobody owning it and no lease on that account; one that fails leaves the
  guard armed and the same account owning it, so that it can be tried again.\<close>

theorem disarm_acts_for_owner:
  assumes "disarmSystemProxy g = (r, g')" and "PxArmed g" and "Owner (PxSession g) = Some u"
  shows "(\<forall>x. x \<noteq> SID u \<longrightarrow> World_of (Users (PxSession g')) x = World_of (Users (PxSession g)) x) \<and>
    \<not> PxApplied g' \<and>
    (case r of
       None \<Rightarrow> \<not> PxArmed g' \<and> Owner (PxSession g') = None \<and> Lease (World_of (Users (PxSession g')) (SID u)) = None
     | Some e \<Rightarrow> PxArmed g' \<and> map_option SID (Owner (PxSession g')) = Some (SID u))"
proof -
  obtain r1 p1 where 1: "ps_Disable (PxSession g) = (r1, p1)" by fastforce
  from disable_owner [OF 1 assms(3)] show ?thesis
    using assms(1,2) 1 by (cases r1) (auto simp: disarmSystemProxy_def Let_def)
qed

section \<open>Concrete instances\<close>

definition ex_settings :: proxy_settings where
  "ex_settings = \<lparr>Flags = 9, PxServer = ''proxy.corp:8080'', Bypass = ''<local>'', PAC = ''http://corp/wpad''\<rparr>"

definition ex_user_world :: "fault list \<Rightarrow> user_world" where
  "ex_user_world fs = \<lparr>Settings = ex_settings, Lease = None, Plan = fs\<rparr>"

lemma ex_target: "validUserProxyTarget ''127.0.0.1:2080''"
  by code_simp

definition ex_applied :: user_world where
  "ex_applied = \<lparr>Settings = (wanted ''127.0.0.1:2080'')\<lparr>PAC := ''http://mine/pac''\<rparr>,
     Lease = Some \<lparr>Version = 1, Before = ex_settings, Applied = wanted ''127.0.0.1:2080'', Confirmed = True\<rparr>, Plan = []\<rparr>"

lemma restore_keeps_later_edits_witness:
  "\<exists>w'. restoreUserProxy ex_applied = (None, w') \<and> Lease w' = None"
proof -
  obtain r w' where s: "restoreUserProxy ex_applied = (r, w')" by fastforce
  have l: "Lease ex_applied = Some \<lparr>Version = 1, Before = ex_settings, Applied = wanted ''127.0.0.1:2080'', Confirmed = True\<rparr>"
    by (simp add: ex_applied_def)
  have r: "r = None"
    using s restore_no_fault [OF _ l] by (simp add: ex_applied_def wanted_def ex_target)
  note c = restore_keeps_later_edits [OF s l]
  have "Lease w' = None" using c r by blast
  then show ?thesis using s r by (intro exI [of _ w']) simp
qed

lemma apply_all_or_recorded_witness:
  "\<exists>r w'. applyUserProxy ''127.0.0.1:2080'' (ex_user_world [Fine, Fine, Fine, Broken [True, False], Broken []]) = (r, w') \<and>
     recorded ex_settings w'"
proof -
  obtain r w' where s: "applyUserProxy ''127.0.0.1:2080'' (ex_user_world [Fine, Fine, Fine, Broken [True, False], Broken []]) = (r, w')"
    by fastforce
  from apply_all_or_recorded [OF s] show ?thesis using s by (auto simp: ex_user_world_def)
qed

lemma apply_edit_restore_merges_witness:
  "\<exists>w1. applyUserProxy ''127.0.0.1:2080'' (ex_user_world []) = (None, w1) \<and> restoreUserProxy w1 = (None, ex_user_world [])"
  using apply_edit_restore_merges [of "ex_user_world []" "''127.0.0.1:2080''"] ex_target by (auto simp: ex_user_world_def)

definition ex_guard :: proxy_guard where
  "ex_guard = \<lparr>PxArmed = True, PxApplied = True, PxTarget = ''127.0.0.1:2080'',
     PxSession = \<lparr>Owner = Some \<lparr>SID = ''S-1-5-21-1'', Session = 1\<rparr>,
       Users = \<lparr>World_of = \<lambda>_. ex_applied, Console = None, SessionOf = [1 \<mapsto> ''S-1-5-21-1'']\<rparr>\<rparr>\<rparr>"

lemma disarm_acts_for_owner_witness:
  "\<exists>r g'. disarmSystemProxy ex_guard = (r, g') \<and> \<not> PxApplied g' \<and>
     World_of (Users (PxSession g')) ''S-1-5-21-2'' = ex_applied"
proof -
  obtain r g' where s: "disarmSystemProxy ex_guard = (r, g')" by fastforce
  from disarm_acts_for_owner [OF s, of "\<lparr>SID = ''S-1-5-21-1'', Session = 1\<rparr>"] s show ?thesis by (auto simp: ex_guard_def)
qed

end
