(* ===== verification/Go_Url.thy ===== *)
theory Go_Url
  imports Dns_Server
begin

text \<open>
  What the core uses of \<^verbatim>\<open>net/url\<close>, \<^verbatim>\<open>net/netip\<close> and \<^verbatim>\<open>encoding/base64\<close>: parsing a URL, percent-decoding,
  query parameters, address literals with zones and the padded standard alphabet.  Strings are Go's byte
  strings; an error is \<open>None\<close>, its text is not modelled.
\<close>

section \<open>Cutting\<close>

text \<open>\<^verbatim>\<open>strings.Cut\<close> at a byte: before, after, and whether it was found.\<close>

definition cut :: "char \<Rightarrow> string \<Rightarrow> string \<times> string \<times> bool" where
  "cut c s =
     (case index_byte c s of
        None \<Rightarrow> (s, [], False)
      | Some i \<Rightarrow> (take i s, drop (i + 1) s, True))"

text \<open>\<^verbatim>\<open>strings.Trim\<close> with a set of ASCII bytes.\<close>

definition trim_set :: "string \<Rightarrow> string \<Rightarrow> string" where
  "trim_set cs s = rev (dropWhile (\<lambda>c. c \<in> set cs) (rev (dropWhile (\<lambda>c. c \<in> set cs) s)))"

lemma cut_hit: "c \<notin> set a \<Longrightarrow> cut c (a @ c # b) = (a, b, True)"
  by (induction a) (auto simp: cut_def index_byte_def split: option.splits)

lemma cut_miss: "c \<notin> set a \<Longrightarrow> cut c a = (a, [], False)"
proof -
  assume "c \<notin> set a"
  then have "index_byte c a = None" by (auto simp: index_byte_def)
  then show ?thesis by (simp add: cut_def)
qed

section \<open>Percent-decoding\<close>

datatype url_mode = In_path | In_host | In_zone | In_userinfo | In_query | In_fragment

definition letter_or_digit :: "char \<Rightarrow> bool" where
  "letter_or_digit c \<longleftrightarrow>
     (let n = (of_char c :: nat)
      in 97 \<le> n \<and> n \<le> 122 \<or> 65 \<le> n \<and> n \<le> 90 \<or> 48 \<le> n \<and> n \<le> 57)"

text \<open>\<^verbatim>\<open>shouldEscape\<close> for hosts and zones, the modes \<^verbatim>\<open>unescape\<close> asks it for.\<close>

definition host_char :: "char \<Rightarrow> bool" where
  "host_char c \<longleftrightarrow> letter_or_digit c \<or> c \<in> set ''!$&()*+,;=:[]<>-_.~'' \<or> c = CHR 0x22 \<or> c = CHR 0x27"

definition hex_pair :: "char \<Rightarrow> char \<Rightarrow> nat option" where
  "hex_pair a b =
     (case (hex_val a, hex_val b) of (Some x, Some y) \<Rightarrow> Some (16 * x + y) | _ \<Rightarrow> None)"

definition escape_ok :: "url_mode \<Rightarrow> char \<Rightarrow> char \<Rightarrow> nat \<Rightarrow> bool" where
  "escape_ok m a b v \<longleftrightarrow>
     (m = In_host \<longrightarrow> v \<ge> 128 \<or> [a, b] = ''25'') \<and>
     (m = In_zone \<longrightarrow> [a, b] = ''25'' \<or> v = 32 \<or> host_char (char_of v))"

fun unescape :: "url_mode \<Rightarrow> string \<Rightarrow> string option" where
  "unescape m [] = Some []"
| "unescape m (c # s) =
     (if c = CHR ''%'' then
        (case s of
           a # b # s' \<Rightarrow>
             (case hex_pair a b of
                None \<Rightarrow> None
              | Some v \<Rightarrow> if escape_ok m a b v then map_option ((#) (char_of v)) (unescape m s') else None)
         | _ \<Rightarrow> None)
      else if (m = In_host \<or> m = In_zone) \<and> ascii c \<and> \<not> host_char c then None
      else map_option ((#) (if c = CHR ''+'' \<and> m = In_query then CHR '' '' else c)) (unescape m s))"

section \<open>Address literals\<close>

text \<open>\<^verbatim>\<open>netip.ParseAddr\<close>: the bytes (four or sixteen) and the zone.\<close>

definition ParseAddr :: "string \<Rightarrow> (nat list \<times> string) option" where
  "ParseAddr s =
     (case find (\<lambda>c. c = CHR ''.'' \<or> c = CHR '':'' \<or> c = CHR ''%'') s of
        None \<Rightarrow> None
      | Some c \<Rightarrow>
          if c = CHR ''.'' then map_option (\<lambda>a. (a, [])) (parse_v4 s)
          else if c = CHR '':'' then
            (let (a, z, found) = cut (CHR ''%'') s
             in if found \<and> z = [] then None else map_option (\<lambda>b. (b, z)) (parse_v6 a))
          else None)"

definition IsUnspecified :: "nat list \<Rightarrow> bool" where
  "IsUnspecified ip \<longleftrightarrow> ip = replicate 4 0 \<or> ip = replicate 16 0"

definition mapped_v4 :: "nat list \<Rightarrow> bool" where
  "mapped_v4 ip \<longleftrightarrow> length ip = 16 \<and> take 12 ip = replicate 10 0 @ [255, 255]"

definition IsMulticast :: "nat list \<Rightarrow> bool" where
  "IsMulticast ip0 \<longleftrightarrow>
     (let ip = (if mapped_v4 ip0 then drop 12 ip0 else ip0)
      in if length ip = 4 then ip ! 0 div 16 = 14 else ip ! 0 = 255)"

section \<open>The parts of a URL\<close>

record url =
  UScheme :: string
  UOpaque :: string
  UUser :: "(string \<times> string option) option"
  UHost :: string
  UPath :: string
  URawQuery :: string
  UFragment :: string

definition zero_url :: url where
  "zero_url = \<lparr>UScheme = [], UOpaque = [], UUser = None, UHost = [], UPath = [], URawQuery = [], UFragment = []\<rparr>"

text \<open>\<^verbatim>\<open>getScheme\<close>: the scheme and the rest, or an error for a colon in front.\<close>

fun scheme_loop :: "bool \<Rightarrow> string \<Rightarrow> string option" where
  "scheme_loop start [] = Some []"
| "scheme_loop start (c # s) =
     (if c = CHR '':'' then (if start then None else Some '':'')
      else if letter_or_digit c \<and> \<not> is_digit c \<or> (is_digit c \<or> c \<in> set ''+-.'') \<and> \<not> start
      then map_option ((#) c) (scheme_loop False s)
      else Some [])"

definition get_scheme :: "string \<Rightarrow> (string \<times> string) option" where
  "get_scheme s =
     (case scheme_loop True s of
        None \<Rightarrow> None
      | Some p \<Rightarrow>
          if p \<noteq> [] \<and> last p = CHR '':'' then Some (butlast p, drop (length p) s) else Some ([], s))"

definition validOptionalPort :: "string \<Rightarrow> bool" where
  "validOptionalPort p \<longleftrightarrow> p = [] \<or> hd p = CHR '':'' \<and> list_all is_digit (tl p)"

text \<open>\<^verbatim>\<open>parseHost\<close>: a bracketed literal is an IPv6 address, possibly with a zone.\<close>

definition parse_host :: "string \<Rightarrow> string option" where
  "parse_host h =
     (case last_index (CHR ''['') h of
        Some i \<Rightarrow>
          (if i > 0 then None
           else case last_index (CHR '']'') h of
                  None \<Rightarrow> None
                | Some j \<Rightarrow>
                    let port = drop (j + 1) h; inside = take (j - 1) (drop 1 h)
                    in if \<not> validOptionalPort port then None
                       else
                         (case (case index_str ''%25'' inside of
                                  None \<Rightarrow> unescape In_host inside
                                | Some z \<Rightarrow>
                                    (case (unescape In_host (take z inside), unescape In_zone (drop z inside)) of
                                       (Some a, Some b) \<Rightarrow> Some (a @ b) | _ \<Rightarrow> None)) of
                            None \<Rightarrow> None
                          | Some name \<Rightarrow>
                              (case ParseAddr name of
                                 None \<Rightarrow> None
                               | Some (a, _) \<Rightarrow>
                                   if length a = 4 then None
                                   else map_option (\<lambda>p. ''['' @ name @ '']'' @ p) (unescape In_host port))))
      | None \<Rightarrow>
          (case last_index (CHR '':'') h of
             Some i \<Rightarrow> if validOptionalPort (drop i h) then unescape In_host h else None
           | None \<Rightarrow> unescape In_host h))"

definition valid_userinfo :: "string \<Rightarrow> bool" where
  "valid_userinfo s \<longleftrightarrow> list_all (\<lambda>c. letter_or_digit c \<or> c \<in> set ''-._:~!$&()*+,;=%@'' \<or> c = CHR 0x27) s"

definition parse_userinfo :: "string \<Rightarrow> (string \<times> string option) option" where
  "parse_userinfo s =
     (if \<not> valid_userinfo s then None
      else let (a, b, found) = cut (CHR '':'') s
           in if \<not> found then map_option (\<lambda>x. (x, None)) (unescape In_userinfo s)
              else (case (unescape In_userinfo a, unescape In_userinfo b) of
                      (Some x, Some y) \<Rightarrow> Some (x, Some y) | _ \<Rightarrow> None))"

definition parse_authority :: "string \<Rightarrow> ((string \<times> string option) option \<times> string) option" where
  "parse_authority a =
     (case last_index (CHR ''@'') a of
        None \<Rightarrow> map_option (\<lambda>h. (None, h)) (parse_host a)
      | Some i \<Rightarrow>
          (case parse_host (drop (i + 1) a) of
             None \<Rightarrow> None
           | Some h \<Rightarrow> map_option (\<lambda>u. (Some u, h)) (parse_userinfo (take i a))))"

definition control_char :: "char \<Rightarrow> bool" where
  "control_char c \<longleftrightarrow> (of_char c :: nat) < 32 \<or> (of_char c :: nat) = 127"

text \<open>\<^verbatim>\<open>url.Parse\<close> before the fragment: a trailing lone question mark is no query.\<close>

definition cut_query :: "string \<Rightarrow> string \<times> string" where
  "cut_query rest =
     (if rest \<noteq> [] \<and> last rest = CHR ''?'' \<and> CHR ''?'' \<notin> set (butlast rest) then (butlast rest, [])
      else let (a, q, _) = cut (CHR ''?'') rest in (a, q))"

definition parse_no_fragment :: "case_table \<Rightarrow> string \<Rightarrow> url option" where
  "parse_no_fragment u s =
     (if list_ex control_char s then None
      else if s = ''*'' then Some (zero_url\<lparr>UPath := ''*''\<rparr>)
      else case get_scheme s of
             None \<Rightarrow> None
           | Some (scheme0, rest0) \<Rightarrow>
               let scheme = to_lower u scheme0; (rest, query) = cut_query rest0;
                   base = zero_url\<lparr>UScheme := scheme, URawQuery := query\<rparr>
               in if \<not> has_prefix ''/'' rest \<and> scheme \<noteq> [] then Some (base\<lparr>UOpaque := rest\<rparr>)
                  else if \<not> has_prefix ''/'' rest \<and> CHR '':'' \<in> set (fst (cut (CHR ''/'') rest)) then None
                  else if (scheme \<noteq> [] \<or> \<not> has_prefix ''///'' rest) \<and> has_prefix ''//'' rest then
                    (let (auth, _, _) = cut (CHR ''/'') (drop 2 rest); path = drop (2 + length auth) rest
                     in case parse_authority auth of
                          None \<Rightarrow> None
                        | Some (user, host) \<Rightarrow>
                            map_option (\<lambda>p. base\<lparr>UUser := user, UHost := host, UPath := p\<rparr>) (unescape In_path path))
                  else map_option (\<lambda>p. base\<lparr>UPath := p\<rparr>) (unescape In_path rest))"

definition url_parse :: "case_table \<Rightarrow> string \<Rightarrow> url option" where
  "url_parse u s =
     (let (a, frag, _) = cut (CHR ''#'') s
      in case parse_no_fragment u a of
           None \<Rightarrow> None
         | Some r \<Rightarrow> map_option (\<lambda>f. r\<lparr>UFragment := f\<rparr>) (unescape In_fragment frag))"

definition Username :: "url \<Rightarrow> string" where
  "Username r = (case UUser r of None \<Rightarrow> [] | Some (n, _) \<Rightarrow> n)"

definition Password_of :: "url \<Rightarrow> string option" where
  "Password_of r = (case UUser r of None \<Rightarrow> None | Some (_, p) \<Rightarrow> p)"

definition Hostname :: "url \<Rightarrow> string" where
  "Hostname r =
     (let hp = UHost r;
          h = (case last_index (CHR '':'') hp of
                 Some i \<Rightarrow> if validOptionalPort (drop i hp) then take i hp else hp
               | None \<Rightarrow> hp)
      in strip_brackets h)"

section \<open>Query parameters\<close>

text \<open>\<^verbatim>\<open>url.ParseQuery\<close>: the decoded pairs in order, and whether every one was well formed.\<close>

fun query_pairs :: "string list \<Rightarrow> (string \<times> string) list \<times> bool" where
  "query_pairs [] = ([], True)"
| "query_pairs (kv # kvs) =
     (let (rest, ok) = query_pairs kvs
      in if CHR '';'' \<in> set kv then (rest, False)
         else if kv = [] then (rest, ok)
         else let (k, v, _) = cut (CHR ''='') kv
              in case (unescape In_query k, unescape In_query v) of
                   (Some k', Some v') \<Rightarrow> ((k', v') # rest, ok)
                 | _ \<Rightarrow> (rest, False))"

definition ParseQuery :: "string \<Rightarrow> (string \<times> string) list \<times> bool" where
  "ParseQuery q = query_pairs (split_on (CHR ''&'') q)"

definition q_get :: "(string \<times> string) list \<Rightarrow> string \<Rightarrow> string" where
  "q_get q k = (case map_of q k of None \<Rightarrow> [] | Some v \<Rightarrow> v)"

definition Query :: "url \<Rightarrow> (string \<times> string) list" where
  "Query r = fst (ParseQuery (URawQuery r))"

section \<open>Base64\<close>

definition b64_alphabet :: string where
  "b64_alphabet = ''ABCDEFGHIJKLMNOPQRSTUVWXYZabcdefghijklmnopqrstuvwxyz0123456789+/''"

definition b64_val :: "char \<Rightarrow> nat option" where
  "b64_val c = find_index (\<lambda>x. x = c) b64_alphabet"

text \<open>\<^verbatim>\<open>base64.StdEncoding.DecodeString\<close> on a text without line breaks.\<close>

fun b64_decode :: "string \<Rightarrow> string option" where
  "b64_decode [] = Some []"
| "b64_decode (a # b # c # d # s) =
     (case (b64_val a, b64_val b) of
        (Some x, Some y) \<Rightarrow>
          (if c = CHR ''='' then
             (if d = CHR ''='' \<and> s = [] then Some [char_of (4 * x + y div 16)] else None)
           else case b64_val c of
                  None \<Rightarrow> None
                | Some z \<Rightarrow>
                    if d = CHR ''='' then
                      (if s = [] then Some [char_of (4 * x + y div 16), char_of (16 * (y mod 16) + z div 4)] else None)
                    else (case b64_val d of
                            None \<Rightarrow> None
                          | Some w \<Rightarrow>
                              map_option (\<lambda>r. char_of (4 * x + y div 16) # char_of (16 * (y mod 16) + z div 4) #
                                  char_of (64 * (z mod 4) + w) # r)
                                (b64_decode s)))
      | _ \<Rightarrow> None)"
| "b64_decode _ = None"

end
