(* ===== verification/Links.thy ===== *)
theory Links
  imports Go_Url Node_Model
begin

text \<open>
  Share links (\<^verbatim>\<open>core/subscription/subscription.go\<close>, \<^verbatim>\<open>links.go\<close> and the \<^verbatim>\<open>link_*.go\<close> parsers): one
  link of each protocol to a node, and a pasted block of them.  \<^verbatim>\<open>encoding/json\<close> on a vmess payload is the
  argument \<open>js\<close>.
\<close>

section \<open>Errors and small helpers\<close>

datatype host_port_error = Empty_authority | Not_host_port | Empty_host | Invalid_port

datatype link_error =
    Empty_link
  | Missing_scheme
  | Unsupported_scheme string
  | Malformed_url
  | Missing_credential
  | Bad_authority host_port_error
  | Malformed_credentials
  | Bad_base64
  | Bad_json
  | Missing_address
  | Bad_port

text \<open>\<^verbatim>\<open>hostPort\<close>.\<close>

definition hostPort :: "string \<Rightarrow> (host_port_error, string \<times> int) result" where
  "hostPort authority =
     (if authority = [] then Inl Empty_authority
      else case SplitHostPort authority of
             None \<Rightarrow> Inl Not_host_port
           | Some (h, p) \<Rightarrow>
               let host = trim_set ''[]'' h
               in if host = [] then Inl Empty_host
                  else case atoi p of
                         None \<Rightarrow> Inl Invalid_port
                       | Some port \<Rightarrow> if port \<le> 0 \<or> port > 65535 then Inl Invalid_port else Inr (host, port))"

text \<open>\<^verbatim>\<open>fragmentName\<close>: the fragment of the parsed URL, decoded once more where that works.\<close>

definition fragmentName :: "url \<Rightarrow> string" where
  "fragmentName r =
     (if UFragment r = [] then []
      else case unescape In_path (UFragment r) of Some d \<Rightarrow> d | None \<Rightarrow> UFragment r)"

definition splitALPN :: "string \<Rightarrow> string list" where
  "splitALPN v = (if v = [] then [] else filter (\<lambda>p. p \<noteq> []) (map trim_space (split_on (CHR '','') v)))"

definition b64_normal :: "char \<Rightarrow> char" where
  "b64_normal c = (if c = CHR ''-'' then CHR ''+'' else if c = CHR ''_'' then CHR ''/'' else c)"

definition decodeBase64 :: "string \<Rightarrow> string option" where
  "decodeBase64 s0 =
     (let s = filter (\<lambda>c. c \<notin> {CHR 0x0A, CHR 0x0D, CHR '' '', CHR 0x09}) (map b64_normal (trim_space s0));
          m = length s mod 4
      in b64_decode (s @ (if m \<noteq> 0 then replicate (4 - m) (CHR ''='') else [])))"

definition isTruthy :: "case_table \<Rightarrow> string \<Rightarrow> bool" where
  "isTruthy u s \<longleftrightarrow> to_lower u (trim_space s) \<in> {''1'', ''true'', ''yes'', ''on''}"

text \<open>
  \<^verbatim>\<open>strings.EqualFold\<close> against a lower-case ASCII word: besides the capitals, the long s and the Kelvin sign
  fold to letters of it.
\<close>

fun equal_fold :: "string \<Rightarrow> string \<Rightarrow> bool" where
  "equal_fold s [] = (s = [])"
| "equal_fold s (w # ws) =
     ((s \<noteq> [] \<and> ascii_lower (hd s) = w \<and> equal_fold (tl s) ws) \<or>
      (w = CHR ''s'' \<and> has_prefix [CHR 0xC5, CHR 0xBF] s \<and> equal_fold (drop 2 s) ws) \<or>
      (w = CHR ''k'' \<and> has_prefix [CHR 0xE2, CHR 0x84, CHR 0xAA] s \<and> equal_fold (drop 3 s) ws))"

declare equal_fold.simps(2) [simp del]

section \<open>Transport and TLS parameters\<close>

definition buildTransport :: "case_table \<Rightarrow> (string \<times> string) list \<Rightarrow> transport option" where
  "buildTransport u q =
     (let ty = to_lower u (q_get q ''type'')
      in if ty \<in> {[], ''tcp'', ''raw'', ''none''} then None
         else if ty \<in> {''ws'', ''websocket''} then
           Some (zero_transport\<lparr>TrType := ''ws'', TrPath := q_get q ''path'', TrHost := q_get q ''host''\<rparr>)
         else if ty = ''grpc'' then
           Some (zero_transport\<lparr>TrType := ''grpc'', TrServiceName := q_get q ''serviceName''\<rparr>)
         else if ty \<in> {''http'', ''h2''} then
           Some (zero_transport\<lparr>TrType := ''http'', TrPath := q_get q ''path'', TrHost := q_get q ''host''\<rparr>)
         else if ty = ''httpupgrade'' then
           Some (zero_transport\<lparr>TrType := ''httpupgrade'', TrPath := q_get q ''path'', TrHost := q_get q ''host''\<rparr>)
         else Some \<lparr>TrType = ty, TrPath = q_get q ''path'', TrHost = q_get q ''host'',
                    TrServiceName = q_get q ''serviceName''\<rparr>)"

definition buildTLS :: "(string \<times> string) list \<Rightarrow> bool \<Rightarrow> tls" where
  "buildTLS q is_reality =
     zero_tls\<lparr>Enabled := True,
       ServerName := (if q_get q ''sni'' = [] then q_get q ''peer'' else q_get q ''sni''),
       Fingerprint := q_get q ''fp'',
       ALPN := splitALPN (q_get q ''alpn''),
       Reality := (if is_reality
         then Some \<lparr>PublicKey = q_get q ''pbk'', ShortID = q_get q ''sid'', SpiderX = q_get q ''spx''\<rparr> else None)\<rparr>"

definition userinfoSecret :: "url \<Rightarrow> string" where
  "userinfoSecret r = (case Password_of r of Some p \<Rightarrow> p | None \<Rightarrow> Username r)"

section \<open>One parser per protocol\<close>

definition parseVLESS :: "case_table \<Rightarrow> string \<Rightarrow> (link_error, node) result" where
  "parseVLESS u raw =
     (case url_parse u raw of
        None \<Rightarrow> Inl Malformed_url
      | Some r \<Rightarrow>
          if Username r = [] then Inl Missing_credential
          else case hostPort (UHost r) of
                 Inl e \<Rightarrow> Inl (Bad_authority e)
               | Inr (host, port) \<Rightarrow>
                   let q = Query r; sec = to_lower u (q_get q ''security'')
                   in Inr (zero_node\<lparr>Protocol := VLESS, Name := fragmentName r, Server := host, Port := port,
                        UUID := Username r, Flow := q_get q ''flow'',
                        Transport := buildTransport u q,
                        TLS := (if sec = ''tls'' then Some (buildTLS q False)
                                else if sec = ''reality'' then Some (buildTLS q True) else None)\<rparr>))"

definition parseTrojan :: "case_table \<Rightarrow> string \<Rightarrow> (link_error, node) result" where
  "parseTrojan u raw =
     (case url_parse u raw of
        None \<Rightarrow> Inl Malformed_url
      | Some r \<Rightarrow>
          if userinfoSecret r = [] then Inl Missing_credential
          else case hostPort (UHost r) of
                 Inl e \<Rightarrow> Inl (Bad_authority e)
               | Inr (host, port) \<Rightarrow>
                   let q = Query r
                   in Inr (zero_node\<lparr>Protocol := Trojan, Name := fragmentName r, Server := host, Port := port,
                        Password := userinfoSecret r,
                        Transport := buildTransport u q,
                        TLS := Some (zero_tls\<lparr>Enabled := True, ServerName := q_get q ''sni'',
                          Insecure := isTruthy u (q_get q ''allowInsecure''), ALPN := splitALPN (q_get q ''alpn'')\<rparr>)\<rparr>))"

definition parseHysteria2 :: "case_table \<Rightarrow> string \<Rightarrow> (link_error, node) result" where
  "parseHysteria2 u raw =
     (case url_parse u raw of
        None \<Rightarrow> Inl Malformed_url
      | Some r \<Rightarrow>
          (case hostPort (UHost r) of
             Inl e \<Rightarrow> Inl (Bad_authority e)
           | Inr (host, port) \<Rightarrow>
               if userinfoSecret r = [] then Inl Missing_credential
               else
                 let q = Query r
                 in Inr (zero_node\<lparr>Protocol := Hysteria2, Name := fragmentName r, Server := host, Port := port,
                      Password := userinfoSecret r,
                      TLS := Some (zero_tls\<lparr>Enabled := True, ServerName := q_get q ''sni'',
                        Insecure := isTruthy u (q_get q ''insecure''), ALPN := splitALPN (q_get q ''alpn'')\<rparr>),
                      Obfs := (if to_lower u (q_get q ''obfs'') = ''salamander''
                        then Some \<lparr>ObfsType = ''salamander'', ObfsPassword = q_get q ''obfs-password''\<rparr> else None)\<rparr>)))"

text \<open>The two forms of a shadowsocks link, after the fragment and the plugin query have been taken off.\<close>

definition ss_credentials :: "string \<Rightarrow> string \<Rightarrow> (link_error, (string \<times> string) \<times> (string \<times> int)) result" where
  "ss_credentials creds authority =
     (let (m, p, found) = cut (CHR '':'') creds
      in if \<not> found then Inl Malformed_credentials
         else case hostPort authority of
                Inl e \<Rightarrow> Inl (Bad_authority e)
              | Inr hp \<Rightarrow> Inr ((m, p), hp))"

definition ss_body :: "string \<Rightarrow> (link_error, (string \<times> string) \<times> (string \<times> int)) result" where
  "ss_body body =
     (case last_index (CHR ''@'') body of
        Some i \<Rightarrow>
          (let info = take i body
           in ss_credentials (case decodeBase64 info of Some d \<Rightarrow> d | None \<Rightarrow> info) (drop (i + 1) body))
      | None \<Rightarrow>
          (case decodeBase64 body of
             None \<Rightarrow> Inl Bad_base64
           | Some d \<Rightarrow>
               (case last_index (CHR ''@'') d of
                  None \<Rightarrow> Inl Malformed_credentials
                | Some i \<Rightarrow> ss_credentials (take i d) (drop (i + 1) d))))"

definition ss_name :: "string \<Rightarrow> bool \<Rightarrow> string" where
  "ss_name frag found =
     (if found then (case unescape In_path frag of Some d \<Rightarrow> d | None \<Rightarrow> frag) else [])"

definition ss_plugin :: "string \<Rightarrow> bool \<Rightarrow> string" where
  "ss_plugin query found =
     (if found \<and> snd (ParseQuery query) then q_get (fst (ParseQuery query)) ''plugin'' else [])"

definition parseShadowsocks :: "string \<Rightarrow> (link_error, node) result" where
  "parseShadowsocks raw =
     (let (body1, frag, has_frag) = cut (CHR ''#'') (trim_prefix ''ss://'' raw);
          (body, query, has_query) = cut (CHR ''?'') body1;
          plugin = ss_plugin query has_query
      in case ss_body body of
           Inl e \<Rightarrow> Inl e
         | Inr ((m, p), (host, port)) \<Rightarrow>
             if m = [] \<or> p = [] then Inl Missing_credential
             else Inr (zero_node\<lparr>Protocol := Shadowsocks, Name := ss_name frag has_frag, Server := host, Port := port,
                    Method := m, Password := p,
                    Extra := (if plugin \<noteq> [] then [''plugin'' \<mapsto> plugin] else Map.empty)\<rparr>))"

text \<open>A decoded JSON value; of a number only its integer part is used.\<close>

datatype json_any = J_number int | J_string string | J_other

record vmess_json =
  v_PS :: string
  v_Add :: string
  v_Port :: json_any
  v_ID :: string
  v_Aid :: json_any
  v_Scy :: string
  v_Net :: string
  v_Host :: string
  v_Path :: string
  v_TLS :: string
  v_SNI :: string
  v_ALPN :: string

text \<open>\<^verbatim>\<open>strconv.Atoi\<close> yields its clamped value along with a range error.\<close>

definition atoi_or_clamp :: "string \<Rightarrow> int" where
  "atoi_or_clamp s =
     (case atoi s of
        Some i \<Rightarrow> i
      | None \<Rightarrow>
          let body = (if s \<noteq> [] \<and> (hd s = CHR ''-'' \<or> hd s = CHR ''+'') then tl s else s)
          in if body = [] \<or> \<not> list_all is_digit body then 0
             else if hd s = CHR ''-'' then - (2 ^ 63) else 2 ^ 63 - 1)"

definition toInt :: "json_any \<Rightarrow> int" where
  "toInt v = (case v of J_number i \<Rightarrow> i | J_string s \<Rightarrow> atoi_or_clamp (trim_space s) | J_other \<Rightarrow> 0)"

definition vmess_transport :: "case_table \<Rightarrow> vmess_json \<Rightarrow> transport option" where
  "vmess_transport u v =
     (let net = to_lower u (v_Net v)
      in if net \<in> {''ws'', ''websocket''} then Some (zero_transport\<lparr>TrType := ''ws'', TrPath := v_Path v, TrHost := v_Host v\<rparr>)
         else if net = ''grpc'' then Some (zero_transport\<lparr>TrType := ''grpc'', TrServiceName := v_Path v\<rparr>)
         else if net \<in> {''http'', ''h2''} then
           Some (zero_transport\<lparr>TrType := ''http'', TrPath := v_Path v, TrHost := v_Host v\<rparr>)
         else if net = ''httpupgrade'' then
           Some (zero_transport\<lparr>TrType := ''httpupgrade'', TrPath := v_Path v, TrHost := v_Host v\<rparr>)
         else None)"

definition vmess_tls :: "case_table \<Rightarrow> vmess_json \<Rightarrow> tls option" where
  "vmess_tls u v =
     (if isTruthy u (v_TLS v) \<or> equal_fold (v_TLS v) ''tls''
      then Some (zero_tls\<lparr>Enabled := True,
             ServerName := (if v_SNI v = [] then v_Host v else v_SNI v), ALPN := splitALPN (v_ALPN v)\<rparr>)
      else None)"

definition parseVMess :: "case_table \<Rightarrow> (string \<Rightarrow> vmess_json option) \<Rightarrow> string \<Rightarrow> (link_error, node) result" where
  "parseVMess u js raw =
     (case decodeBase64 (trim_prefix ''vmess://'' raw) of
        None \<Rightarrow> Inl Bad_base64
      | Some dec \<Rightarrow>
          (case js dec of
             None \<Rightarrow> Inl Bad_json
           | Some v \<Rightarrow>
               if v_Add v = [] then Inl Missing_address
               else if toInt (v_Port v) \<le> 0 \<or> toInt (v_Port v) > 65535 then Inl Bad_port
               else if v_ID v = [] then Inl Missing_credential
               else Inr (zero_node\<lparr>Protocol := VMess, Name := v_PS v, Server := v_Add v, Port := toInt (v_Port v),
                      UUID := v_ID v, AlterID := toInt (v_Aid v), Security := v_Scy v,
                      Transport := vmess_transport u v,
                      TLS := vmess_tls u v\<rparr>)))"

section \<open>The router and a block of links\<close>

definition ParseLink :: "case_table \<Rightarrow> (string \<Rightarrow> vmess_json option) \<Rightarrow> string \<Rightarrow> (link_error, node) result" where
  "ParseLink u js raw0 =
     (let raw = trim_space raw0
      in if raw = [] then Inl Empty_link
         else case index_str ''://'' raw of
                None \<Rightarrow> Inl Missing_scheme
              | Some i \<Rightarrow>
                  let scheme = to_lower u (take i raw)
                  in if scheme = ''vless'' then parseVLESS u raw
                     else if scheme \<in> {''hysteria2'', ''hy2''} then parseHysteria2 u raw
                     else if scheme = ''ss'' then parseShadowsocks raw
                     else if scheme = ''trojan'' then parseTrojan u raw
                     else if scheme = ''vmess'' then parseVMess u js raw
                     else Inl (Unsupported_scheme (take i raw)))"

definition comment_line :: "string \<Rightarrow> bool" where
  "comment_line l \<longleftrightarrow> l = [] \<or> has_prefix ''#'' l \<or> has_prefix ''//'' l"

fun links_loop ::
  "case_table \<Rightarrow> (string \<Rightarrow> vmess_json option) \<Rightarrow> string list \<Rightarrow> string list \<Rightarrow> node list \<times> nat"
where
  "links_loop u js seen [] = ([], 0)"
| "links_loop u js seen (line0 # ls) =
     (let line = trim_space line0
      in if comment_line line \<or> line \<in> set seen then links_loop u js seen ls
         else
           let (ns, k) = links_loop u js (line # seen) ls
           in case ParseLink u js line of Inl _ \<Rightarrow> (ns, Suc k) | Inr n \<Rightarrow> (n # ns, k))"

definition ParseLinks :: "case_table \<Rightarrow> (string \<Rightarrow> vmess_json option) \<Rightarrow> string list \<Rightarrow> node list \<times> nat" where
  "ParseLinks u js raws = links_loop u js [] (concat (map (split_on (CHR 0x0A)) raws))"

end
