(* ===== verification/Links_Props.thy ===== *)
theory Links_Props
  imports Links Singbox_Outbound
begin

text \<open>
  What a share link that is accepted promises, that a link written from a node is read back as that node,
  that a pasted block is accounted for line by line, and two links that are read as something else.
\<close>

section \<open>Accepted links\<close>

lemma hostPort_Inr: "hostPort a = Inr (h, p) \<Longrightarrow> h \<noteq> [] \<and> 1 \<le> p \<and> p \<le> 65535"
  by (auto simp: hostPort_def Let_def split: if_splits option.splits)

lemma ss_credentials_Inr:
  "ss_credentials c a = Inr ((m, p), (h, q)) \<Longrightarrow> h \<noteq> [] \<and> 1 \<le> q \<and> q \<le> 65535"
  by (auto simp: ss_credentials_def dest: hostPort_Inr split: prod.splits if_splits sum.splits)

lemma ss_body_Inr: "ss_body b = Inr ((m, p), (h, q)) \<Longrightarrow> h \<noteq> [] \<and> 1 \<le> q \<and> q \<le> 65535"
  by (auto simp: ss_body_def Let_def dest: ss_credentials_Inr split: option.splits)

text \<open>The fields every parser fills, and the ones none of them touches.\<close>

definition well_read :: "node \<Rightarrow> bool" where
  "well_read n \<longleftrightarrow> Server n \<noteq> [] \<and> 1 \<le> Port n \<and> Port n \<le> 65535 \<and> WireGuard n = None \<and>
     (if Protocol n \<in> {VLESS, VMess} then UUID n \<noteq> []
      else Protocol n \<in> {Shadowsocks, Trojan, Hysteria2} \<and> node.Password n \<noteq> []) \<and>
     (Protocol n = Shadowsocks \<longrightarrow> Method n \<noteq> []) \<and>
     (Protocol n \<in> {Trojan, Hysteria2} \<longrightarrow> (\<exists>t. TLS n = Some t \<and> Enabled t)) \<and>
     (Protocol n \<noteq> Shadowsocks \<longrightarrow> Extra n = Map.empty) \<and>
     (\<forall>v. Extra n ''plugin'' = Some v \<longrightarrow> v \<noteq> []) \<and> dom (Extra n) \<subseteq> {''plugin''}"

lemma zero_node_fields [simp]:
  "WireGuard zero_node = None" "Extra zero_node = Map.empty" "Protocol zero_node = []" "TLS zero_node = None"
  by (simp_all add: zero_node_def)

lemma protocol_distinct [simp]:
  "VLESS \<noteq> VMess" "VMess \<noteq> VLESS" "Shadowsocks \<noteq> VLESS" "Shadowsocks \<noteq> VMess" "Shadowsocks \<noteq> Trojan"
  "Shadowsocks \<noteq> Hysteria2" "Trojan \<noteq> VLESS" "Trojan \<noteq> VMess" "Trojan \<noteq> Shadowsocks" "Hysteria2 \<noteq> VLESS"
  "Hysteria2 \<noteq> VMess" "Hysteria2 \<noteq> Shadowsocks" "VLESS \<noteq> Shadowsocks" "VLESS \<noteq> Trojan" "VLESS \<noteq> Hysteria2"
  "VMess \<noteq> Shadowsocks" "VMess \<noteq> Trojan" "VMess \<noteq> Hysteria2" "Trojan \<noteq> Hysteria2" "Hysteria2 \<noteq> Trojan"
  by (simp_all add: protocol_defs)

lemma parseVLESS_read:
  assumes "parseVLESS u raw = Inr n"
  shows "well_read n"
proof -
  from assms obtain r where r: "url_parse u raw = Some r" "Username r \<noteq> []"
    by (auto simp: parseVLESS_def split: option.splits if_splits)
  from assms r obtain h p where hp: "hostPort (UHost r) = Inr (h, p)"
    by (auto simp: parseVLESS_def split: sum.splits)
  show ?thesis
    using assms r hp hostPort_Inr [OF hp] by (auto simp: parseVLESS_def Let_def well_read_def)
qed

lemma parseTrojan_read:
  assumes "parseTrojan u raw = Inr n"
  shows "well_read n"
proof -
  from assms obtain r where r: "url_parse u raw = Some r" "userinfoSecret r \<noteq> []"
    by (auto simp: parseTrojan_def split: option.splits if_splits)
  from assms r obtain h p where hp: "hostPort (UHost r) = Inr (h, p)"
    by (auto simp: parseTrojan_def split: sum.splits)
  show ?thesis
    using assms r hp hostPort_Inr [OF hp] by (auto simp: parseTrojan_def Let_def well_read_def)
qed

lemma parseHysteria2_read:
  assumes "parseHysteria2 u raw = Inr n"
  shows "well_read n"
proof -
  from assms obtain r where r: "url_parse u raw = Some r"
    by (auto simp: parseHysteria2_def split: option.splits)
  from assms r obtain h p where hp: "hostPort (UHost r) = Inr (h, p)" "userinfoSecret r \<noteq> []"
    by (auto simp: parseHysteria2_def split: sum.splits if_splits)
  show ?thesis
    using assms r hp hostPort_Inr [OF hp(1)] by (auto simp: parseHysteria2_def Let_def well_read_def)
qed

lemma parseVMess_read:
  assumes "parseVMess u js raw = Inr n"
  shows "well_read n"
proof -
  from assms obtain d v where d: "decodeBase64 (trim_prefix ''vmess://'' raw) = Some d" "js d = Some v"
    by (auto simp: parseVMess_def split: option.splits)
  show ?thesis
    using assms by (auto simp: parseVMess_def d well_read_def split: if_split_asm)
qed

lemma parseShadowsocks_read:
  assumes "parseShadowsocks raw = Inr n"
  shows "well_read n"
proof -
  obtain b f hf where c1: "cut (CHR ''#'') (trim_prefix ''ss://'' raw) = (b, f, hf)" by (cases "cut (CHR ''#'') (trim_prefix ''ss://'' raw)") auto
  obtain body q hq where c2: "cut (CHR ''?'') b = (body, q, hq)" by (cases "cut (CHR ''?'') b") auto
  have "\<exists>m p h k. ss_body body = Inr ((m, p), (h, k)) \<and> m \<noteq> [] \<and> p \<noteq> []"
    using assms unfolding parseShadowsocks_def Let_def c1 c2 prod.case
    by (cases "ss_body body") (auto split: if_splits)
  then obtain m p h k where sb: "ss_body body = Inr ((m, p), (h, k))" and ne: "m \<noteq> []" "p \<noteq> []" by blast
  define plugin where "plugin = ss_plugin q hq"
  have n: "n = zero_node\<lparr>Protocol := Shadowsocks, Name := ss_name f hf, Server := h, Port := k, Method := m, Password := p,
      Extra := (if plugin \<noteq> [] then [''plugin'' \<mapsto> plugin] else Map.empty)\<rparr>"
    using assms sb ne by (auto simp: parseShadowsocks_def c1 c2 plugin_def Let_def)
  show ?thesis using ne ss_body_Inr [OF sb] unfolding n well_read_def by simp
qed

lemma ParseLink_read: "ParseLink u js raw = Inr n \<Longrightarrow> well_read n"
  by (auto simp: ParseLink_def Let_def split: if_splits option.splits
      dest: parseVLESS_read parseTrojan_read parseHysteria2_read parseVMess_read parseShadowsocks_read)

text \<open>A share link that is accepted is a usable node: its protocol is one of the five, its host is not
  empty, its port is in range, the credential its protocol needs is there, trojan and hysteria2 always run
  over TLS; so the configuration builder refuses it only for a REALITY block without a public key, for a
  transport it has no rendering of, or for a shadowsocks plugin.\<close>

theorem accepted_link_usable:
  assumes "ParseLink u js raw = Inr n"
  shows "Protocol n \<in> {VLESS, VMess, Shadowsocks, Trojan, Hysteria2} \<and> Server n \<noteq> [] \<and> 1 \<le> Port n \<and> Port n \<le> 65535 \<and>
    (if Protocol n \<in> {VLESS, VMess} then UUID n \<noteq> [] else node.Password n \<noteq> []) \<and>
    (Protocol n \<in> {Trojan, Hysteria2} \<longrightarrow> (\<exists>t. TLS n = Some t \<and> Enabled t)) \<and>
    (ValidateNode n \<longleftrightarrow>
       \<not> (\<exists>t r. TLS n = Some t \<and> Reality t = Some r \<and> PublicKey r = []) \<and> transport_error n = None \<and>
       Extra n ''plugin'' = None)"
proof -
  have w: "well_read n" using assms by (rule ParseLink_read)
  have plug: "extra_get n ''plugin'' = [] \<longleftrightarrow> Extra n ''plugin'' = None"
    using w by (auto simp: well_read_def extra_get_def split: option.splits)
  have no_plug: "Extra n ''plugin'' = None" if "Protocol n \<noteq> Shadowsocks"
    using w that by (simp add: well_read_def)
  have "protocol_error n = None \<longleftrightarrow> Extra n ''plugin'' = None"
    using w no_plug plug unfolding well_read_def protocol_error_def
    by (cases "Protocol n = VLESS \<or> Protocol n = VMess"; cases "Protocol n = Shadowsocks") auto
  moreover have "1 \<le> Port n" "Port n \<le> 65535" using w by (simp_all add: well_read_def)
  ultimately have v: "ValidateNode n \<longleftrightarrow>
     \<not> (\<exists>t r. TLS n = Some t \<and> Reality t = Some r \<and> PublicKey r = []) \<and> transport_error n = None \<and>
     Extra n ''plugin'' = None"
    unfolding ValidateNode_def validateNode_def by (auto split: option.splits)
  have p: "Protocol n \<in> {VLESS, VMess, Shadowsocks, Trojan, Hysteria2}"
    and c: "if Protocol n \<in> {VLESS, VMess} then UUID n \<noteq> [] else node.Password n \<noteq> []"
    and t: "Protocol n \<in> {Trojan, Hysteria2} \<longrightarrow> (\<exists>t. TLS n = Some t \<and> Enabled t)"
    and sp: "Server n \<noteq> []" "1 \<le> Port n" "Port n \<le> 65535"
    using w by (auto simp: well_read_def split: if_splits)
  show ?thesis using v p c t sp by blast
qed

section \<open>A pasted block\<close>

text \<open>The links of a block: trimmed lines that are no comment, first occurrences only.\<close>

definition block_links :: "string list \<Rightarrow> string list" where
  "block_links raws =
     rev (remdups (rev (filter (\<lambda>l. \<not> comment_line l) (map trim_space (concat (map (split_on (CHR 0x0A)) raws))))))"

fun fresh_links :: "string list \<Rightarrow> string list \<Rightarrow> string list" where
  "fresh_links seen [] = []"
| "fresh_links seen (l # ls) =
     (if comment_line (trim_space l) \<or> trim_space l \<in> set seen then fresh_links seen ls
      else trim_space l # fresh_links (trim_space l # seen) ls)"

lemma links_loop_fresh:
  "links_loop u js seen ls =
     (concat (map (\<lambda>l. case ParseLink u js l of Inl _ \<Rightarrow> [] | Inr n \<Rightarrow> [n]) (fresh_links seen ls)),
      length (filter (\<lambda>l. \<exists>e. ParseLink u js l = Inl e) (fresh_links seen ls)))"
  by (induction ls arbitrary: seen) (auto simp: Let_def split: sum.splits)

lemma remdups_snoc: "rev (remdups (rev (x # xs))) = x # filter (\<lambda>y. y \<noteq> x) (rev (remdups (rev xs)))"
proof -
  have "remdups (ys @ [x]) = filter (\<lambda>y. y \<noteq> x) (remdups ys) @ [x]" for ys
    by (induction ys) auto
  then show ?thesis by (simp add: rev_filter [symmetric])
qed

lemma fresh_links_eq:
  "fresh_links seen ls =
     filter (\<lambda>l. l \<notin> set seen) (rev (remdups (rev (filter (\<lambda>l. \<not> comment_line l) (map trim_space ls)))))"
proof (induction ls arbitrary: seen)
  case Nil
  then show ?case by simp
next
  case (Cons l ls)
  show ?case
  proof (cases "comment_line (trim_space l)")
    case True
    then show ?thesis by (simp add: Cons)
  next
    case False
    have "filter (\<lambda>y. y \<noteq> trim_space l \<and> y \<notin> set seen) xs = filter (\<lambda>y. y \<notin> set seen) xs"
      if "trim_space l \<in> set seen" for xs using that by (intro filter_cong) auto
    moreover have e: "filter (\<lambda>l. \<not> comment_line l) (map trim_space (l # ls)) =
        trim_space l # filter (\<lambda>l. \<not> comment_line l) (map trim_space ls)" using False by simp
    ultimately show ?thesis
      unfolding e remdups_snoc using False Cons by (auto simp: conj_commute)
  qed
qed

text \<open>A pasted block is accounted for line by line: however the text is split into entries, its nodes
  are the accepted ones among its distinct links in the order of first occurrence, the skipped count is the
  number of its other distinct links, and blanks, comments and repeated lines count as neither.\<close>

theorem pasted_block_accounted:
  "ParseLinks u js raws =
     (concat (map (\<lambda>l. case ParseLink u js l of Inl _ \<Rightarrow> [] | Inr n \<Rightarrow> [n]) (block_links raws)),
      length (filter (\<lambda>l. \<exists>e. ParseLink u js l = Inl e) (block_links raws))) \<and>
   length (fst (ParseLinks u js raws)) + snd (ParseLinks u js raws) = length (block_links raws) \<and>
   (raws \<noteq> [] \<longrightarrow> ParseLinks u js [join [CHR 0x0A] raws] = ParseLinks u js raws)"
proof -
  have f: "fresh_links [] (concat (map (split_on (CHR 0x0A)) rs)) = block_links rs" for rs
    by (simp add: fresh_links_eq block_links_def)
  have p: "ParseLinks u js rs =
     (concat (map (\<lambda>l. case ParseLink u js l of Inl _ \<Rightarrow> [] | Inr n \<Rightarrow> [n]) (block_links rs)),
      length (filter (\<lambda>l. \<exists>e. ParseLink u js l = Inl e) (block_links rs)))" for rs
    by (simp add: ParseLinks_def links_loop_fresh f)
  have len: "length (concat (map (\<lambda>l. case ParseLink u js l of Inl _ \<Rightarrow> [] | Inr n \<Rightarrow> [n]) ls)) +
      length (filter (\<lambda>l. \<exists>e. ParseLink u js l = Inl e) ls) = length ls" for ls
    by (induction ls) (auto split: sum.splits)
  have split: "split_on c (join [c] rs) = concat (map (split_on c) rs)" if "rs \<noteq> []" for c :: char and rs
    using that
  proof (induction rs rule: induct_list012)
    case (3 a b rs)
    have "split_on c (a @ c # t) = split_on c a @ split_on c t" for t
      by (induction a) (auto split: list.split)
    with 3 show ?case by simp
  qed simp_all
  have "block_links [join [CHR 0x0A] raws] = block_links raws" if "raws \<noteq> []"
    using that by (simp add: block_links_def split)
  then show ?thesis using p len by simp
qed

section \<open>Writing a link\<close>

definition hex_char :: "nat \<Rightarrow> char" where
  "hex_char d = ''0123456789ABCDEF'' ! d"

text \<open>Every byte percent-encoded.\<close>

definition pct :: "string \<Rightarrow> string" where
  "pct s = concat (map (\<lambda>c. [CHR ''%'', hex_char (of_char c div 16), hex_char (of_char c mod 16)]) s)"

definition link_char :: "char \<Rightarrow> bool" where
  "link_char c \<longleftrightarrow> letter_or_digit c \<or> c = CHR ''-'' \<or> c = CHR ''.'' \<or> c = CHR ''%''"

definition share_query :: "(string \<times> string) list \<Rightarrow> string" where
  "share_query ps = join ''&'' (map (\<lambda>(k, v). k @ ''='' @ pct v) ps)"

definition share_link :: "string \<Rightarrow> string \<Rightarrow> string \<Rightarrow> nat \<Rightarrow> (string \<times> string) list \<Rightarrow> string \<Rightarrow> string" where
  "share_link scheme secret host port ps name =
     scheme @ ''://'' @ pct secret @ ''@'' @ host @ '':'' @ nat_str port @ ''?'' @ share_query ps @ ''#'' @ pct name"

lemma hex_char_cases:
  assumes "d < 16"
  shows "hex_val (hex_char d) = Some d \<and> letter_or_digit (hex_char d)"
proof -
  define hs where "hs = ''0123456789ABCDEF''"
  have len: "length hs = 16" by (simp add: hs_def)
  have "map hex_val hs = map Some [0..<16]" unfolding hs_def by code_simp
  then have "map hex_val hs ! d = map Some [0..<16] ! d" by (rule arg_cong)
  moreover have "list_all letter_or_digit hs" unfolding hs_def by code_simp
  ultimately show ?thesis
    using assms len unfolding hex_char_def hs_def [symmetric] by (simp add: list_all_length)
qed

lemma pct_chars: "list_all link_char (pct s)"
proof -
  have "(of_char c :: nat) div 16 < 16" for c :: char
    by (rule less_mult_imp_div_less) simp
  then show ?thesis by (induction s) (auto simp: pct_def link_char_def hex_char_cases)
qed

lemma unescape_pct:
  assumes "m \<noteq> In_host" and "m \<noteq> In_zone"
  shows "unescape m (pct s) = Some s"
proof (induction s)
  case Nil
  then show ?case by (simp add: pct_def)
next
  case (Cons c s)
  have "(of_char c :: nat) < 256" by simp
  then have "hex_pair (hex_char (of_char c div 16)) (hex_char (of_char c mod 16)) = Some (of_char c)"
    by (simp add: hex_pair_def hex_char_cases less_mult_imp_div_less)
  moreover have "escape_ok m a b v" for a b v using assms by (simp add: escape_ok_def)
  ultimately show ?case using Cons by (simp add: pct_def)
qed

lemma link_char_code: "link_char c \<Longrightarrow> (of_char c :: nat) \<in> {37, 45, 46} \<union> {48..57} \<union> {65..90} \<union> {97..122}"
  by (auto simp: link_char_def letter_or_digit_def Let_def)


text \<open>The characters of a link that carry no meaning for the parser.\<close>

definition share_keys :: "(string \<times> string) list \<Rightarrow> bool" where
  "share_keys ps \<longleftrightarrow> ps \<noteq> [] \<and> list_all (\<lambda>(k, v). k \<noteq> [] \<and> list_all link_char k \<and> CHR ''%'' \<notin> set k) ps"

lemma link_char_facts:
  assumes "link_char c"
  shows "c \<notin> {CHR ''#'', CHR ''?'', CHR ''/'', CHR ''@'', CHR '':'', CHR ''['', CHR '']'', CHR ''&'', CHR ''='',
      CHR '';'', CHR ''+''}" "\<not> control_char c" "ascii c" "33 \<le> (of_char c :: nat)"
proof -
  note k = link_char_code [OF assms]
  then show "ascii c" "33 \<le> (of_char c :: nat)" "\<not> control_char c"
    by (auto simp: ascii_def control_char_def)
  show "c \<notin> {CHR ''#'', CHR ''?'', CHR ''/'', CHR ''@'', CHR '':'', CHR ''['', CHR '']'', CHR ''&'', CHR ''='',
      CHR '';'', CHR ''+''}"
    using k by auto
qed

lemma plain_unescape:
  "list_all link_char s \<Longrightarrow> CHR ''%'' \<notin> set s \<Longrightarrow> unescape m s = Some s"
proof (induction s)
  case Nil
  then show ?case by simp
next
  case (Cons c s)
  then have "link_char c" "c \<noteq> CHR ''%''" "unescape m s = Some s" by auto
  moreover from this(1,2) have "host_char c" by (auto simp: link_char_def host_char_def)
  ultimately show ?case using link_char_facts(1) [of c] by auto
qed

lemma query_pairs_share:
  assumes "list_all (\<lambda>(k, v). k \<noteq> [] \<and> list_all link_char k \<and> CHR ''%'' \<notin> set k) ps"
  shows "query_pairs (map (\<lambda>(k, v). k @ ''='' @ pct v) ps) = (ps, True)"
  using assms
proof (induction ps)
  case Nil
  then show ?case by simp
next
  case (Cons kv ps)
  obtain k v where kv: "kv = (k, v)" by fastforce
  with Cons.prems have k: "k \<noteq> []" "list_all link_char k" "CHR ''%'' \<notin> set k" by auto
  have "CHR ''='' \<notin> set k" "CHR '';'' \<notin> set k" "CHR '';'' \<notin> set (pct v)"
    using k(2) pct_chars [of v] link_char_facts(1) by (fastforce simp: list_all_iff)+
  then show ?case
    using Cons k by (simp add: kv cut_hit plain_unescape unescape_pct)
qed

lemma ParseQuery_share:
  assumes "share_keys ps"
  shows "ParseQuery (share_query ps) = (ps, True)"
proof -
  have "CHR ''&'' \<notin> set (k @ ''='' @ pct v)" if "list_all link_char k" for k v
    using that pct_chars [of v] link_char_facts(1) by (fastforce simp: list_all_iff)
  then have "split_on (CHR ''&'') (share_query ps) = map (\<lambda>(k, v). k @ ''='' @ pct v) ps"
    using assms unfolding share_query_def share_keys_def
    by (intro split_on_join) (auto simp: list_all_iff)
  then show ?thesis
    using assms query_pairs_share by (simp add: ParseQuery_def share_keys_def)
qed


lemma index_byte_hit: "c \<notin> set a \<Longrightarrow> index_byte c (a @ c # b) = Some (length a)"
  by (induction a) (auto simp: index_byte_def)

lemma index_byte_miss: "c \<notin> set a \<Longrightarrow> index_byte c a = None"
  by (auto simp: index_byte_def)

lemma last_index_hit: "c \<notin> set b \<Longrightarrow> last_index c (a @ c # b) = Some (length a)"
  using index_byte_hit [of c "rev b" "rev a"] by (simp add: last_index_def)

lemma last_index_miss: "c \<notin> set a \<Longrightarrow> last_index c a = None"
  by (simp add: last_index_def index_byte_miss)

lemma scheme_loop_scheme:
  "list_all letter_or_digit s \<Longrightarrow> s = [] \<or> \<not> start \<or> \<not> is_digit (hd s) \<Longrightarrow> s \<noteq> [] \<or> \<not> start \<Longrightarrow>
     scheme_loop start (s @ CHR '':'' # x) = Some (s @ '':'')"
proof (induction s arbitrary: start)
  case Nil
  then show ?case by simp
next
  case (Cons c s)
  then have "c \<noteq> CHR '':''" by (auto simp: letter_or_digit_def Let_def)
  with Cons show ?case by auto
qed

definition scheme_name :: "string \<Rightarrow> bool" where
  "scheme_name s \<longleftrightarrow> s \<noteq> [] \<and> list_all letter_or_digit s \<and> \<not> is_digit (hd s) \<and> map ascii_lower s = s"

lemma get_scheme_scheme: "scheme_name s \<Longrightarrow> get_scheme (s @ CHR '':'' # x) = Some (s, x)"
  using scheme_loop_scheme [of s True x] by (simp add: get_scheme_def scheme_name_def)

definition host_name :: "string \<Rightarrow> bool" where
  "host_name h \<longleftrightarrow> h \<noteq> [] \<and> list_all link_char h \<and> CHR ''%'' \<notin> set h"

lemma nat_str_link_chars: "list_all link_char (nat_str n) \<and> CHR ''%'' \<notin> set (nat_str n)"
proof -
  have "is_digit c \<Longrightarrow> link_char c \<and> c \<noteq> CHR ''%''" for c
    by (auto simp: is_digit_def link_char_def letter_or_digit_def Let_def)
  then show ?thesis using nat_str_digits [of n] by (auto simp: list_all_iff)
qed

lemma not_in_link: "list_all link_char s \<Longrightarrow> \<not> link_char c \<Longrightarrow> c \<notin> set s"
  by (auto simp: list_all_iff)

lemma link_marks [simp]:
  "\<not> link_char (CHR ''#'')" "\<not> link_char (CHR ''?'')" "\<not> link_char (CHR ''/'')" "\<not> link_char (CHR ''@'')"
  "\<not> link_char (CHR '':'')" "\<not> link_char (CHR ''['')" "\<not> link_char (CHR '']'')" "\<not> link_char (CHR ''&'')"
  "\<not> link_char (CHR ''='')" "\<not> link_char (CHR '' '')"
  by (auto dest: link_char_facts(1) link_char_facts(4))

lemma parse_host_name:
  assumes "host_name h"
  shows "parse_host (h @ CHR '':'' # nat_str p) = Some (h @ CHR '':'' # nat_str p)"
proof -
  let ?hp = "h @ CHR '':'' # nat_str p"
  note n = nat_str_link_chars [of p]
  have h: "list_all link_char h" "CHR ''%'' \<notin> set h" using assms by (simp_all add: host_name_def)
  have "CHR ''['' \<notin> set ?hp" "CHR '':'' \<notin> set (nat_str p)"
    using h n by (simp_all add: not_in_link)
  then have l: "last_index (CHR ''['') ?hp = None" "last_index (CHR '':'') ?hp = Some (length h)"
    by (simp_all only: last_index_miss [of "CHR ''[''" ?hp] last_index_hit [of "CHR '':''" "nat_str p" h] not_False_eq_True)
  have "unescape In_host ?hp = Some ?hp"
  proof -
    have pre: "unescape In_host (a @ b) = map_option ((@) a) (unescape In_host b)"
      if "list_all link_char a" "CHR ''%'' \<notin> set a" for a b
      using that
    proof (induction a)
      case Nil
      then show ?case by (cases "unescape In_host b") auto
    next
      case (Cons c a)
      then have "link_char c" "c \<noteq> CHR ''%''" by auto
      then have "host_char c" by (auto simp: link_char_def host_char_def)
      with Cons show ?case by (cases "unescape In_host b") auto
    qed
    show ?thesis using pre [OF h] n plain_unescape [of "nat_str p" In_host]
      by (simp add: host_char_def letter_or_digit_def)
  qed
  moreover have "validOptionalPort (drop (length h) ?hp)"
    using nat_str_digits [of p] by (simp add: validOptionalPort_def)
  ultimately show ?thesis by (simp add: parse_host_def l)
qed

lemma parse_userinfo_pct: "parse_userinfo (pct s) = Some (s, None)"
proof -
  note c = pct_chars [of s]
  have "letter_or_digit x \<or> x \<in> set ''-._:~!$&()*+,;=%@'' \<or> x = CHR 0x27" if "link_char x" for x
    using that unfolding link_char_def by (elim disjE) simp_all
  then have "valid_userinfo (pct s)" using c unfolding valid_userinfo_def by (simp only: list_all_iff) blast
  moreover have "cut (CHR '':'') (pct s) = (pct s, [], False)"
    using c by (intro cut_miss) (simp add: not_in_link)
  ultimately show ?thesis by (simp add: parse_userinfo_def unescape_pct)
qed

lemma parse_authority_share:
  assumes "host_name h"
  shows "parse_authority (pct s @ CHR ''@'' # h @ CHR '':'' # nat_str p) = Some (Some (s, None), h @ CHR '':'' # nat_str p)"
proof -
  have "CHR ''@'' \<notin> set (h @ CHR '':'' # nat_str p)"
    using assms nat_str_link_chars [of p] not_in_link [of _ "CHR ''@''"] by (auto simp: host_name_def)
  then have "last_index (CHR ''@'') (pct s @ CHR ''@'' # h @ CHR '':'' # nat_str p) = Some (length (pct s))"
    by (rule last_index_hit)
  then show ?thesis
    by (simp add: parse_authority_def parse_host_name [OF assms] parse_userinfo_pct)
qed


lemma share_query_facts:
  assumes "share_keys ps"
  shows "share_query ps \<noteq> []" "CHR ''#'' \<notin> set (share_query ps)" "CHR ''?'' \<notin> set (share_query ps)"
    "\<not> list_ex control_char (share_query ps)"
proof -
  define ok where "ok c \<longleftrightarrow> link_char c \<or> c = CHR ''&'' \<or> c = CHR ''=''" for c
  have j: "list_all ok (join ''&'' ws)" if "\<And>w. w \<in> set ws \<Longrightarrow> list_all ok w" for ws
    using that
  proof (induction ws rule: induct_list012)
    case (3 a b ws)
    then show ?case by (simp add: ok_def)
  qed (simp_all add: ok_def)
  have "list_all ok (k @ ''='' @ pct v)" if "list_all link_char k" for k v
    using that pct_chars [of v] by (auto simp: ok_def list_all_iff)
  then have "list_all ok w" if "w \<in> set (map (\<lambda>(k, v). k @ ''='' @ pct v) ps)" for w
    using that assms unfolding share_keys_def by (fastforce simp: list_all_iff)
  then have "list_all ok (share_query ps)" unfolding share_query_def by (rule j)
  then have all: "\<And>c. c \<in> set (share_query ps) \<Longrightarrow> ok c" by (simp add: list_all_iff)
  have "\<not> ok (CHR ''#'')" "\<not> ok (CHR ''?'')" by (simp_all add: ok_def)
  then show "CHR ''#'' \<notin> set (share_query ps)" "CHR ''?'' \<notin> set (share_query ps)" using all by blast+
  have "ok c \<Longrightarrow> \<not> control_char c" for c
    unfolding ok_def using link_char_facts(2) [of c] by (elim disjE) (simp_all add: control_char_def)
  then show "\<not> list_ex control_char (share_query ps)" using all by (auto simp: list_ex_iff)
  show "share_query ps \<noteq> []"
    using assms by (cases ps rule: list.exhaust; cases "tl ps") (auto simp: share_query_def share_keys_def)
qed

lemma url_parse_share:
  assumes "scheme_name scheme" and "host_name h" and "share_keys ps"
  shows "url_parse u (share_link scheme secret h p ps name) =
    Some \<lparr>UScheme = scheme, UOpaque = [], UUser = Some (secret, None), UHost = h @ CHR '':'' # nat_str p,
      UPath = [], URawQuery = share_query ps, UFragment = name\<rparr>"
proof -
  let ?auth = "pct secret @ CHR ''@'' # h @ CHR '':'' # nat_str p"
  let ?q = "share_query ps"
  let ?rest = "''//'' @ ?auth @ CHR ''?'' # ?q"
  let ?a = "scheme @ CHR '':'' # ?rest"
  note q = share_query_facts [OF assms(3)]
  have sc: "list_all link_char scheme" "list_all ascii scheme" "map ascii_lower scheme = scheme"
  proof -
    have "letter_or_digit c \<Longrightarrow> link_char c" for c by (simp add: link_char_def)
    then show l: "list_all link_char scheme" using assms(1) by (auto simp: scheme_name_def list_all_iff)
    then show "list_all ascii scheme" using link_char_facts(3) by (auto simp: list_all_iff)
    show "map ascii_lower scheme = scheme" using assms(1) by (simp add: scheme_name_def)
  qed
  note all = sc(1) pct_chars [of secret] nat_str_link_chars [of p]
  have h: "list_all link_char h" using assms(2) by (simp add: host_name_def)
  note out = not_in_link [OF sc(1)] not_in_link [OF pct_chars [of secret]]
    not_in_link [OF h] not_in_link [OF conjunct1 [OF nat_str_link_chars [of p]]]
  have nohash: "CHR ''#'' \<notin> set ?a" using out q(2) by simp
  have noq: "CHR ''?'' \<notin> set (''//'' @ ?auth)" using out by simp
  have noslash: "CHR ''/'' \<notin> set ?auth" using out by simp
  have ctl: "\<not> list_ex control_char ?a"
  proof -
    have "link_char c \<Longrightarrow> \<not> control_char c" for c by (rule link_char_facts(2))
    then have "list_all link_char s \<Longrightarrow> \<not> list_ex control_char s" for s by (auto simp: list_all_iff list_ex_iff)
    then show ?thesis using all h q(4) by (simp add: control_char_def)
  qed
  have last: "last ?rest \<noteq> CHR ''?''"
  proof -
    have "last ?q \<in> set ?q" using q(1) by (rule last_in_set)
    then have "last ?q \<noteq> CHR ''?''" using q(3) by metis
    then show ?thesis using q(1) by simp
  qed
  have cq: "cut_query ?rest = (''//'' @ ?auth, ?q)"
    using last cut_hit [OF noq, of ?q] unfolding cut_query_def by simp
  have pn: "parse_no_fragment u ?a =
    Some (zero_url\<lparr>UScheme := scheme, URawQuery := ?q, UUser := Some (secret, None),
      UHost := h @ CHR '':'' # nat_str p, UPath := []\<rparr>)"
  proof -
    have "?a \<noteq> ''*''" using assms(1) by (cases scheme) (auto simp: scheme_name_def)
    moreover have "get_scheme ?a = Some (scheme, ?rest)" by (rule get_scheme_scheme [OF assms(1)])
    moreover have "scheme \<noteq> []" using assms(1) by (simp add: scheme_name_def)
    moreover have "has_prefix ''/'' (''//'' @ ?auth)" "has_prefix ''//'' (''//'' @ ?auth)"
      by (simp_all add: has_prefix_def)
    moreover have "cut (CHR ''/'') (drop 2 (''//'' @ ?auth)) = (?auth, [], False)"
      using cut_miss [OF noslash] by simp
    ultimately show ?thesis
      using ctl cq sc(2,3) parse_authority_share [OF assms(2), of secret p]
      unfolding parse_no_fragment_def by (simp add: Let_def)
  qed
  have sl: "share_link scheme secret h p ps name = ?a @ CHR ''#'' # pct name"
    by (simp add: share_link_def)
  show ?thesis
    unfolding url_parse_def sl cut_hit [OF nohash] prod.case Let_def pn option.case
    by (simp add: unescape_pct zero_url_def)
qed


section \<open>A node as a link\<close>

definition the_transport :: "node \<Rightarrow> transport" where
  "the_transport n = (case Transport n of None \<Rightarrow> zero_transport | Some t \<Rightarrow> t)"

definition the_tls :: "node \<Rightarrow> tls" where
  "the_tls n = (case TLS n of None \<Rightarrow> zero_tls | Some t \<Rightarrow> t)"

definition the_reality :: "node \<Rightarrow> reality" where
  "the_reality n = (case Reality (the_tls n) of None \<Rightarrow> \<lparr>PublicKey = [], ShortID = [], SpiderX = []\<rparr> | Some r \<Rightarrow> r)"

definition the_obfs :: "node \<Rightarrow> obfs" where
  "the_obfs n = (case Obfs n of None \<Rightarrow> \<lparr>ObfsType = [], ObfsPassword = []\<rparr> | Some x \<Rightarrow> x)"

definition link_params :: "node \<Rightarrow> (string \<times> string) list" where
  "link_params n =
     (let tr = the_transport n; t = the_tls n; r = the_reality n; x = the_obfs n; insecure = (if Insecure t then ''1'' else ''0'')
      in [(''flow'', Flow n), (''type'', TrType tr), (''path'', TrPath tr), (''host'', TrHost tr),
          (''serviceName'', TrServiceName tr),
          (''security'', if TLS n = None then ''none'' else if Reality t = None then ''tls'' else ''reality''),
          (''sni'', ServerName t), (''fp'', Fingerprint t), (''alpn'', join '','' (ALPN t)),
          (''pbk'', PublicKey r), (''sid'', ShortID r), (''spx'', SpiderX r),
          (''allowInsecure'', insecure), (''insecure'', insecure),
          (''obfs'', ObfsType x), (''obfs-password'', ObfsPassword x)])"

definition node_link :: "node \<Rightarrow> string" where
  "node_link n =
     share_link (if Protocol n = VLESS then ''vless'' else if Protocol n = Trojan then ''trojan'' else ''hysteria2'')
       (if Protocol n = VLESS then UUID n else node.Password n) (Server n) (nat (Port n)) (link_params n) (Name n)"

definition alpn_list :: "string list \<Rightarrow> bool" where
  "alpn_list ws \<longleftrightarrow> list_all (\<lambda>w. w \<noteq> [] \<and> trimmed w \<and> CHR '','' \<notin> set w) ws"

definition link_transport :: "transport option \<Rightarrow> bool" where
  "link_transport tr \<longleftrightarrow>
     (case tr of None \<Rightarrow> True
      | Some t \<Rightarrow>
          TrType t \<in> {''ws'', ''http'', ''httpupgrade''} \<and> TrServiceName t = [] \<or>
          TrType t = ''grpc'' \<and> TrPath t = [] \<and> TrHost t = [])"

definition link_tls :: "protocol \<Rightarrow> tls option \<Rightarrow> bool" where
  "link_tls p topt \<longleftrightarrow>
     (case topt of None \<Rightarrow> p = VLESS
      | Some t \<Rightarrow> Enabled t \<and> \<not> Fragment t \<and> alpn_list (ALPN t) \<and>
          (if p = VLESS then \<not> Insecure t else Fingerprint t = [] \<and> Reality t = None))"

text \<open>The nodes a link can carry: everything it has no parameter for is at its default.\<close>

definition shareable :: "node \<Rightarrow> bool" where
  "shareable n \<longleftrightarrow>
     Protocol n \<in> {VLESS, Trojan, Hysteria2} \<and> CHR ''%'' \<notin> set (Name n) \<and> host_name (Server n) \<and>
     1 \<le> Port n \<and> Port n \<le> 65535 \<and>
     (if Protocol n = VLESS then UUID n \<noteq> [] \<and> node.Password n = [] else UUID n = [] \<and> node.Password n \<noteq> [] \<and> Flow n = []) \<and>
     Method n = [] \<and> Security n = [] \<and> AlterID n = 0 \<and> WireGuard n = None \<and> Extra n = Map.empty \<and>
     link_transport (Transport n) \<and> (Protocol n = Hysteria2 \<longrightarrow> Transport n = None) \<and>
     link_tls (Protocol n) (TLS n) \<and>
     (case Obfs n of None \<Rightarrow> True | Some x \<Rightarrow> Protocol n = Hysteria2 \<and> ObfsType x = ''salamander'')"

lemma splitALPN_join:
  assumes "alpn_list ws"
  shows "splitALPN (join '','' ws) = ws"
proof (cases ws)
  case Nil
  then show ?thesis by (simp add: splitALPN_def)
next
  case (Cons w ws')
  then have "join '','' ws \<noteq> []" using assms by (cases ws') (auto simp: alpn_list_def)
  moreover have "split_on (CHR '','') (join '','' ws) = ws"
    using assms Cons by (intro split_on_join) (auto simp: alpn_list_def list_all_iff)
  moreover have "map trim_space ws = ws"
    using assms by (intro map_idI) (simp add: alpn_list_def list_all_iff trim_space_trimmed)
  moreover have "filter (\<lambda>p. p \<noteq> []) ws = ws"
    using assms by (simp add: filter_id_conv alpn_list_def list_all_iff)
  ultimately show ?thesis by (simp add: splitALPN_def)
qed

lemma link_params_keys: "share_keys (link_params n)"
proof -
  have "list_all (\<lambda>k. k \<noteq> [] \<and> list_all link_char k \<and> CHR ''%'' \<notin> set k)
     [''flow'', ''type'', ''path'', ''host'', ''serviceName'', ''security'', ''sni'', ''fp'', ''alpn'', ''pbk'', ''sid'',
      ''spx'', ''allowInsecure'', ''insecure'', ''obfs'', ''obfs-password'']" by code_simp
  then show ?thesis by (simp add: share_keys_def link_params_def Let_def)
qed

lemma link_params_get:
  "q_get (link_params n) ''flow'' = Flow n" "q_get (link_params n) ''type'' = TrType (the_transport n)"
  "q_get (link_params n) ''path'' = TrPath (the_transport n)" "q_get (link_params n) ''host'' = TrHost (the_transport n)"
  "q_get (link_params n) ''serviceName'' = TrServiceName (the_transport n)"
  "q_get (link_params n) ''security'' = (if TLS n = None then ''none'' else if Reality (the_tls n) = None then ''tls'' else ''reality'')"
  "q_get (link_params n) ''sni'' = ServerName (the_tls n)" "q_get (link_params n) ''fp'' = Fingerprint (the_tls n)"
  "q_get (link_params n) ''alpn'' = join '','' (ALPN (the_tls n))" "q_get (link_params n) ''peer'' = []"
  "q_get (link_params n) ''pbk'' = PublicKey (the_reality n)" "q_get (link_params n) ''sid'' = ShortID (the_reality n)"
  "q_get (link_params n) ''spx'' = SpiderX (the_reality n)"
  "q_get (link_params n) ''allowInsecure'' = (if Insecure (the_tls n) then ''1'' else ''0'')"
  "q_get (link_params n) ''insecure'' = (if Insecure (the_tls n) then ''1'' else ''0'')"
  "q_get (link_params n) ''obfs'' = ObfsType (the_obfs n)" "q_get (link_params n) ''obfs-password'' = ObfsPassword (the_obfs n)"
  by (simp_all add: q_get_def link_params_def Let_def)


lemma hostPort_name:
  assumes "host_name h" and "1 \<le> p" and "p \<le> 65535"
  shows "hostPort (h @ CHR '':'' # nat_str p) = Inr (h, int p)"
proof -
  let ?hp = "h @ CHR '':'' # nat_str p"
  note n = nat_str_link_chars [of p]
  have h: "list_all link_char h" "h \<noteq> []" using assms by (simp_all add: host_name_def)
  have c: "CHR '':'' \<notin> set (nat_str p)" "CHR '':'' \<notin> set h" "CHR ''['' \<notin> set ?hp" "CHR '']'' \<notin> set ?hp"
    using not_in_link [OF h(1)] not_in_link [OF conjunct1 [OF n]] by auto
  have "hd ?hp \<noteq> CHR ''[''" using c(3) h(2) by (cases h) auto
  then have sp: "SplitHostPort ?hp = Some (h, nat_str p)"
    using c last_index_hit [OF c(1), of h] by (auto simp: SplitHostPort_def)
  have tr: "trim_set ''[]'' h = h"
  proof -
    have d: "dropWhile (\<lambda>c. c \<in> set ''[]'') xs = xs" if "set xs \<subseteq> set h" for xs
      using that c(3,4) by (cases xs) auto
    show ?thesis by (simp only: trim_set_def d subset_refl set_rev rev_rev_ident)
  qed
  have at: "atoi (nat_str p) = Some (int p)"
  proof -
    have "hd (nat_str p) \<noteq> CHR ''-''" "hd (nat_str p) \<noteq> CHR ''+''"
      using nat_str_digits [of p] by (cases "nat_str p"; auto simp: is_digit_def)+
    then show ?thesis using nat_str_digits [of p] assms(3) by (simp add: parse_int_def)
  qed
  show ?thesis using h assms(2,3) by (simp add: hostPort_def sp tr at)
qed

lemma unescape_no_percent:
  "CHR ''%'' \<notin> set s \<Longrightarrow> m \<notin> {In_host, In_zone, In_query} \<Longrightarrow> unescape m s = Some s"
  by (induction s) auto

lemma trimmed_link:
  assumes "scheme_name scheme" and "host_name h" and "share_keys ps"
  shows "trim_space (share_link scheme secret h p ps name) = share_link scheme secret h p ps name"
    and "index_str ''://'' (share_link scheme secret h p ps name) = Some (length scheme)"
    and "share_link scheme secret h p ps name \<noteq> []"
    and "take (length scheme) (share_link scheme secret h p ps name) = scheme"
proof -
  define ok where "ok c \<longleftrightarrow> ascii c \<and> 33 \<le> (of_char c :: nat)" for c :: char
  have l: "list_all ok s" if "list_all link_char s" for s
    using that link_char_facts(3,4) by (auto simp: ok_def list_all_iff)
  have sc: "list_all link_char scheme"
    using assms(1) by (auto simp: scheme_name_def list_all_iff link_char_def)
  have h: "list_all link_char h" using assms(2) by (simp add: host_name_def)
  have q: "list_all ok (share_query ps)"
  proof -
    have j: "list_all ok (join ''&'' ws)" if "\<And>w. w \<in> set ws \<Longrightarrow> list_all ok w" for ws
      using that
    proof (induction ws rule: induct_list012)
      case (3 a b ws)
      then show ?case by (simp add: ok_def ascii_def)
    qed (simp_all add: ok_def)
    have "list_all ok w" if w: "w \<in> set (map (\<lambda>(k, v). k @ ''='' @ pct v) ps)" for w
    proof -
      from w obtain k v where kv: "(k, v) \<in> set ps" "w = k @ ''='' @ pct v" by auto
      then have "list_all link_char k" using assms(3) by (auto simp: share_keys_def list_all_iff)
      then show ?thesis using l [OF pct_chars [of v]] l kv by (simp add: ok_def ascii_def)
    qed
    then show ?thesis unfolding share_query_def by (rule j)
  qed
  have "list_all ok (share_link scheme secret h p ps name)"
    using l [OF sc] l [OF h] l [OF pct_chars] l [OF conjunct1 [OF nat_str_link_chars]] q
    by (simp add: share_link_def ok_def [of "CHR '':''"] ok_def [of "CHR ''/''"] ok_def [of "CHR ''@''"]
        ok_def [of "CHR ''?''"] ok_def [of "CHR ''#''"] ascii_def)
  then have "trimmed (share_link scheme secret h p ps name)"
    unfolding ok_def by (rule trimmed_visible)
  then show "trim_space (share_link scheme secret h p ps name) = share_link scheme secret h p ps name"
    by (rule trim_space_trimmed)
  have ix: "index_str ''://'' (a @ ''://'' @ b) = Some (length a)" if "list_all link_char a" for a b
    using that
  proof (induction a)
    case Nil
    then show ?case by (simp add: has_prefix_def)
  next
    case (Cons c a)
    then have "c \<noteq> CHR '':''" by auto
    with Cons show ?case by (simp add: has_prefix_def)
  qed
  show "index_str ''://'' (share_link scheme secret h p ps name) = Some (length scheme)"
    unfolding share_link_def by (rule ix [OF sc])
  show "share_link scheme secret h p ps name \<noteq> []" "take (length scheme) (share_link scheme secret h p ps name) = scheme"
    by (simp_all add: share_link_def)
qed


lemma lower_transport:
  assumes "ty \<in> {''ws'', ''http'', ''httpupgrade'', ''grpc''}"
  shows "to_lower u ty = ty"
proof -
  have "list_all ascii ty \<and> map ascii_lower ty = ty" using assms
    by (elim insertE emptyE; simp only:; code_simp)
  then show ?thesis by simp
qed

lemma buildTransport_params:
  assumes "link_transport (Transport n)"
  shows "buildTransport u (link_params n) = Transport n"
proof (cases "Transport n")
  case None
  then show ?thesis by (simp add: buildTransport_def link_params_get the_transport_def zero_transport_def)
next
  case (Some t)
  have tt: "the_transport n = t" using Some by (simp add: the_transport_def)
  have ty: "TrType t \<in> {''ws'', ''http'', ''httpupgrade'', ''grpc''}" using assms Some by (auto simp: link_transport_def)
  have lo: "to_lower u (TrType t) = TrType t" by (rule lower_transport [OF ty])
  show ?thesis
    using assms ty unfolding Some buildTransport_def link_params_get tt Let_def lo
    by (cases t) (auto simp: link_transport_def zero_transport_def)
qed

lemma lower_words:
  "to_lower u ''tls'' = ''tls''" "to_lower u ''reality'' = ''reality''" "to_lower u ''none'' = ''none''"
  "to_lower u ''vless'' = ''vless''" "to_lower u ''trojan'' = ''trojan''" "to_lower u ''hysteria2'' = ''hysteria2''"
  "to_lower u ''salamander'' = ''salamander''" "isTruthy u ''1''" "\<not> isTruthy u ''0''"
proof -
  have a: "list_all (\<lambda>w. list_all ascii w \<and> map ascii_lower w = w)
     [''tls'', ''reality'', ''none'', ''vless'', ''trojan'', ''hysteria2'', ''salamander'', ''1'', ''0'']" by code_simp
  then show "to_lower u ''tls'' = ''tls''" "to_lower u ''reality'' = ''reality''" "to_lower u ''none'' = ''none''"
    "to_lower u ''vless'' = ''vless''" "to_lower u ''trojan'' = ''trojan''" "to_lower u ''hysteria2'' = ''hysteria2''"
    "to_lower u ''salamander'' = ''salamander''" by simp_all
  have "trim_space ''1'' = ''1''" "trim_space ''0'' = ''0''"
    by (rule trim_space_trimmed, rule trimmed_visible, code_simp)+
  then show "isTruthy u ''1''" "\<not> isTruthy u ''0''" using a by (simp_all add: isTruthy_def)
qed

lemma schemes: "scheme_name ''vless''" "scheme_name ''trojan''" "scheme_name ''hysteria2''"
  by code_simp+

text \<open>What every parser sees of a link written from a node.\<close>

lemma read_share:
  assumes "shareable n" and "scheme_name scheme"
  obtains r where "url_parse u (share_link scheme secret (Server n) (nat (Port n)) (link_params n) (Name n)) = Some r"
    and "Username r = secret" and "userinfoSecret r = secret" and "hostPort (UHost r) = Inr (Server n, Port n)"
    and "Query r = link_params n" and "fragmentName r = Name n"
proof -
  have h: "host_name (Server n)" and p: "1 \<le> nat (Port n)" "nat (Port n) \<le> 65535" "int (nat (Port n)) = Port n"
    and nm: "CHR ''%'' \<notin> set (Name n)"
    using assms(1) by (auto simp: shareable_def)
  show thesis
    by (rule that [OF url_parse_share [OF assms(2) h link_params_keys]])
      (use hostPort_name [OF h p(1,2)] p(3) ParseQuery_share [OF link_params_keys [of n]] unescape_no_percent [OF nm, of In_path] in
        \<open>simp_all add: Username_def Password_of_def userinfoSecret_def Query_def fragmentName_def\<close>)
qed


lemma vless_link:
  assumes "shareable n" and "Protocol n = VLESS"
  shows "parseVLESS u (node_link n) = Inr n"
proof -
  from assms(1) obtain r where r: "url_parse u (node_link n) = Some r" "Username r = UUID n"
    "hostPort (UHost r) = Inr (Server n, Port n)" "Query r = link_params n" "fragmentName r = Name n"
    by (rule read_share [OF _ schemes(1), where n = n and secret = "UUID n" and u = u]) (simp_all add: node_link_def assms(2))
  have ne: "UUID n \<noteq> []" and tr: "link_transport (Transport n)" and tls: "link_tls VLESS (TLS n)"
    using assms by (auto simp: shareable_def)
  have t: "(if to_lower u (q_get (link_params n) ''security'') = ''tls'' then Some (buildTLS (link_params n) False)
      else if to_lower u (q_get (link_params n) ''security'') = ''reality'' then Some (buildTLS (link_params n) True) else None) = TLS n"
  proof (cases "TLS n")
    case None
    then show ?thesis by (simp add: link_params_get lower_words)
  next
    case (Some t)
    with tls have t: "Enabled t" "\<not> Fragment t" "alpn_list (ALPN t)" "\<not> Insecure t" by (auto simp: link_tls_def)
    show ?thesis
    proof (cases "Reality t")
      case None
      then show ?thesis using Some t
        by (cases t) (simp add: link_params_get lower_words the_tls_def buildTLS_def zero_tls_def splitALPN_join)
    next
      case (Some x)
      then show ?thesis using \<open>TLS n = Some t\<close> t
        by (cases t; cases x) (simp add: link_params_get lower_words the_tls_def the_reality_def buildTLS_def zero_tls_def splitALPN_join)
    qed
  qed
  have "parseVLESS u (node_link n) =
    Inr (zero_node\<lparr>Protocol := VLESS, Name := Name n, Server := Server n, Port := Port n, UUID := UUID n,
      Flow := Flow n, Transport := Transport n, TLS := TLS n\<rparr>)"
    using ne unfolding parseVLESS_def r option.case sum.case prod.case Let_def buildTransport_params [OF tr] t link_params_get(1)
    by simp
  moreover have "zero_node\<lparr>Protocol := VLESS, Name := Name n, Server := Server n, Port := Port n, UUID := UUID n,
      Flow := Flow n, Transport := Transport n, TLS := TLS n\<rparr> = n"
    using assms by (cases n) (auto simp: shareable_def zero_node_def split: option.splits)
  ultimately show ?thesis by simp
qed

lemma simple_tls:
  assumes "link_tls p (TLS n)" and "p \<noteq> VLESS"
  shows "Some (zero_tls\<lparr>Enabled := True, ServerName := q_get (link_params n) ''sni'', Insecure := Insecure (the_tls n),
    ALPN := splitALPN (q_get (link_params n) ''alpn'')\<rparr>) = TLS n"
proof -
  from assms obtain t where "TLS n = Some t" "Enabled t" "\<not> Fragment t" "alpn_list (ALPN t)" "Fingerprint t = []" "Reality t = None"
    by (auto simp: link_tls_def split: option.splits)
  then show ?thesis by (cases t) (simp add: link_params_get the_tls_def zero_tls_def splitALPN_join)
qed

lemma insecure_param:
  "isTruthy u (q_get (link_params n) ''allowInsecure'') = Insecure (the_tls n)"
  "isTruthy u (q_get (link_params n) ''insecure'') = Insecure (the_tls n)"
  by (simp_all add: link_params_get lower_words)

lemma trojan_link:
  assumes "shareable n" and "Protocol n = Trojan"
  shows "parseTrojan u (node_link n) = Inr n"
proof -
  from assms(1) obtain r where r: "url_parse u (node_link n) = Some r" "userinfoSecret r = node.Password n"
    "hostPort (UHost r) = Inr (Server n, Port n)" "Query r = link_params n" "fragmentName r = Name n"
    by (rule read_share [OF _ schemes(2), where n = n and secret = "node.Password n" and u = u]) (simp_all add: node_link_def assms(2))
  have ne: "node.Password n \<noteq> []" and tr: "link_transport (Transport n)" and tls: "link_tls Trojan (TLS n)"
    using assms by (auto simp: shareable_def)
  have "parseTrojan u (node_link n) =
    Inr (zero_node\<lparr>Protocol := Trojan, Name := Name n, Server := Server n, Port := Port n, Password := node.Password n,
      Transport := Transport n, TLS := TLS n\<rparr>)"
    using ne unfolding parseTrojan_def r option.case sum.case prod.case Let_def buildTransport_params [OF tr] insecure_param
    by (simp add: simple_tls [OF tls])
  moreover have "zero_node\<lparr>Protocol := Trojan, Name := Name n, Server := Server n, Port := Port n, Password := node.Password n,
      Transport := Transport n, TLS := TLS n\<rparr> = n"
    using assms by (cases n) (auto simp: shareable_def zero_node_def split: option.splits)
  ultimately show ?thesis by simp
qed

lemma hysteria2_link:
  assumes "shareable n" and "Protocol n = Hysteria2"
  shows "parseHysteria2 u (node_link n) = Inr n"
proof -
  from assms(1) obtain r where r: "url_parse u (node_link n) = Some r" "userinfoSecret r = node.Password n"
    "hostPort (UHost r) = Inr (Server n, Port n)" "Query r = link_params n" "fragmentName r = Name n"
    by (rule read_share [OF _ schemes(3), where n = n and secret = "node.Password n" and u = u]) (simp_all add: node_link_def assms(2))
  have ne: "node.Password n \<noteq> []" and tls: "link_tls Hysteria2 (TLS n)"
    using assms by (auto simp: shareable_def)
  have ob: "(if to_lower u (q_get (link_params n) ''obfs'') = ''salamander''
      then Some \<lparr>ObfsType = ''salamander'', ObfsPassword = q_get (link_params n) ''obfs-password''\<rparr> else None) = Obfs n"
  proof (cases "Obfs n")
    case None
    then show ?thesis by (simp add: link_params_get the_obfs_def)
  next
    case (Some x)
    then have "ObfsType x = ''salamander''" using assms by (simp add: shareable_def)
    then show ?thesis using Some lower_words(7) by (cases x) (simp add: link_params_get the_obfs_def)
  qed
  have "parseHysteria2 u (node_link n) =
    Inr (zero_node\<lparr>Protocol := Hysteria2, Name := Name n, Server := Server n, Port := Port n, Password := node.Password n,
      TLS := TLS n, Obfs := Obfs n\<rparr>)"
    using ne unfolding parseHysteria2_def r option.case sum.case prod.case Let_def ob insecure_param
    by (simp add: simple_tls [OF tls])
  moreover have "zero_node\<lparr>Protocol := Hysteria2, Name := Name n, Server := Server n, Port := Port n, Password := node.Password n,
      TLS := TLS n, Obfs := Obfs n\<rparr> = n"
    using assms by (cases n) (auto simp: shareable_def zero_node_def)
  ultimately show ?thesis by simp
qed

text \<open>C32. A node written as a share link, every text percent-encoded, is read back exactly: for a VLESS, Trojan
  or Hysteria2 node whose other fields are at their defaults, \<^verbatim>\<open>ParseLink\<close> returns the node itself, with its
  name, host, port, credential, transport, TLS and REALITY parameters, ALPN list and obfuscation.  (A percent
  sign in the name is left out: the parser decodes the name twice.)\<close>

theorem link_round_trip:
  assumes "shareable n"
  shows "ParseLink u js (node_link n) = Inr n"
proof -
  have h: "host_name (Server n)" and pr: "Protocol n \<in> {VLESS, Trojan, Hysteria2}" using assms by (auto simp: shareable_def)
  let ?s = "if Protocol n = VLESS then ''vless'' else if Protocol n = Trojan then ''trojan'' else ''hysteria2''"
  have sc: "scheme_name ?s" using schemes by simp
  note t = trimmed_link [OF sc h link_params_keys [of n], of "if Protocol n = VLESS then UUID n else node.Password n"
      "nat (Port n)" "Name n", folded node_link_def]
  have l: "to_lower u ?s = ?s" using lower_words by simp
  have "ParseLink u js (node_link n) =
     (if Protocol n = VLESS then parseVLESS u (node_link n) else if Protocol n = Trojan then parseTrojan u (node_link n)
      else parseHysteria2 u (node_link n))"
    unfolding ParseLink_def Let_def t(1,2,4) option.case l using t(3) by simp
  then show ?thesis using pr vless_link [OF assms] trojan_link [OF assms] hysteria2_link [OF assms] by auto
qed

section \<open>Two links that are read as something else\<close>

text \<open>\<^verbatim>\<open>SS://\<close> passes the router, whose scheme test ignores case, but not the prefix strip of the shadowsocks
  parser; the credentials of an encoded link then come out as the method \<^verbatim>\<open>SS\<close>.\<close>

lemma ss_parts:
  "ss_body ''SS://YWVzOnB3@h.example:443'' = Inr ((''SS'', ''//YWVzOnB3''), (''h.example'', 443))"
  "ss_body ''YWVzOnB3@h.example:443'' = Inr ((''aes'', ''pw''), (''h.example'', 443))"
  "trim_prefix ''ss://'' ''SS://YWVzOnB3@h.example:443'' = ''SS://YWVzOnB3@h.example:443''"
  "trim_prefix ''ss://'' ''ss://YWVzOnB3@h.example:443'' = ''YWVzOnB3@h.example:443''"
  "cut (CHR ''#'') ''SS://YWVzOnB3@h.example:443'' = (''SS://YWVzOnB3@h.example:443'', [], False)"
  "cut (CHR ''?'') ''SS://YWVzOnB3@h.example:443'' = (''SS://YWVzOnB3@h.example:443'', [], False)"
  "cut (CHR ''#'') ''YWVzOnB3@h.example:443'' = (''YWVzOnB3@h.example:443'', [], False)"
  "cut (CHR ''?'') ''YWVzOnB3@h.example:443'' = (''YWVzOnB3@h.example:443'', [], False)"
  by code_simp+

lemma ss_routes:
  "trim_space ''SS://YWVzOnB3@h.example:443'' = ''SS://YWVzOnB3@h.example:443''"
  "trim_space ''ss://YWVzOnB3@h.example:443'' = ''ss://YWVzOnB3@h.example:443''"
  "index_str ''://'' ''SS://YWVzOnB3@h.example:443'' = Some 2" "index_str ''://'' ''ss://YWVzOnB3@h.example:443'' = Some 2"
  "list_all ascii ''SS'' \<and> map ascii_lower ''SS'' = ''ss''" "list_all ascii ''ss'' \<and> map ascii_lower ''ss'' = ''ss''"
  by code_simp+

theorem upper_case_ss_misread:
  "ParseLink u js ''SS://YWVzOnB3@h.example:443'' =
     Inr (zero_node\<lparr>Protocol := Shadowsocks, Server := ''h.example'', Port := 443, Method := ''SS'', Password := ''//YWVzOnB3''\<rparr>) \<and>
   ParseLink u js ''ss://YWVzOnB3@h.example:443'' =
     Inr (zero_node\<lparr>Protocol := Shadowsocks, Server := ''h.example'', Port := 443, Method := ''aes'', Password := ''pw''\<rparr>)"
proof -
  have l: "to_lower u ''SS'' = ''ss''" "to_lower u ''ss'' = ''ss''" using ss_routes(5,6) by simp_all
  have z: "zero_node\<lparr>Protocol := Shadowsocks, Name := [], Server := h, Port := p, Method := m, Password := w, Extra := Map.empty\<rparr> =
      zero_node\<lparr>Protocol := Shadowsocks, Server := h, Port := p, Method := m, Password := w\<rparr>" for h p m w
    by (simp add: zero_node_def)
  have "parseShadowsocks ''SS://YWVzOnB3@h.example:443'' =
     Inr (zero_node\<lparr>Protocol := Shadowsocks, Server := ''h.example'', Port := 443, Method := ''SS'', Password := ''//YWVzOnB3''\<rparr>)"
    unfolding parseShadowsocks_def ss_parts Let_def prod.case sum.case ss_name_def ss_plugin_def
    by (simp add: z)
  moreover have "parseShadowsocks ''ss://YWVzOnB3@h.example:443'' =
     Inr (zero_node\<lparr>Protocol := Shadowsocks, Server := ''h.example'', Port := 443, Method := ''aes'', Password := ''pw''\<rparr>)"
    unfolding parseShadowsocks_def ss_parts Let_def prod.case sum.case ss_name_def ss_plugin_def
    by (simp add: z)
  ultimately show ?thesis
    unfolding ParseLink_def ss_routes Let_def option.case by (simp add: l)
qed

text \<open>The name is percent-decoded twice: a fragment that encodes the text \<^verbatim>\<open>%41\<close> is read as the name \<^verbatim>\<open>A\<close>.\<close>

theorem name_decoded_twice:
  "map_option fragmentName (url_parse u ''trojan://pw@h.example:443#%2541'') = Some ''A'' \<and>
   map_option UFragment (url_parse u ''trojan://pw@h.example:443#%2541'') = Some ''%41''"
proof -
  have l: "list_all ascii ''trojan'' \<and> map ascii_lower ''trojan'' = ''trojan''" by code_simp
  have c: "cut (CHR ''#'') ''trojan://pw@h.example:443#%2541'' = (''trojan://pw@h.example:443'', ''%2541'', True)"
    "unescape In_fragment ''%2541'' = Some ''%41''" "unescape In_path ''%41'' = Some ''A''"
    "get_scheme ''trojan://pw@h.example:443'' = Some (''trojan'', ''//pw@h.example:443'')"
    "cut_query ''//pw@h.example:443'' = (''//pw@h.example:443'', [])"
    "\<not> list_ex control_char ''trojan://pw@h.example:443''"
    "cut (CHR ''/'') ''pw@h.example:443'' = (''pw@h.example:443'', [], False)"
    "parse_authority ''pw@h.example:443'' = Some (Some (''pw'', None), ''h.example:443'')"
    by code_simp+
  have lo: "to_lower u ''trojan'' = ''trojan''" using l by simp
  have "has_prefix ''/'' ''//pw@h.example:443''" "has_prefix ''//'' ''//pw@h.example:443''" by (simp_all add: has_prefix_def)
  then have pn: "parse_no_fragment u ''trojan://pw@h.example:443'' = Some (zero_url\<lparr>UScheme := ''trojan'', URawQuery := [],
      UUser := Some (''pw'', None), UHost := ''h.example:443'', UPath := []\<rparr>)"
    unfolding parse_no_fragment_def if_not_P [OF c(6)] c(4) option.case prod.case Let_def lo c(5)
    by (simp add: c(7,8))
  show ?thesis
    unfolding url_parse_def c(1) Let_def prod.case pn option.case c(2)
    by (simp add: fragmentName_def c(3) del: unescape.simps)
qed

section \<open>Concrete instances\<close>

definition ex_shared :: node where
  "ex_shared = zero_node\<lparr>Protocol := Trojan, Name := ''Exit 1'', Server := ''h.example'', Port := 443, Password := ''p@ss/word'',
     TLS := Some (zero_tls\<lparr>Enabled := True, ServerName := ''sni.example'', ALPN := [''h2'', ''http/1.1'']\<rparr>)\<rparr>"

lemma ex_shared_shareable: "shareable ex_shared"
proof -
  have "host_name ''h.example''" by code_simp
  moreover have "alpn_list [''h2'', ''http/1.1'']"
    by (simp add: alpn_list_def trimmed_visible ascii_def)
  ultimately show ?thesis
    by (simp add: shareable_def ex_shared_def link_transport_def link_tls_def zero_node_def zero_tls_def)
qed

lemma link_round_trip_witness: "ParseLink (\<lambda>s. s) (\<lambda>s. None) (node_link ex_shared) = Inr ex_shared"
  by (rule link_round_trip [OF ex_shared_shareable])

lemma accepted_link_usable_witness:
  "\<exists>n. ParseLink (\<lambda>s. s) (\<lambda>s. None) ''ss://YWVzOnB3@h.example:443'' = Inr n \<and> Server n \<noteq> [] \<and> 1 \<le> Port n"
proof -
  obtain n where n: "ParseLink (\<lambda>s. s) (\<lambda>s. None) ''ss://YWVzOnB3@h.example:443'' = Inr n"
    using upper_case_ss_misread by blast
  show ?thesis using accepted_link_usable [OF n] n by blast
qed

lemma pasted_block_accounted_witness:
  "ParseLinks (\<lambda>s. s) (\<lambda>s. None) [join [CHR 0x0A] [''# a'', ''b'']] = ParseLinks (\<lambda>s. s) (\<lambda>s. None) [''# a'', ''b'']"
  using pasted_block_accounted [of "\<lambda>s. s" "\<lambda>s. None" "[''# a'', ''b'']"] by blast

end
