(* ===== verification/Clash_Yaml.thy ===== *)
theory Clash_Yaml
  imports Links "HOL-Library.AList"
begin

text \<open>
  The YAML reader of the Clash importer (\<^verbatim>\<open>core/subscription/clashyaml.go\<close>).  The parser's cursor is the list
  of the lines from it on; a Go map is an association list whose keys are
  distinct, written by \<open>AList.update\<close>.  The block functions call
  one another without a visible measure, so their two loops take fuel; \<open>decodeYAML\<close> passes enough for
  every document.
\<close>

section \<open>Values and lines\<close>

datatype yaml = Scalar string | Seq "yaml list" | Mapping "(string \<times> yaml) list" | Nil_value

definition maxParseDepth :: nat where "maxParseDepth = 256"

record yaml_line =
  y_col :: nat
  y_dash :: bool
  y_contentCol :: nat
  y_text :: string

datatype quoting = Plain | In_single | In_double

definition blank_char :: "char \<Rightarrow> bool" where
  "blank_char c \<longleftrightarrow> c = CHR '' '' \<or> c = CHR 0x09"

definition next_quoting :: "quoting \<Rightarrow> char \<Rightarrow> quoting" where
  "next_quoting q c =
     (case q of
        In_double \<Rightarrow> if c = CHR 0x22 then Plain else In_double
      | In_single \<Rightarrow> if c = CHR 0x27 then Plain else In_single
      | Plain \<Rightarrow> if c = CHR 0x22 then In_double else if c = CHR 0x27 then In_single else Plain)"

text \<open>\<^verbatim>\<open>stripYAMLComment\<close>; \<open>b\<close> says that a hash here would start a comment.\<close>

fun strip_comment :: "quoting \<Rightarrow> bool \<Rightarrow> string \<Rightarrow> string" where
  "strip_comment q b [] = []"
| "strip_comment q b [c] = (if q = Plain \<and> c = CHR ''#'' \<and> b then [] else [c])"
| "strip_comment q b (c # d # s) =
     (if q = In_double \<and> c = CHR 0x5C then c # d # strip_comment q (blank_char d) s
      else if q = Plain \<and> c = CHR ''#'' \<and> b then []
      else c # strip_comment (next_quoting q c) (blank_char c) (d # s))"

definition trim_right_of :: "string \<Rightarrow> string \<Rightarrow> string" where
  "trim_right_of cs s = rev (dropWhile (\<lambda>c. c \<in> set cs) (rev s))"

definition line_of :: "string \<Rightarrow> yaml_line option" where
  "line_of raw0 =
     (let raw = trim_right_of [CHR '' '', CHR 0x09, CHR 0x0D] (strip_comment Plain True raw0);
          n = length (takeWhile blank_char raw); content = drop n raw
      in if content = [] then None
         else if hd content = CHR ''-'' \<and> (tl content = [] \<or> blank_char (hd (tl content))) then
           (let j = Suc (length (takeWhile blank_char (tl content)))
            in Some \<lparr>y_col = n, y_dash = True, y_contentCol = n + j, y_text = drop j content\<rparr>)
         else Some \<lparr>y_col = n, y_dash = False, y_contentCol = n, y_text = content\<rparr>)"

definition tokenizeYAML :: "string \<Rightarrow> yaml_line list" where
  "tokenizeYAML body = concat (map (\<lambda>r. case line_of r of None \<Rightarrow> [] | Some l \<Rightarrow> [l]) (split_on (CHR 0x0A) body))"

section \<open>Scalars, keys and flow values\<close>

fun unquote_double :: "string \<Rightarrow> string" where
  "unquote_double [] = []"
| "unquote_double [c] = [c]"
| "unquote_double (c # d # s) =
     (if c = CHR 0x5C then
        (if d = CHR ''n'' then [CHR 0x0A] else if d = CHR ''t'' then [CHR 0x09] else if d = CHR ''r'' then [CHR 0x0D]
         else if d \<in> {CHR 0x22, CHR 0x5C, CHR ''/''} then [d] else [c, d]) @ unquote_double s
      else c # unquote_double (d # s))"

fun undouble_single :: "string \<Rightarrow> string" where
  "undouble_single [] = []"
| "undouble_single [c] = [c]"
| "undouble_single (c # d # s) =
     (if c = CHR 0x27 \<and> d = CHR 0x27 then c # undouble_single s else c # undouble_single (d # s))"

definition parseYAMLScalar :: "string \<Rightarrow> string" where
  "parseYAMLScalar s0 =
     (let s = trim_space s0
      in if length s \<ge> 2 \<and> hd s = CHR 0x22 \<and> last s = CHR 0x22 then unquote_double (butlast (tl s))
         else if length s \<ge> 2 \<and> hd s = CHR 0x27 \<and> last s = CHR 0x27 then undouble_single (butlast (tl s))
         else s)"

text \<open>The scan of \<^verbatim>\<open>splitYAMLKey\<close>: what stands before and after the first separating colon.\<close>

fun key_scan :: "quoting \<Rightarrow> string \<Rightarrow> (string \<times> string) option" where
  "key_scan q [] = None"
| "key_scan q [c] = (if q = Plain \<and> c = CHR '':'' then Some ([], []) else None)"
| "key_scan q (c # d # s) =
     (if q = In_double \<and> c = CHR 0x5C then map_option (apfst (\<lambda>p. c # d # p)) (key_scan q s)
      else if q = Plain \<and> c = CHR '':'' \<and> blank_char d then Some ([], d # s)
      else map_option (apfst ((#) c)) (key_scan (next_quoting q c) (d # s)))"

definition splitYAMLKey :: "string \<Rightarrow> (string \<times> string) option" where
  "splitYAMLKey s = map_option (\<lambda>(k, v). (parseYAMLScalar (trim_space k), trim_space v)) (key_scan Plain s)"

definition prepend :: "char \<Rightarrow> string list \<Rightarrow> string list" where
  "prepend c ps = (case ps of [] \<Rightarrow> [[c]] | p # ps \<Rightarrow> (c # p) # ps)"

fun splitTopLevel :: "quoting \<Rightarrow> nat \<Rightarrow> char \<Rightarrow> string \<Rightarrow> string list" where
  "splitTopLevel q n sep [] = [[]]"
| "splitTopLevel q n sep (c # s) =
     (if q = In_double \<and> c = CHR 0x5C then
        (case s of [] \<Rightarrow> [[c]] | d # s' \<Rightarrow> prepend c (prepend d (splitTopLevel q n sep s')))
      else if q \<noteq> Plain \<or> c = CHR 0x22 \<or> c = CHR 0x27 then prepend c (splitTopLevel (next_quoting q c) n sep s)
      else if c = CHR ''{'' \<or> c = CHR ''['' then prepend c (splitTopLevel q (Suc n) sep s)
      else if c = CHR ''}'' \<or> c = CHR '']'' then prepend c (splitTopLevel q (n - 1) sep s)
      else if c = sep \<and> n = 0 then [] # splitTopLevel q n sep s
      else prepend c (splitTopLevel q n sep s))"

definition flow_parts :: "string \<Rightarrow> string \<Rightarrow> string \<Rightarrow> string list" where
  "flow_parts open_mark close_mark s =
     filter (\<lambda>p. p \<noteq> [])
       (map trim_space (splitTopLevel Plain 0 (CHR '','') (trim_suffix close_mark (trim_prefix open_mark (trim_space s)))))"

function (sequential) parseYAMLInline :: "nat \<Rightarrow> string \<Rightarrow> yaml"
  and parseFlowMapping :: "nat \<Rightarrow> string \<Rightarrow> (string \<times> yaml) list"
  and parseFlowSequence :: "nat \<Rightarrow> string \<Rightarrow> yaml list"
where
  "parseYAMLInline depth s0 =
     (let s = trim_space s0
      in if depth > maxParseDepth then Scalar (parseYAMLScalar s)
         else if has_prefix ''{'' s then Mapping (parseFlowMapping (Suc depth) s)
         else if has_prefix ''['' s then Seq (parseFlowSequence (Suc depth) s)
         else Scalar (parseYAMLScalar s))"
| "parseFlowMapping depth s =
     (if depth > maxParseDepth then []
      else foldl (\<lambda>m (k, v). AList.update k v m) []
        (concat (map (\<lambda>p. case splitYAMLKey p of None \<Rightarrow> [] | Some (k, v) \<Rightarrow> [(k, parseYAMLInline (Suc depth) v)])
           (flow_parts ''{'' ''}'' s))))"
| "parseFlowSequence depth s =
     (if depth > maxParseDepth then []
      else map (parseYAMLInline (Suc depth)) (flow_parts ''['' '']'' s))"
  by pat_completeness auto
termination
  by (relation "measure (\<lambda>x. case x of Inl (d, _) \<Rightarrow> Suc maxParseDepth - d
      | Inr (Inl (d, _)) \<Rightarrow> Suc maxParseDepth - d | Inr (Inr (d, _)) \<Rightarrow> Suc maxParseDepth - d)") auto

declare parseYAMLInline.simps [simp del] parseFlowMapping.simps [simp del] parseFlowSequence.simps [simp del]

section \<open>Block values\<close>

text \<open>
  A loop of the parser: the indentation, the depth, what has been collected and the lines from the cursor on
  give the finished value and the lines left.  \<open>rm\<close> and \<open>rs\<close> are the mapping and the sequence loop
  the code calls from here.
\<close>

type_synonym 'v reader = "nat \<Rightarrow> nat \<Rightarrow> 'v \<Rightarrow> yaml_line list \<Rightarrow> ('v \<times> yaml_line list) option"

definition parseMapping ::
  "(string \<times> yaml) list reader \<Rightarrow> nat \<Rightarrow> nat \<Rightarrow> yaml_line list \<Rightarrow> ((string \<times> yaml) list \<times> yaml_line list) option"
where
  "parseMapping rm indent depth ls = (if depth > maxParseDepth then Some ([], ls) else rm indent depth [] ls)"

definition parseSequence ::
  "yaml list reader \<Rightarrow> nat \<Rightarrow> nat \<Rightarrow> yaml_line list \<Rightarrow> (yaml list \<times> yaml_line list) option"
where
  "parseSequence rs indent depth ls = (if depth > maxParseDepth then Some ([], ls) else rs indent depth [] ls)"

definition parseBlock ::
  "(string \<times> yaml) list reader \<Rightarrow> yaml list reader \<Rightarrow> nat \<Rightarrow> nat \<Rightarrow> yaml_line list \<Rightarrow>
    (yaml \<times> yaml_line list) option"
where
  "parseBlock rm rs indent depth ls =
     (if depth > maxParseDepth then Some (Nil_value, ls)
      else if ls \<noteq> [] \<and> y_dash (hd ls) \<and> y_col (hd ls) = indent
      then map_option (apfst Seq) (parseSequence rs indent (Suc depth) ls)
      else map_option (apfst Mapping) (parseMapping rm indent (Suc depth) ls))"

definition mapping_step ::
  "(string \<times> yaml) list reader \<Rightarrow> yaml list reader \<Rightarrow> (string \<times> yaml) list reader"
where
  "mapping_step rm rs indent depth m ls =
     (case ls of
        [] \<Rightarrow> Some (m, [])
      | ln # rest \<Rightarrow>
          if y_col ln \<noteq> indent \<or> y_dash ln then Some (m, ls)
          else case splitYAMLKey (y_text ln) of
                 None \<Rightarrow> rm indent depth m rest
               | Some (key, val) \<Rightarrow>
                   if val \<noteq> [] then rm indent depth (AList.update key (parseYAMLInline (Suc depth) val) m) rest
                   else if rest \<noteq> [] \<and> y_dash (hd rest) \<and> indent \<le> y_col (hd rest) then
                     (case parseSequence rs (y_col (hd rest)) (Suc depth) rest of
                        None \<Rightarrow> None
                      | Some (xs, rest') \<Rightarrow> rm indent depth (AList.update key (Seq xs) m) rest')
                   else if rest \<noteq> [] \<and> \<not> y_dash (hd rest) \<and> indent < y_col (hd rest) then
                     (case parseMapping rm (y_col (hd rest)) (Suc depth) rest of
                        None \<Rightarrow> None
                      | Some (m', rest') \<Rightarrow> rm indent depth (AList.update key (Mapping m') m) rest')
                   else rm indent depth (AList.update key (Scalar []) m) rest)"

text \<open>The dash line whose content is the first entry of a mapping is rewritten to a plain line.\<close>

definition undash :: "yaml_line \<Rightarrow> yaml_line" where
  "undash ln = ln\<lparr>y_col := y_contentCol ln, y_dash := False\<rparr>"

definition sequence_step ::
  "(string \<times> yaml) list reader \<Rightarrow> yaml list reader \<Rightarrow> yaml list reader"
where
  "sequence_step rm rs indent depth out ls =
     (case ls of
        [] \<Rightarrow> Some (out, [])
      | ln # rest \<Rightarrow>
          if \<not> y_dash ln \<or> y_col ln \<noteq> indent then Some (out, ls)
          else if y_text ln = [] then
            (if rest \<noteq> [] \<and> indent < y_col (hd rest) then
               (case parseBlock rm rs (y_col (hd rest)) (Suc depth) rest of
                  None \<Rightarrow> None
                | Some (v, rest') \<Rightarrow> rs indent depth (out @ [v]) rest')
             else rs indent depth (out @ [Scalar []]) rest)
          else if hd (y_text ln) = CHR ''{'' \<or> hd (y_text ln) = CHR ''['' then
            rs indent depth (out @ [parseYAMLInline (Suc depth) (y_text ln)]) rest
          else if splitYAMLKey (y_text ln) \<noteq> None then
            (case parseMapping rm (y_contentCol ln) (Suc depth) (undash ln # rest) of
               None \<Rightarrow> None
             | Some (m, rest') \<Rightarrow> rs indent depth (out @ [Mapping m]) rest')
          else rs indent depth (out @ [Scalar (parseYAMLScalar (y_text ln))]) rest)"

text \<open>The two loops, tied together; every turn of one of them takes one unit of fuel.\<close>

primrec block_loops :: "nat \<Rightarrow> (string \<times> yaml) list reader \<times> yaml list reader" where
  "block_loops 0 = (\<lambda>_ _ _ _. None, \<lambda>_ _ _ _. None)"
| "block_loops (Suc f) =
     (mapping_step (fst (block_loops f)) (snd (block_loops f)),
      sequence_step (fst (block_loops f)) (snd (block_loops f)))"

text \<open>A dashed line counts twice: it may first be turned into a plain one.\<close>

definition weight :: "yaml_line list \<Rightarrow> nat" where
  "weight ls = sum_list (map (\<lambda>l. if y_dash l then 2 else 1) ls)"

definition decodeYAML :: "string \<Rightarrow> (string \<times> yaml) list option" where
  "decodeYAML body =
     (let ls = tokenizeYAML body
      in if ls = [] then Some []
         else map_option fst (parseMapping (fst (block_loops (Suc (weight ls)))) (y_col (hd ls)) 0 ls))"

definition clashProxyMaps :: "string \<Rightarrow> ((string \<times> yaml) list option list \<times> bool) option" where
  "clashProxyMaps body =
     (case decodeYAML body of
        None \<Rightarrow> None
      | Some m \<Rightarrow>
          (case map_of m ''proxies'' of
             None \<Rightarrow> Some ([], False)
           | Some (Seq xs) \<Rightarrow> Some (map (\<lambda>x. case x of Mapping p \<Rightarrow> Some p | _ \<Rightarrow> None) xs, True)
           | Some _ \<Rightarrow> Some ([], True)))"

end
