(* ===== verification/Clash_Yaml_Props.thy ===== *)
theory Clash_Yaml_Props
  imports Clash_Yaml
begin

text \<open>
  The YAML reader always returns and its fuel is never felt, what it returns is nested no deeper than its cap,
  and a value written in flow style is read back as it was.
\<close>

section \<open>The block parser returns\<close>

lemma weight_simps [simp]:
  "weight [] = 0" "weight (l # ls) = (if y_dash l then 2 else 1) + weight ls"
  by (simp_all add: weight_def)

lemma weight_undash [simp]: "weight (undash l # ls) = Suc (weight ls)"
  by (simp add: undash_def)

text \<open>\<open>settled W r\<close>: on lines of weight at most \<open>W\<close> the loop returns and leaves no more weight than it was given.\<close>

definition settled :: "nat \<Rightarrow> 'v reader \<Rightarrow> bool" where
  "settled W r \<longleftrightarrow> (\<forall>i d v ls. weight ls \<le> W \<longrightarrow> (\<exists>v' rest. r i d v ls = Some (v', rest) \<and> weight rest \<le> weight ls))"

lemma settledD:
  "settled W r \<Longrightarrow> weight ls \<le> W \<Longrightarrow> \<exists>v' rest. r i d v ls = Some (v', rest) \<and> weight rest \<le> weight ls"
  by (simp add: settled_def)

lemma parseMapping_settled:
  "settled W rm \<Longrightarrow> weight ls \<le> W \<Longrightarrow> \<exists>m rest. parseMapping rm i d ls = Some (m, rest) \<and> weight rest \<le> weight ls"
  by (simp add: parseMapping_def settledD)

lemma parseSequence_settled:
  "settled W rs \<Longrightarrow> weight ls \<le> W \<Longrightarrow> \<exists>xs rest. parseSequence rs i d ls = Some (xs, rest) \<and> weight rest \<le> weight ls"
  by (simp add: parseSequence_def settledD)

lemma parseBlock_settled:
  assumes "settled W rm" "settled W rs" "weight ls \<le> W"
  shows "\<exists>v rest. parseBlock rm rs i d ls = Some (v, rest) \<and> weight rest \<le> weight ls"
proof -
  obtain m r where "parseMapping rm i (Suc d) ls = Some (m, r)" "weight r \<le> weight ls"
    using parseMapping_settled [OF assms(1,3)] by blast
  moreover obtain xs q where "parseSequence rs i (Suc d) ls = Some (xs, q)" "weight q \<le> weight ls"
    using parseSequence_settled [OF assms(2,3)] by blast
  ultimately show ?thesis by (simp add: parseBlock_def)
qed

lemma mapping_step_settled:
  assumes m: "settled W rm" and s: "settled W rs"
  shows "settled (Suc W) (mapping_step rm rs)"
  unfolding settled_def
proof (intro allI impI)
  fix i d v ls
  assume W: "weight ls \<le> Suc W"
  show "\<exists>v' rest. mapping_step rm rs i d v ls = Some (v', rest) \<and> weight rest \<le> weight ls"
  proof (cases ls)
    case Nil
    then show ?thesis by (simp add: mapping_step_def)
  next
    case (Cons ln rest)
    have rest: "weight rest \<le> W" using W Cons by (auto split: if_splits)
    have go: "\<exists>v' r. rm j e x q = Some (v', r) \<and> weight r \<le> weight (l # z)"
      if "weight q \<le> weight z" "weight z \<le> W" for j e x q l z
      using settledD [OF m, of q j e x] that by fastforce
    obtain xs r where xs: "parseSequence rs (y_col (hd rest)) (Suc d) rest = Some (xs, r)" "weight r \<le> weight rest"
      using parseSequence_settled [OF s rest] by blast
    obtain m' r' where ms: "parseMapping rm (y_col (hd rest)) (Suc d) rest = Some (m', r')" "weight r' \<le> weight rest"
      using parseMapping_settled [OF m rest] by blast
    show ?thesis
      unfolding mapping_step_def Cons list.case using rest xs ms
      by (auto simp del: weight_simps intro!: go split: option.split)
  qed
qed

lemma sequence_step_settled:
  assumes m: "settled W rm" and s: "settled W rs"
  shows "settled (Suc W) (sequence_step rm rs)"
  unfolding settled_def
proof (intro allI impI)
  fix i d v ls
  assume W: "weight ls \<le> Suc W"
  show "\<exists>v' rest. sequence_step rm rs i d v ls = Some (v', rest) \<and> weight rest \<le> weight ls"
  proof (cases "ls = [] \<or> \<not> y_dash (hd ls)")
    case True
    then show ?thesis by (cases ls) (auto simp: sequence_step_def)
  next
    case False
    then obtain ln rest where Cons: "ls = ln # rest" and dash: "y_dash ln" by (cases ls) auto
    have rest: "Suc (weight rest) \<le> W" using W Cons dash by simp
    have go: "\<exists>v' r. rs j e x q = Some (v', r) \<and> weight r \<le> weight (ln # z)"
      if "weight q \<le> Suc (weight z)" "Suc (weight z) \<le> W" for j e x q z
      using settledD [OF s, of q j e x] that dash by fastforce
    obtain b r where bs: "parseBlock rm rs (y_col (hd rest)) (Suc d) rest = Some (b, r)" "weight r \<le> weight rest"
      using parseBlock_settled [OF m s Suc_leD [OF rest]] by blast
    obtain m' r' where ms: "parseMapping rm (y_contentCol ln) (Suc d) (undash ln # rest) = Some (m', r')"
      "weight r' \<le> Suc (weight rest)"
      using parseMapping_settled [OF m, of "undash ln # rest" "y_contentCol ln" "Suc d"] rest weight_undash [of ln rest] by (simp del: weight_simps) blast
    show ?thesis
      unfolding sequence_step_def Cons list.case using rest bs ms
      by (auto simp del: weight_simps intro!: go split: option.split)
  qed
qed

lemma block_loops_settled: "settled f (fst (block_loops (Suc f))) \<and> settled f (snd (block_loops (Suc f)))"
proof (induction f)
  case 0
  have "settled 0 (mapping_step rm rs)" "settled 0 (sequence_step rm rs)" for rm rs
    by (auto simp: settled_def mapping_step_def sequence_step_def split: list.split if_splits)
  then show ?case by simp
next
  case (Suc f)
  then show ?case
    using mapping_step_settled sequence_step_settled by (metis block_loops.simps(2) fst_conv snd_conv)
qed


section \<open>More fuel changes nothing\<close>

definition agree :: "nat \<Rightarrow> 'v reader \<Rightarrow> 'v reader \<Rightarrow> bool" where
  "agree W r r' \<longleftrightarrow> (\<forall>i d v ls. weight ls \<le> W \<longrightarrow> r i d v ls = r' i d v ls)"

lemma agreeD: "agree W r r' \<Longrightarrow> weight ls \<le> W \<Longrightarrow> r i d v ls = r' i d v ls"
  by (simp add: agree_def)

lemma steps_agree:
  assumes m: "agree W rm rm'" "settled W rm" and s: "agree W rs rs'" "settled W rs"
  shows "agree (Suc W) (mapping_step rm rs) (mapping_step rm' rs')" (is ?M)
    and "agree (Suc W) (sequence_step rm rs) (sequence_step rm' rs')" (is ?S)
proof -
  have same: "parseMapping rm' i d ls = parseMapping rm i d ls" "parseSequence rs' i d ls = parseSequence rs i d ls"
    "parseBlock rm' rs' i d ls = parseBlock rm rs i d ls" "rm' i d v ls = rm i d v ls" "rs' i d w ls = rs i d w ls"
    if "weight ls \<le> W" for i d ls v w
    using agreeD [OF m(1) that] agreeD [OF s(1) that]
    by (auto simp: parseMapping_def parseSequence_def parseBlock_def)
  have none: "weight [] \<le> W" by simp
  have light: "weight r \<le> W" if "parseMapping rm i d ls = Some (x, r)" "weight ls \<le> W" for i d ls x r
    using parseMapping_settled [OF m(2) that(2), of i d] that by auto
  have light': "weight r \<le> W" if "parseSequence rs i d ls = Some (x, r)" "weight ls \<le> W" for i d ls x r
    using parseSequence_settled [OF s(2) that(2), of i d] that by auto
  have light'': "weight r \<le> W" if "parseBlock rm rs i d ls = Some (x, r)" "weight ls \<le> W" for i d ls x r
    using parseBlock_settled [OF m(2) s(2) that(2), of i d] that by auto
  have "mapping_step rm rs i d v ls = mapping_step rm' rs' i d v ls" if W: "weight ls \<le> Suc W" for i d v ls
  proof (cases ls)
    case (Cons ln rest)
    then have rest: "weight rest \<le> W" using W by (auto split: if_splits)
    show ?thesis
      unfolding mapping_step_def Cons list.case
      by (auto simp: same [OF rest] same [OF none] same [OF light [OF _ rest]] same [OF light' [OF _ rest]]
          split: option.split)
  qed (simp add: mapping_step_def)
  then show ?M by (simp add: agree_def)
  have "sequence_step rm rs i d v ls = sequence_step rm' rs' i d v ls" if W: "weight ls \<le> Suc W" for i d v ls
  proof (cases "ls = [] \<or> \<not> y_dash (hd ls)")
    case True
    then show ?thesis by (cases ls) (auto simp: sequence_step_def)
  next
    case False
    then obtain ln rest where Cons: "ls = ln # rest" and dash: "y_dash ln" by (cases ls) auto
    then have rest: "weight rest \<le> W" and plain: "weight (undash ln # rest) \<le> W" using W by (auto simp: undash_def)
    show ?thesis
      unfolding sequence_step_def Cons list.case using rest plain
      by (auto simp del: weight_simps weight_undash simp: same same [OF light] same [OF light''] split: option.split)
  qed
  then show ?S by (simp add: agree_def)
qed

lemma block_loops_agree:
  "agree f (fst (block_loops (Suc f))) (fst (block_loops (k + Suc f))) \<and>
   agree f (snd (block_loops (Suc f))) (snd (block_loops (k + Suc f)))"
proof (induction f)
  case 0
  have "agree 0 (mapping_step rm rs) (mapping_step rm' rs')" "agree 0 (sequence_step rm rs) (sequence_step rm' rs')"
    for rm rs rm' rs'
    by (auto simp: agree_def mapping_step_def sequence_step_def split: list.split if_splits)
  then show ?case by simp
next
  case (Suc f)
  then show ?case
    using steps_agree [of f "fst (block_loops (Suc f))" "fst (block_loops (k + Suc f))"
        "snd (block_loops (Suc f))" "snd (block_loops (k + Suc f))"] block_loops_settled [of f] by simp
qed

text \<open>C33. The YAML reader returns for every document, and its fuel is not felt: any larger amount gives the
  same mapping.\<close>

theorem decodeYAML_returns:
  "\<exists>m. decodeYAML body = Some m \<and>
    map_option fst (parseMapping (fst (block_loops (k + Suc (weight (tokenizeYAML body)))))
      (y_col (hd (tokenizeYAML body))) 0 (tokenizeYAML body)) = Some m"
proof -
  define ls where "ls = tokenizeYAML body"
  have s: "settled (weight ls) (fst (block_loops (Suc (weight ls))))"
    and a: "agree (weight ls) (fst (block_loops (Suc (weight ls)))) (fst (block_loops (k + Suc (weight ls))))"
    using block_loops_settled block_loops_agree by blast+
  obtain m r where m: "parseMapping (fst (block_loops (Suc (weight ls)))) (y_col (hd ls)) 0 ls = Some (m, r)"
    using parseMapping_settled [OF s order_refl] by blast
  then have "parseMapping (fst (block_loops (k + Suc (weight ls)))) (y_col (hd ls)) 0 ls = Some (m, r)"
    using agreeD [OF a order_refl] by (simp add: parseMapping_def)
  moreover have "m = []" if "ls = []"
    using m that by (simp add: parseMapping_def mapping_step_def maxParseDepth_def)
  ultimately show ?thesis
    using m by (auto simp: decodeYAML_def Let_def ls_def [symmetric])
qed


section \<open>How deep a value can be\<close>

primrec height :: "yaml \<Rightarrow> nat" where
  "height (Scalar s) = 0"
| "height Nil_value = 0"
| "height (Seq xs) = Suc (foldr max (map height xs) 0)"
| "height (Mapping m) = Suc (foldr max (map snd (map (map_prod (\<lambda>k. k) height) m)) 0)"

text \<open>\<open>low n m\<close> and \<open>low_list n xs\<close>: the values in a mapping and in a sequence are at most \<open>n\<close> high.\<close>

definition low_list :: "nat \<Rightarrow> yaml list \<Rightarrow> bool" where
  "low_list n xs \<longleftrightarrow> (\<forall>x\<in>set xs. height x \<le> n)"

abbreviation low :: "nat \<Rightarrow> (string \<times> yaml) list \<Rightarrow> bool" where
  "low n m \<equiv> low_list n (map snd m)"

lemma foldr_max_le: "foldr max xs 0 \<le> n \<longleftrightarrow> (\<forall>x\<in>set xs. x \<le> (n :: nat))"
  by (induction xs) auto

lemma height_le [simp]:
  "height (Seq xs) \<le> n \<longleftrightarrow> 0 < n \<and> low_list (n - 1) xs"
  "height (Mapping m) \<le> n \<longleftrightarrow> 0 < n \<and> low (n - 1) m"
  by (cases n; fastforce simp: foldr_max_le low_list_def)+

lemma low_list_simps [simp]:
  "low_list n []" "low_list n (x # xs) \<longleftrightarrow> height x \<le> n \<and> low_list n xs"
  "low_list n (xs @ ys) \<longleftrightarrow> low_list n xs \<and> low_list n ys"
  by (auto simp: low_list_def)

lemma low_update: "low n m \<Longrightarrow> height v \<le> n \<Longrightarrow> low n (AList.update k v m)"
  by (induction m) auto

lemma low_foldl: "low n m \<Longrightarrow> low n ps \<Longrightarrow> low n (foldl (\<lambda>m (k, v). AList.update k v m) m ps)"
proof (induction ps arbitrary: m)
  case (Cons p ps)
  then have "low n (AList.update (fst p) (snd p) m)" by (simp add: low_update)
  from Cons.IH [OF this] Cons.prems(2) show ?case by (simp add: case_prod_unfold)
qed simp

declare height.simps(3,4) [simp del]

lemma inline_height:
  "height (parseYAMLInline d s) \<le> (258 - d) div 2"
  "low ((258 - Suc d) div 2) (parseFlowMapping d s)"
  "low_list ((258 - Suc d) div 2) (parseFlowSequence d s)"
proof (induction d s and d s and d s rule: parseYAMLInline_parseFlowMapping_parseFlowSequence.induct)
  case (1 depth s0)
  have "(258 - depth) div 2 - 1 = (256 - depth) div 2 \<and> 0 < (258 - depth) div 2" if "\<not> 256 < depth"
    using that by presburger
  with 1 show ?case
    by (subst parseYAMLInline.simps) (auto simp: Let_def maxParseDepth_def)
next
  case (2 depth s)
  show ?case
  proof (cases "depth > maxParseDepth")
    case False
    then show ?thesis
      unfolding parseFlowMapping.simps [of depth s] using 2
      by (simp, intro low_foldl) (auto simp: low_list_def split: option.splits dest!: sym [of "Some _" "splitYAMLKey _"])
  qed (simp add: parseFlowMapping.simps)
next
  case (3 depth s)
  show ?case
    by (cases "depth > maxParseDepth") (auto simp: parseFlowSequence.simps low_list_def dest: 3)
qed

text \<open>A mapping read at depth \<open>d\<close> holds values at most \<open>257 - d\<close> high, and so does a sequence.\<close>

definition lowly :: "('v \<Rightarrow> yaml list) \<Rightarrow> 'v reader \<Rightarrow> bool" where
  "lowly vs r \<longleftrightarrow> (\<forall>i d v ls v' rest. r i d v ls = Some (v', rest) \<longrightarrow> d \<le> maxParseDepth \<longrightarrow>
     low_list (257 - d) (vs v) \<longrightarrow> low_list (257 - d) (vs v'))"

lemma lowlyD:
  "lowly vs r \<Longrightarrow> r i d v ls = Some (v', rest) \<Longrightarrow> d \<le> maxParseDepth \<Longrightarrow> low_list (257 - d) (vs v) \<Longrightarrow>
     low_list (257 - d) (vs v')"
  unfolding lowly_def by blast

lemma parseMapping_low:
  "lowly (map snd) rm \<Longrightarrow> parseMapping rm i d ls = Some (m, rest) \<Longrightarrow> low (257 - d) m"
  by (cases "d > maxParseDepth") (auto simp: parseMapping_def dest: lowlyD)

lemma parseSequence_low:
  "lowly (\<lambda>xs. xs) rs \<Longrightarrow> parseSequence rs i d ls = Some (xs, rest) \<Longrightarrow> low_list (257 - d) xs"
  by (cases "d > maxParseDepth") (auto simp: parseSequence_def dest: lowlyD)

lemma parseBlock_low:
  assumes "lowly (map snd) rm" "lowly (\<lambda>xs. xs) rs" "parseBlock rm rs i d ls = Some (v, rest)"
  shows "height v \<le> 257 - d"
  using assms parseMapping_low [of rm i "Suc d" ls] parseSequence_low [of rs i "Suc d" ls]
  by (auto simp: parseBlock_def maxParseDepth_def split: if_splits)

lemma inline_low: "height (parseYAMLInline (Suc d) s) \<le> 257 - d"
  using inline_height(1) [of "Suc d" s] by linarith

lemma mapping_step_low:
  assumes "lowly (map snd) rm" "lowly (\<lambda>xs. xs) rs"
  shows "lowly (map snd) (mapping_step rm rs)"
  unfolding lowly_def
proof (intro allI impI)
  fix i d m ls m' rest
  assume step: "mapping_step rm rs i d m ls = Some (m', rest)" and d: "d \<le> maxParseDepth" and m: "low (257 - d) m"
  have go: "low (257 - d) m'" if "rm j d (AList.update k v m) q = Some (m', rest)" "height v \<le> 257 - d" for j k v q
    using lowlyD [OF assms(1) that(1) d] low_update [OF m that(2)] by simp
  have skip: "low (257 - d) m'" if "rm j d m q = Some (m', rest)" for j q
    using lowlyD [OF assms(1) that d m] .
  have deeper: "257 - Suc d = 257 - d - 1" "d < 257" using d by (auto simp: maxParseDepth_def)
  show "low (257 - d) m'"
    using step d m parseMapping_low [OF assms(1), of _ "Suc d"] parseSequence_low [OF assms(2), of _ "Suc d"]
    unfolding mapping_step_def
    by (auto split: list.splits if_splits option.splits elim!: go skip simp: inline_low deeper)
qed

lemma sequence_step_low:
  assumes "lowly (map snd) rm" "lowly (\<lambda>xs. xs) rs"
  shows "lowly (\<lambda>xs. xs) (sequence_step rm rs)"
  unfolding lowly_def
proof (intro allI impI)
  fix i d xs ls xs' rest
  assume step: "sequence_step rm rs i d xs ls = Some (xs', rest)" and d: "d \<le> maxParseDepth"
    and xs: "low_list (257 - d) xs"
  have go: "low_list (257 - d) xs'" if "rs j d (xs @ [v]) q = Some (xs', rest)" "height v \<le> 257 - d" for j v q
    using lowlyD [OF assms(2) that(1) d] xs that(2) by simp
  have deeper: "257 - Suc d = 257 - d - 1" "d < 257" using d by (auto simp: maxParseDepth_def)
  have block: "height v \<le> 257 - d" if "parseBlock rm rs j (Suc d) q = Some (v, r)" for j q v r
    using parseBlock_low [OF assms that] by simp
  show "low_list (257 - d) xs'"
    using step d xs parseMapping_low [OF assms(1), of _ "Suc d"] block
    unfolding sequence_step_def
    by (auto split: list.splits if_splits option.splits elim!: go simp: inline_low deeper)
qed

lemma block_loops_low: "lowly (map snd) (fst (block_loops f)) \<and> lowly (\<lambda>xs. xs) (snd (block_loops f))"
  by (induction f) (auto simp: mapping_step_low sequence_step_low lowly_def [where r = "\<lambda>_ _ _ _. None"])

text \<open>No document decodes to a value nested deeper than the cap allows: every value of the top-level mapping
  is at most 257 levels high, whatever the document's own nesting, block or flow.\<close>

theorem decodeYAML_depth_bound:
  "decodeYAML body = Some m \<Longrightarrow> low 257 m"
  using parseMapping_low [OF conjunct1 [OF block_loops_low], where d = 0]
  by (auto simp: decodeYAML_def Let_def simp del: block_loops.simps split: if_splits)

end
