(* ===== verification/Clash_Flow.thy ===== *)
theory Clash_Flow
  imports Clash_Yaml_Props
begin

text \<open>
  Writing a value in YAML flow style, every key and scalar double-quoted, and reading it back: quoting hides a
  value's own commas, colons, hashes, brackets and line ends from all of the scanners.
\<close>

section \<open>Strings that start and end visibly\<close>

definition visible :: "char \<Rightarrow> bool" where
  "visible c \<longleftrightarrow> ascii c \<and> 33 \<le> (of_char c :: nat)"

lemma space_runes_invisible: "list_all (\<lambda>p. p \<noteq> [] \<and> list_all (\<lambda>c. \<not> visible c) p) space_runes"
  by code_simp

lemma trimmed_ends:
  assumes "s \<noteq> []" "visible (hd s)" "visible (last s)"
  shows "trimmed s"
proof -
  have "\<not> has_prefix p s \<and> \<not> has_suffix p s" if "p \<in> set space_runes" for p
  proof -
    have ne: "p \<noteq> []" and inv: "\<not> visible c" if "c \<in> set p" for c
      using space_runes_invisible \<open>p \<in> set space_runes\<close> that by (auto simp: list_all_iff)
    have "p \<noteq> []" using space_runes_invisible that by (auto simp: list_all_iff)
    then show ?thesis
      using assms inv hd_in_set [of p] last_in_set [of p] by (auto simp: has_prefix_append has_suffix_append)
  qed
  then show ?thesis by (simp add: trimmed_def)
qed

lemma trim_space_blank [simp]:
  assumes "trimmed s"
  shows "trim_space (CHR '' '' # s) = s"
proof -
  have "find (\<lambda>p. p \<noteq> [] \<and> has_prefix p (CHR '' '' # s)) space_runes = Some [CHR '' '']"
    by (simp add: space_runes_def has_prefix_def)
  then have "strip_runes space_runes (CHR '' '' # s) = strip_runes space_runes s"
    by (subst strip_runes.simps) simp
  then show ?thesis
    using trim_space_trimmed [OF assms] by (simp add: trim_space_def trim_left_def)
qed

section \<open>The printer\<close>

primrec esc :: "string \<Rightarrow> string" where
  "esc [] = []"
| "esc (c # s) =
     (if c = CHR 0x22 \<or> c = CHR 0x5C then [CHR 0x5C, c]
      else if c = CHR 0x0A then [CHR 0x5C, CHR ''n''] else [c]) @ esc s"

definition quoted :: "string \<Rightarrow> string" where
  "quoted s = CHR 0x22 # esc s @ [CHR 0x22]"

definition entry :: "string \<times> string \<Rightarrow> string" where
  "entry p = quoted (fst p) @ '': '' @ snd p"

primrec flow :: "yaml \<Rightarrow> string" where
  "flow (Scalar s) = quoted s"
| "flow Nil_value = []"
| "flow (Seq xs) = ''['' @ join '', '' (map flow xs) @ '']''"
| "flow (Mapping m) = ''{'' @ join '', '' (map entry (map (map_prod (\<lambda>k. k) flow) m)) @ ''}''"

text \<open>The values the reader can return below its depth cap: no missing value, and keys that are distinct.\<close>

primrec printable :: "yaml \<Rightarrow> bool" where
  "printable (Scalar s) = True"
| "printable Nil_value = False"
| "printable (Seq xs) = list_all (\<lambda>b. b) (map printable xs)"
| "printable (Mapping m) = (distinct (map fst m) \<and> list_all snd (map (map_prod (\<lambda>k. k) printable) m))"

section \<open>Quoted text is opaque\<close>

lemma unquote_esc: "unquote_double (esc s) = s"
proof (induction s)
  case (Cons c s)
  have "unquote_double (c # t) = c # unquote_double t" if "c \<noteq> CHR 0x5C" for t
    using that by (cases t) auto
  with Cons show ?case by auto
qed simp

lemma scalar_quoted [simp]: "parseYAMLScalar (quoted s) = s"
proof -
  have "trimmed (quoted s)"
    by (rule trimmed_ends) (simp_all add: quoted_def visible_def ascii_def)
  then show ?thesis
    by (simp add: parseYAMLScalar_def trim_space_trimmed) (simp add: quoted_def unquote_esc butlast_append)
qed

text \<open>\<open>quiet w\<close>: the comment stripper passes over \<open>w\<close>; \<open>spans n w\<close>: the splitter at nesting \<open>n\<close> does.\<close>

definition quiet :: "string \<Rightarrow> bool" where
  "quiet w \<longleftrightarrow> (\<forall>b rest. \<exists>b'. strip_comment Plain b (w @ rest) = w @ strip_comment Plain b' rest)"

definition prepends :: "string \<Rightarrow> string list \<Rightarrow> string list" where
  "prepends w ps = foldr prepend w ps"

definition spans :: "nat \<Rightarrow> string \<Rightarrow> bool" where
  "spans n w \<longleftrightarrow>
     (\<forall>rest. splitTopLevel Plain n (CHR '','') (w @ rest) = prepends w (splitTopLevel Plain n (CHR '','') rest))"

lemma strip_cons:
  assumes "\<not> (q = In_double \<and> c = CHR 0x5C)" "\<not> (q = Plain \<and> c = CHR ''#'' \<and> b)"
  shows "strip_comment q b (c # s) = c # strip_comment (next_quoting q c) (blank_char c) s"
  using assms by (cases s) auto

lemma strip_esc: "\<exists>b'. strip_comment In_double b (esc s @ rest) = esc s @ strip_comment In_double b' rest"
proof (induction s arbitrary: b)
  case (Cons c s)
  show ?case
  proof (cases "c = CHR 0x22 \<or> c = CHR 0x5C \<or> c = CHR 0x0A")
    case True
    then show ?thesis using Cons.IH by auto
  next
    case False
    then show ?thesis
      using Cons.IH [of "blank_char c"] strip_cons [of In_double c b "esc s @ rest"] by (auto simp: next_quoting_def)
  qed
qed auto

lemma quiet_Nil [simp]: "quiet []"
  by (auto simp: quiet_def)

lemma quiet_append [intro]: "quiet v \<Longrightarrow> quiet w \<Longrightarrow> quiet (v @ w)"
  unfolding quiet_def by (metis append.assoc)

lemma quiet_char: "c \<notin> {CHR ''#'', CHR 0x22, CHR 0x27} \<Longrightarrow> quiet [c]"
  unfolding quiet_def using strip_cons [of Plain c] by (auto simp: next_quoting_def)

lemma quiet_Cons: "c \<notin> {CHR ''#'', CHR 0x22, CHR 0x27} \<Longrightarrow> quiet w \<Longrightarrow> quiet (c # w)"
  using quiet_append [OF quiet_char] by simp

lemma quiet_quoted [simp]: "quiet (quoted s)"
  unfolding quiet_def
proof (intro allI)
  fix b rest
  obtain b' where "strip_comment In_double (blank_char (CHR 0x22)) (esc s @ CHR 0x22 # rest) =
      esc s @ strip_comment In_double b' (CHR 0x22 # rest)"
    using strip_esc by blast
  then have "strip_comment Plain b (quoted s @ rest) = quoted s @ strip_comment Plain (blank_char (CHR 0x22)) rest"
    by (simp add: quoted_def strip_cons next_quoting_def)
  then show "\<exists>b'. strip_comment Plain b (quoted s @ rest) = quoted s @ strip_comment Plain b' rest" ..
qed

lemma quiet_strip: "quiet w \<Longrightarrow> strip_comment Plain b w = w"
  unfolding quiet_def by (metis append_Nil2 strip_comment.simps(1))

lemma prepends_simps [simp]:
  "prepends [] ps = ps" "prepends (c # w) ps = prepend c (prepends w ps)" "prepends (v @ w) ps = prepends v (prepends w ps)"
  by (simp_all add: prepends_def)

lemma prepends_Cons [simp]: "prepends w (p # ps) = (w @ p) # ps"
  by (induction w) (auto simp: prepend_def)

lemma spans_append: "spans n v \<Longrightarrow> spans n w \<Longrightarrow> spans n (v @ w)"
  by (simp add: spans_def)

lemma spans_Nil [simp]: "spans n []"
  by (simp add: spans_def)

lemma split_esc: "splitTopLevel In_double n sep (esc s @ rest) = prepends (esc s) (splitTopLevel In_double n sep rest)"
  by (induction s) (auto simp: next_quoting_def)

lemma spans_quoted [simp]: "spans n (quoted s)"
  by (simp add: spans_def quoted_def next_quoting_def split_esc)

lemma spans_Cons:
  "c \<notin> {CHR 0x22, CHR 0x27, CHR ''{'', CHR ''['', CHR ''}'', CHR '']''} \<Longrightarrow> c \<noteq> CHR '','' \<or> 0 < n \<Longrightarrow>
     spans n w \<Longrightarrow> spans n (c # w)"
  by (auto simp: spans_def)

lemma spans_brackets:
  "spans (Suc n) w \<Longrightarrow> spans n (CHR ''['' # w @ '']'')" "spans (Suc n) w \<Longrightarrow> spans n (CHR ''{'' # w @ ''}'')"
  by (simp_all add: spans_def)


lemma join_closed:
  assumes "\<And>w. w \<in> set ws \<Longrightarrow> P w" "P []" "\<And>v w. P v \<Longrightarrow> P w \<Longrightarrow> P (v @ w)" "P sep"
  shows "P (join sep ws)"
  using assms(1)
proof (induction ws)
  case (Cons w ws)
  then show ?case using assms(2-4) by (cases ws) auto
qed (use assms(2) in auto)

lemma flow_opaque:
  "quiet (flow y)" "spans n (flow y)"
proof -
  have "quiet (flow y) \<and> (\<forall>n. spans n (flow y))"
  proof (induction y)
    case (Scalar s)
    then show ?case by simp
  next
    case (Seq xs)
    have "quiet (join '', '' (map flow xs))" "spans (Suc n) (join '', '' (map flow xs))" for n
      by (rule join_closed; use Seq in \<open>auto simp: spans_append quiet_Cons spans_Cons\<close>)+
    then show ?case
      by (auto intro!: quiet_Cons quiet_append simp: spans_brackets)
  next
    case (Mapping m)
    have e: "quiet (entry (k, flow v)) \<and> spans n (entry (k, flow v))" if "(k, v) \<in> set m" for k v n
      using Mapping [OF that, of v] by (auto simp: entry_def intro!: quiet_append quiet_Cons spans_append spans_Cons)
    have "quiet (join '', '' (map entry (map (map_prod (\<lambda>k. k) flow) m)))"
      "spans (Suc n) (join '', '' (map entry (map (map_prod (\<lambda>k. k) flow) m)))" for n
      by (rule join_closed; use e in \<open>auto simp: spans_append quiet_Cons spans_Cons\<close>)+
    then show ?case
      by (auto intro!: quiet_Cons quiet_append simp: spans_brackets)
  qed simp
  then show "quiet (flow y)" "spans n (flow y)" by auto
qed

section \<open>Reading back\<close>

lemma flow_ends:
  "printable y \<Longrightarrow> trimmed (flow y) \<and> flow y \<noteq> []"
  by (cases y) (auto intro!: trimmed_ends simp: quoted_def visible_def ascii_def)

lemma entry_ends: "printable y \<Longrightarrow> trimmed (entry (k, flow y)) \<and> entry (k, flow y) \<noteq> []"
  by (cases y) (auto intro!: trimmed_ends simp: entry_def quoted_def visible_def ascii_def)

lemma split_join:
  assumes "\<And>w. w \<in> set ws \<Longrightarrow> spans 0 w"
  shows "splitTopLevel Plain 0 (CHR '','') (join '', '' ws) =
    (case ws of [] \<Rightarrow> [[]] | w # ws \<Rightarrow> w # map ((#) (CHR '' '')) ws)"
  using assms
proof (induction ws)
  case (Cons w ws)
  have w: "splitTopLevel Plain 0 (CHR '','') (w @ rest) = prepends w (splitTopLevel Plain 0 (CHR '','') rest)" for rest
    using Cons.prems [of w] by (simp add: spans_def)
  show ?case
  proof (cases ws)
    case Nil
    then show ?thesis using w [of "[]"] by simp
  next
    case (Cons v vs)
    then show ?thesis using w [of "'', '' @ join '', '' ws"] Cons.IH Cons.prems by (simp add: prepend_def)
  qed
qed simp

lemma trim_space_Nil [simp]: "trim_space [] = []"
  by (rule trim_space_trimmed) (auto simp: trimmed_def has_prefix_append has_suffix_append dest: space_rune_not_Nil)

lemma parts_join:
  assumes "\<And>w. w \<in> set ws \<Longrightarrow> spans 0 w \<and> trimmed w \<and> w \<noteq> []"
  shows "filter (\<lambda>p. p \<noteq> []) (map trim_space (splitTopLevel Plain 0 (CHR '','') (join '', '' ws))) = ws"
proof (cases ws)
  case (Cons w vs)
  have "map trim_space (map ((#) (CHR '' '')) vs) = vs"
    unfolding map_map using assms Cons by (intro map_idI) auto
  moreover have "trim_space w = w" using assms Cons trim_space_trimmed by simp
  moreover have "filter (\<lambda>p. p \<noteq> []) ws = ws" using assms by (simp add: filter_id_conv)
  ultimately show ?thesis using split_join [of ws] assms Cons by simp
qed simp

lemma key_scan_cons:
  assumes "\<not> (q = In_double \<and> c = CHR 0x5C)" "\<not> (q = Plain \<and> c = CHR '':'')"
  shows "key_scan q (c # s) = map_option (apfst ((#) c)) (key_scan (next_quoting q c) s)"
  using assms by (cases s) auto

lemma key_scan_esc:
  "key_scan In_double (esc s @ rest) = map_option (apfst (\<lambda>p. esc s @ p)) (key_scan In_double rest)"
proof (induction s)
  case (Cons c s)
  then show ?case
    by (cases "c = CHR 0x22 \<or> c = CHR 0x5C \<or> c = CHR 0x0A")
      (auto simp: key_scan_cons next_quoting_def option.map_comp comp_def apfst_def map_prod_def case_prod_unfold)
qed (simp add: apfst_def map_prod_def option.map_ident)

lemma split_key_entry [simp]:
  assumes "trimmed v"
  shows "splitYAMLKey (entry (k, v)) = Some (k, v)"
proof -
  have "trimmed (quoted k)" by (rule trimmed_ends) (auto simp: quoted_def visible_def ascii_def)
  moreover have "key_scan Plain (entry (k, v)) = Some (quoted k, CHR '' '' # v)"
    by (simp add: entry_def quoted_def key_scan_cons next_quoting_def key_scan_esc blank_char_def)
  ultimately show ?thesis using assms by (simp add: splitYAMLKey_def trim_space_trimmed)
qed

lemma update_fresh: "k \<notin> fst ` set m \<Longrightarrow> AList.update k v m = m @ [(k, v)]"
  by (induction m) auto

lemma foldl_update_fresh:
  "distinct (map fst m @ map fst ps) \<Longrightarrow> foldl (\<lambda>m (k, v). AList.update k v m) m ps = m @ ps"
  by (induction ps arbitrary: m) (auto simp: update_fresh)

lemma seq_parts:
  assumes "\<And>x. x \<in> set xs \<Longrightarrow> printable x"
  shows "flow_parts ''['' '']'' (flow (Seq xs)) = map flow xs"
proof -
  have "trimmed (flow (Seq xs))" by (rule trimmed_ends) (simp_all add: visible_def ascii_def)
  then have "trim_suffix '']'' (trim_prefix ''['' (trim_space (flow (Seq xs)))) = join '', '' (map flow xs)"
    by (simp add: trim_space_trimmed trim_prefix_def has_prefix_def)
  moreover have ws: "spans 0 w \<and> trimmed w \<and> w \<noteq> []" if "w \<in> set (map flow xs)" for w
    using that assms flow_opaque(2) flow_ends by auto
  ultimately show ?thesis
    unfolding flow_parts_def using parts_join [OF ws] by (simp only:)
qed

lemma mapping_parts:
  assumes "\<And>k v. (k, v) \<in> set m \<Longrightarrow> printable v"
  shows "flow_parts ''{'' ''}'' (flow (Mapping m)) = map (\<lambda>(k, v). entry (k, flow v)) m"
proof -
  have eq: "map entry (map (map_prod (\<lambda>k. k) flow) m) = map (\<lambda>(k, v). entry (k, flow v)) m"
    by (simp add: case_prod_unfold comp_def map_prod_def)
  have sp: "spans 0 (entry (k, flow v))" for k v
    by (simp add: entry_def spans_append spans_Cons flow_opaque)
  have "trimmed (flow (Mapping m))" by (rule trimmed_ends) (simp_all add: visible_def ascii_def)
  then have "trim_suffix ''}'' (trim_prefix ''{'' (trim_space (flow (Mapping m)))) =
      join '', '' (map (\<lambda>(k, v). entry (k, flow v)) m)"
    by (simp only: flow.simps eq) (simp add: trim_space_trimmed trim_prefix_def has_prefix_def)
  moreover have ws: "spans 0 w \<and> trimmed w \<and> w \<noteq> []" if "w \<in> set (map (\<lambda>(k, v). entry (k, flow v)) m)" for w
    using that assms sp entry_ends by auto
  ultimately show ?thesis
    unfolding flow_parts_def using parts_join [OF ws] by (simp only:)
qed

lemma flow_marks:
  "has_prefix ''{'' (flow (Scalar s)) = False" "has_prefix ''['' (flow (Scalar s)) = False"
  "has_prefix ''{'' (flow (Seq xs)) = False" "has_prefix ''['' (flow (Seq xs)) = True"
  "has_prefix ''{'' (flow (Mapping m)) = True"
  by (simp_all add: has_prefix_def quoted_def)

lemma flow_read:
  assumes "printable y" "d + 2 * height y \<le> 257 \<or> height y = 0"
  shows "parseYAMLInline d (flow y) = y"
  using assms
proof (induction y arbitrary: d)
  case (Scalar s)
  then show ?case
    using flow_ends [of "Scalar s"]
    by (subst parseYAMLInline.simps) (simp only: Let_def trim_space_trimmed flow_marks, simp)
next
  case (Seq xs)
  have d: "d \<le> 255" using Seq.prems by (simp add: height.simps)
  have pr: "printable x" if "x \<in> set xs" for x using Seq.prems that by (auto simp: list_all_iff)
  have h: "Suc (Suc d) + 2 * height x \<le> 257" if "x \<in> set xs" for x
    using Seq.prems(2) that foldr_max_le [of "map height xs" "foldr max (map height xs) 0"] by (fastforce simp: height.simps)
  have "map (parseYAMLInline (Suc (Suc d))) (map flow xs) = xs"
    unfolding map_map using Seq.IH pr h by (intro map_idI) simp
  then have "parseFlowSequence (Suc d) (flow (Seq xs)) = xs"
    using d seq_parts [of xs] pr by (subst parseFlowSequence.simps) (simp add: maxParseDepth_def del: flow.simps)
  then show ?case
    using d flow_ends [OF Seq.prems(1)]
    by (subst parseYAMLInline.simps) (simp only: Let_def trim_space_trimmed flow_marks, simp add: maxParseDepth_def)
next
  case (Mapping m)
  have d: "d \<le> 255" using Mapping.prems by (simp add: height.simps)
  have pr: "printable v" if "(k, v) \<in> set m" for k v using Mapping.prems that by (auto simp: list_all_iff)
  have h: "Suc (Suc d) + 2 * height v \<le> 257" if "(k, v) \<in> set m" for k v
    using Mapping.prems(2) that foldr_max_le [of "map snd (map (map_prod (\<lambda>k. k) height) m)" "foldr max (map snd (map (map_prod (\<lambda>k. k) height) m)) 0"]
    by (fastforce simp: height.simps)
  have "parseYAMLInline (Suc (Suc d)) (flow v) = v" if "(k, v) \<in> set m" for k v
    using Mapping.IH [OF that] pr [OF that] h [OF that] by simp
  then have "concat (map (\<lambda>p. case splitYAMLKey p of None \<Rightarrow> [] | Some (k, v) \<Rightarrow> [(k, parseYAMLInline (Suc (Suc d)) v)])
      (map (\<lambda>(k, v). entry (k, flow v)) m)) = m"
    using pr flow_ends by (induction m) fastforce+
  then have "parseFlowMapping (Suc d) (flow (Mapping m)) = m"
    using d mapping_parts [of m] pr Mapping.prems(1)
    by (subst parseFlowMapping.simps) (simp add: maxParseDepth_def foldl_update_fresh del: flow.simps)
  then show ?case
    using d flow_ends [OF Mapping.prems(1)]
    by (subst parseYAMLInline.simps) (simp only: Let_def trim_space_trimmed flow_marks, simp add: maxParseDepth_def)
qed simp

end
