(* ===== verification/Clash.thy ===== *)
theory Clash
  imports Clash_Yaml
begin

text \<open>
  The Clash importer (\<^verbatim>\<open>core/subscription/clash.go\<close>): one decoded proxy entry to a node.  A Go map is the
  association list of \<open>Clash_Yaml\<close>; a nil map reads like the empty one.
\<close>

section \<open>Reading a map\<close>

type_synonym ymap = "(string \<times> yaml) list"

definition yamlStr :: "ymap \<Rightarrow> string \<Rightarrow> string" where
  "yamlStr m k = (case map_of m k of Some (Scalar s) \<Rightarrow> s | _ \<Rightarrow> [])"

fun yamlStrAny :: "ymap \<Rightarrow> string list \<Rightarrow> string" where
  "yamlStrAny m [] = []"
| "yamlStrAny m (k # ks) = (if yamlStr m k \<noteq> [] then yamlStr m k else yamlStrAny m ks)"

declare yamlStrAny.simps(2) [simp del]

definition yamlInt :: "ymap \<Rightarrow> string \<Rightarrow> int" where
  "yamlInt m k =
     (let s = trim_space (yamlStr m k)
      in if s = [] then 0 else case atoi s of Some i \<Rightarrow> i | None \<Rightarrow> 0)"

fun yamlIntAny :: "ymap \<Rightarrow> string list \<Rightarrow> int" where
  "yamlIntAny m [] = 0"
| "yamlIntAny m (k # ks) = (if map_of m k \<noteq> None then yamlInt m k else yamlIntAny m ks)"

text \<open>\<^verbatim>\<open>strconv.ParseInt(s, 10, 64)\<close>; Go's \<^verbatim>\<open>int\<close> has the same 64 bits here.\<close>

definition yamlInt64 :: "ymap \<Rightarrow> string \<Rightarrow> int" where
  "yamlInt64 m k =
     (let s = trim_space (yamlStr m k)
      in if s = [] then 0 else case parse_int s of Some i \<Rightarrow> i | None \<Rightarrow> 0)"

definition yamlBool :: "case_table \<Rightarrow> ymap \<Rightarrow> string \<Rightarrow> bool" where
  "yamlBool u m k = isTruthy u (yamlStr m k)"

definition yamlMap :: "ymap \<Rightarrow> string \<Rightarrow> ymap option" where
  "yamlMap m k = (case map_of m k of Some (Mapping mm) \<Rightarrow> Some mm | _ \<Rightarrow> None)"

definition scalar_of :: "yaml \<Rightarrow> string list" where
  "scalar_of v = (case v of Scalar s \<Rightarrow> if s \<noteq> [] then [s] else [] | _ \<Rightarrow> [])"

definition yamlStrings :: "ymap \<Rightarrow> string \<Rightarrow> string list" where
  "yamlStrings m k =
     (case map_of m k of
        Some (Seq xs) \<Rightarrow> concat (map scalar_of xs)
      | Some v \<Rightarrow> scalar_of v
      | None \<Rightarrow> [])"

definition first :: "string list \<Rightarrow> string" where
  "first ss = (case ss of [] \<Rightarrow> [] | s # _ \<Rightarrow> s)"

definition firstPort :: "string \<Rightarrow> int" where
  "firstPort s =
     (let ds = takeWhile is_digit (dropWhile (\<lambda>c. \<not> is_digit c) s)
      in if ds = [] then 0
         else case atoi ds of None \<Rightarrow> 0 | Some p \<Rightarrow> if p \<le> 0 \<or> p > 65535 then 0 else p)"

definition headerHost :: "ymap option \<Rightarrow> string" where
  "headerHost h0 =
     (case h0 of
        None \<Rightarrow> []
      | Some h \<Rightarrow>
          if yamlStrAny h [''Host'', ''host''] \<noteq> [] then yamlStrAny h [''Host'', ''host'']
          else if length (yamlStrings h ''Host'') > 0 then hd (yamlStrings h ''Host'')
          else first (yamlStrings h ''host''))"

section \<open>Transport, TLS and the fields kept aside\<close>

definition options_of :: "ymap \<Rightarrow> string \<Rightarrow> ymap" where
  "options_of p k = (case yamlMap p k of None \<Rightarrow> [] | Some o' \<Rightarrow> o')"

text \<open>
  The code fills the fields only under a non-nil options block; over an absent one every read gives the zero
  value the field has anyway.
\<close>

definition clashTransport :: "case_table \<Rightarrow> ymap \<Rightarrow> transport option" where
  "clashTransport u p =
     (let net = to_lower u (yamlStr p ''network'')
      in if net \<in> {[], ''tcp'', ''none'', ''raw'', ''http/1.1''} then None
         else if net \<in> {''ws'', ''websocket''} then
           (let o' = options_of p ''ws-opts''
            in Some (zero_transport\<lparr>TrType := ''ws'', TrPath := yamlStr o' ''path'',
                 TrHost := headerHost (yamlMap o' ''headers'')\<rparr>))
         else if net = ''grpc'' then
           Some (zero_transport\<lparr>TrType := ''grpc'',
             TrServiceName := yamlStrAny (options_of p ''grpc-opts'')
               [''grpc-service-name'', ''serviceName'', ''service-name'']\<rparr>)
         else if net = ''h2'' then
           (let o' = options_of p ''h2-opts''
            in Some (zero_transport\<lparr>TrType := ''http'', TrPath := yamlStr o' ''path'',
                 TrHost := first (yamlStrings o' ''host'')\<rparr>))
         else if net = ''http'' then
           (let o' = options_of p ''http-opts''
            in Some (zero_transport\<lparr>TrType := ''http'', TrPath := first (yamlStrings o' ''path''),
                 TrHost := headerHost (yamlMap o' ''headers'')\<rparr>))
         else if net = ''httpupgrade'' then
           (let o' = options_of p ''ws-opts''
            in Some (zero_transport\<lparr>TrType := ''httpupgrade'', TrPath := yamlStr o' ''path'',
                 TrHost := headerHost (yamlMap o' ''headers'')\<rparr>))
         else None)"

definition clashTLS :: "case_table \<Rightarrow> ymap \<Rightarrow> bool \<Rightarrow> tls option" where
  "clashTLS u p forceTLS =
     (if \<not> (forceTLS \<or> yamlBool u p ''tls'' \<or> yamlMap p ''reality-opts'' \<noteq> None) then None
      else Some (zero_tls\<lparr>Enabled := True,
        ServerName := yamlStrAny p [''servername'', ''sni'', ''server-name''],
        Insecure := yamlBool u p ''skip-cert-verify'',
        ALPN := yamlStrings p ''alpn'',
        Fingerprint := yamlStrAny p [''client-fingerprint'', ''fingerprint''],
        Reality := (case yamlMap p ''reality-opts'' of
            None \<Rightarrow> None
          | Some r \<Rightarrow> Some \<lparr>PublicKey = yamlStrAny r [''public-key'', ''public_key''],
              ShortID = yamlStrAny r [''short-id'', ''short_id''], SpiderX = []\<rparr>)\<rparr>))"

definition wg_address :: "string \<Rightarrow> string" where
  "wg_address a =
     (if CHR ''/'' \<in> set a then a else if CHR '':'' \<in> set a then a @ ''/128'' else a @ ''/32'')"

definition clashWGAddresses :: "ymap \<Rightarrow> string list" where
  "clashWGAddresses p =
     map wg_address
       (yamlStrings p ''addresses'' @
        (if yamlStr p ''ip'' \<noteq> [] then [yamlStr p ''ip''] else []) @
        (if yamlStr p ''ipv6'' \<noteq> [] then [yamlStr p ''ipv6''] else []))"

definition applyClashAmnezia :: "wireguard \<Rightarrow> ymap \<Rightarrow> wireguard" where
  "applyClashAmnezia wg p =
     (let src = (case yamlMap p ''amnezia-wg-option'' of Some o' \<Rightarrow> o' | None \<Rightarrow> p)
      in wg\<lparr>Jc := yamlInt src ''jc'', Jmin := yamlInt src ''jmin'', Jmax := yamlInt src ''jmax'',
           S1 := yamlInt src ''s1'', S2 := yamlInt src ''s2'',
           H1 := yamlInt64 src ''h1'', H2 := yamlInt64 src ''h2'', H3 := yamlInt64 src ''h3'',
           H4 := yamlInt64 src ''h4''\<rparr>)"

definition addClashExtra :: "node \<Rightarrow> ymap \<Rightarrow> string list \<Rightarrow> node" where
  "addClashExtra n p consumed =
     n\<lparr>Extra := Extra n ++
        (\<lambda>k. if k \<in> set ([''name'', ''type'', ''server'', ''port''] @ consumed) then None
             else case map_of p k of Some (Scalar s) \<Rightarrow> if s = [] then None else Some s | _ \<Rightarrow> None)\<rparr>"

section \<open>One mapper per protocol\<close>

definition clashShadowsocks :: "ymap \<Rightarrow> string \<Rightarrow> int \<Rightarrow> node option" where
  "clashShadowsocks p server port =
     (if yamlStr p ''plugin'' \<noteq> [] then None
      else
        let m = yamlStr p ''cipher''; pw = yamlStr p ''password''
        in if m = [] \<or> pw = [] then None
           else Some (addClashExtra
             (zero_node\<lparr>Protocol := Shadowsocks, Name := yamlStr p ''name'', Server := server, Port := port,
                Method := m, Password := pw\<rparr>)
             p [''cipher'', ''password'']))"

definition clashVMess :: "case_table \<Rightarrow> ymap \<Rightarrow> string \<Rightarrow> int \<Rightarrow> node option" where
  "clashVMess u p server port =
     (if yamlStr p ''uuid'' = [] then None
      else Some (addClashExtra
        (zero_node\<lparr>Protocol := VMess, Name := yamlStr p ''name'', Server := server, Port := port,
           UUID := yamlStr p ''uuid'', AlterID := yamlIntAny p [''alterId'', ''alterid'', ''alter-id''],
           Security := yamlStr p ''cipher'', Transport := clashTransport u p, TLS := clashTLS u p False\<rparr>)
        p [''uuid'', ''alterId'', ''alterid'', ''alter-id'', ''cipher'', ''network'', ''tls'', ''servername'', ''sni'',
           ''server-name'', ''skip-cert-verify'', ''alpn'', ''client-fingerprint'', ''fingerprint'']))"

definition clashVLESS :: "case_table \<Rightarrow> ymap \<Rightarrow> string \<Rightarrow> int \<Rightarrow> node option" where
  "clashVLESS u p server port =
     (if yamlStr p ''uuid'' = [] then None
      else Some (addClashExtra
        (zero_node\<lparr>Protocol := VLESS, Name := yamlStr p ''name'', Server := server, Port := port,
           UUID := yamlStr p ''uuid'', Flow := yamlStr p ''flow'',
           Transport := clashTransport u p, TLS := clashTLS u p False\<rparr>)
        p [''uuid'', ''flow'', ''network'', ''tls'', ''servername'', ''sni'', ''server-name'', ''skip-cert-verify'',
           ''alpn'', ''client-fingerprint'', ''fingerprint'']))"

definition clashTrojan :: "case_table \<Rightarrow> ymap \<Rightarrow> string \<Rightarrow> int \<Rightarrow> node option" where
  "clashTrojan u p server port =
     (if yamlStr p ''password'' = [] then None
      else Some (addClashExtra
        (zero_node\<lparr>Protocol := Trojan, Name := yamlStr p ''name'', Server := server, Port := port,
           Password := yamlStr p ''password'',
           Transport := clashTransport u p, TLS := clashTLS u p True\<rparr>)
        p [''password'', ''network'', ''sni'', ''servername'', ''server-name'', ''skip-cert-verify'', ''alpn'',
           ''client-fingerprint'', ''fingerprint'']))"

definition clashHysteria2 :: "case_table \<Rightarrow> ymap \<Rightarrow> string \<Rightarrow> int \<Rightarrow> node option" where
  "clashHysteria2 u p server port =
     (let pw = yamlStrAny p [''password'', ''auth-str'', ''auth'']
      in if pw = [] then None
         else Some (addClashExtra
           (zero_node\<lparr>Protocol := Hysteria2, Name := yamlStr p ''name'', Server := server, Port := port,
              Password := pw, TLS := clashTLS u p True,
              Obfs := (if equal_fold (yamlStr p ''obfs'') ''salamander''
                then Some \<lparr>ObfsType = ''salamander'', ObfsPassword = yamlStr p ''obfs-password''\<rparr> else None)\<rparr>)
           p [''password'', ''auth-str'', ''auth'', ''sni'', ''servername'', ''server-name'', ''skip-cert-verify'',
              ''alpn'', ''obfs'', ''obfs-password'']))"

definition clashWireGuard :: "ymap \<Rightarrow> string \<Rightarrow> int \<Rightarrow> node option" where
  "clashWireGuard p server port =
     (let priv = yamlStrAny p [''private-key'', ''private_key''];
          pub = yamlStrAny p [''public-key'', ''public_key'']
      in if priv = [] \<or> pub = [] then None
         else Some (addClashExtra
           (zero_node\<lparr>Protocol := AmneziaWG, Name := yamlStr p ''name'', Server := server, Port := port,
              WireGuard := Some (applyClashAmnezia
                (zero_wireguard\<lparr>PrivateKey := priv, PeerPublicKey := pub,
                   PreSharedKey := yamlStrAny p [''pre-shared-key'', ''preshared-key'', ''pre_shared_key''],
                   LocalAddress := clashWGAddresses p\<rparr>) p)\<rparr>)
           p [''private-key'', ''private_key'', ''public-key'', ''public_key'', ''pre-shared-key'', ''preshared-key'',
              ''pre_shared_key'', ''ip'', ''ipv6'', ''addresses'', ''jc'', ''jmin'', ''jmax'', ''s1'', ''s2'',
              ''h1'', ''h2'', ''h3'', ''h4'', ''amnezia-wg-option'']))"

definition clash_port :: "ymap \<Rightarrow> int" where
  "clash_port p = (if yamlInt p ''port'' = 0 then firstPort (yamlStr p ''ports'') else yamlInt p ''port'')"

definition clashProxyToNode :: "case_table \<Rightarrow> ymap option \<Rightarrow> node option" where
  "clashProxyToNode u p0 =
     (let p = (case p0 of None \<Rightarrow> [] | Some m \<Rightarrow> m); server = yamlStr p ''server''; port = clash_port p
      in if server = [] \<or> port \<le> 0 \<or> port > 65535 then None
         else
           let ty = to_lower u (yamlStr p ''type'')
           in if ty \<in> {''ss'', ''shadowsocks''} then clashShadowsocks p server port
              else if ty = ''vmess'' then clashVMess u p server port
              else if ty = ''vless'' then clashVLESS u p server port
              else if ty = ''trojan'' then clashTrojan u p server port
              else if ty \<in> {''hysteria2'', ''hy2''} then clashHysteria2 u p server port
              else if ty \<in> {''wireguard'', ''wg''} then clashWireGuard p server port
              else None)"

end
