(* ===== verification/Subscription.thy ===== *)
theory Subscription
  imports Clash
begin

text \<open>
  A subscription body (\<^verbatim>\<open>core/subscription/parse.go\<close>): which of its three forms it has and the nodes it holds,
  the usage header, and the recognition of a managed subscription (\<^verbatim>\<open>managed.go\<close>).
\<close>

section \<open>The body\<close>

definition stripBOM :: "string \<Rightarrow> string" where
  "stripBOM s = trim_prefix [CHR 0xEF, CHR 0xBB, CHR 0xBF] s"

text \<open>One line of \<^verbatim>\<open>looksLikeClashConfig\<close>: an unindented \<^verbatim>\<open>proxies:\<close> key.\<close>

definition proxies_key :: "string \<Rightarrow> bool" where
  "proxies_key line0 =
     (let line = trim_right_of [CHR '' '', CHR 0x09, CHR 0x0D] line0
      in if line = [] \<or> blank_char (hd line) then False
         else if \<not> has_prefix ''proxies:'' line then False
         else
           let rest = drop 8 line
           in rest = [] \<or> blank_char (hd rest) \<or> hd rest = CHR ''['')"

definition looksLikeClashConfig :: "string \<Rightarrow> bool" where
  "looksLikeClashConfig text = list_ex proxies_key (split_on (CHR 0x0A) text)"

definition looksLikeLinks :: "string \<Rightarrow> bool" where
  "looksLikeLinks b = contains ''://'' b"

text \<open>What a list of entries gives: the nodes in order and how many entries were skipped.\<close>

definition parseClashSubscription :: "case_table \<Rightarrow> string \<Rightarrow> (node list \<times> nat) option" where
  "parseClashSubscription u text =
     (case clashProxyMaps text of
        None \<Rightarrow> None
      | Some (ps, _) \<Rightarrow>
          Some (List.map_filter (clashProxyToNode u) ps, length (filter (\<lambda>p. clashProxyToNode u p = None) ps)))"

fun link_lines :: "case_table \<Rightarrow> (string \<Rightarrow> vmess_json option) \<Rightarrow> string list \<Rightarrow> node list \<times> nat" where
  "link_lines u js [] = ([], 0)"
| "link_lines u js (line0 # ls) =
     (let line = trim_space line0
      in if comment_line line then link_lines u js ls
         else
           let (ns, k) = link_lines u js ls
           in case ParseLink u js line of Inl _ \<Rightarrow> (ns, Suc k) | Inr n \<Rightarrow> (n # ns, k))"

text \<open>
  The result is None only where the YAML reader would not return.  The error result of the code comes from its
  recovery from a panic alone; nothing modelled here panics.
\<close>

definition ParseSubscription ::
  "case_table \<Rightarrow> (string \<Rightarrow> vmess_json option) \<Rightarrow> string \<Rightarrow> (node list \<times> nat) option"
where
  "ParseSubscription u js body =
     (let text = trim_space body
      in if text = [] then Some ([], 0)
         else if looksLikeClashConfig (stripBOM text) then parseClashSubscription u (stripBOM text)
         else
           let text' = (case decodeBase64 text of
                 Some dec \<Rightarrow> if looksLikeLinks dec then dec else text
               | None \<Rightarrow> text)
           in Some (link_lines u js (split_on (CHR 0x0A) text')))"

section \<open>The usage header\<close>

record user_info =
  ui_Upload :: int
  ui_Download :: int
  ui_Total :: int
  ui_Expire :: "int option"

definition userinfo_part :: "case_table \<Rightarrow> string \<Rightarrow> user_info \<Rightarrow> user_info" where
  "userinfo_part u part info =
     (let (k, v, found) = cut (CHR ''='') (trim_space part)
      in if \<not> found then info
         else
           let key = to_lower u (trim_space k); val = trim_space v
           in if key = ''upload'' then info\<lparr>ui_Upload := atoi_or_clamp val\<rparr>
              else if key = ''download'' then info\<lparr>ui_Download := atoi_or_clamp val\<rparr>
              else if key = ''total'' then info\<lparr>ui_Total := atoi_or_clamp val\<rparr>
              else if key = ''expire'' then
                (case parse_int val of
                   Some sec \<Rightarrow> if sec > 0 then info\<lparr>ui_Expire := Some sec\<rparr> else info
                 | None \<Rightarrow> info)
              else info)"

definition ParseUserInfo :: "case_table \<Rightarrow> string \<Rightarrow> user_info" where
  "ParseUserInfo u h =
     foldl (\<lambda>info part. userinfo_part u part info)
       \<lparr>ui_Upload = 0, ui_Download = 0, ui_Total = 0, ui_Expire = None\<rparr> (split_on (CHR '';'') h)"

section \<open>Managed subscriptions\<close>

definition managedHosts :: "string list" where
  "managedHosts = [''vpsxd.pro'', ''vpnxd.pro'', ''chatakfix.online'']"

definition lower_hex :: "char \<Rightarrow> bool" where
  "lower_hex c \<longleftrightarrow> is_digit c \<or> (97 \<le> (of_char c :: nat) \<and> (of_char c :: nat) \<le> 102)"

text \<open>
  \<^verbatim>\<open>managedPathRe\<close>, read from left to right: the digits stop at the underscore that must follow them, so
  the expression matches in one way only.
\<close>

definition managedPath :: "string \<Rightarrow> string option" where
  "managedPath path =
     (if \<not> has_prefix ''/sub/vpn_'' path then None
      else
        let r1 = drop 9 path; ds = takeWhile is_digit r1; r2 = drop (length ds) r1;
            h8 = take 8 (drop 1 r2); r3 = drop 9 r2; key = take 32 (drop 1 r3); r4 = drop 33 r3
        in if ds \<noteq> [] \<and> has_prefix ''_'' r2 \<and> length h8 = 8 \<and> list_all lower_hex h8 \<and>
              has_prefix ''/'' r3 \<and> length key = 32 \<and> list_all lower_hex key \<and> (r4 = [] \<or> has_prefix ''/'' r4)
           then Some key else None)"

definition parseManaged :: "case_table \<Rightarrow> string \<Rightarrow> (string \<times> string) option" where
  "parseManaged u subURL =
     (case url_parse u (trim_space subURL) of
        None \<Rightarrow> None
      | Some r \<Rightarrow>
          if UHost r = [] then None
          else if to_lower u (Hostname r) \<notin> set managedHosts then None
          else case managedPath (UPath r) of
                 None \<Rightarrow> None
               | Some key \<Rightarrow> Some (UScheme r @ ''://'' @ UHost r, key))"

definition DetectManaged :: "case_table \<Rightarrow> string \<Rightarrow> bool" where
  "DetectManaged u subURL \<longleftrightarrow> parseManaged u subURL \<noteq> None"

definition EntitlementTarget :: "case_table \<Rightarrow> string \<Rightarrow> (string \<times> string) option" where
  "EntitlementTarget u subURL = parseManaged u subURL"

end
