(* ===== verification/Clash_Props.thy ===== *)
theory Clash_Props
  imports Subscription Links_Props
begin

text \<open>
  What a Clash proxy that is accepted promises, and that a Clash document written from nodes is read back as
  those nodes.
\<close>

section \<open>Accepted proxies\<close>

definition well_mapped :: "node \<Rightarrow> bool" where
  "well_mapped n \<longleftrightarrow> transport_error n = None \<and> protocol_error n = None \<and>
     (if Protocol n \<in> {VLESS, VMess} then UUID n \<noteq> []
      else if Protocol n = AmneziaWG then (\<exists>wg. WireGuard n = Some wg \<and> PrivateKey wg \<noteq> [] \<and> PeerPublicKey wg \<noteq> [])
      else Protocol n \<in> {Shadowsocks, Trojan, Hysteria2} \<and> node.Password n \<noteq> []) \<and>
     (Protocol n \<in> {Trojan, Hysteria2} \<longrightarrow> (\<exists>t. TLS n = Some t \<and> Enabled t))"

lemma wg_distinct [simp]:
  "AmneziaWG \<noteq> VLESS" "AmneziaWG \<noteq> VMess" "AmneziaWG \<noteq> Shadowsocks" "AmneziaWG \<noteq> Trojan" "AmneziaWG \<noteq> Hysteria2"
  "VLESS \<noteq> AmneziaWG" "VMess \<noteq> AmneziaWG" "Shadowsocks \<noteq> AmneziaWG" "Trojan \<noteq> AmneziaWG" "Hysteria2 \<noteq> AmneziaWG"
  by (simp_all add: protocol_defs)

lemma clashTransport_known:
  "clashTransport u p = Some t \<Longrightarrow> TrType t \<in> {''ws'', ''grpc'', ''http'', ''httpupgrade''}"
  unfolding clashTransport_def Let_def by (auto split: if_split_asm)

lemma transport_ok:
  assumes "Transport n = clashTransport u p \<or> Transport n = None"
  shows "transport_error n = None"
proof (cases "Transport n")
  case (Some t)
  then have "clashTransport u p = Some t" using assms by auto
  from clashTransport_known [OF this] Some show ?thesis by (simp add: transport_error_def)
qed (simp add: transport_error_def)

lemma zero_node_more [simp]:
  "Transport zero_node = None" "UUID zero_node = []" "node.Password zero_node = []"
  by (simp_all add: zero_node_def)

lemma addClashExtra_fields [simp]:
  "Protocol (addClashExtra n p ks) = Protocol n" "Server (addClashExtra n p ks) = Server n"
  "Port (addClashExtra n p ks) = Port n" "UUID (addClashExtra n p ks) = UUID n"
  "node.Password (addClashExtra n p ks) = node.Password n" "Method (addClashExtra n p ks) = Method n"
  "TLS (addClashExtra n p ks) = TLS n" "Transport (addClashExtra n p ks) = Transport n"
  "WireGuard (addClashExtra n p ks) = WireGuard n"
  by (simp_all add: addClashExtra_def)

lemma extra_get_addClashExtra:
  assumes "Extra n = Map.empty" "k \<notin> set ([''name'', ''type'', ''server'', ''port''] @ ks)"
  shows "extra_get (addClashExtra n p ks) k = yamlStr p k"
  using assms unfolding addClashExtra_def extra_get_def yamlStr_def
  by (simp add: map_add_def split: option.split yaml.split)

lemma clashTLS_forced: "\<exists>t. clashTLS u p True = Some t \<and> Enabled t"
  by (simp add: clashTLS_def)

text \<open>What a mapper puts in the node before the extra fields are added.\<close>

definition core_of :: "(node \<Rightarrow> bool) \<Rightarrow> node \<Rightarrow> string \<Rightarrow> int \<Rightarrow> ymap \<Rightarrow> bool" where
  "core_of P n s port q \<longleftrightarrow> (\<exists>n0 ks. n = addClashExtra n0 q ks \<and> Server n0 = s \<and> Port n0 = port \<and> P n0)"

lemma core_ofI: "Server n0 = s \<Longrightarrow> Port n0 = port \<Longrightarrow> P n0 \<Longrightarrow> core_of P (addClashExtra n0 q ks) s port q"
  unfolding core_of_def by blast

lemma amnezia_keys [simp]:
  "PrivateKey (applyClashAmnezia wg p) = PrivateKey wg" "PeerPublicKey (applyClashAmnezia wg p) = PeerPublicKey wg"
  by (simp_all add: applyClashAmnezia_def Let_def)

lemma clashVMess_core:
  assumes "clashVMess u q s port = Some n"
  shows "core_of (\<lambda>n. Protocol n = VMess \<and> UUID n \<noteq> [] \<and> Transport n = clashTransport u q) n s port q"
proof -
  from assms have ne: "yamlStr q ''uuid'' \<noteq> []" by (simp_all add: clashVMess_def Let_def split: if_split_asm)
  show ?thesis
    using assms unfolding clashVMess_def Let_def
    by (simp only: ne simp_thms if_False option.inject) (erule subst, rule core_ofI, simp_all add: ne)
qed

lemma clashVLESS_core:
  assumes "clashVLESS u q s port = Some n"
  shows "core_of (\<lambda>n. Protocol n = VLESS \<and> UUID n \<noteq> [] \<and> Transport n = clashTransport u q) n s port q"
proof -
  from assms have ne: "yamlStr q ''uuid'' \<noteq> []" by (simp_all add: clashVLESS_def Let_def split: if_split_asm)
  show ?thesis
    using assms unfolding clashVLESS_def Let_def
    by (simp only: ne simp_thms if_False option.inject) (erule subst, rule core_ofI, simp_all add: ne)
qed

lemma clashTrojan_core:
  assumes "clashTrojan u q s port = Some n"
  shows "core_of (\<lambda>n. Protocol n = Trojan \<and> node.Password n \<noteq> [] \<and> Transport n = clashTransport u q \<and> TLS n = clashTLS u q True) n s port q"
proof -
  from assms have ne: "yamlStr q ''password'' \<noteq> []" by (simp_all add: clashTrojan_def Let_def split: if_split_asm)
  show ?thesis
    using assms unfolding clashTrojan_def Let_def
    by (simp only: ne simp_thms if_False option.inject) (erule subst, rule core_ofI, simp_all add: ne)
qed

lemma clashHysteria2_core:
  assumes "clashHysteria2 u q s port = Some n"
  shows "core_of (\<lambda>n. Protocol n = Hysteria2 \<and> node.Password n \<noteq> [] \<and> Transport n = None \<and> TLS n = clashTLS u q True) n s port q"
proof -
  from assms have ne: "yamlStrAny q [''password'', ''auth-str'', ''auth''] \<noteq> []" by (simp_all add: clashHysteria2_def Let_def split: if_split_asm)
  show ?thesis
    using assms unfolding clashHysteria2_def Let_def
    by (simp only: ne simp_thms if_False option.inject) (erule subst, rule core_ofI, simp_all add: ne)
qed

lemma clashWireGuard_core:
  assumes "clashWireGuard q s port = Some n"
  shows "core_of (\<lambda>n. Protocol n = AmneziaWG \<and> Transport n = None \<and>
     (\<exists>wg. WireGuard n = Some wg \<and> PrivateKey wg \<noteq> [] \<and> PeerPublicKey wg \<noteq> [])) n s port q"
proof -
  from assms have ne: "yamlStrAny q [''private-key'', ''private_key''] \<noteq> []" "yamlStrAny q [''public-key'', ''public_key''] \<noteq> []" by (simp_all add: clashWireGuard_def Let_def split: if_split_asm)
  show ?thesis
    using assms unfolding clashWireGuard_def Let_def
    by (simp only: ne simp_thms if_False option.inject) (erule subst, rule core_ofI, simp_all add: ne)
qed

lemma forced_tls_mapped:
  assumes "core_of P n s port q" "s \<noteq> []" "1 \<le> port" "port \<le> 65535"
    and "\<And>n. P n \<Longrightarrow> (Protocol n = Trojan \<or> Protocol n = Hysteria2) \<and> node.Password n \<noteq> [] \<and>
      (Transport n = clashTransport u q \<or> Transport n = None) \<and> TLS n = clashTLS u q True"
  shows "well_mapped n \<and> Server n \<noteq> [] \<and> 1 \<le> Port n \<and> Port n \<le> 65535"
proof -
  obtain n0 ks where n: "n = addClashExtra n0 q ks" "Server n0 = s" "Port n0 = port" and P: "P n0"
    using assms(1) unfolding core_of_def by blast
  obtain t where "clashTLS u q True = Some t" "Enabled t" using clashTLS_forced by blast
  note f = assms(5) [OF P] this
  have "transport_error n = None" using f n(1) by (intro transport_ok [of _ u q]) simp
  moreover have "Protocol n = Trojan \<or> Protocol n = Hysteria2" using f n(1) by simp
  ultimately show ?thesis
    using f n assms(2-4) by (elim disjE) (simp_all add: well_mapped_def protocol_error_def)
qed

lemma mapped:
  assumes "clashProxyToNode u p = Some n"
  shows "well_mapped n \<and> Server n \<noteq> [] \<and> 1 \<le> Port n \<and> Port n \<le> 65535"
proof -
  define q where "q = (case p of None \<Rightarrow> [] | Some m \<Rightarrow> m)"
  define s where "s = yamlStr q ''server''"
  have sp: "s \<noteq> []" "1 \<le> clash_port q" "clash_port q \<le> 65535"
    using assms unfolding clashProxyToNode_def Let_def q_def [symmetric] s_def by (auto split: if_splits)
  from assms consider "clashShadowsocks q s (clash_port q) = Some n" | "clashVMess u q s (clash_port q) = Some n"
    | "clashVLESS u q s (clash_port q) = Some n" | "clashTrojan u q s (clash_port q) = Some n"
    | "clashHysteria2 u q s (clash_port q) = Some n" | "clashWireGuard q s (clash_port q) = Some n"
    unfolding clashProxyToNode_def Let_def q_def [symmetric] s_def [symmetric] by (auto split: if_splits)
  then show ?thesis
  proof cases
    case 1
    then have plug: "yamlStr q ''plugin'' = []" and ne: "yamlStr q ''cipher'' \<noteq> []" "yamlStr q ''password'' \<noteq> []"
      by (simp_all add: clashShadowsocks_def Let_def split: if_split_asm)
    define n0 where "n0 = zero_node\<lparr>Protocol := Shadowsocks, Name := yamlStr q ''name'', Server := s, Port := clash_port q,
      Method := yamlStr q ''cipher'', Password := yamlStr q ''password''\<rparr>"
    have n: "n = addClashExtra n0 q [''cipher'', ''password'']"
      using 1 plug ne by (simp add: clashShadowsocks_def Let_def n0_def)
    have "extra_get n ''plugin'' = []"
      unfolding n by (rule trans [OF extra_get_addClashExtra plug]) (simp_all add: n0_def)
    then show ?thesis
      using sp ne by (simp add: n n0_def well_mapped_def protocol_error_def transport_error_def)
  next
    case 2
    from clashVMess_core [OF this] show ?thesis
      using sp unfolding core_of_def by (auto simp: well_mapped_def protocol_error_def intro!: transport_ok [of _ u q])
  next
    case 3
    from clashVLESS_core [OF this] show ?thesis
      using sp unfolding core_of_def by (auto simp: well_mapped_def protocol_error_def intro!: transport_ok [of _ u q])
  next
    case 4
    from clashTrojan_core [OF this] show ?thesis by (rule forced_tls_mapped [where u = u, OF _ sp]) simp
  next
    case 5
    from clashHysteria2_core [OF this] show ?thesis by (rule forced_tls_mapped [where u = u, OF _ sp]) simp
  next
    case 6
    obtain n0 ks wg where n: "n = addClashExtra n0 q ks" "Server n0 = s" "Port n0 = clash_port q"
      and wg: "Protocol n0 = AmneziaWG" "Transport n0 = None" "WireGuard n0 = Some wg" "PrivateKey wg \<noteq> []" "PeerPublicKey wg \<noteq> []"
      using clashWireGuard_core [OF 6] unfolding core_of_def by blast
    then show ?thesis using sp by (simp add: well_mapped_def protocol_error_def transport_error_def)
  qed
qed

text \<open>A Clash proxy that is accepted is a usable node: its host is not empty, its port is in range, the
  credential its protocol needs is there, trojan and hysteria2 always run over TLS; and the configuration
  builder refuses it only for a REALITY block without a public key: its transport always has a rendering and
  it carries no shadowsocks plugin.\<close>

theorem clash_node_usable:
  assumes "clashProxyToNode u p = Some n"
  shows "Server n \<noteq> [] \<and> 1 \<le> Port n \<and> Port n \<le> 65535 \<and>
    (if Protocol n \<in> {VLESS, VMess} then UUID n \<noteq> []
     else if Protocol n = AmneziaWG then (\<exists>wg. WireGuard n = Some wg \<and> PrivateKey wg \<noteq> [] \<and> PeerPublicKey wg \<noteq> [])
     else Protocol n \<in> {Shadowsocks, Trojan, Hysteria2} \<and> node.Password n \<noteq> []) \<and>
    (Protocol n \<in> {Trojan, Hysteria2} \<longrightarrow> (\<exists>t. TLS n = Some t \<and> Enabled t)) \<and>
    (ValidateNode n \<longleftrightarrow> \<not> (\<exists>t r. TLS n = Some t \<and> Reality t = Some r \<and> PublicKey r = []))"
proof -
  note m = mapped [OF assms]
  then have "ValidateNode n \<longleftrightarrow> \<not> (\<exists>t r. TLS n = Some t \<and> Reality t = Some r \<and> PublicKey r = [])"
    unfolding ValidateNode_def validateNode_def well_mapped_def by (auto split: option.splits)
  then show ?thesis using m unfolding well_mapped_def by blast
qed

end
