(* ===== verification/Clash_Document.thy ===== *)
theory Clash_Document
  imports Clash_Flow Clash_Props
begin

text \<open>
  A Clash document written from nodes, one proxy to a line, and that the importer reads those nodes back.
\<close>

section \<open>The document\<close>

definition transport_fields :: "transport option \<Rightarrow> ymap" where
  "transport_fields t0 =
     (case t0 of
        None \<Rightarrow> []
      | Some t \<Rightarrow>
          if TrType t = ''grpc'' then
            [(''network'', Scalar ''grpc''),
             (''grpc-opts'', Mapping [(''grpc-service-name'', Scalar (TrServiceName t))])]
          else
            [(''network'', Scalar (TrType t)),
             (if TrType t = ''http'' then ''http-opts'' else ''ws-opts'',
              Mapping [(''path'', Scalar (TrPath t)), (''headers'', Mapping [(''Host'', Scalar (TrHost t))])])])"

definition tls_fields :: "tls option \<Rightarrow> ymap" where
  "tls_fields t0 =
     (case t0 of
        None \<Rightarrow> []
      | Some t \<Rightarrow>
          [(''servername'', Scalar (ServerName t)), (''skip-cert-verify'', Scalar (if Insecure t then ''true'' else ''false'')),
           (''alpn'', Seq (map Scalar (ALPN t))), (''client-fingerprint'', Scalar (Fingerprint t))] @
          (case Reality t of
             None \<Rightarrow> []
           | Some r \<Rightarrow>
               [(''reality-opts'', Mapping [(''public-key'', Scalar (PublicKey r)), (''short-id'', Scalar (ShortID r))])]))"

definition wg_fields :: "wireguard \<Rightarrow> ymap" where
  "wg_fields wg =
     [(''private-key'', Scalar (PrivateKey wg)), (''public-key'', Scalar (PeerPublicKey wg)),
      (''pre-shared-key'', Scalar (PreSharedKey wg)), (''addresses'', Seq (map Scalar (LocalAddress wg))),
      (''jc'', Scalar (int_str (Jc wg))), (''jmin'', Scalar (int_str (Jmin wg))), (''jmax'', Scalar (int_str (Jmax wg))),
      (''s1'', Scalar (int_str (S1 wg))), (''s2'', Scalar (int_str (S2 wg))),
      (''h1'', Scalar (int_str (H1 wg))), (''h2'', Scalar (int_str (H2 wg))), (''h3'', Scalar (int_str (H3 wg))),
      (''h4'', Scalar (int_str (H4 wg)))]"

definition clash_type :: "protocol \<Rightarrow> string" where
  "clash_type p =
     (if p = Shadowsocks then ''ss'' else if p = AmneziaWG then ''wireguard'' else p)"

definition own_fields :: "node \<Rightarrow> ymap" where
  "own_fields n =
     (if Protocol n = Shadowsocks then [(''cipher'', Scalar (Method n)), (''password'', Scalar (node.Password n))]
      else if Protocol n = VLESS then
        [(''uuid'', Scalar (UUID n)), (''flow'', Scalar (Flow n))] @ (if TLS n = None then [] else [(''tls'', Scalar ''true'')])
      else if Protocol n = VMess then
        [(''uuid'', Scalar (UUID n)), (''alterId'', Scalar (int_str (AlterID n))), (''cipher'', Scalar (Security n))] @
        (if TLS n = None then [] else [(''tls'', Scalar ''true'')])
      else if Protocol n = AmneziaWG then (case WireGuard n of None \<Rightarrow> [] | Some wg \<Rightarrow> wg_fields wg)
      else
        [(''password'', Scalar (node.Password n))] @
        (case Obfs n of None \<Rightarrow> [] | Some o' \<Rightarrow>
           [(''obfs'', Scalar ''salamander''), (''obfs-password'', Scalar (ObfsPassword o'))]))"

definition base_fields :: "node \<Rightarrow> ymap" where
  "base_fields n =
     [(''name'', Scalar (Name n)), (''type'', Scalar (clash_type (Protocol n))), (''server'', Scalar (Server n)),
      (''port'', Scalar (int_str (Port n)))]"

definition proxy_of :: "node \<Rightarrow> ymap" where
  "proxy_of n = base_fields n @ own_fields n @ transport_fields (Transport n) @ tls_fields (TLS n)"

definition proxy_line :: "node \<Rightarrow> string" where
  "proxy_line n = ''- '' @ flow (Mapping (proxy_of n))"

definition clash_document :: "node list \<Rightarrow> string" where
  "clash_document ns = join [CHR 0x0A] (''proxies:'' # map proxy_line ns)"

text \<open>The nodes a Clash proxy can express: no field another protocol owns, and no value the format has no place for.\<close>

definition expressible_transport :: "transport \<Rightarrow> bool" where
  "expressible_transport t \<longleftrightarrow>
     (if TrType t = ''grpc'' then TrPath t = [] \<and> TrHost t = []
      else TrType t \<in> {''ws'', ''http'', ''httpupgrade''} \<and> TrServiceName t = [])"

definition expressible_tls :: "tls \<Rightarrow> bool" where
  "expressible_tls t \<longleftrightarrow> Enabled t \<and> \<not> Fragment t \<and> [] \<notin> set (ALPN t) \<and>
     (case Reality t of None \<Rightarrow> True | Some r \<Rightarrow> SpiderX r = [])"

definition int64 :: "int \<Rightarrow> bool" where
  "int64 i \<longleftrightarrow> - (2 ^ 63) \<le> i \<and> i < 2 ^ 63"

definition expressible_wg :: "wireguard \<Rightarrow> bool" where
  "expressible_wg wg \<longleftrightarrow> PrivateKey wg \<noteq> [] \<and> PeerPublicKey wg \<noteq> [] \<and>
     (\<forall>a\<in>set (LocalAddress wg). CHR ''/'' \<in> set a) \<and>
     list_all int64 [Jc wg, Jmin wg, Jmax wg, S1 wg, S2 wg, H1 wg, H2 wg, H3 wg, H4 wg]"

definition expressible :: "node \<Rightarrow> bool" where
  "expressible n \<longleftrightarrow> Server n \<noteq> [] \<and> 1 \<le> Port n \<and> Port n \<le> 65535 \<and> Extra n = Map.empty \<and>
     (case Transport n of None \<Rightarrow> True | Some t \<Rightarrow> expressible_transport t \<and> Protocol n \<in> {VLESS, VMess, Trojan}) \<and>
     (case TLS n of None \<Rightarrow> Protocol n \<notin> {Trojan, Hysteria2}
      | Some t \<Rightarrow> expressible_tls t \<and> Protocol n \<in> {VLESS, VMess, Trojan, Hysteria2} \<and>
          (Protocol n = Hysteria2 \<longrightarrow> Fingerprint t = [])) \<and>
     (case Obfs n of None \<Rightarrow> True | Some o' \<Rightarrow> ObfsType o' = ''salamander'' \<and> Protocol n = Hysteria2) \<and>
     (case WireGuard n of None \<Rightarrow> Protocol n \<noteq> AmneziaWG | Some wg \<Rightarrow> expressible_wg wg \<and> Protocol n = AmneziaWG) \<and>
     (if Protocol n \<in> {VLESS, VMess} then UUID n \<noteq> [] else UUID n = []) \<and>
     (if Protocol n \<in> {Shadowsocks, Trojan, Hysteria2} then node.Password n \<noteq> [] else node.Password n = []) \<and>
     (if Protocol n = Shadowsocks then Method n \<noteq> [] else Method n = []) \<and>
     (if Protocol n = VMess then int64 (AlterID n) else AlterID n = 0 \<and> Security n = []) \<and>
     (Protocol n \<noteq> VLESS \<longrightarrow> Flow n = []) \<and>
     Protocol n \<in> {VLESS, VMess, Trojan, Hysteria2, Shadowsocks, AmneziaWG}"

section \<open>The lines of the document\<close>

lemma esc_line: "CHR 0x0A \<notin> set (esc s)"
  by (induction s) auto

lemma join_chars: "c \<notin> set sep \<Longrightarrow> (\<And>w. w \<in> set ws \<Longrightarrow> c \<notin> set w) \<Longrightarrow> c \<notin> set (join sep ws)"
  by (rule join_closed [where P = "\<lambda>w. c \<notin> set w"]) auto

lemma flow_line: "CHR 0x0A \<notin> set (flow y)"
proof (induction y)
  case (Mapping m)
  have "CHR 0x0A \<notin> set (entry (k, flow v))" if "(k, v) \<in> set m" for k v
    using Mapping [OF that, of v] esc_line [of k] by (simp add: entry_def quoted_def)
  then have "CHR 0x0A \<notin> set (join '', '' (map entry (map (map_prod (\<lambda>k. k) flow) m)))"
    by (intro join_chars) auto
  then show ?case by simp
next
  case (Seq xs)
  then have "CHR 0x0A \<notin> set (join '', '' (map flow xs))" by (intro join_chars) auto
  then show ?case by simp
qed (simp_all add: quoted_def esc_line)

definition doc_line :: "ymap \<Rightarrow> yaml_line" where
  "doc_line m = \<lparr>y_col = 0, y_dash = True, y_contentCol = 2, y_text = flow (Mapping m)\<rparr>"

lemma line_of_proxy: "line_of (''- '' @ flow (Mapping m)) = Some (doc_line m)"
proof -
  let ?w = "''- '' @ flow (Mapping m)"
  have "strip_comment Plain True ?w = ?w"
    using flow_opaque(1) [of "Mapping m"] by (intro quiet_strip quiet_append) (auto intro!: quiet_Cons)
  moreover have "trim_right_of [CHR '' '', CHR 0x09, CHR 0x0D] ?w = ?w"
    by (simp add: trim_right_of_def)
  ultimately show ?thesis
    by (simp add: line_of_def blank_char_def doc_line_def Let_def)
qed

lemma tokenize_document:
  "tokenizeYAML (clash_document ns) =
    \<lparr>y_col = 0, y_dash = False, y_contentCol = 0, y_text = ''proxies:''\<rparr> # map (\<lambda>n. doc_line (proxy_of n)) ns"
proof -
  have "line_of ''proxies:'' = Some \<lparr>y_col = 0, y_dash = False, y_contentCol = 0, y_text = ''proxies:''\<rparr>"
    by (simp add: line_of_def trim_right_of_def next_quoting_def blank_char_def)
  moreover have "split_on (CHR 0x0A) (clash_document ns) = ''proxies:'' # map proxy_line ns"
    unfolding clash_document_def using flow_line by (intro split_on_join) (auto simp: proxy_line_def simp del: flow.simps)
  ultimately show ?thesis
    unfolding tokenizeYAML_def using line_of_proxy by (simp add: proxy_line_def comp_def)
qed


lemma hd_flow_mapping [simp]: "flow (Mapping m) \<noteq> []" "hd (flow (Mapping m)) = CHR ''{''"
  by simp_all

lemma doc_line_fields:
  "y_dash (doc_line m)" "y_col (doc_line m) = 0" "y_text (doc_line m) = flow (Mapping m)"
  by (simp_all add: doc_line_def)

lemma read_proxy_lines:
  assumes "\<And>m. m \<in> set ms \<Longrightarrow> parseYAMLInline (Suc d) (flow (Mapping m)) = Mapping m"
  shows "snd (block_loops (Suc (length ms + k))) 0 d out (map doc_line ms) = Some (out @ map Mapping ms, [])"
  using assms
proof (induction ms arbitrary: out)
  case (Cons m ms)
  have "snd (block_loops (Suc (length ms + k))) 0 d (out @ [Mapping m]) (map doc_line ms) =
      Some ((out @ [Mapping m]) @ map Mapping ms, [])"
    by (rule Cons.IH) (use Cons.prems in simp)
  then show ?case
    using Cons.prems [of m] hd_flow_mapping [of m]
    by (simp add: sequence_step_def doc_line_fields del: flow.simps block_loops.simps(2) add: block_loops.simps(2) [of "Suc (length ms + k)"])
qed (simp add: sequence_step_def)

lemma key_line: "splitYAMLKey ''proxies:'' = Some (''proxies'', [])"
proof -
  have "trim_space ''proxies'' = ''proxies''" by (rule trim_space_trimmed, rule trimmed_visible, code_simp)
  then show ?thesis by (simp add: splitYAMLKey_def next_quoting_def parseYAMLScalar_def)
qed

lemma decode_document:
  assumes "\<And>n. n \<in> set ns \<Longrightarrow> parseYAMLInline 2 (flow (Mapping (proxy_of n))) = Mapping (proxy_of n)"
  shows "decodeYAML (clash_document ns) =
    Some [(''proxies'', if ns = [] then Scalar [] else Seq (map (\<lambda>n. Mapping (proxy_of n)) ns))]"
proof -
  define ls where "ls = map (\<lambda>n. doc_line (proxy_of n)) ns"
  define top where "top = \<lparr>y_col = 0, y_dash = False, y_contentCol = 0, y_text = ''proxies:''\<rparr>"
  define f where "f = length (map proxy_of ns) + length ns"
  have w: "weight (top # ls) = Suc f"
    unfolding f_def ls_def by (induction ns) (auto simp: top_def doc_line_def)
  have tok: "tokenizeYAML (clash_document ns) = top # ls"
    by (simp add: tokenize_document ls_def top_def)
  have "map doc_line (map proxy_of ns) = ls" by (simp add: ls_def)
  moreover have "parseYAMLInline (Suc 1) (flow (Mapping m)) = Mapping m" if "m \<in> set (map proxy_of ns)" for m
    using assms that unfolding Suc_1 by auto
  then have "snd (block_loops (Suc f)) 0 1 [] (map doc_line (map proxy_of ns)) = Some ([] @ map Mapping (map proxy_of ns), [])"
    unfolding f_def by (rule read_proxy_lines)
  ultimately have seq: "snd (block_loops (Suc f)) 0 1 [] ls = Some (map (\<lambda>n. Mapping (proxy_of n)) ns, [])"
    by (simp only: map_map comp_def append_Nil)
  have rest: "fst (block_loops (Suc f)) 0 0 m [] = Some (m, [])" for m
    by (simp add: mapping_step_def)
  have more: "ns = [] \<or> (ls \<noteq> [] \<and> y_dash (hd ls) \<and> y_col (hd ls) = 0)"
    by (cases ns) (simp_all add: ls_def doc_line_def)
  have key: "splitYAMLKey (y_text top) = Some (''proxies'', [])" "y_col top = 0" "\<not> y_dash top"
    by (simp_all add: top_def key_line)
  have "mapping_step (fst (block_loops (Suc f))) (snd (block_loops (Suc f))) 0 0 [] (top # ls) =
      Some ([(''proxies'', if ns = [] then Scalar [] else Seq (map (\<lambda>n. Mapping (proxy_of n)) ns))], [])"
  proof (cases "ns = []")
    case True
    then show ?thesis using rest by (simp add: mapping_step_def key ls_def del: block_loops.simps)
  next
    case False
    then show ?thesis
      using more seq rest
      by (simp add: mapping_step_def key parseSequence_def maxParseDepth_def del: block_loops.simps)
  qed
  then show ?thesis
    by (simp add: decodeYAML_def tok w parseMapping_def key block_loops.simps(2) [of "Suc f"] maxParseDepth_def
        del: block_loops.simps weight_simps)
qed

section \<open>One proxy\<close>

definition base_keys :: "string list" where
  "base_keys = [''name'', ''type'', ''server'', ''port'']"

definition own_keys :: "string list" where
  "own_keys = [''cipher'', ''password'', ''uuid'', ''flow'', ''alterId'', ''tls'', ''obfs'', ''obfs-password'', ''private-key'',
     ''public-key'', ''pre-shared-key'', ''addresses'', ''jc'', ''jmin'', ''jmax'', ''s1'', ''s2'', ''h1'', ''h2'', ''h3'', ''h4'']"

definition transport_keys :: "string list" where
  "transport_keys = [''network'', ''grpc-opts'', ''http-opts'', ''ws-opts'']"

definition tls_keys :: "string list" where
  "tls_keys = [''servername'', ''skip-cert-verify'', ''alpn'', ''client-fingerprint'', ''reality-opts'']"

lemma wg_keys: "fst ` set (wg_fields wg) \<subseteq> set own_keys"
proof -
  have "map fst (wg_fields wg) = drop 8 own_keys" by (simp add: own_keys_def wg_fields_def)
  then show ?thesis by (metis set_drop_subset list.set_map)
qed

lemma field_keys:
  "fst ` set (own_fields n) \<subseteq> set own_keys"
  "fst ` set (transport_fields t) \<subseteq> set transport_keys"
  "fst ` set (tls_fields l) \<subseteq> set tls_keys"
proof -
  have own: "set [''cipher'', ''password'', ''uuid'', ''flow'', ''alterId'', ''tls'', ''obfs'', ''obfs-password''] \<subseteq> set own_keys"
    by (simp add: own_keys_def)
  show "fst ` set (own_fields n) \<subseteq> set own_keys"
    using own wg_keys unfolding own_fields_def by (cases "WireGuard n"; cases "Obfs n") simp_all
  show "fst ` set (transport_fields t) \<subseteq> set transport_keys"
    by (cases t) (simp_all add: transport_fields_def transport_keys_def)
  show "fst ` set (tls_fields l) \<subseteq> set tls_keys"
    by (auto simp: tls_fields_def tls_keys_def split: option.split)
qed

lemma not_a_key:
  "k \<notin> set base_keys \<Longrightarrow> map_of (base_fields n) k = None"
  "k \<notin> set own_keys \<Longrightarrow> map_of (own_fields n) k = None"
  "k \<notin> set transport_keys \<Longrightarrow> map_of (transport_fields t) k = None"
  "k \<notin> set tls_keys \<Longrightarrow> map_of (tls_fields l) k = None"
proof -
  have "map fst (base_fields n) = base_keys" by (simp add: base_fields_def base_keys_def)
  then have "fst ` set (base_fields n) = set base_keys" by (metis list.set_map)
  then show "k \<notin> set base_keys \<Longrightarrow> map_of (base_fields n) k = None" by (simp add: map_of_eq_None_iff)
next
  show "k \<notin> set own_keys \<Longrightarrow> map_of (own_fields n) k = None"
    unfolding map_of_eq_None_iff using field_keys(1) [of n] by blast
next
  show "k \<notin> set transport_keys \<Longrightarrow> map_of (transport_fields t) k = None"
    unfolding map_of_eq_None_iff using field_keys(2) [of t] by blast
next
  show "k \<notin> set tls_keys \<Longrightarrow> map_of (tls_fields l) k = None"
    unfolding map_of_eq_None_iff using field_keys(3) [of l] by blast
qed

lemma proxy_lookup:
  "map_of (proxy_of n) k =
     (case map_of (base_fields n) k of
        Some v \<Rightarrow> Some v
      | None \<Rightarrow> (case map_of (own_fields n) k of
          Some v \<Rightarrow> Some v
        | None \<Rightarrow> (case map_of (transport_fields (Transport n)) k of
            Some v \<Rightarrow> Some v
          | None \<Rightarrow> map_of (tls_fields (TLS n)) k)))"
  by (simp add: proxy_of_def map_add_def split: option.split)

lemma part_lookup:
  "k \<notin> set base_keys \<and> k \<notin> set own_keys \<and> k \<notin> set tls_keys \<Longrightarrow> map_of (proxy_of n) k = map_of (transport_fields (Transport n)) k"
  "k \<notin> set base_keys \<and> k \<notin> set own_keys \<and> k \<notin> set transport_keys \<Longrightarrow> map_of (proxy_of n) k = map_of (tls_fields (TLS n)) k"
  "k \<notin> set base_keys \<and> k \<notin> set transport_keys \<and> k \<notin> set tls_keys \<Longrightarrow> map_of (proxy_of n) k = map_of (own_fields n) k"
  by (simp_all add: proxy_lookup not_a_key split: option.split)

text \<open>The keys each part of the importer asks for, and where they are found.\<close>

lemma transport_lookup:
  "list_all (\<lambda>k. map_of (proxy_of n) k = map_of (transport_fields (Transport n)) k)
     [''network'', ''ws-opts'', ''grpc-opts'', ''h2-opts'', ''http-opts'']"
proof -
  have "list_all (\<lambda>k. k \<notin> set base_keys \<and> k \<notin> set own_keys \<and> k \<notin> set tls_keys)
     [''network'', ''ws-opts'', ''grpc-opts'', ''h2-opts'', ''http-opts'']" by code_simp
  then show ?thesis by (rule list.pred_mono_strong) (rule part_lookup(1))
qed

lemma tls_lookup:
  "list_all (\<lambda>k. map_of (proxy_of n) k = map_of (tls_fields (TLS n)) k)
     [''servername'', ''sni'', ''server-name'', ''skip-cert-verify'', ''alpn'', ''client-fingerprint'', ''fingerprint'',
      ''reality-opts'']"
proof -
  have "list_all (\<lambda>k. k \<notin> set base_keys \<and> k \<notin> set own_keys \<and> k \<notin> set transport_keys)
     [''servername'', ''sni'', ''server-name'', ''skip-cert-verify'', ''alpn'', ''client-fingerprint'', ''fingerprint'',
      ''reality-opts'']" by code_simp
  then show ?thesis by (rule list.pred_mono_strong) (rule part_lookup(2))
qed

lemma own_lookup:
  "list_all (\<lambda>k. map_of (proxy_of n) k = map_of (own_fields n) k)
     [''plugin'', ''cipher'', ''password'', ''auth-str'', ''auth'', ''uuid'', ''flow'', ''alterId'', ''tls'', ''obfs'',
      ''obfs-password'', ''private-key'', ''public-key'', ''pre-shared-key'', ''preshared-key'', ''pre_shared_key'', ''addresses'', ''ip'', ''ipv6'',
      ''jc'', ''jmin'', ''jmax'', ''s1'', ''s2'', ''h1'', ''h2'', ''h3'', ''h4'', ''amnezia-wg-option'']"
proof -
  have "list_all (\<lambda>k. k \<notin> set base_keys \<and> k \<notin> set transport_keys \<and> k \<notin> set tls_keys)
     [''plugin'', ''cipher'', ''password'', ''auth-str'', ''auth'', ''uuid'', ''flow'', ''alterId'', ''tls'', ''obfs'',
      ''obfs-password'', ''private-key'', ''public-key'', ''pre-shared-key'', ''preshared-key'', ''pre_shared_key'', ''addresses'', ''ip'', ''ipv6'',
      ''jc'', ''jmin'', ''jmax'', ''s1'', ''s2'', ''h1'', ''h2'', ''h3'', ''h4'', ''amnezia-wg-option'']" by code_simp
  then show ?thesis by (rule list.pred_mono_strong) (rule part_lookup(3))
qed

lemma base_lookup:
  "map_of (proxy_of n) ''name'' = Some (Scalar (Name n))"
  "map_of (proxy_of n) ''type'' = Some (Scalar (clash_type (Protocol n)))"
  "map_of (proxy_of n) ''server'' = Some (Scalar (Server n))"
  "map_of (proxy_of n) ''port'' = Some (Scalar (int_str (Port n)))"
  by (simp_all add: proxy_of_def base_fields_def)

lemma extra_kept:
  assumes "Extra n = Map.empty"
    and "\<And>k s. (k, Scalar s) \<in> set p \<Longrightarrow> s \<noteq> [] \<Longrightarrow> k \<in> set ([''name'', ''type'', ''server'', ''port''] @ ks)"
  shows "addClashExtra n p ks = n"
proof -
  have none: "(if k \<in> set ([''name'', ''type'', ''server'', ''port''] @ ks) then None
      else case map_of p k of Some (Scalar s) \<Rightarrow> if s = [] then None else Some s | _ \<Rightarrow> None) = None" for k
    using assms(2) map_of_SomeD [of p k] by (fastforce split: option.split yaml.split)
  show ?thesis
    unfolding addClashExtra_def none using assms(1) by simp
qed


lemma clash_words:
  "to_lower u ''ws'' = ''ws''" "to_lower u ''grpc'' = ''grpc''" "to_lower u ''http'' = ''http''"
  "to_lower u ''httpupgrade'' = ''httpupgrade''" "to_lower u ''ss'' = ''ss''" "to_lower u ''vmess'' = ''vmess''"
  "to_lower u ''vless'' = ''vless''" "to_lower u ''trojan'' = ''trojan''" "to_lower u ''hysteria2'' = ''hysteria2''"
  "to_lower u ''wireguard'' = ''wireguard''" "isTruthy u ''true''" "\<not> isTruthy u ''false''" "\<not> isTruthy u []"
proof -
  have a: "list_all (\<lambda>w. list_all ascii w \<and> map ascii_lower w = w)
     [''ws'', ''grpc'', ''http'', ''httpupgrade'', ''ss'', ''vmess'', ''vless'', ''trojan'', ''hysteria2'', ''wireguard'',
      ''true'', ''false'']" by code_simp
  then show "to_lower u ''ws'' = ''ws''" "to_lower u ''grpc'' = ''grpc''" "to_lower u ''http'' = ''http''"
    "to_lower u ''httpupgrade'' = ''httpupgrade''" "to_lower u ''ss'' = ''ss''" "to_lower u ''vmess'' = ''vmess''"
    "to_lower u ''vless'' = ''vless''" "to_lower u ''trojan'' = ''trojan''" "to_lower u ''hysteria2'' = ''hysteria2''"
    "to_lower u ''wireguard'' = ''wireguard''" by simp_all
  have "trim_space ''true'' = ''true''" "trim_space ''false'' = ''false''"
    by (rule trim_space_trimmed, rule trimmed_visible, code_simp)+
  then show "isTruthy u ''true''" "\<not> isTruthy u ''false''" "\<not> isTruthy u []" using a by (simp_all add: isTruthy_def)
qed

lemma read_transport:
  assumes "case Transport n of None \<Rightarrow> True | Some t \<Rightarrow> expressible_transport t"
  shows "clashTransport u (proxy_of n) = Transport n"
proof (cases "Transport n")
  case None
  have "yamlStr (proxy_of n) ''network'' = []"
    using transport_lookup [of n] None by (simp add: yamlStr_def transport_fields_def)
  then show ?thesis using None by (simp add: clashTransport_def)
next
  case (Some t)
  have e: "expressible_transport t" using assms Some by simp
  then have ty: "TrType t \<in> {''ws'', ''grpc'', ''http'', ''httpupgrade''}"
    by (auto simp: expressible_transport_def split: if_splits)
  then have lo: "to_lower u (TrType t) = TrType t" by (auto simp: clash_words)
  have net: "yamlStr (proxy_of n) ''network'' = TrType t"
    using transport_lookup [of n] Some ty by (auto simp: yamlStr_def transport_fields_def)
  note l = transport_lookup [of n, unfolded Some, simplified]
  define o1 where "o1 = [(''path'', Scalar (TrPath t)), (''headers'', Mapping [(''Host'', Scalar (TrHost t))])]"
  define o2 where "o2 = [(''grpc-service-name'', Scalar (TrServiceName t))]"
  have host: "headerHost (yamlMap o1 ''headers'') = TrHost t" and path: "yamlStr o1 ''path'' = TrPath t"
    "first (yamlStrings o1 ''path'') = TrPath t"
    and svc: "yamlStrAny o2 [''grpc-service-name'', ''serviceName'', ''service-name''] = TrServiceName t"
    by (simp_all add: yamlStrAny.simps o1_def o2_def headerHost_def yamlMap_def yamlStr_def yamlStrings_def first_def scalar_of_def)
  from ty consider "TrType t = ''ws''" | "TrType t = ''grpc''" | "TrType t = ''http''" | "TrType t = ''httpupgrade''" by auto
  then show ?thesis
  proof cases
    case 1
    then have "options_of (proxy_of n) ''ws-opts'' = o1"
      using l by (simp add: options_of_def yamlMap_def transport_fields_def o1_def)
    with 1 show ?thesis
      using e Some host path by (cases t) (simp add: clashTransport_def net clash_words zero_transport_def expressible_transport_def Let_def del: yamlStrAny.simps)
  next
    case 2
    then have "options_of (proxy_of n) ''grpc-opts'' = o2"
      using l by (simp add: options_of_def yamlMap_def transport_fields_def o2_def)
    with 2 show ?thesis
      using e Some svc by (cases t) (simp add: clashTransport_def net clash_words zero_transport_def expressible_transport_def Let_def del: yamlStrAny.simps)
  next
    case 3
    then have "options_of (proxy_of n) ''http-opts'' = o1"
      using l by (simp add: options_of_def yamlMap_def transport_fields_def o1_def)
    with 3 show ?thesis
      using e Some host path by (cases t) (simp add: clashTransport_def net clash_words zero_transport_def expressible_transport_def Let_def del: yamlStrAny.simps)
  next
    case 4
    then have "options_of (proxy_of n) ''ws-opts'' = o1"
      using l by (simp add: options_of_def yamlMap_def transport_fields_def o1_def)
    with 4 show ?thesis
      using e Some host path by (cases t) (simp add: clashTransport_def net clash_words zero_transport_def expressible_transport_def Let_def del: yamlStrAny.simps)
  qed
qed

lemma read_strings: "[] \<notin> set ws \<Longrightarrow> concat (map scalar_of (map Scalar ws)) = ws"
  by (induction ws) (auto simp: scalar_of_def)

lemma read_tls:
  assumes "TLS n = Some t" "expressible_tls t" "force \<or> yamlBool u (proxy_of n) ''tls''"
  shows "clashTLS u (proxy_of n) force = Some t"
proof -
  note l = tls_lookup [of n, unfolded assms(1), simplified]
  have "yamlStrAny (proxy_of n) [''servername'', ''sni'', ''server-name''] = ServerName t"
    "yamlStrAny (proxy_of n) [''client-fingerprint'', ''fingerprint''] = Fingerprint t"
    "yamlBool u (proxy_of n) ''skip-cert-verify'' = Insecure t"
    using l by (simp_all add: yamlStrAny.simps yamlStr_def yamlBool_def tls_fields_def clash_words split: option.split)
  moreover have "yamlStrings (proxy_of n) ''alpn'' = ALPN t"
    using l assms(2) read_strings by (simp add: yamlStrings_def tls_fields_def expressible_tls_def)
  moreover have "yamlMap (proxy_of n) ''reality-opts'' =
      map_option (\<lambda>r. [(''public-key'', Scalar (PublicKey r)), (''short-id'', Scalar (ShortID r))]) (Reality t)"
    using l by (simp add: yamlMap_def tls_fields_def split: option.split)
  ultimately show ?thesis
    using assms(2,3) unfolding clashTLS_def
    by (cases t; cases "Reality t") (auto simp: yamlStrAny.simps zero_tls_def expressible_tls_def yamlStr_def)
qed

lemma read_no_tls:
  assumes "TLS n = None" "\<not> yamlBool u (proxy_of n) ''tls''"
  shows "clashTLS u (proxy_of n) False = None"
proof -
  have "yamlMap (proxy_of n) ''reality-opts'' = None"
    using tls_lookup [of n] assms(1) by (simp add: yamlMap_def tls_fields_def)
  then show ?thesis using assms(2) by (simp add: clashTLS_def)
qed

lemma parse_int_str: "int64 i \<Longrightarrow> parse_int (int_str i) = Some i \<and> trim_space (int_str i) = int_str i \<and> int_str i \<noteq> []"
proof -
  assume i: "int64 i"
  have d: "list_all is_digit (nat_str n)" "nat_str n \<noteq> []" for n using nat_str_digits by auto
  have h: "hd (nat_str n) \<noteq> CHR ''-'' \<and> hd (nat_str n) \<noteq> CHR ''+''" for n
    using d [of n] by (cases "nat_str n") (auto simp: is_digit_def)
  have v: "is_digit c \<Longrightarrow> ascii c \<and> 33 \<le> (of_char c :: nat)" for c by (auto simp: is_digit_def ascii_def)
  have "list_all (\<lambda>c. ascii c \<and> 33 \<le> (of_char c :: nat)) (int_str i)"
    using d v by (auto simp: int_str_def list_all_iff ascii_def)
  then have "trim_space (int_str i) = int_str i" by (intro trim_space_trimmed trimmed_visible)
  moreover have "parse_int (int_str i) = Some i"
    using i d h by (auto simp: parse_int_def int_str_def int64_def Let_def)
  ultimately show ?thesis using d by (simp add: int_str_def)
qed

lemma read_int: "map_of m k = Some (Scalar (int_str i)) \<Longrightarrow> int64 i \<Longrightarrow> yamlInt m k = i \<and> yamlInt64 m k = i"
  using parse_int_str [of i] by (simp add: yamlInt_def yamlInt64_def yamlStr_def)


text \<open>Each mapper on the proxy written from a node of its protocol.\<close>

definition extra_free :: "ymap \<Rightarrow> string list \<Rightarrow> bool" where
  "extra_free p ks \<longleftrightarrow> list_all (\<lambda>(k, v). (\<forall>s. v = Scalar s \<longrightarrow> s = []) \<or> k \<in> set (base_keys @ ks)) p"

lemma extra_free_append [simp]: "extra_free (xs @ ys) ks \<longleftrightarrow> extra_free xs ks \<and> extra_free ys ks"
  by (simp add: extra_free_def)

lemma extra_free_keep:
  assumes "extra_free p ks" "Extra n = Map.empty"
  shows "addClashExtra n p ks = n"
  using assms(1) by (intro extra_kept [OF assms(2)]) (auto simp: extra_free_def list_all_iff base_keys_def)

lemma base_extra_free: "extra_free (base_fields n) ks"
  by (simp add: extra_free_def base_fields_def base_keys_def)

lemma transport_extra_free: "''network'' \<in> set ks \<Longrightarrow> extra_free (transport_fields t) ks"
  by (auto simp: extra_free_def transport_fields_def split: option.split)

lemma tls_extra_free:
  assumes "''servername'' \<in> set ks" "''skip-cert-verify'' \<in> set ks"
    "''client-fingerprint'' \<in> set ks \<or> (\<forall>t. l = Some t \<longrightarrow> Fingerprint t = [])"
  shows "extra_free (tls_fields l) ks"
  using assms by (cases l) (auto simp: extra_free_def tls_fields_def split: option.split)

lemma proxy_extra_free:
  assumes "extra_free (own_fields n) ks" "Transport n = None \<or> ''network'' \<in> set ks"
    and "TLS n = None \<or> (''servername'' \<in> set ks \<and> ''skip-cert-verify'' \<in> set ks \<and>
      (''client-fingerprint'' \<in> set ks \<or> (\<forall>t. TLS n = Some t \<longrightarrow> Fingerprint t = [])))"
  shows "extra_free (proxy_of n) ks"
proof -
  have "extra_free (transport_fields (Transport n)) ks"
    using assms(2) transport_extra_free by (auto simp: transport_fields_def [of None] extra_free_def [of "[]"])
  moreover have "extra_free (tls_fields (TLS n)) ks"
    using assms(3) tls_extra_free by (auto simp: tls_fields_def [of None] extra_free_def [of "[]"])
  ultimately show ?thesis using assms(1) base_extra_free by (simp add: proxy_of_def)
qed

lemma read_shadowsocks:
  assumes "expressible n" "Protocol n = Shadowsocks"
  shows "clashShadowsocks (proxy_of n) (Server n) (Port n) = Some n"
proof -
  have f: "TLS n = None" "Transport n = None" "Obfs n = None" "WireGuard n = None" "Method n \<noteq> []" "node.Password n \<noteq> []"
    "Extra n = Map.empty" "UUID n = []" "Flow n = []" "Security n = []" "AlterID n = 0"
    using assms(1) unfolding expressible_def by (simp_all add: assms(2) split: option.splits)
  note l = own_lookup [of n, unfolded own_fields_def assms(2), simplified]
  have v: "yamlStr (proxy_of n) ''plugin'' = []" "yamlStr (proxy_of n) ''cipher'' = Method n"
    "yamlStr (proxy_of n) ''password'' = node.Password n" "yamlStr (proxy_of n) ''name'' = Name n"
    using l base_lookup [of n] by (simp_all add: yamlStr_def)
  have "extra_free (proxy_of n) [''cipher'', ''password'']"
    by (rule proxy_extra_free) (use f assms(2) in \<open>simp_all add: own_fields_def extra_free_def\<close>)
  note keep = extra_free_keep [OF this]
  show ?thesis
    using f assms(2) unfolding clashShadowsocks_def v Let_def
    by (simp add: keep, intro node.equality) (simp_all add: zero_node_def)
qed

lemma read_vless:
  assumes "expressible n" "Protocol n = VLESS"
  shows "clashVLESS u (proxy_of n) (Server n) (Port n) = Some n"
proof -
  have f: "Obfs n = None" "WireGuard n = None" "Method n = []" "node.Password n = []"
    "Extra n = Map.empty" "UUID n \<noteq> []" "Security n = []" "AlterID n = 0"
    and tr: "case Transport n of None \<Rightarrow> True | Some t \<Rightarrow> expressible_transport t"
    and tl: "\<And>t. TLS n = Some t \<Longrightarrow> expressible_tls t"
    using assms(1) unfolding expressible_def by (simp_all add: assms(2) split: option.splits)
  note l = own_lookup [of n, unfolded own_fields_def assms(2), simplified]
  have v: "yamlStr (proxy_of n) ''uuid'' = UUID n" "yamlStr (proxy_of n) ''flow'' = Flow n"
    "yamlStr (proxy_of n) ''name'' = Name n" "yamlBool u (proxy_of n) ''tls'' \<longleftrightarrow> TLS n \<noteq> None"
    using l base_lookup [of n] by (simp_all add: yamlStr_def yamlBool_def clash_words)
  have tls: "clashTLS u (proxy_of n) False = TLS n"
    using read_no_tls [of n u] read_tls [of n _ False u] tl v(4) by (cases "TLS n") auto
  define ks where "ks = [''uuid'', ''flow'', ''network'', ''tls'', ''servername'', ''sni'', ''server-name'', ''skip-cert-verify'',
           ''alpn'', ''client-fingerprint'', ''fingerprint'']"
  have "extra_free (proxy_of n) ks"
    by (rule proxy_extra_free) (use assms(2) in \<open>simp_all add: own_fields_def extra_free_def ks_def\<close>)
  note keep = extra_free_keep [OF this]
  show ?thesis
    using f assms(2) unfolding clashVLESS_def v tls read_transport [OF tr] ks_def [symmetric]
    by (simp add: keep, intro node.equality) (simp_all add: zero_node_def)
qed

lemma read_vmess:
  assumes "expressible n" "Protocol n = VMess"
  shows "clashVMess u (proxy_of n) (Server n) (Port n) = Some n"
proof -
  have f: "Obfs n = None" "WireGuard n = None" "Method n = []" "node.Password n = []"
    "Extra n = Map.empty" "UUID n \<noteq> []" "Flow n = []" "int64 (AlterID n)"
    and tr: "case Transport n of None \<Rightarrow> True | Some t \<Rightarrow> expressible_transport t"
    and tl: "\<And>t. TLS n = Some t \<Longrightarrow> expressible_tls t"
    using assms(1) unfolding expressible_def by (simp_all add: assms(2) split: option.splits)
  note l = own_lookup [of n, unfolded own_fields_def assms(2), simplified]
  have v: "yamlStr (proxy_of n) ''uuid'' = UUID n" "yamlStr (proxy_of n) ''cipher'' = Security n"
    "yamlStr (proxy_of n) ''name'' = Name n" "yamlBool u (proxy_of n) ''tls'' \<longleftrightarrow> TLS n \<noteq> None"
    using l base_lookup [of n] by (simp_all add: yamlStr_def yamlBool_def clash_words)
  have a: "map_of (proxy_of n) ''alterId'' = Some (Scalar (int_str (AlterID n)))" using l by simp
  then have aid: "yamlIntAny (proxy_of n) [''alterId'', ''alterid'', ''alter-id''] = AlterID n"
    using read_int [OF a f(8)] by simp
  have tls: "clashTLS u (proxy_of n) False = TLS n"
    using read_no_tls [of n u] read_tls [of n _ False u] tl v(4) by (cases "TLS n") auto
  define ks where "ks = [''uuid'', ''alterId'', ''alterid'', ''alter-id'', ''cipher'', ''network'', ''tls'', ''servername'', ''sni'',
           ''server-name'', ''skip-cert-verify'', ''alpn'', ''client-fingerprint'', ''fingerprint'']"
  have "extra_free (proxy_of n) ks"
    by (rule proxy_extra_free) (use assms(2) in \<open>simp_all add: own_fields_def extra_free_def ks_def\<close>)
  note keep = extra_free_keep [OF this]
  show ?thesis
    using f assms(2) unfolding clashVMess_def v tls aid read_transport [OF tr] ks_def [symmetric]
    by (simp add: keep, intro node.equality) (simp_all add: zero_node_def)
qed


lemma read_trojan:
  assumes "expressible n" "Protocol n = Trojan"
  shows "clashTrojan u (proxy_of n) (Server n) (Port n) = Some n"
proof -
  have f: "Obfs n = None" "WireGuard n = None" "Method n = []" "node.Password n \<noteq> []"
    "Extra n = Map.empty" "UUID n = []" "Security n = []" "AlterID n = 0" "Flow n = []"
    and tr: "case Transport n of None \<Rightarrow> True | Some t \<Rightarrow> expressible_transport t"
    and tl: "\<exists>t. TLS n = Some t \<and> expressible_tls t"
    using assms(1) unfolding expressible_def by (simp_all add: assms(2) split: option.splits)
  note l = own_lookup [of n, unfolded own_fields_def assms(2), simplified]
  have v: "yamlStr (proxy_of n) ''password'' = node.Password n" "yamlStr (proxy_of n) ''name'' = Name n"
    using l base_lookup [of n] by (simp_all add: yamlStr_def)
  have tls: "clashTLS u (proxy_of n) True = TLS n"
    using read_tls [of n _ True u] tl by auto
  define ks where "ks = [''password'', ''network'', ''sni'', ''servername'', ''server-name'', ''skip-cert-verify'', ''alpn'',
           ''client-fingerprint'', ''fingerprint'']"
  have "extra_free (proxy_of n) ks"
    by (rule proxy_extra_free) (use f(1) assms(2) in \<open>simp_all add: own_fields_def extra_free_def ks_def\<close>)
  note keep = extra_free_keep [OF this]
  show ?thesis
    using f assms(2) unfolding clashTrojan_def v tls read_transport [OF tr] ks_def [symmetric]
    by (simp add: keep, intro node.equality) (simp_all add: zero_node_def)
qed

lemma salamander_fold: "equal_fold ''salamander'' ''salamander''" "\<not> equal_fold [] ''salamander''"
  by code_simp+

lemma read_hysteria2:
  assumes "expressible n" "Protocol n = Hysteria2"
  shows "clashHysteria2 u (proxy_of n) (Server n) (Port n) = Some n"
proof -
  have f: "Transport n = None" "WireGuard n = None" "Method n = []" "node.Password n \<noteq> []"
    "Extra n = Map.empty" "UUID n = []" "Security n = []" "AlterID n = 0" "Flow n = []"
    and ob: "case Obfs n of None \<Rightarrow> True | Some b \<Rightarrow> ObfsType b = ''salamander''"
    and "case TLS n of None \<Rightarrow> False | Some t \<Rightarrow> expressible_tls t \<and> Fingerprint t = []"
    using assms(1) unfolding expressible_def by (simp_all add: assms(2) split: option.splits)
  then obtain t where tl: "TLS n = Some t" "expressible_tls t" "Fingerprint t = []" by (cases "TLS n") auto
  note l = own_lookup [of n, unfolded own_fields_def assms(2), simplified]
  have v: "yamlStrAny (proxy_of n) [''password'', ''auth-str'', ''auth''] = node.Password n"
    "yamlStr (proxy_of n) ''name'' = Name n"
    using l base_lookup [of n] f(4) by (simp_all add: yamlStr_def yamlStrAny.simps)
  have lo: "map_of (proxy_of n) ''obfs'' = map_of (own_fields n) ''obfs''"
    "map_of (proxy_of n) ''obfs-password'' = map_of (own_fields n) ''obfs-password''"
    using own_lookup [of n] by simp_all
  have obfs: "(if equal_fold (yamlStr (proxy_of n) ''obfs'') ''salamander''
      then Some \<lparr>ObfsType = ''salamander'', ObfsPassword = yamlStr (proxy_of n) ''obfs-password''\<rparr> else None) = Obfs n"
  proof (cases "Obfs n")
    case None
    have "map_of (own_fields n) ''obfs'' = None" using None by (simp add: own_fields_def assms(2))
    then have "yamlStr (proxy_of n) ''obfs'' = []" by (simp add: lo yamlStr_def)
    then show ?thesis using salamander_fold(2) None by (simp only: if_False)
  next
    case (Some b)
    have "yamlStr (proxy_of n) ''obfs'' = ''salamander''" "yamlStr (proxy_of n) ''obfs-password'' = ObfsPassword b"
      using Some by (simp_all add: lo yamlStr_def own_fields_def assms(2))
    then show ?thesis using salamander_fold(1) Some ob by (cases b) simp
  qed
  have tls: "clashTLS u (proxy_of n) True = TLS n"
    using read_tls [of n _ True u] tl by auto
  define ks where "ks = [''password'', ''auth-str'', ''auth'', ''sni'', ''servername'', ''server-name'', ''skip-cert-verify'',
              ''alpn'', ''obfs'', ''obfs-password'']"
  have "extra_free (own_fields n) ks"
    using assms(2) by (cases "Obfs n") (simp_all add: own_fields_def extra_free_def ks_def)
  then have "extra_free (proxy_of n) ks"
    using f(1) tl by (intro proxy_extra_free) (auto simp: ks_def)
  note keep = extra_free_keep [OF this]
  show ?thesis
    using f assms(2) unfolding clashHysteria2_def v tls obfs ks_def [symmetric] Let_def
    by (simp add: keep, intro node.equality) (simp_all add: zero_node_def)
qed

lemma read_wireguard:
  assumes "expressible n" "Protocol n = AmneziaWG"
  shows "clashWireGuard (proxy_of n) (Server n) (Port n) = Some n"
proof -
  obtain wg where w: "WireGuard n = Some wg" "expressible_wg wg"
    using assms(1) unfolding expressible_def by (auto simp: assms(2) split: option.splits)
  have f: "Transport n = None" "TLS n = None" "Obfs n = None" "Method n = []" "node.Password n = []"
    "Extra n = Map.empty" "UUID n = []" "Security n = []" "AlterID n = 0" "Flow n = []"
    using assms(1) unfolding expressible_def by (simp_all add: assms(2) split: option.splits)
  have own: "own_fields n = wg_fields wg" using assms(2) w by (simp add: own_fields_def)
  note l = own_lookup [of n, unfolded own wg_fields_def, simplified]
  have keys: "PrivateKey wg \<noteq> []" "PeerPublicKey wg \<noteq> []"
    and addr: "[] \<notin> set (LocalAddress wg)" "map wg_address (LocalAddress wg) = LocalAddress wg"
    and ints: "int64 (Jc wg)" "int64 (Jmin wg)" "int64 (Jmax wg)" "int64 (S1 wg)" "int64 (S2 wg)"
      "int64 (H1 wg)" "int64 (H2 wg)" "int64 (H3 wg)" "int64 (H4 wg)"
    using w(2) by (auto simp: expressible_wg_def wg_address_def intro!: map_idI)
  have v: "yamlStrAny (proxy_of n) [''private-key'', ''private_key''] = PrivateKey wg"
    "yamlStrAny (proxy_of n) [''public-key'', ''public_key''] = PeerPublicKey wg"
    "yamlStr (proxy_of n) ''name'' = Name n"
    using l base_lookup [of n] keys by (simp_all add: yamlStr_def yamlStrAny.simps)
  have psk: "yamlStrAny (proxy_of n) [''pre-shared-key'', ''preshared-key'', ''pre_shared_key''] = PreSharedKey wg"
    using l by (simp add: yamlStr_def yamlStrAny.simps)
  have addrs: "clashWGAddresses (proxy_of n) = LocalAddress wg"
    using l addr read_strings [OF addr(1)] by (simp add: clashWGAddresses_def yamlStrings_def yamlStr_def)
  have amn: "applyClashAmnezia (zero_wireguard\<lparr>PrivateKey := PrivateKey wg, PeerPublicKey := PeerPublicKey wg,
      PreSharedKey := PreSharedKey wg, LocalAddress := LocalAddress wg\<rparr>) (proxy_of n) = wg"
    using l read_int [OF _ ints(1)] read_int [OF _ ints(2)] read_int [OF _ ints(3)] read_int [OF _ ints(4)]
      read_int [OF _ ints(5)] read_int [OF _ ints(6)] read_int [OF _ ints(7)] read_int [OF _ ints(8)] read_int [OF _ ints(9)]
    by (intro wireguard.equality) (simp_all add: applyClashAmnezia_def yamlMap_def zero_wireguard_def Let_def)
  define ks where "ks = [''private-key'', ''private_key'', ''public-key'', ''public_key'', ''pre-shared-key'', ''preshared-key'',
              ''pre_shared_key'', ''ip'', ''ipv6'', ''addresses'', ''jc'', ''jmin'', ''jmax'', ''s1'', ''s2'',
              ''h1'', ''h2'', ''h3'', ''h4'', ''amnezia-wg-option'']"
  have "extra_free (proxy_of n) ks"
    by (rule proxy_extra_free) (use f(1,2) in \<open>simp_all add: own wg_fields_def extra_free_def ks_def\<close>)
  note keep = extra_free_keep [OF this]
  show ?thesis
    using f assms(2) w(1) keys unfolding clashWireGuard_def v psk addrs amn ks_def [symmetric] Let_def
    by (simp add: keep, intro node.equality) (simp_all add: zero_node_def)
qed

end
