(* ===== verification/Clash_Roundtrip.thy ===== *)
theory Clash_Roundtrip
  imports Clash_Document
begin

text \<open>
  The last step of the Clash round trip: every mapper together, the shape of the proxy maps, and the document as
  a subscription body.
\<close>

section \<open>Any protocol\<close>

lemma type_words:
  "clash_type VLESS = ''vless''" "clash_type VMess = ''vmess''" "clash_type Trojan = ''trojan''"
  "clash_type Hysteria2 = ''hysteria2''" "clash_type Shadowsocks = ''ss''" "clash_type AmneziaWG = ''wireguard''"
  by (simp_all add: clash_type_def protocol_defs)

lemma read_proxy:
  assumes "expressible n"
  shows "clashProxyToNode u (Some (proxy_of n)) = Some n"
proof -
  have b: "Server n \<noteq> []" "1 \<le> Port n" "Port n \<le> 65535"
    and p: "Protocol n \<in> {VLESS, VMess, Trojan, Hysteria2, Shadowsocks, AmneziaWG}"
    using assms unfolding expressible_def by blast+
  have server: "yamlStr (proxy_of n) ''server'' = Server n" and ty: "yamlStr (proxy_of n) ''type'' = clash_type (Protocol n)"
    using base_lookup [of n] by (simp_all add: yamlStr_def)
  have "int64 (Port n)" using b by (simp add: int64_def)
  then have "yamlInt (proxy_of n) ''port'' = Port n"
    using read_int [OF base_lookup(4)] by blast
  then have port: "clash_port (proxy_of n) = Port n" using b by (simp add: clash_port_def)
  show ?thesis
    using p
  proof (elim insertE emptyE)
    assume k: "Protocol n = VLESS"
    show ?thesis using b read_vless [OF assms k]
      by (simp add: clashProxyToNode_def Let_def server ty port k type_words clash_words)
  next
    assume k: "Protocol n = VMess"
    show ?thesis using b read_vmess [OF assms k]
      by (simp add: clashProxyToNode_def Let_def server ty port k type_words clash_words)
  next
    assume k: "Protocol n = Trojan"
    show ?thesis using b read_trojan [OF assms k]
      by (simp add: clashProxyToNode_def Let_def server ty port k type_words clash_words)
  next
    assume k: "Protocol n = Hysteria2"
    show ?thesis using b read_hysteria2 [OF assms k]
      by (simp add: clashProxyToNode_def Let_def server ty port k type_words clash_words)
  next
    assume k: "Protocol n = Shadowsocks"
    show ?thesis using b read_shadowsocks [OF assms k]
      by (simp add: clashProxyToNode_def Let_def server ty port k type_words clash_words)
  next
    assume k: "Protocol n = AmneziaWG"
    show ?thesis using b read_wireguard [OF assms k]
      by (simp add: clashProxyToNode_def Let_def server ty port k type_words clash_words)
  qed
qed

section \<open>The whole document\<close>

lemma keys_disjoint: "distinct (base_keys @ own_keys @ transport_keys @ tls_keys)"
  by code_simp

lemma parts_distinct:
  "distinct (map fst (own_fields n))" "distinct (map fst (transport_fields t))" "distinct (map fst (tls_fields l))"
proof -
  have own: "distinct own_keys" by code_simp
  have "map fst (wg_fields wg) = drop 8 own_keys" for wg by (simp add: own_keys_def wg_fields_def)
  then have "distinct (map fst (wg_fields wg))" for wg using own by (simp add: distinct_drop)
  then show "distinct (map fst (own_fields n))"
    unfolding own_fields_def by (cases "WireGuard n"; cases "Obfs n") simp_all
  show "distinct (map fst (transport_fields t))"
    by (cases t) (simp_all add: transport_fields_def)
  show "distinct (map fst (tls_fields l))"
    by (cases l) (simp_all add: tls_fields_def split: option.split)
qed

lemma proxy_keys_distinct: "distinct (map fst (proxy_of n))"
proof -
  have base: "map fst (base_fields n) = base_keys" by (simp add: base_fields_def base_keys_def)
  have sub: "set (map fst (own_fields n)) \<subseteq> set own_keys" "set (map fst (transport_fields t)) \<subseteq> set transport_keys"
    "set (map fst (tls_fields l)) \<subseteq> set tls_keys" for t l
    using field_keys by simp_all
  have "distinct base_keys" and dis: "set base_keys \<inter> (set own_keys \<union> set transport_keys \<union> set tls_keys) = {}"
    "set own_keys \<inter> (set transport_keys \<union> set tls_keys) = {}" "set transport_keys \<inter> set tls_keys = {}"
    using keys_disjoint unfolding distinct_append set_append by blast+
  then show ?thesis
    unfolding proxy_of_def map_append distinct_append set_append base
    using parts_distinct sub(1) sub(2) [of "Transport n"] sub(3) [of "TLS n"] by blast
qed

lemma values_printable:
  "list_all (\<lambda>(k, v). printable v) (base_fields n)" "list_all (\<lambda>(k, v). printable v) (own_fields n)"
  "list_all (\<lambda>(k, v). printable v) (transport_fields t)" "list_all (\<lambda>(k, v). printable v) (tls_fields l)"
proof -
  have "list_all (\<lambda>(k, v). printable v) (wg_fields wg)" for wg
    by (simp add: wg_fields_def list_all_iff)
  then show "list_all (\<lambda>(k, v). printable v) (own_fields n)"
    unfolding own_fields_def by (cases "WireGuard n"; cases "Obfs n") simp_all
  show "list_all (\<lambda>(k, v). printable v) (transport_fields t)"
    by (cases t) (simp_all add: transport_fields_def)
  show "list_all (\<lambda>(k, v). printable v) (tls_fields l)"
    by (auto simp: tls_fields_def list_all_iff split: option.split)
qed (simp add: base_fields_def)

lemma proxy_printable: "printable (Mapping (proxy_of n))"
proof -
  have "list_all (\<lambda>(k, v). printable v) (proxy_of n)"
    using values_printable by (simp add: proxy_of_def)
  then have "list_all snd (map (map_prod (\<lambda>k. k) printable) (proxy_of n))"
    by (simp add: list_all_iff case_prod_unfold)
  then show ?thesis using proxy_keys_distinct by simp
qed

lemma low_scalars: "low_list n (map Scalar ws)"
  by (induction ws) auto

lemma proxy_height: "height (Mapping (proxy_of n)) \<le> 3"
proof -
  have "low 2 (wg_fields wg)" for wg by (simp add: wg_fields_def low_scalars)
  then have "low 2 (own_fields n)"
    unfolding own_fields_def by (cases "WireGuard n"; cases "Obfs n") simp_all
  moreover have "low 2 (transport_fields t)" for t
    by (cases t) (simp_all add: transport_fields_def)
  moreover have "low 2 (tls_fields l)" for l
    by (cases l) (simp_all add: tls_fields_def low_scalars split: option.split)
  moreover have "low 2 (base_fields n)" by (simp add: base_fields_def)
  ultimately show ?thesis by (simp add: proxy_of_def)
qed

lemma last_join: "ws \<noteq> [] \<Longrightarrow> last ws \<noteq> [] \<Longrightarrow> last (join sep ws) = last (last ws) \<and> join sep ws \<noteq> []"
  by (induction ws rule: induct_list012) auto

lemma document_form:
  "trimmed (clash_document ns) \<and> clash_document ns \<noteq> [] \<and> looksLikeClashConfig (clash_document ns) \<and>
   stripBOM (clash_document ns) = clash_document ns"
proof -
  let ?ws = "''proxies:'' # map proxy_line ns"
  have "last ?ws \<noteq> [] \<and> visible (last (last ?ws))"
    by (cases ns rule: rev_cases) (simp_all add: proxy_line_def visible_def ascii_def)
  then have last: "visible (last (clash_document ns))" "clash_document ns \<noteq> []"
    using last_join [of ?ws "[CHR 0x0A]"] by (simp_all add: clash_document_def)
  have hd: "hd (clash_document ns) = CHR ''p''"
    by (cases ns) (simp_all add: clash_document_def)
  have "split_on (CHR 0x0A) (clash_document ns) = ?ws"
    unfolding clash_document_def using flow_line
    by (intro split_on_join) (auto simp: proxy_line_def simp del: flow.simps)
  moreover have "proxies_key ''proxies:''"
    by (simp add: proxies_key_def trim_right_of_def blank_char_def has_prefix_def)
  ultimately have "looksLikeClashConfig (clash_document ns)" by (simp add: looksLikeClashConfig_def)
  moreover have "trimmed (clash_document ns)"
    using last hd by (intro trimmed_ends) (simp_all add: visible_def ascii_def)
  moreover have "stripBOM (clash_document ns) = clash_document ns"
    using hd last(2) by (cases "clash_document ns") (simp_all add: stripBOM_def trim_prefix_def has_prefix_def)
  ultimately show ?thesis using last by blast
qed

text \<open>C34. A Clash document written from any list of nodes a Clash proxy can express is read back as exactly those
  nodes, none skipped, whatever characters their names, passwords, paths and hosts consist of.\<close>

theorem clash_document_round_trip:
  assumes "list_all expressible ns"
  shows "ParseSubscription u js (clash_document ns) = Some (ns, 0)"
proof -
  have inline: "parseYAMLInline 2 (flow (Mapping (proxy_of n))) = Mapping (proxy_of n)" for n
    using proxy_height [of n] by (intro flow_read [OF proxy_printable]) linarith
  have maps: "clashProxyMaps (clash_document ns) = Some (map (\<lambda>n. Some (proxy_of n)) ns, True)"
    unfolding clashProxyMaps_def decode_document [OF inline] by (simp add: comp_def)
  have node: "clashProxyToNode u (Some (proxy_of n)) = Some n" if "n \<in> set ns" for n
    using assms that read_proxy by (simp add: list_all_iff)
  have "List.map_filter (clashProxyToNode u) (map (\<lambda>n. Some (proxy_of n)) ns) = ns"
    using node by (induction ns) (simp_all add: map_filter_simps)
  moreover have "filter (\<lambda>p. clashProxyToNode u p = None) (map (\<lambda>n. Some (proxy_of n)) ns) = []"
    using node by (simp add: filter_empty_conv)
  ultimately have "parseClashSubscription u (clash_document ns) = Some (ns, 0)"
    by (simp add: parseClashSubscription_def maps)
  then show ?thesis
    using document_form [of ns] by (simp add: ParseSubscription_def trim_space_trimmed Let_def)
qed

definition ex_expressible :: node where
  "ex_expressible = zero_node\<lparr>Protocol := Trojan, Name := ''a, b: #1'', Server := ''h'', Port := 443,
     Password := [CHR 0x22, CHR 0x0A, CHR 0x5C], TLS := Some (zero_tls\<lparr>Enabled := True\<rparr>)\<rparr>"

lemma ex_expressible: "expressible ex_expressible"
  by (simp add: expressible_def ex_expressible_def zero_node_def zero_tls_def expressible_tls_def)

theorem clash_document_round_trip_witness:
  "ParseSubscription (\<lambda>s. s) (\<lambda>s. None) (clash_document [ex_expressible, ex_expressible]) =
     Some ([ex_expressible, ex_expressible], 0)"
  by (rule clash_document_round_trip) (simp add: ex_expressible)

theorem clash_node_usable_witness:
  "Server ex_expressible \<noteq> [] \<and> node.Password ex_expressible \<noteq> [] \<and> ValidateNode ex_expressible"
  using clash_node_usable [OF read_proxy [OF ex_expressible]]
  by (simp add: ex_expressible_def zero_tls_def)

theorem decodeYAML_depth_bound_witness:
  "low 257 [(''proxies'', Seq [Mapping (proxy_of ex_expressible)])]"
proof (rule decodeYAML_depth_bound)
  have "parseYAMLInline 2 (flow (Mapping (proxy_of ex_expressible))) = Mapping (proxy_of ex_expressible)"
    using proxy_height [of ex_expressible] by (intro flow_read [OF proxy_printable]) linarith
  then show "decodeYAML (clash_document [ex_expressible]) = Some [(''proxies'', Seq [Mapping (proxy_of ex_expressible)])]"
    using decode_document [of "[ex_expressible]"] by simp
qed

end
