(* ===== verification/Settings.thy ===== *)
theory Settings
  imports Guard Control_Nodes Go_Url
begin

text \<open>
  The user's settings (\<^verbatim>\<open>core/control/settings_file.go\<close> and the set commands of \<^verbatim>\<open>daemon.go\<close>): the file, loading it
  into the daemon, mirroring the preferences onto the reported state, and one function per command.  A command
  answers with an error or with the reported state, and says whether it goes on to re-apply the settings to a
  live tunnel.  A save that fails is logged and nothing else.  The JSON encoder and decoder of the file and the
  file system calls are those of the profile store.
\<close>

section \<open>The file\<close>

record persisted =
  ps_Version :: int
  ps_SplitMode :: string
  ps_SplitApps :: "string list"
  ps_RoutingMode :: string
  ps_PresetGamesDirect :: "bool option"
  ps_PresetVoiceDirect :: "bool option"
  ps_PresetUnblockServices :: "bool option"
  ps_KillSwitch :: bool
  ps_TLSFragment :: bool
  ps_TunStack :: string
  ps_ProxyMode :: string
  ps_ProxyPort :: int
  ps_Autoconnect :: bool
  ps_AutoFailover :: "bool option"
  ps_AdBlock :: bool
  ps_DNSRemote :: string
  ps_DNSDirect :: string
  ps_IPv4Only :: bool
  ps_RulesDirect :: "string list"
  ps_RulesProxy :: "string list"
  ps_PresetRuBanking :: bool
  ps_PresetRuGov :: bool
  ps_Multihop :: bool
  ps_MultihopEntryID :: string
  ps_MultihopExitID :: string
  ps_CrashReports :: "bool option"
  ps_LastProfile :: string
  ps_LastNode :: string
  ps_ZapretStrategy :: string
  ps_ZapretAutoUpdate :: "bool option"
  ps_ZapretEnabled :: "bool option"

definition zero_persisted :: persisted where
  "zero_persisted =
     \<lparr>ps_Version = 0, ps_SplitMode = [], ps_SplitApps = [], ps_RoutingMode = [], ps_PresetGamesDirect = None,
      ps_PresetVoiceDirect = None, ps_PresetUnblockServices = None, ps_KillSwitch = False, ps_TLSFragment = False,
      ps_TunStack = [], ps_ProxyMode = [], ps_ProxyPort = 0, ps_Autoconnect = False, ps_AutoFailover = None,
      ps_AdBlock = False, ps_DNSRemote = [], ps_DNSDirect = [], ps_IPv4Only = False, ps_RulesDirect = [],
      ps_RulesProxy = [], ps_PresetRuBanking = False, ps_PresetRuGov = False, ps_Multihop = False,
      ps_MultihopEntryID = [], ps_MultihopExitID = [], ps_CrashReports = None, ps_LastProfile = [], ps_LastNode = [],
      ps_ZapretStrategy = [], ps_ZapretAutoUpdate = None, ps_ZapretEnabled = None\<rparr>"

definition settingsVersion :: int where "settingsVersion = 2"

definition migrateV1toV2 :: "persisted \<Rightarrow> persisted" where
  "migrateV1toV2 ps =
     ps\<lparr>ps_PresetGamesDirect := Some False, ps_PresetVoiceDirect := Some False, ps_Version := settingsVersion\<rparr>"

definition migrate :: "persisted \<Rightarrow> persisted" where
  "migrate ps =
     (if ps_Version ps = settingsVersion then ps
      else if ps_Version ps = 1 then migrateV1toV2 ps
      else zero_persisted)"

text \<open>\<open>unreadable\<close> says that reading the existing file fails.\<close>

definition settings_load :: "(8 word list \<Rightarrow> persisted option) \<Rightarrow> bool \<Rightarrow> fs \<Rightarrow> persisted" where
  "settings_load dec unreadable d =
     (case fs.target d of
        None \<Rightarrow> zero_persisted
      | Some data \<Rightarrow>
          if unreadable \<or> length data = 0 then zero_persisted
          else case dec data of None \<Rightarrow> zero_persisted | Some ps \<Rightarrow> migrate ps)"

text \<open>\<^verbatim>\<open>Save\<close>, failing in the system call \<open>fault\<close> names; whether it succeeded, and the disk.\<close>

definition settings_save ::
  "(persisted \<Rightarrow> string + 8 word list) \<Rightarrow> nat option \<Rightarrow> persisted \<Rightarrow> fs \<Rightarrow> bool \<times> fs"
where
  "settings_save enc fault ps d =
     (case enc (ps\<lparr>ps_Version := settingsVersion\<rparr>) of
        Inl _ \<Rightarrow> (False, d)
      | Inr data \<Rightarrow>
          (case fault of
             None \<Rightarrow> (True, (after_calls data (length save_calls) d)\<lparr>temp := None\<rparr>)
           | Some n \<Rightarrow>
               if n < length save_calls then (False, (after_calls data n d)\<lparr>temp := None\<rparr>)
               else (True, (after_calls data (length save_calls) d)\<lparr>temp := None\<rparr>)))"

section \<open>The daemon's preferences and the reported state\<close>

record prefs =
  pf_routing :: options
  pf_tun :: tun_options
  pf_autoconnect :: bool
  pf_autoFailover :: bool
  pf_crashReports :: "bool option"
  pf_multihop :: multihop
  pf_lastProfile :: string
  pf_lastNode :: string
  pf_zapretActive :: string
  pf_zapretAutoUpdate :: bool
  pf_zapretWanted :: "bool option"

text \<open>The fields of \<^verbatim>\<open>State\<close> the settings own, and the connection it describes.\<close>

record reported =
  r_State :: string
  r_Profile :: string
  r_Node :: string
  r_Error :: string
  r_DaemonVersion :: string
  r_Routing :: string
  r_Split :: string
  r_SplitApps :: "string list"
  r_KillSwitch :: bool
  r_TLSFragment :: bool
  r_Multihop :: "multihop option"
  r_TunStack :: string
  r_ProxyMode :: string
  r_ProxyPort :: int
  r_Autoconnect :: bool
  r_AutoFailover :: bool
  r_AdBlock :: bool
  r_DNSRemote :: string
  r_DNSDirect :: string
  r_IPv4Only :: bool
  r_RulesDirect :: "string list"
  r_RulesProxy :: "string list"
  r_PresetRuBanking :: bool
  r_PresetRuGov :: bool
  r_PresetGamesDirect :: bool
  r_PresetVoiceDirect :: bool
  r_PresetUnblockServices :: bool
  r_CrashReports :: "bool option"
  r_CrashReportsAsked :: bool
  r_ZapretActive :: bool
  r_ZapretStrategy :: string
  r_ZapretVersion :: string
  r_ZapretAutoUpdate :: bool

record 'b daemon_settings =
  ds_prefs :: prefs
  ds_reported :: reported
  ds_installed :: bool
  ds_disk :: fs
  ds_guard :: guard
  ds_kernel :: 'b
  ds_profiles :: store

text \<open>What the commands are run in: the parameters of the modules below, and how this command's save and guard
  calls will go.\<close>

record 'b settings_env =
  se_case :: case_table
  se_enc :: "persisted \<Rightarrow> string + 8 word list"
  se_dec :: "8 word list \<Rightarrow> persisted option"
  se_unreadable :: bool
  se_fault :: "nat option"
  se_backend :: "'b backend option"
  se_version :: string
  se_bundle :: string

definition applySettingsToState :: "string \<Rightarrow> prefs \<Rightarrow> reported \<Rightarrow> reported" where
  "applySettingsToState version p s =
     (let ro = pf_routing p; tun = pf_tun p
      in s\<lparr>r_DaemonVersion := version,
           r_Split := (if SplitMode ro = SplitOff then [] else SplitMode ro),
           r_SplitApps := SplitApps ro,
           r_Routing := (if Mode ro \<noteq> [] then Mode ro else r_Routing s),
           r_KillSwitch := KillSwitch ro,
           r_TLSFragment := TLSFragment ro,
           r_TunStack := TunStack tun,
           r_ProxyMode := (if TunMode tun \<noteq> [] then TunMode tun else ModeTun),
           r_ProxyPort := (if MixedPort tun \<noteq> 0 then MixedPort tun else DefaultMixedPort),
           r_Autoconnect := pf_autoconnect p,
           r_AutoFailover := pf_autoFailover p,
           r_CrashReports := pf_crashReports p,
           r_CrashReportsAsked := (pf_crashReports p \<noteq> None),
           r_AdBlock := AdBlock ro,
           r_IPv4Only := IPv4Only ro,
           r_DNSRemote := DNSRemote ro,
           r_DNSDirect := DNSDirect ro,
           r_RulesDirect := RulesDirect ro,
           r_RulesProxy := RulesProxy ro,
           r_PresetRuBanking := PresetRuBanking ro,
           r_PresetRuGov := PresetRuGov ro,
           r_PresetGamesDirect := GamesDirect ro,
           r_PresetVoiceDirect := VoiceDirect ro,
           r_PresetUnblockServices := UnblockServices ro,
           r_Multihop := (if mh_IsZero (pf_multihop p) then None else Some (pf_multihop p))\<rparr>)"

definition applyZapretToStateLocked :: "string \<Rightarrow> prefs \<Rightarrow> reported \<Rightarrow> reported" where
  "applyZapretToStateLocked bundle p s =
     s\<lparr>r_ZapretActive := ZapretActive (pf_routing p), r_ZapretStrategy := pf_zapretActive p,
       r_ZapretAutoUpdate := pf_zapretAutoUpdate p, r_ZapretVersion := bundle\<rparr>"

definition settingsLocked :: "prefs \<Rightarrow> persisted" where
  "settingsLocked p =
     (let ro = pf_routing p; tun = pf_tun p; mh = pf_multihop p
      in \<lparr>ps_Version = settingsVersion, ps_SplitMode = SplitMode ro, ps_SplitApps = SplitApps ro,
          ps_RoutingMode = Mode ro, ps_PresetGamesDirect = Some (GamesDirect ro),
          ps_PresetVoiceDirect = Some (VoiceDirect ro), ps_PresetUnblockServices = Some (UnblockServices ro),
          ps_KillSwitch = KillSwitch ro, ps_TLSFragment = TLSFragment ro, ps_TunStack = TunStack tun,
          ps_ProxyMode = TunMode tun, ps_ProxyPort = MixedPort tun, ps_Autoconnect = pf_autoconnect p,
          ps_AutoFailover = Some (pf_autoFailover p), ps_AdBlock = AdBlock ro, ps_DNSRemote = DNSRemote ro,
          ps_DNSDirect = DNSDirect ro, ps_IPv4Only = IPv4Only ro, ps_RulesDirect = RulesDirect ro,
          ps_RulesProxy = RulesProxy ro, ps_PresetRuBanking = PresetRuBanking ro, ps_PresetRuGov = PresetRuGov ro,
          ps_Multihop = MhEnabled mh, ps_MultihopEntryID = EntryID mh, ps_MultihopExitID = ExitID mh,
          ps_CrashReports = pf_crashReports p, ps_LastProfile = pf_lastProfile p, ps_LastNode = pf_lastNode p,
          ps_ZapretStrategy = pf_zapretActive p, ps_ZapretAutoUpdate = Some (pf_zapretAutoUpdate p),
          ps_ZapretEnabled = pf_zapretWanted p\<rparr>)"

definition persistSettings :: "'b settings_env \<Rightarrow> 'b daemon_settings \<Rightarrow> 'b daemon_settings" where
  "persistSettings e d =
     (if ds_installed d
      then d\<lparr>ds_disk := snd (settings_save (se_enc e) (se_fault e) (settingsLocked (ds_prefs d)) (ds_disk d))\<rparr>
      else d)"

section \<open>Loading\<close>

definition splitFromSettings :: "case_table \<Rightarrow> persisted \<Rightarrow> string \<times> string list" where
  "splitFromSettings u ps =
     (let o' = Normalize u (zero_options\<lparr>Mode := ModeSmart, SplitMode := ps_SplitMode ps, SplitApps := ps_SplitApps ps\<rparr>)
      in (SplitMode o', SplitApps o'))"

definition load_routing :: "case_table \<Rightarrow> persisted \<Rightarrow> options \<Rightarrow> options" where
  "load_routing u ps ro =
     Normalize u
       (ro\<lparr>SplitMode := fst (splitFromSettings u ps), SplitApps := snd (splitFromSettings u ps),
          KillSwitch := ps_KillSwitch ps, TLSFragment := ps_TLSFragment ps, AdBlock := ps_AdBlock ps,
          IPv4Only := ps_IPv4Only ps, DNSRemote := ps_DNSRemote ps, DNSDirect := ps_DNSDirect ps,
          RulesDirect := ps_RulesDirect ps, RulesProxy := ps_RulesProxy ps,
          PresetRuBanking := ps_PresetRuBanking ps, PresetRuGov := ps_PresetRuGov ps,
          Mode := (if ps_RoutingMode ps \<in> {ModeSmart, ModeGlobal, ModeDirect} then ps_RoutingMode ps else Mode ro),
          GamesDirect := (ps_PresetGamesDirect ps = Some True),
          VoiceDirect := (ps_PresetVoiceDirect ps = Some True),
          UnblockServices := (ps_PresetUnblockServices ps \<noteq> Some False)\<rparr>)"

definition load_tun :: "persisted \<Rightarrow> tun_options \<Rightarrow> tun_options" where
  "load_tun ps t =
     t\<lparr>TunStack := (if ValidStack (ps_TunStack ps) then ps_TunStack ps else TunStack t),
       TunMode := (if ValidMode (ps_ProxyMode ps) then ps_ProxyMode ps else TunMode t),
       MixedPort := (if 1 \<le> ps_ProxyPort ps \<and> ps_ProxyPort ps \<le> 65535 then ps_ProxyPort ps else MixedPort t)\<rparr>"

definition load_prefs :: "case_table \<Rightarrow> persisted \<Rightarrow> prefs \<Rightarrow> prefs" where
  "load_prefs u ps p =
     \<lparr>pf_routing = load_routing u ps (pf_routing p), pf_tun = load_tun ps (pf_tun p),
      pf_autoconnect = ps_Autoconnect ps, pf_autoFailover = (ps_AutoFailover ps \<noteq> Some False),
      pf_crashReports = ps_CrashReports ps,
      pf_multihop = \<lparr>MhEnabled = ps_Multihop ps, EntryID = ps_MultihopEntryID ps, ExitID = ps_MultihopExitID ps\<rparr>,
      pf_lastProfile = ps_LastProfile ps, pf_lastNode = ps_LastNode ps, pf_zapretActive = ps_ZapretStrategy ps,
      pf_zapretAutoUpdate = (ps_ZapretAutoUpdate ps \<noteq> Some False), pf_zapretWanted = ps_ZapretEnabled ps\<rparr>"

definition SetSettings :: "'b settings_env \<Rightarrow> 'b daemon_settings \<Rightarrow> 'b daemon_settings" where
  "SetSettings e d =
     (let ps = settings_load (se_dec e) (se_unreadable e) (ds_disk d);
          p = load_prefs (se_case e) ps (ds_prefs d)
      in d\<lparr>ds_installed := True, ds_prefs := p,
           ds_reported := applySettingsToState (se_version e) p
             (applyZapretToStateLocked (se_bundle e) p (ds_reported d))\<rparr>)"

text \<open>What \<^verbatim>\<open>NewDaemon\<close> builds.\<close>

definition new_prefs :: "case_table \<Rightarrow> string \<Rightarrow> prefs" where
  "new_prefs u dir =
     \<lparr>pf_routing = Normalize u (zero_options\<lparr>Mode := ModeSmart, UnblockServices := True\<rparr>),
      pf_tun = \<lparr>TunMode = ModeTun, MixedPort = DefaultMixedPort, InterfaceName = [], MTU = 0, TunStack = StackSystem,
        ExternalTun = False, ClashAPIPort = 0, TunAddress = [], TunAddress6 = [], CacheDir = dir\<rparr>,
      pf_autoconnect = False, pf_autoFailover = True, pf_crashReports = None,
      pf_multihop = \<lparr>MhEnabled = False, EntryID = [], ExitID = []\<rparr>, pf_lastProfile = [], pf_lastNode = [],
      pf_zapretActive = [], pf_zapretAutoUpdate = True, pf_zapretWanted = None\<rparr>"

definition new_reported :: "string \<Rightarrow> reported" where
  "new_reported version =
     \<lparr>r_State = ''idle'', r_Profile = [], r_Node = [], r_Error = [], r_DaemonVersion = version, r_Routing = ModeSmart, r_Split = [], r_SplitApps = [],
      r_KillSwitch = False, r_TLSFragment = False, r_Multihop = None, r_TunStack = StackSystem, r_ProxyMode = ModeTun,
      r_ProxyPort = DefaultMixedPort, r_Autoconnect = False, r_AutoFailover = True, r_AdBlock = False,
      r_DNSRemote = DefaultDNSRemote, r_DNSDirect = DefaultDNSDirect, r_IPv4Only = False, r_RulesDirect = [],
      r_RulesProxy = [], r_PresetRuBanking = False, r_PresetRuGov = False, r_PresetGamesDirect = False,
      r_PresetVoiceDirect = False, r_PresetUnblockServices = False, r_CrashReports = None, r_CrashReportsAsked = False,
      r_ZapretActive = False, r_ZapretStrategy = [], r_ZapretVersion = [], r_ZapretAutoUpdate = False\<rparr>"

definition NewDaemon :: "'b settings_env \<Rightarrow> string \<Rightarrow> fs \<Rightarrow> 'b \<Rightarrow> store \<Rightarrow> 'b daemon_settings" where
  "NewDaemon e dir dk k st =
     \<lparr>ds_prefs = new_prefs (se_case e) dir, ds_reported = new_reported (se_version e), ds_installed = False,
      ds_disk = dk, ds_guard = Guard.New (None :: unit backend option), ds_kernel = k, ds_profiles = st\<rparr>"

end
