(* ===== verification/Settings_Commands.thy ===== *)
theory Settings_Commands
  imports Settings
begin

text \<open>
  The set commands of the daemon (\<^verbatim>\<open>core/control/daemon.go\<close>), one function each.  A refusal carries why; an
  accepted command reports the state after it and whether it goes on to re-apply the settings to a live tunnel
  (\<^verbatim>\<open>reapplyLive\<close>).
\<close>

section \<open>Answers\<close>

datatype settings_error =
    Unknown_routing_mode string
  | Nothing_to_change
  | Unknown_split string
  | Host_protection_error string
  | Hops_required
  | Hops_must_differ
  | Profile_not_found
  | Entry_not_in_profile
  | Exit_not_in_profile
  | Chain_invalid connect_error
  | Chain_incompatible
  | Unknown_proxy_mode string
  | Port_out_of_range int
  | Unknown_stack string
  | Invalid_remote_resolver string
  | Invalid_direct_resolver string
  | Resolver_not_encrypted
  | Invalid_direct_rule string
  | Invalid_proxy_rule string

datatype answer = Refused settings_error | Done bool reported

definition reflect :: "'b settings_env \<Rightarrow> 'b daemon_settings \<Rightarrow> 'b daemon_settings" where
  "reflect e d = d\<lparr>ds_reported := applySettingsToState (se_version e) (ds_prefs d) (ds_reported d)\<rparr>"

definition with_prefs :: "(prefs \<Rightarrow> prefs) \<Rightarrow> 'b daemon_settings \<Rightarrow> 'b daemon_settings" where
  "with_prefs f d = d\<lparr>ds_prefs := f (ds_prefs d)\<rparr>"

definition with_routing :: "(options \<Rightarrow> options) \<Rightarrow> 'b daemon_settings \<Rightarrow> 'b daemon_settings" where
  "with_routing f d = with_prefs (\<lambda>p. p\<lparr>pf_routing := f (pf_routing p)\<rparr>) d"

text \<open>The common end of the commands: persist, then answer.\<close>

definition conclude :: "'b settings_env \<Rightarrow> bool \<Rightarrow> 'b daemon_settings \<Rightarrow> answer \<times> 'b daemon_settings" where
  "conclude e changed d =
     (let d = persistSettings e d in (Done changed (ds_reported d), d))"

section \<open>Routing, presets and the split\<close>

definition handleSetRouting :: "'b settings_env \<Rightarrow> string \<Rightarrow> 'b daemon_settings \<Rightarrow> answer \<times> 'b daemon_settings" where
  "handleSetRouting e mode d =
     (if mode \<notin> {ModeSmart, ModeGlobal, ModeDirect} then (Refused (Unknown_routing_mode mode), d)
      else
        let changed = (Mode (pf_routing (ds_prefs d)) \<noteq> mode);
            d = with_routing (\<lambda>ro. Normalize (se_case e) (ro\<lparr>Mode := mode\<rparr>)) d;
            d = d\<lparr>ds_reported := (ds_reported d)\<lparr>r_Routing := mode\<rparr>\<rparr>
        in conclude e changed d)"

definition or_keep :: "bool option \<Rightarrow> bool \<Rightarrow> bool" where
  "or_keep b old = (case b of None \<Rightarrow> old | Some v \<Rightarrow> v)"

definition handleSetPresets ::
  "'b settings_env \<Rightarrow> bool option \<Rightarrow> bool option \<Rightarrow> bool option \<Rightarrow> 'b daemon_settings \<Rightarrow> answer \<times> 'b daemon_settings"
where
  "handleSetPresets e games voice services d =
     (if games = None \<and> voice = None \<and> services = None then (Refused Nothing_to_change, d)
      else
        let before = pf_routing (ds_prefs d);
            ro = before\<lparr>GamesDirect := or_keep games (GamesDirect before), VoiceDirect := or_keep voice (VoiceDirect before),
                   UnblockServices := or_keep services (UnblockServices before)\<rparr>;
            changed = (GamesDirect before \<noteq> GamesDirect ro \<or> VoiceDirect before \<noteq> VoiceDirect ro \<or>
                       UnblockServices before \<noteq> UnblockServices ro)
        in conclude e changed (reflect e (with_routing (\<lambda>_. Normalize (se_case e) ro) d)))"

definition handleSetSplit ::
  "'b settings_env \<Rightarrow> string \<Rightarrow> string list \<Rightarrow> 'b daemon_settings \<Rightarrow> answer \<times> 'b daemon_settings"
where
  "handleSetSplit e mode apps d =
     (if mode \<notin> {SplitOff, SplitExclude, SplitInclude} then (Refused (Unknown_split mode), d)
      else
        let before = pf_routing (ds_prefs d);
            ro = Normalize (se_case e) (before\<lparr>SplitMode := mode, SplitApps := apps\<rparr>);
            changed = (SplitMode before \<noteq> SplitMode ro \<or> SplitApps before \<noteq> SplitApps ro)
        in conclude e changed (reflect e (with_routing (\<lambda>_. ro) d)))"

section \<open>The kill switch and DNS under host protection\<close>

text \<open>\<^verbatim>\<open>protection.ValidateDNS\<close> (\<^verbatim>\<open>core/protection/dns.go\<close>); the error is only ever shown.\<close>

definition dns_refused :: string where
  "dns_refused = ''host protection requires an encrypted https:// or tls:// bootstrap resolver with a literal IP''"

definition ValidateDNS :: "case_table \<Rightarrow> string \<Rightarrow> bool" where
  "ValidateDNS u endpoint =
     (case url_parse u endpoint of
        None \<Rightarrow> False
      | Some r \<Rightarrow>
          if UUser r \<noteq> None \<or> UFragment r \<noteq> [] \<or> (UScheme r \<noteq> ''https'' \<and> UScheme r \<noteq> ''tls'') then False
          else case ParseAddr (Hostname r) of
                 None \<Rightarrow> False
               | Some (ip, zone) \<Rightarrow>
                   if zone \<noteq> [] \<or> IsUnspecified ip \<or> IsMulticast ip then False
                   else \<not> (UScheme r = ''tls'' \<and> ((UPath r \<noteq> [] \<and> UPath r \<noteq> ''/'') \<or> URawQuery r \<noteq> [])))"

text \<open>\<^verbatim>\<open>ProtectionDNS\<close>: the endpoint and whether plaintext is forbidden.\<close>

definition ProtectionDNS :: "case_table \<Rightarrow> 'b daemon_settings \<Rightarrow> string \<times> bool" where
  "ProtectionDNS u d =
     (let ro = pf_routing (ds_prefs d); g = ds_guard d
      in (DNSDirect (Normalize u ro),
          \<not> g_legacyEngineOnly g \<and> (KillSwitch ro \<or> Enforced (g_state g) \<or> Status (g_state g) = ''error'')))"

text \<open>What arming or disarming does to the guard; \<open>before\<close> is the guard's state at the start of the command.\<close>

definition arm_guard ::
  "'b settings_env \<Rightarrow> bool \<Rightarrow> bool \<Rightarrow> state \<Rightarrow> 'b daemon_settings \<Rightarrow> string option \<times> 'b daemon_settings"
where
  "arm_guard e on changed before d =
     (if \<not> on then
        (let (r, g, k) = Release (se_backend e) (ds_guard d, ds_kernel d)
         in (case r of Inl err \<Rightarrow> Some err | Inr _ \<Rightarrow> None, d\<lparr>ds_guard := g, ds_kernel := k\<rparr>))
      else if \<not> g_legacyEngineOnly (ds_guard d) \<and> (changed \<or> Status before \<noteq> ''active'') \<and>
              (r_State (ds_reported d) \<in> {''connected'', ''connecting''} \<or> Enforced (g_state (ds_guard d)) \<or>
               Status before = ''error'') then
        (if \<not> ValidateDNS (se_case e) (DNSDirect (Normalize (se_case e) (pf_routing (ds_prefs d))))
         then (Some dns_refused, d\<lparr>ds_guard := snd (Reject dns_refused (ds_guard d))\<rparr>)
         else
           (let (r, g, k) = Prepare (se_backend e) (ds_guard d, ds_kernel d)
            in (case r of Inl err \<Rightarrow> Some err | Inr _ \<Rightarrow> None, d\<lparr>ds_guard := g, ds_kernel := k\<rparr>)))
      else (None, d))"

definition handleSetKillSwitch :: "'b settings_env \<Rightarrow> bool \<Rightarrow> 'b daemon_settings \<Rightarrow> answer \<times> 'b daemon_settings" where
  "handleSetKillSwitch e on d =
     (let before = g_state (ds_guard d);
          changed = (KillSwitch (pf_routing (ds_prefs d)) \<noteq> on);
          d = reflect e (with_routing (\<lambda>ro. ro\<lparr>KillSwitch := on\<rparr>) d);
          (err, d) = arm_guard e on changed before d;
          d = persistSettings e d
      in case err of
           Some msg \<Rightarrow> (Refused (Host_protection_error msg), d)
         | None \<Rightarrow> (Done (changed \<or> Status before = ''error'') (ds_reported d), d))"

definition dnsPrefsDiffer :: "options \<Rightarrow> options \<Rightarrow> bool" where
  "dnsPrefsDiffer a b \<longleftrightarrow>
     AdBlock a \<noteq> AdBlock b \<or> DNSRemote a \<noteq> DNSRemote b \<or> DNSDirect a \<noteq> DNSDirect b \<or> IPv4Only a \<noteq> IPv4Only b"

definition handleSetDNS ::
  "'b settings_env \<Rightarrow> bool \<Rightarrow> bool \<Rightarrow> string \<Rightarrow> string \<Rightarrow> 'b daemon_settings \<Rightarrow> answer \<times> 'b daemon_settings"
where
  "handleSetDNS e adblock v4only remote direct d =
     (let u = se_case e; before = pf_routing (ds_prefs d)
      in if \<not> ValidDNSServer remote then (Refused (Invalid_remote_resolver remote), d)
         else if \<not> ValidDNSServer direct then (Refused (Invalid_direct_resolver direct), d)
         else if snd (ProtectionDNS u d) \<and> \<not> ValidateDNS u (DNSDirect (Normalize u (before\<lparr>DNSDirect := direct\<rparr>)))
         then (Refused Resolver_not_encrypted, d)
         else
           let ro = Normalize u (before\<lparr>AdBlock := adblock, IPv4Only := v4only, DNSRemote := remote, DNSDirect := direct\<rparr>)
           in conclude e (dnsPrefsDiffer before ro) (reflect e (with_routing (\<lambda>_. ro) d)))"

section \<open>The other toggles\<close>

definition handleSetTLSFragment :: "'b settings_env \<Rightarrow> bool \<Rightarrow> 'b daemon_settings \<Rightarrow> answer \<times> 'b daemon_settings" where
  "handleSetTLSFragment e on d =
     conclude e (TLSFragment (pf_routing (ds_prefs d)) \<noteq> on) (reflect e (with_routing (\<lambda>ro. ro\<lparr>TLSFragment := on\<rparr>) d))"

definition multihop_refusal :: "string \<Rightarrow> multihop \<Rightarrow> 'b daemon_settings \<Rightarrow> settings_error option" where
  "multihop_refusal pid mh d =
     (if \<not> MhEnabled mh then None
      else if EntryID mh = [] \<or> ExitID mh = [] then Some Hops_required
      else if EntryID mh = ExitID mh then Some Hops_must_differ
      else case Get (ds_profiles d) pid of
             None \<Rightarrow> Some Profile_not_found
           | Some p \<Rightarrow>
               if \<not> hasServer p (EntryID mh) then Some Entry_not_in_profile
               else if \<not> hasServer p (ExitID mh) then Some Exit_not_in_profile
               else case validateMultihopProfile p mh of
                      Some err \<Rightarrow> Some (Chain_invalid err)
                    | None \<Rightarrow>
                        let s = ds_reported d
                        in if r_State s \<in> {''connected'', ''connecting''} \<and> r_Profile s \<noteq> profile.ID p \<and>
                              (case Get (ds_profiles d) (r_Profile s) of
                                 None \<Rightarrow> True
                               | Some lp \<Rightarrow> validateMultihopProfile lp mh \<noteq> None)
                           then Some Chain_incompatible else None)"

definition handleSetMultihop ::
  "'b settings_env \<Rightarrow> string \<Rightarrow> bool \<Rightarrow> string \<Rightarrow> string \<Rightarrow> 'b daemon_settings \<Rightarrow> answer \<times> 'b daemon_settings"
where
  "handleSetMultihop e pid enabled entry_id exit_id d =
     (let mh = \<lparr>MhEnabled = enabled, EntryID = entry_id, ExitID = exit_id\<rparr>
      in case multihop_refusal pid mh d of
           Some err \<Rightarrow> (Refused err, d)
         | None \<Rightarrow>
             conclude e (pf_multihop (ds_prefs d) \<noteq> mh) (reflect e (with_prefs (\<lambda>p. p\<lparr>pf_multihop := mh\<rparr>) d)))"

definition handleSetProxyMode ::
  "'b settings_env \<Rightarrow> string \<Rightarrow> int \<Rightarrow> 'b daemon_settings \<Rightarrow> answer \<times> 'b daemon_settings"
where
  "handleSetProxyMode e mode port d =
     (if \<not> ValidMode mode then (Refused (Unknown_proxy_mode mode), d)
      else if port \<noteq> 0 \<and> (port < 1 \<or> port > 65535) then (Refused (Port_out_of_range port), d)
      else
        let t = pf_tun (ds_prefs d);
            t' = t\<lparr>TunMode := mode, MixedPort := (if port \<noteq> 0 then port else MixedPort t)\<rparr>;
            changed = (TunMode t \<noteq> mode \<or> (port \<noteq> 0 \<and> MixedPort t \<noteq> port))
        in conclude e changed (reflect e (with_prefs (\<lambda>p. p\<lparr>pf_tun := t'\<rparr>) d)))"

definition handleSetTun :: "'b settings_env \<Rightarrow> string \<Rightarrow> 'b daemon_settings \<Rightarrow> answer \<times> 'b daemon_settings" where
  "handleSetTun e stack d =
     (if \<not> ValidStack stack then (Refused (Unknown_stack stack), d)
      else
        let t = pf_tun (ds_prefs d)
        in conclude e (TunStack t \<noteq> stack) (reflect e (with_prefs (\<lambda>p. p\<lparr>pf_tun := t\<lparr>TunStack := stack\<rparr>\<rparr>) d)))"

definition handleSetAutoconnect :: "'b settings_env \<Rightarrow> bool \<Rightarrow> 'b daemon_settings \<Rightarrow> answer \<times> 'b daemon_settings" where
  "handleSetAutoconnect e on d = conclude e False (reflect e (with_prefs (\<lambda>p. p\<lparr>pf_autoconnect := on\<rparr>) d))"

definition handleSetAutoFailover :: "'b settings_env \<Rightarrow> bool \<Rightarrow> 'b daemon_settings \<Rightarrow> answer \<times> 'b daemon_settings" where
  "handleSetAutoFailover e on d = conclude e False (reflect e (with_prefs (\<lambda>p. p\<lparr>pf_autoFailover := on\<rparr>) d))"

definition handleSetCrashReports :: "'b settings_env \<Rightarrow> bool \<Rightarrow> 'b daemon_settings \<Rightarrow> answer \<times> 'b daemon_settings" where
  "handleSetCrashReports e on d = conclude e False (reflect e (with_prefs (\<lambda>p. p\<lparr>pf_crashReports := Some on\<rparr>) d))"

section \<open>Custom rules\<close>

definition rulesPrefsDiffer :: "options \<Rightarrow> options \<Rightarrow> bool" where
  "rulesPrefsDiffer a b \<longleftrightarrow>
     PresetRuBanking a \<noteq> PresetRuBanking b \<or> PresetRuGov a \<noteq> PresetRuGov b \<or>
     RulesDirect a \<noteq> RulesDirect b \<or> RulesProxy a \<noteq> RulesProxy b"

definition handleSetRules ::
  "'b settings_env \<Rightarrow> string list \<Rightarrow> string list \<Rightarrow> bool \<Rightarrow> bool \<Rightarrow> 'b daemon_settings \<Rightarrow> answer \<times> 'b daemon_settings"
where
  "handleSetRules e direct proxy banking gov d =
     (let u = se_case e
      in case find (\<lambda>s. \<not> ValidDomainSuffix u s) direct of
           Some s \<Rightarrow> (Refused (Invalid_direct_rule s), d)
         | None \<Rightarrow>
             (case find (\<lambda>s. \<not> ValidDomainSuffix u s) proxy of
                Some s \<Rightarrow> (Refused (Invalid_proxy_rule s), d)
              | None \<Rightarrow>
                  let before = pf_routing (ds_prefs d);
                      ro = Normalize u (before\<lparr>RulesDirect := direct, RulesProxy := proxy, PresetRuBanking := banking,
                             PresetRuGov := gov\<rparr>)
                  in conclude e (rulesPrefsDiffer before ro) (reflect e (with_routing (\<lambda>_. ro) d))))"

section \<open>Any of them\<close>

datatype set_command =
    Set_routing string
  | Set_presets "bool option" "bool option" "bool option"
  | Set_split string "string list"
  | Set_kill_switch bool
  | Set_dns bool bool string string
  | Set_tls_fragment bool
  | Set_multihop string bool string string
  | Set_proxy_mode string int
  | Set_tun string
  | Set_autoconnect bool
  | Set_auto_failover bool
  | Set_crash_reports bool
  | Set_rules "string list" "string list" bool bool

fun handle_set :: "'b settings_env \<Rightarrow> set_command \<Rightarrow> 'b daemon_settings \<Rightarrow> answer \<times> 'b daemon_settings" where
  "handle_set e (Set_routing m) d = handleSetRouting e m d"
| "handle_set e (Set_presets g v s) d = handleSetPresets e g v s d"
| "handle_set e (Set_split m apps) d = handleSetSplit e m apps d"
| "handle_set e (Set_kill_switch on) d = handleSetKillSwitch e on d"
| "handle_set e (Set_dns ad v4 r di) d = handleSetDNS e ad v4 r di d"
| "handle_set e (Set_tls_fragment on) d = handleSetTLSFragment e on d"
| "handle_set e (Set_multihop p en a b) d = handleSetMultihop e p en a b d"
| "handle_set e (Set_proxy_mode m p) d = handleSetProxyMode e m p d"
| "handle_set e (Set_tun st) d = handleSetTun e st d"
| "handle_set e (Set_autoconnect on) d = handleSetAutoconnect e on d"
| "handle_set e (Set_auto_failover on) d = handleSetAutoFailover e on d"
| "handle_set e (Set_crash_reports on) d = handleSetCrashReports e on d"
| "handle_set e (Set_rules a b bk gv) d = handleSetRules e a b bk gv d"

text \<open>A run of commands, each in its own surroundings (its save and its guard calls may go differently).\<close>

fun run_set :: "('b settings_env \<times> set_command) list \<Rightarrow> 'b daemon_settings \<Rightarrow> 'b daemon_settings" where
  "run_set [] d = d"
| "run_set ((e, c) # cs) d = run_set cs (snd (handle_set e c d))"

end
