(* ===== verification/Session.thy ===== *)
theory Session
  imports Settings_Commands Hotswitch Tunguard
begin

text \<open>
  The daemon's session (\<^verbatim>\<open>core/control/connect.go\<close>, \<^verbatim>\<open>protection.go\<close>, \<^verbatim>\<open>tunconflict.go\<close>): starting a connect, tearing
  one down, what the end of the walk, the death of the process, a settings command and the goroutines that connect
  off the command loop do to it, and the budget of the kill switch's relaunches.

  Everything that transitions the session holds \<^verbatim>\<open>connMu\<close> (or, for an acceptance, \<^verbatim>\<open>protectionOp\<close>, which a teardown
  also takes), so each of those sections is one step.  A goroutine that waits for \<^verbatim>\<open>connMu\<close> is an entry of a list,
  and any of them may run next.  A teardown cancels the walk and waits for it, so a cancelled walk is gone.
  Log lines and events are left out; times are milliseconds.
\<close>

section \<open>State\<close>

text \<open>The inputs of the walk in flight, and its candidates in the order they are tried.\<close>

record in_flight =
  if_gen :: nat
  if_loop :: fallback_loop
  if_order :: "attempt list"

record lifecycle =
  li_gen :: nat
  li_profile :: string
  li_node :: string
  li_since :: int

text \<open>A connect waiting for the lock: the generation it belongs to and what it would start.\<close>

datatype parked =
    Relaunch nat profile string
  | Reconcile nat profile string
  | Autoconnect nat profile string
  | Failover nat string string

fun parked_gen :: "parked \<Rightarrow> nat" where
  "parked_gen (Relaunch g p n) = g"
| "parked_gen (Reconcile g p n) = g"
| "parked_gen (Autoconnect g p n) = g"
| "parked_gen (Failover g p n) = g"

record 'b session =
  ss_d :: "'b daemon_settings"
  ss_gen :: nat
  ss_relaunches :: nat
  ss_running :: bool
  ss_armed :: bool
  ss_walk :: "in_flight option"
  ss_life :: "lifecycle option"
  ss_parked :: "parked list"
  ss_live :: "live_config option"
  ss_lastGood :: "string \<rightharpoonup> string"
  ss_degraded :: "string \<rightharpoonup> int"
  ss_switches :: "int list"
  ss_attempts :: "(attempt_item list \<times> walk_outcome) option"

definition maxRelaunches :: nat where "maxRelaunches = 5"

definition defaultRelaunchReset :: int where "defaultRelaunchReset = 30000"

text \<open>
  How the outside answers during one step: the settings' own surroundings, the system proxy, the free tunnel
  addresses, the round trips, the interfaces (none if there is no probe, none inside if it fails), the bypass
  (what it covers, if it came up), the clock, the selector, and how a connect error reads.
\<close>

record 'b answers =
  an_env :: "'b settings_env"
  an_disarm :: "string option"
  an_arm :: "string option"
  an_address :: "string \<times> string"
  an_rtt :: "string \<rightharpoonup> int"
  an_ifaces :: "iface list option option"
  an_tunname :: string
  an_bypass :: "string list option"
  an_now :: int
  an_select :: "select_answer \<times> select_answer"
  an_confirmed :: bool
  an_text :: "connect_error \<Rightarrow> string"

abbreviation the_prefs :: "'b session \<Rightarrow> prefs" where "the_prefs s \<equiv> ds_prefs (ss_d s)"

abbreviation the_state :: "'b session \<Rightarrow> reported" where "the_state s \<equiv> ds_reported (ss_d s)"

abbreviation the_guard :: "'b session \<Rightarrow> guard" where "the_guard s \<equiv> ds_guard (ss_d s)"

definition on_d :: "('b daemon_settings \<Rightarrow> 'b daemon_settings) \<Rightarrow> 'b session \<Rightarrow> 'b session" where
  "on_d f s = s\<lparr>ss_d := f (ss_d s)\<rparr>"

text \<open>\<^verbatim>\<open>setState\<close>: the settings and bypass fields are rewritten from the live preferences, so only these five count.\<close>

definition setState :: "'b answers \<Rightarrow> string \<Rightarrow> string \<Rightarrow> string \<Rightarrow> string \<Rightarrow> string \<Rightarrow> 'b session \<Rightarrow> 'b session" where
  "setState a st pid nid err rt s =
     on_d (\<lambda>d.
       let r = (ds_reported d)\<lparr>r_State := st, r_Profile := pid, r_Node := nid, r_Error := err,
                 r_Routing := (if rt = [] then r_Routing (ds_reported d) else rt)\<rparr>
       in d\<lparr>ds_reported := applyZapretToStateLocked (se_bundle (an_env a)) (ds_prefs d)
             (applySettingsToState (se_version (an_env a)) (ds_prefs d) r)\<rparr>) s"

definition isCurrent :: "nat \<Rightarrow> 'b session \<Rightarrow> bool" where "isCurrent gen s \<longleftrightarrow> ss_gen s = gen"

text \<open>The daemon's own state as the switching operations read it, and what they write back.\<close>

definition phase_of :: "string \<Rightarrow> phase" where
  "phase_of st =
     (if st = ''connected'' then Connected else if st = ''connecting'' then Connecting
      else if st = ''health_reconnecting'' then HealthReconnecting else if st = ''error'' then ErrorPhase else phase.Idle)"

definition recovery_of :: "'b session \<Rightarrow> recovery" where
  "recovery_of s =
     \<lparr>Generation = ss_gen s, Phase = phase_of (r_State (the_state s)), StProfile = r_Profile (the_state s),
      StNode = r_Node (the_state s), AutoFailover = pf_autoFailover (the_prefs s),
      ChainEnabled = MhEnabled (pf_multihop (the_prefs s)), Live = ss_live s, DegradedAt = ss_degraded s,
      AutoSwitches = ss_switches s, LastGoodOf = Some (ss_lastGood s),
      LastConn = (pf_lastProfile (the_prefs s), pf_lastNode (the_prefs s)), Attempts = ss_attempts s\<rparr>"

definition put_budget :: "recovery \<Rightarrow> 'b session \<Rightarrow> 'b session" where
  "put_budget r s = s\<lparr>ss_degraded := DegradedAt r, ss_switches := AutoSwitches r\<rparr>"

definition remember_conn :: "'b answers \<Rightarrow> string \<Rightarrow> string \<Rightarrow> 'b session \<Rightarrow> 'b session" where
  "remember_conn a pid nid s =
     (let changed = (pf_lastProfile (the_prefs s) \<noteq> pid \<or> pf_lastNode (the_prefs s) \<noteq> nid);
          s = on_d (with_prefs (\<lambda>p. p\<lparr>pf_lastProfile := pid, pf_lastNode := nid\<rparr>)) s
      in if changed then on_d (persistSettings (an_env a)) s else s)"

text \<open>A switch that \<^verbatim>\<open>commitSwitch\<close> published, carried over to the session.\<close>

definition put_switch :: "'b answers \<Rightarrow> bool \<Rightarrow> recovery \<Rightarrow> 'b session \<Rightarrow> 'b session" where
  "put_switch a remember r s =
     (let s = s\<lparr>ss_lastGood := the (LastGoodOf r), ss_attempts := Attempts r, ss_degraded := DegradedAt r,
                ss_switches := AutoSwitches r\<rparr>;
          s = (if remember then remember_conn a (fst (LastConn r)) (snd (LastConn r)) s else s)
      in setState a ''connected'' (StProfile r) (StNode r) [] (r_Routing (the_state s)) s)"

section \<open>Host protection\<close>

definition prepareProtection :: "'b answers \<Rightarrow> 'b session \<Rightarrow> string option \<times> 'b session" where
  "prepareProtection a s =
     (let g = the_guard s; wanted = KillSwitch (pf_routing (the_prefs s)); u = se_case (an_env a)
      in if g_legacyEngineOnly g then (None, s)
         else if \<not> wanted \<and> state.Status (g_state g) = ''error'' then
           (Some (''host protection unresolved: '' @ state.Error (g_state g) @ ''; retry OFF or Disconnect''), s)
         else if \<not> wanted \<and> \<not> Enforced (g_state g) then (None, s)
         else if \<not> ValidateDNS u (DNSDirect (Normalize u (pf_routing (the_prefs s)))) then
           (Some dns_refused, on_d (\<lambda>d. d\<lparr>ds_guard := snd (Reject dns_refused (ds_guard d))\<rparr>) s)
         else
           (let (r, g, k) = Prepare (se_backend (an_env a)) (g, ds_kernel (ss_d s))
            in (case r of Inl err \<Rightarrow> Some err | Inr _ \<Rightarrow> None, on_d (\<lambda>d. d\<lparr>ds_guard := g, ds_kernel := k\<rparr>) s)))"

definition activateProtectionLocked ::
  "'b answers \<Rightarrow> options \<Rightarrow> tun_options \<Rightarrow> 'b session \<Rightarrow> string option \<times> 'b session"
where
  "activateProtectionLocked a ro tun s =
     (let g = the_guard s; wanted = KillSwitch (pf_routing (the_prefs s)); u = se_case (an_env a)
      in if g_legacyEngineOnly g then (None, s)
         else if \<not> wanted \<and> \<not> Enforced (g_state g) then
           (if state.Status (g_state g) = ''error'' then Some (''host protection unresolved: '' @ state.Error (g_state g)) else None, s)
         else if \<not> ValidateDNS u (DNSDirect (Normalize u ro)) then
           (Some dns_refused, on_d (\<lambda>d. d\<lparr>ds_guard := snd (Reject dns_refused (ds_guard d))\<rparr>) s)
         else
           (let name = (if InterfaceName tun = [] then an_tunname a else InterfaceName tun);
                (r, g, k) = VerifyTunnel (se_backend (an_env a)) name (TunAddress tun) (IsSystemProxy tun)
                  (g, ds_kernel (ss_d s))
            in (case r of Inl err \<Rightarrow> Some err | Inr _ \<Rightarrow> None, on_d (\<lambda>d. d\<lparr>ds_guard := g, ds_kernel := k\<rparr>) s)))"

definition interrupted :: "'b session \<Rightarrow> 'b session" where
  "interrupted s = on_d (\<lambda>d. d\<lparr>ds_guard := Interrupted (ds_guard d)\<rparr>) s"

section \<open>Tearing down\<close>

text \<open>Only an armed proxy is cleared; a failure keeps it armed.\<close>

definition disarm :: "'b answers \<Rightarrow> 'b session \<Rightarrow> string option \<times> 'b session" where
  "disarm a s =
     (if \<not> ss_armed s then (None, s)
      else case an_disarm a of Some err \<Rightarrow> (Some err, s) | None \<Rightarrow> (None, s\<lparr>ss_armed := False\<rparr>))"

definition teardown :: "'b answers \<Rightarrow> string \<Rightarrow> string \<Rightarrow> string \<Rightarrow> 'b session \<Rightarrow> string option \<times> 'b session" where
  "teardown a newState pid nid s =
     (let s = s\<lparr>ss_gen := Suc (ss_gen s), ss_attempts := None, ss_live := None, ss_walk := None, ss_life := None,
                ss_running := False\<rparr>;
          s = interrupted s
      in case disarm a s of
           (Some err, s) \<Rightarrow>
             let msg = ''system proxy cleanup failed: '' @ err
             in (Some msg, setState a ''error'' [] [] msg (r_Routing (the_state s)) s)
         | (None, s) \<Rightarrow>
             if newState = ''idle'' then (None, setState a ''idle'' [] [] [] (r_Routing (the_state s)) s)
             else (None, setState a newState pid nid [] (r_Routing (the_state s)) s))"

section \<open>Starting a connect\<close>

datatype start_error = Plan connect_error | Protection string | Cleanup string

definition start_message :: "(connect_error \<Rightarrow> string) \<Rightarrow> start_error \<Rightarrow> string" where
  "start_message msg e =
     (case e of Plan c \<Rightarrow> msg c | Protection m \<Rightarrow> ''host protection: '' @ m | Cleanup m \<Rightarrow> m)"

definition pickFreeTunAddress :: "'b answers \<Rightarrow> 'b session \<Rightarrow> 'b session" where
  "pickFreeTunAddress a s =
     on_d (with_prefs (\<lambda>p. p\<lparr>pf_tun := (pf_tun p)\<lparr>TunAddress := fst (an_address a), TunAddress6 := snd (an_address a)\<rparr>\<rparr>)) s"

text \<open>The order of the walk: measured if asked for and no exit is pinned, else by protocol.\<close>

definition walk_order :: "'b answers \<Rightarrow> profile \<Rightarrow> attempt list \<Rightarrow> string \<Rightarrow> bool \<Rightarrow> 'b session \<Rightarrow> attempt list" where
  "walk_order a p cands node auto s =
     (if auto \<and> node = []
      then Order (NewByLatency (\<lambda>m. m) (profile.ID p) cands
             (\<lambda>n. if n \<in> attempt.NodeID ` set cands then an_rtt a n else None) (Some (ss_lastGood s)))
      else Order (Fallback.New (\<lambda>m. m) (profile.ID p) cands Fallback.DefaultOrder (Some (ss_lastGood s))))"

text \<open>The candidates, and the node the walk is pinned to (of a chain, its exit), or why there are none.\<close>

definition connect_plan :: "multihop \<Rightarrow> profile \<Rightarrow> string \<Rightarrow> string \<Rightarrow> (connect_error, string \<times> attempt list) result" where
  "connect_plan mh p explicit avoid =
     (case validateMultihopProfile p mh of
        Some err \<Rightarrow> Inl err
      | None \<Rightarrow>
          if MhEnabled mh \<and> avoid = ExitID mh then Inl No_alternative_exit
          else
            let node = (if MhEnabled mh then ExitID mh else explicit)
            in case buildCandidates p node of Inl err \<Rightarrow> Inl err | Inr cands \<Rightarrow> Inr (node, cands))"

definition launch :: "'b answers \<Rightarrow> profile \<Rightarrow> attempt list \<Rightarrow> options \<Rightarrow> tun_options \<Rightarrow> bool \<Rightarrow> string \<Rightarrow> 'b session \<Rightarrow> 'b session" where
  "launch a p ord ro tun remember requested s =
     (let s = s\<lparr>ss_gen := Suc (ss_gen s)\<rparr>;
          s = s\<lparr>ss_walk := Some
               \<lparr>if_gen = ss_gen s,
                if_loop = \<lparr>FlProfile = profile.ID p, FlNodes = profileNodes p, FlNodeIDs = serverIDs p, FlTags = serverTags p,
                  FlRouting = ro, FlTun = tun, FlRemember = remember, FlRequested = requested\<rparr>,
                if_order = ord\<rparr>\<rparr>
      in setState a ''connecting'' (profile.ID p) [] [] (Mode ro) s)"

definition startConnect ::
  "'b answers \<Rightarrow> profile \<Rightarrow> string \<Rightarrow> bool \<Rightarrow> bool \<Rightarrow> string \<Rightarrow> 'b session \<Rightarrow> start_error option \<times> 'b session"
where
  "startConnect a p explicit auto remember avoid s =
     (let mh = pf_multihop (the_prefs s)
      in case connect_plan mh p explicit avoid of
           Inl err \<Rightarrow> (Some (Plan err), s)
         | Inr (node, cands) \<Rightarrow>
             let s = pickFreeTunAddress a s;
                 cands = (if node = [] \<and> avoid \<noteq> [] then dropCandidate cands avoid else cands)
             in if node = [] \<and> avoid \<noteq> [] \<and> length cands = 0 then (Some (Plan No_alternative_node), s)
                else case prepareProtection a s of
                  (Some err, s) \<Rightarrow> (Some (Protection err), s)
                | (None, s) \<Rightarrow>
                    let ord = walk_order a p cands node auto s;
                        ro = resolveMultihop (pf_routing (the_prefs s)) mh (serverTags p);
                        tun = pf_tun (the_prefs s)
                    in case teardown a ''connecting'' (profile.ID p) [] s of
                         (Some err, s) \<Rightarrow> (Some (Cleanup err), s)
                       | (None, s) \<Rightarrow> (None, launch a p ord ro tun remember explicit s))"

section \<open>The end of a walk\<close>

definition reconcile_needed :: "options \<Rightarrow> tun_options \<Rightarrow> fallback_loop \<Rightarrow> bool" where
  "reconcile_needed curRo curTun loop \<longleftrightarrow>
     \<not> (KillSwitch (FlRouting loop) = KillSwitch curRo \<and> TLSFragment (FlRouting loop) = TLSFragment curRo \<and>
        TunStack (FlTun loop) = TunStack curTun \<and> multihopResolved (FlRouting loop) curRo)"

definition reconcileConnectingOptions :: "nat \<Rightarrow> fallback_loop \<Rightarrow> string \<Rightarrow> 'b session \<Rightarrow> 'b session" where
  "reconcileConnectingOptions gen loop nid s =
     (let p = the_prefs s; curRo = resolveMultihop (pf_routing p) (pf_multihop p) (FlTags loop)
      in if \<not> reconcile_needed curRo (pf_tun p) loop then s
         else case Get (ds_profiles (ss_d s)) (FlProfile loop) of
                None \<Rightarrow> s
              | Some pr \<Rightarrow> s\<lparr>ss_parked := ss_parked s @ [Reconcile gen pr nid]\<rparr>)"

text \<open>
  \<^verbatim>\<open>recordSuccess\<close> for a candidate whose probe came up: the local gates, then the publication, under one fence.
\<close>

definition local_gates :: "'b answers \<Rightarrow> in_flight \<Rightarrow> 'b session \<Rightarrow> string option \<times> 'b session" where
  "local_gates a w s =
     (case activateProtectionLocked a (FlRouting (if_loop w)) (FlTun (if_loop w)) s of
        (Some err, s) \<Rightarrow> (Some (''host protection: '' @ err), s)
      | (None, s) \<Rightarrow>
          if \<not> IsSystemProxy (FlTun (if_loop w)) then (None, s)
          else case an_arm a of
                 Some err \<Rightarrow> (Some (''system proxy setup failed: '' @ err), s)
               | None \<Rightarrow> (None, s\<lparr>ss_armed := True\<rparr>))"

definition publish_session :: "'b answers \<Rightarrow> in_flight \<Rightarrow> string \<Rightarrow> selector_shape \<Rightarrow> 'b session \<Rightarrow> 'b session" where
  "publish_session a w nid sel s =
     (let loop = if_loop w; pid = FlProfile loop;
          s = s\<lparr>ss_live := Some \<lparr>LcGen = if_gen w, LcProfile = pid, LcTagOf = FlTags loop, LcSel = sel\<rparr>,
                ss_lastGood := (ss_lastGood s)(pid \<mapsto> nid)\<rparr>;
          s = (if FlRemember loop then remember_conn a pid (FlRequested loop) s else s);
          s = on_d (\<lambda>d. d\<lparr>ds_guard := Accepted (ds_guard d)\<rparr>) s;
          s = setState a ''connected'' pid nid [] (r_Routing (the_state s)) s;
          s = s\<lparr>ss_walk := None,
                ss_life := Some \<lparr>li_gen = if_gen w, li_profile = pid, li_node = nid, li_since = an_now a\<rparr>\<rparr>
      in reconcileConnectingOptions (if_gen w) loop nid s)"

text \<open>A local failure stops the process and ends the walk.\<close>

definition walk_up :: "'b answers \<Rightarrow> string \<Rightarrow> selector_shape \<Rightarrow> 'b session \<Rightarrow> 'b session" where
  "walk_up a nid sel s =
     (case ss_walk s of
        None \<Rightarrow> s
      | Some w \<Rightarrow>
          if \<not> isCurrent (if_gen w) s \<or> nid \<notin> attempt.NodeID ` set (if_order w) \<or> \<not> ss_running s then s
          else case local_gates a w s of
            (Some err, s) \<Rightarrow>
              let s = interrupted (s\<lparr>ss_running := False, ss_walk := None\<rparr>)
              in setState a ''error'' (FlProfile (if_loop w)) [] err (r_Routing (the_state s)) s
          | (None, s) \<Rightarrow> publish_session a w nid sel s)"

text \<open>Every candidate failed, or the operating system refused the set-up: the process is stopped either way.\<close>

definition walk_ends :: "'b answers \<Rightarrow> string \<Rightarrow> 'b session \<Rightarrow> 'b session" where
  "walk_ends a msg s =
     (case ss_walk s of
        None \<Rightarrow> s
      | Some w \<Rightarrow>
          let s = s\<lparr>ss_running := False, ss_walk := None\<rparr>
          in setState a ''error'' (FlProfile (if_loop w)) [] msg (r_Routing (the_state s)) s)"

text \<open>The walk starts or stops a process for a candidate.\<close>

definition walk_process :: "bool \<Rightarrow> 'b session \<Rightarrow> 'b session" where
  "walk_process up s = (case ss_walk s of None \<Rightarrow> s | Some w \<Rightarrow> s\<lparr>ss_running := up\<rparr>)"

section \<open>The death of the process\<close>

definition killSwitchRelaunch :: "nat \<Rightarrow> string \<Rightarrow> string \<Rightarrow> int \<Rightarrow> 'b session \<Rightarrow> bool \<times> 'b session" where
  "killSwitchRelaunch gen pid nid uptime s =
     (let kill = KillSwitch (pf_routing (the_prefs s));
          s = (if kill \<and> uptime \<ge> defaultRelaunchReset then s\<lparr>ss_relaunches := 0\<rparr> else s);
          spent = ss_relaunches s;
          s = (if kill \<and> spent < maxRelaunches then s\<lparr>ss_relaunches := Suc spent\<rparr> else s)
      in if \<not> kill then (False, s)
         else if spent \<ge> maxRelaunches then (False, s)
         else case Get (ds_profiles (ss_d s)) pid of
                None \<Rightarrow> (False, s)
              | Some p \<Rightarrow> (True, s\<lparr>ss_parked := ss_parked s @ [Relaunch gen p nid]\<rparr>))"

definition live_node :: "string \<Rightarrow> 'b session \<Rightarrow> string" where
  "live_node fallbackID s = (if r_Node (the_state s) \<noteq> [] then r_Node (the_state s) else fallbackID)"

definition process_exits :: "'b answers \<Rightarrow> string option \<Rightarrow> 'b session \<Rightarrow> 'b session" where
  "process_exits a err s =
     (case ss_life s of
        None \<Rightarrow> s
      | Some l \<Rightarrow>
          let s = s\<lparr>ss_running := False, ss_life := None\<rparr>
          in if \<not> isCurrent (li_gen l) s then s
             else
               let nid = live_node (li_node l) s;
                   msg = (case err of None \<Rightarrow> ''sing-box exited'' | Some m \<Rightarrow> m);
                   s = interrupted s;
                   (derr, s) = disarm a s;
                   msg = (case derr of None \<Rightarrow> msg | Some m \<Rightarrow> msg @ ''; system proxy restore failed: '' @ m);
                   (took, s) = killSwitchRelaunch (li_gen l) (li_profile l) nid (an_now a - li_since l) s
               in if took then s
                  else setState a ''error'' (li_profile l) nid msg (r_Routing (the_state s)) s)"

section \<open>Connects off the command loop\<close>

text \<open>
  \<^verbatim>\<open>startConnectIfCurrent\<close> once the goroutine has the lock; what a failure does depends on who asked.  A failover
  asks for the budget again, and a failed one puts the connected state back.
\<close>

fun run_parked :: "'b answers \<Rightarrow> parked \<Rightarrow> 'b session \<Rightarrow> 'b session" where
  "run_parked a (Relaunch gen p nid) s =
     (if \<not> isCurrent gen s then s
      else case startConnect a p nid False False [] s of
        (None, s) \<Rightarrow> s
      | (Some err, s) \<Rightarrow>
          setState a ''error'' (profile.ID p) nid
            (''tunnel died and could not be restarted: '' @ start_message (an_text a) err) (r_Routing (the_state s)) s)"
| "run_parked a (Reconcile gen p nid) s =
     (if \<not> isCurrent gen s then s else snd (startConnect a p nid False False [] s))"
| "run_parked a (Autoconnect gen p nid) s =
     (if \<not> isCurrent gen s then s else snd (startConnect a p nid False False [] s))"
| "run_parked a (Failover gen pid nid) s =
     (let (ok, r) = allowAutoRecovery default_policy (an_now a) gen pid nid (recovery_of s);
          s = put_budget r s
      in if \<not> ok \<or> live_node [] s \<noteq> nid then s
         else case Get (ds_profiles (ss_d s)) pid of
           None \<Rightarrow> s
         | Some latest \<Rightarrow>
             let s = s\<lparr>ss_switches := ss_switches s @ [an_now a]\<rparr>;
                 s = setState a ''health_reconnecting'' pid nid [] (r_Routing (the_state s)) s
             in case startConnect a latest [] False False nid s of
                  (None, s) \<Rightarrow> s
                | (Some err, s) \<Rightarrow> setState a ''connected'' pid nid [] [] s)"

definition parked_runs :: "'b answers \<Rightarrow> nat \<Rightarrow> 'b session \<Rightarrow> 'b session" where
  "parked_runs a i s =
     (if i < length (ss_parked s)
      then run_parked a (ss_parked s ! i) (s\<lparr>ss_parked := take i (ss_parked s) @ drop (Suc i) (ss_parked s)\<rparr>)
      else s)"

text \<open>The watchdog gives up on the exit and queues a reconnect (\<^verbatim>\<open>healthFailover\<close>), for the current generation.\<close>

definition health_failover :: "'b answers \<Rightarrow> 'b session \<Rightarrow> 'b session" where
  "health_failover a s =
     (let pid = r_Profile (the_state s); nid = live_node [] s;
          (res, r) = healthFailover default_policy (an_now a) (Get (ds_profiles (ss_d s)) pid) (ss_gen s) pid nid (recovery_of s);
          s = put_budget r s
      in if res = FailoverStarted then s\<lparr>ss_parked := ss_parked s @ [Failover (ss_gen s) pid nid]\<rparr> else s)"

text \<open>Or it moves the live tunnel to an exit the scan found (\<^verbatim>\<open>autoSwitchAway\<close>, from the lock on).\<close>

definition auto_switch :: "'b answers \<Rightarrow> string \<Rightarrow> 'b session \<Rightarrow> 'b session" where
  "auto_switch a dest s =
     (let pid = r_Profile (the_state s); degraded = live_node [] s
      in case autoSwitchAway_locked default_policy (an_now a) (an_now a) (fst (an_select a)) (snd (an_select a))
                (Some (an_confirmed a)) (Get (ds_profiles (ss_d s)) pid) (ss_gen s) pid degraded dest [] (recovery_of s) of
           None \<Rightarrow> s
         | Some (Succeeded, r, _) \<Rightarrow> put_switch a False r s
         | Some (_, r, _) \<Rightarrow> put_budget r s)"

section \<open>The user's commands\<close>

definition reapplyLive :: "'b answers \<Rightarrow> 'b session \<Rightarrow> 'b session" where
  "reapplyLive a s =
     (let cur = the_state s
      in if r_State cur \<noteq> ''connected'' \<or> r_Profile cur = [] \<or> r_Node cur = [] then s
         else case Get (ds_profiles (ss_d s)) (r_Profile cur) of
           None \<Rightarrow> s
         | Some p \<Rightarrow>
             (case startConnect a p (r_Node cur) False False [] s of
                (None, s) \<Rightarrow> s
              | (Some err, s) \<Rightarrow>
                  setState a ''error'' (r_Profile cur) (r_Node cur) (''re-apply failed: '' @ start_message (an_text a) err)
                    (r_Routing (the_state s)) s))"

text \<open>A settings command, and the re-apply it asks for.\<close>

definition settings_command :: "'b answers \<Rightarrow> set_command \<Rightarrow> 'b session \<Rightarrow> answer \<times> 'b session" where
  "settings_command a c s =
     (let (ans, d) = handle_set (an_env a) c (ss_d s); s = s\<lparr>ss_d := d\<rparr>
      in (ans, case ans of Done True r \<Rightarrow> reapplyLive a s | _ \<Rightarrow> s))"

definition checkTunConflict :: "'b answers \<Rightarrow> bool \<Rightarrow> 'b session \<Rightarrow> conflict_error option" where
  "checkTunConflict a override s =
     (case an_ifaces a of
        None \<Rightarrow> None
      | Some probe \<Rightarrow>
          if override then None
          else
            let tun = pf_tun (the_prefs s)
            in if IsSystemProxy tun then None
               else case probe of
                 None \<Rightarrow> None
               | Some ifaces \<Rightarrow>
                   let name = (if InterfaceName tun = [] then an_tunname a else InterfaceName tun)
                   in Check (se_case (an_env a)) ifaces False [name])"

text \<open>
  \<^verbatim>\<open>raiseZapretForConnect\<close>: what the start of the bypass itself does is an answer, what the routing makes of it is
  the code.
\<close>

definition raiseZapretForConnect :: "'b answers \<Rightarrow> 'b session \<Rightarrow> 'b session" where
  "raiseZapretForConnect a s =
     (let s = pickFreeTunAddress a s;
          cov = (case an_bypass a of None \<Rightarrow> [] | Some c \<Rightarrow> c);
          s = on_d (with_routing (\<lambda>ro. ro\<lparr>ZapretActive := (an_bypass a \<noteq> None), ZapretCovered := cov\<rparr>)) s
      in on_d (\<lambda>d. d\<lparr>ds_reported := applyZapretToStateLocked (se_bundle (an_env a)) (ds_prefs d) (ds_reported d)\<rparr>) s)"

datatype connect_refusal =
    Missing_profile
  | Profile_unknown
  | No_servers
  | Conflict conflict_error
  | Start_refused start_error

definition connect_profile :: "string \<Rightarrow> 'b session \<Rightarrow> (connect_refusal, profile) result" where
  "connect_profile pid s =
     (if pid = [] then Inl Missing_profile
      else case Get (ds_profiles (ss_d s)) pid of
        None \<Rightarrow> Inl Profile_unknown
      | Some p \<Rightarrow> if length (Servers p) = 0 then Inl No_servers else Inr p)"

definition user_switch :: "'b answers \<Rightarrow> profile \<Rightarrow> string \<Rightarrow> 'b session \<Rightarrow> 'b session option" where
  "user_switch a p node s =
     (if node = [] then None
      else case switchNode (fst (an_select a)) (snd (an_select a)) (Some (an_confirmed a))
                  (Get (ds_profiles (ss_d s)) (profile.ID p)) (profile.ID p) node True [] (recovery_of s) of
             Some (True, r, _) \<Rightarrow> Some (put_switch a True r s)
           | _ \<Rightarrow> None)"

definition handleConnect ::
  "'b answers \<Rightarrow> string \<Rightarrow> string \<Rightarrow> bool \<Rightarrow> bool \<Rightarrow> 'b session \<Rightarrow> connect_refusal option \<times> 'b session"
where
  "handleConnect a pid node auto override s =
     (case connect_profile pid s of
        Inl r \<Rightarrow> (Some r, s)
      | Inr p \<Rightarrow>
          (case user_switch a p node s of
             Some s \<Rightarrow> (None, s)
           | None \<Rightarrow>
               (case checkTunConflict a override s of
                  Some c \<Rightarrow> (Some (Conflict c), s)
                | None \<Rightarrow>
                    let s = raiseZapretForConnect a s;
                        s = s\<lparr>ss_relaunches := 0\<rparr>
                    in case startConnect a p node auto True [] s of
                         (Some err, s) \<Rightarrow> (Some (Start_refused err), s)
                       | (None, s) \<Rightarrow> (None, s))))"

definition release_guard :: "'b answers \<Rightarrow> 'b session \<Rightarrow> string option \<times> 'b session" where
  "release_guard a s =
     (let (r, g, k) = Release (se_backend (an_env a)) (the_guard s, ds_kernel (ss_d s))
      in (case r of Inl err \<Rightarrow> Some (''host protection release: '' @ err) | Inr _ \<Rightarrow> None,
          on_d (\<lambda>d. d\<lparr>ds_guard := g, ds_kernel := k\<rparr>) s))"

definition handleDisconnect :: "'b answers \<Rightarrow> 'b session \<Rightarrow> string list \<times> 'b session" where
  "handleDisconnect a s =
     (let s = s\<lparr>ss_relaunches := 0\<rparr>;
          (cleanup, s) = teardown a ''idle'' [] [] s;
          (prot, s) = release_guard a s
      in (List.map_filter id [cleanup, prot], s))"

text \<open>The daemon's own start, and its end, which drains the waiting goroutines.\<close>

definition AutoconnectOnStart :: "'b answers \<Rightarrow> 'b session \<Rightarrow> bool \<times> 'b session" where
  "AutoconnectOnStart a s =
     (let p = the_prefs s; gen = ss_gen s
      in if \<not> pf_autoconnect p \<or> pf_lastProfile p = [] then (False, s)
         else case Get (ds_profiles (ss_d s)) (pf_lastProfile p) of
           None \<Rightarrow> (False, s)
         | Some pr \<Rightarrow>
             if checkTunConflict a False s \<noteq> None then (False, s)
             else
               let s = raiseZapretForConnect a s
               in (True, s\<lparr>ss_parked := ss_parked s @ [Autoconnect gen pr (pf_lastNode p)]\<rparr>))"

definition Close :: "'b answers \<Rightarrow> 'b session \<Rightarrow> 'b session" where
  "Close a s =
     (let s = snd (teardown a ''idle'' [] [] s);
          s = snd (disarm a s)
      in fold (run_parked a) (ss_parked s) (s\<lparr>ss_parked := []\<rparr>))"

section \<open>Runs\<close>

datatype session_event =
    Connect_command string string bool bool
  | Disconnect_command
  | Settings_command set_command
  | Reapply
  | Autoconnect_at_start
  | Walk_process bool
  | Walk_up string selector_shape
  | Walk_ends string
  | Process_exits "string option"
  | Parked_runs nat
  | Health_failover
  | Auto_switch string

fun session_step :: "'b answers \<Rightarrow> session_event \<Rightarrow> 'b session \<Rightarrow> 'b session" where
  "session_step a (Connect_command pid node auto override) s = snd (handleConnect a pid node auto override s)"
| "session_step a Disconnect_command s = snd (handleDisconnect a s)"
| "session_step a (Settings_command c) s = snd (settings_command a c s)"
| "session_step a Reapply s = reapplyLive a s"
| "session_step a Autoconnect_at_start s = snd (AutoconnectOnStart a s)"
| "session_step a (Walk_process up) s = walk_process up s"
| "session_step a (Walk_up nid sel) s = walk_up a nid sel s"
| "session_step a (Walk_ends msg) s = walk_ends a msg s"
| "session_step a (Process_exits err) s = process_exits a err s"
| "session_step a (Parked_runs i) s = parked_runs a i s"
| "session_step a Health_failover s = health_failover a s"
| "session_step a (Auto_switch dest) s = auto_switch a dest s"

fun session_run :: "('b answers \<times> session_event) list \<Rightarrow> 'b session \<Rightarrow> 'b session" where
  "session_run [] s = s"
| "session_run ((a, ev) # evs) s = session_run evs (session_step a ev s)"

definition new_session :: "'b daemon_settings \<Rightarrow> 'b session" where
  "new_session d =
     \<lparr>ss_d = d, ss_gen = 0, ss_relaunches = 0, ss_running = False, ss_armed = False, ss_walk = None, ss_life = None,
      ss_parked = [], ss_live = None, ss_lastGood = Map.empty, ss_degraded = Map.empty, ss_switches = [],
      ss_attempts = None\<rparr>"

end
