(* ===== verification/Control_Profiles.thy ===== *)
theory Control_Profiles
  imports Session Subscription
begin

text \<open>
  The profile commands of the daemon (\<^verbatim>\<open>core/control/daemon.go\<close>, \<^verbatim>\<open>core/subscription/entitlement.go\<close>): importing a
  subscription or share links, listing, removing and refreshing profiles, the background sweep, and the entitlement
  lookups that give a managed subscription its tier.  They run beside the session: a removal tears the tunnel of
  the profile down first.  The goroutine of an entitlement lookup is an entry of a list.

  The network is a parameter: what fetching an address yields (a body and the usage header), and what an
  entitlement endpoint answers.  So are the random source, the hash and the clock.
\<close>

section \<open>Surroundings, replies and state\<close>

record entitlement =
  EntTier :: string
  EntActive :: bool

definition TierPremium :: string where "TierPremium = ''premium''"
definition TierFree :: string where "TierFree = ''free''"

definition NormalizedTier :: "entitlement \<Rightarrow> string" where
  "NormalizedTier e = (if EntActive e \<and> EntTier e = TierPremium then TierPremium else TierFree)"

record profile_env =
  pe_case :: case_table
  pe_json :: "string \<Rightarrow> vmess_json option"
  pe_sha :: "8 word list \<Rightarrow> 8 word list"
  pe_random :: "string + 8 word list"
  pe_now :: int
  pe_enc :: "profile list \<Rightarrow> string + 8 word list"
  pe_fault :: "nat option"
  pe_fetch :: "string \<Rightarrow> (string, string \<times> string) result"
  pe_entitlement :: "string \<times> string \<Rightarrow> entitlement option"

datatype profile_refusal =
    Missing_url
  | Missing_link
  | Missing_links
  | Missing_profile_id
  | Fetch_failed string
  | Unreadable_body
  | No_usable_nodes
  | No_valid_links nat
  | Link_rejected link_error
  | Not_made string
  | Not_a_subscription
  | Chain_lost connect_error
  | Store_refused store_error

datatype profile_reply =
    Profile_reply redacted_profile
  | Links_reply redacted_profile nat nat
  | Profiles_reply "redacted_profile list"
  | Empty_reply
  | Failed profile_refusal

record 'b daemon =
  dm_session :: "'b session"
  dm_lookups :: "(string \<times> string) list"

abbreviation dm_store :: "'b daemon \<Rightarrow> store" where "dm_store d \<equiv> ds_profiles (ss_d (dm_session d))"

definition put_store :: "store \<Rightarrow> 'b daemon \<Rightarrow> 'b daemon" where
  "put_store st d = d\<lparr>dm_session := on_d (\<lambda>s. s\<lparr>ds_profiles := st\<rparr>) (dm_session d)\<rparr>"

text \<open>The body of a subscription and the usage header, as nodes: both import and refresh start like this.\<close>

definition fetch_nodes :: "profile_env \<Rightarrow> string \<Rightarrow> (profile_refusal, node list \<times> string) result" where
  "fetch_nodes e url =
     (case pe_fetch e url of
        Inl err \<Rightarrow> Inl (Fetch_failed err)
      | Inr (body, header) \<Rightarrow>
          (case ParseSubscription (pe_case e) (pe_json e) body of
             None \<Rightarrow> Inl Unreadable_body
           | Some (nodes, _) \<Rightarrow> if length nodes = 0 then Inl No_usable_nodes else Inr (nodes, header)))"

definition applyUserInfo :: "case_table \<Rightarrow> string \<Rightarrow> profile \<Rightarrow> profile" where
  "applyUserInfo u header p =
     (if header = [] then p
      else
        let info = ParseUserInfo u header;
            p = p\<lparr>TrafficUsed := ui_Upload info + ui_Download info, TrafficTotal := ui_Total info\<rparr>
        in case ui_Expire info of None \<Rightarrow> p | Some t \<Rightarrow> p\<lparr>ExpiresAt := Some t\<rparr>)"

text \<open>\<^verbatim>\<open>store.Add\<close> and \<^verbatim>\<open>store.Update\<close> on the daemon's store.\<close>

definition add_profile :: "profile_env \<Rightarrow> profile \<Rightarrow> 'b daemon \<Rightarrow> store_error option \<times> 'b daemon" where
  "add_profile e p d =
     (case Add (pe_enc e) (pe_fault e) p (dm_store d) of
        (Inl err, st) \<Rightarrow> (Some err, put_store st d)
      | (Inr _, st) \<Rightarrow> (None, put_store st d))"

definition update_profile :: "profile_env \<Rightarrow> profile \<Rightarrow> 'b daemon \<Rightarrow> store_error option \<times> 'b daemon" where
  "update_profile e p d =
     (case Update (pe_enc e) (pe_fault e) p (dm_store d) of
        (Inl err, st) \<Rightarrow> (Some err, put_store st d)
      | (Inr _, st) \<Rightarrow> (None, put_store st d))"

section \<open>Entitlements\<close>

definition lookupTier :: "profile_env \<Rightarrow> string \<Rightarrow> bool \<Rightarrow> string" where
  "lookupTier e subURL managed =
     (if \<not> managed then []
      else case EntitlementTarget (pe_case e) subURL of
        None \<Rightarrow> TierFree
      | Some t \<Rightarrow> (case pe_entitlement e t of None \<Rightarrow> TierFree | Some ent \<Rightarrow> NormalizedTier ent))"

definition startEntitlementLookup :: "string \<Rightarrow> string \<Rightarrow> bool \<Rightarrow> 'b daemon \<Rightarrow> 'b daemon" where
  "startEntitlementLookup ident subURL managed d =
     (if \<not> managed then d else d\<lparr>dm_lookups := dm_lookups d @ [(ident, subURL)]\<rparr>)"

text \<open>The goroutine, once its answer is there.\<close>

definition entitlement_arrives :: "profile_env \<Rightarrow> string \<Rightarrow> string \<Rightarrow> 'b daemon \<Rightarrow> 'b daemon" where
  "entitlement_arrives e ident subURL d =
     (if lookupTier e subURL True \<noteq> TierPremium then d
      else case Get (dm_store d) ident of
        None \<Rightarrow> d
      | Some cur \<Rightarrow>
          if Tier cur = TierPremium then d
          else snd (update_profile e (cur\<lparr>Tier := TierPremium\<rparr>) d))"

section \<open>Importing\<close>

definition handleListProfiles :: "'b daemon \<Rightarrow> profile_reply" where
  "handleListProfiles d = Profiles_reply (redactProfiles (Profile_Store.List (dm_store d)))"

definition handleImportSubscription :: "profile_env \<Rightarrow> string \<Rightarrow> string \<Rightarrow> 'b daemon \<Rightarrow> profile_reply \<times> 'b daemon" where
  "handleImportSubscription e url name0 d =
     (if url = [] then (Failed Missing_url, d)
      else
        let name = (if name0 = [] then url else name0)
        in case fetch_nodes e url of
             Inl r \<Rightarrow> (Failed r, d)
           | Inr (nodes, header) \<Rightarrow>
               (case NewProfile (pe_sha e) (pe_random e) (pe_now e) name SourceSubscription url nodes of
                  Inl err \<Rightarrow> (Failed (Not_made err), d)
                | Inr p \<Rightarrow>
                    let p = applyUserInfo (pe_case e) header p;
                        p = p\<lparr>Managed := DetectManaged (pe_case e) url\<rparr>
                    in case add_profile e p d of
                         (Some err, d) \<Rightarrow> (Failed (Store_refused err), d)
                       | (None, d) \<Rightarrow> (Profile_reply (redactProfile p), startEntitlementLookup (profile.ID p) url (Managed p) d)))"

definition handleImportLink :: "profile_env \<Rightarrow> string \<Rightarrow> string \<Rightarrow> 'b daemon \<Rightarrow> profile_reply \<times> 'b daemon" where
  "handleImportLink e link name0 d =
     (if link = [] then (Failed Missing_link, d)
      else case ParseLink (pe_case e) (pe_json e) link of
        Inl err \<Rightarrow> (Failed (Link_rejected err), d)
      | Inr n \<Rightarrow>
          let name = (if name0 \<noteq> [] then name0 else if Name n \<noteq> [] then Name n else ''Imported link'')
          in case NewProfile (pe_sha e) (pe_random e) (pe_now e) name SourceManual [] [n] of
               Inl err \<Rightarrow> (Failed (Not_made err), d)
             | Inr p \<Rightarrow>
                 (case add_profile e p d of
                    (Some err, d) \<Rightarrow> (Failed (Store_refused err), d)
                  | (None, d) \<Rightarrow> (Profile_reply (redactProfile p), d)))"

definition handleImportLinks :: "profile_env \<Rightarrow> string list \<Rightarrow> string \<Rightarrow> 'b daemon \<Rightarrow> profile_reply \<times> 'b daemon" where
  "handleImportLinks e raws name0 d =
     (if length raws = 0 then (Failed Missing_links, d)
      else
        let (nodes, skipped) = ParseLinks (pe_case e) (pe_json e) raws
        in if length nodes = 0 then (Failed (No_valid_links skipped), d)
           else
             let name = (if name0 = [] then ''Imported links'' else name0)
             in case NewProfile (pe_sha e) (pe_random e) (pe_now e) name SourceManual [] nodes of
                  Inl err \<Rightarrow> (Failed (Not_made err), d)
                | Inr p \<Rightarrow>
                    (case add_profile e p d of
                       (Some err, d) \<Rightarrow> (Failed (Store_refused err), d)
                     | (None, d) \<Rightarrow> (Links_reply (redactProfile p) (length nodes) skipped, d)))"

section \<open>Removing\<close>

text \<open>The tunnel of the profile is torn down first; how that went is not looked at.\<close>

definition handleRemoveProfile :: "'b answers \<Rightarrow> profile_env \<Rightarrow> string \<Rightarrow> 'b daemon \<Rightarrow> profile_reply \<times> 'b daemon" where
  "handleRemoveProfile a e pid d =
     (if pid = [] then (Failed Missing_profile_id, d)
      else
        let cur = the_state (dm_session d);
            d = (if r_Profile cur = pid \<and> r_State cur \<noteq> ''idle''
                 then d\<lparr>dm_session := snd (teardown a ''idle'' [] [] (dm_session d))\<rparr> else d)
        in case Remove (pe_enc e) (pe_fault e) pid (dm_store d) of
             (Inl err, st) \<Rightarrow> (Failed (Store_refused err), put_store st d)
           | (Inr _, st) \<Rightarrow> (Empty_reply, put_store st d))"

section \<open>Refreshing\<close>

text \<open>What a refresh makes of the profile before it is written back.\<close>

definition refreshed :: "profile_env \<Rightarrow> multihop \<Rightarrow> profile \<Rightarrow> (profile_refusal, profile) result" where
  "refreshed e mh p =
     (case fetch_nodes e (URL p) of
        Inl r \<Rightarrow> Inl r
      | Inr (nodes, ui) \<Rightarrow>
          (case NewProfile (pe_sha e) (pe_random e) (pe_now e) (PName p) SourceSubscription (URL p) nodes of
             Inl err \<Rightarrow> Inl (Not_made err)
           | Inr rebuilt \<Rightarrow>
               let before = p;
                   p = p\<lparr>Servers := Servers rebuilt, UpdatedAt := UpdatedAt rebuilt\<rparr>;
                   refusal = (if MhEnabled mh \<and> (hasServer before (EntryID mh) \<or> hasServer before (ExitID mh))
                              then validateMultihopProfile p mh else None)
               in case refusal of
                    Some err \<Rightarrow> Inl (Chain_lost err)
                  | None \<Rightarrow>
                      let p = (if ui \<noteq> []
                               then applyUserInfo (pe_case e) ui (p\<lparr>ExpiresAt := None, TrafficUsed := 0, TrafficTotal := 0\<rparr>)
                               else p);
                          p = p\<lparr>Managed := DetectManaged (pe_case e) (URL p)\<rparr>;
                          p = p\<lparr>Tier := lookupTier e (URL p) (Managed p)\<rparr>
                      in Inr p))"

definition refreshProfile ::
  "profile_env \<Rightarrow> profile \<Rightarrow> 'b daemon \<Rightarrow> (profile_refusal, profile \<times> bool) result \<times> 'b daemon"
where
  "refreshProfile e p d =
     (case refreshed e (pf_multihop (the_prefs (dm_session d))) p of
        Inl r \<Rightarrow> (Inl r, d)
      | Inr q \<Rightarrow>
          (case update_profile e q d of
             (Some err, d) \<Rightarrow> (Inl (Store_refused err), d)
           | (None, d) \<Rightarrow> (Inr (q, profileChanged p q), d)))"

definition refreshable :: "profile \<Rightarrow> bool" where
  "refreshable p \<longleftrightarrow> Source p = SourceSubscription \<and> URL p \<noteq> []"

definition handleRefreshSubscription :: "profile_env \<Rightarrow> string \<Rightarrow> 'b daemon \<Rightarrow> profile_reply \<times> 'b daemon" where
  "handleRefreshSubscription e pid d =
     (if pid = [] then (Failed Missing_profile_id, d)
      else case Get (dm_store d) pid of
        None \<Rightarrow> (Failed (Store_refused (ErrNotFound pid)), d)
      | Some p \<Rightarrow>
          if \<not> refreshable p then (Failed Not_a_subscription, d)
          else case refreshProfile e p d of
                 (Inl r, d) \<Rightarrow> (Failed r, d)
               | (Inr (q, _), d) \<Rightarrow> (Profile_reply (redactProfile q), d))"

text \<open>The sweep, over the profiles as they were listed at its start; one that fails is passed over.\<close>

fun refresh_loop :: "(profile \<Rightarrow> profile_env) \<Rightarrow> profile list \<Rightarrow> bool \<Rightarrow> 'b daemon \<Rightarrow> bool \<times> 'b daemon" where
  "refresh_loop e [] changedAny d = (changedAny, d)"
| "refresh_loop e (p # ps) changedAny d =
     (if \<not> refreshable p then refresh_loop e ps changedAny d
      else case refreshProfile (e p) p d of
             (Inl _, d) \<Rightarrow> refresh_loop e ps changedAny d
           | (Inr (_, changed), d) \<Rightarrow> refresh_loop e ps (changedAny \<or> changed) d)"

definition refreshAllSubscriptions :: "(profile \<Rightarrow> profile_env) \<Rightarrow> 'b daemon \<Rightarrow> bool \<times> 'b daemon" where
  "refreshAllSubscriptions e d = refresh_loop e (Profile_Store.List (dm_store d)) False d"

section \<open>Runs of the daemon\<close>

text \<open>
  The profile commands among the events of the session.  A sweep reads a profile, waits for the network and writes
  it back without a lock; here it runs at one point.
\<close>

datatype daemon_event =
    Session_event session_event
  | Import_subscription string string
  | Import_link string string
  | Import_links "string list" string
  | Remove_profile string
  | Refresh_subscription string
  | Refresh_all
  | Entitlement_arrives nat

fun daemon_step :: "'b answers \<Rightarrow> profile_env \<Rightarrow> daemon_event \<Rightarrow> 'b daemon \<Rightarrow> 'b daemon" where
  "daemon_step a e (Session_event ev) d = d\<lparr>dm_session := session_step a ev (dm_session d)\<rparr>"
| "daemon_step a e (Import_subscription url name) d = snd (handleImportSubscription e url name d)"
| "daemon_step a e (Import_link link name) d = snd (handleImportLink e link name d)"
| "daemon_step a e (Import_links raws name) d = snd (handleImportLinks e raws name d)"
| "daemon_step a e (Remove_profile pid) d = snd (handleRemoveProfile a e pid d)"
| "daemon_step a e (Refresh_subscription pid) d = snd (handleRefreshSubscription e pid d)"
| "daemon_step a e Refresh_all d = snd (refreshAllSubscriptions (\<lambda>_. e) d)"
| "daemon_step a e (Entitlement_arrives i) d =
     (if i < length (dm_lookups d)
      then case dm_lookups d ! i of (ident, subURL) \<Rightarrow>
             entitlement_arrives e ident subURL (d\<lparr>dm_lookups := take i (dm_lookups d) @ drop (Suc i) (dm_lookups d)\<rparr>)
      else d)"

fun daemon_run :: "('b answers \<times> profile_env \<times> daemon_event) list \<Rightarrow> 'b daemon \<Rightarrow> 'b daemon" where
  "daemon_run [] d = d"
| "daemon_run ((a, e, ev) # evs) d = daemon_run evs (daemon_step a e ev d)"

end
