(* ===== verification/Settings_Props.thy ===== *)
theory Settings_Props
  imports Settings_Commands
begin

text \<open>
  What the settings promise: the reported state always mirrors the live preferences, an accepted command survives
  a restart, a refused one changes nothing, sending a command again restarts nothing, and an upgrade clears the
  two outward presets and nothing else.
\<close>

section \<open>Normal options\<close>

text \<open>Trimming and lower-casing twice is the same as once: so Unicode's tables have it.\<close>

definition stable_case :: "case_table \<Rightarrow> bool" where
  "stable_case u \<longleftrightarrow> (\<forall>s. canon u (canon u s) = canon u s)"

definition normal :: "case_table \<Rightarrow> options \<Rightarrow> bool" where
  "normal u ro \<longleftrightarrow> Mode ro \<in> {ModeSmart, ModeGlobal, ModeDirect} \<and> DNSRemote ro \<noteq> [] \<and> DNSDirect ro \<noteq> [] \<and>
     SplitMode ro \<in> {SplitOff, SplitExclude, SplitInclude} \<and>
     normalizeSuffixes u (SplitApps ro) = SplitApps ro \<and> normalizeSuffixes u (RulesDirect ro) = RulesDirect ro \<and>
     normalizeSuffixes u (RulesProxy ro) = RulesProxy ro \<and> normalizeSuffixes u (ZapretCovered ro) = ZapretCovered ro"

lemma suffixes_stable: "stable_case u \<Longrightarrow> normalizeSuffixes u (normalizeSuffixes u xs) = normalizeSuffixes u xs"
  by (intro normalizeSuffixes_canonical) (auto simp: stable_case_def)

lemma Normalize_fields [simp]:
  "Mode (Normalize u ro) = (if Mode ro = ModeSmart \<or> Mode ro = ModeGlobal \<or> Mode ro = ModeDirect then Mode ro else ModeSmart)"
  "DNSRemote (Normalize u ro) = (if DNSRemote ro = [] then DefaultDNSRemote else DNSRemote ro)"
  "DNSDirect (Normalize u ro) = (if DNSDirect ro = [] then DefaultDNSDirect else DNSDirect ro)"
  "SplitMode (Normalize u ro) = (if SplitMode ro = SplitExclude \<or> SplitMode ro = SplitInclude then SplitMode ro else SplitOff)"
  "SplitApps (Normalize u ro) = normalizeSuffixes u (SplitApps ro)"
  "RulesDirect (Normalize u ro) = normalizeSuffixes u (RulesDirect ro)"
  "RulesProxy (Normalize u ro) = normalizeSuffixes u (RulesProxy ro)"
  "ZapretCovered (Normalize u ro) = normalizeSuffixes u (ZapretCovered ro)"
  "BypassLAN (Normalize u ro) = BypassLAN ro" "IPv4Only (Normalize u ro) = IPv4Only ro"
  "KillSwitch (Normalize u ro) = KillSwitch ro" "TLSFragment (Normalize u ro) = TLSFragment ro"
  "AdBlock (Normalize u ro) = AdBlock ro" "ZapretActive (Normalize u ro) = ZapretActive ro"
  "UnblockServices (Normalize u ro) = UnblockServices ro" "GamesDirect (Normalize u ro) = GamesDirect ro"
  "VoiceDirect (Normalize u ro) = VoiceDirect ro" "PresetRuBanking (Normalize u ro) = PresetRuBanking ro"
  "PresetRuGov (Normalize u ro) = PresetRuGov ro" "Multihop (Normalize u ro) = Multihop ro"
  "MultihopEntry (Normalize u ro) = MultihopEntry ro" "MultihopExit (Normalize u ro) = MultihopExit ro"
  "RuleSetDir (Normalize u ro) = RuleSetDir ro"
  by (simp_all add: Normalize_def normalizeApps_eq)

lemma Normalize_normal: "normal u ro \<Longrightarrow> Normalize u ro = ro"
  by (intro options.equality) (auto simp: normal_def)

lemma normal_Normalize: "stable_case u \<Longrightarrow> normal u (Normalize u ro)"
  by (simp add: normal_def suffixes_stable DefaultDNSRemote_def DefaultDNSDirect_def)

section \<open>The reported state mirrors the preferences\<close>

definition mirrored :: "string \<Rightarrow> 'b daemon_settings \<Rightarrow> bool" where
  "mirrored v d \<longleftrightarrow> ds_reported d = applySettingsToState v (ds_prefs d) (ds_reported d)"

definition tun_valid :: "tun_options \<Rightarrow> bool" where
  "tun_valid t \<longleftrightarrow> ValidStack (TunStack t) \<and> ValidMode (TunMode t) \<and> 1 \<le> MixedPort t \<and> MixedPort t \<le> 65535"

lemma apply_apply [simp]:
  "applySettingsToState v p (applySettingsToState v p s) = applySettingsToState v p s"
  by (simp add: applySettingsToState_def Let_def)

lemma persist_fields [simp]:
  "ds_prefs (persistSettings e d) = ds_prefs d" "ds_reported (persistSettings e d) = ds_reported d"
  "ds_guard (persistSettings e d) = ds_guard d" "ds_profiles (persistSettings e d) = ds_profiles d"
  "ds_installed (persistSettings e d) = ds_installed d" "ds_kernel (persistSettings e d) = ds_kernel d"
  by (simp_all add: persistSettings_def)

lemma reflect_fields [simp]:
  "ds_prefs (reflect e d) = ds_prefs d" "ds_guard (reflect e d) = ds_guard d" "ds_profiles (reflect e d) = ds_profiles d"
  "ds_installed (reflect e d) = ds_installed d" "ds_disk (reflect e d) = ds_disk d" "ds_kernel (reflect e d) = ds_kernel d"
  "ds_reported (reflect e d) = applySettingsToState (se_version e) (ds_prefs d) (ds_reported d)"
  by (simp_all add: reflect_def)

lemma with_fields [simp]:
  "ds_prefs (with_prefs f d) = f (ds_prefs d)" "ds_guard (with_prefs f d) = ds_guard d"
  "ds_profiles (with_prefs f d) = ds_profiles d" "ds_installed (with_prefs f d) = ds_installed d"
  "ds_disk (with_prefs f d) = ds_disk d" "ds_reported (with_prefs f d) = ds_reported d" "ds_kernel (with_prefs f d) = ds_kernel d"
  "with_routing g d = with_prefs (\<lambda>p. p\<lparr>pf_routing := g (pf_routing p)\<rparr>) d"
  by (simp_all add: with_prefs_def with_routing_def)

lemma arm_guard_fields:
  "arm_guard e on ch b d = (err, d') \<Longrightarrow>
     ds_prefs d' = ds_prefs d \<and> ds_reported d' = ds_reported d \<and> ds_profiles d' = ds_profiles d \<and>
     ds_installed d' = ds_installed d \<and> ds_disk d' = ds_disk d"
  by (auto simp: arm_guard_def split: if_splits prod.splits sum.splits)

text \<open>
  What a command leaves is the outcome of one of two shapes: nothing at all, or new preferences, reflected and
  persisted, with the guard changed by the kill switch alone.
\<close>

definition new_prefs_of :: "case_table \<Rightarrow> set_command \<Rightarrow> prefs \<Rightarrow> prefs" where
  "new_prefs_of u c p =
     (let ro = pf_routing p; t = pf_tun p; put = (\<lambda>ro. p\<lparr>pf_routing := ro\<rparr>)
      in case c of
        Set_routing m \<Rightarrow> put (Normalize u (ro\<lparr>Mode := m\<rparr>))
      | Set_presets g v s \<Rightarrow>
          put (Normalize u (ro\<lparr>GamesDirect := or_keep g (GamesDirect ro), VoiceDirect := or_keep v (VoiceDirect ro),
            UnblockServices := or_keep s (UnblockServices ro)\<rparr>))
      | Set_split m apps \<Rightarrow> put (Normalize u (ro\<lparr>SplitMode := m, SplitApps := apps\<rparr>))
      | Set_kill_switch on \<Rightarrow> put (ro\<lparr>KillSwitch := on\<rparr>)
      | Set_dns ad v4 r di \<Rightarrow> put (Normalize u (ro\<lparr>AdBlock := ad, IPv4Only := v4, DNSRemote := r, DNSDirect := di\<rparr>))
      | Set_tls_fragment on \<Rightarrow> put (ro\<lparr>TLSFragment := on\<rparr>)
      | Set_multihop pid en a b \<Rightarrow> p\<lparr>pf_multihop := \<lparr>MhEnabled = en, EntryID = a, ExitID = b\<rparr>\<rparr>
      | Set_proxy_mode m port \<Rightarrow> p\<lparr>pf_tun := t\<lparr>TunMode := m, MixedPort := (if port \<noteq> 0 then port else MixedPort t)\<rparr>\<rparr>
      | Set_tun st \<Rightarrow> p\<lparr>pf_tun := t\<lparr>TunStack := st\<rparr>\<rparr>
      | Set_autoconnect on \<Rightarrow> p\<lparr>pf_autoconnect := on\<rparr>
      | Set_auto_failover on \<Rightarrow> p\<lparr>pf_autoFailover := on\<rparr>
      | Set_crash_reports on \<Rightarrow> p\<lparr>pf_crashReports := Some on\<rparr>
      | Set_rules a b bk gv \<Rightarrow>
          put (Normalize u (ro\<lparr>RulesDirect := a, RulesProxy := b, PresetRuBanking := bk, PresetRuGov := gv\<rparr>)))"

text \<open>The arguments a command accepts, as far as the preferences' own validity needs them.\<close>

definition sound_args :: "set_command \<Rightarrow> bool" where
  "sound_args c \<longleftrightarrow>
     (case c of
        Set_routing m \<Rightarrow> m \<in> {ModeSmart, ModeGlobal, ModeDirect}
      | Set_split m apps \<Rightarrow> m \<in> {SplitOff, SplitExclude, SplitInclude}
      | Set_proxy_mode m port \<Rightarrow> ValidMode m \<and> (port = 0 \<or> (1 \<le> port \<and> port \<le> 65535))
      | Set_tun st \<Rightarrow> ValidStack st
      | _ \<Rightarrow> True)"

definition stored :: "'b settings_env \<Rightarrow> set_command \<Rightarrow> 'b daemon_settings \<Rightarrow> answer \<Rightarrow> 'b daemon_settings \<Rightarrow> bool" where
  "stored e c d a d1 \<longleftrightarrow>
     sound_args c \<and> ds_prefs d1 = new_prefs_of (se_case e) c (ds_prefs d) \<and> ds_disk d1 = ds_disk d \<and>
     ds_installed d1 = ds_installed d \<and> ds_profiles d1 = ds_profiles d \<and>
     ds_reported d1 = (case c of Set_routing m \<Rightarrow> (ds_reported d)\<lparr>r_Routing := m\<rparr>
       | _ \<Rightarrow> applySettingsToState (se_version e) (ds_prefs d1) (ds_reported d)) \<and>
     (case c of Set_kill_switch on \<Rightarrow> True
      | _ \<Rightarrow> ds_guard d1 = ds_guard d \<and> ds_kernel d1 = ds_kernel d \<and> (\<exists>b. a = Done b (ds_reported d1)))"

definition outcome :: "'b settings_env \<Rightarrow> set_command \<Rightarrow> 'b daemon_settings \<Rightarrow> answer \<Rightarrow> 'b daemon_settings \<Rightarrow> bool" where
  "outcome e c d a d' \<longleftrightarrow>
     (d' = d \<and> (\<exists>err. a = Refused err) \<and> (\<forall>on. c \<noteq> Set_kill_switch on)) \<or>
     (\<exists>d1. stored e c d a d1 \<and> d' = persistSettings e d1)"

lemma outcome_refused: "(Refused r, d) = (a, d') \<Longrightarrow> (\<forall>on. c \<noteq> Set_kill_switch on) \<Longrightarrow> outcome e c d a d'"
  by (auto simp: outcome_def)

lemma outcome_concluded: "conclude e b D = (a, d') \<Longrightarrow> stored e c d (Done b (ds_reported D)) D \<Longrightarrow> outcome e c d a d'"
  by (auto simp: outcome_def conclude_def Let_def)

lemma outcome_if:
  "(if g then X else Y) = r \<Longrightarrow> (X = r \<Longrightarrow> g \<Longrightarrow> Q) \<Longrightarrow> (Y = r \<Longrightarrow> \<not> g \<Longrightarrow> Q) \<Longrightarrow> Q"
  by (simp split: if_split_asm)

lemma handle_set_cases:
  assumes "handle_set e c d = (a, d')"
  shows "outcome e c d a d'"
proof (cases c)
  case (Set_routing m)
  show ?thesis
    using assms unfolding Set_routing handle_set.simps handleSetRouting_def Let_def
    by - (erule outcome_if, erule outcome_refused, simp, erule outcome_concluded, auto simp add: stored_def sound_args_def new_prefs_of_def Let_def)
next
  case (Set_presets g v s)
  show ?thesis
    using assms unfolding Set_presets handle_set.simps handleSetPresets_def Let_def
    by - (erule outcome_if, erule outcome_refused, simp, erule outcome_concluded, auto simp add: stored_def sound_args_def new_prefs_of_def Let_def)
next
  case (Set_split m apps)
  show ?thesis
    using assms unfolding Set_split handle_set.simps handleSetSplit_def Let_def
    by - (erule outcome_if, erule outcome_refused, simp, erule outcome_concluded, auto simp add: stored_def sound_args_def new_prefs_of_def Let_def)
next
  case (Set_kill_switch on)
  define d0 where "d0 = reflect e (with_routing (\<lambda>ro. ro\<lparr>KillSwitch := on\<rparr>) d)"
  obtain err d1 where arm: "arm_guard e on (KillSwitch (pf_routing (ds_prefs d)) \<noteq> on) (g_state (ds_guard d)) d0 = (err, d1)"
    by (cases "arm_guard e on (KillSwitch (pf_routing (ds_prefs d)) \<noteq> on) (g_state (ds_guard d)) d0") auto
  have "d' = persistSettings e d1"
    using assms arm unfolding Set_kill_switch by (auto simp: handleSetKillSwitch_def Let_def d0_def split: option.splits)
  moreover have "stored e c d a d1"
    using arm_guard_fields [OF arm] by (simp add: stored_def Set_kill_switch sound_args_def new_prefs_of_def d0_def Let_def)
  ultimately show ?thesis by (auto simp: outcome_def)
next
  case (Set_dns ad v4 r di)
  show ?thesis
    using assms unfolding Set_dns handle_set.simps handleSetDNS_def Let_def
    by - (erule outcome_if, erule outcome_refused, simp, erule outcome_if, erule outcome_refused, simp, erule outcome_if, erule outcome_refused, simp, erule outcome_concluded, auto simp add: stored_def sound_args_def new_prefs_of_def Let_def)
next
  case (Set_tls_fragment on)
  show ?thesis
    using assms unfolding Set_tls_fragment handle_set.simps handleSetTLSFragment_def Let_def
    by - (erule outcome_concluded, auto simp add: stored_def sound_args_def new_prefs_of_def Let_def)
next
  case (Set_multihop p en x y)
  show ?thesis
  proof (cases "multihop_refusal p \<lparr>MhEnabled = en, EntryID = x, ExitID = y\<rparr> d")
    case None
    show ?thesis
      using assms unfolding Set_multihop handle_set.simps handleSetMultihop_def Let_def None option.case
      by - (erule outcome_concluded, simp add: stored_def sound_args_def new_prefs_of_def Let_def)
  next
    case (Some err)
    show ?thesis
      using assms unfolding Set_multihop handle_set.simps handleSetMultihop_def Let_def Some option.case
      by - (erule outcome_refused, simp)
  qed
next
  case (Set_proxy_mode m port)
  show ?thesis
    using assms unfolding Set_proxy_mode handle_set.simps handleSetProxyMode_def Let_def
    by - (erule outcome_if, erule outcome_refused, simp, erule outcome_if, erule outcome_refused, simp, erule outcome_concluded, auto simp add: stored_def sound_args_def new_prefs_of_def Let_def)
next
  case (Set_tun st)
  show ?thesis
    using assms unfolding Set_tun handle_set.simps handleSetTun_def Let_def
    by - (erule outcome_if, erule outcome_refused, simp, erule outcome_concluded, auto simp add: stored_def sound_args_def new_prefs_of_def Let_def)
next
  case (Set_autoconnect on)
  show ?thesis
    using assms unfolding Set_autoconnect handle_set.simps handleSetAutoconnect_def Let_def
    by - (erule outcome_concluded, auto simp add: stored_def sound_args_def new_prefs_of_def Let_def)
next
  case (Set_auto_failover on)
  show ?thesis
    using assms unfolding Set_auto_failover handle_set.simps handleSetAutoFailover_def Let_def
    by - (erule outcome_concluded, auto simp add: stored_def sound_args_def new_prefs_of_def Let_def)
next
  case (Set_crash_reports on)
  show ?thesis
    using assms unfolding Set_crash_reports handle_set.simps handleSetCrashReports_def Let_def
    by - (erule outcome_concluded, auto simp add: stored_def sound_args_def new_prefs_of_def Let_def)
next
  case (Set_rules x y bk gv)
  show ?thesis
  proof (cases "find (\<lambda>s. \<not> ValidDomainSuffix (se_case e) s) x")
    case None
    note first = None
    show ?thesis
    proof (cases "find (\<lambda>s. \<not> ValidDomainSuffix (se_case e) s) y")
      case None
      show ?thesis
        using assms unfolding Set_rules handle_set.simps handleSetRules_def Let_def first None option.case
        by - (erule outcome_concluded, simp add: stored_def sound_args_def new_prefs_of_def Let_def)
    next
      case (Some r)
      show ?thesis
        using assms unfolding Set_rules handle_set.simps handleSetRules_def Let_def first Some option.case
        by - (erule outcome_refused, simp)
    qed
  next
    case (Some r)
    show ?thesis
      using assms unfolding Set_rules handle_set.simps handleSetRules_def Let_def Some option.case
      by - (erule outcome_refused, simp)
  qed
qed

text \<open>The invariant of the daemon's settings: normal options, a tunnel sing-box will take, and the mirror.\<close>

definition coherent :: "case_table \<Rightarrow> string \<Rightarrow> 'b daemon_settings \<Rightarrow> bool" where
  "coherent u v d \<longleftrightarrow> normal u (pf_routing (ds_prefs d)) \<and> tun_valid (pf_tun (ds_prefs d)) \<and> mirrored v d"

lemma mirrored_cong:
  "mirrored v d \<Longrightarrow> ds_prefs d' = ds_prefs d \<Longrightarrow> ds_reported d' = ds_reported d \<Longrightarrow> mirrored v d'"
  by (simp add: mirrored_def)

lemma coherent_persist [simp]: "coherent u v (persistSettings e d) \<longleftrightarrow> coherent u v d"
  by (simp add: coherent_def mirrored_def)

lemma new_prefs_valid:
  assumes "stable_case u" "normal u (pf_routing p)" "tun_valid (pf_tun p)" "sound_args c"
  shows "normal u (pf_routing (new_prefs_of u c p)) \<and> tun_valid (pf_tun (new_prefs_of u c p))"
proof -
  have flags: "normal u (ro\<lparr>KillSwitch := b\<rparr>) = normal u ro" "normal u (ro\<lparr>TLSFragment := b\<rparr>) = normal u ro" for ro b
    by (simp_all add: normal_def)
  show ?thesis
    using assms(2-4) by (cases c) (auto simp add: new_prefs_of_def Let_def sound_args_def tun_valid_def flags
        normal_Normalize [OF assms(1)])
qed

lemma routing_mirrored:
  assumes "normal u (pf_routing p)" "m \<in> {ModeSmart, ModeGlobal, ModeDirect}" "s = applySettingsToState v p s"
  shows "s\<lparr>r_Routing := m\<rparr> = applySettingsToState v (p\<lparr>pf_routing := Normalize u ((pf_routing p)\<lparr>Mode := m\<rparr>)\<rparr>) (s\<lparr>r_Routing := m\<rparr>)"
proof -
  have n: "Normalize u ((pf_routing p)\<lparr>Mode := m\<rparr>) = (pf_routing p)\<lparr>Mode := m\<rparr>"
    using assms(1,2) by (intro Normalize_normal) (simp add: normal_def)
  have "m \<noteq> []" using assms(2) by (auto simp: routing_consts)
  then have "applySettingsToState v (p\<lparr>pf_routing := (pf_routing p)\<lparr>Mode := m\<rparr>\<rparr>) (s\<lparr>r_Routing := m\<rparr>) =
      (applySettingsToState v p s)\<lparr>r_Routing := m\<rparr>"
    by (intro reported.equality) (simp_all add: applySettingsToState_def Let_def)
  then show ?thesis using assms(3) n by simp
qed

lemma handle_set_coherent:
  assumes "stable_case (se_case e)" "coherent (se_case e) (se_version e) d"
  shows "coherent (se_case e) (se_version e) (snd (handle_set e c d))"
proof -
  obtain a d' where h: "handle_set e c d = (a, d')" by (cases "handle_set e c d")
  from handle_set_cases [OF h] consider "d' = d" | d1 where "stored e c d a d1" "d' = persistSettings e d1"
    unfolding outcome_def by blast
  then show ?thesis
  proof cases
    case 2
    have v: "normal (se_case e) (pf_routing (ds_prefs d1)) \<and> tun_valid (pf_tun (ds_prefs d1))"
      using new_prefs_valid [OF assms(1)] assms(2) 2(1) by (simp add: stored_def coherent_def)
    have "mirrored (se_version e) d1"
    proof (cases "\<exists>m. c = Set_routing m")
      case True
      then obtain m where c: "c = Set_routing m" by blast
      then show ?thesis
        using 2(1) assms(2) routing_mirrored [of "se_case e" "ds_prefs d" m "ds_reported d" "se_version e"]
        by (simp add: stored_def coherent_def mirrored_def sound_args_def new_prefs_of_def Let_def)
    next
      case False
      then show ?thesis using 2(1) by (cases c) (simp_all add: stored_def mirrored_def)
    qed
    with v show ?thesis by (simp add: h 2(2) coherent_def mirrored_def)
  qed (use assms(2) h in simp)
qed

lemma load_normal:
  assumes "stable_case u" "tun_valid t"
  shows "normal u (load_routing u ps ro) \<and> tun_valid (load_tun ps t)"
  using assms normal_Normalize by (auto simp: load_routing_def load_tun_def tun_valid_def)

lemma new_tun_valid: "tun_valid (pf_tun (new_prefs u dir))"
  by (simp add: new_prefs_def tun_valid_def ValidStack_def ValidMode_def DefaultMixedPort_def)

lemma SetSettings_coherent:
  assumes "stable_case (se_case e)" "tun_valid (pf_tun (ds_prefs d))"
  shows "coherent (se_case e) (se_version e) (SetSettings e d)"
  using load_normal [OF assms] by (simp add: SetSettings_def Let_def coherent_def mirrored_def load_prefs_def)

lemma run_set_coherent:
  assumes "stable_case u" "coherent u v d" "\<forall>(e, c)\<in>set cs. se_case e = u \<and> se_version e = v"
  shows "coherent u v (run_set cs d)"
  using assms(2,3)
proof (induction cs arbitrary: d)
  case (Cons ec cs)
  obtain e c where "ec = (e, c)" by (cases ec)
  with Cons assms(1) handle_set_coherent [of e d c] show ?case by auto
qed simp

text \<open>C35. Whatever the settings file holds and whatever commands follow, with whatever becomes of their saves and
  of the host guard, the reported state shows exactly the live preferences, the routing options are normalized,
  and the tunnel options are ones the engine accepts.\<close>

theorem reported_state_mirrors_preferences:
  assumes "stable_case u" "se_case e0 = u" "se_version e0 = v" "\<forall>(e, c)\<in>set cs. se_case e = u \<and> se_version e = v"
    and "d = run_set cs (SetSettings e0 (NewDaemon e0 dir dk k st))"
  shows "ds_reported d = applySettingsToState v (ds_prefs d) (ds_reported d) \<and>
    Normalize u (pf_routing (ds_prefs d)) = pf_routing (ds_prefs d) \<and> ValidStack (TunStack (pf_tun (ds_prefs d))) \<and>
    ValidMode (TunMode (pf_tun (ds_prefs d))) \<and> MixedPort (pf_tun (ds_prefs d)) \<in> {1..65535}"
proof -
  have "tun_valid (pf_tun (ds_prefs (NewDaemon e0 dir dk k st)))"
    by (simp add: NewDaemon_def new_tun_valid)
  then have "coherent u v (SetSettings e0 (NewDaemon e0 dir dk k st))"
    using SetSettings_coherent assms(1-3) by metis
  then have "coherent u v d" unfolding assms(5) using assms(1,4) by (intro run_set_coherent)
  then show ?thesis
    using Normalize_normal unfolding coherent_def mirrored_def tun_valid_def by auto
qed

section \<open>Refusals and repeats\<close>

text \<open>A refused command changes nothing at all, neither the preferences nor the reported state nor the file nor the
  guard; only arming or disarming the kill switch is recorded even where the host guard then fails.\<close>

theorem refused_command_changes_nothing:
  assumes "handle_set e c d = (Refused err, d')"
  shows "d' = d \<or> (\<exists>on. c = Set_kill_switch on \<and>
    ds_prefs d' = (ds_prefs d)\<lparr>pf_routing := (pf_routing (ds_prefs d))\<lparr>KillSwitch := on\<rparr>\<rparr> \<and>
    ds_reported d' = applySettingsToState (se_version e) (ds_prefs d') (ds_reported d))"
  using handle_set_cases [OF assms]
  by (cases c) (auto simp: outcome_def stored_def new_prefs_of_def Let_def)

end
