(* ===== verification/Session_Props.thy ===== *)
theory Session_Props
  imports Session Settings_Props
begin

text \<open>
  What the session promises: its reported phase is what runs, a disconnect is final, the relaunches of a dying
  tunnel are bounded, a connection is announced under the kill switch only behind an active guard, a refused
  connect leaves the tunnel alone, and a tunnel that died under the kill switch comes back on its own exit.
\<close>

section \<open>What the small steps touch\<close>

lemma on_d_fields [simp]:
  "ss_d (on_d f s) = f (ss_d s)" "ss_gen (on_d f s) = ss_gen s" "ss_relaunches (on_d f s) = ss_relaunches s"
  "ss_running (on_d f s) = ss_running s" "ss_armed (on_d f s) = ss_armed s" "ss_walk (on_d f s) = ss_walk s"
  "ss_life (on_d f s) = ss_life s" "ss_parked (on_d f s) = ss_parked s" "ss_live (on_d f s) = ss_live s"
  "ss_lastGood (on_d f s) = ss_lastGood s"
  by (simp_all add: on_d_def)

lemma setState_fields [simp]:
  "ss_gen (setState a st p n e r s) = ss_gen s" "ss_relaunches (setState a st p n e r s) = ss_relaunches s"
  "ss_running (setState a st p n e r s) = ss_running s" "ss_armed (setState a st p n e r s) = ss_armed s"
  "ss_walk (setState a st p n e r s) = ss_walk s" "ss_life (setState a st p n e r s) = ss_life s"
  "ss_parked (setState a st p n e r s) = ss_parked s" "ss_live (setState a st p n e r s) = ss_live s"
  "ss_lastGood (setState a st p n e r s) = ss_lastGood s"
  "the_prefs (setState a st p n e r s) = the_prefs s" "the_guard (setState a st p n e r s) = the_guard s"
  "ds_kernel (ss_d (setState a st p n e r s)) = ds_kernel (ss_d s)"
  "ds_profiles (ss_d (setState a st p n e r s)) = ds_profiles (ss_d s)"
  "r_State (the_state (setState a st p n e r s)) = st" "r_Profile (the_state (setState a st p n e r s)) = p"
  "r_Node (the_state (setState a st p n e r s)) = n" "r_Error (the_state (setState a st p n e r s)) = e"
  by (simp_all add: setState_def applyZapretToStateLocked_def applySettingsToState_def Let_def)

lemma put_budget_fields [simp]:
  "ss_d (put_budget r s) = ss_d s" "ss_gen (put_budget r s) = ss_gen s" "ss_relaunches (put_budget r s) = ss_relaunches s"
  "ss_running (put_budget r s) = ss_running s" "ss_armed (put_budget r s) = ss_armed s" "ss_walk (put_budget r s) = ss_walk s"
  "ss_life (put_budget r s) = ss_life s" "ss_parked (put_budget r s) = ss_parked s"
  by (simp_all add: put_budget_def)

text \<open>The connection itself: which process, walk and watcher there are, and what is reported of it.\<close>

definition connection :: "reported \<Rightarrow> string \<times> string \<times> string \<times> string" where
  "connection r = (r_State r, r_Profile r, r_Node r, r_Error r)"

definition same_tunnel :: "'b session \<Rightarrow> 'b session \<Rightarrow> bool" where
  "same_tunnel s s' \<longleftrightarrow>
     ss_gen s' = ss_gen s \<and> ss_running s' = ss_running s \<and> ss_armed s' = ss_armed s \<and> ss_walk s' = ss_walk s \<and>
     ss_life s' = ss_life s \<and> ss_live s' = ss_live s \<and> connection (the_state s') = connection (the_state s)"

lemma same_tunnel_refl [simp]: "same_tunnel s s"
  by (simp add: same_tunnel_def)

lemma same_tunnel_trans: "same_tunnel s s' \<Longrightarrow> same_tunnel s' s'' \<Longrightarrow> same_tunnel s s''"
  by (simp add: same_tunnel_def)

lemma same_tunnel_on_d:
  "connection (ds_reported (f (ss_d s))) = connection (the_state s) \<Longrightarrow> same_tunnel s (on_d f s)"
  by (simp add: same_tunnel_def)

text \<open>Steps that only touch the settings, the guard or the kernel, and leave the waiting goroutines as they are.\<close>

definition inner :: "'b session \<Rightarrow> 'b session \<Rightarrow> bool" where
  "inner s s' \<longleftrightarrow> same_tunnel s s' \<and> ss_parked s' = ss_parked s \<and> ss_relaunches s' = ss_relaunches s \<and>
     ds_profiles (ss_d s') = ds_profiles (ss_d s) \<and> ss_lastGood s' = ss_lastGood s \<and>
     KillSwitch (pf_routing (the_prefs s')) = KillSwitch (pf_routing (the_prefs s)) \<and>
     pf_multihop (the_prefs s') = pf_multihop (the_prefs s)"

lemma inner_refl [simp]: "inner s s"
  by (simp add: inner_def)

lemma inner_trans: "inner s s' \<Longrightarrow> inner s' s'' \<Longrightarrow> inner s s''"
  by (simp add: inner_def same_tunnel_def)

lemma pickFreeTunAddress_inner: "inner s (pickFreeTunAddress a s)"
  by (simp add: pickFreeTunAddress_def inner_def same_tunnel_def)

lemma prepareProtection_inner: "prepareProtection a s = (r, s') \<Longrightarrow> inner s s'"
  unfolding prepareProtection_def Let_def
  by (auto simp: inner_def same_tunnel_def split: if_splits prod.splits)

lemma activate_inner: "activateProtectionLocked a ro tun s = (r, s') \<Longrightarrow> inner s s'"
  unfolding activateProtectionLocked_def Let_def
  by (auto simp: inner_def same_tunnel_def split: if_splits prod.splits)

lemma interrupted_inner: "inner s (interrupted s)"
  by (simp add: interrupted_def inner_def same_tunnel_def)

lemma raiseZapret_inner: "inner s (raiseZapretForConnect a s)"
  by (simp add: raiseZapretForConnect_def pickFreeTunAddress_def inner_def same_tunnel_def with_routing_def with_prefs_def
      connection_def applyZapretToStateLocked_def Let_def)

lemma release_guard_inner: "release_guard a s = (r, s') \<Longrightarrow> inner s s'"
  unfolding release_guard_def by (auto simp: inner_def same_tunnel_def split: prod.splits)

section \<open>Tearing down and starting\<close>

definition torn :: "'b session \<Rightarrow> 'b session \<Rightarrow> bool" where
  "torn s s' \<longleftrightarrow> ss_walk s' = None \<and> ss_life s' = None \<and> ss_live s' = None \<and> \<not> ss_running s' \<and> ss_gen s' = Suc (ss_gen s) \<and>
     ss_parked s' = ss_parked s \<and> ss_relaunches s' = ss_relaunches s \<and>
     ds_profiles (ss_d s') = ds_profiles (ss_d s) \<and> ss_lastGood s' = ss_lastGood s \<and> the_prefs s' = the_prefs s"

lemma disarm_cases:
  assumes "disarm a s = (r, s')"
  obtains "r = None" "s' = s\<lparr>ss_armed := False\<rparr>" | m where "r = Some m" "s' = s" "ss_armed s"
proof (cases "ss_armed s")
  case False
  then have "s' = s\<lparr>ss_armed := False\<rparr>" "r = None" using assms by (simp_all add: disarm_def)
  then show ?thesis using that by blast
next
  case True
  show ?thesis
  proof (cases "an_disarm a")
    case None
    show ?thesis by (rule that(1)) (use assms True None in \<open>simp_all add: disarm_def\<close>)
  next
    case (Some m)
    show ?thesis by (rule that(2) [of m]) (use assms True Some in \<open>simp_all add: disarm_def\<close>)
  qed
qed

lemma teardown_cases:
  assumes "teardown a st pid nid s = (r, s')"
  shows "torn s s' \<and>
    (case r of Some m \<Rightarrow> connection (the_state s') = (''error'', [], [], m)
     | None \<Rightarrow> \<not> ss_armed s' \<and> connection (the_state s') =
         (if st = ''idle'' then (''idle'', [], [], []) else (st, pid, nid, [])))"
proof -
  define s1 where "s1 = interrupted (s\<lparr>ss_gen := Suc (ss_gen s), ss_attempts := None, ss_live := None, ss_walk := None,
    ss_life := None, ss_running := False\<rparr>)"
  have t: "torn s s1" by (simp add: s1_def torn_def interrupted_def)
  obtain dr s2 where d: "disarm a s1 = (dr, s2)" by (cases "disarm a s1")
  then show ?thesis
  proof (cases rule: disarm_cases)
    case 1
    then show ?thesis
      using assms t d unfolding teardown_def Let_def s1_def [symmetric]
      by (auto simp: torn_def connection_def split: if_splits)
  next
    case (2 m)
    then show ?thesis
      using assms t d unfolding teardown_def Let_def s1_def [symmetric]
      by (auto simp: torn_def connection_def)
  qed
qed

text \<open>
  A start is refused before anything is touched, or fails in the clean-up with everything torn down, or leaves
  exactly one walk of a new generation in flight.
\<close>

definition launched :: "'b session \<Rightarrow> 'b session \<Rightarrow> profile \<Rightarrow> bool" where
  "launched s s' p \<longleftrightarrow> ss_gen s' = Suc (Suc (ss_gen s)) \<and> \<not> ss_running s' \<and> \<not> ss_armed s' \<and> ss_life s' = None \<and>
     (\<exists>w. ss_walk s' = Some w \<and> if_gen w = ss_gen s' \<and> FlProfile (if_loop w) = profile.ID p) \<and>
     connection (the_state s') = (''connecting'', profile.ID p, [], []) \<and>
     ss_parked s' = ss_parked s \<and> ss_relaunches s' = ss_relaunches s \<and> ds_profiles (ss_d s') = ds_profiles (ss_d s)"

definition start_outcome :: "'b session \<Rightarrow> start_error option \<Rightarrow> 'b session \<Rightarrow> profile \<Rightarrow> bool" where
  "start_outcome s r s' p \<longleftrightarrow>
     (case r of
        Some (Cleanup m) \<Rightarrow> \<exists>s0. inner s s0 \<and> torn s0 s' \<and> connection (the_state s') = (''error'', [], [], m)
      | Some e \<Rightarrow> inner s s'
      | None \<Rightarrow> launched s s' p)"

lemma launch_outcome:
  assumes "inner s s0" "torn s0 s1" "\<not> ss_armed s1"
  shows "launched s (launch a p ord ro tun rem req s1) p"
  using assms
  by (simp add: launched_def launch_def torn_def inner_def same_tunnel_def connection_def Let_def)

lemma startConnect_cases:
  assumes "startConnect a p explicit auto rem avoid s = (r, s')"
  shows "start_outcome s r s' p"
proof (cases "connect_plan (pf_multihop (the_prefs s)) p explicit avoid")
  case (Inl err)
  then show ?thesis using assms by (auto simp: startConnect_def start_outcome_def)
next
  case (Inr nc)
  obtain node cands where nc: "nc = (node, cands)" by (cases nc)
  define s1 where "s1 = pickFreeTunAddress a s"
  define cs where "cs = (if node = [] \<and> avoid \<noteq> [] then dropCandidate cands avoid else cands)"
  have i1: "inner s s1" by (simp add: s1_def pickFreeTunAddress_inner)
  note eq = assms [unfolded startConnect_def Let_def Inr nc sum.case prod.case, folded s1_def cs_def]
  show ?thesis
  proof (cases "node = [] \<and> avoid \<noteq> [] \<and> length cs = 0")
    case True
    then show ?thesis using eq i1 by (auto simp: start_outcome_def)
  next
    case False
    obtain pr s2 where p: "prepareProtection a s1 = (pr, s2)" by (cases "prepareProtection a s1")
    have i2: "inner s s2" using i1 prepareProtection_inner [OF p] by (rule inner_trans)
    show ?thesis
    proof (cases pr)
      case (Some m)
      then show ?thesis using eq False i2 by (auto simp: start_outcome_def p)
    next
      case None
      obtain tr s3 where t: "teardown a ''connecting'' (profile.ID p) [] s2 = (tr, s3)"
        by (cases "teardown a ''connecting'' (profile.ID p) [] s2")
      note tc = teardown_cases [OF t]
      show ?thesis
      proof (cases tr)
        case (Some m)
        then show ?thesis using eq False i2 tc unfolding p \<open>pr = None\<close> prod.case option.case t
          by (auto simp: start_outcome_def intro!: exI [of _ s2])
      next
        case None
        have "r = None" "s' = launch a p (walk_order a p cs node auto s2)
            (resolveMultihop (pf_routing (the_prefs s2)) (pf_multihop (the_prefs s)) (serverTags p)) (pf_tun (the_prefs s2))
            rem explicit s3"
          using eq False unfolding p \<open>pr = None\<close> prod.case option.case t None by auto
        moreover have "torn s2 s3" "\<not> ss_armed s3" using tc None by simp_all
        ultimately show ?thesis using launch_outcome [OF i2] by (simp add: start_outcome_def)
      qed
    qed
  qed
qed

section \<open>The phase is what runs\<close>

fun off_start :: "parked \<Rightarrow> bool" where
  "off_start (Autoconnect g p n) = True"
| "off_start p = False"

fun relaunch :: "parked \<Rightarrow> bool" where
  "relaunch (Relaunch g p n) = True"
| "relaunch p = False"

lemma off_start_no_relaunch: "off_start p \<Longrightarrow> \<not> relaunch p"
  by (cases p) simp_all

text \<open>
  A walk in flight is the current one and the phase is connecting; a watched connection is the current one and its
  process runs; every process has a walk or a watcher; an idle daemon has nothing left; and no goroutine waits for
  a later generation, nor, but for the daemon's own start, for the current one while a walk is in flight, nor a
  relaunch for the current one while its connection is watched.
\<close>

definition orderly :: "'b session \<Rightarrow> bool" where
  "orderly s \<longleftrightarrow>
     (\<forall>w. ss_walk s = Some w \<longrightarrow> if_gen w = ss_gen s \<and> FlProfile (if_loop w) = r_Profile (the_state s) \<and>
        r_State (the_state s) = ''connecting'' \<and> ss_life s = None) \<and>
     (\<forall>l. ss_life s = Some l \<longrightarrow> li_gen l = ss_gen s \<and> li_profile l = r_Profile (the_state s) \<and> ss_running s) \<and>
     (ss_running s \<longrightarrow> ss_walk s \<noteq> None \<or> ss_life s \<noteq> None) \<and>
     (r_State (the_state s) = ''connecting'' \<longrightarrow> ss_walk s \<noteq> None) \<and>
     (r_State (the_state s) = ''idle'' \<longrightarrow> ss_walk s = None \<and> ss_life s = None \<and> \<not> ss_armed s) \<and>
     (\<forall>p\<in>set (ss_parked s). parked_gen p \<le> ss_gen s \<and>
        (ss_walk s \<noteq> None \<longrightarrow> parked_gen p = ss_gen s \<longrightarrow> off_start p) \<and>
        (ss_life s \<noteq> None \<longrightarrow> parked_gen p = ss_gen s \<longrightarrow> \<not> relaunch p))"

lemma orderly_inner:
  "same_tunnel s s' \<Longrightarrow> set (ss_parked s') \<subseteq> set (ss_parked s) \<Longrightarrow> orderly s \<Longrightarrow> orderly s'"
  by (auto simp: orderly_def same_tunnel_def connection_def subset_iff)

text \<open>With nothing in flight and nothing running, any phase but connecting and idle is in order.\<close>

lemma orderly_stopped:
  "ss_walk s = None \<Longrightarrow> ss_life s = None \<Longrightarrow> \<not> ss_running s \<Longrightarrow> r_State (the_state s) \<notin> {''connecting'', ''idle''} \<Longrightarrow>
   \<forall>p\<in>set (ss_parked s). parked_gen p \<le> ss_gen s \<Longrightarrow> orderly s"
  by (simp add: orderly_def)

lemma orderly_setState:
  "orderly s \<Longrightarrow> ss_walk s = None \<Longrightarrow> p = r_Profile (the_state s) \<or> ss_life s = None \<Longrightarrow>
   st \<notin> {''connecting'', ''idle''} \<Longrightarrow> orderly (setState a st p n e r s)"
  by (auto simp: orderly_def)

lemma torn_orderly:
  assumes "torn s0 s1" "same_tunnel s s0" "set (ss_parked s0) \<subseteq> set (ss_parked s)" "orderly s"
    "r_State (the_state s1) = ''error'' \<or> r_State (the_state s1) = ''idle'' \<and> \<not> ss_armed s1"
  shows "orderly s1"
proof -
  have "parked_gen q \<le> ss_gen s1" if "q \<in> set (ss_parked s1)" for q
  proof -
    have "q \<in> set (ss_parked s)" using that assms(1,3) by (auto simp: torn_def)
    then have "parked_gen q \<le> ss_gen s" using assms(4) by (simp add: orderly_def)
    then show ?thesis using assms(1,2) by (simp add: torn_def same_tunnel_def)
  qed
  moreover have "ss_walk s1 = None" "ss_life s1 = None" "\<not> ss_running s1" using assms(1) by (simp_all add: torn_def)
  ultimately show ?thesis using assms(5) by - (erule disjE, simp_all add: orderly_def)
qed

lemma started_orderly:
  assumes "startConnect a p explicit auto rem avoid s = (r, s')" "orderly s"
  shows "orderly s' \<and> (ss_walk s = None \<longrightarrow> r \<noteq> None \<longrightarrow> ss_walk s' = None) \<and>
    (r \<noteq> None \<longrightarrow> ss_life s' = None \<or> ss_life s' = ss_life s \<and> r_Profile (the_state s') = r_Profile (the_state s))"
proof -
  note o = startConnect_cases [OF assms(1), unfolded start_outcome_def]
  show ?thesis
  proof (cases r)
    case None
    then have l: "launched s s' p" using o by simp
    have par: "parked_gen q \<le> ss_gen s" if "q \<in> set (ss_parked s)" for q
      using assms(2) that by (simp add: orderly_def)
    obtain w where "ss_walk s' = Some w" "if_gen w = ss_gen s'" "FlProfile (if_loop w) = r_Profile (the_state s')"
      using l by (auto simp: launched_def connection_def)
    moreover have "r_State (the_state s') = ''connecting''" using l by (simp add: launched_def connection_def)
    moreover have "parked_gen q \<le> ss_gen s' \<and> parked_gen q \<noteq> ss_gen s'" if "q \<in> set (ss_parked s')" for q
      using par [of q] that l by (simp add: launched_def)
    moreover have "ss_life s' = None" using l by (simp add: launched_def)
    ultimately show ?thesis using None by (simp add: orderly_def)
  next
    case (Some e)
    show ?thesis
    proof (cases "\<exists>m. e = Cleanup m")
      case True
      then obtain m s0 where "inner s s0" "torn s0 s'" "r_State (the_state s') = ''error''"
        using o Some by (auto simp: connection_def)
      then show ?thesis using torn_orderly [of s0 s' s] assms(2) by (auto simp: inner_def torn_def)
    next
      case False
      then have "inner s s'" using o Some by (cases e) simp_all
      then show ?thesis using orderly_inner [of s s'] assms(2) by (auto simp: inner_def same_tunnel_def connection_def)
    qed
  qed
qed

subsection \<open>Every step keeps the order\<close>

lemma remember_conn_fields [simp]:
  "ss_gen (remember_conn a p n s) = ss_gen s" "ss_relaunches (remember_conn a p n s) = ss_relaunches s"
  "ss_running (remember_conn a p n s) = ss_running s" "ss_armed (remember_conn a p n s) = ss_armed s"
  "ss_walk (remember_conn a p n s) = ss_walk s" "ss_life (remember_conn a p n s) = ss_life s"
  "ss_parked (remember_conn a p n s) = ss_parked s" "ss_live (remember_conn a p n s) = ss_live s"
  "the_state (remember_conn a p n s) = the_state s" "the_guard (remember_conn a p n s) = the_guard s"
  "ds_profiles (ss_d (remember_conn a p n s)) = ds_profiles (ss_d s)"
  by (simp_all add: remember_conn_def Let_def)

lemma put_switch_fields [simp]:
  "ss_gen (put_switch a rem r s) = ss_gen s" "ss_relaunches (put_switch a rem r s) = ss_relaunches s"
  "ss_running (put_switch a rem r s) = ss_running s" "ss_armed (put_switch a rem r s) = ss_armed s"
  "ss_walk (put_switch a rem r s) = ss_walk s" "ss_life (put_switch a rem r s) = ss_life s"
  "ss_parked (put_switch a rem r s) = ss_parked s" "r_State (the_state (put_switch a rem r s)) = ''connected''"
  "r_Profile (the_state (put_switch a rem r s)) = StProfile r"
  by (simp_all add: put_switch_def Let_def)

lemma put_switch_orderly:
  assumes "orderly s" "r_State (the_state s) = ''connected''" "StProfile r = r_Profile (the_state s)"
  shows "orderly (put_switch a rem r s)"
  using assms by (auto simp: orderly_def)

lemma phase_connected: "phase_of st = Connected \<longleftrightarrow> st = ''connected''"
  by (simp add: phase_of_def)

lemma recovery_of_fields [simp]:
  "Generation (recovery_of s) = ss_gen s" "Phase (recovery_of s) = phase_of (r_State (the_state s))"
  "StProfile (recovery_of s) = r_Profile (the_state s)" "StNode (recovery_of s) = r_Node (the_state s)"
  by (simp_all add: recovery_of_def)

lemma allowAutoRecovery_current:
  assumes "allowAutoRecovery pol now gen pid nid r = (True, r')"
  shows "Generation r = gen \<and> Phase r = Connected \<and> Generation r' = gen \<and> Phase r' = Connected \<and> StProfile r' = StProfile r \<and>
    StProfile r = pid \<and> StNode r' = StNode r"
  using assms by (auto simp: allowAutoRecovery_def Let_def split: if_splits)

lemma switchNode_connected:
  "switchNode f b c p pid nid rem cur st = Some (True, st', cur') \<Longrightarrow> Phase st = Connected \<and> StProfile st = pid \<and> StProfile st' = pid"
  by (auto simp: switchNode_def liveSwitchTarget_def commitSwitch_def Let_def split: option.splits if_splits bool.splits prod.splits)

lemma autoSwitch_connected:
  assumes "autoSwitchAway_locked pol now now' f b c p gen pid deg dest cur st = Some (Succeeded, st', cur')"
  shows "Phase st = Connected \<and> Generation st = gen \<and> StProfile st' = pid"
proof -
  obtain ok r where al: "allowAutoRecovery pol now gen pid deg st = (ok, r)" by (cases "allowAutoRecovery pol now gen pid deg st")
  have ok using assms by (auto simp: autoSwitchAway_locked_def al split: if_splits)
  moreover obtain st1 c1 where "switchNode f b c p pid dest False cur r = Some (True, st1, c1)" "st' = recordAutoSwitch now' st1"
    using assms \<open>ok\<close> by (auto simp: autoSwitchAway_locked_def al split: if_splits option.splits bool.splits)
  then have "StProfile st' = pid" using switchNode_connected [of f b c p pid dest False cur r st1 c1] by (simp add: recordAutoSwitch_def)
  ultimately show ?thesis using allowAutoRecovery_current [of pol now gen pid deg st r] al by simp
qed

lemma healthFailover_connected:
  assumes "healthFailover pol now p gen pid nid st = (FailoverStarted, st')"
  shows "Phase st = Connected \<and> Generation st = gen"
proof -
  obtain ok r where al: "allowAutoRecovery pol now gen pid nid st = (ok, r)" by (cases "allowAutoRecovery pol now gen pid nid st")
  have ok using assms by (auto simp: healthFailover_def al split: if_splits)
  then show ?thesis using allowAutoRecovery_current [of pol now gen pid nid st r] al by simp
qed

lemma not_connecting_no_walk: "orderly s \<Longrightarrow> r_State (the_state s) \<noteq> ''connecting'' \<Longrightarrow> ss_walk s = None"
  by (cases "ss_walk s") (auto simp: orderly_def)

lemma orderly_no_walk:
  assumes "orderly s" "ss_walk s = None" "ss_walk s' = None" "ss_gen s' = ss_gen s" "ss_running s' = ss_running s"
    "ss_life s' = ss_life s" "\<forall>p\<in>set (ss_parked s'). p \<in> set (ss_parked s) \<or> parked_gen p \<le> ss_gen s \<and> \<not> relaunch p" "r_State (the_state s') \<notin> {''connecting'', ''idle''}"
    "r_Profile (the_state s') = r_Profile (the_state s)"
  shows "orderly s'"
  using assms unfolding orderly_def by auto

lemma orderly_parked: "orderly s \<Longrightarrow> \<forall>p\<in>set (ss_parked s). parked_gen p \<le> ss_gen s"
  by (simp add: orderly_def)

lemma walk_up_orderly:
  assumes "orderly s"
  shows "orderly (walk_up a nid sel s)"
proof (cases "ss_walk s")
  case None
  then show ?thesis using assms by (simp add: walk_up_def)
next
  case (Some w)
  show ?thesis
  proof (cases "\<not> isCurrent (if_gen w) s \<or> nid \<notin> attempt.NodeID ` set (if_order w) \<or> \<not> ss_running s")
    case True
    then show ?thesis using assms by (simp add: walk_up_def Some)
  next
    case False
    obtain gr s1 where g: "local_gates a w s = (gr, s1)" by (cases "local_gates a w s")
    have gates: "ss_gen s1 = ss_gen s \<and> ss_running s1 = ss_running s \<and> ss_walk s1 = ss_walk s \<and> ss_life s1 = ss_life s \<and>
        ss_parked s1 = ss_parked s \<and> connection (the_state s1) = connection (the_state s)"
    proof -
      obtain ar s2 where ac: "activateProtectionLocked a (FlRouting (if_loop w)) (FlTun (if_loop w)) s = (ar, s2)"
        by (cases "activateProtectionLocked a (FlRouting (if_loop w)) (FlTun (if_loop w)) s")
      then have "inner s s2" by (rule activate_inner)
      then show ?thesis using g ac
        by (auto simp: local_gates_def inner_def same_tunnel_def split: option.splits if_splits)
    qed
    note par = orderly_parked [OF assms]
    have life: "ss_life s = None" "if_gen w = ss_gen s" using assms Some by (simp_all add: orderly_def)
    have quiet: "\<forall>p\<in>set (ss_parked s). parked_gen p = ss_gen s \<longrightarrow> \<not> relaunch p"
      using assms Some off_start_no_relaunch by (auto simp: orderly_def)
    show ?thesis
    proof (cases gr)
      case (Some err)
      then show ?thesis
        using False g gates par life by (intro orderly_stopped) (simp_all add: walk_up_def \<open>ss_walk s = Some w\<close> interrupted_def Let_def)
    next
      case None
      define s2 where "s2 = publish_session a w nid sel s1"
      have eq: "walk_up a nid sel s = s2" using False g None by (simp add: walk_up_def Some s2_def)
      have "ss_gen s2 = ss_gen s" "ss_running s2" "ss_walk s2 = None" "r_State (the_state s2) = ''connected''"
        "\<exists>l. ss_life s2 = Some l \<and> li_gen l = ss_gen s \<and> li_profile l = r_Profile (the_state s2)" "\<forall>p\<in>set (ss_parked s2). parked_gen p \<le> ss_gen s \<and> (parked_gen p = ss_gen s \<longrightarrow> \<not> relaunch p)"
        using gates False life par quiet
        by (auto simp: s2_def publish_session_def reconcileConnectingOptions_def isCurrent_def Let_def split: option.splits)
      then show ?thesis unfolding eq by (auto simp: orderly_def)
    qed
  qed
qed

lemma walk_ends_orderly: "orderly s \<Longrightarrow> orderly (walk_ends a msg s)"
proof (cases "ss_walk s")
  case (Some w)
  assume o: "orderly s"
  then have "ss_life s = None" using Some by (simp add: orderly_def)
  then show ?thesis using orderly_parked [OF o]
    by (intro orderly_stopped) (simp_all add: walk_ends_def Some Let_def)
qed (simp add: walk_ends_def)

lemma walk_process_orderly: "orderly s \<Longrightarrow> orderly (walk_process up s)"
  by (cases "ss_walk s") (auto simp: walk_process_def orderly_def)


lemma killSwitchRelaunch_fields:
  assumes "killSwitchRelaunch gen pid nid up s = (won, s')"
  shows "ss_d s' = ss_d s \<and> ss_gen s' = ss_gen s \<and> ss_running s' = ss_running s \<and> ss_armed s' = ss_armed s \<and>
    ss_walk s' = ss_walk s \<and> ss_life s' = ss_life s \<and>
    ss_parked s' = ss_parked s @ (if won then
      [Relaunch gen (the (Get (ds_profiles (ss_d s)) pid)) nid] else [])"
  using assms by (auto simp: killSwitchRelaunch_def Let_def split: option.splits if_splits)

lemma process_exits_orderly:
  assumes "orderly s"
  shows "orderly (process_exits a err s)"
proof (cases "ss_life s")
  case None
  then show ?thesis using assms by (simp add: process_exits_def)
next
  case (Some l)
  have cur: "li_gen l = ss_gen s" "ss_walk s = None" "r_State (the_state s) \<noteq> ''idle''" "r_State (the_state s) \<noteq> ''connecting''"
    using assms Some unfolding orderly_def by (cases "ss_walk s"; auto)+
  define s1 where "s1 = interrupted (s\<lparr>ss_running := False, ss_life := None\<rparr>)"
  obtain dr s2 where d: "disarm a s1 = (dr, s2)" by (cases "disarm a s1")
  define nid where "nid = live_node (li_node l) (s\<lparr>ss_running := False, ss_life := None\<rparr>)"
  obtain won s3 where k: "killSwitchRelaunch (li_gen l) (li_profile l) nid (an_now a - li_since l) s2 = (won, s3)"
    by (cases "killSwitchRelaunch (li_gen l) (li_profile l) nid (an_now a - li_since l) s2")
  have s1: "ss_walk s1 = None" "ss_life s1 = None" "\<not> ss_running s1" "ss_gen s1 = ss_gen s" "ss_parked s1 = ss_parked s"
      "the_state s1 = the_state s" by (simp_all add: s1_def interrupted_def cur)
  have s2: "ss_walk s2 = None" "ss_life s2 = None" "\<not> ss_running s2" "ss_gen s2 = ss_gen s" "ss_parked s2 = ss_parked s"
      "the_state s2 = the_state s" using d s1 by (cases rule: disarm_cases; simp)+
  note k3 = killSwitchRelaunch_fields [OF k]
  have par: "\<forall>p\<in>set (ss_parked s3). parked_gen p \<le> ss_gen s"
    using k3 s2 orderly_parked [OF assms] cur by auto
  have eq: "process_exits a err s = (if won then s3 else
      setState a ''error'' (li_profile l) nid (case dr of None \<Rightarrow> (case err of None \<Rightarrow> ''sing-box exited'' | Some m \<Rightarrow> m)
        | Some m \<Rightarrow> (case err of None \<Rightarrow> ''sing-box exited'' | Some m \<Rightarrow> m) @ ''; system proxy restore failed: '' @ m)
        (r_Routing (the_state s3)) s3)"
    using d k unfolding s1_def nid_def by (simp add: process_exits_def Some isCurrent_def cur Let_def)
  show ?thesis unfolding eq using k3 s2 par cur by (auto intro!: orderly_stopped)
qed

lemma run_parked_orderly:
  assumes "orderly s" "ss_walk s = None \<or> off_start p \<or> parked_gen p \<noteq> ss_gen s"
    "ss_life s = None \<or> \<not> relaunch p \<or> parked_gen p \<noteq> ss_gen s"
  shows "orderly (run_parked a p s)"
proof (cases p)
  case (Relaunch gen pr nid)
  show ?thesis
  proof (cases "gen = ss_gen s")
    case True
    obtain r s1 where st: "startConnect a pr nid False False [] s = (r, s1)" by (cases "startConnect a pr nid False False [] s")
    have "ss_walk s = None" "ss_life s = None" using assms(2,3) True by (simp_all add: Relaunch)
    then have "r \<noteq> None \<longrightarrow> ss_life s1 = None" "r \<noteq> None \<longrightarrow> ss_walk s1 = None" "orderly s1"
      using started_orderly [OF st assms(1)] by auto
    then have "orderly (setState a ''error'' q n m rt s1)" if "r \<noteq> None" for q n m rt
      using that by (intro orderly_setState) simp_all
    then show ?thesis using \<open>orderly s1\<close> True st by (cases r) (simp_all add: Relaunch isCurrent_def)
  next
    case False
    then show ?thesis using assms(1) by (simp add: Relaunch isCurrent_def)
  qed
next
  case (Reconcile gen pr nid)
  then show ?thesis
    using assms(1) started_orderly [of a pr nid False False "[]" s] by (cases "startConnect a pr nid False False [] s") simp
next
  case (Autoconnect gen pr nid)
  then show ?thesis
    using assms(1) started_orderly [of a pr nid False False "[]" s] by (cases "startConnect a pr nid False False [] s") simp
next
  case (Failover gen pid nid)
  obtain ok r where al: "allowAutoRecovery default_policy (an_now a) gen pid nid (recovery_of s) = (ok, r)"
    by (cases "allowAutoRecovery default_policy (an_now a) gen pid nid (recovery_of s)")
  define s1 where "s1 = put_budget r s"
  have o1: "orderly s1" using orderly_inner [of s s1] assms(1) by (simp add: s1_def same_tunnel_def put_budget_def)
  show ?thesis
  proof (cases "\<not> ok \<or> live_node [] s1 \<noteq> nid \<or> Get (ds_profiles (ss_d s1)) pid = None")
    case True
    then show ?thesis using o1 al by (auto simp: Failover s1_def Let_def)
  next
    case False
    then obtain latest where g: "Get (ds_profiles (ss_d s1)) pid = Some latest" by auto
    have cur: "r_State (the_state s) = ''connected'' \<and> r_Profile (the_state s) = pid"
      using allowAutoRecovery_current [of default_policy "an_now a" gen pid nid "recovery_of s" r] al False
      by (simp add: phase_connected)
    then have w: "ss_walk s1 = None" using not_connecting_no_walk [OF assms(1)] by (simp add: s1_def)
    have pid: "r_Profile (the_state s1) = pid" using cur by (simp add: s1_def)
    define s2 where "s2 = setState a ''health_reconnecting'' pid nid [] (r_Routing (the_state s1)) (s1\<lparr>ss_switches := ss_switches s1 @ [an_now a]\<rparr>)"
    have o2: "orderly s2"
    proof -
      have "orderly (s1\<lparr>ss_switches := ss_switches s1 @ [an_now a]\<rparr>)" using o1 by (simp add: orderly_def)
      then show ?thesis using w pid unfolding s2_def by (intro orderly_setState) simp_all
    qed
    have w2: "ss_walk s2 = None" "r_Profile (the_state s2) = pid" using w by (simp_all add: s2_def)
    obtain sr s3 where st: "startConnect a latest [] False False nid s2 = (sr, s3)" by (cases "startConnect a latest [] False False nid s2")
    note so = started_orderly [OF st o2]
    have eq: "run_parked a p s = (case sr of None \<Rightarrow> s3 | Some err \<Rightarrow> setState a ''connected'' pid nid [] [] s3)"
      using al False g st unfolding s2_def s1_def by (simp add: Failover Let_def)
    have "orderly (setState a ''connected'' pid nid [] [] s3)" if "sr \<noteq> None"
      using so w2 that by (intro orderly_setState) auto
    then show ?thesis unfolding eq using so by (cases sr) simp_all
  qed
qed

lemma parked_runs_orderly:
  assumes "orderly s"
  shows "orderly (parked_runs a i s)"
proof (cases "i < length (ss_parked s)")
  case True
  define s1 where "s1 = s\<lparr>ss_parked := take i (ss_parked s) @ drop (Suc i) (ss_parked s)\<rparr>"
  have sub: "set (ss_parked s1) \<subseteq> set (ss_parked s)" using set_take_subset set_drop_subset by (fastforce simp: s1_def)
  have "orderly s1" by (rule orderly_inner [OF _ sub assms]) (simp add: s1_def same_tunnel_def)
  moreover have "ss_walk s1 = None \<or> off_start (ss_parked s ! i) \<or> parked_gen (ss_parked s ! i) \<noteq> ss_gen s1"
    using assms nth_mem [OF True] by (auto simp: orderly_def s1_def)
  moreover have "ss_life s1 = None \<or> \<not> relaunch (ss_parked s ! i) \<or> parked_gen (ss_parked s ! i) \<noteq> ss_gen s1"
    using assms nth_mem [OF True] by (auto simp: orderly_def s1_def)
  ultimately show ?thesis using run_parked_orderly [of s1 "ss_parked s ! i" a] True by (simp add: parked_runs_def s1_def)
qed (simp add: parked_runs_def assms)

lemma put_budget_orderly: "orderly s \<Longrightarrow> orderly (put_budget r s)"
  by (rule orderly_inner [of s]) (simp_all add: same_tunnel_def put_budget_def)

lemma health_failover_orderly:
  assumes "orderly s"
  shows "orderly (health_failover a s)"
proof -
  let ?pid = "r_Profile (the_state s)" and ?nid = "live_node [] s"
  obtain res r where h: "healthFailover default_policy (an_now a) (Get (ds_profiles (ss_d s)) ?pid) (ss_gen s) ?pid ?nid
      (recovery_of s) = (res, r)" by (cases "healthFailover default_policy (an_now a) (Get (ds_profiles (ss_d s)) ?pid) (ss_gen s) ?pid ?nid (recovery_of s)")
  show ?thesis
  proof (cases "res = FailoverStarted")
    case True
    have con: "r_State (the_state s) = ''connected''"
      using healthFailover_connected [of default_policy "an_now a" _ "ss_gen s" ?pid ?nid "recovery_of s" r] h True
      by (simp add: phase_connected)
    have w: "ss_walk s = None" using not_connecting_no_walk [OF assms] con by simp
    have eq: "health_failover a s = (put_budget r s)\<lparr>ss_parked := ss_parked s @ [Failover (ss_gen s) ?pid ?nid]\<rparr>"
      using h True by (simp add: health_failover_def Let_def)
    show ?thesis unfolding eq
      by (rule orderly_no_walk [OF assms w]) (use w con orderly_parked [OF assms] in \<open>auto simp: put_budget_def\<close>)
  next
    case False
    then show ?thesis using h put_budget_orderly [OF assms] by (simp add: health_failover_def Let_def)
  qed
qed

lemma auto_switch_orderly:
  assumes "orderly s"
  shows "orderly (auto_switch a dest s)"
proof -
  let ?pid = "r_Profile (the_state s)" and ?nid = "live_node [] s"
  define res where "res = autoSwitchAway_locked default_policy (an_now a) (an_now a) (fst (an_select a)) (snd (an_select a))
                (Some (an_confirmed a)) (Get (ds_profiles (ss_d s)) ?pid) (ss_gen s) ?pid ?nid dest [] (recovery_of s)"
  have eq: "auto_switch a dest s = (case res of None \<Rightarrow> s | Some (Succeeded, r, _) \<Rightarrow> put_switch a False r s
      | Some (_, r, _) \<Rightarrow> put_budget r s)" by (simp add: auto_switch_def res_def Let_def)
  show ?thesis
  proof (cases res)
    case None
    then show ?thesis using assms eq by simp
  next
    case (Some x)
    obtain sw r c where x: "x = (sw, r, c)" by (cases x)
    show ?thesis
    proof (cases sw)
      case Succeeded
      then have "r_State (the_state s) = ''connected'' \<and> StProfile r = r_Profile (the_state s)"
        using autoSwitch_connected [of default_policy "an_now a" "an_now a" _ _ _ _ _ ?pid ?nid dest "[]" "recovery_of s" r c]
          Some x unfolding res_def by (fastforce simp: phase_connected)
      then show ?thesis using put_switch_orderly [OF assms] by (simp add: eq Some x Succeeded)
    qed (use put_budget_orderly [OF assms] in \<open>simp_all add: eq Some x\<close>)
  qed
qed

lemma reapplyLive_orderly:
  assumes "orderly s"
  shows "orderly (reapplyLive a s)"
proof -
  let ?cur = "the_state s"
  show ?thesis
  proof (cases "r_State ?cur \<noteq> ''connected'' \<or> r_Profile ?cur = [] \<or> r_Node ?cur = [] \<or>
      Get (ds_profiles (ss_d s)) (r_Profile ?cur) = None")
    case True
    then show ?thesis using assms by (auto simp: reapplyLive_def Let_def)
  next
    case False
    then obtain p where p: "Get (ds_profiles (ss_d s)) (r_Profile ?cur) = Some p" by auto
    obtain r s1 where st: "startConnect a p (r_Node ?cur) False False [] s = (r, s1)"
      by (cases "startConnect a p (r_Node ?cur) False False [] s")
    have "ss_walk s = None" using False by (intro not_connecting_no_walk [OF assms]) simp
    then have so: "orderly s1" "r \<noteq> None \<longrightarrow> ss_walk s1 = None"
      "r \<noteq> None \<longrightarrow> ss_life s1 = None \<or> r_Profile (the_state s1) = r_Profile ?cur"
      using started_orderly [OF st assms] by auto
    then have "orderly (setState a ''error'' (r_Profile ?cur) n m rt s1)" if "r \<noteq> None" for n m rt
      using that by (intro orderly_setState) auto
    then show ?thesis using False p st so(1) by (cases r) (simp_all add: reapplyLive_def Let_def)
  qed
qed

lemma handle_set_connection:
  assumes "handle_set e c d = (ans, d')"
  shows "connection (ds_reported d') = connection (ds_reported d) \<and> ds_profiles d' = ds_profiles d"
proof -
  have ap: "connection (applySettingsToState v p r) = connection r" for v p r
    by (simp add: applySettingsToState_def connection_def Let_def)
  from handle_set_cases [OF assms] show ?thesis
    unfolding outcome_def
  proof (elim disjE exE conjE)
    fix d1 assume st: "stored e c d ans d1" and d': "d' = persistSettings e d1"
    then show ?thesis by (cases c) (simp_all add: stored_def ap connection_def [of "_\<lparr>r_Routing := _\<rparr>"] connection_def [of "ds_reported d"])
  qed simp
qed

lemma settings_orderly:
  assumes "orderly s"
  shows "orderly (snd (settings_command a c s))"
proof -
  obtain ans d where h: "handle_set (an_env a) c (ss_d s) = (ans, d)" by (cases "handle_set (an_env a) c (ss_d s)")
  have "orderly (s\<lparr>ss_d := d\<rparr>)"
    using handle_set_connection [OF h] by (intro orderly_inner [OF _ _ assms]) (simp_all add: same_tunnel_def)
  then show ?thesis using reapplyLive_orderly [of "s\<lparr>ss_d := d\<rparr>" a]
    by (simp add: settings_command_def h Let_def split: answer.split bool.split)
qed

lemma user_switch_connected:
  assumes "user_switch a p node s = Some s'"
  shows "\<exists>r. s' = put_switch a True r s \<and> r_State (the_state s) = ''connected'' \<and> StProfile r = r_Profile (the_state s)"
proof -
  have "node \<noteq> []" using assms by (auto simp: user_switch_def)
  then obtain r c where sw: "switchNode (fst (an_select a)) (snd (an_select a)) (Some (an_confirmed a))
      (Get (ds_profiles (ss_d s)) (profile.ID p)) (profile.ID p) node True [] (recovery_of s) = Some (True, r, c)"
    and s': "s' = put_switch a True r s"
    using assms by (auto simp: user_switch_def split: option.splits prod.splits bool.splits)
  have "Phase (recovery_of s) = Connected \<and> StProfile r = r_Profile (the_state s)" using switchNode_connected [OF sw] by simp
  then show ?thesis using s' by (auto simp: phase_connected)
qed

lemma handleConnect_orderly:
  assumes "orderly s"
  shows "orderly (snd (handleConnect a pid node auto ov s))"
proof (cases "connect_profile pid s")
  case (Inl r)
  then show ?thesis using assms by (simp add: handleConnect_def)
next
  case (Inr p)
  show ?thesis
  proof (cases "user_switch a p node s")
    case (Some s1)
    then show ?thesis using user_switch_connected [OF Some] put_switch_orderly [OF assms]
      by (auto simp: handleConnect_def Inr)
  next
    case None
    define s1 where "s1 = (raiseZapretForConnect a s)\<lparr>ss_relaunches := 0\<rparr>"
    have "inner s (raiseZapretForConnect a s)" by (rule raiseZapret_inner)
    then have o1: "orderly s1"
      by (intro orderly_inner [OF _ _ assms]) (simp_all add: s1_def inner_def same_tunnel_def)
    obtain r s2 where st: "startConnect a p node auto True [] s1 = (r, s2)" by (cases "startConnect a p node auto True [] s1")
    show ?thesis
      using assms started_orderly [OF st o1] st
      by (simp add: handleConnect_def Inr None s1_def [symmetric] Let_def split: option.split)
  qed
qed

lemma handleDisconnect_torn:
  assumes "handleDisconnect a s = (errs, s')"
  obtains s1 where "torn (s\<lparr>ss_relaunches := 0\<rparr>) s1" "inner s1 s'"
    "r_State (the_state s1) = ''error'' \<or> r_State (the_state s1) = ''idle'' \<and> \<not> ss_armed s1"
proof -
  let ?s = "s\<lparr>ss_relaunches := 0\<rparr>"
  obtain r s1 where t: "teardown a ''idle'' [] [] ?s = (r, s1)" by (cases "teardown a ''idle'' [] [] ?s")
  obtain r2 s2 where g: "release_guard a s1 = (r2, s2)" by (cases "release_guard a s1")
  have "s' = s2" using assms t g by (simp add: handleDisconnect_def Let_def)
  moreover have "torn ?s s1" "r_State (the_state s1) = ''error'' \<or> r_State (the_state s1) = ''idle'' \<and> \<not> ss_armed s1"
    using teardown_cases [OF t] by (auto simp: connection_def split: option.splits)
  ultimately show ?thesis using that release_guard_inner [OF g] by blast
qed

lemma handleDisconnect_orderly:
  assumes "orderly s"
  shows "orderly (snd (handleDisconnect a s))"
proof -
  obtain errs s' where h: "handleDisconnect a s = (errs, s')" by (cases "handleDisconnect a s")
  from handleDisconnect_torn [OF h] obtain s1 where t: "torn (s\<lparr>ss_relaunches := 0\<rparr>) s1" "inner s1 s'"
    "r_State (the_state s1) = ''error'' \<or> r_State (the_state s1) = ''idle'' \<and> \<not> ss_armed s1" by blast
  have "orderly s1" by (rule torn_orderly [OF t(1) _ _ assms t(3)]) (simp_all add: same_tunnel_def)
  then show ?thesis using t(2) orderly_inner [of s1 s'] by (simp add: h inner_def)
qed

lemma autoconnect_orderly:
  assumes "orderly s"
  shows "orderly (snd (AutoconnectOnStart a s))"
proof -
  have i: "inner s (raiseZapretForConnect a s)" by (rule raiseZapret_inner)
  have "orderly ((raiseZapretForConnect a s)\<lparr>ss_parked := ss_parked (raiseZapretForConnect a s) @ [Autoconnect (ss_gen s) p n]\<rparr>)"
    for p n
  proof -
    have o1: "orderly (raiseZapretForConnect a s)" using i by (intro orderly_inner [OF _ _ assms]) (simp_all add: inner_def)
    have "ss_gen (raiseZapretForConnect a s) = ss_gen s" using i by (simp add: inner_def same_tunnel_def)
    then show ?thesis using o1 by (simp add: orderly_def)
  qed
  then show ?thesis using assms by (simp add: AutoconnectOnStart_def Let_def split: option.split)
qed

theorem session_step_orderly: "orderly s \<Longrightarrow> orderly (session_step a ev s)"
  by (cases ev) (simp_all add: handleConnect_orderly handleDisconnect_orderly settings_orderly reapplyLive_orderly
      autoconnect_orderly walk_process_orderly walk_up_orderly walk_ends_orderly process_exits_orderly parked_runs_orderly
      health_failover_orderly auto_switch_orderly)

lemma session_run_orderly: "orderly s \<Longrightarrow> orderly (session_run evs s)"
proof (induction evs arbitrary: s)
  case (Cons e evs)
  then show ?case by (cases e) (simp add: session_step_orderly)
qed simp

lemma new_session_orderly: "r_State (ds_reported d) = ''idle'' \<Longrightarrow> orderly (new_session d)"
  by (simp add: new_session_def orderly_def)

end
