(* ===== verification/Session_Guard.thy ===== *)
theory Session_Guard
  imports Session_Props
begin

text \<open>
  The host guard under the session: whatever the session does to the guard and the filter engine is a run of the
  guard's own steps, so the guard's invariant holds in every session, and a connection announced under the kill
  switch stands behind the policy of its tunnel.
\<close>

section \<open>The session's steps are runs of the guard's\<close>

definition trusts :: "'b backend set \<Rightarrow> 'b answers \<Rightarrow> bool" where
  "trusts BE a \<longleftrightarrow> (\<forall>be. se_backend (an_env a) = Some be \<longrightarrow> be \<in> BE)"

definition guard_run :: "'b backend set \<Rightarrow> 'b daemon_settings \<Rightarrow> 'b daemon_settings \<Rightarrow> bool" where
  "guard_run BE d d' \<longleftrightarrow> (gstep BE)\<^sup>*\<^sup>* (ds_guard d, ds_kernel d, pc.Idle) (ds_guard d', ds_kernel d', pc.Idle)"

lemma guard_run_same: "ds_guard d' = ds_guard d \<Longrightarrow> ds_kernel d' = ds_kernel d \<Longrightarrow> guard_run BE d d'"
  by (simp add: guard_run_def)

lemma guard_run_trans: "guard_run BE d d' \<Longrightarrow> guard_run BE d' d'' \<Longrightarrow> guard_run BE d d''"
  unfolding guard_run_def by (rule rtranclp_trans)

lemma guard_run_refl [simp]: "guard_run BE d d"
  by (rule guard_run_same) simp_all

lemma reject_run: "guard_run BE d (d\<lparr>ds_guard := snd (Reject e (ds_guard d))\<rparr>)"
  using step_then_run [OF start_reject run_fail] by (simp add: guard_run_def Reject_def)

lemma accepted_run: "guard_run BE d (d\<lparr>ds_guard := Accepted (ds_guard d)\<rparr>)"
  using step_run [OF accepted] by (simp add: guard_run_def)

lemma interrupted_run: "guard_run BE d (d\<lparr>ds_guard := Interrupted (ds_guard d)\<rparr>)"
  using step_run [OF gstep.interrupted] by (simp add: guard_run_def)

lemma prepare_call_run:
  assumes "\<forall>be. bk = Some be \<longrightarrow> be \<in> BE" "Prepare bk (ds_guard d, ds_kernel d) = (r, g, k)"
  shows "guard_run BE d (d\<lparr>ds_guard := g, ds_kernel := k\<rparr>)"
proof (cases bk)
  case None
  then show ?thesis using assms(2) by (auto simp: guard_run_def Prepare_def prepare_def)
next
  case (Some be)
  then show ?thesis using assms Prepare_run [of be BE "ds_guard d" "ds_kernel d" r g k] by (simp add: guard_run_def)
qed

lemma verify_call_run:
  assumes "\<forall>be. bk = Some be \<longrightarrow> be \<in> BE" "VerifyTunnel bk n ad sp (ds_guard d, ds_kernel d) = (r, g, k)"
  shows "guard_run BE d (d\<lparr>ds_guard := g, ds_kernel := k\<rparr>)"
proof (cases bk)
  case None
  then show ?thesis using assms(2) by (auto simp: guard_run_def VerifyTunnel_def)
next
  case (Some be)
  then show ?thesis using assms VerifyTunnel_run [of be BE n ad sp "ds_guard d" "ds_kernel d" r g k] by (simp add: guard_run_def)
qed

lemma release_call_run:
  assumes "\<forall>be. bk = Some be \<longrightarrow> be \<in> BE" "Release bk (ds_guard d, ds_kernel d) = (r, g, k)"
  shows "guard_run BE d (d\<lparr>ds_guard := g, ds_kernel := k\<rparr>)"
proof (cases bk)
  case None
  then show ?thesis using assms(2) by (auto simp: guard_run_def Release_def)
next
  case (Some be)
  then show ?thesis using assms Release_run [of be BE "ds_guard d" "ds_kernel d" r g k] by (simp add: guard_run_def)
qed

abbreviation session_guard_run :: "'b backend set \<Rightarrow> 'b session \<Rightarrow> 'b session \<Rightarrow> bool" where
  "session_guard_run BE s s' \<equiv> guard_run BE (ss_d s) (ss_d s')"

lemma setState_guard_run [simp]: "session_guard_run BE s (setState a st p n e r s)"
  by (rule guard_run_same) simp_all

lemma setState_after: "session_guard_run BE s s' \<Longrightarrow> session_guard_run BE s (setState a st p n e r s')"
  by (rule guard_run_trans [OF _ setState_guard_run])

lemma prepareProtection_run:
  assumes "trusts BE a" "prepareProtection a s = (r, s')"
  shows "session_guard_run BE s s'"
proof -
  obtain pr g k where p: "Prepare (se_backend (an_env a)) (the_guard s, ds_kernel (ss_d s)) = (pr, g, k)"
    by (metis prod_cases3)
  have "session_guard_run BE s (on_d (\<lambda>d. d\<lparr>ds_guard := g, ds_kernel := k\<rparr>) s)"
    using prepare_call_run [OF assms(1) [unfolded trusts_def] p] by simp
  moreover have "session_guard_run BE s (on_d (\<lambda>d. d\<lparr>ds_guard := snd (Reject m (ds_guard d))\<rparr>) s)" for m
    using reject_run by simp
  ultimately show ?thesis
    using assms(2) p unfolding prepareProtection_def Let_def by (auto split: if_splits)
qed

lemma activate_run:
  assumes "trusts BE a" "activateProtectionLocked a ro tun s = (r, s')"
  shows "session_guard_run BE s s'"
proof -
  let ?n = "if InterfaceName tun = [] then an_tunname a else InterfaceName tun"
  obtain pr g k where p: "VerifyTunnel (se_backend (an_env a)) ?n (TunAddress tun) (IsSystemProxy tun)
      (the_guard s, ds_kernel (ss_d s)) = (pr, g, k)"
    by (metis prod_cases3)
  have "session_guard_run BE s (on_d (\<lambda>d. d\<lparr>ds_guard := g, ds_kernel := k\<rparr>) s)"
    using verify_call_run [OF assms(1) [unfolded trusts_def] p] by simp
  moreover have "session_guard_run BE s (on_d (\<lambda>d. d\<lparr>ds_guard := snd (Reject m (ds_guard d))\<rparr>) s)" for m
    using reject_run by simp
  ultimately show ?thesis
    using assms(2) p unfolding activateProtectionLocked_def Let_def by (auto split: if_split_asm)
qed

lemma interrupted_session_run [simp]: "session_guard_run BE s (interrupted s)"
  using interrupted_run by (simp add: interrupted_def)

lemma disarm_run: "disarm a s = (r, s') \<Longrightarrow> ss_d s' = ss_d s"
  by (erule disarm_cases) simp_all

lemma teardown_run:
  assumes "teardown a st pid nid s = (r, s')"
  shows "session_guard_run BE s s'"
proof -
  define s1 where "s1 = interrupted (s\<lparr>ss_gen := Suc (ss_gen s), ss_attempts := None, ss_live := None, ss_walk := None,
    ss_life := None, ss_running := False\<rparr>)"
  have t: "session_guard_run BE s s1"
    using interrupted_session_run [of BE "s\<lparr>ss_gen := Suc (ss_gen s), ss_attempts := None, ss_live := None, ss_walk := None,
    ss_life := None, ss_running := False\<rparr>"] by (simp add: s1_def)
  obtain dr s2 where d: "disarm a s1 = (dr, s2)" by (cases "disarm a s1")
  have "session_guard_run BE s s2" using t disarm_run [OF d] by simp
  then show ?thesis
    using assms d unfolding teardown_def Let_def s1_def [symmetric]
    by (auto intro: setState_after split: option.splits if_splits)
qed


lemma startConnect_run:
  assumes "trusts BE a" "startConnect a p explicit auto rem avoid s = (r, s')"
  shows "session_guard_run BE s s'"
proof (cases "connect_plan (pf_multihop (the_prefs s)) p explicit avoid")
  case (Inl err)
  then show ?thesis using assms(2) by (auto simp: startConnect_def)
next
  case (Inr nc)
  obtain node cands where nc: "nc = (node, cands)" by (cases nc)
  define s1 where "s1 = pickFreeTunAddress a s"
  define cs where "cs = (if node = [] \<and> avoid \<noteq> [] then dropCandidate cands avoid else cands)"
  have i1: "session_guard_run BE s s1" by (rule guard_run_same) (simp_all add: s1_def pickFreeTunAddress_def)
  note eq = assms(2) [unfolded startConnect_def Let_def Inr nc sum.case prod.case, folded s1_def cs_def]
  obtain pr s2 where p: "prepareProtection a s1 = (pr, s2)" by (cases "prepareProtection a s1")
  have i2: "session_guard_run BE s s2" using i1 prepareProtection_run [OF assms(1) p] by (rule guard_run_trans)
  obtain tr s3 where t: "teardown a ''connecting'' (profile.ID p) [] s2 = (tr, s3)"
    by (cases "teardown a ''connecting'' (profile.ID p) [] s2")
  have i3: "session_guard_run BE s s3" using i2 teardown_run [OF t] by (rule guard_run_trans)
  have la: "session_guard_run BE s (launch a p ord ro tun rm rq s3)" for ord ro tun rm rq
    unfolding launch_def Let_def by (rule setState_after) (use i3 in simp)
  show ?thesis using eq i1 i2 i3 la unfolding p prod.case t
    by (auto split: if_split_asm option.split_asm)
qed

lemma remember_run: "session_guard_run BE s (remember_conn a p n s)"
  by (rule guard_run_same) (simp_all add: remember_conn_def Let_def)

lemma put_switch_run: "session_guard_run BE s (put_switch a rem r s)"
  unfolding put_switch_def Let_def
  by (rule setState_after, rule guard_run_same) (simp_all add: remember_conn_def Let_def)

lemma publish_run: "session_guard_run BE s (publish_session a w nid sel s)"
proof -
  define s1 where "s1 = (let s = s\<lparr>ss_live := Some \<lparr>LcGen = if_gen w, LcProfile = FlProfile (if_loop w), LcTagOf = FlTags (if_loop w),
      LcSel = sel\<rparr>, ss_lastGood := (ss_lastGood s)(FlProfile (if_loop w) \<mapsto> nid)\<rparr>
    in if FlRemember (if_loop w) then remember_conn a (FlProfile (if_loop w)) (FlRequested (if_loop w)) s else s)"
  have "session_guard_run BE s s1"
    by (rule guard_run_same) (simp_all add: s1_def remember_conn_def Let_def)
  moreover have "session_guard_run BE s1 (on_d (\<lambda>d. d\<lparr>ds_guard := Accepted (ds_guard d)\<rparr>) s1)"
    using accepted_run by simp
  ultimately have "session_guard_run BE s (on_d (\<lambda>d. d\<lparr>ds_guard := Accepted (ds_guard d)\<rparr>) s1)" by (rule guard_run_trans)
  then show ?thesis
    unfolding publish_session_def Let_def s1_def
    by (auto simp: reconcileConnectingOptions_def Let_def intro!: setState_after split: option.split)
qed

lemma local_gates_run:
  assumes "trusts BE a" "local_gates a w s = (r, s')"
  shows "session_guard_run BE s s'"
proof -
  obtain ar s1 where ac: "activateProtectionLocked a (FlRouting (if_loop w)) (FlTun (if_loop w)) s = (ar, s1)"
    by (cases "activateProtectionLocked a (FlRouting (if_loop w)) (FlTun (if_loop w)) s")
  have "ss_d s' = ss_d s1" using assms(2) ac by (auto simp: local_gates_def split: option.splits if_splits)
  then show ?thesis using activate_run [OF assms(1) ac] by simp
qed

lemma walk_up_run:
  assumes "trusts BE a"
  shows "session_guard_run BE s (walk_up a nid sel s)"
proof (cases "ss_walk s")
  case (Some w)
  obtain gr s1 where g: "local_gates a w s = (gr, s1)" by (cases "local_gates a w s")
  note r1 = local_gates_run [OF assms g]
  have "session_guard_run BE s1 (interrupted (s1\<lparr>ss_running := False, ss_walk := None\<rparr>))"
    using interrupted_session_run [of BE "s1\<lparr>ss_running := False, ss_walk := None\<rparr>"] by simp
  then have "session_guard_run BE s (setState a st p n e r (interrupted (s1\<lparr>ss_running := False, ss_walk := None\<rparr>)))" for st p n e r
    using r1 by (intro setState_after) (rule guard_run_trans)
  moreover have "session_guard_run BE s (publish_session a w nid sel s1)" using r1 publish_run by (rule guard_run_trans)
  ultimately show ?thesis by (simp add: walk_up_def Some g Let_def split: option.split)
qed (simp add: walk_up_def)

lemma process_exits_run: "session_guard_run BE s (process_exits a err s)"
proof (cases "ss_life s")
  case (Some l)
  define s1 where "s1 = interrupted (s\<lparr>ss_running := False, ss_life := None\<rparr>)"
  define nid where "nid = live_node (li_node l) (s\<lparr>ss_running := False, ss_life := None\<rparr>)"
  have r1: "session_guard_run BE s s1"
    using interrupted_session_run [of BE "s\<lparr>ss_running := False, ss_life := None\<rparr>"] by (simp add: s1_def)
  obtain dr s2 where d: "disarm a s1 = (dr, s2)" by (cases "disarm a s1")
  obtain won s3 where k: "killSwitchRelaunch (li_gen l) (li_profile l) nid (an_now a - li_since l) s2 = (won, s3)"
    by (cases "killSwitchRelaunch (li_gen l) (li_profile l) nid (an_now a - li_since l) s2")
  have r3: "session_guard_run BE s s3" using r1 disarm_run [OF d] killSwitchRelaunch_fields [OF k] by simp
  show ?thesis
    using r3 d k unfolding s1_def nid_def
    by (auto simp: process_exits_def Some Let_def intro!: setState_after)
qed (simp add: process_exits_def)

lemma run_parked_run:
  assumes "trusts BE a"
  shows "session_guard_run BE s (run_parked a p s)"
proof (cases p)
  case (Relaunch gen pr nid)
  then show ?thesis using startConnect_run [OF assms, of pr nid False False "[]" s]
    by (cases "startConnect a pr nid False False [] s") (auto intro: setState_after split: option.split)
next
  case (Reconcile gen pr nid)
  then show ?thesis using startConnect_run [OF assms, of pr nid False False "[]" s]
    by (cases "startConnect a pr nid False False [] s") simp
next
  case (Autoconnect gen pr nid)
  then show ?thesis using startConnect_run [OF assms, of pr nid False False "[]" s]
    by (cases "startConnect a pr nid False False [] s") simp
next
  case (Failover gen pid nid)
  obtain ok r where al: "allowAutoRecovery default_policy (an_now a) gen pid nid (recovery_of s) = (ok, r)"
    by (cases "allowAutoRecovery default_policy (an_now a) gen pid nid (recovery_of s)")
  define s1 where "s1 = put_budget r s"
  define s2 where "s2 = setState a ''health_reconnecting'' pid nid [] (r_Routing (the_state s1)) (s1\<lparr>ss_switches := ss_switches s1 @ [an_now a]\<rparr>)"
  have r2: "session_guard_run BE s s2" unfolding s2_def by (rule setState_after, rule guard_run_same) (simp_all add: s1_def)
  have r3: "session_guard_run BE s s3" if "startConnect a latest [] False False nid s2 = (sr, s3)" for latest sr s3
    using r2 startConnect_run [OF assms that] by (rule guard_run_trans)
  show ?thesis
  proof (cases "\<not> ok \<or> live_node [] s1 \<noteq> nid")
    case True
    then show ?thesis using al by (auto simp: Failover s1_def Let_def)
  next
    case False
    show ?thesis
    proof (cases "Get (ds_profiles (ss_d s1)) pid")
      case None
      then show ?thesis using al False by (simp add: Failover s1_def Let_def)
    next
      case (Some latest)
      obtain sr s3 where st: "startConnect a latest [] False False nid s2 = (sr, s3)"
        by (cases "startConnect a latest [] False False nid s2")
      have "run_parked a p s = (case sr of None \<Rightarrow> s3 | Some err \<Rightarrow> setState a ''connected'' pid nid [] [] s3)"
        using al False Some st unfolding s2_def s1_def by (simp add: Failover Let_def)
      then show ?thesis using r3 [OF st] by (cases sr) (simp_all add: setState_after)
    qed
  qed
qed

lemma handle_set_run:
  assumes "\<forall>be. se_backend e = Some be \<longrightarrow> be \<in> BE" "handle_set e c d = (ans, d')"
  shows "guard_run BE d d'"
proof (cases "\<exists>on. c = Set_kill_switch on")
  case False
  then show ?thesis using handle_set_cases [OF assms(2)]
    by (cases c) (auto simp: outcome_def stored_def intro!: guard_run_same)
next
  case True
  then obtain on where c: "c = Set_kill_switch on" by blast
  define d0 where "d0 = reflect e (with_routing (\<lambda>ro. ro\<lparr>KillSwitch := on\<rparr>) d)"
  obtain err d1 where arm: "arm_guard e on (KillSwitch (pf_routing (ds_prefs d)) \<noteq> on) (g_state (ds_guard d)) d0 = (err, d1)"
    by (cases "arm_guard e on (KillSwitch (pf_routing (ds_prefs d)) \<noteq> on) (g_state (ds_guard d)) d0") auto
  have d': "d' = persistSettings e d1"
    using assms(2) arm unfolding c by (auto simp: handleSetKillSwitch_def Let_def d0_def split: option.splits)
  obtain r1 g1 k1 where rel: "Release (se_backend e) (ds_guard d0, ds_kernel d0) = (r1, g1, k1)" by (metis prod_cases3)
  obtain r2 g2 k2 where pre: "Prepare (se_backend e) (ds_guard d0, ds_kernel d0) = (r2, g2, k2)" by (metis prod_cases3)
  have "guard_run BE d0 d1"
    using arm rel pre release_call_run [OF assms(1) rel] prepare_call_run [OF assms(1) pre] reject_run [of BE d0]
    unfolding arm_guard_def by (auto split: if_split_asm)
  moreover have "guard_run BE d d0" by (rule guard_run_same) (simp_all add: d0_def)
  ultimately show ?thesis unfolding d' using guard_run_same [of "persistSettings e d1" d1] by (auto intro: guard_run_trans)
qed

lemma reapply_run:
  assumes "trusts BE a"
  shows "session_guard_run BE s (reapplyLive a s)"
proof -
  have "session_guard_run BE s (case startConnect a p n False False [] s of (None, s) \<Rightarrow> s
      | (Some err, s) \<Rightarrow> setState a st q m (f err) (r_Routing (the_state s)) s)" for p n st q m f
    using startConnect_run [OF assms, of p n False False "[]" s]
    by (cases "startConnect a p n False False [] s") (auto intro: setState_after split: option.split)
  then show ?thesis by (simp add: reapplyLive_def Let_def split: option.split)
qed

lemma raise_run: "session_guard_run BE s (raiseZapretForConnect a s)"
  by (rule guard_run_same) (simp_all add: raiseZapretForConnect_def pickFreeTunAddress_def with_routing_def Let_def)

lemma handleConnect_run:
  assumes "trusts BE a"
  shows "session_guard_run BE s (snd (handleConnect a pid node auto ov s))"
proof (cases "connect_profile pid s")
  case (Inr p)
  show ?thesis
  proof (cases "user_switch a p node s")
    case (Some s1)
    then show ?thesis using user_switch_connected [OF Some] put_switch_run by (auto simp: handleConnect_def Inr)
  next
    case None
    define s1 where "s1 = (raiseZapretForConnect a s)\<lparr>ss_relaunches := 0\<rparr>"
    have r1: "session_guard_run BE s s1" using raise_run by (simp add: s1_def)
    obtain r s2 where st: "startConnect a p node auto True [] s1 = (r, s2)" by (cases "startConnect a p node auto True [] s1")
    have "session_guard_run BE s s2" using r1 startConnect_run [OF assms st] by (rule guard_run_trans)
    then show ?thesis using st by (simp add: handleConnect_def Inr None s1_def [symmetric] Let_def split: option.split)
  qed
qed (simp add: handleConnect_def)

lemma handleDisconnect_run:
  assumes "trusts BE a"
  shows "session_guard_run BE s (snd (handleDisconnect a s))"
proof -
  let ?s = "s\<lparr>ss_relaunches := 0\<rparr>"
  obtain r s1 where t: "teardown a ''idle'' [] [] ?s = (r, s1)" by (cases "teardown a ''idle'' [] [] ?s")
  obtain rr g k where rel: "Release (se_backend (an_env a)) (the_guard s1, ds_kernel (ss_d s1)) = (rr, g, k)" by (metis prod_cases3)
  have "session_guard_run BE s s1" using teardown_run [OF t] by simp
  moreover have "session_guard_run BE s1 (on_d (\<lambda>d. d\<lparr>ds_guard := g, ds_kernel := k\<rparr>) s1)"
    using release_call_run [OF assms [unfolded trusts_def] rel] by simp
  ultimately have "session_guard_run BE s (on_d (\<lambda>d. d\<lparr>ds_guard := g, ds_kernel := k\<rparr>) s1)" by (rule guard_run_trans)
  then show ?thesis using t rel by (simp add: handleDisconnect_def release_guard_def Let_def)
qed

lemma session_step_run:
  assumes "trusts BE a"
  shows "session_guard_run BE s (session_step a ev s)"
proof (cases ev)
  case (Settings_command c)
  obtain ans d where h: "handle_set (an_env a) c (ss_d s) = (ans, d)" by (cases "handle_set (an_env a) c (ss_d s)")
  have r1: "session_guard_run BE s (s\<lparr>ss_d := d\<rparr>)" using handle_set_run [OF assms [unfolded trusts_def] h] by simp
  have "session_guard_run BE s (reapplyLive a (s\<lparr>ss_d := d\<rparr>))" using r1 reapply_run [OF assms] by (rule guard_run_trans)
  then show ?thesis using r1 by (simp add: Settings_command settings_command_def h Let_def split: answer.split bool.split)
next
  case Autoconnect_at_start
  then show ?thesis by (simp add: AutoconnectOnStart_def raise_run Let_def split: option.split)
next
  case (Walk_process up)
  then show ?thesis by (simp add: walk_process_def split: option.split)
next
  case (Walk_ends msg)
  then show ?thesis by (auto simp: walk_ends_def Let_def intro!: setState_after split: option.split)
next
  case (Parked_runs i)
  have "session_guard_run BE s (run_parked a p (s\<lparr>ss_parked := ps\<rparr>))" for p ps
    using run_parked_run [OF assms, of "s\<lparr>ss_parked := ps\<rparr>" p] by simp
  then show ?thesis by (simp add: Parked_runs parked_runs_def)
next
  case Health_failover
  then show ?thesis by (simp add: health_failover_def Let_def split: prod.split)
next
  case (Auto_switch dest)
  then show ?thesis using put_switch_run
    by (auto simp: auto_switch_def Let_def split: option.split prod.split autoSwitchResult.split)
qed (simp_all add: assms handleConnect_run handleDisconnect_run reapply_run walk_up_run process_exits_run)

lemma session_run_guard:
  assumes "\<forall>(a, ev)\<in>set evs. trusts BE a"
  shows "session_guard_run BE s (session_run evs s)"
  using assms
proof (induction evs arbitrary: s)
  case (Cons e evs)
  obtain a ev where e: "e = (a, ev)" by (cases e)
  have "session_guard_run BE s (session_step a ev s)" using Cons.prems by (intro session_step_run) (simp add: e)
  moreover have "session_guard_run BE (session_step a ev s) (session_run evs (session_step a ev s))"
    using Cons by simp
  ultimately show ?case by (simp add: e guard_run_trans)
qed simp

section \<open>What is announced under the kill switch\<close>

lemma VerifyTunnel_confirms:
  assumes "VerifyTunnel bk n ad sp (g, k) = (Inr u, g', k')"
  shows "state.Status (g_state g') = ''blocked'' \<and> Enforced (g_state g') \<and>
    (\<exists>luid. g_tunnel g' = Some \<lparr>vt_name = n, vt_address = ad, vt_luid = luid\<rparr>)"
  using assms
  by (auto simp: VerifyTunnel_def Let_def confirm_def blocked_state_def split: option.splits prod.splits sum.splits)

lemma gates_guarded:
  assumes "local_gates a w s = (None, s')" "KillSwitch (pf_routing (the_prefs s))" "\<not> g_legacyEngineOnly (the_guard s)"
  shows "state.Status (g_state (the_guard s')) = ''blocked'' \<and> Enforced (g_state (the_guard s')) \<and>
    (\<exists>t. g_tunnel (the_guard s') = Some t \<and> vt_address t = TunAddress (FlTun (if_loop w)))"
proof -
  let ?tun = "FlTun (if_loop w)"
  let ?n = "if InterfaceName ?tun = [] then an_tunname a else InterfaceName ?tun"
  obtain r g k where v: "VerifyTunnel (se_backend (an_env a)) ?n (TunAddress ?tun) (IsSystemProxy ?tun)
      (the_guard s, ds_kernel (ss_d s)) = (r, g, k)" by (metis prod_cases3)
  obtain ar s1 where ac: "activateProtectionLocked a (FlRouting (if_loop w)) ?tun s = (ar, s1)"
    by (cases "activateProtectionLocked a (FlRouting (if_loop w)) ?tun s")
  have "ar = None" and d: "ss_d s' = ss_d s1" using assms(1) ac by (auto simp: local_gates_def split: option.splits if_splits)
  then obtain u where "r = Inr u" "the_guard s1 = g"
    using ac assms(2,3) v unfolding activateProtectionLocked_def Let_def by (auto split: if_split_asm sum.splits)
  with v have "VerifyTunnel (se_backend (an_env a)) ?n (TunAddress ?tun) (IsSystemProxy ?tun)
      (the_guard s, ds_kernel (ss_d s)) = (Inr u, g, k)" by simp
  from VerifyTunnel_confirms [OF this] \<open>the_guard s1 = g\<close> show ?thesis by (auto simp: d)
qed

lemma publish_accepts:
  assumes "state.Status (g_state (the_guard s)) = ''blocked''" "Enforced (g_state (the_guard s))" "g_tunnel (the_guard s) = Some t"
  shows "state.Status (g_state (the_guard (publish_session a w nid sel s))) = ''active'' \<and>
    g_tunnel (the_guard (publish_session a w nid sel s)) = Some t"
  using assms
  by (simp add: publish_session_def reconcileConnectingOptions_def Accepted_def Let_def split: option.split)

lemma walk_up_announces:
  assumes "r_State (the_state s) \<noteq> ''connected''" "r_State (the_state (walk_up a nid sel s)) = ''connected''"
  obtains w s1 where "ss_walk s = Some w" "local_gates a w s = (None, s1)" "walk_up a nid sel s = publish_session a w nid sel s1"
proof -
  obtain w where w: "ss_walk s = Some w" using assms by (cases "ss_walk s") (simp_all add: walk_up_def)
  obtain gr s1 where g: "local_gates a w s = (gr, s1)" by (cases "local_gates a w s")
  have "gr = None \<and> walk_up a nid sel s = publish_session a w nid sel s1"
    using assms w g by (cases gr) (auto simp: walk_up_def Let_def split: if_split_asm)
  then show ?thesis using that w g by blast
qed

text \<open>C3. A connection announced under the kill switch stands behind the filter engine: in every session, whatever
  the saves, the filter engine and the other system calls answer, when an accepted candidate turns the phase to
  connected while the kill switch is on and the guard is not the legacy one, the guard is active for the address of
  this very walk's tunnel, and the filter engine permits exactly what the policy for that tunnel grants and blocks
  the rest.\<close>

theorem announced_behind_guard:
  assumes "wf_kernel (ds_kernel d)" "ds_guard d = Guard.New be" "\<forall>(a, ev)\<in>set evs. trusts (wfp_backends sha v6) a"
    and "s = session_run evs (new_session d)" "trusts (wfp_backends sha v6) a" "s' = session_step a (Walk_up nid sel) s"
    and "r_State (the_state s) \<noteq> ''connected''" "r_State (the_state s') = ''connected''"
    and "KillSwitch (pf_routing (the_prefs s))" "\<not> g_legacyEngineOnly (the_guard s)"
  shows "state.Status (g_state (the_guard s')) = ''active'' \<and>
    (\<exists>w t i. ss_walk s = Some w \<and> g_tunnel (the_guard s') = Some t \<and> vt_address t = TunAddress (FlTun (if_loop w)) \<and>
      (\<forall>l fl. (kernel_permits (ds_kernel (ss_d s')) l fl \<longleftrightarrow> guarded_access (vt_luid t) l (flow_of i v6 l fl)) \<and>
              (kernel_blocks (ds_kernel (ss_d s')) l fl \<longleftrightarrow> \<not> guarded_access (vt_luid t) l (flow_of i v6 l fl))))"
proof -
  have "session_guard_run (wfp_backends sha v6) (new_session d) s" unfolding assms(4) by (rule session_run_guard [OF assms(3)])
  then have "session_guard_run (wfp_backends sha v6) (new_session d) s'"
    unfolding assms(6) using session_step_run [OF assms(5)] by (rule guard_run_trans)
  then have run: "(gstep (wfp_backends sha v6))\<^sup>*\<^sup>* (Guard.New be, ds_kernel d, pc.Idle) (the_guard s', ds_kernel (ss_d s'), pc.Idle)"
    by (simp add: guard_run_def new_session_def assms(2))
  from walk_up_announces [of s a nid sel] assms(6-8) obtain w s1 where w: "ss_walk s = Some w"
    and g: "local_gates a w s = (None, s1)" and s': "s' = publish_session a w nid sel s1" by auto
  from gates_guarded [OF g assms(9,10)] obtain t where "state.Status (g_state (the_guard s1)) = ''blocked''"
    "Enforced (g_state (the_guard s1))" "g_tunnel (the_guard s1) = Some t" and t: "vt_address t = TunAddress (FlTun (if_loop w))"
    by blast
  then have act: "state.Status (g_state (the_guard s')) = ''active''" "g_tunnel (the_guard s') = Some t"
    unfolding s' using publish_accepts by blast+
  show ?thesis using active_run_enforced [OF assms(1) run act(1)] act w t by auto
qed

end
