(* ===== verification/Settings_Restart.thy ===== *)
theory Settings_Restart
  imports Settings_Props
begin

text \<open>
  The settings across a restart: what a successful save stores is what the next daemon loads, sending a command
  again restarts nothing, and what a file of an older version becomes.
\<close>

section \<open>What is not stored\<close>

text \<open>The options no settings command touches, as a new daemon has them.\<close>

definition rest_default :: "string \<Rightarrow> prefs \<Rightarrow> bool" where
  "rest_default dir p \<longleftrightarrow>
     (let ro = pf_routing p; t = pf_tun p
      in \<not> BypassLAN ro \<and> \<not> ZapretActive ro \<and> ZapretCovered ro = [] \<and> \<not> Multihop ro \<and> MultihopEntry ro = [] \<and>
         MultihopExit ro = [] \<and> RuleSetDir ro = [] \<and> InterfaceName t = [] \<and> MTU t = 0 \<and> \<not> ExternalTun t \<and>
         ClashAPIPort t = 0 \<and> TunAddress t = [] \<and> TunAddress6 t = [] \<and> CacheDir t = dir)"

definition from_new :: "string \<Rightarrow> string \<Rightarrow> 'b daemon_settings \<Rightarrow> bool" where
  "from_new v bundle d \<longleftrightarrow>
     ds_reported d = applySettingsToState v (ds_prefs d) (applyZapretToStateLocked bundle (ds_prefs d) (new_reported v))"

lemma normalizeSuffixes_Nil [simp]: "normalizeSuffixes u [] = []"
  by (simp add: normalizeSuffixes_def)

lemma rest_load: "rest_default dir p \<Longrightarrow> rest_default dir (load_prefs u ps p)"
  by (simp add: rest_default_def load_prefs_def load_routing_def load_tun_def Let_def)

lemma rest_new: "rest_default dir (new_prefs u dir)"
  by (simp add: rest_default_def new_prefs_def Routing_Props.zero_options_def Let_def)

lemma rest_command: "rest_default dir p \<Longrightarrow> rest_default dir (new_prefs_of u c p)"
  by (cases c) (simp_all add: rest_default_def new_prefs_of_def Let_def)

lemma zapret_command:
  "pf_zapretActive (new_prefs_of u c p) = pf_zapretActive p \<and> pf_zapretAutoUpdate (new_prefs_of u c p) = pf_zapretAutoUpdate p \<and>
   ZapretActive (pf_routing (new_prefs_of u c p)) = ZapretActive (pf_routing p)"
  by (cases c) (simp_all add: new_prefs_of_def Let_def)

lemma apply_over:
  "applySettingsToState v p' (applySettingsToState v p s) = applySettingsToState v p' s"
  if "Mode (pf_routing p') \<noteq> []"
  using that by (simp add: applySettingsToState_def Let_def)

lemma zapret_same:
  assumes "pf_zapretActive p' = pf_zapretActive p" "pf_zapretAutoUpdate p' = pf_zapretAutoUpdate p"
    "ZapretActive (pf_routing p') = ZapretActive (pf_routing p)"
  shows "applyZapretToStateLocked b p' s = applyZapretToStateLocked b p s"
  using assms by (simp add: applyZapretToStateLocked_def)

lemma normal_Mode: "normal u ro \<Longrightarrow> Mode ro \<noteq> []"
  by (auto simp: normal_def routing_consts)

lemma handle_set_from_new:
  assumes "stable_case (se_case e)" "coherent (se_case e) (se_version e) d" "from_new (se_version e) b d"
  shows "from_new (se_version e) b (snd (handle_set e c d))"
proof -
  obtain a d' where h: "handle_set e c d = (a, d')" by (cases "handle_set e c d")
  let ?v = "se_version e"
  from handle_set_cases [OF h] consider "d' = d" | d1 where "stored e c d a d1" "d' = persistSettings e d1"
    unfolding outcome_def by blast
  then show ?thesis
  proof cases
    case 2
    let ?p = "ds_prefs d" and ?p1 = "ds_prefs d1"
    have p1: "?p1 = new_prefs_of (se_case e) c ?p" using 2(1) by (simp add: stored_def)
    have z: "applyZapretToStateLocked b ?p1 s = applyZapretToStateLocked b ?p s" for s
      unfolding p1 using zapret_command by (intro zapret_same) auto
    have co: "coherent (se_case e) ?v d1"
      using handle_set_coherent [OF assms(1,2), of c] by (simp add: h 2(2))
    then have m: "Mode (pf_routing ?p1) \<noteq> []" using normal_Mode by (auto simp: coherent_def)
    have "ds_reported d1 = applySettingsToState ?v ?p1 (ds_reported d)"
    proof (cases "\<exists>m. c = Set_routing m")
      case True
      then obtain m where c: "c = Set_routing m" by blast
      then have "ds_reported d1 = (ds_reported d)\<lparr>r_Routing := m\<rparr>" using 2(1) by (simp add: stored_def)
      moreover have "ds_reported d1 = applySettingsToState ?v ?p1 (ds_reported d1)"
        using co by (simp add: coherent_def mirrored_def)
      moreover have "applySettingsToState ?v ?p1 ((ds_reported d)\<lparr>r_Routing := m\<rparr>) = applySettingsToState ?v ?p1 (ds_reported d)"
        using m by (simp add: applySettingsToState_def Let_def)
      ultimately show ?thesis by simp
    next
      case False
      then show ?thesis using 2(1) by (cases c) (simp_all add: stored_def)
    qed
    then show ?thesis
      using assms(3) by (simp add: h 2(2) from_new_def z apply_over [OF m])
  qed (use assms(3) h in simp)
qed

lemma run_set_from_new:
  assumes "stable_case u" "coherent u v d" "from_new v b d" "rest_default dir (ds_prefs d)"
    "\<forall>(e, c)\<in>set cs. se_case e = u \<and> se_version e = v"
  shows "from_new v b (run_set cs d) \<and> rest_default dir (ds_prefs (run_set cs d))"
  using assms(2-)
proof (induction cs arbitrary: d)
  case (Cons ec cs)
  obtain e c where ec: "ec = (e, c)" by (cases ec)
  then have e: "se_case e = u" "se_version e = v" using Cons.prems(4) by auto
  obtain a d' where h: "handle_set e c d = (a, d')" by (cases "handle_set e c d")
  have "rest_default dir (ds_prefs d')"
    using handle_set_cases [OF h] Cons.prems(3) rest_command by (auto simp: outcome_def stored_def)
  moreover have "coherent u v d'" "from_new v b d'"
    using handle_set_coherent [of e d c] handle_set_from_new [of e d b c] Cons.prems e assms(1) h by simp_all
  ultimately show ?case using Cons.IH [of d'] Cons.prems(4) ec h by simp
qed simp

section \<open>Saving and loading\<close>

lemma settingsLocked_fields:
  "ps_Version (settingsLocked p) = settingsVersion"
  "ps_SplitMode (settingsLocked p) = SplitMode (pf_routing p)"
  "ps_SplitApps (settingsLocked p) = SplitApps (pf_routing p)"
  "ps_RoutingMode (settingsLocked p) = Mode (pf_routing p)"
  "ps_PresetGamesDirect (settingsLocked p) = Some (GamesDirect (pf_routing p))"
  "ps_PresetVoiceDirect (settingsLocked p) = Some (VoiceDirect (pf_routing p))"
  "ps_PresetUnblockServices (settingsLocked p) = Some (UnblockServices (pf_routing p))"
  "ps_KillSwitch (settingsLocked p) = KillSwitch (pf_routing p)"
  "ps_TLSFragment (settingsLocked p) = TLSFragment (pf_routing p)"
  "ps_TunStack (settingsLocked p) = TunStack (pf_tun p)"
  "ps_ProxyMode (settingsLocked p) = TunMode (pf_tun p)"
  "ps_ProxyPort (settingsLocked p) = MixedPort (pf_tun p)"
  "ps_AdBlock (settingsLocked p) = AdBlock (pf_routing p)"
  "ps_DNSRemote (settingsLocked p) = DNSRemote (pf_routing p)"
  "ps_DNSDirect (settingsLocked p) = DNSDirect (pf_routing p)"
  "ps_IPv4Only (settingsLocked p) = IPv4Only (pf_routing p)"
  "ps_RulesDirect (settingsLocked p) = RulesDirect (pf_routing p)"
  "ps_RulesProxy (settingsLocked p) = RulesProxy (pf_routing p)"
  "ps_PresetRuBanking (settingsLocked p) = PresetRuBanking (pf_routing p)"
  "ps_PresetRuGov (settingsLocked p) = PresetRuGov (pf_routing p)"
  by (simp_all add: settingsLocked_def Let_def)

lemma restores:
  assumes "normal u (pf_routing p)" "tun_valid (pf_tun p)" "rest_default dir p"
  shows "load_prefs u (settingsLocked p) (new_prefs u dir) = p"
proof (intro prefs.equality)
  let ?ro = "pf_routing p"
  note n = assms(1) [unfolded normal_def] and r = assms(3) [unfolded rest_default_def Let_def]
  have sp: "splitFromSettings u (settingsLocked p) = (SplitMode ?ro, SplitApps ?ro)"
    using n by (auto simp: splitFromSettings_def settingsLocked_fields normalizeApps_eq Let_def)
  have "load_routing u (settingsLocked p) (pf_routing (new_prefs u dir)) = ?ro"
  proof (intro options.equality)
  qed (use n r in \<open>auto simp: load_routing_def sp settingsLocked_fields new_prefs_def Routing_Props.zero_options_def\<close>)
  then show "pf_routing (load_prefs u (settingsLocked p) (new_prefs u dir)) = ?ro" by (simp add: load_prefs_def)
  have "load_tun (settingsLocked p) (pf_tun (new_prefs u dir)) = pf_tun p"
    using assms(2) r
    by (intro tun_options.equality) (simp_all add: load_tun_def settingsLocked_fields new_prefs_def tun_valid_def)
  then show "pf_tun (load_prefs u (settingsLocked p) (new_prefs u dir)) = pf_tun p" by (simp add: load_prefs_def)
qed (simp_all add: load_prefs_def settingsLocked_def Let_def)

text \<open>\<^verbatim>\<open>encoding/json\<close>: what is written for these settings decodes to them.\<close>

definition settings_codec ::
  "(persisted \<Rightarrow> string + 8 word list) \<Rightarrow> (8 word list \<Rightarrow> persisted option) \<Rightarrow> persisted \<Rightarrow> bool"
where
  "settings_codec enc dec ps \<longleftrightarrow> (\<forall>data. enc ps = Inr data \<longrightarrow> data \<noteq> [] \<and> dec data = Some ps)"

lemma saved_then_loaded:
  assumes "settings_codec enc dec (settingsLocked p)" "fst (settings_save enc fault (settingsLocked p) d)"
  shows "settings_load dec False (snd (settings_save enc fault (settingsLocked p) d)) = settingsLocked p"
proof -
  have v: "(settingsLocked p)\<lparr>ps_Version := settingsVersion\<rparr> = settingsLocked p" "ps_Version (settingsLocked p) = settingsVersion"
    by (simp_all add: settingsLocked_def Let_def)
  obtain data where data: "enc (settingsLocked p) = Inr data"
    using assms(2) by (cases "enc (settingsLocked p)") (simp_all add: settings_save_def v)
  then have "data \<noteq> []" "dec data = Some (settingsLocked p)" using assms(1) by (auto simp: settings_codec_def)
  moreover have "fs.target (after_calls data (length save_calls) d) = Some data"
    by (simp add: after_calls_def save_calls_def)
  ultimately show ?thesis
    using assms(2) data v(2) by (auto simp: settings_save_def v settings_load_def migrate_def split: option.splits if_splits)
qed

lemma failed_save_keeps_file:
  "\<not> fst (settings_save enc fault ps d) \<Longrightarrow> fs.target (snd (settings_save enc fault ps d)) = fs.target d"
proof -
  have "fs.target (after_calls data n d) = fs.target d" if "n < length save_calls" for data n
    using that by (auto simp: save_calls_def after_calls_def numeral_eq_Suc less_Suc_eq)
  then show "\<not> fst (settings_save enc fault ps d) \<Longrightarrow> fs.target (snd (settings_save enc fault ps d)) = fs.target d"
    by (auto simp: settings_save_def split: sum.splits option.splits if_splits)
qed


text \<open>C36. An accepted settings command survives a restart: when its save goes through, a daemon started on that disk
  loads exactly the preferences the old one had and reports exactly the same settings; and a save that does not
  go through leaves the file as it was.\<close>

theorem settings_survive_restart:
  assumes "stable_case u" "settings_codec (se_enc e) (se_dec e) (settingsLocked (ds_prefs d'))"
    and "\<forall>e'\<in>{e0, e, e1} \<union> fst ` set cs. se_case e' = u \<and> se_version e' = v"
    and "se_bundle e1 = se_bundle e0" "se_dec e1 = se_dec e" "\<not> se_unreadable e1"
    and "d = run_set cs (SetSettings e0 (NewDaemon e0 dir dk k st))" "handle_set e c d = (Done changed r, d')"
  shows "if fst (settings_save (se_enc e) (se_fault e) (settingsLocked (ds_prefs d')) (ds_disk d))
     then ds_prefs (SetSettings e1 (NewDaemon e1 dir (ds_disk d') k1 st1)) = ds_prefs d' \<and>
          ds_reported (SetSettings e1 (NewDaemon e1 dir (ds_disk d') k1 st1)) = ds_reported d'
     else fs.target (ds_disk d') = fs.target (ds_disk d)"
proof -
  define d0 where "d0 = SetSettings e0 (NewDaemon e0 dir dk k st)"
  have e0: "se_case e0 = u" "se_version e0 = v" and e: "se_case e = u" "se_version e = v"
    and e1: "se_case e1 = u" "se_version e1 = v" and cs: "\<forall>(e', c')\<in>set cs. se_case e' = u \<and> se_version e' = v"
    using assms(3) by auto
  have "tun_valid (pf_tun (ds_prefs (NewDaemon e0 dir dk k st)))" by (simp add: NewDaemon_def new_tun_valid)
  then have c0: "coherent u v d0" using SetSettings_coherent [of e0] assms(1) e0 by (simp add: d0_def)
  have f0: "from_new v (se_bundle e0) d0" "rest_default dir (ds_prefs d0)" "ds_installed d0"
    using rest_load [OF rest_new] e0 by (simp_all add: d0_def from_new_def SetSettings_def NewDaemon_def Let_def)
  have installed: "ds_installed (run_set cs d)" if "ds_installed d" for cs and d :: "'a daemon_settings"
    using that
  proof (induction cs arbitrary: d)
    case (Cons ec cs)
    obtain e' c' a' d' where ec: "ec = (e', c')" and h: "handle_set e' c' d = (a', d')"
      by (cases ec, cases "handle_set (fst ec) (snd ec) d") auto
    have "ds_installed d'" using handle_set_cases [OF h] Cons.prems by (auto simp: outcome_def stored_def)
    then show ?case using Cons.IH ec h by simp
  qed simp
  have c: "coherent u v d" and f: "from_new v (se_bundle e0) d" "rest_default dir (ds_prefs d)" "ds_installed d"
    using run_set_coherent [OF assms(1) c0 cs] run_set_from_new [OF assms(1) c0 f0(1,2) cs] installed [OF f0(3)]
    unfolding assms(7) d0_def by auto
  obtain d1 where st: "stored e c d (Done changed r) d1" and d': "d' = persistSettings e d1"
    using handle_set_cases [OF assms(8)] by (auto simp: outcome_def)
  have c': "coherent u v d'" and f': "from_new v (se_bundle e0) d'" "rest_default dir (ds_prefs d')"
    using handle_set_coherent [of e d c] handle_set_from_new [of e d "se_bundle e0" c] c f assms(1,8) e st rest_command
    by (simp_all add: d' stored_def)
  have disk: "ds_disk d' = snd (settings_save (se_enc e) (se_fault e) (settingsLocked (ds_prefs d')) (ds_disk d))"
    using st f(3) by (simp add: d' stored_def persistSettings_def)
  show ?thesis
  proof (cases "fst (settings_save (se_enc e) (se_fault e) (settingsLocked (ds_prefs d')) (ds_disk d))")
    case True
    have ld: "settings_load (se_dec e1) (se_unreadable e1) (ds_disk d') = settingsLocked (ds_prefs d')"
      using saved_then_loaded [OF assms(2) True] assms(5,6) by (simp add: disk)
    have "load_prefs u (settingsLocked (ds_prefs d')) (new_prefs u dir) = ds_prefs d'"
      using c' f'(2) by (intro restores) (simp_all add: coherent_def)
    then show ?thesis
      using True f'(1) e1 assms(4) by (simp add: SetSettings_def NewDaemon_def ld from_new_def Let_def)
  next
    case False
    then show ?thesis using failed_save_keeps_file [OF False] by (simp add: disk)
  qed
qed

section \<open>Sending a command again\<close>

lemma Normalize_again:
  assumes "stable_case u"
  shows "Normalize u ((Normalize u (ro\<lparr>Mode := m\<rparr>))\<lparr>Mode := m\<rparr>) = Normalize u (ro\<lparr>Mode := m\<rparr>)"
    "Normalize u ((Normalize u (ro\<lparr>SplitMode := m, SplitApps := as\<rparr>))\<lparr>SplitMode := m, SplitApps := as\<rparr>) =
       Normalize u (ro\<lparr>SplitMode := m, SplitApps := as\<rparr>)"
    "Normalize u ((Normalize u (ro\<lparr>AdBlock := ad, IPv4Only := v4, DNSRemote := r, DNSDirect := di\<rparr>))
        \<lparr>AdBlock := ad, IPv4Only := v4, DNSRemote := r, DNSDirect := di\<rparr>) =
       Normalize u (ro\<lparr>AdBlock := ad, IPv4Only := v4, DNSRemote := r, DNSDirect := di\<rparr>)"
    "Normalize u ((Normalize u (ro\<lparr>RulesDirect := a, RulesProxy := b, PresetRuBanking := bk, PresetRuGov := gv\<rparr>))
        \<lparr>RulesDirect := a, RulesProxy := b, PresetRuBanking := bk, PresetRuGov := gv\<rparr>) =
       Normalize u (ro\<lparr>RulesDirect := a, RulesProxy := b, PresetRuBanking := bk, PresetRuGov := gv\<rparr>)"
  by (auto intro!: options.equality simp: suffixes_stable [OF assms] DefaultDNSRemote_def DefaultDNSDirect_def)

lemma Normalize_presets_again:
  assumes "stable_case u" "GamesDirect ro = or_keep g (GamesDirect ro')" "VoiceDirect ro = or_keep w (VoiceDirect ro')"
    "UnblockServices ro = or_keep s (UnblockServices ro')"
  shows "Normalize u ((Normalize u ro)\<lparr>GamesDirect := or_keep g (GamesDirect ro'), VoiceDirect := or_keep w (VoiceDirect ro'),
        UnblockServices := or_keep s (UnblockServices ro')\<rparr>) = Normalize u ro"
  using assms(2-4)
  by (auto intro!: options.equality simp: suffixes_stable [OF assms(1)] DefaultDNSRemote_def DefaultDNSDirect_def)


text \<open>What a command other than the kill switch is refused for, and that it is refused for nothing else.\<close>

definition accepts :: "case_table \<Rightarrow> set_command \<Rightarrow> 'b daemon_settings \<Rightarrow> bool" where
  "accepts u c d \<longleftrightarrow>
     (case c of
        Set_routing m \<Rightarrow> m \<in> {ModeSmart, ModeGlobal, ModeDirect}
      | Set_presets g v s \<Rightarrow> \<not> (g = None \<and> v = None \<and> s = None)
      | Set_split m apps \<Rightarrow> m \<in> {SplitOff, SplitExclude, SplitInclude}
      | Set_dns ad v4 r di \<Rightarrow> ValidDNSServer r \<and> ValidDNSServer di \<and>
          \<not> (snd (ProtectionDNS u d) \<and> \<not> ValidateDNS u (if di = [] then DefaultDNSDirect else di))
      | Set_multihop pid en a b \<Rightarrow> multihop_refusal pid \<lparr>MhEnabled = en, EntryID = a, ExitID = b\<rparr> d = None
      | Set_proxy_mode m port \<Rightarrow> ValidMode m \<and> \<not> (port \<noteq> 0 \<and> (port < 1 \<or> port > 65535))
      | Set_tun st \<Rightarrow> ValidStack st
      | Set_rules a b bk gv \<Rightarrow> find (\<lambda>s. \<not> ValidDomainSuffix u s) a = None \<and> find (\<lambda>s. \<not> ValidDomainSuffix u s) b = None
      | _ \<Rightarrow> True)"

lemma Done_iff:
  assumes "\<forall>on. c \<noteq> Set_kill_switch on"
  shows "(\<exists>b r. fst (handle_set e c d) = Done b r) \<longleftrightarrow> accepts (se_case e) c d"
proof (cases c)
  case (Set_dns ad v4 r di)
  then show ?thesis by (simp add: accepts_def handleSetDNS_def conclude_def Let_def)
next
  case (Set_rules a b bk gv)
  then show ?thesis by (simp add: accepts_def handleSetRules_def conclude_def Let_def split: option.split)
next
  case (Set_multihop pid en a b)
  then show ?thesis by (simp add: accepts_def handleSetMultihop_def conclude_def Let_def split: option.split)
next
  case (Set_presets g v s)
  then show ?thesis by (simp add: accepts_def handleSetPresets_def conclude_def Let_def)
next
  case (Set_routing m)
  then show ?thesis by (simp add: accepts_def handleSetRouting_def conclude_def Let_def)
next
  case (Set_split m apps)
  then show ?thesis by (simp add: accepts_def handleSetSplit_def conclude_def Let_def)
next
  case (Set_proxy_mode m port)
  then show ?thesis by (simp add: accepts_def handleSetProxyMode_def conclude_def Let_def)
next
  case (Set_tun st)
  then show ?thesis by (simp add: accepts_def handleSetTun_def conclude_def Let_def)
qed (use assms in \<open>auto simp: accepts_def handleSetTLSFragment_def handleSetAutoconnect_def
    handleSetAutoFailover_def handleSetCrashReports_def conclude_def Let_def\<close>)

lemma apply_connection:
  "r_State (applySettingsToState v p s) = r_State s" "r_Profile (applySettingsToState v p s) = r_Profile s"
  by (simp_all add: applySettingsToState_def Let_def)

lemma accepts_stored:
  assumes "stored e c d (Done b r) d1" "\<forall>on. c \<noteq> Set_kill_switch on"
  shows "accepts u c (persistSettings e d1) = accepts u c d"
proof -
  have nk: "c \<noteq> Set_kill_switch True" "c \<noteq> Set_kill_switch False" using assms(2) by blast+
  have g: "ds_guard d1 = ds_guard d" "ds_profiles d1 = ds_profiles d"
    using assms(1,2) by (cases c; simp add: stored_def)+
  have s: "r_State (ds_reported d1) = r_State (ds_reported d)" "r_Profile (ds_reported d1) = r_Profile (ds_reported d)"
    using assms(1) by (cases c; simp add: stored_def apply_connection)+
  have k: "KillSwitch (pf_routing (ds_prefs d1)) = KillSwitch (pf_routing (ds_prefs d))"
    using assms(1) nk by (cases c) (simp_all add: stored_def new_prefs_of_def Let_def)
  have p: "snd (ProtectionDNS u (persistSettings e d1)) = snd (ProtectionDNS u d)"
    by (simp add: ProtectionDNS_def Let_def g k)
  have m: "multihop_refusal pid mh (persistSettings e d1) = multihop_refusal pid mh d" for pid mh
    unfolding multihop_refusal_def Let_def persist_fields g s by (rule refl)
  show ?thesis by (cases c) (simp_all add: accepts_def p m)
qed

lemma unchanged_restarts_nothing:
  assumes "fst (handle_set e c d) = Done b r" "new_prefs_of (se_case e) c (ds_prefs d) = ds_prefs d"
    "\<forall>on. c \<noteq> Set_kill_switch on"
  shows "\<not> b"
proof -
  have eq: "pf_routing (new_prefs_of (se_case e) c (ds_prefs d)) = pf_routing (ds_prefs d)"
    "pf_tun (new_prefs_of (se_case e) c (ds_prefs d)) = pf_tun (ds_prefs d)"
    "pf_multihop (new_prefs_of (se_case e) c (ds_prefs d)) = pf_multihop (ds_prefs d)"
    using assms(2) by simp_all
  show ?thesis
  proof (cases c)
    case (Set_routing m)
    then have "Normalize (se_case e) ((pf_routing (ds_prefs d))\<lparr>Mode := m\<rparr>) = pf_routing (ds_prefs d)"
      using eq(1) by (simp add: new_prefs_of_def Let_def)
    then have "Mode (Normalize (se_case e) ((pf_routing (ds_prefs d))\<lparr>Mode := m\<rparr>)) = Mode (pf_routing (ds_prefs d))" by simp
    moreover have "m \<in> {ModeSmart, ModeGlobal, ModeDirect}" "b = (Mode (pf_routing (ds_prefs d)) \<noteq> m)"
      using assms(1) Set_routing by (simp_all add: handleSetRouting_def conclude_def Let_def split: if_split_asm)
    ultimately show ?thesis by (auto split: if_split_asm)
  next
    case (Set_presets g v s)
    let ?ro = "pf_routing (ds_prefs d)"
    have n: "Normalize (se_case e) (?ro\<lparr>GamesDirect := or_keep g (GamesDirect ?ro), VoiceDirect := or_keep v (VoiceDirect ?ro),
        UnblockServices := or_keep s (UnblockServices ?ro)\<rparr>) = ?ro"
      using eq(1) Set_presets by (simp add: new_prefs_of_def Let_def)
    have "or_keep g (GamesDirect ?ro) = GamesDirect ?ro" "or_keep v (VoiceDirect ?ro) = VoiceDirect ?ro"
      "or_keep s (UnblockServices ?ro) = UnblockServices ?ro"
      using arg_cong [OF n, of GamesDirect] arg_cong [OF n, of VoiceDirect] arg_cong [OF n, of UnblockServices] by simp_all
    then show ?thesis
      using assms(1) Set_presets by (auto simp: handleSetPresets_def conclude_def Let_def split: if_split_asm)
  next
    case (Set_split m apps)
    then have n: "Normalize (se_case e) ((pf_routing (ds_prefs d))\<lparr>SplitMode := m, SplitApps := apps\<rparr>) = pf_routing (ds_prefs d)"
      using eq(1) by (simp add: new_prefs_of_def Let_def)
    show ?thesis
      using assms(1) unfolding Set_split handle_set.simps handleSetSplit_def conclude_def Let_def n
      by (simp split: if_split_asm)
  next
    case (Set_dns ad v4 rm di)
    then have n: "Normalize (se_case e) ((pf_routing (ds_prefs d))\<lparr>AdBlock := ad, IPv4Only := v4, DNSRemote := rm,
        DNSDirect := di\<rparr>) = pf_routing (ds_prefs d)"
      using eq(1) by (simp add: new_prefs_of_def Let_def)
    show ?thesis
      using assms(1) unfolding Set_dns handle_set.simps handleSetDNS_def conclude_def Let_def n
      by (simp add: dnsPrefsDiffer_def split: if_split_asm)
  next
    case (Set_tls_fragment on)
    have "TLSFragment ((pf_routing (ds_prefs d))\<lparr>TLSFragment := on\<rparr>) = TLSFragment (pf_routing (ds_prefs d))"
      using eq(1) Set_tls_fragment by (simp add: new_prefs_of_def Let_def)
    then show ?thesis using assms(1) Set_tls_fragment by (simp add: handleSetTLSFragment_def conclude_def Let_def)
  next
    case (Set_multihop pid en x y)
    then have n: "\<lparr>MhEnabled = en, EntryID = x, ExitID = y\<rparr> = pf_multihop (ds_prefs d)"
      using eq(3) by (simp add: new_prefs_of_def Let_def)
    show ?thesis
      using assms(1) unfolding Set_multihop handle_set.simps handleSetMultihop_def conclude_def Let_def n
      by (simp split: option.split_asm)
  next
    case (Set_proxy_mode m port)
    let ?t = "pf_tun (ds_prefs d)"
    have n: "?t\<lparr>TunMode := m, MixedPort := (if port \<noteq> 0 then port else MixedPort ?t)\<rparr> = ?t"
      using eq(2) Set_proxy_mode by (simp add: new_prefs_of_def Let_def)
    have "TunMode ?t = m" "port \<noteq> 0 \<Longrightarrow> MixedPort ?t = port"
      using arg_cong [OF n, of TunMode] arg_cong [OF n, of MixedPort] by simp_all
    then show ?thesis
      using assms(1) Set_proxy_mode by (auto simp: handleSetProxyMode_def conclude_def Let_def split: if_split_asm)
  next
    case (Set_tun stk)
    have n: "(pf_tun (ds_prefs d))\<lparr>TunStack := stk\<rparr> = pf_tun (ds_prefs d)"
      using eq(2) Set_tun by (simp add: new_prefs_of_def Let_def)
    then show ?thesis
      using assms(1) Set_tun arg_cong [OF n, of TunStack]
      by (auto simp: handleSetTun_def conclude_def Let_def split: if_split_asm)
  next
    case (Set_rules x y bk gv)
    then have n: "Normalize (se_case e) ((pf_routing (ds_prefs d))\<lparr>RulesDirect := x, RulesProxy := y, PresetRuBanking := bk,
        PresetRuGov := gv\<rparr>) = pf_routing (ds_prefs d)"
      using eq(1) by (simp add: new_prefs_of_def Let_def)
    show ?thesis
      using assms(1) unfolding Set_rules handle_set.simps handleSetRules_def conclude_def Let_def n
      by (simp add: rulesPrefsDiffer_def split: option.split_asm)
  qed (use assms in \<open>auto simp: handleSetAutoconnect_def handleSetAutoFailover_def handleSetCrashReports_def
      conclude_def Let_def\<close>)
qed

lemma new_prefs_again:
  assumes "stable_case u"
  shows "new_prefs_of u c (new_prefs_of u c p) = new_prefs_of u c p"
proof (cases c)
  case (Set_presets g v s)
  let ?ro = "pf_routing p"
  have "or_keep b (or_keep b x) = or_keep b x" for b x by (cases b) (simp_all add: or_keep_def)
  then show ?thesis
    using Set_presets
    by (auto simp: new_prefs_of_def Let_def suffixes_stable [OF assms] DefaultDNSRemote_def DefaultDNSDirect_def
        intro!: prefs.equality options.equality)
qed (use Normalize_again [OF assms] in \<open>simp_all add: new_prefs_of_def Let_def\<close>)

text \<open>Sending an accepted command a second time restarts nothing and changes nothing: it is accepted again, it asks
  for no re-apply of the live tunnel, and the preferences and the reported state stay what they were.  (The kill
  switch is the one exception: it retries the host guard.)\<close>

theorem resent_command_restarts_nothing:
  assumes "stable_case u" "coherent u v d" "se_case e = u" "se_version e = v" "se_case e' = u" "se_version e' = v"
    and "handle_set e c d = (Done b r, d')" "\<forall>on. c \<noteq> Set_kill_switch on"
  shows "fst (handle_set e' c d') = Done False (ds_reported d') \<and> ds_prefs (snd (handle_set e' c d')) = ds_prefs d' \<and>
    ds_reported (snd (handle_set e' c d')) = ds_reported d'"
proof -
  obtain d1 where st: "stored e c d (Done b r) d1" and d': "d' = persistSettings e d1"
    using handle_set_cases [OF assms(7)] by (auto simp: outcome_def)
  have "accepts u c d" using Done_iff [OF assms(8), of e d] assms(3,7) by simp
  then have "accepts u c d'"
    using accepts_stored [OF st assms(8), of u] by (simp add: d')
  then obtain b2 r2 where done2: "fst (handle_set e' c d') = Done b2 r2"
    using Done_iff [OF assms(8), of e' d'] assms(5) by auto
  obtain d'' where h2: "handle_set e' c d' = (Done b2 r2, d'')"
    using done2 by (cases "handle_set e' c d'") auto
  obtain d2 where st2: "stored e' c d' (Done b2 r2) d2" and d'': "d'' = persistSettings e' d2"
    using handle_set_cases [OF h2] by (auto simp: outcome_def)
  have same: "new_prefs_of u c (ds_prefs d') = ds_prefs d'"
    using st new_prefs_again [OF assms(1)] by (simp add: d' stored_def assms(3))
  then have p2: "ds_prefs d2 = ds_prefs d'" using st2 assms(5) by (simp add: stored_def)
  have mir: "mirrored v d'"
    using handle_set_coherent [of e d c] assms(1-4,7) by (simp add: coherent_def)
  have r2: "ds_reported d2 = ds_reported d'"
  proof (cases "\<exists>m. c = Set_routing m")
    case True
    then obtain m where c: "c = Set_routing m" by blast
    have "ds_reported d1 = (ds_reported d)\<lparr>r_Routing := m\<rparr>" using st by (simp add: stored_def c)
    then show ?thesis using st2 by (simp add: stored_def c d')
  next
    case False
    then have "ds_reported d2 = applySettingsToState v (ds_prefs d2) (ds_reported d')"
      using st2 assms(6) by (cases c) (simp_all add: stored_def)
    then show ?thesis using mir by (simp add: p2 mirrored_def)
  qed
  have "c \<noteq> Set_kill_switch True" "c \<noteq> Set_kill_switch False" using assms(8) by blast+
  then have "r2 = ds_reported d2" using st2 by (cases c) (simp_all add: stored_def)
  moreover have "\<not> b2" using unchanged_restarts_nothing [OF done2 _ assms(8)] same assms(5) by simp
  ultimately show ?thesis using h2 p2 r2 by (simp add: d'')
qed

section \<open>Upgrades\<close>

text \<open>An upgraded file clears the two outward presets and nothing else: loading a file of version 1 gives what the
  same file gives at the current version but for those two presets, which are off; a file of any other version
  loads as if there were none; and migrating twice is migrating once.\<close>

theorem upgrade_clears_outward_presets:
  "load_prefs u (migrate (ps\<lparr>ps_Version := 1\<rparr>)) p =
     (let q = load_prefs u (migrate (ps\<lparr>ps_Version := settingsVersion\<rparr>)) p
      in q\<lparr>pf_routing := (pf_routing q)\<lparr>GamesDirect := False, VoiceDirect := False\<rparr>\<rparr>) \<and>
   (ps_Version ps \<in> {1, settingsVersion} \<or> load_prefs u (migrate ps) p = load_prefs u zero_persisted p) \<and>
   migrate (migrate ps) = migrate ps"
proof (intro conjI)
  show "load_prefs u (migrate (ps\<lparr>ps_Version := 1\<rparr>)) p =
     (let q = load_prefs u (migrate (ps\<lparr>ps_Version := settingsVersion\<rparr>)) p
      in q\<lparr>pf_routing := (pf_routing q)\<lparr>GamesDirect := False, VoiceDirect := False\<rparr>\<rparr>)"
  proof (unfold Let_def, intro prefs.equality)
    show "pf_routing (load_prefs u (migrate (ps\<lparr>ps_Version := 1\<rparr>)) p) =
      pf_routing (load_prefs u (migrate (ps\<lparr>ps_Version := settingsVersion\<rparr>)) p
        \<lparr>pf_routing := (pf_routing (load_prefs u (migrate (ps\<lparr>ps_Version := settingsVersion\<rparr>)) p))
          \<lparr>GamesDirect := False, VoiceDirect := False\<rparr>\<rparr>)"
      by (intro options.equality) (simp_all add: load_prefs_def load_routing_def migrate_def migrateV1toV2_def
          settingsVersion_def splitFromSettings_def Let_def)
  qed (simp_all add: load_prefs_def load_tun_def migrate_def migrateV1toV2_def settingsVersion_def)
qed (auto simp: migrate_def migrateV1toV2_def settingsVersion_def zero_persisted_def)

text \<open>A file of another version keeps version 0, although the comment of \<^verbatim>\<open>migrate\<close> has it always carry the current one.\<close>

theorem unknown_version_migrates_to_zero: "ps_Version (migrate zero_persisted) = 0 \<and> settingsVersion = 2"
  by (simp add: migrate_def zero_persisted_def settingsVersion_def)

section \<open>A run\<close>

lemma stable_ex: "stable_case (\<lambda>s. s)"
proof -
  have "canon (\<lambda>s. s) (canon (\<lambda>s. s) s) = canon (\<lambda>s. s) s" for s
  proof (cases "list_all ascii (trim_space s)")
    case True
    then have "trimmed (map ascii_lower (trim_space s))" by (intro trimmed_lower) simp
    then show ?thesis using True by (simp add: canon_def trim_space_trimmed list_all_iff)
  next
    case False
    then show ?thesis by (simp add: canon_def to_lower_def)
  qed
  then show ?thesis by (simp add: stable_case_def)
qed

definition ex_prefs :: prefs where
  "ex_prefs = (new_prefs (\<lambda>s. s) ''data'')\<lparr>pf_routing := (pf_routing (new_prefs (\<lambda>s. s) ''data''))
     \<lparr>Mode := ModeGlobal, TLSFragment := True\<rparr>\<rparr>"

definition ex_env :: "unit settings_env" where
  "ex_env = \<lparr>se_case = (\<lambda>s. s), se_enc = (\<lambda>_. Inr [1]), se_dec = (\<lambda>_. Some (settingsLocked ex_prefs)), se_unreadable = False,
     se_fault = None, se_backend = None, se_version = ''1.0'', se_bundle = []\<rparr>"

abbreviation ex_start :: "unit daemon_settings" where
  "ex_start \<equiv> SetSettings ex_env (NewDaemon ex_env ''data'' \<lparr>fs.target = None, temp = None\<rparr> ()
     \<lparr>profiles = [], disk = \<lparr>fs.target = None, temp = None\<rparr>\<rparr>)"

abbreviation ex_global :: "unit daemon_settings" where
  "ex_global \<equiv> run_set [(ex_env, Set_routing ModeGlobal)] ex_start"

lemma ex_env_fields [simp]:
  "se_case ex_env = (\<lambda>s. s)" "se_enc ex_env = (\<lambda>_. Inr [1])" "se_dec ex_env = (\<lambda>_. Some (settingsLocked ex_prefs))"
  "\<not> se_unreadable ex_env" "se_fault ex_env = None" "se_version ex_env = ''1.0''" "se_bundle ex_env = []"
  by (simp_all add: ex_env_def)

lemma ex_loaded: "ds_prefs ex_start = new_prefs (\<lambda>s. s) ''data''" "ds_installed ex_start"
  "ds_disk ex_start = \<lparr>fs.target = None, temp = None\<rparr>"
  by (simp_all add: SetSettings_def NewDaemon_def settings_load_def Let_def)
    (auto intro!: prefs.equality options.equality simp: load_prefs_def load_routing_def load_tun_def zero_persisted_def
      splitFromSettings_def new_prefs_def Routing_Props.zero_options_def Let_def ValidStack_def ValidMode_def routing_consts
      StackSystem_def StackGvisor_def StackMixed_def ModeTun_def ModeSystemProxy_def)

lemma ex_global_prefs: "ds_prefs ex_global = (new_prefs (\<lambda>s. s) ''data'')\<lparr>pf_routing :=
    (pf_routing (new_prefs (\<lambda>s. s) ''data''))\<lparr>Mode := ModeGlobal\<rparr>\<rparr>"
  by (auto intro!: prefs.equality options.equality simp: handleSetRouting_def conclude_def ex_loaded Let_def new_prefs_def
      Routing_Props.zero_options_def routing_consts DefaultDNSRemote_def DefaultDNSDirect_def)

lemma ex_all: "\<forall>(e, c)\<in>set [(ex_env, Set_routing ModeGlobal)]. se_case e = (\<lambda>s. s) \<and> se_version e = ''1.0''"
  by simp

lemma reported_state_mirrors_preferences_witness:
  "r_Routing (ds_reported ex_global) = ModeGlobal \<and> MixedPort (pf_tun (ds_prefs ex_global)) \<in> {1..65535}"
proof -
  note m = reported_state_mirrors_preferences [OF stable_ex ex_env_fields(1,6) ex_all refl, of "''data''"
      "\<lparr>fs.target = None, temp = None\<rparr>" "()" "\<lparr>profiles = [], disk = \<lparr>fs.target = None, temp = None\<rparr>\<rparr>"]
  have "Mode (pf_routing (ds_prefs ex_global)) = ModeGlobal" unfolding ex_global_prefs by simp
  then have "r_Routing (applySettingsToState v (ds_prefs ex_global) s) = ModeGlobal" for v s
    unfolding applySettingsToState_def Let_def by (simp add: routing_consts del: run_set.simps)
  then have "r_Routing (ds_reported ex_global) = ModeGlobal" using m [THEN conjunct1] by metis
  then show ?thesis using m by blast
qed

lemma refused_command_changes_nothing_witness:
  "handle_set ex_env (Set_tun ''bad'') ex_start = (Refused (Unknown_stack ''bad''), ex_start)"
proof -
  obtain d' where h: "handle_set ex_env (Set_tun ''bad'') ex_start = (Refused (Unknown_stack ''bad''), d')"
    by (simp add: handleSetTun_def ValidStack_def StackSystem_def StackGvisor_def StackMixed_def)
  from refused_command_changes_nothing [OF h] have "d' = ex_start" by simp
  then show ?thesis using h by simp
qed

lemma ex_fragment:
  obtains d' where "handle_set ex_env (Set_tls_fragment True) ex_global = (Done True (ds_reported d'), d')" "ds_prefs d' = ex_prefs"
    "ds_disk ex_global = \<lparr>fs.target = Some [1], temp = None\<rparr>" "ds_installed ex_global"
proof -
  let ?h = "handle_set ex_env (Set_tls_fragment True) ex_global"
  have h: "?h = (Done True (ds_reported (snd ?h)), snd ?h)"
    by (simp add: handleSetTLSFragment_def conclude_def Let_def ex_global_prefs [simplified])
      (simp add: new_prefs_def Routing_Props.zero_options_def)
  have "ds_prefs (snd ?h) = ex_prefs"
    unfolding handle_set.simps handleSetTLSFragment_def conclude_def Let_def snd_conv persist_fields reflect_fields with_fields
      ex_global_prefs by (simp add: ex_prefs_def)
  moreover have "ds_disk ex_global = \<lparr>fs.target = Some [1], temp = None\<rparr>" "ds_installed ex_global"
    by (simp_all add: handleSetRouting_def conclude_def Let_def persistSettings_def ex_loaded settings_save_def
        after_calls_def save_calls_def)
  ultimately show ?thesis using h that by blast
qed

lemma settings_survive_restart_witness:
  "\<exists>d'. handle_set ex_env (Set_tls_fragment True) ex_global = (Done True (ds_reported d'), d') \<and>
     ds_prefs (SetSettings ex_env (NewDaemon ex_env ''data'' (ds_disk d') ()
       \<lparr>profiles = [], disk = \<lparr>fs.target = None, temp = None\<rparr>\<rparr>)) = ds_prefs d' \<and> TLSFragment (pf_routing (ds_prefs d'))"
proof -
  obtain d' where h: "handle_set ex_env (Set_tls_fragment True) ex_global = (Done True (ds_reported d'), d')"
    and p: "ds_prefs d' = ex_prefs" using ex_fragment by blast
  have codec: "settings_codec (se_enc ex_env) (se_dec ex_env) (settingsLocked (ds_prefs d'))"
    by (simp add: settings_codec_def p)
  have env: "\<forall>e'\<in>{ex_env, ex_env, ex_env} \<union> fst ` set [(ex_env, Set_routing ModeGlobal)].
      se_case e' = (\<lambda>s. s) \<and> se_version e' = ''1.0''" by simp
  note t = settings_survive_restart [OF stable_ex codec env refl refl ex_env_fields(4) refl h]
  have "fst (settings_save (se_enc ex_env) (se_fault ex_env) ps dk)" for ps dk by (simp add: settings_save_def)
  then have "ds_prefs (SetSettings ex_env (NewDaemon ex_env ''data'' (ds_disk d') ()
       \<lparr>profiles = [], disk = \<lparr>fs.target = None, temp = None\<rparr>\<rparr>)) = ds_prefs d'"
    using t [of _ "\<lparr>profiles = [], disk = \<lparr>fs.target = None, temp = None\<rparr>\<rparr>"] unfolding if_True by simp
  moreover have "TLSFragment (pf_routing (ds_prefs d'))" by (simp add: p ex_prefs_def)
  ultimately show ?thesis using h by blast
qed

lemma resent_command_restarts_nothing_witness:
  "\<exists>d'. handle_set ex_env (Set_tls_fragment True) ex_global = (Done True (ds_reported d'), d') \<and>
     fst (handle_set ex_env (Set_tls_fragment True) d') = Done False (ds_reported d')"
proof -
  obtain d' where h: "handle_set ex_env (Set_tls_fragment True) ex_global = (Done True (ds_reported d'), d')"
    using ex_fragment by blast
  have "tun_valid (pf_tun (ds_prefs (NewDaemon ex_env ''data'' \<lparr>fs.target = None, temp = None\<rparr> ()
     \<lparr>profiles = [], disk = \<lparr>fs.target = None, temp = None\<rparr>\<rparr>)))"
    by (simp add: NewDaemon_def new_tun_valid)
  then have "coherent (\<lambda>s. s) ''1.0'' ex_start"
    using SetSettings_coherent [of ex_env] stable_ex by simp
  then have "coherent (\<lambda>s. s) ''1.0'' ex_global" by (rule run_set_coherent [OF stable_ex _ ex_all])
  from resent_command_restarts_nothing [OF stable_ex this ex_env_fields(1,6,1,6) h] h show ?thesis by blast
qed

end
