(* ===== verification/Session_Runs.thy ===== *)
theory Session_Runs
  imports Session_Guard Settings_Restart
begin

text \<open>
  The runs of a session: the reported phase is what runs, a disconnect is final, the relaunches of a dying tunnel
  are bounded, a refused connect leaves the tunnel alone, and a tunnel that died under the kill switch is walked
  again on its own exit.
\<close>

section \<open>The phase is what runs\<close>

text \<open>C4. The reported phase is what runs.  In every session: the phase is connecting exactly while a walk is in
  flight, a running process belongs to the walk or to the watched connection of the current generation, and an idle
  daemon has no process, no walk, no watched connection and no armed proxy.\<close>

theorem phase_is_what_runs:
  assumes "r_State (ds_reported d) = ''idle''" "s = session_run evs (new_session d)"
  shows "(r_State (the_state s) = ''connecting'') = (ss_walk s \<noteq> None) \<and>
    (ss_running s \<longrightarrow> map_option if_gen (ss_walk s) = Some (ss_gen s) \<or> map_option li_gen (ss_life s) = Some (ss_gen s)) \<and>
    (r_State (the_state s) = ''idle'' \<longrightarrow> \<not> ss_running s \<and> ss_walk s = None \<and> ss_life s = None \<and> \<not> ss_armed s)"
proof -
  have "orderly s" unfolding assms(2) by (rule session_run_orderly [OF new_session_orderly [OF assms(1)]])
  then show ?thesis unfolding orderly_def by (cases "ss_walk s"; cases "ss_life s"; auto)
qed

section \<open>A disconnect is final\<close>

text \<open>What is not a command of the user's, nor the daemon's own start.\<close>

fun background :: "session_event \<Rightarrow> bool" where
  "background (Connect_command p n a ov) = False"
| "background Autoconnect_at_start = False"
| "background ev = True"

definition down :: "'b session \<Rightarrow> bool" where
  "down s \<longleftrightarrow> ss_walk s = None \<and> ss_life s = None \<and> \<not> ss_running s \<and> r_State (the_state s) \<in> {''idle'', ''error''} \<and>
     (\<forall>p\<in>set (ss_parked s). parked_gen p < ss_gen s)"

lemma down_same:
  "down s \<Longrightarrow> same_tunnel s s' \<Longrightarrow> set (ss_parked s') \<subseteq> set (ss_parked s) \<Longrightarrow> down s'"
  by (auto simp: down_def same_tunnel_def connection_def)

lemma down_not_connected: "down s \<Longrightarrow> phase_of (r_State (the_state s)) \<noteq> Connected"
  by (auto simp: down_def phase_connected)

lemma stale_parked:
  assumes "parked_gen p < ss_gen s" "r_State (the_state s) \<noteq> ''connected''"
  shows "same_tunnel s (run_parked a p s) \<and> ss_parked (run_parked a p s) = ss_parked s"
proof (cases p)
  case (Failover gen pid nid)
  obtain ok r where al: "allowAutoRecovery default_policy (an_now a) gen pid nid (recovery_of s) = (ok, r)"
    by (cases "allowAutoRecovery default_policy (an_now a) gen pid nid (recovery_of s)")
  have "\<not> ok" using allowAutoRecovery_current [of default_policy "an_now a" gen pid nid "recovery_of s" r] al assms(2)
    by (auto simp: phase_connected)
  then show ?thesis using al by (simp add: Failover same_tunnel_def put_budget_def Let_def)
qed (use assms in \<open>simp_all add: isCurrent_def\<close>)

lemma down_step:
  assumes "down s" "background ev"
  shows "down (session_step a ev s) \<and> r_State (the_state (session_step a ev s)) \<in> {r_State (the_state s), ''idle'', ''error''} \<and>
    (ev \<noteq> Disconnect_command \<longrightarrow> connection (the_state (session_step a ev s)) = connection (the_state s))"
proof (cases ev)
  case Disconnect_command
  obtain errs s' where h: "handleDisconnect a s = (errs, s')" by (cases "handleDisconnect a s")
  from handleDisconnect_torn [OF h] obtain s1 where t: "torn (s\<lparr>ss_relaunches := 0\<rparr>) s1" "inner s1 s'"
    "r_State (the_state s1) = ''error'' \<or> r_State (the_state s1) = ''idle'' \<and> \<not> ss_armed s1" by blast
  have "\<forall>p\<in>set (ss_parked s'). parked_gen p < ss_gen s'"
    using assms(1) t by (auto simp: down_def torn_def inner_def same_tunnel_def)
  moreover have "r_State (the_state s') \<in> {''idle'', ''error''}" using t by (auto simp: inner_def same_tunnel_def connection_def)
  moreover have "ss_walk s' = None" "ss_life s' = None" "\<not> ss_running s'" using t by (simp_all add: torn_def inner_def same_tunnel_def)
  ultimately show ?thesis by (simp add: Disconnect_command h down_def)
next
  case (Settings_command c)
  obtain ans dd where h: "handle_set (an_env a) c (ss_d s) = (ans, dd)" by (cases "handle_set (an_env a) c (ss_d s)")
  have st: "same_tunnel s (s\<lparr>ss_d := dd\<rparr>)" using handle_set_connection [OF h] by (simp add: same_tunnel_def)
  then have "r_State (the_state (s\<lparr>ss_d := dd\<rparr>)) \<noteq> ''connected''" using assms(1) by (auto simp: down_def same_tunnel_def connection_def)
  then have "snd (settings_command a c s) = s\<lparr>ss_d := dd\<rparr>"
    by (simp add: settings_command_def h reapplyLive_def Let_def split: answer.split bool.split)
  then show ?thesis using down_same [OF assms(1) st] st by (simp add: Settings_command same_tunnel_def connection_def)
next
  case (Parked_runs i)
  show ?thesis
  proof (cases "i < length (ss_parked s)")
    case True
    define s1 where "s1 = s\<lparr>ss_parked := take i (ss_parked s) @ drop (Suc i) (ss_parked s)\<rparr>"
    have sub: "set (ss_parked s1) \<subseteq> set (ss_parked s)" using set_take_subset set_drop_subset by (fastforce simp: s1_def)
    have st: "same_tunnel s s1" by (simp add: s1_def same_tunnel_def)
    have "parked_gen (ss_parked s ! i) < ss_gen s1" using assms(1) nth_mem [OF True] by (simp add: down_def s1_def)
    moreover have "r_State (the_state s1) \<noteq> ''connected''" using assms(1) by (auto simp: down_def s1_def)
    ultimately have p: "same_tunnel s1 (run_parked a (ss_parked s ! i) s1)" "ss_parked (run_parked a (ss_parked s ! i) s1) = ss_parked s1"
      using stale_parked [of "ss_parked s ! i" s1 a] by simp_all
    have t: "same_tunnel s (run_parked a (ss_parked s ! i) s1)" using st p(1) by (rule same_tunnel_trans)
    then have "down (run_parked a (ss_parked s ! i) s1)" using down_same [OF assms(1)] p(2) sub by simp
    then show ?thesis using t True by (simp add: Parked_runs parked_runs_def s1_def same_tunnel_def connection_def)
  qed (use assms(1) in \<open>simp add: Parked_runs parked_runs_def\<close>)
next
  case Health_failover
  obtain res r where h: "healthFailover default_policy (an_now a) (Get (ds_profiles (ss_d s)) (r_Profile (the_state s))) (ss_gen s)
      (r_Profile (the_state s)) (live_node [] s) (recovery_of s) = (res, r)" by fastforce
  have "res \<noteq> FailoverStarted"
    using healthFailover_connected [of default_policy "an_now a" _ "ss_gen s" _ _ "recovery_of s" r] h down_not_connected [OF assms(1)]
    by auto
  then have "health_failover a s = put_budget r s" using h by (simp add: health_failover_def Let_def)
  then show ?thesis using down_same [OF assms(1), of "put_budget r s"]
    by (simp add: Health_failover same_tunnel_def put_budget_def)
next
  case (Auto_switch dest)
  define res where "res = autoSwitchAway_locked default_policy (an_now a) (an_now a) (fst (an_select a)) (snd (an_select a))
                (Some (an_confirmed a)) (Get (ds_profiles (ss_d s)) (r_Profile (the_state s))) (ss_gen s) (r_Profile (the_state s))
                (live_node [] s) dest [] (recovery_of s)"
  have no: "res \<noteq> Some (Succeeded, r, c)" for r c
    using autoSwitch_connected [of default_policy "an_now a" "an_now a"] down_not_connected [OF assms(1)] unfolding res_def
    by fastforce
  have eq: "auto_switch a dest s = (case res of None \<Rightarrow> s | Some (Succeeded, r, _) \<Rightarrow> put_switch a False r s
      | Some (_, r, _) \<Rightarrow> put_budget r s)" by (simp add: auto_switch_def res_def Let_def)
  have "auto_switch a dest s = s \<or> (\<exists>r. auto_switch a dest s = put_budget r s)"
  proof (cases res)
    case (Some x)
    obtain sw r c where x: "x = (sw, r, c)" by (cases x)
    show ?thesis using no [of r c] by (cases sw) (auto simp: eq Some x)
  qed (simp add: eq)
  moreover have "down (put_budget r s) \<and> connection (the_state (put_budget r s)) = connection (the_state s)" for r
    using down_same [OF assms(1), of "put_budget r s"] by (simp add: same_tunnel_def put_budget_def)
  ultimately show ?thesis using assms(1) by (auto simp: Auto_switch connection_def)
next
  case Reapply
  have "r_State (the_state s) \<noteq> ''connected''" using assms(1) by (auto simp: down_def)
  then show ?thesis using assms(1) by (simp add: Reapply reapplyLive_def Let_def)
qed (use assms in \<open>simp_all add: down_def walk_process_def walk_up_def walk_ends_def process_exits_def Let_def\<close>)

text \<open>C5. A disconnect is final: once the user disconnects, whatever goroutine was waiting to bring a tunnel back
  and whatever runs, ends, dies, is measured or is set afterwards, no process, walk or watched connection ever
  appears again, until a connect is asked for.\<close>

theorem disconnect_is_final:
  assumes "r_State (ds_reported d) = ''idle''" "s = session_run evs (new_session d)"
    and "s1 = session_step a Disconnect_command s" "list_all (background \<circ> snd) evs1" "s2 = session_run evs1 s1"
  shows "\<not> ss_running s2 \<and> ss_walk s2 = None \<and> ss_life s2 = None \<and> r_State (the_state s2) \<in> {''idle'', ''error''}"
proof -
  have "orderly s" unfolding assms(2) by (rule session_run_orderly [OF new_session_orderly [OF assms(1)]])
  then have par: "\<forall>p\<in>set (ss_parked s). parked_gen p \<le> ss_gen s" by (rule orderly_parked)
  obtain errs s' where h: "handleDisconnect a s = (errs, s')" by (cases "handleDisconnect a s")
  from handleDisconnect_torn [OF h] obtain s0 where t: "torn (s\<lparr>ss_relaunches := 0\<rparr>) s0" "inner s0 s'"
    "r_State (the_state s0) = ''error'' \<or> r_State (the_state s0) = ''idle'' \<and> \<not> ss_armed s0" by blast
  have "\<forall>p\<in>set (ss_parked s'). parked_gen p < ss_gen s'"
    using par t by (auto simp: torn_def inner_def same_tunnel_def)
  moreover have "r_State (the_state s') \<in> {''idle'', ''error''}" using t by (auto simp: inner_def same_tunnel_def connection_def)
  moreover have "ss_walk s' = None" "ss_life s' = None" "\<not> ss_running s'" using t by (simp_all add: torn_def inner_def same_tunnel_def)
  ultimately have "down s1" by (simp add: down_def assms(3) h)
  then have "down (session_run evs1 s1)" using assms(4)
  proof (induction evs1 arbitrary: s1)
    case (Cons e evs1)
    then show ?case using down_step [of s1 "snd e" "fst e"] by (cases e) simp
  qed simp
  then show ?thesis by (simp add: down_def assms(5))
qed

section \<open>The budget of the relaunches\<close>

text \<open>Whether the event queues a relaunch of a tunnel that died; a quick death comes before the budget is refunded.\<close>

definition relaunches_now :: "'b answers \<Rightarrow> session_event \<Rightarrow> 'b session \<Rightarrow> bool" where
  "relaunches_now a ev s \<longleftrightarrow> (\<exists>err g p n. ev = Process_exits err \<and> ss_parked (session_step a ev s) = ss_parked s @ [Relaunch g p n])"

fun relaunch_count :: "('b answers \<times> session_event) list \<Rightarrow> 'b session \<Rightarrow> nat" where
  "relaunch_count [] s = 0"
| "relaunch_count ((a, ev) # evs) s = (if relaunches_now a ev s then 1 else 0) + relaunch_count evs (session_step a ev s)"

definition quick_death :: "'b answers \<Rightarrow> session_event \<Rightarrow> 'b session \<Rightarrow> bool" where
  "quick_death a ev s \<longleftrightarrow> (\<forall>err l. ev = Process_exits err \<longrightarrow> ss_life s = Some l \<longrightarrow> an_now a - li_since l < defaultRelaunchReset)"

fun crash_loop :: "('b answers \<times> session_event) list \<Rightarrow> 'b session \<Rightarrow> bool" where
  "crash_loop [] s = True"
| "crash_loop ((a, ev) # evs) s = (background ev \<and> ev \<noteq> Disconnect_command \<and> quick_death a ev s \<and> crash_loop evs (session_step a ev s))"

lemma startConnect_relaunches:
  assumes "startConnect a p explicit auto rem avoid s = (r, s')"
  shows "ss_relaunches s' = ss_relaunches s"
  using startConnect_cases [OF assms]
  by (auto simp: start_outcome_def launched_def inner_def torn_def split: option.splits start_error.splits)

lemma startConnect_snd_relaunches [simp]:
  "ss_relaunches (snd (startConnect a p explicit auto rem avoid s)) = ss_relaunches s"
  by (rule startConnect_relaunches [OF surjective_pairing])

lemma run_parked_relaunches: "ss_relaunches (run_parked a p s) = ss_relaunches s"
proof (cases p)
  case (Failover gen pid nid)
  obtain ok r where al: "allowAutoRecovery default_policy (an_now a) gen pid nid (recovery_of s) = (ok, r)"
    by (cases "allowAutoRecovery default_policy (an_now a) gen pid nid (recovery_of s)")
  show ?thesis using al
    by (auto simp: Failover Let_def dest!: startConnect_relaunches split: option.split prod.split)
qed (auto dest!: startConnect_relaunches split: option.split prod.split)

lemma reapply_relaunches: "ss_relaunches (reapplyLive a s) = ss_relaunches s"
  by (auto simp: reapplyLive_def Let_def dest!: startConnect_relaunches split: option.split prod.split)

lemma gates_relaunches: "local_gates a w s = (r, s') \<Longrightarrow> ss_relaunches s' = ss_relaunches s"
  using activate_inner [of a "FlRouting (if_loop w)" "FlTun (if_loop w)" s]
  by (auto simp: local_gates_def inner_def split: option.splits if_splits prod.splits)

lemma walk_up_relaunches: "ss_relaunches (walk_up a nid sel s) = ss_relaunches s"
  by (auto simp: walk_up_def publish_session_def reconcileConnectingOptions_def interrupted_def Let_def
      dest!: gates_relaunches split: option.split prod.split)

lemma quiet_relaunches:
  assumes "background ev" "ev \<noteq> Disconnect_command" "\<forall>err. ev \<noteq> Process_exits err"
  shows "ss_relaunches (session_step a ev s) = ss_relaunches s"
proof (cases ev)
  case (Settings_command c)
  then show ?thesis by (simp add: settings_command_def reapply_relaunches Let_def split: prod.split answer.split bool.split)
next
  case (Auto_switch dest)
  then show ?thesis by (simp add: auto_switch_def Let_def split: option.split prod.split autoSwitchResult.split)
qed (use assms in \<open>simp_all add: reapply_relaunches walk_process_def walk_up_relaunches walk_ends_def parked_runs_def
    run_parked_relaunches health_failover_def Let_def split: option.split prod.split\<close>)

lemma death_relaunches:
  assumes "quick_death a (Process_exits err) s" "ss_relaunches s \<le> maxRelaunches"
  shows "(if relaunches_now a (Process_exits err) s then 1 else 0) + ss_relaunches s \<le> ss_relaunches (process_exits a err s) \<and>
    ss_relaunches (process_exits a err s) \<le> maxRelaunches"
proof (cases "ss_life s")
  case None
  then show ?thesis using assms(2) by (simp add: relaunches_now_def process_exits_def)
next
  case (Some l)
  show ?thesis
  proof (cases "isCurrent (li_gen l) s")
    case False
    then show ?thesis using assms(2) by (simp add: relaunches_now_def process_exits_def Some isCurrent_def Let_def)
  next
    case True
    define s1 where "s1 = interrupted (s\<lparr>ss_running := False, ss_life := None\<rparr>)"
    obtain dr s2 where d: "disarm a s1 = (dr, s2)" by (cases "disarm a s1")
    define nid where "nid = live_node (li_node l) (s\<lparr>ss_running := False, ss_life := None\<rparr>)"
    obtain won s3 where k: "killSwitchRelaunch (li_gen l) (li_profile l) nid (an_now a - li_since l) s2 = (won, s3)"
      by (cases "killSwitchRelaunch (li_gen l) (li_profile l) nid (an_now a - li_since l) s2")
    have s2: "ss_relaunches s2 = ss_relaunches s" "ss_parked s2 = ss_parked s"
      using d by (cases rule: disarm_cases; simp add: s1_def interrupted_def)+
    have up: "an_now a - li_since l < defaultRelaunchReset" using assms(1) Some by (simp add: quick_death_def)
    have r3: "(if won then 1 else 0) + ss_relaunches s \<le> ss_relaunches s3 \<and> ss_relaunches s3 \<le> maxRelaunches"
      using k up assms(2) s2 by (auto simp: killSwitchRelaunch_def Let_def split: if_splits option.splits)
    have eq: "process_exits a err s = (if won then s3 else
      setState a ''error'' (li_profile l) nid (case dr of None \<Rightarrow> (case err of None \<Rightarrow> ''sing-box exited'' | Some m \<Rightarrow> m)
        | Some m \<Rightarrow> (case err of None \<Rightarrow> ''sing-box exited'' | Some m \<Rightarrow> m) @ ''; system proxy restore failed: '' @ m)
        (r_Routing (the_state s3)) s3)"
      using d k True unfolding s1_def nid_def by (simp add: process_exits_def Some isCurrent_def Let_def)
    have imp: "relaunches_now a (Process_exits err) s \<Longrightarrow> won"
      using killSwitchRelaunch_fields [OF k] s2 by (auto simp: relaunches_now_def eq split: if_splits)
    have "ss_relaunches (process_exits a err s) = ss_relaunches s3" by (simp add: eq)
    then show ?thesis using r3 imp by (cases "relaunches_now a (Process_exits err) s") auto
  qed
qed

text \<open>C6. The kill switch cannot churn processes for ever: while the user neither connects nor disconnects and every
  death of the tunnel comes within the reset time of its connect, at most five relaunches are queued, counting
  those the budget has already spent.\<close>

theorem relaunches_bounded:
  assumes "crash_loop evs s" "ss_relaunches s \<le> maxRelaunches"
  shows "relaunch_count evs s + ss_relaunches s \<le> maxRelaunches"
  using assms
proof (induction evs arbitrary: s)
  case (Cons e evs)
  obtain a ev where e: "e = (a, ev)" by (cases e)
  have c: "background ev" "ev \<noteq> Disconnect_command" "quick_death a ev s" "crash_loop evs (session_step a ev s)"
    using Cons.prems(1) by (simp_all add: e)
  have step: "(if relaunches_now a ev s then 1 else 0) + ss_relaunches s \<le> ss_relaunches (session_step a ev s) \<and>
      ss_relaunches (session_step a ev s) \<le> maxRelaunches"
  proof (cases "\<exists>err. ev = Process_exits err")
    case True
    then obtain err where ev: "ev = Process_exits err" by blast
    show ?thesis using death_relaunches [OF c(3) [unfolded ev] Cons.prems(2)] by (simp add: ev)
  next
    case False
    then show ?thesis using quiet_relaunches [OF c(1,2), of a s] Cons.prems(2) by (auto simp: relaunches_now_def)
  qed
  then show ?case using Cons.IH [OF c(4)] by (simp add: e split: if_splits)
qed simp


section \<open>A refused connect\<close>

text \<open>C7. What a refused connect does to the tunnel.  For an unknown profile, a conflict with another tunnel, a profile or
  chain without an exit, or a host guard that will not close, the running process, its walk or watcher, the waiting
  goroutines, the system proxy and everything reported of the connection stay as they were.  Where the clean-up of the
  system proxy fails, which comes after the old process was stopped, the tunnel is down, nothing walks or watches any
  more, no goroutine was lost, and the failure is what is reported.\<close>

theorem refused_connect_leaves_tunnel:
  assumes "handleConnect a pid node auto ov s = (Some r, s')"
  shows "case r of
      Start_refused (Cleanup m) \<Rightarrow>
        \<not> ss_running s' \<and> ss_walk s' = None \<and> ss_life s' = None \<and> ss_live s' = None \<and> ss_gen s' = Suc (ss_gen s) \<and>
        ss_parked s' = ss_parked s \<and> ss_lastGood s' = ss_lastGood s \<and> connection (the_state s') = (''error'', [], [], m)
    | _ \<Rightarrow>
        ss_gen s' = ss_gen s \<and> ss_running s' = ss_running s \<and> ss_walk s' = ss_walk s \<and> ss_life s' = ss_life s \<and>
        ss_armed s' = ss_armed s \<and> ss_live s' = ss_live s \<and> ss_parked s' = ss_parked s \<and> ss_lastGood s' = ss_lastGood s \<and>
        connection (the_state s') = connection (the_state s)"
proof (cases "connect_profile pid s")
  case (Inl x)
  then show ?thesis using assms by (auto simp: handleConnect_def connect_profile_def split: option.splits if_splits)
next
  case (Inr p)
  have none: "user_switch a p node s = None" using assms by (cases "user_switch a p node s") (simp_all add: handleConnect_def Inr)
  show ?thesis
  proof (cases "checkTunConflict a ov s")
    case (Some c)
    then show ?thesis using assms by (auto simp: handleConnect_def Inr none)
  next
    case None
    define s1 where "s1 = (raiseZapretForConnect a s)\<lparr>ss_relaunches := 0\<rparr>"
    obtain err where st: "startConnect a p node auto True [] s1 = (Some err, s')" and r: "r = Start_refused err"
      using assms by (auto simp: handleConnect_def Inr none None s1_def Let_def split: option.splits prod.splits)
    have i: "inner s (raiseZapretForConnect a s)" by (rule raiseZapret_inner)
    show ?thesis
    proof (cases err)
      case (Cleanup m)
      then obtain s0 where "inner s1 s0" "torn s0 s'" "connection (the_state s') = (''error'', [], [], m)"
        using startConnect_cases [OF st] by (auto simp: start_outcome_def)
      with i show ?thesis by (simp add: r Cleanup s1_def inner_def same_tunnel_def torn_def)
    qed (use startConnect_cases [OF st] i in \<open>simp_all add: r start_outcome_def s1_def inner_def same_tunnel_def\<close>)
  qed
qed

section \<open>A tunnel that died under the kill switch\<close>

lemma Order_permutes: "set (walk_order a p cands node auto s) = set cands \<and> length (walk_order a p cands node auto s) = length cands"
proof -
  have "mset (walk_order a p cands node auto s) = mset cands"
    by (simp add: walk_order_def Order_def NewByLatency_def Fallback.New_def rebuild_permutation Let_def)
  then show ?thesis using mset_eq_setD mset_eq_length by blast
qed

text \<open>The walk of a connect that started, and what it is a permutation of.\<close>

lemma startConnect_walk:
  assumes "startConnect a p explicit auto rem avoid s = (None, s')" "connect_plan (pf_multihop (the_prefs s)) p explicit avoid = Inr (node, cands)"
  shows "\<exists>w. ss_walk s' = Some w \<and> FlProfile (if_loop w) = profile.ID p \<and>
    set (if_order w) = set (if node = [] \<and> avoid \<noteq> [] then dropCandidate cands avoid else cands) \<and>
    length (if_order w) = length (if node = [] \<and> avoid \<noteq> [] then dropCandidate cands avoid else cands)"
proof -
  define s1 where "s1 = pickFreeTunAddress a s"
  define cs where "cs = (if node = [] \<and> avoid \<noteq> [] then dropCandidate cands avoid else cands)"
  note eq = assms(1) [unfolded startConnect_def Let_def assms(2) sum.case prod.case, folded s1_def cs_def]
  obtain pr s2 where p: "prepareProtection a s1 = (pr, s2)" by (cases "prepareProtection a s1")
  obtain tr s3 where t: "teardown a ''connecting'' (profile.ID p) [] s2 = (tr, s3)"
    by (cases "teardown a ''connecting'' (profile.ID p) [] s2")
  have "s' = launch a p (walk_order a p cs node auto s2)
            (resolveMultihop (pf_routing (the_prefs s2)) (pf_multihop (the_prefs s)) (serverTags p)) (pf_tun (the_prefs s2))
            rem explicit s3"
    using eq unfolding p prod.case t by (auto split: if_split_asm option.split_asm)
  then show ?thesis using Order_permutes [of a p cs node auto s2] unfolding cs_def [symmetric]
    by (simp add: launch_def Let_def)
qed

lemma buildCandidates_pinned:
  "node \<noteq> [] \<Longrightarrow> buildCandidates p node = Inr cands \<Longrightarrow> \<exists>c. cands = [c] \<and> attempt.NodeID c = node"
  by (auto simp: buildCandidates_def find_Some_iff split: option.splits if_splits)

lemma connect_plan_pinned:
  assumes "connect_plan mh p explicit [] = Inr (node, cands)" "explicit \<noteq> []" "\<not> MhEnabled mh"
  shows "node = explicit \<and> (\<exists>c. cands = [c] \<and> attempt.NodeID c = explicit)"
  using assms buildCandidates_pinned [of explicit p cands]
  by (auto simp: connect_plan_def Let_def split: option.splits sum.splits if_splits)

text \<open>C8. A tunnel that dies under the kill switch is walked again on its own exit: with budget left and its profile
  still stored, the death queues a relaunch; when that goroutine gets its turn, either a walk of this profile with
  the exit the user was on as its only candidate is under way, or the refusal is reported as an error.  It is never
  left reported as connected.\<close>

theorem dead_tunnel_walks_its_exit:
  assumes "ss_life s = Some l" "li_gen l = ss_gen s" "KillSwitch (pf_routing (the_prefs s))" "\<not> MhEnabled (pf_multihop (the_prefs s))"
    and "ss_relaunches s < maxRelaunches \<or> defaultRelaunchReset \<le> an_now a - li_since l"
    and "Get (ds_profiles (ss_d s)) (li_profile l) = Some p" "r_Node (the_state s) = nid" "nid \<noteq> []"
    and "s1 = session_step a (Process_exits err) s" "s2 = session_step a2 (Parked_runs (length (ss_parked s))) s1"
  shows "ss_parked s1 = ss_parked s @ [Relaunch (ss_gen s) p nid] \<and> \<not> ss_running s1 \<and>
    (if fst (startConnect a2 p nid False False [] (s1\<lparr>ss_parked := ss_parked s\<rparr>)) = None
     then r_State (the_state s2) = ''connecting'' \<and>
       (\<exists>w. ss_walk s2 = Some w \<and> FlProfile (if_loop w) = profile.ID p \<and> map attempt.NodeID (if_order w) = [nid])
     else r_State (the_state s2) = ''error'')"
proof -
  define s0 where "s0 = interrupted (s\<lparr>ss_running := False, ss_life := None\<rparr>)"
  obtain dr sd where d: "disarm a s0 = (dr, sd)" by (cases "disarm a s0")
  have sd: "ss_d sd = ss_d s0" "ss_relaunches sd = ss_relaunches s" "ss_parked sd = ss_parked s" "ss_gen sd = ss_gen s"
    "\<not> ss_running sd" using d by (cases rule: disarm_cases; simp add: s0_def interrupted_def)+
  have nid: "live_node (li_node l) (s\<lparr>ss_running := False, ss_life := None\<rparr>) = nid" using assms(7,8) by (simp add: live_node_def)
  obtain won sk where k: "killSwitchRelaunch (li_gen l) (li_profile l) nid (an_now a - li_since l) sd = (won, sk)"
    by (cases "killSwitchRelaunch (li_gen l) (li_profile l) nid (an_now a - li_since l) sd")
  have pr: "the_prefs s0 = the_prefs s" "ds_profiles (ss_d s0) = ds_profiles (ss_d s)"
    by (simp_all add: s0_def interrupted_def)
  have won
    using k assms(3,5,6) sd(2) by (auto simp: killSwitchRelaunch_def pr sd(1) maxRelaunches_def Let_def split: if_splits)
  have s1: "s1 = sk"
    using d k \<open>won\<close> assms(1,2) unfolding s0_def by (simp add: assms(9) process_exits_def nid isCurrent_def Let_def)
  note kf = killSwitchRelaunch_fields [OF k]
  have f: "ss_parked s1 = ss_parked s @ [Relaunch (ss_gen s) p nid]" "\<not> ss_running s1" "ss_gen s1 = ss_gen s" "the_prefs s1 = the_prefs s"
    using kf \<open>won\<close> sd pr assms(2,6) by (simp_all add: s1)
  define s1' where "s1' = s1\<lparr>ss_parked := ss_parked s\<rparr>"
  have s2: "s2 = run_parked a2 (Relaunch (ss_gen s) p nid) s1'"
    using f(1) by (simp add: assms(10) parked_runs_def s1'_def)
  obtain r s3 where st: "startConnect a2 p nid False False [] s1' = (r, s3)" by (cases "startConnect a2 p nid False False [] s1'")
  show ?thesis
  proof (cases r)
    case None
    have s23: "s2 = s3" using s2 st None f(3) by (simp add: isCurrent_def s1'_def)
    obtain node cands where cp: "connect_plan (pf_multihop (the_prefs s1')) p nid [] = Inr (node, cands)"
      using st None by (cases "connect_plan (pf_multihop (the_prefs s1')) p nid []") (auto simp: startConnect_def)
    have "pf_multihop (the_prefs s1') = pf_multihop (the_prefs s)" by (simp add: s1'_def f(4))
    then obtain c where c: "node = nid" "cands = [c]" "attempt.NodeID c = nid"
      using connect_plan_pinned [OF cp assms(8)] assms(4) by auto
    obtain w where w: "ss_walk s3 = Some w" "FlProfile (if_loop w) = profile.ID p" "set (if_order w) = {c}" "length (if_order w) = 1"
      using startConnect_walk [OF st [unfolded None] cp] c assms(8) by auto
    have "if_order w = [c]" using w(3,4) by (cases "if_order w") auto
    moreover have "r_State (the_state s3) = ''connecting''"
      using startConnect_cases [OF st] None by (simp add: start_outcome_def launched_def connection_def)
    ultimately show ?thesis using f(1,2) st None w c by (simp add: s23 s1'_def)
  next
    case (Some e)
    then have "r_State (the_state s2) = ''error''" using s2 st f(3) by (simp add: isCurrent_def s1'_def)
    then show ?thesis using f(1,2) st Some by (simp add: s1'_def)
  qed
qed

end
