(* ===== verification/Session_Examples.thy ===== *)
theory Session_Examples
  imports Session_Runs
begin

text \<open>
  A session on concrete data: a daemon with the sample profile, a connect to its second exit, the kill switch
  turned on while the walk is under way, and the walk coming up behind the filter engine.  The properties of the
  session are applied at its states.
\<close>

section \<open>The daemon and its surroundings\<close>

definition ex_daemon :: "kernel daemon_settings" where
  "ex_daemon =
     \<lparr>ds_prefs = new_prefs (\<lambda>s. s) ''data'', ds_reported = new_reported ''1.0'', ds_installed = False,
      ds_disk = \<lparr>fs.target = None, temp = None\<rparr>, ds_guard = Guard.New (None :: unit backend option), ds_kernel = empty_kernel,
      ds_profiles = \<lparr>profiles = [sample_profile], disk = \<lparr>fs.target = None, temp = None\<rparr>\<rparr>\<rparr>"

definition ex_answers :: "kernel backend option \<Rightarrow> kernel answers" where
  "ex_answers be =
     \<lparr>an_env = \<lparr>se_case = (\<lambda>s. s), se_enc = (\<lambda>_. Inl []), se_dec = (\<lambda>_. None), se_unreadable = False, se_fault = None,
        se_backend = be, se_version = ''1.0'', se_bundle = []\<rparr>,
      an_disarm = None, an_arm = None, an_address = (''172.19.0.1/30'', ''fdfe:dcba:9876::1/126''), an_rtt = Map.empty,
      an_ifaces = None, an_tunname = ''tenebra'', an_bypass = None, an_now = 0,
      an_select = (\<lparr>Reported = False, Took = False\<rparr>, \<lparr>Reported = False, Took = False\<rparr>), an_confirmed = False,
      an_text = (\<lambda>_. ''refused'')\<rparr>"

lemma ex_answers_fields [simp]:
  "se_case (an_env (ex_answers be)) = (\<lambda>s. s)" "se_enc (an_env (ex_answers be)) = (\<lambda>_. Inl [])"
  "se_backend (an_env (ex_answers be)) = be" "an_disarm (ex_answers be) = None" "an_arm (ex_answers be) = None"
  "an_address (ex_answers be) = (''172.19.0.1/30'', ''fdfe:dcba:9876::1/126'')" "an_ifaces (ex_answers be) = None"
  "an_tunname (ex_answers be) = ''tenebra''" "an_bypass (ex_answers be) = None" "an_now (ex_answers be) = 0"
  "an_text (ex_answers be) = (\<lambda>_. ''refused'')"
  by (simp_all add: ex_answers_def)

lemma ex_daemon_fields [simp]:
  "ds_prefs ex_daemon = new_prefs (\<lambda>s. s) ''data''" "ds_guard ex_daemon = Guard.New (None :: unit backend option)"
  "ds_kernel ex_daemon = empty_kernel" "r_State (ds_reported ex_daemon) = ''idle''"
  by (simp_all add: ex_daemon_def new_reported_def)

lemma ex_Get [simp]: "Get (ds_profiles ex_daemon) ''p1'' = Some sample_profile"
  by (simp add: ex_daemon_def Get_def indexOf_def sample_profile_def)

lemma ex_profile_ID [simp]: "profile.ID sample_profile = ''p1''"
  by (simp add: sample_profile_def)

lemma ex_dns: "ValidateDNS (\<lambda>s. s) DefaultDNSDirect"
  unfolding DefaultDNSDirect_def by code_simp

lemma new_prefs_fields [simp]:
  "\<not> KillSwitch (pf_routing (new_prefs u dir))" "DNSDirect (pf_routing (new_prefs u dir)) = DefaultDNSDirect"
  "pf_multihop (new_prefs u dir) = \<lparr>MhEnabled = False, EntryID = [], ExitID = []\<rparr>" "TunMode (pf_tun (new_prefs u dir)) = ModeTun"
  "InterfaceName (pf_tun (new_prefs u dir)) = []"
  by (simp_all add: new_prefs_def Routing_Props.zero_options_def IsSystemProxy_def ModeTun_def ModeSystemProxy_def)

section \<open>The phase, a disconnect, a refused connect\<close>

lemma phase_is_what_runs_witness:
  "\<exists>s. s = session_run [(ex_answers None, Connect_command ''p1'' ''s2'' False False), (ex_answers None, Walk_process True)]
      (new_session ex_daemon) \<and> (r_State (the_state s) = ''connecting'') = (ss_walk s \<noteq> None)"
  using phase_is_what_runs [OF ex_daemon_fields(4) refl,
      of "[(ex_answers None, Connect_command ''p1'' ''s2'' False False), (ex_answers None, Walk_process True)]"] by blast

lemma disconnect_is_final_witness:
  "\<not> ss_running (session_run [(ex_answers None, Parked_runs 0), (ex_answers None, Walk_process True), (ex_answers None, Reapply)]
      (session_step (ex_answers None) Disconnect_command
        (session_run [(ex_answers None, Connect_command ''p1'' ''s2'' False False), (ex_answers None, Walk_process True)]
          (new_session ex_daemon))))"
proof -
  have "list_all (background \<circ> snd) [(ex_answers None, Parked_runs 0), (ex_answers None, Walk_process True), (ex_answers None, Reapply)]"
    by simp
  from disconnect_is_final [OF ex_daemon_fields(4) refl refl this refl] show ?thesis by blast
qed

lemma refused_connect_leaves_tunnel_witness:
  "\<exists>s'. handleConnect (ex_answers None) ''gone'' [] False False (new_session ex_daemon) = (Some Profile_unknown, s') \<and>
     ss_running s' = ss_running (new_session ex_daemon)"
proof -
  have "Get (ds_profiles ex_daemon) ''gone'' = None" by (simp add: ex_daemon_def Get_def indexOf_def sample_profile_def)
  then have h: "handleConnect (ex_answers None) ''gone'' [] False False (new_session ex_daemon) =
      (Some Profile_unknown, new_session ex_daemon)"
    by (simp add: handleConnect_def connect_profile_def new_session_def)
  from refused_connect_leaves_tunnel [OF h] h show ?thesis by simp
qed

section \<open>A tunnel that dies under the kill switch\<close>

text \<open>The session of a tunnel up on the second exit, with the kill switch on and the legacy guard.\<close>

definition ex_tunnel :: "kernel session" where
  "ex_tunnel =
     (new_session (ex_daemon\<lparr>ds_guard := NewLegacyEngineOnly,
        ds_prefs := (new_prefs (\<lambda>s. s) ''data'')\<lparr>pf_routing := (pf_routing (new_prefs (\<lambda>s. s) ''data''))\<lparr>KillSwitch := True\<rparr>\<rparr>,
        ds_reported := (new_reported ''1.0'')\<lparr>r_State := ''connected'', r_Profile := ''p1'', r_Node := ''s2''\<rparr>\<rparr>))
     \<lparr>ss_running := True, ss_life := Some \<lparr>li_gen = 0, li_profile = ''p1'', li_node = ''s2'', li_since = 0\<rparr>\<rparr>"

lemma ex_tunnel_fields:
  "ss_life ex_tunnel = Some \<lparr>li_gen = 0, li_profile = ''p1'', li_node = ''s2'', li_since = 0\<rparr>" "ss_gen ex_tunnel = 0"
  "KillSwitch (pf_routing (the_prefs ex_tunnel))" "\<not> MhEnabled (pf_multihop (the_prefs ex_tunnel))"
  "ss_relaunches ex_tunnel = 0" "Get (ds_profiles (ss_d ex_tunnel)) ''p1'' = Some sample_profile"
  "r_Node (the_state ex_tunnel) = ''s2''" "ss_parked ex_tunnel = []"
  by (simp_all add: ex_tunnel_def new_session_def)

lemma dead_tunnel_walks_its_exit_witness:
  "ss_parked (session_step (ex_answers None) (Process_exits None) ex_tunnel) = [Relaunch 0 sample_profile ''s2'']"
  using dead_tunnel_walks_its_exit [OF ex_tunnel_fields(1) _ ex_tunnel_fields(3,4), of "ex_answers None" sample_profile "''s2''"
      _ None _ "ex_answers None", OF _ _ _ _ _ refl refl]
  by (simp add: ex_tunnel_fields maxRelaunches_def)

lemma relaunches_bounded_witness:
  "relaunch_count [(ex_answers None, Process_exits None)] ex_tunnel \<le> 5"
proof -
  have "crash_loop [(ex_answers None, Process_exits None)] ex_tunnel"
    by (simp add: quick_death_def ex_tunnel_fields defaultRelaunchReset_def)
  from relaunches_bounded [OF this] show ?thesis by (simp add: ex_tunnel_fields maxRelaunches_def)
qed


section \<open>A connection behind the filter engine\<close>

lemma ex_connect_plan:
  "connect_plan \<lparr>MhEnabled = False, EntryID = [], ExitID = []\<rparr> sample_profile ''s2'' [] =
     Inr (''s2'', [\<lparr>attempt.NodeID = ''s2'', Node = sample_node ''b''\<rparr>])"
  by (simp add: connect_plan_def validateMultihopProfile_def sample_candidates Let_def)

lemma ex_guard_idle: "Interrupted (Guard.New be) = Guard.New be"
  by (simp add: Guard.Interrupted_def Guard.New_def off_state_def)

lemma raise_prefs:
  "the_guard (raiseZapretForConnect a s) = the_guard s" "ds_kernel (ss_d (raiseZapretForConnect a s)) = ds_kernel (ss_d s)"
  "KillSwitch (pf_routing (the_prefs (raiseZapretForConnect a s))) = KillSwitch (pf_routing (the_prefs s))"
  "DNSDirect (pf_routing (the_prefs (raiseZapretForConnect a s))) = DNSDirect (pf_routing (the_prefs s))"
  "pf_multihop (the_prefs (raiseZapretForConnect a s)) = pf_multihop (the_prefs s)"
  "TunMode (pf_tun (the_prefs (raiseZapretForConnect a s))) = TunMode (pf_tun (the_prefs s))"
  "InterfaceName (pf_tun (the_prefs (raiseZapretForConnect a s))) = InterfaceName (pf_tun (the_prefs s))"
  "ss_armed (raiseZapretForConnect a s) = ss_armed s"
  by (simp_all add: raiseZapretForConnect_def pickFreeTunAddress_def Let_def)

definition ex_walking :: "kernel session" where
  "ex_walking = session_step (ex_answers None) (Connect_command ''p1'' ''s2'' False False) (new_session ex_daemon)"

lemma ex_walking_state:
  obtains w where "ss_walk ex_walking = Some w" "if_gen w = ss_gen ex_walking" "attempt.NodeID ` set (if_order w) = {''s2''}"
    "TunAddress (FlTun (if_loop w)) = ''172.19.0.1/30''" "InterfaceName (FlTun (if_loop w)) = []" "\<not> IsSystemProxy (FlTun (if_loop w))"
    "DNSDirect (FlRouting (if_loop w)) = DefaultDNSDirect"
    "the_guard ex_walking = Guard.New (None :: unit backend option)" "ds_kernel (ss_d ex_walking) = empty_kernel"
    "r_State (the_state ex_walking) = ''connecting''" "DNSDirect (pf_routing (the_prefs ex_walking)) = DefaultDNSDirect"
    "\<not> KillSwitch (pf_routing (the_prefs ex_walking))" "InterfaceName (pf_tun (the_prefs ex_walking)) = []"
proof -
  define s1 where "s1 = (raiseZapretForConnect (ex_answers None) (new_session ex_daemon))\<lparr>ss_relaunches := 0\<rparr>"
  have d1: "the_guard s1 = Guard.New (None :: unit backend option)" "ds_kernel (ss_d s1) = empty_kernel"
    "\<not> KillSwitch (pf_routing (the_prefs s1))" "DNSDirect (pf_routing (the_prefs s1)) = DefaultDNSDirect"
    "pf_multihop (the_prefs s1) = \<lparr>MhEnabled = False, EntryID = [], ExitID = []\<rparr>"
    "TunMode (pf_tun (the_prefs s1)) = ModeTun" "InterfaceName (pf_tun (the_prefs s1)) = []" "\<not> ss_armed s1"
    by (simp_all add: s1_def raise_prefs new_session_def)
  have "ex_walking = snd (startConnect (ex_answers None) sample_profile ''s2'' False True [] s1)"
  proof -
    have "user_switch (ex_answers None) sample_profile ''s2'' (new_session ex_daemon) = None"
      using user_switch_connected [of "ex_answers None" sample_profile "''s2''" "new_session ex_daemon"]
      by (cases "user_switch (ex_answers None) sample_profile ''s2'' (new_session ex_daemon)") (auto simp: new_session_def)
    moreover have "connect_profile ''p1'' (new_session ex_daemon) = Inr sample_profile"
      by (simp add: connect_profile_def new_session_def sample_profile_fields)
    moreover have "checkTunConflict (ex_answers None) False (new_session ex_daemon) = None" by (simp add: checkTunConflict_def)
    ultimately show ?thesis
      by (simp add: ex_walking_def handleConnect_def s1_def Let_def split: prod.split option.split)
  qed
  moreover define s2 where "s2 = pickFreeTunAddress (ex_answers None) s1"
  have d2: "the_guard s2 = Guard.New (None :: unit backend option)" "ds_kernel (ss_d s2) = empty_kernel"
    "\<not> KillSwitch (pf_routing (the_prefs s2))" "DNSDirect (pf_routing (the_prefs s2)) = DefaultDNSDirect"
    "\<not> IsSystemProxy (pf_tun (the_prefs s2))" "InterfaceName (pf_tun (the_prefs s2)) = []" "\<not> ss_armed s2"
    "TunAddress (pf_tun (the_prefs s2)) = ''172.19.0.1/30''"
    using d1 by (simp_all add: s2_def pickFreeTunAddress_def IsSystemProxy_def ModeTun_def ModeSystemProxy_def)
  have p: "prepareProtection (ex_answers None) s2 = (None, s2)"
    using d2 by (simp add: prepareProtection_def Guard.New_def off_state_def Let_def)
  obtain tr s3 where t: "teardown (ex_answers None) ''connecting'' ''p1'' [] s2 = (tr, s3)"
    by (cases "teardown (ex_answers None) ''connecting'' ''p1'' [] s2")
  have d3: "tr = None" "ss_walk s3 = None" "the_guard s3 = Interrupted (the_guard s2)" "ds_kernel (ss_d s3) = empty_kernel"
    "the_prefs s3 = the_prefs s2"
    using t d2 by (auto simp: teardown_def disarm_def interrupted_def Let_def)
  define w where "w = walk_order (ex_answers None) sample_profile [\<lparr>attempt.NodeID = ''s2'', Node = sample_node ''b''\<rparr>] ''s2'' False s2"
  have "set w = {\<lparr>attempt.NodeID = ''s2'', Node = sample_node ''b''\<rparr>}"
    using Order_permutes [of "ex_answers None" sample_profile "[\<lparr>attempt.NodeID = ''s2'', Node = sample_node ''b''\<rparr>]" "''s2''" False s2]
    by (simp add: w_def)
  moreover have "startConnect (ex_answers None) sample_profile ''s2'' False True [] s1 =
      (None, launch (ex_answers None) sample_profile w (resolveMultihop (pf_routing (the_prefs s2))
        \<lparr>MhEnabled = False, EntryID = [], ExitID = []\<rparr> (serverTags sample_profile)) (pf_tun (the_prefs s2)) True ''s2'' s3)"
    using t d3(1) p
    by (simp add: startConnect_def d1(5) ex_connect_plan s2_def [symmetric] w_def ex_profile_ID)
  ultimately have x: "ex_walking = launch (ex_answers None) sample_profile w (resolveMultihop (pf_routing (the_prefs s2))
        \<lparr>MhEnabled = False, EntryID = [], ExitID = []\<rparr> (serverTags sample_profile)) (pf_tun (the_prefs s2)) True ''s2'' s3"
    and sw: "set w = {\<lparr>attempt.NodeID = ''s2'', Node = sample_node ''b''\<rparr>}" by simp_all
  obtain fl where fl: "fl = the (ss_walk ex_walking)" "ss_walk ex_walking = Some fl"
    by (simp add: x launch_def Let_def)
  show ?thesis
    by (rule that [OF fl(2)]) (simp_all add: fl(1) x launch_def resolveMultihop_def Let_def d2 d3 sw ex_guard_idle)
qed

definition ex_guarded :: "kernel session" where
  "ex_guarded = session_step (ex_answers None) (Settings_command (Set_kill_switch True)) ex_walking"

lemma ex_guarded_state:
  obtains w where "ss_walk ex_guarded = Some w" "if_gen w = ss_gen ex_guarded" "attempt.NodeID ` set (if_order w) = {''s2''}"
    "TunAddress (FlTun (if_loop w)) = ''172.19.0.1/30''" "InterfaceName (FlTun (if_loop w)) = []" "\<not> IsSystemProxy (FlTun (if_loop w))"
    "DNSDirect (FlRouting (if_loop w)) = DefaultDNSDirect"
    "the_guard ex_guarded = Guard.New (None :: unit backend option)" "ds_kernel (ss_d ex_guarded) = empty_kernel"
    "r_State (the_state ex_guarded) = ''connecting''" "KillSwitch (pf_routing (the_prefs ex_guarded))"
proof -
  obtain w where w: "ss_walk ex_walking = Some w" "if_gen w = ss_gen ex_walking" "attempt.NodeID ` set (if_order w) = {''s2''}"
    "TunAddress (FlTun (if_loop w)) = ''172.19.0.1/30''" "InterfaceName (FlTun (if_loop w)) = []" "\<not> IsSystemProxy (FlTun (if_loop w))"
    "DNSDirect (FlRouting (if_loop w)) = DefaultDNSDirect"
    "the_guard ex_walking = Guard.New (None :: unit backend option)" "ds_kernel (ss_d ex_walking) = empty_kernel"
    "r_State (the_state ex_walking) = ''connecting''" "DNSDirect (pf_routing (the_prefs ex_walking)) = DefaultDNSDirect"
    "\<not> KillSwitch (pf_routing (the_prefs ex_walking))" "InterfaceName (pf_tun (the_prefs ex_walking)) = []"
    by (rule ex_walking_state)
  obtain ans d where h: "handle_set (an_env (ex_answers None)) (Set_kill_switch True) (ss_d ex_walking) = (ans, d)"
    by (cases "handle_set (an_env (ex_answers None)) (Set_kill_switch True) (ss_d ex_walking)")
  have arm: "arm_guard (an_env (ex_answers None)) True True (g_state (Guard.New (None :: unit backend option)))
      (reflect (an_env (ex_answers None)) (with_routing (\<lambda>ro. ro\<lparr>KillSwitch := True\<rparr>) (ss_d ex_walking))) =
      (Some unavailable_message, reflect (an_env (ex_answers None)) (with_routing (\<lambda>ro. ro\<lparr>KillSwitch := True\<rparr>) (ss_d ex_walking)))"
  proof -
    have "r_State (applySettingsToState v p r) = r_State r" for v p r by (simp add: applySettingsToState_def Let_def)
    moreover have "DNSDirect (Normalize (\<lambda>s. s) (ro\<lparr>KillSwitch := True\<rparr>)) = DNSDirect ro" if "DNSDirect ro = DefaultDNSDirect" for ro
      using that by (simp add: Normalize_def DefaultDNSDirect_def)
    ultimately show ?thesis
      using w(8,10,11) ex_dns by (simp add: arm_guard_def Guard.New_def off_state_def Prepare_def prepare_def)
  qed
  have d: "d = persistSettings (an_env (ex_answers None)) (reflect (an_env (ex_answers None))
      (with_routing (\<lambda>ro. ro\<lparr>KillSwitch := True\<rparr>) (ss_d ex_walking)))" "ans = answer.Refused (Host_protection_error unavailable_message)"
    using h arm w(8,12) by (simp_all add: handleSetKillSwitch_def Let_def)
  have x: "ex_guarded = ex_walking\<lparr>ss_d := d\<rparr>" by (simp add: ex_guarded_def settings_command_def h d(2) del: handle_set.simps)
  have "r_State (applySettingsToState v p r) = r_State r" for v p r by (simp add: applySettingsToState_def Let_def)
  then show ?thesis using w by (intro that) (simp_all add: x d(1))
qed

text \<open>The filter engine takes the tunnel's policy, as it does from an empty store.\<close>

lemma ex_engine:
  obtains k where "VerifyTunnel (Some ex_backend) ''tenebra'' ''172.19.0.1/30'' False
      (Guard.New (None :: unit backend option), empty_kernel) =
    (Inr (), confirm (blocked_state True) (Some \<lparr>vt_name = ''tenebra'', vt_address = ''172.19.0.1/30'', vt_luid = 7\<rparr>)
      (pending (Guard.New (None :: unit backend option))), k)"
proof -
  have "ids_ok ex_ids" "inj (\<lambda>s :: string. s)"
    by (auto simp: ids_ok_def ex_ids_def Core_def Engine_def DHCP_def)
  then obtain k where "wfp_Replace no_failure (\<lambda>s. s) ex_v6 (Inr ex_ids) 7 empty_kernel = (Inr (), k)"
    using Replace_succeeds [of ex_ids ex_v6 "\<lambda>s. s" 7] by (auto simp: ex_v6_def)
  then show ?thesis using that
    by (simp add: VerifyTunnel_def resolve_luid_def ex_backend_def wfp_backend_def)
qed

definition ex_selector :: selector_shape where
  "ex_selector = \<lparr>SsDefault = ''b'', SsMembers = [''b'']\<rparr>"

lemma ex_announced: "r_State (the_state (session_step (ex_answers (Some ex_backend)) (Walk_up ''s2'' sel)
    (session_step (ex_answers None) (Walk_process True) ex_guarded))) = ''connected''"
proof -
  obtain w where w: "ss_walk ex_guarded = Some w" "if_gen w = ss_gen ex_guarded" "attempt.NodeID ` set (if_order w) = {''s2''}"
    "TunAddress (FlTun (if_loop w)) = ''172.19.0.1/30''" "InterfaceName (FlTun (if_loop w)) = []" "\<not> IsSystemProxy (FlTun (if_loop w))"
    "DNSDirect (FlRouting (if_loop w)) = DefaultDNSDirect"
    "the_guard ex_guarded = Guard.New (None :: unit backend option)" "ds_kernel (ss_d ex_guarded) = empty_kernel"
    "r_State (the_state ex_guarded) = ''connecting''" "KillSwitch (pf_routing (the_prefs ex_guarded))"
    by (rule ex_guarded_state)
  define s where "s = ex_guarded\<lparr>ss_running := True\<rparr>"
  have s: "session_step (ex_answers None) (Walk_process True) ex_guarded = s" by (simp add: walk_process_def w(1) s_def)
  have dns: "DNSDirect (Normalize (\<lambda>s. s) (FlRouting (if_loop w))) = DefaultDNSDirect"
    using w(7) by (simp add: Normalize_def DefaultDNSDirect_def)
  have ex_dns': "DefaultDNSDirect \<noteq> []" by (simp add: DefaultDNSDirect_def)
  have legacy: "\<not> g_legacyEngineOnly (Guard.New (None :: unit backend option))" by (simp add: Guard.New_def)
  have "fst (local_gates (ex_answers (Some ex_backend)) w s) = None"
    by (rule ex_engine) (simp add: local_gates_def activateProtectionLocked_def s_def w dns ex_dns ex_dns' legacy Let_def)
  then obtain s1 where "local_gates (ex_answers (Some ex_backend)) w s = (None, s1)"
    by (cases "local_gates (ex_answers (Some ex_backend)) w s") simp
  then have "session_step (ex_answers (Some ex_backend)) (Walk_up ''s2'' sel) s =
      publish_session (ex_answers (Some ex_backend)) w ''s2'' sel s1"
    by (simp add: walk_up_def s_def w isCurrent_def)
  then show ?thesis unfolding s
    by (simp add: publish_session_def reconcileConnectingOptions_def Let_def split: option.split)
qed

lemma announced_behind_guard_witness:
  "\<exists>s s'. s = session_run [(ex_answers None, Connect_command ''p1'' ''s2'' False False),
        (ex_answers None, Settings_command (Set_kill_switch True)), (ex_answers None, Walk_process True)] (new_session ex_daemon) \<and>
     s' = session_step (ex_answers (Some ex_backend)) (Walk_up ''s2'' ex_selector) s \<and>
     r_State (the_state s') = ''connected'' \<and> state.Status (g_state (the_guard s')) = ''active''"
proof -
  let ?evs = "[(ex_answers None, Connect_command ''p1'' ''s2'' False False),
        (ex_answers None, Settings_command (Set_kill_switch True)), (ex_answers None, Walk_process True)]"
  have s: "session_run ?evs (new_session ex_daemon) = session_step (ex_answers None) (Walk_process True) ex_guarded"
    by (simp only: session_run.simps ex_guarded_def ex_walking_def)
  have t: "\<forall>(a, ev)\<in>set ?evs. trusts (wfp_backends (\<lambda>s. s) ex_v6) a"
    "trusts (wfp_backends (\<lambda>s. s) ex_v6) (ex_answers (Some ex_backend))"
    by (simp_all add: trusts_def ex_backend_def wfp_backends_def)
  have "r_State (the_state (session_step (ex_answers None) (Walk_process True) ex_guarded)) \<noteq> ''connected''"
    "KillSwitch (pf_routing (the_prefs (session_step (ex_answers None) (Walk_process True) ex_guarded)))"
    "\<not> g_legacyEngineOnly (the_guard (session_step (ex_answers None) (Walk_process True) ex_guarded))"
    by (rule ex_guarded_state; simp add: walk_process_def Guard.New_def)+
  with announced_behind_guard [OF _ ex_daemon_fields(2) t(1) refl t(2) refl, of "''s2''" ex_selector] ex_announced [of ex_selector] wf_empty_kernel
  show ?thesis unfolding s by (metis ex_daemon_fields(3))
qed

end
