(* ===== verification/Control_Profiles_Props.thy ===== *)
theory Control_Profiles_Props
  imports Control_Profiles Session_Examples
begin

text \<open>
  What the profile commands promise: a removed profile leaves no tunnel behind, a refresh replaces the content of
  its profile or changes nothing, every stored profile stays well formed, and the premium tier is only ever given
  on an answer that grants it.
\<close>

section \<open>The session leaves the store alone\<close>

lemma startConnect_profiles:
  assumes "startConnect a p explicit auto rem avoid s = (r, s')"
  shows "ds_profiles (ss_d s') = ds_profiles (ss_d s)"
  using startConnect_cases [OF assms]
  by (auto simp: start_outcome_def launched_def inner_def torn_def split: option.splits start_error.splits)

lemma startConnect_snd_profiles [simp]:
  "ds_profiles (ss_d (snd (startConnect a p explicit auto rem avoid s))) = ds_profiles (ss_d s)"
  by (rule startConnect_profiles [OF surjective_pairing])

lemma run_parked_profiles: "ds_profiles (ss_d (run_parked a p s)) = ds_profiles (ss_d s)"
proof (cases p)
  case (Failover gen pid nid)
  obtain ok r where al: "allowAutoRecovery default_policy (an_now a) gen pid nid (recovery_of s) = (ok, r)"
    by (cases "allowAutoRecovery default_policy (an_now a) gen pid nid (recovery_of s)")
  show ?thesis using al
    by (auto simp: Failover Let_def dest!: startConnect_profiles split: option.split prod.split)
qed (auto dest!: startConnect_profiles split: option.split prod.split)

lemma reapply_profiles: "ds_profiles (ss_d (reapplyLive a s)) = ds_profiles (ss_d s)"
  by (auto simp: reapplyLive_def Let_def dest!: startConnect_profiles split: option.split prod.split)

lemma gates_profiles: "local_gates a w s = (r, s') \<Longrightarrow> ds_profiles (ss_d s') = ds_profiles (ss_d s)"
  using activate_inner [of a "FlRouting (if_loop w)" "FlTun (if_loop w)" s]
  by (auto simp: local_gates_def inner_def split: option.splits if_splits prod.splits)

lemma walk_up_profiles: "ds_profiles (ss_d (walk_up a nid sel s)) = ds_profiles (ss_d s)"
  by (auto simp: walk_up_def publish_session_def reconcileConnectingOptions_def interrupted_def Let_def
      dest!: gates_profiles split: option.split prod.split)

lemma put_switch_profiles [simp]: "ds_profiles (ss_d (put_switch a rem r s)) = ds_profiles (ss_d s)"
  by (simp add: put_switch_def Let_def)

lemma process_exits_profiles: "ds_profiles (ss_d (process_exits a err s)) = ds_profiles (ss_d s)"
proof (cases "ss_life s")
  case (Some l)
  define s1 where "s1 = interrupted (s\<lparr>ss_running := False, ss_life := None\<rparr>)"
  obtain dr s2 where d: "disarm a s1 = (dr, s2)" by (cases "disarm a s1")
  have d2: "ds_profiles (ss_d s2) = ds_profiles (ss_d s)"
    using d by (cases rule: disarm_cases) (simp_all add: s1_def interrupted_def)
  define nid where "nid = live_node (li_node l) (s\<lparr>ss_running := False, ss_life := None\<rparr>)"
  obtain won s3 where k: "killSwitchRelaunch (li_gen l) (li_profile l) nid (an_now a - li_since l) s2 = (won, s3)"
    by (cases "killSwitchRelaunch (li_gen l) (li_profile l) nid (an_now a - li_since l) s2")
  have "ds_profiles (ss_d s3) = ds_profiles (ss_d s)"
    using k d2 by (auto simp: killSwitchRelaunch_def Let_def split: if_splits option.splits)
  then show ?thesis
    using d k unfolding s1_def nid_def by (simp add: process_exits_def Some Let_def)
qed (simp add: process_exits_def)

lemma handleConnect_profiles: "ds_profiles (ss_d (snd (handleConnect a pid node auto ov s))) = ds_profiles (ss_d s)"
proof (cases "connect_profile pid s")
  case (Inr p)
  have i: "ds_profiles (ss_d (raiseZapretForConnect a s)) = ds_profiles (ss_d s)"
    using raiseZapret_inner [of s a] by (simp add: inner_def)
  show ?thesis
  proof (cases "user_switch a p node s")
    case (Some s1)
    then show ?thesis using user_switch_connected [OF Some] by (auto simp: handleConnect_def Inr)
  next
    case None
    then show ?thesis using i
      by (auto simp: handleConnect_def Inr Let_def dest!: startConnect_profiles split: option.split prod.split)
  qed
qed (simp add: handleConnect_def)

lemma session_step_profiles: "ds_profiles (ss_d (session_step a ev s)) = ds_profiles (ss_d s)"
proof (cases ev)
  case Disconnect_command
  obtain errs s' where h: "handleDisconnect a s = (errs, s')" by (cases "handleDisconnect a s")
  from handleDisconnect_torn [OF h] obtain s1 where "torn (s\<lparr>ss_relaunches := 0\<rparr>) s1" "inner s1 s'" by blast
  then show ?thesis by (simp add: Disconnect_command h torn_def inner_def)
next
  case (Settings_command c)
  obtain ans dd where h: "handle_set (an_env a) c (ss_d s) = (ans, dd)" by (cases "handle_set (an_env a) c (ss_d s)")
  have "ds_profiles dd = ds_profiles (ss_d s)" using handle_set_connection [OF h] by simp
  then show ?thesis
    by (simp add: Settings_command settings_command_def h reapply_profiles Let_def split: answer.split bool.split)
next
  case Autoconnect_at_start
  then show ?thesis using raiseZapret_inner [of s a] by (auto simp: AutoconnectOnStart_def inner_def Let_def split: option.split)
next
  case (Auto_switch dest)
  then show ?thesis by (simp add: auto_switch_def Let_def split: option.split prod.split autoSwitchResult.split)
qed (simp_all add: handleConnect_profiles reapply_profiles walk_process_def walk_up_profiles walk_ends_def
    process_exits_profiles parked_runs_def run_parked_profiles health_failover_def Let_def split: option.split prod.split)

section \<open>The commands and the session\<close>

lemma put_store_fields [simp]:
  "dm_store (put_store st d) = st" "the_state (dm_session (put_store st d)) = the_state (dm_session d)"
  "the_prefs (dm_session (put_store st d)) = the_prefs (dm_session d)" "dm_lookups (put_store st d) = dm_lookups d"
  "same_tunnel (dm_session d) (dm_session (put_store st d))" "ss_parked (dm_session (put_store st d)) = ss_parked (dm_session d)"
  by (simp_all add: put_store_def same_tunnel_def)

text \<open>A command that only touches the store and the waiting lookups.\<close>

definition store_only :: "'b daemon \<Rightarrow> 'b daemon \<Rightarrow> bool" where
  "store_only d d' \<longleftrightarrow> same_tunnel (dm_session d) (dm_session d') \<and> ss_parked (dm_session d') = ss_parked (dm_session d) \<and>
     the_prefs (dm_session d') = the_prefs (dm_session d)"

lemma store_only_refl [simp]: "store_only d d"
  by (simp add: store_only_def)

lemma store_only_trans: "store_only d d1 \<Longrightarrow> store_only d1 d2 \<Longrightarrow> store_only d d2"
  unfolding store_only_def using same_tunnel_trans by metis

lemma store_only_orderly: "store_only d d' \<Longrightarrow> orderly (dm_session d) \<Longrightarrow> orderly (dm_session d')"
  by (rule orderly_inner) (simp_all add: store_only_def)

lemma add_profile_run:
  "add_profile e p d = (r, d') \<Longrightarrow> store_only d d' \<and> dm_lookups d' = dm_lookups d \<and>
     run_op (pe_enc e) (pe_fault e) (OpAdd p) (dm_store d) = (case r of None \<Rightarrow> Inr () | Some x \<Rightarrow> Inl x, dm_store d')"
  by (auto simp: add_profile_def store_only_def split: prod.splits sum.splits)

lemma update_profile_run:
  "update_profile e p d = (r, d') \<Longrightarrow> store_only d d' \<and> dm_lookups d' = dm_lookups d \<and>
     run_op (pe_enc e) (pe_fault e) (OpUpdate p) (dm_store d) = (case r of None \<Rightarrow> Inr () | Some x \<Rightarrow> Inl x, dm_store d')"
  by (auto simp: update_profile_def store_only_def split: prod.splits sum.splits)

section \<open>What is stored\<close>

text \<open>A stored profile has an identifier, servers, a tier that exists, and an address exactly if it is a subscription.\<close>

definition wf_profile :: "profile \<Rightarrow> bool" where
  "wf_profile p \<longleftrightarrow> profile.ID p \<noteq> [] \<and> Servers p \<noteq> [] \<and> Tier p \<in> {[], TierFree, TierPremium} \<and>
     (Source p = SourceSubscription \<and> URL p \<noteq> [] \<or> Source p = SourceManual \<and> URL p = [])"

definition wf_store :: "store \<Rightarrow> bool" where
  "wf_store st \<longleftrightarrow> distinct_ids st \<and> (\<forall>p\<in>set (profiles st). wf_profile p)"

lemma tier_range: "lookupTier e url m \<in> {[], TierFree, TierPremium}"
  by (simp add: lookupTier_def NormalizedTier_def split: option.split)

lemma add_wf:
  assumes "add_profile e p d = (r, d')" "wf_store (dm_store d)" "profile.ID p \<noteq> [] \<Longrightarrow> wf_profile p"
  shows "wf_store (dm_store d')"
proof (cases r)
  case None
  then have op: "run_op (pe_enc e) (pe_fault e) (OpAdd p) (dm_store d) = (Inr (), dm_store d')"
    using add_profile_run [OF assms(1)] by simp
  then have "profile.ID p \<noteq> []" by (auto simp: Add_def split: if_splits)
  moreover have "set (profiles (dm_store d')) \<subseteq> insert p (set (profiles (dm_store d)))"
    using op by (auto simp: Add_def dest!: save_Inr split: if_splits prod.splits sum.splits)
  ultimately show ?thesis using run_op_ok [OF op] assms(2,3) by (auto simp: wf_store_def)
next
  case (Some x)
  then have "run_op (pe_enc e) (pe_fault e) (OpAdd p) (dm_store d) = (Inl x, dm_store d')"
    using add_profile_run [OF assms(1)] by simp
  from run_op_fail [OF this] show ?thesis using assms(2) by (simp add: wf_store_def distinct_ids_def)
qed

lemma update_wf:
  assumes "update_profile e p d = (r, d')" "wf_store (dm_store d)" "wf_profile p"
  shows "wf_store (dm_store d')"
proof (cases r)
  case None
  then have op: "run_op (pe_enc e) (pe_fault e) (OpUpdate p) (dm_store d) = (Inr (), dm_store d')"
    using update_profile_run [OF assms(1)] by simp
  then obtain i where "profiles (dm_store d') = (profiles (dm_store d))[i := p]"
    by (auto simp: Update_def Let_def dest!: save_Inr split: if_splits option.splits prod.splits sum.splits)
  then have "set (profiles (dm_store d')) \<subseteq> insert p (set (profiles (dm_store d)))"
    by (simp add: set_update_subset_insert)
  then show ?thesis using run_op_ok [OF op] assms(2,3) by (auto simp: wf_store_def)
next
  case (Some x)
  then have "run_op (pe_enc e) (pe_fault e) (OpUpdate p) (dm_store d) = (Inl x, dm_store d')"
    using update_profile_run [OF assms(1)] by simp
  from run_op_fail [OF this] show ?thesis using assms(2) by (simp add: wf_store_def distinct_ids_def)
qed

lemma remove_wf:
  assumes "Remove enc fault pid st = (r, st')" "wf_store st"
  shows "wf_store st'"
proof (cases r)
  case (Inr u)
  then have op: "run_op enc fault (OpRemove pid) st = (Inr u, st')" using assms(1) by simp
  then obtain i where "profiles st' = take i (profiles st) @ drop (Suc i) (profiles st)"
    by (auto simp: Remove_def Let_def dest!: save_Inr split: option.splits prod.splits sum.splits)
  then have "set (profiles st') \<subseteq> set (profiles st)" using set_take_subset set_drop_subset by fastforce
  then show ?thesis using run_op_ok [OF op] assms(2) by (auto simp: wf_store_def)
next
  case (Inl x)
  then have "run_op enc fault (OpRemove pid) st = (Inl x, st')" using assms(1) by simp
  from run_op_fail [OF this] show ?thesis using assms(2) by (simp add: wf_store_def distinct_ids_def)
qed

lemma Get_stored: "Get st pid = Some p \<Longrightarrow> p \<in> set (profiles st) \<and> profile.ID p = pid"
  by (auto simp: Get_def dest!: indexOf_Some split: option.splits)

lemma applyUserInfo_fields [simp]:
  "profile.ID (applyUserInfo u h p) = profile.ID p" "PName (applyUserInfo u h p) = PName p"
  "Source (applyUserInfo u h p) = Source p" "URL (applyUserInfo u h p) = URL p" "Servers (applyUserInfo u h p) = Servers p"
  "Tier (applyUserInfo u h p) = Tier p" "Managed (applyUserInfo u h p) = Managed p"
  by (simp_all add: applyUserInfo_def Let_def split: option.split)

lemma NewProfile_fields:
  "NewProfile sha random now name source url nodes = Inr p \<Longrightarrow>
     Source p = source \<and> URL p = url \<and> Tier p = [] \<and> PName p = name \<and> Servers p = assignServerIDs sha nodes"
  by (auto simp: NewProfile_def split: sum.splits)

lemma fetch_nodes_some: "fetch_nodes e url = Inr (nodes, h) \<Longrightarrow> nodes \<noteq> []"
  by (auto simp: fetch_nodes_def split: sum.splits prod.splits option.splits if_splits)

text \<open>What a profile knows of its quota, and what a usage header says of it.\<close>

definition quota :: "profile \<Rightarrow> int \<times> int \<times> int option" where
  "quota p = (TrafficUsed p, TrafficTotal p, ExpiresAt p)"

definition header_quota :: "case_table \<Rightarrow> string \<Rightarrow> int \<times> int \<times> int option" where
  "header_quota u h =
     (let info = ParseUserInfo u h in (ui_Upload info + ui_Download info, ui_Total info, ui_Expire info))"

lemma quota_simps [simp]:
  "quota (p\<lparr>Servers := ss, UpdatedAt := t\<rparr>) = quota p" "quota (p\<lparr>Managed := m\<rparr>) = quota p" "quota (p\<lparr>Tier := r\<rparr>) = quota p"
  "h \<noteq> [] \<Longrightarrow> quota (applyUserInfo u h (p\<lparr>ExpiresAt := None, TrafficUsed := x, TrafficTotal := y\<rparr>)) = header_quota u h"
  by (simp_all add: quota_def header_quota_def applyUserInfo_def Let_def split: option.split)

lemma refreshed_fields:
  assumes "refreshed e mh p = Inr q"
  shows "profile.ID q = profile.ID p \<and> PName q = PName p \<and> Source q = Source p \<and> URL q = URL p \<and> Servers q \<noteq> [] \<and>
    Tier q = lookupTier e (URL p) (DetectManaged (pe_case e) (URL p)) \<and>
    (MhEnabled mh \<and> (hasServer p (EntryID mh) \<or> hasServer p (ExitID mh)) \<longrightarrow> validateMultihopProfile q mh = None) \<and>
    (\<exists>nodes h rebuilt. fetch_nodes e (URL p) = Inr (nodes, h) \<and> Servers q = assignServerIDs (pe_sha e) nodes \<and>
      quota q = (if h = [] then quota p else header_quota (pe_case e) h))"
proof -
  obtain nodes h where f: "fetch_nodes e (URL p) = Inr (nodes, h)"
    using assms by (auto simp: refreshed_def split: sum.splits)
  obtain rb where n: "NewProfile (pe_sha e) (pe_random e) (pe_now e) (PName p) SourceSubscription (URL p) nodes = Inr rb"
    using assms f by (auto simp: refreshed_def split: sum.splits)
  define p1 where "p1 = p\<lparr>Servers := Servers rb, UpdatedAt := UpdatedAt rb\<rparr>"
  have mh: "MhEnabled mh \<and> (hasServer p (EntryID mh) \<or> hasServer p (ExitID mh)) \<longrightarrow> validateMultihopProfile p1 mh = None"
    and q: "q = (let p = (if h \<noteq> [] then applyUserInfo (pe_case e) h (p1\<lparr>ExpiresAt := None, TrafficUsed := 0, TrafficTotal := 0\<rparr>)
        else p1); p = p\<lparr>Managed := DetectManaged (pe_case e) (URL p)\<rparr> in p\<lparr>Tier := lookupTier e (URL p) (Managed p)\<rparr>)"
    using assms f n unfolding p1_def by (auto simp: refreshed_def Let_def split: option.splits if_splits)
  have same: "validateMultihopProfile a mh = validateMultihopProfile b mh" if "Servers a = Servers b" for a b
    using that by (simp add: validateMultihopProfile_def hasServer_def serverTags_def profileNodes_def serverIDs_def)
  have s: "Servers q = Servers p1" by (simp add: q Let_def)
  have "Servers p1 = assignServerIDs (pe_sha e) nodes" using NewProfile_fields [OF n] by (simp add: p1_def)
  moreover have "Servers p1 \<noteq> []" using calculation fetch_nodes_some [OF f] by (simp add: assignServerIDs_def)
  moreover have "validateMultihopProfile q mh = validateMultihopProfile p1 mh" by (rule same [OF s])
  ultimately show ?thesis using f mh s by (simp add: q p1_def Let_def)
qed

lemma refreshProfile_run:
  assumes "refreshProfile e p d = (r, d')"
  shows "store_only d d' \<and> dm_lookups d' = dm_lookups d \<and>
    (case r of
       Inr (q, _) \<Rightarrow> refreshed e (pf_multihop (the_prefs (dm_session d))) p = Inr q \<and>
         run_op (pe_enc e) (pe_fault e) (OpUpdate q) (dm_store d) = (Inr (), dm_store d')
     | Inl _ \<Rightarrow> profiles (dm_store d') = profiles (dm_store d) \<and> target (disk (dm_store d')) = target (disk (dm_store d)))"
proof (cases "refreshed e (pf_multihop (the_prefs (dm_session d))) p")
  case (Inl x)
  then show ?thesis using assms by (auto simp: refreshProfile_def)
next
  case (Inr q)
  obtain u d1 where u: "update_profile e q d = (u, d1)" by (cases "update_profile e q d")
  note run = update_profile_run [OF u]
  show ?thesis
  proof (cases u)
    case None
    then show ?thesis using assms Inr u run by (auto simp: refreshProfile_def)
  next
    case (Some x)
    then have "run_op (pe_enc e) (pe_fault e) (OpUpdate q) (dm_store d) = (Inl x, dm_store d1)" using run by simp
    from run_op_fail [OF this] show ?thesis using assms Inr u run Some by (auto simp: refreshProfile_def)
  qed
qed

lemma refreshProfile_wf:
  assumes "refreshProfile e p d = (r, d')" "wf_store (dm_store d)" "refreshable p" "profile.ID p \<noteq> []"
  shows "wf_store (dm_store d')"
proof (cases "refreshed e (pf_multihop (the_prefs (dm_session d))) p")
  case (Inl x)
  then show ?thesis using assms by (auto simp: refreshProfile_def)
next
  case (Inr q)
  have "wf_profile q"
    using refreshed_fields [OF Inr] assms(3,4) tier_range [of e "URL p"] by (simp add: wf_profile_def refreshable_def)
  moreover obtain u d1 where u: "update_profile e q d = (u, d1)" by (cases "update_profile e q d")
  ultimately have "wf_store (dm_store d1)" using update_wf [OF u assms(2)] by blast
  then show ?thesis using assms(1) Inr u by (cases u) (simp_all add: refreshProfile_def)
qed

text \<open>One command, whatever it is.\<close>

lemma import_run:
  assumes "handleImportSubscription e url name d = (rep, d')"
  shows "store_only d d' \<and> (wf_store (dm_store d) \<longrightarrow> wf_store (dm_store d'))"
proof (cases "\<exists>nodes h p. url \<noteq> [] \<and> fetch_nodes e url = Inr (nodes, h) \<and>
    NewProfile (pe_sha e) (pe_random e) (pe_now e) (if name = [] then url else name) SourceSubscription url nodes = Inr p")
  case True
  then obtain nodes h p where u: "url \<noteq> []" and f: "fetch_nodes e url = Inr (nodes, h)"
    and n: "NewProfile (pe_sha e) (pe_random e) (pe_now e) (if name = [] then url else name) SourceSubscription url nodes = Inr p"
    by blast
  define q where "q = (applyUserInfo (pe_case e) h p)\<lparr>Managed := DetectManaged (pe_case e) url\<rparr>"
  obtain r d1 where ad: "add_profile e q d = (r, d1)" by (cases "add_profile e q d")
  have d': "d' = d1 \<or> d' = startEntitlementLookup (profile.ID q) url (Managed q) d1"
    using assms u f n ad unfolding q_def by (auto simp: handleImportSubscription_def Let_def split: option.splits)
  then have same: "store_only d1 d'" "dm_store d' = dm_store d1"
    by (auto simp: startEntitlementLookup_def store_only_def)
  have "wf_profile q" if "profile.ID q \<noteq> []"
    using that NewProfile_fields [OF n] fetch_nodes_some [OF f] u by (simp add: q_def wf_profile_def assignServerIDs_def)
  then have "wf_store (dm_store d) \<longrightarrow> wf_store (dm_store d1)" using add_wf [OF ad] by blast
  then show ?thesis using add_profile_run [OF ad] same store_only_trans by metis
next
  case False
  then have "d' = d" using assms by (auto simp: handleImportSubscription_def Let_def split: sum.splits prod.splits if_splits)
  then show ?thesis by simp
qed

lemma manual_run:
  assumes "NewProfile (pe_sha e) (pe_random e) (pe_now e) name SourceManual [] nodes = Inr p" "nodes \<noteq> []"
    "add_profile e p d = (r, d')"
  shows "store_only d d' \<and> (wf_store (dm_store d) \<longrightarrow> wf_store (dm_store d'))"
proof -
  have "wf_profile p" if "profile.ID p \<noteq> []"
    using that NewProfile_fields [OF assms(1)] assms(2) by (simp add: wf_profile_def assignServerIDs_def)
  then show ?thesis using add_wf [OF assms(3)] add_profile_run [OF assms(3)] by blast
qed

lemma import_link_run:
  assumes "handleImportLink e link name d = (rep, d')"
  shows "store_only d d' \<and> (wf_store (dm_store d) \<longrightarrow> wf_store (dm_store d'))"
proof (cases "d' = d")
  case False
  then obtain n nm p r where "ParseLink (pe_case e) (pe_json e) link = Inr n"
    "NewProfile (pe_sha e) (pe_random e) (pe_now e) nm SourceManual [] [n] = Inr p" "add_profile e p d = (r, d')"
    using assms by (auto simp: handleImportLink_def Let_def split: sum.splits prod.splits if_splits option.splits)
  then show ?thesis using manual_run [of e nm "[n]" p d r d'] by blast
qed simp

lemma import_links_run:
  assumes "handleImportLinks e raws name d = (rep, d')"
  shows "store_only d d' \<and> (wf_store (dm_store d) \<longrightarrow> wf_store (dm_store d'))"
proof (cases "d' = d")
  case False
  obtain nodes k where pl: "ParseLinks (pe_case e) (pe_json e) raws = (nodes, k)" by (cases "ParseLinks (pe_case e) (pe_json e) raws")
  obtain nm p r where "nodes \<noteq> []"
    "NewProfile (pe_sha e) (pe_random e) (pe_now e) nm SourceManual [] nodes = Inr p" "add_profile e p d = (r, d')"
    using assms False pl by (auto simp: handleImportLinks_def Let_def split: sum.splits prod.splits if_splits option.splits)
  then show ?thesis using manual_run [of e nm nodes p d r d'] by blast
qed simp

lemma refresh_run:
  assumes "handleRefreshSubscription e pid d = (rep, d')"
  shows "store_only d d' \<and> (wf_store (dm_store d) \<longrightarrow> wf_store (dm_store d'))"
proof (cases "d' = d")
  case False
  then obtain p r where "pid \<noteq> []" "Get (dm_store d) pid = Some p" "refreshable p" and rp: "refreshProfile e p d = (r, d')"
    using assms by (auto simp: handleRefreshSubscription_def split: sum.splits prod.splits if_splits option.splits)
  then show ?thesis using refreshProfile_run [OF rp] refreshProfile_wf [OF rp] Get_stored [of "dm_store d" pid p] by auto
qed simp

lemma refresh_loop_run:
  assumes "refresh_loop e ps c d = (c', d')" "\<forall>p\<in>set ps. profile.ID p \<noteq> []"
  shows "store_only d d' \<and> (wf_store (dm_store d) \<longrightarrow> wf_store (dm_store d'))"
  using assms
proof (induction ps arbitrary: c d)
  case (Cons p ps)
  show ?case
  proof (cases "refreshable p")
    case True
    obtain r d1 where rp: "refreshProfile (e p) p d = (r, d1)" by (cases "refreshProfile (e p) p d")
    obtain c1 where rest: "refresh_loop e ps c1 d1 = (c', d')"
      using Cons.prems True rp by (cases r) auto
    have "store_only d1 d' \<and> (wf_store (dm_store d1) \<longrightarrow> wf_store (dm_store d'))"
      using Cons.IH [OF rest] Cons.prems(2) by simp
    moreover have "store_only d d1" using refreshProfile_run [OF rp] by blast
    moreover have "wf_store (dm_store d) \<longrightarrow> wf_store (dm_store d1)"
      using refreshProfile_wf [OF rp _ True] Cons.prems(2) by simp
    ultimately show ?thesis using store_only_trans by blast
  next
    case False
    then show ?thesis using Cons.prems Cons.IH [of c d] by simp
  qed
qed simp

lemma sweep_run:
  assumes "refreshAllSubscriptions e d = (c', d')" "wf_store (dm_store d)"
  shows "store_only d d' \<and> wf_store (dm_store d')"
proof -
  have "\<forall>p\<in>set (profiles (dm_store d)). profile.ID p \<noteq> []" using assms(2) by (simp add: wf_store_def wf_profile_def)
  from refresh_loop_run [OF assms(1) [unfolded refreshAllSubscriptions_def Profile_Store.List_def] this] assms(2)
  show ?thesis by blast
qed

lemma arrives_run: "store_only d (entitlement_arrives e ident url d)"
proof (cases "Get (dm_store d) ident")
  case (Some cur)
  obtain r d1 where u: "update_profile e (cur\<lparr>Tier := TierPremium\<rparr>) d = (r, d1)"
    by (cases "update_profile e (cur\<lparr>Tier := TierPremium\<rparr>) d")
  then show ?thesis using update_profile_run [OF u] by (simp add: entitlement_arrives_def Some)
qed (simp add: entitlement_arrives_def)

definition removal_torn :: "'b answers \<Rightarrow> string \<Rightarrow> 'b daemon \<Rightarrow> 'b daemon" where
  "removal_torn a pid d =
     (if r_Profile (the_state (dm_session d)) = pid \<and> r_State (the_state (dm_session d)) \<noteq> ''idle''
      then d\<lparr>dm_session := snd (teardown a ''idle'' [] [] (dm_session d))\<rparr> else d)"

lemma removal_torn_store: "dm_store (removal_torn a pid d) = dm_store d"
proof -
  obtain r s where t: "teardown a ''idle'' [] [] (dm_session d) = (r, s)" by (cases "teardown a ''idle'' [] [] (dm_session d)")
  then show ?thesis using teardown_cases [OF t] by (simp add: removal_torn_def torn_def)
qed

lemma remove_run:
  assumes "handleRemoveProfile a e pid d = (rep, d')" "pid \<noteq> []"
  shows "store_only (removal_torn a pid d) d' \<and>
    (\<exists>r. Remove (pe_enc e) (pe_fault e) pid (dm_store d) = (r, dm_store d') \<and> (rep = Empty_reply \<longleftrightarrow> (\<exists>u. r = Inr u)))"
proof -
  obtain r st where rm: "Remove (pe_enc e) (pe_fault e) pid (dm_store d) = (r, st)"
    by (cases "Remove (pe_enc e) (pe_fault e) pid (dm_store d)")
  have "(rep, d') = (case r of Inl err \<Rightarrow> Failed (Store_refused err) | Inr _ \<Rightarrow> Empty_reply, put_store st (removal_torn a pid d))"
    using assms rm removal_torn_store [of a pid d] unfolding handleRemoveProfile_def removal_torn_def [symmetric] Let_def
    by (cases r) auto
  then show ?thesis using rm by (cases r) (auto simp: store_only_def)
qed

lemma removal_torn_orderly:
  assumes "orderly (dm_session d)"
  shows "orderly (dm_session (removal_torn a pid d)) \<and>
    (\<forall>w. ss_walk (dm_session (removal_torn a pid d)) = Some w \<longrightarrow> FlProfile (if_loop w) \<noteq> pid) \<and>
    (\<forall>l. ss_life (dm_session (removal_torn a pid d)) = Some l \<longrightarrow> li_profile l \<noteq> pid) \<and>
    (r_Profile (the_state (dm_session d)) = pid \<longrightarrow> \<not> ss_running (dm_session (removal_torn a pid d)))"
proof (cases "r_Profile (the_state (dm_session d)) = pid \<and> r_State (the_state (dm_session d)) \<noteq> ''idle''")
  case True
  obtain r s1 where t: "teardown a ''idle'' [] [] (dm_session d) = (r, s1)" by (cases "teardown a ''idle'' [] [] (dm_session d)")
  have c: "torn (dm_session d) s1" "r_State (the_state s1) = ''error'' \<or> r_State (the_state s1) = ''idle'' \<and> \<not> ss_armed s1"
    using teardown_cases [OF t] by (auto simp: connection_def split: option.splits)
  have "orderly s1" by (rule torn_orderly [OF c(1) _ _ assms c(2)]) simp_all
  then show ?thesis using c(1) t True by (simp add: removal_torn_def torn_def)
next
  case False
  then have "removal_torn a pid d = d" by (auto simp: removal_torn_def)
  moreover have "FlProfile (if_loop w) \<noteq> pid" if "ss_walk (dm_session d) = Some w" for w
    using that assms False by (auto simp: orderly_def)
  moreover have "li_profile l \<noteq> pid" if "ss_life (dm_session d) = Some l" for l
    using that assms False by (auto simp: orderly_def)
  moreover have "\<not> ss_running (dm_session d)" if "r_Profile (the_state (dm_session d)) = pid"
    using that assms False by (auto simp: orderly_def)
  ultimately show ?thesis using assms by simp
qed

section \<open>Every run\<close>

text \<open>The premium tier of the stored profiles, and what would have granted it.\<close>

definition grants :: "profile_env \<Rightarrow> bool" where
  "grants e \<longleftrightarrow> (\<exists>t ent. pe_entitlement e t = Some ent \<and> EntActive ent \<and> EntTier ent = TierPremium)"

definition no_premium :: "store \<Rightarrow> bool" where
  "no_premium st \<longleftrightarrow> (\<forall>p\<in>set (profiles st). Tier p \<noteq> TierPremium)"

lemma tier_granted: "lookupTier e url m = TierPremium \<Longrightarrow> grants e"
proof -
  assume t: "lookupTier e url m = TierPremium"
  have ne: "TierFree \<noteq> TierPremium" "[] \<noteq> TierPremium" by (simp_all add: TierFree_def TierPremium_def)
  have m: m using t ne by (cases m) (simp_all add: lookupTier_def)
  obtain g where g: "EntitlementTarget (pe_case e) url = Some g"
    using t m ne by (cases "EntitlementTarget (pe_case e) url") (simp_all add: lookupTier_def)
  obtain ent where "pe_entitlement e g = Some ent" "NormalizedTier ent = TierPremium"
    using t m g ne by (cases "pe_entitlement e g") (simp_all add: lookupTier_def)
  then show ?thesis using ne unfolding grants_def NormalizedTier_def by (intro exI [of _ g] exI [of _ ent]) (simp split: if_splits)
qed

lemma daemon_step_kept:
  assumes "orderly (dm_session d)" "wf_store (dm_store d)"
  shows "orderly (dm_session (daemon_step a e ev d)) \<and> wf_store (dm_store (daemon_step a e ev d))"
proof (cases ev)
  case (Session_event sev)
  then show ?thesis using assms by (simp add: session_step_orderly session_step_profiles)
next
  case (Import_subscription url name)
  obtain rep d' where h: "handleImportSubscription e url name d = (rep, d')" by (cases "handleImportSubscription e url name d")
  then show ?thesis using import_run [OF h] store_only_orderly [of d d'] assms by (simp add: Import_subscription)
next
  case (Import_link link name)
  obtain rep d' where h: "handleImportLink e link name d = (rep, d')" by (cases "handleImportLink e link name d")
  then show ?thesis using import_link_run [OF h] store_only_orderly [of d d'] assms by (simp add: Import_link)
next
  case (Import_links raws name)
  obtain rep d' where h: "handleImportLinks e raws name d = (rep, d')" by (cases "handleImportLinks e raws name d")
  then show ?thesis using import_links_run [OF h] store_only_orderly [of d d'] assms by (simp add: Import_links)
next
  case (Remove_profile pid)
  show ?thesis
  proof (cases "pid = []")
    case True
    then show ?thesis using assms by (simp add: Remove_profile handleRemoveProfile_def)
  next
    case False
    obtain rep d' where h: "handleRemoveProfile a e pid d = (rep, d')" by (cases "handleRemoveProfile a e pid d")
    from remove_run [OF h False] obtain r where so: "store_only (removal_torn a pid d) d'"
      and rm: "Remove (pe_enc e) (pe_fault e) pid (dm_store d) = (r, dm_store d')" by blast
    show ?thesis
      using removal_torn_orderly [OF assms(1)] store_only_orderly [OF so] remove_wf [OF rm assms(2)]
      by (simp add: Remove_profile h)
  qed
next
  case (Refresh_subscription pid)
  obtain rep d' where h: "handleRefreshSubscription e pid d = (rep, d')" by (cases "handleRefreshSubscription e pid d")
  then show ?thesis using refresh_run [OF h] store_only_orderly [of d d'] assms by (simp add: Refresh_subscription)
next
  case Refresh_all
  obtain c d' where h: "refreshAllSubscriptions (\<lambda>_. e) d = (c, d')" by (cases "refreshAllSubscriptions (\<lambda>_. e) d")
  then show ?thesis using sweep_run [OF h assms(2)] store_only_orderly [of d d'] assms by (simp add: Refresh_all)
next
  case (Entitlement_arrives i)
  show ?thesis
  proof (cases "i < length (dm_lookups d)")
    case True
    obtain ident url where iu: "dm_lookups d ! i = (ident, url)" by (cases "dm_lookups d ! i")
    define d1 where "d1 = d\<lparr>dm_lookups := take i (dm_lookups d) @ drop (Suc i) (dm_lookups d)\<rparr>"
    have d1: "orderly (dm_session d1)" "wf_store (dm_store d1)" using assms by (simp_all add: d1_def)
    have "wf_store (dm_store (entitlement_arrives e ident url d1))"
    proof (cases "Get (dm_store d1) ident")
      case (Some cur)
      obtain r d2 where u: "update_profile e (cur\<lparr>Tier := TierPremium\<rparr>) d1 = (r, d2)"
        by (cases "update_profile e (cur\<lparr>Tier := TierPremium\<rparr>) d1")
      show ?thesis
      proof (cases "lookupTier e url True = TierPremium")
        case True
        have "wf_profile cur" using Get_stored [OF Some] d1(2) by (simp add: wf_store_def)
        then have "wf_profile (cur\<lparr>Tier := TierPremium\<rparr>)" by (simp add: wf_profile_def)
        from update_wf [OF u d1(2) this] show ?thesis using d1(2) by (simp add: entitlement_arrives_def Some u)
      qed (use d1 in \<open>simp add: entitlement_arrives_def\<close>)
    qed (use d1 in \<open>simp add: entitlement_arrives_def\<close>)
    then show ?thesis using store_only_orderly [OF arrives_run d1(1)] True iu
      by (simp add: Entitlement_arrives d1_def)
  qed (use assms in \<open>simp add: Entitlement_arrives\<close>)
qed

lemma daemon_run_kept:
  "orderly (dm_session d) \<Longrightarrow> wf_store (dm_store d) \<Longrightarrow>
     orderly (dm_session (daemon_run evs d)) \<and> wf_store (dm_store (daemon_run evs d))"
proof (induction evs arbitrary: d)
  case (Cons x evs)
  obtain a e ev where x: "x = (a, e, ev)" by (cases x)
  from daemon_step_kept [OF Cons.prems] have "orderly (dm_session (daemon_step a e ev d))" "wf_store (dm_store (daemon_step a e ev d))"
    by blast+
  from Cons.IH [OF this] show ?case by (simp add: x)
qed simp

text \<open>C11. Every stored profile stays well formed.  Whatever is imported, removed, refreshed or granted, whatever the
  session does in between and whatever saves and fetches fail: identifiers are distinct and not empty, every profile
  has at least one server and one of the three tiers, and a subscription has an address and a pasted profile none.\<close>

theorem stored_profiles_well_formed:
  assumes "r_State (ds_reported d0) = ''idle''" "wf_store (ds_profiles d0)"
    and "d = daemon_run evs \<lparr>dm_session = new_session d0, dm_lookups = []\<rparr>"
  shows "distinct (map profile.ID (profiles (dm_store d))) \<and>
    (\<forall>p\<in>set (profiles (dm_store d)). profile.ID p \<noteq> [] \<and> Servers p \<noteq> [] \<and> Tier p \<in> {[], TierFree, TierPremium} \<and>
       (Source p = SourceSubscription \<and> URL p \<noteq> [] \<or> Source p = SourceManual \<and> URL p = []))"
proof -
  have "wf_store (dm_store d)"
    unfolding assms(3) using daemon_run_kept [of "\<lparr>dm_session = new_session d0, dm_lookups = []\<rparr>" evs] assms(2)
      new_session_orderly [OF assms(1)] by (simp add: new_session_def)
  then show ?thesis by (simp add: wf_store_def wf_profile_def distinct_ids_def)
qed

text \<open>C9. A removed profile leaves nothing behind.  In every run, when a removal succeeds the store no longer has the
  profile, no walk tries its servers and no watched connection belongs to it; and if the reported connection was the
  profile's, no process runs.\<close>

theorem removed_profile_leaves_nothing:
  assumes "r_State (ds_reported d0) = ''idle''" "wf_store (ds_profiles d0)"
    and "d = daemon_run evs \<lparr>dm_session = new_session d0, dm_lookups = []\<rparr>"
    and "handleRemoveProfile a e pid d = (Empty_reply, d')"
  shows "Get (dm_store d') pid = None \<and>
    (\<forall>w. ss_walk (dm_session d') = Some w \<longrightarrow> FlProfile (if_loop w) \<noteq> pid) \<and>
    (\<forall>l. ss_life (dm_session d') = Some l \<longrightarrow> li_profile l \<noteq> pid) \<and>
    (r_Profile (the_state (dm_session d)) = pid \<longrightarrow> \<not> ss_running (dm_session d'))"
proof -
  have k: "orderly (dm_session d)" "wf_store (dm_store d)"
    unfolding assms(3) using daemon_run_kept [of "\<lparr>dm_session = new_session d0, dm_lookups = []\<rparr>" evs] assms(2)
      new_session_orderly [OF assms(1)] by (simp_all add: new_session_def)
  have "pid \<noteq> []" using assms(4) by (auto simp: handleRemoveProfile_def)
  from remove_run [OF assms(4) this] obtain u where so: "store_only (removal_torn a pid d) d'"
    and "run_op (pe_enc e) (pe_fault e) (OpRemove pid) (dm_store d) = (Inr u, dm_store d')" by auto
  from run_op_ok [OF this(2)] k(2) have "view (dm_store d') = (view (dm_store d))(pid := None)"
    by (simp add: wf_store_def split: if_splits)
  then have "Get (dm_store d') pid = None" by (simp add: Get_view)
  then show ?thesis using removal_torn_orderly [OF k(1), of a pid] so by (simp add: store_only_def same_tunnel_def)
qed



lemma premium_added:
  assumes "set (profiles st') \<subseteq> insert p (set (profiles st))" "no_premium st" "Tier p \<noteq> TierPremium"
  shows "no_premium st'"
  using assms by (auto simp: no_premium_def)

lemma add_premium:
  assumes "add_profile e p d = (r, d')" "no_premium (dm_store d)" "Tier p \<noteq> TierPremium"
  shows "no_premium (dm_store d')"
proof (cases r)
  case None
  then have "run_op (pe_enc e) (pe_fault e) (OpAdd p) (dm_store d) = (Inr (), dm_store d')"
    using add_profile_run [OF assms(1)] by simp
  then have "set (profiles (dm_store d')) \<subseteq> insert p (set (profiles (dm_store d)))"
    by (auto simp: Add_def dest!: save_Inr split: if_splits prod.splits sum.splits)
  then show ?thesis using premium_added assms(2,3) by blast
next
  case (Some x)
  then have "run_op (pe_enc e) (pe_fault e) (OpAdd p) (dm_store d) = (Inl x, dm_store d')"
    using add_profile_run [OF assms(1)] by simp
  from run_op_fail [OF this] show ?thesis using assms(2) by (simp add: no_premium_def)
qed

lemma update_premium:
  assumes "update_profile e p d = (r, d')" "no_premium (dm_store d)" "Tier p \<noteq> TierPremium"
  shows "no_premium (dm_store d')"
proof (cases r)
  case None
  then have "run_op (pe_enc e) (pe_fault e) (OpUpdate p) (dm_store d) = (Inr (), dm_store d')"
    using update_profile_run [OF assms(1)] by simp
  then obtain i where "profiles (dm_store d') = (profiles (dm_store d))[i := p]"
    by (auto simp: Update_def Let_def dest!: save_Inr split: if_splits option.splits prod.splits sum.splits)
  then have "set (profiles (dm_store d')) \<subseteq> insert p (set (profiles (dm_store d)))"
    by (simp add: set_update_subset_insert)
  then show ?thesis using premium_added assms(2,3) by blast
next
  case (Some x)
  then have "run_op (pe_enc e) (pe_fault e) (OpUpdate p) (dm_store d) = (Inl x, dm_store d')"
    using update_profile_run [OF assms(1)] by simp
  from run_op_fail [OF this] show ?thesis using assms(2) by (simp add: no_premium_def)
qed

lemma new_no_premium: "NewProfile sha random now name source url nodes = Inr p \<Longrightarrow> Tier p \<noteq> TierPremium"
  using NewProfile_fields by (fastforce simp: TierPremium_def)

lemma import_premium:
  assumes "handleImportSubscription e url name d = (rep, d')" "no_premium (dm_store d)"
  shows "no_premium (dm_store d')"
proof (cases "dm_store d' = dm_store d")
  case False
  obtain nodes h p where u: "url \<noteq> []" and f: "fetch_nodes e url = Inr (nodes, h)"
    and n: "NewProfile (pe_sha e) (pe_random e) (pe_now e) (if name = [] then url else name) SourceSubscription url nodes = Inr p"
    using assms(1) False by (auto simp: handleImportSubscription_def Let_def split: sum.splits prod.splits if_splits)
  define q where "q = (applyUserInfo (pe_case e) h p)\<lparr>Managed := DetectManaged (pe_case e) url\<rparr>"
  obtain r d1 where ad: "add_profile e q d = (r, d1)" by (cases "add_profile e q d")
  have "dm_store d' = dm_store d1"
    using assms(1) u f n ad unfolding q_def
    by (auto simp: handleImportSubscription_def startEntitlementLookup_def Let_def split: option.splits)
  moreover have "Tier q \<noteq> TierPremium" using new_no_premium [OF n] by (simp add: q_def)
  ultimately show ?thesis using add_premium [OF ad assms(2)] by simp
qed (use assms(2) in simp)

lemma import_link_premium:
  assumes "handleImportLink e link name d = (rep, d')" "no_premium (dm_store d)"
  shows "no_premium (dm_store d')"
proof (cases "d' = d")
  case False
  then obtain n nm p r where "NewProfile (pe_sha e) (pe_random e) (pe_now e) nm SourceManual [] [n] = Inr p" "add_profile e p d = (r, d')"
    using assms(1) by (auto simp: handleImportLink_def Let_def split: sum.splits prod.splits if_splits option.splits)
  then show ?thesis using add_premium assms(2) new_no_premium by metis
qed (use assms(2) in simp)

lemma import_links_premium:
  assumes "handleImportLinks e raws name d = (rep, d')" "no_premium (dm_store d)"
  shows "no_premium (dm_store d')"
proof (cases "d' = d")
  case False
  obtain nodes k where pl: "ParseLinks (pe_case e) (pe_json e) raws = (nodes, k)" by (cases "ParseLinks (pe_case e) (pe_json e) raws")
  obtain nm p r where "NewProfile (pe_sha e) (pe_random e) (pe_now e) nm SourceManual [] nodes = Inr p" "add_profile e p d = (r, d')"
    using assms(1) False pl by (auto simp: handleImportLinks_def Let_def split: sum.splits prod.splits if_splits option.splits)
  then show ?thesis using add_premium assms(2) new_no_premium by metis
qed (use assms(2) in simp)

lemma refresh_premium:
  assumes "refreshProfile e p d = (r, d')" "no_premium (dm_store d)" "\<not> grants e"
  shows "no_premium (dm_store d')"
proof (cases "refreshed e (pf_multihop (the_prefs (dm_session d))) p")
  case (Inl x)
  then show ?thesis using assms by (auto simp: refreshProfile_def)
next
  case (Inr q)
  have "Tier q \<noteq> TierPremium" using refreshed_fields [OF Inr] tier_granted [of e] assms(3) by metis
  moreover obtain u d1 where u: "update_profile e q d = (u, d1)" by (cases "update_profile e q d")
  ultimately have "no_premium (dm_store d1)" using update_premium [OF u assms(2)] by blast
  then show ?thesis using assms(1) Inr u by (cases u) (simp_all add: refreshProfile_def)
qed

lemma refresh_loop_premium:
  assumes "refresh_loop (\<lambda>_. e) ps c d = (c', d')" "no_premium (dm_store d)" "\<not> grants e"
  shows "no_premium (dm_store d')"
  using assms(1,2)
proof (induction ps arbitrary: c d)
  case (Cons p ps)
  show ?case
  proof (cases "refreshable p")
    case True
    obtain r d1 where rp: "refreshProfile e p d = (r, d1)" by (cases "refreshProfile e p d")
    obtain c1 where rest: "refresh_loop (\<lambda>_. e) ps c1 d1 = (c', d')" using Cons.prems True rp by (cases r) auto
    show ?thesis using Cons.IH [OF rest] refresh_premium [OF rp Cons.prems(2) assms(3)] by blast
  next
    case False
    then show ?thesis using Cons.prems Cons.IH [of c d] by simp
  qed
qed simp

lemma daemon_step_premium:
  assumes "no_premium (dm_store d)" "\<not> grants e"
  shows "no_premium (dm_store (daemon_step a e ev d))"
proof (cases ev)
  case (Session_event sev)
  then show ?thesis using assms by (simp add: session_step_profiles)
next
  case (Import_subscription url name)
  show ?thesis using import_premium [OF surjective_pairing assms(1)] by (simp add: Import_subscription)
next
  case (Import_link link name)
  show ?thesis using import_link_premium [OF surjective_pairing assms(1)] by (simp add: Import_link)
next
  case (Import_links raws name)
  show ?thesis using import_links_premium [OF surjective_pairing assms(1)] by (simp add: Import_links)
next
  case (Remove_profile pid)
  show ?thesis
  proof (cases "pid = []")
    case True
    then show ?thesis using assms by (simp add: Remove_profile handleRemoveProfile_def)
  next
    case False
    obtain rep d' where h: "handleRemoveProfile a e pid d = (rep, d')" by (cases "handleRemoveProfile a e pid d")
    from remove_run [OF h False] obtain r where rm: "Remove (pe_enc e) (pe_fault e) pid (dm_store d) = (r, dm_store d')" by blast
    have "set (profiles (dm_store d')) \<subseteq> set (profiles (dm_store d))"
    proof (cases r)
      case (Inl x)
      then have "run_op (pe_enc e) (pe_fault e) (OpRemove pid) (dm_store d) = (Inl x, dm_store d')" using rm by simp
      from run_op_fail [OF this] show ?thesis by simp
    next
      case (Inr u)
      then obtain i where "profiles (dm_store d') = take i (profiles (dm_store d)) @ drop (Suc i) (profiles (dm_store d))"
        using rm by (auto simp: Remove_def Let_def dest!: save_Inr split: option.splits prod.splits sum.splits)
      then show ?thesis using set_take_subset set_drop_subset by fastforce
    qed
    then show ?thesis using assms(1) by (auto simp: Remove_profile h no_premium_def)
  qed
next
  case (Refresh_subscription pid)
  obtain rep d' where h: "handleRefreshSubscription e pid d = (rep, d')" by (cases "handleRefreshSubscription e pid d")
  show ?thesis
  proof (cases "d' = d")
    case False
    then obtain p r where "refreshProfile e p d = (r, d')"
      using h by (auto simp: handleRefreshSubscription_def split: sum.splits prod.splits if_splits option.splits)
    then show ?thesis using refresh_premium assms by (simp add: Refresh_subscription h)
  qed (use assms in \<open>simp add: Refresh_subscription h\<close>)
next
  case Refresh_all
  show ?thesis using refresh_loop_premium [OF surjective_pairing assms]
    by (simp add: Refresh_all refreshAllSubscriptions_def)
next
  case (Entitlement_arrives i)
  have "lookupTier e url True \<noteq> TierPremium" for url using tier_granted [of e url True] assms(2) by blast
  then show ?thesis using assms(1) by (simp add: Entitlement_arrives entitlement_arrives_def split: prod.split)
qed

text \<open>C12. The premium tier needs a granting answer.  In every run in which no entitlement endpoint answered with an
  active premium entitlement, no stored profile is premium: a failed lookup, an answer of another kind, an address
  that is not managed, an import or a refresh never makes one.\<close>

theorem premium_needs_answer:
  assumes "no_premium (ds_profiles d0)" "d = daemon_run evs \<lparr>dm_session = new_session d0, dm_lookups = ls\<rparr>"
    and "p \<in> set (profiles (dm_store d))" "Tier p = TierPremium"
  shows "\<exists>(a, e, ev)\<in>set evs. \<exists>t ent. pe_entitlement e t = Some ent \<and> EntActive ent \<and> EntTier ent = TierPremium"
proof (rule ccontr)
  assume no: "\<not> ?thesis"
  have "no_premium (dm_store (daemon_run evs d1))" if "no_premium (dm_store d1)" for d1
    using that no
  proof (induction evs arbitrary: d1)
    case (Cons x evs)
    obtain a e ev where x: "x = (a, e, ev)" by (cases x)
    have "\<not> grants e" using Cons.prems(2) by (auto simp: x grants_def)
    from daemon_step_premium [OF Cons.prems(1) this] have "no_premium (dm_store (daemon_step a e ev d1))" .
    then show ?case using Cons.IH Cons.prems(2) by (simp add: x)
  qed simp
  from this [of "\<lparr>dm_session = new_session d0, dm_lookups = ls\<rparr>"] assms(1,2) have "no_premium (dm_store d)"
    by (simp add: new_session_def)
  then show False using assms(3,4) by (auto simp: no_premium_def)
qed

section \<open>Concrete runs\<close>

definition ex_url :: string where
  "ex_url = ''https://vpsxd.pro/sub/vpn_1_0123abcd/0123456789abcdef0123456789abcdef''"

definition ex_subscription :: profile where
  "ex_subscription = sample_profile\<lparr>Source := SourceSubscription, URL := ex_url\<rparr>"

definition ex_stored :: "kernel daemon_settings" where
  "ex_stored = ex_daemon\<lparr>ds_profiles := \<lparr>profiles = [ex_subscription], disk = \<lparr>fs.target = None, temp = None\<rparr>\<rparr>\<rparr>"

definition ex_profiles :: profile_env where
  "ex_profiles =
     \<lparr>pe_case = (\<lambda>s. s), pe_json = (\<lambda>_. None), pe_sha = (\<lambda>b. b), pe_random = Inr [1], pe_now = 7, pe_enc = (\<lambda>_. Inr [0]),
      pe_fault = None, pe_fetch = (\<lambda>_. Inl ''down''), pe_entitlement = (\<lambda>_. Some \<lparr>EntTier = TierPremium, EntActive = True\<rparr>)\<rparr>"

lemma ex_profiles_fields [simp]:
  "pe_case ex_profiles = (\<lambda>s. s)" "pe_enc ex_profiles = (\<lambda>_. Inr [0])" "pe_fault ex_profiles = None"
  "pe_fetch ex_profiles = (\<lambda>_. Inl ''down'')" "pe_entitlement ex_profiles = (\<lambda>_. Some \<lparr>EntTier = TierPremium, EntActive = True\<rparr>)"
  by (simp_all add: ex_profiles_def)

lemma ex_stored_fields [simp]:
  "r_State (ds_reported ex_stored) = ''idle''"
  "ds_profiles ex_stored = \<lparr>profiles = [ex_subscription], disk = \<lparr>fs.target = None, temp = None\<rparr>\<rparr>"
  "profile.ID ex_subscription = ''p1''" "Servers ex_subscription = Servers sample_profile" "Tier ex_subscription = []"
  "Source ex_subscription = SourceSubscription" "URL ex_subscription = ex_url"
  by (simp_all add: ex_stored_def ex_subscription_def sample_profile_def zero_profile_def)

lemma ex_stored_wf: "wf_store (ds_profiles ex_stored)"
  by (simp add: wf_store_def distinct_ids_def wf_profile_def sample_profile_fields ex_url_def)

lemma ex_managed: "\<exists>t. EntitlementTarget (\<lambda>s. s) ex_url = Some t"
proof -
  have "DetectManaged (\<lambda>s. s) ex_url" unfolding ex_url_def by code_simp
  then show ?thesis by (simp add: DetectManaged_def EntitlementTarget_def)
qed

abbreviation ex_connecting :: "kernel daemon" where
  "ex_connecting \<equiv> daemon_run [(ex_answers None, ex_profiles, Session_event (Connect_command ''p1'' ''s2'' False False))]
     \<lparr>dm_session = new_session ex_stored, dm_lookups = []\<rparr>"

lemma ex_connecting_store: "dm_store ex_connecting = ds_profiles ex_stored"
  by (simp add: session_step_profiles [of _ "Connect_command ''p1'' ''s2'' False False", simplified]) (simp add: new_session_def)

lemma stored_profiles_well_formed_witness:
  "distinct (map profile.ID (profiles (dm_store ex_connecting)))"
  using stored_profiles_well_formed [OF ex_stored_fields(1) ex_stored_wf refl,
      of "[(ex_answers None, ex_profiles, Session_event (Connect_command ''p1'' ''s2'' False False))]"] by blast

lemma removed_profile_leaves_nothing_witness:
  "\<exists>d'. handleRemoveProfile (ex_answers None) ex_profiles ''p1'' ex_connecting = (Empty_reply, d') \<and> Get (dm_store d') ''p1'' = None"
proof -
  obtain rep d' where h: "handleRemoveProfile (ex_answers None) ex_profiles ''p1'' ex_connecting = (rep, d')"
    by (cases "handleRemoveProfile (ex_answers None) ex_profiles ''p1'' ex_connecting")
  have "''p1'' \<noteq> ([] :: string)" by simp
  from remove_run [OF h this] obtain r where "Remove (pe_enc ex_profiles) (pe_fault ex_profiles) ''p1'' (ds_profiles ex_stored) = (r, dm_store d')"
    and r: "rep = Empty_reply \<longleftrightarrow> (\<exists>u. r = Inr u)" unfolding ex_connecting_store by blast
  then have "r = Inr ()" by (simp add: Remove_def indexOf_def save_def)
  then have rep: "rep = Empty_reply" using r by simp
  from removed_profile_leaves_nothing [OF ex_stored_fields(1) ex_stored_wf refl h [unfolded rep]] h rep show ?thesis by blast
qed


lemma premium_needs_answer_witness:
  "\<exists>p\<in>set (profiles (dm_store (daemon_run [(ex_answers None, ex_profiles, Entitlement_arrives 0)]
      \<lparr>dm_session = new_session ex_stored, dm_lookups = [(''p1'', ex_url)]\<rparr>))). Tier p = TierPremium \<and> grants ex_profiles"
proof -
  let ?d = "daemon_run [(ex_answers None, ex_profiles, Entitlement_arrives 0)]
      \<lparr>dm_session = new_session ex_stored, dm_lookups = [(''p1'', ex_url)]\<rparr>"
  have no: "no_premium (ds_profiles ex_stored)" by (simp add: no_premium_def TierPremium_def)
  have tier: "lookupTier ex_profiles ex_url True = TierPremium"
    using ex_managed by (auto simp: lookupTier_def NormalizedTier_def)
  have "profiles (dm_store ?d) = [ex_subscription\<lparr>Tier := TierPremium\<rparr>]"
    using tier by (simp add: entitlement_arrives_def new_session_def Get_def indexOf_def update_profile_def Update_def save_def
        put_store_def TierPremium_def)
  then have p: "ex_subscription\<lparr>Tier := TierPremium\<rparr> \<in> set (profiles (dm_store ?d))" by simp
  from premium_needs_answer [OF no refl p] have "grants ex_profiles" by (auto simp: grants_def)
  then show ?thesis using p by (intro bexI [of _ "ex_subscription\<lparr>Tier := TierPremium\<rparr>"]) simp_all
qed

end
