(* ===== verification/Log_Rotation.thy ===== *)
theory Log_Rotation
  imports Prelude Go_Lib "HOL-Library.Sublist"
begin

unbundle bit_operations_syntax

text \<open>
  The size-rotated log (\<^verbatim>\<open>core/logrot/logrot.go\<close>): opening, writing, rotating, pruning and reading back the last
  lines.  The disk is the active file and the numbered generations beside it; every system call may fail, as the
  answers of one operation say.  The mutex makes each operation one step.  Nobody else touches the files.
\<close>

section \<open>Options, files and the writer\<close>

record log_options =
  MaxSize :: int
  MaxFiles :: int
  MaxTotal :: int

definition DefaultMaxSize :: int where "DefaultMaxSize = 8 * 2 ^ 20"
definition DefaultMaxFiles :: int where "DefaultMaxFiles = 3"
definition DefaultMaxTotal :: int where "DefaultMaxTotal = 32 * 2 ^ 20"
definition retryGapDivisor :: int where "retryGapDivisor = 4"
definition tailWindow :: nat where "tailWindow = 512 * 2 ^ 10"

definition withDefaults :: "log_options \<Rightarrow> log_options" where
  "withDefaults o0 =
     (let o1 = (if MaxSize o0 \<le> 0 then o0\<lparr>MaxSize := DefaultMaxSize\<rparr> else o0);
          o2 = (if MaxFiles o1 = 0 then o1\<lparr>MaxFiles := DefaultMaxFiles\<rparr> else o1);
          o3 = (if MaxFiles o2 < 0 then o2\<lparr>MaxFiles := 0\<rparr> else o2)
      in if MaxTotal o3 \<le> 0 then o3\<lparr>MaxTotal := DefaultMaxTotal\<rparr> else o3)"

text \<open>The file names are the path itself and \<^verbatim>\<open>path.n\<close> (\<^verbatim>\<open>generation\<close>).\<close>

record log_files =
  lf_active :: "string option"
  lf_gen :: "nat \<rightharpoonup> string"

record writer =
  lw_opt :: log_options
  lw_files :: log_files
  lw_open :: bool
  lw_size :: int
  lw_retryAt :: int

text \<open>
  The answers of one operation: making the directory, the verification hook, opening, the two stats, removing and
  renaming each file, and how much of the data a write takes, with its error.  Number 0 is the active file.
\<close>

record log_answers =
  la_mkdir :: "string option"
  la_verify :: "string option"
  la_open :: "string option"
  la_size_known :: bool
  la_seen :: "nat \<Rightarrow> bool"
  la_removed :: "nat \<Rightarrow> bool"
  la_pruned :: "nat \<Rightarrow> bool"
  la_renamed :: "nat \<Rightarrow> bool"
  la_taken :: nat
  la_write :: "string option"

abbreviation max_files :: "writer \<Rightarrow> nat" where "max_files w \<equiv> nat (MaxFiles (lw_opt w))"

definition put_gen :: "nat \<Rightarrow> string option \<Rightarrow> writer \<Rightarrow> writer" where
  "put_gen n c w = w\<lparr>lw_files := (lw_files w)\<lparr>lf_gen := (lf_gen (lw_files w))(n := c)\<rparr>\<rparr>"

definition put_active :: "string option \<Rightarrow> writer \<Rightarrow> writer" where
  "put_active c w = w\<lparr>lw_files := (lw_files w)\<lparr>lf_active := c\<rparr>\<rparr>"

abbreviation gen_of :: "writer \<Rightarrow> nat \<Rightarrow> string option" where "gen_of w n \<equiv> lf_gen (lw_files w) n"

abbreviation active_of :: "writer \<Rightarrow> string option" where "active_of w \<equiv> lf_active (lw_files w)"

section \<open>Opening\<close>

definition open_active :: "log_answers \<Rightarrow> writer \<Rightarrow> string option \<times> writer" where
  "open_active a w =
     (case la_verify a of
        Some err \<Rightarrow> (Some err, w)
      | None \<Rightarrow>
          (case la_open a of
             Some err \<Rightarrow> (Some err, w)
           | None \<Rightarrow>
               let data = (case active_of w of None \<Rightarrow> [] | Some c \<Rightarrow> c)
               in (None, (put_active (Some data) w)\<lparr>lw_open := True,
                    lw_size := (if la_size_known a then int (length data) else 0), lw_retryAt := 0\<rparr>)))"

text \<open>
  \<^verbatim>\<open>prune\<close>: the generations past the limit, then the oldest ones until the rest fits.  The kept ones are collected
  in ascending order, so sorting them by descending number reverses the list.
\<close>

definition overflow_removed :: "log_answers \<Rightarrow> writer \<Rightarrow> writer" where
  "overflow_removed a w =
     fold (\<lambda>i w. if gen_of w i = None \<or> \<not> la_seen a i \<or> \<not> la_pruned a i then w else put_gen i None w)
       [max_files w + 1 ..< max_files w + 17] w"

definition prune_budget :: "writer \<Rightarrow> int" where
  "prune_budget w =
     (let reserve = (if lw_size w > MaxSize (lw_opt w) then lw_size w else MaxSize (lw_opt w));
          budget = MaxTotal (lw_opt w) - reserve
      in if budget < 0 then 0 else budget)"

definition kept :: "log_answers \<Rightarrow> writer \<Rightarrow> (nat \<times> int) list" where
  "kept a w =
     List.map_filter (\<lambda>i. case gen_of w i of None \<Rightarrow> None | Some c \<Rightarrow> if la_seen a i then Some (i, int (length c)) else None)
       [1 ..< max_files w + 1]"

fun prune_loop :: "log_answers \<Rightarrow> int \<Rightarrow> (nat \<times> int) list \<Rightarrow> int \<Rightarrow> writer \<Rightarrow> writer" where
  "prune_loop a budget [] tot w = w"
| "prune_loop a budget ((n, sz) # gs) tot w =
     (if tot \<le> budget then w
      else if la_pruned a n then prune_loop a budget gs (tot - sz) (put_gen n None w)
      else prune_loop a budget gs tot w)"

definition prune :: "log_answers \<Rightarrow> writer \<Rightarrow> writer" where
  "prune a w =
     (let w = overflow_removed a w; ks = kept a w
      in prune_loop a (prune_budget w) (rev ks) (sum_list (map snd ks)) w)"

definition Open :: "log_answers \<Rightarrow> log_options \<Rightarrow> log_files \<Rightarrow> (string, writer) result" where
  "Open a opt files =
     (case la_mkdir a of
        Some err \<Rightarrow> Inl (''create log directory: '' @ err)
      | None \<Rightarrow>
          (case open_active a \<lparr>lw_opt = withDefaults opt, lw_files = files, lw_open = False, lw_size = 0, lw_retryAt = 0\<rparr> of
             (Some err, _) \<Rightarrow> Inl err
           | (None, w) \<Rightarrow> Inr (prune a w)))"

section \<open>Rotating\<close>

definition reopenAfterFailedRotate :: "log_answers \<Rightarrow> string \<Rightarrow> writer \<Rightarrow> string \<times> writer" where
  "reopenAfterFailedRotate a cause w =
     (case open_active a w of
        (Some err, w) \<Rightarrow> (cause @ ''; reopen: '' @ err, w)
      | (None, w) \<Rightarrow> (cause, w))"

text \<open>\<^verbatim>\<open>os.Rename\<close> replaces its destination; here from one generation to the next.\<close>

definition shift_gen :: "log_answers \<Rightarrow> nat \<Rightarrow> writer \<Rightarrow> writer" where
  "shift_gen a i w =
     (case gen_of w i of
        None \<Rightarrow> w
      | Some c \<Rightarrow> if la_seen a i \<and> la_renamed a i then put_gen i None (put_gen (i + 1) (Some c) w) else w)"

definition rotate :: "log_answers \<Rightarrow> writer \<Rightarrow> string option \<times> writer" where
  "rotate a w =
     (let w = w\<lparr>lw_open := False\<rparr>
      in if MaxFiles (lw_opt w) = 0 then
           (if active_of w \<noteq> None \<and> \<not> la_removed a 0 then
              (let (err, w) = reopenAfterFailedRotate a ''remove'' w in (Some err, w))
            else open_active a (put_active None w))
         else
           (let w = (if la_removed a (max_files w) then put_gen (max_files w) None w else w);
                w = fold (shift_gen a) (rev [1 ..< max_files w]) w
            in case active_of w of
                 None \<Rightarrow> (let (err, w) = reopenAfterFailedRotate a ''rename'' w in (Some err, w))
               | Some c \<Rightarrow>
                   if \<not> la_renamed a 0 then (let (err, w) = reopenAfterFailedRotate a ''rename'' w in (Some err, w))
                   else
                     (case open_active a (put_active None (put_gen 1 (Some c) w)) of
                        (Some err, w) \<Rightarrow> (Some err, w)
                      | (None, w) \<Rightarrow> (None, prune a w))))"

section \<open>Writing\<close>

text \<open>How many bytes went in, and the error.  A write to a file that could not be reopened fails.\<close>

definition Write :: "log_answers \<Rightarrow> string \<Rightarrow> writer \<Rightarrow> (nat \<times> string option) \<times> writer" where
  "Write a p w =
     (if \<not> lw_open w then ((0, Some ''file already closed''), w)
      else
        let w = (if lw_size w > 0 \<and> lw_size w + int (length p) > MaxSize (lw_opt w) \<and> lw_size w \<ge> lw_retryAt w
                 then case rotate a w of
                        (Some _, w) \<Rightarrow> w\<lparr>lw_retryAt := lw_size w + MaxSize (lw_opt w) div retryGapDivisor\<rparr>
                      | (None, w) \<Rightarrow> w
                 else w)
        in if \<not> lw_open w then ((0, Some ''invalid argument''), w)
           else
             let n = (case la_write a of None \<Rightarrow> length p | Some _ \<Rightarrow> min (la_taken a) (length p));
                 data = (case active_of w of None \<Rightarrow> [] | Some c \<Rightarrow> c);
                 w = put_active (Some (data @ take n p)) w
             in ((n, la_write a), w\<lparr>lw_size := lw_size w + int n\<rparr>))"

definition Close :: "writer \<Rightarrow> writer" where
  "Close w = w\<lparr>lw_open := False\<rparr>"

section \<open>Reading back\<close>

fun partial_rune :: "nat \<Rightarrow> string \<Rightarrow> string" where
  "partial_rune 0 b = b"
| "partial_rune (Suc n) [] = []"
| "partial_rune (Suc n) (c # b) = (if (of_char c :: 8 word) AND 0xC0 = 0x80 then partial_rune n b else c # b)"

definition trimPartialRune :: "string \<Rightarrow> string" where
  "trimPartialRune b = partial_rune 3 b"

definition trim_newlines :: "string \<Rightarrow> string" where
  "trim_newlines s = rev (dropWhile (\<lambda>c. c = CHR 0x0A) (rev s))"

definition trim_returns :: "string \<Rightarrow> string" where
  "trim_returns s = rev (dropWhile (\<lambda>c. c = CHR 0x0D) (rev s))"

text \<open>\<open>got\<close> is how many bytes the read returned; none if the file could not be opened.\<close>

definition tailFile :: "nat \<Rightarrow> string option \<Rightarrow> nat \<Rightarrow> string list" where
  "tailFile got content n =
     (case content of
        None \<Rightarrow> []
      | Some data \<Rightarrow>
          if length data = 0 then []
          else
            let start = (if length data > tailWindow then length data - tailWindow else 0);
                buf = take got (drop start data)
            in if length buf = 0 then []
               else
                 let buf = (if start > 0 then
                       (case index_byte (CHR 0x0A) buf of Some i \<Rightarrow> drop (i + 1) buf | None \<Rightarrow> trimPartialRune buf)
                     else buf);
                     lines = map trim_returns (split_on (CHR 0x0A) (trim_newlines buf))
                 in if lines = [[]] then [] else drop (length lines - n) lines)"

fun tail_loop :: "(nat \<Rightarrow> nat) \<Rightarrow> writer \<Rightarrow> nat \<Rightarrow> nat list \<Rightarrow> string list \<Rightarrow> string list" where
  "tail_loop got w n [] out = out"
| "tail_loop got w n (i # is) out =
     (if length out \<ge> n then out
      else tail_loop got w n is
             (tailFile (got i) (if i = 0 then active_of w else gen_of w i) (n - length out) @ out))"

definition Tail :: "(nat \<Rightarrow> nat) \<Rightarrow> int \<Rightarrow> writer \<Rightarrow> string list" where
  "Tail got n w =
     (if n \<le> 0 then []
      else
        let out = tail_loop got w (nat n) [0 ..< max_files w + 1] []
        in drop (length out - nat n) out)"

end
