(* ===== verification/Log_Rotation_Props.thy ===== *)
theory Log_Rotation_Props
  imports Log_Rotation
begin

text \<open>
  What the rotated log promises: its size and its number of files stay bounded, only the oldest lines are given up,
  no write is lost without an error whatever fails, and reading back gives the last lines written.
\<close>

section \<open>Calls that succeed\<close>

definition all_ok :: "log_answers \<Rightarrow> bool" where
  "all_ok a \<longleftrightarrow> la_mkdir a = None \<and> la_verify a = None \<and> la_open a = None \<and> la_size_known a \<and> la_write a = None \<and>
     (\<forall>i. la_seen a i \<and> la_removed a i \<and> la_pruned a i \<and> la_renamed a i)"

definition text_of :: "string option \<Rightarrow> string" where
  "text_of c = (case c of None \<Rightarrow> [] | Some s \<Rightarrow> s)"

lemma text_of_simps [simp]: "text_of None = []" "text_of (Some s) = s"
  by (simp_all add: text_of_def)

definition gens_text :: "(nat \<rightharpoonup> string) \<Rightarrow> nat \<Rightarrow> string" where
  "gens_text g k = concat (map (\<lambda>i. text_of (g i)) (rev [1 ..< k + 1]))"

lemma gens_text_0 [simp]: "gens_text g 0 = []"
  by (simp add: gens_text_def)

lemma gens_text_Suc: "gens_text g (Suc k) = text_of (g (Suc k)) @ gens_text g k"
  by (simp add: gens_text_def)

lemma gens_text_cong: "(\<And>i. 1 \<le> i \<Longrightarrow> i \<le> k \<Longrightarrow> g i = h i) \<Longrightarrow> gens_text g k = gens_text h k"
  by (induction k) (simp_all add: gens_text_Suc)

text \<open>Everything there is to read, oldest first.\<close>

definition stream :: "writer \<Rightarrow> string" where
  "stream w = gens_text (lf_gen (lw_files w)) (max_files w) @ text_of (active_of w)"

lemma put_fields [simp]:
  "lw_opt (put_gen n c w) = lw_opt w" "lw_open (put_gen n c w) = lw_open w" "lw_size (put_gen n c w) = lw_size w"
  "lw_retryAt (put_gen n c w) = lw_retryAt w" "active_of (put_gen n c w) = active_of w"
  "lf_gen (lw_files (put_gen n c w)) = (lf_gen (lw_files w))(n := c)"
  "lw_opt (put_active d w) = lw_opt w" "lw_open (put_active d w) = lw_open w" "lw_size (put_active d w) = lw_size w"
  "lw_retryAt (put_active d w) = lw_retryAt w" "active_of (put_active d w) = d"
  "lf_gen (lw_files (put_active d w)) = lf_gen (lw_files w)"
  by (simp_all add: put_gen_def put_active_def)

subsection \<open>Shifting\<close>

definition shifted :: "nat \<Rightarrow> (nat \<rightharpoonup> string) \<Rightarrow> nat \<rightharpoonup> string" where
  "shifted m g = (\<lambda>i. if i = 1 then None else if 2 \<le> i \<and> i \<le> m then g (i - 1) else g i)"

lemma shift_gen_ok:
  assumes "all_ok a" "gen_of w (i + 1) = None"
  shows "lf_gen (lw_files (shift_gen a i w)) = (lf_gen (lw_files w))(i + 1 := gen_of w i, i := None) \<and>
    active_of (shift_gen a i w) = active_of w \<and> lw_opt (shift_gen a i w) = lw_opt w \<and> lw_open (shift_gen a i w) = lw_open w \<and>
    lw_size (shift_gen a i w) = lw_size w"
  using assms by (auto simp: shift_gen_def all_ok_def fun_eq_iff split: option.split)

lemma shift_all:
  assumes "all_ok a" "1 \<le> m" "gen_of w m = None"
  shows "lf_gen (lw_files (fold (shift_gen a) (rev [1 ..< m]) w)) = shifted m (lf_gen (lw_files w)) \<and>
    active_of (fold (shift_gen a) (rev [1 ..< m]) w) = active_of w \<and>
    lw_opt (fold (shift_gen a) (rev [1 ..< m]) w) = lw_opt w \<and>
    lw_open (fold (shift_gen a) (rev [1 ..< m]) w) = lw_open w \<and>
    lw_size (fold (shift_gen a) (rev [1 ..< m]) w) = lw_size w"
  using assms(2,3)
proof (induction m arbitrary: w rule: dec_induct)
  case base
  then show ?case by (auto simp: shifted_def fun_eq_iff)
next
  case (step m)
  have u: "rev [1 ..< Suc m] = m # rev [1 ..< m]" using step.hyps by simp
  define w1 where "w1 = shift_gen a m w"
  have s: "lf_gen (lw_files w1) = (lf_gen (lw_files w))(m + 1 := gen_of w m, m := None)" "active_of w1 = active_of w"
    "lw_opt w1 = lw_opt w" "lw_open w1 = lw_open w" "lw_size w1 = lw_size w"
    using shift_gen_ok [OF assms(1), of w m] step.prems by (simp_all add: w1_def)
  have "gen_of w1 m = None" by (simp add: s(1))
  note ih = step.IH [OF this]
  have sh: "shifted m (lf_gen (lw_files w1)) = shifted (Suc m) (lf_gen (lw_files w))"
    using step.hyps by (auto simp: shifted_def s(1) fun_eq_iff)
  show ?case unfolding u using ih s(2-5) sh by (simp add: w1_def [symmetric])
qed

lemma shifted_text:
  assumes "1 \<le> k"
  shows "gens_text ((shifted k g)(1 := Some c)) k @ d = gens_text g (k - 1) @ c @ d"
  using assms
proof (induction k arbitrary: d rule: dec_induct)
  case base
  then show ?case by (simp add: gens_text_def shifted_def)
next
  case (step k)
  let ?h = "(shifted (Suc k) g)(1 := Some c)"
  have "gens_text ?h (Suc k) = text_of (g k) @ gens_text ?h k"
    unfolding gens_text_Suc [of ?h k] using step.hyps by (simp add: shifted_def)
  moreover have "gens_text ?h k = gens_text ((shifted k g)(1 := Some c)) k"
    by (rule gens_text_cong) (auto simp: shifted_def)
  moreover have "gens_text g k = text_of (g k) @ gens_text g (k - 1)"
    using step.hyps by (cases k) (simp_all add: gens_text_Suc)
  ultimately show ?case using step.IH [of d] by (simp del: fun_upd_apply)
qed

subsection \<open>Pruning\<close>

lemma overflow_ok:
  assumes "all_ok a"
  shows "lf_gen (lw_files (overflow_removed a w)) =
      (\<lambda>i. if max_files w + 1 \<le> i \<and> i < max_files w + 17 then None else gen_of w i) \<and>
    active_of (overflow_removed a w) = active_of w \<and> lw_opt (overflow_removed a w) = lw_opt w \<and>
    lw_open (overflow_removed a w) = lw_open w \<and> lw_size (overflow_removed a w) = lw_size w \<and>
    lw_retryAt (overflow_removed a w) = lw_retryAt w"
proof -
  let ?f = "\<lambda>i w. if gen_of w i = None \<or> \<not> la_seen a i \<or> \<not> la_pruned a i then w else put_gen i None w"
  have "lf_gen (lw_files (fold ?f is v)) = (\<lambda>i. if i \<in> set is then None else gen_of v i) \<and> active_of (fold ?f is v) = active_of v \<and>
      lw_opt (fold ?f is v) = lw_opt v \<and> lw_open (fold ?f is v) = lw_open v \<and> lw_size (fold ?f is v) = lw_size v \<and>
      lw_retryAt (fold ?f is v) = lw_retryAt v" for "is" v
    using assms by (induction "is" arbitrary: v) (auto simp: all_ok_def fun_eq_iff)
  from this [of "[max_files w + 1 ..< max_files w + 17]" w] show ?thesis
    unfolding overflow_removed_def by (auto simp: fun_eq_iff)
qed

definition present :: "(nat \<rightharpoonup> string) \<Rightarrow> nat \<Rightarrow> (nat \<times> int) list" where
  "present g m = List.map_filter (\<lambda>i. map_option (\<lambda>c. (i, int (length c))) (g i)) [1 ..< m + 1]"

lemma present_0 [simp]: "present g 0 = []"
  by (simp add: present_def)

lemma present_Suc:
  "present g (Suc m) = present g m @ (case g (Suc m) of None \<Rightarrow> [] | Some c \<Rightarrow> [(Suc m, int (length c))])"
  by (simp add: present_def List.map_filter_def split: option.split)

lemma present_sum: "sum_list (map snd (present g m)) = int (length (gens_text g m))"
  by (induction m) (simp_all add: present_Suc gens_text_Suc split: option.split)

lemma present_cong: "(\<And>i. 1 \<le> i \<Longrightarrow> i \<le> m \<Longrightarrow> g i = h i) \<Longrightarrow> present g m = present h m"
  by (induction m) (simp_all add: present_Suc)

lemma prune_loop_ok:
  assumes "all_ok a" "0 \<le> budget"
  shows "\<exists>m'\<le>m. lf_gen (lw_files (prune_loop a budget (rev (present (lf_gen (lw_files w)) m))
        (int (length (gens_text (lf_gen (lw_files w)) m))) w)) = (\<lambda>i. if m' < i \<and> i \<le> m then None else gen_of w i) \<and>
      int (length (gens_text (lf_gen (lw_files w)) m')) \<le> budget \<and>
      (int (length (gens_text (lf_gen (lw_files w)) m)) \<le> budget \<longrightarrow> m' = m)"
proof (induction m arbitrary: w)
  case 0
  then show ?case using assms(2) by auto
next
  case (Suc m)
  let ?g = "lf_gen (lw_files w)"
  show ?case
  proof (cases "int (length (gens_text ?g (Suc m))) \<le> budget")
    case True
    then have "prune_loop a budget (rev (present ?g (Suc m))) (int (length (gens_text ?g (Suc m)))) w = w"
      by (cases "rev (present ?g (Suc m))") auto
    then show ?thesis using True by (intro exI [of _ "Suc m"]) (auto simp: fun_eq_iff)
  next
    case False
    show ?thesis
    proof (cases "?g (Suc m)")
      case None
      then have eq: "present ?g (Suc m) = present ?g m" "gens_text ?g (Suc m) = gens_text ?g m"
        by (simp_all add: present_Suc gens_text_Suc)
      from Suc.IH [of w] obtain m' where m': "m' \<le> m"
        "lf_gen (lw_files (prune_loop a budget (rev (present ?g m)) (int (length (gens_text ?g m))) w)) =
          (\<lambda>i. if m' < i \<and> i \<le> m then None else gen_of w i)" "int (length (gens_text ?g m')) \<le> budget" by blast
      then show ?thesis using False None eq by (intro exI [of _ m']) (auto simp: fun_eq_iff le_Suc_eq)
    next
      case (Some c)
      define w1 where "w1 = put_gen (Suc m) None w"
      have g1: "lf_gen (lw_files w1) = ?g(Suc m := None)" by (simp add: w1_def)
      have pm: "present (lf_gen (lw_files w1)) m = present ?g m" "gens_text (lf_gen (lw_files w1)) j = gens_text ?g j"
        if "j \<le> m" for j using that by (auto intro!: present_cong gens_text_cong simp: g1)
      from Suc.IH [of w1] obtain m' where m': "m' \<le> m"
        "lf_gen (lw_files (prune_loop a budget (rev (present (lf_gen (lw_files w1)) m)) (int (length (gens_text (lf_gen (lw_files w1)) m))) w1)) =
          (\<lambda>i. if m' < i \<and> i \<le> m then None else gen_of w1 i)" "int (length (gens_text (lf_gen (lw_files w1)) m')) \<le> budget" by blast
      have "prune_loop a budget (rev (present ?g (Suc m))) (int (length (gens_text ?g (Suc m)))) w =
          prune_loop a budget (rev (present ?g m)) (int (length (gens_text ?g m))) w1"
        using False Some assms(1) by (simp add: present_Suc gens_text_Suc w1_def all_ok_def)
      then show ?thesis using False m' pm [of m] pm [OF m'(1)] g1
        by (intro exI [of _ m']) (auto simp: fun_eq_iff le_Suc_eq)
    qed
  qed
qed

lemma prune_loop_fields:
  "active_of (prune_loop a b gs t w) = active_of w \<and> lw_opt (prune_loop a b gs t w) = lw_opt w \<and>
   lw_open (prune_loop a b gs t w) = lw_open w \<and> lw_size (prune_loop a b gs t w) = lw_size w \<and>
   lw_retryAt (prune_loop a b gs t w) = lw_retryAt w"
  by (induction a b gs t w rule: prune_loop.induct) (simp_all add: Let_def)

lemma kept_present:
  assumes "all_ok a"
  shows "kept a w = present (lf_gen (lw_files w)) (max_files w)"
proof -
  have "(\<lambda>i. case gen_of w i of None \<Rightarrow> None | Some c \<Rightarrow> if la_seen a i then Some (i, int (length c)) else None) =
      (\<lambda>i. map_option (\<lambda>c. (i, int (length c))) (gen_of w i))"
    using assms by (auto simp: all_ok_def fun_eq_iff split: option.split)
  then show ?thesis unfolding kept_def present_def by simp
qed

text \<open>What pruning leaves: the newest generations, as many as fit.\<close>

lemma prune_ok:
  assumes "all_ok a"
  obtains m' where "m' \<le> max_files w"
    "\<forall>i. gen_of (prune a w) i = (if m' < i \<and> i < max_files w + 17 then None else gen_of w i)"
    "int (length (gens_text (lf_gen (lw_files w)) m')) \<le> prune_budget w"
    "active_of (prune a w) = active_of w" "lw_opt (prune a w) = lw_opt w" "lw_open (prune a w) = lw_open w"
    "lw_size (prune a w) = lw_size w" "lw_retryAt (prune a w) = lw_retryAt w"
proof -
  define w1 where "w1 = overflow_removed a w"
  note o = overflow_ok [OF assms, of w, folded w1_def]
  have k: "max_files w1 = max_files w" "prune_budget w1 = prune_budget w" using o by (simp_all add: prune_budget_def)
  have b: "0 \<le> prune_budget w" by (simp add: prune_budget_def Let_def)
  define w2 where "w2 = prune_loop a (prune_budget w) (rev (present (lf_gen (lw_files w1)) (max_files w)))
        (int (length (gens_text (lf_gen (lw_files w1)) (max_files w)))) w1"
  have p: "prune a w = w2"
    unfolding prune_def Let_def w1_def [symmetric] by (simp add: kept_present [OF assms] present_sum k w2_def)
  have same: "gens_text (lf_gen (lw_files w1)) j = gens_text (lf_gen (lw_files w)) j" if "j \<le> max_files w" for j
    using that o by (intro gens_text_cong) auto
  from prune_loop_ok [OF assms b, of "max_files w" w1] obtain m' where m': "m' \<le> max_files w"
    "lf_gen (lw_files w2) = (\<lambda>i. if m' < i \<and> i \<le> max_files w then None else gen_of w1 i)"
    "int (length (gens_text (lf_gen (lw_files w1)) m')) \<le> prune_budget w" unfolding w2_def by blast
  show ?thesis
    by (rule that [of m']) (use m' same o prune_loop_fields [of a "prune_budget w" _ _ w1] in \<open>auto simp: p w2_def\<close>)
qed

subsection \<open>Rotating and writing\<close>

text \<open>The writer in use: open, its size known, no retry pending, and nothing outside the allowed generations.\<close>

definition in_use :: "writer \<Rightarrow> bool" where
  "in_use w \<longleftrightarrow> lw_open w \<and> 0 < MaxSize (lw_opt w) \<and> 0 \<le> MaxFiles (lw_opt w) \<and>
     (\<exists>c. active_of w = Some c \<and> lw_size w = int (length c)) \<and> lw_retryAt w = 0 \<and>
     (\<forall>i. gen_of w i \<noteq> None \<longrightarrow> 1 \<le> i \<and> i \<le> max_files w)"

lemma open_ok:
  assumes "all_ok a"
  shows "open_active a w = (None, (put_active (Some (text_of (active_of w))) w)\<lparr>lw_open := True,
    lw_size := int (length (text_of (active_of w))), lw_retryAt := 0\<rparr>)"
  using assms by (simp add: open_active_def all_ok_def text_of_def Let_def)

lemma gens_suffix: "m \<le> k \<Longrightarrow> suffix (gens_text g m) (gens_text g k)"
  by (induction k) (auto simp: gens_text_Suc le_Suc_eq intro: suffix_appendI)

lemma gens_cut:
  assumes "m \<le> n" "\<And>i. 1 \<le> i \<Longrightarrow> i \<le> m \<Longrightarrow> h i = g i" "\<And>i. m < i \<Longrightarrow> i \<le> n \<Longrightarrow> h i = None"
  shows "gens_text h n = gens_text g m"
  using assms(1,3)
proof (induction n rule: dec_induct)
  case base
  show ?case using assms(2) by (intro gens_text_cong) simp
next
  case (step n)
  then show ?case by (simp add: gens_text_Suc)
qed

lemma rotate_ok:
  assumes "all_ok a" "in_use w"
  obtains w' where "rotate a w = (None, w')" "in_use w'" "lw_opt w' = lw_opt w" "active_of w' = Some []"
    "suffix (stream w') (stream w)" "int (length (gens_text (lf_gen (lw_files w')) (max_files w'))) \<le> prune_budget w'"
proof -
  obtain c where c: "active_of w = Some c" using assms(2) by (auto simp: in_use_def)
  define w0 where "w0 = w\<lparr>lw_open := False\<rparr>"
  show ?thesis
  proof (cases "MaxFiles (lw_opt w) = 0")
    case True
    define w' where "w' = (put_active (Some []) w0)\<lparr>lw_open := True, lw_size := 0, lw_retryAt := 0\<rparr>"
    have "rotate a w = (None, w')"
      using True assms(1) by (simp add: rotate_def open_ok [OF assms(1)] w'_def w0_def put_active_def all_ok_def Let_def)
    moreover have "in_use w'" using assms(2) True by (auto simp: in_use_def w'_def w0_def)
    ultimately show ?thesis
      by (rule that) (simp_all add: w'_def w0_def stream_def True c prune_budget_def Let_def)
  next
    case False
    define k where "k = max_files w"
    have k: "1 \<le> k" using False assms(2) by (auto simp: k_def in_use_def)
    define g where "g = lf_gen (lw_files w)"
    define w1 where "w1 = put_gen k None w0"
    define w2 where "w2 = fold (shift_gen a) (rev [1 ..< k]) w1"
    have "gen_of w1 k = None" by (simp add: w1_def)
    note sh = shift_all [OF assms(1) k this, folded w2_def]
    have g1: "lf_gen (lw_files w1) = g(k := None)" "active_of w1 = Some c" "lw_opt w1 = lw_opt w"
      by (simp_all add: w1_def w0_def g_def c)
    define w3 where "w3 = (put_active (Some []) (put_gen 1 (Some c) w2))\<lparr>lw_open := True, lw_size := 0, lw_retryAt := 0\<rparr>"
    have g3: "lf_gen (lw_files w3) = (shifted k (g(k := None)))(1 := Some c)" "active_of w3 = Some []" "lw_opt w3 = lw_opt w"
      "lw_open w3" "lw_size w3 = 0" "lw_retryAt w3 = 0"
      using sh g1 by (simp_all add: w3_def)
    have rot: "rotate a w = (None, prune a w3)"
    proof -
      have "open_active a (put_active None (put_gen 1 (Some c) w2)) = (None, w3)"
        by (simp add: open_ok [OF assms(1)] w3_def put_active_def)
      moreover have w1eq: "(if la_removed a (max_files w0) then put_gen (max_files w0) None w0 else w0) = w1"
        using assms(1) by (simp add: all_ok_def w1_def k_def w0_def)
      moreover have mf: "max_files w1 = k" by (simp add: g1 k_def)
      moreover have "MaxFiles (lw_opt w0) \<noteq> 0" "la_renamed a 0" using False assms(1) by (simp_all add: w0_def all_ok_def)
      ultimately show ?thesis
        using sh g1(2) unfolding rotate_def Let_def w0_def [symmetric] w1eq mf w2_def [symmetric] by simp
    qed
    obtain m' where m': "m' \<le> max_files w3"
      "\<forall>i. gen_of (prune a w3) i = (if m' < i \<and> i < max_files w3 + 17 then None else gen_of w3 i)"
      "int (length (gens_text (lf_gen (lw_files w3)) m')) \<le> prune_budget w3"
      "active_of (prune a w3) = active_of w3" "lw_opt (prune a w3) = lw_opt w3" "lw_open (prune a w3) = lw_open w3"
      "lw_size (prune a w3) = lw_size w3" "lw_retryAt (prune a w3) = lw_retryAt w3"
      using prune_ok [OF assms(1), of w3] by blast
    have k3: "max_files w3 = k" by (simp add: g3 k_def)
    have cut: "gens_text (lf_gen (lw_files (prune a w3))) k = gens_text (lf_gen (lw_files w3)) m'"
      using m'(1,2) k3 by (intro gens_cut) auto
    have "in_use (prune a w3)"
      using assms(2) m' g3 k3 k_def k by (auto simp: in_use_def shifted_def g_def split: if_splits)
    moreover have "suffix (stream (prune a w3)) (stream w)"
    proof -
      have "gens_text (lf_gen (lw_files w3)) k @ [] = gens_text (g(k := None)) (k - 1) @ c @ []"
        unfolding g3(1) by (rule shifted_text [OF k])
      moreover have "gens_text (g(k := None)) (k - 1) = gens_text g (k - 1)" using k by (intro gens_text_cong) auto
      moreover have "suffix (gens_text g (k - 1) @ c) (gens_text g k @ c)"
        using gens_suffix [of "k - 1" k g] by (simp add: suffix_def)
      moreover have "suffix (gens_text (lf_gen (lw_files w3)) m') (gens_text (lf_gen (lw_files w3)) k)"
        using gens_suffix m'(1) k3 by metis
      ultimately have "suffix (gens_text (lf_gen (lw_files w3)) m') (gens_text g k @ c)"
        using suffix_order.trans [of _ "gens_text g (k - 1) @ c" "gens_text g k @ c"] by simp
      then show ?thesis using m' g3 k3 cut c by (simp add: stream_def k_def [symmetric] g_def [symmetric])
    qed
    moreover have "prune_budget (prune a w3) = prune_budget w3" using m' by (simp add: prune_budget_def)
    ultimately show ?thesis
      using rot m' g3 k3 cut by (intro that [of "prune a w3"]) simp_all
  qed
qed

text \<open>One write, with every call succeeding.\<close>

lemma write_ok:
  assumes "all_ok a" "in_use w"
  obtains w' w1 where "Write a p w = ((length p, None), w')" "in_use w'" "lw_opt w' = lw_opt w"
    "w1 = w \<and> \<not> (lw_size w > 0 \<and> lw_size w + int (length p) > MaxSize (lw_opt w)) \<or>
     in_use w1 \<and> lw_opt w1 = lw_opt w \<and> active_of w1 = Some [] \<and> suffix (stream w1) (stream w) \<and>
     int (length (gens_text (lf_gen (lw_files w1)) (max_files w1))) \<le> prune_budget w1"
    "lf_gen (lw_files w') = lf_gen (lw_files w1)" "active_of w' = Some (text_of (active_of w1) @ p)"
proof -
  define rolls where "rolls = (lw_size w > 0 \<and> lw_size w + int (length p) > MaxSize (lw_opt w))"
  obtain w1 where w1: "(if lw_size w > 0 \<and> lw_size w + int (length p) > MaxSize (lw_opt w) \<and> lw_size w \<ge> lw_retryAt w
      then case rotate a w of (Some _, w) \<Rightarrow> w\<lparr>lw_retryAt := lw_size w + MaxSize (lw_opt w) div retryGapDivisor\<rparr>
           | (None, w) \<Rightarrow> w else w) = w1" and in1: "in_use w1" "lw_opt w1 = lw_opt w"
    and cases: "w1 = w \<and> \<not> rolls \<or> active_of w1 = Some [] \<and> suffix (stream w1) (stream w) \<and>
      int (length (gens_text (lf_gen (lw_files w1)) (max_files w1))) \<le> prune_budget w1"
  proof (cases rolls)
    case True
    have "lw_retryAt w \<le> lw_size w" using assms(2) by (auto simp: in_use_def)
    obtain w2 where w2: "rotate a w = (None, w2)" "in_use w2" "lw_opt w2 = lw_opt w" "active_of w2 = Some []"
      "suffix (stream w2) (stream w)" "int (length (gens_text (lf_gen (lw_files w2)) (max_files w2))) \<le> prune_budget w2"
      using rotate_ok [OF assms] by blast
    show ?thesis
      by (rule that [of w2]) (use True w2 \<open>lw_retryAt w \<le> lw_size w\<close> in \<open>auto simp: rolls_def\<close>)
  next
    case False
    show ?thesis by (rule that [of w]) (use False assms(2) in \<open>auto simp: rolls_def\<close>)
  qed
  obtain c where c: "active_of w1 = Some c" "lw_size w1 = int (length c)" using in1 by (auto simp: in_use_def)
  define w' where "w' = (put_active (Some (c @ p)) w1)\<lparr>lw_size := lw_size w1 + int (length p)\<rparr>"
  have "lw_open w" "lw_open w1" using assms(2) in1 by (simp_all add: in_use_def)
  then have "Write a p w = ((length p, None), w')"
    using assms(1) c unfolding Write_def Let_def w1 by (simp add: all_ok_def w'_def)
  moreover have "in_use w'" using in1 c by (auto simp: in_use_def w'_def)
  ultimately show ?thesis
    by (rule that) (use in1 cases c in \<open>auto simp: w'_def rolls_def\<close>)
qed

section \<open>The promises\<close>

lemma withDefaults_ok: "0 < MaxSize (withDefaults opt) \<and> 0 \<le> MaxFiles (withDefaults opt) \<and> 0 < MaxTotal (withDefaults opt)"
  by (simp add: withDefaults_def DefaultMaxSize_def DefaultMaxFiles_def DefaultMaxTotal_def Let_def)

lemma Open_ok:
  assumes "Open a opt files = Inr w" "all_ok a" "k = nat (MaxFiles (withDefaults opt))"
    "\<forall>i. lf_gen files i \<noteq> None \<longrightarrow> 1 \<le> i \<and> i \<le> k + 16"
  shows "in_use w \<and> lw_opt w = withDefaults opt \<and> active_of w = Some (text_of (lf_active files)) \<and>
    int (length (gens_text (lf_gen (lw_files w)) k)) \<le> prune_budget w \<and>
    suffix (gens_text (lf_gen (lw_files w)) k) (gens_text (lf_gen files) k)"
proof -
  define w0 where "w0 = \<lparr>lw_opt = withDefaults opt, lw_files = files, lw_open = False, lw_size = 0, lw_retryAt = 0\<rparr>"
  define w1 where "w1 = (put_active (Some (text_of (active_of w0))) w0)\<lparr>lw_open := True,
    lw_size := int (length (text_of (active_of w0))), lw_retryAt := 0\<rparr>"
  have w: "w = prune a w1"
    using assms(1,2) open_ok [OF assms(2), of w0] unfolding w0_def [symmetric] w1_def
    by (simp add: Open_def all_ok_def w0_def [symmetric])
  have k1: "max_files w1 = k" by (simp add: w1_def w0_def assms(3))
  obtain m' where m': "m' \<le> max_files w1"
    "\<forall>i. gen_of (prune a w1) i = (if m' < i \<and> i < max_files w1 + 17 then None else gen_of w1 i)"
    "int (length (gens_text (lf_gen (lw_files w1)) m')) \<le> prune_budget w1"
    "active_of (prune a w1) = active_of w1" "lw_opt (prune a w1) = lw_opt w1" "lw_open (prune a w1) = lw_open w1"
    "lw_size (prune a w1) = lw_size w1" "lw_retryAt (prune a w1) = lw_retryAt w1"
    using prune_ok [OF assms(2), of w1] by blast
  have g1: "lf_gen (lw_files w1) = lf_gen files" by (simp add: w1_def w0_def)
  have cut: "gens_text (lf_gen (lw_files (prune a w1))) k = gens_text (lf_gen files) m'"
    using m'(1,2) k1 by (intro gens_cut) (auto simp: g1)
  have "1 \<le> i \<and> i \<le> k" if "gen_of (prune a w1) i \<noteq> None" for i
    using that m'(2) assms(4) k1 g1 m'(1) by (cases "m' < i \<and> i < k + 17") auto
  then have "in_use w"
    using m' k1 withDefaults_ok [of opt] unfolding in_use_def w by (simp add: w1_def w0_def)
  moreover have "prune_budget w = prune_budget w1" using m' by (simp add: w prune_budget_def)
  ultimately show ?thesis
    using m' cut gens_suffix [of m' k "lf_gen files"] k1 g1 by (simp add: w w1_def w0_def)
qed

text \<open>The log stays bounded.  While its calls succeed and nothing larger than the size of one file is written at
  once, an opened log never has a file past the kept generations, its active file never outgrows the size of one
  file (or what it had when it was opened), and all its files together never outgrow the total (or that size), provided
  no generation was left behind beyond the sixteen past the limit that are looked at.\<close>

theorem log_stays_bounded:
  assumes "Open a opt files = Inr w0" "all_ok a" "k = nat (MaxFiles (withDefaults opt))"
    "\<forall>i. lf_gen files i \<noteq> None \<longrightarrow> 1 \<le> i \<and> i \<le> k + 16"
    "\<forall>(b, p)\<in>set ops. all_ok b \<and> int (length p) \<le> MaxSize (withDefaults opt)"
    "w = fold (\<lambda>(b, p) w. snd (Write b p w)) ops w0" "size0 = int (length (text_of (lf_active files)))"
  shows "(\<forall>i. gen_of w i \<noteq> None \<longrightarrow> 1 \<le> i \<and> i \<le> k) \<and>
    int (length (text_of (active_of w))) \<le> max (MaxSize (withDefaults opt)) size0 \<and>
    int (length (stream w)) \<le> max (MaxTotal (withDefaults opt)) (max (MaxSize (withDefaults opt)) size0)"
proof -
  let ?o = "withDefaults opt"
  define fits where "fits v \<longleftrightarrow> in_use v \<and> lw_opt v = ?o \<and> lw_size v \<le> max (MaxSize ?o) size0 \<and>
    int (length (gens_text (lf_gen (lw_files v)) k)) \<le> prune_budget v" for v
  have "fits w0" using Open_ok [OF assms(1-4)] by (auto simp: fits_def in_use_def assms(7))
  moreover have "fits (snd (Write b p v))" if t: "fits v" "all_ok b" "int (length p) \<le> MaxSize ?o" for v b p
  proof -
    have u: "in_use v" "lw_opt v = ?o" using t(1) by (simp_all add: fits_def)
    obtain v' v1 where wr: "Write b p v = ((length p, None), v')" "in_use v'" "lw_opt v' = lw_opt v"
      and c: "v1 = v \<and> \<not> (lw_size v > 0 \<and> lw_size v + int (length p) > MaxSize (lw_opt v)) \<or>
         in_use v1 \<and> lw_opt v1 = lw_opt v \<and> active_of v1 = Some [] \<and> suffix (stream v1) (stream v) \<and>
         int (length (gens_text (lf_gen (lw_files v1)) (max_files v1))) \<le> prune_budget v1"
      and g: "lf_gen (lw_files v') = lf_gen (lw_files v1)" "active_of v' = Some (text_of (active_of v1) @ p)"
      using write_ok [OF t(2) u(1), of p] by metis
    have pos: "0 < MaxSize ?o" using withDefaults_ok by blast
    have sz: "lw_size v' = int (length (text_of (active_of v1))) + int (length p)" using wr(2) g(2) by (auto simp: in_use_def)
    from c have small: "lw_size v' \<le> MaxSize ?o"
    proof (elim disjE conjE)
      assume "v1 = v" and nb: "\<not> (lw_size v > 0 \<and> lw_size v + int (length p) > MaxSize (lw_opt v))"
      then have "lw_size v' = lw_size v + int (length p)" using sz u(1) by (auto simp: in_use_def)
      moreover have "0 \<le> lw_size v" using u(1) by (auto simp: in_use_def)
      ultimately show ?thesis using nb t(3) u(2) by (cases "0 < lw_size v") auto
    qed (use sz t(3) in simp)
    have "int (length (gens_text (lf_gen (lw_files v1)) k)) \<le> max 0 (MaxTotal ?o - MaxSize ?o)"
      using c
    proof (elim disjE conjE)
      assume "v1 = v"
      then show ?thesis using t(1) by (auto simp: fits_def prune_budget_def Let_def split: if_splits)
    next
      assume a: "in_use v1" "lw_opt v1 = lw_opt v" "active_of v1 = Some []"
        "int (length (gens_text (lf_gen (lw_files v1)) (max_files v1))) \<le> prune_budget v1"
      then have "lw_size v1 = 0" by (auto simp: in_use_def)
      then show ?thesis using a(2,4) u(2) pos by (auto simp: prune_budget_def assms(3) Let_def split: if_splits)
    qed
    then have "int (length (gens_text (lf_gen (lw_files v')) k)) \<le> prune_budget v'"
      using small wr(3) u(2) g(1) by (auto simp: prune_budget_def Let_def)
    then show ?thesis using wr u small by (simp add: fits_def)
  qed
  ultimately have "fits w" unfolding assms(6) using assms(5) by (induction ops arbitrary: w0) auto
  then obtain c where c: "in_use w" "lw_opt w = ?o" "active_of w = Some c" "lw_size w = int (length c)"
    "lw_size w \<le> max (MaxSize ?o) size0" "int (length (gens_text (lf_gen (lw_files w)) k)) \<le> prune_budget w"
    by (auto simp: fits_def in_use_def)
  have k: "max_files w = k" using c(2) by (simp add: assms(3))
  have "int (length (stream w)) \<le> max (MaxTotal ?o) (max (MaxSize ?o) size0)"
    using c k by (auto simp: stream_def prune_budget_def Let_def max_def split: if_splits)
  then show ?thesis using c k by (auto simp: in_use_def)
qed

text \<open>C17. Only the oldest of the log is given up while its file-system calls succeed.  Where none of the calls fails, and no
  generation was left behind beyond the sixteen past the limit that are looked at, what the files of an opened log
  hold, oldest first, is the end of what they held before and was written since, and the latest write stands whole at
  the end of the active file.\<close>

theorem only_the_oldest_given_up:
  assumes "Open a opt files = Inr w0" "all_ok a" "k = nat (MaxFiles (withDefaults opt))"
    "\<forall>i. lf_gen files i \<noteq> None \<longrightarrow> 1 \<le> i \<and> i \<le> k + 16" "\<forall>(b, p)\<in>set ops. all_ok b"
    "w = fold (\<lambda>(b, p) w. snd (Write b p w)) ops w0"
  shows "suffix (stream w) (gens_text (lf_gen files) k @ text_of (lf_active files) @ concat (map snd ops)) \<and>
    (ops \<noteq> [] \<longrightarrow> suffix (snd (last ops)) (text_of (active_of w)))"
proof -
  have wr: "in_use (snd (Write b p v)) \<and> suffix (stream (snd (Write b p v))) (stream v @ p) \<and>
      suffix p (text_of (active_of (snd (Write b p v))))" if v: "in_use v" "all_ok b" for v b p
  proof -
    obtain v' v1 where w: "Write b p v = ((length p, None), v')" "in_use v'" "lw_opt v' = lw_opt v"
      and c: "v1 = v \<and> \<not> (lw_size v > 0 \<and> lw_size v + int (length p) > MaxSize (lw_opt v)) \<or>
         in_use v1 \<and> lw_opt v1 = lw_opt v \<and> active_of v1 = Some [] \<and> suffix (stream v1) (stream v) \<and>
         int (length (gens_text (lf_gen (lw_files v1)) (max_files v1))) \<le> prune_budget v1"
      and g: "lf_gen (lw_files v') = lf_gen (lw_files v1)" "active_of v' = Some (text_of (active_of v1) @ p)"
      using write_ok [OF v(2,1), of p] by metis
    have "stream v' = stream v1 @ p" using c w(3) g by (auto simp: stream_def)
    moreover have "suffix (stream v1) (stream v)" using c by auto
    ultimately show ?thesis using w g by (auto simp: suffix_def)
  qed
  have "in_use w0" "suffix (stream w0) (gens_text (lf_gen files) k @ text_of (lf_active files))"
    using Open_ok [OF assms(1-4)] by (auto simp: stream_def suffix_def assms(3))
  then have "in_use w \<and> suffix (stream w) (gens_text (lf_gen files) k @ text_of (lf_active files) @ concat (map snd ops)) \<and>
    (ops \<noteq> [] \<longrightarrow> suffix (snd (last ops)) (text_of (active_of w)))"
    unfolding assms(6) using assms(5)
  proof (induction ops rule: rev_induct)
    case (snoc x ops)
    obtain b p where x: "x = (b, p)" by (cases x)
    define v where "v = fold (\<lambda>(b, p) w. snd (Write b p w)) ops w0"
    have ih: "in_use v" "suffix (stream v) (gens_text (lf_gen files) k @ text_of (lf_active files) @ concat (map snd ops))"
      using snoc unfolding v_def by auto
    have "suffix (stream v @ p) ((gens_text (lf_gen files) k @ text_of (lf_active files) @ concat (map snd ops)) @ p)"
      using ih(2) by (auto simp: suffix_def)
    then show ?case using wr [OF ih(1), of b p] snoc.prems(3) suffix_order.trans by (fastforce simp: x v_def)
  qed simp
  then show ?thesis by blast
qed

text \<open>Nothing is lost without an error.  Whatever fails in a write, in the rotation before it or in reopening the
  file after that: without an error all of the data stands at the end of the active file; with one, exactly the
  bytes reported do, behind the old content or at the start of a fresh file; and if the writer ends up closed, it
  reports that nothing was written.\<close>

theorem no_write_lost_silently:
  assumes "Write a p w = ((n, err), w')"
  shows "(err = None \<longrightarrow> n = length p \<and> lw_open w') \<and>
    (lw_open w' \<longrightarrow> (\<exists>base\<in>{text_of (active_of w), []}. active_of w' = Some (base @ take n p))) \<and>
    (\<not> lw_open w' \<longrightarrow> n = 0 \<and> err \<noteq> None)"
proof (cases "lw_open w")
  case False
  then show ?thesis using assms by (auto simp: Write_def)
next
  case True
  have op: "(r = None \<longrightarrow> lw_open v' \<and> active_of v' = Some (text_of (active_of v))) \<and> (r \<noteq> None \<longrightarrow> v' = v)"
    if "open_active a v = (r, v')" for v r v'
    using that [symmetric] by (cases "la_verify a"; cases "la_open a"; cases "active_of v") (simp_all add: open_active_def Let_def)
  define keeps where "keeps v \<longleftrightarrow> lw_open v \<longrightarrow> text_of (active_of v) \<in> {text_of (active_of w), []}" for v
  have re: "keeps v'" if "reopenAfterFailedRotate a m v = (e, v')" "\<not> lw_open v" "text_of (active_of v) = text_of (active_of w)"
    for m v e v' using that op [of v] by (auto simp: reopenAfterFailedRotate_def keeps_def split: prod.splits option.splits)
  have pr: "active_of (prune a v) = active_of v" for v
  proof -
    have "active_of (overflow_removed a v) = active_of v"
      unfolding overflow_removed_def by (rule fold_invariant [where P = "\<lambda>u. active_of u = active_of v" and Q = "\<lambda>_. True"]) auto
    then show ?thesis by (simp add: prune_def prune_loop_fields Let_def)
  qed
  have sh: "active_of (fold (shift_gen a) is v) = active_of v \<and> lw_open (fold (shift_gen a) is v) = lw_open v" for "is" v
    by (induction "is" arbitrary: v) (auto simp: shift_gen_def split: option.split)
  have rot: "keeps v" if r: "rotate a w = (r, v)" for r v
  proof (cases "MaxFiles (lw_opt w) = 0")
    case True
    then show ?thesis
      using r re [of "''remove''" "w\<lparr>lw_open := False\<rparr>"] op [of "put_active None (w\<lparr>lw_open := False\<rparr>)"]
      by (auto simp: rotate_def keeps_def Let_def split: if_splits prod.splits option.splits)
  next
    case False
    define w0 where "w0 = w\<lparr>lw_open := False\<rparr>"
    define wx where "wx = (if la_removed a (max_files w0) then put_gen (max_files w0) None w0 else w0)"
    define w2 where "w2 = fold (shift_gen a) (rev [1 ..< max_files wx]) wx"
    have w2: "active_of w2 = active_of w" "\<not> lw_open w2" by (simp_all add: w2_def wx_def w0_def sh)
    have eq: "rotate a w = (case active_of w2 of
        None \<Rightarrow> (let (err, w) = reopenAfterFailedRotate a ''rename'' w2 in (Some err, w))
      | Some c \<Rightarrow> if \<not> la_renamed a 0 then (let (err, w) = reopenAfterFailedRotate a ''rename'' w2 in (Some err, w))
          else (case open_active a (put_active None (put_gen 1 (Some c) w2)) of (Some err, w) \<Rightarrow> (Some err, w)
               | (None, w) \<Rightarrow> (None, prune a w)))"
      using False unfolding rotate_def Let_def w0_def [symmetric] wx_def [symmetric] w2_def [symmetric] by (simp add: w0_def)
    show ?thesis
    proof (cases "active_of w2 = None \<or> \<not> la_renamed a 0")
      case True
      then show ?thesis using r re [of "''rename''" w2] w2
        by (auto simp: eq Let_def split: if_splits prod.splits option.splits)
    next
      case False
      then obtain c where c: "active_of w2 = Some c" "la_renamed a 0" by auto
      obtain e v1 where o: "open_active a (put_active None (put_gen 1 (Some c) w2)) = (e, v1)"
        by (cases "open_active a (put_active None (put_gen 1 (Some c) w2))")
      then show ?thesis using r c op [OF o] w2(2) pr [of v1] by (cases e) (auto simp: eq keeps_def)
    qed
  qed
  obtain w1 where w1: "(if lw_size w > 0 \<and> lw_size w + int (length p) > MaxSize (lw_opt w) \<and> lw_size w \<ge> lw_retryAt w
      then case rotate a w of (Some _, w) \<Rightarrow> w\<lparr>lw_retryAt := lw_size w + MaxSize (lw_opt w) div retryGapDivisor\<rparr>
           | (None, w) \<Rightarrow> w else w) = w1" by blast
  have "keeps w1"
  proof -
    obtain r v where rv: "rotate a w = (r, v)" by (cases "rotate a w")
    have "keeps w" by (simp add: keeps_def)
    then show ?thesis using rot [OF rv] w1 rv by (cases r) (auto simp: keeps_def split: if_splits)
  qed
  moreover have eq: "((n, err), w') = (if \<not> lw_open w1 then ((0, Some ''invalid argument''), w1)
      else let n = (case la_write a of None \<Rightarrow> length p | Some _ \<Rightarrow> min (la_taken a) (length p));
               data = (case active_of w1 of None \<Rightarrow> [] | Some c \<Rightarrow> c);
               w = put_active (Some (data @ take n p)) w1
           in ((n, la_write a), w\<lparr>lw_size := lw_size w + int n\<rparr>))"
    using assms True unfolding Write_def Let_def w1 by simp
  ultimately show ?thesis
    by (cases "lw_open w1") (auto simp: keeps_def text_of_def Let_def split: option.splits)
qed

section \<open>Reading back\<close>

definition lines_text :: "string list \<Rightarrow> string" where
  "lines_text ls = concat (map (\<lambda>l. l @ [CHR 0x0A]) ls)"

lemma lines_text_append [simp]: "lines_text (xs @ ys) = lines_text xs @ lines_text ys"
  by (simp add: lines_text_def)

text \<open>Whole lines: no line feed inside, no carriage return at the end, and the last one is not blank.\<close>

definition whole :: "string list \<Rightarrow> bool" where
  "whole ls \<longleftrightarrow> (\<forall>l\<in>set ls. CHR 0x0A \<notin> set l \<and> (l \<noteq> [] \<longrightarrow> last l \<noteq> CHR 0x0D)) \<and> (ls \<noteq> [] \<longrightarrow> last ls \<noteq> [])"

lemma split_on_none: "c \<notin> set l \<Longrightarrow> split_on c l = [l]"
  by (induction l) auto

lemma split_on_cons: "c \<notin> set l \<Longrightarrow> split_on c (l @ c # r) = l # split_on c r"
  by (induction l) auto

lemma split_lines:
  "\<forall>l\<in>set ls. CHR 0x0A \<notin> set l \<Longrightarrow> CHR 0x0A \<notin> set l \<Longrightarrow> split_on (CHR 0x0A) (lines_text ls @ l) = ls @ [l]"
  by (induction ls) (simp_all add: lines_text_def split_on_none split_on_cons)

lemma trim_returns_id: "l \<noteq> [] \<longrightarrow> last l \<noteq> CHR 0x0D \<Longrightarrow> trim_returns l = l"
  by (cases l rule: rev_cases) (simp_all add: trim_returns_def)

lemma tailFile_whole:
  assumes "whole ls" "length (lines_text ls) \<le> tailWindow" "length (lines_text ls) \<le> got"
  shows "tailFile got (Some (lines_text ls)) n = drop (length ls - n) ls"
proof (cases ls rule: rev_cases)
  case Nil
  then show ?thesis by (simp add: tailFile_def lines_text_def)
next
  case (snoc ls' l)
  have l: "l \<noteq> []" "CHR 0x0A \<notin> set l" "\<forall>x\<in>set ls'. CHR 0x0A \<notin> set x" using assms(1) by (auto simp: whole_def snoc)
  have tx: "lines_text ls = lines_text ls' @ l @ [CHR 0x0A]" by (simp add: lines_text_def snoc)
  have "last l \<noteq> CHR 0x0A" using l by (metis last_in_set)
  then have "trim_newlines (lines_text ls) = lines_text ls' @ l"
    using l(1) by (cases l rule: rev_cases) (simp_all add: tx trim_newlines_def)
  then have "split_on (CHR 0x0A) (trim_newlines (lines_text ls)) = ls" using split_lines [OF l(3,2)] by (simp add: snoc)
  moreover have "map trim_returns ls = ls" using assms(1) trim_returns_id by (auto simp: whole_def intro!: map_idI)
  moreover have "ls \<noteq> [[]]" using l(1) by (simp add: snoc)
  moreover have "lines_text ls \<noteq> []" by (simp add: tx)
  ultimately show ?thesis using assms(2,3) by (simp add: tailFile_def Let_def)
qed

lemma drop_last_append:
  "drop (length (xs @ ys) - n) (xs @ ys) =
     (if n \<le> length ys then drop (length ys - n) ys else drop (length xs - (n - length ys)) xs @ ys)"
  by auto

lemma tail_loop_whole:
  assumes "\<forall>i\<in>set is. text_of (if i = 0 then active_of w else gen_of w i) = lines_text (ls i) \<and> whole (ls i) \<and>
      length (lines_text (ls i)) \<le> tailWindow \<and> length (lines_text (ls i)) \<le> got i"
    and "out = drop (length done - n) done"
  shows "tail_loop got w n is out = drop (length (concat (map ls (rev is)) @ done) - n) (concat (map ls (rev is)) @ done)"
  using assms
proof (induction "is" arbitrary: "done" out)
  case (Cons i "is")
  let ?c = "if i = 0 then active_of w else gen_of w i"
  have tf: "tailFile (got i) ?c m = drop (length (ls i) - m) (ls i)" for m
  proof (cases ?c)
    case None
    then have "lines_text (ls i) = []" using Cons.prems(1) by simp
    then have "ls i = []" by (cases "ls i") (simp_all add: lines_text_def)
    then show ?thesis by (simp add: tailFile_def None)
  next
    case (Some c)
    then have "c = lines_text (ls i)" using Cons.prems(1) by auto
    then show ?thesis using tailFile_whole [of "ls i" "got i" m] Cons.prems(1) Some by auto
  qed
  show ?case
  proof (cases "length out \<ge> n")
    case True
    then have "n \<le> length done" using Cons.prems(2) by simp
    then show ?thesis using True Cons.prems(2) drop_last_append [of "concat (map ls (rev is)) @ ls i" "done" n] by simp
  next
    case False
    then have "out = done" using Cons.prems(2) by auto
    have "drop (length (ls i) - (n - length out)) (ls i) @ out = drop (length (ls i @ done) - n) (ls i @ done)"
      using False drop_last_append [of "ls i" "done" n] by (simp add: \<open>out = done\<close>)
    from Cons.IH [OF _ this] show ?thesis using Cons.prems(1) False tf by simp
  qed
qed simp

text \<open>Reading back gives the last lines.  When every file of the log holds whole lines, fits the window and can be
  read, the tail of \<open>n\<close> lines is the last \<open>n\<close> of all the lines the files hold, oldest first, wherever the generations
  divide them.\<close>

theorem Tail_gives_last_lines:
  assumes "\<forall>i\<le>max_files w. text_of (if i = 0 then active_of w else gen_of w i) = lines_text (ls i) \<and> whole (ls i) \<and>
      length (lines_text (ls i)) \<le> tailWindow \<and> length (lines_text (ls i)) \<le> got i"
    and "stored = concat (map ls (rev [0 ..< max_files w + 1]))"
  shows "stream w = lines_text stored \<and> Tail got n w = drop (length stored - nat n) stored"
proof
  have lt: "lines_text (concat xs) = concat (map lines_text xs)" for xs by (induction xs) (simp_all add: lines_text_def)
  have "gens_text (lf_gen (lw_files w)) k = concat (map (\<lambda>i. lines_text (ls i)) (rev [1 ..< k + 1]))" if "k \<le> max_files w" for k
    using that
  proof (induction k)
    case (Suc k)
    have "text_of (gen_of w (Suc k)) = lines_text (ls (Suc k))" using assms(1) [rule_format, of "Suc k"] Suc.prems by simp
    then show ?case using Suc by (simp add: gens_text_Suc)
  qed simp
  moreover have "rev [0 ..< max_files w + 1] = rev [1 ..< max_files w + 1] @ [0]" by (simp add: upt_conv_Cons del: upt_Suc)
  ultimately show "stream w = lines_text stored"
    using assms(1) [rule_format, of 0] by (simp add: stream_def assms(2) lt comp_def del: upt_Suc)
  have "tail_loop got w (nat n) [0 ..< max_files w + 1] [] = drop (length (stored @ []) - nat n) (stored @ [])"
    unfolding assms(2) by (rule tail_loop_whole) (use assms(1) in auto)
  then show "Tail got n w = drop (length stored - nat n) stored" by (simp add: Tail_def Let_def)
qed

section \<open>A log on concrete data\<close>

definition ex_log_ok :: log_answers where
  "ex_log_ok = \<lparr>la_mkdir = None, la_verify = None, la_open = None, la_size_known = True, la_seen = (\<lambda>_. True),
     la_removed = (\<lambda>_. True), la_pruned = (\<lambda>_. True), la_renamed = (\<lambda>_. True), la_taken = 0, la_write = None\<rparr>"

definition ex_log_options :: log_options where
  "ex_log_options = \<lparr>MaxSize = 4, MaxFiles = 2, MaxTotal = 8\<rparr>"

definition ex_log_files :: log_files where
  "ex_log_files = \<lparr>lf_active = Some ''ab'', lf_gen = [1 \<mapsto> ''cd'', 5 \<mapsto> ''old'']\<rparr>"

lemma ex_log_all_ok: "all_ok ex_log_ok"
  by (simp add: all_ok_def ex_log_ok_def)

lemma ex_log_files_ok: "\<forall>i. lf_gen ex_log_files i \<noteq> None \<longrightarrow> 1 \<le> i \<and> i \<le> nat (MaxFiles (withDefaults ex_log_options)) + 16"
  by (auto simp: ex_log_files_def ex_log_options_def withDefaults_def split: if_splits)

lemma ex_log_opens: "\<exists>w. Open ex_log_ok ex_log_options ex_log_files = Inr w"
proof -
  have "la_mkdir ex_log_ok = None" by (simp add: ex_log_ok_def)
  then show ?thesis by (simp add: Open_def open_ok [OF ex_log_all_ok])
qed

definition ex_log_written :: writer where
  "ex_log_written = (case Open ex_log_ok ex_log_options ex_log_files of
     Inr w \<Rightarrow> snd (Write ex_log_ok ''xyz'' (snd (Write ex_log_ok ''q'' w))))"

lemma log_stays_bounded_witness: "length (stream ex_log_written) \<le> 8"
proof -
  obtain w where w: "Open ex_log_ok ex_log_options ex_log_files = Inr w" using ex_log_opens by blast
  have ops: "\<forall>(b, p)\<in>set [(ex_log_ok, ''q''), (ex_log_ok, ''xyz'')]. all_ok b \<and> int (length p) \<le> MaxSize (withDefaults ex_log_options)"
    by (simp add: ex_log_all_ok ex_log_options_def withDefaults_def)
  from log_stays_bounded [OF w ex_log_all_ok refl ex_log_files_ok ops refl refl]
  have "int (length (stream ex_log_written)) \<le> max (MaxTotal (withDefaults ex_log_options))
      (max (MaxSize (withDefaults ex_log_options)) (int (length (text_of (lf_active ex_log_files)))))"
    by (simp add: ex_log_written_def w)
  then show ?thesis by (simp add: ex_log_options_def withDefaults_def ex_log_files_def)
qed

lemma only_the_oldest_given_up_witness: "suffix (stream ex_log_written) ''cdabqxyz'' \<and> suffix ''xyz'' (text_of (active_of ex_log_written))"
proof -
  obtain w where w: "Open ex_log_ok ex_log_options ex_log_files = Inr w" using ex_log_opens by blast
  have ops: "\<forall>(b, p)\<in>set [(ex_log_ok, ''q''), (ex_log_ok, ''xyz'')]. all_ok b" by (simp add: ex_log_all_ok)
  have k: "gens_text (lf_gen ex_log_files) (nat (MaxFiles (withDefaults ex_log_options))) = ''cd''"
    by (simp add: ex_log_options_def withDefaults_def ex_log_files_def gens_text_def numeral_2_eq_2)
  from only_the_oldest_given_up [OF w ex_log_all_ok refl ex_log_files_ok ops refl] show ?thesis
    unfolding k by (simp add: ex_log_written_def w) (simp add: ex_log_files_def)
qed

definition ex_log_stuck :: log_answers where
  "ex_log_stuck = ex_log_ok\<lparr>la_renamed := (\<lambda>_. False), la_taken := 2, la_write := Some ''no space''\<rparr>"

lemma no_write_lost_silently_witness:
  "\<exists>n err w'. Write ex_log_stuck ''xyz'' ex_log_written = ((n, err), w') \<and> (n = 0 \<or> lw_open w')"
proof -
  obtain n err w' where w: "Write ex_log_stuck ''xyz'' ex_log_written = ((n, err), w')"
    by (metis surj_pair)
  from no_write_lost_silently [OF w] w show ?thesis by blast
qed

lemma Tail_gives_last_lines_witness:
  "Tail (\<lambda>_. 100) 2 \<lparr>lw_opt = \<lparr>MaxSize = 9, MaxFiles = 1, MaxTotal = 20\<rparr>, lw_files =
      \<lparr>lf_active = Some [CHR ''c'', CHR 0x0A], lf_gen = [1 \<mapsto> [CHR ''a'', CHR 0x0A, CHR ''b'', CHR 0x0A]]\<rparr>,
      lw_open = True, lw_size = 2, lw_retryAt = 0\<rparr> = [''b'', ''c'']"
proof -
  let ?w = "\<lparr>lw_opt = \<lparr>MaxSize = 9, MaxFiles = 1, MaxTotal = 20\<rparr>, lw_files =
      \<lparr>lf_active = Some [CHR ''c'', CHR 0x0A], lf_gen = [1 \<mapsto> [CHR ''a'', CHR 0x0A, CHR ''b'', CHR 0x0A]]\<rparr>,
      lw_open = True, lw_size = 2, lw_retryAt = 0\<rparr>"
  let ?ls = "\<lambda>i. if i = 0 then [''c''] else [''a'', ''b'']"
  have "\<forall>i\<le>max_files ?w. text_of (if i = 0 then active_of ?w else gen_of ?w i) = lines_text (?ls i) \<and> whole (?ls i) \<and>
      length (lines_text (?ls i)) \<le> tailWindow \<and> length (lines_text (?ls i)) \<le> 100"
    by (auto simp: lines_text_def whole_def tailWindow_def le_Suc_eq)
  from Tail_gives_last_lines [OF this refl, of 2] show ?thesis by (simp add: numeral_2_eq_2)
qed

end
