(* ===== verification/Go_Net.thy ===== *)
theory Go_Net
  imports Go_Url
begin

text \<open>
  What the core uses of Go's \<^verbatim>\<open>net\<close> package: an address (\<^verbatim>\<open>net.IP\<close>) is the list of its bytes, four or sixteen of
  them or, for a nil slice, none; an IPv4 address may be held in sixteen bytes, and \<^verbatim>\<open>To4\<close> brings it back.
\<close>

unbundle bit_operations_syntax

section \<open>Addresses\<close>

definition To4 :: "nat list \<Rightarrow> nat list option" where
  "To4 ip =
     (if length ip = 4 then Some ip
      else if mapped_v4 ip then Some (drop 12 ip)
      else None)"

definition short_ip :: "nat list \<Rightarrow> nat list" where
  "short_ip ip = (case To4 ip of Some v \<Rightarrow> v | None \<Rightarrow> ip)"

definition ip_IsUnspecified :: "nat list \<Rightarrow> bool" where
  "ip_IsUnspecified ip \<longleftrightarrow> To4 ip = Some (replicate 4 0) \<or> ip = replicate 16 0"

definition ip_IsLoopback :: "nat list \<Rightarrow> bool" where
  "ip_IsLoopback ip =
     (case To4 ip of Some v \<Rightarrow> v ! 0 = 127 | None \<Rightarrow> ip = replicate 15 0 @ [1])"

definition ip_IsMulticast :: "nat list \<Rightarrow> bool" where
  "ip_IsMulticast ip =
     (case To4 ip of Some v \<Rightarrow> v ! 0 div 16 = 14 | None \<Rightarrow> length ip = 16 \<and> ip ! 0 = 255)"

definition ip_IsLinkLocalMulticast :: "nat list \<Rightarrow> bool" where
  "ip_IsLinkLocalMulticast ip =
     (case To4 ip of
        Some v \<Rightarrow> v ! 0 = 224 \<and> v ! 1 = 0 \<and> v ! 2 = 0
      | None \<Rightarrow> length ip = 16 \<and> ip ! 0 = 255 \<and> ip ! 1 mod 16 = 2)"

definition ip_IsLinkLocalUnicast :: "nat list \<Rightarrow> bool" where
  "ip_IsLinkLocalUnicast ip =
     (case To4 ip of
        Some v \<Rightarrow> v ! 0 = 169 \<and> v ! 1 = 254
      | None \<Rightarrow> length ip = 16 \<and> ip ! 0 = 254 \<and> ip ! 1 div 64 = 2)"

section \<open>Writing an address\<close>

definition hex_digit :: "nat \<Rightarrow> char" where
  "hex_digit d = (if d < 10 then char_of (48 + d) else char_of (87 + d))"

function hex_str :: "nat \<Rightarrow> string" where
  "hex_str n = (if n < 16 then [hex_digit n] else hex_str (n div 16) @ [hex_digit (n mod 16)])"
  by pat_completeness auto
termination by (relation "measure id") auto

declare hex_str.simps [simp del]

fun groups :: "nat list \<Rightarrow> nat list" where
  "groups (a # b # r) = (a * 256 + b) # groups r"
| "groups _ = []"

definition zero_run :: "nat list \<Rightarrow> nat \<Rightarrow> nat" where
  "zero_run gs i = length (takeWhile (\<lambda>g. g = 0) (drop i gs))"

text \<open>The longest run of at least two zero groups, the first of several: where it starts and its length.\<close>

definition longest_run :: "nat list \<Rightarrow> nat \<times> nat" where
  "longest_run gs =
     foldl (\<lambda>(s, l) i. if 2 \<le> zero_run gs i \<and> l < zero_run gs i then (i, zero_run gs i) else (s, l))
       (0, 0) [0..<length gs]"

definition v6_str :: "nat list \<Rightarrow> string" where
  "v6_str ip =
     (let gs = groups ip; (s, l) = longest_run gs
      in if l = 0 then join '':'' (map hex_str gs)
         else join '':'' (map hex_str (take s gs)) @ ''::'' @ join '':'' (map hex_str (drop (s + l) gs)))"

definition byte_hex :: "nat \<Rightarrow> string" where
  "byte_hex b = [hex_digit (b div 16), hex_digit (b mod 16)]"

definition ip_str :: "nat list \<Rightarrow> string" where
  "ip_str ip =
     (if ip = [] then ''<nil>''
      else if length ip \<noteq> 4 \<and> length ip \<noteq> 16 then ''?'' @ concat (map byte_hex ip)
      else case To4 ip of
             Some v \<Rightarrow> join ''.'' (map nat_str v)
           | None \<Rightarrow> v6_str ip)"

section \<open>Networks\<close>

record ip_net =
  NetIP :: "nat list"
  NetMask :: "nat list"

text \<open>\<^verbatim>\<open>net.CIDRMask\<close>: \<open>n\<close> ones over \<open>l\<close> bytes.\<close>

fun cidr_mask :: "nat \<Rightarrow> nat \<Rightarrow> nat list" where
  "cidr_mask 0 n = []"
| "cidr_mask (Suc l) n =
     (if 8 \<le> n then 255 # cidr_mask l (n - 8) else (255 - 255 div 2 ^ n) # cidr_mask l 0)"

definition networkNumberAndMask :: "ip_net \<Rightarrow> nat list \<times> nat list" where
  "networkNumberAndMask n =
     (let ip = short_ip (NetIP n); m = NetMask n
      in if length ip \<noteq> 4 \<and> length ip \<noteq> 16 then ([], [])
         else if length m = 4 then (if length ip \<noteq> 4 then ([], []) else (ip, m))
         else if length m = 16 then (ip, if length ip = 4 then drop 12 m else m)
         else ([], []))"

definition Contains :: "ip_net \<Rightarrow> nat list \<Rightarrow> bool" where
  "Contains n ip0 =
     (let (nn, m) = networkNumberAndMask n;
          ip = short_ip ip0
      in length ip = length nn \<and> (\<forall>i\<in>set [0..<length ip]. nn ! i AND m ! i = ip ! i AND m ! i))"

text \<open>\<^verbatim>\<open>net.ParseCIDR\<close>: the address, always in sixteen bytes, and its network.\<close>

definition as16 :: "nat list \<Rightarrow> nat list" where
  "as16 a = (if length a = 4 then replicate 10 0 @ [255, 255] @ a else a)"

definition ParseCIDR :: "string \<Rightarrow> (nat list \<times> ip_net) option" where
  "ParseCIDR s =
     (let (addr, m, found) = cut (CHR ''/'') s
      in if \<not> found then None
         else case ParseAddr addr of
                None \<Rightarrow> None
              | Some (a, z) \<Rightarrow>
                  if z \<noteq> [] \<or> m = [] \<or> \<not> list_all is_digit m \<or> 8 * length a < dec_val m then None
                  else let k = cidr_mask (length a) (dec_val m)
                       in Some (as16 a, \<lparr>NetIP = map2 (\<lambda>x y. x AND y) a k, NetMask = k\<rparr>))"

section \<open>A network as the set of its addresses\<close>

text \<open>Bit \<open>j\<close> of an address, the first byte's highest bit first.\<close>

definition addr_bit :: "nat list \<Rightarrow> nat \<Rightarrow> bool" where
  "addr_bit a j = bit (a ! (j div 8)) (7 - j mod 8)"

definition agree :: "nat \<Rightarrow> nat list \<Rightarrow> nat list \<Rightarrow> bool" where
  "agree k a b \<longleftrightarrow> length a = length b \<and> (\<forall>j<k. addr_bit a j = addr_bit b j)"


text \<open>Evaluation at numerals.\<close>

lemma replicate_step: "0 < n \<Longrightarrow> replicate n x = x # replicate (n - 1) x"
  by (cases n) auto

lemma length_cidr_mask [simp]: "length (cidr_mask l n) = l"
  by (induction l n rule: cidr_mask.induct) auto

lemma byte_mask_bit:
  assumes "n < 8" "i < 8"
  shows "bit (255 - 255 div 2 ^ n :: nat) (7 - i) \<longleftrightarrow> i < n"
proof -
  have "n \<in> {0,1,2,3,4,5,6,7}" "i \<in> {0,1,2,3,4,5,6,7}" using assms by auto
  then show ?thesis by (elim insertE emptyE) (simp_all add: bit_iff_odd)
qed

lemma byte_255_bit: "i < 8 \<Longrightarrow> bit (255 :: nat) (7 - i)"
  using byte_mask_bit [of 0 0] by (subgoal_tac "i \<in> {0,1,2,3,4,5,6,7}") (auto simp: bit_iff_odd)

lemma cidr_mask_bit:
  "j < 8 * l \<Longrightarrow> addr_bit (cidr_mask l n) j \<longleftrightarrow> j < n"
proof (induction l n arbitrary: j rule: cidr_mask.induct)
  case (2 l n)
  show ?case
  proof (cases "j < 8")
    case True
    then show ?thesis by (auto simp: addr_bit_def byte_mask_bit byte_255_bit)
  next
    case False
    then obtain i where i: "j = i + 8" by (metis add.commute le_add_diff_inverse not_less)
    have "(i + 8) div 8 = Suc (i div 8)" by simp
    then have "addr_bit (x # m) j = addr_bit m i" for x m by (simp add: addr_bit_def i)
    with 2 i show ?thesis by auto
  qed
qed simp

lemma cidr_mask_byte: "i < l \<Longrightarrow> cidr_mask l n ! i < 256"
proof (induction l n arbitrary: i rule: cidr_mask.induct)
  case (2 l n)
  then show ?case by (cases i) auto
qed simp

lemma masked_byte:
  fixes x y m :: nat
  assumes "m < 256"
  shows "x AND m = y AND m \<longleftrightarrow> (\<forall>i<8. bit m (7 - i) \<longrightarrow> bit x (7 - i) = bit y (7 - i))"
proof
  assume eq: "x AND m = y AND m"
  show "\<forall>i<8. bit m (7 - i) \<longrightarrow> bit x (7 - i) = bit y (7 - i)"
  proof (intro allI impI)
    fix i :: nat assume "bit m (7 - i)"
    with arg_cong [OF eq, of "\<lambda>z. bit z (7 - i)"] show "bit x (7 - i) = bit y (7 - i)"
      by (simp add: bit_and_iff)
  qed
next
  assume all: "\<forall>i<8. bit m (7 - i) \<longrightarrow> bit x (7 - i) = bit y (7 - i)"
  have "bit m k \<Longrightarrow> bit x k = bit y k" for k
  proof -
    assume b: "bit m k"
    have "take_bit 8 m = m" using assms by (simp add: take_bit_nat_eq_self)
    with b have "k < 8" by (metis bit_take_bit_iff)
    then have "7 - (7 - k) = k" "7 - k < 8" by auto
    with all b show ?thesis by metis
  qed
  then show "x AND m = y AND m" by (auto simp: bit_eq_iff bit_and_iff)
qed

text \<open>Masking by a prefix mask compares the prefix.\<close>

lemma masked_agree:
  assumes "length a = l" "length b = l" "n \<le> 8 * l"
  shows "(\<forall>i<l. a ! i AND cidr_mask l n ! i = b ! i AND cidr_mask l n ! i) \<longleftrightarrow> agree n a b"
proof -
  have "(\<forall>i<l. a ! i AND cidr_mask l n ! i = b ! i AND cidr_mask l n ! i) \<longleftrightarrow>
      (\<forall>i<l. \<forall>r<8. addr_bit (cidr_mask l n) (8 * i + r) \<longrightarrow> addr_bit a (8 * i + r) = addr_bit b (8 * i + r))"
    by (auto simp: masked_byte cidr_mask_byte addr_bit_def)
  also have "\<dots> \<longleftrightarrow> (\<forall>i<l. \<forall>r<8. 8 * i + r < n \<longrightarrow> addr_bit a (8 * i + r) = addr_bit b (8 * i + r))"
    by (simp add: cidr_mask_bit)
  also have "\<dots> \<longleftrightarrow> (\<forall>j<n. addr_bit a j = addr_bit b j)"
  proof
    assume *: "\<forall>i<l. \<forall>r<8. 8 * i + r < n \<longrightarrow> addr_bit a (8 * i + r) = addr_bit b (8 * i + r)"
    show "\<forall>j<n. addr_bit a j = addr_bit b j"
    proof (intro allI impI)
      fix j assume "j < n"
      moreover from this have "j div 8 < l" "j mod 8 < 8" "8 * (j div 8) + j mod 8 = j" using assms(3) by auto
      ultimately show "addr_bit a j = addr_bit b j" using * by metis
    qed
  qed auto
  finally show ?thesis using assms by (simp add: agree_def)
qed

text \<open>The networks the operating system reports: a prefix mask of the address's own width.\<close>

definition prefix_net :: "nat \<Rightarrow> ip_net \<Rightarrow> bool" where
  "prefix_net k n \<longleftrightarrow>
     length (short_ip (NetIP n)) \<in> {4, 16} \<and> k \<le> 8 * length (short_ip (NetIP n)) \<and>
     NetMask n = cidr_mask (length (short_ip (NetIP n))) k"

lemma Contains_agree:
  assumes "prefix_net k n"
  shows "Contains n ip \<longleftrightarrow> agree k (short_ip (NetIP n)) (short_ip ip)"
proof -
  let ?b = "short_ip (NetIP n)"
  have "networkNumberAndMask n = (?b, cidr_mask (length ?b) k)"
    using assms by (auto simp: networkNumberAndMask_def prefix_net_def Let_def)
  then have "Contains n ip \<longleftrightarrow> length (short_ip ip) = length ?b \<and>
      (\<forall>i<length ?b. ?b ! i AND cidr_mask (length ?b) k ! i = short_ip ip ! i AND cidr_mask (length ?b) k ! i)"
    by (auto simp: Contains_def Let_def)
  also have "\<dots> \<longleftrightarrow> agree k ?b (short_ip ip)"
    using masked_agree [of ?b "length ?b" "short_ip ip" k] assms by (auto simp: prefix_net_def agree_def)
  finally show ?thesis .
qed

text \<open>Two prefixes share an address exactly if one base lies in the other.\<close>

lemma agree_both:
  "(\<exists>c. agree k a c \<and> agree l b c) \<longleftrightarrow> agree (min k l) a b"
proof
  assume "agree (min k l) a b"
  then show "\<exists>c. agree k a c \<and> agree l b c"
    by (cases "k \<le> l") (auto simp: agree_def intro: exI [of _ a] exI [of _ b])
qed (auto simp: agree_def)

end
