(* ===== verification/Tun_Address.thy ===== *)
theory Tun_Address
  imports Go_Net Singbox
begin

text \<open>
  The choice of the tunnel's own addresses (\<^verbatim>\<open>core/singbox/tunaddr.go\<close>): the first pair of networks that touches
  nothing this machine already has, and that the choice does exactly that.
\<close>

record tun_addr_pair =
  PairV4 :: string
  PairV6 :: string

definition tunAddrCandidates :: "tun_addr_pair list" where
  "tunAddrCandidates =
     [\<lparr>PairV4 = ''172.19.0.1/30'', PairV6 = ''fdfe:dcba:9876::1/126''\<rparr>,
      \<lparr>PairV4 = ''172.28.0.1/30'', PairV6 = ''fdfe:dcba:9877::1/126''\<rparr>,
      \<lparr>PairV4 = ''172.29.0.1/30'', PairV6 = ''fdfe:dcba:9878::1/126''\<rparr>,
      \<lparr>PairV4 = ''172.30.0.1/30'', PairV6 = ''fdfe:dcba:9879::1/126''\<rparr>,
      \<lparr>PairV4 = ''172.31.0.1/30'', PairV6 = ''fdfe:dcba:987a::1/126''\<rparr>]"

text \<open>What \<^verbatim>\<open>net.Interface.Addrs\<close> returns: networks, single addresses, and types the code ignores.\<close>

datatype iface_addr = Addr_net ip_net | Addr_ip "nat list" | Addr_other

definition toNets :: "iface_addr list \<Rightarrow> ip_net list" where
  "toNets addrs =
     concat (map (\<lambda>a. case a of
         Addr_net n \<Rightarrow> [n]
       | Addr_ip ip \<Rightarrow>
           (let bits = (if To4 ip = None then 128 else 32)
            in [\<lparr>NetIP = ip, NetMask = cidr_mask (bits div 8) bits\<rparr>])
       | Addr_other \<Rightarrow> []) addrs)"

definition cidrCollides :: "string \<Rightarrow> ip_net list \<Rightarrow> bool" where
  "cidrCollides cidr nets =
     (case ParseCIDR cidr of
        None \<Rightarrow> True
      | Some (ip, ipnet) \<Rightarrow> list_ex (\<lambda>n. Contains n ip \<or> Contains ipnet (NetIP n)) nets)"

definition FreeTunAddresses :: "iface_addr list \<Rightarrow> tun_addr_pair" where
  "FreeTunAddresses taken =
     (let nets = toNets taken
      in case find (\<lambda>c. \<not> cidrCollides (PairV4 c) nets \<and> \<not> cidrCollides (PairV6 c) nets) tunAddrCandidates of
           Some c \<Rightarrow> c
         | None \<Rightarrow> tunAddrCandidates ! 0)"

text \<open>\<^verbatim>\<open>LocalAddrs\<close>: each interface's addresses, or nothing where asking failed.\<close>

definition LocalAddrs :: "iface_addr list option list option \<Rightarrow> iface_addr list" where
  "LocalAddrs ifaces =
     (case ifaces of
        None \<Rightarrow> []
      | Some is \<Rightarrow> concat (map (\<lambda>a. case a of None \<Rightarrow> [] | Some as \<Rightarrow> as) is))"

lemma default_candidate: "PairV4 (tunAddrCandidates ! 0) = tunAddr \<and> PairV6 (tunAddrCandidates ! 0) = tunAddr6"
  by (simp add: tunAddrCandidates_def tunAddr_def tunAddr6_def)

section \<open>What the choice promises\<close>

text \<open>The address of an interface is a valid network or a valid address.\<close>

definition proper_addr :: "iface_addr \<Rightarrow> bool" where
  "proper_addr a \<longleftrightarrow>
     (case a of Addr_net n \<Rightarrow> \<exists>k. prefix_net k n | Addr_ip ip \<Rightarrow> length ip \<in> {4, 16} | Addr_other \<Rightarrow> True)"

lemma short_ip_length: "length ip \<in> {4, 16} \<Longrightarrow> length (short_ip ip) = (if To4 ip = None then 16 else 4)"
  by (auto simp: short_ip_def To4_def mapped_v4_def)

lemma toNets_prefix:
  assumes "\<forall>a\<in>set taken. proper_addr a" "n \<in> set (toNets taken)"
  shows "\<exists>k. prefix_net k n"
proof -
  from assms(2) obtain a where a: "a \<in> set taken" and
    n: "n \<in> set (case a of Addr_net n \<Rightarrow> [n]
       | Addr_ip ip \<Rightarrow>
           (let bits = (if To4 ip = None then 128 else 32)
            in [\<lparr>NetIP = ip, NetMask = cidr_mask (bits div 8) bits\<rparr>])
       | Addr_other \<Rightarrow> [])"
    by (auto simp: toNets_def)
  from assms(1) a have p: "proper_addr a" by blast
  show ?thesis
  proof (cases a)
    case (Addr_ip ip)
    with p n short_ip_length [of ip] have "prefix_net (if To4 ip = None then 128 else 32) n"
      by (auto simp: proper_addr_def prefix_net_def split: if_splits)
    then show ?thesis ..
  qed (use p n in \<open>auto simp: proper_addr_def\<close>)
qed

text \<open>Two networks share an address.\<close>

definition overlaps :: "ip_net \<Rightarrow> ip_net \<Rightarrow> bool" where
  "overlaps m n \<longleftrightarrow> (\<exists>ip. Contains m ip \<and> Contains n ip)"

lemma overlaps_iff:
  assumes "prefix_net k m" "prefix_net l n"
  shows "overlaps m n \<longleftrightarrow> agree (min k l) (short_ip (NetIP m)) (short_ip (NetIP n))"
proof
  assume "agree (min k l) (short_ip (NetIP m)) (short_ip (NetIP n))"
  then show "overlaps m n"
    by (cases "k \<le> l")
      (auto simp: overlaps_def Contains_agree [OF assms(1)] Contains_agree [OF assms(2)] agree_def
        intro: exI [of _ "NetIP m"] exI [of _ "NetIP n"])
qed (auto simp: overlaps_def Contains_agree [OF assms(1)] Contains_agree [OF assms(2)] agree_def)

text \<open>The ten candidate networks: parsed, and their own address inside.\<close>

definition cidr_ok :: "nat \<Rightarrow> string \<Rightarrow> bool" where
  "cidr_ok k s =
     (case ParseCIDR s of
        None \<Rightarrow> False
      | Some (ip, n) \<Rightarrow>
          length (short_ip (NetIP n)) \<in> set [4, 16] \<and> k \<le> 8 * length (short_ip (NetIP n)) \<and>
          NetMask n = cidr_mask (length (short_ip (NetIP n))) k \<and>
          Contains n ip)"

lemma cidr_mask_step:
  "0 < l \<Longrightarrow> cidr_mask l n = (if 8 \<le> n then 255 # cidr_mask (l - 1) (n - 8) else (255 - 255 div 2 ^ n) # cidr_mask (l - 1) 0)"
  by (cases l) auto

lemmas cidr_eval = ParseCIDR_def ParseAddr_def cut_def index_byte_def parse_v4_def v4_field_def is_digit_def dec_val_def
  digit_val_def parse_v6_def v6_loop.simps v6_done_def hex_val_def has_prefix_def cidr_mask_step as16_def Let_def
  Contains_def networkNumberAndMask_def short_ip_def To4_def mapped_v4_def replicate_step
  atLeast0LessThan lessThan_Suc

lemma candidates_ok:
  "list_all (\<lambda>c. cidr_ok 30 (PairV4 c) \<and> cidr_ok 126 (PairV6 c)) tunAddrCandidates"
  by (simp add: tunAddrCandidates_def cidr_ok_def cidr_eval)

definition net_of :: "string \<Rightarrow> ip_net" where
  "net_of s = snd (the (ParseCIDR s))"

lemma cidrCollides_iff:
  assumes "cidr_ok k s" "\<forall>n\<in>set nets. \<exists>l. prefix_net l n"
  shows "cidrCollides s nets \<longleftrightarrow> (\<exists>n\<in>set nets. overlaps (net_of s) n)"
proof -
  from assms(1) obtain ip c where c: "ParseCIDR s = Some (ip, c)" and pn: "prefix_net k c"
    and ip: "agree k (short_ip (NetIP c)) (short_ip ip)"
    by (auto simp: cidr_ok_def prefix_net_def Contains_agree split: option.splits)
  have "Contains n ip \<or> Contains c (NetIP n) \<longleftrightarrow> overlaps c n" if "n \<in> set nets" for n
  proof -
    from assms(2) that obtain l where l: "prefix_net l n" by blast
    show ?thesis
      using ip unfolding overlaps_iff [OF pn l] Contains_agree [OF pn] Contains_agree [OF l]
      by (cases "k \<le> l") (auto simp: agree_def)
  qed
  then show ?thesis by (auto simp: cidrCollides_def c net_of_def list_ex_iff)
qed

definition free_pair :: "iface_addr list \<Rightarrow> tun_addr_pair \<Rightarrow> bool" where
  "free_pair taken c \<longleftrightarrow>
     (\<forall>n\<in>set (toNets taken). \<not> overlaps (net_of (PairV4 c)) n \<and> \<not> overlaps (net_of (PairV6 c)) n)"

text \<open>C27. The tunnel takes the first pair of candidates neither of whose networks shares an address with a network or
  an address any interface has, and the default pair only when no candidate is free.\<close>

theorem FreeTunAddresses_free:
  assumes "\<forall>a\<in>set taken. proper_addr a"
  shows "(\<exists>i<5. FreeTunAddresses taken = tunAddrCandidates ! i \<and> free_pair taken (tunAddrCandidates ! i) \<and>
            (\<forall>j<i. \<not> free_pair taken (tunAddrCandidates ! j))) \<or>
         FreeTunAddresses taken = tunAddrCandidates ! 0 \<and> (\<forall>i<5. \<not> free_pair taken (tunAddrCandidates ! i))"
proof -
  let ?nets = "toNets taken"
  have len: "length tunAddrCandidates = 5" by (simp add: tunAddrCandidates_def)
  have P: "(\<not> cidrCollides (PairV4 c) ?nets \<and> \<not> cidrCollides (PairV6 c) ?nets) = free_pair taken c"
    if "c \<in> set tunAddrCandidates" for c
    using candidates_ok that toNets_prefix [OF assms]
    by (auto simp: free_pair_def list_all_iff cidrCollides_iff)
  have f: "find (\<lambda>c. \<not> cidrCollides (PairV4 c) ?nets \<and> \<not> cidrCollides (PairV6 c) ?nets) tunAddrCandidates =
      find (free_pair taken) tunAddrCandidates"
    by (rule find_cong) (use P in auto)
  show ?thesis
  proof (cases "find (free_pair taken) tunAddrCandidates")
    case None
    then have "FreeTunAddresses taken = tunAddrCandidates ! 0" by (simp add: FreeTunAddresses_def Let_def f)
    with None len show ?thesis by (auto simp: find_None_iff)
  next
    case (Some c)
    then have "FreeTunAddresses taken = c" by (simp add: FreeTunAddresses_def Let_def f)
    with Some len show ?thesis by (auto simp: find_Some_iff)
  qed
qed

text \<open>A machine on which a neighbour holds the other address of the default IPv4 network.\<close>

definition ex_taken :: "iface_addr list" where
  "ex_taken =
     [Addr_net \<lparr>NetIP = [172, 19, 0, 2], NetMask = [255, 255, 255, 252]\<rparr>, Addr_other,
      Addr_ip (replicate 10 0 @ [255, 255, 192, 168, 1, 5])]"

lemma ex_taken_choice: "FreeTunAddresses ex_taken = tunAddrCandidates ! 1"
  by (simp add: FreeTunAddresses_def tunAddrCandidates_def toNets_def ex_taken_def cidrCollides_def cidr_eval)

lemma ex_taken_proper: "\<forall>a\<in>set ex_taken. proper_addr a"
proof -
  have "prefix_net 30 \<lparr>NetIP = [172, 19, 0, 2], NetMask = [255, 255, 255, 252]\<rparr>"
    by (simp add: prefix_net_def short_ip_def To4_def cidr_mask_step)
  then show ?thesis by (auto simp: ex_taken_def proper_addr_def)
qed

theorem FreeTunAddresses_free_witness:
  "FreeTunAddresses ex_taken = tunAddrCandidates ! 1 \<and> free_pair ex_taken (tunAddrCandidates ! 1) \<and>
   \<not> free_pair ex_taken (tunAddrCandidates ! 0)"
proof -
  have "tunAddrCandidates ! i \<noteq> tunAddrCandidates ! 1" if "i < 5" "i \<noteq> 1" for i
  proof -
    from that have "i \<in> {0, 2, 3, 4}" by auto
    then show ?thesis by (auto simp: tunAddrCandidates_def)
  qed
  with FreeTunAddresses_free [OF ex_taken_proper] show ?thesis
    unfolding ex_taken_choice by (metis less_one zero_less_numeral zero_neq_one)
qed

end
