(* ===== verification/Exclude_List.thy ===== *)
theory Exclude_List
  imports Go_Net Subscription
begin

text \<open>
  The exclusion list of the DPI bypass (\<^verbatim>\<open>core/zapret/exclude.go\<close>): the addresses of the exit nodes, resolved by
  several resolvers at once, remembered between calls, and written under the user's own lines.

  Time is in nanoseconds; the zero time of Go is \<open>None\<close>, further back than any difference a duration can hold.  A
  resolver is a function from the name to the delay of its answer, measured from the start of the call with the
  queueing for one of the sixteen slots included, and to the addresses or a failure.  Reading, writing and the work
  between them take no time; what arrives at the very end of the wait counts as arrived.
\<close>

definition second :: int where "second = 1000000000"
definition excludeFile :: string where "excludeFile = ''ipset-exclude-user.txt''"
definition excludeHeader :: string where
  "excludeHeader = ''# --- tenebra: VPN node addresses, managed automatically ---''"
definition DefaultResolveBudget :: int where "DefaultResolveBudget = 2 * second"
definition DefaultRetryAfter :: int where "DefaultRetryAfter = 5 * 60 * second"
definition cacheTTL :: int where "cacheTTL = 30 * 24 * 3600 * second"
definition confirmedFor :: int where "confirmedFor = 2 * 60 * second"
definition settleAfterFirst :: int where "settleAfterFirst = 400000000"
definition maxCacheEntries :: nat where "maxCacheEntries = 256"
definition staleAfter :: int where "staleAfter = 3600 * second"

section \<open>The remembered addresses\<close>

record cache_entry =
  CAddrs :: "string list"
  CSeen :: "int option"
  CFailed :: "int option"

definition zero_entry :: cache_entry where
  "zero_entry = \<lparr>CAddrs = [], CSeen = None, CFailed = None\<rparr>"

record excluder =
  Budget :: int
  RetryAfter :: int
  XCache :: "(string \<times> cache_entry) list"
  XLoaded :: bool

record exclude_report =
  Unresolved :: "string list"
  FromCache :: "string list"

text \<open>\<^verbatim>\<open>time.Since\<close>, which saturates.\<close>

definition since :: "int \<Rightarrow> int option \<Rightarrow> int" where
  "since now t =
     (case t of None \<Rightarrow> 2 ^ 63 - 1 | Some s \<Rightarrow> max (- (2 ^ 63)) (min (2 ^ 63 - 1) (now - s)))"

text \<open>A Go map whose entries are kept in any order.\<close>

definition cache_put :: "string \<Rightarrow> 'v \<Rightarrow> (string \<times> 'v) list \<Rightarrow> (string \<times> 'v) list" where
  "cache_put h v c = (h, v) # filter (\<lambda>p. fst p \<noteq> h) c"

definition holdsTheWait :: "int \<Rightarrow> excluder \<Rightarrow> string \<Rightarrow> bool" where
  "holdsTheWait now e h =
     (let retry = (if RetryAfter e \<le> 0 then DefaultRetryAfter else RetryAfter e)
      in case map_of (XCache e) h of
           None \<Rightarrow> True
         | Some entry \<Rightarrow>
             if CAddrs entry \<noteq> [] \<and> since now (CSeen entry) < confirmedFor then False
             else retry \<le> since now (CFailed entry))"

definition remember :: "int \<Rightarrow> string \<Rightarrow> string list \<Rightarrow> excluder \<Rightarrow> excluder" where
  "remember now h addrs e =
     (if addrs = [] then e
      else e\<lparr>XCache := cache_put h \<lparr>CAddrs = addrs, CSeen = Some now, CFailed = None\<rparr> (XCache e)\<rparr>)"

definition missed :: "int \<Rightarrow> string \<Rightarrow> excluder \<Rightarrow> (string list \<times> bool) \<times> excluder" where
  "missed now h e =
     (let entry = (case map_of (XCache e) h of None \<Rightarrow> zero_entry | Some x \<Rightarrow> x)\<lparr>CFailed := Some now\<rparr>;
          entry = (if CAddrs entry \<noteq> [] \<and> cacheTTL \<le> since now (CSeen entry)
                   then entry\<lparr>CAddrs := [], CSeen := None\<rparr> else entry)
      in ((CAddrs entry, staleAfter \<le> since now (CSeen entry)), e\<lparr>XCache := cache_put h entry (XCache e)\<rparr>))"

section \<open>Names and addresses\<close>

definition usableNodeIP :: "nat list \<Rightarrow> bool" where
  "usableNodeIP ip \<longleftrightarrow>
     ip \<noteq> [] \<and> \<not> ip_IsUnspecified ip \<and> \<not> ip_IsLoopback ip \<and> \<not> ip_IsLinkLocalUnicast ip \<and>
     \<not> ip_IsLinkLocalMulticast ip \<and> \<not> ip_IsMulticast ip"

definition sortedKeys :: "string list \<Rightarrow> string list" where
  "sortedKeys ks = sort_strings (dedup_seen {} ks)"

text \<open>\<^verbatim>\<open>dedupe\<close>: \<open>prev\<close> is the element before.\<close>

fun dedupe_from :: "string option \<Rightarrow> string list \<Rightarrow> string list" where
  "dedupe_from prev [] = []"
| "dedupe_from prev (s # ss) =
     (if prev = Some s then dedupe_from prev ss else s # dedupe_from (Some s) ss)"

definition dedupe :: "string list \<Rightarrow> string list" where
  "dedupe ss = dedupe_from None ss"

definition strip_server :: "string \<Rightarrow> string" where
  "strip_server s = trim_suffix '']'' (trim_prefix ''['' s)"

fun split_servers :: "case_table \<Rightarrow> string set \<Rightarrow> string list \<Rightarrow> string list \<times> string list" where
  "split_servers u seen [] = ([], [])"
| "split_servers u seen (s0 # ss) =
     (let s1 = trim_space s0
      in if s1 = [] then split_servers u seen ss
         else let s = strip_server s1
              in if ParseIP s \<noteq> None then (let (ips, hosts) = split_servers u seen ss in (s # ips, hosts))
                 else let host = to_lower u s
                      in if host \<in> seen then split_servers u seen ss
                         else let (ips, hosts) = split_servers u (insert host seen) ss in (ips, host # hosts))"

definition splitServers :: "case_table \<Rightarrow> string list \<Rightarrow> string list \<times> string list" where
  "splitServers u servers = split_servers u {} servers"

section \<open>Resolving\<close>

type_synonym lookup = "string \<Rightarrow> int \<times> nat list list option"

definition usable_addrs :: "nat list list option \<Rightarrow> string list" where
  "usable_addrs r =
     (case r of None \<Rightarrow> [] | Some addrs \<Rightarrow> map ip_str (filter usableNodeIP addrs))"

text \<open>How long one name that holds the call keeps it: until its last resolver, its first usable answer and the
  grace after it, or the budget.\<close>

definition wait_for :: "int \<Rightarrow> lookup list \<Rightarrow> string \<Rightarrow> int" where
  "wait_for budget lookups h =
     (let finished = foldl max 0 (map (\<lambda>l. fst (l h)) lookups);
          answers = map (\<lambda>l. fst (l h)) (filter (\<lambda>l. usable_addrs (snd (l h)) \<noteq> []) lookups)
      in min budget
           (case answers of
              [] \<Rightarrow> finished
            | a # as \<Rightarrow> min finished (foldl min a as + settleAfterFirst)))"

record call_state =
  fresh :: "(string \<times> string list) list"
  cs_excluder :: excluder

definition fresh_of :: "(string \<times> string list) list \<Rightarrow> string \<Rightarrow> string list" where
  "fresh_of f h = (case map_of f h of None \<Rightarrow> [] | Some a \<Rightarrow> a)"

text \<open>One resolver's answer: merged with the others for that name, and remembered at once.\<close>

definition arrive :: "int \<Rightarrow> int \<times> string \<times> string list \<Rightarrow> call_state \<Rightarrow> call_state" where
  "arrive start ev c =
     (let (t, h, addrs) = ev
      in if addrs = [] then c
         else let merged = sortedKeys (fresh_of (fresh c) h @ addrs)
              in \<lparr>fresh = cache_put h merged (fresh c),
                  cs_excluder = remember (start + t) h merged (cs_excluder c)\<rparr>)"

definition arrivals :: "lookup list \<Rightarrow> string list \<Rightarrow> (int \<times> string \<times> string list) list" where
  "arrivals lookups hosts =
     go_stable_sort (\<lambda>a b. fst a < fst b)
       (concat (map (\<lambda>h. map (\<lambda>l. (fst (l h), h, usable_addrs (snd (l h)))) lookups) hosts))"

text \<open>The names nothing fresh came for, one by one.\<close>

fun from_memory :: "int \<Rightarrow> (string \<times> string list) list \<Rightarrow> string list \<Rightarrow> excluder \<Rightarrow>
    ((string \<times> string list) list \<times> exclude_report) \<times> excluder" where
  "from_memory now f [] e = (([], \<lparr>Unresolved = [], FromCache = []\<rparr>), e)"
| "from_memory now f (h # hs) e =
     (if fresh_of f h \<noteq> []
      then (let ((out, rep), e) = from_memory now f hs e in (((h, fresh_of f h) # out, rep), e))
      else let ((addrs, stale), e) = missed now h e;
               ((out, rep), e) = from_memory now f hs e
           in if addrs \<noteq> []
              then (((h, addrs) # out, if stale then rep\<lparr>FromCache := h # FromCache rep\<rparr> else rep), e)
              else ((out, rep\<lparr>Unresolved := h # Unresolved rep\<rparr>), e))"

definition sorted_report :: "exclude_report \<Rightarrow> exclude_report" where
  "sorted_report r = \<lparr>Unresolved = sort_strings (Unresolved r), FromCache = sort_strings (FromCache r)\<rparr>"

definition fromCacheOnly :: "int \<Rightarrow> string list \<Rightarrow> excluder \<Rightarrow> ((string \<times> string list) list \<times> exclude_report) \<times> excluder" where
  "fromCacheOnly now hosts e =
     (let ((out, rep), e) = from_memory now [] hosts e in ((out, sorted_report rep), e))"

definition the_lookups :: "lookup option list \<Rightarrow> lookup list" where
  "the_lookups ls = concat (map (\<lambda>l. case l of None \<Rightarrow> [] | Some f \<Rightarrow> [f]) ls)"

definition call_wait :: "int \<Rightarrow> excluder \<Rightarrow> lookup list \<Rightarrow> string list \<Rightarrow> int" where
  "call_wait now e lookups hosts =
     (let budget = (if Budget e \<le> 0 then DefaultResolveBudget else Budget e)
      in foldl max 0 (map (wait_for budget lookups) (filter (holdsTheWait now e) hosts)))"

record resolved =
  rv_out :: "(string \<times> string list) list"
  rv_report :: exclude_report
  rv_wait :: int
  rv_call :: "call_state"
  rv_late :: "(int \<times> string \<times> string list) list"

definition resolve :: "int \<Rightarrow> excluder \<Rightarrow> string list \<Rightarrow> lookup option list \<Rightarrow> resolved" where
  "resolve now e hosts lookups0 =
     (let lookups = the_lookups lookups0
      in if hosts = [] \<or> lookups = []
         then let ((out, rep), e') = (if hosts \<noteq> [] then fromCacheOnly now hosts e
                                      else (([], \<lparr>Unresolved = [], FromCache = []\<rparr>), e))
              in \<lparr>rv_out = out, rv_report = rep, rv_wait = 0,
                  rv_call = \<lparr>fresh = [], cs_excluder = e'\<rparr>, rv_late = []\<rparr>
         else let wait = call_wait now e lookups hosts;
                  evs = arrivals lookups hosts;
                  c = fold (arrive now) (filter (\<lambda>ev. fst ev \<le> wait) evs) \<lparr>fresh = [], cs_excluder = e\<rparr>;
                  ((out, rep), e') = from_memory (now + wait) (fresh c) hosts (cs_excluder c)
              in \<lparr>rv_out = out, rv_report = sorted_report rep, rv_wait = wait,
                  rv_call = c\<lparr>cs_excluder := e'\<rparr>, rv_late = filter (\<lambda>ev. wait < fst ev) evs\<rparr>)"

section \<open>The files\<close>

definition lastTouched :: "cache_entry \<Rightarrow> int option" where
  "lastTouched c =
     (case (CFailed c, CSeen c) of
        (None, s) \<Rightarrow> s
      | (Some f, None) \<Rightarrow> Some f
      | (Some f, Some s) \<Rightarrow> if s < f then Some f else Some s)"

text \<open>Newest first, and by name where two were touched at once.\<close>

definition touched_later :: "(string \<times> cache_entry) \<Rightarrow> (string \<times> cache_entry) \<Rightarrow> bool" where
  "touched_later a b =
     (let ta = lastTouched (snd a); tb = lastTouched (snd b)
      in if ta \<noteq> tb then (case (ta, tb) of (Some x, Some y) \<Rightarrow> y < x | (Some x, None) \<Rightarrow> True | _ \<Rightarrow> False)
         else fst a < fst b)"

definition worth_keeping :: "int \<Rightarrow> string \<times> cache_entry \<Rightarrow> bool" where
  "worth_keeping now p \<longleftrightarrow> \<not> (CAddrs (snd p) \<noteq> [] \<and> cacheTTL \<le> since now (CSeen (snd p)))"

text \<open>What \<^verbatim>\<open>save\<close> stores of the remembered set.\<close>

definition kept_hosts :: "int \<Rightarrow> (string \<times> cache_entry) list \<Rightarrow> (string \<times> cache_entry) list" where
  "kept_hosts now c =
     (let hosts = filter (worth_keeping now) c
      in if maxCacheEntries < length hosts then take maxCacheEntries (go_stable_sort touched_later hosts)
         else hosts)"

text \<open>What an entry of the file has to be to be remembered.\<close>

definition loadable :: "int \<Rightarrow> string \<times> cache_entry \<Rightarrow> bool" where
  "loadable now p \<longleftrightarrow>
     \<not> (fst p = [] \<or> CAddrs (snd p) = [] \<and> CFailed (snd p) = None) \<and>
     \<not> (CAddrs (snd p) \<noteq> [] \<and> cacheTTL \<le> since now (CSeen (snd p)))"

text \<open>The two files of a bundle, \<open>None\<close> where one is missing, and how the calls on them fare: \<open>Some left\<close> is a
  write that failed and what it left behind.  The codec of the remembered set is a parameter.\<close>

record lists_dir =
  ld_exclude :: "string option"
  ld_nodes :: "string option"

record exclude_io =
  io_read_exclude :: bool
  io_read_nodes :: bool
  io_mkdir :: bool
  io_write_exclude :: "string option option"
  io_mkdir_nodes :: bool
  io_write_nodes :: "string option option"
  io_decode :: "string \<Rightarrow> (string \<times> cache_entry) list option"
  io_encode :: "(string \<times> cache_entry) list \<Rightarrow> string option"

definition load :: "exclude_io \<Rightarrow> int \<Rightarrow> lists_dir \<Rightarrow> excluder \<Rightarrow> excluder" where
  "load io now d e =
     (if XLoaded e then e
      else let e = e\<lparr>XLoaded := True\<rparr>
           in case (if io_read_nodes io then ld_nodes d else None) of
                None \<Rightarrow> e
              | Some data \<Rightarrow>
                  (case io_decode io data of
                     None \<Rightarrow> e
                   | Some hosts \<Rightarrow>
                       e\<lparr>XCache := fold (\<lambda>p. cache_put (fst p) (snd p)) (filter (loadable now) hosts) (XCache e)\<rparr>))"

definition save :: "exclude_io \<Rightarrow> int \<Rightarrow> excluder \<Rightarrow> lists_dir \<Rightarrow> lists_dir" where
  "save io now e d =
     (case io_encode io (kept_hosts now (XCache e)) of
        None \<Rightarrow> d
      | Some data \<Rightarrow>
          if \<not> io_mkdir_nodes io then d
          else d\<lparr>ld_nodes := (case io_write_nodes io of None \<Rightarrow> Some data | Some left \<Rightarrow> left)\<rparr>)"

definition blank_line :: "string \<Rightarrow> bool" where
  "blank_line l \<longleftrightarrow> trim_space l = []"

definition userLines :: "string option \<Rightarrow> string list" where
  "userLines content =
     (case content of
        None \<Rightarrow> []
      | Some data \<Rightarrow>
          rev (dropWhile blank_line (rev
            (takeWhile (\<lambda>l. trim_space l \<noteq> excludeHeader)
              (map (trim_right_of [CHR 0x0D]) (split_on (CHR 0x0A) data))))))"

definition crlf_line :: "string \<Rightarrow> string" where
  "crlf_line l = l @ [CHR 0x0D, CHR 0x0A]"

datatype exclude_error = Mkdir_failed | Write_failed

definition Exclude :: "case_table \<Rightarrow> exclude_io \<Rightarrow> int \<Rightarrow> string list \<Rightarrow> lookup option list \<Rightarrow> excluder \<Rightarrow> lists_dir \<Rightarrow>
    exclude_report \<times> exclude_error option \<times> resolved \<times> lists_dir" where
  "Exclude u io now servers lookups e d =
     (let e = load io now d e;
          (ips, hosts) = splitServers u servers;
          r = resolve now e hosts lookups;
          ips = dedupe (sort_strings (ips @ concat (map snd (rv_out r))));
          b = concat (map crlf_line (userLines (if io_read_exclude io then ld_exclude d else None))) @
              crlf_line excludeHeader @ concat (map crlf_line ips)
      in if \<not> io_mkdir io then (rv_report r, Some Mkdir_failed, r, d)
         else case io_write_exclude io of
                Some left \<Rightarrow> (rv_report r, Some Write_failed, r, d\<lparr>ld_exclude := left\<rparr>)
              | None \<Rightarrow>
                  (rv_report r, None, r,
                   save io (now + rv_wait r) (cs_excluder (rv_call r)) (d\<lparr>ld_exclude := Some b\<rparr>)))"

text \<open>The answers that come after the call returned only go to the memory.\<close>

definition late_answers :: "int \<Rightarrow> resolved \<Rightarrow> excluder" where
  "late_answers now r = cs_excluder (fold (arrive now) (rv_late r) (rv_call r))"

end
