(* ===== verification/Exclude_Props.thy ===== *)
theory Exclude_Props
  imports Exclude_List "HOL-Library.Product_Lexorder"
begin

text \<open>
  What the exclusion list promises: the user's own lines survive every rewriting, every server is covered or
  reported, the call waits no longer than it has to, and the remembered set stays small.
\<close>

section \<open>The user's lines\<close>

lemma trim_cr_idem [simp]: "trim_right_of cs (trim_right_of cs s) = trim_right_of cs s"
  by (simp add: trim_right_of_def dropWhile_idem)

lemma trim_cr_snoc: "trim_right_of cs s = s \<Longrightarrow> c \<in> set cs \<Longrightarrow> trim_right_of cs (s @ [c]) = s"
  by (simp add: trim_right_of_def)

lemma set_trim_right_of: "set (trim_right_of cs s) \<subseteq> set s"
  by (auto simp: trim_right_of_def dest: set_dropWhileD)

lemma split_on_line: "c \<notin> set w \<Longrightarrow> split_on c (w @ c # s) = w # split_on c s"
  by (induction w) auto

lemma excludeHeader_trimmed: "trim_space excludeHeader = excludeHeader"
proof (rule trim_space_trimmed)
  show "trimmed excludeHeader" by code_simp
qed

text \<open>A line as \<^verbatim>\<open>userLines\<close> returns it.\<close>

definition user_line :: "string \<Rightarrow> bool" where
  "user_line l \<longleftrightarrow> CHR 0x0A \<notin> set l \<and> trim_right_of [CHR 0x0D] l = l \<and> trim_space l \<noteq> excludeHeader"

lemma userLines_shape:
  assumes "l \<in> set (userLines content)"
  shows "user_line l"
proof -
  from assms obtain data where data: "content = Some data" by (cases content) (auto simp: userLines_def)
  let ?ls = "map (trim_right_of [CHR 0x0D]) (split_on (CHR 0x0A) data)"
  from assms have "l \<in> set (takeWhile (\<lambda>l. trim_space l \<noteq> excludeHeader) ?ls)"
    by (auto simp: userLines_def data dest!: set_dropWhileD)
  then have "l \<in> set ?ls" "trim_space l \<noteq> excludeHeader" by (auto dest: set_takeWhileD)
  then show ?thesis
    using split_on_no_sep set_trim_right_of by (fastforce simp: user_line_def)
qed

lemma userLines_last: "userLines content \<noteq> [] \<Longrightarrow> \<not> blank_line (last (userLines content))"
proof (cases content)
  case (Some data)
  define r where "r = rev (takeWhile (\<lambda>l. trim_space l \<noteq> excludeHeader)
              (map (trim_right_of [CHR 0x0D]) (split_on (CHR 0x0A) data)))"
  have eq: "userLines content = rev (dropWhile blank_line r)" by (simp add: userLines_def Some r_def)
  assume "userLines content \<noteq> []"
  then show ?thesis unfolding eq using hd_dropWhile [of blank_line r] by (simp add: last_rev)
qed (simp add: userLines_def)

lemma split_user_part:
  assumes "\<forall>l\<in>set ls. user_line l" "user_line h \<or> h = excludeHeader"
  shows "map (trim_right_of [CHR 0x0D]) (split_on (CHR 0x0A) (concat (map crlf_line ls) @ crlf_line h @ rest)) =
    ls @ h # map (trim_right_of [CHR 0x0D]) (split_on (CHR 0x0A) rest)"
proof -
  have step: "map (trim_right_of [CHR 0x0D]) (split_on (CHR 0x0A) (crlf_line l @ s)) =
      l # map (trim_right_of [CHR 0x0D]) (split_on (CHR 0x0A) s)"
    if "CHR 0x0A \<notin> set l" "trim_right_of [CHR 0x0D] l = l" for l s
    using that split_on_line [of "CHR 0x0A" "l @ [CHR 0x0D]" s] by (simp add: crlf_line_def trim_cr_snoc)
  have h: "CHR 0x0A \<notin> set h \<and> trim_right_of [CHR 0x0D] h = h"
    using assms(2) by (auto simp: user_line_def excludeHeader_def trim_right_of_def)
  from assms(1) show ?thesis
    by (induction ls) (simp_all add: step h user_line_def)
qed

lemma userLines_rewritten:
  "userLines (Some (concat (map crlf_line (userLines old)) @ crlf_line excludeHeader @ rest)) = userLines old"
proof -
  let ?ls = "userLines old"
  have "map (trim_right_of [CHR 0x0D])
      (split_on (CHR 0x0A) (concat (map crlf_line ?ls) @ crlf_line excludeHeader @ rest)) =
      ?ls @ excludeHeader # map (trim_right_of [CHR 0x0D]) (split_on (CHR 0x0A) rest)"
    by (rule split_user_part) (auto intro: userLines_shape)
  moreover have "takeWhile (\<lambda>l. trim_space l \<noteq> excludeHeader) (?ls @ excludeHeader # r) = ?ls" for r
    using userLines_shape by (auto simp: takeWhile_append2 excludeHeader_trimmed user_line_def)
  moreover have "rev (dropWhile blank_line (rev ?ls)) = ?ls"
  proof (cases "?ls = []")
    case False
    with userLines_last [of old] have "dropWhile blank_line (rev ?ls) = rev ?ls"
      by (cases "rev ?ls") (auto simp: hd_rev [symmetric])
    then show ?thesis by simp
  qed simp
  ultimately show ?thesis by (simp only: userLines_def option.case)
qed

text \<open>C19. Whatever the user wrote in the exclusion list above the managed block is read back unchanged after a rewrite,
  whatever the servers and the resolvers' answers are, so no rewrite ever adds to it or loses any of it.\<close>

theorem user_lines_survive:
  assumes "io_read_exclude io" and "Exclude u io now servers lookups e d = (rep, None, r, d')"
  shows "ld_exclude d' \<noteq> None \<and> userLines (ld_exclude d') = userLines (ld_exclude d)"
proof -
  have save: "ld_exclude (save io t x y) = ld_exclude y" for t x y
    by (simp add: save_def split: option.splits)
  from assms obtain ips where "ld_exclude d' =
      Some (concat (map crlf_line (userLines (ld_exclude d))) @ crlf_line excludeHeader @ concat (map crlf_line ips))"
    by (auto simp: Exclude_def Let_def save split: prod.splits if_splits option.splits)
  then show ?thesis by (simp add: userLines_rewritten)
qed

section \<open>The wait\<close>

lemma foldl_max_ge: "a \<le> foldl max a xs" for a :: int
proof (induction xs arbitrary: a)
  case (Cons y ys) from Cons [of "max a y"] show ?case by simp
qed simp

lemma foldl_max_upper: "x \<in> set xs \<Longrightarrow> x \<le> foldl max a xs" for a :: int
proof (induction xs arbitrary: a)
  case (Cons y ys)
  then show ?case using foldl_max_ge [of "max a y" ys] by auto
qed simp

lemma foldl_max_least: "a \<le> b \<Longrightarrow> \<forall>x\<in>set xs. x \<le> b \<Longrightarrow> foldl max a xs \<le> b" for a :: int
  by (induction xs arbitrary: a) auto

lemma foldl_min_le: "foldl min a xs \<le> a" for a :: int
proof (induction xs arbitrary: a)
  case (Cons y ys) from Cons [of "min a y"] show ?case by simp
qed simp

lemma foldl_min_lower: "x \<in> set xs \<Longrightarrow> foldl min a xs \<le> x" for a :: int
proof (induction xs arbitrary: a)
  case (Cons y ys)
  then show ?case using foldl_min_le [of "min a y" ys] by auto
qed simp

definition the_budget :: "excluder \<Rightarrow> int" where
  "the_budget e = (if Budget e \<le> 0 then DefaultResolveBudget else Budget e)"

lemma the_budget_pos: "0 < the_budget e"
  by (simp add: the_budget_def DefaultResolveBudget_def second_def)

lemma call_wait_alt:
  "call_wait now e lookups hosts =
     foldl max 0 (map (wait_for (the_budget e) lookups) (filter (holdsTheWait now e) hosts))"
  by (simp add: call_wait_def the_budget_def)

lemma wait_for_no_lookups: "0 < b \<Longrightarrow> wait_for b [] h = 0"
  by (simp add: wait_for_def)

text \<open>The early return for no names or no resolvers is the general case.\<close>

lemma resolve_alt:
  "resolve now e hosts lookups0 =
     (let lookups = the_lookups lookups0; wait = call_wait now e lookups hosts;
          evs = arrivals lookups hosts;
          c = fold (arrive now) (filter (\<lambda>ev. fst ev \<le> wait) evs) \<lparr>fresh = [], cs_excluder = e\<rparr>;
          ((out, rep), e') = from_memory (now + wait) (fresh c) hosts (cs_excluder c)
      in \<lparr>rv_out = out, rv_report = sorted_report rep, rv_wait = wait,
          rv_call = c\<lparr>cs_excluder := e'\<rparr>, rv_late = filter (\<lambda>ev. wait < fst ev) evs\<rparr>)"
proof -
  have no_lookups: "call_wait now e [] hosts = 0" "arrivals [] hosts = []" for hosts
  proof -
    have "foldl max (0::int) (map (wait_for (the_budget e) []) hs) = 0" for hs
      by (induction hs) (auto simp: wait_for_no_lookups the_budget_pos)
    then show "call_wait now e [] hosts = 0" by (simp add: call_wait_alt)
    show "arrivals [] hosts = []" by (induction hosts) (simp_all add: arrivals_def go_stable_sort_def)
  qed
  have no_hosts: "call_wait now e ls [] = 0" "arrivals ls [] = []" for ls
    by (simp_all add: call_wait_def arrivals_def go_stable_sort_def)
  show ?thesis
    by (auto simp: resolve_def Let_def no_lookups no_hosts fromCacheOnly_def sorted_report_def split: prod.splits)
qed

lemma wait_for_le_budget: "wait_for b ls h \<le> b"
  by (simp add: wait_for_def Let_def)

lemma wait_for_first_answer:
  assumes "l \<in> set ls" "usable_addrs (snd (l h)) \<noteq> []"
  shows "wait_for b ls h \<le> fst (l h) + settleAfterFirst"
proof -
  let ?as = "map (\<lambda>l. fst (l h)) (filter (\<lambda>l. usable_addrs (snd (l h)) \<noteq> []) ls)"
  from assms have "fst (l h) \<in> set ?as" by auto
  then obtain a as where as: "?as = a # as" "fst (l h) \<in> set (a # as)" by (cases ?as) auto
  then have "foldl min a as \<le> fst (l h)" using foldl_min_le foldl_min_lower by auto
  with as(1) show ?thesis by (simp add: wait_for_def Let_def min_le_iff_disj)
qed

text \<open>A call never waits longer than its budget; it does not wait at all when every name was confirmed or failed a
  moment ago; and when every name it waits for gets a usable answer from some resolver within \<open>t\<close>, it is over within
  \<open>t\<close> and the grace, whatever the other resolvers do.\<close>

theorem wait_is_bounded:
  "0 \<le> rv_wait (resolve now e hosts lookups) \<and> rv_wait (resolve now e hosts lookups) \<le> the_budget e \<and>
   ((\<forall>h\<in>set hosts. \<not> holdsTheWait now e h) \<longrightarrow> rv_wait (resolve now e hosts lookups) = 0) \<and>
   (0 \<le> t \<and> (\<forall>h\<in>set hosts. holdsTheWait now e h \<longrightarrow>
        (\<exists>l\<in>set (the_lookups lookups). usable_addrs (snd (l h)) \<noteq> [] \<and> fst (l h) \<le> t)) \<longrightarrow>
      rv_wait (resolve now e hosts lookups) \<le> t + settleAfterFirst)"
proof -
  let ?ls = "the_lookups lookups"
  let ?ws = "map (wait_for (the_budget e) ?ls) (filter (holdsTheWait now e) hosts)"
  have w: "rv_wait (resolve now e hosts lookups) = foldl max 0 ?ws"
    by (simp add: resolve_alt Let_def call_wait_alt split: prod.splits)
  have "foldl max 0 ?ws \<le> the_budget e"
    by (rule foldl_max_least) (use the_budget_pos [of e] in \<open>auto simp: wait_for_le_budget\<close>)
  moreover have "foldl max 0 ?ws = 0" if "\<forall>h\<in>set hosts. \<not> holdsTheWait now e h"
    using that by (simp add: filter_False)
  moreover have "foldl max 0 ?ws \<le> t + settleAfterFirst"
    if t: "0 \<le> t" and ans: "\<forall>h\<in>set hosts. holdsTheWait now e h \<longrightarrow>
        (\<exists>l\<in>set ?ls. usable_addrs (snd (l h)) \<noteq> [] \<and> fst (l h) \<le> t)"
  proof (rule foldl_max_least)
    show "\<forall>w\<in>set ?ws. w \<le> t + settleAfterFirst"
    proof
      fix w assume "w \<in> set ?ws"
      then obtain h where h: "h \<in> set hosts" "holdsTheWait now e h" "w = wait_for (the_budget e) ?ls h" by auto
      with ans obtain l where "l \<in> set ?ls" "usable_addrs (snd (l h)) \<noteq> []" "fst (l h) \<le> t" by blast
      with wait_for_first_answer [of l ?ls h "the_budget e"] h(3) show "w \<le> t + settleAfterFirst" by simp
    qed
  qed (use t in \<open>simp add: settleAfterFirst_def\<close>)
  ultimately show ?thesis unfolding w using foldl_max_ge [of 0 ?ws] by blast
qed

section \<open>The size of the remembered set\<close>

text \<open>The order of \<^verbatim>\<open>save\<close> is the one of a key: never touched last, then the newest, then the name.\<close>

definition touch_key :: "string \<times> cache_entry \<Rightarrow> nat \<times> int \<times> string" where
  "touch_key p = (case lastTouched (snd p) of None \<Rightarrow> (1, 0, fst p) | Some t \<Rightarrow> (0, - t, fst p))"

interpretation touched: key_order_irrefl touched_later touch_key
  by unfold_locales (auto simp: touched_later_def touch_key_def Let_def split: option.splits)

text \<open>What is saved of the remembered addresses is at most 256 entries, none past its time, and only entries touched no
  later than every kept one are given up for space.\<close>

theorem remembered_set_bounded:
  "length (kept_hosts now c) \<le> maxCacheEntries \<and>
   set (kept_hosts now c) \<subseteq> {p \<in> set c. worth_keeping now p} \<and>
   (\<forall>p\<in>set c. worth_keeping now p \<and> p \<notin> set (kept_hosts now c) \<longrightarrow>
      length (kept_hosts now c) = maxCacheEntries \<and> (\<forall>q\<in>set (kept_hosts now c). \<not> touched_later p q))"
proof -
  let ?hosts = "filter (worth_keeping now) c"
  let ?sorted = "go_stable_sort touched_later ?hosts"
  show ?thesis
  proof (cases "maxCacheEntries < length ?hosts")
    case False
    then show ?thesis by (auto simp: kept_hosts_def)
  next
    case True
    then have k: "kept_hosts now c = take maxCacheEntries ?sorted" by (simp add: kept_hosts_def)
    have len: "length (kept_hosts now c) = maxCacheEntries" using True by (simp add: k)
    have sub: "set (kept_hosts now c) \<subseteq> set ?hosts"
      unfolding k by (metis set_go_stable_sort set_take_subset)
    have sorted: "sorted (map touch_key ?sorted)" by (rule touched.sorted_all)
    have "touch_key q \<le> touch_key p"
      if "q \<in> set (kept_hosts now c)" "p \<in> set ?hosts" "p \<notin> set (kept_hosts now c)" for p q
    proof -
      have "p \<in> set (drop maxCacheEntries ?sorted)"
        using that by (metis Un_iff append_take_drop_id k set_append set_go_stable_sort)
      moreover have "sorted (map touch_key (take maxCacheEntries ?sorted) @ map touch_key (drop maxCacheEntries ?sorted))"
        using sorted by (metis append_take_drop_id map_append)
      ultimately show ?thesis using that(1) unfolding k sorted_append by simp
    qed
    then have "\<not> touched_later p q"
      if "q \<in> set (kept_hosts now c)" "p \<in> set c" "worth_keeping now p" "p \<notin> set (kept_hosts now c)" for p q
      using that by (simp add: touched.less_eq_key not_less)
    with len sub show ?thesis by auto
  qed
qed

section \<open>What is covered\<close>

text \<open>The usable addresses the resolvers gave for a name within the wait, and the ones remembered of it.\<close>

definition answered :: "lookup list \<Rightarrow> int \<Rightarrow> string \<Rightarrow> string set" where
  "answered ls w h = (\<Union>l\<in>set ls. if fst (l h) \<le> w then set (usable_addrs (snd (l h))) else {})"

definition remembered :: "int \<Rightarrow> excluder \<Rightarrow> string \<Rightarrow> string list" where
  "remembered t e h =
     (case map_of (XCache e) h of
        None \<Rightarrow> []
      | Some c \<Rightarrow> if cacheTTL \<le> since t (CSeen c) then [] else CAddrs c)"

lemma map_of_cache_put: "map_of (cache_put h x c) k = (if k = h then Some x else map_of c k)"
proof -
  have "map_of (filter (\<lambda>p. fst p \<noteq> h) c) k = (if k = h then None else map_of c k)"
    by (induction c) auto
  then show ?thesis by (simp add: cache_put_def)
qed

lemma fresh_of_cache_put: "fresh_of (cache_put h x f) k = (if k = h then x else fresh_of f k)"
  by (simp add: fresh_of_def map_of_cache_put)

lemma missed_remembered: "fst (fst (missed t h e)) = remembered t e h"
  by (auto simp: missed_def remembered_def zero_entry_def Let_def split: option.splits)

lemma missed_others: "k \<noteq> h \<Longrightarrow> remembered t (snd (missed t' h e)) k = remembered t e k"
  by (simp add: missed_def remembered_def Let_def map_of_cache_put)

lemma arrive_fresh:
  "set (fresh_of (fresh (fold (arrive s) evs c)) h) =
     set (fresh_of (fresh c) h) \<union> (\<Union>ev\<in>set evs. if fst (snd ev) = h then set (snd (snd ev)) else {})"
proof (induction evs arbitrary: c)
  case (Cons ev evs)
  have "set (fresh_of (fresh (arrive s ev c)) h) =
      set (fresh_of (fresh c) h) \<union> (if fst (snd ev) = h then set (snd (snd ev)) else {})"
    by (cases ev) (auto simp: arrive_def Let_def fresh_of_cache_put sortedKeys_def)
  with Cons show ?case by auto
qed simp

lemma arrive_remembered:
  assumes "\<forall>ev\<in>set evs. fst (snd ev) = h \<longrightarrow> snd (snd ev) = []"
  shows "remembered t (cs_excluder (fold (arrive s) evs c)) h = remembered t (cs_excluder c) h"
  using assms
proof (induction evs arbitrary: c)
  case (Cons ev evs)
  have "remembered t (cs_excluder (arrive s ev c)) h = remembered t (cs_excluder c) h"
    using Cons.prems
    by (cases ev) (auto simp: arrive_def Let_def remembered_def remember_def map_of_cache_put)
  with Cons show ?case by simp
qed simp

lemma from_memory_result:
  assumes "distinct hs"
  shows "set (concat (map snd (fst (fst (from_memory t f hs e))))) =
      (\<Union>h\<in>set hs. if fresh_of f h \<noteq> [] then set (fresh_of f h) else set (remembered t e h)) \<and>
    Unresolved (snd (fst (from_memory t f hs e))) = filter (\<lambda>h. fresh_of f h = [] \<and> remembered t e h = []) hs"
  using assms
proof (induction hs arbitrary: e)
  case (Cons h hs)
  show ?case
  proof (cases "fresh_of f h = []")
    case False
    obtain out rep e' where r: "from_memory t f hs e = ((out, rep), e')" by (metis prod.collapse)
    have step: "from_memory t f (h # hs) e = (((h, fresh_of f h) # out, rep), e')" by (simp add: False r)
    show ?thesis unfolding step using Cons.IH [of e] Cons.prems False by (simp add: r)
  next
    case True
    have others: "remembered t (snd (missed t h e)) k = remembered t e k" if "k \<in> set hs" for k
    proof (rule missed_others)
      show "k \<noteq> h" using that Cons.prems by auto
    qed
    obtain stale where m: "missed t h e = ((remembered t e h, stale), snd (missed t h e))"
      using missed_remembered [of t h e] by (metis prod.collapse)
    obtain out rep e' where r: "from_memory t f hs (snd (missed t h e)) = ((out, rep), e')" by (metis prod.collapse)
    from Cons.IH [of "snd (missed t h e)"] Cons.prems r others
    have ih: "set (concat (map snd out)) =
        (\<Union>h\<in>set hs. if fresh_of f h \<noteq> [] then set (fresh_of f h) else set (remembered t e h))"
      "Unresolved rep = filter (\<lambda>h. fresh_of f h = [] \<and> remembered t e h = []) hs"
      by (auto intro: filter_cong)
    have step: "from_memory t f (h # hs) e =
        (if remembered t e h \<noteq> []
         then (((h, remembered t e h) # out, if stale then rep\<lparr>FromCache := h # FromCache rep\<rparr> else rep), e')
         else ((out, rep\<lparr>Unresolved := h # Unresolved rep\<rparr>), e'))"
      by (subst from_memory.simps, subst m) (simp add: True r)
    show ?thesis unfolding step using ih True by (cases "remembered t e h = []") auto
  qed
qed simp

lemma set_arrivals:
  "set (arrivals ls hosts) = {(fst (l h), h, usable_addrs (snd (l h))) | l h. l \<in> set ls \<and> h \<in> set hosts}"
  by (auto simp: arrivals_def)

lemma resolve_covers:
  fixes now :: int and e :: excluder and lookups :: "lookup option list"
  assumes "distinct hosts"
  defines "r \<equiv> resolve now e hosts lookups"
  defines "ans \<equiv> answered (the_lookups lookups) (rv_wait r)"
  shows "set (concat (map snd (rv_out r))) =
      (\<Union>h\<in>set hosts. if ans h \<noteq> {} then ans h else set (remembered (now + rv_wait r) e h)) \<and>
    Unresolved (rv_report r) = sort_strings (filter (\<lambda>h. ans h = {} \<and> remembered (now + rv_wait r) e h = []) hosts)"
proof -
  let ?ls = "the_lookups lookups"
  define w where "w = call_wait now e ?ls hosts"
  define evs where "evs = filter (\<lambda>ev. fst ev \<le> w) (arrivals ?ls hosts)"
  define c where "c = fold (arrive now) evs \<lparr>fresh = [], cs_excluder = e\<rparr>"
  define m where "m = from_memory (now + w) (fresh c) hosts (cs_excluder c)"
  have r: "rv_wait r = w" "rv_out r = fst (fst m)" "rv_report r = sorted_report (snd (fst m))"
    by (simp_all add: r_def resolve_alt Let_def w_def [symmetric] evs_def [symmetric] c_def [symmetric] m_def [symmetric]
        split: prod.splits)
  have ev: "(\<Union>ev\<in>set evs. if fst (snd ev) = h then set (snd (snd ev)) else {}) = ans h" if "h \<in> set hosts" for h
  proof (rule set_eqI)
    fix x
    have "x \<in> (\<Union>ev\<in>set evs. if fst (snd ev) = h then set (snd (snd ev)) else {}) \<longleftrightarrow>
        (\<exists>ev. ev \<in> set evs \<and> fst (snd ev) = h \<and> x \<in> set (snd (snd ev)))"
      unfolding UN_iff Bex_def by (metis empty_iff)
    also have "\<dots> \<longleftrightarrow> (\<exists>l\<in>set ?ls. fst (l h) \<le> w \<and> x \<in> set (usable_addrs (snd (l h))))"
      using that unfolding evs_def set_filter set_arrivals by fastforce
    also have "\<dots> \<longleftrightarrow> x \<in> ans h"
      by (auto simp: ans_def answered_def r(1) split: if_splits)
    finally show "x \<in> (\<Union>ev\<in>set evs. if fst (snd ev) = h then set (snd (snd ev)) else {}) \<longleftrightarrow> x \<in> ans h" .
  qed
  have fr: "set (fresh_of (fresh c) h) = ans h" if "h \<in> set hosts" for h
    unfolding c_def arrive_fresh using ev [OF that] by (simp add: fresh_of_def)
  have re: "remembered t (cs_excluder c) h = remembered t e h" if "h \<in> set hosts" "ans h = {}" for t h
    unfolding c_def
    by (subst arrive_remembered) (use ev [OF that(1)] that(2) in \<open>auto split: if_splits\<close>)
  have empty: "fresh_of (fresh c) h = [] \<longleftrightarrow> ans h = {}" if "h \<in> set hosts" for h
    using fr [OF that] by (metis set_empty)
  from from_memory_result [OF assms(1), of "now + w" "fresh c" "cs_excluder c"]
  have "set (concat (map snd (fst (fst m)))) =
      (\<Union>h\<in>set hosts. if fresh_of (fresh c) h \<noteq> [] then set (fresh_of (fresh c) h)
          else set (remembered (now + w) (cs_excluder c) h))"
    and un: "Unresolved (snd (fst m)) =
      filter (\<lambda>h. fresh_of (fresh c) h = [] \<and> remembered (now + w) (cs_excluder c) h = []) hosts"
    by (simp_all add: m_def)
  moreover have "(if fresh_of (fresh c) h \<noteq> [] then set (fresh_of (fresh c) h)
          else set (remembered (now + w) (cs_excluder c) h)) =
      (if ans h \<noteq> {} then ans h else set (remembered (now + w) e h))" if "h \<in> set hosts" for h
    using fr [OF that] empty [OF that] re [OF that] by auto
  moreover have "filter (\<lambda>h. fresh_of (fresh c) h = [] \<and> remembered (now + w) (cs_excluder c) h = []) hosts =
      filter (\<lambda>h. ans h = {} \<and> remembered (now + w) e h = []) hosts"
    by (rule filter_cong) (use empty re in auto)
  ultimately show ?thesis by (simp add: r sorted_report_def)
qed

lemma distinct_split_servers: "distinct (snd (split_servers u seen ss)) \<and> set (snd (split_servers u seen ss)) \<inter> seen = {}"
proof (induction ss arbitrary: seen)
  case (Cons s ss)
  from Cons.IH [of seen] Cons.IH [of "insert (to_lower u (strip_server (trim_space s))) seen"]
  show ?case by (simp add: Let_def split_beta)
qed simp

lemma dedupe_from_sorted:
  assumes "sorted ss" "case prev of None \<Rightarrow> True | Some p \<Rightarrow> \<forall>s\<in>set ss. p \<le> s"
  shows "set (dedupe_from prev ss) = set ss - set_option prev \<and> sorted (dedupe_from prev ss) \<and> distinct (dedupe_from prev ss)"
  using assms
proof (induction prev ss rule: dedupe_from.induct)
  case (2 prev s ss)
  then show ?case by (cases prev) (auto split: if_splits)
qed simp

lemma split_servers_all:
  assumes "s \<in> set ss" "trim_space s \<noteq> []"
  shows "(if ParseIP (strip_server (trim_space s)) \<noteq> None
     then strip_server (trim_space s) \<in> set (fst (split_servers u seen ss))
     else to_lower u (strip_server (trim_space s)) \<in> set (snd (split_servers u seen ss)) \<union> seen)"
  using assms(1)
proof (induction ss arbitrary: seen)
  case (Cons a ss)
  from Cons.IH [of seen] Cons.IH [of "insert (to_lower u (strip_server (trim_space a))) seen"] Cons.prems assms(2)
  show ?case by (auto simp: Let_def split_beta)
qed simp

lemma Exclude_content:
  assumes "Exclude u io now servers lookups e d = (rep, None, r, d')"
  defines "ips \<equiv> dedupe (sort_strings (fst (splitServers u servers) @ concat (map snd (rv_out r))))"
  shows "ld_exclude d' =
      Some (concat (map crlf_line (userLines (if io_read_exclude io then ld_exclude d else None))) @
        crlf_line excludeHeader @ concat (map crlf_line ips)) \<and>
    r = resolve now (load io now d e) (snd (splitServers u servers)) lookups \<and> rep = rv_report r"
proof -
  have save: "ld_exclude (save io t x y) = ld_exclude y" for t x y
    by (simp add: save_def split: option.splits)
  show ?thesis
    using assms by (auto simp: Exclude_def Let_def save split_beta split: if_splits option.splits)
qed

lemma dedupe_sorted:
  "sorted ss \<Longrightarrow> set (dedupe ss) = set ss \<and> sorted (dedupe ss) \<and> distinct (dedupe ss)"
  using dedupe_from_sorted [of ss None] by (simp add: dedupe_def)

text \<open>C18. After a call without an error the list is the user's lines, the header and the managed addresses, sorted and
  without repetition: exactly the servers given as addresses and, for every name, all usable addresses any resolver
  gave within the wait, or the remembered ones where nothing came.  Every server is covered or reported as
  unresolved.\<close>

theorem every_server_covered:
  assumes "Exclude u io now servers lookups e d = (rep, None, r, d')"
  shows "\<exists>ips. ld_exclude d' =
      Some (concat (map crlf_line (userLines (if io_read_exclude io then ld_exclude d else None))) @
        crlf_line excludeHeader @ concat (map crlf_line ips)) \<and>
    sorted ips \<and> distinct ips \<and>
    set ips = set (fst (splitServers u servers)) \<union>
      (\<Union>h\<in>set (snd (splitServers u servers)).
         if answered (the_lookups lookups) (rv_wait r) h \<noteq> {} then answered (the_lookups lookups) (rv_wait r) h
         else set (remembered (now + rv_wait r) (load io now d e) h)) \<and>
    (\<forall>s\<in>set servers. trim_space s \<noteq> [] \<longrightarrow>
       (let t = strip_server (trim_space s); h = to_lower u t
        in if ParseIP t \<noteq> None then t \<in> set ips
           else h \<in> set (Unresolved rep) \<or>
             answered (the_lookups lookups) (rv_wait r) h \<noteq> {} \<and>
               answered (the_lookups lookups) (rv_wait r) h \<subseteq> set ips \<or>
             remembered (now + rv_wait r) (load io now d e) h \<noteq> [] \<and>
               set (remembered (now + rv_wait r) (load io now d e) h) \<subseteq> set ips))"
proof -
  let ?sp = "splitServers u servers" and ?e = "load io now d e"
  let ?A = "answered (the_lookups lookups) (rv_wait r)" and ?R = "remembered (now + rv_wait r) ?e"
  define ips where "ips = dedupe (sort_strings (fst ?sp @ concat (map snd (rv_out r))))"
  from Exclude_content [OF assms] have c: "ld_exclude d' =
      Some (concat (map crlf_line (userLines (if io_read_exclude io then ld_exclude d else None))) @
        crlf_line excludeHeader @ concat (map crlf_line ips))"
    and r: "r = resolve now ?e (snd ?sp) lookups" and rep: "rep = rv_report r"
    by (auto simp: ips_def)
  have dist: "distinct (snd ?sp)" using distinct_split_servers by (simp add: splitServers_def)
  from resolve_covers [OF dist, of now ?e lookups]
  have out: "set (concat (map snd (rv_out r))) = (\<Union>h\<in>set (snd ?sp). if ?A h \<noteq> {} then ?A h else set (?R h))"
    and un: "Unresolved rep = sort_strings (filter (\<lambda>h. ?A h = {} \<and> ?R h = []) (snd ?sp))"
    unfolding r [symmetric] rep by blast+
  have ips: "set ips = set (fst ?sp) \<union> (\<Union>h\<in>set (snd ?sp). if ?A h \<noteq> {} then ?A h else set (?R h))"
    "sorted ips" "distinct ips"
    using dedupe_sorted [OF sorted_sort_strings, of "fst ?sp @ concat (map snd (rv_out r))"] out
    by (simp_all add: ips_def)
  have name: "h \<in> set (Unresolved rep) \<or> ?A h \<noteq> {} \<and> ?A h \<subseteq> set ips \<or> ?R h \<noteq> [] \<and> set (?R h) \<subseteq> set ips"
    if "h \<in> set (snd ?sp)" for h
  proof (cases "?A h = {}")
    case True
    with that ips(1) have "set (?R h) \<subseteq> set ips" by fastforce
    with True that un show ?thesis by auto
  next
    case False
    with that ips(1) have "?A h \<subseteq> set ips" by fastforce
    with False show ?thesis by blast
  qed
  have placed: "if ParseIP (strip_server (trim_space s)) \<noteq> None then strip_server (trim_space s) \<in> set (fst ?sp)
      else to_lower u (strip_server (trim_space s)) \<in> set (snd ?sp)"
    if "s \<in> set servers" "trim_space s \<noteq> []" for s
    using split_servers_all [OF that, of u "{}"] by (simp only: splitServers_def Un_empty_right)
  have "\<forall>s\<in>set servers. trim_space s \<noteq> [] \<longrightarrow>
       (let t = strip_server (trim_space s); h = to_lower u t
        in if ParseIP t \<noteq> None then t \<in> set ips
           else h \<in> set (Unresolved rep) \<or> ?A h \<noteq> {} \<and> ?A h \<subseteq> set ips \<or> ?R h \<noteq> [] \<and> set (?R h) \<subseteq> set ips)"
  proof (intro ballI impI)
    fix s assume "s \<in> set servers" "trim_space s \<noteq> []"
    then have at: "if ParseIP (strip_server (trim_space s)) \<noteq> None then strip_server (trim_space s) \<in> set (fst ?sp)
        else to_lower u (strip_server (trim_space s)) \<in> set (snd ?sp)" by (rule placed)
    show "let t = strip_server (trim_space s); h = to_lower u t
        in if ParseIP t \<noteq> None then t \<in> set ips
           else h \<in> set (Unresolved rep) \<or> ?A h \<noteq> {} \<and> ?A h \<subseteq> set ips \<or> ?R h \<noteq> [] \<and> set (?R h) \<subseteq> set ips"
    proof (cases "ParseIP (strip_server (trim_space s)) = None")
      case True
      with at have "to_lower u (strip_server (trim_space s)) \<in> set (snd ?sp)" by simp
      from name [OF this] True show ?thesis by (simp only: Let_def if_False not_not) simp
    next
      case False
      with at ips(1) show ?thesis by simp
    qed
  qed
  with c ips show ?thesis by blast
qed

section \<open>One call\<close>

text \<open>A list with a line of the user's; two resolvers, one of which is blocked; an address and a name.\<close>

definition ex_io :: exclude_io where
  "ex_io = \<lparr>io_read_exclude = True, io_read_nodes = True, io_mkdir = True, io_write_exclude = None,
     io_mkdir_nodes = True, io_write_nodes = None, io_decode = \<lambda>_. None, io_encode = \<lambda>_. None\<rparr>"

definition ex_lists :: lists_dir where
  "ex_lists = \<lparr>ld_exclude = Some (''10.0.0.0/8'' @ [CHR 0x0D, CHR 0x0A, CHR 0x0A] @ excludeHeader @ [CHR 0x0A] @ ''9.9.9.9''),
     ld_nodes = None\<rparr>"

definition ex_lookup :: lookup where
  "ex_lookup h = (30000000, Some [[127, 0, 0, 1], [93, 184, 216, 34]])"

definition ex_blocked :: lookup where
  "ex_blocked h = (5000000000, None)"

definition ex_excluder :: excluder where
  "ex_excluder = \<lparr>Budget = 0, RetryAfter = 0, XCache = [], XLoaded = False\<rparr>"

definition ex_servers :: "string list" where
  "ex_servers = ['' 1.2.3.4'', [], ''node'']"

definition ex_call :: "exclude_report \<times> exclude_error option \<times> resolved \<times> lists_dir" where
  "ex_call = Exclude (\<lambda>s. s) ex_io 0 ex_servers [Some ex_lookup, None, Some ex_blocked] ex_excluder ex_lists"

lemma ex_call_succeeds: "\<exists>rep r d'. ex_call = (rep, None, r, d')"
  by (simp add: ex_call_def Exclude_def ex_io_def Let_def split_beta)

lemma ex_lookups: "the_lookups [Some ex_lookup, None, Some ex_blocked] = [ex_lookup, ex_blocked]"
  by (simp add: the_lookups_def)

lemma ex_usable: "usable_addrs (snd (ex_lookup h)) \<noteq> []" "usable_addrs (snd (ex_blocked h)) = []"
  by (simp_all add: ex_lookup_def ex_blocked_def usable_addrs_def usableNodeIP_def ip_IsLoopback_def ip_IsUnspecified_def
      ip_IsLinkLocalUnicast_def ip_IsLinkLocalMulticast_def ip_IsMulticast_def To4_def replicate_step)

theorem user_lines_survive_witness:
  "\<exists>rep r d'. ex_call = (rep, None, r, d') \<and> userLines (ld_exclude d') = userLines (ld_exclude ex_lists)"
proof -
  obtain rep r d' where c: "ex_call = (rep, None, r, d')" using ex_call_succeeds by blast
  have "io_read_exclude ex_io" by (simp add: ex_io_def)
  from user_lines_survive [OF this c [unfolded ex_call_def]] c show ?thesis by blast
qed

theorem wait_is_bounded_witness:
  "rv_wait (resolve 0 ex_excluder [''node''] [Some ex_lookup, None, Some ex_blocked]) \<le> 430000000"
proof -
  have "rv_wait (resolve 0 ex_excluder [''node''] [Some ex_lookup, None, Some ex_blocked]) \<le> 30000000 + settleAfterFirst"
    using wait_is_bounded [of 0 ex_excluder "[''node'']" "[Some ex_lookup, None, Some ex_blocked]" 30000000]
    by (simp add: ex_lookups ex_usable) (simp add: ex_lookup_def)
  then show ?thesis by (simp add: settleAfterFirst_def)
qed

theorem every_server_covered_witness:
  "\<exists>rep r d' ips pre. ex_call = (rep, None, r, d') \<and> ld_exclude d' = Some (pre @ concat (map crlf_line ips)) \<and>
     ''1.2.3.4'' \<in> set ips"
proof -
  obtain rep r d' where c: "ex_call = (rep, None, r, d')" using ex_call_succeeds by blast
  have "trim_space '' 1.2.3.4'' = ''1.2.3.4''" by code_simp
  then have s: "'' 1.2.3.4'' \<in> set ex_servers" "trim_space '' 1.2.3.4'' \<noteq> []"
    "strip_server (trim_space '' 1.2.3.4'') = ''1.2.3.4''"
    by (simp_all add: ex_servers_def strip_server_def trim_suffix_def has_suffix_def trim_prefix_def has_prefix_def)
  have p: "ParseIP ''1.2.3.4'' \<noteq> None"
    by (simp add: ParseIP_def parse_v4_def v4_field_def is_digit_def dec_val_def digit_val_def)
  from every_server_covered [OF c [unfolded ex_call_def]] obtain ips pre where
    d: "ld_exclude d' = Some (pre @ concat (map crlf_line ips))" and
    "\<forall>s\<in>set ex_servers. trim_space s \<noteq> [] \<longrightarrow> (let t = strip_server (trim_space s) in ParseIP t \<noteq> None \<longrightarrow> t \<in> set ips)"
    unfolding Let_def append_assoc [symmetric] by (metis (no_types, lifting))
  with s p have "''1.2.3.4'' \<in> set ips" by (metis (no_types, lifting))
  with c d show ?thesis by blast
qed

definition ex_cache :: "(string \<times> cache_entry) list" where
  "ex_cache = map (\<lambda>i. (nat_str i, \<lparr>CAddrs = [], CSeen = None, CFailed = Some (int i)\<rparr>)) [0..<300]"

theorem remembered_set_bounded_witness: "length (kept_hosts 0 ex_cache) = 256"
proof -
  have "inj_on (\<lambda>i. (nat_str i, \<lparr>CAddrs = [], CSeen = None, CFailed = Some (int i)\<rparr>)) {0..<300}"
    by (rule inj_onI) (simp add: nat_str_inj)
  then have "card (set ex_cache) = 300" by (simp add: ex_cache_def card_image)
  moreover have "card (set (kept_hosts 0 ex_cache)) \<le> 256"
    using remembered_set_bounded [of 0 ex_cache] card_length [of "kept_hosts 0 ex_cache"] by (simp add: maxCacheEntries_def)
  ultimately have "\<not> set ex_cache \<subseteq> set (kept_hosts 0 ex_cache)"
    using card_mono [of "set (kept_hosts 0 ex_cache)" "set ex_cache"] by auto
  then obtain p where "p \<in> set ex_cache" "p \<notin> set (kept_hosts 0 ex_cache)" by blast
  moreover have "worth_keeping 0 p" if "p \<in> set ex_cache" for p
    using that by (auto simp: ex_cache_def worth_keeping_def)
  ultimately show ?thesis using remembered_set_bounded [of 0 ex_cache] by (simp add: maxCacheEntries_def)
qed

end
