(* ===== verification/Go_Scan.thy ===== *)
theory Go_Scan
  imports Go_Lib
begin

text \<open>
  \<^verbatim>\<open>bufio.Scanner\<close> splitting into lines: the tokens, without a carriage return at their end, up to the first line
  that does not fit the buffer of \<open>n\<close> bytes together with its newline, which ends the scan with an error.
\<close>

definition drop_cr :: "string \<Rightarrow> string" where
  "drop_cr l = (if l \<noteq> [] \<and> last l = CHR 0x0D then butlast l else l)"

definition scan_tokens :: "nat \<Rightarrow> string \<Rightarrow> string list \<times> bool" where
  "scan_tokens n data =
     (let ls = split_on (CHR 0x0A) data;
          ls' = (if last ls = [] then butlast ls else ls);
          ok = takeWhile (\<lambda>l. length l < n) ls'
      in (map drop_cr ok, length ok < length ls'))"

text \<open>The scanner as it comes, with a buffer of 64 KiB.\<close>

definition scan_lines :: "string \<Rightarrow> string list" where
  "scan_lines data = fst (scan_tokens 65536 data)"

end
