(* ===== verification/Bypass_Pick.thy ===== *)
theory Bypass_Pick
  imports Go_Net Go_Scan "HOL-Library.Product_Lexorder"
begin

text \<open>
  The strategies of the DPI bypass (\<^verbatim>\<open>core/zapret\<close>: \<^verbatim>\<open>zapret.go\<close>, \<^verbatim>\<open>run_windows.go\<close>, \<^verbatim>\<open>hostlists.go\<close>,
  \<^verbatim>\<open>voicesplit.go\<close>, \<^verbatim>\<open>pin_iface.go\<close>): listing them, starting and stopping one, measuring them and choosing the one
  to keep.  What the processes, the packet filter and the measurements do is an answer.
\<close>

section \<open>The strategies of a bundle\<close>

record bypass_strategy =
  ZName :: string
  ZPath :: string

definition serviceScripts :: "string list" where
  "serviceScripts =
     [''service'', ''check_updates'', ''install_bin'', ''cleanup'', ''preset_russia'', ''blockcheck'', ''diagnostics'']"

text \<open>\<^verbatim>\<open>filepath.Ext\<close> of a file name: from its last dot on.\<close>

definition file_ext :: "string \<Rightarrow> string" where
  "file_ext n = (case last_index (CHR ''.'') n of None \<Rightarrow> [] | Some i \<Rightarrow> drop i n)"

text \<open>No letter outside ASCII folds to one of \<^verbatim>\<open>.bat\<close>.\<close>

definition is_bat :: "string \<Rightarrow> bool" where
  "is_bat n \<longleftrightarrow> map ascii_lower (file_ext n) = ''.bat''"

definition name_less :: "case_table \<Rightarrow> bypass_strategy \<Rightarrow> bypass_strategy \<Rightarrow> bool" where
  "name_less u a b =
     (let la = to_lower u (ZName a); lb = to_lower u (ZName b)
      in if (la = ''general'') \<noteq> (lb = ''general'') then la = ''general'' else la < lb)"

definition Discover :: "case_table \<Rightarrow> (string \<Rightarrow> string \<Rightarrow> string) \<Rightarrow> string \<Rightarrow> string list \<Rightarrow> bypass_strategy list" where
  "Discover u join_path dir names =
     go_stable_sort (name_less u)
       (concat (map (\<lambda>n.
          if \<not> is_bat n then []
          else let base = trim_suffix (file_ext n) n
               in if to_lower u base \<in> set serviceScripts then []
                  else if has_prefix ''.'' base then []
                  else [\<lparr>ZName = base, ZPath = join_path dir n\<rparr>]) names))"

section \<open>Measured strategies\<close>

record probe_result =
  ZTarget :: string
  ZOK :: bool
  ZRTTMs :: int

record strategy_result =
  ZStrategy :: bypass_strategy
  ZStarted :: bool
  ZTargets :: "probe_result list"

definition OKCount :: "strategy_result \<Rightarrow> nat" where
  "OKCount r = length (filter ZOK (ZTargets r))"

definition zap_Unreachable :: int where "zap_Unreachable = 2 ^ 62 - 1"

definition zap_Score :: "strategy_result \<Rightarrow> int" where
  "zap_Score r =
     (let rtts = map ZRTTMs (filter (\<lambda>t. ZOK t \<and> 0 < ZRTTMs t) (ZTargets r))
      in if rtts = [] then zap_Unreachable
         else go_stable_sort (<) rtts ! ((length rtts - 1) div 2))"

definition zap_pos :: "strategy_result list \<Rightarrow> string \<Rightarrow> nat" where
  "zap_pos results n = (case find_index (\<lambda>r. ZName (ZStrategy r) = n) results of Some i \<Rightarrow> i | None \<Rightarrow> 0)"

definition zap_less :: "strategy_result list \<Rightarrow> strategy_result \<Rightarrow> strategy_result \<Rightarrow> bool" where
  "zap_less results ra rb =
     (if OKCount ra \<noteq> OKCount rb then OKCount ra > OKCount rb
      else if zap_Score ra \<noteq> zap_Score rb then zap_Score ra < zap_Score rb
      else zap_pos results (ZName (ZStrategy ra)) < zap_pos results (ZName (ZStrategy rb)))"

definition zap_Rank :: "strategy_result list \<Rightarrow> strategy_result list" where
  "zap_Rank results = go_stable_sort (zap_less results) results"

definition zap_Best :: "strategy_result list \<Rightarrow> nat \<Rightarrow> strategy_result option" where
  "zap_Best results baseline =
     (case zap_Rank results of
        [] \<Rightarrow> None
      | best # _ \<Rightarrow> if OKCount best \<le> baseline then None else Some best)"

definition ShouldStopEarly :: "strategy_result \<Rightarrow> nat \<Rightarrow> nat \<Rightarrow> bool" where
  "ShouldStopEarly r targets baseline \<longleftrightarrow> 0 < targets \<and> baseline < targets \<and> targets \<le> OKCount r"

section \<open>Rewriting the batch file\<close>

definition voiceUDPFilter :: string where "voiceUDPFilter = ''19294-19344,50000-50100''"

text \<open>\<^verbatim>\<open>strings.Replace\<close> of the first occurrence.\<close>

definition replace_first :: "string \<Rightarrow> string \<Rightarrow> string \<Rightarrow> string" where
  "replace_first old new s =
     (case index_str old s of None \<Rightarrow> s | Some i \<Rightarrow> take i s @ new @ drop (i + length old) s)"

definition voice_block :: "string \<Rightarrow> bool" where
  "voice_block line \<longleftrightarrow>
     has_prefix (''--filter-udp='' @ voiceUDPFilter) (trim_space line) \<and>
     contains ''--filter-l7=discord,stun'' (trim_space line)"

definition voice_capture :: "string \<Rightarrow> bool" where
  "voice_capture line \<longleftrightarrow> contains ''--wf-udp='' line \<and> contains voiceUDPFilter line"

definition StripVoiceUDP :: "string \<Rightarrow> string \<times> bool" where
  "StripVoiceUDP bat =
     (let lines = split_on (CHR 0x0A) bat;
          out = map (\<lambda>l. if voice_capture l then replace_first (voiceUDPFilter @ '','') [] l else l)
                  (filter (\<lambda>l. \<not> voice_block l) lines)
      in if list_ex (\<lambda>l. voice_block l \<or> voice_capture l) lines then (join [CHR 0x0A] out, True) else (bat, False))"

definition pinnable :: "string \<Rightarrow> bool" where
  "pinnable line \<longleftrightarrow>
     contains ''winws.exe'' line \<and> contains ''--wf-'' line \<and> \<not> contains ''--wf-iface='' line"

definition PinInterface :: "string \<Rightarrow> int \<Rightarrow> string \<times> bool" where
  "PinInterface bat ifIndex =
     (if ifIndex \<le> 0 then (bat, False)
      else let lines = split_on (CHR 0x0A) bat
           in if list_ex pinnable lines
              then (join [CHR 0x0A] (map (\<lambda>l. if pinnable l
                       then (case index_str ''--wf-'' l of
                               None \<Rightarrow> l
                             | Some at \<Rightarrow> take at l @ ''--wf-iface='' @ int_str ifIndex @ '' '' @ drop at l)
                       else l) lines), True)
              else (bat, False))"

text \<open>\<^verbatim>\<open>launchPath\<close>: what reading the batch gives and whether the derived copy can be written are answers; the
  result is the path that is run and what was written there.\<close>

definition launchPath :: "bool \<Rightarrow> int \<Rightarrow> string \<Rightarrow> string option \<Rightarrow> bool \<Rightarrow> bypass_strategy \<Rightarrow> string \<times> string option" where
  "launchPath keepVoice pin derived content write_ok s =
     (if \<not> keepVoice \<and> pin \<le> 0 then (ZPath s, None)
      else case content of
             None \<Rightarrow> (ZPath s, None)
           | Some data \<Rightarrow>
               (let (t1, c1) = (if keepVoice then StripVoiceUDP data else (data, False));
                    (t2, c2) = PinInterface t1 pin
                in if \<not> c1 \<and> \<not> c2 \<or> \<not> write_ok then (ZPath s, None) else (derived, Some t2)))"

section \<open>The host lists\<close>

definition hostlistFiles :: "string list" where
  "hostlistFiles = [''list-general.txt'', ''list-general-user.txt'', ''list-google.txt'']"

definition placeholderDomains :: "string list" where
  "placeholderDomains = [''domain.example.abc'']"

definition list_entry :: "case_table \<Rightarrow> string \<Rightarrow> string list" where
  "list_entry u raw =
     (let line = trim_space raw
      in if line = [] \<or> has_prefix ''#'' line then []
         else let l = trim_suffix ''.'' (trim_prefix ''.'' (trim_prefix ''*.'' (to_lower u line)))
              in if l = [] \<or> l \<in> set placeholderDomains then [] else [l])"

definition readHostlist :: "case_table \<Rightarrow> string option \<Rightarrow> string list" where
  "readHostlist u content =
     (case content of None \<Rightarrow> [] | Some data \<Rightarrow> concat (map (list_entry u) (scan_lines data)))"

text \<open>\<open>read f\<close> is the content of the list file \<open>f\<close>, or nothing where it cannot be opened.\<close>

definition Covered :: "case_table \<Rightarrow> (string \<Rightarrow> string option) \<Rightarrow> string list" where
  "Covered u read = sort_strings (dedup_seen {} (concat (map (\<lambda>f. readHostlist u (read f)) hostlistFiles)))"

section \<open>Starting, stopping and measuring\<close>

text \<open>How a stop ends: whether it answers with an error, and whether the filter is still there (a stop that waited
  ten seconds in vain answers without an error).  How a launch ends: the batch cannot be run, the filter was not seen
  (it may be there or not), or it was seen.\<close>

record stop_answer =
  sa_err :: bool
  sa_alive :: bool

datatype launch_answer = Launch_fails | Not_seen bool | Seen

record start_answer =
  st_stop :: stop_answer
  st_launch :: launch_answer

definition zap_Stop :: "stop_answer \<Rightarrow> bypass_strategy option \<Rightarrow> bool \<times> bypass_strategy option" where
  "zap_Stop a winws = (sa_err a, if sa_alive a then winws else None)"

text \<open>Whether it started, whether it failed, and the filter that runs.\<close>

definition zap_Start :: "start_answer \<Rightarrow> bypass_strategy \<Rightarrow> bypass_strategy option \<Rightarrow> bool \<times> bool \<times> bypass_strategy option" where
  "zap_Start a s winws =
     (let (err, winws) = zap_Stop (st_stop a) winws
      in if err then (False, True, winws)
         else case st_launch a of
                Launch_fails \<Rightarrow> (False, True, winws)
              | Not_seen there \<Rightarrow> (False, False, if there then Some s else winws)
              | Seen \<Rightarrow> (True, False, Some s))"

text \<open>The measurements of one run: the first stop, the baseline, and for the \<open>i\<close>-th strategy whether the run was
  cancelled before it, how its start went and which targets answered.\<close>

record pick_world =
  pw_stop :: stop_answer
  pw_base :: "probe_result list"
  pw_cancelled :: "nat \<Rightarrow> bool"
  pw_start :: "nat \<Rightarrow> start_answer"
  pw_probe :: "nat \<Rightarrow> probe_result list"
  pw_last_stop :: stop_answer

fun pick_loop :: "bool \<Rightarrow> nat \<Rightarrow> nat \<Rightarrow> pick_world \<Rightarrow> nat \<Rightarrow> bypass_strategy list \<Rightarrow> bypass_strategy option \<Rightarrow>
    strategy_result list \<times> bool \<times> bypass_strategy option" where
  "pick_loop stop_on_perfect targets baseline w i [] winws = ([], False, winws)"
| "pick_loop stop_on_perfect targets baseline w i (s # ss) winws =
     (if pw_cancelled w i then ([], True, winws)
      else let (started, err, winws) = zap_Start (pw_start w i) s winws;
               res = \<lparr>ZStrategy = s, ZStarted = started, ZTargets = (if started \<and> \<not> err then pw_probe w i else [])\<rparr>
           in if stop_on_perfect \<and> ShouldStopEarly res targets baseline then ([res], False, winws)
              else let (rs, cancelled, winws) = pick_loop stop_on_perfect targets baseline w (i + 1) ss winws
                   in (res # rs, cancelled, winws))"

record pick_outcome =
  po_results :: "strategy_result list"
  po_baseline :: nat
  po_err :: bool
  po_winws :: "bypass_strategy option"

definition Pick :: "bool \<Rightarrow> nat \<Rightarrow> pick_world \<Rightarrow> bypass_strategy list \<Rightarrow> bypass_strategy option \<Rightarrow> pick_outcome" where
  "Pick stop_on_perfect targets w strategies winws =
     (let (err, winws) = zap_Stop (pw_stop w) winws
      in if err then \<lparr>po_results = [], po_baseline = 0, po_err = True, po_winws = winws\<rparr>
         else let baseline = length (filter ZOK (pw_base w));
                  (rs, cancelled, winws) = pick_loop stop_on_perfect targets baseline w 0 strategies winws
              in if cancelled then \<lparr>po_results = rs, po_baseline = baseline, po_err = True, po_winws = winws\<rparr>
                 else \<lparr>po_results = rs, po_baseline = baseline, po_err = False,
                       po_winws = snd (zap_Stop (pw_last_stop w) winws)\<rparr>)"

section \<open>The choice\<close>

definition zap_key :: "strategy_result list \<Rightarrow> strategy_result \<Rightarrow> int \<times> int \<times> nat" where
  "zap_key results r = (- int (OKCount r), zap_Score r, zap_pos results (ZName (ZStrategy r)))"

interpretation zap_ranking: key_order_irrefl "zap_less results" "zap_key results" for results
  by unfold_locales (auto simp: zap_less_def zap_key_def less_prod_def)

lemma set_zap_Rank [simp]: "set (zap_Rank results) = set results"
  by (simp add: zap_Rank_def)

lemma zap_Rank_hd:
  assumes "zap_Rank results = best # rest" "r \<in> set results"
  shows "OKCount r \<le> OKCount best"
proof -
  have "sorted (map (zap_key results) (best # rest))"
    using zap_ranking.sorted_all [of results results] assms(1) by (simp add: zap_Rank_def)
  moreover have "r \<in> set (best # rest)" using assms by (metis set_zap_Rank)
  ultimately have "zap_key results best \<le> zap_key results r" by auto
  then show ?thesis by (auto simp: zap_key_def less_eq_prod_def)
qed

text \<open>\<open>Best\<close> returns a measured strategy of the greatest coverage if any beats the baseline, and nothing otherwise.\<close>

lemma zap_Best_spec:
  "case zap_Best results baseline of
     None \<Rightarrow> \<forall>r\<in>set results. OKCount r \<le> baseline
   | Some b \<Rightarrow> b \<in> set results \<and> baseline < OKCount b \<and> (\<forall>r\<in>set results. OKCount r \<le> OKCount b)"
proof (cases "zap_Rank results")
  case Nil
  then have "results = []" by (metis set_zap_Rank set_empty)
  with Nil show ?thesis by (simp add: zap_Best_def)
next
  case (Cons best rest)
  then have "best \<in> set results" by (metis set_zap_Rank list.set_intros(1))
  moreover have "\<forall>r\<in>set results. OKCount r \<le> OKCount best" using zap_Rank_hd [OF Cons] by blast
  ultimately show ?thesis by (fastforce simp: zap_Best_def Cons split: if_splits)
qed

text \<open>Every measurement asks each target once.\<close>

definition measures :: "nat \<Rightarrow> pick_world \<Rightarrow> bool" where
  "measures targets w \<longleftrightarrow> length (pw_base w) = targets \<and> (\<forall>i. length (pw_probe w i) = targets)"

lemma pick_loop_OKCount:
  assumes "measures targets w"
  shows "\<forall>r\<in>set (fst (pick_loop b targets base w i ss winws)). OKCount r \<le> targets"
proof (induction ss arbitrary: i winws)
  case (Cons s ss)
  obtain started err winws' where st: "zap_Start (pw_start w i) s winws = (started, err, winws')"
    by (metis prod.collapse)
  have "length (filter ZOK (pw_probe w i)) \<le> targets"
    using assms length_filter_le [of ZOK "pw_probe w i"] by (simp add: measures_def)
  with Cons.IH [of "i + 1" winws'] show ?case
    by (simp add: st Let_def OKCount_def split_beta)
qed simp

lemma pick_loop_early:
  "pick_loop True targets base w i ss winws = pick_loop False targets base w i ss winws \<or>
    (\<exists>r\<in>set (fst (pick_loop True targets base w i ss winws)). ShouldStopEarly r targets base) \<and>
    set (fst (pick_loop True targets base w i ss winws)) \<subseteq> set (fst (pick_loop False targets base w i ss winws))"
proof (induction ss arbitrary: i winws)
  case (Cons s ss)
  obtain started err winws' where st: "zap_Start (pw_start w i) s winws = (started, err, winws')"
    by (metis prod.collapse)
  from Cons.IH [of "i + 1" winws'] show ?case
    by (auto simp: st Let_def split: prod.splits)
qed simp

text \<open>C16. Ending a run at the first strategy that carries everything loses no coverage: on the same answers, the early run
  finds a strategy exactly when the full run does, and one that carries just as many targets.\<close>

theorem early_stop_loses_no_coverage:
  fixes ss :: "bypass_strategy list" and winws :: "bypass_strategy option"
  assumes "measures targets w"
  defines "early \<equiv> Pick True targets w ss winws" and "full \<equiv> Pick False targets w ss winws"
  shows "map_option OKCount (zap_Best (po_results early) (po_baseline early)) =
         map_option OKCount (zap_Best (po_results full) (po_baseline full))"
proof -
  obtain err winws1 where s: "zap_Stop (pw_stop w) winws = (err, winws1)" by (metis prod.collapse)
  show ?thesis
  proof (cases err)
    case True
    then show ?thesis by (simp add: early_def full_def Pick_def s)
  next
    case False
    define base where "base = length (filter ZOK (pw_base w))"
    let ?part = "fst (pick_loop True targets base w 0 ss winws1)" and ?full = "fst (pick_loop False targets base w 0 ss winws1)"
    have r: "po_results early = ?part" "po_results full = ?full" "po_baseline early = base" "po_baseline full = base"
      using False by (simp_all add: early_def full_def Pick_def s Let_def base_def split: prod.splits)
    consider "?part = ?full" | r where "r \<in> set ?part" "ShouldStopEarly r targets base" "set ?part \<subseteq> set ?full"
      using pick_loop_early [of targets base w 0 ss winws1] by auto
    then show ?thesis
    proof cases
      case 1
      then show ?thesis by (simp add: r)
    next
      case (2 x)
      have top: "\<exists>b. zap_Best xs base = Some b \<and> OKCount b = targets"
        if "x \<in> set xs" "\<forall>y\<in>set xs. OKCount y \<le> targets" for xs
      proof (cases "zap_Best xs base")
        case None
        with zap_Best_spec [of xs base] that(1) have "OKCount x \<le> base" by simp
        with 2(2) show ?thesis by (simp add: ShouldStopEarly_def)
      next
        case (Some b)
        with zap_Best_spec [of xs base] that have "OKCount x \<le> OKCount b" "OKCount b \<le> targets" by auto
        with Some 2(2) show ?thesis by (simp add: ShouldStopEarly_def)
      qed
      have "\<exists>b. zap_Best ?part base = Some b \<and> OKCount b = targets"
        by (rule top [OF 2(1)]) (rule pick_loop_OKCount [OF assms(1)])
      moreover have "\<exists>b. zap_Best ?full base = Some b \<and> OKCount b = targets"
        by (rule top [OF subsetD [OF 2(3) 2(1)]]) (rule pick_loop_OKCount [OF assms(1)])
      ultimately show ?thesis by (auto simp: r)
    qed
  qed
qed

text \<open>Three strategies, the second of which carries both targets.\<close>

definition ex_strategies :: "bypass_strategy list" where
  "ex_strategies = map (\<lambda>n. \<lparr>ZName = n, ZPath = n @ ''.bat''\<rparr>) [''general'', ''general (ALT)'', ''general (FAKE)'']"

definition ex_probe :: "bool \<Rightarrow> probe_result list" where
  "ex_probe video =
     [\<lparr>ZTarget = ''discord'', ZOK = True, ZRTTMs = 40\<rparr>, \<lparr>ZTarget = ''video'', ZOK = video, ZRTTMs = 60\<rparr>]"

definition ex_pick :: pick_world where
  "ex_pick = \<lparr>pw_stop = \<lparr>sa_err = False, sa_alive = False\<rparr>, pw_base = ex_probe False, pw_cancelled = \<lambda>_. False,
     pw_start = \<lambda>_. \<lparr>st_stop = \<lparr>sa_err = False, sa_alive = False\<rparr>, st_launch = Seen\<rparr>,
     pw_probe = \<lambda>i. ex_probe (0 < i), pw_last_stop = \<lparr>sa_err = False, sa_alive = False\<rparr>\<rparr>"

theorem early_stop_loses_no_coverage_witness:
  "map_option OKCount (zap_Best (po_results (Pick True 2 ex_pick ex_strategies None)) (po_baseline (Pick True 2 ex_pick ex_strategies None))) =
   map_option OKCount (zap_Best (po_results (Pick False 2 ex_pick ex_strategies None)) (po_baseline (Pick False 2 ex_pick ex_strategies None))) \<and>
   length (po_results (Pick True 2 ex_pick ex_strategies None)) = 2 \<and>
   length (po_results (Pick False 2 ex_pick ex_strategies None)) = 3"
proof (intro conjI)
  have "measures 2 ex_pick" by (simp add: measures_def ex_pick_def ex_probe_def)
  from early_stop_loses_no_coverage [OF this, of ex_strategies None]
  show "map_option OKCount (zap_Best (po_results (Pick True 2 ex_pick ex_strategies None)) (po_baseline (Pick True 2 ex_pick ex_strategies None))) =
    map_option OKCount (zap_Best (po_results (Pick False 2 ex_pick ex_strategies None)) (po_baseline (Pick False 2 ex_pick ex_strategies None)))" .
qed (simp_all add: Pick_def zap_Stop_def zap_Start_def ex_pick_def ex_strategies_def ex_probe_def ShouldStopEarly_def OKCount_def Let_def)

end
