(* ===== verification/Bypass_Update.thy ===== *)
theory Bypass_Update
  imports Bypass_Pick Exclude_List
begin

text \<open>
  Updating the bundle of the DPI bypass (\<^verbatim>\<open>core/zapret\<close>: \<^verbatim>\<open>version.go\<close>, \<^verbatim>\<open>verify.go\<close>, \<^verbatim>\<open>update.go\<close>,
  \<^verbatim>\<open>install.go\<close>): which release is newer, which archive may be fetched and from where, what it has to hash to,
  unpacking it beside the installed bundle and swapping the two.  The HTTP exchange, SHA-256 (as lower-case
  hexadecimal), the zip reader and the system calls are parameters.  The hook that lets a test accept one more origin
  is nil in a build.
\<close>

section \<open>Versions\<close>

definition versionFile :: string where "versionFile = ''tenebra-bundle-version.txt''"

fun version_numbers :: "string list \<Rightarrow> int list" where
  "version_numbers [] = []"
| "version_numbers (f # fs) = (case atoi (trim_space f) of None \<Rightarrow> [] | Some n \<Rightarrow> n # version_numbers fs)"

definition versionParts :: "string \<Rightarrow> int list" where
  "versionParts v = version_numbers (split_on (CHR ''.'') (trim_prefix ''v'' (trim_space v)))"

text \<open>The loop of \<^verbatim>\<open>Newer\<close>: a missing component counts as zero.\<close>

fun newer_parts :: "int list \<Rightarrow> int list \<Rightarrow> bool" where
  "newer_parts [] [] = False"
| "newer_parts (a # as) [] = (if a \<noteq> 0 then a < 0 else newer_parts as [])"
| "newer_parts [] (b # bs) = (if b \<noteq> 0 then 0 < b else newer_parts [] bs)"
| "newer_parts (a # as) (b # bs) = (if a \<noteq> b then a < b else newer_parts as bs)"

definition Newer :: "string \<Rightarrow> string \<Rightarrow> bool" where
  "Newer local remote =
     (if trim_space remote = [] then False
      else if trim_space local = [] then True
      else newer_parts (versionParts (trim_space local)) (versionParts (trim_space remote)))"

section \<open>What may be installed\<close>

datatype update_error = Integrity | Untrusted | Update_failed

record release =
  Version :: string
  ArchiveURL :: string
  RelSize :: int
  SHA256 :: string

definition archiveHosts :: "string list" where
  "archiveHosts = [''github.com'', ''objects.githubusercontent.com'', ''release-assets.githubusercontent.com'']"

definition archiveHostAllowed :: "case_table \<Rightarrow> string \<Rightarrow> bool" where
  "archiveHostAllowed u host0 =
     (let host = to_lower u (trim_suffix ''.'' (trim_space host0)) in host \<noteq> [] \<and> host \<in> set archiveHosts)"

definition checkArchiveURL :: "case_table \<Rightarrow> string \<Rightarrow> bool" where
  "checkArchiveURL u raw =
     (case url_parse u (trim_space raw) of
        None \<Rightarrow> False
      | Some r \<Rightarrow>
          if map ascii_lower (UScheme r) \<noteq> ''https'' then False
          else if UUser r \<noteq> None then False
          else archiveHostAllowed u (Hostname r))"

definition pinnedArchives :: "(string \<times> string) list" where
  "pinnedArchives =
     [(''1.10.2'', ''5eaac9fb2e4b1abd693487452a3ff3f4dfe9578a45f9ddddfa4bc1f5a6bb62d5''),
      (''1.10.1'', ''f748d61fec75e4edc992cb5b09d554e914197c68c690384aceb61f143d8f76c9''),
      (''1.10.0'', ''6b7c5a66cfd055b8e361f8b5fb00f00b167260f21b1c03d589f6008417fb94a2'')]"

definition PinnedSum :: "string \<Rightarrow> string" where
  "PinnedSum version =
     (case map_of pinnedArchives (trim_prefix ''v'' (trim_space version)) of None \<Rightarrow> [] | Some s \<Rightarrow> s)"

definition normalizeSum :: "case_table \<Rightarrow> string \<Rightarrow> string" where
  "normalizeSum u s0 =
     (let s = trim_prefix ''sha256:'' (to_lower u (trim_space s0))
      in if length s \<noteq> 64 then []
         else if list_all (\<lambda>c. is_digit c \<or> (97 \<le> (of_char c :: nat) \<and> (of_char c :: nat) \<le> 102)) s then s else [])"

definition expectedArchiveSum :: "case_table \<Rightarrow> release \<Rightarrow> update_error + string" where
  "expectedArchiveSum u rel =
     (let pinned = PinnedSum (Version rel); published = normalizeSum u (SHA256 rel)
      in if pinned = [] then Inl Untrusted
         else if published \<noteq> [] \<and> published \<noteq> pinned then Inl Integrity
         else Inr pinned)"

record asset =
  AName :: string
  ASize :: int
  AURL :: string
  ADigest :: string

record feed =
  TagName :: string
  Draft :: bool
  Prerelease :: bool
  Assets :: "asset list"

text \<open>\<open>answer\<close> is the decoded feed, or nothing where the request, its status or the decoding failed.\<close>

definition LatestRelease :: "case_table \<Rightarrow> feed option \<Rightarrow> update_error + release" where
  "LatestRelease u answer =
     (case answer of
        None \<Rightarrow> Inl Update_failed
      | Some p \<Rightarrow>
          if Draft p \<or> Prerelease p then Inl Update_failed
          else let v = trim_space (TagName p);
                   rel = (case find (\<lambda>a. map ascii_lower (file_ext (AName a)) = ''.zip'') (Assets p) of
                            None \<Rightarrow> \<lparr>Version = v, ArchiveURL = [], RelSize = 0, SHA256 = []\<rparr>
                          | Some a \<Rightarrow> \<lparr>Version = v, ArchiveURL = AURL a, RelSize = ASize a, SHA256 = normalizeSum u (ADigest a)\<rparr>)
               in if Version rel = [] \<or> ArchiveURL rel = [] then Inl Update_failed
                  else if \<not> checkArchiveURL u (ArchiveURL rel) then Inl Integrity
                  else if RelSize rel \<le> 0 then Inl Integrity
                  else (case expectedArchiveSum u rel of
                          Inl Integrity \<Rightarrow> Inl Integrity
                        | Inl Update_failed \<Rightarrow> Inl Update_failed
                        | _ \<Rightarrow> Inr rel))"

section \<open>The download\<close>

definition maxArchiveBytes :: int where "maxArchiveBytes = 64 * 2 ^ 20"

text \<open>One exchange: the addresses the server redirects to, and then the status and the body with whether reading it
  failed, or nothing where the request failed.\<close>

record exchange =
  ex_hops :: "string list"
  ex_response :: "(nat \<times> string \<times> bool) option"

text \<open>Following the redirects: \<open>via\<close> requests have been made.\<close>

fun follow :: "case_table \<Rightarrow> nat \<Rightarrow> string list \<Rightarrow> update_error option" where
  "follow u via [] = None"
| "follow u via (h # hs) =
     (if 10 \<le> via then Some Update_failed
      else if \<not> checkArchiveURL u h then Some Integrity
      else follow u (via + 1) hs)"

definition verifyArchive :: "int \<Rightarrow> release \<Rightarrow> string \<Rightarrow> string \<Rightarrow> update_error option" where
  "verifyArchive n rel wantSum gotSum =
     (if n \<noteq> RelSize rel then Some Integrity else if gotSum \<noteq> wantSum then Some Integrity else None)"

definition download :: "case_table \<Rightarrow> (string \<Rightarrow> string) \<Rightarrow> exchange \<Rightarrow> release \<Rightarrow> string \<Rightarrow> update_error + string" where
  "download u sha x rel wantSum =
     (if RelSize rel \<le> 0 \<or> maxArchiveBytes \<le> RelSize rel then Inl Integrity
      else case follow u 1 (ex_hops x) of
             Some e \<Rightarrow> Inl e
           | None \<Rightarrow>
               (case ex_response x of
                  None \<Rightarrow> Inl Update_failed
                | Some (status, body0, broken) \<Rightarrow>
                    if status \<noteq> 200 then Inl Update_failed
                    else let body = take (nat maxArchiveBytes) body0; n = int (length body)
                         in if broken \<or> n = 0 \<or> maxArchiveBytes \<le> n then Inl Update_failed
                            else case verifyArchive n rel wantSum (sha body) of
                                   Some e \<Rightarrow> Inl e
                                 | None \<Rightarrow> Inr body))"

section \<open>Unpacking\<close>

text \<open>The members of an archive.  A path is the list of its components; \<open>win\<close> says that the backslash separates
  components as well.\<close>

record zip_member =
  MName :: string
  MIsDir :: bool
  MContent :: string

fun common_prefix :: "string \<Rightarrow> zip_member list \<Rightarrow> string" where
  "common_prefix prefix [] = prefix"
| "common_prefix prefix (f # fs) =
     (let name = trim_prefix ''./'' (MName f)
      in if name = [] then common_prefix prefix fs
         else case index_byte (CHR ''/'') name of
                None \<Rightarrow> []
              | Some i \<Rightarrow>
                  let first = take i name
                  in if prefix = [] then common_prefix first fs
                     else if prefix \<noteq> first then [] else common_prefix prefix fs)"

definition commonPrefix :: "zip_member list \<Rightarrow> string" where
  "commonPrefix files = common_prefix [] files"

fun split_path :: "bool \<Rightarrow> string \<Rightarrow> string list" where
  "split_path win [] = [[]]"
| "split_path win (c # s) =
     (if c = CHR ''/'' \<or> win \<and> c = CHR 0x5C then [] # split_path win s
      else case split_path win s of w # ws \<Rightarrow> (c # w) # ws | [] \<Rightarrow> [[c]])"

text \<open>Cleaning: \<^verbatim>\<open>filepath.Join\<close> of an absolute directory and a relative name, and of a relative name alone.\<close>

definition abs_step :: "string list \<Rightarrow> string \<Rightarrow> string list" where
  "abs_step acc c = (if c = [] \<or> c = ''.'' then acc else if c = ''..'' then butlast acc else acc @ [c])"

definition join_abs :: "bool \<Rightarrow> string list \<Rightarrow> string \<Rightarrow> string list" where
  "join_abs win dir rel = foldl abs_step dir (split_path win rel)"

definition rel_step :: "string list \<Rightarrow> string \<Rightarrow> string list" where
  "rel_step acc c =
     (if c = [] \<or> c = ''.'' then acc
      else if c = ''..'' \<and> acc \<noteq> [] \<and> last acc \<noteq> ''..'' then butlast acc
      else acc @ [c])"

text \<open>\<^verbatim>\<open>filepath.Dir(rel)\<close> is the dot.\<close>

definition at_top :: "bool \<Rightarrow> string \<Rightarrow> bool" where
  "at_top win rel =
     (let ps = butlast (split_path win rel) in (ps = [] \<or> hd ps \<noteq> []) \<and> foldl rel_step [] ps = [])"

definition inside :: "string list \<Rightarrow> string list \<Rightarrow> bool" where
  "inside dir p \<longleftrightarrow> length dir < length p \<and> take (length dir) p = dir"

definition maxMember :: nat where "maxMember = 256 * 2 ^ 20"

definition member_rel :: "string \<Rightarrow> zip_member \<Rightarrow> string" where
  "member_rel prefix f = trim_prefix ''/'' (trim_prefix prefix (MName f))"

text \<open>The loop over the members: \<open>ok i\<close> says that the system calls for the \<open>i\<close>-th one succeed.  The result is whether it
  went through, the files written, and the names at the top.\<close>

fun unpack_loop :: "bool \<Rightarrow> string list \<Rightarrow> string \<Rightarrow> (nat \<Rightarrow> bool) \<Rightarrow> nat \<Rightarrow> zip_member list \<Rightarrow>
    bool \<times> (string list \<times> string) list \<times> string list" where
  "unpack_loop win dir prefix ok i [] = (True, [], [])"
| "unpack_loop win dir prefix ok i (f # fs) =
     (let rel = member_rel prefix f; dest = join_abs win dir rel
      in if rel = [] then unpack_loop win dir prefix ok (i + 1) fs
         else if \<not> inside dir dest then (False, [], [])
         else if \<not> ok i then (False, if MIsDir f then [] else [(dest, [])], [])
         else if MIsDir f then unpack_loop win dir prefix ok (i + 1) fs
         else let (whole, ws, ns) = unpack_loop win dir prefix ok (i + 1) fs
              in (whole, (dest, take maxMember (MContent f)) # ws, if at_top win rel then rel # ns else ns))"

text \<open>A bundle: the files below its directory, under their names as the file system compares them.\<close>

type_synonym bundle_files = "string list \<Rightarrow> string option"

definition bundle_of :: "(string \<Rightarrow> string) \<Rightarrow> string list \<Rightarrow> (string list \<times> string) list \<Rightarrow> bundle_files" where
  "bundle_of folded dir ws = foldl (\<lambda>b (p, c). b(map folded (drop (length dir) p) := Some c)) (\<lambda>_. None) ws"

record install_env =
  in_case :: case_table
  in_win :: bool
  in_folded :: "string \<Rightarrow> string"
  in_join :: "string \<Rightarrow> string \<Rightarrow> string"
  in_unzip :: "string \<Rightarrow> zip_member list option"
  in_clear_ok :: bool
  in_ok :: "nat \<Rightarrow> bool"
  in_remove_ok :: bool

definition installZipFiles :: "install_env \<Rightarrow> string list \<Rightarrow> zip_member list \<Rightarrow> bundle_files option" where
  "installZipFiles e dir files =
     (if \<not> in_clear_ok e then None
      else let (ok, ws, names) = unpack_loop (in_win e) dir (commonPrefix files) (in_ok e) 0 files;
               b = bundle_of (in_folded e) dir ws
           in if \<not> ok then None
              else if Discover (in_case e) (in_join e) [] names = [] then None
              else if b (map (in_folded e) [''bin'', ''winws.exe'']) = None then None
              else Some (if in_remove_ok e then b(map (in_folded e) [''utils'', ''check_updates.enabled''] := None) else b))"

definition InstallFromArchive :: "install_env \<Rightarrow> string list \<Rightarrow> string \<Rightarrow> bundle_files option" where
  "InstallFromArchive e dir data =
     (case in_unzip e data of None \<Rightarrow> None | Some files \<Rightarrow> installZipFiles e dir files)"

section \<open>The swap\<close>

definition nodeCacheFile :: string where "nodeCacheFile = ''tenebra-node-addresses.json''"

definition userFiles :: "string list list" where
  "userFiles =
     [[''lists'', ''list-general-user.txt''], [''lists'', ''list-exclude-user.txt''],
      [''lists'', excludeFile], [''lists'', nodeCacheFile]]"

text \<open>How copying one file of the user's goes: through, not at all, or only in part.\<close>

datatype carry_answer = Carried | Not_carried | Carried_part string

definition carry_one :: "(string \<Rightarrow> string) \<Rightarrow> (string list \<Rightarrow> carry_answer) \<Rightarrow> bundle_files \<Rightarrow> string list \<Rightarrow> bundle_files \<Rightarrow> bundle_files" where
  "carry_one folded how old p b =
     (case old (map folded p) of
        None \<Rightarrow> b
      | Some c \<Rightarrow>
          (case how p of
             Carried \<Rightarrow> b(map folded p := Some c)
           | Not_carried \<Rightarrow> b
           | Carried_part c' \<Rightarrow> b(map folded p := Some c')))"

definition carryUserFiles :: "(string \<Rightarrow> string) \<Rightarrow> (string list \<Rightarrow> carry_answer) \<Rightarrow> bundle_files option \<Rightarrow> bundle_files \<Rightarrow> bundle_files" where
  "carryUserFiles folded how old new =
     (case old of None \<Rightarrow> new | Some o' \<Rightarrow> fold (carry_one folded how o') userFiles new)"

text \<open>The three directories: the installed bundle, the previous one and the staged one.\<close>

record bundle_dirs =
  bd_live :: "bundle_files option"
  bd_old :: "bundle_files option"
  bd_new :: "bundle_files option"

record swap_answer =
  sw_clear :: bool
  sw_stat :: bool
  sw_aside :: bool
  sw_into :: bool
  sw_back :: bool
  sw_clear_after :: bool

definition swap :: "swap_answer \<Rightarrow> bundle_dirs \<Rightarrow> bool \<times> bundle_dirs" where
  "swap a d0 =
     (let d = (if sw_clear a then d0\<lparr>bd_old := None\<rparr> else d0)
      in if bd_live d \<noteq> None \<and> sw_stat a \<and> \<not> (sw_aside a \<and> bd_old d = None) then (False, d)
         else let d = (if bd_live d \<noteq> None \<and> sw_stat a then d\<lparr>bd_live := None, bd_old := bd_live d\<rparr> else d)
              in if \<not> (sw_into a \<and> bd_live d = None)
                 then (False, if sw_back a \<and> bd_old d \<noteq> None \<and> bd_live d = None
                              then d\<lparr>bd_live := bd_old d, bd_old := None\<rparr> else d)
                 else let d = d\<lparr>bd_live := bd_new d, bd_new := None\<rparr>
                      in (True, if sw_clear_after a then d\<lparr>bd_old := None\<rparr> else d))"

record apply_env =
  ap_install :: install_env
  ap_sha :: "string \<Rightarrow> string"
  ap_exchange :: exchange
  ap_staging :: "string list"
  ap_carry :: "string list \<Rightarrow> carry_answer"
  ap_version_ok :: bool
  ap_swap :: swap_answer
  ap_cleanup :: bool

text \<open>\<^verbatim>\<open>WriteVersion\<close> into the staged bundle; an empty version writes nothing.\<close>

definition WriteVersion :: "(string \<Rightarrow> string) \<Rightarrow> bool \<Rightarrow> string \<Rightarrow> bundle_files \<Rightarrow> bool \<times> bundle_files" where
  "WriteVersion folded ok version0 b =
     (let version = trim_space version0
      in if version = [] then (True, b)
         else if ok then (True, b(map folded [versionFile] := Some (version @ [CHR 0x0A]))) else (False, b))"

text \<open>What is left in the staging directory is removed at the end, if that works.\<close>

definition cleanup :: "apply_env \<Rightarrow> bundle_dirs \<Rightarrow> bundle_dirs" where
  "cleanup e d = (if ap_cleanup e then d\<lparr>bd_new := None\<rparr> else d)"

definition Apply :: "apply_env \<Rightarrow> release \<Rightarrow> bundle_dirs \<Rightarrow> update_error option \<times> bundle_dirs" where
  "Apply e rel d =
     (let i = ap_install e; u = in_case i
      in if ArchiveURL rel = [] then (Some Update_failed, d)
         else if \<not> checkArchiveURL u (ArchiveURL rel) then (Some Integrity, d)
         else case expectedArchiveSum u rel of
                Inl err \<Rightarrow> (Some err, d)
              | Inr wantSum \<Rightarrow>
                  (case download u (ap_sha e) (ap_exchange e) rel wantSum of
                     Inl err \<Rightarrow> (Some err, d)
                   | Inr archive \<Rightarrow>
                       (case InstallFromArchive i (ap_staging e) archive of
                          None \<Rightarrow> (Some Update_failed, cleanup e d)
                        | Some b \<Rightarrow>
                            let (ok, b) = WriteVersion (in_folded i) (ap_version_ok e) (Version rel)
                                            (carryUserFiles (in_folded i) (ap_carry e) (bd_live d) b);
                                d = d\<lparr>bd_new := Some b\<rparr>
                            in if \<not> ok then (Some Update_failed, cleanup e d)
                               else let (swapped, d) = swap (ap_swap e) d
                                    in (if swapped then None else Some Update_failed, cleanup e d))))"

section \<open>What an update promises\<close>

text \<open>Unpacking never writes outside the directory it was given, whatever the names in the archive, on either kind of
  file system, and whether it goes through or stops half-way.\<close>

theorem unpacking_stays_inside:
  "\<forall>(p, c)\<in>set (fst (snd (unpack_loop win dir prefix ok i files))). inside dir p \<and> length c \<le> maxMember"
proof (induction files arbitrary: i)
  case (Cons f fs)
  from Cons.IH [of "i + 1"] show ?case by (auto simp: Let_def split_beta)
qed simp

lemma follow_checked:
  "follow u n hops = None \<Longrightarrow> (\<forall>h\<in>set hops. checkArchiveURL u h) \<and> (n \<le> 10 \<longrightarrow> length hops \<le> 10 - n)"
  by (induction u n hops rule: follow.induct) (auto split: if_splits)

lemma download_verified:
  assumes "download u sha x rel want = Inr body"
  shows "sha body = want \<and> int (length body) = RelSize rel \<and> (\<forall>h\<in>set (ex_hops x). checkArchiveURL u h) \<and>
    length (ex_hops x) \<le> 9 \<and> (\<exists>broken. ex_response x = Some (200, body, broken))"
proof -
  from assms obtain body0 where r: "follow u 1 (ex_hops x) = None" "ex_response x = Some (200, body0, False)"
    "body = take (nat maxArchiveBytes) body0" "int (length body) < maxArchiveBytes"
    "verifyArchive (int (length body)) rel want (sha body) = None"
    by (auto simp: download_def Let_def split: if_splits option.splits)
  then have "body = body0" by (auto simp: min_def split: if_splits)
  with r follow_checked [OF r(1)] show ?thesis by (auto simp: verifyArchive_def split: if_splits)
qed

lemma carry_other:
  assumes "k \<notin> set (map (map folded) userFiles)"
  shows "carryUserFiles folded how old new k = new k"
proof -
  have "fold (carry_one folded how o') ps new k = new k" if "k \<notin> set (map (map folded) ps)" for o' ps new
    using that
  proof (induction ps arbitrary: new)
    case (Cons p ps)
    then show ?case
      by (auto simp: carry_one_def split: option.splits carry_answer.splits)
  qed simp
  with assms show ?thesis by (simp add: carryUserFiles_def split: option.splits)
qed

text \<open>Where an installed bundle came from.\<close>

definition vouched_for :: "apply_env \<Rightarrow> release \<Rightarrow> bundle_files \<Rightarrow> bool" where
  "vouched_for e rel b \<longleftrightarrow>
     (\<exists>archive unpacked.
        PinnedSum (Version rel) \<noteq> [] \<and> ap_sha e archive = PinnedSum (Version rel) \<and>
        int (length archive) = RelSize rel \<and>
        (\<exists>broken. ex_response (ap_exchange e) = Some (200, archive, broken)) \<and>
        checkArchiveURL (in_case (ap_install e)) (ArchiveURL rel) \<and>
        (\<forall>h\<in>set (ex_hops (ap_exchange e)). checkArchiveURL (in_case (ap_install e)) h) \<and>
        InstallFromArchive (ap_install e) (ap_staging e) archive = Some unpacked \<and>
        (\<forall>k. k \<notin> set (map (map (in_folded (ap_install e))) ([versionFile] # userFiles)) \<longrightarrow> b k = unpacked k))"

lemma swap_live:
  assumes "swap a d = (ok, d')"
  shows "if ok then bd_live d' = bd_new d
    else bd_live d' = bd_live d \<or> bd_live d' = None \<and> bd_old d' = bd_live d \<or> bd_live d = None \<and> bd_live d' = bd_old d"
  using assms by (cases d) (auto simp: swap_def Let_def split: if_splits)

lemma Apply_cases:
  assumes "Apply e rel d = (res, d')"
  obtains (early) "res \<noteq> None" "bd_live d' = bd_live d" "bd_old d' = bd_old d"
  | (swapped) archive unpacked b ok d1 where
      "PinnedSum (Version rel) \<noteq> []" "download (in_case (ap_install e)) (ap_sha e) (ap_exchange e) rel (PinnedSum (Version rel)) = Inr archive"
      "checkArchiveURL (in_case (ap_install e)) (ArchiveURL rel)"
      "InstallFromArchive (ap_install e) (ap_staging e) archive = Some unpacked"
      "WriteVersion (in_folded (ap_install e)) (ap_version_ok e) (Version rel)
         (carryUserFiles (in_folded (ap_install e)) (ap_carry e) (bd_live d) unpacked) = (True, b)"
      "swap (ap_swap e) (d\<lparr>bd_new := Some b\<rparr>) = (ok, d1)" "res = (if ok then None else Some Update_failed)"
      "d' = cleanup e d1"
proof -
  let ?i = "ap_install e" and ?u = "in_case (ap_install e)"
  have clean: "bd_live (cleanup e x) = bd_live x" "bd_old (cleanup e x) = bd_old x" for x
    by (simp_all add: cleanup_def)
  show ?thesis
  proof (cases "ArchiveURL rel = [] \<or> \<not> checkArchiveURL ?u (ArchiveURL rel)")
    case True
    with assms show ?thesis by (intro early) (auto simp: Apply_def Let_def split: if_splits)
  next
    case url: False
    show ?thesis
    proof (cases "expectedArchiveSum ?u rel")
      case (Inl err)
      with assms url show ?thesis by (intro early) (auto simp: Apply_def Let_def)
    next
      case (Inr want)
      then have want: "want = PinnedSum (Version rel)" "PinnedSum (Version rel) \<noteq> []"
        by (auto simp: expectedArchiveSum_def Let_def split: if_splits)
      show ?thesis
      proof (cases "download ?u (ap_sha e) (ap_exchange e) rel want")
        case (Inl err)
        with assms url Inr show ?thesis by (intro early) (auto simp: Apply_def Let_def)
      next
        case dl: (Inr archive)
        show ?thesis
        proof (cases "InstallFromArchive ?i (ap_staging e) archive")
          case None
          with assms url Inr dl show ?thesis by (intro early) (auto simp: Apply_def Let_def clean)
        next
          case (Some unpacked)
          obtain okv b where wv: "WriteVersion (in_folded ?i) (ap_version_ok e) (Version rel)
              (carryUserFiles (in_folded ?i) (ap_carry e) (bd_live d) unpacked) = (okv, b)" by (metis prod.collapse)
          obtain ok d1 where sw: "swap (ap_swap e) (d\<lparr>bd_new := Some b\<rparr>) = (ok, d1)" by (metis prod.collapse)
          show ?thesis
          proof (cases okv)
            case False
            with assms url Inr dl Some wv show ?thesis by (intro early) (auto simp: Apply_def Let_def clean)
          next
            case True
            with assms url Inr dl Some wv sw have "res = (if ok then None else Some Update_failed)" "d' = cleanup e d1"
              by (auto simp: Apply_def Let_def)
            with True url dl Some wv sw want show ?thesis by (intro swapped) auto
          qed
        qed
      qed
    qed
  qed
qed

lemma WriteVersion_other:
  "WriteVersion folded ok v b = (True, b') \<Longrightarrow> k \<noteq> map folded [versionFile] \<Longrightarrow> b' k = b k"
  by (auto simp: WriteVersion_def Let_def split: if_splits)

text \<open>An update that succeeds has installed the unpacked content of an archive whose SHA-256 is the one compiled in for
  that version and whose length is the published one, fetched over https from the allowed hosts only, at most nine
  redirects included; beside the archive's own files there are only the version mark and the user's.  An update that
  fails leaves the installed bundle in place, or, where even putting it back failed, set aside under its other name.\<close>

theorem only_vouched_bundles_installed:
  assumes "Apply e rel d = (res, d')"
  shows "(res = None \<longrightarrow> (\<exists>b. bd_live d' = Some b \<and> vouched_for e rel b \<and> length (ex_hops (ap_exchange e)) \<le> 9)) \<and>
    (res \<noteq> None \<longrightarrow> bd_live d' = bd_live d \<or> bd_live d' = None \<and> bd_old d' = bd_live d \<or>
       bd_live d = None \<and> bd_live d' = bd_old d)"
  using assms
proof (cases rule: Apply_cases)
  case early
  then show ?thesis by auto
next
  case (swapped archive unpacked b ok d1)
  have "vouched_for e rel b"
    unfolding vouched_for_def
  proof (intro exI [of _ archive] exI [of _ unpacked] conjI)
    show "\<forall>k. k \<notin> set (map (map (in_folded (ap_install e))) ([versionFile] # userFiles)) \<longrightarrow> b k = unpacked k"
    proof (intro allI impI)
      fix k assume k: "k \<notin> set (map (map (in_folded (ap_install e))) ([versionFile] # userFiles))"
      then have "b k = carryUserFiles (in_folded (ap_install e)) (ap_carry e) (bd_live d) unpacked k"
        by (intro WriteVersion_other [OF swapped(5)]) simp
      moreover from k have "k \<notin> set (map (map (in_folded (ap_install e))) userFiles)" by simp
      ultimately show "b k = unpacked k" by (simp add: carry_other)
    qed
  qed (use swapped(1-4) download_verified [OF swapped(2)] in simp_all)
  moreover have "bd_live (cleanup e d1) = bd_live d1" "bd_old (cleanup e d1) = bd_old d1"
    by (simp_all add: cleanup_def)
  ultimately show ?thesis
    using swapped(7,8) swap_live [OF swapped(6)] download_verified [OF swapped(2)] by (cases ok) simp_all
qed

text \<open>Versions are compared as numbers, and an update never goes back: of two marked versions at most one is newer than
  the other.\<close>

lemma newer_parts_asym: "newer_parts a b \<Longrightarrow> \<not> newer_parts b a"
  by (induction a b rule: newer_parts.induct) (auto split: if_splits)

lemma Newer_asym: "Newer a b \<Longrightarrow> trim_space a \<noteq> [] \<Longrightarrow> \<not> Newer b a"
  by (auto simp: Newer_def newer_parts_asym split: if_splits)

section \<open>An update\<close>

text \<open>An archive of two members, and a member that tries to climb out of the directory; the hash is the pinned one for the
  archive and nothing otherwise.\<close>

definition ex_members :: "zip_member list" where
  "ex_members =
     [\<lparr>MName = ''z/general.bat'', MIsDir = False, MContent = ''start''\<rparr>,
      \<lparr>MName = ''z/bin/winws.exe'', MIsDir = False, MContent = ''MZ''\<rparr>]"

definition ex_climbing :: zip_member where
  "ex_climbing = \<lparr>MName = ''z/../../evil.bat'', MIsDir = False, MContent = ''x''\<rparr>"

definition ex_install :: install_env where
  "ex_install = \<lparr>in_case = \<lambda>s. s, in_win = True, in_folded = map ascii_lower, in_join = \<lambda>_ n. n,
     in_unzip = \<lambda>d. if d = ''PK'' then Some ex_members else None, in_clear_ok = True, in_ok = \<lambda>_. True, in_remove_ok = True\<rparr>"

definition ex_release :: release where
  "ex_release = \<lparr>Version = ''v1.10.2'', ArchiveURL = ''https://github.com/z.zip'', RelSize = 2, SHA256 = []\<rparr>"

definition ex_apply :: apply_env where
  "ex_apply = \<lparr>ap_install = ex_install, ap_sha = \<lambda>d. if d = ''PK'' then PinnedSum ''1.10.2'' else [],
     ap_exchange = \<lparr>ex_hops = [], ex_response = Some (200, ''PK'', False)\<rparr>, ap_staging = [''zapret.new''],
     ap_carry = \<lambda>_. Carried, ap_version_ok = True,
     ap_swap = \<lparr>sw_clear = True, sw_stat = True, sw_aside = True, sw_into = True, sw_back = True, sw_clear_after = True\<rparr>,
     ap_cleanup = True\<rparr>"

lemma ex_url: "checkArchiveURL (\<lambda>s. s) ''https://github.com/z.zip''"
  by code_simp

lemma ex_sum: "PinnedSum ''v1.10.2'' = PinnedSum ''1.10.2''" "PinnedSum ''1.10.2'' \<noteq> []"
  by code_simp+

lemma ex_unpack: "InstallFromArchive ex_install [''zapret.new''] ''PK'' \<noteq> None"
proof -
  have "unpack_loop True [''zapret.new''] (commonPrefix ex_members) (\<lambda>_. True) 0 ex_members =
      (True, [([''zapret.new'', ''general.bat''], ''start''), ([''zapret.new'', ''bin'', ''winws.exe''], ''MZ'')], [''general.bat''])"
    by (simp add: ex_members_def commonPrefix_def trim_prefix_def has_prefix_def index_byte_def member_rel_def join_abs_def
        inside_def abs_step_def at_top_def rel_step_def maxMember_def Let_def)
  moreover have "Discover (\<lambda>s. s) (\<lambda>_ n. n) [] [''general.bat''] \<noteq> []"
    by code_simp
  ultimately show ?thesis
    by (simp add: InstallFromArchive_def ex_install_def installZipFiles_def bundle_of_def Let_def)
qed

lemma ex_apply_succeeds: "fst (Apply ex_apply ex_release \<lparr>bd_live = None, bd_old = None, bd_new = None\<rparr>) = None"
proof -
  obtain b where b: "InstallFromArchive ex_install [''zapret.new''] ''PK'' = Some b" using ex_unpack by blast
  have "expectedArchiveSum (\<lambda>s. s) ex_release = Inr (PinnedSum ''1.10.2'')"
  proof -
    have "normalizeSum (\<lambda>s. s) [] = []" by code_simp
    with ex_sum show ?thesis by (simp add: expectedArchiveSum_def ex_release_def Let_def)
  qed
  moreover have "download (\<lambda>s. s) (ap_sha ex_apply) (ap_exchange ex_apply) ex_release (PinnedSum ''1.10.2'') = Inr ''PK''"
    by (simp add: download_def ex_release_def ex_apply_def maxArchiveBytes_def verifyArchive_def)
  moreover have "trim_space ''v1.10.2'' = ''v1.10.2''" by code_simp
  ultimately show ?thesis
    using b ex_url
    by (simp add: Apply_def ex_apply_def ex_install_def ex_release_def Let_def WriteVersion_def swap_def carryUserFiles_def)
qed

theorem only_vouched_bundles_installed_witness:
  "\<exists>b. bd_live (snd (Apply ex_apply ex_release \<lparr>bd_live = None, bd_old = None, bd_new = None\<rparr>)) = Some b \<and>
     vouched_for ex_apply ex_release b"
  using only_vouched_bundles_installed [OF surjective_pairing,
      of ex_apply ex_release "\<lparr>bd_live = None, bd_old = None, bd_new = None\<rparr>"] ex_apply_succeeds
  by blast

theorem unpacking_stays_inside_witness:
  "\<not> fst (unpack_loop True [''zapret.new''] ''z'' (\<lambda>_. True) 0 (ex_members @ [ex_climbing])) \<and>
   (\<forall>(p, c)\<in>set (fst (snd (unpack_loop True [''zapret.new''] ''z'' (\<lambda>_. True) 0 (ex_members @ [ex_climbing])))).
      inside [''zapret.new''] p)"
proof
  show "\<not> fst (unpack_loop True [''zapret.new''] ''z'' (\<lambda>_. True) 0 (ex_members @ [ex_climbing]))"
    by (simp add: ex_members_def ex_climbing_def trim_prefix_def has_prefix_def member_rel_def join_abs_def
        inside_def abs_step_def maxMember_def Let_def)
qed (use unpacking_stays_inside in fastforce)

end
