(* ===== verification/Bypass.thy ===== *)
theory Bypass
  imports Bypass_Update Settings_Commands
begin

text \<open>
  The daemon's side of the DPI bypass (\<^verbatim>\<open>core/control/zapret.go\<close>, \<^verbatim>\<open>zapret_connect_budget.go\<close>,
  \<^verbatim>\<open>zapret_update.go\<close>, \<^verbatim>\<open>bypassverify.go\<close>): the switch and the commands around it, the automatic raises, checking that
  the bypass carries video, measuring again, and updating the bundle.

  The state is the daemon's settings, the filter that is attached, the strategy remembered for each network, the
  trace and the bundle's directories.  What the directory listing, the host lists,
  the runner, the updater and other operations holding the lock answer is in \<open>bypass_answers\<close>; each critical section
  under the lock of the bypass operations is one step, and what a goroutine does after it let go of that lock is
  another.  The trace keeps the order in which the exclusion list is written and filters are launched.  Log lines and
  progress events are left out.
\<close>

text \<open>Servers handed to the exclusion list, and strategies of which a call may launch any.\<close>

datatype bypass_op = Excluded "string list" | Launch "bypass_strategy list"

record 'b bypass =
  bp_daemon :: "'b daemon_settings"
  bp_winws :: "bypass_strategy option"
  bp_networks :: "(string \<times> string) list"
  bp_trace :: "bypass_op list"
  bp_dirs :: bundle_dirs

text \<open>\<open>ba_network\<close> is nothing where the platform cannot name networks; \<open>ba_seen_off\<close> is what the switch said before the
  lock was waited for, \<open>ba_lock\<close> whether it was had in time; \<open>ba_names\<close> is the listing of the bundle's directory and
  \<open>ba_names_after\<close> the one after an installation.\<close>

record 'b bypass_answers =
  ba_env :: "'b settings_env"
  ba_network :: "string option"
  ba_seen_off :: bool
  ba_lock :: bool
  ba_names :: "string list option"
  ba_names_after :: "string list option"
  ba_dir :: string
  ba_join :: "string \<Rightarrow> string \<Rightarrow> string"
  ba_hostlists :: "string \<Rightarrow> string option"
  ba_stop :: stop_answer
  ba_start :: start_answer
  ba_pick :: pick_world
  ba_targets :: nat
  ba_embed :: bool
  ba_latest :: "update_error + release"
  ba_version :: string
  ba_apply :: apply_env

section \<open>Small steps\<close>

abbreviation ba_case :: "'b bypass_answers \<Rightarrow> case_table" where
  "ba_case a \<equiv> se_case (ba_env a)"

definition strategies_of :: "'b bypass_answers \<Rightarrow> string list option \<Rightarrow> bypass_strategy list" where
  "strategies_of a names =
     (case names of None \<Rightarrow> [] | Some ns \<Rightarrow> Discover (ba_case a) (ba_join a) (ba_dir a) ns)"

definition by_settings :: "('b daemon_settings \<Rightarrow> 'b daemon_settings) \<Rightarrow> 'b bypass \<Rightarrow> 'b bypass" where
  "by_settings f s = s\<lparr>bp_daemon := f (bp_daemon s)\<rparr>"

definition prefs_of :: "'b bypass \<Rightarrow> prefs" where
  "prefs_of s = ds_prefs (bp_daemon s)"

definition refreshZapretStateLocked :: "'b bypass_answers \<Rightarrow> 'b bypass \<Rightarrow> 'b bypass" where
  "refreshZapretStateLocked a =
     by_settings (\<lambda>d. d\<lparr>ds_reported := applyZapretToStateLocked (se_bundle (ba_env a)) (ds_prefs d) (ds_reported d)\<rparr>)"

definition set_routing :: "(options \<Rightarrow> options) \<Rightarrow> 'b bypass \<Rightarrow> 'b bypass" where
  "set_routing f = by_settings (with_prefs (\<lambda>p. p\<lparr>pf_routing := f (pf_routing p)\<rparr>))"

definition set_active :: "string \<Rightarrow> 'b bypass \<Rightarrow> 'b bypass" where
  "set_active name = by_settings (with_prefs (\<lambda>p. p\<lparr>pf_zapretActive := name\<rparr>))"

definition set_wish :: "bool \<Rightarrow> 'b bypass \<Rightarrow> 'b bypass" where
  "set_wish on = by_settings (with_prefs (\<lambda>p. p\<lparr>pf_zapretWanted := Some on\<rparr>))"

definition persist :: "'b bypass_answers \<Rightarrow> 'b bypass \<Rightarrow> 'b bypass" where
  "persist a = by_settings (persistSettings (ba_env a))"

definition zapretSwitchedOff :: "'b bypass \<Rightarrow> bool" where
  "zapretSwitchedOff s \<longleftrightarrow> pf_zapretWanted (prefs_of s) = Some False"

text \<open>\<^verbatim>\<open>excludeNodesFromZapret\<close>: every server of every stored profile goes to the exclusion list; what comes back is only
  logged.\<close>

definition node_servers :: "'b bypass \<Rightarrow> string list" where
  "node_servers s =
     concat (map (\<lambda>p. map (\<lambda>sv. Server (SrvNode sv)) (Servers p)) (List (ds_profiles (bp_daemon s))))"

definition excludeNodesFromZapret :: "'b bypass \<Rightarrow> 'b bypass" where
  "excludeNodesFromZapret s = s\<lparr>bp_trace := bp_trace s @ [Excluded (node_servers s)]\<rparr>"

definition strategyForThisNetwork :: "'b bypass_answers \<Rightarrow> 'b bypass \<Rightarrow> string option" where
  "strategyForThisNetwork a s =
     (case ba_network a of None \<Rightarrow> None | Some n \<Rightarrow> if n = [] then None else map_of (bp_networks s) n)"

definition net_Set :: "string \<Rightarrow> string \<Rightarrow> (string \<times> string) list \<Rightarrow> (string \<times> string) list" where
  "net_Set n strat m =
     (if n = [] \<or> strat = [] then m else if map_of m n = Some strat then m else cache_put n strat m)"

definition rememberStrategyForThisNetwork :: "'b bypass_answers \<Rightarrow> string \<Rightarrow> 'b bypass \<Rightarrow> 'b bypass" where
  "rememberStrategyForThisNetwork a strat s =
     (case ba_network a of
        None \<Rightarrow> s
      | Some n \<Rightarrow> if strat = [] \<or> n = [] then s else s\<lparr>bp_networks := net_Set n strat (bp_networks s)\<rparr>)"

definition leadWith :: "bypass_strategy list \<Rightarrow> string \<Rightarrow> bypass_strategy list" where
  "leadWith ss name =
     (if name = [] \<or> length ss < 2 then ss
      else case find_index (\<lambda>s. ZName s = name) ss of
             None \<Rightarrow> ss
           | Some i \<Rightarrow> if i = 0 then ss else ss ! i # take i ss @ drop (i + 1) ss)"

definition lead_with_network :: "'b bypass_answers \<Rightarrow> 'b bypass \<Rightarrow> bypass_strategy list \<Rightarrow> bypass_strategy list" where
  "lead_with_network a s ss = (case strategyForThisNetwork a s of None \<Rightarrow> ss | Some n \<Rightarrow> leadWith ss n)"

text \<open>Launching: whether it started, whether it failed.\<close>

definition start_filter :: "'b bypass_answers \<Rightarrow> bypass_strategy \<Rightarrow> 'b bypass \<Rightarrow> bool \<times> bool \<times> 'b bypass" where
  "start_filter a st s =
     (let (started, err, w) = zap_Start (ba_start a) st (bp_winws s) in (started, err, s\<lparr>bp_winws := w, bp_trace := bp_trace s @ [Launch [st]]\<rparr>))"

section \<open>The routing follows\<close>

text \<open>The result says whether a live tunnel is rebuilt.\<close>

definition applyZapretState :: "'b bypass_answers \<Rightarrow> bool \<Rightarrow> string \<Rightarrow> 'b bypass \<Rightarrow> bool \<times> 'b bypass" where
  "applyZapretState a running strat s =
     (let covered = (if running then Covered (ba_case a) (ba_hostlists a) else []);
          s = (if strat \<noteq> [] then set_active strat s else s);
          changed = (ZapretActive (pf_routing (prefs_of s)) \<noteq> running);
          s = set_routing (\<lambda>ro. Normalize (ba_case a) (ro\<lparr>ZapretActive := running, ZapretCovered := covered\<rparr>)) s;
          s = persist a (refreshZapretStateLocked a s)
      in (changed, s))"

definition applyZapretChoice :: "'b bypass_answers \<Rightarrow> bool \<Rightarrow> string \<Rightarrow> 'b bypass \<Rightarrow> bool \<times> 'b bypass" where
  "applyZapretChoice a running strat s = applyZapretState a running strat (set_wish running s)"

definition recordZapretWish :: "'b bypass_answers \<Rightarrow> bool \<Rightarrow> 'b bypass \<Rightarrow> 'b bypass" where
  "recordZapretWish a want s = persist a (set_wish want s)"

section \<open>The switch\<close>

datatype bypass_reply =
    No_bundle
  | No_strategies
  | Not_in_bundle string
  | Runner_failed
  | Not_started string
  | Active string
  | Stopped
  | Strategies "string list"
  | Picked "strategy_result list" nat "string option"
  | Updated_to string string bool bool
  | Update_refused update_error

definition start_named :: "'b bypass_answers \<Rightarrow> bypass_strategy \<Rightarrow> 'b bypass \<Rightarrow> bypass_reply \<times> bool \<times> 'b bypass" where
  "start_named a chosen s =
     (let (started, err, s) = start_filter a chosen (excludeNodesFromZapret s)
      in if err then (Runner_failed, False, s)
         else if \<not> started then (Not_started (ZName chosen), False, s)
         else let (changed, s) = applyZapretChoice a True (ZName chosen) s
              in (Active (ZName chosen), changed, s))"

definition handleStartZapret :: "'b bypass_answers \<Rightarrow> string \<Rightarrow> 'b bypass \<Rightarrow> bypass_reply \<times> bool \<times> 'b bypass" where
  "handleStartZapret a name s =
     (if ba_names a = None then (No_bundle, False, s)
      else let ss = strategies_of a (ba_names a)
           in if ss = [] then (No_strategies, False, s)
              else let want = (if name = [] then pf_zapretActive (prefs_of s) else name)
                   in case (if want = [] then Some (hd ss) else find (\<lambda>x. ZName x = want) ss) of
                        None \<Rightarrow> (Not_in_bundle want, False, s)
                      | Some chosen \<Rightarrow> start_named a chosen s)"

definition handleStopZapret :: "'b bypass_answers \<Rightarrow> 'b bypass \<Rightarrow> bypass_reply \<times> bool \<times> 'b bypass" where
  "handleStopZapret a s =
     (let s = recordZapretWish a False s;
          (err, w) = zap_Stop (ba_stop a) (bp_winws s);
          s = s\<lparr>bp_winws := w\<rparr>
      in if err then (Runner_failed, False, s)
         else let (changed, s) = applyZapretChoice a False [] s in (Stopped, changed, s))"

definition stopZapretQuietly :: "'b bypass_answers \<Rightarrow> 'b bypass \<Rightarrow> 'b bypass" where
  "stopZapretQuietly a s =
     (if ba_names a = None then s else s\<lparr>bp_winws := snd (zap_Stop (ba_stop a) (bp_winws s))\<rparr>)"

definition handleListZapret :: "'b bypass_answers \<Rightarrow> bypass_reply" where
  "handleListZapret a = Strategies (map ZName (strategies_of a (ba_names a)))"

text \<open>The run itself, and what is done with its winner: it is remembered for this network and left running.\<close>

definition runPick :: "'b bypass_answers \<Rightarrow> bypass_strategy list \<Rightarrow> 'b bypass \<Rightarrow> pick_outcome \<times> 'b bypass" where
  "runPick a ss s =
     (let po = Pick True (ba_targets a) (ba_pick a) ss (bp_winws s) in (po, s\<lparr>bp_winws := po_winws po, bp_trace := bp_trace s @ [Launch ss]\<rparr>))"

definition keep_winner :: "'b bypass_answers \<Rightarrow> bypass_strategy \<Rightarrow> 'b bypass \<Rightarrow> bool \<times> 'b bypass" where
  "keep_winner a best s =
     (let (started, err, s) = start_filter a best (rememberStrategyForThisNetwork a (ZName best) s)
      in if err \<or> \<not> started then (False, s) else applyZapretChoice a True (ZName best) s)"

definition handlePickZapret :: "'b bypass_answers \<Rightarrow> 'b bypass \<Rightarrow> bypass_reply \<times> bool \<times> 'b bypass" where
  "handlePickZapret a s =
     (if ba_names a = None then (No_bundle, False, s)
      else if strategies_of a (ba_names a) = [] then (No_strategies, False, s)
      else let (po, s) = runPick a (lead_with_network a s (strategies_of a (ba_names a))) (excludeNodesFromZapret s)
           in if po_err po then (Runner_failed, False, s)
              else case zap_Best (po_results po) (po_baseline po) of
                     None \<Rightarrow> (Picked (zap_Rank (po_results po)) (po_baseline po) None, False, s)
                   | Some best \<Rightarrow>
                       let (changed, s) = keep_winner a (ZStrategy best) s
                       in (Picked (zap_Rank (po_results po)) (po_baseline po) (Some (ZName (ZStrategy best))), changed, s))"

section \<open>The automatic raises\<close>

definition autoStartZapret :: "'b bypass_answers \<Rightarrow> 'b bypass \<Rightarrow> bool \<times> 'b bypass" where
  "autoStartZapret a s =
     (if ba_seen_off a \<or> \<not> ba_lock a \<or> zapretSwitchedOff s then (False, s)
      else let ss = strategies_of a (ba_names a)
           in if ss = [] then (False, s)
              else let want = (case strategyForThisNetwork a s of None \<Rightarrow> pf_zapretActive (prefs_of s) | Some n \<Rightarrow> n);
                       chosen = (case find (\<lambda>x. ZName x = want) ss of None \<Rightarrow> hd ss | Some x \<Rightarrow> x);
                       (started, err, s) = start_filter a chosen (excludeNodesFromZapret s)
                   in if err \<or> \<not> started then (False, s)
                      else (True, persist a (set_routing (\<lambda>ro. Normalize (ba_case a)
                               (ro\<lparr>ZapretCovered := Covered (ba_case a) (ba_hostlists a)\<rparr>)) (set_active (ZName chosen) s))))"

text \<open>The bundle compiled into the program, put down where there is none.\<close>

definition installEmbeddedZapretIfMissing :: "'b bypass_answers \<Rightarrow> 'b bypass \<Rightarrow> 'b bypass" where
  "installEmbeddedZapretIfMissing a s =
     (if strategies_of a (ba_names a) \<noteq> [] \<or> \<not> ba_lock a \<or> \<not> ba_embed a then s
      else refreshZapretStateLocked a s)"

text \<open>A connect raises the bypass under the lock, after the bundle was put down, and sets the routing flag when the lock
  is free again, without another look at the filter.\<close>

definition raiseZapretForConnect :: "'b bypass_answers \<Rightarrow> 'b bypass \<Rightarrow> bool \<times> 'b bypass" where
  "raiseZapretForConnect a s = autoStartZapret (a\<lparr>ba_names := ba_names_after a\<rparr>) s"

definition connect_flag :: "'b bypass_answers \<Rightarrow> bool \<Rightarrow> 'b bypass \<Rightarrow> 'b bypass" where
  "connect_flag a up s =
     refreshZapretStateLocked a
       (set_routing (\<lambda>ro. ro\<lparr>ZapretActive := up, ZapretCovered := (if up then ZapretCovered ro else [])\<rparr>) s)"

text \<open>The raise at the daemon's start; where it comes up, \<^verbatim>\<open>applyZapretState\<close> follows, after the lock.\<close>

definition raiseZapretOnStart :: "'b bypass_answers \<Rightarrow> 'b bypass \<Rightarrow> bool \<times> 'b bypass" where
  "raiseZapretOnStart a s =
     (if pf_zapretWanted (prefs_of s) \<noteq> Some True \<or> ZapretActive (pf_routing (prefs_of s)) then (False, s)
      else autoStartZapret a s)"

section \<open>Does it carry video\<close>

definition bypassVerifyAttempts :: nat where "bypassVerifyAttempts = 2"

definition bypassCarriesEvery :: "bool list \<Rightarrow> bool" where
  "bypassCarriesEvery answers \<longleftrightarrow> answers \<noteq> [] \<and> list_all (\<lambda>x. x) answers"

text \<open>The attempts: \<open>gone i\<close> says that the connection is not the current one any more before the \<open>i\<close>-th of them.\<close>

fun verify_attempts :: "(nat \<Rightarrow> bool) \<Rightarrow> (nat \<Rightarrow> bool list) \<Rightarrow> nat \<Rightarrow> nat \<Rightarrow> bool" where
  "verify_attempts gone answers i 0 = (\<not> gone i)"
| "verify_attempts gone answers i (Suc n) =
     (if gone i \<or> bypassCarriesEvery (answers i) then False else verify_attempts gone answers (i + 1) n)"

definition fallBackToTunnel :: "'b bypass_answers \<Rightarrow> 'b bypass \<Rightarrow> 'b bypass" where
  "fallBackToTunnel a s =
     (let already = (\<not> ZapretActive (pf_routing (prefs_of s)));
          s = refreshZapretStateLocked a (set_routing (\<lambda>ro. ro\<lparr>ZapretActive := False, ZapretCovered := []\<rparr>) s)
      in if already then s else persist a s)"

text \<open>The look at the flag after the wait, and what the attempts come to.\<close>

definition verify_due :: "bool \<Rightarrow> 'b bypass \<Rightarrow> bool" where
  "verify_due gone s \<longleftrightarrow> \<not> gone \<and> ZapretActive (pf_routing (prefs_of s))"

definition verifyBypass :: "'b bypass_answers \<Rightarrow> (nat \<Rightarrow> bool) \<Rightarrow> (nat \<Rightarrow> bool list) \<Rightarrow> 'b bypass \<Rightarrow> bool \<times> 'b bypass" where
  "verifyBypass a gone answers s =
     (if verify_attempts gone answers 0 bypassVerifyAttempts then (True, fallBackToTunnel a s) else (False, s))"

text \<open>Measuring again takes the lock twice, to measure and to start what won, and sets the flag after that.\<close>

definition repick_measure :: "'b bypass_answers \<Rightarrow> bool \<Rightarrow> 'b bypass \<Rightarrow> bypass_strategy option \<times> 'b bypass" where
  "repick_measure a gone s =
     (let ss = lead_with_network a s (strategies_of a (ba_names a))
      in if ss = [] then (None, s)
         else let (po, s) = runPick a ss s
              in if po_err po \<or> gone then (None, s)
                 else case zap_Best (po_results po) (po_baseline po) of
                        None \<Rightarrow> (None, s)
                      | Some best \<Rightarrow> (Some (ZStrategy best), rememberStrategyForThisNetwork a (ZName (ZStrategy best)) s))"

definition repick_start :: "'b bypass_answers \<Rightarrow> bool \<Rightarrow> bypass_strategy \<Rightarrow> 'b bypass \<Rightarrow> bool \<times> 'b bypass" where
  "repick_start a gone best s =
     (let (started, err, s) = start_filter a best s in (\<not> err \<and> started \<and> \<not> gone, s))"

definition repick_flag :: "'b bypass_answers \<Rightarrow> bypass_strategy \<Rightarrow> 'b bypass \<Rightarrow> 'b bypass" where
  "repick_flag a best s =
     persist a (refreshZapretStateLocked a
       (set_routing (\<lambda>ro. ro\<lparr>ZapretActive := True, ZapretCovered := Covered (ba_case a) (ba_hostlists a)\<rparr>)
         (set_active (ZName best) s)))"

section \<open>Updating the bundle\<close>

definition restartZapretAfterUpdate :: "'b bypass_answers \<Rightarrow> string \<Rightarrow> 'b bypass \<Rightarrow> bool \<times> 'b bypass" where
  "restartZapretAfterUpdate a strat s =
     (let ss = strategies_of a (ba_names_after a)
      in if ss = [] then applyZapretState a False [] s
         else let chosen = (case find (\<lambda>x. ZName x = strat) ss of None \<Rightarrow> hd ss | Some x \<Rightarrow> x);
                  (started, err, s) = start_filter a chosen (excludeNodesFromZapret s)
              in applyZapretState a (\<not> err \<and> started) (ZName chosen) s)"

record 'b update_result =
  ur_from :: string
  ur_to :: string
  ur_updated :: bool
  ur_error :: "update_error option"
  ur_reapply :: bool
  ur_state :: "'b bypass"

definition updateZapret :: "'b bypass_answers \<Rightarrow> 'b bypass \<Rightarrow> 'b update_result" where
  "updateZapret a s =
     (let from' = ba_version a
      in case ba_latest a of
           Inl e \<Rightarrow> \<lparr>ur_from = from', ur_to = [], ur_updated = False, ur_error = Some e, ur_reapply = False, ur_state = s\<rparr>
         | Inr rel \<Rightarrow>
             if \<not> Newer from' (Version rel)
             then \<lparr>ur_from = from', ur_to = Version rel, ur_updated = False, ur_error = None, ur_reapply = False, ur_state = s\<rparr>
             else if PinnedSum (Version rel) = []
             then \<lparr>ur_from = from', ur_to = Version rel, ur_updated = False, ur_error = Some Untrusted, ur_reapply = False, ur_state = s\<rparr>
             else
               let wasRunning = ZapretActive (pf_routing (prefs_of s)); strat = pf_zapretActive (prefs_of s);
                   (stopErr, w) = (if wasRunning then zap_Stop (ba_stop a) (bp_winws s) else (False, bp_winws s));
                   s = s\<lparr>bp_winws := w\<rparr>
               in if stopErr
                  then \<lparr>ur_from = from', ur_to = Version rel, ur_updated = False, ur_error = Some Update_failed, ur_reapply = False, ur_state = s\<rparr>
                  else let (err, dirs) = Apply (ba_apply a) rel (bp_dirs s);
                           s = s\<lparr>bp_dirs := dirs\<rparr>;
                           s = (if err = None then refreshZapretStateLocked a s else s);
                           (reapply, s) = (if wasRunning then restartZapretAfterUpdate a strat s else (False, s))
                       in \<lparr>ur_from = from', ur_to = Version rel, ur_updated = (err = None), ur_error = err,
                           ur_reapply = reapply, ur_state = s\<rparr>)"

definition handleUpdateZapret :: "'b bypass_answers \<Rightarrow> 'b bypass \<Rightarrow> bypass_reply \<times> bool \<times> 'b bypass" where
  "handleUpdateZapret a s =
     (let r = updateZapret a s
      in (case ur_error r of
            None \<Rightarrow> Updated_to (ur_from r) (ur_to r) (ur_updated r) False
          | Some Untrusted \<Rightarrow> Updated_to (ur_from r) (ur_to r) (ur_updated r) True
          | Some e \<Rightarrow> Update_refused e,
          ur_reapply r, ur_state r))"

definition handleSetZapretAutoUpdate :: "'b bypass_answers \<Rightarrow> bool \<Rightarrow> 'b bypass \<Rightarrow> 'b bypass" where
  "handleSetZapretAutoUpdate a on s =
     persist a (refreshZapretStateLocked a (by_settings (with_prefs (\<lambda>p. p\<lparr>pf_zapretAutoUpdate := on\<rparr>)) s))"

text \<open>One round of the background updates.\<close>

definition auto_update :: "'b bypass_answers \<Rightarrow> 'b bypass \<Rightarrow> 'b bypass" where
  "auto_update a s = (if pf_zapretAutoUpdate (prefs_of s) then ur_state (updateZapret a s) else s)"

section \<open>What the daemon does on its own\<close>

text \<open>
  What a goroutine has still to do: set the flag after a raise, look at the flag and probe, act on the probes, measure
  again, start what won, set the flag behind it.
\<close>

datatype bypass_parked =
    Connect_flag bool
  | Start_flag
  | Verifying
  | Probing
  | Measuring
  | Restarting bypass_strategy
  | Reporting bypass_strategy

text \<open>What the goroutine is told when it goes on: whether its connection is gone, before each attempt and at the end, and
  what the probes say.\<close>

record resume_answers =
  rs_gone :: bool
  rs_gone_at :: "nat \<Rightarrow> bool"
  rs_probes :: "nat \<Rightarrow> bool list"

fun resume :: "'b bypass_answers \<Rightarrow> resume_answers \<Rightarrow> bypass_parked \<Rightarrow> 'b bypass \<Rightarrow> 'b bypass \<times> bypass_parked list" where
  "resume a r (Connect_flag up) s = (connect_flag a up s, [])"
| "resume a r Start_flag s = (snd (applyZapretState a True [] s), [])"
| "resume a r Verifying s = (s, if verify_due (rs_gone r) s then [Probing] else [])"
| "resume a r Probing s =
     (let (failed, s) = verifyBypass a (rs_gone_at r) (rs_probes r) s in (s, if failed then [Measuring] else []))"
| "resume a r Measuring s =
     (let (won, s) = repick_measure a (rs_gone r) s in (s, case won of None \<Rightarrow> [] | Some best \<Rightarrow> [Restarting best]))"
| "resume a r (Restarting best) s =
     (let (ok, s) = repick_start a (rs_gone r) best s in (s, if ok then [Reporting best] else []))"
| "resume a r (Reporting best) s = (repick_flag a best s, [])"

text \<open>The commands of the user, what the daemon begins on its own, and a parked goroutine going on.\<close>

datatype 'b bypass_event =
    Start_cmd "'b bypass_answers" string
  | Stop_cmd "'b bypass_answers"
  | Pick_cmd "'b bypass_answers"
  | Update_cmd "'b bypass_answers"
  | Arm_updates "'b bypass_answers" bool
  | Put_embedded "'b bypass_answers"
  | For_connect "'b bypass_answers"
  | At_start "'b bypass_answers"
  | Verify_begins
  | Auto_update "'b bypass_answers"
  | Goes_on nat "'b bypass_answers" resume_answers

type_synonym 'b bypass_run = "'b bypass \<times> bypass_parked list"

fun bypass_step :: "'b bypass_event \<Rightarrow> 'b bypass_run \<Rightarrow> 'b bypass_run" where
  "bypass_step (Start_cmd a name) (s, ps) = (snd (snd (handleStartZapret a name s)), ps)"
| "bypass_step (Stop_cmd a) (s, ps) = (snd (snd (handleStopZapret a s)), ps)"
| "bypass_step (Pick_cmd a) (s, ps) = (snd (snd (handlePickZapret a s)), ps)"
| "bypass_step (Update_cmd a) (s, ps) = (snd (snd (handleUpdateZapret a s)), ps)"
| "bypass_step (Arm_updates a on) (s, ps) = (handleSetZapretAutoUpdate a on s, ps)"
| "bypass_step (Put_embedded a) (s, ps) = (installEmbeddedZapretIfMissing a s, ps)"
| "bypass_step (For_connect a) (s, ps) = (let (up, s) = raiseZapretForConnect a s in (s, ps @ [Connect_flag up]))"
| "bypass_step (At_start a) (s, ps) =
     (let (up, s) = raiseZapretOnStart a s in (s, ps @ (if up then [Start_flag] else [])))"
| "bypass_step Verify_begins (s, ps) = (s, ps @ (if ZapretActive (pf_routing (prefs_of s)) then [Verifying] else []))"
| "bypass_step (Auto_update a) (s, ps) = (auto_update a s, ps)"
| "bypass_step (Goes_on k a r) (s, ps) =
     (if k < length ps
      then let (s, more) = resume a r (ps ! k) s in (s, take k ps @ more @ drop (Suc k) ps)
      else (s, ps))"

end
