(* ===== verification/Bypass_Props.thy ===== *)
theory Bypass_Props
  imports Bypass
begin

text \<open>
  What the bypass promises: a switch the user turned off stays off whatever the daemon does on its own, no filter is
  attached before the addresses of every stored node are excluded from it, and an update installs what it should and
  puts the bypass back.
\<close>

section \<open>What the steps touch\<close>

lemma by_settings_fields [simp]:
  "bp_winws (by_settings f s) = bp_winws s" "bp_trace (by_settings f s) = bp_trace s"
  "bp_networks (by_settings f s) = bp_networks s" "bp_dirs (by_settings f s) = bp_dirs s"
  "bp_daemon (by_settings f s) = f (bp_daemon s)"
  by (simp_all add: by_settings_def)

lemma daemon_fields [simp]:
  "ds_profiles (with_prefs f d) = ds_profiles d" "ds_prefs (with_prefs f d) = f (ds_prefs d)"
  "ds_profiles (persistSettings e d) = ds_profiles d" "ds_prefs (persistSettings e d) = ds_prefs d"
  by (simp_all add: with_prefs_def persistSettings_def)

lemmas small_steps = refreshZapretStateLocked_def set_routing_def set_active_def set_wish_def persist_def prefs_of_def
  excludeNodesFromZapret_def

lemma normalized_switch [simp]: "ZapretActive (Normalize u ro) = ZapretActive ro"
  by (simp add: Normalize_def Let_def)

text \<open>The three things the properties are about: the switch, the routing flag, the profiles.\<close>

definition wish :: "'b bypass \<Rightarrow> bool option" where "wish s = pf_zapretWanted (prefs_of s)"
definition flag :: "'b bypass \<Rightarrow> bool" where "flag s = ZapretActive (pf_routing (prefs_of s))"
definition stored :: "'b bypass \<Rightarrow> store" where "stored s = ds_profiles (bp_daemon s)"

named_theorems bypass_simps

lemma applyZapretState_simps [bypass_simps]:
  "bp_winws (snd (applyZapretState a r n s)) = bp_winws s" "bp_trace (snd (applyZapretState a r n s)) = bp_trace s"
  "bp_dirs (snd (applyZapretState a r n s)) = bp_dirs s"
  "stored (snd (applyZapretState a r n s)) = stored s" "wish (snd (applyZapretState a r n s)) = wish s"
  "flag (snd (applyZapretState a r n s)) = r"
  by (simp_all add: applyZapretState_def Let_def small_steps stored_def wish_def flag_def)

lemma applyZapretChoice_simps [bypass_simps]:
  "bp_winws (snd (applyZapretChoice a r n s)) = bp_winws s" "bp_trace (snd (applyZapretChoice a r n s)) = bp_trace s"
  "bp_dirs (snd (applyZapretChoice a r n s)) = bp_dirs s"
  "stored (snd (applyZapretChoice a r n s)) = stored s" "wish (snd (applyZapretChoice a r n s)) = Some r"
  "flag (snd (applyZapretChoice a r n s)) = r"
  by (simp_all add: applyZapretChoice_def bypass_simps) (simp_all add: small_steps stored_def wish_def)

lemma small_step_simps [bypass_simps]:
  "stored (refreshZapretStateLocked a s) = stored s" "wish (refreshZapretStateLocked a s) = wish s"
  "flag (refreshZapretStateLocked a s) = flag s" "bp_winws (refreshZapretStateLocked a s) = bp_winws s"
  "bp_trace (refreshZapretStateLocked a s) = bp_trace s" "bp_dirs (refreshZapretStateLocked a s) = bp_dirs s"
  "stored (persist a s) = stored s" "wish (persist a s) = wish s" "flag (persist a s) = flag s"
  "bp_winws (persist a s) = bp_winws s" "bp_trace (persist a s) = bp_trace s" "bp_dirs (persist a s) = bp_dirs s"
  "stored (set_routing f s) = stored s" "wish (set_routing f s) = wish s"
  "flag (set_routing f s) = ZapretActive (f (pf_routing (prefs_of s)))"
  "bp_winws (set_routing f s) = bp_winws s" "bp_trace (set_routing f s) = bp_trace s" "bp_dirs (set_routing f s) = bp_dirs s"
  "stored (set_active n s) = stored s" "wish (set_active n s) = wish s" "flag (set_active n s) = flag s"
  "bp_winws (set_active n s) = bp_winws s" "bp_trace (set_active n s) = bp_trace s" "bp_dirs (set_active n s) = bp_dirs s"
  "stored (excludeNodesFromZapret s) = stored s" "wish (excludeNodesFromZapret s) = wish s"
  "flag (excludeNodesFromZapret s) = flag s" "bp_winws (excludeNodesFromZapret s) = bp_winws s"
  "bp_trace (excludeNodesFromZapret s) = bp_trace s @ [Excluded (node_servers s)]" "bp_dirs (excludeNodesFromZapret s) = bp_dirs s"
  by (simp_all add: small_steps stored_def wish_def flag_def)

lemma flag_routing: "ZapretActive (pf_routing (prefs_of s)) = flag s"
  by (simp add: flag_def)

lemma wish_prefs: "pf_zapretWanted (prefs_of s) = wish s"
  by (simp add: wish_def)

lemma start_filter_simps [bypass_simps]:
  "stored (snd (snd (start_filter a st s))) = stored s" "wish (snd (snd (start_filter a st s))) = wish s"
  "flag (snd (snd (start_filter a st s))) = flag s"
  "bp_trace (snd (snd (start_filter a st s))) = bp_trace s @ [Launch [st]]" "bp_dirs (snd (snd (start_filter a st s))) = bp_dirs s"
  by (simp_all add: start_filter_def split_beta stored_def wish_def flag_def prefs_of_def)

lemma node_servers_stored: "node_servers s = node_servers s' \<longleftrightarrow>
    concat (map (\<lambda>p. map (\<lambda>sv. Server (SrvNode sv)) (Servers p)) (List (stored s))) =
    concat (map (\<lambda>p. map (\<lambda>sv. Server (SrvNode sv)) (Servers p)) (List (stored s')))"
  by (simp add: node_servers_def stored_def)

section \<open>Off stays off\<close>

definition switched_off :: "'b bypass \<Rightarrow> bool" where
  "switched_off s \<longleftrightarrow> bp_winws s = None \<and> \<not> flag s \<and> wish s = Some False"

text \<open>What the daemon begins on its own, or goes on with; the commands that start the bypass are the user's.\<close>

fun on_its_own :: "'b bypass_event \<Rightarrow> bool" where
  "on_its_own (Start_cmd a name) = False"
| "on_its_own (Pick_cmd a) = False"
| "on_its_own _ = True"

text \<open>A goroutine that cannot bring the bypass back: a raise that did not come up, and a check that has yet to look at
  the flag.\<close>

definition harmless :: "bypass_parked \<Rightarrow> bool" where
  "harmless p \<longleftrightarrow> p = Connect_flag False \<or> p = Verifying"

lemma autoStart_off: "wish s = Some False \<Longrightarrow> autoStartZapret a s = (False, s)"
  by (simp add: autoStartZapret_def zapretSwitchedOff_def wish_prefs)

lemma installEmbedded_simps [bypass_simps]:
  "stored (installEmbeddedZapretIfMissing a s) = stored s" "wish (installEmbeddedZapretIfMissing a s) = wish s"
  "flag (installEmbeddedZapretIfMissing a s) = flag s" "bp_winws (installEmbeddedZapretIfMissing a s) = bp_winws s"
  "bp_trace (installEmbeddedZapretIfMissing a s) = bp_trace s"
  by (simp_all add: installEmbeddedZapretIfMissing_def bypass_simps)

lemma update_off:
  assumes "switched_off s"
  shows "switched_off (ur_state (updateZapret a s))"
proof -
  have off: "\<not> ZapretActive (pf_routing (prefs_of s))" using assms by (simp add: switched_off_def flag_routing)
  have same: "switched_off (s\<lparr>bp_winws := bp_winws s\<rparr>)" "switched_off (s\<lparr>bp_dirs := x\<rparr>)" for x
    using assms by (simp_all add: switched_off_def flag_def wish_def prefs_of_def)
  have ref: "switched_off x \<Longrightarrow> switched_off (refreshZapretStateLocked a x)" for x
    by (simp add: switched_off_def bypass_simps)
  show ?thesis
    using assms same
    by (simp add: updateZapret_def Let_def off ref split_beta split: sum.splits)
qed

lemma stop_off:
  assumes "switched_off s"
  shows "switched_off (snd (snd (handleStopZapret a s)))"
proof -
  have "wish (recordZapretWish a False s) = Some False" "flag (recordZapretWish a False s) = flag s"
    "bp_winws (recordZapretWish a False s) = bp_winws s"
    by (simp_all add: recordZapretWish_def bypass_simps)
      (simp_all add: set_wish_def wish_def flag_def prefs_of_def)
  moreover have "wish (x\<lparr>bp_winws := w\<rparr>) = wish x" "flag (x\<lparr>bp_winws := w\<rparr>) = flag x" for x :: "'a bypass" and w
    by (simp_all add: wish_def flag_def prefs_of_def)
  ultimately show ?thesis
    using assms
    by (simp add: handleStopZapret_def zap_Stop_def Let_def split_beta switched_off_def bypass_simps)
qed

lemma arm_off: "switched_off s \<Longrightarrow> switched_off (handleSetZapretAutoUpdate a on s)"
  by (simp add: handleSetZapretAutoUpdate_def switched_off_def bypass_simps) (simp add: wish_def flag_def prefs_of_def)

lemma resume_off:
  assumes "switched_off s" and "harmless p"
  shows "switched_off (fst (resume a r p s)) \<and> snd (resume a r p s) = []"
  using assms
  by (auto simp: harmless_def connect_flag_def verify_due_def flag_routing switched_off_def bypass_simps)

lemma own_step_off:
  assumes "switched_off s" and "list_all harmless ps" and "on_its_own ev" and "bypass_step ev (s, ps) = (s', ps')"
  shows "switched_off s' \<and> list_all harmless ps'"
proof (cases ev)
  case (For_connect a)
  then show ?thesis
    using assms autoStart_off [of s "a\<lparr>ba_names := ba_names_after a\<rparr>"]
    by (auto simp: raiseZapretForConnect_def harmless_def switched_off_def)
next
  case (Goes_on k a r)
  show ?thesis
  proof (cases "k < length ps")
    case True
    then have "harmless (ps ! k)" using assms(2) by (simp add: list_all_length)
    then have "s' = fst (resume a r (ps ! k) s)" "ps' = take k ps @ drop (Suc k) ps"
      using resume_off [OF assms(1), of "ps ! k" a r] True assms(4) Goes_on by (auto simp: split_beta)
    moreover have "list_all harmless (take k ps)" "list_all harmless (drop (Suc k) ps)"
      using assms(2) by (auto simp: list_all_iff dest: in_set_takeD in_set_dropD)
    ultimately show ?thesis
      using resume_off [OF assms(1) \<open>harmless (ps ! k)\<close>, of a r] by simp
  qed (use assms Goes_on in auto)
next
  case Verify_begins
  then show ?thesis using assms by (auto simp: flag_routing switched_off_def)
next
  case (Auto_update a)
  then show ?thesis using assms update_off [OF assms(1)] by (auto simp: auto_update_def)
next
  case (Stop_cmd a)
  then show ?thesis using assms stop_off [OF assms(1)] by auto
next
  case (Update_cmd a)
  then show ?thesis using assms update_off [OF assms(1)] by (auto simp: handleUpdateZapret_def Let_def)
next
  case (Arm_updates a on)
  then show ?thesis using assms arm_off [OF assms(1)] by auto
next
  case (Put_embedded a)
  then show ?thesis using assms by (auto simp: switched_off_def bypass_simps)
next
  case (At_start a)
  then show ?thesis using assms by (auto simp: raiseZapretOnStart_def wish_prefs switched_off_def)
qed (use assms in auto)

text \<open>C13. Once the user has turned the bypass off and the filter is gone, nothing the daemon does on its own brings it back.
  Connects, the raise at the daemon's start, the embedded bundle, checks whether the bypass carries video and the
  measuring they may lead to, updates, and all the goroutines these leave behind, in whatever order they run: no
  filter is attached, nothing is routed past the tunnel, and the switch stays off.  The one condition is that when the
  switch was turned off no raise that came up, no probe and no measuring was still on its way (\<open>harmless\<close>); such a one
  does not look at the switch again (see \<^verbatim>\<open>repick_overrides_switch\<close> and \<^verbatim>\<open>late_flag_overrides_switch\<close>).\<close>

theorem off_stays_off:
  assumes "handleStopZapret a s = (Stopped, changed, s0)" and "\<not> sa_alive (ba_stop a)" and "list_all harmless ps"
    and "list_all on_its_own evs" and "fold bypass_step evs (s0, ps) = (s', ps')"
  shows "bp_winws s' = None \<and> \<not> ZapretActive (pf_routing (prefs_of s')) \<and> pf_zapretWanted (prefs_of s') = Some False"
proof -
  let ?s = "(recordZapretWish a False s)\<lparr>bp_winws := None\<rparr>"
  have "applyZapretChoice a False [] ?s = (changed, s0)"
    using assms(1,2) by (auto simp: handleStopZapret_def Let_def zap_Stop_def split_beta split: if_splits)
  then have "s0 = snd (applyZapretChoice a False [] ?s)" by simp
  then have "switched_off s0" by (simp add: switched_off_def bypass_simps)
  then have "switched_off s'"
    using assms(3-5)
  proof (induction evs arbitrary: s0 ps)
    case (Cons ev evs)
    obtain s1 ps1 where step: "bypass_step ev (s0, ps) = (s1, ps1)" by (cases "bypass_step ev (s0, ps)")
    then have "switched_off s1 \<and> list_all harmless ps1" using own_step_off [OF Cons.prems(1,2) _ step] Cons.prems(3) by simp
    with Cons.IH [of s1 ps1] Cons.prems step show ?case by simp
  qed simp
  then show ?thesis by (simp add: switched_off_def flag_routing wish_prefs)
qed

section \<open>Nodes are excluded before a filter is launched\<close>

text \<open>A piece of the trace in which these servers are handed to the exclusion list before anything is launched.\<close>

fun excluded_first :: "string list \<Rightarrow> bypass_op list \<Rightarrow> bool" where
  "excluded_first ns [] \<longleftrightarrow> True"
| "excluded_first ns (Excluded ms # ops) \<longleftrightarrow> ms = ns \<or> excluded_first ns ops"
| "excluded_first ns (Launch ls # ops) \<longleftrightarrow> False"

lemma excluded_first_append: "excluded_first ns xs \<Longrightarrow> excluded_first ns ys \<Longrightarrow> excluded_first ns (xs @ ys)"
  by (induction ns xs rule: excluded_first.induct) auto

lemma excluded_first_before: "excluded_first ns (xs @ Launch ls # ys) \<Longrightarrow> Excluded ns \<in> set xs"
  by (induction ns xs rule: excluded_first.induct) auto

definition careful :: "'b bypass \<Rightarrow> 'b bypass \<Rightarrow> bool" where
  "careful s s' \<longleftrightarrow> stored s' = stored s \<and>
     (\<exists>new. bp_trace s' = bp_trace s @ new \<and> excluded_first (node_servers s) new)"

lemma same_nodes: "stored s' = stored s \<Longrightarrow> node_servers s' = node_servers s"
  by (simp add: node_servers_def stored_def)

lemma careful_same: "bp_trace s' = bp_trace s \<Longrightarrow> stored s' = stored s \<Longrightarrow> careful s s'"
  by (simp add: careful_def)

lemma careful_refl [intro]: "careful s s"
  by (simp add: careful_same)

lemma careful_trans:
  assumes "careful s s'" and "careful s' s''"
  shows "careful s s''"
proof -
  from assms obtain new new' where "bp_trace s' = bp_trace s @ new" "excluded_first (node_servers s) new"
    "bp_trace s'' = bp_trace s' @ new'" "excluded_first (node_servers s') new'" and st: "stored s' = stored s" "stored s'' = stored s'"
    by (auto simp: careful_def)
  then show ?thesis
    using excluded_first_append same_nodes [OF st(1)] by (fastforce simp: careful_def)
qed

text \<open>Whatever is launched after the exclusion is launched with it.\<close>

lemma careful_after:
  "stored s' = stored s \<Longrightarrow> bp_trace s' = bp_trace s @ Excluded (node_servers s) # new \<Longrightarrow> careful s s'"
  by (auto simp: careful_def)

lemma stored_winws [simp]: "stored (s\<lparr>bp_winws := w\<rparr>) = stored s" "stored (s\<lparr>bp_dirs := x\<rparr>) = stored s"
    "stored (s\<lparr>bp_networks := m\<rparr>) = stored s" "stored (s\<lparr>bp_winws := w, bp_trace := t\<rparr>) = stored s"
  by (simp_all add: stored_def)

lemma remember_simps [bypass_simps]:
  "stored (rememberStrategyForThisNetwork a n s) = stored s"
  "bp_trace (rememberStrategyForThisNetwork a n s) = bp_trace s"
  by (simp_all add: rememberStrategyForThisNetwork_def split: option.splits)

lemma runPick_simps [bypass_simps]:
  "stored (snd (runPick a ss s)) = stored s" "bp_trace (snd (runPick a ss s)) = bp_trace s @ [Launch ss]"
  by (simp_all add: runPick_def Let_def)

lemma autoStart_careful: "careful s (snd (autoStartZapret a s))"
proof (cases "snd (autoStartZapret a s) = s")
  case False
  define chosen where "chosen = (case find (\<lambda>x. ZName x = (case strategyForThisNetwork a s of None \<Rightarrow> pf_zapretActive (prefs_of s)
      | Some n \<Rightarrow> n)) (strategies_of a (ba_names a)) of None \<Rightarrow> hd (strategies_of a (ba_names a)) | Some x \<Rightarrow> x)"
  from False show ?thesis
    by (intro careful_after [of _ _ "[Launch [chosen]]"])
      (auto simp: autoStartZapret_def Let_def split_beta bypass_simps chosen_def split: if_splits)
qed auto

lemma apply_careful: "careful s (snd (applyZapretState a r n s))"
  by (rule careful_same) (simp_all add: bypass_simps)

lemma restart_careful: "careful s (snd (restartZapretAfterUpdate a n s))"
proof (cases "strategies_of a (ba_names_after a) = []")
  case True
  then show ?thesis by (simp add: restartZapretAfterUpdate_def apply_careful)
next
  case False
  define chosen where "chosen = (case find (\<lambda>x. ZName x = n) (strategies_of a (ba_names_after a)) of
      None \<Rightarrow> hd (strategies_of a (ba_names_after a)) | Some x \<Rightarrow> x)"
  from False show ?thesis
    by (intro careful_after [of _ _ "[Launch [chosen]]"])
      (simp_all add: restartZapretAfterUpdate_def Let_def split_beta bypass_simps chosen_def)
qed

lemma update_careful: "careful s (ur_state (updateZapret a s))"
proof -
  have ref: "careful s (refreshZapretStateLocked a x)" if "careful s x" for x
    using careful_trans [OF that careful_same [of "refreshZapretStateLocked a x" x]]
    by (simp add: bypass_simps)
  have dirs: "careful s (x\<lparr>bp_dirs := y\<rparr>)" if "careful s x" for x y
    using careful_trans [OF that careful_same [of "x\<lparr>bp_dirs := y\<rparr>" x]] by simp
  have stop: "careful s (s\<lparr>bp_winws := w\<rparr>)" for w
    by (rule careful_same) simp_all
  have restart: "careful s (snd (restartZapretAfterUpdate a n x))" if "careful s x" for n x
    using careful_trans [OF that restart_careful] .
  show ?thesis
    unfolding updateZapret_def Let_def split_beta
    by (cases "ba_latest a"; cases "ZapretActive (pf_routing (prefs_of s))")
      (auto intro!: ref dirs stop restart careful_refl)
qed

lemma pick_careful: "careful s (snd (snd (handlePickZapret a s)))"
proof (cases "ba_names a = None \<or> strategies_of a (ba_names a) = []")
  case True
  then show ?thesis by (auto simp: handlePickZapret_def)
next
  case False
  define ss where "ss = lead_with_network a s (strategies_of a (ba_names a))"
  obtain po s1 where run: "runPick a ss (excludeNodesFromZapret s) = (po, s1)" by (cases "runPick a ss (excludeNodesFromZapret s)")
  have s1: "stored s1 = stored s" "bp_trace s1 = bp_trace s @ [Excluded (node_servers s), Launch ss]"
    using runPick_simps [of a ss "excludeNodesFromZapret s"] run by (simp_all add: bypass_simps)
  have kept: "stored (snd (keep_winner a best s1)) = stored s1"
    "bp_trace (snd (keep_winner a best s1)) = bp_trace s1 @ [Launch [best]]" for best
    by (simp_all add: keep_winner_def Let_def split_beta bypass_simps)
  from False have "snd (snd (handlePickZapret a s)) = s1 \<or> (\<exists>best. snd (snd (handlePickZapret a s)) = snd (keep_winner a best s1))"
    by (auto simp: handlePickZapret_def Let_def split_beta run simp flip: ss_def split: option.splits)
  then show ?thesis
    using s1 kept by (auto intro: careful_after)
qed

lemma start_careful: "careful s (snd (snd (handleStartZapret a name s)))"
proof -
  have "careful s (snd (snd (start_named a c s)))" for c
    by (rule careful_after [of _ _ "[Launch [c]]"]) (simp_all add: start_named_def Let_def split_beta bypass_simps)
  then show ?thesis by (simp add: handleStartZapret_def Let_def careful_refl split: option.splits)
qed

lemma stop_careful: "careful s (snd (snd (handleStopZapret a s)))"
proof -
  have "stored (recordZapretWish a False s) = stored s" "bp_trace (recordZapretWish a False s) = bp_trace s"
    by (simp_all add: recordZapretWish_def set_wish_def persist_def stored_def)
  then show ?thesis
    by (intro careful_same) (auto simp: handleStopZapret_def Let_def split_beta bypass_simps)
qed

text \<open>The goroutines that launch without writing the list: the measuring that follows a failed check, and the start of
  what won.\<close>

fun re_measures :: "'b bypass_event \<Rightarrow> bypass_parked list \<Rightarrow> bool" where
  "re_measures (Goes_on k a r) ps \<longleftrightarrow> k < length ps \<and> (ps ! k = Measuring \<or> (\<exists>best. ps ! k = Restarting best))"
| "re_measures _ ps \<longleftrightarrow> False"

lemma resume_careful:
  assumes "p \<noteq> Measuring" and "\<And>best. p \<noteq> Restarting best"
  shows "careful s (fst (resume a r p s))"
proof (cases p)
  case (Connect_flag up)
  then show ?thesis by (intro careful_same) (simp_all add: connect_flag_def bypass_simps)
next
  case Start_flag
  then show ?thesis by (simp add: apply_careful)
next
  case Probing
  then show ?thesis
    by (intro careful_same) (simp_all add: verifyBypass_def fallBackToTunnel_def Let_def bypass_simps)
next
  case (Reporting best)
  then show ?thesis by (intro careful_same) (simp_all add: repick_flag_def bypass_simps)
qed (use assms in \<open>auto intro: careful_refl\<close>)

lemma step_careful:
  assumes "\<not> re_measures ev ps"
  shows "careful s (fst (bypass_step ev (s, ps)))"
proof (cases ev)
  case (Start_cmd a name)
  then show ?thesis by (simp add: start_careful)
next
  case (Stop_cmd a)
  then show ?thesis by (simp add: stop_careful)
next
  case (Pick_cmd a)
  then show ?thesis by (simp add: pick_careful)
next
  case (Update_cmd a)
  then show ?thesis by (simp add: handleUpdateZapret_def Let_def update_careful)
next
  case (Arm_updates a on)
  have "careful s (by_settings (with_prefs (\<lambda>p. p\<lparr>pf_zapretAutoUpdate := on\<rparr>)) s)"
    by (rule careful_same) (simp_all add: stored_def)
  then show ?thesis
    by (rule careful_trans) (auto intro: careful_same simp: Arm_updates handleSetZapretAutoUpdate_def bypass_simps)
next
  case (Put_embedded a)
  then show ?thesis by (auto intro: careful_same simp: bypass_simps)
next
  case (For_connect a)
  then show ?thesis by (simp add: raiseZapretForConnect_def split_beta autoStart_careful)
next
  case (At_start a)
  then show ?thesis by (auto simp: raiseZapretOnStart_def split_beta autoStart_careful)
next
  case Verify_begins
  then show ?thesis by auto
next
  case (Auto_update a)
  then show ?thesis by (auto simp: auto_update_def update_careful)
next
  case (Goes_on k a r)
  then show ?thesis using assms resume_careful [of "ps ! k" s a r] by (auto simp: split_beta)
qed

text \<open>C15. Before a filter is launched, the server of every node of every stored profile has been handed to the exclusion
  list by the very operation that launches it: a command, the probe run, a raise for a connect or at the daemon's
  start, or an update, and whatever else these go on to launch.  Only the measuring that follows a failed check of the
  bypass launches on the list as it was written before (\<open>re_measures\<close>).\<close>

theorem nodes_excluded_before_launch:
  assumes "bypass_step ev (s, ps) = (s', ps')" and "\<not> re_measures ev ps"
    and "bp_trace s' = bp_trace s @ earlier @ Launch strategies # later"
  shows "\<exists>servers. Excluded servers \<in> set earlier \<and>
    (\<forall>p\<in>set (List (ds_profiles (bp_daemon s))). \<forall>sv\<in>set (Servers p). Server (SrvNode sv) \<in> set servers)"
proof -
  have "careful s s'" using step_careful [OF assms(2), of s] assms(1) by simp
  then have "Excluded (node_servers s) \<in> set earlier" using assms(3) by (auto simp: careful_def intro: excluded_first_before)
  moreover have "\<forall>p\<in>set (List (ds_profiles (bp_daemon s))). \<forall>sv\<in>set (Servers p). Server (SrvNode sv) \<in> set (node_servers s)"
    by (auto simp: node_servers_def)
  ultimately show ?thesis by blast
qed

section \<open>Where the flag and the filter part ways\<close>

text \<open>Starting another strategy stops the one that runs.  When the other does not come up, the command is refused and the
  routing keeps sending the services past the tunnel with nothing to carry them.\<close>

lemma failed_start_leaves_flag:
  assumes "handleStartZapret a name s = (Not_started n, changed, s')"
    and "st_launch (ba_start a) = Not_seen False" and "\<not> sa_alive (st_stop (ba_start a))"
  shows "bp_winws s' = None \<and> flag s' = flag s"
proof -
  have named: "bp_winws s' = None \<and> flag s' = flag s" if "start_named a c s = (Not_started n, changed, s')" for c
  proof -
    from that have "s' = snd (snd (start_filter a c (excludeNodesFromZapret s)))" "\<not> fst (snd (start_filter a c (excludeNodesFromZapret s)))"
      by (auto simp: start_named_def Let_def split_beta split: if_splits)
    then show ?thesis
      using assms(2,3) by (auto simp: bypass_simps) (auto simp: start_filter_def zap_Start_def zap_Stop_def split: if_splits)
  qed
  from assms(1) show ?thesis
    by (auto simp: handleStartZapret_def Let_def split: if_splits option.splits dest: named)
qed

text \<open>A probe run that finds nothing ends with the filter stopped and leaves the flag as it was.\<close>

lemma empty_pick_leaves_flag:
  assumes "handlePickZapret a s = (Picked rs baseline None, changed, s')" and "\<not> sa_alive (pw_last_stop (ba_pick a))"
  shows "bp_winws s' = None \<and> flag s' = flag s"
proof -
  let ?r = "runPick a (lead_with_network a s (strategies_of a (ba_names a))) (excludeNodesFromZapret s)"
  from assms(1) have s': "s' = snd ?r" "\<not> po_err (fst ?r)"
    by (auto simp: handlePickZapret_def Let_def split_beta split: if_splits option.splits)
  then have "bp_winws s' = None"
    using assms(2) by (auto simp: runPick_def Pick_def Let_def zap_Stop_def split_beta split: if_splits)
  moreover have "flag s' = flag s"
    using s' by (simp add: runPick_def Let_def flag_def prefs_of_def excludeNodesFromZapret_def)
  ultimately show ?thesis ..
qed

text \<open>Measuring again does not look at the switch: a filter the user turned off while the strategies were measured is
  attached again, with the switch still off.\<close>

lemma repick_overrides_switch:
  assumes "st_launch (ba_start a) = Seen" and "\<not> sa_err (st_stop (ba_start a))"
  shows "fst (repick_start a False best s) \<and> bp_winws (repick_flag a best (snd (repick_start a False best s))) = Some best \<and>
    flag (repick_flag a best (snd (repick_start a False best s))) \<and>
    wish (repick_flag a best (snd (repick_start a False best s))) = wish s"
  using assms
  by (simp add: repick_start_def repick_flag_def start_filter_def zap_Start_def zap_Stop_def Let_def bypass_simps)
    (simp add: wish_def prefs_of_def)

text \<open>A raise for a connect sets the flag after it let go of the lock: when the user turns the bypass off in between, the
  flag is set all the same, with no filter behind it.\<close>

lemma late_flag_overrides_switch:
  "flag (connect_flag a True s) \<and> bp_winws (connect_flag a True s) = bp_winws s \<and> wish (connect_flag a True s) = wish s"
  by (simp add: connect_flag_def bypass_simps)

text \<open>What measuring again launches runs on the exclusion list as it was: nothing is handed to it.\<close>

lemma repick_keeps_old_list:
  "\<exists>ls. bp_trace (snd (repick_start a gone best s)) = bp_trace s @ [Launch ls]"
  by (simp add: repick_start_def split_beta bypass_simps)

text \<open>A stop that waited in vain is reported as done.\<close>

lemma vain_stop_is_reported_done:
  assumes "\<not> sa_err (ba_stop a)" and "sa_alive (ba_stop a)"
  shows "fst (handleStopZapret a s) = Stopped \<and> bp_winws (snd (snd (handleStopZapret a s))) = bp_winws s"
  using assms
  by (simp add: handleStopZapret_def recordZapretWish_def zap_Stop_def Let_def split_beta bypass_simps set_wish_def)

section \<open>A bypass on concrete data\<close>

definition ex_bypass_env :: "unit settings_env" where
  "ex_bypass_env = \<lparr>se_case = \<lambda>s. s, se_enc = \<lambda>_. Inl [], se_dec = \<lambda>_. None, se_unreadable = False, se_fault = None,
     se_backend = None, se_version = [], se_bundle = ''1.10.1''\<rparr>"

definition ex_bypass :: "unit bypass" where
  "ex_bypass = \<lparr>bp_daemon = NewDaemon ex_bypass_env [] \<lparr>target = None, temp = None\<rparr> () \<lparr>profiles = [], disk = \<lparr>target = None, temp = None\<rparr>\<rparr>,
     bp_winws = None, bp_networks = [], bp_trace = [], bp_dirs = \<lparr>bd_live = None, bd_old = None, bd_new = None\<rparr>\<rparr>"

definition ex_bypass_answers :: "unit bypass_answers" where
  "ex_bypass_answers = \<lparr>ba_env = ex_bypass_env, ba_network = None, ba_seen_off = False, ba_lock = True,
     ba_names = Some [''general.bat''], ba_names_after = Some [''general.bat''], ba_dir = [], ba_join = \<lambda>_ n. n,
     ba_hostlists = \<lambda>_. None, ba_stop = \<lparr>sa_err = False, sa_alive = False\<rparr>,
     ba_start = \<lparr>st_stop = \<lparr>sa_err = False, sa_alive = False\<rparr>, st_launch = Seen\<rparr>, ba_pick = ex_pick, ba_targets = 2,
     ba_embed = True, ba_latest = Inr ex_release, ba_version = ''1.10.1'', ba_apply = ex_apply\<rparr>"

definition ex_general :: bypass_strategy where
  "ex_general = \<lparr>ZName = ''general'', ZPath = ''general.bat''\<rparr>"

lemma ex_strategies_of: "strategies_of ex_bypass_answers (Some [''general.bat'']) = [ex_general]"
proof -
  have "Discover (\<lambda>s. s) (\<lambda>_ n. n) [] [''general.bat''] = [ex_general]" unfolding ex_general_def by code_simp
  then show ?thesis by (simp add: strategies_of_def ex_bypass_answers_def ex_bypass_env_def)
qed

definition ex_running :: "unit bypass" where
  "ex_running = fst (bypass_step (Start_cmd ex_bypass_answers []) (ex_bypass, []))"

lemma ex_running_fields: "bp_winws ex_running = Some ex_general" "bp_trace ex_running = [Excluded (node_servers ex_bypass), Launch [ex_general]]"
proof -
  have "pf_zapretActive (prefs_of ex_bypass) = []"
    by (simp add: ex_bypass_def prefs_of_def NewDaemon_def new_prefs_def)
  then have "snd (snd (handleStartZapret ex_bypass_answers [] ex_bypass)) = snd (snd (start_named ex_bypass_answers ex_general ex_bypass))"
    using ex_strategies_of by (simp add: handleStartZapret_def ex_bypass_answers_def)
  moreover have "bp_winws (snd (snd (start_named ex_bypass_answers ex_general ex_bypass))) = Some ex_general"
    by (simp add: start_named_def start_filter_def zap_Start_def zap_Stop_def ex_bypass_answers_def Let_def split_beta bypass_simps)
  moreover have "bp_trace (snd (snd (start_named ex_bypass_answers ex_general ex_bypass))) =
      [Excluded (node_servers ex_bypass), Launch [ex_general]]"
    by (simp add: start_named_def Let_def split_beta bypass_simps) (simp add: ex_bypass_def)
  ultimately show "bp_winws ex_running = Some ex_general"
    "bp_trace ex_running = [Excluded (node_servers ex_bypass), Launch [ex_general]]" by (simp_all add: ex_running_def)
qed

theorem nodes_excluded_before_launch_witness:
  "\<exists>earlier servers. bp_trace ex_running = earlier @ [Launch [ex_general]] \<and> Excluded servers \<in> set earlier"
proof -
  have "bypass_step (Start_cmd ex_bypass_answers []) (ex_bypass, []) = (ex_running, [])" by (simp add: ex_running_def)
  moreover have "bp_trace ex_running = bp_trace ex_bypass @ [Excluded (node_servers ex_bypass)] @ Launch [ex_general] # []"
    by (simp add: ex_running_fields) (simp add: ex_bypass_def)
  ultimately have "\<exists>servers. Excluded servers \<in> set [Excluded (node_servers ex_bypass)]"
    using nodes_excluded_before_launch [of "Start_cmd ex_bypass_answers []" ex_bypass "[]" ex_running "[]"] by fastforce
  then show ?thesis by (intro exI [of _ "[Excluded (node_servers ex_bypass)]"]) (simp add: ex_running_fields)
qed

theorem off_stays_off_witness:
  "bp_winws ex_running = Some ex_general \<and>
   bp_winws (fst (fold bypass_step
       [For_connect ex_bypass_answers, Verify_begins, Goes_on 0 ex_bypass_answers \<lparr>rs_gone = False, rs_gone_at = \<lambda>_. False, rs_probes = \<lambda>_. []\<rparr>, At_start ex_bypass_answers, Update_cmd ex_bypass_answers]
     (snd (snd (handleStopZapret ex_bypass_answers ex_running)), []))) = None"
  (is "_ \<and> bp_winws (fst (fold bypass_step ?evs _)) = None")
proof -
  have "fst (handleStopZapret ex_bypass_answers ex_running) = Stopped"
    by (simp add: handleStopZapret_def ex_bypass_answers_def zap_Stop_def Let_def split_beta)
  then obtain changed s0 where st: "handleStopZapret ex_bypass_answers ex_running = (Stopped, changed, s0)"
    by (metis prod.collapse)
  have "\<not> sa_alive (ba_stop ex_bypass_answers)" by (simp add: ex_bypass_answers_def)
  from off_stays_off [OF st this, of "[]" ?evs "fst (fold bypass_step ?evs (s0, []))" "snd (fold bypass_step ?evs (s0, []))"]
  show ?thesis by (simp add: st ex_running_fields del: fold_simps)
qed

section \<open>Updates\<close>

lemma restart_dirs [bypass_simps]: "bp_dirs (snd (restartZapretAfterUpdate a n s)) = bp_dirs s"
  by (simp add: restartZapretAfterUpdate_def Let_def split_beta bypass_simps)

text \<open>C14. An update, by hand or on the daemon's own schedule, only ever replaces the bundle by a newer release whose archive
  this program vouches for: its SHA-256 is the one compiled in for that version, it has the published length and came
  over https from the allowed hosts.  In every other case the installed bundle is the one there was, or, where even
  putting it back failed, lies set aside.\<close>

theorem updates_are_vouched:
  "(ur_updated (updateZapret a s) \<longrightarrow>
      (\<exists>rel b. ba_latest a = Inr rel \<and> Newer (ba_version a) (Version rel) \<and>
         bd_live (bp_dirs (ur_state (updateZapret a s))) = Some b \<and> vouched_for (ba_apply a) rel b)) \<and>
   (\<not> ur_updated (updateZapret a s) \<longrightarrow>
      bd_live (bp_dirs (ur_state (updateZapret a s))) = bd_live (bp_dirs s) \<or>
      bd_live (bp_dirs (ur_state (updateZapret a s))) = None \<and>
        bd_old (bp_dirs (ur_state (updateZapret a s))) = bd_live (bp_dirs s) \<or>
      bd_live (bp_dirs s) = None \<and> bd_live (bp_dirs (ur_state (updateZapret a s))) = bd_old (bp_dirs s))"
proof (cases "ba_latest a")
  case (Inl e)
  then show ?thesis by (simp add: updateZapret_def Let_def)
next
  case (Inr rel)
  let ?r = "updateZapret a s"
  have "\<not> ur_updated ?r \<and> bp_dirs (ur_state ?r) = bp_dirs s \<or>
      Newer (ba_version a) (Version rel) \<and>
      ur_updated ?r = (fst (Apply (ba_apply a) rel (bp_dirs s)) = None) \<and>
      bp_dirs (ur_state ?r) = snd (Apply (ba_apply a) rel (bp_dirs s))"
    by (simp add: updateZapret_def Inr Let_def split_beta bypass_simps)
  then show ?thesis
    using only_vouched_bundles_installed [OF surjective_pairing, of "ba_apply a" rel "bp_dirs s"] Inr by auto
qed

theorem updates_are_vouched_witness:
  "\<exists>b. bd_live (bp_dirs (ur_state (updateZapret ex_bypass_answers ex_bypass))) = Some b \<and> vouched_for ex_apply ex_release b"
proof -
  have "Newer ''1.10.1'' ''v1.10.2''" by code_simp
  moreover have "\<not> flag ex_bypass" by (simp add: ex_bypass_def flag_def prefs_of_def NewDaemon_def new_prefs_def Routing_Props.zero_options_def)
  ultimately have "ur_updated (updateZapret ex_bypass_answers ex_bypass)"
    using ex_apply_succeeds ex_sum
    by (simp add: updateZapret_def Let_def split_beta flag_routing ex_bypass_answers_def)
      (simp add: ex_release_def ex_bypass_def)
  with updates_are_vouched [of ex_bypass_answers ex_bypass] show ?thesis
    by (auto simp: ex_bypass_answers_def)
qed

end
