(* ===== verification/Peer_Auth.thy ===== *)
theory Peer_Auth
  imports Go_Scan
begin

text \<open>
  Who may talk to the daemon, and who may hand it code (\<^verbatim>\<open>core/control/peer_auth.go\<close> and its platform halves
  \<^verbatim>\<open>peer_auth_unix.go\<close>, \<^verbatim>\<open>peer_auth_linux.go\<close>, \<^verbatim>\<open>peer_auth_darwin.go\<close>, \<^verbatim>\<open>peer_auth_windows.go\<close>).  The
  credentials the kernel attaches to a connection, the files of the session manager and the answers of the Windows
  token queries are arguments.
\<close>

section \<open>The shared policy\<close>

text \<open>The reasons a refusal logs.\<close>

datatype peer_warning = Unidentified | ConsoleUnknown

text \<open>\<open>console\<close> is the answer of the console-user lookup, nothing on an error.\<close>

definition peerAllowed :: "string \<Rightarrow> string \<Rightarrow> string option \<Rightarrow> bool \<times> peer_warning option" where
  "peerAllowed peer self console =
     (if peer \<noteq> [] \<and> peer = self then (True, None)
      else if peer = [] then (False, Some Unidentified)
      else case console of
             None \<Rightarrow> (False, Some ConsoleUnknown)
           | Some cu \<Rightarrow> if cu = [] then (False, Some ConsoleUnknown) else (peer = cu, None))"

definition peerPrivileged :: "string \<Rightarrow> string \<Rightarrow> bool \<Rightarrow> bool" where
  "peerPrivileged peer self admin \<longleftrightarrow> (peer \<noteq> [] \<and> peer = self) \<or> admin"

definition CmdImportZapret :: string where
  "CmdImportZapret = ''import_zapret''"

definition adminOnlyCommands :: "string list" where
  "adminOnlyCommands = [CmdImportZapret]"

definition requiresAdminPeer :: "string \<Rightarrow> bool" where
  "requiresAdminPeer cmd \<longleftrightarrow> cmd \<in> set adminOnlyCommands"

text \<open>The stamp of a request's context: nothing for a call of the daemon's own.\<close>

definition peerPrivilegeFrom :: "bool option \<Rightarrow> bool" where
  "peerPrivilegeFrom stamp = (case stamp of None \<Rightarrow> True | Some privileged \<Rightarrow> privileged)"

definition withPeerPrivilege :: "bool option \<Rightarrow> bool \<Rightarrow> bool option" where
  "withPeerPrivilege ctx privileged = Some privileged"

text \<open>The gate in front of the command table.\<close>

definition refuses :: "bool option \<Rightarrow> string \<Rightarrow> bool" where
  "refuses ctx cmd \<longleftrightarrow> requiresAdminPeer cmd \<and> \<not> peerPrivilegeFrom ctx"

section \<open>Unix: the user id on the other end of the socket\<close>

text \<open>The verdict and what was logged.\<close>

record verdict =
  allowed :: bool
  privileged :: bool

definition refused :: verdict where
  "refused = \<lparr>allowed = False, privileged = False\<rparr>"

definition authorizePeer_unix :: "int option \<Rightarrow> int \<Rightarrow> string option \<Rightarrow> verdict \<times> peer_warning option" where
  "authorizePeer_unix cred getuid console =
     (case cred of
        None \<Rightarrow> (refused, Some Unidentified)
      | Some uid \<Rightarrow>
          (let peer = int_str uid; self = int_str getuid; (ok, w) = peerAllowed peer self console
           in if \<not> ok then (refused, w)
              else (\<lparr>allowed = True, privileged = peerPrivileged peer self (uid = 0)\<rparr>, w)))"

text \<open>The owner of \<^verbatim>\<open>/dev/console\<close>.\<close>

definition consoleUserUID_darwin :: "32 word option \<Rightarrow> string option" where
  "consoleUserUID_darwin owner = map_option (\<lambda>u. nat_str (unat u)) owner"

section \<open>Linux: the user at the display\<close>

text \<open>\<^verbatim>\<open>strconv.ParseUint(s, 10, 32)\<close> succeeds.\<close>

definition uint32_text :: "string \<Rightarrow> bool" where
  "uint32_text s \<longleftrightarrow> s \<noteq> [] \<and> list_all is_digit s \<and> dec_val s < 2 ^ 32"

definition activeSeatUIDKey :: string where
  "activeSeatUIDKey = ''ACTIVE_UID=''"

text \<open>The first line that carries the key decides.\<close>

fun active_uid :: "string list \<Rightarrow> string option" where
  "active_uid [] = None"
| "active_uid (l # ls) =
     (if has_prefix activeSeatUIDKey (trim_space l)
      then let v = trim_space (drop (length activeSeatUIDKey) (trim_space l))
           in if uint32_text v then Some v else None
      else active_uid ls)"

text \<open>\<open>content\<close> is the state file of a seat, nothing where it cannot be read.\<close>

definition seatFileUID :: "string option \<Rightarrow> string option" where
  "seatFileUID content = (case content of None \<Rightarrow> None | Some data \<Rightarrow> active_uid (scan_lines data))"

text \<open>The one answer among those of a list, skipping the entries without one; \<open>found\<close> is the answer so far.\<close>

fun sole_uid :: "string \<Rightarrow> string option list \<Rightarrow> string option" where
  "sole_uid found [] = (if found = [] then None else Some found)"
| "sole_uid found (None # rest) = sole_uid found rest"
| "sole_uid found (Some uid # rest) =
     (if found \<noteq> [] \<and> found \<noteq> uid then None else sole_uid uid rest)"

text \<open>\<open>read\<close> gives the files of the seat directory and \<open>entries\<close> their names.\<close>

definition activeSeatUID :: "(string \<Rightarrow> string option) \<Rightarrow> string list option \<Rightarrow> string option" where
  "activeSeatUID read entries =
     (case seatFileUID (read ''seat0'') of
        Some uid \<Rightarrow> Some uid
      | None \<Rightarrow> (case entries of None \<Rightarrow> None | Some es \<Rightarrow> sole_uid [] (map (\<lambda>e. seatFileUID (read e)) es)))"

text \<open>An entry of the runtime directory: whether it is a directory, and its owner if that can be asked.\<close>

definition runtime_owner :: "bool \<times> 32 word option \<Rightarrow> string option" where
  "runtime_owner e =
     (if \<not> fst e then None
      else case snd e of None \<Rightarrow> None | Some uid \<Rightarrow> if uid = 0 then None else Some (nat_str (unat uid)))"

definition soleRuntimeDirUID :: "(bool \<times> 32 word option) list option \<Rightarrow> string option" where
  "soleRuntimeDirUID entries =
     (case entries of None \<Rightarrow> None | Some es \<Rightarrow> sole_uid [] (map runtime_owner es))"

record login_state =
  seat_file :: "string \<Rightarrow> string option"
  seats :: "string list option"
  runtime_dirs :: "(bool \<times> 32 word option) list option"

definition consoleUserUIDIn :: "login_state \<Rightarrow> string option" where
  "consoleUserUIDIn ls =
     (case activeSeatUID (seat_file ls) (seats ls) of
        Some uid \<Rightarrow> Some uid
      | None \<Rightarrow> soleRuntimeDirUID (runtime_dirs ls))"

section \<open>Windows: the token of the client process\<close>

unbundle bit_operations_syntax

definition SE_GROUP_USE_FOR_DENY_ONLY :: "32 word" where
  "SE_GROUP_USE_FOR_DENY_ONLY = 0x10"

definition SE_GROUP_ENABLED :: "32 word" where
  "SE_GROUP_ENABLED = 0x4"

definition SE_GROUP_INTEGRITY :: "32 word" where
  "SE_GROUP_INTEGRITY = 0x20"

text \<open>A group of a token: its security identifier, if there is one, and its attributes.\<close>

type_synonym token_group = "string option \<times> 32 word"

fun groupEnabled :: "token_group list \<Rightarrow> string \<Rightarrow> bool" where
  "groupEnabled [] want = False"
| "groupEnabled ((sid, attrs) # gs) want =
     (if sid = None \<or> attrs AND SE_GROUP_ENABLED = 0 \<or> attrs AND SE_GROUP_USE_FOR_DENY_ONLY \<noteq> 0
      then groupEnabled gs want
      else sid = Some want \<or> groupEnabled gs want)"

text \<open>
  The answers of the three token queries, nothing on an error: the elevation flag and its size; the restrictions
  buffer of four bytes and how many of them are reported; the integrity label, as the buffer of 128 bytes, the size
  reported, the buffer's address, the address of the identifier that the label names and the label's attributes.
\<close>

record label_answer =
  la_bytes :: "8 word list"
  la_size :: "32 word"
  la_start :: "64 word"
  la_sid :: "64 word"
  la_attrs :: "32 word"

record token_answers =
  ta_elevation :: "(32 word \<times> 32 word) option"
  ta_restrictions :: "(8 word list \<times> 32 word) option"
  ta_label :: "label_answer option"

text \<open>The size of \<^verbatim>\<open>TOKEN_MANDATORY_LABEL\<close> on a 64-bit machine.\<close>

definition label_header :: nat where
  "label_header = 16"

definition highIntegrityRID :: "32 word" where
  "highIntegrityRID = 0x3000"

definition little_endian :: "8 word list \<Rightarrow> 32 word" where
  "little_endian bs =
     ucast (bs ! 0) OR push_bit 8 (ucast (bs ! 1)) OR push_bit 16 (ucast (bs ! 2)) OR push_bit 24 (ucast (bs ! 3))"

definition label_framed :: "label_answer \<Rightarrow> bool" where
  "label_framed a \<longleftrightarrow>
     \<not> unat (la_size a) < label_header + 12 \<and> \<not> unat (la_size a) > 128 \<and>
     la_attrs a AND SE_GROUP_INTEGRITY \<noteq> 0 \<and>
     \<not> la_sid a < la_start a + of_nat label_header \<and> \<not> la_sid a - la_start a > ucast (la_size a) - 12"

definition label_offset :: "label_answer \<Rightarrow> nat" where
  "label_offset a = unat (la_sid a - la_start a)"

definition label_sid :: "label_answer \<Rightarrow> 8 word list" where
  "label_sid a = take 12 (drop (label_offset a) (la_bytes a))"

definition high_label :: "label_answer \<Rightarrow> bool" where
  "high_label a \<longleftrightarrow>
     label_framed a \<and> take 8 (label_sid a) = [1, 1, 0, 0, 0, 0, 0, 16] \<and>
     highIntegrityRID \<le> little_endian (drop 8 (label_sid a))"

definition tokenHasFullAdminRights :: "token_answers \<Rightarrow> bool" where
  "tokenHasFullAdminRights t =
     (case ta_elevation t of
        None \<Rightarrow> False
      | Some (elevated, sz) \<Rightarrow>
          if sz \<noteq> 4 \<or> elevated = 0 then False
          else case ta_restrictions t of
            None \<Rightarrow> False
          | Some (bytes, rsz) \<Rightarrow>
              if rsz \<noteq> 1 \<and> rsz \<noteq> 4 then False
              else if \<exists>b\<in>set (take (unat rsz) bytes). b \<noteq> 0 then False
              else case ta_label t of None \<Rightarrow> False | Some a \<Rightarrow> high_label a)"

text \<open>A process's token: its user, its groups and the Administrators identifier where these can be asked.\<close>

record win_token =
  wt_user :: string
  wt_admins :: "string option"
  wt_groups :: "token_group list option"
  wt_answers :: token_answers

definition tokenIsAdmin :: "win_token \<Rightarrow> bool" where
  "tokenIsAdmin t =
     (case wt_admins t of
        None \<Rightarrow> False
      | Some admins \<Rightarrow>
          (case wt_groups t of
             None \<Rightarrow> False
           | Some gs \<Rightarrow> groupEnabled gs admins \<and> tokenHasFullAdminRights (wt_answers t)))"

definition windowsPeerAllowed :: "string \<Rightarrow> string \<Rightarrow> bool \<Rightarrow> string option \<Rightarrow> bool \<times> peer_warning option" where
  "windowsPeerAllowed peer self admin console =
     (if peer \<noteq> [] \<and> admin then (True, None) else peerAllowed peer self console)"

text \<open>The client process's token, nothing where the pipe, the process or the token cannot be asked.\<close>

definition authorizePeer_windows ::
    "win_token option \<Rightarrow> string option \<Rightarrow> string option \<Rightarrow> verdict \<times> peer_warning option" where
  "authorizePeer_windows token own console =
     (case token of
        None \<Rightarrow> (refused, Some Unidentified)
      | Some t \<Rightarrow>
          (let sid = wt_user t; admin = tokenIsAdmin t;
               self = (case own of None \<Rightarrow> [] | Some s \<Rightarrow> s);
               (ok, w) = windowsPeerAllowed sid self admin console
           in if \<not> ok then (refused, w)
              else (\<lparr>allowed = True, privileged = peerPrivileged sid self admin\<rparr>, w)))"

section \<open>Who is admitted\<close>

lemma nat_str_not_Nil [simp]: "nat_str n \<noteq> []"
  using nat_str_digits [of n] by simp

lemma int_str_not_Nil [simp]: "int_str i \<noteq> []"
  by (simp add: int_str_def)

lemma peerAllowed_iff:
  "fst (peerAllowed peer self console) \<longleftrightarrow> peer \<noteq> [] \<and> (peer = self \<or> console = Some peer)"
  by (auto simp: peerAllowed_def split: option.splits)

text \<open>An identity that cannot be established is never admitted, whatever the other answers are.\<close>

lemma unknown_fails_closed:
  "\<not> fst (peerAllowed [] self console)"
  "peer \<noteq> self \<Longrightarrow> \<not> fst (peerAllowed peer self None) \<and> \<not> fst (peerAllowed peer self (Some []))"
  by (auto simp: peerAllowed_iff)

text \<open>On Unix the daemon admits its own account and the console user, and nobody else; the authority over its code
  is its own account's and root's.\<close>

theorem unix_peers_judged:
  "allowed (fst (authorizePeer_unix cred g console)) \<longleftrightarrow>
     (\<exists>u. cred = Some u \<and> (u = g \<or> console = Some (int_str u)))"
  "privileged (fst (authorizePeer_unix cred g console)) \<longleftrightarrow>
     (\<exists>u. cred = Some u \<and> (u = g \<or> u = 0 \<and> console = Some (int_str 0)))"
proof -
  have "allowed (fst (authorizePeer_unix (Some u) g console)) \<longleftrightarrow> u = g \<or> console = Some (int_str u)"
    and "privileged (fst (authorizePeer_unix (Some u) g console)) \<longleftrightarrow>
           u = g \<or> u = 0 \<and> console = Some (int_str 0)" for u
    using peerAllowed_iff [of "int_str u" "int_str g" console]
    by (auto simp: authorizePeer_unix_def refused_def peerPrivileged_def int_str_inj Let_def split: prod.splits)
  then show "allowed (fst (authorizePeer_unix cred g console)) \<longleftrightarrow>
     (\<exists>u. cred = Some u \<and> (u = g \<or> console = Some (int_str u)))"
    and "privileged (fst (authorizePeer_unix cred g console)) \<longleftrightarrow>
     (\<exists>u. cred = Some u \<and> (u = g \<or> u = 0 \<and> console = Some (int_str 0)))"
    by (cases cred; simp add: authorizePeer_unix_def refused_def)+
qed

lemma windowsPeerAllowed_iff:
  "fst (windowsPeerAllowed peer self admin console) \<longleftrightarrow>
     peer \<noteq> [] \<and> (admin \<or> peer = self \<or> console = Some peer)"
  by (simp add: windowsPeerAllowed_def peerAllowed_iff)

text \<open>On Windows a fully elevated administrator is admitted as well, and shares the authority.\<close>

theorem windows_peers_judged:
  "allowed (fst (authorizePeer_windows token own console)) \<longleftrightarrow>
     (\<exists>t. token = Some t \<and> wt_user t \<noteq> [] \<and>
        (tokenIsAdmin t \<or> own = Some (wt_user t) \<or> console = Some (wt_user t)))"
  "privileged (fst (authorizePeer_windows token own console)) \<longleftrightarrow>
     (\<exists>t. token = Some t \<and> wt_user t \<noteq> [] \<and> (tokenIsAdmin t \<or> own = Some (wt_user t)))"
proof -
  have "allowed (fst (authorizePeer_windows (Some t) own console)) \<longleftrightarrow>
          wt_user t \<noteq> [] \<and> (tokenIsAdmin t \<or> own = Some (wt_user t) \<or> console = Some (wt_user t))"
    and "privileged (fst (authorizePeer_windows (Some t) own console)) \<longleftrightarrow>
          wt_user t \<noteq> [] \<and> (tokenIsAdmin t \<or> own = Some (wt_user t))" for t
    using windowsPeerAllowed_iff [of "wt_user t" "case own of None \<Rightarrow> [] | Some s \<Rightarrow> s" "tokenIsAdmin t" console]
    by (auto simp: authorizePeer_windows_def refused_def peerPrivileged_def Let_def split: prod.splits option.splits)
  then show "allowed (fst (authorizePeer_windows token own console)) \<longleftrightarrow>
     (\<exists>t. token = Some t \<and> wt_user t \<noteq> [] \<and>
        (tokenIsAdmin t \<or> own = Some (wt_user t) \<or> console = Some (wt_user t)))"
    and "privileged (fst (authorizePeer_windows token own console)) \<longleftrightarrow>
     (\<exists>t. token = Some t \<and> wt_user t \<noteq> [] \<and> (tokenIsAdmin t \<or> own = Some (wt_user t)))"
    by (cases token; simp add: authorizePeer_windows_def refused_def)+
qed

lemma groupEnabled_iff:
  "groupEnabled gs want \<longleftrightarrow>
     (\<exists>attrs. (Some want, attrs) \<in> set gs \<and> attrs AND SE_GROUP_ENABLED \<noteq> 0 \<and>
        attrs AND SE_GROUP_USE_FOR_DENY_ONLY = 0)"
  by (induction gs want rule: groupEnabled.induct) auto

text \<open>A filtered token of an administrator, which lists the Administrators for denial only or not enabled, does not
  count as one, and neither does a token below high integrity, a restricted one or one without elevation.\<close>

theorem filtered_token_is_no_admin:
  assumes "tokenIsAdmin t"
  obtains attrs elevated bytes rsz a where
    "(wt_admins t, attrs) \<in> set (the (wt_groups t))" and "attrs AND SE_GROUP_USE_FOR_DENY_ONLY = 0"
    and "attrs AND SE_GROUP_ENABLED \<noteq> 0" and "ta_elevation (wt_answers t) = Some (elevated, 4)" and "elevated \<noteq> 0"
    and "ta_restrictions (wt_answers t) = Some (bytes, rsz)" and "\<forall>b\<in>set (take (unat rsz) bytes). b = 0"
    and "ta_label (wt_answers t) = Some a" and "highIntegrityRID \<le> little_endian (drop 8 (label_sid a))"
  using assms
  by (fastforce simp: tokenIsAdmin_def groupEnabled_iff tokenHasFullAdminRights_def high_label_def
      split: option.splits prod.splits if_splits)

section \<open>The label is read inside its buffer\<close>

text \<open>Whatever the system reports, the twelve bytes of the identifier are taken from the part of the buffer that was
  filled, behind the header; the buffer itself does not wrap around the address space.\<close>

theorem label_read_in_bounds:
  assumes "label_framed a" and "unat (la_start a) + 128 < 2 ^ 64"
  shows "label_header \<le> label_offset a" and "label_offset a + 12 \<le> unat (la_size a)" and "unat (la_size a) \<le> 128"
proof -
  have sz: "28 \<le> unat (la_size a)" "unat (la_size a) \<le> 128"
    using assms(1) by (auto simp: label_framed_def label_header_def)
  show "unat (la_size a) \<le> 128" by (rule sz)
  have u: "unat (ucast (la_size a) :: 64 word) = unat (la_size a)"
    using sz by (simp add: unsigned_ucast_eq take_bit_nat_eq_self_iff)
  then have m: "unat (ucast (la_size a) - 12 :: 64 word) = unat (la_size a) - 12"
    using sz by (subst unat_sub) (auto simp: word_le_nat_alt)
  have "unat (la_sid a - la_start a) \<le> unat (ucast (la_size a) - 12 :: 64 word)"
    using assms(1) by (simp add: label_framed_def not_less word_le_nat_alt)
  then show "label_offset a + 12 \<le> unat (la_size a)"
    using sz m by (simp add: label_offset_def)
  have "unat (la_start a + of_nat label_header) = unat (la_start a) + 16"
    using assms(2) by (subst unat_add_lem [THEN iffD1]) (auto simp: label_header_def)
  then have "unat (la_start a) + 16 \<le> unat (la_sid a)"
    using assms(1) by (simp add: label_framed_def not_less word_le_nat_alt)
  then show "label_header \<le> label_offset a"
    by (subst label_offset_def) (simp add: unat_sub word_le_nat_alt label_header_def)
qed

section \<open>The user at the display\<close>

lemma active_uid_text: "active_uid ls = Some u \<Longrightarrow> uint32_text u"
  by (induction ls) (auto simp: Let_def split: if_splits)

lemma seatFileUID_text: "seatFileUID c = Some u \<Longrightarrow> uint32_text u"
  by (auto simp: seatFileUID_def split: option.splits dest: active_uid_text)

lemma sole_uid_iff:
  "[] \<notin> Some -` set es \<Longrightarrow>
   sole_uid found es = Some u \<longleftrightarrow>
     u \<noteq> [] \<and> (if found = [] then Some u \<in> set es else found = u) \<and> (\<forall>v. Some v \<in> set es \<longrightarrow> v = u)"
proof (induction found es rule: sole_uid.induct)
  case (3 found uid rest)
  then show ?case by (cases "found = []"; cases "found = uid") (auto simp: vimage_def)
qed (auto simp: vimage_def)

lemma uint32_text_nat_str: "uint32_text (nat_str (unat (u :: 32 word)))"
proof -
  have "unat u < 2 ^ LENGTH(32)" by (rule unsigned_less)
  then show ?thesis using nat_str_digits by (auto simp: uint32_text_def)
qed

text \<open>The user at the display is the text of a user id.  Where the built-in seat does not say, all seats that name
  somebody name this user; and a directory left by a session counts only if there is no other user's, and never
  makes root the user.\<close>

theorem console_user_is_unambiguous:
  assumes "consoleUserUIDIn ls = Some u"
  shows "uint32_text u"
    and "seatFileUID (seat_file ls ''seat0'') = None \<Longrightarrow> activeSeatUID (seat_file ls) (seats ls) = Some u \<Longrightarrow>
      \<forall>e v. e \<in> set (the (seats ls)) \<and> seatFileUID (seat_file ls e) = Some v \<longrightarrow> v = u"
    and "activeSeatUID (seat_file ls) (seats ls) = None \<Longrightarrow>
      u \<noteq> ''0'' \<and> (\<forall>e v. e \<in> set (the (runtime_dirs ls)) \<and> runtime_owner e = Some v \<longrightarrow> v = u)"
proof -
  have ne: "[] \<notin> Some -` set (map (\<lambda>e. seatFileUID (f e)) es)" for f and es :: "string list"
    using seatFileUID_text by (auto simp: uint32_text_def) (metis list.distinct(1) uint32_text_def)
  have seat: "uint32_text u \<and> (seatFileUID (seat_file ls ''seat0'') = None \<longrightarrow>
      (\<forall>e v. e \<in> set (the (seats ls)) \<and> seatFileUID (seat_file ls e) = Some v \<longrightarrow> v = u))"
    if "activeSeatUID (seat_file ls) (seats ls) = Some u"
    using that seatFileUID_text
    by (auto simp: activeSeatUID_def sole_uid_iff [OF ne] image_iff split: option.splits) metis+
  have owner: "uint32_text v \<and> v \<noteq> ''0''" if "runtime_owner e = Some v" for e v
  proof -
    have z: "nat_str 0 = ''0''" by code_simp
    have "nat_str (unat w) \<noteq> ''0''" if "w \<noteq> 0" for w :: "32 word"
      using that nat_str_inj [of "unat w" 0] by (simp add: z unat_eq_0)
    with that show ?thesis
      using uint32_text_nat_str by (auto simp: runtime_owner_def split: if_splits option.splits)
  qed
  then have ne2: "[] \<notin> Some -` set (map runtime_owner es)" for es
    by (auto simp: uint32_text_def) (metis uint32_text_def)
  have dirs: "uint32_text u \<and> u \<noteq> ''0'' \<and> (\<forall>e v. e \<in> set (the (runtime_dirs ls)) \<and> runtime_owner e = Some v \<longrightarrow> v = u)"
    if "soleRuntimeDirUID (runtime_dirs ls) = Some u"
    using that owner
    by (auto simp: soleRuntimeDirUID_def sole_uid_iff [OF ne2] image_iff split: option.splits) metis+
  from assms seat dirs show "uint32_text u"
    by (auto simp: consoleUserUIDIn_def split: option.splits)
  from seat show "seatFileUID (seat_file ls ''seat0'') = None \<Longrightarrow> activeSeatUID (seat_file ls) (seats ls) = Some u \<Longrightarrow>
      \<forall>e v. e \<in> set (the (seats ls)) \<and> seatFileUID (seat_file ls e) = Some v \<longrightarrow> v = u"
    by blast
  from assms dirs show "activeSeatUID (seat_file ls) (seats ls) = None \<Longrightarrow>
      u \<noteq> ''0'' \<and> (\<forall>e v. e \<in> set (the (runtime_dirs ls)) \<and> runtime_owner e = Some v \<longrightarrow> v = u)"
    by (simp add: consoleUserUIDIn_def)
qed

text \<open>A desktop with one user at the built-in seat.\<close>

lemma console_user_is_unambiguous_example:
  "consoleUserUIDIn \<lparr>seat_file = \<lambda>f. if f = ''seat0'' then Some (''IS_SEAT0=1'' @ [CHR 0x0A] @ ''ACTIVE_UID=1000'')
     else None, seats = Some [''seat0''], runtime_dirs = Some [(True, Some 0), (True, Some 1001)]\<rparr> = Some ''1000''"
proof -
  have "trim_space ''IS_SEAT0=1'' = ''IS_SEAT0=1''" "trim_space ''ACTIVE_UID=1000'' = ''ACTIVE_UID=1000''"
    "trim_space ''1000'' = ''1000''"
    by code_simp+
  then have "seatFileUID (Some (''IS_SEAT0=1'' @ [CHR 0x0A] @ ''ACTIVE_UID=1000'')) = Some ''1000''"
    by (simp add: seatFileUID_def scan_lines_def scan_tokens_def drop_cr_def activeSeatUIDKey_def has_prefix_def uint32_text_def is_digit_def
        dec_val_def digit_val_def of_char_def)
  then show ?thesis
    by (simp add: consoleUserUIDIn_def activeSeatUID_def)
qed

end
