(* ===== verification/Outbound.thy ===== *)
theory Outbound
  imports Go_Lib "HOL-Library.Sublist"
begin

text \<open>
  The outbound side of one client's stream (\<^verbatim>\<open>core/control/server.go\<close>): frames are queued by whoever has something
  to say and written by one goroutine.  A critical section under the server's mutex is one step, a write to the stream
  is another; every interleaving of the emitters, the request loop, the writer and the owner that stops it is a run of
  \<open>out_step\<close>.
\<close>

section \<open>The queue and the writer\<close>

record out_frame =
  frame_line :: string
  frame_event :: bool

definition outQueueDepth :: nat where
  "outQueueDepth = 512"

text \<open>Where the writing goroutine is: at the top of its loop, in a write, past a failed write, or returned.\<close>

datatype writer_at = Waiting | Writing out_frame | Failing out_frame | Returned

text \<open>
  \<open>oStalled\<close> counts how often the channel \<^verbatim>\<open>stalled\<close> has been closed (closing it twice panics), \<open>oWire\<close> is what the
  stream has taken.
\<close>

record out_stream =
  oQueue :: "out_frame list"
  oClosed :: bool
  oFailed :: bool
  oStalled :: nat
  oWriter :: writer_at
  oWire :: string

definition NewServer :: out_stream where
  "NewServer = \<lparr>oQueue = [], oClosed = False, oFailed = False, oStalled = 0, oWriter = Waiting, oWire = []\<rparr>"

definition failStreamLocked :: "out_stream \<Rightarrow> out_stream" where
  "failStreamLocked s =
     (if oFailed s then s else s\<lparr>oFailed := True, oQueue := [], oStalled := oStalled s + 1\<rparr>)"

text \<open>The queue without its oldest event, if it has one.\<close>

fun dropOldestEventLocked :: "out_frame list \<Rightarrow> out_frame list option" where
  "dropOldestEventLocked [] = None"
| "dropOldestEventLocked (fr # q) =
     (if frame_event fr then Some q else map_option ((#) fr) (dropOldestEventLocked q))"

definition enqueue :: "out_frame \<Rightarrow> out_stream \<Rightarrow> out_stream" where
  "enqueue fr s =
     (if oClosed s \<or> oFailed s then s
      else if outQueueDepth \<le> length (oQueue s)
      then case dropOldestEventLocked (oQueue s) of
             None \<Rightarrow> failStreamLocked s
           | Some q \<Rightarrow> s\<lparr>oQueue := q @ [fr]\<rparr>
      else s\<lparr>oQueue := oQueue s @ [fr]\<rparr>)"

text \<open>
  The steps: a frame handed over, the writer taking one, its write succeeding or failing after some bytes, the writer
  giving the stream up, the writer returning, and the owner stopping it.
\<close>

datatype out_act = Send out_frame | Take | Wrote | Broke nat | GiveUp | Return | StopWriter

inductive out_step :: "out_stream \<Rightarrow> out_act \<Rightarrow> out_stream \<Rightarrow> bool" where
  send: "out_step s (Send fr) (enqueue fr s)"
| take: "oWriter s = Waiting \<Longrightarrow> \<not> oFailed s \<Longrightarrow> oQueue s = fr # q \<Longrightarrow>
    out_step s Take (s\<lparr>oQueue := q, oWriter := Writing fr\<rparr>)"
| wrote: "oWriter s = Writing fr \<Longrightarrow>
    out_step s Wrote (s\<lparr>oWire := oWire s @ frame_line fr, oWriter := Waiting\<rparr>)"
| broke: "oWriter s = Writing fr \<Longrightarrow> k \<le> length (frame_line fr) \<Longrightarrow>
    out_step s (Broke k) (s\<lparr>oWire := oWire s @ List.take k (frame_line fr), oWriter := Failing fr\<rparr>)"
| give_up: "oWriter s = Failing fr \<Longrightarrow> out_step s GiveUp (failStreamLocked (s\<lparr>oWriter := Returned\<rparr>))"
| return: "oWriter s = Waiting \<Longrightarrow> oFailed s \<or> oClosed s \<and> oQueue s = [] \<Longrightarrow>
    out_step s Return (s\<lparr>oWriter := Returned\<rparr>)"
| stop: "out_step s StopWriter (s\<lparr>oClosed := True\<rparr>)"

inductive_cases out_stepE: "out_step s a s'"

text \<open>A run from a new server, with its steps in order.\<close>

inductive out_runs :: "out_act list \<Rightarrow> out_stream \<Rightarrow> bool" where
  start: "out_runs [] NewServer"
| more: "out_runs acts s \<Longrightarrow> out_step s a s' \<Longrightarrow> out_runs (acts @ [a]) s'"

section \<open>What was handed over, and what is in flight\<close>

fun handed :: "out_act \<Rightarrow> out_frame list" where
  "handed (Send fr) = [fr]"
| "handed _ = []"

text \<open>Every frame handed over before the owner stopped the writer, in order.\<close>

definition offered :: "out_act list \<Rightarrow> out_frame list" where
  "offered acts = concat (map handed (takeWhile (\<lambda>a. a \<noteq> StopWriter) acts))"

definition in_hand :: "out_stream \<Rightarrow> out_frame list" where
  "in_hand s = (case oWriter s of Writing fr \<Rightarrow> [fr] | Failing fr \<Rightarrow> [fr] | _ \<Rightarrow> [])"

definition responses :: "out_frame list \<Rightarrow> out_frame list" where
  "responses frs = filter (\<lambda>fr. \<not> frame_event fr) frs"

definition on_wire :: "out_frame list \<Rightarrow> string" where
  "on_wire frs = concat (map frame_line frs)"

lemma responses_simps [simp]:
  "responses [] = []" "responses (xs @ ys) = responses xs @ responses ys"
  "responses (fr # q) = (if frame_event fr then responses q else fr # responses q)"
  by (simp_all add: responses_def)

lemma on_wire_simps [simp]: "on_wire [] = []" "on_wire (xs @ ys) = on_wire xs @ on_wire ys" "on_wire [fr] = frame_line fr"
  by (simp_all add: on_wire_def)

lemma offered_snoc:
  "offered (acts @ [a]) = offered acts @ (if StopWriter \<in> set acts then [] else handed a)"
proof -
  have "takeWhile (\<lambda>a. a \<noteq> StopWriter) (acts @ [a]) =
          takeWhile (\<lambda>a. a \<noteq> StopWriter) acts @ (if StopWriter \<in> set acts \<or> a = StopWriter then [] else [a])"
    by (induction acts) auto
  then show ?thesis by (cases a) (auto simp: offered_def)
qed

lemma dropOldestEvent_None: "dropOldestEventLocked q = None \<longleftrightarrow> (\<forall>fr\<in>set q. \<not> frame_event fr)"
  by (induction q) auto

lemma dropOldestEvent_Some:
  "dropOldestEventLocked q = Some q' \<Longrightarrow>
     (\<exists>pre e suf. q = pre @ e # suf \<and> q' = pre @ suf \<and> frame_event e \<and> (\<forall>fr\<in>set pre. \<not> frame_event fr))"
proof (induction q arbitrary: q')
  case (Cons fr q)
  show ?case
  proof (cases "frame_event fr")
    case True
    then show ?thesis using Cons.prems by (intro exI [of _ "[]"]) auto
  next
    case False
    with Cons.prems obtain r where r: "dropOldestEventLocked q = Some r" "q' = fr # r" by auto
    from Cons.IH [OF r(1)] obtain pre e suf where
      "q = pre @ e # suf" "r = pre @ suf" "frame_event e" "\<forall>fr\<in>set pre. \<not> frame_event fr" by blast
    with False r(2) show ?thesis by (intro exI [of _ "fr # pre"]) auto
  qed
qed simp

lemma dropOldestEvent_responses:
  assumes "dropOldestEventLocked q = Some q'"
  shows "responses q' = responses q" and "length q' < length q" and "subseq (q' @ r) (q @ r)"
proof -
  from dropOldestEvent_Some [OF assms] obtain pre e suf where
    "q = pre @ e # suf" "q' = pre @ suf" "frame_event e" by blast
  then show "responses q' = responses q" "length q' < length q" "subseq (q' @ r) (q @ r)"
    by (auto intro: list_emb_append_mono)
qed

section \<open>The invariant\<close>

text \<open>
  The bytes taken by the stream are whole frames and, only past a broken write, a piece of one; what is written, in
  hand or queued is a subsequence of what was handed over; and of the responses nothing is missing up to there, and
  nothing at all unless the stream was given up.
\<close>

definition torn_ok :: "out_stream \<Rightarrow> string \<Rightarrow> bool" where
  "torn_ok s torn \<longleftrightarrow>
     (case oWriter s of
        Failing fr \<Rightarrow> prefix torn (frame_line fr)
      | Returned \<Rightarrow> oFailed s \<or> torn = []
      | _ \<Rightarrow> torn = [])"

definition delivers :: "out_act list \<Rightarrow> out_stream \<Rightarrow> bool" where
  "delivers acts s \<longleftrightarrow>
     (\<exists>sent torn.
        oWire s = on_wire sent @ torn \<and> subseq (sent @ in_hand s @ oQueue s) (offered acts) \<and>
        prefix (responses (sent @ in_hand s @ oQueue s)) (responses (offered acts)) \<and>
        torn_ok s torn \<and>
        (\<not> oFailed s \<longrightarrow> responses (sent @ in_hand s @ oQueue s) = responses (offered acts)))"

definition stream_ok :: "out_act list \<Rightarrow> out_stream \<Rightarrow> bool" where
  "stream_ok acts s \<longleftrightarrow>
     length (oQueue s) \<le> outQueueDepth \<and> (oFailed s \<longrightarrow> oQueue s = []) \<and>
     oStalled s = (if oFailed s then 1 else 0) \<and> (oClosed s \<longleftrightarrow> StopWriter \<in> set acts) \<and>
     (oWriter s = Returned \<longrightarrow> oFailed s \<or> oClosed s \<and> oQueue s = [])"

lemma stream_ok_run: "out_runs acts s \<Longrightarrow> stream_ok acts s"
proof (induction rule: out_runs.induct)
  case start
  then show ?case by (simp add: stream_ok_def NewServer_def outQueueDepth_def)
next
  case (more acts s a s')
  from more(2,3) show ?case
  proof (cases rule: out_step.cases)
    case (send fr)
    then show ?thesis
      using more(3) dropOldestEvent_responses(2)
      by (fastforce simp: stream_ok_def enqueue_def failStreamLocked_def split: option.splits if_splits)
  qed (auto simp: stream_ok_def failStreamLocked_def)
qed

lemma deliversI:
  assumes "oWire s = on_wire sent @ torn" and "subseq (sent @ in_hand s @ oQueue s) (offered acts)"
    and "prefix (responses (sent @ in_hand s @ oQueue s)) (responses (offered acts))" and "torn_ok s torn"
    and "\<not> oFailed s \<Longrightarrow> responses (sent @ in_hand s @ oQueue s) = responses (offered acts)"
  shows "delivers acts s"
  unfolding delivers_def using assms by blast

lemma in_hand_queue [simp]:
  "in_hand (s\<lparr>oQueue := q\<rparr>) = in_hand s" "in_hand (s\<lparr>oClosed := c\<rparr>) = in_hand s"
  "in_hand (s\<lparr>oFailed := f, oQueue := q, oStalled := n\<rparr>) = in_hand s"
  by (simp_all add: in_hand_def)

lemma torn_ok_queue [simp]:
  "torn_ok (s\<lparr>oQueue := q\<rparr>) torn = torn_ok s torn" "torn_ok (s\<lparr>oClosed := c\<rparr>) torn = torn_ok s torn"
  by (simp_all add: torn_ok_def split: writer_at.splits)

lemma torn_ok_failed: "torn_ok s torn \<Longrightarrow> torn_ok (s\<lparr>oFailed := True, oQueue := q, oStalled := n\<rparr>) torn"
  by (auto simp: torn_ok_def split: writer_at.splits)

lemma delivers_send:
  assumes "delivers acts s" and ok: "stream_ok acts s"
  shows "delivers (acts @ [Send fr]) (enqueue fr s)"
proof -
  let ?all = "\<lambda>sent. sent @ in_hand s @ oQueue s"
  from assms(1) obtain sent torn where
    w: "oWire s = on_wire sent @ torn" and sub: "subseq (?all sent) (offered acts)" and
    pre: "prefix (responses (?all sent)) (responses (offered acts))" and tn: "torn_ok s torn" and
    full: "\<not> oFailed s \<longrightarrow> responses (?all sent) = responses (offered acts)"
    unfolding delivers_def by blast
  let ?o = "offered (acts @ [Send fr])"
  have o: "?o = offered acts @ (if oClosed s then [] else [fr])"
    using ok by (simp add: offered_snoc stream_ok_def)
  have sub': "subseq (?all sent) ?o" and pre': "prefix (responses (?all sent)) (responses ?o)"
    using pre list_emb_append_mono [OF sub, of "[]" "if oClosed s then [] else [fr]"]
    by (auto simp: o intro: prefix_prefix)
  consider (shut) "oClosed s \<or> oFailed s" | (room) "\<not> oClosed s" "\<not> oFailed s" "length (oQueue s) < outQueueDepth"
    | (shed) q where "\<not> oClosed s" "\<not> oFailed s" "outQueueDepth \<le> length (oQueue s)" "dropOldestEventLocked (oQueue s) = Some q"
    | (lost) "\<not> oClosed s" "\<not> oFailed s" "outQueueDepth \<le> length (oQueue s)" "dropOldestEventLocked (oQueue s) = None"
    by (cases "dropOldestEventLocked (oQueue s)") fastforce+
  then show ?thesis
  proof cases
    case shut
    then have "enqueue fr s = s" by (simp add: enqueue_def)
    with shut w sub' pre' tn full show ?thesis
      by (auto simp: o intro!: deliversI [of s sent torn])
  next
    case room
    then have "enqueue fr s = s\<lparr>oQueue := oQueue s @ [fr]\<rparr>" by (simp add: enqueue_def)
    moreover have "subseq (?all sent @ [fr]) (offered acts @ [fr])"
      by (rule list_emb_append_mono [OF sub]) simp
    ultimately show ?thesis
      using room w tn full by (auto simp: o intro!: deliversI [of _ sent torn])
  next
    case shed
    then have e: "enqueue fr s = s\<lparr>oQueue := q @ [fr]\<rparr>" by (simp add: enqueue_def)
    have "subseq (sent @ in_hand s @ q) (?all sent)"
      using dropOldestEvent_responses(3) [OF shed(4), of "[]"]
      by (simp add: list_emb_append_mono)
    then have "subseq ((sent @ in_hand s @ q) @ [fr]) (offered acts @ [fr])"
      using sub by (intro list_emb_append_mono) (blast intro: subseq_order.order_trans, simp)
    with shed(1,2) e w tn full dropOldestEvent_responses(1) [OF shed(4)] show ?thesis
      by (auto simp: o intro!: deliversI [of _ sent torn])
  next
    case lost
    then have "enqueue fr s = s\<lparr>oFailed := True, oQueue := [], oStalled := oStalled s + 1\<rparr>"
      by (simp add: enqueue_def failStreamLocked_def)
    moreover have "subseq (sent @ in_hand s) ?o"
      using sub' list_emb_append_mono [of "(=)" "sent @ in_hand s" "sent @ in_hand s" "[]" "oQueue s"]
      by (auto intro: subseq_order.order_trans)
    moreover have "prefix (responses (sent @ in_hand s)) (responses ?o)"
      using pre' by (metis append_assoc append_prefixD responses_simps(2))
    ultimately show ?thesis
      using w torn_ok_failed [OF tn] by (auto intro!: deliversI [of _ sent torn])
  qed
qed

lemma offered_other [simp]: "(\<And>fr. a \<noteq> Send fr) \<Longrightarrow> offered (acts @ [a]) = offered acts"
  by (cases a) (auto simp: offered_snoc)

lemma delivers_run: "out_runs acts s \<Longrightarrow> delivers acts s"
proof (induction rule: out_runs.induct)
  case start
  show ?case
    by (rule deliversI [of _ "[]" "[]"]) (simp_all add: NewServer_def in_hand_def torn_ok_def offered_def)
next
  case (more acts s a s')
  note ok = stream_ok_run [OF more(1)]
  from more(3) obtain sent torn where
    w: "oWire s = on_wire sent @ torn" and sub: "subseq (sent @ in_hand s @ oQueue s) (offered acts)" and
    pre: "prefix (responses (sent @ in_hand s @ oQueue s)) (responses (offered acts))" and tn: "torn_ok s torn" and
    full: "\<not> oFailed s \<longrightarrow> responses (sent @ in_hand s @ oQueue s) = responses (offered acts)"
    unfolding delivers_def by blast
  from more(2) show ?case
  proof (cases rule: out_step.cases)
    case (send fr)
    with delivers_send [OF more(3) ok] show ?thesis by simp
  next
    case (take fr q)
    with w sub pre tn full show ?thesis
      by (intro deliversI [of _ sent torn]) (auto simp: in_hand_def torn_ok_def)
  next
    case (wrote fr)
    with w sub pre tn full show ?thesis
      by (intro deliversI [of _ "sent @ [fr]" "[]"]) (auto simp: in_hand_def torn_ok_def)
  next
    case (broke fr k)
    with w sub pre tn full show ?thesis
      by (intro deliversI [of _ sent "List.take k (frame_line fr)"]) (auto simp: in_hand_def torn_ok_def take_is_prefix)
  next
    case (give_up fr)
    have 1: "subseq sent (offered acts)"
      using sub list_emb_append_mono [of "(=)" sent sent "[]" "in_hand s @ oQueue s"]
      by (auto intro: subseq_order.order_trans)
    have 2: "prefix (responses sent) (responses (offered acts))"
      using pre by (metis append_prefixD responses_simps(2))
    from give_up w tn full 1 2 ok show ?thesis
      by (intro deliversI [of _ sent torn])
        (auto simp: in_hand_def torn_ok_def failStreamLocked_def stream_ok_def split: if_splits)
  next
    case return
    with w sub pre tn full show ?thesis
      by (intro deliversI [of _ sent torn]) (auto simp: in_hand_def torn_ok_def)
  next
    case stop
    with w sub pre tn full show ?thesis
      by (intro deliversI [of _ sent torn]) auto
  qed
qed

section \<open>What a client sees\<close>


text \<open>A stream is given up only after a broken write or under a backlog of responses alone, and once: the channel its
  owner waits on is closed at most one time.\<close>

theorem given_up_for_a_reason:
  assumes "out_runs acts s"
  shows "oStalled s \<le> 1" and
    "out_step s a s' \<Longrightarrow> \<not> oFailed s \<Longrightarrow> oFailed s' \<Longrightarrow>
       a = GiveUp \<or> (\<exists>fr. a = Send fr) \<and> length (oQueue s) = outQueueDepth \<and> responses (oQueue s) = oQueue s"
proof -
  note ok = stream_ok_run [OF assms]
  then show "oStalled s \<le> 1" by (simp add: stream_ok_def)
  assume "out_step s a s'" "\<not> oFailed s" "oFailed s'"
  then show "a = GiveUp \<or> (\<exists>fr. a = Send fr) \<and> length (oQueue s) = outQueueDepth \<and> responses (oQueue s) = oQueue s"
  proof (cases rule: out_step.cases)
    case (send fr)
    with \<open>\<not> oFailed s\<close> \<open>oFailed s'\<close> have "outQueueDepth \<le> length (oQueue s)" "dropOldestEventLocked (oQueue s) = None"
      by (auto simp: enqueue_def split: if_splits option.splits)
    with ok send show ?thesis
      by (auto simp: dropOldestEvent_None stream_ok_def responses_def)
  qed auto
qed

text \<open>The writer never hangs on its own: once it is stopped, or the stream is given up, it has a step to make until it
  has returned, and every one of them brings it closer.\<close>

fun of_writer :: "out_act \<Rightarrow> bool" where
  "of_writer (Send _) = False"
| "of_writer StopWriter = False"
| "of_writer _ = True"

definition writer_left :: "out_stream \<Rightarrow> nat" where
  "writer_left s =
     2 * length (oQueue s) + (case oWriter s of Waiting \<Rightarrow> 1 | Writing _ \<Rightarrow> 2 | Failing _ \<Rightarrow> 1 | Returned \<Rightarrow> 0)"

theorem writer_finishes:
  assumes "oClosed s \<or> oFailed s"
  shows "oWriter s \<noteq> Returned \<Longrightarrow> \<exists>a s'. of_writer a \<and> out_step s a s'"
    and "of_writer a \<Longrightarrow> out_step s a s' \<Longrightarrow> writer_left s' < writer_left s \<and> (oClosed s' \<or> oFailed s')"
    and "writer_left s \<le> 2 * length (oQueue s) + 2"
proof -
  show "\<exists>a s'. of_writer a \<and> out_step s a s'" if "oWriter s \<noteq> Returned"
  proof (cases "oWriter s")
    case Waiting
    show ?thesis
    proof (cases "oFailed s \<or> oQueue s = []")
      case True
      with Waiting assms have "out_step s Return (s\<lparr>oWriter := Returned\<rparr>)" by (intro out_step.return) auto
      then show ?thesis by (intro exI [of _ Return]) auto
    next
      case False
      then obtain fr q where "oQueue s = fr # q" "\<not> oFailed s" by (cases "oQueue s") auto
      with out_step.take [OF Waiting] show ?thesis by (intro exI [of _ Take]) auto
    qed
  next
    case (Writing fr)
    with out_step.wrote show ?thesis by (intro exI [of _ Wrote]) auto
  next
    case (Failing fr)
    with out_step.give_up show ?thesis by (intro exI [of _ GiveUp]) auto
  qed (use that in auto)
  show "writer_left s' < writer_left s \<and> (oClosed s' \<or> oFailed s')" if "of_writer a" "out_step s a s'"
    using that(2,1) assms
    by (cases rule: out_step.cases) (auto simp: writer_left_def failStreamLocked_def)
  show "writer_left s \<le> 2 * length (oQueue s) + 2"
    by (simp add: writer_left_def split: writer_at.splits)
qed

text \<open>A client that hears one event and one response, and whose stream then breaks inside the next frame.\<close>

definition ex_frame :: "bool \<Rightarrow> string \<Rightarrow> out_frame" where
  "ex_frame e l = \<lparr>frame_line = l, frame_event = e\<rparr>"

definition ex_acts :: "out_act list" where
  "ex_acts = [Send (ex_frame True ''e''), Send (ex_frame False ''r''), Take, Wrote, Take, Wrote, Send (ex_frame False ''ss''),
     Take, Broke 1, GiveUp]"

definition ex_end :: out_stream where
  "ex_end = \<lparr>oQueue = [], oClosed = False, oFailed = True, oStalled = 1, oWriter = Returned, oWire = ''ers''\<rparr>"

lemma ex_run: "out_runs ex_acts ex_end"
proof -
  let ?fr = "\<lambda>e l. \<lparr>frame_line = l, frame_event = e\<rparr>"
  let ?s = "\<lambda>q f wr w. \<lparr>oQueue = q, oClosed = False, oFailed = f, oStalled = (if f then 1 else 0), oWriter = wr, oWire = w\<rparr>"
  have steps:
    "out_step (?s [] False Waiting []) (Send (?fr True ''e'')) (?s [?fr True ''e''] False Waiting [])"
    "out_step (?s [?fr True ''e''] False Waiting []) (Send (?fr False ''r'')) (?s [?fr True ''e'', ?fr False ''r''] False Waiting [])"
    "out_step (?s [?fr True ''e'', ?fr False ''r''] False Waiting []) Take (?s [?fr False ''r''] False (Writing (?fr True ''e'')) [])"
    "out_step (?s [?fr False ''r''] False (Writing (?fr True ''e'')) []) Wrote (?s [?fr False ''r''] False Waiting ''e'')"
    "out_step (?s [?fr False ''r''] False Waiting ''e'') Take (?s [] False (Writing (?fr False ''r'')) ''e'')"
    "out_step (?s [] False (Writing (?fr False ''r'')) ''e'') Wrote (?s [] False Waiting ''er'')"
    "out_step (?s [] False Waiting ''er'') (Send (?fr False ''ss'')) (?s [?fr False ''ss''] False Waiting ''er'')"
    "out_step (?s [?fr False ''ss''] False Waiting ''er'') Take (?s [] False (Writing (?fr False ''ss'')) ''er'')"
    "out_step (?s [] False (Writing (?fr False ''ss'')) ''er'') (Broke 1) (?s [] False (Failing (?fr False ''ss'')) ''ers'')"
    "out_step (?s [] False (Failing (?fr False ''ss'')) ''ers'') GiveUp (?s [] True Returned ''ers'')"
    by (simp_all add: out_step.simps enqueue_def outQueueDepth_def failStreamLocked_def)
  have r0: "out_runs [] (?s [] False Waiting [])"
    using out_runs.start by (simp add: NewServer_def)
  note r1 = out_runs.more [OF r0 steps(1)]
  note r2 = out_runs.more [OF r1 steps(2)]
  note r3 = out_runs.more [OF r2 steps(3)]
  note r4 = out_runs.more [OF r3 steps(4)]
  note r5 = out_runs.more [OF r4 steps(5)]
  note r6 = out_runs.more [OF r5 steps(6)]
  note r7 = out_runs.more [OF r6 steps(7)]
  note r8 = out_runs.more [OF r7 steps(8)]
  note r9 = out_runs.more [OF r8 steps(9)]
  note r10 = out_runs.more [OF r9 steps(10)]
  show ?thesis
    using r10 by (simp add: ex_acts_def ex_end_def ex_frame_def)
qed


end
