(* ===== verification/Listener.thy ===== *)
theory Listener
  imports Peer_Auth Outbound
begin

text \<open>
  Serving clients (\<^verbatim>\<open>core/control/server.go\<close>, \<^verbatim>\<open>listener.go\<close>, \<^verbatim>\<open>protocol.go\<close> and the gate of \<^verbatim>\<open>Handle\<close> in
  \<^verbatim>\<open>daemon.go\<close>): the lines of a stream, one request's way to its response, and the accept loop with its sessions.
  The command table, the JSON codec and the peers are arguments.
\<close>

section \<open>Lines and frames\<close>

definition maxRequestBytes :: nat where
  "maxRequestBytes = 4 * 1024 * 1024"

text \<open>The requests of a stream that ended after \<open>data\<close>, and whether the scanner stopped with an error.\<close>

definition request_lines :: "string \<Rightarrow> string list \<times> bool" where
  "request_lines data =
     (let (ls, err) = scan_tokens maxRequestBytes data in (filter (\<lambda>l. l \<noteq> []) (map trim_space ls), err))"

definition marshalLine :: "('v \<Rightarrow> string option) \<Rightarrow> 'v \<Rightarrow> string option" where
  "marshalLine json v = map_option (\<lambda>b. b @ [CHR 0x0A]) (json v)"

text \<open>The body's fields merged behind the event's name: \<open>prefix_raw\<close> and \<open>body_raw\<close> are the two marshalled objects.\<close>

definition marshalEvent :: "string \<Rightarrow> string \<Rightarrow> string" where
  "marshalEvent prefix_raw body_raw =
     (if 2 < length body_raw then butlast prefix_raw @ '','' @ tl body_raw else prefix_raw) @ [CHR 0x0A]"

text \<open>An object written as its members, in braces.\<close>

definition object_text :: "string \<Rightarrow> string" where
  "object_text members = ''{'' @ members @ ''}''"

lemma marshalEvent_merges:
  "marshalEvent (object_text e) (object_text b) =
     object_text (if b = [] then e else e @ '','' @ b) @ [CHR 0x0A]"
  by (simp add: marshalEvent_def object_text_def butlast_append)

section \<open>One request\<close>

record 'a request =
  req_id :: int
  req_cmd :: string
  req_args :: 'a

datatype 'e reply_error = BadRequest string | NeedsAdmin string | InternalError string | CommandError 'e

record ('e, 'b) response =
  resp_id :: int
  resp_body :: "'e reply_error + 'b"

definition newError :: "int \<Rightarrow> 'e reply_error \<Rightarrow> ('e, 'b) response" where
  "newError n e = \<lparr>resp_id = n, resp_body = Inl e\<rparr>"

definition newResult :: "int \<Rightarrow> 'b \<Rightarrow> ('e, 'b) response" where
  "newResult n v = \<lparr>resp_id = n, resp_body = Inr v\<rparr>"

text \<open>What a command handler does: it panics, refuses or answers, and leaves the daemon in some state.\<close>

datatype ('e, 'b) outcome = Panics string | Refuses 'e | Answers 'b

text \<open>
  What the sessions rely on: the verdict on a peer and the log lines of a refusal, the decoder, the command table, the
  log line of a command refused for want of authority, the encoder of a response and the daemon's own \<^verbatim>\<open>Close\<close>.
\<close>

record ('c, 'd, 'a, 'e, 'b) serving =
  sv_auth :: "'c \<Rightarrow> verdict"
  sv_warnings :: "'c \<Rightarrow> string list"
  sv_decode :: "string \<Rightarrow> string + 'a request"
  sv_table :: "'d \<Rightarrow> 'a request \<Rightarrow> 'd \<times> ('e, 'b) outcome"
  sv_denied :: "'a request \<Rightarrow> string"
  sv_encode :: "('e, 'b) response \<Rightarrow> string option"
  sv_close :: "'d \<Rightarrow> 'd"

text \<open>\<^verbatim>\<open>Handle\<close> behind \<^verbatim>\<open>dispatchRequest\<close>: the gate, the table, and a panic turned into an answer.  The third
  component says whether the request reached the table.\<close>

definition dispatchRequest ::
    "('c, 'd, 'a, 'e, 'b) serving \<Rightarrow> bool option \<Rightarrow> 'd \<Rightarrow> 'a request \<Rightarrow> 'd \<times> ('e, 'b) response \<times> bool" where
  "dispatchRequest env ctx d req =
     (if refuses ctx (req_cmd req) then (d, newError (req_id req) (NeedsAdmin (req_cmd req)), False)
      else let (d', out) = sv_table env d req
           in (d', (case out of
                      Panics msg \<Rightarrow> newError (req_id req) (InternalError msg)
                    | Refuses e \<Rightarrow> newError (req_id req) (CommandError e)
                    | Answers b \<Rightarrow> newResult (req_id req) b), True))"

definition CmdCheckNodes :: string where
  "CmdCheckNodes = ''check_nodes''"

definition runsInBackground :: "string \<Rightarrow> bool" where
  "runsInBackground cmd \<longleftrightarrow> cmd = CmdCheckNodes"

section \<open>Sessions\<close>

text \<open>Where the serving goroutine of a session is: waiting for a line, in a command, unwinding (its lane still to be
  joined), or returned.\<close>

datatype 'a serving_at = Serving | Busy "'a request" | Unwinding | Gone

text \<open>\<open>s_open\<close> is the connection together with the session's context, which are closed and cancelled together.\<close>

record ('c, 'a) session =
  s_peer :: 'c
  s_privileged :: bool
  s_open :: bool
  s_at :: "'a serving_at"
  s_lane :: "'a request list"
  s_out :: out_stream

datatype accepting = Accepting | ShuttingDown | Ended

text \<open>\<open>l_reached\<close> remembers which requests reached the command table, and for which session.\<close>

record ('c, 'd, 'a) listener =
  l_sessions :: "('c, 'a) session list"
  l_cur :: "nat option"
  l_daemon :: 'd
  l_at :: accepting
  l_reached :: "(nat \<times> 'a request) list"

definition new_listener :: "'d \<Rightarrow> ('c, 'd, 'a) listener" where
  "new_listener d = \<lparr>l_sessions = [], l_cur = None, l_daemon = d, l_at = Accepting, l_reached = []\<rparr>"

definition on_session ::
    "nat \<Rightarrow> (('c, 'a) session \<Rightarrow> ('c, 'a) session) \<Rightarrow> ('c, 'd, 'a) listener \<Rightarrow> ('c, 'd, 'a) listener" where
  "on_session i f st = st\<lparr>l_sessions := (l_sessions st)[i := f (l_sessions st ! i)]\<rparr>"

definition put_frame :: "out_frame \<Rightarrow> ('c, 'a) session \<Rightarrow> ('c, 'a) session" where
  "put_frame fr se = se\<lparr>s_out := enqueue fr (s_out se)\<rparr>"

text \<open>The daemon's event sink is the server made last.\<close>

definition emit :: "string \<Rightarrow> ('c, 'd, 'a) listener \<Rightarrow> ('c, 'd, 'a) listener" where
  "emit line st =
     (if l_sessions st = [] then st
      else on_session (length (l_sessions st) - 1) (put_frame \<lparr>frame_line = line, frame_event = True\<rparr>) st)"

definition writeResponse ::
    "('c, 'd, 'a, 'e, 'b) serving \<Rightarrow> nat \<Rightarrow> ('e, 'b) response \<Rightarrow> ('c, 'd, 'a) listener \<Rightarrow> ('c, 'd, 'a) listener" where
  "writeResponse env i resp st =
     (case marshalLine (sv_encode env) resp of
        None \<Rightarrow> st
      | Some line \<Rightarrow> on_session i (put_frame \<lparr>frame_line = line, frame_event = False\<rparr>) st)"

definition session_close :: "('c, 'a) session \<Rightarrow> ('c, 'a) session" where
  "session_close se = se\<lparr>s_open := False\<rparr>"

definition close_current :: "('c, 'd, 'a) listener \<Rightarrow> ('c, 'd, 'a) listener" where
  "close_current st =
     (case l_cur st of None \<Rightarrow> st | Some i \<Rightarrow> (on_session i session_close st)\<lparr>l_cur := None\<rparr>)"

definition startSession :: "'c \<Rightarrow> bool \<Rightarrow> ('c, 'd, 'a) listener \<Rightarrow> ('c, 'd, 'a) listener" where
  "startSession peer privilege st =
     st\<lparr>l_sessions := l_sessions st @ [\<lparr>s_peer = peer, s_privileged = privilege, s_open = True, s_at = Serving,
          s_lane = [], s_out = NewServer\<rparr>],
        l_cur := Some (length (l_sessions st))\<rparr>"

definition accept_peer :: "('c, 'd, 'a, 'e, 'b) serving \<Rightarrow> 'c \<Rightarrow> ('c, 'd, 'a) listener \<Rightarrow> ('c, 'd, 'a) listener" where
  "accept_peer env peer st =
     (if \<not> allowed (sv_auth env peer) then fold emit (sv_warnings env peer) st
      else startSession peer (privileged (sv_auth env peer)) (close_current st))"

text \<open>A request of session \<open>i\<close> served, wherever it runs; its command takes effect in one step.\<close>

definition serve_request ::
    "('c, 'd, 'a, 'e, 'b) serving \<Rightarrow> nat \<Rightarrow> 'a request \<Rightarrow> ('c, 'd, 'a) listener \<Rightarrow> ('c, 'd, 'a) listener" where
  "serve_request env i req st =
     (let (d, resp, reached) =
            dispatchRequest env (withPeerPrivilege None (s_privileged (l_sessions st ! i))) (l_daemon st) req;
          st1 = st\<lparr>l_daemon := d, l_reached := l_reached st @ (if reached then [(i, req)] else [])\<rparr>
      in writeResponse env i resp (if reached then st1 else emit (sv_denied env req) st1))"

text \<open>A line of session \<open>i\<close>: what cannot be decoded is answered at once, the rest is started.\<close>

definition handleLine ::
    "('c, 'd, 'a, 'e, 'b) serving \<Rightarrow> nat \<Rightarrow> string \<Rightarrow> ('c, 'd, 'a) listener \<Rightarrow> ('c, 'd, 'a) listener" where
  "handleLine env i line st =
     (case sv_decode env line of
        Inl msg \<Rightarrow> writeResponse env i (newError 0 (BadRequest msg)) st
      | Inr req \<Rightarrow>
          on_session i (\<lambda>se. if runsInBackground (req_cmd req) then se\<lparr>s_lane := s_lane se @ [req]\<rparr>
                             else se\<lparr>s_at := Busy req\<rparr>) st)"

text \<open>
  The steps: a peer accepted, the accept failing, a line of a session, its command ending, a command of its lane
  ending, its loop leaving, its end, its watcher seeing the stream given up, a step of its writer, something the daemon
  does on its own, and the listener's end once every session has returned.
\<close>

datatype ('c, 'd) l_act =
  Accept 'c | AcceptFails | Line nat string | CommandEnds nat | LaneEnds nat nat | Leaves nat | Ends nat | Watched nat
  | Writes nat out_act | Own 'd "string list" | Finishes

inductive l_step ::
    "('c, 'd, 'a, 'e, 'b) serving \<Rightarrow> ('c, 'd, 'a) listener \<Rightarrow> ('c, 'd) l_act \<Rightarrow> ('c, 'd, 'a) listener \<Rightarrow> bool"
  for env where
  accept: "l_at st = Accepting \<Longrightarrow> l_step env st (Accept peer) (accept_peer env peer st)"
| fails: "l_at st = Accepting \<Longrightarrow> l_step env st AcceptFails ((close_current st)\<lparr>l_at := ShuttingDown\<rparr>)"
| line: "i < length (l_sessions st) \<Longrightarrow> s_at (l_sessions st ! i) = Serving \<Longrightarrow>
    l_step env st (Line i txt) (handleLine env i txt st)"
| command: "i < length (l_sessions st) \<Longrightarrow> s_at (l_sessions st ! i) = Busy req \<Longrightarrow>
    l_step env st (CommandEnds i) (serve_request env i req (on_session i (\<lambda>se. se\<lparr>s_at := Serving\<rparr>) st))"
| lane: "i < length (l_sessions st) \<Longrightarrow> k < length (s_lane (l_sessions st ! i)) \<Longrightarrow>
    req = s_lane (l_sessions st ! i) ! k \<Longrightarrow>
    l_step env st (LaneEnds i k)
      (serve_request env i req
        (on_session i (\<lambda>se. se\<lparr>s_lane := List.take k (s_lane se) @ drop (Suc k) (s_lane se)\<rparr>) st))"
| leaves: "i < length (l_sessions st) \<Longrightarrow> s_at (l_sessions st ! i) = Serving \<Longrightarrow>
    l_step env st (Leaves i) (on_session i (\<lambda>se. se\<lparr>s_at := Unwinding\<rparr>) st)"
| ends: "i < length (l_sessions st) \<Longrightarrow> s_at (l_sessions st ! i) = Unwinding \<Longrightarrow> s_lane (l_sessions st ! i) = [] \<Longrightarrow>
    l_step env st (Ends i)
      (on_session i (\<lambda>se. se\<lparr>s_open := False, s_at := Gone, s_out := (s_out se)\<lparr>oClosed := True\<rparr>\<rparr>) st)"
| watched: "i < length (l_sessions st) \<Longrightarrow> oFailed (s_out (l_sessions st ! i)) \<Longrightarrow>
    l_step env st (Watched i) (on_session i session_close st)"
| writes: "i < length (l_sessions st) \<Longrightarrow> of_writer a \<Longrightarrow> out_step (s_out (l_sessions st ! i)) a out' \<Longrightarrow>
    l_step env st (Writes i a) (on_session i (\<lambda>se. se\<lparr>s_out := out'\<rparr>) st)"
| own: "l_at st \<noteq> Ended \<Longrightarrow> l_step env st (Own d evs) (fold emit evs (st\<lparr>l_daemon := d\<rparr>))"
| finishes: "l_at st = ShuttingDown \<Longrightarrow> \<forall>se\<in>set (l_sessions st). s_at se = Gone \<Longrightarrow>
    l_step env st Finishes (st\<lparr>l_daemon := sv_close env (l_daemon st), l_at := Ended\<rparr>)"

inductive_cases l_stepE: "l_step env st a st'"

inductive l_runs ::
    "('c, 'd, 'a, 'e, 'b) serving \<Rightarrow> 'd \<Rightarrow> ('c, 'd) l_act list \<Rightarrow> ('c, 'd, 'a) listener \<Rightarrow> bool"
  for env and d where
  start: "l_runs env d [] (new_listener d)"
| more: "l_runs env d acts st \<Longrightarrow> l_step env st a st' \<Longrightarrow> l_runs env d (acts @ [a]) st'"

section \<open>The invariant of the listener\<close>

definition session_ok :: "('c, 'd, 'a, 'e, 'b) serving \<Rightarrow> ('c, 'a) session \<Rightarrow> bool" where
  "session_ok env se \<longleftrightarrow>
     allowed (sv_auth env (s_peer se)) \<and> s_privileged se = privileged (sv_auth env (s_peer se)) \<and>
     (s_at se = Gone \<longrightarrow> s_lane se = []) \<and> (\<exists>acts. out_runs acts (s_out se))"

definition listener_ok :: "('c, 'd, 'a, 'e, 'b) serving \<Rightarrow> ('c, 'd, 'a) listener \<Rightarrow> bool" where
  "listener_ok env st \<longleftrightarrow>
     (\<forall>i < length (l_sessions st). s_open (l_sessions st ! i) \<longrightarrow> l_cur st = Some i) \<and>
     (\<forall>i. l_cur st = Some i \<longrightarrow> Suc i = length (l_sessions st)) \<and>
     (\<forall>se\<in>set (l_sessions st). session_ok env se) \<and>
     (\<forall>(i, req)\<in>set (l_reached st). i < length (l_sessions st) \<and>
        (requiresAdminPeer (req_cmd req) \<longrightarrow> s_privileged (l_sessions st ! i))) \<and>
     (l_at st \<noteq> Accepting \<longrightarrow> l_cur st = None) \<and>
     (l_at st = Ended \<longrightarrow> (\<forall>se\<in>set (l_sessions st). s_at se = Gone))"

text \<open>A change of one session that the invariant allows.\<close>

definition tame :: "('c, 'a) session \<Rightarrow> ('c, 'a) session \<Rightarrow> bool" where
  "tame se se' \<longleftrightarrow>
     s_peer se' = s_peer se \<and> s_privileged se' = s_privileged se \<and> (s_open se' \<longrightarrow> s_open se) \<and>
     (s_at se = Gone \<longrightarrow> s_at se' = Gone) \<and>
     (s_at se' = Gone \<and> (s_at se = Gone \<longrightarrow> s_lane se = []) \<longrightarrow> s_lane se' = []) \<and>
     ((\<exists>acts. out_runs acts (s_out se)) \<longrightarrow> (\<exists>acts. out_runs acts (s_out se')))"

lemma ok_on_session:
  assumes ok: "listener_ok env st" and i: "i < length (l_sessions st)" and t: "tame (l_sessions st ! i) (f (l_sessions st ! i))"
  shows "listener_ok env (on_session i f st)"
proof -
  let ?ss = "l_sessions st" let ?se = "f (l_sessions st ! i)"
  have se: "session_ok env ?se"
    using ok i t nth_mem [OF i] by (fastforce simp: listener_ok_def session_ok_def tame_def)
  then have all: "\<forall>se\<in>set (?ss[i := ?se]). session_ok env se"
    using ok by (auto simp: listener_ok_def dest: set_update_subset_insert [THEN subsetD])
  have gone: "l_at st = Ended \<longrightarrow> (\<forall>se\<in>set (?ss[i := ?se]). s_at se = Gone)"
    using ok i t nth_mem [OF i] by (auto simp: listener_ok_def tame_def dest: set_update_subset_insert [THEN subsetD])
  have priv: "s_privileged (?ss[i := ?se] ! j) = s_privileged (?ss ! j)" if "j < length ?ss" for j
    using t that by (cases "j = i") (auto simp: tame_def)
  have opn: "s_open (?ss[i := ?se] ! j) \<longrightarrow> s_open (?ss ! j)" if "j < length ?ss" for j
    using t that by (cases "j = i") (auto simp: tame_def)
  show ?thesis
    using ok all gone priv opn
    by (auto simp: listener_ok_def on_session_def split: prod.splits)
qed

lemma tame_put_frame [intro]: "tame se (put_frame fr se)"
proof -
  have "out_runs acts (s_out se) \<Longrightarrow> out_runs (acts @ [Send fr]) (enqueue fr (s_out se))" for acts
    by (rule out_runs.more) (auto intro: out_step.send)
  then show ?thesis by (auto simp: tame_def put_frame_def)
qed

lemma on_session_simps [simp]:
  "length (l_sessions (on_session i f st)) = length (l_sessions st)" "l_cur (on_session i f st) = l_cur st"
  "l_daemon (on_session i f st) = l_daemon st" "l_at (on_session i f st) = l_at st"
  "l_reached (on_session i f st) = l_reached st"
  by (simp_all add: on_session_def)

lemma emit_simps [simp]:
  "length (l_sessions (emit line st)) = length (l_sessions st)" "l_cur (emit line st) = l_cur st"
  "l_daemon (emit line st) = l_daemon st" "l_at (emit line st) = l_at st" "l_reached (emit line st) = l_reached st"
  by (simp_all add: emit_def)

lemma ok_emit: "listener_ok env st \<Longrightarrow> listener_ok env (emit line st)"
  by (cases "l_sessions st = []") (auto simp: emit_def intro!: ok_on_session)

lemma ok_fold_emit: "listener_ok env st \<Longrightarrow> listener_ok env (fold emit lines st)"
  by (induction lines arbitrary: st) (auto intro: ok_emit)

lemma ok_writeResponse:
  "listener_ok env st \<Longrightarrow> i < length (l_sessions st) \<Longrightarrow> listener_ok env (writeResponse env i resp st)"
  by (auto simp: writeResponse_def intro!: ok_on_session split: option.splits)

lemma ok_daemon: "listener_ok env st \<Longrightarrow> listener_ok env (st\<lparr>l_daemon := d\<rparr>)"
  by (simp add: listener_ok_def)

lemma ok_close_current: "listener_ok env st \<Longrightarrow> listener_ok env (close_current st)"
proof (cases "l_cur st")
  case (Some i)
  assume ok: "listener_ok env st"
  with Some have i: "Suc i = length (l_sessions st)" by (simp add: listener_ok_def)
  have "listener_ok env (on_session i session_close st)"
    using ok i by (intro ok_on_session) (auto simp: tame_def session_close_def)
  moreover have "\<not> s_open (l_sessions (on_session i session_close st) ! j)" if "j < length (l_sessions st)" for j
    using ok Some i that by (cases "j = i") (auto simp: listener_ok_def on_session_def session_close_def)
  ultimately show ?thesis
    using Some by (auto simp: close_current_def listener_ok_def)
qed (simp add: close_current_def)

lemma close_current_simps [simp]:
  "l_cur (close_current st) = None" "length (l_sessions (close_current st)) = length (l_sessions st)"
  "l_daemon (close_current st) = l_daemon st" "l_at (close_current st) = l_at st"
  "l_reached (close_current st) = l_reached st"
  by (simp_all add: close_current_def split: option.splits)

lemma ok_startSession:
  assumes "listener_ok env st" and "l_cur st = None" and "allowed (sv_auth env peer)" and "l_at st = Accepting"
  shows "listener_ok env (startSession peer (privileged (sv_auth env peer)) st)"
  using assms out_runs.start
  by (auto simp: listener_ok_def startSession_def session_ok_def nth_append split: prod.splits)

lemma dispatch_reached:
  "dispatchRequest env (Some p) d req = (d', resp, True) \<Longrightarrow> requiresAdminPeer (req_cmd req) \<Longrightarrow> p"
  by (auto simp: dispatchRequest_def refuses_def peerPrivilegeFrom_def split: if_splits)

lemma ok_serve_request:
  assumes ok: "listener_ok env st" and i: "i < length (l_sessions st)"
  shows "listener_ok env (serve_request env i req st)"
proof -
  obtain d resp reached where r:
    "dispatchRequest env (Some (s_privileged (l_sessions st ! i))) (l_daemon st) req = (d, resp, reached)"
    by (metis prod_cases3)
  let ?st = "st\<lparr>l_daemon := d, l_reached := l_reached st @ (if reached then [(i, req)] else [])\<rparr>"
  have "listener_ok env ?st"
    using ok i dispatch_reached [of env _ "l_daemon st" req d resp] r
    by (auto simp: listener_ok_def split: prod.splits)
  then show ?thesis
    using i r by (auto simp: serve_request_def withPeerPrivilege_def Let_def intro!: ok_writeResponse ok_emit)
qed

lemma listener_ok_step:
  assumes "l_step env st a st'" and ok: "listener_ok env st"
  shows "listener_ok env st'"
  using assms(1)
proof (cases rule: l_step.cases)
  case (accept peer)
  with ok show ?thesis
    by (auto simp: accept_peer_def intro!: ok_fold_emit ok_startSession ok_close_current)
next
  case fails
  with ok_close_current [OF ok] show ?thesis by (auto simp: listener_ok_def)
next
  case (line i l)
  with ok show ?thesis
    by (auto simp: handleLine_def tame_def intro!: ok_writeResponse ok_on_session split: sum.splits)
next
  case (command i req)
  with ok show ?thesis by (auto simp: tame_def intro!: ok_serve_request ok_on_session)
next
  case (lane i k req)
  with ok show ?thesis by (auto simp: tame_def intro!: ok_serve_request ok_on_session)
next
  case (leaves i)
  with ok show ?thesis by (auto simp: tame_def intro!: ok_on_session)
next
  case (ends i)
  have "\<exists>acts. out_runs acts (out\<lparr>oClosed := True\<rparr>)" if "out_runs acts out" for acts out
    using out_runs.more [OF that out_step.stop] by blast
  with ends ok show ?thesis by (auto simp: tame_def intro!: ok_on_session)
next
  case (watched i)
  with ok show ?thesis by (auto simp: tame_def session_close_def intro!: ok_on_session)
next
  case (writes i a out')
  have "\<exists>acts. out_runs acts out'" if "out_runs acts (s_out (l_sessions st ! i))" for acts
    using out_runs.more [OF that] writes by blast
  with writes ok show ?thesis by (auto simp: tame_def intro!: ok_on_session)
next
  case (own d evs)
  with ok show ?thesis by (auto intro!: ok_fold_emit ok_daemon)
next
  case finishes
  with ok show ?thesis by (auto simp: listener_ok_def)
qed

lemma listener_ok_run: "l_runs env d acts st \<Longrightarrow> listener_ok env st"
proof (induction rule: l_runs.induct)
  case start
  show ?case by (simp add: listener_ok_def new_listener_def)
qed (rule listener_ok_step)

section \<open>What the clients and the daemon can rely on\<close>

text \<open>At most one session is open, it is the newest, and the daemon's events go to it and to no other.\<close>

theorem one_session_at_a_time:
  assumes "l_runs env d acts st"
  shows "i < length (l_sessions st) \<Longrightarrow> s_open (l_sessions st ! i) \<Longrightarrow> Suc i = length (l_sessions st)"
    and "Suc i < length (l_sessions st) \<Longrightarrow> l_sessions (emit ev st) ! i = l_sessions st ! i"
  using listener_ok_run [OF assms] by (auto simp: listener_ok_def emit_def on_session_def)

text \<open>Each session's stream is a run of its own writer, so that what its client sees is in order and complete as
  \<open>client_receives_in_order\<close> says.\<close>

theorem session_streams_run:
  assumes "l_runs env d acts st" and "se \<in> set (l_sessions st)"
  shows "\<exists>out_acts. out_runs out_acts (s_out se)"
  using listener_ok_run [OF assms(1)] assms(2) by (auto simp: listener_ok_def session_ok_def)

lemma emit_keeps:
  "map s_open (l_sessions (emit ev st)) = map s_open (l_sessions st)"
  "map s_at (l_sessions (emit ev st)) = map s_at (l_sessions st)"
  "map s_lane (l_sessions (emit ev st)) = map s_lane (l_sessions st)"
  by (auto simp: emit_def on_session_def put_frame_def map_update intro!: list_update_same_conv [THEN iffD2])

lemma fold_emit_keeps:
  "map s_open (l_sessions (fold emit evs st)) = map s_open (l_sessions st)"
  "map s_at (l_sessions (fold emit evs st)) = map s_at (l_sessions st)"
  "map s_lane (l_sessions (fold emit evs st)) = map s_lane (l_sessions st)"
  "l_cur (fold emit evs st) = l_cur st" "l_daemon (fold emit evs st) = l_daemon st"
  "l_reached (fold emit evs st) = l_reached st" "l_at (fold emit evs st) = l_at st"
  by (induction evs arbitrary: st) (auto simp: emit_keeps)

text \<open>A peer that is turned away cannot disturb anybody: no session is closed, displaced or opened, no command
  started or dropped, and the daemon stays as it is.\<close>

theorem refused_peer_disturbs_nobody:
  assumes "l_step env st (Accept peer) st'" and "\<not> allowed (sv_auth env peer)"
  shows "map s_open (l_sessions st') = map s_open (l_sessions st)" "map s_at (l_sessions st') = map s_at (l_sessions st)"
    "map s_lane (l_sessions st') = map s_lane (l_sessions st)" "l_cur st' = l_cur st" "l_daemon st' = l_daemon st"
    "l_at st' = Accepting"
  using assms by (auto elim!: l_stepE simp: accept_peer_def fold_emit_keeps)

lemma writeResponse_daemon [simp]: "l_daemon (writeResponse env i resp st) = l_daemon st"
  by (simp add: writeResponse_def split: option.splits)

lemma startSession_daemon [simp]: "l_daemon (startSession peer p st) = l_daemon st"
  by (simp add: startSession_def)

text \<open>Clients coming, going and displacing one another never touch the daemon; its state changes by a command, on its
  own, or when the listener ends, and after that not at all.\<close>

theorem daemon_outlives_clients:
  assumes "l_step env st a st'" and "l_daemon st' \<noteq> l_daemon st"
  shows "(\<exists>i. a = CommandEnds i) \<or> (\<exists>i k. a = LaneEnds i k) \<or> (\<exists>d evs. a = Own d evs) \<or> a = Finishes"
  using assms
  by (auto elim!: l_stepE simp: accept_peer_def fold_emit_keeps handleLine_def split: if_splits sum.splits)

theorem nothing_runs_after_the_end:
  assumes "l_runs env d acts st" and "l_at st = Ended" and "l_step env st a st'"
  shows "l_daemon st' = l_daemon st \<and> l_reached st' = l_reached st \<and> l_at st' = Ended"
proof -
  have gone: "s_at (l_sessions st ! i) = Gone \<and> s_lane (l_sessions st ! i) = []" if "i < length (l_sessions st)" for i
    using listener_ok_run [OF assms(1)] assms(2) nth_mem [OF that] by (auto simp: listener_ok_def session_ok_def)
  from assms(3) show ?thesis
    using assms(2) gone by (cases rule: l_step.cases) (auto dest: gone)
qed

text \<open>Every request is answered under its own number, whatever its handler does.\<close>

lemma dispatch_answers: "resp_id (fst (snd (dispatchRequest env ctx d req))) = req_id req"
  by (auto simp: dispatchRequest_def newError_def newResult_def split: prod.splits outcome.splits)

text \<open>A request reaches the command table only from a peer that was admitted, and a command that hands the daemon code
  only from one that holds its authority.\<close>

lemma reached_from_admitted:
  assumes "l_runs env d acts st" and "(i, req) \<in> set (l_reached st)"
  shows "i < length (l_sessions st)" and "allowed (sv_auth env (s_peer (l_sessions st ! i)))"
    and "requiresAdminPeer (req_cmd req) \<Longrightarrow> privileged (sv_auth env (s_peer (l_sessions st ! i)))"
proof -
  note ok = listener_ok_run [OF assms(1)]
  then show i: "i < length (l_sessions st)" using assms(2) by (auto simp: listener_ok_def)
  from ok nth_mem [OF i] have "session_ok env (l_sessions st ! i)" by (auto simp: listener_ok_def)
  then show "allowed (sv_auth env (s_peer (l_sessions st ! i)))"
    and "requiresAdminPeer (req_cmd req) \<Longrightarrow> privileged (sv_auth env (s_peer (l_sessions st ! i)))"
    using ok assms(2) by (auto simp: listener_ok_def session_ok_def)
qed


section \<open>A client that imports a bundle\<close>

definition ex_import :: "unit request" where
  "ex_import = \<lparr>req_id = 7, req_cmd = CmdImportZapret, req_args = ()\<rparr>"

text \<open>The daemon's state counts the commands served; no other user is at the console.\<close>

definition ex_serving :: "(int option \<times> string option, nat, unit, string, string) serving" where
  "ex_serving = \<lparr>sv_auth = (\<lambda>(cred, console). fst (authorizePeer_unix cred 0 console)), sv_warnings = (\<lambda>_. []),
     sv_decode = (\<lambda>_. Inr ex_import), sv_table = (\<lambda>n _. (Suc n, Answers [])), sv_denied = (\<lambda>_. []),
     sv_encode = (\<lambda>_. Some []), sv_close = (\<lambda>n. n)\<rparr>"

lemma ex_admitted: "sv_auth ex_serving (Some 0, None) = \<lparr>allowed = True, privileged = True\<rparr>"
  by (simp add: ex_serving_def authorizePeer_unix_def peerAllowed_def peerPrivileged_def Let_def)

definition ex_session :: "unit serving_at \<Rightarrow> (int option \<times> string option, unit) session" where
  "ex_session at' = \<lparr>s_peer = (Some 0, None), s_privileged = True, s_open = True, s_at = at', s_lane = [], s_out = NewServer\<rparr>"

definition ex_listening :: "unit serving_at \<Rightarrow> (int option \<times> string option, nat, unit) listener" where
  "ex_listening at' = \<lparr>l_sessions = [ex_session at'], l_cur = Some 0, l_daemon = 0, l_at = Accepting, l_reached = []\<rparr>"

lemma ex_import_runs:
  "l_runs ex_serving 0 [Accept (Some 0, None), Line 0 ''import'', CommandEnds 0]
     (serve_request ex_serving 0 ex_import (ex_listening Serving))"
proof -
  have a: "l_step ex_serving (new_listener 0) (Accept (Some 0, None)) (ex_listening Serving)"
    using l_step.accept [of "new_listener 0" ex_serving "(Some 0, None)"]
    by (simp add: accept_peer_def ex_admitted new_listener_def startSession_def close_current_def ex_listening_def ex_session_def)
  have b: "l_step ex_serving (ex_listening Serving) (Line 0 ''import'') (ex_listening (Busy ex_import))"
    using l_step.line [of 0 "ex_listening Serving" ex_serving "''import''"]
    by (simp add: ex_listening_def ex_session_def handleLine_def on_session_def ex_serving_def ex_import_def
        runsInBackground_def CmdImportZapret_def CmdCheckNodes_def)
  have c: "l_step ex_serving (ex_listening (Busy ex_import)) (CommandEnds 0)
      (serve_request ex_serving 0 ex_import (ex_listening Serving))"
    using l_step.command [of 0 "ex_listening (Busy ex_import)" ex_import ex_serving]
    by (simp add: ex_listening_def ex_session_def on_session_def)
  show ?thesis
    using l_runs.more [OF l_runs.more [OF l_runs.more [OF l_runs.start a] b] c] by simp
qed


end
