(* ===== verification/Spec2Isabelle.thy ===== *)
theory Spec2Isabelle
  imports Prelude Go_Lib Node_Model Fallback Nodecheck Tunguard Route_Cover Dnswire Protection Wfp
    Tunnel_Identity Guard Profile_Store Routing_Props Control_Nodes Connect_Walk_Props
    Hotswitch_Props User_Proxy_Props Links_Props Clash_Roundtrip Control_Profiles_Props
    Log_Rotation_Props Tun_Address Exclude_Props Bypass_Props Listener
begin

text \<open>
  A verification library for the tenebra core, the Go daemon under \<^verbatim>\<open>core/\<close> that turns a user's subscriptions into
  sing-box configurations, runs one tunnel at a time, and keeps traffic from leaving outside of it.  The theories
  translate the Go source; every definition that models code carries the name of the Go function where Isabelle
  allows it.  The properties of the program are the numbered theorems (C1, C2, ...); everything else is library.

  \<^bold>\<open>The program's parts and how they meet.\<close>  A client talks to the daemon (\<^verbatim>\<open>core/control/daemon.go\<close>) by commands.
  \<^enum> A subscription or pasted text is parsed into nodes (\<^verbatim>\<open>core/subscription\<close>), stored as a profile
    (\<^verbatim>\<open>core/profile\<close>) and refreshed later.
  \<^enum> A connect ranks the nodes (\<^verbatim>\<open>core/nodecheck\<close>, \<^verbatim>\<open>core/control/daemon.go\<close>), builds one configuration out of them
    and the routing preferences (\<^verbatim>\<open>core/singbox\<close>, \<^verbatim>\<open>core/routing\<close>) and walks the candidates
    (\<^verbatim>\<open>core/control/connect.go\<close>) under the strategies of the fallback machine (\<^verbatim>\<open>core/fallback\<close>).
  \<^enum> A candidate that passes its probe becomes the connection once the host guard (\<^verbatim>\<open>core/protection\<close>) has put the
    filter policy of this tunnel into the operating system and, in system-proxy mode, the proxy lease
    (\<^verbatim>\<open>core/control/user_proxy_lease.go\<close>) has been taken.
  \<^enum> The watchdog (\<^verbatim>\<open>health.go\<close>, \<^verbatim>\<open>hotswitch.go\<close>) moves a live tunnel to another exit; a tunnel that dies under the
    kill switch is relaunched a bounded number of times; settings that touch the tunnel restart it.

  \<^bold>\<open>Foundations.\<close>  \<^verbatim>\<open>Prelude\<close> holds the fact collections, the model of Go's stable sort and the interface a
  comparison function has to meet.  \<^verbatim>\<open>Go_Lib\<close> and \<^verbatim>\<open>Go_Url\<close> model what the code uses of \<^verbatim>\<open>strings\<close>, \<^verbatim>\<open>strconv\<close>,
  \<^verbatim>\<open>net/url\<close>, \<^verbatim>\<open>net/netip\<close> and \<^verbatim>\<open>encoding/base64\<close>; \<^verbatim>\<open>Config_Value\<close> models the dynamically typed values
  (\<^verbatim>\<open>map[string]any\<close>) of the configuration.  A Go string is a list of its bytes.  Go's \<^verbatim>\<open>int\<close> is \<open>int\<close>, with
  64-bit parsing bounds written out where a number is read; the wire formats, the filter engine's identifiers and
  weights, and the route tables are words of their own width.

  \<^bold>\<open>Nodes and profiles.\<close>  \<^verbatim>\<open>Node_Model\<close> is \<^verbatim>\<open>core/model\<close>.  \<^verbatim>\<open>Links\<close> (\<^verbatim>\<open>subscription.go\<close>, \<^verbatim>\<open>links.go\<close>,
  \<^verbatim>\<open>link_*.go\<close>), \<^verbatim>\<open>Clash_Yaml\<close> (\<^verbatim>\<open>clashyaml.go\<close>), \<^verbatim>\<open>Clash\<close> (\<^verbatim>\<open>clash.go\<close>) and \<^verbatim>\<open>Subscription\<close> (\<^verbatim>\<open>parse.go\<close>,
  \<^verbatim>\<open>managed.go\<close>) are the importers; \<^verbatim>\<open>Links_Props\<close>, \<^verbatim>\<open>Clash_Yaml_Props\<close>, \<^verbatim>\<open>Clash_Props\<close>, \<^verbatim>\<open>Clash_Flow\<close>,
  \<^verbatim>\<open>Clash_Document\<close> and \<^verbatim>\<open>Clash_Roundtrip\<close> show that what they accept is usable, that a pasted block is accounted
  for, that the YAML reader always returns, and that a link or a document written from nodes is read back as those
  nodes.  \<^verbatim>\<open>Profile_Store\<close> (\<^verbatim>\<open>profile.go\<close>, \<^verbatim>\<open>store.go\<close>) has the store with failing saves and crashes, refined to a
  map.  \<^verbatim>\<open>Control_Profiles\<close> (\<^verbatim>\<open>daemon.go\<close>, \<^verbatim>\<open>entitlement.go\<close>) has the profile commands over that store and over the
  session; \<^verbatim>\<open>Control_Profiles_Props\<close> shows what a removal and a refresh leave, that stored profiles stay well formed,
  and that the premium tier needs an answer.

  \<^bold>\<open>Configurations.\<close>  \<^verbatim>\<open>Routing_Lists\<close>, \<^verbatim>\<open>Dns_Server\<close> and \<^verbatim>\<open>Routing\<close> (\<^verbatim>\<open>core/routing\<close>) generate the route and DNS
  rules; \<^verbatim>\<open>Routing_Props\<close> reads a rule list as sing-box does (the first matching rule with a route action decides) and
  shows that lookups and connections agree and that the kill switch leaves only what the user chose outside.
  \<^verbatim>\<open>Singbox_Outbound\<close> and \<^verbatim>\<open>Singbox\<close> (\<^verbatim>\<open>core/singbox\<close>) build the configuration; \<^verbatim>\<open>Singbox_Props\<close> shows that its
  references resolve, that its tags are unique over the usable nodes, and how a two-hop chain is built.
  \<^verbatim>\<open>Go_Net\<close> models the addresses and networks of Go's \<^verbatim>\<open>net\<close> package, and \<^verbatim>\<open>Tun_Address\<close> (\<^verbatim>\<open>tunaddr.go\<close>) the
  choice of the tunnel's own addresses: the first pair of networks that shares no address with an interface of the
  machine.

  \<^bold>\<open>Connecting.\<close>  \<^verbatim>\<open>Nodecheck\<close>, \<^verbatim>\<open>Fallback\<close> and \<^verbatim>\<open>Control_Nodes\<close> (candidates, tags, preferences) feed
  \<^verbatim>\<open>Connect_Walk\<close>, the walk of one connect: attempt tracker, probe loop, strategy cascade and promotion; its answers
  from outside (runner, network, clocks) come from a stream of responses, so that a theorem over all streams covers
  every behaviour of the environment.  \<^verbatim>\<open>Connect_Walk_Props\<close> shows that it returns and what its outcome means.
  \<^verbatim>\<open>Hotswitch\<close> and \<^verbatim>\<open>Hotswitch_Props\<close> do the same for the live switch and the watchdog.

  \<^bold>\<open>Protection.\<close>  \<^verbatim>\<open>Protection\<close> (\<^verbatim>\<open>policy.go\<close>) is the filter policy; \<^verbatim>\<open>Wfp\<close> (\<^verbatim>\<open>wfp_windows.go\<close>) installs it in a
  model of the Windows filter engine as transactions of native calls, any of which may fail; \<^verbatim>\<open>Guard\<close>
  (\<^verbatim>\<open>guard.go\<close>) is the persistent guard over a backend, as functions and as a step relation whose interleavings
  are all of the sessions; \<^verbatim>\<open>Tunnel_Identity\<close> (\<^verbatim>\<open>wfp_identity_windows.go\<close>) finds the adapter.  \<^verbatim>\<open>Tunguard\<close>,
  \<^verbatim>\<open>Route_Cover\<close> and \<^verbatim>\<open>Dnswire\<close> are the conflict check, the route coverage and the DNS wire format.
  \<^verbatim>\<open>User_Proxy\<close> is the lease on the user's proxy settings, with a journal that survives crashes.

  \<^bold>\<open>The daemon.\<close>  \<^verbatim>\<open>Settings\<close> and \<^verbatim>\<open>Settings_Commands\<close> (\<^verbatim>\<open>settings_file.go\<close>, the set commands of \<^verbatim>\<open>daemon.go\<close>) keep
  the preferences; \<^verbatim>\<open>Settings_Props\<close> and \<^verbatim>\<open>Settings_Restart\<close> show that the reported state mirrors them and that they
  survive a restart.  \<^verbatim>\<open>Session\<close> (\<^verbatim>\<open>connect.go\<close>, \<^verbatim>\<open>protection.go\<close>, \<^verbatim>\<open>tunconflict.go\<close>) is the state machine of the
  session: commands, the walk's outcome, process deaths and parked goroutines are the steps of
  \<^verbatim>\<open>session_step\<close>.  \<^verbatim>\<open>Session_Props\<close> proves the invariant \<^verbatim>\<open>orderly\<close>; \<^verbatim>\<open>Session_Guard\<close> shows that whatever a
  session does to the guard is a run of the guard's own steps, so that the guard's invariant carries over;
  \<^verbatim>\<open>Session_Runs\<close> has the properties of whole runs and \<^verbatim>\<open>Session_Examples\<close> applies them to a concrete daemon.

  \<^bold>\<open>The log.\<close>  \<^verbatim>\<open>Log_Rotation\<close> (\<^verbatim>\<open>core/logrot\<close>) has the rotating log file over a directory in which every call may
  fail; \<^verbatim>\<open>Log_Rotation_Props\<close> shows which bytes can be lost and how much is kept.

  \<^bold>\<open>The DPI bypass.\<close>  \<^verbatim>\<open>Exclude_List\<close> (\<^verbatim>\<open>core/zapret/exclude.go\<close>) resolves the servers that the packet filter must
  leave alone, under a budget and with a memory, and \<^verbatim>\<open>Exclude_Props\<close> shows what the written list holds.
  \<^verbatim>\<open>Bypass_Pick\<close> (\<^verbatim>\<open>zapret.go\<close>, \<^verbatim>\<open>run_windows.go\<close>, \<^verbatim>\<open>hostlists.go\<close>, \<^verbatim>\<open>voicesplit.go\<close>, \<^verbatim>\<open>pin_iface.go\<close>) lists,
  rewrites, starts and measures strategies; \<^verbatim>\<open>Bypass_Update\<close> (\<^verbatim>\<open>version.go\<close>, \<^verbatim>\<open>verify.go\<close>, \<^verbatim>\<open>update.go\<close>,
  \<^verbatim>\<open>install.go\<close>) downloads, verifies, unpacks and swaps a bundle; \<^verbatim>\<open>Bypass\<close> (\<^verbatim>\<open>core/control/zapret.go\<close>,
  \<^verbatim>\<open>bypassverify.go\<close>, \<^verbatim>\<open>zapret_update.go\<close>) is the daemon's switch, with the goroutines that go on after they let
  go of the lock and a trace of exclusions and launches.  \<^verbatim>\<open>Bypass_Props\<close> shows that off stays off unless a raise, a
  probe or a measuring begun before is still on its way, that only vouched bundles are installed and that the nodes
  are excluded before a filter is launched, except by the measuring after a failed check.  The six lemmas of its
  section on flag and filter are behaviours that the comments of the source rule out.

  \<^bold>\<open>Serving clients.\<close>  \<^verbatim>\<open>Go_Scan\<close> is Go's line scanner.  \<^verbatim>\<open>Peer_Auth\<close> (\<^verbatim>\<open>peer_auth*.go\<close>) decides who may talk to the
  daemon and who may hand it code, on Unix by the user id of the socket and the user at the console, on Windows by the
  token of the client.  \<^verbatim>\<open>Outbound\<close> (\<^verbatim>\<open>server.go\<close>) is the bounded queue to one client and its writer, and
  \<^verbatim>\<open>Listener\<close> (\<^verbatim>\<open>listener.go\<close>, \<^verbatim>\<open>server.go\<close>, \<^verbatim>\<open>protocol.go\<close>, the gate of \<^verbatim>\<open>Handle\<close>) the accept loop, its sessions and
  the way of a request to its answer; both are step relations over all interleavings.  Their theorems say what a client
  receives, that at most one session is open, that clients cannot end the daemon, and whose commands reach it.

  \<^bold>\<open>Interfaces.\<close>  Where one part relies on another, the contract is a locale, interpreted on the model's own
  definitions in the theory of the provider: \<^verbatim>\<open>key_order\<close> and \<^verbatim>\<open>key_order_irrefl\<close>, the comparison of a stable sort
  (interpreted on every comparison the code sorts by), \<^verbatim>\<open>last_good_store\<close>, the memory behind the fallback machine,
  and \<^verbatim>\<open>guard_backend\<close>, what the guard relies on (interpreted on the filter engine of \<^verbatim>\<open>Wfp\<close>).

  \<^bold>\<open>Bounds and fuel.\<close>  The YAML reader's loops share one fuel, the weight of the lines plus one; \<^verbatim>\<open>decodeYAML_returns\<close>
  shows that it never runs out, and the nesting cap of 256 is the code's own.  The connect walk terminates by a
  measure on the candidates and strategies left, with the code's own caps.  Five relaunches are the code's
  \<^verbatim>\<open>maxRelaunches\<close>.  The pruning of the log looks sixteen generations beyond the configured number, as the code
  does.  A loop over an external enumeration (\<^verbatim>\<open>ResolveTunnel\<close>) has the code's own number of attempts.

  \<^bold>\<open>Parameters.\<close>  What is not in the repository is an argument: Unicode's case tables (\<^verbatim>\<open>case_table\<close>), the JSON codecs
  of the stored files and of a vmess link, SHA-256, the sing-box process and its selector API, the network and DNS,
  clocks, the file system's answers, and the entitlement and subscription servers.  A theorem that relies on such
  code says so in a hypothesis (a codec that reads back what it wrote, a case table that is stable), and its witness
  instantiates it.

  \<^bold>\<open>Concurrency.\<close>  A critical section under one mutex is one step; goroutines that survive a critical section are parked
  in the state with the generation they captured and may run at any later point.  Data races inside the Go runtime
  are not modelled.

  \<^bold>\<open>Not modelled.\<close>  The pipe and the socket of the commands (\<^verbatim>\<open>pipe_windows.go\<close>, \<^verbatim>\<open>socket_*.go\<close>), which are system
  calls, and the serving over stdin and stdout; the platform runners under \<^verbatim>\<open>adapters/\<close> and the service wrapper under
  \<^verbatim>\<open>cmd/\<close>, which are process and service calls; the downloads (\<^verbatim>\<open>fetch.go\<close>, \<^verbatim>\<open>doh.go\<close>) and the encrypted DNS clients
  (\<^verbatim>\<open>resolver.go\<close>, \<^verbatim>\<open>dnspick.go\<close>), which are network exchanges whose answers are parameters here; of the bypass,
  importing a bundle by hand, the processes and the driver, the HTTP probes, the name resolvers and the polling of the
  filter's lock, whose answers are parameters; the measuring commands (\<^verbatim>\<open>control/nodecheck.go\<close>, \<^verbatim>\<open>servicecheck.go\<close>,
  \<^verbatim>\<open>ping_dial*.go\<close>, \<^verbatim>\<open>leakcheck.go\<close>), which are timed network calls, of which the ranking of the results is modelled;
  the watch of the adapter (\<^verbatim>\<open>tunwatch.go\<close>), which ends in the death of the process that the session has as a step;
  the diagnostics and support bundles, which only collect text; and the mobile and bridge entry points, which only
  pass values through.  The manifest's components name every one of them with its reason.
\<close>

end
